(* ===== verification/Prelude.thy ===== *)
theory Prelude
  imports Main "HOL-Library.Word" "HOL-Library.Sublist"
begin

text \<open>
  Shared vocabulary of the development.

  Rust strings (\<open>str\<close>, \<open>String\<close>, \<open>[u8]\<close>) are HOL strings: lists of \<^typ>\<open>char\<close>, one
  \<^typ>\<open>char\<close> per UTF-8 byte, so \<open>len()\<close> is \<open>length\<close> and every byte offset of the source is a
  list position here. The standard-library operations the sources use on them
  (\<open>trim\<close>, \<open>split\<close>, \<open>split_once\<close>, \<open>strip_prefix\<close>, \<open>parse::<uN>()\<close>, \<open>to_string()\<close>,
  \<open>eq_ignore_ascii_case\<close>, \<open>from_utf8\<close>, \<open>chars().take(n)\<close>) are defined here once, with
  the lemmas the component theories share.
\<close>

named_theorems byte_simps \<open>byte classes, unfolded\<close>
named_theorems split_simps \<open>splitting and joining at a separator\<close>
named_theorems decimal_simps \<open>decimal rendering and parsing\<close>

type_synonym u8 = "8 word"
type_synonym u32 = "32 word"
type_synonym u64 = "64 word"

subsection \<open>Machine bounds and checked arithmetic on naturals\<close>

definition u16_max :: nat where "u16_max = 65535"
definition u32_max :: nat where "u32_max = 4294967295"
definition u64_max :: nat where "u64_max = 18446744073709551615"

text \<open>\<open>usize\<close> is 64 bits wide on the supported targets (Linux on amd64 and arm64).\<close>
definition usize_max :: nat where "usize_max = u64_max"

definition checked_add :: "nat \<Rightarrow> nat \<Rightarrow> nat \<Rightarrow> nat option" where
  "checked_add bound a b = (if a + b \<le> bound then Some (a + b) else None)"

definition checked_mul :: "nat \<Rightarrow> nat \<Rightarrow> nat \<Rightarrow> nat option" where
  "checked_mul bound a b = (if a * b \<le> bound then Some (a * b) else None)"

definition saturating_add :: "nat \<Rightarrow> nat \<Rightarrow> nat \<Rightarrow> nat" where
  "saturating_add bound a b = min (a + b) bound"

definition saturating_mul :: "nat \<Rightarrow> nat \<Rightarrow> nat \<Rightarrow> nat" where
  "saturating_mul bound a b = min (a * b) bound"

lemma checked_add_Some [simp]: "checked_add m a b = Some c \<longleftrightarrow> c = a + b \<and> a + b \<le> m"
  by (auto simp: checked_add_def)

lemma checked_mul_Some [simp]: "checked_mul m a b = Some c \<longleftrightarrow> c = a * b \<and> a * b \<le> m"
  by (auto simp: checked_mul_def)

subsection \<open>Results\<close>

text \<open>
  \<open>Result<T, E>\<close> is \<open>'e + 'a\<close> with \<open>Inl\<close> for \<open>Err\<close>; \<open>?\<close> is \<open>bind_res\<close>,
  \<open>ok_or\<close> turns an option into a result.
\<close>

definition bind_res :: "'e + 'a \<Rightarrow> ('a \<Rightarrow> 'e + 'b) \<Rightarrow> 'e + 'b" where
  "bind_res m f = (case m of Inl e \<Rightarrow> Inl e | Inr x \<Rightarrow> f x)"

definition ok_or :: "'e \<Rightarrow> 'a option \<Rightarrow> 'e + 'a" where
  "ok_or e m = (case m of None \<Rightarrow> Inl e | Some x \<Rightarrow> Inr x)"

lemma bind_res_simps [simp]: "bind_res (Inl e) f = Inl e" "bind_res (Inr x) f = f x"
  by (simp_all add: bind_res_def)

lemma bind_res_Inr [simp]: "bind_res m f = Inr y \<longleftrightarrow> (\<exists>x. m = Inr x \<and> f x = Inr y)"
  by (cases m) simp_all

lemma bind_res_Inl: "bind_res m f = Inl e \<longleftrightarrow> m = Inl e \<or> (\<exists>x. m = Inr x \<and> f x = Inl e)"
  by (cases m) auto

lemma bind_res_cong [fundef_cong]:
  "m = m' \<Longrightarrow> (\<And>x. m' = Inr x \<Longrightarrow> f x = g x) \<Longrightarrow> bind_res m f = bind_res m' g"
  by (cases m') auto

lemma ok_or_simps [simp]:
  "ok_or e None = Inl e" "ok_or e (Some x) = Inr x"
  "ok_or e m = Inr y \<longleftrightarrow> m = Some y" "ok_or e m = Inl e' \<longleftrightarrow> m = None \<and> e' = e"
  by (auto simp: ok_or_def split: option.splits)

subsection \<open>Bytes\<close>

abbreviation bval :: "char \<Rightarrow> nat" where
  "bval c \<equiv> (of_char c :: nat)"

definition is_digit :: "char \<Rightarrow> bool" where
  "is_digit c \<longleftrightarrow> 48 \<le> bval c \<and> bval c \<le> 57"

definition is_upper :: "char \<Rightarrow> bool" where
  "is_upper c \<longleftrightarrow> 65 \<le> bval c \<and> bval c \<le> 90"

definition is_lower :: "char \<Rightarrow> bool" where
  "is_lower c \<longleftrightarrow> 97 \<le> bval c \<and> bval c \<le> 122"

definition is_alphanumeric :: "char \<Rightarrow> bool" where
  "is_alphanumeric c \<longleftrightarrow> is_digit c \<or> is_upper c \<or> is_lower c"

definition lower_char :: "char \<Rightarrow> char" where
  "lower_char c = (if is_upper c then char_of (bval c + 32) else c)"

definition ascii_lower :: "string \<Rightarrow> string" where
  "ascii_lower s = map lower_char s"

definition eq_ignore_case :: "string \<Rightarrow> string \<Rightarrow> bool" where
  "eq_ignore_case s t \<longleftrightarrow> ascii_lower s = ascii_lower t"

declare is_digit_def [byte_simps] is_upper_def [byte_simps] is_lower_def [byte_simps]
  is_alphanumeric_def [byte_simps]

lemma bval_inj [simp]: "bval a = bval b \<longleftrightarrow> a = b"
  by (metis char_of_char)

lemma bval_less [simp]: "bval c < 256"
  using of_char_mod_256 [of c, where ?'a = nat] mod_less_divisor [of 256 "bval c"] by simp

lemma bval_char_of [simp]: "n < 256 \<Longrightarrow> bval (char_of n) = n"
  by simp

lemma bval_lower: "bval (lower_char c) = (if is_upper c then bval c + 32 else bval c)"
proof -
  have "is_upper c \<Longrightarrow> bval c + 32 < 256" by (simp add: is_upper_def)
  then show ?thesis by (auto simp: lower_char_def)
qed

lemma lower_char_idem [simp]: "lower_char (lower_char c) = lower_char c"
proof -
  have "\<not> is_upper (lower_char c)" by (auto simp: is_upper_def bval_lower)
  then show ?thesis by (simp add: lower_char_def)
qed

lemma ascii_lower_idem [simp]: "ascii_lower (ascii_lower s) = ascii_lower s"
  by (simp add: ascii_lower_def)

lemma length_ascii_lower [simp]: "length (ascii_lower s) = length s"
  by (simp add: ascii_lower_def)

lemma ascii_lower_append [simp]: "ascii_lower (s @ t) = ascii_lower s @ ascii_lower t"
  by (simp add: ascii_lower_def)

lemma eq_ignore_case_refl [simp]: "eq_ignore_case s s"
  by (simp add: eq_ignore_case_def)

lemma eq_ignore_case_sym: "eq_ignore_case s t \<longleftrightarrow> eq_ignore_case t s"
  by (auto simp: eq_ignore_case_def)

lemma eq_ignore_case_trans: "eq_ignore_case s t \<Longrightarrow> eq_ignore_case t u \<Longrightarrow> eq_ignore_case s u"
  by (simp add: eq_ignore_case_def)

lemma eq_ignore_case_length: "eq_ignore_case s t \<Longrightarrow> length s = length t"
  unfolding eq_ignore_case_def by (metis length_ascii_lower)

text \<open>Evaluates case folding of literals.\<close>

lemmas lower_eval = ascii_lower_def lower_char_def is_upper_def char_of_eq_iff

text \<open>Small numbers survive the conversion to a machine word.\<close>

lemma unat_of_nat_u32: "k < 2 ^ 32 \<Longrightarrow> unat (of_nat k :: u32) = k"
  by (simp add: unat_of_nat)

lemma unat_of_nat_u64: "k < 2 ^ 64 \<Longrightarrow> unat (of_nat k :: u64) = k"
  by (simp add: unat_of_nat)

end
