(* ===== verification/Text_Ops.thy ===== *)
theory Text_Ops
  imports Prelude
begin

text \<open>
  The string operations of the Rust standard library that the sources use, on byte strings:
  splitting, joining, searching and trimming. \<open>trim\<close> follows \<open>char::is_whitespace\<close>: the 25
  Unicode \<open>White_Space\<close> scalars, each by its UTF-8 encoding.
\<close>

subsection \<open>Prefixes and substrings\<close>

text \<open>The double quote, which a string literal cannot hold.\<close>

definition dq :: string where "dq = [CHR 0x22]"

definition strip_prefix :: "string \<Rightarrow> string \<Rightarrow> string option" where
  "strip_prefix p s = (if prefix p s then Some (drop (length p) s) else None)"

fun str_contains :: "string \<Rightarrow> string \<Rightarrow> bool" where
  "str_contains needle [] = (needle = [])"
| "str_contains needle (c # cs) = (prefix needle (c # cs) \<or> str_contains needle cs)"

fun find_str :: "string \<Rightarrow> string \<Rightarrow> nat option" where
  "find_str needle s =
     (if prefix needle s then Some 0
      else case s of [] \<Rightarrow> None | _ # cs \<Rightarrow> map_option Suc (find_str needle cs))"

declare find_str.simps [simp del]

lemma strip_prefix_Some [simp]: "strip_prefix p s = Some r \<longleftrightarrow> s = p @ r"
  by (auto simp: strip_prefix_def prefix_def)

lemma strip_prefix_append [simp]: "strip_prefix p (p @ r) = Some r"
  by simp

lemma strip_prefix_None: "strip_prefix p s = None \<longleftrightarrow> \<not> prefix p s"
  by (simp add: strip_prefix_def)

lemma str_contains_iff: "str_contains needle s \<longleftrightarrow> (\<exists>a b. s = a @ needle @ b)"
proof (induction s)
  case Nil
  then show ?case by simp
next
  case (Cons c cs)
  show ?case
  proof
    assume "str_contains needle (c # cs)"
    then consider "prefix needle (c # cs)" | "str_contains needle cs" by auto
    then show "\<exists>a b. c # cs = a @ needle @ b"
    proof cases
      case 1
      then show ?thesis by (metis append_Nil prefixE)
    next
      case 2
      then show ?thesis using Cons.IH by (metis append_Cons)
    qed
  next
    assume "\<exists>a b. c # cs = a @ needle @ b"
    then obtain a b where ab: "c # cs = a @ needle @ b" by blast
    show "str_contains needle (c # cs)"
    proof (cases a)
      case Nil
      with ab have "prefix needle (c # cs)" by (simp add: prefix_def)
      then show ?thesis by simp
    next
      case (Cons x xs)
      with ab Cons.IH show ?thesis by auto
    qed
  qed
qed

lemma find_str_None: "find_str needle s = None \<longleftrightarrow> \<not> str_contains needle s"
  by (induction s) (simp_all add: find_str.simps [of needle] split: if_splits)

lemma find_str_Some: "find_str needle s = Some i \<Longrightarrow> s = take i s @ needle @ drop (i + length needle) s"
proof (induction s arbitrary: i)
  case Nil
  then show ?case by (simp add: find_str.simps [of needle "[]"] split: if_splits)
next
  case (Cons c cs)
  show ?case
  proof (cases "prefix needle (c # cs)")
    case True
    with Cons.prems have "i = 0" by (simp add: find_str.simps [of needle "c # cs"])
    with True show ?thesis by (auto simp: prefix_def)
  next
    case False
    with Cons.prems obtain j where "find_str needle cs = Some j" "i = Suc j"
      by (auto simp: find_str.simps [of needle "c # cs"])
    with Cons.IH [of j] show ?thesis by simp
  qed
qed

subsection \<open>Splitting at one character\<close>

fun split_once :: "char \<Rightarrow> string \<Rightarrow> (string \<times> string) option" where
  "split_once c [] = None"
| "split_once c (x # xs) =
     (if x = c then Some ([], xs) else map_option (\<lambda>(a, b). (x # a, b)) (split_once c xs))"

fun split_on :: "char \<Rightarrow> string \<Rightarrow> string list" where
  "split_on c [] = [[]]"
| "split_on c (x # xs) =
     (if x = c then [] # split_on c xs
      else case split_on c xs of [] \<Rightarrow> [[x]] | y # ys \<Rightarrow> (x # y) # ys)"

definition rsplit_once :: "char \<Rightarrow> string \<Rightarrow> (string \<times> string) option" where
  "rsplit_once c s = map_option (\<lambda>(b, a). (rev a, rev b)) (split_once c (rev s))"

fun join :: "string \<Rightarrow> string list \<Rightarrow> string" where
  "join sep [] = []"
| "join sep [x] = x"
| "join sep (x # y # zs) = x @ sep @ join sep (y # zs)"

lemma split_once_None [split_simps]: "split_once c s = None \<longleftrightarrow> c \<notin> set s"
  by (induction s) auto

lemma split_once_append [split_simps]: "c \<notin> set a \<Longrightarrow> split_once c (a @ c # b) = Some (a, b)"
  by (induction a) auto

lemma split_once_SomeD: "split_once c s = Some (a, b) \<Longrightarrow> s = a @ c # b \<and> c \<notin> set a"
  by (induction s arbitrary: a) (auto split: if_splits)

lemma split_once_Some_iff: "split_once c s = Some (a, b) \<longleftrightarrow> s = a @ c # b \<and> c \<notin> set a"
  by (meson split_once_SomeD split_once_append)

lemma rsplit_once_append: "c \<notin> set b \<Longrightarrow> rsplit_once c (a @ c # b) = Some (a, b)"
  by (simp add: rsplit_once_def split_once_append)

lemma split_on_ne [simp]: "split_on c s \<noteq> []"
  by (induction s) (auto split: list.splits)

lemma split_on_no_sep [split_simps]: "c \<notin> set s \<Longrightarrow> split_on c s = [s]"
  by (induction s) auto

lemma split_on_append [split_simps]: "c \<notin> set a \<Longrightarrow> split_on c (a @ c # b) = a # split_on c b"
  by (induction a) auto

lemma split_on_fields: "f \<in> set (split_on c s) \<Longrightarrow> c \<notin> set f"
proof (induction s arbitrary: f)
  case Nil
  then show ?case by simp
next
  case (Cons x xs)
  then show ?case by (cases "split_on c xs") (auto split: if_splits)
qed

lemma join_cons: "xs \<noteq> [] \<Longrightarrow> join sep (x # xs) = x @ sep @ join sep xs"
  by (cases xs) simp_all

lemma join_split_on [split_simps]: "join [c] (split_on c s) = s"
proof (induction s)
  case Nil
  then show ?case by simp
next
  case (Cons x xs)
  then show ?case
    by (cases "split_on c xs"; cases "tl (split_on c xs)") (auto simp: join_cons)
qed

lemma split_on_join [split_simps]:
  "fs \<noteq> [] \<Longrightarrow> (\<And>f. f \<in> set fs \<Longrightarrow> c \<notin> set f) \<Longrightarrow> split_on c (join [c] fs) = fs"
proof (induction fs)
  case Nil
  then show ?case by simp
next
  case (Cons f fs)
  show ?case
  proof (cases fs)
    case Nil
    with Cons.prems show ?thesis by (simp add: split_on_no_sep)
  next
    case (Cons g gs)
    with Cons.IH Cons.prems show ?thesis by (simp add: split_on_append)
  qed
qed

lemma set_join: "set (join sep fs) \<subseteq> set sep \<union> \<Union> (set ` set fs)"
  by (induction sep fs rule: join.induct) auto

lemma join_snoc: "fs \<noteq> [] \<Longrightarrow> join sep (fs @ [x]) = join sep fs @ sep @ x"
  by (induction sep fs rule: join.induct) (auto simp: join_cons)

lemma join_append: "fs \<noteq> [] \<Longrightarrow> gs \<noteq> [] \<Longrightarrow> join sep (fs @ gs) = join sep fs @ sep @ join sep gs"
  by (induction sep fs rule: join.induct) (auto simp: join_cons)

subsection \<open>Splitting at a string\<close>

fun split_once_str :: "string \<Rightarrow> string \<Rightarrow> (string \<times> string) option" where
  "split_once_str pat s =
     (if prefix pat s then Some ([], drop (length pat) s)
      else case s of [] \<Rightarrow> None
        | x # xs \<Rightarrow> map_option (\<lambda>(a, b). (x # a, b)) (split_once_str pat xs))"

declare split_once_str.simps [simp del]

lemma split_once_str_SomeD: "split_once_str pat s = Some (a, b) \<Longrightarrow> s = a @ pat @ b"
proof (induction s arbitrary: a)
  case Nil
  then show ?case by (simp add: split_once_str.simps [of pat "[]"] split: if_splits)
next
  case (Cons c cs)
  then show ?case
    by (auto simp: split_once_str.simps [of pat "c # cs"] prefix_def split: if_splits)
qed

lemma split_once_str_None: "split_once_str pat s = None \<longleftrightarrow> \<not> str_contains pat s"
  by (induction s) (auto simp: split_once_str.simps [of pat] split: if_splits)

text \<open>\<open>s.split(pat)\<close> for a non-empty pattern; every call in the sources has one.\<close>

function split_str :: "string \<Rightarrow> string \<Rightarrow> string list" where
  "split_str pat s =
     (if pat = [] then [s]
      else case split_once_str pat s of None \<Rightarrow> [s] | Some (a, b) \<Rightarrow> a # split_str pat b)"
  by pat_completeness auto
termination
  by (relation "measure (\<lambda>(pat, s). length s)") (auto dest: split_once_str_SomeD)

declare split_str.simps [simp del]

definition str_replace :: "string \<Rightarrow> string \<Rightarrow> string \<Rightarrow> string" where
  "str_replace pat rep s = join rep (split_str pat s)"

lemma split_str_ne [simp]: "split_str pat s \<noteq> []"
  by (subst split_str.simps) (auto split: option.splits)

lemma join_split_str: "pat \<noteq> [] \<Longrightarrow> join pat (split_str pat s) = s"
proof (induction pat s rule: split_str.induct)
  case (1 pat s)
  then show ?case
    by (subst split_str.simps)
       (auto simp: join_cons dest: split_once_str_SomeD split: option.splits)
qed

subsection \<open>Trimming\<close>

definition trim_matches :: "(char \<Rightarrow> bool) \<Rightarrow> string \<Rightarrow> string" where
  "trim_matches P s = rev (dropWhile P (rev (dropWhile P s)))"

lemma trim_matches_cases:
  obtains a b where "s = a @ trim_matches P s @ b" "\<forall>c \<in> set a. P c" "\<forall>c \<in> set b. P c"
proof
  let ?d = "dropWhile P s"
  have "?d = trim_matches P s @ rev (takeWhile P (rev ?d))"
    unfolding trim_matches_def
    by (metis rev_append rev_rev_ident takeWhile_dropWhile_id)
  then show "s = takeWhile P s @ trim_matches P s @ rev (takeWhile P (rev ?d))"
    by (metis takeWhile_dropWhile_id)
qed (auto dest: set_takeWhileD)

lemma set_trim_matches: "set (trim_matches P s) \<subseteq> set s"
proof
  fix x assume "x \<in> set (trim_matches P s)"
  then have "x \<in> set (dropWhile P (rev (dropWhile P s)))" by (simp add: trim_matches_def)
  then have "x \<in> set (dropWhile P s)" by (metis set_dropWhileD set_rev)
  then show "x \<in> set s" by (rule set_dropWhileD)
qed

lemma trim_matches_id:
  "s = [] \<or> (\<not> P (hd s) \<and> \<not> P (last s)) \<Longrightarrow> trim_matches P s = s"
proof (cases "s = []")
  case False
  assume "s = [] \<or> (\<not> P (hd s) \<and> \<not> P (last s))"
  with False have "dropWhile P s = s" "dropWhile P (rev s) = rev s"
    by (simp_all add: dropWhile_eq_self_iff hd_rev)
  then show ?thesis by (simp add: trim_matches_def)
qed (simp add: trim_matches_def)

lemma trim_matches_hd: "trim_matches P s \<noteq> [] \<Longrightarrow> \<not> P (hd (trim_matches P s))"
proof -
  let ?d = "dropWhile P s"
  obtain a b where ab: "?d = trim_matches P s @ b"
    unfolding trim_matches_def by (metis rev_append rev_rev_ident takeWhile_dropWhile_id)
  assume ne: "trim_matches P s \<noteq> []"
  then have "?d \<noteq> []" using ab by auto
  then have "\<not> P (hd ?d)" by (rule hd_dropWhile)
  with ab ne show ?thesis by (metis hd_append2)
qed

lemma trim_matches_last: "trim_matches P s \<noteq> [] \<Longrightarrow> \<not> P (last (trim_matches P s))"
  unfolding trim_matches_def by (metis hd_dropWhile last_rev rev_is_Nil_conv)

lemma trim_matches_idem [simp]: "trim_matches P (trim_matches P s) = trim_matches P s"
  by (rule trim_matches_id) (use trim_matches_hd trim_matches_last in blast)

text \<open>The UTF-8 encodings of the \<open>White_Space\<close> scalars.\<close>

definition whitespace_scalars :: "string list" where
  "whitespace_scalars =
     [[CHR 0x09], [CHR 0x0A], [CHR 0x0B], [CHR 0x0C], [CHR 0x0D], [CHR 0x20],
      [CHR 0xC2, CHR 0x85], [CHR 0xC2, CHR 0xA0], [CHR 0xE1, CHR 0x9A, CHR 0x80],
      [CHR 0xE2, CHR 0x80, CHR 0x80], [CHR 0xE2, CHR 0x80, CHR 0x81],
      [CHR 0xE2, CHR 0x80, CHR 0x82], [CHR 0xE2, CHR 0x80, CHR 0x83],
      [CHR 0xE2, CHR 0x80, CHR 0x84], [CHR 0xE2, CHR 0x80, CHR 0x85],
      [CHR 0xE2, CHR 0x80, CHR 0x86], [CHR 0xE2, CHR 0x80, CHR 0x87],
      [CHR 0xE2, CHR 0x80, CHR 0x88], [CHR 0xE2, CHR 0x80, CHR 0x89],
      [CHR 0xE2, CHR 0x80, CHR 0x8A], [CHR 0xE2, CHR 0x80, CHR 0xA8],
      [CHR 0xE2, CHR 0x80, CHR 0xA9], [CHR 0xE2, CHR 0x80, CHR 0xAF],
      [CHR 0xE2, CHR 0x81, CHR 0x9F], [CHR 0xE3, CHR 0x80, CHR 0x80]]"

function strip_front :: "string list \<Rightarrow> string \<Rightarrow> string" where
  "strip_front tab s =
     (case List.find (\<lambda>w. w \<noteq> [] \<and> prefix w s) tab of
        None \<Rightarrow> s | Some w \<Rightarrow> strip_front tab (drop (length w) s))"
  by pat_completeness auto
termination
  by (relation "measure (\<lambda>(tab, s). length s)") (auto simp: find_Some_iff prefix_def)

declare strip_front.simps [simp del]

definition trim_start :: "string \<Rightarrow> string" where
  "trim_start s = strip_front whitespace_scalars s"

definition trim_end :: "string \<Rightarrow> string" where
  "trim_end s = rev (strip_front (map rev whitespace_scalars) (rev s))"

definition trim :: "string \<Rightarrow> string" where
  "trim s = trim_end (trim_start s)"

lemma suffix_strip_front: "suffix (strip_front tab s) s"
proof (induction tab s rule: strip_front.induct)
  case (1 tab s)
  show ?case
  proof (cases "List.find (\<lambda>w. w \<noteq> [] \<and> prefix w s) tab")
    case None
    then show ?thesis by (subst strip_front.simps) simp
  next
    case (Some w)
    with 1 have "suffix (strip_front tab (drop (length w) s)) (drop (length w) s)" by simp
    then have "suffix (strip_front tab (drop (length w) s)) s"
      using suffix_drop suffix_order.trans by blast
    with Some show ?thesis by (subst strip_front.simps) simp
  qed
qed

lemma length_strip_front: "length (strip_front tab s) \<le> length s"
  using suffix_strip_front by (rule suffix_length_le)

lemma set_strip_front: "set (strip_front tab s) \<subseteq> set s"
  using suffix_strip_front by (rule set_mono_suffix)

lemma set_trim: "set (trim s) \<subseteq> set s"
  using set_strip_front [of "map rev whitespace_scalars" "rev (trim_start s)"]
    set_strip_front [of whitespace_scalars s]
  by (auto simp: trim_def trim_end_def trim_start_def)

lemma length_trim: "length (trim s) \<le> length s"
  using length_strip_front [of "map rev whitespace_scalars" "rev (trim_start s)"]
    length_strip_front [of whitespace_scalars s]
  by (simp add: trim_def trim_end_def trim_start_def)

lemma strip_front_Nil [simp]: "strip_front tab [] = []"
  using length_strip_front [of tab "[]"] by simp

lemma trim_Nil [simp]: "trim [] = []"
  by (simp add: trim_def trim_end_def trim_start_def)

lemma strip_front_id: "(\<And>w. w \<in> set tab \<Longrightarrow> w \<noteq> [] \<Longrightarrow> \<not> prefix w s) \<Longrightarrow> strip_front tab s = s"
proof -
  assume "\<And>w. w \<in> set tab \<Longrightarrow> w \<noteq> [] \<Longrightarrow> \<not> prefix w s"
  then have "List.find (\<lambda>w. w \<noteq> [] \<and> prefix w s) tab = None"
    by (auto simp: find_None_iff)
  then show ?thesis by (subst strip_front.simps) simp
qed

text \<open>A string that starts and ends with a printable ASCII byte is its own trim.\<close>

definition graphic :: "char \<Rightarrow> bool" where
  "graphic c \<longleftrightarrow> 33 \<le> bval c \<and> bval c \<le> 126"

lemma whitespace_hd: "w \<in> set whitespace_scalars \<Longrightarrow> w \<noteq> [] \<and> \<not> graphic (hd w) \<and> \<not> graphic (last w)"
  unfolding whitespace_scalars_def by (auto simp: graphic_def)

lemma trim_id: "s = [] \<or> (graphic (hd s) \<and> graphic (last s)) \<Longrightarrow> trim s = s"
proof (cases "s = []")
  case False
  assume "s = [] \<or> (graphic (hd s) \<and> graphic (last s))"
  with False have g: "graphic (hd s)" "graphic (last s)" by auto
  have "trim_start s = s"
    unfolding trim_start_def
  proof (rule strip_front_id)
    fix w assume "w \<in> set whitespace_scalars" "w \<noteq> []"
    with g(1) show "\<not> prefix w s"
      by (metis whitespace_hd hd_append2 prefixE)
  qed
  moreover have "strip_front (map rev whitespace_scalars) (rev s) = rev s"
  proof (rule strip_front_id)
    fix w assume "w \<in> set (map rev whitespace_scalars)" "w \<noteq> []"
    then obtain v where v: "w = rev v" "v \<in> set whitespace_scalars" by auto
    show "\<not> prefix w (rev s)"
    proof
      assume "prefix w (rev s)"
      then have "hd w = hd (rev s)" using \<open>w \<noteq> []\<close> by (metis hd_append2 prefixE)
      with v False have "last v = last s" using \<open>w \<noteq> []\<close> by (simp add: hd_rev)
      with g(2) whitespace_hd [OF v(2)] show False by simp
    qed
  qed
  ultimately show ?thesis by (simp add: trim_def trim_end_def)
qed simp

text \<open>Trimming stops at graphic characters, so a graphic front part survives it.\<close>

lemma whitespace_not_graphic: "w \<in> set whitespace_scalars \<Longrightarrow> c \<in> set w \<Longrightarrow> \<not> graphic c"
  unfolding whitespace_scalars_def by (auto simp: graphic_def)

lemma prefix_before:
  assumes "prefix w (x @ y)" "y \<noteq> []" "hd y \<notin> set w"
  shows "prefix w x"
proof (rule ccontr)
  assume n: "\<not> prefix w x"
  from assms(1) n obtain z where "w = x @ z" "z \<noteq> []" "prefix z y"
    by (auto simp: prefix_append)
  then show False using assms(2,3) by (cases z; cases y; auto)
qed

lemma strip_front_stops:
  assumes "\<And>w c. w \<in> set tab \<Longrightarrow> c \<in> set w \<Longrightarrow> \<not> graphic c" "y \<noteq> []" "graphic (hd y)"
  shows "\<exists>x'. strip_front tab (x @ y) = x' @ y \<and> suffix x' x"
proof (induction "length x" arbitrary: x rule: less_induct)
  case less
  show ?case
  proof (cases "List.find (\<lambda>w. w \<noteq> [] \<and> prefix w (x @ y)) tab")
    case None
    then show ?thesis by (subst strip_front.simps) auto
  next
    case (Some w)
    then have w: "w \<in> set tab" "w \<noteq> []" "prefix w (x @ y)" by (auto simp: find_Some_iff)
    have "hd y \<notin> set w" using assms(1) [OF w(1)] assms(3) by blast
    from prefix_before [OF w(3) assms(2) this] obtain z where z: "x = w @ z" by (auto simp: prefix_def)
    then have "length z < length x" using w(2) by simp
    from less [OF this] obtain x' where x': "strip_front tab (z @ y) = x' @ y" "suffix x' z" by blast
    have "strip_front tab (x @ y) = strip_front tab (z @ y)"
      using Some z by (subst strip_front.simps) simp
    with x' z show ?thesis by (auto simp: suffix_def)
  qed
qed

lemma trim_append_graphic:
  assumes "a \<noteq> []" "graphic (hd a)" "graphic (last a)"
  shows "\<exists>b'. trim (a @ b) = a @ b' \<and> prefix b' b"
proof -
  have "\<exists>x'. strip_front whitespace_scalars ([] @ a @ b) = x' @ a @ b \<and> suffix x' []"
    using assms by (intro strip_front_stops) (auto dest: whitespace_not_graphic)
  then have start: "trim_start (a @ b) = a @ b" by (simp add: trim_start_def)
  have "\<exists>x'. strip_front (map rev whitespace_scalars) (rev b @ rev a) = x' @ rev a \<and> suffix x' (rev b)"
    using assms by (intro strip_front_stops) (auto simp: hd_rev dest: whitespace_not_graphic)
  then obtain x' where "strip_front (map rev whitespace_scalars) (rev b @ rev a) = x' @ rev a"
    "suffix x' (rev b)" by blast
  then have "trim (a @ b) = a @ rev x'" "prefix (rev x') b"
    by (simp_all add: trim_def trim_end_def start suffix_to_prefix)
  then show ?thesis by blast
qed

end
