(* ===== verification/Utf8.thy ===== *)
theory Utf8
  imports Text_Ops
begin

text \<open>
  UTF-8: the validity that \<open>String::from_utf8\<close> checks, the scalars that \<open>str::chars\<close> yields
  (each kept as its byte string), and the scalar value of one encoded character.
\<close>

definition is_cont :: "char \<Rightarrow> bool" where
  "is_cont c \<longleftrightarrow> 128 \<le> bval c \<and> bval c < 192"

text \<open>The byte width of the well-formed character at the front, 0 when there is none.\<close>

definition utf8_width :: "string \<Rightarrow> nat" where
  "utf8_width s =
     (case s of [] \<Rightarrow> 0 | c # cs \<Rightarrow>
        let b = bval c; b1 = (case cs of [] \<Rightarrow> 0 | x # _ \<Rightarrow> bval x)
        in if b < 128 then 1
           else if 194 \<le> b \<and> b \<le> 223 then
             (if 1 \<le> length cs \<and> is_cont (cs ! 0) then 2 else 0)
           else if 224 \<le> b \<and> b \<le> 239 then
             (if 2 \<le> length cs \<and> is_cont (cs ! 0) \<and> is_cont (cs ! 1)
                 \<and> (b = 224 \<longrightarrow> 160 \<le> b1) \<and> (b = 237 \<longrightarrow> b1 \<le> 159) then 3 else 0)
           else if 240 \<le> b \<and> b \<le> 244 then
             (if 3 \<le> length cs \<and> is_cont (cs ! 0) \<and> is_cont (cs ! 1) \<and> is_cont (cs ! 2)
                 \<and> (b = 240 \<longrightarrow> 144 \<le> b1) \<and> (b = 244 \<longrightarrow> b1 \<le> 143) then 4 else 0)
           else 0)"

lemma utf8_width_le: "utf8_width s \<le> length s"
  by (auto simp: utf8_width_def Let_def split: list.splits if_splits)

function utf8_valid :: "string \<Rightarrow> bool" where
  "utf8_valid s =
     (if s = [] then True
      else if utf8_width s = 0 then False
      else utf8_valid (drop (utf8_width s) s))"
  by pat_completeness auto
termination
  by (relation "measure length") auto

declare utf8_valid.simps [simp del]

lemma utf8_valid_Nil [simp]: "utf8_valid []"
  by (subst utf8_valid.simps) simp

lemma utf8_width_ascii: "bval c < 128 \<Longrightarrow> utf8_width (c # cs) = 1"
  by (simp add: utf8_width_def)

lemma utf8_valid_ascii_Cons [simp]: "bval c < 128 \<Longrightarrow> utf8_valid (c # cs) \<longleftrightarrow> utf8_valid cs"
  by (subst utf8_valid.simps) (simp add: utf8_width_ascii)

lemma utf8_valid_ascii: "(\<And>c. c \<in> set s \<Longrightarrow> bval c < 128) \<Longrightarrow> utf8_valid s"
  by (induction s) simp_all

subsection \<open>Characters of a string\<close>

function chars :: "string \<Rightarrow> string list" where
  "chars [] = []"
| "chars (c # cs) = (c # takeWhile is_cont cs) # chars (dropWhile is_cont cs)"
  by pat_completeness auto
termination
  by (relation "measure length") (auto simp: length_dropWhile_le le_imp_less_Suc)

definition take_chars :: "nat \<Rightarrow> string \<Rightarrow> string" where
  "take_chars n s = concat (take n (chars s))"

definition is_whitespace :: "string \<Rightarrow> bool" where
  "is_whitespace ch \<longleftrightarrow> ch \<in> set whitespace_scalars"

definition scalar_value :: "string \<Rightarrow> nat" where
  "scalar_value ch =
     (case map bval ch of
        [a] \<Rightarrow> a
      | [a, b] \<Rightarrow> (a - 192) * 64 + (b - 128)
      | [a, b, c] \<Rightarrow> (a - 224) * 4096 + (b - 128) * 64 + (c - 128)
      | [a, b, c, d] \<Rightarrow> (a - 240) * 262144 + (b - 128) * 4096 + (c - 128) * 64 + (d - 128)
      | _ \<Rightarrow> 1114112)"

lemma concat_chars [simp]: "concat (chars s) = s"
  by (induction s rule: chars.induct) simp_all

lemma take_chars_all: "length (chars s) \<le> n \<Longrightarrow> take_chars n s = s"
  by (simp add: take_chars_def)

lemma prefix_take_chars: "prefix (take_chars n s) s"
proof -
  have "concat (take n (chars s)) @ concat (drop n (chars s)) = s"
    by (metis append_take_drop_id concat_append concat_chars)
  then show ?thesis unfolding take_chars_def by (metis prefixI)
qed

lemma chars_ascii: "(\<And>c. c \<in> set s \<Longrightarrow> bval c < 128) \<Longrightarrow> chars s = map (\<lambda>c. [c]) s"
proof (induction s)
  case (Cons c cs)
  then have "takeWhile is_cont cs = []" "dropWhile is_cont cs = cs"
    by (cases cs; force simp: is_cont_def)+
  with Cons show ?case by simp
qed simp

lemma chars_ne: "ch \<in> set (chars s) \<Longrightarrow> ch \<noteq> []"
  by (induction s rule: chars.induct) auto

lemma chars_append:
  "t = [] \<or> \<not> is_cont (hd t) \<Longrightarrow> chars (s @ t) = chars s @ chars t"
proof (induction s rule: chars.induct)
  case 1
  then show ?case by simp
next
  case (2 c cs)
  show ?case
  proof (cases "\<forall>x \<in> set cs. is_cont x")
    case True
    then have front: "takeWhile is_cont (cs @ t) = cs" "dropWhile is_cont (cs @ t) = t"
      using "2.prems" by (cases t; auto)+
    have all: "dropWhile is_cont cs = []" "takeWhile is_cont cs = cs"
      using True by (auto simp: dropWhile_eq_Nil_conv takeWhile_eq_all_conv)
    show ?thesis by (simp only: append_Cons append_Nil chars.simps front all)
  next
    case False
    then have "takeWhile is_cont (cs @ t) = takeWhile is_cont cs"
      "dropWhile is_cont (cs @ t) = dropWhile is_cont cs @ t"
      by (auto simp: dropWhile_append takeWhile_append)
    with 2 show ?thesis by simp
  qed
qed

subsection \<open>Characters of a valid string\<close>

definition utf8_char :: "string \<Rightarrow> bool" where
  "utf8_char x \<longleftrightarrow> x \<noteq> [] \<and> utf8_width x = length x"

lemma utf8_width_cont: "is_cont c \<Longrightarrow> utf8_width (c # cs) = 0"
  by (auto simp: utf8_width_def is_cont_def Let_def)

lemma utf8_valid_hd: "utf8_valid s \<Longrightarrow> s = [] \<or> \<not> is_cont (hd s)"
  by (cases s) (auto simp: utf8_valid.simps utf8_width_cont)

lemma utf8_width_tail: "i < utf8_width (c # cs) - 1 \<Longrightarrow> is_cont (cs ! i)"
proof -
  assume i: "i < utf8_width (c # cs) - 1"
  then have "i = 0 \<or> i = 1 \<or> i = 2"
    by (auto simp: utf8_width_def Let_def split: if_splits)
  then show ?thesis
    using i by (auto simp: utf8_width_def Let_def numeral_2_eq_2 split: if_splits)
qed

lemma utf8_width_take: "utf8_width (take (utf8_width (c # cs)) (c # cs)) = utf8_width (c # cs)"
  by (cases cs) (auto simp: utf8_width_def Let_def take_Cons' nth_Cons' split: if_splits)

lemma utf8_valid_Cons:
  assumes "utf8_valid (c # cs)"
  defines "k \<equiv> utf8_width (c # cs) - 1"
  shows "takeWhile is_cont cs = take k cs" "dropWhile is_cont cs = drop k cs"
    "utf8_valid (drop k cs)" "utf8_char (c # take k cs)"
proof -
  have w: "0 < utf8_width (c # cs)" using assms(1) by (subst (asm) utf8_valid.simps) (simp split: if_splits)
  then have sw: "utf8_width (c # cs) = Suc k" by (simp add: k_def)
  show v: "utf8_valid (drop k cs)"
    using assms(1) w sw by (subst (asm) utf8_valid.simps) (simp split: if_splits)
  have len: "k \<le> length cs" using utf8_width_le [of "c # cs"] sw by simp
  have all: "\<forall>x \<in> set (take k cs). is_cont x"
    using utf8_width_tail [of _ c cs] sw len by (auto simp: in_set_conv_nth)
  have stop: "drop k cs = [] \<or> \<not> is_cont (hd (drop k cs))" using utf8_valid_hd [OF v] .
  have "takeWhile is_cont (a @ b) = a \<and> dropWhile is_cont (a @ b) = b"
    if "\<forall>x \<in> set a. is_cont x" "b = [] \<or> \<not> is_cont (hd b)" for a b
    using that by (cases b) simp_all
  from this [OF all stop]
  show "takeWhile is_cont cs = take k cs" "dropWhile is_cont cs = drop k cs" by simp_all
  show "utf8_char (c # take k cs)"
    using utf8_width_take [of c cs] sw len by (simp add: utf8_char_def)
qed

lemma utf8_valid_chars: "utf8_valid s \<Longrightarrow> x \<in> set (chars s) \<Longrightarrow> utf8_char x"
proof (induction s rule: chars.induct)
  case (2 c cs)
  from "2.prems"(2) have "x = c # takeWhile is_cont cs \<or> x \<in> set (chars (dropWhile is_cont cs))"
    by simp
  with "2.IH" utf8_valid_Cons [OF "2.prems"(1)] show ?case by auto
qed simp

lemma utf8_width_append: "utf8_char x \<Longrightarrow> utf8_width (x @ t) = length x"
proof -
  assume x: "utf8_char x"
  then obtain c cs where "x = c # cs" by (cases x) (auto simp: utf8_char_def)
  moreover have "utf8_width (c # cs @ t) = length cs + 1" if "utf8_width (c # cs) = length cs + 1"
  proof (cases cs)
    case Nil
    then have "bval c < 128" using that by (auto simp: utf8_width_def Let_def split: if_split_asm)
    then show ?thesis by (simp add: utf8_width_def Nil)
  next
    case (Cons a r)
    have h: "\<not> bval c < 128" using that Cons by (auto simp: utf8_width_def)
    have n: "(cs @ t) ! i = cs ! i" if "i < length cs" for i using that by (simp add: nth_append)
    have hd: "(case cs @ t of [] \<Rightarrow> 0 | x # _ \<Rightarrow> bval x) = (case cs of [] \<Rightarrow> 0 | x # _ \<Rightarrow> bval x)"
      by (simp add: Cons)
    show ?thesis
    proof (cases "194 \<le> bval c \<and> bval c \<le> 223")
      case True
      then have "length cs = 1 \<and> is_cont (cs ! 0)"
        using that h by (simp add: utf8_width_def Let_def split: if_split_asm)
      then show ?thesis using True h n [of 0] by (simp add: utf8_width_def Let_def)
    next
      case False
      note F2 = this
      show ?thesis
      proof (cases "224 \<le> bval c \<and> bval c \<le> 239")
        case True
        have k: "length cs = 2" using that h F2 True by (simp add: utf8_width_def Let_def split: if_split_asm)
        then show ?thesis
          using that h F2 True n [of 0] n [of 1] unfolding utf8_width_def list.case hd Let_def by simp
      next
        case False
        have k: "length cs = 3" using that h F2 False by (simp add: utf8_width_def Let_def split: if_split_asm)
        moreover have "240 \<le> bval c \<and> bval c \<le> 244"
          using that h F2 False by (simp add: utf8_width_def Let_def split: if_split_asm)
        ultimately show ?thesis
          using that h F2 False n [of 0] n [of 1] n [of 2] unfolding utf8_width_def list.case hd Let_def
          by (simp split: if_split_asm)
      qed
    qed
  qed
  ultimately show ?thesis using x by (simp add: utf8_char_def)
qed

lemma utf8_valid_append_char: "utf8_char x \<Longrightarrow> utf8_valid t \<Longrightarrow> utf8_valid (x @ t)"
  by (subst utf8_valid.simps) (auto simp: utf8_width_append utf8_char_def)

lemma utf8_valid_concat: "(\<And>x. x \<in> set xs \<Longrightarrow> utf8_char x) \<Longrightarrow> utf8_valid (concat xs)"
  by (induction xs) (auto intro: utf8_valid_append_char)

lemma utf8_valid_take_chars: "utf8_valid s \<Longrightarrow> utf8_valid (take_chars n s)"
  unfolding take_chars_def by (rule utf8_valid_concat) (auto dest: in_set_takeD utf8_valid_chars)

lemma utf8_char_ascii_or_high:
  assumes "utf8_char x"
  shows "(\<exists>c. x = [c] \<and> bval c < 128) \<or> (\<forall>c \<in> set x. 128 \<le> bval c)"
proof -
  obtain c cs where x: "x = c # cs" using assms by (cases x) (auto simp: utf8_char_def)
  show ?thesis
  proof (cases "bval c < 128")
    case True
    then show ?thesis using assms x by (simp add: utf8_char_def utf8_width_ascii)
  next
    case False
    have "is_cont b" if "b \<in> set cs" for b
      using that utf8_width_tail [of _ c cs] assms x
      by (auto simp: utf8_char_def in_set_conv_nth)
    then show ?thesis using False x by (auto simp: is_cont_def)
  qed
qed

subsection \<open>Words\<close>

text \<open>\<open>str::split_whitespace\<close>: the maximal runs of non-whitespace characters.\<close>

fun split_ws :: "string list \<Rightarrow> string \<Rightarrow> string list" where
  "split_ws [] cur = (if cur = [] then [] else [cur])"
| "split_ws (c # cs) cur =
     (if is_whitespace c then (if cur = [] then split_ws cs [] else cur # split_ws cs [])
      else split_ws cs (cur @ c))"

definition split_whitespace :: "string \<Rightarrow> string list" where
  "split_whitespace s = split_ws (chars s) []"

text \<open>Validity is checked piecewise around any ASCII byte.\<close>

lemma utf8_valid_append:
  assumes "utf8_valid a" "utf8_valid b"
  shows "utf8_valid (a @ b)"
proof -
  have "utf8_valid (concat (chars a @ chars b))"
    using assms by (intro utf8_valid_concat) (auto dest: utf8_valid_chars)
  then show ?thesis by (simp add: concat_chars)
qed

lemma utf8_width_before_ascii:
  assumes "a \<noteq> []" "bval c < 128"
  shows "utf8_width (a @ c # b) = utf8_width a"
proof -
  have c: "\<not> is_cont c" using assms(2) by (simp add: is_cont_def)
  obtain x xs where a: "a = x # xs" using assms(1) by (cases a) auto
  consider "xs = []" | y where "xs = [y]" | y z where "xs = [y, z]" | y z w ws where "xs = y # z # w # ws"
    by (metis list.exhaust)
  then show ?thesis by cases (use a c in \<open>simp_all add: utf8_width_def Let_def\<close>)
qed

lemma utf8_valid_before_ascii: "bval c < 128 \<Longrightarrow> utf8_valid (a @ c # b) \<Longrightarrow> utf8_valid a \<and> utf8_valid b"
proof (induction a rule: utf8_valid.induct)
  case (1 a)
  show ?case
  proof (cases "a = []")
    case True
    then show ?thesis using "1.prems" by simp
  next
    case False
    have w: "utf8_width (a @ c # b) = utf8_width a" by (rule utf8_width_before_ascii) (use False "1.prems" in auto)
    have "utf8_width a \<noteq> 0"
      using "1.prems"(2) w False utf8_valid.simps [of "a @ c # b"] by (auto split: if_splits)
    moreover have "utf8_valid (drop (utf8_width a) a @ c # b)"
      using "1.prems"(2) w utf8_valid.simps [of "a @ c # b"] utf8_width_le [of a] by (simp split: if_splits)
    ultimately have "utf8_valid (drop (utf8_width a) a) \<and> utf8_valid b"
      using "1.IH" [OF False] "1.prems"(1) by blast
    then show ?thesis using \<open>utf8_width a \<noteq> 0\<close> utf8_valid.simps [of a] by simp
  qed
qed

end
