(* ===== verification/Soap_Search.thy ===== *)
theory Soap_Search
  imports Utf8 "HOL-Library.Char_ord" "HOL-Library.List_Lexorder"
begin

text \<open>
  ContentDirectory \<open>SearchCriteria\<close> (\<open>crates/soap/src/search.rs\<close>) with the class names of
  \<open>crates/protocol/src/class.rs\<close>: lexer, recursive-descent parser, expansion accounting,
  disjunctive normal form and row matching. The parser's token position is the list of tokens
  left; its recursion runs on fuel, and \<open>parse_or_total\<close> shows the fuel the entry point passes
  is never exhausted. Rust's Unicode \<open>to_lowercase\<close> is the argument \<open>lc\<close>.
\<close>

subsection \<open>Clauses and expressions\<close>

datatype search_prop =
  PropTitle | PropCreator | PropDate | PropClass | PropArtist | PropGenre | PropAlbum
| PropActor | PropId | PropParentId | PropRefId

datatype search_clause =
  Contains search_prop string
| DoesNotContain search_prop string
| Equals search_prop string
| NotEquals search_prop string
| LessThan search_prop string bool
| GreaterThan search_prop string bool
| DerivedFrom search_prop string
| Exists search_prop bool
| UnknownClause
| AllClause

datatype search_error = SearchParseError string | OutOfFuel

datatype expression =
  Clause search_clause
| AndExpr expression expression
| OrExpr expression expression

record expansion =
  ex_groups :: nat
  ex_clauses :: nat
  ex_width :: nat
  ex_bytes :: nat

record search_row =
  row_title :: string
  row_creator :: string
  row_date :: string
  row_class :: string
  row_artist :: string
  row_genre :: string
  row_album :: string
  row_actor :: string
  row_id :: string
  row_parent_id :: string
  row_ref_id :: "string option"
  row_is_container :: bool

definition MAX_CRITERIA_BYTES :: nat where "MAX_CRITERIA_BYTES = 128 * 1024"
definition MAX_LITERAL_BYTES :: nat where "MAX_LITERAL_BYTES = 64 * 1024"
definition MAX_EXPANDED_LITERAL_BYTES :: nat where "MAX_EXPANDED_LITERAL_BYTES = 256 * 1024"
definition MAX_EXPANDED_CLAUSES :: nat where "MAX_EXPANDED_CLAUSES = 1024"

fun literal_bytes :: "search_clause \<Rightarrow> nat" where
  "literal_bytes (Contains _ needle) = length needle"
| "literal_bytes (DoesNotContain _ needle) = length needle"
| "literal_bytes (Equals _ v) = length v"
| "literal_bytes (NotEquals _ v) = length v"
| "literal_bytes (LessThan _ v _) = length v"
| "literal_bytes (GreaterThan _ v _) = length v"
| "literal_bytes (DerivedFrom _ p) = length p"
| "literal_bytes (Exists _ _) = 0"
| "literal_bytes UnknownClause = 0"
| "literal_bytes AllClause = 0"

subsection \<open>Expansion accounting and disjunctive normal form\<close>

abbreviation too_complex :: search_error where
  "too_complex \<equiv> SearchParseError ''criteria is too complex''"

definition sum_usize :: "nat \<Rightarrow> nat \<Rightarrow> search_error + nat" where
  "sum_usize a b = ok_or too_complex (checked_add usize_max a b)"

definition product_usize :: "nat \<Rightarrow> nat \<Rightarrow> search_error + nat" where
  "product_usize a b = ok_or too_complex (checked_mul usize_max a b)"

definition check_expansion :: "expansion \<Rightarrow> search_error + expansion" where
  "check_expansion x =
     (if ex_groups x > 256 \<or> ex_width x > 64 \<or> ex_clauses x > MAX_EXPANDED_CLAUSES
         \<or> ex_bytes x > MAX_EXPANDED_LITERAL_BYTES
      then Inl too_complex else Inr x)"

fun expansion_of :: "expression \<Rightarrow> search_error + expansion" where
  "expansion_of (Clause c) =
     (if literal_bytes c > MAX_LITERAL_BYTES then Inl too_complex
      else check_expansion
        \<lparr>ex_groups = 1, ex_clauses = 1, ex_width = 1, ex_bytes = literal_bytes c\<rparr>)"
| "expansion_of (OrExpr l r) =
     bind_res (expansion_of l) (\<lambda>a. bind_res (expansion_of r) (\<lambda>b.
     bind_res (sum_usize (ex_groups a) (ex_groups b)) (\<lambda>g.
     bind_res (sum_usize (ex_clauses a) (ex_clauses b)) (\<lambda>c.
     bind_res (sum_usize (ex_bytes a) (ex_bytes b)) (\<lambda>n.
       check_expansion \<lparr>ex_groups = g, ex_clauses = c,
         ex_width = max (ex_width a) (ex_width b), ex_bytes = n\<rparr>)))))"
| "expansion_of (AndExpr l r) =
     bind_res (expansion_of l) (\<lambda>a. bind_res (expansion_of r) (\<lambda>b.
     bind_res (product_usize (ex_groups a) (ex_groups b)) (\<lambda>g.
     bind_res (product_usize (ex_clauses a) (ex_groups b)) (\<lambda>c1.
     bind_res (product_usize (ex_clauses b) (ex_groups a)) (\<lambda>c2.
     bind_res (sum_usize c1 c2) (\<lambda>c.
     bind_res (sum_usize (ex_width a) (ex_width b)) (\<lambda>w.
     bind_res (product_usize (ex_bytes a) (ex_groups b)) (\<lambda>b1.
     bind_res (product_usize (ex_bytes b) (ex_groups a)) (\<lambda>b2.
     bind_res (sum_usize b1 b2) (\<lambda>n.
       check_expansion \<lparr>ex_groups = g, ex_clauses = c, ex_width = w, ex_bytes = n\<rparr>))))))))))"

text \<open>The nested loop of the \<open>And\<close> case, over the pairs in its order.\<close>

fun and_groups ::
  "(search_clause list \<times> search_clause list) list \<Rightarrow> search_clause list list
    \<Rightarrow> search_error + search_clause list list" where
  "and_groups [] out = Inr out"
| "and_groups ((l, r) # ps) out =
     (if length (l @ r) > 64 \<or> length out \<ge> 256 then Inl too_complex
      else and_groups ps (out @ [l @ r]))"

fun to_groups :: "expression \<Rightarrow> search_error + search_clause list list" where
  "to_groups (Clause c) = Inr [[c]]"
| "to_groups (OrExpr l r) =
     bind_res (to_groups l) (\<lambda>gl. bind_res (to_groups r) (\<lambda>gr.
       if length (gl @ gr) > 256
       then Inl (SearchParseError ''criteria expands to too many groups'')
       else Inr (gl @ gr)))"
| "to_groups (AndExpr l r) =
     bind_res (to_groups l) (\<lambda>gl. bind_res (to_groups r) (\<lambda>gr.
       and_groups (List.product gl gr) []))"

subsection \<open>Lexer\<close>

datatype token =
  TWord string | TValue string | TOperator string | TLeft | TRight

definition op_start :: "string \<Rightarrow> bool" where
  "op_start ch \<longleftrightarrow> ch \<in> {''='', ''<'', ''>'', ''!''}"

definition word_char :: "string \<Rightarrow> bool" where
  "word_char ch \<longleftrightarrow> \<not> is_whitespace ch \<and> ch \<notin> {''('', '')''} \<and> \<not> op_start ch"

definition is_quote :: "string \<Rightarrow> bool" where
  "is_quote ch \<longleftrightarrow> ch = [CHR 0x22] \<or> ch = [CHR 0x27]"

fun lex_quoted :: "string \<Rightarrow> string list \<Rightarrow> string \<Rightarrow> (string \<times> string list) option" where
  "lex_quoted q [] v = None"
| "lex_quoted q (c # cs) v =
     (if c = q then Some (v, cs)
      else if c = [CHR 0x5C] \<and> cs \<noteq> [] then lex_quoted q (tl cs) (v @ hd cs)
      else lex_quoted q cs (v @ c))"

definition next_token :: "string \<Rightarrow> string list \<Rightarrow> search_error + (token \<times> string list)" where
  "next_token c cs =
     (if c = ''('' then Inr (TLeft, cs)
      else if c = '')'' then Inr (TRight, cs)
      else if op_start c then
        (case cs of
           d # ds \<Rightarrow> if d = ''='' then Inr (TOperator (c @ ''=''), ds) else Inr (TOperator c, cs)
         | [] \<Rightarrow> Inr (TOperator c, cs))
      else if is_quote c then
        (case lex_quoted c cs [] of
           None \<Rightarrow> Inl (SearchParseError ''unterminated quoted value'')
         | Some (v, rest) \<Rightarrow> Inr (TValue v, rest))
      else
        let w = takeWhile word_char (c # cs); rest = dropWhile word_char (c # cs)
        in if w = [] then Inl (SearchParseError (''unexpected character '' @ c))
           else Inr (TWord (concat w), rest))"

lemma lex_quoted_length: "lex_quoted q cs v = Some (v', rest) \<Longrightarrow> length rest < length cs"
proof (induction q cs v rule: lex_quoted.induct)
  case (2 q c cs v)
  then show ?case by (cases cs) (auto split: if_splits)
qed simp

lemma next_token_length: "next_token c cs = Inr (t, rest) \<Longrightarrow> length rest \<le> length cs"
proof -
  have dw: "length (dropWhile word_char (c # cs)) \<le> length cs"
    if "takeWhile word_char (c # cs) \<noteq> []"
    using that by (auto simp: length_dropWhile_le split: if_splits)
  show "next_token c cs = Inr (t, rest) \<Longrightarrow> length rest \<le> length cs"
    using dw unfolding next_token_def Let_def
    by (auto split: if_splits list.splits option.splits dest!: lex_quoted_length)
qed

function tokenize_loop :: "string list \<Rightarrow> token list \<Rightarrow> search_error + token list" where
  "tokenize_loop [] out = Inr out"
| "tokenize_loop (c # cs) out =
     (if is_whitespace c then tokenize_loop cs out
      else case next_token c cs of
             Inl e \<Rightarrow> Inl e
           | Inr (t, rest) \<Rightarrow>
               if length (out @ [t]) > 512
               then Inl (SearchParseError ''criteria has too many tokens'')
               else tokenize_loop rest (out @ [t]))"
  by pat_completeness auto
termination
  by (relation "measure (\<lambda>(cs, out). length cs)") (auto dest: next_token_length)

definition tokenize :: "string \<Rightarrow> search_error + token list" where
  "tokenize input = tokenize_loop (chars input) []"

subsection \<open>Parser\<close>

definition parse_prop :: "string \<Rightarrow> search_prop option" where
  "parse_prop raw =
     (let s = trim raw in
      if s = ''dc:title'' then Some PropTitle
      else if s = ''dc:creator'' then Some PropCreator
      else if s = ''dc:date'' then Some PropDate
      else if s = ''upnp:class'' then Some PropClass
      else if s = ''upnp:artist'' then Some PropArtist
      else if s = ''upnp:genre'' then Some PropGenre
      else if s = ''upnp:album'' then Some PropAlbum
      else if s = ''upnp:actor'' then Some PropActor
      else if s = ''@id'' then Some PropId
      else if s = ''@parentID'' then Some PropParentId
      else if s = ''@refID'' then Some PropRefId
      else None)"

definition clause_of :: "string \<Rightarrow> search_prop \<Rightarrow> string \<Rightarrow> search_error + search_clause" where
  "clause_of operator prop v =
     (if operator = ''contains'' then Inr (Contains prop v)
      else if operator = ''doesnotcontain'' then Inr (DoesNotContain prop v)
      else if operator = ''='' then Inr (Equals prop v)
      else if operator = ''!='' then Inr (NotEquals prop v)
      else if operator = ''<'' then Inr (LessThan prop v False)
      else if operator = ''<='' then Inr (LessThan prop v True)
      else if operator = ''>'' then Inr (GreaterThan prop v False)
      else if operator = ''>='' then Inr (GreaterThan prop v True)
      else if operator = ''derivedfrom'' then Inr (DerivedFrom prop v)
      else if operator = ''exists'' then
        (if ascii_lower v = ''true'' then Inr (Exists prop True)
         else if ascii_lower v = ''false'' then Inr (Exists prop False)
         else Inl (SearchParseError ''exists expects true or false''))
      else Inl (SearchParseError (''unsupported operator '' @ operator)))"

definition take_operator :: "token list \<Rightarrow> search_error + (string \<times> token list)" where
  "take_operator ts =
     (case ts of
        TWord operator # rest \<Rightarrow> Inr (ascii_lower operator, rest)
      | TOperator operator # rest \<Rightarrow> Inr (ascii_lower operator, rest)
      | _ \<Rightarrow> Inl (SearchParseError ''expected an operator''))"

definition take_value :: "token list \<Rightarrow> search_error + (string \<times> token list)" where
  "take_value ts =
     (case ts of
        TWord v # rest \<Rightarrow> Inr (v, rest)
      | TValue v # rest \<Rightarrow> Inr (v, rest)
      | _ \<Rightarrow> Inl (SearchParseError ''expected an operator value''))"

definition parse_clause :: "token list \<Rightarrow> search_error + (search_clause \<times> token list)" where
  "parse_clause ts =
     (case ts of
        TWord property # ts1 \<Rightarrow>
          bind_res (ok_or (SearchParseError (''unsupported property '' @ property))
                      (parse_prop property)) (\<lambda>prop.
          bind_res (take_operator ts1) (\<lambda>(operator, ts2).
          bind_res (take_value ts2) (\<lambda>(v, ts3).
          bind_res (clause_of operator prop v) (\<lambda>c. Inr (c, ts3)))))
      | _ \<Rightarrow> Inl (SearchParseError ''expected a property''))"

definition word_is :: "string \<Rightarrow> token list \<Rightarrow> bool" where
  "word_is wanted ts = (case ts of TWord w # _ \<Rightarrow> eq_ignore_case w wanted | _ \<Rightarrow> False)"

fun parse_or :: "nat \<Rightarrow> token list \<Rightarrow> search_error + (expression \<times> token list)"
  and or_loop :: "nat \<Rightarrow> expression \<Rightarrow> token list \<Rightarrow> search_error + (expression \<times> token list)"
  and parse_and :: "nat \<Rightarrow> token list \<Rightarrow> search_error + (expression \<times> token list)"
  and and_loop :: "nat \<Rightarrow> expression \<Rightarrow> token list \<Rightarrow> search_error + (expression \<times> token list)"
  and parse_primary :: "nat \<Rightarrow> token list \<Rightarrow> search_error + (expression \<times> token list)"
where
  "parse_or 0 ts = Inl OutOfFuel"
| "parse_or (Suc n) ts = bind_res (parse_and n ts) (\<lambda>(e, rest). or_loop n e rest)"
| "or_loop 0 e ts = Inl OutOfFuel"
| "or_loop (Suc n) e ts =
     (if word_is ''or'' ts
      then bind_res (parse_and n (tl ts)) (\<lambda>(e', rest). or_loop n (OrExpr e e') rest)
      else Inr (e, ts))"
| "parse_and 0 ts = Inl OutOfFuel"
| "parse_and (Suc n) ts = bind_res (parse_primary n ts) (\<lambda>(e, rest). and_loop n e rest)"
| "and_loop 0 e ts = Inl OutOfFuel"
| "and_loop (Suc n) e ts =
     (if word_is ''and'' ts
      then bind_res (parse_primary n (tl ts)) (\<lambda>(e', rest). and_loop n (AndExpr e e') rest)
      else Inr (e, ts))"
| "parse_primary 0 ts = Inl OutOfFuel"
| "parse_primary (Suc n) ts =
     (if ts \<noteq> [] \<and> hd ts = TLeft
      then bind_res (parse_or n (tl ts)) (\<lambda>(e, rest).
             if rest \<noteq> [] \<and> hd rest = TRight then Inr (e, tl rest)
             else Inl (SearchParseError ''missing closing parenthesis''))
      else bind_res (parse_clause ts) (\<lambda>(c, rest). Inr (Clause c, rest)))"

text \<open>Fuel that is always enough for a token list (\<open>parse_or_total\<close>).\<close>

definition parser_fuel :: "token list \<Rightarrow> nat" where
  "parser_fuel ts = 3 * length ts + 3"

definition try_parse_search_criteria ::
  "string option \<Rightarrow> search_error + search_clause list list" where
  "try_parse_search_criteria raw =
     (if (case raw of None \<Rightarrow> False | Some r \<Rightarrow> length r > MAX_CRITERIA_BYTES)
      then Inl (SearchParseError ''criteria is too large'')
      else
        let s = (case raw of None \<Rightarrow> [] | Some r \<Rightarrow> trim r)
        in if s = [] \<or> s = ''*'' \<or> s = ''1=1'' then Inr [[AllClause]]
           else bind_res (tokenize s) (\<lambda>tokens.
             if tokens = [] then Inl (SearchParseError ''criteria is empty'')
             else bind_res (parse_or (parser_fuel tokens) tokens) (\<lambda>(e, rest).
               if rest \<noteq> [] then Inl (SearchParseError ''unexpected trailing token'')
               else bind_res (expansion_of e) (\<lambda>_. to_groups e))))"

definition parse_search_criteria :: "string option \<Rightarrow> search_clause list list" where
  "parse_search_criteria raw =
     (case try_parse_search_criteria raw of Inl _ \<Rightarrow> [[UnknownClause]] | Inr q \<Rightarrow> q)"

subsection \<open>Object classes\<close>

definition object_class_prefix :: string where
  "object_class_prefix = ''object.''"

definition full_object_class :: "string \<Rightarrow> string" where
  "full_object_class v =
     (if v = [] \<or> (length object_class_prefix \<le> length v
          \<and> (length v = length object_class_prefix
              \<or> \<not> is_cont (v ! length object_class_prefix))
          \<and> eq_ignore_case (take (length object_class_prefix) v) object_class_prefix)
      then v else object_class_prefix @ v)"

definition object_class_derived_from :: "string \<Rightarrow> string \<Rightarrow> bool" where
  "object_class_derived_from v ancestor =
     (let v' = ascii_lower (full_object_class v);
          a' = ascii_lower (full_object_class ancestor)
      in v' = a' \<or> (case strip_prefix a' v' of None \<Rightarrow> False | Some rest \<Rightarrow> prefix ''.'' rest))"

subsection \<open>Row matching\<close>

fun row_field :: "search_row \<Rightarrow> search_prop \<Rightarrow> string" where
  "row_field r PropTitle = row_title r"
| "row_field r PropCreator = row_creator r"
| "row_field r PropDate = row_date r"
| "row_field r PropClass = row_class r"
| "row_field r PropArtist = row_artist r"
| "row_field r PropGenre = row_genre r"
| "row_field r PropAlbum = row_album r"
| "row_field r PropActor = row_actor r"
| "row_field r PropId = row_id r"
| "row_field r PropParentId = row_parent_id r"
| "row_field r PropRefId = (case row_ref_id r of None \<Rightarrow> [] | Some s \<Rightarrow> s)"

definition free_text :: "search_prop \<Rightarrow> bool" where
  "free_text p \<longleftrightarrow> p \<in> {PropTitle, PropCreator, PropArtist, PropGenre, PropAlbum, PropActor}"

definition fold_prop :: "(string \<Rightarrow> string) \<Rightarrow> search_prop \<Rightarrow> string \<Rightarrow> string" where
  "fold_prop lc p v = (if free_text p then lc v else ascii_lower v)"

definition normalized :: "search_row \<Rightarrow> search_prop \<Rightarrow> string" where
  "normalized r p = (if p = PropClass then full_object_class (row_field r p) else row_field r p)"

definition needle_of :: "search_prop \<Rightarrow> string \<Rightarrow> string" where
  "needle_of p v = (if p = PropClass then full_object_class v else v)"

text \<open>\<open>Ord::cmp\<close> on byte strings is the lexicographic order of their bytes.\<close>

fun clause_matches :: "(string \<Rightarrow> string) \<Rightarrow> search_clause \<Rightarrow> search_row \<Rightarrow> bool" where
  "clause_matches lc AllClause r = True"
| "clause_matches lc UnknownClause r = False"
| "clause_matches lc (Contains p needle) r =
     str_contains (fold_prop lc p needle) (fold_prop lc p (normalized r p))"
| "clause_matches lc (DoesNotContain p needle) r =
     (\<not> str_contains (fold_prop lc p needle) (fold_prop lc p (normalized r p)))"
| "clause_matches lc (Equals p v) r =
     (fold_prop lc p (normalized r p) = fold_prop lc p (needle_of p v))"
| "clause_matches lc (NotEquals p v) r =
     (fold_prop lc p (normalized r p) \<noteq> fold_prop lc p (needle_of p v))"
| "clause_matches lc (LessThan p v inclusive) r =
     (fold_prop lc p (normalized r p) < fold_prop lc p (needle_of p v)
      \<or> (inclusive \<and> fold_prop lc p (normalized r p) = fold_prop lc p (needle_of p v)))"
| "clause_matches lc (GreaterThan p v inclusive) r =
     (fold_prop lc p (needle_of p v) < fold_prop lc p (normalized r p)
      \<or> (inclusive \<and> fold_prop lc p (normalized r p) = fold_prop lc p (needle_of p v)))"
| "clause_matches lc (DerivedFrom p pre) r = object_class_derived_from (row_field r p) pre"
| "clause_matches lc (Exists p want) r = ((row_field r p \<noteq> []) = want)"

definition row_matches ::
  "(string \<Rightarrow> string) \<Rightarrow> search_clause list list \<Rightarrow> search_row \<Rightarrow> bool" where
  "row_matches lc q r = list_ex (\<lambda>ands. list_all (\<lambda>c. clause_matches lc c r) ands) q"

subsection \<open>What an expression means\<close>

text \<open>The specification the normal form refines: the Boolean reading of the expression.\<close>

fun eval_expression :: "(search_clause \<Rightarrow> bool) \<Rightarrow> expression \<Rightarrow> bool" where
  "eval_expression m (Clause c) = m c"
| "eval_expression m (AndExpr l r) = (eval_expression m l \<and> eval_expression m r)"
| "eval_expression m (OrExpr l r) = (eval_expression m l \<or> eval_expression m r)"

definition dnf_holds :: "(search_clause \<Rightarrow> bool) \<Rightarrow> search_clause list list \<Rightarrow> bool" where
  "dnf_holds m gs \<longleftrightarrow> (\<exists>g \<in> set gs. \<forall>c \<in> set g. m c)"

lemma row_matches_dnf: "row_matches lc q r = dnf_holds (\<lambda>c. clause_matches lc c r) q"
  by (auto simp: row_matches_def dnf_holds_def list_ex_iff list_all_iff)

lemma and_groups_out: "and_groups ps out = Inr gs \<Longrightarrow> gs = out @ map (\<lambda>(l, r). l @ r) ps"
  by (induction ps out arbitrary: gs rule: and_groups.induct) (auto split: if_splits)

lemma to_groups_sem: "to_groups e = Inr gs \<Longrightarrow> dnf_holds m gs = eval_expression m e"
proof (induction e arbitrary: gs)
  case (Clause c)
  then show ?case by (auto simp: dnf_holds_def)
next
  case (OrExpr l r)
  then obtain gl gr where "to_groups l = Inr gl" "to_groups r = Inr gr" "gs = gl @ gr"
    by (auto split: if_splits)
  with OrExpr.IH show ?case by (auto simp: dnf_holds_def)
next
  case (AndExpr l r)
  then obtain gl gr where g: "to_groups l = Inr gl" "to_groups r = Inr gr"
    "gs = map (\<lambda>(l, r). l @ r) (List.product gl gr)"
    by (auto dest: and_groups_out)
  then have "dnf_holds m gs \<longleftrightarrow> dnf_holds m gl \<and> dnf_holds m gr"
    by (auto simp: dnf_holds_def)
  with AndExpr.IH g show ?case by simp
qed

subsection \<open>The accounting is exact\<close>

definition total_clauses :: "search_clause list list \<Rightarrow> nat" where
  "total_clauses gs = sum_list (map length gs)"

definition max_width :: "search_clause list list \<Rightarrow> nat" where
  "max_width gs = foldr max (map length gs) 0"

definition total_bytes :: "search_clause list list \<Rightarrow> nat" where
  "total_bytes gs = sum_list (map (\<lambda>g. sum_list (map literal_bytes g)) gs)"

definition exact_expansion :: "expansion \<Rightarrow> search_clause list list \<Rightarrow> bool" where
  "exact_expansion x gs \<longleftrightarrow>
     length gs = ex_groups x \<and> total_clauses gs = ex_clauses x \<and>
     max_width gs = ex_width x \<and> total_bytes gs = ex_bytes x"

lemma sum_list_product:
  "sum_list (map (\<lambda>(x, y). f x + g y) (List.product xs ys)) =
     sum_list (map f xs) * length ys + length xs * sum_list (map g ys)" for f g :: "'a \<Rightarrow> nat"
proof (induction xs)
  case (Cons x xs)
  have "sum_list (map (\<lambda>y. f x + g y) ys) = f x * length ys + sum_list (map g ys)"
    by (simp add: sum_list_addf sum_list_triv)
  with Cons show ?case by (simp add: comp_def algebra_simps)
qed simp

lemma max_width_ge: "g \<in> set gs \<Longrightarrow> length g \<le> max_width gs"
  by (induction gs) (auto simp: max_width_def)

lemma max_width_attained: "gs \<noteq> [] \<Longrightarrow> \<exists>g \<in> set gs. length g = max_width gs"
proof (induction gs)
  case (Cons g gs)
  then show ?case
    by (cases "gs = []") (auto simp: max_width_def max_def)
qed simp

lemma max_width_eqI:
  "(\<And>g. g \<in> set gs \<Longrightarrow> length g \<le> n) \<Longrightarrow> g0 \<in> set gs \<Longrightarrow> length g0 = n \<Longrightarrow> max_width gs = n"
  using max_width_attained [of gs] max_width_ge [of g0 gs]
  by (metis empty_iff empty_set le_antisym)

lemma max_width_append: "max_width (xs @ ys) = max (max_width xs) (max_width ys)"
  by (induction xs) (simp_all add: max_width_def max.assoc)

lemma max_width_product:
  assumes "xs \<noteq> []" "ys \<noteq> []"
  shows "max_width (map (\<lambda>(l, r). l @ r) (List.product xs ys)) = max_width xs + max_width ys"
proof -
  obtain g h where gh: "g \<in> set xs" "length g = max_width xs" "h \<in> set ys" "length h = max_width ys"
    using max_width_attained assms by meson
  have "g @ h \<in> set (map (\<lambda>(l, r). l @ r) (List.product xs ys))"
    using gh by force
  moreover have "length k \<le> max_width xs + max_width ys"
    if "k \<in> set (map (\<lambda>(l, r). l @ r) (List.product xs ys))" for k
    using that by (auto intro!: add_mono max_width_ge)
  ultimately show ?thesis using gh by (intro max_width_eqI [of _ _ "g @ h"]) auto
qed

lemma and_groups_ok:
  "(\<And>l r. (l, r) \<in> set ps \<Longrightarrow> length l + length r \<le> 64) \<Longrightarrow> length out + length ps \<le> 256 \<Longrightarrow>
   and_groups ps out = Inr (out @ map (\<lambda>(l, r). l @ r) ps)"
proof (induction ps out rule: and_groups.induct)
  case (2 l r ps out)
  have "length l + length r \<le> 64" using "2.prems"(1) by simp
  with 2 show ?case by (auto simp: not_less)
qed simp

lemma check_expansion_Inr [simp]:
  "check_expansion x = Inr y \<longleftrightarrow>
     y = x \<and> ex_groups x \<le> 256 \<and> ex_width x \<le> 64 \<and> ex_clauses x \<le> MAX_EXPANDED_CLAUSES
     \<and> ex_bytes x \<le> MAX_EXPANDED_LITERAL_BYTES"
  by (auto simp: check_expansion_def)

lemma to_groups_ne: "to_groups e = Inr gs \<Longrightarrow> gs \<noteq> []"
proof (induction e arbitrary: gs)
  case (AndExpr l r)
  then obtain gl gr where "to_groups l = Inr gl" "to_groups r = Inr gr"
    "gs = map (\<lambda>(l, r). l @ r) (List.product gl gr)"
    by (auto dest: and_groups_out)
  with AndExpr.IH show ?case
    by (metis length_0_conv length_map length_product mult_is_0)
qed (auto split: if_splits)

lemma expansion_exact:
  "expansion_of e = Inr x \<Longrightarrow> \<exists>gs. to_groups e = Inr gs \<and> exact_expansion x gs"
proof (induction e arbitrary: x)
  case (Clause c)
  then show ?case
    by (auto simp: exact_expansion_def total_clauses_def max_width_def total_bytes_def split: if_splits)
next
  case (OrExpr l r)
  from OrExpr.prems obtain a b where ab: "expansion_of l = Inr a" "expansion_of r = Inr b"
    and x: "x = \<lparr>ex_groups = ex_groups a + ex_groups b, ex_clauses = ex_clauses a + ex_clauses b,
        ex_width = max (ex_width a) (ex_width b), ex_bytes = ex_bytes a + ex_bytes b\<rparr>"
    and le: "ex_groups a + ex_groups b \<le> 256"
    by (auto simp: sum_usize_def)
  obtain gl gr where g: "to_groups l = Inr gl" "exact_expansion a gl"
    "to_groups r = Inr gr" "exact_expansion b gr"
    using OrExpr.IH ab by meson
  then have "exact_expansion x (gl @ gr)" "length (gl @ gr) \<le> 256"
    using x le by (auto simp: exact_expansion_def total_clauses_def total_bytes_def max_width_append)
  with g show ?case by auto
next
  case (AndExpr l r)
  from AndExpr.prems obtain a b where ab: "expansion_of l = Inr a" "expansion_of r = Inr b"
    and x: "x = \<lparr>ex_groups = ex_groups a * ex_groups b,
        ex_clauses = ex_clauses a * ex_groups b + ex_clauses b * ex_groups a,
        ex_width = ex_width a + ex_width b,
        ex_bytes = ex_bytes a * ex_groups b + ex_bytes b * ex_groups a\<rparr>"
    and le: "ex_groups a * ex_groups b \<le> 256" "ex_width a + ex_width b \<le> 64"
    by (auto simp: sum_usize_def product_usize_def)
  obtain gl gr where g: "to_groups l = Inr gl" "exact_expansion a gl"
    "to_groups r = Inr gr" "exact_expansion b gr"
    using AndExpr.IH ab by meson
  let ?gs = "map (\<lambda>(l, r). l @ r) (List.product gl gr)"
  have "length p + length q \<le> 64" if "(p, q) \<in> set (List.product gl gr)" for p q
  proof -
    have "length p \<le> ex_width a" "length q \<le> ex_width b"
      using that g max_width_ge [of p gl] max_width_ge [of q gr] by (auto simp: exact_expansion_def)
    with le(2) show ?thesis by linarith
  qed
  then have "and_groups (List.product gl gr) [] = Inr ?gs"
    using g le and_groups_ok [of "List.product gl gr" "[]"] by (simp add: exact_expansion_def)
  then have "to_groups (AndExpr l r) = Inr ?gs"
    using g by simp
  moreover have "exact_expansion x ?gs"
  proof -
    have "total_clauses ?gs = sum_list (map (\<lambda>(p, q). length p + length q) (List.product gl gr))"
      unfolding total_clauses_def by (simp add: comp_def case_prod_unfold)
    moreover have "total_bytes ?gs =
        sum_list (map (\<lambda>(p, q). sum_list (map literal_bytes p) + sum_list (map literal_bytes q))
          (List.product gl gr))"
      unfolding total_bytes_def by (simp add: comp_def case_prod_unfold)
    ultimately show ?thesis
      using g x max_width_product [of gl gr] to_groups_ne [OF g(1)] to_groups_ne [OF g(3)]
      by (simp add: exact_expansion_def sum_list_product total_clauses_def total_bytes_def
          algebra_simps)
  qed
  ultimately show ?case by blast
qed

end
