(* ===== verification/Soap_Search_Parse.thy ===== *)
theory Soap_Search_Parse
  imports Soap_Search
begin

text \<open>
  The \<open>SearchCriteria\<close> parser of \<open>crates/soap/src/search.rs\<close>: it always returns within the
  fuel its entry point passes, more fuel never changes a result, and it inverts a printer that
  parenthesises by precedence.
\<close>

lemmas parser_simps =
  parse_or.simps or_loop.simps parse_and.simps and_loop.simps parse_primary.simps

subsection \<open>The parser terminates within its fuel\<close>

lemma take_operator_length: "take_operator ts = Inr (s, rest) \<Longrightarrow> length rest < length ts"
  by (auto simp: take_operator_def split: list.splits token.splits)

lemma take_value_length: "take_value ts = Inr (s, rest) \<Longrightarrow> length rest < length ts"
  by (auto simp: take_value_def split: list.splits token.splits)

lemma take_no_fuel: "take_operator ts \<noteq> Inl OutOfFuel" "take_value ts \<noteq> Inl OutOfFuel"
  by (auto simp: take_operator_def take_value_def split: list.splits token.splits)

lemma parse_clause_length: "parse_clause ts = Inr (c, rest) \<Longrightarrow> length rest < length ts"
  by (auto simp: parse_clause_def split: list.splits token.splits
      dest!: take_operator_length take_value_length)

lemma clause_of_no_fuel: "clause_of operator prop v \<noteq> Inl OutOfFuel"
  by (simp add: clause_of_def)

lemma parse_clause_no_fuel: "parse_clause ts \<noteq> Inl OutOfFuel"
  by (auto simp: parse_clause_def bind_res_Inl clause_of_no_fuel take_no_fuel
      split: list.splits token.splits)

lemma word_is_length: "word_is w ts \<Longrightarrow> 0 < length ts"
  by (cases ts) (simp_all add: word_is_def)

lemma parser_lengths:
  "(\<forall>ts e r. parse_or n ts = Inr (e, r) \<longrightarrow> length r < length ts) \<and>
   (\<forall>e0 ts e r. or_loop n e0 ts = Inr (e, r) \<longrightarrow> length r \<le> length ts) \<and>
   (\<forall>ts e r. parse_and n ts = Inr (e, r) \<longrightarrow> length r < length ts) \<and>
   (\<forall>e0 ts e r. and_loop n e0 ts = Inr (e, r) \<longrightarrow> length r \<le> length ts) \<and>
   (\<forall>ts e r. parse_primary n ts = Inr (e, r) \<longrightarrow> length r < length ts)"
proof (induction n)
  case (Suc n)
  note IH = Suc.IH [THEN conjunct1, rule_format]
    Suc.IH [THEN conjunct2, THEN conjunct1, rule_format]
    Suc.IH [THEN conjunct2, THEN conjunct2, THEN conjunct1, rule_format]
    Suc.IH [THEN conjunct2, THEN conjunct2, THEN conjunct2, THEN conjunct1, rule_format]
    Suc.IH [THEN conjunct2, THEN conjunct2, THEN conjunct2, THEN conjunct2, rule_format]
  show ?case
  proof (intro conjI allI impI)
    fix ts e r assume "parse_or (Suc n) ts = Inr (e, r)"
    then show "length r < length ts" using IH(2,3) by fastforce
  next
    fix e0 ts e r assume "or_loop (Suc n) e0 ts = Inr (e, r)"
    then show "length r \<le> length ts"
      using IH(2,3) word_is_length [of "''or''" ts] by (fastforce split: if_splits)
  next
    fix ts e r assume "parse_and (Suc n) ts = Inr (e, r)"
    then show "length r < length ts" using IH(4,5) by fastforce
  next
    fix e0 ts e r assume "and_loop (Suc n) e0 ts = Inr (e, r)"
    then show "length r \<le> length ts"
      using IH(4,5) word_is_length [of "''and''" ts] by (fastforce split: if_splits)
  next
    fix ts e r assume "parse_primary (Suc n) ts = Inr (e, r)"
    then show "length r < length ts"
      using IH(1) parse_clause_length by (fastforce split: if_splits)
  qed
qed simp

lemmas parse_or_length = parser_lengths [THEN conjunct1, rule_format]
lemmas parse_and_length =
  parser_lengths [THEN conjunct2, THEN conjunct2, THEN conjunct1, rule_format]
lemmas parse_primary_length =
  parser_lengths [THEN conjunct2, THEN conjunct2, THEN conjunct2, THEN conjunct2, rule_format]

lemma parser_fuel_enough:
  "(\<forall>ts. 3 * length ts + 3 \<le> n \<longrightarrow> parse_or n ts \<noteq> Inl OutOfFuel) \<and>
   (\<forall>e ts. 3 * length ts + 1 \<le> n \<longrightarrow> or_loop n e ts \<noteq> Inl OutOfFuel) \<and>
   (\<forall>ts. 3 * length ts + 2 \<le> n \<longrightarrow> parse_and n ts \<noteq> Inl OutOfFuel) \<and>
   (\<forall>e ts. 3 * length ts + 1 \<le> n \<longrightarrow> and_loop n e ts \<noteq> Inl OutOfFuel) \<and>
   (\<forall>ts. 3 * length ts + 1 \<le> n \<longrightarrow> parse_primary n ts \<noteq> Inl OutOfFuel)"
proof (induction n)
  case (Suc n)
  note IH = Suc.IH [THEN conjunct1, rule_format]
    Suc.IH [THEN conjunct2, THEN conjunct1, rule_format]
    Suc.IH [THEN conjunct2, THEN conjunct2, THEN conjunct1, rule_format]
    Suc.IH [THEN conjunct2, THEN conjunct2, THEN conjunct2, THEN conjunct1, rule_format]
    Suc.IH [THEN conjunct2, THEN conjunct2, THEN conjunct2, THEN conjunct2, rule_format]
  show ?case
  proof (intro conjI allI impI)
    fix ts :: "token list" assume "3 * length ts + 3 \<le> Suc n"
    then show "parse_or (Suc n) ts \<noteq> Inl OutOfFuel"
      using IH(2,3) by (fastforce simp: bind_res_Inl dest: parse_and_length)
  next
    fix e and ts :: "token list" assume fuel: "3 * length ts + 1 \<le> Suc n"
    have arg: "parse_and n (tl ts) \<noteq> Inl OutOfFuel" if "word_is ''or'' ts"
      using IH(3) [of "tl ts"] word_is_length [OF that] fuel by (cases ts) auto
    have rest: "or_loop n e2 r \<noteq> Inl OutOfFuel"
      if "word_is ''or'' ts" "parse_and n (tl ts) = Inr (e', r)" for e2 e' r
      using IH(2) [of r e2] parse_and_length [OF that(2)] word_is_length [OF that(1)] fuel by simp
    show "or_loop (Suc n) e ts \<noteq> Inl OutOfFuel"
      using arg rest by (auto simp: bind_res_Inl)
  next
    fix ts :: "token list" assume "3 * length ts + 2 \<le> Suc n"
    then show "parse_and (Suc n) ts \<noteq> Inl OutOfFuel"
      using IH(4,5) by (fastforce simp: bind_res_Inl dest: parse_primary_length)
  next
    fix e and ts :: "token list" assume fuel: "3 * length ts + 1 \<le> Suc n"
    have arg: "parse_primary n (tl ts) \<noteq> Inl OutOfFuel" if "word_is ''and'' ts"
      using IH(5) [of "tl ts"] word_is_length [OF that] fuel by (cases ts) auto
    have rest: "and_loop n e2 r \<noteq> Inl OutOfFuel"
      if "word_is ''and'' ts" "parse_primary n (tl ts) = Inr (e', r)" for e2 e' r
      using IH(4) [of r e2] parse_primary_length [OF that(2)] word_is_length [OF that(1)] fuel by simp
    show "and_loop (Suc n) e ts \<noteq> Inl OutOfFuel"
      using arg rest by (auto simp: bind_res_Inl)
  next
    fix ts :: "token list" assume fuel: "3 * length ts + 1 \<le> Suc n"
    have inner: "parse_or n (tl ts) \<noteq> Inl OutOfFuel" if "ts \<noteq> []"
      using IH(1) [of "tl ts"] that fuel by (cases ts) auto
    show "parse_primary (Suc n) ts \<noteq> Inl OutOfFuel"
      using inner parse_clause_no_fuel [of ts] by (auto simp: bind_res_Inl)
  qed
qed simp

lemma parse_or_total: "parse_or (parser_fuel ts) ts \<noteq> Inl OutOfFuel"
  using parser_fuel_enough [of "parser_fuel ts"] by (simp add: parser_fuel_def)

lemma tokenize_no_fuel: "tokenize s \<noteq> Inl OutOfFuel"
proof -
  have "tokenize_loop cs out \<noteq> Inl OutOfFuel" for cs out
    by (induction cs out rule: tokenize_loop.induct)
       (auto simp: next_token_def Let_def split: sum.splits if_splits list.splits option.splits)
  then show ?thesis by (simp add: tokenize_def)
qed

subsection \<open>Printing expressions back to tokens\<close>

fun prop_name :: "search_prop \<Rightarrow> string" where
  "prop_name PropTitle = ''dc:title''"
| "prop_name PropCreator = ''dc:creator''"
| "prop_name PropDate = ''dc:date''"
| "prop_name PropClass = ''upnp:class''"
| "prop_name PropArtist = ''upnp:artist''"
| "prop_name PropGenre = ''upnp:genre''"
| "prop_name PropAlbum = ''upnp:album''"
| "prop_name PropActor = ''upnp:actor''"
| "prop_name PropId = ''@id''"
| "prop_name PropParentId = ''@parentID''"
| "prop_name PropRefId = ''@refID''"

text \<open>Clauses a client can write; \<open>UnknownClause\<close> and \<open>AllClause\<close> only arise inside the server.\<close>

fun printable_clause :: "search_clause \<Rightarrow> bool" where
  "printable_clause UnknownClause = False"
| "printable_clause AllClause = False"
| "printable_clause _ = True"

fun printable :: "expression \<Rightarrow> bool" where
  "printable (Clause c) = printable_clause c"
| "printable (AndExpr l r) = (printable l \<and> printable r)"
| "printable (OrExpr l r) = (printable l \<and> printable r)"

fun clause_tokens :: "search_clause \<Rightarrow> token list" where
  "clause_tokens (Contains p v) = [TWord (prop_name p), TWord ''contains'', TValue v]"
| "clause_tokens (DoesNotContain p v) = [TWord (prop_name p), TWord ''doesNotContain'', TValue v]"
| "clause_tokens (Equals p v) = [TWord (prop_name p), TOperator ''='', TValue v]"
| "clause_tokens (NotEquals p v) = [TWord (prop_name p), TOperator ''!='', TValue v]"
| "clause_tokens (LessThan p v i) =
     [TWord (prop_name p), TOperator (if i then ''<='' else ''<''), TValue v]"
| "clause_tokens (GreaterThan p v i) =
     [TWord (prop_name p), TOperator (if i then ''>='' else ''>''), TValue v]"
| "clause_tokens (DerivedFrom p v) = [TWord (prop_name p), TWord ''derivedfrom'', TValue v]"
| "clause_tokens (Exists p b) =
     [TWord (prop_name p), TWord ''exists'', TWord (if b then ''true'' else ''false'')]"
| "clause_tokens UnknownClause = []"
| "clause_tokens AllClause = []"

definition paren :: "bool \<Rightarrow> token list \<Rightarrow> token list" where
  "paren b ts = (if b then TLeft # ts @ [TRight] else ts)"

text \<open>Level 0 prints an operand of nothing, 1 of \<open>or\<close> on the right or \<open>and\<close> on the left, 2 of
  \<open>and\<close> on the right; parentheses appear exactly where the precedence needs them.\<close>

fun expr_tokens :: "nat \<Rightarrow> expression \<Rightarrow> token list" where
  "expr_tokens k (Clause c) = clause_tokens c"
| "expr_tokens k (OrExpr l r) =
     paren (0 < k) (expr_tokens 0 l @ [TWord ''or''] @ expr_tokens 1 r)"
| "expr_tokens k (AndExpr l r) =
     paren (1 < k) (expr_tokens 1 l @ [TWord ''and''] @ expr_tokens 2 r)"

subsection \<open>More fuel never changes a result\<close>

lemma bind_res_stable:
  "bind_res m f \<noteq> Inl OutOfFuel \<Longrightarrow> (m \<noteq> Inl OutOfFuel \<Longrightarrow> m' = m) \<Longrightarrow>
   (\<And>x. m = Inr x \<Longrightarrow> f x \<noteq> Inl OutOfFuel \<Longrightarrow> f' x = f x) \<Longrightarrow> bind_res m' f' = bind_res m f"
  by (cases m) auto

lemma parser_stable_step:
  "(\<forall>ts. parse_or n ts \<noteq> Inl OutOfFuel \<longrightarrow> parse_or (Suc n) ts = parse_or n ts) \<and>
   (\<forall>e ts. or_loop n e ts \<noteq> Inl OutOfFuel \<longrightarrow> or_loop (Suc n) e ts = or_loop n e ts) \<and>
   (\<forall>ts. parse_and n ts \<noteq> Inl OutOfFuel \<longrightarrow> parse_and (Suc n) ts = parse_and n ts) \<and>
   (\<forall>e ts. and_loop n e ts \<noteq> Inl OutOfFuel \<longrightarrow> and_loop (Suc n) e ts = and_loop n e ts) \<and>
   (\<forall>ts. parse_primary n ts \<noteq> Inl OutOfFuel \<longrightarrow> parse_primary (Suc n) ts = parse_primary n ts)"
proof (induction n)
  case (Suc n)
  note IH = Suc.IH [THEN conjunct1, rule_format]
    Suc.IH [THEN conjunct2, THEN conjunct1, rule_format]
    Suc.IH [THEN conjunct2, THEN conjunct2, THEN conjunct1, rule_format]
    Suc.IH [THEN conjunct2, THEN conjunct2, THEN conjunct2, THEN conjunct1, rule_format]
    Suc.IH [THEN conjunct2, THEN conjunct2, THEN conjunct2, THEN conjunct2, rule_format]
  show ?case
  proof (intro conjI allI impI)
    fix ts assume "parse_or (Suc n) ts \<noteq> Inl OutOfFuel"
    then show "parse_or (Suc (Suc n)) ts = parse_or (Suc n) ts"
      unfolding parse_or.simps by (rule bind_res_stable) (auto simp del: parser_simps intro: IH)
  next
    fix e ts assume "or_loop (Suc n) e ts \<noteq> Inl OutOfFuel"
    then show "or_loop (Suc (Suc n)) e ts = or_loop (Suc n) e ts"
      unfolding or_loop.simps(2) [of n e ts] or_loop.simps(2) [of "Suc n" e ts]
      by (simp del: parser_simps split: if_splits, intro impI bind_res_stable)
         (auto simp del: parser_simps intro: IH)
  next
    fix ts assume "parse_and (Suc n) ts \<noteq> Inl OutOfFuel"
    then show "parse_and (Suc (Suc n)) ts = parse_and (Suc n) ts"
      unfolding parse_and.simps by (rule bind_res_stable) (auto simp del: parser_simps intro: IH)
  next
    fix e ts assume "and_loop (Suc n) e ts \<noteq> Inl OutOfFuel"
    then show "and_loop (Suc (Suc n)) e ts = and_loop (Suc n) e ts"
      unfolding and_loop.simps(2) [of n e ts] and_loop.simps(2) [of "Suc n" e ts]
      by (simp del: parser_simps split: if_splits, intro impI bind_res_stable)
         (auto simp del: parser_simps intro: IH)
  next
    fix ts assume "parse_primary (Suc n) ts \<noteq> Inl OutOfFuel"
    then show "parse_primary (Suc (Suc n)) ts = parse_primary (Suc n) ts"
      unfolding parse_primary.simps
      by (simp del: parser_simps split: if_splits, intro impI bind_res_stable)
         (auto simp del: parser_simps intro: IH)
  qed
qed simp

lemmas parser_stable =
  parser_stable_step [THEN conjunct1, rule_format]
  parser_stable_step [THEN conjunct2, THEN conjunct1, rule_format]
  parser_stable_step [THEN conjunct2, THEN conjunct2, THEN conjunct1, rule_format]
  parser_stable_step [THEN conjunct2, THEN conjunct2, THEN conjunct2, THEN conjunct1, rule_format]
  parser_stable_step [THEN conjunct2, THEN conjunct2, THEN conjunct2, THEN conjunct2, rule_format]

lemma fuel_mono:
  fixes f :: "nat \<Rightarrow> search_error + 'a"
  assumes "\<And>n. f n \<noteq> Inl OutOfFuel \<Longrightarrow> f (Suc n) = f n" "f n \<noteq> Inl OutOfFuel" "n \<le> m"
  shows "f m = f n"
  using assms(3) by (induction rule: dec_induct) (use assms(1,2) in auto)

lemma parse_or_mono: "parse_or n ts = Inr x \<Longrightarrow> n \<le> m \<Longrightarrow> parse_or m ts = Inr x"
  using fuel_mono [of "\<lambda>n. parse_or n ts" n m] parser_stable(1) by simp

lemma or_loop_mono: "or_loop n e ts = Inr x \<Longrightarrow> n \<le> m \<Longrightarrow> or_loop m e ts = Inr x"
  using fuel_mono [of "\<lambda>n. or_loop n e ts" n m] parser_stable(2) by simp

lemma parse_and_mono: "parse_and n ts = Inr x \<Longrightarrow> n \<le> m \<Longrightarrow> parse_and m ts = Inr x"
  using fuel_mono [of "\<lambda>n. parse_and n ts" n m] parser_stable(3) by simp

lemma and_loop_mono: "and_loop n e ts = Inr x \<Longrightarrow> n \<le> m \<Longrightarrow> and_loop m e ts = Inr x"
  using fuel_mono [of "\<lambda>n. and_loop n e ts" n m] parser_stable(4) by simp

lemma parse_primary_mono: "parse_primary n ts = Inr x \<Longrightarrow> n \<le> m \<Longrightarrow> parse_primary m ts = Inr x"
  using fuel_mono [of "\<lambda>n. parse_primary n ts" n m] parser_stable(5) by simp

text \<open>Any fuel that gives a result gives the result of \<open>parser_fuel\<close>.\<close>

lemma parse_or_any_fuel:
  assumes "parse_or n ts = Inr x"
  shows "parse_or (parser_fuel ts) ts = Inr x"
proof (cases "n \<le> parser_fuel ts")
  case True
  with assms show ?thesis by (rule parse_or_mono)
next
  case False
  then show ?thesis
    using fuel_mono [of "\<lambda>n. parse_or n ts" "parser_fuel ts" n] parser_stable(1)
      parse_or_total [of ts] assms by simp
qed

subsection \<open>The parser inverts the printer\<close>

lemma parse_prop_name [simp]: "parse_prop (prop_name p) = Some p"
proof -
  have "trim (prop_name p) = prop_name p"
    by (rule trim_id) (cases p; simp add: graphic_def)
  then show ?thesis by (cases p) (simp_all add: parse_prop_def)
qed

lemma parse_clause_tokens:
  "printable_clause c \<Longrightarrow> parse_clause (clause_tokens c @ rest) = Inr (c, rest)"
  by (cases c)
     (auto simp: parse_clause_def take_operator_def take_value_def clause_of_def lower_eval)

lemma clause_tokens_ne: "printable_clause c \<Longrightarrow> clause_tokens c \<noteq> [] \<and> hd (clause_tokens c) \<noteq> TLeft"
  by (cases c) auto

lemma and_loop_stop: "\<not> word_is ''and'' ts \<Longrightarrow> and_loop (Suc n) e ts = Inr (e, ts)"
  by simp

lemma or_loop_stop: "\<not> word_is ''or'' ts \<Longrightarrow> or_loop (Suc n) e ts = Inr (e, ts)"
  by simp

lemma parse_and_intro:
  assumes "parse_primary n ts = Inr (e, rest)" "and_loop m e rest = Inr x"
  shows "\<exists>k. parse_and k ts = Inr x"
proof -
  have "parse_primary (max n m) ts = Inr (e, rest)" "and_loop (max n m) e rest = Inr x"
    using assms parse_primary_mono and_loop_mono by (meson max.cobounded1 max.cobounded2)+
  then have "parse_and (Suc (max n m)) ts = Inr x" by simp
  then show ?thesis by blast
qed

lemma parse_or_intro:
  assumes "parse_and n ts = Inr (e, rest)" "or_loop m e rest = Inr x"
  shows "\<exists>k. parse_or k ts = Inr x"
proof -
  have "parse_and (max n m) ts = Inr (e, rest)" "or_loop (max n m) e rest = Inr x"
    using assms parse_and_mono or_loop_mono by (meson max.cobounded1 max.cobounded2)+
  then have "parse_or (Suc (max n m)) ts = Inr x" by simp
  then show ?thesis by blast
qed

lemma and_loop_intro:
  assumes "parse_primary n ts = Inr (e', rest)" "and_loop m (AndExpr e e') rest = Inr x"
  shows "\<exists>k. and_loop k e (TWord ''and'' # ts) = Inr x"
proof -
  have "parse_primary (max n m) ts = Inr (e', rest)" "and_loop (max n m) (AndExpr e e') rest = Inr x"
    using assms parse_primary_mono and_loop_mono by (meson max.cobounded1 max.cobounded2)+
  then have "and_loop (Suc (max n m)) e (TWord ''and'' # ts) = Inr x"
    by (simp add: word_is_def)
  then show ?thesis by blast
qed

lemma or_loop_intro:
  assumes "parse_and n ts = Inr (e', rest)" "or_loop m (OrExpr e e') rest = Inr x"
  shows "\<exists>k. or_loop k e (TWord ''or'' # ts) = Inr x"
proof -
  have "parse_and (max n m) ts = Inr (e', rest)" "or_loop (max n m) (OrExpr e e') rest = Inr x"
    using assms parse_and_mono or_loop_mono by (meson max.cobounded1 max.cobounded2)+
  then have "or_loop (Suc (max n m)) e (TWord ''or'' # ts) = Inr x"
    by (simp add: word_is_def)
  then show ?thesis by blast
qed

lemma parse_primary_paren:
  assumes "parse_or n (ts @ TRight # rest) = Inr (e, TRight # rest)"
  shows "\<exists>k. parse_primary k (TLeft # ts @ TRight # rest) = Inr (e, rest)"
proof -
  have "parse_primary (Suc n) (TLeft # ts @ TRight # rest) = Inr (e, rest)"
    using assms by simp
  then show ?thesis by blast
qed

text \<open>The three precedence levels, for any continuation \<open>rest\<close>.\<close>

definition level_spec :: "expression \<Rightarrow> bool" where
  "level_spec e \<longleftrightarrow>
     (\<forall>rest. \<exists>n. parse_primary n (expr_tokens 2 e @ rest) = Inr (e, rest)) \<and>
     (\<forall>rest m x. and_loop m e rest = Inr x \<longrightarrow> (\<exists>n. parse_and n (expr_tokens 1 e @ rest) = Inr x)) \<and>
     (\<forall>rest m x. \<not> word_is ''and'' rest \<longrightarrow> or_loop m e rest = Inr x \<longrightarrow>
        (\<exists>n. parse_or n (expr_tokens 0 e @ rest) = Inr x))"

lemma level_primary: "level_spec e \<Longrightarrow> \<exists>n. parse_primary n (expr_tokens 2 e @ rest) = Inr (e, rest)"
  by (simp add: level_spec_def)

lemma level_and:
  "level_spec e \<Longrightarrow> and_loop m e rest = Inr x \<Longrightarrow> \<exists>n. parse_and n (expr_tokens 1 e @ rest) = Inr x"
  unfolding level_spec_def by blast

lemma level_or:
  "level_spec e \<Longrightarrow> \<not> word_is ''and'' rest \<Longrightarrow> or_loop m e rest = Inr x \<Longrightarrow>
   \<exists>n. parse_or n (expr_tokens 0 e @ rest) = Inr x"
  unfolding level_spec_def by blast

lemma or_from_and:
  assumes "\<And>m x rest. and_loop m e rest = Inr x \<Longrightarrow> \<exists>n. parse_and n (ts @ rest) = Inr x"
    and "\<not> word_is ''and'' rest" "or_loop m e rest = Inr x"
  shows "\<exists>n. parse_or n (ts @ rest) = Inr x"
  using assms(1) [OF and_loop_stop [OF assms(2)]] parse_or_intro assms(3) by blast

lemma primary_from_or:
  assumes "\<And>rest m x. \<not> word_is ''and'' rest \<Longrightarrow> or_loop m e rest = Inr x \<Longrightarrow>
      \<exists>n. parse_or n (ts @ rest) = Inr x"
  shows "\<exists>n. parse_primary n (TLeft # ts @ TRight # rest) = Inr (e, rest)"
proof -
  have stop: "\<not> word_is w (TRight # rest)" for w by (simp add: word_is_def)
  obtain n where "parse_or n (ts @ TRight # rest) = Inr (e, TRight # rest)"
    using assms [OF stop or_loop_stop [OF stop]] by blast
  then show ?thesis by (rule parse_primary_paren)
qed

lemma level_clause:
  assumes "printable_clause c"
  shows "level_spec (Clause c)"
proof -
  have prim: "parse_primary (Suc 0) (clause_tokens c @ rest) = Inr (Clause c, rest)" for rest
    using parse_clause_tokens [OF assms] clause_tokens_ne [OF assms] by simp
  then have "\<exists>n. parse_and n (clause_tokens c @ rest) = Inr x"
    if "and_loop m (Clause c) rest = Inr x" for m rest x
    using parse_and_intro that by blast
  moreover from this have "\<exists>n. parse_or n (clause_tokens c @ rest) = Inr x"
    if "\<not> word_is ''and'' rest" "or_loop m (Clause c) rest = Inr x" for m rest x
    using or_from_and [of "Clause c"] that by blast
  ultimately show ?thesis
    using prim unfolding level_spec_def by (metis expr_tokens.simps(1))
qed

lemma level_and_expr:
  assumes "level_spec l" "level_spec r"
  shows "level_spec (AndExpr l r)"
proof -
  let ?ts = "expr_tokens 1 l @ [TWord ''and''] @ expr_tokens 2 r"
  have A: "\<exists>n. parse_and n (?ts @ rest) = Inr x" if "and_loop m (AndExpr l r) rest = Inr x" for m rest x
    using level_primary [OF assms(2), of rest] and_loop_intro that level_and [OF assms(1)]
    by (metis append_Cons append_Nil append_assoc)
  have O: "\<exists>n. parse_or n (?ts @ rest) = Inr x"
    if "\<not> word_is ''and'' rest" "or_loop m (AndExpr l r) rest = Inr x" for m rest x
    by (rule or_from_and [where e = "AndExpr l r"]) (use A that in blast)+
  have P: "\<exists>n. parse_primary n (TLeft # ?ts @ TRight # rest) = Inr (AndExpr l r, rest)" for rest
    by (rule primary_from_or [where e = "AndExpr l r"]) (use O in blast)
  show ?thesis
    unfolding level_spec_def using A O P by (simp add: paren_def)
qed

lemma level_or_expr:
  assumes "level_spec l" "level_spec r"
  shows "level_spec (OrExpr l r)"
proof -
  let ?ts = "expr_tokens 0 l @ [TWord ''or''] @ expr_tokens 1 r"
  have O: "\<exists>n. parse_or n (?ts @ rest) = Inr x"
    if stop: "\<not> word_is ''and'' rest" and loop: "or_loop m (OrExpr l r) rest = Inr x" for m rest x
  proof -
    obtain n where "parse_and n (expr_tokens 1 r @ rest) = Inr (r, rest)"
      using level_and [OF assms(2) and_loop_stop [OF stop]] by blast
    then obtain k where "or_loop k l (TWord ''or'' # expr_tokens 1 r @ rest) = Inr x"
      using or_loop_intro loop by blast
    moreover have "\<not> word_is ''and'' (TWord ''or'' # expr_tokens 1 r @ rest)"
      by (simp add: word_is_def eq_ignore_case_def lower_eval)
    ultimately have "\<exists>n. parse_or n (expr_tokens 0 l @ TWord ''or'' # expr_tokens 1 r @ rest) = Inr x"
      using level_or [OF assms(1)] by blast
    then show ?thesis by simp
  qed
  have P: "\<exists>n. parse_primary n (TLeft # ?ts @ TRight # rest) = Inr (OrExpr l r, rest)" for rest
    by (rule primary_from_or [where e = "OrExpr l r"]) (use O in blast)
  have A: "\<exists>n. parse_and n (TLeft # ?ts @ TRight # rest) = Inr x"
    if "and_loop m (OrExpr l r) rest = Inr x" for m rest x
    using P [of rest] parse_and_intro that by blast
  show ?thesis
    unfolding level_spec_def using A O P by (simp add: paren_def)
qed

lemma level_spec_printable: "printable e \<Longrightarrow> level_spec e"
  by (induction e) (auto intro: level_clause level_and_expr level_or_expr)

lemma parse_or_expr_tokens:
  assumes "printable e"
  shows "parse_or (parser_fuel (expr_tokens 0 e)) (expr_tokens 0 e) = Inr (e, [])"
proof -
  have stop: "\<not> word_is w []" for w by (simp add: word_is_def)
  obtain n where "parse_or n (expr_tokens 0 e @ []) = Inr (e, [])"
    using level_or [OF level_spec_printable [OF assms] stop or_loop_stop [OF stop]] by blast
  then show ?thesis by (intro parse_or_any_fuel) simp
qed

end
