(* ===== verification/Search_Properties.thy ===== *)
theory Search_Properties
  imports Soap_Search_Parse
begin

text \<open>
  The lexer of \<open>crates/soap/src/search.rs\<close> inverts a renderer that quotes and escapes values,
  and with it the whole of \<open>try_parse_search_criteria\<close> inverts the rendering of an expression.
\<close>

subsection \<open>Strings as lists of encoded characters\<close>

definition char_unit :: "string \<Rightarrow> bool" where
  "char_unit x \<longleftrightarrow> x \<noteq> [] \<and> \<not> is_cont (hd x) \<and> (\<forall>c \<in> set (tl x). is_cont c)"

definition starts_char :: "string \<Rightarrow> bool" where
  "starts_char v \<longleftrightarrow> v = [] \<or> \<not> is_cont (hd v)"

lemma chars_unit:
  assumes "char_unit x"
  shows "chars x = [x]"
proof (cases x)
  case Nil
  with assms show ?thesis by (simp add: char_unit_def)
next
  case (Cons c cs)
  with assms have "takeWhile is_cont cs = cs" "dropWhile is_cont cs = []"
    by (simp_all add: char_unit_def dropWhile_eq_Nil_conv takeWhile_eq_all_conv)
  with Cons show ?thesis by (simp only: chars.simps)
qed

lemma chars_concat: "(\<And>x. x \<in> set xs \<Longrightarrow> char_unit x) \<Longrightarrow> chars (concat xs) = xs"
proof (induction xs)
  case (Cons x xs)
  have "concat xs = [] \<or> \<not> is_cont (hd (concat xs))"
    using Cons.prems by (cases xs) (auto simp: char_unit_def)
  with Cons show ?case by (simp add: chars_append chars_unit)
qed simp

lemma chars_units: "starts_char v \<Longrightarrow> x \<in> set (chars v) \<Longrightarrow> char_unit x"
proof (induction v rule: chars.induct)
  case (2 c cs)
  have "starts_char (dropWhile is_cont cs)"
    unfolding starts_char_def using hd_dropWhile by blast
  moreover have "x = c # takeWhile is_cont cs \<or> x \<in> set (chars (dropWhile is_cont cs))"
    using "2.prems"(2) by simp
  moreover have "char_unit (c # takeWhile is_cont cs)"
    using "2.prems"(1) by (auto simp: starts_char_def char_unit_def dest: set_takeWhileD)
  ultimately show ?case using "2.IH" by blast
qed simp

lemma ascii_unit: "bval c < 128 \<Longrightarrow> char_unit [c]"
  by (simp add: char_unit_def is_cont_def)

subsection \<open>Rendering tokens\<close>

definition escape_unit :: "string \<Rightarrow> string list" where
  "escape_unit x = (if x = [CHR 0x22] \<or> x = [CHR 0x5C] then [[CHR 0x5C], x] else [x])"

fun render_token :: "token \<Rightarrow> string list" where
  "render_token TLeft = [''('']"
| "render_token TRight = ['')'']"
| "render_token (TOperator s) = map (\<lambda>c. [c]) s"
| "render_token (TWord s) = chars s"
| "render_token (TValue v) =
     [[CHR 0x22]] @ concat (map escape_unit (chars v)) @ [[CHR 0x22]]"

fun render_tokens :: "token list \<Rightarrow> string list" where
  "render_tokens [] = []"
| "render_tokens [t] = render_token t"
| "render_tokens (t # u # ts) = render_token t @ '' '' # render_tokens (u # ts)"

fun lexable :: "token \<Rightarrow> bool" where
  "lexable TLeft = True"
| "lexable TRight = True"
| "lexable (TOperator s) = (s \<in> {''='', ''!='', ''<'', ''<='', ''>'', ''>=''})"
| "lexable (TWord s) = (s \<noteq> [] \<and> starts_char s \<and> \<not> is_quote (hd (chars s))
     \<and> (\<forall>x \<in> set (chars s). word_char x))"
| "lexable (TValue v) = starts_char v"

lemma lex_quoted_escaped:
  "lex_quoted [CHR 0x22] (concat (map escape_unit xs) @ [CHR 0x22] # rest) v =
     Some (v @ concat xs, rest)"
  by (induction xs arbitrary: v) (simp_all add: escape_unit_def)

lemma space_whitespace [simp]: "is_whitespace '' ''"
  by (simp add: is_whitespace_def whitespace_scalars_def)

lemma not_whitespace: "graphic c \<Longrightarrow> \<not> is_whitespace [c]"
  using whitespace_hd [of "[c]"] by (auto simp: is_whitespace_def)

lemma word_char_not_whitespace: "word_char x \<Longrightarrow> \<not> is_whitespace x"
  by (simp add: word_char_def)

definition stops :: "string list \<Rightarrow> bool" where
  "stops tail \<longleftrightarrow> tail = [] \<or> hd tail = '' ''"

lemma next_token_word:
  assumes "s \<noteq> []" "\<not> is_quote (hd (chars s))" "\<forall>x \<in> set (chars s). word_char x" "stops tail"
    and "chars s @ tail = c # cs"
  shows "next_token c cs = Inr (TWord s, tail)"
proof -
  obtain x xs where x: "chars s = x # xs" using assms(1) by (cases s) auto
  then have c: "c = x" "cs = xs @ tail" "word_char c" "\<not> is_quote c" using assms by auto
  have "takeWhile word_char (c # cs) = chars s" "dropWhile word_char (c # cs) = tail"
  proof -
    have "\<not> word_char '' ''" by (simp add: word_char_def)
    then have "takeWhile word_char tail = []" "dropWhile word_char tail = tail"
      using assms(4) by (cases tail; auto simp: stops_def)+
    then show "takeWhile word_char (c # cs) = chars s" "dropWhile word_char (c # cs) = tail"
      using assms(3) by (simp_all flip: assms(5) add: takeWhile_append dropWhile_append)
  qed
  moreover have "c \<noteq> ''(''" "c \<noteq> '')''" "\<not> op_start c" using c by (auto simp: word_char_def)
  moreover have "concat (x # xs) = s" using concat_chars [of s] by (simp only: x)
  ultimately show ?thesis using c x by (simp only: next_token_def Let_def) simp
qed

lemma next_token_render:
  assumes "lexable t" "stops tail" "render_token t @ tail = c # cs"
  shows "next_token c cs = Inr (t, tail)"
proof (cases t)
  case (TWord s)
  have "s \<noteq> []" "\<not> is_quote (hd (chars s))" "\<forall>x \<in> set (chars s). word_char x"
    "chars s @ tail = c # cs" using assms(1,3) unfolding TWord by simp_all
  with next_token_word [of s tail c cs] assms(2) show ?thesis unfolding TWord by blast
next
  case (TValue v)
  with assms have "c = [CHR 0x22]"
    "cs = concat (map escape_unit (chars v)) @ [CHR 0x22] # tail" by auto
  then show ?thesis
    using TValue by (simp add: next_token_def op_start_def is_quote_def lex_quoted_escaped)
next
  case (TOperator s)
  with assms show ?thesis
    by (cases tail) (auto simp: next_token_def op_start_def stops_def)
qed (use assms in \<open>auto simp: next_token_def\<close>)

lemma render_token_ne: "lexable t \<Longrightarrow> render_token t \<noteq> [] \<and> \<not> is_whitespace (hd (render_token t))"
proof (cases t)
  case (TWord s)
  moreover assume "lexable t"
  ultimately show ?thesis by (cases s) (auto dest: word_char_not_whitespace)
next
  case (TOperator s)
  moreover assume "lexable t"
  ultimately show ?thesis
    using not_whitespace [of "CHR ''=''"] not_whitespace [of "CHR ''<''"]
      not_whitespace [of "CHR ''>''"] not_whitespace [of "CHR ''!''"]
    by (auto simp: graphic_def)
qed (auto intro!: not_whitespace simp: graphic_def)

lemma tokenize_step:
  assumes "lexable t" "stops tail" "length out < 512"
  shows "tokenize_loop (render_token t @ tail) out = tokenize_loop tail (out @ [t])"
proof -
  obtain c cs where c: "render_token t @ tail = c # cs" "\<not> is_whitespace c"
    using render_token_ne [OF assms(1)] by (cases "render_token t") auto
  with next_token_render [OF assms(1,2) c(1)] assms(3) show ?thesis by simp
qed

lemma tokenize_render_tokens:
  "(\<And>t. t \<in> set ts \<Longrightarrow> lexable t) \<Longrightarrow> length out + length ts \<le> 512 \<Longrightarrow>
   tokenize_loop (render_tokens ts) out = Inr (out @ ts)"
proof (induction ts arbitrary: out rule: render_tokens.induct)
  case 1
  then show ?case by simp
next
  case (2 t)
  then show ?case using tokenize_step [of t "[]" out] by (simp add: stops_def)
next
  case (3 t u ts)
  have "tokenize_loop (render_tokens (t # u # ts)) out =
      tokenize_loop ('' '' # render_tokens (u # ts)) (out @ [t])"
    using 3 by (simp only: render_tokens.simps) (intro tokenize_step, auto simp: stops_def)
  also have "\<dots> = tokenize_loop (render_tokens (u # ts)) (out @ [t])" by simp
  also have "\<dots> = Inr ((out @ [t]) @ u # ts)" using 3 by (intro "3.IH") auto
  finally show ?case by simp
qed

lemma render_token_units: "lexable t \<Longrightarrow> x \<in> set (render_token t) \<Longrightarrow> char_unit x"
proof (cases t)
  case (TWord s)
  assume "lexable t" "x \<in> set (render_token t)"
  with TWord show ?thesis by (auto intro: chars_units)
next
  case (TValue v)
  assume "lexable t" "x \<in> set (render_token t)"
  with TValue consider "x = [CHR 0x22]" | y where "y \<in> set (chars v)" "x \<in> set (escape_unit y)"
    by auto
  then show ?thesis
  proof cases
    case 2
    then have "x = [CHR 0x5C] \<or> x = y" by (auto simp: escape_unit_def split: if_splits)
    with 2 \<open>lexable t\<close> TValue chars_units show ?thesis by (auto simp: ascii_unit)
  qed (simp add: ascii_unit)
next
  case (TOperator s)
  assume "lexable t" "x \<in> set (render_token t)"
  with TOperator have "x \<in> {''='', ''!'', ''<'', ''>''}" by auto
  then show ?thesis by (auto simp: ascii_unit)
qed (simp_all add: ascii_unit)

lemma render_tokens_units:
  "(\<And>t. t \<in> set ts \<Longrightarrow> lexable t) \<Longrightarrow> x \<in> set (render_tokens ts) \<Longrightarrow> char_unit x"
proof (induction ts rule: render_tokens.induct)
  case (3 t u ts)
  from "3.prems"(2) consider "x \<in> set (render_token t)" | "x = '' ''"
    | "x \<in> set (render_tokens (u # ts))" by auto
  then show ?case
  proof cases
    case 2
    then show ?thesis by (simp add: ascii_unit)
  qed (use 3 render_token_units in auto)
qed (auto intro: render_token_units)

text \<open>The wire text of a token list, and the lexer on it.\<close>

definition render :: "token list \<Rightarrow> string" where
  "render ts = concat (render_tokens ts)"

lemma tokenize_render:
  assumes "\<And>t. t \<in> set ts \<Longrightarrow> lexable t" "length ts \<le> 512"
  shows "tokenize (render ts) = Inr ts"
proof -
  have "chars (concat (render_tokens ts)) = render_tokens ts"
    using render_tokens_units [of ts] assms(1) by (intro chars_concat) blast
  then show ?thesis
    using tokenize_render_tokens [of ts "[]"] assms by (simp add: tokenize_def render_def)
qed

subsection \<open>Expressions as text\<close>

definition render_expression :: "expression \<Rightarrow> string" where
  "render_expression e = render (expr_tokens 0 e)"

text \<open>Values whose bytes start a character, as every Rust string does.\<close>

fun clause_text :: "search_clause \<Rightarrow> string" where
  "clause_text (Contains p v) = v"
| "clause_text (DoesNotContain p v) = v"
| "clause_text (Equals p v) = v"
| "clause_text (NotEquals p v) = v"
| "clause_text (LessThan p v i) = v"
| "clause_text (GreaterThan p v i) = v"
| "clause_text (DerivedFrom p v) = v"
| "clause_text (Exists p w) = []"
| "clause_text UnknownClause = []"
| "clause_text AllClause = []"

fun well_encoded :: "expression \<Rightarrow> bool" where
  "well_encoded (Clause c) = starts_char (clause_text c)"
| "well_encoded (AndExpr l r) = (well_encoded l \<and> well_encoded r)"
| "well_encoded (OrExpr l r) = (well_encoded l \<and> well_encoded r)"

text \<open>Words of plain ASCII letters, digits and punctuation that the lexer keeps whole.\<close>

definition plain_word_char :: "char \<Rightarrow> bool" where
  "plain_word_char c \<longleftrightarrow> graphic c \<and> bval c < 128 \<and> c \<notin> set ''()=<>!''
     \<and> c \<noteq> CHR 0x22 \<and> c \<noteq> CHR 0x27"

lemma ascii_word_lexable:
  assumes "s \<noteq> []" "list_all plain_word_char s"
  shows "lexable (TWord s)"
proof -
  have w: "plain_word_char c" if "c \<in> set s" for c
    using assms(2) that by (auto simp: list_all_iff)
  have ch: "chars s = map (\<lambda>c. [c]) s"
    using w by (intro chars_ascii) (auto simp: plain_word_char_def)
  have "\<not> is_cont (hd s)"
    using assms(1) w [of "hd s"] by (simp add: plain_word_char_def is_cont_def)
  moreover have "word_char [c]" if "c \<in> set s" for c
    using w [OF that] not_whitespace [of c]
    by (auto simp: word_char_def op_start_def plain_word_char_def)
  moreover have "\<not> is_quote [hd s]"
    using assms(1) w [of "hd s"] by (simp add: is_quote_def plain_word_char_def)
  ultimately show ?thesis using assms(1) by (simp add: ch starts_char_def hd_map)
qed

lemma prop_name_lexable: "lexable (TWord (prop_name p))"
  by (rule ascii_word_lexable)
    (cases p; simp add: plain_word_char_def graphic_def list_all_iff)+

lemma keyword_lexable:
  "lexable (TWord ''and'')" "lexable (TWord ''or'')" "lexable (TWord ''contains'')"
  "lexable (TWord ''doesNotContain'')" "lexable (TWord ''derivedfrom'')"
  "lexable (TWord ''exists'')" "lexable (TWord ''true'')" "lexable (TWord ''false'')"
  by (rule ascii_word_lexable; simp add: plain_word_char_def graphic_def list_all_iff)+

lemma operator_lexable:
  "lexable (TOperator ''='')" "lexable (TOperator ''!='')"
  "lexable (TOperator (if i then ''<='' else ''<''))"
  "lexable (TOperator (if i then ''>='' else ''>''))"
  by simp_all

lemma value_lexable: "lexable (TValue v) = starts_char v"
  by simp

lemma flag_lexable: "lexable (TWord (if b then ''true'' else ''false''))"
  by (cases b) (simp_all only: if_True if_False keyword_lexable)

lemmas token_lexable = prop_name_lexable keyword_lexable operator_lexable value_lexable flag_lexable

lemma clause_tokens_lexable:
  "starts_char (clause_text c) \<Longrightarrow> list_all lexable (clause_tokens c)"
  by (cases c) (simp_all only: clause_tokens.simps clause_text.simps list.pred_inject token_lexable)

lemma paren_lexable: "list_all lexable ts \<Longrightarrow> list_all lexable (paren b ts)"
  by (simp add: paren_def)

lemma expr_tokens_lexable: "well_encoded e \<Longrightarrow> list_all lexable (expr_tokens k e)"
proof (induction e arbitrary: k)
  case (Clause c)
  then show ?case by (simp add: clause_tokens_lexable)
next
  case (AndExpr l r)
  then have "list_all lexable (expr_tokens 1 l @ [TWord ''and''] @ expr_tokens 2 r)"
    by (simp del: lexable.simps add: keyword_lexable)
  then show ?case by (simp only: expr_tokens.simps paren_lexable)
next
  case (OrExpr l r)
  then have "list_all lexable (expr_tokens 0 l @ [TWord ''or''] @ expr_tokens 1 r)"
    by (simp del: lexable.simps add: keyword_lexable)
  then show ?case by (simp only: expr_tokens.simps paren_lexable)
qed

subsection \<open>The two ends of a rendered expression\<close>

lemma hd_clause_tokens:
  "printable_clause c \<Longrightarrow> \<exists>p ts. clause_tokens c = TWord (prop_name p) # ts"
  by (cases c) auto

lemma hd_expr_tokens:
  "printable e \<Longrightarrow> \<exists>t ts. expr_tokens k e = t # ts \<and> (t = TLeft \<or> (\<exists>p. t = TWord (prop_name p)))"
proof (induction e arbitrary: k)
  case (Clause c)
  then show ?case using hd_clause_tokens by fastforce
next
  case (AndExpr l r)
  then have "printable l" by simp
  from AndExpr.IH(1) [OF this, of 1] obtain t ts where "expr_tokens 1 l = t # ts" "t = TLeft \<or> (\<exists>p. t = TWord (prop_name p))"
    by blast
  then show ?case by (cases "1 < k") (simp_all add: paren_def)
next
  case (OrExpr l r)
  then have "printable l" by simp
  from OrExpr.IH(1) [OF this, of 0] obtain t ts where "expr_tokens 0 l = t # ts" "t = TLeft \<or> (\<exists>p. t = TWord (prop_name p))"
    by blast
  then show ?case by (cases "0 < k") (simp_all add: paren_def)
qed

definition closing_token :: "token \<Rightarrow> bool" where
  "closing_token t \<longleftrightarrow> t = TRight \<or> t = TWord ''true'' \<or> t = TWord ''false'' \<or> (\<exists>v. t = TValue v)"

lemma last_expr_tokens:
  "printable e \<Longrightarrow> \<exists>ts t. expr_tokens k e = ts @ [t] \<and> closing_token t"
proof (induction e arbitrary: k)
  case (Clause c)
  then have "\<exists>a b t. clause_tokens c = [a, b, t] \<and> closing_token t"
    by (cases c) (simp_all add: closing_token_def)
  then obtain a b t where "clause_tokens c = [a, b] @ [t]" "closing_token t" by auto
  then show ?case by (simp only: expr_tokens.simps) blast
next
  case (AndExpr l r)
  then have "printable r" by simp
  from AndExpr.IH(2) [OF this, of 2] obtain ts t where "expr_tokens 2 r = ts @ [t]" "closing_token t"
    by blast
  then show ?case by (cases "1 < k") (auto simp: paren_def closing_token_def)
next
  case (OrExpr l r)
  then have "printable r" by simp
  from OrExpr.IH(2) [OF this, of 1] obtain ts t where "expr_tokens 1 r = ts @ [t]" "closing_token t"
    by blast
  then show ?case by (cases "0 < k") (auto simp: paren_def closing_token_def)
qed

lemma render_Cons: "\<exists>s. concat (render_tokens (t # ts)) = concat (render_token t) @ s"
  by (cases ts) auto

lemma render_snoc: "\<exists>s. concat (render_tokens (ts @ [t])) = s @ concat (render_token t)"
proof (induction ts rule: render_tokens.induct)
  case (3 t' u ts)
  then obtain s where "concat (render_tokens ((u # ts) @ [t])) = s @ concat (render_token t)" by blast
  then show ?case by (auto intro: exI [of _ "concat (render_token t') @ '' '' @ s"])
qed auto

lemma concat_render_word: "concat (render_token (TWord s)) = s"
  by simp

lemma render_expression_hd:
  assumes "printable e"
  shows "render_expression e \<noteq> []" "hd (render_expression e) \<in> {CHR ''('', CHR ''d'', CHR ''u'', CHR ''@''}"
proof -
  obtain t ts where t: "expr_tokens 0 e = t # ts" "t = TLeft \<or> (\<exists>p. t = TWord (prop_name p))"
    using hd_expr_tokens [OF assms] by blast
  have "concat (render_token t) \<noteq> [] \<and> hd (concat (render_token t)) \<in> {CHR ''('', CHR ''d'', CHR ''u'', CHR ''@''}"
    using t(2)
  proof
    assume "\<exists>p. t = TWord (prop_name p)"
    then obtain p where "t = TWord (prop_name p)" by blast
    then show ?thesis by (cases p) (simp_all add: concat_render_word del: render_token.simps)
  qed simp
  moreover obtain s where "render_expression e = concat (render_token t) @ s"
    using render_Cons [of t ts] t(1) by (auto simp: render_expression_def render_def)
  ultimately show "render_expression e \<noteq> []"
    "hd (render_expression e) \<in> {CHR ''('', CHR ''d'', CHR ''u'', CHR ''@''}" by auto
qed

lemma render_expression_last:
  assumes "printable e"
  shows "graphic (last (render_expression e))"
proof -
  obtain ts t where t: "expr_tokens 0 e = ts @ [t]" "closing_token t"
    using last_expr_tokens [OF assms] by blast
  have "concat (render_token t) \<noteq> [] \<and> graphic (last (concat (render_token t)))"
    using t(2) unfolding closing_token_def
    by (elim disjE) (auto simp: graphic_def concat_render_word simp del: render_token.simps(4))
  moreover obtain s where "render_expression e = s @ concat (render_token t)"
    using render_snoc [of ts t] t(1) by (auto simp: render_expression_def render_def)
  ultimately show ?thesis by simp
qed

lemma search_text_roundtrip:
  assumes "printable e" "well_encoded e" "expansion_of e = Inr x"
    and "length (expr_tokens 0 e) \<le> 512" "length (render_expression e) \<le> MAX_CRITERIA_BYTES"
  shows "try_parse_search_criteria (Some (render_expression e)) = to_groups e"
proof -
  let ?s = "render_expression e" and ?ts = "expr_tokens 0 e"
  have "graphic (hd ?s)" using render_expression_hd [OF assms(1)] by (auto simp: graphic_def)
  then have trim: "trim ?s = ?s" using render_expression_last [OF assms(1)] by (simp add: trim_id)
  have special: "?s \<noteq> ''*''" "?s \<noteq> ''1=1''" using render_expression_hd [OF assms(1)] by auto
  have "list_all lexable ?ts" using expr_tokens_lexable [OF assms(2)] .
  then have tok: "tokenize ?s = Inr ?ts"
    using tokenize_render [of ?ts] assms(4) by (simp add: render_expression_def list_all_iff)
  have "?ts \<noteq> []" using hd_expr_tokens [OF assms(1), of 0] by auto
  then show ?thesis
    using assms(3,5) trim special tok render_expression_hd(1) [OF assms(1)]
      parse_or_expr_tokens [OF assms(1)]
    by (simp add: try_parse_search_criteria_def)
qed

section \<open>What a control point may rely on\<close>

text \<open>
  What a control point may rely on when it sends \<open>SearchCriteria\<close> (\<open>crates/soap/src/search.rs\<close>):
  the meaning of the parsed query, its resource limits, totality, and the treatment of errors.
\<close>

lemma bind_res_not_Inl: "m \<noteq> Inl e \<Longrightarrow> (\<And>x. f x \<noteq> Inl e) \<Longrightarrow> bind_res m f \<noteq> Inl e"
  by (cases m) auto

lemma limits_of_exact:
  assumes "expansion_of e = Inr x" "exact_expansion x q"
  shows "length q \<le> 256 \<and> (\<forall>g \<in> set q. length g \<le> 64) \<and> total_clauses q \<le> MAX_EXPANDED_CLAUSES
    \<and> total_bytes q \<le> MAX_EXPANDED_LITERAL_BYTES"
proof -
  have "check_expansion x = Inr x"
    using assms(1) by (cases e) (auto split: if_splits)
  then have le: "ex_groups x \<le> 256" "ex_width x \<le> 64" "ex_clauses x \<le> MAX_EXPANDED_CLAUSES"
    "ex_bytes x \<le> MAX_EXPANDED_LITERAL_BYTES"
    by simp_all
  have "length g \<le> 64" if "g \<in> set q" for g
    using max_width_ge [OF that] assms(2) le(2) by (simp add: exact_expansion_def)
  with le assms(2) show ?thesis by (simp add: exact_expansion_def)
qed

lemma try_parse_cases:
  assumes "try_parse_search_criteria raw = Inr q"
  shows "q = [[AllClause]] \<or> (\<exists>e x. expansion_of e = Inr x \<and> to_groups e = Inr q)"
  using assms by (auto simp: try_parse_search_criteria_def Let_def split: if_splits)

text \<open>
  C1: A rendered search expression is understood as it was meant: the server parses the text, and a
  catalogue row matches the resulting query exactly when the Boolean expression holds of the row,
  precedence, parentheses and quoting included.
\<close>
theorem search_query_meaning:
  assumes "printable e" "well_encoded e" "expansion_of e = Inr x"
    and "length (expr_tokens 0 e) \<le> 512" "length (render_expression e) \<le> MAX_CRITERIA_BYTES"
  shows "\<exists>q. try_parse_search_criteria (Some (render_expression e)) = Inr q \<and>
    (\<forall>lc r. row_matches lc q r = eval_expression (\<lambda>c. clause_matches lc c r) e)"
proof -
  obtain q where "to_groups e = Inr q"
    using expansion_exact [OF assms(3)] by blast
  then show ?thesis
    using search_text_roundtrip [OF assms] by (auto simp: row_matches_dnf to_groups_sem)
qed

definition sample_expression :: expression where
  "sample_expression =
     AndExpr (Clause (DerivedFrom PropClass ''object.item.videoItem''))
       (OrExpr (Clause (Contains PropTitle (''say '' @ [CHR 0x22] @ ''hi''))) (Clause (Exists PropRefId False)))"

lemma sample_expression_ok:
  "printable sample_expression" "well_encoded sample_expression"
  "length (expr_tokens 0 sample_expression) \<le> 512"
  by (simp_all add: sample_expression_def starts_char_def is_cont_def paren_def)

lemma sample_expansion:
  "expansion_of sample_expression = Inr \<lparr>ex_groups = 2, ex_clauses = 4, ex_width = 2, ex_bytes = 49\<rparr>"
  by (simp add: sample_expression_def check_expansion_def sum_usize_def product_usize_def
      checked_add_def checked_mul_def ok_or_def usize_max_def u64_max_def MAX_LITERAL_BYTES_def
      MAX_EXPANDED_CLAUSES_def MAX_EXPANDED_LITERAL_BYTES_def)

lemma sample_rendered_length: "length (render_expression sample_expression) \<le> MAX_CRITERIA_BYTES"
  by (simp add: sample_expression_def render_expression_def render_def paren_def is_cont_def
      escape_unit_def MAX_CRITERIA_BYTES_def)

lemma search_query_meaning_witness:
  "\<exists>q. try_parse_search_criteria (Some (render_expression sample_expression)) = Inr q \<and>
    (\<forall>lc r. row_matches lc q r = eval_expression (\<lambda>c. clause_matches lc c r) sample_expression)"
  using search_query_meaning [OF sample_expression_ok(1,2) sample_expansion
      sample_expression_ok(3) sample_rendered_length] .

text \<open>
  C10: Every query the parser accepts is small: at most 256 groups, 64 clauses in a group, 1024
  clauses and 256 KiB of literals in all, whatever text was sent.
\<close>
theorem search_query_limits:
  assumes "try_parse_search_criteria raw = Inr q"
  shows "length q \<le> 256 \<and> (\<forall>g \<in> set q. length g \<le> 64) \<and> total_clauses q \<le> MAX_EXPANDED_CLAUSES
    \<and> total_bytes q \<le> MAX_EXPANDED_LITERAL_BYTES"
  using try_parse_cases [OF assms]
proof
  assume "q = [[AllClause]]"
  then show ?thesis
    by (simp add: total_clauses_def total_bytes_def MAX_EXPANDED_CLAUSES_def)
next
  assume "\<exists>e x. expansion_of e = Inr x \<and> to_groups e = Inr q"
  then obtain e x where "expansion_of e = Inr x" "exact_expansion x q"
    using expansion_exact by fastforce
  then show ?thesis by (rule limits_of_exact)
qed

lemma search_query_limits_witness: "\<exists>q. try_parse_search_criteria (Some ''*'') = Inr q \<and> length q \<le> 256"
proof -
  have "trim ''*'' = ''*''" by (rule trim_id) (simp add: graphic_def)
  then have "try_parse_search_criteria (Some ''*'') = Inr [[AllClause]]"
    by (simp add: try_parse_search_criteria_def MAX_CRITERIA_BYTES_def)
  with search_query_limits [OF this] show ?thesis by blast
qed

text \<open>
  The accounting pass is exact: when it admits an expression the expansion to disjunctive normal
  form succeeds (its own limit checks never fire) and has exactly the groups, clauses, width and
  literal bytes that were counted before anything was allocated.
\<close>
theorem search_accounting_exact:
  "expansion_of e = Inr x \<Longrightarrow> \<exists>gs. to_groups e = Inr gs \<and> exact_expansion x gs"
  by (rule expansion_exact)

lemma search_accounting_exact_witness:
  "\<exists>gs. to_groups sample_expression = Inr gs \<and>
    exact_expansion \<lparr>ex_groups = 2, ex_clauses = 4, ex_width = 2, ex_bytes = 49\<rparr> gs"
  using search_accounting_exact [OF sample_expansion] .

text \<open>
  C11: The recursive-descent parser terminates on every input: the fuel of the model is never
  exhausted, so each criteria text gives a query or one of the parse errors of the source.
\<close>
theorem search_parser_total: "try_parse_search_criteria raw \<noteq> Inl OutOfFuel"
proof -
  have e: "expansion_of e \<noteq> Inl OutOfFuel" for e
    by (induction e) (auto simp: check_expansion_def bind_res_Inl sum_usize_def product_usize_def
        ok_or_def split: option.splits)
  have g: "and_groups ps out \<noteq> Inl OutOfFuel" for ps out
    by (induction ps out rule: and_groups.induct) auto
  have t: "to_groups e \<noteq> Inl OutOfFuel" for e
    by (induction e) (auto simp: bind_res_Inl g)
  have r: "(if rest \<noteq> [] then Inl (SearchParseError m) else bind_res (expansion_of x) (\<lambda>_. to_groups x))
      \<noteq> Inl OutOfFuel" for rest :: "token list" and m x
    using bind_res_not_Inl [OF e [of x], of "\<lambda>_. to_groups x"] t [of x] by simp
  have "bind_res (tokenize s) (\<lambda>tokens. if tokens = [] then Inl (SearchParseError m1)
      else bind_res (parse_or (parser_fuel tokens) tokens) (\<lambda>(e, rest).
        if rest \<noteq> [] then Inl (SearchParseError m2) else bind_res (expansion_of e) (\<lambda>_. to_groups e)))
      \<noteq> Inl OutOfFuel" for s m1 m2
  proof (rule bind_res_not_Inl [OF tokenize_no_fuel])
    fix tokens :: "token list"
    have "bind_res (parse_or (parser_fuel tokens) tokens) (\<lambda>(e, rest).
        if rest \<noteq> [] then Inl (SearchParseError m2) else bind_res (expansion_of e) (\<lambda>_. to_groups e))
        \<noteq> Inl OutOfFuel"
      unfolding case_prod_unfold by (rule bind_res_not_Inl [OF parse_or_total r])
    then show "(if tokens = [] then Inl (SearchParseError m1)
      else bind_res (parse_or (parser_fuel tokens) tokens) (\<lambda>(e, rest).
        if rest \<noteq> [] then Inl (SearchParseError m2) else bind_res (expansion_of e) (\<lambda>_. to_groups e)))
      \<noteq> Inl OutOfFuel" by simp
  qed
  note body = this
  have branch: "(if c then y else z) \<noteq> w" if "y \<noteq> w" "z \<noteq> w" for c and y z w :: "search_error + search_clause list list"
    using that by simp
  show ?thesis
    unfolding try_parse_search_criteria_def Let_def by (intro branch body) simp_all
qed

text \<open>
  Criteria the parser rejects select nothing: the infallible entry point falls back to a query
  no row matches, and never to the whole catalogue.
\<close>
theorem search_rejected_selects_nothing:
  "try_parse_search_criteria raw = Inl e \<Longrightarrow> \<not> row_matches lc (parse_search_criteria raw) r"
  by (simp add: parse_search_criteria_def row_matches_def)

lemma search_rejected_selects_nothing_witness:
  "\<not> row_matches id (parse_search_criteria (Some ''('')) \<lparr>row_title = ''t'', row_creator = [],
     row_date = [], row_class = ''item.videoItem'', row_artist = [], row_genre = [], row_album = [],
     row_actor = [], row_id = ''1'', row_parent_id = ''0'', row_ref_id = None,
     row_is_container = False\<rparr>"
proof -
  have "trim ''('' = ''(''" by (rule trim_id) (simp add: graphic_def)
  moreover have "tokenize ''('' = Inr [TLeft]"
    using tokenize_render [of "[TLeft]"] by (simp add: render_def)
  moreover have "parse_or (parser_fuel [TLeft]) [TLeft] = Inl (SearchParseError ''expected a property'')"
    by (simp add: parser_fuel_def parse_clause_def eval_nat_numeral)
  ultimately have "try_parse_search_criteria (Some ''('') = Inl (SearchParseError ''expected a property'')"
    by (simp add: try_parse_search_criteria_def MAX_CRITERIA_BYTES_def)
  from search_rejected_selects_nothing [OF this] show ?thesis .
qed

end
