(* ===== verification/Clients.thy ===== *)
theory Clients
  imports Text_Ops "HOL-Library.Word"
begin

text \<open>
  The renderer table (\<open>crates/protocol/src/clients.rs\<close>): flags as \<open>u32\<close> bit sets, the rows in
  their order, the first-match searches and the MIME rewrites a profile asks for.
\<close>

unbundle bit_operations_syntax

subsection \<open>Flags\<close>

definition F_DLNA :: u32 where "F_DLNA = 0x1"
definition F_MIME_AVI_DIVX :: u32 where "F_MIME_AVI_DIVX = 0x2"
definition F_MIME_AVI_AVI :: u32 where "F_MIME_AVI_AVI = 0x4"
definition F_MIME_FLAC_FLAC :: u32 where "F_MIME_FLAC_FLAC = 0x8"
definition F_MIME_WAV_WAV :: u32 where "F_MIME_WAV_WAV = 0x10"
definition F_RESIZE_THUMBS :: u32 where "F_RESIZE_THUMBS = 0x20"
definition F_NO_RESIZE :: u32 where "F_NO_RESIZE = 0x40"
definition F_MS_PFS :: u32 where "F_MS_PFS = 0x80"
definition F_SAMSUNG :: u32 where "F_SAMSUNG = 0x100"
definition F_SAMSUNG_DCM10 :: u32 where "F_SAMSUNG_DCM10 = 0x200"
definition F_AUDIO_ONLY :: u32 where "F_AUDIO_ONLY = 0x400"
definition F_FORCE_SORT :: u32 where "F_FORCE_SORT = 0x800"
definition F_CAPTION_RES :: u32 where "F_CAPTION_RES = 0x1000"
definition F_SKIP_DLNA_PN :: u32 where "F_SKIP_DLNA_PN = 0x2000"
definition F_CONVERT_MS :: u32 where "F_CONVERT_MS = 0x4000"
definition F_NEED_SAFE_VIDEO :: u32 where "F_NEED_SAFE_VIDEO = 0x8000"
definition F_HAS_CAPTIONS :: u32 where "F_HAS_CAPTIONS = 0x10000000"

definition contains :: "u32 \<Rightarrow> u32 \<Rightarrow> bool" where
  "contains flags other \<longleftrightarrow> flags AND other = other"

subsection \<open>Kinds\<close>

text \<open>The declaration order of the kinds is their discriminant.\<close>

datatype client_kind =
  UnknownKind | XboxKind | Ps3Kind | ClingKind | AllShareKind
  | SamsungBdJ5500Kind | SamsungSeriesCdeBdpKind | SamsungSeriesQKind | SamsungSeriesCdeKind | SamsungSeriesAKind
  | SamsungSeriesBKind | PanasonicKind | NetFrontLivingConnectKind | DenonReceiverKind | FreeBoxKind
  | PopcornHourKind | SonyBdpKind | LgNetCastKind | LgKind | SonyBraviaKind
  | SonyInternetTvKind | NetgearEva2000Kind | DirecTvKind | ToshibaTvKind | HyundaiTvKind
  | RokuSoundBridgeKind | MarantzDmpKind | MediaRoomKind | LifeTabKind | AsusOPlayKind
  | BubbleUpnpKind | MovianKind | KodiKind | WindowsKind | TivoKind
  | StandardDlna150Kind | StandardUpnpKind | GoogleCastKind

fun kind_index :: "client_kind \<Rightarrow> nat" where
  "kind_index UnknownKind = 0"
| "kind_index XboxKind = 1"
| "kind_index Ps3Kind = 2"
| "kind_index ClingKind = 3"
| "kind_index AllShareKind = 4"
| "kind_index SamsungBdJ5500Kind = 5"
| "kind_index SamsungSeriesCdeBdpKind = 6"
| "kind_index SamsungSeriesQKind = 7"
| "kind_index SamsungSeriesCdeKind = 8"
| "kind_index SamsungSeriesAKind = 9"
| "kind_index SamsungSeriesBKind = 10"
| "kind_index PanasonicKind = 11"
| "kind_index NetFrontLivingConnectKind = 12"
| "kind_index DenonReceiverKind = 13"
| "kind_index FreeBoxKind = 14"
| "kind_index PopcornHourKind = 15"
| "kind_index SonyBdpKind = 16"
| "kind_index LgNetCastKind = 17"
| "kind_index LgKind = 18"
| "kind_index SonyBraviaKind = 19"
| "kind_index SonyInternetTvKind = 20"
| "kind_index NetgearEva2000Kind = 21"
| "kind_index DirecTvKind = 22"
| "kind_index ToshibaTvKind = 23"
| "kind_index HyundaiTvKind = 24"
| "kind_index RokuSoundBridgeKind = 25"
| "kind_index MarantzDmpKind = 26"
| "kind_index MediaRoomKind = 27"
| "kind_index LifeTabKind = 28"
| "kind_index AsusOPlayKind = 29"
| "kind_index BubbleUpnpKind = 30"
| "kind_index MovianKind = 31"
| "kind_index KodiKind = 32"
| "kind_index WindowsKind = 33"
| "kind_index TivoKind = 34"
| "kind_index StandardDlna150Kind = 35"
| "kind_index StandardUpnpKind = 36"
| "kind_index GoogleCastKind = 37"

text \<open>Comparing discriminants is a linear order on the kinds.\<close>

lemma kind_index_inj [simp]: "kind_index a = kind_index b \<longleftrightarrow> a = b"
  by (cases a; cases b; simp)

instantiation client_kind :: linorder
begin

definition less_eq_client_kind :: "client_kind \<Rightarrow> client_kind \<Rightarrow> bool" where
  "less_eq_client_kind a b \<longleftrightarrow> kind_index a \<le> kind_index b"

definition less_client_kind :: "client_kind \<Rightarrow> client_kind \<Rightarrow> bool" where
  "less_client_kind a b \<longleftrightarrow> kind_index a < kind_index b"

instance
  by standard (auto simp: less_eq_client_kind_def less_client_kind_def)

end

datatype match_kind =
  MatchNone | MatchUserAgent | MatchXAvClientInfo | MatchFriendlyName | MatchModelName
  | MatchFriendlyNameSsdp

record client_profile =
  cp_kind :: client_kind
  cp_flags :: u32
  cp_name :: string
  cp_match_str :: "string option"
  cp_match_kind :: match_kind

definition client ::
  "client_kind \<Rightarrow> u32 \<Rightarrow> string \<Rightarrow> match_kind \<Rightarrow> string option \<Rightarrow> client_profile" where
  "client kind flags name match_kind match_str =
     \<lparr>cp_kind = kind, cp_flags = flags, cp_name = name, cp_match_str = match_str,
      cp_match_kind = match_kind\<rparr>"

definition CLIENTS :: "client_profile list" where
  "CLIENTS =
     [
      client UnknownKind (0) ''Unknown'' MatchNone (None),
      client XboxKind (F_MIME_AVI_AVI OR F_MS_PFS) ''Xbox 360'' MatchUserAgent (Some (''Xbox/'')),
      client Ps3Kind (F_DLNA OR F_MIME_AVI_DIVX) ''PLAYSTATION 3'' MatchUserAgent (Some (''PLAYSTATION'')),
      client Ps3Kind (F_DLNA OR F_MIME_AVI_DIVX) ''PLAYSTATION 3'' MatchXAvClientInfo (Some (''PLAYSTATION 3'')),
      client ClingKind (F_MS_PFS) ''Cling'' MatchUserAgent (Some (''Cling/'')),
      client AllShareKind (F_DLNA) ''AllShare'' MatchUserAgent (Some (''SEC_HHP_[PC]'')),
      client SamsungBdJ5500Kind (F_SAMSUNG OR F_DLNA OR F_NO_RESIZE OR F_CAPTION_RES OR F_SKIP_DLNA_PN) ''Samsung BD J5500'' MatchUserAgent (Some (''[BD]J5500'')),
      client SamsungSeriesCdeBdpKind (F_SAMSUNG OR F_DLNA OR F_NO_RESIZE) ''Samsung Series [CDEF] BDP'' MatchUserAgent (Some (''SEC_HHP_BD'')),
      client SamsungSeriesQKind (F_SAMSUNG OR F_DLNA OR F_NO_RESIZE OR F_SAMSUNG_DCM10 OR F_CAPTION_RES OR F_CONVERT_MS) ''Samsung Series [Q]'' MatchUserAgent (Some (''SEC_HHP_[TV] Samsung Q'')),
      client SamsungSeriesQKind (F_SAMSUNG OR F_DLNA OR F_NO_RESIZE OR F_SAMSUNG_DCM10 OR F_CAPTION_RES OR F_CONVERT_MS) ''Samsung Series [QN]'' MatchUserAgent (Some (''SEC_HHP_Samsung QN'')),
      client SamsungSeriesCdeKind (F_SAMSUNG OR F_DLNA OR F_NO_RESIZE OR F_SAMSUNG_DCM10 OR F_CAPTION_RES) ''Samsung Series [CDEFJ]'' MatchUserAgent (Some (''SEC_HHP_'')),
      client SamsungSeriesAKind (F_SAMSUNG OR F_DLNA OR F_NO_RESIZE) ''Samsung Series A'' MatchUserAgent (Some (''SamsungWiselinkPro'')),
      client SamsungSeriesBKind (F_SAMSUNG OR F_DLNA OR F_NO_RESIZE) ''Samsung Series B'' MatchModelName (Some (''Samsung DTV DMR'')),
      client PanasonicKind (F_DLNA OR F_FORCE_SORT) ''Panasonic'' MatchUserAgent (Some (''Panasonic'')),
      client NetFrontLivingConnectKind (F_DLNA OR F_FORCE_SORT OR F_CAPTION_RES) ''NetFront Living Connect'' MatchUserAgent (Some (''IPI/1'')),
      client DenonReceiverKind (F_DLNA) ''Denon Receiver'' MatchUserAgent (Some (''bridgeCo-DMP/3'')),
      client FreeBoxKind (F_RESIZE_THUMBS) ''FreeBox'' MatchUserAgent (Some (''fbxupnpav/'')),
      client PopcornHourKind (F_MIME_FLAC_FLAC) ''Popcorn Hour'' MatchUserAgent (Some (''SMP8634'')),
      client SonyBdpKind (F_DLNA) ''Sony BDP'' MatchXAvClientInfo (Some (''mv='' @ dq @ ''2.0'' @ dq)),
      client LgNetCastKind (F_DLNA OR F_CAPTION_RES OR F_MIME_FLAC_FLAC) ''LG'' MatchUserAgent (Some (''LGE_DLNA_SDK/1.6.0'')),
      client LgKind (F_DLNA OR F_CAPTION_RES OR F_MIME_FLAC_FLAC) ''LG'' MatchUserAgent (Some (''LGE_DLNA_SDK'')),
      client SonyBraviaKind (F_DLNA) ''Sony Bravia'' MatchXAvClientInfo (Some (''BRAVIA'')),
      client SonyInternetTvKind (F_DLNA) ''Sony Internet TV'' MatchXAvClientInfo (Some (''INTERNET TV'')),
      client NetgearEva2000Kind (F_MS_PFS OR F_RESIZE_THUMBS) ''EVA2000'' MatchUserAgent (Some (''Verismo,'')),
      client DirecTvKind (F_RESIZE_THUMBS) ''DirecTV'' MatchUserAgent (Some (''DIRECTV '')),
      client ToshibaTvKind (F_DLNA) ''Toshiba TV'' MatchUserAgent (Some (''UPnP/1.0 DLNADOC/1.50 Intel_SDK_for_UPnP_devices/1.2'')),
      client HyundaiTvKind (F_DLNA) ''Hyundai TV'' MatchFriendlyName (Some (''HYUNDAITV'')),
      client RokuSoundBridgeKind (F_MS_PFS OR F_AUDIO_ONLY OR F_MIME_WAV_WAV OR F_FORCE_SORT) ''Roku SoundBridge'' MatchModelName (Some (''Roku SoundBridge'')),
      client MarantzDmpKind (F_DLNA OR F_MIME_WAV_WAV) ''marantz DMP'' MatchFriendlyNameSsdp (Some (''marantz DMP'')),
      client MediaRoomKind (F_MS_PFS) ''MS MediaRoom'' MatchUserAgent (Some (''Microsoft-IPTV-Client'')),
      client LifeTabKind (F_MS_PFS) ''LIFETAB'' MatchFriendlyName (Some (''LIFETAB'')),
      client AsusOPlayKind (F_DLNA OR F_MIME_AVI_AVI OR F_CAPTION_RES) ''Asus OPlay Mini/Mini+'' MatchUserAgent (Some (''O!Play'')),
      client BubbleUpnpKind (F_CAPTION_RES) ''BubbleUPnP'' MatchUserAgent (Some (''BubbleUPnP'')),
      client MovianKind (F_CAPTION_RES) ''Movian'' MatchUserAgent (Some (''Movian'')),
      client KodiKind (F_DLNA OR F_MIME_AVI_AVI OR F_CAPTION_RES) ''Kodi'' MatchUserAgent (Some (''Kodi'')),
      client KodiKind (F_DLNA OR F_MIME_AVI_AVI OR F_CAPTION_RES) ''Kodi'' MatchUserAgent (Some (''Platinum/'')),
      client WindowsKind (F_DLNA OR F_MIME_AVI_AVI) ''Windows'' MatchUserAgent (Some (''FDSSDP'')),
      client TivoKind (0) ''TiVo'' MatchUserAgent (Some (''TvHttpClient'')),
      client GoogleCastKind (F_DLNA OR F_NEED_SAFE_VIDEO) ''Google Cast / Streamer'' MatchUserAgent (Some (''CrKey'')),
      client StandardDlna150Kind (F_DLNA OR F_MIME_AVI_AVI) ''Generic DLNA 1.5'' MatchUserAgent (Some (''DLNADOC/1.50'')),
      client StandardUpnpKind (0) ''Generic UPnP 1.0'' MatchUserAgent (Some (''UPnP/1.0''))]"

subsection \<open>Searches\<close>

definition first_match :: "match_kind \<Rightarrow> string \<Rightarrow> client_profile option" where
  "first_match kind hay =
     List.find (\<lambda>c. cp_match_kind c = kind \<and>
       (case cp_match_str c of Some m \<Rightarrow> str_contains m hay | None \<Rightarrow> False)) CLIENTS"

definition identify_user_agent :: "string \<Rightarrow> client_profile option" where
  "identify_user_agent ua = first_match MatchUserAgent ua"

definition identify_x_av_client_info :: "string \<Rightarrow> client_profile option" where
  "identify_x_av_client_info hdr = first_match MatchXAvClientInfo hdr"

definition identify_friendly_name :: "string \<Rightarrow> client_profile option" where
  "identify_friendly_name name = first_match MatchFriendlyName name"

definition identify_model_name :: "string \<Rightarrow> client_profile option" where
  "identify_model_name name = first_match MatchModelName name"

definition identify_friendly_name_ssdp :: "string \<Rightarrow> client_profile option" where
  "identify_friendly_name_ssdp name = first_match MatchFriendlyNameSsdp name"

fun evidence ::
  "match_kind \<Rightarrow> string option \<Rightarrow> string option \<Rightarrow> string option \<Rightarrow> string option \<Rightarrow> string option" where
  "evidence MatchNone ua x_av friendly model = None"
| "evidence MatchUserAgent ua x_av friendly model = ua"
| "evidence MatchXAvClientInfo ua x_av friendly model = x_av"
| "evidence MatchFriendlyName ua x_av friendly model = friendly"
| "evidence MatchFriendlyNameSsdp ua x_av friendly model = friendly"
| "evidence MatchModelName ua x_av friendly model = model"

definition row_identifies ::
  "string option \<Rightarrow> string option \<Rightarrow> string option \<Rightarrow> string option \<Rightarrow> client_profile \<Rightarrow> bool" where
  "row_identifies ua x_av friendly model c =
     (case cp_match_str c of
        None \<Rightarrow> False
      | Some needle \<Rightarrow>
          (case evidence (cp_match_kind c) ua x_av friendly model of
             Some hay \<Rightarrow> str_contains needle hay | None \<Rightarrow> False))"

definition identify_request ::
  "string option \<Rightarrow> string option \<Rightarrow> string option \<Rightarrow> string option \<Rightarrow> client_profile option" where
  "identify_request ua x_av friendly model = List.find (row_identifies ua x_av friendly model) CLIENTS"

subsection \<open>MIME rewrites\<close>

definition remap_mime_full ::
  "client_profile \<Rightarrow> string \<Rightarrow> string option \<Rightarrow> string option \<Rightarrow> string" where
  "remap_mime_full p mime creator dlna_pn =
     (if contains (cp_flags p) F_SAMSUNG \<and> mime = ''video/x-matroska'' then ''video/x-mkv''
      else if cp_kind p = SamsungSeriesAKind \<and> mime = ''video/x-msvideo'' then ''video/mpeg''
      else if cp_kind p = SonyBdpKind \<and> (mime = ''video/x-matroska'' \<or> mime = ''video/mpeg'')
      then ''video/divx''
      else if contains (cp_flags p) F_MIME_AVI_DIVX \<and> mime = ''video/x-msvideo''
      then (if (case creator of Some c \<Rightarrow> eq_ignore_case c ''DiVX'' | None \<Rightarrow> False)
            then ''video/divx'' else ''video/avi'')
      else if contains (cp_flags p) F_MIME_AVI_AVI \<and> mime = ''video/x-msvideo'' then ''video/avi''
      else if contains (cp_flags p) F_MIME_FLAC_FLAC \<and> mime = ''audio/x-flac'' then ''audio/flac''
      else if contains (cp_flags p) F_MIME_WAV_WAV \<and> mime = ''audio/x-wav'' then ''audio/wav''
      else if cp_kind p = FreeBoxKind
              \<and> (case dlna_pn of Some pn \<Rightarrow> prefix ''MPEG_TS'' pn \<or> prefix ''AVC_TS'' pn | None \<Rightarrow> False)
      then ''video/mp2t''
      else if \<not> contains (cp_flags p) F_DLNA \<and> mime = ''video/vnd.dlna.mpeg-tts'' then ''video/mpeg''
      else mime)"

definition remap_mime :: "client_profile \<Rightarrow> string \<Rightarrow> string" where
  "remap_mime p mime = remap_mime_full p mime None None"

end
