(* ===== verification/Decimal.thy ===== *)
theory Decimal
  imports Text_Ops
begin

text \<open>
  Rendering and parsing of integers as \<open>to_string()\<close>, \<open>format!("{:02}")\<close> and
  \<open>str::parse::<uN / iN>()\<close> do it: parsing takes an optional sign (a leading \<open>-\<close> for signed
  types only), at least one digit, nothing else, and fails on overflow of the type.
\<close>

definition digit_char :: "nat \<Rightarrow> char" where
  "digit_char d = char_of (48 + d)"

fun decimal :: "nat \<Rightarrow> string" where
  "decimal n = (if n < 10 then [digit_char n] else decimal (n div 10) @ [digit_char (n mod 10)])"

declare decimal.simps [simp del]

definition int_decimal :: "int \<Rightarrow> string" where
  "int_decimal i = (if i < 0 then CHR ''-'' # decimal (nat (- i)) else decimal (nat i))"

text \<open>\<open>{:0w}\<close>: zero padding goes between the sign and the digits.\<close>

definition zero_pad :: "nat \<Rightarrow> string \<Rightarrow> string" where
  "zero_pad w s = replicate (w - length s) (CHR ''0'') @ s"

definition padded :: "nat \<Rightarrow> int \<Rightarrow> string" where
  "padded w i =
     (if i < 0 then CHR ''-'' # zero_pad (w - 1) (decimal (nat (- i)))
      else zero_pad w (decimal (nat i)))"

definition all_digits :: "string \<Rightarrow> bool" where
  "all_digits s \<longleftrightarrow> (\<forall>c \<in> set s. is_digit c)"

definition digits_value :: "string \<Rightarrow> nat" where
  "digits_value s = foldl (\<lambda>acc c. 10 * acc + (bval c - 48)) 0 s"

definition parse_uint :: "nat \<Rightarrow> string \<Rightarrow> nat option" where
  "parse_uint bound s =
     (let ds = (case s of [] \<Rightarrow> [] | c # cs \<Rightarrow> if c = CHR ''+'' then cs else s)
      in if ds \<noteq> [] \<and> all_digits ds \<and> digits_value ds \<le> bound
         then Some (digits_value ds) else None)"

text \<open>Signed parsing at a width of \<open>w\<close> bits: the value lies in \<open>[-2^(w-1), 2^(w-1))\<close>.\<close>

definition parse_int :: "nat \<Rightarrow> string \<Rightarrow> int option" where
  "parse_int w s =
     (let neg = (case s of [] \<Rightarrow> False | c # _ \<Rightarrow> c = CHR ''-'');
          ds = (case s of [] \<Rightarrow> [] | c # cs \<Rightarrow> if c = CHR ''+'' \<or> c = CHR ''-'' then cs else s);
          v = (if neg then - int (digits_value ds) else int (digits_value ds))
      in if ds \<noteq> [] \<and> all_digits ds \<and> - (2 ^ (w - 1)) \<le> v \<and> v < 2 ^ (w - 1)
         then Some v else None)"

lemma digit_char_is_digit [simp]: "d < 10 \<Longrightarrow> is_digit (digit_char d)"
  by (simp add: digit_char_def is_digit_def)

lemma bval_digit_char [simp]: "d < 10 \<Longrightarrow> bval (digit_char d) = 48 + d"
  by (simp add: digit_char_def)

lemma all_digits_simps [simp]:
  "all_digits []"
  "all_digits (c # cs) \<longleftrightarrow> is_digit c \<and> all_digits cs"
  "all_digits (s @ t) \<longleftrightarrow> all_digits s \<and> all_digits t"
  by (auto simp: all_digits_def)

lemma digits_value_snoc: "digits_value (s @ [c]) = 10 * digits_value s + (bval c - 48)"
  by (simp add: digits_value_def)

lemma decimal_ne [simp]: "decimal n \<noteq> []"
  by (subst decimal.simps) simp

lemma all_digits_decimal [simp]: "all_digits (decimal n)"
proof (induction n rule: decimal.induct)
  case (1 n)
  then show ?case by (subst decimal.simps) auto
qed

lemma digits_value_decimal [decimal_simps, simp]: "digits_value (decimal n) = n"
proof (induction n rule: decimal.induct)
  case (1 n)
  show ?case
  proof (cases "n < 10")
    case True
    then show ?thesis by (subst decimal.simps) (simp add: digits_value_def)
  next
    case False
    with 1 show ?thesis by (subst decimal.simps) (simp add: digits_value_snoc)
  qed
qed

lemma decimal_inj [simp]: "decimal m = decimal n \<longleftrightarrow> m = n"
  by (metis digits_value_decimal)

lemma digit_not_sign: "is_digit c \<Longrightarrow> c \<noteq> CHR ''+'' \<and> c \<noteq> CHR ''-''"
  by (auto simp: is_digit_def)

lemma all_digits_hd: "all_digits s \<Longrightarrow> s \<noteq> [] \<Longrightarrow> is_digit (hd s)"
  by (cases s) auto

lemma set_decimal: "c \<in> set (decimal n) \<Longrightarrow> is_digit c"
  using all_digits_decimal [of n] by (simp add: all_digits_def)

lemma not_in_decimal: "\<not> is_digit c \<Longrightarrow> c \<notin> set (decimal n)"
  using set_decimal by blast

lemma parse_uint_digits:
  "s \<noteq> [] \<Longrightarrow> all_digits s \<Longrightarrow>
   parse_uint m s = (if digits_value s \<le> m then Some (digits_value s) else None)"
  by (cases s) (auto simp: parse_uint_def dest: digit_not_sign)

lemma parse_uint_decimal [decimal_simps, simp]:
  "parse_uint m (decimal n) = (if n \<le> m then Some n else None)"
  by (simp add: parse_uint_digits)

lemma parse_uint_bound: "parse_uint m s = Some n \<Longrightarrow> n \<le> m"
  by (auto simp: parse_uint_def Let_def split: if_splits)

lemma parse_uint_Nil [simp]: "parse_uint m [] = None"
  by (simp add: parse_uint_def)

lemma parse_int_decimal:
  assumes "- (2 ^ (w - 1)) \<le> i" "i < 2 ^ (w - 1)"
  shows "parse_int w (int_decimal i) = Some i"
proof (cases "i < 0")
  case True
  with assms show ?thesis by (simp add: parse_int_def int_decimal_def Let_def)
next
  case False
  obtain c cs where d: "decimal (nat i) = c # cs" by (cases "decimal (nat i)") auto
  then have "is_digit c" using all_digits_decimal [of "nat i"] by simp
  with False assms d show ?thesis
    using digits_value_decimal [of "nat i"] all_digits_decimal [of "nat i"]
    by (auto simp: parse_int_def int_decimal_def Let_def dest: digit_not_sign)
qed

lemma parse_int_bounds:
  "parse_int w s = Some i \<Longrightarrow> - (2 ^ (w - 1)) \<le> i \<and> i < 2 ^ (w - 1)"
  by (auto simp: parse_int_def Let_def split: if_splits)

lemma int_decimal_ne [simp]: "int_decimal i \<noteq> []"
  by (simp add: int_decimal_def)

lemma int_decimal_chars: "c \<in> set (int_decimal i) \<Longrightarrow> is_digit c \<or> c = CHR ''-''"
  by (auto simp: int_decimal_def dest: set_decimal split: if_splits)

lemma length_zero_pad: "length (zero_pad w s) = max w (length s)"
  by (simp add: zero_pad_def)

lemma all_digits_zero_pad: "all_digits s \<Longrightarrow> all_digits (zero_pad w s)"
  by (auto simp: zero_pad_def all_digits_def is_digit_def)

lemma length_decimal_less: "n < 10 ^ w \<Longrightarrow> 0 < w \<Longrightarrow> length (decimal n) \<le> w"
proof (induction n arbitrary: w rule: decimal.induct)
  case (1 n)
  show ?case
  proof (cases "n < 10")
    case True
    with 1 show ?thesis by (subst decimal.simps) simp
  next
    case False
    with 1 obtain v where v: "w = Suc v" "0 < v" by (cases w; cases "w - 1") auto
    with False 1 have "length (decimal (n div 10)) \<le> v" by (auto intro: 1)
    with False v show ?thesis by (subst decimal.simps) simp
  qed
qed

lemma length_padded:
  "0 \<le> i \<Longrightarrow> i < 10 ^ w \<Longrightarrow> 0 < w \<Longrightarrow> length (padded w i) = w"
  using length_decimal_less [of "nat i" w] by (simp add: padded_def length_zero_pad max_def nat_less_iff)

lemma all_digits_padded: "0 \<le> i \<Longrightarrow> all_digits (padded w i)"
  by (simp add: padded_def all_digits_zero_pad)

lemma digits_value_append: "digits_value (s @ t) = digits_value s * 10 ^ length t + digits_value t"
proof (induction t rule: rev_induct)
  case Nil
  then show ?case by (simp add: digits_value_def)
next
  case (snoc c t)
  have "digits_value (s @ t @ [c]) = digits_value ((s @ t) @ [c])" by simp
  also have "\<dots> = 10 * digits_value (s @ t) + (bval c - 48)" by (rule digits_value_snoc)
  finally show ?case using snoc by (simp add: digits_value_snoc algebra_simps)
qed

lemma digits_value_zero_pad: "digits_value (zero_pad w s) = digits_value s"
proof -
  have "digits_value (replicate k (CHR ''0'')) = 0" for k
    by (induction k) (simp_all add: digits_value_def)
  then show ?thesis by (simp add: zero_pad_def digits_value_append)
qed

lemma digits_value_padded [decimal_simps]: "0 \<le> i \<Longrightarrow> digits_value (padded w i) = nat i"
  by (simp add: padded_def digits_value_zero_pad)

text \<open>Evaluating a numeral's text on concrete inputs.\<close>

lemmas decimal_eval = decimal.simps digit_char_def char_of_eq_iff

end
