(* ===== verification/Contracts.thy ===== *)
theory Contracts
  imports Decimal
begin

text \<open>
  The interfaces between the components, as locales. Each is interpreted on the model's own
  definitions in the theory of the component that provides it; the lemmas proved here once are
  what the properties rest on.
  \<^item> \<open>codec\<close>, \<open>field_codec\<close>: a text encoding with its decoder, and one whose output never holds
    the separator of the record it is put in (compact stream metadata, decimal fields).
  \<^item> \<open>step_invariant\<close>: a transition relation with an invariant every step keeps (gates, caches,
    notification queue, subscriber table).
  \<^item> \<open>bounded_writer\<close>: an appender with a byte budget that fails instead of exceeding it.
\<close>

subsection \<open>Encoders with a decoder\<close>

locale codec =
  fixes enc :: "'a \<Rightarrow> string"
    and dec :: "string \<Rightarrow> 'a option"
    and ok :: "'a \<Rightarrow> bool"
  assumes dec_enc: "ok x \<Longrightarrow> dec (enc x) = Some x"
begin

lemma enc_inj: "ok x \<Longrightarrow> ok y \<Longrightarrow> enc x = enc y \<Longrightarrow> x = y"
  by (metis dec_enc option.inject)

lemma map_dec_enc: "(\<And>x. x \<in> set xs \<Longrightarrow> ok x) \<Longrightarrow> map (dec \<circ> enc) xs = map Some xs"
  by (simp add: dec_enc)

end

locale field_codec = codec enc dec ok
  for enc :: "'a \<Rightarrow> string" and dec :: "string \<Rightarrow> 'a option" and ok :: "'a \<Rightarrow> bool" +
  fixes seps :: "char set"
  assumes enc_free: "ok x \<Longrightarrow> c \<in> seps \<Longrightarrow> c \<notin> set (enc x)"
begin

lemma split_fields:
  assumes "c \<in> seps" "xs \<noteq> []" "\<And>x. x \<in> set xs \<Longrightarrow> ok x"
  shows "split_on c (join [c] (map enc xs)) = map enc xs"
  using assms by (intro split_on_join) (auto simp: enc_free)

lemma decode_fields:
  assumes "c \<in> seps" "xs \<noteq> []" "\<And>x. x \<in> set xs \<Longrightarrow> ok x"
  shows "map dec (split_on c (join [c] (map enc xs))) = map Some xs"
  using split_fields [OF assms] assms(3) by (simp add: dec_enc)

lemma split_field_rest: "c \<in> seps \<Longrightarrow> ok x \<Longrightarrow> split_on c (enc x @ c # r) = enc x # split_on c r"
  by (simp add: split_on_append enc_free)

lemma split_last_field: "c \<in> seps \<Longrightarrow> ok x \<Longrightarrow> split_on c (enc x) = [enc x]"
  by (simp add: split_on_no_sep enc_free)

end

subsection \<open>Transition systems with an invariant\<close>

locale step_invariant =
  fixes step :: "'s \<Rightarrow> 's \<Rightarrow> bool"
    and init :: "'s \<Rightarrow> bool"
    and inv :: "'s \<Rightarrow> bool"
  assumes init_inv: "init s \<Longrightarrow> inv s"
    and step_inv: "step s t \<Longrightarrow> inv s \<Longrightarrow> inv t"
begin

lemma steps_inv: "step\<^sup>*\<^sup>* s t \<Longrightarrow> inv s \<Longrightarrow> inv t"
  by (induction rule: rtranclp_induct) (auto intro: step_inv)

lemma reachable_inv: "init s \<Longrightarrow> step\<^sup>*\<^sup>* s t \<Longrightarrow> inv t"
  using init_inv steps_inv by blast

end

text \<open>A stronger contract: the step relation also keeps a frame value unchanged.\<close>

locale framed_invariant = step_invariant step init inv
  for step :: "'s \<Rightarrow> 's \<Rightarrow> bool" and init :: "'s \<Rightarrow> bool" and inv :: "'s \<Rightarrow> bool" +
  fixes frame :: "'s \<Rightarrow> 'f"
  assumes step_frame: "step s t \<Longrightarrow> frame t = frame s"
begin

lemma steps_frame: "step\<^sup>*\<^sup>* s t \<Longrightarrow> frame t = frame s"
  by (induction rule: rtranclp_induct) (auto simp: step_frame)

end

subsection \<open>Writers with a byte budget\<close>

fun push_seq :: "(string \<Rightarrow> string \<Rightarrow> 'e + string) \<Rightarrow> string \<Rightarrow> string list \<Rightarrow> 'e + string" where
  "push_seq push out [] = Inr out"
| "push_seq push out (p # ps) = bind_res (push out p) (\<lambda>out'. push_seq push out' ps)"

locale bounded_writer =
  fixes push :: "string \<Rightarrow> string \<Rightarrow> 'e + string"
    and budget :: nat
  assumes push_ok: "push out s = Inr out' \<Longrightarrow> out' = out @ s \<and> length out' \<le> budget"
    and push_fits: "length out + length s \<le> budget \<Longrightarrow> push out s = Inr (out @ s)"
begin

lemma push_iff: "push out s = Inr out' \<longleftrightarrow> out' = out @ s \<and> length out' \<le> budget"
  using push_ok push_fits by (metis length_append)

text \<open>A sequence of writes appends all of its pieces, or fails at the first that does not fit.\<close>

lemma push_seq_ok: "push_seq push out ps = Inr out' \<Longrightarrow> out' = out @ concat ps \<and> (ps \<noteq> [] \<longrightarrow> length out' \<le> budget)"
proof (induction ps arbitrary: out)
  case (Cons p ps)
  then obtain o1 where o: "push out p = Inr o1" "push_seq push o1 ps = Inr out'" by auto
  from Cons.IH [OF o(2)] push_ok [OF o(1)] show ?case by (cases ps) auto
qed simp

lemma push_seq_fits: "length out + length (concat ps) \<le> budget \<Longrightarrow> push_seq push out ps = Inr (out @ concat ps)"
proof (induction ps arbitrary: out)
  case (Cons p ps)
  then have "push out p = Inr (out @ p)" by (intro push_fits) simp
  with Cons show ?case by simp
qed simp

lemma push_refused: "budget < length out + length s \<Longrightarrow> \<exists>e. push out s = Inl e"
  by (metis push_ok length_append not_less sum.exhaust)

end

subsection \<open>The decimal codec\<close>

interpretation decimal_codec:
  field_codec decimal "parse_uint m" "\<lambda>n. n \<le> m" "{c. \<not> is_digit c}"
  for m
  by unfold_locales (auto simp: not_in_decimal)

end
