(* ===== verification/Soap_Filter_Sort.thy ===== *)
theory Soap_Filter_Sort
  imports Clients Contracts
begin

text \<open>
  The \<open>Filter\<close> and \<open>SortCriteria\<close> arguments of Browse and Search
  (\<open>crates/soap/src/filter.rs\<close>, \<open>crates/soap/src/sort.rs\<close>) and the fixed SOAP names
  (\<open>crates/protocol/src/soap.rs\<close>).
\<close>

subsection \<open>Names\<close>

definition SOAP_METHODS :: "string list" where
  "SOAP_METHODS =
     [''QueryStateVariable'', ''Browse'', ''Search'', ''GetSearchCapabilities'',
      ''GetSortCapabilities'', ''GetSystemUpdateID'', ''GetProtocolInfo'',
      ''GetCurrentConnectionIDs'', ''GetCurrentConnectionInfo'', ''IsAuthorized'',
      ''IsValidated'', ''RegisterDevice'', ''UpdateObject'', ''X_GetFeatureList'', ''X_SetBookmark'']"

definition is_quote :: "char \<Rightarrow> bool" where
  "is_quote c \<longleftrightarrow> c = CHR 0x22 \<or> c = CHR 0x27"

definition soap_action_method :: "string \<Rightarrow> string option" where
  "soap_action_method action =
     Option.bind (split_once (CHR ''#'') action) (\<lambda>(_, rest0).
     let rest = trim_matches is_quote rest0 in List.find (\<lambda>name. prefix name rest) SOAP_METHODS)"

definition DIDL_SCHEMAS :: string where
  "DIDL_SCHEMAS =
     '' xmlns:dc='' @ dq @ ''http://purl.org/dc/elements/1.1/'' @ dq @
     '' xmlns:upnp='' @ dq @ ''urn:schemas-upnp-org:metadata-1-0/upnp/'' @ dq @
     '' xmlns='' @ dq @ ''urn:schemas-upnp-org:metadata-1-0/DIDL-Lite/'' @ dq"
definition DLNA_NAMESPACE :: string where
  "DLNA_NAMESPACE = '' xmlns:dlna='' @ dq @ ''urn:schemas-dlna-org:metadata-1-0/'' @ dq"
definition PV_NAMESPACE :: string where
  "PV_NAMESPACE = '' xmlns:pv='' @ dq @ ''http://www.pv.com/pvns/'' @ dq"
definition SEC_NAMESPACE :: string where
  "SEC_NAMESPACE = '' xmlns:sec='' @ dq @ ''http://www.sec.co.kr/dlna'' @ dq"
definition CONTENTDIRECTORY_TYPE :: string where
  "CONTENTDIRECTORY_TYPE = ''urn:schemas-upnp-org:service:ContentDirectory:1''"
definition CONNECTIONMANAGER_TYPE :: string where
  "CONNECTIONMANAGER_TYPE = ''urn:schemas-upnp-org:service:ConnectionManager:1''"
definition MS_REGISTRAR_TYPE :: string where
  "MS_REGISTRAR_TYPE = ''urn:microsoft.com:service:X_MS_MediaReceiverRegistrar:1''"

definition next_system_update_id :: "u32 \<Rightarrow> u32" where
  "next_system_update_id current = current + 1"

definition SORT_CAPS :: string where
  "SORT_CAPS = ''dc:title,dc:date,upnp:class,upnp:album,upnp:episodeNumber,upnp:originalTrackNumber''"
definition SEARCH_CAPS :: string where
  "SEARCH_CAPS =
     ''dc:creator,dc:date,dc:title,upnp:album,upnp:actor,upnp:artist,upnp:class,upnp:genre,@id,@parentID,@refID''"

subsection \<open>Filter\<close>

record filter_bits =
  fb_dc_date :: bool
  fb_dc_creator :: bool
  fb_dc_description :: bool
  fb_upnp_artist :: bool
  fb_upnp_actor :: bool
  fb_upnp_album :: bool
  fb_upnp_genre :: bool
  fb_upnp_track :: bool
  fb_upnp_episode :: bool
  fb_upnp_album_art :: bool
  fb_upnp_last_playback :: bool
  fb_upnp_playback_count :: bool
  fb_sec :: bool
  fb_pv :: bool
  fb_dlna_ns :: bool
  fb_res :: bool
  fb_res_size :: bool
  fb_res_duration :: bool
  fb_res_bitrate :: bool
  fb_res_resolution :: bool
  fb_res_sample :: bool
  fb_res_channels :: bool

definition standard_bits :: "bool \<Rightarrow> filter_bits" where
  "standard_bits samsung =
     \<lparr>fb_dc_date = True, fb_dc_creator = True, fb_dc_description = True, fb_upnp_artist = True,
      fb_upnp_actor = True, fb_upnp_album = True, fb_upnp_genre = True, fb_upnp_track = True,
      fb_upnp_episode = True, fb_upnp_album_art = True, fb_upnp_last_playback = True,
      fb_upnp_playback_count = True, fb_sec = samsung, fb_pv = False, fb_dlna_ns = samsung,
      fb_res = True, fb_res_size = True, fb_res_duration = True, fb_res_bitrate = True,
      fb_res_resolution = True, fb_res_sample = True, fb_res_channels = True\<rparr>"

definition filter_standard :: filter_bits where
  "filter_standard = standard_bits False"

definition filter_tokens :: "string \<Rightarrow> string list" where
  "filter_tokens raw = map ascii_lower (filter (\<lambda>t. t \<noteq> []) (map trim (split_on (CHR '','') raw)))"

definition has_token :: "string list \<Rightarrow> string \<Rightarrow> bool" where
  "has_token tokens wanted \<longleftrightarrow> ascii_lower wanted \<in> set tokens"

definition has_token_prefix :: "string list \<Rightarrow> string \<Rightarrow> bool" where
  "has_token_prefix tokens wanted \<longleftrightarrow> list_ex (\<lambda>t. prefix (ascii_lower wanted) t) tokens"

definition parse_filter :: "string option \<Rightarrow> bool \<Rightarrow> filter_bits" where
  "parse_filter arg samsung =
     (let raw = (case arg of Some f \<Rightarrow> trim f | None \<Rightarrow> [])
      in if raw = [] \<or> raw = ''*'' then standard_bits samsung
         else
           let tokens = filter_tokens raw; has = has_token tokens; has_prefix = has_token_prefix tokens
           in \<lparr>fb_dc_date = has ''dc:date'', fb_dc_creator = has ''dc:creator'',
               fb_dc_description = has ''dc:description'', fb_upnp_artist = has ''upnp:artist'',
               fb_upnp_actor = has ''upnp:actor'', fb_upnp_album = has ''upnp:album'',
               fb_upnp_genre = has ''upnp:genre'', fb_upnp_track = has ''upnp:originalTrackNumber'',
               fb_upnp_episode = (has ''upnp:episodeSeason'' \<or> has ''upnp:episodeNumber''),
               fb_upnp_album_art = (has ''upnp:albumArtURI'' \<or> has_prefix ''upnp:albumarturi@''),
               fb_upnp_last_playback = has ''upnp:lastPlaybackPosition'',
               fb_upnp_playback_count = has ''upnp:playbackCount'',
               fb_sec = (has ''sec:CaptionInfoEx'' \<or> has ''sec:dcmInfo''),
               fb_pv = (has ''pv:subtitleFileType'' \<or> has ''pv:subtitleFileUri''),
               fb_dlna_ns = (has_prefix ''dlna:'' \<or> samsung),
               fb_res = (has ''res'' \<or> has_prefix ''res@''), fb_res_size = has ''res@size'',
               fb_res_duration = has ''res@duration'', fb_res_bitrate = has ''res@bitrate'',
               fb_res_resolution = has ''res@resolution'', fb_res_sample = has ''res@sampleFrequency'',
               fb_res_channels = has ''res@nrAudioChannels''\<rparr>)"

definition didl_xmlns :: "filter_bits \<Rightarrow> string" where
  "didl_xmlns bits =
     DIDL_SCHEMAS @ (if fb_dlna_ns bits then DLNA_NAMESPACE else []) @
     (if fb_pv bits then PV_NAMESPACE else []) @ (if fb_sec bits then SEC_NAMESPACE else [])"

subsection \<open>Sort criteria\<close>

definition MAX_SORT_CRITERIA_BYTES :: nat where "MAX_SORT_CRITERIA_BYTES = 1024"
definition MAX_SORT_KEYS :: nat where "MAX_SORT_KEYS = 32"

datatype sort_key = SortTitle | SortDate | SortClass | SortAlbum | SortEpisodeNumber | SortTrack

record sort_spec =
  ss_key :: sort_key
  ss_descending :: bool

datatype sort_error = Unparseable

definition sort_key_of :: "string \<Rightarrow> sort_key option" where
  "sort_key_of name =
     (if name = ''dc:title'' then Some SortTitle
      else if name = ''dc:date'' then Some SortDate
      else if name = ''upnp:class'' then Some SortClass
      else if name = ''upnp:album'' then Some SortAlbum
      else if name = ''upnp:episodeNumber'' then Some SortEpisodeNumber
      else if name = ''upnp:originalTrackNumber'' then Some SortTrack
      else None)"

definition sort_direction :: "string \<Rightarrow> bool \<times> string" where
  "sort_direction piece =
     (case strip_prefix ''-'' piece of
        Some rest \<Rightarrow> (True, rest)
      | None \<Rightarrow> (case strip_prefix ''+'' piece of Some rest \<Rightarrow> (False, rest) | None \<Rightarrow> (False, piece)))"

fun sort_pieces :: "string list \<Rightarrow> sort_spec list \<Rightarrow> sort_error + sort_spec list" where
  "sort_pieces [] out = Inr out"
| "sort_pieces (piece0 # rest) out =
     (let piece = trim piece0 in
      if piece = [] then sort_pieces rest out
      else
        let (descending, name) = sort_direction piece
        in case sort_key_of (trim name) of
             None \<Rightarrow> Inl Unparseable
           | Some key \<Rightarrow>
               if length out \<ge> MAX_SORT_KEYS then Inl Unparseable
               else sort_pieces rest (out @ [\<lparr>ss_key = key, ss_descending = descending\<rparr>]))"

definition parse_sort_criteria :: "string option \<Rightarrow> sort_error + sort_spec list" where
  "parse_sort_criteria raw =
     (if (case raw of Some v \<Rightarrow> length v > MAX_SORT_CRITERIA_BYTES | None \<Rightarrow> False) then Inl Unparseable
      else
        let s = (case raw of Some v \<Rightarrow> trim v | None \<Rightarrow> [])
        in if s = [] then Inr [] else sort_pieces (split_on (CHR '','') s) [])"

definition sort_or_709 :: "string option \<Rightarrow> client_profile \<Rightarrow> nat + sort_spec list" where
  "sort_or_709 raw cl =
     (case parse_sort_criteria raw of
        Inr v \<Rightarrow> Inr v
      | Inl Unparseable \<Rightarrow> if contains (cp_flags cl) F_DLNA then Inl 709 else Inr [])"

datatype default_order = ForceSortOrder | LgOrder | FoldersFirstOrder

definition default_order_of :: "client_profile \<Rightarrow> default_order" where
  "default_order_of cl =
     (if contains (cp_flags cl) F_FORCE_SORT then ForceSortOrder
      else if cp_kind cl = LgKind \<or> cp_kind cl = LgNetCastKind then LgOrder
      else FoldersFirstOrder)"

subsection \<open>Every advertised sort is understood\<close>

fun sort_name :: "sort_key \<Rightarrow> string" where
  "sort_name SortTitle = ''dc:title''"
| "sort_name SortDate = ''dc:date''"
| "sort_name SortClass = ''upnp:class''"
| "sort_name SortAlbum = ''upnp:album''"
| "sort_name SortEpisodeNumber = ''upnp:episodeNumber''"
| "sort_name SortTrack = ''upnp:originalTrackNumber''"

definition sort_text :: "sort_spec \<Rightarrow> string" where
  "sort_text s = (if ss_descending s then CHR ''-'' else CHR ''+'') # sort_name (ss_key s)"

lemma sort_name_chars:
  "c \<in> set (sort_name k) \<Longrightarrow> graphic c \<and> c \<noteq> CHR '',''" "length (sort_name k) \<le> 24" "sort_name k \<noteq> []"
proof -
  have "list_all (\<lambda>c. graphic c \<and> c \<noteq> CHR '','') (sort_name k)"
    by (cases k) (simp_all add: graphic_def)
  then show "c \<in> set (sort_name k) \<Longrightarrow> graphic c \<and> c \<noteq> CHR '',''" by (auto simp: list_all_iff)
  show "length (sort_name k) \<le> 24" "sort_name k \<noteq> []" by (cases k; simp)+
qed

lemma sort_key_back [simp]: "sort_key_of (sort_name k) = Some k"
  by (cases k) (simp_all add: sort_key_of_def)

lemma trim_graphic: "(\<And>c. c \<in> set s \<Longrightarrow> graphic c) \<Longrightarrow> trim s = s"
  by (rule trim_id) auto

lemma trim_sort [simp]: "trim (sort_text s) = sort_text s" "trim (sort_name k) = sort_name k"
proof -
  show "trim (sort_name k) = sort_name k" by (rule trim_graphic) (simp add: sort_name_chars)
  have "graphic (CHR ''-'')" "graphic (CHR ''+'')" by (simp_all add: graphic_def)
  then show "trim (sort_text s) = sort_text s"
    by (intro trim_graphic) (auto simp: sort_text_def sort_name_chars split: if_splits)
qed

lemma sort_direction_back: "sort_direction (sort_text s) = (ss_descending s, sort_name (ss_key s))"
  by (simp add: sort_direction_def sort_text_def strip_prefix_def)

lemma sort_pieces_back:
  "length out + length specs \<le> MAX_SORT_KEYS \<Longrightarrow> sort_pieces (map sort_text specs) out = Inr (out @ specs)"
proof (induction specs arbitrary: out)
  case (Cons s specs)
  have "sort_text s \<noteq> []" by (simp add: sort_text_def)
  with Cons show ?case by (simp add: sort_direction_back Let_def)
qed simp

lemma sort_pieces_bound:
  "sort_pieces ps out = Inr specs \<Longrightarrow> length out \<le> MAX_SORT_KEYS \<Longrightarrow> length specs \<le> MAX_SORT_KEYS"
  by (induction ps out rule: sort_pieces.induct)
    (auto simp: Let_def split: if_splits option.splits prod.splits)

text \<open>
  Any list of at most 32 sort keys with directions, written as the comma-separated criteria the
  ContentDirectory advertises, is parsed back to exactly that list in that order; and no criteria
  whatever yield more than 32 keys.
\<close>
theorem sort_criteria_roundtrip:
  assumes "length specs \<le> MAX_SORT_KEYS"
  shows "parse_sort_criteria (Some (join '','' (map sort_text specs))) = Inr specs \<and>
    (\<forall>raw parsed. parse_sort_criteria raw = Inr parsed \<longrightarrow> length parsed \<le> MAX_SORT_KEYS)"
proof
  let ?s = "join '','' (map sort_text specs)"
  show "parse_sort_criteria (Some ?s) = Inr specs"
  proof (cases "specs = []")
    case True
    then show ?thesis by (simp add: parse_sort_criteria_def MAX_SORT_CRITERIA_BYTES_def)
  next
    case False
    have one: "length (sort_text s) \<le> 25" for s using sort_name_chars(2) [of "ss_key s"] by (simp add: sort_text_def)
    have "length (join '','' (map sort_text xs)) \<le> 26 * length xs" for xs
    proof (induction xs)
      case (Cons x xs)
      then show ?case using one [of x] by (cases "xs = []") (simp_all add: join_cons)
    qed simp
    from this [of specs] have len: "length ?s \<le> MAX_SORT_CRITERIA_BYTES"
      using assms by (simp add: MAX_SORT_CRITERIA_BYTES_def MAX_SORT_KEYS_def)
    have gs: "graphic c" if "c \<in> set ?s" for c
    proof -
      have "graphic (CHR '','')" "graphic (CHR ''-'')" "graphic (CHR ''+'')" by (simp_all add: graphic_def)
      moreover have "c = CHR '','' \<or> (\<exists>s \<in> set specs. c \<in> set (sort_text s))"
        using that set_join [of "'',''" "map sort_text specs"] by auto
      ultimately show ?thesis by (auto simp: sort_text_def sort_name_chars split: if_splits)
    qed
    then have "trim ?s = ?s" by (rule trim_graphic)
    moreover have "?s \<noteq> []" using False by (cases specs; cases "tl specs") (auto simp: join_cons sort_text_def)
    moreover have "split_on (CHR '','') ?s = map sort_text specs"
      using False by (intro split_on_join) (auto simp: sort_text_def dest: sort_name_chars(1) split: if_splits)
    ultimately show ?thesis
      using len assms sort_pieces_back [of "[]" specs] by (simp add: parse_sort_criteria_def)
  qed
  show "\<forall>raw parsed. parse_sort_criteria raw = Inr parsed \<longrightarrow> length parsed \<le> MAX_SORT_KEYS"
    by (auto simp: parse_sort_criteria_def Let_def split: if_splits dest: sort_pieces_bound)
qed

lemma sort_criteria_roundtrip_witness:
  "parse_sort_criteria (Some (join '','' (map sort_text
     [\<lparr>ss_key = SortDate, ss_descending = True\<rparr>, \<lparr>ss_key = SortTitle, ss_descending = False\<rparr>]))) =
   Inr [\<lparr>ss_key = SortDate, ss_descending = True\<rparr>, \<lparr>ss_key = SortTitle, ss_descending = False\<rparr>]"
  by (rule sort_criteria_roundtrip [THEN conjunct1]) (simp add: MAX_SORT_KEYS_def)

end
