(* ===== verification/Soap_Xml.thy ===== *)
theory Soap_Xml
  imports Soap_Filter_Sort
begin

text \<open>
  SOAP requests (\<open>crates/soap/src/lib.rs\<close>): the tree built from the events of the XML reader, the
  selection of the action element and the parameters taken from it. The reader itself
  (\<open>quick_xml::Reader\<close> with its unescaping) is not part of the repository: a document is the list of
  the events it delivers up to the end or the first error, and each event carries what the library
  resolved it to.
\<close>

datatype soap_xml_error = SoapXmlError string

datatype xml_event =
  XStart string
  | XText "string + string"
  | XCharRef string
  | XEntity string "string option"
  | XBadRef string
  | XCData string
  | XEnd string
  | XOther
  | XReadError string

datatype xml_node = Node (nd_name: string) (nd_value: string) (nd_children: "xml_node list")

definition MAX_SOAP_XML_DEPTH :: nat where "MAX_SOAP_XML_DEPTH = 128"

fun append_text :: "string \<Rightarrow> xml_node list \<Rightarrow> xml_node list" where
  "append_text t [] = []"
| "append_text t (Node n v cs # stack) = Node n (v @ t) cs # stack"

fun close_node :: "xml_node \<Rightarrow> xml_node list \<Rightarrow> xml_node list \<Rightarrow> xml_node list \<times> xml_node list" where
  "close_node node [] roots = ([], roots @ [node])"
| "close_node node (Node n v cs # stack) roots = (Node n v (cs @ [node]) # stack, roots)"

text \<open>One event of the loop, on the stack of open elements (innermost first) and the finished roots.\<close>

definition xml_step ::
  "xml_event \<Rightarrow> xml_node list \<times> xml_node list \<Rightarrow> soap_xml_error + xml_node list \<times> xml_node list" where
  "xml_step ev st =
     (case st of (stack, roots) \<Rightarrow>
       (case ev of
          XStart name \<Rightarrow>
            if length stack \<ge> MAX_SOAP_XML_DEPTH then Inl (SoapXmlError ''SOAP XML nesting is too deep'')
            else Inr (Node (ascii_lower name) [] [] # stack, roots)
        | XText t \<Rightarrow>
            if stack = [] then Inr st
            else (case t of Inl e \<Rightarrow> Inl (SoapXmlError e) | Inr s \<Rightarrow> Inr (append_text s stack, roots))
        | XCharRef ch \<Rightarrow> Inr (append_text ch stack, roots)
        | XEntity name resolved \<Rightarrow>
            if stack = [] then Inr st
            else (case resolved of
                    None \<Rightarrow> Inl (SoapXmlError (''unrecognized XML entity '' @ [CHR 0x27, CHR ''&''] @ name @ [CHR '';'', CHR 0x27]))
                  | Some s \<Rightarrow> Inr (append_text s stack, roots))
        | XBadRef e \<Rightarrow> if stack = [] then Inr st else Inl (SoapXmlError e)
        | XCData s \<Rightarrow> Inr (append_text s stack, roots)
        | XEnd name \<Rightarrow>
            (case stack of
               [] \<Rightarrow> Inl (SoapXmlError ''unexpected closing element'')
             | node # rest \<Rightarrow>
                 if nd_name node \<noteq> ascii_lower name
                 then Inl (SoapXmlError (''closing element '' @ ascii_lower name @ '' does not match '' @ nd_name node))
                 else Inr (close_node node rest roots))
        | XOther \<Rightarrow> Inr st
        | XReadError e \<Rightarrow> Inl (SoapXmlError e)))"

fun xml_run ::
  "xml_event list \<Rightarrow> xml_node list \<times> xml_node list \<Rightarrow> soap_xml_error + xml_node list \<times> xml_node list" where
  "xml_run [] st = Inr st"
| "xml_run (ev # evs) st = bind_res (xml_step ev st) (xml_run evs)"

definition xml_nodes :: "xml_event list \<Rightarrow> soap_xml_error + xml_node list" where
  "xml_nodes evs =
     bind_res (xml_run evs ([], [])) (\<lambda>(stack, roots).
       if stack \<noteq> [] then Inl (SoapXmlError ''unclosed element'') else Inr roots)"

subsection \<open>Fields\<close>

type_synonym xml_field_map = "string \<rightharpoonup> string list"

definition push_field :: "xml_node \<Rightarrow> xml_field_map \<Rightarrow> xml_field_map" where
  "push_field node m =
     m(nd_name node \<mapsto> (case m (nd_name node) of None \<Rightarrow> [] | Some vs \<Rightarrow> vs) @ [trim (nd_value node)])"

text \<open>The post-order walk with an explicit stack of pending nodes.\<close>

fun node_size :: "xml_node \<Rightarrow> nat" where
  "node_size (Node n v cs) = 1 + sum_list (map node_size cs)"

definition pending_size :: "(xml_node \<times> bool) list \<Rightarrow> nat" where
  "pending_size p = sum_list (map (\<lambda>(n, visited). if visited then 1 else 2 * node_size n) p)"

lemma pending_children:
  "pending_size (map (\<lambda>c. (c, False)) cs) = 2 * sum_list (map node_size cs)"
  by (induction cs) (simp_all add: pending_size_def)

function walk_fields :: "(xml_node \<times> bool) list \<Rightarrow> xml_field_map \<Rightarrow> xml_field_map" where
  "walk_fields [] m = m"
| "walk_fields ((node, True) # pending) m = walk_fields pending (push_field node m)"
| "walk_fields ((node, False) # pending) m =
     walk_fields (map (\<lambda>c. (c, False)) (nd_children node) @ (node, True) # pending) m"
  by pat_completeness auto
termination
proof (relation "measure (\<lambda>(p, m). pending_size p)", goal_cases)
  case (3 node pending m)
  have "pending_size (a @ b) = pending_size a + pending_size b" for a b
    by (simp add: pending_size_def)
  then show ?case
    by (cases node) (simp add: pending_children, simp add: pending_size_def)
qed (simp_all add: pending_size_def)

definition xml_fields :: "xml_event list \<Rightarrow> soap_xml_error + xml_field_map" where
  "xml_fields hay =
     bind_res (xml_nodes hay) (\<lambda>roots. Inr (walk_fields (map (\<lambda>n. (n, False)) roots) Map.empty))"

definition xml_tag_text :: "xml_event list \<Rightarrow> string \<Rightarrow> string option" where
  "xml_tag_text hay tag =
     (case xml_fields hay of
        Inl _ \<Rightarrow> None
      | Inr m \<Rightarrow> Option.bind (m (ascii_lower tag)) (\<lambda>vs. case vs of [] \<Rightarrow> None | v # _ \<Rightarrow> Some v))"

definition direct_xml_fields :: "xml_node list \<Rightarrow> xml_field_map" where
  "direct_xml_fields nodes = fold push_field nodes Map.empty"

definition take_unique_soap_field ::
  "string \<Rightarrow> xml_field_map \<Rightarrow> soap_xml_error + (string option \<times> xml_field_map)" where
  "take_unique_soap_field name m =
     (case m (ascii_lower name) of
        None \<Rightarrow> Inr (None, m)
      | Some values \<Rightarrow>
          let m' = m(ascii_lower name := None)
          in (case values of
                [] \<Rightarrow> Inr (None, m')
              | first # others \<Rightarrow>
                  if list_ex (\<lambda>v. v \<noteq> first) others
                  then Inl (SoapXmlError (name @ '' has conflicting duplicate values''))
                  else Inr (Some first, m')))"

subsection \<open>The action element\<close>

definition SOAP_PARAMETER_NAMES :: "string list" where
  "SOAP_PARAMETER_NAMES =
     [''objectid'', ''containerid'', ''browseflag'', ''startingindex'', ''requestedcount'',
      ''searchcriteria'', ''possecond'', ''connectionid'', ''deviceid'', ''filter'',
      ''currenttagvalue'', ''newtagvalue'', ''sortcriteria'', ''varname'']"

definition action_name_from_header :: "string \<Rightarrow> string option" where
  "action_name_from_header action =
     Option.bind (split_once (CHR ''#'') action) (\<lambda>(_, rest).
     let name = trim_matches is_quote rest in if name \<noteq> [] then Some name else None)"

definition node_is_known_action :: "xml_node \<Rightarrow> bool" where
  "node_is_known_action node \<longleftrightarrow> list_ex (\<lambda>m. eq_ignore_case (nd_name node) m) SOAP_METHODS"

definition matches_action :: "string option \<Rightarrow> string option \<Rightarrow> xml_node \<Rightarrow> bool" where
  "matches_action expected raw_name node \<longleftrightarrow>
     (case expected of Some e \<Rightarrow> eq_ignore_case (nd_name node) e | None \<Rightarrow> False) \<or>
     (case raw_name of Some e \<Rightarrow> eq_ignore_case (nd_name node) e | None \<Rightarrow> False)"

definition envelope_action ::
  "xml_node \<Rightarrow> string option \<Rightarrow> string option \<Rightarrow> soap_xml_error + xml_node list" where
  "envelope_action envelope expected raw_name =
     (case filter (\<lambda>n. eq_ignore_case (nd_name n) ''Body'') (nd_children envelope) of
        [] \<Rightarrow> Inl (SoapXmlError ''SOAP Envelope has no Body'')
      | body # extra \<Rightarrow>
          if extra \<noteq> [] then Inl (SoapXmlError ''SOAP Envelope has multiple Body elements'')
          else
            (case nd_children body of
               [action] \<Rightarrow>
                 (case expected of
                    None \<Rightarrow> Inl (SoapXmlError ''SOAPAction does not name the body action'')
                  | Some e \<Rightarrow>
                      if \<not> matches_action expected raw_name action
                      then Inl (SoapXmlError (''SOAP body action '' @ nd_name action @
                             '' does not match SOAPAction '' @ e))
                      else Inr (nd_children action))
             | _ \<Rightarrow> Inl (SoapXmlError ''SOAP Body must contain exactly one action'')))"

definition soap_parameter_nodes ::
  "xml_node list \<Rightarrow> string \<Rightarrow> string option \<Rightarrow> soap_xml_error + xml_node list" where
  "soap_parameter_nodes roots action meth =
     (let raw_name = action_name_from_header action;
          expected = (case meth of Some m \<Rightarrow> Some m | None \<Rightarrow> raw_name)
      in case roots of
           [] \<Rightarrow> Inr roots
         | [root] \<Rightarrow>
             if eq_ignore_case (nd_name root) ''Envelope'' then envelope_action root expected raw_name
             else if matches_action expected raw_name root then Inr (nd_children root)
             else if nd_name root \<in> set SOAP_PARAMETER_NAMES then Inr roots
             else if node_is_known_action root \<or> nd_children root \<noteq> []
             then Inl (SoapXmlError (''SOAP body action '' @ nd_name root @ '' does not match SOAPAction''))
             else Inr roots
         | _ \<Rightarrow>
             if list_ex (\<lambda>r. eq_ignore_case (nd_name r) ''Envelope'' \<or> node_is_known_action r \<or>
                  matches_action expected raw_name r \<or> nd_children r \<noteq> []) roots
             then Inl (SoapXmlError ''SOAP body contains multiple top-level actions'')
             else Inr roots)"

subsection \<open>The call\<close>

record soap_call =
  sc_method :: "string option"
  sc_object_id :: "string option"
  sc_browse_flag :: "string option"
  sc_starting_index :: "int option"
  sc_requested_count :: "int option"
  sc_search_criteria :: "string option"
  sc_pos_second :: "int option"
  sc_connection_id :: "string option"
  sc_device_id :: "string option"
  sc_filter :: "string option"
  sc_current_tag_value :: "string option"
  sc_new_tag_value :: "string option"
  sc_sort_criteria :: "string option"
  sc_var_name :: "string option"

definition parse_i32_field :: "string \<Rightarrow> string option \<Rightarrow> soap_xml_error + int option" where
  "parse_i32_field name v =
     (case v of
        None \<Rightarrow> Inr None
      | Some s \<Rightarrow>
          (case parse_int 32 (trim s) of
             Some i \<Rightarrow> Inr (Some i)
           | None \<Rightarrow> Inl (SoapXmlError (name @ '' is not a valid integer''))))"

definition merge_object_id ::
  "string option \<Rightarrow> string option \<Rightarrow> soap_xml_error + string option" where
  "merge_object_id object_id container_id =
     (case (object_id, container_id) of
        (Some a, Some b) \<Rightarrow>
          if a \<noteq> b then Inl (SoapXmlError ''ObjectID and ContainerID have conflicting values'')
          else Inr (Some a)
      | (Some a, None) \<Rightarrow> Inr (Some a)
      | (None, c) \<Rightarrow> Inr c)"

definition try_parse_soap_call :: "string \<Rightarrow> xml_event list \<Rightarrow> soap_xml_error + soap_call" where
  "try_parse_soap_call action body =
     (let meth = soap_action_method action in
      bind_res (xml_nodes body) (\<lambda>roots.
      bind_res (soap_parameter_nodes roots action meth) (\<lambda>parameters.
      bind_res (take_unique_soap_field ''ObjectID'' (direct_xml_fields parameters)) (\<lambda>(object_id, f1).
      bind_res (take_unique_soap_field ''ContainerID'' f1) (\<lambda>(container_id, f2).
      bind_res (merge_object_id object_id container_id) (\<lambda>oid.
      bind_res (take_unique_soap_field ''StartingIndex'' f2) (\<lambda>(si, f3).
      bind_res (parse_i32_field ''StartingIndex'' si) (\<lambda>starting_index.
      bind_res (take_unique_soap_field ''RequestedCount'' f3) (\<lambda>(rc, f4).
      bind_res (parse_i32_field ''RequestedCount'' rc) (\<lambda>requested_count.
      bind_res (take_unique_soap_field ''PosSecond'' f4) (\<lambda>(ps, f5).
      bind_res (parse_i32_field ''PosSecond'' ps) (\<lambda>pos_second.
      bind_res (take_unique_soap_field ''BrowseFlag'' f5) (\<lambda>(browse_flag, f6).
      bind_res (take_unique_soap_field ''SearchCriteria'' f6) (\<lambda>(search_criteria, f7).
      bind_res (take_unique_soap_field ''ConnectionID'' f7) (\<lambda>(connection_id, f8).
      bind_res (take_unique_soap_field ''DeviceID'' f8) (\<lambda>(device_id, f9).
      bind_res (take_unique_soap_field ''Filter'' f9) (\<lambda>(flt, f10).
      bind_res (take_unique_soap_field ''CurrentTagValue'' f10) (\<lambda>(current_tag, f11).
      bind_res (take_unique_soap_field ''NewTagValue'' f11) (\<lambda>(new_tag, f12).
      bind_res (take_unique_soap_field ''SortCriteria'' f12) (\<lambda>(sort_criteria, f13).
      bind_res (take_unique_soap_field ''varName'' f13) (\<lambda>(var_name, f14).
        Inr \<lparr>sc_method = meth, sc_object_id = oid, sc_browse_flag = browse_flag,
          sc_starting_index = starting_index, sc_requested_count = requested_count,
          sc_search_criteria = search_criteria, sc_pos_second = pos_second,
          sc_connection_id = connection_id, sc_device_id = device_id, sc_filter = flt,
          sc_current_tag_value = current_tag, sc_new_tag_value = new_tag,
          sc_sort_criteria = sort_criteria, sc_var_name = var_name\<rparr>)))))))))))))))))))))"

definition parse_soap_call :: "string \<Rightarrow> xml_event list \<Rightarrow> soap_call" where
  "parse_soap_call action body =
     (case try_parse_soap_call action body of
        Inr c \<Rightarrow> c
      | Inl _ \<Rightarrow>
          \<lparr>sc_method = soap_action_method action, sc_object_id = None, sc_browse_flag = None,
           sc_starting_index = None, sc_requested_count = None, sc_search_criteria = None,
           sc_pos_second = None, sc_connection_id = None, sc_device_id = None, sc_filter = None,
           sc_current_tag_value = None, sc_new_tag_value = None, sc_sort_criteria = None,
           sc_var_name = None\<rparr>)"

subsection \<open>The tree of a document\<close>

text \<open>
  The events of a tree: its start tag, its text in one piece, its children and its end tag. A tree
  as the parser builds it has case-folded names.
\<close>

fun tree_events :: "xml_node \<Rightarrow> xml_event list" where
  "tree_events (Node n v cs) = XStart n # XText (Inr v) # concat (map tree_events cs) @ [XEnd n]"

fun tree_depth :: "xml_node \<Rightarrow> nat" where
  "tree_depth (Node n v cs) = Suc (Max (insert 0 (set (map tree_depth cs))))"

fun folded :: "xml_node \<Rightarrow> xml_node" where
  "folded (Node n v cs) = Node (ascii_lower n) v (map folded cs)"

lemma xml_run_append: "xml_run (a @ b) st = bind_res (xml_run a st) (xml_run b)"
proof (induction a arbitrary: st)
  case (Cons ev a)
  show ?case by (cases "xml_step ev st") (simp_all add: Cons)
qed simp

lemma nd_name_folded [simp]: "nd_name (folded t) = ascii_lower (nd_name t)"
  by (cases t) simp

text \<open>Running the events of a tree adds it to the innermost open element, or to the roots.\<close>

lemma run_tree:
  "length stack + tree_depth t \<le> MAX_SOAP_XML_DEPTH \<Longrightarrow>
     xml_run (tree_events t) (stack, roots) = Inr (close_node (folded t) stack roots)"
proof (induction t arbitrary: stack roots)
  case (Node n v cs)
  have d: "length stack < MAX_SOAP_XML_DEPTH" using Node.prems by simp
  have kids: "xml_run (concat (map tree_events ks)) (Node m w acc # stack, roots) =
      Inr (Node m w (acc @ map folded ks) # stack, roots)"
    if "set ks \<subseteq> set cs" for ks m w acc
    using that
  proof (induction ks arbitrary: acc)
    case (Cons k ks)
    have "tree_depth k \<le> Max (insert 0 (set (map tree_depth cs)))"
      using Cons.prems by (intro Max_ge) auto
    then have "length (Node m w acc # stack) + tree_depth k \<le> MAX_SOAP_XML_DEPTH"
      using Node.prems by simp
    from Node.IH [OF _ this, of roots] Cons.prems
    have "xml_run (tree_events k) (Node m w acc # stack, roots) = Inr (Node m w (acc @ [folded k]) # stack, roots)"
      by simp
    with Cons.IH [of "acc @ [folded k]"] Cons.prems show ?case by (simp add: xml_run_append)
  qed simp
  show ?case
    using d kids [of cs "ascii_lower n" v "[]"] by (simp add: xml_step_def xml_run_append)
qed

lemma run_forest:
  "(\<And>t. t \<in> set ts \<Longrightarrow> tree_depth t \<le> MAX_SOAP_XML_DEPTH) \<Longrightarrow>
     xml_run (concat (map tree_events ts)) ([], roots) = Inr ([], roots @ map folded ts)"
  by (induction ts arbitrary: roots) (simp_all add: xml_run_append run_tree)

text \<open>A document nested too deeply is refused at the start tag that goes too deep.\<close>

lemma run_too_deep:
  "tree_depth t > MAX_SOAP_XML_DEPTH - length stack \<Longrightarrow>
     xml_run (tree_events t) (stack, roots) = Inl (SoapXmlError ''SOAP XML nesting is too deep'')"
proof (induction t arbitrary: stack roots)
  case (Node n v cs)
  show ?case
  proof (cases "length stack \<ge> MAX_SOAP_XML_DEPTH")
    case True
    then show ?thesis by (simp add: xml_step_def)
  next
    case False
    let ?deep = "\<lambda>k. tree_depth k > MAX_SOAP_XML_DEPTH - Suc (length stack)"
    have fin: "finite (insert 0 (set (map tree_depth cs)))" by simp
    have "Max (insert 0 (set (map tree_depth cs))) > MAX_SOAP_XML_DEPTH - Suc (length stack)"
      using Node.prems False by simp
    moreover have "Max (insert 0 (set (map tree_depth cs))) \<in> insert 0 (set (map tree_depth cs))"
      using fin by (rule Max_in) simp
    ultimately have "\<exists>k \<in> set cs. ?deep k" by auto
    moreover have "xml_run (concat (map tree_events ks) @ rest) (Node m w acc # stack, roots) =
        Inl (SoapXmlError ''SOAP XML nesting is too deep'')"
      if "set ks \<subseteq> set cs" "\<exists>k \<in> set ks. ?deep k" for ks m w acc rest
      using that
    proof (induction ks arbitrary: acc)
      case (Cons k ks)
      show ?case
      proof (cases "?deep k")
        case True
        then have "xml_run (tree_events k) (Node m w acc # stack, roots) =
            Inl (SoapXmlError ''SOAP XML nesting is too deep'')"
          using Node.IH [of k "Node m w acc # stack" roots] Cons.prems by simp
        then show ?thesis by (simp add: xml_run_append)
      next
        case F: False
        then have "length (Node m w acc # stack) + tree_depth k \<le> MAX_SOAP_XML_DEPTH"
          using False by simp
        from run_tree [OF this, of roots] have
          "xml_run (tree_events k) (Node m w acc # stack, roots) = Inr (Node m w (acc @ [folded k]) # stack, roots)"
          by simp
        with Cons.IH [of "acc @ [folded k]"] Cons.prems F show ?thesis by (simp add: xml_run_append)
      qed
    qed simp
    ultimately have "xml_run (concat (map tree_events cs) @ [XEnd n]) (Node (ascii_lower n) v [] # stack, roots) =
        Inl (SoapXmlError ''SOAP XML nesting is too deep'')" by blast
    then show ?thesis using False by (simp add: xml_step_def)
  qed
qed

text \<open>
  The request parser builds exactly the tree of a well-formed document of up to 128 levels, with
  element names case folded, and refuses a document that nests deeper, whatever else it holds.
\<close>
theorem xml_nodes_tree:
  "xml_nodes (tree_events t) =
     (if tree_depth t \<le> MAX_SOAP_XML_DEPTH then Inr [folded t]
      else Inl (SoapXmlError ''SOAP XML nesting is too deep''))"
proof (cases "tree_depth t \<le> MAX_SOAP_XML_DEPTH")
  case True
  then show ?thesis using run_tree [of "[]" t "[]"] by (simp add: xml_nodes_def)
next
  case False
  then show ?thesis using run_too_deep [of "[]" t "[]"] by (simp add: xml_nodes_def)
qed

subsection \<open>The field walk\<close>

fun post_order :: "xml_node \<Rightarrow> xml_node list" where
  "post_order (Node n v cs) = concat (map post_order cs) @ [Node n v cs]"

definition pending_order :: "(xml_node \<times> bool) list \<Rightarrow> xml_node list" where
  "pending_order p = concat (map (\<lambda>(n, visited). if visited then [n] else post_order n) p)"

text \<open>
  The iterative walk over the parsed elements collects the texts of the recursive post-order
  traversal: every element exactly once, children before their parent and siblings in order.
\<close>
theorem walk_is_post_order:
  "walk_fields p m = fold push_field (pending_order p) m"
proof (induction p m rule: walk_fields.induct)
  case (3 node pending m)
  obtain n v cs where node: "node = Node n v cs" by (cases node)
  have "pending_order (map (\<lambda>c. (c, False)) cs @ (node, True) # pending) = pending_order ((node, False) # pending)"
    by (simp add: pending_order_def node comp_def)
  with 3 show ?case by (simp add: node)
qed (simp_all add: pending_order_def)

lemma fold_push_field:
  "fold push_field ns m k =
     (case filter (\<lambda>n. nd_name n = k) ns of
        [] \<Rightarrow> m k
      | xs \<Rightarrow> Some ((case m k of None \<Rightarrow> [] | Some vs \<Rightarrow> vs) @ map (trim \<circ> nd_value) xs))"
  by (induction ns arbitrary: m) (auto simp: push_field_def split: list.splits option.splits)

subsection \<open>Unambiguous calls\<close>

lemma take_unique_ok:
  "take_unique_soap_field name m = Inr (v, m') \<Longrightarrow>
     m' = m(ascii_lower name := None) \<and>
     (case v of None \<Rightarrow> m (ascii_lower name) = None \<or> m (ascii_lower name) = Some []
      | Some x \<Rightarrow> \<exists>vs. m (ascii_lower name) = Some vs \<and> vs \<noteq> [] \<and> (\<forall>y \<in> set vs. y = x))"
  by (auto simp: take_unique_soap_field_def Let_def list_ex_iff split: option.splits list.splits if_splits)

definition field_values :: "xml_node list \<Rightarrow> string \<Rightarrow> string set" where
  "field_values ps name = {trim (nd_value n) |n. n \<in> set ps \<and> nd_name n = ascii_lower name}"

definition field_is :: "xml_node list \<Rightarrow> string \<Rightarrow> string option \<Rightarrow> bool" where
  "field_is ps name v \<longleftrightarrow> field_values ps name = (case v of None \<Rightarrow> {} | Some x \<Rightarrow> {x})"

lemma direct_fields:
  "direct_xml_fields ps k =
     (case filter (\<lambda>n. nd_name n = k) ps of [] \<Rightarrow> None | xs \<Rightarrow> Some (map (trim \<circ> nd_value) xs))"
  by (simp add: direct_xml_fields_def fold_push_field split: list.split)

lemma take_direct:
  assumes "take_unique_soap_field name m = Inr (v, m')" "m (ascii_lower name) = direct_xml_fields ps (ascii_lower name)"
  shows "field_is ps name v"
proof -
  let ?xs = "filter (\<lambda>n. nd_name n = ascii_lower name) ps"
  have fv: "field_values ps name = (trim \<circ> nd_value) ` set ?xs" by (auto simp: field_values_def)
  show ?thesis
    using take_unique_ok [OF assms(1)] assms(2)
    unfolding field_is_def fv by (cases ?xs) (auto simp: direct_fields split: option.splits)
qed

text \<open>Taking a field leaves the others as the document gave them.\<close>

definition untouched :: "xml_node list \<Rightarrow> string set \<Rightarrow> xml_field_map \<Rightarrow> bool" where
  "untouched ps used m \<longleftrightarrow> (\<forall>k. k \<notin> used \<longrightarrow> m k = direct_xml_fields ps k)"

lemma take_step:
  assumes "take_unique_soap_field name m = Inr (v, m')" "untouched ps used m" "ascii_lower name \<notin> used"
  shows "field_is ps name v" "untouched ps (insert (ascii_lower name) used) m'"
proof -
  show "field_is ps name v" by (rule take_direct [OF assms(1)]) (use assms(2,3) in \<open>simp add: untouched_def\<close>)
  show "untouched ps (insert (ascii_lower name) used) m'"
    using assms(2) take_unique_ok [OF assms(1)] by (simp add: untouched_def)
qed

lemma untouched_direct: "untouched ps {} (direct_xml_fields ps)"
  by (simp add: untouched_def)

lemma parse_i32_field_ok:
  "parse_i32_field name v = Inr i \<longleftrightarrow>
     (case v of None \<Rightarrow> i = None | Some s \<Rightarrow> \<exists>n. i = Some n \<and> parse_int 32 (trim s) = Some n)"
  by (auto simp: parse_i32_field_def split: option.splits)

definition int_field_is :: "xml_node list \<Rightarrow> string \<Rightarrow> int option \<Rightarrow> bool" where
  "int_field_is ps name i \<longleftrightarrow>
     (\<exists>v. field_is ps name v \<and>
        (case v of None \<Rightarrow> i = None | Some s \<Rightarrow> \<exists>n. i = Some n \<and> parse_int 32 (trim s) = Some n))"

lemma int_fieldI:
  "field_is ps name v \<Longrightarrow> parse_i32_field name v = Inr i \<Longrightarrow> int_field_is ps name i"
  unfolding int_field_is_def parse_i32_field_ok by blast

lemma folded_fields:
  "ascii_lower ''ObjectID'' = ''objectid''"
  "ascii_lower ''ContainerID'' = ''containerid''"
  "ascii_lower ''StartingIndex'' = ''startingindex''"
  "ascii_lower ''RequestedCount'' = ''requestedcount''"
  "ascii_lower ''PosSecond'' = ''possecond''"
  "ascii_lower ''BrowseFlag'' = ''browseflag''"
  "ascii_lower ''SearchCriteria'' = ''searchcriteria''"
  "ascii_lower ''ConnectionID'' = ''connectionid''"
  "ascii_lower ''DeviceID'' = ''deviceid''"
  "ascii_lower ''Filter'' = ''filter''"
  "ascii_lower ''CurrentTagValue'' = ''currenttagvalue''"
  "ascii_lower ''NewTagValue'' = ''newtagvalue''"
  "ascii_lower ''SortCriteria'' = ''sortcriteria''"
  "ascii_lower ''varName'' = ''varname''"
  by (simp_all add: lower_eval)

lemma merge_object_id_ok:
  assumes "merge_object_id a b = Inr c" "field_is ps x a" "field_is ps y b"
  shows "field_values ps x \<union> field_values ps y = set_option c"
  using assms by (cases a; cases b) (auto simp: merge_object_id_def field_is_def split: if_splits)

text \<open>
  C16: An accepted request is unambiguous: every field of the call is the one value the selected
  parameter elements give it, however often they repeat it, numbers are that value read as a 32-bit
  integer, and the object id is the one id named by ObjectID and ContainerID together. A request
  with two different values for a field is never accepted.
\<close>
theorem soap_call_unambiguous:
  assumes "try_parse_soap_call action body = Inr c"
  shows "\<exists>roots ps. xml_nodes body = Inr roots \<and>
      soap_parameter_nodes roots action (soap_action_method action) = Inr ps \<and>
      sc_method c = soap_action_method action \<and>
      field_values ps ''ObjectID'' \<union> field_values ps ''ContainerID'' = set_option (sc_object_id c) \<and>
      int_field_is ps ''StartingIndex'' (sc_starting_index c) \<and>
      int_field_is ps ''RequestedCount'' (sc_requested_count c) \<and>
      int_field_is ps ''PosSecond'' (sc_pos_second c) \<and>
      field_is ps ''BrowseFlag'' (sc_browse_flag c) \<and>
      field_is ps ''SearchCriteria'' (sc_search_criteria c) \<and>
      field_is ps ''ConnectionID'' (sc_connection_id c) \<and>
      field_is ps ''DeviceID'' (sc_device_id c) \<and>
      field_is ps ''Filter'' (sc_filter c) \<and>
      field_is ps ''CurrentTagValue'' (sc_current_tag_value c) \<and>
      field_is ps ''NewTagValue'' (sc_new_tag_value c) \<and>
      field_is ps ''SortCriteria'' (sc_sort_criteria c) \<and>
      field_is ps ''varName'' (sc_var_name c)"
proof -
  obtain roots ps oid cid f1 f2 si f3 rc f4 pss f5 f6 f7 f8 f9 f10 f11 f12 f13 f14 where
    nodes: "xml_nodes body = Inr roots"
      "soap_parameter_nodes roots action (soap_action_method action) = Inr ps"
    and m: "sc_method c = soap_action_method action"
    and t1: "take_unique_soap_field ''ObjectID'' (direct_xml_fields ps) = Inr (oid, f1)"
    and t2: "take_unique_soap_field ''ContainerID'' f1 = Inr (cid, f2)"
    and mo: "merge_object_id oid cid = Inr (sc_object_id c)"
    and t3: "take_unique_soap_field ''StartingIndex'' f2 = Inr (si, f3)"
    and n3: "parse_i32_field ''StartingIndex'' si = Inr (sc_starting_index c)"
    and t4: "take_unique_soap_field ''RequestedCount'' f3 = Inr (rc, f4)"
    and n4: "parse_i32_field ''RequestedCount'' rc = Inr (sc_requested_count c)"
    and t5: "take_unique_soap_field ''PosSecond'' f4 = Inr (pss, f5)"
    and n5: "parse_i32_field ''PosSecond'' pss = Inr (sc_pos_second c)"
    and t6: "take_unique_soap_field ''BrowseFlag'' f5 = Inr (sc_browse_flag c, f6)"
    and t7: "take_unique_soap_field ''SearchCriteria'' f6 = Inr (sc_search_criteria c, f7)"
    and t8: "take_unique_soap_field ''ConnectionID'' f7 = Inr (sc_connection_id c, f8)"
    and t9: "take_unique_soap_field ''DeviceID'' f8 = Inr (sc_device_id c, f9)"
    and t10: "take_unique_soap_field ''Filter'' f9 = Inr (sc_filter c, f10)"
    and t11: "take_unique_soap_field ''CurrentTagValue'' f10 = Inr (sc_current_tag_value c, f11)"
    and t12: "take_unique_soap_field ''NewTagValue'' f11 = Inr (sc_new_tag_value c, f12)"
    and t13: "take_unique_soap_field ''SortCriteria'' f12 = Inr (sc_sort_criteria c, f13)"
    and t14: "take_unique_soap_field ''varName'' f13 = Inr (sc_var_name c, f14)"
    using assms unfolding try_parse_soap_call_def Let_def by (elim bind_res_Inr [THEN iffD1, elim_format] exE conjE) (auto split: prod.splits)
  note s1 = take_step [OF t1 untouched_direct, simplified folded_fields, simplified]
  note s2 = take_step [OF t2 s1(2), simplified folded_fields, simplified]
  note s3 = take_step [OF t3 s2(2), simplified folded_fields, simplified]
  note s4 = take_step [OF t4 s3(2), simplified folded_fields, simplified]
  note s5 = take_step [OF t5 s4(2), simplified folded_fields, simplified]
  note s6 = take_step [OF t6 s5(2), simplified folded_fields, simplified]
  note s7 = take_step [OF t7 s6(2), simplified folded_fields, simplified]
  note s8 = take_step [OF t8 s7(2), simplified folded_fields, simplified]
  note s9 = take_step [OF t9 s8(2), simplified folded_fields, simplified]
  note s10 = take_step [OF t10 s9(2), simplified folded_fields, simplified]
  note s11 = take_step [OF t11 s10(2), simplified folded_fields, simplified]
  note s12 = take_step [OF t12 s11(2), simplified folded_fields, simplified]
  note s13 = take_step [OF t13 s12(2), simplified folded_fields, simplified]
  note s14 = take_step [OF t14 s13(2), simplified folded_fields, simplified]
  show ?thesis
    using nodes m merge_object_id_ok [OF mo s1(1) s2(1)] n3 n4 n5
      s3(1) s4(1) s5(1) s6(1) s7(1) s8(1) s9(1) s10(1) s11(1) s12(1) s13(1) s14(1)
    by (intro exI [of _ roots] exI [of _ ps]) (simp only: int_fieldI simp_thms)
qed

lemma soap_call_unambiguous_witness:
  "\<exists>roots ps. xml_nodes [XStart ''Envelope'', XStart ''Body'', XStart ''Browse'', XStart ''ObjectID'',
      XText (Inr ''64''), XEnd ''ObjectID'', XStart ''StartingIndex'', XText (Inr '' 5''),
      XEnd ''StartingIndex'', XEnd ''Browse'', XEnd ''Body'', XEnd ''Envelope''] = Inr roots \<and>
    soap_parameter_nodes roots ''u#Browse'' (Some ''Browse'') = Inr ps \<and>
    field_values ps ''ObjectID'' \<union> field_values ps ''ContainerID'' = {''64''} \<and>
    int_field_is ps ''StartingIndex'' (Some 5) \<and> field_is ps ''Filter'' None"
proof -
  have m: "soap_action_method ''u#Browse'' = Some ''Browse''" by code_simp
  have "try_parse_soap_call ''u#Browse'' [XStart ''Envelope'', XStart ''Body'', XStart ''Browse'',
      XStart ''ObjectID'', XText (Inr ''64''), XEnd ''ObjectID'', XStart ''StartingIndex'', XText (Inr '' 5''),
      XEnd ''StartingIndex'', XEnd ''Browse'', XEnd ''Body'', XEnd ''Envelope''] =
    Inr \<lparr>sc_method = Some ''Browse'', sc_object_id = Some ''64'', sc_browse_flag = None,
      sc_starting_index = Some 5, sc_requested_count = None, sc_search_criteria = None,
      sc_pos_second = None, sc_connection_id = None, sc_device_id = None, sc_filter = None,
      sc_current_tag_value = None, sc_new_tag_value = None, sc_sort_criteria = None,
      sc_var_name = None\<rparr>" by code_simp
  from soap_call_unambiguous [OF this] show ?thesis unfolding m by auto
qed

end
