(* ===== verification/Xml_Escape.thy ===== *)
theory Xml_Escape
  imports Utf8
begin

text \<open>
  XML 1.0 escaping (\<open>crates/protocol/src/xml.rs\<close>), used by every XML emitter of the server, with a
  reference decoder of the five predefined entities as its specification.
\<close>

definition replacement_character :: string where
  "replacement_character = [CHR 0xEF, CHR 0xBF, CHR 0xBD]"

definition is_xml_1_0_scalar :: "nat \<Rightarrow> bool" where
  "is_xml_1_0_scalar n \<longleftrightarrow>
     n = 9 \<or> n = 10 \<or> n = 13 \<or> (32 \<le> n \<and> n \<le> 55295) \<or> (57344 \<le> n \<and> n \<le> 65533)
     \<or> (65536 \<le> n \<and> n \<le> 1114111)"

definition escape_scalar :: "bool \<Rightarrow> string \<Rightarrow> string" where
  "escape_scalar escape_quotes ch =
     (if ch = ''&'' then ''&amp;''
      else if ch = ''<'' then ''&lt;''
      else if ch = ''>'' then ''&gt;''
      else if ch = [CHR 0x22] \<and> escape_quotes then ''&quot;''
      else if ch = [CHR 0x27] \<and> escape_quotes then ''&apos;''
      else if is_xml_1_0_scalar (scalar_value ch) then ch
      else replacement_character)"

definition escape_into :: "string \<Rightarrow> string \<Rightarrow> bool \<Rightarrow> string" where
  "escape_into v escaped escape_quotes =
     foldl (\<lambda>out ch. out @ escape_scalar escape_quotes ch) escaped (chars v)"

definition escape_xml_into :: "string \<Rightarrow> string \<Rightarrow> string" where
  "escape_xml_into v escaped = escape_into v escaped True"

definition escape_xml :: "string \<Rightarrow> string" where
  "escape_xml v = escape_xml_into v []"

definition escape_xml_text_into :: "string \<Rightarrow> string \<Rightarrow> string" where
  "escape_xml_text_into v escaped = escape_into v escaped False"

definition escape_xml_text :: "string \<Rightarrow> string" where
  "escape_xml_text v = escape_xml_text_into v []"

lemmas escape_defs = escape_xml_def escape_xml_into_def escape_xml_text_def escape_xml_text_into_def

lemma foldl_append_concat: "foldl (\<lambda>out x. out @ f x) acc xs = acc @ concat (map f xs)"
  by (induction xs arbitrary: acc) simp_all

lemma escape_into_concat: "escape_into v out q = out @ concat (map (escape_scalar q) (chars v))"
  by (simp add: escape_into_def foldl_append_concat)

subsection \<open>What a reader gets back\<close>

text \<open>The text a conforming XML reader recovers: forbidden scalars have become U+FFFD.\<close>

definition sanitize_scalar :: "string \<Rightarrow> string" where
  "sanitize_scalar ch = (if is_xml_1_0_scalar (scalar_value ch) then ch else replacement_character)"

definition xml_sanitize :: "string \<Rightarrow> string" where
  "xml_sanitize v = concat (map sanitize_scalar (chars v))"

text \<open>The reference decoder: predefined entities are replaced, any other byte is itself.\<close>

definition xml_entities :: "(string \<times> char) list" where
  "xml_entities =
     [(''&amp;'', CHR ''&''), (''&lt;'', CHR ''<''), (''&gt;'', CHR ''>''),
      (''&quot;'', CHR 0x22), (''&apos;'', CHR 0x27)]"

function xml_unescape :: "string \<Rightarrow> string" where
  "xml_unescape s =
     (case s of
        [] \<Rightarrow> []
      | c # cs \<Rightarrow>
          (case List.find (\<lambda>(e, _). prefix e s) xml_entities of
             None \<Rightarrow> c # xml_unescape cs
           | Some (e, ch) \<Rightarrow> ch # xml_unescape (drop (length e - 1) cs)))"
  by pat_completeness auto
termination
  by (relation "measure length") auto

declare xml_unescape.simps [simp del]

lemma xml_unescape_Nil [simp]: "xml_unescape [] = []"
  by (subst xml_unescape.simps) simp

lemma xml_unescape_plain: "c \<noteq> CHR ''&'' \<Longrightarrow> xml_unescape (c # s) = c # xml_unescape s"
  by (subst xml_unescape.simps) (simp add: xml_entities_def)

lemma xml_unescape_entity:
  "xml_unescape (''&amp;'' @ s) = CHR ''&'' # xml_unescape s"
  "xml_unescape (''&lt;'' @ s) = CHR ''<'' # xml_unescape s"
  "xml_unescape (''&gt;'' @ s) = CHR ''>'' # xml_unescape s"
  "xml_unescape (''&quot;'' @ s) = CHR 0x22 # xml_unescape s"
  "xml_unescape (''&apos;'' @ s) = CHR 0x27 # xml_unescape s"
  by (subst xml_unescape.simps; simp add: xml_entities_def)+

lemma xml_unescape_no_amp: "CHR ''&'' \<notin> set a \<Longrightarrow> xml_unescape (a @ s) = a @ xml_unescape s"
proof (induction a)
  case (Cons c a)
  then have "c \<noteq> CHR ''&''" by auto
  with Cons show ?case by (simp add: xml_unescape_plain)
qed simp

lemma replacement_no_markup [simp]: "bval c < 128 \<Longrightarrow> c \<notin> set replacement_character"
  by (auto simp: replacement_character_def)

lemma utf8_char_plain:
  "utf8_char ch \<Longrightarrow> bval c < 128 \<Longrightarrow> ch \<noteq> [c] \<Longrightarrow> c \<notin> set ch"
  using utf8_char_ascii_or_high [of ch] by force

lemma markup_is_xml_scalar:
  "is_xml_1_0_scalar (scalar_value ''&'')" "is_xml_1_0_scalar (scalar_value ''<'')"
  "is_xml_1_0_scalar (scalar_value ''>'')" "is_xml_1_0_scalar (scalar_value [CHR 0x22])"
  "is_xml_1_0_scalar (scalar_value [CHR 0x27])"
  by (simp_all add: is_xml_1_0_scalar_def scalar_value_def)

lemma escape_scalar_other:
  "ch \<noteq> ''&'' \<Longrightarrow> ch \<noteq> ''<'' \<Longrightarrow> ch \<noteq> ''>'' \<Longrightarrow> \<not> (ch = [CHR 0x22] \<and> q) \<Longrightarrow> \<not> (ch = [CHR 0x27] \<and> q) \<Longrightarrow>
   escape_scalar q ch = sanitize_scalar ch"
  by (simp only: escape_scalar_def sanitize_scalar_def if_False)

lemma unescape_scalar:
  assumes "utf8_char ch"
  shows "xml_unescape (escape_scalar q ch @ s) = sanitize_scalar ch @ xml_unescape s"
proof -
  have plain: "ch \<noteq> ''&'' \<Longrightarrow> xml_unescape (ch @ s) = ch @ xml_unescape s"
    using utf8_char_plain [OF assms, of "CHR ''&''"] by (simp add: xml_unescape_no_amp)
  have repl: "xml_unescape (replacement_character @ s) = replacement_character @ xml_unescape s"
    by (rule xml_unescape_no_amp) simp
  consider "ch = ''&''" | "ch = ''<''" | "ch = ''>''" | "ch = [CHR 0x22] \<and> q" | "ch = [CHR 0x27] \<and> q"
    | "ch \<noteq> ''&''" "escape_scalar q ch = sanitize_scalar ch"
    using escape_scalar_other [of ch q] by blast
  then show ?thesis
  proof cases
    case 6
    then show ?thesis
      using plain repl by (simp only:) (simp add: sanitize_scalar_def)
  qed (use xml_unescape_entity [of s] in \<open>simp_all add: escape_scalar_def sanitize_scalar_def
      markup_is_xml_scalar\<close>)
qed

lemma unescape_escape:
  assumes "utf8_valid v"
  shows "xml_unescape (escape_into v [] q) = xml_sanitize v"
proof -
  have "xml_unescape (concat (map (escape_scalar q) xs)) = concat (map sanitize_scalar xs)"
    if "\<And>x. x \<in> set xs \<Longrightarrow> utf8_char x" for xs
    using that by (induction xs) (simp_all add: unescape_scalar)
  then show ?thesis
    using utf8_valid_chars [OF assms] by (simp add: escape_into_concat xml_sanitize_def)
qed

subsection \<open>No markup survives\<close>

lemma escape_scalar_markup:
  assumes "utf8_char ch" "c \<in> {CHR ''<'', CHR ''>''} \<or> (q \<and> c \<in> {CHR 0x22, CHR 0x27})"
  shows "c \<notin> set (escape_scalar q ch)"
proof -
  have "bval c < 128" using assms(2) by auto
  then have "ch \<noteq> [c] \<Longrightarrow> c \<notin> set ch" "c \<notin> set replacement_character"
    using utf8_char_plain [OF assms(1)] by auto
  then show ?thesis using assms(2) by (auto simp: escape_scalar_def)
qed

lemma escape_no_markup:
  assumes "utf8_valid v" "c \<in> {CHR ''<'', CHR ''>''} \<or> (q \<and> c \<in> {CHR 0x22, CHR 0x27})"
  shows "c \<notin> set (escape_into v [] q)"
  using assms escape_scalar_markup utf8_valid_chars by (auto simp: escape_into_concat)

lemma escape_into_append: "escape_into v out q = out @ escape_into v [] q"
  by (simp add: escape_into_concat)

lemma escape_ascii_plain:
  assumes "\<And>c. c \<in> set v \<Longrightarrow> 32 \<le> bval c \<and> bval c < 127 \<and> c \<notin> set ''&<>'' \<and> c \<noteq> CHR 0x22 \<and> c \<noteq> CHR 0x27"
  shows "escape_into v [] q = v"
proof -
  have ch: "chars v = map (\<lambda>c. [c]) v" using assms by (intro chars_ascii) force
  have "escape_scalar q [c] = [c]" if "c \<in> set v" for c
    using assms [OF that] by (auto simp: escape_scalar_def is_xml_1_0_scalar_def scalar_value_def)
  then have "concat (map (escape_scalar q) (map (\<lambda>c. [c]) v)) = v"
    by (induction v) simp_all
  then show ?thesis by (simp only: escape_into_concat ch append_Nil)
qed

text \<open>
  C14: Escaped text decodes back to the original with only the characters XML forbids replaced, and
  contains no raw angle bracket (and, in the attribute form, no raw quote), so that untrusted names
  can never open or close an element or an attribute.
\<close>
theorem xml_escape_roundtrip:
  assumes "utf8_valid v"
  shows "xml_unescape (escape_xml v) = xml_sanitize v \<and>
    xml_unescape (escape_xml_text v) = xml_sanitize v \<and>
    set (escape_xml v) \<inter> {CHR ''<'', CHR ''>'', CHR 0x22, CHR 0x27} = {} \<and>
    set (escape_xml_text v) \<inter> {CHR ''<'', CHR ''>''} = {}"
  using unescape_escape [OF assms] escape_no_markup [OF assms] by (auto simp: escape_defs)

lemma xml_escape_roundtrip_witness:
  "xml_unescape (escape_xml ''a<b & c'') = xml_sanitize ''a<b & c''"
proof -
  have "utf8_valid ''a<b & c''" by simp
  from xml_escape_roundtrip [OF this] show ?thesis by blast
qed

end
