(* ===== verification/Calendar.thy ===== *)
theory Calendar
  imports Decimal
begin

text \<open>
  UTC calendar fields and \<open>dc:date\<close> texts (\<open>crates/protocol/src/date.rs\<close>). Every intermediate of
  the conversion stays far inside \<open>i64\<close>, so \<open>i64\<close> is \<^typ>\<open>int\<close> here; \<open>div_euclid\<close> and
  \<open>rem_euclid\<close> by a positive constant are \<open>div\<close> and \<open>mod\<close>.
\<close>

record utc_fields =
  ut_year :: int
  ut_month :: int
  ut_day :: int
  ut_hour :: int
  ut_minute :: int
  ut_second :: int
  ut_weekday :: int

text \<open>The civil date of a day of the 400-year era, whose years begin in March.\<close>

definition year_of_era :: "int \<Rightarrow> int" where
  "year_of_era doe = (doe - doe div 1460 + doe div 36524 - doe div 146096) div 365"

definition year_start :: "int \<Rightarrow> int" where
  "year_start y = 365 * y + y div 4 - y div 100"

definition month_day :: "int \<Rightarrow> int \<times> int" where
  "month_day doy =
     (let mp = (5 * doy + 2) div 153;
          d = doy - (153 * mp + 2) div 5 + 1;
          m = mp + (if mp < 10 then 3 else - 9)
      in (m, d))"

definition utc_date_time :: "int \<Rightarrow> utc_fields" where
  "utc_date_time unix =
     (let days = unix div 86400;
          seconds = unix mod 86400;
          shifted = days + 719468;
          era = shifted div 146097;
          doe = shifted - era * 146097;
          yoe = year_of_era doe;
          year0 = yoe + era * 400;
          doy = doe - year_start yoe;
          (m, d) = month_day doy;
          year = year0 + (if m \<le> 2 then 1 else 0)
      in \<lparr>ut_year = year, ut_month = m, ut_day = d,
           ut_hour = seconds div 3600, ut_minute = seconds mod 3600 div 60,
           ut_second = seconds mod 60, ut_weekday = (days + 4) mod 7\<rparr>)"

definition w3c_date_from_unix :: "int \<Rightarrow> string option" where
  "w3c_date_from_unix unix =
     (let t = utc_date_time unix
      in Some (padded 4 (ut_year t) @ ''-'' @ padded 2 (ut_month t) @ ''-'' @ padded 2 (ut_day t) @ ''T'' @
           padded 2 (ut_hour t) @ '':'' @ padded 2 (ut_minute t) @ '':'' @ padded 2 (ut_second t) @ ''Z''))"

text \<open>
  Emit-time normalisation. A date of 19 bytes is indexed by byte; replacing the eleventh by
  \<open>T\<close> and slicing at positions 4, 7, 10 stay on character boundaries because those bytes are ASCII.
\<close>

definition w3c_normalize_date :: "string \<Rightarrow> string" where
  "w3c_normalize_date date =
     (if date = [] then []
      else if length date = 4 \<and> (date ! 0 = CHR ''1'' \<or> date ! 0 = CHR ''2'') \<and> is_digit (date ! 1)
              \<and> is_digit (date ! 2) \<and> is_digit (date ! 3)
      then date @ ''-01-01''
      else if length date = 19 \<and> date ! 4 = CHR ''-'' \<and> date ! 7 = CHR ''-''
              \<and> (date ! 10 = CHR ''T'' \<or> date ! 10 = CHR '' '') \<and> date ! 13 = CHR '':'' \<and> date ! 16 = CHR '':''
      then date[10 := CHR ''T''] @ ''Z''
      else if length date = 19 \<and> date ! 4 = CHR '':'' \<and> date ! 7 = CHR '':'' \<and> date ! 10 = CHR '' ''
              \<and> date ! 13 = CHR '':'' \<and> date ! 16 = CHR '':''
      then take 4 date @ ''-'' @ take 2 (drop 5 date) @ ''-'' @ take 2 (drop 8 date) @ ''T'' @
           drop 11 date @ ''Z''
      else date)"

subsection \<open>The proleptic Gregorian calendar\<close>

text \<open>The reference: leap years, month lengths and the number of days before a date.\<close>

definition leap_year :: "int \<Rightarrow> bool" where
  "leap_year y \<longleftrightarrow> 4 dvd y \<and> (100 dvd y \<longrightarrow> 400 dvd y)"

definition month_length :: "int \<Rightarrow> int \<Rightarrow> int" where
  "month_length y m =
     (if m = 2 then (if leap_year y then 29 else 28) else if m \<in> {4, 6, 9, 11} then 30 else 31)"

definition days_before_month :: "int \<Rightarrow> int \<Rightarrow> int" where
  "days_before_month y m = (\<Sum>k \<leftarrow> [1..m - 1]. month_length y k)"

text \<open>Days from 1 January 1970 to 1 January of a year: 365 a year and one for each leap year passed.\<close>

definition days_before_year :: "int \<Rightarrow> int" where
  "days_before_year y =
     365 * (y - 1970) + ((y - 1) div 4 - (y - 1) div 100 + (y - 1) div 400) - 477"

lemma div_succ:
  fixes c n :: int
  assumes "0 < n"
  shows "(c + 1) div n = c div n + (if n dvd c + 1 then 1 else 0)"
proof -
  define q where "q = c div n"
  define r where "r = c mod n"
  have c: "c = n * q + r" "0 \<le> r" "r < n" using assms by (simp_all add: q_def r_def)
  show ?thesis
  proof (cases "r + 1 = n")
    case True
    then have "c + 1 = n * (q + 1)" using c by (simp add: algebra_simps)
    then show ?thesis using assms by (simp add: q_def)
  next
    case False
    then have e: "(c + 1) div n = q" using c by (intro int_div_pos_eq [where r = "r + 1"]) simp_all
    have "(c + 1) mod n = r + 1" using c False by (intro int_mod_pos_eq [where q = q]) simp_all
    then have "\<not> n dvd c + 1" using c(2) by (simp add: dvd_eq_mod_eq_0)
    with e show ?thesis by (simp add: q_def)
  qed
qed

text \<open>The closed form grows by the length of each year, and 1970 is its zero.\<close>

lemma days_before_year_step:
  "days_before_year 1970 = 0"
  "days_before_year (y + 1) = days_before_year y + (if leap_year y then 366 else 365)"
proof -
  show "days_before_year 1970 = 0" by (simp add: days_before_year_def)
  have "y div n = (y - 1) div n + (if n dvd y then 1 else 0)" if "0 < n" for n
    using div_succ [OF that, of "y - 1"] by simp
  then have d: "y div 4 = (y - 1) div 4 + (if 4 dvd y then 1 else 0)"
    "y div 100 = (y - 1) div 100 + (if 100 dvd y then 1 else 0)"
    "y div 400 = (y - 1) div 400 + (if 400 dvd y then 1 else 0)" by simp_all
  have i: "400 dvd y \<Longrightarrow> 100 dvd y" "100 dvd y \<Longrightarrow> 4 dvd y"
    by (erule dvd_trans [rotated], simp)+
  have gen: "\<lbrakk>x4 = z4 + (if p4 then 1 else 0); x100 = z100 + (if p100 then 1 else 0);
      x400 = z400 + (if p400 then 1 else 0); p400 \<Longrightarrow> p100; p100 \<Longrightarrow> p4\<rbrakk> \<Longrightarrow>
      365 * (y + 1 - 1970) + (x4 - x100 + x400) - 477 =
        365 * (y - 1970) + (z4 - z100 + z400) - 477 + (if p4 \<and> (p100 \<longrightarrow> p400) then 366 else 365)"
    for x4 x100 x400 z4 z100 z400 :: int and p4 p100 p400
    by (cases p4; cases p100; cases p400) simp_all
  from gen [OF d i] show "days_before_year (y + 1) = days_before_year y + (if leap_year y then 366 else 365)"
    by (simp only: days_before_year_def leap_year_def add_diff_cancel_right')
qed

subsection \<open>Years of an era\<close>

text \<open>Each day of an era is day \<open>t\<close> of year \<open>s\<close> of a four-year cycle \<open>q\<close> of a century \<open>c\<close>.\<close>

definition era_day :: "int \<Rightarrow> int \<Rightarrow> int \<Rightarrow> int \<Rightarrow> bool" where
  "era_day c q s t \<longleftrightarrow>
     0 \<le> c \<and> c \<le> 3 \<and> 0 \<le> q \<and> q \<le> 24 \<and> 0 \<le> s \<and> s \<le> 3 \<and> 0 \<le> t \<and> t \<le> 365 \<and>
     (t = 365 \<longrightarrow> s = 3 \<and> (q = 24 \<longrightarrow> c = 3))"

lemma era_day_exists:
  assumes "0 \<le> doe" "doe < 146097"
  obtains c q s t where "era_day c q s t" "doe = 36524 * c + 1461 * q + 365 * s + t"
proof -
  define c where "c = min 3 (doe div 36524)"
  define r where "r = doe - 36524 * c"
  define q where "q = r div 1461"
  define u where "u = r - 1461 * q"
  define s where "s = min 3 (u div 365)"
  define t where "t = u - 365 * s"
  have c: "0 \<le> c" "c \<le> 3" "0 \<le> r" "r \<le> 36524" "r = 36524 \<longrightarrow> c = 3"
    using assms unfolding c_def r_def min_def by (simp_all split: if_split) linarith+
  have q: "0 \<le> q" "q \<le> 24" "0 \<le> u" "u \<le> 1460" "u = 1460 \<and> q = 24 \<longrightarrow> c = 3"
    using c unfolding q_def u_def by linarith+
  have s: "0 \<le> s" "s \<le> 3" "0 \<le> t" "t \<le> 365" "t = 365 \<longrightarrow> s = 3 \<and> u = 1460"
    using q unfolding s_def t_def min_def by (simp_all split: if_split) linarith+
  have "era_day c q s t" using c q s by (auto simp: era_day_def)
  moreover have "doe = 36524 * c + 1461 * q + 365 * s + t" by (simp add: r_def u_def t_def)
  ultimately show ?thesis by (rule that)
qed

lemma year_of_era_day:
  assumes "era_day c q s t" and doe: "doe = 36524 * c + 1461 * q + 365 * s + t"
  shows "year_of_era doe = 100 * c + 4 * q + s" "doe - year_start (100 * c + 4 * q + s) = t"
proof -
  have b: "0 \<le> c" "c \<le> 3" "0 \<le> q" "q \<le> 24" "0 \<le> s" "s \<le> 3" "0 \<le> t" "t \<le> 365"
    "t = 365 \<longrightarrow> s = 3 \<and> (q = 24 \<longrightarrow> c = 3)" using assms(1) by (simp_all add: era_day_def)
  define w where "w = 24 * c + q + 365 * s + t"
  have w: "doe = 1460 * (25 * c + q) + w" "0 \<le> w" "w < 2 * 1460"
    using b unfolding w_def doe by simp_all
  have d: "doe div 1460 = 25 * c + q + w div 1460" unfolding w(1) by simp
  have k: "w div 1460 = (if 1460 \<le> w then 1 else 0)"
    using w by (auto intro: int_div_pos_eq [where r = "w - 1460"] int_div_pos_eq [where r = w])
  have h: "doe div 36524 = c + (if doe = 146096 then 1 else 0)"
    "doe div 146096 = (if doe = 146096 then 1 else 0)"
  proof -
    define r where "r = 1461 * q + 365 * s + t"
    have r: "0 \<le> r" "r \<le> 36524" "doe = 36524 * c + r" using b doe by (simp_all add: r_def)
    have "r = 36524 \<Longrightarrow> c = 3"
    proof -
      assume "r = 36524"
      then have "q = 24" "t = 365" using b unfolding r_def by linarith+
      then show "c = 3" using b by simp
    qed
    then have top: "doe = 146096 \<longleftrightarrow> c = 3 \<and> r = 36524" "doe \<noteq> 146096 \<Longrightarrow> r < 36524" "doe \<le> 146096"
      using r b by (cases "r = 36524"; force)+
    show "doe div 36524 = c + (if doe = 146096 then 1 else 0)"
      using top r by (cases "doe = 146096") (auto intro: int_div_pos_eq [where r = r])
    show "doe div 146096 = (if doe = 146096 then 1 else 0)"
      using top r b by (cases "doe = 146096") simp_all
  qed
  have f: "doe - doe div 1460 + doe div 36524 - doe div 146096 =
      365 * (100 * c + 4 * q + s) + (t - w div 1460)"
    unfolding d h by (simp add: doe)
  show "year_of_era doe = 100 * c + 4 * q + s"
    unfolding year_of_era_def f using b k
    by (intro int_div_pos_eq [where r = "t - w div 1460"]) (auto simp: w_def)
  have "(100 * c + 4 * q + s) div 4 = 25 * c + q" "(100 * c + 4 * q + s) div 100 = c"
    using b by (auto intro: int_div_pos_eq [where r = s] int_div_pos_eq [where r = "4 * q + s"])
  then show "doe - year_start (100 * c + 4 * q + s) = t" by (simp add: year_start_def doe)
qed

text \<open>Months of a year that begins in March.\<close>

definition march_offset :: "int \<Rightarrow> int" where
  "march_offset m =
     (if m = 1 then 306 else if m = 2 then 337 else if m = 3 then 0 else if m = 4 then 31
      else if m = 5 then 61 else if m = 6 then 92 else if m = 7 then 122 else if m = 8 then 153
      else if m = 9 then 184 else if m = 10 then 214 else if m = 11 then 245 else 275)"

definition month_cap :: "int \<Rightarrow> int" where
  "month_cap m = (if m = 2 then 29 else if m \<in> {4, 6, 9, 11} then 30 else 31)"

lemma month_day_table:
  assumes "0 \<le> t" "t \<le> 365" "month_day t = (m, d)"
  shows "m \<in> {1, 2, 3, 4, 5, 6, 7, 8, 9, 10, 11, 12}" "t = march_offset m + d - 1" "1 \<le> d"
    "d \<le> month_cap m"
proof -
  define mp where "mp = (5 * t + 2) div 153"
  have md: "m = mp + (if mp < 10 then 3 else - 9)" "d = t - (153 * mp + 2) div 5 + 1"
    using assms(3) by (simp_all add: month_day_def Let_def mp_def)
  have b: "153 * mp \<le> 5 * t + 2" "5 * t + 2 < 153 * mp + 153" unfolding mp_def by linarith+
  then have "0 \<le> mp" "mp \<le> 11" using assms(1,2) by linarith+
  then have "mp = 0 \<or> mp = 1 \<or> mp = 2 \<or> mp = 3 \<or> mp = 4 \<or> mp = 5 \<or> mp = 6 \<or> mp = 7 \<or> mp = 8 \<or>
      mp = 9 \<or> mp = 10 \<or> mp = 11" by presburger
  then have "m \<in> {1, 2, 3, 4, 5, 6, 7, 8, 9, 10, 11, 12} \<and> t = march_offset m + d - 1 \<and> 1 \<le> d \<and> d \<le> month_cap m"
    using b assms(2) unfolding md
    by (elim disjE) (simp_all add: march_offset_def month_cap_def; presburger)+
  then show "m \<in> {1, 2, 3, 4, 5, 6, 7, 8, 9, 10, 11, 12}" "t = march_offset m + d - 1" "1 \<le> d"
    "d \<le> month_cap m" by blast+
qed

lemma days_before_month_eval:
  "m \<in> {1, 2, 3, 4, 5, 6, 7, 8, 9, 10, 11, 12} \<Longrightarrow>
     days_before_month y m = (if m \<le> 2 then 31 * (m - 1) else march_offset m + 59 + (if leap_year y then 1 else 0))"
  by (elim insertE) (simp_all add: days_before_month_def march_offset_def month_length_def upto.simps)

lemma days_to_march:
  assumes "era_day c q s t" and y: "y = 400 * era + 100 * c + 4 * q + s"
  shows "days_before_year y + 59 + (if leap_year y then 1 else 0) =
    146097 * era + year_start (100 * c + 4 * q + s) - 719468"
    "days_before_year (y + 1) =
      146097 * era + year_start (100 * c + 4 * q + s) - 719468 + 306"
    "t = 365 \<longrightarrow> leap_year (y + 1)"
proof -
  have b: "0 \<le> c" "c \<le> 3" "0 \<le> q" "q \<le> 24" "0 \<le> s" "s \<le> 3"
    "t = 365 \<longrightarrow> s = 3 \<and> (q = 24 \<longrightarrow> c = 3)" using assms(1) by (simp_all add: era_day_def)
  have e: "y div 4 = 100 * era + 25 * c + q" "y div 100 = 4 * era + c" "y div 400 = era"
    "(100 * c + 4 * q + s) div 4 = 25 * c + q" "(100 * c + 4 * q + s) div 100 = c"
    using b unfolding y
    by (auto intro: int_div_pos_eq [where r = s] int_div_pos_eq [where r = "4 * q + s"]
        int_div_pos_eq [where r = "100 * c + 4 * q + s"])
  show n: "days_before_year (y + 1) =
      146097 * era + year_start (100 * c + 4 * q + s) - 719468 + 306"
    unfolding days_before_year_def year_start_def by (simp add: e) (simp add: y)
  show "days_before_year y + 59 + (if leap_year y then 1 else 0) =
    146097 * era + year_start (100 * c + 4 * q + s) - 719468"
    using days_before_year_step(2) [of y] n by (simp split: if_splits)
  show "t = 365 \<longrightarrow> leap_year (y + 1)"
  proof
    assume "t = 365"
    then have s: "s = 3" "q = 24 \<longrightarrow> c = 3" using b by simp_all
    have four: "y + 1 = 4 * (100 * era + 25 * c + q + 1)" unfolding y s by simp
    show "leap_year (y + 1)"
    proof (cases "q = 24")
      case True
      then have "y + 1 = 400 * (era + 1)" using s unfolding y by simp
      then show ?thesis unfolding leap_year_def by (metis dvd_triv_left dvd_mult2 dvd_refl four)
    next
      case False
      have "(y + 1) mod 100 = 4 * q + 4"
        using b False unfolding y s by (intro int_mod_pos_eq [where q = "4 * era + c"]) simp_all
      then have "\<not> 100 dvd y + 1" using b by (simp add: dvd_eq_mod_eq_0)
      then show ?thesis unfolding leap_year_def using four by (metis dvd_triv_left)
    qed
  qed
qed

text \<open>
  C23: The calendar fields computed for a Unix timestamp are the proleptic Gregorian date and time
  of day of that second: the month and day exist in that year, and counting the days of all earlier
  years and months, the day, hour, minute and second gives the timestamp back, before 1970 as well.
  The weekday counts from Sunday, 1 January 1970 being a Thursday.
\<close>
theorem utc_date_time_gregorian:
  fixes unix :: int
  defines "f \<equiv> utc_date_time unix"
  shows "1 \<le> ut_month f \<and> ut_month f \<le> 12 \<and> 1 \<le> ut_day f \<and>
    ut_day f \<le> month_length (ut_year f) (ut_month f) \<and>
    ut_hour f \<in> {0..23} \<and> ut_minute f \<in> {0..59} \<and> ut_second f \<in> {0..59} \<and>
    86400 * (days_before_year (ut_year f) + days_before_month (ut_year f) (ut_month f) + ut_day f - 1) +
      3600 * ut_hour f + 60 * ut_minute f + ut_second f = unix \<and>
    ut_weekday f = (4 + unix div 86400) mod 7"
proof -
  define days where "days = unix div 86400"
  define secs where "secs = unix mod 86400"
  define era where "era = (days + 719468) div 146097"
  define doe where "doe = days + 719468 - era * 146097"
  have "0 \<le> doe" "doe < 146097" unfolding doe_def era_def by linarith+
  then obtain c q s t where ed: "era_day c q s t" and doe: "doe = 36524 * c + 1461 * q + 365 * s + t"
    by (rule era_day_exists)
  define yoe where "yoe = 100 * c + 4 * q + s"
  have yoe: "year_of_era doe = yoe" "doe - year_start yoe = t"
    using year_of_era_day [OF ed doe] by (simp_all add: yoe_def)
  obtain m d where md: "month_day t = (m, d)" by fastforce
  have t: "0 \<le> t" "t \<le> 365" using ed by (simp_all add: era_day_def)
  note tab = month_day_table [OF t md]
  define y where "y = yoe + era * 400"
  define y' where "y' = y + (if m \<le> 2 then 1 else 0)"
  have f: "f = \<lparr>ut_year = y', ut_month = m, ut_day = d, ut_hour = secs div 3600,
      ut_minute = secs mod 3600 div 60, ut_second = secs mod 60, ut_weekday = (days + 4) mod 7\<rparr>"
    unfolding f_def utc_date_time_def Let_def
    by (simp add: days_def [symmetric] secs_def [symmetric] era_def [symmetric] doe_def [symmetric]
        yoe md y_def y'_def)
  have y: "y = 400 * era + 100 * c + 4 * q + s" by (simp add: y_def yoe_def)
  note m = days_to_march [OF ed y, folded yoe_def]
  have day: "days = days_before_year y' + days_before_month y' m + d - 1"
  proof -
    have "days = 146097 * era + year_start yoe - 719468 + t" using yoe(2) by (simp add: doe_def)
    then show ?thesis
      using m(1,2) tab(1,2) unfolding days_before_month_eval [OF tab(1)] y'_def
      by (auto simp: march_offset_def)
  qed
  have cap: "d \<le> month_length y' m"
  proof (cases "m = 2 \<and> d = 29")
    case True
    then have "t = 365" using tab(2) by (simp add: march_offset_def)
    with m(3) True show ?thesis by (simp add: month_length_def y'_def)
  next
    case False
    with tab(4) show ?thesis by (auto simp: month_cap_def month_length_def split: if_splits)
  qed
  have time: "3600 * (secs div 3600) + 60 * (secs mod 3600 div 60) + secs mod 60 = secs"
    "secs div 3600 \<in> {0..23}" "secs mod 3600 div 60 \<in> {0..59}"
  proof -
    have "0 \<le> secs" "secs < 86400" by (simp_all add: secs_def)
    moreover have "secs mod 60 = secs mod 3600 mod 60" by (simp add: mod_mod_cancel)
    ultimately show "3600 * (secs div 3600) + 60 * (secs mod 3600 div 60) + secs mod 60 = secs"
      "secs div 3600 \<in> {0..23}" "secs mod 3600 div 60 \<in> {0..59}" by auto
  qed
  have "unix = 86400 * days + secs" by (simp add: days_def secs_def)
  with day time(1) have total:
    "86400 * (days_before_year y' + days_before_month y' m + d - 1) + 3600 * (secs div 3600) +
      60 * (secs mod 3600 div 60) + secs mod 60 = unix" by simp
  have "1 \<le> m" "m \<le> 12" using tab(1) by auto
  moreover have "secs mod 60 \<in> {0..59}" by simp
  ultimately show ?thesis
    unfolding f using total cap time(2,3) tab(3) by (simp add: days_def [symmetric] add.commute)
qed

end
