(* ===== verification/Didl.thy ===== *)
theory Didl
  imports Soap_Filter_Sort Xml_Escape Calendar
begin

text \<open>
  DIDL-Lite emission (\<open>crates/soap/src/lib.rs\<close>): the objects a browse or search answers with and the
  text of their elements under a filter. \<open>s.push_str(..)\<close> on the growing buffer is concatenation.
\<close>

definition attr_text :: "string \<Rightarrow> string \<Rightarrow> string" where
  "attr_text name v = '' '' @ name @ ''='' @ dq @ v @ dq"

definition elem_text :: "string \<Rightarrow> string \<Rightarrow> string" where
  "elem_text name v = ''<'' @ name @ ''>'' @ v @ ''</'' @ name @ ''>''"

definition opt_text :: "('a \<Rightarrow> string) \<Rightarrow> 'a option \<Rightarrow> string" where
  "opt_text f x = (case x of None \<Rightarrow> [] | Some v \<Rightarrow> f v)"

definition non_empty :: "string option \<Rightarrow> string option" where
  "non_empty x = (case x of Some v \<Rightarrow> if v \<noteq> [] then Some v else None | None \<Rightarrow> None)"

definition flag01 :: "bool \<Rightarrow> string" where
  "flag01 b = (if b then ''1'' else ''0'')"

record didl_res =
  dr_url :: string
  dr_protocol_info :: string
  dr_size :: "nat option"
  dr_duration :: "string option"
  dr_bitrate :: "int option"
  dr_resolution :: "string option"
  dr_sample_frequency :: "int option"
  dr_nr_audio_channels :: "int option"
  dr_pv_subtitle_type :: "string option"
  dr_pv_subtitle_uri :: "string option"

record didl_caption =
  dc_ext :: string
  dc_url :: string

text \<open>\<open>av_media_class\<close> is one \<open>char\<close>, here the bytes of that character.\<close>

record didl_object =
  do_id :: string
  do_parent_id :: string
  do_title :: string
  do_class :: string
  do_date :: "string option"
  do_restricted :: bool
  do_searchable :: "bool option"
  do_child_count :: "nat option"
  do_child_container_count :: "nat option"
  do_is_container :: bool
  do_resources :: "didl_res list"
  do_album_art_uri :: "string option"
  do_album_art_profile :: bool
  do_creator :: "string option"
  do_description :: "string option"
  do_artist :: "string option"
  do_actor :: "string option"
  do_album :: "string option"
  do_genre :: "string option"
  do_track :: "int option"
  do_season :: "int option"
  do_episode :: "int option"
  do_captions :: "didl_caption list"
  do_last_playback_position :: "int option"
  do_playback_count :: "int option"
  do_dcm_info :: "string option"
  do_ref_id :: "string option"
  do_search_classes :: "string list"
  do_av_media_class :: "string option"

definition emit_opt_tag :: "string \<Rightarrow> string option \<Rightarrow> string" where
  "emit_opt_tag tag v = opt_text (\<lambda>x. elem_text tag (escape_xml x)) (non_empty v)"

definition truncate_chars :: "string \<Rightarrow> nat \<Rightarrow> string" where
  "truncate_chars s n = (if n < length (chars s) then take_chars n s else s)"

definition emit_album_art_uri :: "didl_object \<Rightarrow> filter_bits \<Rightarrow> string" where
  "emit_album_art_uri ob bits =
     (case do_album_art_uri ob of
        None \<Rightarrow> []
      | Some uri \<Rightarrow>
          (if do_album_art_profile ob \<and> fb_dlna_ns bits
           then ''<upnp:albumArtURI'' @ attr_text ''dlna:profileID'' ''JPEG_TN'' @ ''>''
           else ''<upnp:albumArtURI>'') @ escape_xml uri @ ''</upnp:albumArtURI>'')"

definition emit_open :: "string \<Rightarrow> didl_object \<Rightarrow> string" where
  "emit_open kind ob =
     ''<'' @ kind @ attr_text ''id'' (escape_xml (do_id ob)) @
     attr_text ''parentID'' (escape_xml (do_parent_id ob)) @
     attr_text ''restricted'' (flag01 (do_restricted ob)) @
     opt_text (\<lambda>r. attr_text ''refID'' (escape_xml r)) (non_empty (do_ref_id ob))"

definition emit_head :: "didl_object \<Rightarrow> string" where
  "emit_head ob =
     elem_text ''dc:title'' (escape_xml (do_title ob)) @ elem_text ''upnp:class'' (''object.'' @ do_class ob)"

definition emit_container :: "didl_object \<Rightarrow> filter_bits \<Rightarrow> string" where
  "emit_container ob bits =
     emit_open ''container'' ob @
     opt_text (\<lambda>sc. attr_text ''searchable'' (flag01 sc)) (do_searchable ob) @
     opt_text (\<lambda>n. attr_text ''childCount'' (decimal n)) (do_child_count ob) @
     opt_text (\<lambda>n. attr_text ''childContainerCount'' (decimal n)) (do_child_container_count ob) @
     ''>'' @ emit_head ob @
     (if str_contains ''storageFolder'' (do_class ob) then elem_text ''upnp:storageUsed'' ''-1'' else []) @
     concat (map (\<lambda>sc. ''<upnp:searchClass'' @ attr_text ''includeDerived'' ''1'' @ ''>'' @ escape_xml sc @
                   ''</upnp:searchClass>'') (do_search_classes ob)) @
     opt_text (\<lambda>c. ''<av:mediaClass'' @ attr_text ''xmlns:av'' ''urn:schemas-sony-com:av'' @ ''>'' @ c @
                   ''</av:mediaClass>'') (do_av_media_class ob) @
     (if fb_upnp_album_art bits then emit_album_art_uri ob bits else []) @
     ''</container>''"

definition emit_res :: "filter_bits \<Rightarrow> didl_res \<Rightarrow> string" where
  "emit_res bits r =
     (if \<not> fb_res bits \<and> \<not> fb_pv bits then []
      else
        ''<res'' @ attr_text ''protocolInfo'' (escape_xml (dr_protocol_info r)) @
        (if fb_res_size bits then opt_text (\<lambda>n. attr_text ''size'' (decimal n)) (dr_size r) else []) @
        (if fb_res_duration bits then opt_text (\<lambda>d. attr_text ''duration'' (escape_xml d)) (dr_duration r) else []) @
        (if fb_res_bitrate bits then opt_text (\<lambda>b. attr_text ''bitrate'' (int_decimal b)) (dr_bitrate r) else []) @
        (if fb_res_sample bits
         then opt_text (\<lambda>f. attr_text ''sampleFrequency'' (int_decimal f)) (dr_sample_frequency r) else []) @
        (if fb_res_channels bits
         then opt_text (\<lambda>c. attr_text ''nrAudioChannels'' (int_decimal c)) (dr_nr_audio_channels r) else []) @
        (if fb_res_resolution bits
         then opt_text (\<lambda>d. attr_text ''resolution'' (escape_xml d)) (dr_resolution r) else []) @
        (if fb_pv bits
         then opt_text (\<lambda>t. attr_text ''pv:subtitleFileType'' (escape_xml t)) (dr_pv_subtitle_type r) @
              opt_text (\<lambda>u. attr_text ''pv:subtitleFileUri'' (escape_xml u)) (dr_pv_subtitle_uri r)
         else []) @
        ''>'' @ escape_xml (dr_url r) @ ''</res>'')"

definition emit_date :: "didl_object \<Rightarrow> string" where
  "emit_date ob =
     (case do_date ob of
        None \<Rightarrow> []
      | Some d \<Rightarrow>
          let nd = w3c_normalize_date d
          in if nd \<noteq> [] then elem_text ''dc:date'' (escape_xml nd) else [])"

definition emit_caption :: "didl_caption \<Rightarrow> string" where
  "emit_caption c =
     ''<sec:CaptionInfoEx'' @ attr_text ''sec:type'' (escape_xml (dc_ext c)) @ ''>'' @ escape_xml (dc_url c) @
     ''</sec:CaptionInfoEx>''"

definition positive :: "int option \<Rightarrow> int option" where
  "positive x = (case x of Some n \<Rightarrow> if n > 0 then Some n else None | None \<Rightarrow> None)"

definition emit_item :: "didl_object \<Rightarrow> filter_bits \<Rightarrow> string" where
  "emit_item ob bits =
     emit_open ''item'' ob @ ''>'' @ emit_head ob @
     (if fb_dc_date bits then emit_date ob else []) @
     (if fb_dc_creator bits then emit_opt_tag ''dc:creator'' (do_creator ob) else []) @
     (if fb_dc_description bits
      then opt_text (\<lambda>desc. emit_opt_tag ''dc:description'' (Some (truncate_chars desc 384)))
             (non_empty (do_description ob)) else []) @
     (if fb_upnp_artist bits then emit_opt_tag ''upnp:artist'' (do_artist ob) else []) @
     (if fb_upnp_actor bits then emit_opt_tag ''upnp:actor'' (do_actor ob) else []) @
     (if fb_upnp_album bits then emit_opt_tag ''upnp:album'' (do_album ob) else []) @
     (if fb_upnp_genre bits then emit_opt_tag ''upnp:genre'' (do_genre ob) else []) @
     (if fb_upnp_track bits \<and> str_contains ''audio'' (do_class ob)
      then opt_text (\<lambda>n. elem_text ''upnp:originalTrackNumber'' (int_decimal n)) (do_track ob) else []) @
     (if fb_upnp_episode bits
      then opt_text (\<lambda>n. elem_text ''upnp:episodeSeason'' (int_decimal n)) (do_season ob) @
           opt_text (\<lambda>n. elem_text ''upnp:episodeNumber'' (int_decimal n)) (do_episode ob)
      else []) @
     (if fb_upnp_last_playback bits
      then opt_text (\<lambda>p. elem_text ''upnp:lastPlaybackPosition'' (int_decimal p)) (do_last_playback_position ob)
      else []) @
     (if fb_sec bits
      then opt_text (\<lambda>d. elem_text ''sec:dcmInfo'' (escape_xml d)) (non_empty (do_dcm_info ob)) else []) @
     (if fb_upnp_playback_count bits
      then opt_text (\<lambda>n. elem_text ''upnp:playbackCount'' (int_decimal n)) (positive (do_playback_count ob))
      else []) @
     concat (map (emit_res bits) (do_resources ob)) @
     (if fb_sec bits then concat (map emit_caption (do_captions ob)) else []) @
     (if fb_upnp_album_art bits then emit_album_art_uri ob bits else []) @
     ''</item>''"

definition emit_didl_object :: "didl_object \<Rightarrow> filter_bits \<Rightarrow> string" where
  "emit_didl_object ob bits =
     (if do_is_container ob then emit_container ob bits else emit_item ob bits)"

definition emit_didl :: "didl_object list \<Rightarrow> filter_bits \<Rightarrow> string" where
  "emit_didl objects bits = concat (map (\<lambda>ob. emit_didl_object ob bits) objects)"

text \<open>An object to evaluate the properties at.\<close>

definition sample_object :: didl_object where
  "sample_object =
     \<lparr>do_id = ''2$8$1'', do_parent_id = ''2$8'', do_title = ''A & B'', do_class = ''item.videoItem'',
      do_date = Some ''1999'', do_restricted = True, do_searchable = None, do_child_count = None,
      do_child_container_count = None, do_is_container = False, do_resources = [],
      do_album_art_uri = None, do_album_art_profile = False, do_creator = None, do_description = None,
      do_artist = None, do_actor = None, do_album = None, do_genre = Some ''<Drama>'', do_track = None,
      do_season = None, do_episode = None, do_captions = [], do_last_playback_position = None,
      do_playback_count = None, do_dcm_info = None, do_ref_id = None, do_search_classes = [],
      do_av_media_class = None\<rparr>"

end
