(* ===== verification/Didl_Reader.thy ===== *)
theory Didl_Reader
  imports Didl
begin

text \<open>
  What a control point reads from the DIDL-Lite text. The reference reader splits a document at its
  angle brackets into rows: a tag with its attributes, and the text that follows the tag, with the
  entities decoded. The specification of an object is the list of rows it should be read as; the
  emitted text of \<open>Didl\<close> is shown to be read as exactly these rows, whatever the titles, names
  and URLs of the catalogue contain.
\<close>

subsection \<open>The reference reader\<close>

type_synonym xml_row = "string \<times> (string \<times> string) list \<times> string"

fun read_attrs :: "string list \<Rightarrow> (string \<times> string) list" where
  "read_attrs (k # v # rest) =
     (takeWhile (\<lambda>c. c \<noteq> CHR ''='') (tl (dropWhile (\<lambda>c. c \<noteq> CHR '' '') k)), xml_unescape v) # read_attrs rest"
| "read_attrs _ = []"

definition read_row :: "string \<Rightarrow> xml_row" where
  "read_row seg =
     (case split_once (CHR ''>'') seg of
        None \<Rightarrow> (seg, [], [])
      | Some (tag, txt) \<Rightarrow>
          (takeWhile (\<lambda>c. c \<noteq> CHR '' '') tag, read_attrs (split_on (CHR 0x22) tag), xml_unescape txt))"

definition read_xml :: "string \<Rightarrow> xml_row list" where
  "read_xml s = map read_row (tl (split_on (CHR ''<'') s))"

subsection \<open>Rows and their text\<close>

definition attrs_text :: "(string \<times> string) list \<Rightarrow> string" where
  "attrs_text as = concat (map (\<lambda>(k, v). attr_text k (escape_xml v)) as)"

fun render_row :: "xml_row \<Rightarrow> string" where
  "render_row (n, ats, t) = ''<'' @ n @ attrs_text ats @ ''>'' @ escape_xml t"

definition render :: "xml_row list \<Rightarrow> string" where
  "render rows = concat (map render_row rows)"

fun sanitize_row :: "xml_row \<Rightarrow> xml_row" where
  "sanitize_row (n, ats, t) = (n, map (\<lambda>(k, v). (k, xml_sanitize v)) ats, xml_sanitize t)"

definition name_ok :: "string \<Rightarrow> bool" where
  "name_ok n \<longleftrightarrow> set n \<inter> set ([CHR 0x22] @ '' <>='') = {}"

fun row_ok :: "xml_row \<Rightarrow> bool" where
  "row_ok (n, ats, t) \<longleftrightarrow> name_ok n \<and> utf8_valid t \<and> list_all (\<lambda>(k, v). name_ok k \<and> utf8_valid v) ats"

lemma escape_xml_free:
  "utf8_valid v \<Longrightarrow> CHR ''<'' \<notin> set (escape_xml v) \<and> CHR ''>'' \<notin> set (escape_xml v) \<and> CHR 0x22 \<notin> set (escape_xml v)"
  using escape_no_markup [of v _ True] by (simp add: escape_defs)

lemma unescape_escape_xml: "utf8_valid v \<Longrightarrow> xml_unescape (escape_xml v) = xml_sanitize v"
  using unescape_escape [of v True] by (simp add: escape_defs)

lemma attrs_text_simps [simp]:
  "attrs_text [] = []" "attrs_text ((k, v) # ats) = attr_text k (escape_xml v) @ attrs_text ats"
  "attrs_text (a @ b) = attrs_text a @ attrs_text b"
  by (simp_all add: attrs_text_def)

lemma attrs_text_free:
  "list_all (\<lambda>(k, v). name_ok k \<and> utf8_valid v) ats \<Longrightarrow> CHR ''<'' \<notin> set (attrs_text ats) \<and> CHR ''>'' \<notin> set (attrs_text ats)"
  by (induction ats) (auto simp: attr_text_def dq_def name_ok_def dest: escape_xml_free)

text \<open>A tag is read back: its name up to the first space and its attributes between the quotes.\<close>

lemma read_attrs_text:
  assumes "name_ok p" "list_all (\<lambda>(k, v). name_ok k \<and> utf8_valid v) ats"
  shows "read_attrs (split_on (CHR 0x22) (p @ attrs_text ats)) = map (\<lambda>(k, v). (k, xml_sanitize v)) ats"
  using assms
proof (induction ats arbitrary: p)
  case Nil
  then show ?case by (simp add: split_on_no_sep name_ok_def)
next
  case (Cons kv ats)
  obtain k v where kv: "kv = (k, v)" by (cases kv)
  have ok: "name_ok k" "utf8_valid v" "CHR 0x22 \<notin> set (escape_xml v)"
    using Cons.prems(2) escape_xml_free by (simp_all add: kv)
  let ?key = "p @ '' '' @ k @ ''=''"
  have free: "CHR 0x22 \<notin> set ?key" using Cons.prems(1) ok(1) by (auto simp: name_ok_def)
  have shape: "p @ attrs_text (kv # ats) = ?key @ CHR 0x22 # (escape_xml v @ CHR 0x22 # attrs_text ats)"
    by (simp add: kv attr_text_def dq_def)
  have "split_on (CHR 0x22) (p @ attrs_text (kv # ats)) = ?key # escape_xml v # split_on (CHR 0x22) (attrs_text ats)"
    unfolding shape split_on_append [OF free] split_on_append [OF ok(3)] ..
  moreover have "read_attrs (split_on (CHR 0x22) (attrs_text ats)) = map (\<lambda>(k, v). (k, xml_sanitize v)) ats"
    using Cons.IH [of "[]"] Cons.prems(2) by (simp add: name_ok_def)
  moreover have "dropWhile (\<lambda>c. c \<noteq> CHR '' '') ?key = '' '' @ k @ ''=''"
    using Cons.prems(1) by (subst dropWhile_append2) (auto simp: name_ok_def)
  moreover have "takeWhile (\<lambda>c. c \<noteq> CHR ''='') (k @ ''='') = k"
    using ok(1) by (subst takeWhile_append2) (auto simp: name_ok_def)
  ultimately show ?case by (simp add: kv unescape_escape_xml [OF ok(2)])
qed

lemma read_row_render:
  assumes "row_ok (n, ats, t)"
  shows "read_row (n @ attrs_text ats @ ''>'' @ escape_xml t) = sanitize_row (n, ats, t)"
proof -
  have n: "name_ok n" and t: "utf8_valid t" and a: "list_all (\<lambda>(k, v). name_ok k \<and> utf8_valid v) ats"
    using assms by simp_all
  have "CHR ''>'' \<notin> set (n @ attrs_text ats)" using n attrs_text_free [OF a] by (auto simp: name_ok_def)
  then have s: "split_once (CHR ''>'') ((n @ attrs_text ats) @ CHR ''>'' # escape_xml t) = Some (n @ attrs_text ats, escape_xml t)"
    by (rule split_once_append)
  have "takeWhile (\<lambda>c. c \<noteq> CHR '' '') (n @ attrs_text ats) = n"
  proof -
    have "attrs_text ats = [] \<or> hd (attrs_text ats) = CHR '' ''"
      by (cases ats) (auto simp: attr_text_def)
    then have "takeWhile (\<lambda>c. c \<noteq> CHR '' '') (attrs_text ats) = []"
      by (cases "attrs_text ats") auto
    then show ?thesis using n by (subst takeWhile_append2) (auto simp: name_ok_def)
  qed
  then show ?thesis
    using s read_attrs_text [OF n a] unescape_escape_xml [OF t] by (simp add: read_row_def)
qed

lemma read_render:
  assumes "\<And>r. r \<in> set rows \<Longrightarrow> row_ok r"
  shows "read_xml (render rows) = map sanitize_row rows"
proof (cases "rows = []")
  case False
  define body where "body = (\<lambda>(n, ats, t). n @ attrs_text ats @ ''>'' @ escape_xml t)"
  have r: "render_row r = CHR ''<'' # body r" for r by (cases r) (simp add: body_def)
  have free: "CHR ''<'' \<notin> set (body r)" if "row_ok r" for r
    using that attrs_text_free escape_xml_free by (cases r) (auto simp: body_def name_ok_def)
  have shape: "render xs = CHR ''<'' # join ''<'' (map body xs)" if "xs \<noteq> []" for xs
    using that
  proof (induction xs)
    case (Cons x xs)
    then show ?case by (cases xs) (simp_all add: render_def r)
  qed simp
  have "split_on (CHR ''<'') (join ''<'' (map body rows)) = map body rows"
    using False free assms by (intro split_on_join) auto
  moreover have "split_on (CHR ''<'') (CHR ''<'' # s) = [] # split_on (CHR ''<'') s" for s
    using split_on_append [of "CHR ''<''" "[]" s] by simp
  ultimately have "read_xml (render rows) = map (read_row \<circ> body) rows"
    by (simp add: read_xml_def shape [OF False])
  also have "\<dots> = map sanitize_row rows"
    using assms read_row_render by (intro map_cong) (auto simp: body_def)
  finally show ?thesis .
qed (simp add: render_def read_xml_def)

subsection \<open>The rows of an object\<close>

definition opt_list :: "('a \<Rightarrow> 'b list) \<Rightarrow> 'a option \<Rightarrow> 'b list" where
  "opt_list f x = (case x of None \<Rightarrow> [] | Some v \<Rightarrow> f v)"

definition tag_rows :: "string \<Rightarrow> (string \<times> string) list \<Rightarrow> string \<Rightarrow> xml_row list" where
  "tag_rows n ats v = [(n, ats, v), (''/'' @ n, [], [])]"

definition only_if :: "bool \<Rightarrow> 'a list \<Rightarrow> 'a list" where
  "only_if b xs = (if b then xs else [])"

definition open_attrs :: "didl_object \<Rightarrow> (string \<times> string) list" where
  "open_attrs ob =
     [(''id'', do_id ob), (''parentID'', do_parent_id ob), (''restricted'', flag01 (do_restricted ob))] @
     opt_list (\<lambda>r. [(''refID'', r)]) (non_empty (do_ref_id ob))"

definition head_rows :: "didl_object \<Rightarrow> xml_row list" where
  "head_rows ob =
     tag_rows ''dc:title'' [] (do_title ob) @ tag_rows ''upnp:class'' [] (''object.'' @ do_class ob)"

definition art_rows :: "filter_bits \<Rightarrow> didl_object \<Rightarrow> xml_row list" where
  "art_rows bits ob =
     only_if (fb_upnp_album_art bits)
       (opt_list (tag_rows ''upnp:albumArtURI''
          (only_if (do_album_art_profile ob \<and> fb_dlna_ns bits) [(''dlna:profileID'', ''JPEG_TN'')]))
        (do_album_art_uri ob))"

definition container_rows :: "filter_bits \<Rightarrow> didl_object \<Rightarrow> xml_row list" where
  "container_rows bits ob =
     [(''container'', open_attrs ob @
        opt_list (\<lambda>sc. [(''searchable'', flag01 sc)]) (do_searchable ob) @
        opt_list (\<lambda>n. [(''childCount'', decimal n)]) (do_child_count ob) @
        opt_list (\<lambda>n. [(''childContainerCount'', decimal n)]) (do_child_container_count ob), [])] @
     head_rows ob @
     only_if (str_contains ''storageFolder'' (do_class ob)) (tag_rows ''upnp:storageUsed'' [] ''-1'') @
     concat (map (tag_rows ''upnp:searchClass'' [(''includeDerived'', ''1'')]) (do_search_classes ob)) @
     opt_list (tag_rows ''av:mediaClass'' [(''xmlns:av'', ''urn:schemas-sony-com:av'')]) (do_av_media_class ob) @
     art_rows bits ob @ [(''/container'', [], [])]"

definition res_rows :: "filter_bits \<Rightarrow> didl_res \<Rightarrow> xml_row list" where
  "res_rows bits r =
     only_if (fb_res bits \<or> fb_pv bits) (tag_rows ''res''
       ([(''protocolInfo'', dr_protocol_info r)] @
        only_if (fb_res_size bits) (opt_list (\<lambda>n. [(''size'', decimal n)]) (dr_size r)) @
        only_if (fb_res_duration bits) (opt_list (\<lambda>d. [(''duration'', d)]) (dr_duration r)) @
        only_if (fb_res_bitrate bits) (opt_list (\<lambda>b. [(''bitrate'', int_decimal b)]) (dr_bitrate r)) @
        only_if (fb_res_sample bits) (opt_list (\<lambda>f. [(''sampleFrequency'', int_decimal f)]) (dr_sample_frequency r)) @
        only_if (fb_res_channels bits) (opt_list (\<lambda>c. [(''nrAudioChannels'', int_decimal c)]) (dr_nr_audio_channels r)) @
        only_if (fb_res_resolution bits) (opt_list (\<lambda>d. [(''resolution'', d)]) (dr_resolution r)) @
        only_if (fb_pv bits) (opt_list (\<lambda>t. [(''pv:subtitleFileType'', t)]) (dr_pv_subtitle_type r)) @
        only_if (fb_pv bits) (opt_list (\<lambda>u. [(''pv:subtitleFileUri'', u)]) (dr_pv_subtitle_uri r)))
       (dr_url r))"

definition text_rows :: "string \<Rightarrow> string option \<Rightarrow> xml_row list" where
  "text_rows n v = opt_list (tag_rows n []) (non_empty v)"

definition int_rows :: "string \<Rightarrow> int option \<Rightarrow> xml_row list" where
  "int_rows n v = opt_list (\<lambda>i. tag_rows n [] (int_decimal i)) v"

definition item_rows :: "filter_bits \<Rightarrow> didl_object \<Rightarrow> xml_row list" where
  "item_rows bits ob =
     [(''item'', open_attrs ob, [])] @ head_rows ob @
     only_if (fb_dc_date bits) (text_rows ''dc:date'' (map_option w3c_normalize_date (do_date ob))) @
     only_if (fb_dc_creator bits) (text_rows ''dc:creator'' (do_creator ob)) @
     only_if (fb_dc_description bits)
       (text_rows ''dc:description'' (map_option (take_chars 384) (do_description ob))) @
     only_if (fb_upnp_artist bits) (text_rows ''upnp:artist'' (do_artist ob)) @
     only_if (fb_upnp_actor bits) (text_rows ''upnp:actor'' (do_actor ob)) @
     only_if (fb_upnp_album bits) (text_rows ''upnp:album'' (do_album ob)) @
     only_if (fb_upnp_genre bits) (text_rows ''upnp:genre'' (do_genre ob)) @
     only_if (fb_upnp_track bits \<and> str_contains ''audio'' (do_class ob))
       (int_rows ''upnp:originalTrackNumber'' (do_track ob)) @
     only_if (fb_upnp_episode bits) (int_rows ''upnp:episodeSeason'' (do_season ob)) @
     only_if (fb_upnp_episode bits) (int_rows ''upnp:episodeNumber'' (do_episode ob)) @
     only_if (fb_upnp_last_playback bits) (int_rows ''upnp:lastPlaybackPosition'' (do_last_playback_position ob)) @
     only_if (fb_sec bits) (text_rows ''sec:dcmInfo'' (do_dcm_info ob)) @
     only_if (fb_upnp_playback_count bits) (int_rows ''upnp:playbackCount'' (positive (do_playback_count ob))) @
     concat (map (res_rows bits) (do_resources ob)) @
     only_if (fb_sec bits)
       (concat (map (\<lambda>c. tag_rows ''sec:CaptionInfoEx'' [(''sec:type'', dc_ext c)] (dc_url c)) (do_captions ob))) @
     art_rows bits ob @ [(''/item'', [], [])]"

definition didl_rows :: "filter_bits \<Rightarrow> didl_object \<Rightarrow> xml_row list" where
  "didl_rows bits ob = (if do_is_container ob then container_rows bits ob else item_rows bits ob)"

text \<open>
  The only texts emitted without escaping are the class and the media class; the catalogue takes
  them from fixed tables of plain names. All other texts are arbitrary Rust strings.
\<close>

definition plain_name :: "string \<Rightarrow> bool" where
  "plain_name n \<longleftrightarrow> list_all (\<lambda>c. is_alphanumeric c \<or> c = CHR ''.'') n"

definition opt_valid :: "string option \<Rightarrow> bool" where
  "opt_valid v \<longleftrightarrow> (case v of None \<Rightarrow> True | Some t \<Rightarrow> utf8_valid t)"

definition res_ok :: "didl_res \<Rightarrow> bool" where
  "res_ok r \<longleftrightarrow> utf8_valid (dr_url r) \<and> utf8_valid (dr_protocol_info r) \<and> opt_valid (dr_duration r) \<and>
     opt_valid (dr_resolution r) \<and> opt_valid (dr_pv_subtitle_type r) \<and> opt_valid (dr_pv_subtitle_uri r)"

definition object_ok :: "didl_object \<Rightarrow> bool" where
  "object_ok ob \<longleftrightarrow>
     utf8_valid (do_id ob) \<and> utf8_valid (do_parent_id ob) \<and> utf8_valid (do_title ob) \<and>
     plain_name (do_class ob) \<and> opt_valid (do_date ob) \<and> opt_valid (do_album_art_uri ob) \<and>
     opt_valid (do_creator ob) \<and> opt_valid (do_description ob) \<and> opt_valid (do_artist ob) \<and>
     opt_valid (do_actor ob) \<and> opt_valid (do_album ob) \<and> opt_valid (do_genre ob) \<and>
     opt_valid (do_dcm_info ob) \<and> opt_valid (do_ref_id ob) \<and>
     list_all utf8_valid (do_search_classes ob) \<and> list_all res_ok (do_resources ob) \<and>
     list_all (\<lambda>c. utf8_valid (dc_ext c) \<and> utf8_valid (dc_url c)) (do_captions ob) \<and>
     (case do_av_media_class ob of None \<Rightarrow> True | Some c \<Rightarrow> plain_name c)"

subsection \<open>The emitted text is the rendered rows\<close>

lemma render_simps [simp]:
  "render [] = []" "render (r # rs) = render_row r @ render rs" "render (a @ b) = render a @ render b"
  by (simp_all add: render_def)

lemma escape_xml_Nil [simp]: "escape_xml [] = []"
  by (simp add: escape_defs escape_into_concat)

lemma escape_graphic:
  "(\<And>c. c \<in> set v \<Longrightarrow> is_alphanumeric c \<or> c \<in> set ''.-:_'') \<Longrightarrow> escape_xml v = v"
  unfolding escape_defs by (rule escape_ascii_plain) (force simp: byte_simps)

lemma escape_decimals [simp]:
  "escape_xml (decimal n) = decimal n" "escape_xml (int_decimal i) = int_decimal i"
  "escape_xml (flag01 b) = flag01 b"
proof -
  show "escape_xml (decimal n) = decimal n"
    by (rule escape_graphic) (auto simp: is_alphanumeric_def dest: set_decimal)
  show "escape_xml (int_decimal i) = int_decimal i"
    by (rule escape_graphic) (auto simp: is_alphanumeric_def dest: int_decimal_chars)
  show "escape_xml (flag01 b) = flag01 b"
    by (rule escape_graphic) (auto simp: flag01_def byte_simps split: if_splits)
qed

lemma escape_plain [simp]: "plain_name n \<Longrightarrow> escape_xml n = n"
  by (rule escape_graphic) (auto simp: plain_name_def list_all_iff)

lemma escape_class: "plain_name c \<Longrightarrow> escape_xml (''object.'' @ c) = ''object.'' @ c"
proof -
  have "plain_name ''object.''" by code_simp
  moreover assume "plain_name c"
  ultimately have "plain_name (''object.'' @ c)" by (simp only: plain_name_def list_all_append)
  then show ?thesis by (rule escape_plain)
qed

lemma escape_literals:
  "escape_xml ''-1'' = ''-1''" "escape_xml ''1'' = ''1''" "escape_xml ''JPEG_TN'' = ''JPEG_TN''"
  "escape_xml ''urn:schemas-sony-com:av'' = ''urn:schemas-sony-com:av''"
proof -
  have "escape_xml v = v" if "list_all (\<lambda>c. is_alphanumeric c \<or> c \<in> set ''.-:_'') v" for v
    using that by (intro escape_graphic) (simp only: list_all_iff)
  note literal = this
  show "escape_xml ''-1'' = ''-1''" by (rule literal) code_simp
  show "escape_xml ''1'' = ''1''" by (rule literal) code_simp
  show "escape_xml ''JPEG_TN'' = ''JPEG_TN''" by (rule literal) code_simp
  show "escape_xml ''urn:schemas-sony-com:av'' = ''urn:schemas-sony-com:av''" by (rule literal) code_simp
qed

text \<open>Rendering distributes over the combinators of the rows.\<close>

lemma render_tag: "render (tag_rows n ats v) = ''<'' @ n @ attrs_text ats @ ''>'' @ escape_xml v @ ''</'' @ n @ ''>''"
  by (simp add: tag_rows_def)

lemma render_only_if [simp]: "render (only_if b rows) = (if b then render rows else [])"
  by (simp add: only_if_def)

lemma attrs_only_if [simp]: "attrs_text (only_if b ats) = (if b then attrs_text ats else [])"
  by (simp add: only_if_def)

lemma render_opt [simp]: "render (opt_list f x) = opt_text (\<lambda>v. render (f v)) x"
  by (simp add: opt_list_def opt_text_def split: option.split)

lemma attrs_opt [simp]: "attrs_text (opt_list f x) = opt_text (\<lambda>v. attrs_text (f v)) x"
  by (simp add: opt_list_def opt_text_def split: option.split)

lemma render_concat [simp]: "render (concat (map f xs)) = concat (map (\<lambda>x. render (f x)) xs)"
  by (induction xs) simp_all

lemmas row_render_simps =
  render_tag elem_text_def escape_literals open_attrs_def head_rows_def text_rows_def int_rows_def

lemma render_art: "render (art_rows bits ob) = (if fb_upnp_album_art bits then emit_album_art_uri ob bits else [])"
  by (cases "do_album_art_profile ob"; cases "fb_dlna_ns bits"; cases "do_album_art_uri ob")
    (simp_all add: art_rows_def emit_album_art_uri_def row_render_simps opt_text_def)

lemma render_res: "render (res_rows bits r) = emit_res bits r"
  by (simp add: res_rows_def emit_res_def row_render_simps)

lemma render_open: "''<'' @ kind @ attrs_text (open_attrs ob) = emit_open kind ob"
  by (simp add: emit_open_def row_render_simps)

lemma render_head: "plain_name (do_class ob) \<Longrightarrow> render (head_rows ob) = emit_head ob"
  by (simp add: emit_head_def head_rows_def render_tag elem_text_def escape_class del: append.simps)

lemma render_media:
  assumes "object_ok ob"
  shows "render (opt_list (tag_rows ''av:mediaClass'' [(''xmlns:av'', ''urn:schemas-sony-com:av'')]) (do_av_media_class ob)) =
    opt_text (\<lambda>c. ''<av:mediaClass'' @ attr_text ''xmlns:av'' ''urn:schemas-sony-com:av'' @ ''>'' @ c @
      ''</av:mediaClass>'') (do_av_media_class ob)"
  using assms by (cases "do_av_media_class ob") (simp_all add: opt_text_def row_render_simps object_ok_def)

lemma render_search_class:
  "render (tag_rows ''upnp:searchClass'' [(''includeDerived'', ''1'')] sc) =
     ''<upnp:searchClass'' @ attr_text ''includeDerived'' ''1'' @ ''>'' @ escape_xml sc @ ''</upnp:searchClass>''"
  by (simp add: row_render_simps)

lemma render_container:
  assumes "object_ok ob"
  shows "render (container_rows bits ob) = emit_container ob bits"
proof -
  have p: "plain_name (do_class ob)" using assms by (simp add: object_ok_def)
  have r: "render_row (''container'', open_attrs ob @ ats, []) = emit_open ''container'' ob @ attrs_text ats @ ''>''" for ats
    by (simp add: emit_open_def open_attrs_def)
  have e: "render_row (''/container'', [], []) = ''</container>''" by simp
  have u: "render (tag_rows ''upnp:storageUsed'' [] ''-1'') = elem_text ''upnp:storageUsed'' ''-1''"
    by (simp add: row_render_simps)
  show ?thesis
    unfolding container_rows_def emit_container_def render_simps render_only_if render_concat
      render_art render_head [OF p] render_media [OF assms] render_search_class r e u
    by (simp only: attrs_text_simps attrs_opt escape_decimals append_assoc append_Nil append_Nil2)
qed

lemma truncate_take: "truncate_chars s n = take_chars n s"
  by (simp add: truncate_chars_def take_chars_all)

lemma take_chars_ne: "s \<noteq> [] \<Longrightarrow> 0 < n \<Longrightarrow> take_chars n s \<noteq> []"
  by (cases s; cases n) (simp_all add: take_chars_def)

lemma render_text: "render (text_rows n v) = emit_opt_tag n v"
  by (simp add: text_rows_def emit_opt_tag_def row_render_simps)

lemma render_ints: "render (int_rows n v) = opt_text (\<lambda>i. elem_text n (int_decimal i)) v"
  by (simp add: row_render_simps)

lemma render_date: "emit_opt_tag ''dc:date'' (map_option w3c_normalize_date (do_date ob)) = emit_date ob"
  by (simp add: emit_date_def emit_opt_tag_def opt_text_def non_empty_def Let_def split: option.split)

lemma render_description:
  "emit_opt_tag ''dc:description'' (map_option (take_chars 384) d) =
     opt_text (\<lambda>desc. emit_opt_tag ''dc:description'' (Some (truncate_chars desc 384))) (non_empty d)"
proof (cases d)
  case (Some t)
  then show ?thesis
    by (cases "t = []")
      (simp_all add: emit_opt_tag_def opt_text_def non_empty_def truncate_take take_chars_ne take_chars_def)
qed (simp add: emit_opt_tag_def opt_text_def non_empty_def)

lemma render_caption: "render (tag_rows ''sec:CaptionInfoEx'' [(''sec:type'', dc_ext c)] (dc_url c)) = emit_caption c"
  by (simp add: emit_caption_def row_render_simps)

lemma render_dcm: "emit_opt_tag n v = opt_text (\<lambda>d. elem_text n (escape_xml d)) (non_empty v)"
  by (simp add: emit_opt_tag_def)

lemma render_item:
  assumes "object_ok ob"
  shows "render (item_rows bits ob) = emit_item ob bits"
proof -
  have p: "plain_name (do_class ob)" using assms by (simp add: object_ok_def)
  have r: "render_row (''item'', open_attrs ob, []) = emit_open ''item'' ob @ ''>''"
    by (simp add: emit_open_def open_attrs_def)
  have e: "render_row (''/item'', [], []) = ''</item>''" by simp
  have two: "(if c then x @ y else []) = (if c then x else []) @ (if c then y else [])" for c and x y :: string
    by simp
  show ?thesis
    unfolding item_rows_def emit_item_def render_simps render_only_if render_concat
      render_date render_description render_text render_ints render_art render_res render_head [OF p]
      render_caption r e two render_dcm [symmetric] append_assoc append_Nil append_Nil2 ..
qed

lemma render_object: "object_ok ob \<Longrightarrow> render (didl_rows bits ob) = emit_didl_object ob bits"
  by (simp add: didl_rows_def emit_didl_object_def render_container render_item)

subsection \<open>Every row is well formed\<close>

lemma opt_valid_simps [simp]: "opt_valid None" "opt_valid (Some t) \<longleftrightarrow> utf8_valid t"
  by (simp_all add: opt_valid_def)

lemma utf8_valid_normalize:
  assumes "utf8_valid d"
  shows "utf8_valid (w3c_normalize_date d)"
proof -
  have split: "d = take i d @ d ! i # drop (Suc i) d" if "i < length d" for i
    using that by (rule id_take_nth_drop)
  have lit: "utf8_valid ''-01-01''" "utf8_valid ''Z''" by simp_all
  have branches: "v = (if a then w else if b then x else if c then y else if e then z else u) \<Longrightarrow>
      v = u \<or> v = w \<or> v = x \<or> (c \<and> v = y) \<or> (e \<and> v = z)" for v u w x y z :: string and a b c e
    by (auto split: if_splits)
  from branches [OF w3c_normalize_date_def [of d]]
  have "w3c_normalize_date d = d \<or> w3c_normalize_date d = [] \<or> w3c_normalize_date d = d @ ''-01-01'' \<or>
      (length d = 19 \<and> (d ! 10 = CHR ''T'' \<or> d ! 10 = CHR '' '') \<and>
        w3c_normalize_date d = d[10 := CHR ''T''] @ ''Z'') \<or>
      (length d = 19 \<and> d ! 4 = CHR '':'' \<and> d ! 7 = CHR '':'' \<and> d ! 10 = CHR '' '' \<and>
        w3c_normalize_date d = take 4 d @ ''-'' @ take 2 (drop 5 d) @ ''-'' @ take 2 (drop 8 d) @ ''T'' @ drop 11 d @ ''Z'')"
    by blast
  then consider "w3c_normalize_date d = d" | "w3c_normalize_date d = []"
    | "w3c_normalize_date d = d @ ''-01-01''"
    | "length d = 19" "bval (d ! 10) < 128" "w3c_normalize_date d = d[10 := CHR ''T''] @ ''Z''"
    | "length d = 19" "d ! 4 = CHR '':''" "d ! 7 = CHR '':''" "d ! 10 = CHR '' ''"
      "w3c_normalize_date d = take 4 d @ ''-'' @ take 2 (drop 5 d) @ ''-'' @ take 2 (drop 8 d) @ ''T'' @ drop 11 d @ ''Z''"
    by (elim disjE conjE) simp_all
  then show ?thesis
  proof cases
    case 4
    have "utf8_valid (take 10 d) \<and> utf8_valid (drop 11 d)"
      using utf8_valid_before_ascii [OF 4(2), of "take 10 d" "drop 11 d"] split [of 10] 4(1) assms by simp
    then have "utf8_valid (take 10 d @ (CHR ''T'' # drop 11 d) @ ''Z'')"
      by (intro utf8_valid_append) simp_all
    moreover have "d[10 := CHR ''T''] = take 10 d @ CHR ''T'' # drop 11 d"
      using 4(1) by (simp add: upd_conv_take_nth_drop)
    ultimately show ?thesis using 4(3) by simp
  next
    case 5
    have a: "utf8_valid (take 4 d) \<and> utf8_valid (drop 5 d)"
      using utf8_valid_before_ascii [of "d ! 4" "take 4 d" "drop 5 d"] split [of 4] 5(1,2) assms by simp
    have "drop 5 d = take 2 (drop 5 d) @ CHR '':'' # drop 8 d"
      using id_take_nth_drop [of 2 "drop 5 d"] 5(1,3) by simp
    then have b: "utf8_valid (take 2 (drop 5 d)) \<and> utf8_valid (drop 8 d)"
      using a utf8_valid_before_ascii [of "CHR '':''" "take 2 (drop 5 d)" "drop 8 d"] by simp
    have "drop 8 d = take 2 (drop 8 d) @ CHR '' '' # drop 11 d"
      using id_take_nth_drop [of 2 "drop 8 d"] 5(1,4) by simp
    then have c: "utf8_valid (take 2 (drop 8 d)) \<and> utf8_valid (drop 11 d)"
      using b utf8_valid_before_ascii [of "CHR '' ''" "take 2 (drop 8 d)" "drop 11 d"] by simp
    show ?thesis unfolding 5(5) using a b c by (intro utf8_valid_append) simp_all
  qed (use assms in \<open>simp_all add: utf8_valid_append\<close>)
qed

abbreviation attrs_ok :: "(string \<times> string) list \<Rightarrow> bool" where
  "attrs_ok \<equiv> list_all (\<lambda>(k, v). name_ok k \<and> utf8_valid v)"

lemma graphic_valid: "(\<And>c. c \<in> set v \<Longrightarrow> is_alphanumeric c \<or> c \<in> set ''.-:_'') \<Longrightarrow> utf8_valid v"
  by (rule utf8_valid_ascii) (force simp: byte_simps)

lemma decimals_valid [simp]: "utf8_valid (decimal n)" "utf8_valid (int_decimal i)" "utf8_valid (flag01 b)"
proof -
  show "utf8_valid (decimal n)" by (rule graphic_valid) (auto simp: is_alphanumeric_def dest: set_decimal)
  show "utf8_valid (int_decimal i)" by (rule graphic_valid) (auto simp: is_alphanumeric_def dest: int_decimal_chars)
  show "utf8_valid (flag01 b)" by (simp add: flag01_def)
qed

lemma plain_valid: "plain_name n \<Longrightarrow> utf8_valid n"
  by (rule graphic_valid) (auto simp: plain_name_def list_all_iff)

lemma list_all_rows [simp]:
  "list_all P (only_if b xs) \<longleftrightarrow> (b \<longrightarrow> list_all P xs)"
  "list_all P (opt_list f x) \<longleftrightarrow> (\<forall>v. x = Some v \<longrightarrow> list_all P (f v))"
  "list_all P (concat (map g ys)) \<longleftrightarrow> list_all (\<lambda>y. list_all P (g y)) ys"
  by (auto simp: only_if_def opt_list_def list_all_iff split: option.split)

lemma slash_ok [simp]: "name_ok (CHR ''/'' # n) \<longleftrightarrow> name_ok n"
  by (simp add: name_ok_def)

lemma tag_rows_ok [simp]: "list_all row_ok (tag_rows n ats v) \<longleftrightarrow> name_ok n \<and> attrs_ok ats \<and> utf8_valid v"
  by (auto simp: tag_rows_def)

lemma opt_valid_Some: "opt_valid v \<Longrightarrow> v = Some t \<Longrightarrow> utf8_valid t"
  by simp

lemma non_empty_Some: "non_empty v = Some t \<Longrightarrow> v = Some t"
  by (auto simp: non_empty_def split: option.splits if_splits)

lemma text_rows_ok: "name_ok n \<Longrightarrow> opt_valid v \<Longrightarrow> list_all row_ok (text_rows n v)"
  by (auto simp: text_rows_def dest: non_empty_Some)

lemma int_rows_ok: "name_ok n \<Longrightarrow> list_all row_ok (int_rows n v)"
  by (simp add: int_rows_def)

lemma didl_names [simp]:
  "name_ok ''id''" "name_ok ''parentID''" "name_ok ''restricted''" "name_ok ''refID''" "name_ok ''searchable''"
  "name_ok ''childCount''" "name_ok ''childContainerCount''" "name_ok ''container''" "name_ok ''item''"
  "name_ok ''dc:title''" "name_ok ''upnp:class''" "name_ok ''upnp:albumArtURI''" "name_ok ''dlna:profileID''"
  "name_ok ''upnp:storageUsed''" "name_ok ''upnp:searchClass''" "name_ok ''includeDerived''"
  "name_ok ''av:mediaClass''" "name_ok ''xmlns:av''" "name_ok ''res''" "name_ok ''protocolInfo''" "name_ok ''size''"
  "name_ok ''duration''" "name_ok ''bitrate''" "name_ok ''sampleFrequency''" "name_ok ''nrAudioChannels''"
  "name_ok ''resolution''" "name_ok ''pv:subtitleFileType''" "name_ok ''pv:subtitleFileUri''"
  "name_ok ''dc:date''" "name_ok ''dc:creator''" "name_ok ''dc:description''" "name_ok ''upnp:artist''"
  "name_ok ''upnp:actor''" "name_ok ''upnp:album''" "name_ok ''upnp:genre''" "name_ok ''upnp:originalTrackNumber''"
  "name_ok ''upnp:episodeSeason''" "name_ok ''upnp:episodeNumber''" "name_ok ''upnp:lastPlaybackPosition''"
  "name_ok ''sec:dcmInfo''" "name_ok ''upnp:playbackCount''" "name_ok ''sec:CaptionInfoEx''" "name_ok ''sec:type''"
  by (simp_all add: name_ok_def)

lemma open_attrs_ok: "object_ok ob \<Longrightarrow> attrs_ok (open_attrs ob)"
  by (auto simp: open_attrs_def object_ok_def dest: non_empty_Some)

lemma head_rows_ok: "object_ok ob \<Longrightarrow> list_all row_ok (head_rows ob)"
  by (simp add: head_rows_def object_ok_def plain_valid)

lemma art_rows_ok: "object_ok ob \<Longrightarrow> list_all row_ok (art_rows bits ob)"
  by (auto simp: art_rows_def object_ok_def)

lemma res_rows_ok: "res_ok r \<Longrightarrow> list_all row_ok (res_rows bits r)"
  by (auto simp: res_rows_def res_ok_def)

lemma container_rows_ok:
  assumes "object_ok ob"
  shows "list_all row_ok (container_rows bits ob)"
proof -
  have "list_all utf8_valid (do_search_classes ob)" using assms by (simp add: object_ok_def)
  moreover have "do_av_media_class ob = Some c \<Longrightarrow> utf8_valid c" for c
    using assms by (simp add: object_ok_def plain_valid)
  ultimately show ?thesis
    using open_attrs_ok [OF assms] head_rows_ok [OF assms] art_rows_ok [OF assms, of bits]
    by (simp add: container_rows_def)
qed

lemma item_rows_ok:
  assumes "object_ok ob"
  shows "list_all row_ok (item_rows bits ob)"
proof -
  have v: "opt_valid (map_option w3c_normalize_date (do_date ob))"
    "opt_valid (map_option (take_chars 384) (do_description ob))"
    using assms by (auto simp: object_ok_def opt_valid_def utf8_valid_normalize utf8_valid_take_chars
        split: option.splits)
  have "list_all (\<lambda>r. list_all row_ok (res_rows bits r)) (do_resources ob)"
    using assms by (auto simp: object_ok_def list_all_iff dest: res_rows_ok [of _ bits, unfolded list_all_iff])
  moreover have "list_all (\<lambda>c. utf8_valid (dc_ext c) \<and> utf8_valid (dc_url c)) (do_captions ob)"
    using assms by (simp add: object_ok_def)
  ultimately show ?thesis
    using open_attrs_ok [OF assms] head_rows_ok [OF assms] art_rows_ok [OF assms, of bits] v assms
    by (simp add: item_rows_def text_rows_ok int_rows_ok object_ok_def conj_commute)
qed

lemma didl_rows_ok: "object_ok ob \<Longrightarrow> list_all row_ok (didl_rows bits ob)"
  by (simp add: didl_rows_def container_rows_ok item_rows_ok)

text \<open>
  C18: Whatever texts the catalogue holds, a control point that reads the DIDL-Lite of a result gets
  exactly the elements the filter selects for each object, in order, with every attribute and text
  decoded to the catalogue's value (characters XML forbids replaced): no title, name or URL can add,
  close or change an element or attribute.
\<close>
theorem didl_read_back:
  assumes "list_all object_ok objects"
  shows "read_xml (emit_didl objects bits) = map sanitize_row (concat (map (didl_rows bits) objects))"
proof -
  have "render (concat (map (didl_rows bits) objects)) = emit_didl objects bits"
    using assms by (induction objects) (simp_all add: emit_didl_def render_object)
  moreover have "row_ok r" if "r \<in> set (concat (map (didl_rows bits) objects))" for r
    using that assms didl_rows_ok [of _ bits] by (auto simp: list_all_iff)
  ultimately show ?thesis using read_render by metis
qed

lemma didl_read_back_witness:
  "read_xml (emit_didl [sample_object] filter_standard) = map sanitize_row (didl_rows filter_standard sample_object)"
proof -
  have "list_all object_ok [sample_object]"
    by (simp add: sample_object_def object_ok_def opt_valid_def plain_name_def byte_simps)
  from didl_read_back [OF this, of filter_standard] show ?thesis by simp
qed

end
