(* ===== verification/Http_Syntax.thy ===== *)
theory Http_Syntax
  imports Text_Ops
begin

text \<open>
  Line syntax shared by HTTP and SSDP (\<open>crates/protocol/src/http_syntax.rs\<close>) and the HTTP
  persistence rule (\<open>crates/protocol/src/persist.rs\<close>).
\<close>

definition is_token_byte :: "char \<Rightarrow> bool" where
  "is_token_byte c \<longleftrightarrow>
     is_alphanumeric c \<or>
     c \<in> {CHR ''!'', CHR ''#'', CHR ''$'', CHR ''%'', CHR ''&'', CHR 0x27, CHR ''*'', CHR ''+'',
          CHR ''-'', CHR ''.'', CHR 0x5E, CHR ''_'', CHR 0x60, CHR ''|'', CHR 0x7E}"

definition is_http_token :: "string \<Rightarrow> bool" where
  "is_http_token v \<longleftrightarrow> v \<noteq> [] \<and> list_all is_token_byte v"

definition field_value_byte :: "char \<Rightarrow> bool" where
  "field_value_byte c \<longleftrightarrow> c = CHR 0x09 \<or> (32 \<le> bval c \<and> bval c \<noteq> 127)"

definition is_http_field_value :: "string \<Rightarrow> bool" where
  "is_http_field_value v \<longleftrightarrow> list_all field_value_byte v"

definition is_ows :: "char \<Rightarrow> bool" where
  "is_ows c \<longleftrightarrow> c = CHR '' '' \<or> c = CHR 0x09"

definition trim_http_ows :: "string \<Rightarrow> string" where
  "trim_http_ows v = trim_matches is_ows v"

text \<open>\<open>CR\<close>, \<open>LF\<close> and the header terminator.\<close>

definition cr :: char where "cr = CHR 0x0D"
definition lf :: char where "lf = CHR 0x0A"
definition crlf :: string where "crlf = [cr, lf]"

subsection \<open>Lines\<close>

text \<open>A block of lines without carriage returns is split into exactly those lines.\<close>

lemma crlf_ne [simp]: "crlf \<noteq> []"
  by (simp add: crlf_def)

lemma split_once_crlf: "cr \<notin> set a \<Longrightarrow> split_once_str crlf (a @ crlf @ b) = Some (a, b)"
proof (induction a)
  case Nil
  then show ?case by (subst split_once_str.simps) (simp add: crlf_def)
next
  case (Cons c a)
  then have "c \<noteq> cr" by auto
  with Cons show ?case by (subst split_once_str.simps) (auto simp: crlf_def)
qed

lemma no_crlf: "cr \<notin> set a \<Longrightarrow> \<not> str_contains crlf a"
  by (auto simp: str_contains_iff crlf_def)

lemma split_crlf_join:
  "ls \<noteq> [] \<Longrightarrow> (\<And>l. l \<in> set ls \<Longrightarrow> cr \<notin> set l) \<Longrightarrow> split_str crlf (join crlf ls) = ls"
proof (induction ls)
  case (Cons l ls)
  have l: "cr \<notin> set l" using Cons.prems by simp
  show ?case
  proof (cases "ls = []")
    case True
    then show ?thesis
      using split_once_str_None [THEN iffD2, OF no_crlf [OF l]] by (subst split_str.simps) simp
  next
    case False
    have "split_str crlf (l @ crlf @ join crlf ls) = l # split_str crlf (join crlf ls)"
      using split_once_crlf [OF l, of "join crlf ls"] by (subst split_str.simps) simp
    with Cons False show ?thesis by (simp add: join_cons)
  qed
qed simp

lemma token_byte_range: "is_token_byte c \<Longrightarrow> 33 \<le> bval c \<and> bval c \<le> 126"
  by (auto simp: is_token_byte_def byte_simps)

lemma token_not_crlf: "is_token_byte c \<Longrightarrow> c \<noteq> cr \<and> c \<noteq> lf \<and> c \<noteq> CHR '':'' \<and> c \<noteq> CHR '' ''"
  by (auto simp: is_token_byte_def byte_simps cr_def lf_def)

lemma field_value_not_crlf: "field_value_byte c \<Longrightarrow> c \<noteq> cr \<and> c \<noteq> lf"
  by (auto simp: field_value_byte_def cr_def lf_def)

lemma is_http_field_value_append [simp]:
  "is_http_field_value (s @ t) \<longleftrightarrow> is_http_field_value s \<and> is_http_field_value t"
  by (simp add: is_http_field_value_def)

lemma is_http_field_value_Nil [simp]: "is_http_field_value []"
  by (simp add: is_http_field_value_def)

lemma is_http_field_value_subset:
  "set s \<subseteq> set t \<Longrightarrow> is_http_field_value t \<Longrightarrow> is_http_field_value s"
  by (auto simp: is_http_field_value_def list_all_iff)

lemma field_value_trim_ows: "is_http_field_value v \<Longrightarrow> is_http_field_value (trim_http_ows v)"
  by (rule is_http_field_value_subset) (auto simp: trim_http_ows_def dest: set_trim_matches [THEN subsetD])

lemma is_http_field_value_no_crlf: "is_http_field_value v \<Longrightarrow> cr \<notin> set v \<and> lf \<notin> set v"
  by (auto simp: is_http_field_value_def list_all_iff dest: field_value_not_crlf)

lemma is_http_token_no_crlf: "is_http_token v \<Longrightarrow> cr \<notin> set v \<and> lf \<notin> set v \<and> CHR '':'' \<notin> set v"
  by (auto simp: is_http_token_def list_all_iff dest: token_not_crlf)

lemma token_field_value_byte: "is_token_byte c \<Longrightarrow> field_value_byte c"
  by (drule token_byte_range) (simp add: field_value_byte_def)

lemma is_http_token_field_value: "is_http_token v \<Longrightarrow> is_http_field_value v"
  by (auto simp: is_http_token_def is_http_field_value_def list_all_iff token_field_value_byte)

subsection \<open>Connection persistence\<close>

fun http_should_persist :: "string option \<Rightarrow> bool \<Rightarrow> bool \<Rightarrow> bool" where
  "http_should_persist httpver conn_close conn_keep =
     (if httpver = None \<or> conn_close then False
      else if httpver = Some ''HTTP/1.1'' then True
      else if httpver = Some ''HTTP/1.0'' then conn_keep
      else False)"

end
