(* ===== verification/Browse_Response.thy ===== *)
theory Browse_Response
  imports Didl Http_Syntax
begin

text \<open>
  Browse and search responses (\<open>crates/soap/src/lib.rs\<close>): the SOAP envelope around the escaped DIDL
  document, and the builder that stops at a byte limit, which is shown to send exactly the longest
  page of objects that fits.
\<close>

definition wrap_soap_success :: "string \<Rightarrow> string" where
  "wrap_soap_success body =
     ''<?xml version='' @ dq @ ''1.0'' @ dq @ '' encoding='' @ dq @ ''utf-8'' @ dq @ ''?>'' @ crlf @
     ''<s:Envelope xmlns:s='' @ dq @ ''http://schemas.xmlsoap.org/soap/envelope/'' @ dq @
     '' s:encodingStyle='' @ dq @ ''http://schemas.xmlsoap.org/soap/encoding/'' @ dq @ ''>'' @
     ''<s:Body>'' @ body @ ''</s:Body></s:Envelope>'' @ crlf"

definition soap_fault :: "nat \<Rightarrow> string \<Rightarrow> string" where
  "soap_fault code desc =
     ''<s:Envelope xmlns:s='' @ dq @ ''http://schemas.xmlsoap.org/soap/envelope/'' @ dq @
     '' s:encodingStyle='' @ dq @ ''http://schemas.xmlsoap.org/soap/encoding/'' @ dq @ ''>'' @
     ''<s:Body><s:Fault><faultcode>s:Client</faultcode><faultstring>UPnPError</faultstring>'' @
     ''<detail><UPnPError xmlns='' @ dq @ ''urn:schemas-upnp-org:control-1-0'' @ dq @ ''>'' @
     ''<errorCode>'' @ decimal code @ ''</errorCode>'' @
     ''<errorDescription>'' @ escape_xml desc @ ''</errorDescription>'' @
     ''</UPnPError></detail></s:Fault></s:Body></s:Envelope>''"

definition page_response :: "string \<Rightarrow> string \<Rightarrow> nat \<Rightarrow> nat \<Rightarrow> nat \<Rightarrow> filter_bits \<Rightarrow> string" where
  "page_response meth didl_inner returned matches update_id bits =
     (let didl = ''<DIDL-Lite'' @ didl_xmlns bits @ ''>'' @ [lf] @ didl_inner @ ''</DIDL-Lite>''
      in wrap_soap_success
           (''<u:'' @ meth @ ''Response xmlns:u='' @ dq @ CONTENTDIRECTORY_TYPE @ dq @ ''>'' @
            ''<Result>'' @ escape_xml_text didl @ ''</Result>'' @ [lf] @
            ''<NumberReturned>'' @ decimal returned @ ''</NumberReturned>'' @ [lf] @
            ''<TotalMatches>'' @ decimal matches @ ''</TotalMatches>'' @ [lf] @
            ''<UpdateID>'' @ decimal update_id @ ''</UpdateID>'' @
            ''</u:'' @ meth @ ''Response>''))"

definition browse_response :: "string \<Rightarrow> nat \<Rightarrow> nat \<Rightarrow> nat \<Rightarrow> filter_bits \<Rightarrow> string" where
  "browse_response = page_response ''Browse''"

definition search_response :: "string \<Rightarrow> nat \<Rightarrow> nat \<Rightarrow> nat \<Rightarrow> filter_bits \<Rightarrow> string" where
  "search_response = page_response ''Search''"

definition build_browse ::
  "bool \<Rightarrow> didl_object list \<Rightarrow> nat \<Rightarrow> nat \<Rightarrow> nat \<Rightarrow> filter_bits \<Rightarrow> string" where
  "build_browse is_search objects returned matches update_id bits =
     (let inner = emit_didl objects bits
      in if is_search then search_response inner returned matches update_id bits
         else browse_response inner returned matches update_id bits)"

subsection \<open>The bounded builder\<close>

definition bounded_open :: "string \<Rightarrow> filter_bits \<Rightarrow> string" where
  "bounded_open meth bits =
     escape_xml_text_into (''<DIDL-Lite'' @ didl_xmlns bits @ ''>'' @ [lf])
       (''<?xml version='' @ dq @ ''1.0'' @ dq @ '' encoding='' @ dq @ ''utf-8'' @ dq @ ''?>'' @ crlf @
        ''<s:Envelope xmlns:s='' @ dq @ ''http://schemas.xmlsoap.org/soap/envelope/'' @ dq @
        '' s:encodingStyle='' @ dq @ ''http://schemas.xmlsoap.org/soap/encoding/'' @ dq @ ''>'' @
        ''<s:Body><u:'' @ meth @ ''Response xmlns:u='' @ dq @ CONTENTDIRECTORY_TYPE @ dq @ ''>'' @
        ''<Result>'')"

definition bounded_close :: "string \<Rightarrow> nat \<Rightarrow> nat \<Rightarrow> nat \<Rightarrow> string" where
  "bounded_close meth matches update_id returned =
     escape_xml_text_into ''</DIDL-Lite>'' [] @
     ''</Result>'' @ [lf] @
     ''<NumberReturned>'' @ decimal returned @ ''</NumberReturned>'' @ [lf] @
     ''<TotalMatches>'' @ decimal matches @ ''</TotalMatches>'' @ [lf] @
     ''<UpdateID>'' @ decimal update_id @ ''</UpdateID>'' @
     ''</u:'' @ meth @ ''Response></s:Body></s:Envelope>'' @ crlf"

fun bounded_objects ::
  "(nat \<Rightarrow> string) \<Rightarrow> filter_bits \<Rightarrow> nat \<Rightarrow> didl_object list \<Rightarrow> string \<Rightarrow> nat \<Rightarrow> string \<times> nat" where
  "bounded_objects close_text bits max_bytes [] out returned = (out, returned)"
| "bounded_objects close_text bits max_bytes (ob # obs) out returned =
     (let escaped = escape_xml_text (emit_didl_object ob bits);
          nxt = saturating_add u32_max returned 1
      in if saturating_add usize_max (saturating_add usize_max (length out) (length escaped))
              (length (close_text nxt)) > max_bytes
         then (out, returned)
         else bounded_objects close_text bits max_bytes obs (out @ escaped) nxt)"

definition build_browse_bounded ::
  "bool \<Rightarrow> didl_object list \<Rightarrow> nat \<Rightarrow> nat \<Rightarrow> filter_bits \<Rightarrow> nat \<Rightarrow> string \<times> nat" where
  "build_browse_bounded is_search objects matches update_id bits max_bytes =
     (let meth = (if is_search then ''Search'' else ''Browse'');
          close_text = bounded_close meth matches update_id;
          (out, returned) = bounded_objects close_text bits max_bytes objects (bounded_open meth bits) 0
      in (out @ close_text returned, returned))"

subsection \<open>The bounded page is a page\<close>

lemma emit_starts: "\<exists>s. emit_didl_object ob bits = CHR ''<'' # s"
  by (simp add: emit_didl_object_def emit_container_def emit_item_def emit_open_def)

lemma escape_text_append:
  assumes "t = [] \<or> hd t = CHR ''<''"
  shows "escape_xml_text (s @ t) = escape_xml_text s @ escape_xml_text t"
proof -
  have "t = [] \<or> \<not> is_cont (hd t)" using assms by (auto simp: is_cont_def)
  then show ?thesis by (simp add: escape_defs escape_into_concat chars_append)
qed

lemma emit_didl_starts: "emit_didl obs bits = [] \<or> hd (emit_didl obs bits) = CHR ''<''"
proof (cases obs)
  case (Cons ob obs')
  then show ?thesis using emit_starts [of ob bits] by (auto simp: emit_didl_def)
qed (simp add: emit_didl_def)

lemma escape_emit_didl:
  "escape_xml_text (emit_didl obs bits) = concat (map (\<lambda>ob. escape_xml_text (emit_didl_object ob bits)) obs)"
proof (induction obs)
  case Nil
  then show ?case by (simp add: emit_didl_def escape_defs escape_into_concat)
next
  case (Cons ob obs)
  have "emit_didl (ob # obs) bits = emit_didl_object ob bits @ emit_didl obs bits" by (simp add: emit_didl_def)
  then show ?case using Cons escape_text_append [OF emit_didl_starts] by simp
qed

text \<open>The text of a page, as the bounded builder writes it.\<close>

definition page_text ::
  "bool \<Rightarrow> didl_object list \<Rightarrow> nat \<Rightarrow> nat \<Rightarrow> filter_bits \<Rightarrow> string" where
  "page_text is_search obs matches update_id bits =
     (let meth = (if is_search then ''Search'' else ''Browse'')
      in bounded_open meth bits @ concat (map (\<lambda>ob. escape_xml_text (emit_didl_object ob bits)) obs) @
         bounded_close meth matches update_id (length obs))"

lemma page_text_build:
  "page_text s obs matches update_id bits = build_browse s obs (length obs) matches update_id bits"
proof -
  let ?d = "''<DIDL-Lite'' @ didl_xmlns bits @ ''>'' @ [lf]"
  have "escape_xml_text (?d @ emit_didl obs bits @ ''</DIDL-Lite>'') =
      escape_xml_text ?d @ escape_xml_text (emit_didl obs bits) @ escape_xml_text ''</DIDL-Lite>''"
    using emit_didl_starts [of obs bits]
    by (subst escape_text_append; (subst escape_text_append)?) (auto simp: hd_append)
  then have e: "escape_xml_text (''<DIDL-Lite'' @ didl_xmlns bits @ ''>'' @ [lf] @ emit_didl obs bits @ ''</DIDL-Lite>'') =
      escape_xml_text ?d @ concat (map (\<lambda>ob. escape_xml_text (emit_didl_object ob bits)) obs) @
      escape_xml_text ''</DIDL-Lite>''"
    by (simp only: escape_emit_didl append_assoc)
  have i: "escape_xml_text_into v out = out @ escape_xml_text v" for v out
    by (simp add: escape_defs escape_into_concat)
  show ?thesis
    by (simp only: page_text_def build_browse_def browse_response_def search_response_def page_response_def
        wrap_soap_success_def bounded_open_def bounded_close_def Let_def e i append_assoc append_Nil split: if_split) simp
qed

lemma saturating_exceeds:
  "m < usize_max \<Longrightarrow> saturating_add usize_max (saturating_add usize_max a b) c > m \<longleftrightarrow> a + b + c > m"
  by (auto simp: saturating_add_def)

definition object_texts :: "filter_bits \<Rightarrow> didl_object list \<Rightarrow> string" where
  "object_texts bits obs = concat (map (\<lambda>ob. escape_xml_text (emit_didl_object ob bits)) obs)"

lemma object_texts_Cons [simp]:
  "object_texts bits [] = []"
  "object_texts bits (ob # obs) = escape_xml_text (emit_didl_object ob bits) @ object_texts bits obs"
  by (simp_all add: object_texts_def)

lemma bounded_objects_longest:
  assumes "m < usize_max" "r + length obs \<le> u32_max"
  shows "\<exists>k \<le> length obs. bounded_objects cl bits m obs out r = (out @ object_texts bits (take k obs), r + k) \<and>
      (0 < k \<longrightarrow> length (out @ object_texts bits (take k obs)) + length (cl (r + k)) \<le> m) \<and>
      (k < length obs \<longrightarrow>
        m < length (out @ object_texts bits (take (Suc k) obs)) + length (cl (r + Suc k)))"
  using assms(2)
proof (induction obs arbitrary: out r)
  case Nil
  then show ?case by simp
next
  case (Cons ob obs)
  let ?e = "escape_xml_text (emit_didl_object ob bits)"
  have nxt: "saturating_add u32_max r (Suc 0) = Suc r" using Cons.prems by (simp add: saturating_add_def)
  show ?case
  proof (cases "length out + length ?e + length (cl (Suc r)) > m")
    case True
    then show ?thesis
      by (intro exI [of _ 0]) (simp add: nxt saturating_exceeds [OF assms(1)] Let_def)
  next
    case False
    obtain k where k: "k \<le> length obs"
      "bounded_objects cl bits m obs (out @ ?e) (Suc r) = ((out @ ?e) @ object_texts bits (take k obs), Suc r + k)"
      "0 < k \<longrightarrow> length ((out @ ?e) @ object_texts bits (take k obs)) + length (cl (Suc r + k)) \<le> m"
      "k < length obs \<longrightarrow>
        m < length ((out @ ?e) @ object_texts bits (take (Suc k) obs)) + length (cl (Suc r + Suc k))"
      using Cons.IH [of "Suc r" "out @ ?e"] Cons.prems by auto
    have "bounded_objects cl bits m (ob # obs) out r = (out @ object_texts bits (take (Suc k) (ob # obs)), r + Suc k)"
      using False k(2) by (simp add: nxt saturating_exceeds [OF assms(1)] Let_def)
    moreover have "length (out @ object_texts bits (take (Suc k) (ob # obs))) + length (cl (r + Suc k)) \<le> m"
      using False k(3) by (cases k) simp_all
    ultimately show ?thesis
      using k(1,4) by (intro exI [of _ "Suc k"]) simp
  qed
qed

text \<open>The bounded builder sends the longest page that fits.\<close>

lemma bounded_longest:
  assumes "build_browse_bounded is_search objects matches update_id bits max_bytes = (out, n)"
    and "length objects \<le> u32_max" "max_bytes < usize_max"
  shows "n \<le> length objects \<and> out = build_browse is_search (take n objects) n matches update_id bits \<and>
    (0 < n \<longrightarrow> length out \<le> max_bytes) \<and>
    (n < length objects \<longrightarrow>
      max_bytes < length (build_browse is_search (take (Suc n) objects) (Suc n) matches update_id bits))"
proof -
  define me where "me = (if is_search then ''Search'' else ''Browse'')"
  let ?cl = "bounded_close me matches update_id"
  obtain k where k: "k \<le> length objects"
    "bounded_objects ?cl bits max_bytes objects (bounded_open me bits) 0 =
      (bounded_open me bits @ object_texts bits (take k objects), k)"
    "0 < k \<longrightarrow> length (bounded_open me bits @ object_texts bits (take k objects)) + length (?cl k) \<le> max_bytes"
    "k < length objects \<longrightarrow>
      max_bytes < length (bounded_open me bits @ object_texts bits (take (Suc k) objects)) + length (?cl (Suc k))"
    using bounded_objects_longest [OF assms(3), of 0 objects ?cl bits "bounded_open me bits"] assms(2) by auto
  have page: "build_browse is_search (take j objects) j matches update_id bits =
      bounded_open me bits @ object_texts bits (take j objects) @ ?cl j" if "j \<le> length objects" for j
    using that page_text_build [of is_search "take j objects" matches update_id bits]
    by (simp add: page_text_def object_texts_def Let_def min_absorb2 me_def)
  have out: "out = bounded_open me bits @ object_texts bits (take k objects) @ ?cl k" and n: "n = k"
    using assms(1) k(2) by (auto simp: build_browse_bounded_def Let_def simp flip: me_def)
  show ?thesis
    using k(1,3,4) page [of k] page [of "Suc k"] by (simp add: out n add.assoc)
qed

text \<open>
  C17: The size-limited browse and search builder sends a page exactly as the unlimited builder does:
  its answer is the complete response for the first objects of the result, with their number as
  \<open>NumberReturned\<close>. A page with any object stays within the limit, and no longer page would: one
  more object makes the response exceed it.
\<close>
theorem browse_page_longest:
  assumes "build_browse_bounded is_search objects matches update_id bits max_bytes = (out, n)"
    and "length objects \<le> u32_max" "max_bytes < usize_max"
  shows "n \<le> length objects \<and> out = build_browse is_search (take n objects) n matches update_id bits \<and>
    (0 < n \<longrightarrow> length out \<le> max_bytes) \<and>
    (n < length objects \<longrightarrow>
      max_bytes < length (build_browse is_search (take (Suc n) objects) (Suc n) matches update_id bits))"
  by (rule bounded_longest [OF assms])

lemma browse_page_longest_witness:
  "\<exists>out n. build_browse_bounded False [sample_object, sample_object] 2 7 filter_standard 1200 = (out, n) \<and>
     n \<le> 2 \<and> out = build_browse False (take n [sample_object, sample_object]) n 2 7 filter_standard"
proof -
  obtain out n where b: "build_browse_bounded False [sample_object, sample_object] 2 7 filter_standard 1200 = (out, n)"
    by fastforce
  from browse_page_longest [OF b] show ?thesis
    using b by (auto simp: u32_max_def usize_max_def u64_max_def)
qed

end
