(* ===== verification/Helper_Gate.thy ===== *)
theory Helper_Gate
  imports Contracts
begin

text \<open>
  Admission gates (\<open>crates/helper/src/gate.rs\<close>). \<open>HelperGate\<close> is its mutex-protected state with
  its atomic counters; each operation is the code between taking and releasing the lock, and one
  round of the waiting loop is one operation, so that every interleaving of threads is a sequence
  of steps of \<open>gate_step\<close>. The clock is an argument: whether the deadline has passed, whether the
  caller cancelled and how long it waited are inputs of a round.
\<close>

subsection \<open>State\<close>

datatype admission_error = Rejected | TimedOut | Cancelled

record helper_gate =
  hg_max :: nat
  hg_capacity :: nat
  hg_active :: nat
  hg_queue :: "u64 list"
  hg_next_ticket :: u64
  hg_admitted :: u64
  hg_saturated :: u64
  hg_queued :: u64
  hg_rejected :: u64
  hg_timed_out :: u64
  hg_wait_total :: u64
  hg_wait_max :: u64
  hg_buckets :: "u64 list"

definition gate_new :: "nat \<Rightarrow> nat \<Rightarrow> helper_gate" where
  "gate_new max_active queue_capacity =
     \<lparr>hg_max = max max_active 1, hg_capacity = queue_capacity, hg_active = 0, hg_queue = [],
      hg_next_ticket = 0, hg_admitted = 0, hg_saturated = 0, hg_queued = 0, hg_rejected = 0,
      hg_timed_out = 0, hg_wait_total = 0, hg_wait_max = 0, hg_buckets = replicate 6 0\<rparr>"

subsection \<open>Operations\<close>

definition gate_admit :: "nat \<Rightarrow> helper_gate \<Rightarrow> helper_gate" where
  "gate_admit slots g =
     g\<lparr>hg_active := hg_active g + slots, hg_admitted := hg_admitted g + of_nat slots\<rparr>"

fun wait_bucket :: "u64 \<Rightarrow> nat list \<Rightarrow> nat" where
  "wait_bucket millis [] = 0"
| "wait_bucket millis (b # bs) = (if unat millis \<le> b then 0 else Suc (wait_bucket millis bs))"

definition observe_wait :: "u64 \<Rightarrow> helper_gate \<Rightarrow> helper_gate" where
  "observe_wait millis g =
     (let bucket = wait_bucket millis [10, 50, 100, 500, 1000]
      in g\<lparr>hg_wait_total := hg_wait_total g + millis,
           hg_wait_max := max (hg_wait_max g) millis,
           hg_buckets := (hg_buckets g)[bucket := hg_buckets g ! bucket + 1]\<rparr>)"

definition try_acquire_many :: "nat \<Rightarrow> helper_gate \<Rightarrow> helper_gate \<times> (admission_error + nat)" where
  "try_acquire_many slots g =
     (if 0 < slots \<and> slots \<le> hg_max g - hg_active g \<and> hg_queue g = []
      then (gate_admit slots g, Inr slots)
      else (g\<lparr>hg_saturated := hg_saturated g + 1, hg_rejected := hg_rejected g + 1\<rparr>, Inl Rejected))"

definition try_acquire :: "helper_gate \<Rightarrow> helper_gate \<times> (admission_error + nat)" where
  "try_acquire g = try_acquire_many 1 g"

definition try_acquire_idle :: "helper_gate \<Rightarrow> helper_gate \<times> nat option" where
  "try_acquire_idle g =
     (if hg_active g < hg_max g \<and> hg_queue g = [] then (gate_admit 1 g, Some 1) else (g, None))"

text \<open>What one critical section of \<open>acquire_timeout_until\<close> leaves its caller with.\<close>

datatype wait_outcome = Done "admission_error + nat" | Waiting u64

definition acquire_begin :: "bool \<Rightarrow> helper_gate \<Rightarrow> helper_gate \<times> wait_outcome" where
  "acquire_begin cancelled g =
     (if cancelled then (g, Done (Inl Cancelled))
      else if hg_active g < hg_max g \<and> hg_queue g = [] then (gate_admit 1 g, Done (Inr 1))
      else
        let g1 = g\<lparr>hg_saturated := hg_saturated g + 1\<rparr>
        in if length (hg_queue g1) \<ge> hg_capacity g1
           then (g1\<lparr>hg_rejected := hg_rejected g1 + 1\<rparr>, Done (Inl Rejected))
           else
             (g1\<lparr>hg_next_ticket := hg_next_ticket g1 + 1,
                 hg_queue := hg_queue g1 @ [hg_next_ticket g1],
                 hg_queued := hg_queued g1 + 1\<rparr>, Waiting (hg_next_ticket g1)))"

definition leave_queue :: "u64 \<Rightarrow> helper_gate \<Rightarrow> helper_gate" where
  "leave_queue ticket g = g\<lparr>hg_queue := remove1 ticket (hg_queue g)\<rparr>"

definition acquire_poll ::
  "u64 \<Rightarrow> bool \<Rightarrow> bool \<Rightarrow> u64 \<Rightarrow> helper_gate \<Rightarrow> helper_gate \<times> wait_outcome" where
  "acquire_poll ticket cancelled expired millis g =
     (if cancelled then (observe_wait millis (leave_queue ticket g), Done (Inl Cancelled))
      else if hg_active g < hg_max g \<and> hg_queue g \<noteq> [] \<and> hd (hg_queue g) = ticket
      then (gate_admit 1 (observe_wait millis (g\<lparr>hg_queue := tl (hg_queue g)\<rparr>)), Done (Inr 1))
      else if expired
      then
        let g1 = leave_queue ticket g; g2 = g1\<lparr>hg_timed_out := hg_timed_out g1 + 1\<rparr>
        in (observe_wait millis g2, Done (Inl TimedOut))
      else (g, Waiting ticket))"

definition drop_permit :: "nat \<Rightarrow> helper_gate \<Rightarrow> helper_gate" where
  "drop_permit slots g = g\<lparr>hg_active := hg_active g - slots\<rparr>"

record helper_metrics =
  hm_active :: nat
  hm_queued :: nat
  hm_max_active :: nat
  hm_queue_capacity :: nat
  hm_counters :: "u64 list"
  hm_buckets :: "u64 list"

definition gate_metrics :: "helper_gate \<Rightarrow> helper_metrics" where
  "gate_metrics g =
     \<lparr>hm_active = hg_active g, hm_queued = length (hg_queue g), hm_max_active = hg_max g,
      hm_queue_capacity = hg_capacity g,
      hm_counters = [hg_admitted g, hg_saturated g, hg_queued g, hg_rejected g, hg_timed_out g,
        hg_wait_total g, hg_wait_max g],
      hm_buckets = hg_buckets g\<rparr>"

lemmas gate_ops = try_acquire_many_def try_acquire_def try_acquire_idle_def acquire_begin_def
  acquire_poll_def drop_permit_def leave_queue_def gate_admit_def observe_wait_def Let_def

subsection \<open>All threads together\<close>

text \<open>
  The whole system: the gate, the slot counts of the permits that are alive, and the number of
  tickets issued so far (a ghost: the code keeps it only modulo \<open>2 ^ 64\<close>). A caller that waits is
  one whose ticket is in the queue.
\<close>

record gate_system =
  gs_gate :: helper_gate
  gs_permits :: "nat list"
  gs_issued :: nat

datatype gate_event =
  Admit nat
| AdmitTicket u64
| Refuse admission_error
| Enqueue u64
| LeaveQueue u64
| KeepWaiting u64
| Release nat

inductive gate_step :: "gate_system \<Rightarrow> gate_event \<Rightarrow> gate_system \<Rightarrow> bool" where
  many: "try_acquire_many n (gs_gate s) = (g, Inr k) \<Longrightarrow>
    gate_step s (Admit k) (s\<lparr>gs_gate := g, gs_permits := k # gs_permits s\<rparr>)"
| many_refused: "try_acquire_many n (gs_gate s) = (g, Inl e) \<Longrightarrow>
    gate_step s (Refuse e) (s\<lparr>gs_gate := g\<rparr>)"
| idle: "try_acquire_idle (gs_gate s) = (g, Some k) \<Longrightarrow>
    gate_step s (Admit k) (s\<lparr>gs_gate := g, gs_permits := k # gs_permits s\<rparr>)"
| begin_now: "acquire_begin c (gs_gate s) = (g, Done (Inr k)) \<Longrightarrow>
    gate_step s (Admit k) (s\<lparr>gs_gate := g, gs_permits := k # gs_permits s\<rparr>)"
| begin_refused: "acquire_begin c (gs_gate s) = (g, Done (Inl e)) \<Longrightarrow>
    gate_step s (Refuse e) (s\<lparr>gs_gate := g\<rparr>)"
| begin_wait: "acquire_begin c (gs_gate s) = (g, Waiting t) \<Longrightarrow>
    gate_step s (Enqueue t) (s\<lparr>gs_gate := g, gs_issued := Suc (gs_issued s)\<rparr>)"
| poll_admit: "t \<in> set (hg_queue (gs_gate s)) \<Longrightarrow>
    acquire_poll t c x m (gs_gate s) = (g, Done (Inr k)) \<Longrightarrow>
    gate_step s (AdmitTicket t) (s\<lparr>gs_gate := g, gs_permits := k # gs_permits s\<rparr>)"
| poll_leave: "t \<in> set (hg_queue (gs_gate s)) \<Longrightarrow>
    acquire_poll t c x m (gs_gate s) = (g, Done (Inl e)) \<Longrightarrow>
    gate_step s (LeaveQueue t) (s\<lparr>gs_gate := g\<rparr>)"
| poll_wait: "t \<in> set (hg_queue (gs_gate s)) \<Longrightarrow>
    acquire_poll t c x m (gs_gate s) = (g, Waiting t') \<Longrightarrow>
    gate_step s (KeepWaiting t) (s\<lparr>gs_gate := g\<rparr>)"
| release: "k \<in> set (gs_permits s) \<Longrightarrow>
    gate_step s (Release k)
      (s\<lparr>gs_gate := drop_permit k (gs_gate s), gs_permits := remove1 k (gs_permits s)\<rparr>)"

inductive_cases gate_stepE: "gate_step s ev t"

definition gate_moves :: "gate_system \<Rightarrow> gate_system \<Rightarrow> bool" where
  "gate_moves s t \<longleftrightarrow> (\<exists>ev. gate_step s ev t)"

definition gate_start :: "gate_system \<Rightarrow> bool" where
  "gate_start s \<longleftrightarrow> (\<exists>m c. s = \<lparr>gs_gate = gate_new m c, gs_permits = [], gs_issued = 0\<rparr>)"

text \<open>
  The invariant: slots in use are exactly those of the live permits and never above the limit, the
  queue is bounded, and the tickets in it are numbered in the order they were issued.
\<close>

definition ticket_order :: "u64 list \<Rightarrow> nat \<Rightarrow> bool" where
  "ticket_order q issued \<longleftrightarrow>
     (\<exists>ns. q = map of_nat ns \<and> sorted_wrt (<) ns \<and> (\<forall>n \<in> set ns. n < issued))"

definition gate_inv :: "gate_system \<Rightarrow> bool" where
  "gate_inv s \<longleftrightarrow>
     hg_active (gs_gate s) = sum_list (gs_permits s) \<and>
     hg_active (gs_gate s) \<le> hg_max (gs_gate s) \<and>
     0 < hg_max (gs_gate s) \<and>
     length (hg_queue (gs_gate s)) \<le> hg_capacity (gs_gate s) \<and>
     length (hg_buckets (gs_gate s)) = 6 \<and>
     hg_next_ticket (gs_gate s) = of_nat (gs_issued s) \<and>
     ticket_order (hg_queue (gs_gate s)) (gs_issued s)"

subsection \<open>The invariant is kept\<close>

lemma ticket_order_Nil [simp]: "ticket_order [] n"
  by (simp add: ticket_order_def)

lemma ticket_order_tl: "ticket_order q n \<Longrightarrow> ticket_order (tl q) n"
proof -
  assume "ticket_order q n"
  then obtain ns where "q = map of_nat ns" "sorted_wrt (<) ns" "\<forall>m \<in> set ns. m < n"
    by (auto simp: ticket_order_def)
  then show ?thesis unfolding ticket_order_def
    by (intro exI [of _ "tl ns"]) (cases ns; auto)
qed

lemma remove1_map: "\<exists>ys. remove1 x (map f xs) = map f ys \<and> subseq ys xs"
proof (induction xs)
  case (Cons a xs)
  then obtain ys where "remove1 x (map f xs) = map f ys" "subseq ys xs" by blast
  then show ?case
    by (cases "f a = x") (auto intro: exI [of _ xs] exI [of _ "a # ys"])
qed simp

lemma subseq_set: "subseq ys xs \<Longrightarrow> x \<in> set ys \<Longrightarrow> x \<in> set xs"
  by (induction rule: list_emb.induct) auto

lemma sorted_wrt_subseq: "subseq ys xs \<Longrightarrow> sorted_wrt P xs \<Longrightarrow> sorted_wrt P ys"
  by (induction rule: list_emb.induct) (auto dest: subseq_set)

lemma ticket_order_remove1: "ticket_order q n \<Longrightarrow> ticket_order (remove1 t q) n"
proof -
  assume "ticket_order q n"
  then obtain ns where ns: "q = map of_nat ns" "sorted_wrt (<) ns" "\<forall>m \<in> set ns. m < n"
    by (auto simp: ticket_order_def)
  obtain ys where ys: "remove1 t (map of_nat ns) = map of_nat ys" "subseq ys ns"
    using remove1_map by metis
  have "sorted_wrt (<) ys" using sorted_wrt_subseq [OF ys(2) ns(2)] .
  moreover have "\<forall>m \<in> set ys. m < n" using ns(3) subseq_set [OF ys(2)] by auto
  ultimately show ?thesis unfolding ticket_order_def using ns(1) ys(1) by metis
qed

lemma ticket_order_snoc: "ticket_order q n \<Longrightarrow> ticket_order (q @ [of_nat n]) (Suc n)"
proof -
  assume "ticket_order q n"
  then obtain ns where "q = map of_nat ns" "sorted_wrt (<) ns" "\<forall>m \<in> set ns. m < n"
    by (auto simp: ticket_order_def)
  then show ?thesis unfolding ticket_order_def
    by (intro exI [of _ "ns @ [n]"]) (auto simp: sorted_wrt_append less_Suc_eq)
qed

lemma ticket_order_distinct: "ticket_order q n \<Longrightarrow> n \<le> 2 ^ 64 \<Longrightarrow> distinct q"
proof -
  assume q: "ticket_order q n" and n: "n \<le> 2 ^ 64"
  then obtain ns where ns: "q = map of_nat ns" "sorted_wrt (<) ns" "\<forall>m \<in> set ns. m < n"
    by (auto simp: ticket_order_def)
  have "inj_on (of_nat :: nat \<Rightarrow> u64) (set ns)"
  proof (rule inj_onI)
    fix a b assume ab: "a \<in> set ns" "b \<in> set ns" "(of_nat a :: u64) = of_nat b"
    have small: "unat (of_nat m :: u64) = m" if "m \<in> set ns" for m
      using ns(3) n that by (intro unat_of_nat_u64) (meson less_le_trans)
    from ab(3) have "unat (of_nat a :: u64) = unat (of_nat b :: u64)" by simp
    then show "a = b" using small ab(1,2) by simp
  qed
  with ns show ?thesis
    by (simp add: distinct_map strict_sorted_iff)
qed

lemma sum_list_remove1: "k \<in> set ks \<Longrightarrow> sum_list (remove1 k ks) = sum_list ks - (k :: nat)"
proof (induction ks)
  case (Cons a ks)
  then have "k \<noteq> a \<Longrightarrow> k \<le> sum_list ks" by (auto intro: member_le_sum_list)
  with Cons show ?case by auto
qed simp

lemma gate_step_inv: "gate_step s ev t \<Longrightarrow> gate_inv s \<Longrightarrow> gate_inv t"
proof (induction rule: gate_step.induct)
  case (release k s)
  then show ?case
    by (auto simp: gate_inv_def drop_permit_def sum_list_remove1 member_le_sum_list)
qed (auto simp: gate_inv_def gate_ops ticket_order_tl ticket_order_remove1 ticket_order_snoc
      length_remove1 split: if_splits)

lemma gate_step_frame:
  "gate_step s ev t \<Longrightarrow> (hg_max (gs_gate t), hg_capacity (gs_gate t)) =
     (hg_max (gs_gate s), hg_capacity (gs_gate s))"
  by (induction rule: gate_step.induct) (auto simp: gate_ops split: if_splits)

interpretation gate: framed_invariant gate_moves gate_start gate_inv
  "\<lambda>s. (hg_max (gs_gate s), hg_capacity (gs_gate s))"
proof unfold_locales
  show "gate_start s \<Longrightarrow> gate_inv s" for s
    by (auto simp: gate_start_def gate_inv_def gate_new_def)
qed (auto simp: gate_moves_def intro: gate_step_inv dest: gate_step_frame)

subsection \<open>Job gate\<close>

record job_gate =
  jg_max :: nat
  jg_manual :: nat
  jg_permits :: nat

definition job_new :: "nat \<Rightarrow> job_gate" where
  "job_new m = \<lparr>jg_max = max m 1, jg_manual = 0, jg_permits = 0\<rparr>"

definition job_in_use :: "job_gate \<Rightarrow> nat" where
  "job_in_use j = saturating_add usize_max (jg_manual j) (jg_permits j)"

definition job_try_add :: "job_gate \<Rightarrow> job_gate \<times> bool" where
  "job_try_add j =
     (if job_in_use j \<ge> jg_max j then (j, False)
      else (j\<lparr>jg_manual := saturating_add usize_max (jg_manual j) 1\<rparr>, True))"

definition job_release :: "job_gate \<Rightarrow> job_gate" where
  "job_release j = j\<lparr>jg_manual := jg_manual j - 1\<rparr>"

definition job_try_acquire :: "job_gate \<Rightarrow> job_gate \<times> bool" where
  "job_try_acquire j =
     (if job_in_use j \<ge> jg_max j then (j, False)
      else (j\<lparr>jg_permits := saturating_add usize_max (jg_permits j) 1\<rparr>, True))"

text \<open>One round of \<open>acquire_timeout\<close>: a permit, the end of the wait, or another round.\<close>

definition job_poll :: "bool \<Rightarrow> job_gate \<Rightarrow> job_gate \<times> bool option" where
  "job_poll expired j =
     (if job_in_use j < jg_max j
      then (j\<lparr>jg_permits := saturating_add usize_max (jg_permits j) 1\<rparr>, Some True)
      else if expired then (j, Some False) else (j, None))"

definition job_drop :: "job_gate \<Rightarrow> job_gate" where
  "job_drop j = j\<lparr>jg_permits := jg_permits j - 1\<rparr>"

text \<open>The gate with the number of permits alive.\<close>

inductive job_step :: "job_gate \<times> nat \<Rightarrow> job_gate \<times> nat \<Rightarrow> bool" where
  add: "job_try_add j = (j', b) \<Longrightarrow> job_step (j, n) (j', n)"
| manual_release: "job_step (j, n) (job_release j, n)"
| acquired: "job_try_acquire j = (j', True) \<Longrightarrow> job_step (j, n) (j', Suc n)"
| refused: "job_try_acquire j = (j', False) \<Longrightarrow> job_step (j, n) (j', n)"
| waited: "job_poll x j = (j', Some True) \<Longrightarrow> job_step (j, n) (j', Suc n)"
| gave_up: "job_poll x j = (j', Some False) \<Longrightarrow> job_step (j, n) (j', n)"
| waiting: "job_poll x j = (j', None) \<Longrightarrow> job_step (j, n) (j', n)"
| dropped: "job_step (j, Suc n) (job_drop j, n)"

inductive_cases job_stepE: "job_step (j, n) (j', n')"

definition job_start :: "job_gate \<times> nat \<Rightarrow> bool" where
  "job_start s \<longleftrightarrow> (\<exists>m \<le> usize_max. s = (job_new m, 0))"

definition job_inv :: "job_gate \<times> nat \<Rightarrow> bool" where
  "job_inv s \<longleftrightarrow> 0 < jg_max (fst s) \<and> jg_max (fst s) \<le> usize_max \<and> jg_permits (fst s) = snd s
     \<and> jg_manual (fst s) + snd s \<le> jg_max (fst s)"

lemmas job_ops = job_in_use_def job_try_add_def job_release_def job_try_acquire_def job_poll_def
  job_drop_def saturating_add_def

interpretation job: framed_invariant job_step job_start job_inv "\<lambda>s. jg_max (fst s)"
proof unfold_locales
  show "job_start s \<Longrightarrow> job_inv s" for s
    by (auto simp: job_start_def job_inv_def job_new_def usize_max_def u64_max_def)
  show "job_step s t \<Longrightarrow> job_inv s \<Longrightarrow> job_inv t" for s t
    by (induction rule: job_step.induct)
      (auto simp: job_inv_def job_ops min_def split: if_splits)
  show "job_step s t \<Longrightarrow> jg_max (fst t) = jg_max (fst s)" for s t
    by (induction rule: job_step.induct) (auto simp: job_ops split: if_splits)
qed

subsection \<open>Order of admission\<close>

inductive gate_trace :: "gate_system \<Rightarrow> gate_event list \<Rightarrow> gate_system \<Rightarrow> bool" where
  trace_nil: "gate_trace s [] s"
| trace_snoc: "gate_trace s evs t \<Longrightarrow> gate_step t ev u \<Longrightarrow> gate_trace s (evs @ [ev]) u"

fun admitted_ticket :: "gate_event \<Rightarrow> u64 list" where
  "admitted_ticket (AdmitTicket t) = [t]"
| "admitted_ticket _ = []"

fun enqueued_ticket :: "gate_event \<Rightarrow> u64 list" where
  "enqueued_ticket (Enqueue t) = [t]"
| "enqueued_ticket _ = []"

definition admitted :: "gate_event list \<Rightarrow> u64 list" where
  "admitted evs = concat (map admitted_ticket evs)"

definition enqueued :: "gate_event list \<Rightarrow> u64 list" where
  "enqueued evs = concat (map enqueued_ticket evs)"

lemma subseq_remove1: "subseq (remove1 x xs) xs"
  by (induction xs) auto

lemma gate_step_queue:
  "gate_step s ev t \<Longrightarrow>
     subseq (admitted_ticket ev @ hg_queue (gs_gate t)) (hg_queue (gs_gate s) @ enqueued_ticket ev)"
proof (induction rule: gate_step.induct)
  case (poll_admit t s c x m g k)
  then show ?case by (cases "hg_queue (gs_gate s)") (auto simp: gate_ops split: if_splits)
qed (auto simp: gate_ops subseq_remove1 split: if_splits)

lemma gate_trace_queue:
  "gate_trace s evs t \<Longrightarrow> subseq (admitted evs @ hg_queue (gs_gate t)) (hg_queue (gs_gate s) @ enqueued evs)"
proof (induction rule: gate_trace.induct)
  case (trace_nil s)
  then show ?case by (simp add: admitted_def enqueued_def)
next
  case (trace_snoc s evs t ev u)
  have "subseq (admitted evs @ admitted_ticket ev @ hg_queue (gs_gate u))
      (admitted evs @ hg_queue (gs_gate t) @ enqueued_ticket ev)"
    using gate_step_queue [OF trace_snoc.hyps(2)] by (simp add: subseq_append')
  moreover have "subseq ((admitted evs @ hg_queue (gs_gate t)) @ enqueued_ticket ev)
      ((hg_queue (gs_gate s) @ enqueued evs) @ enqueued_ticket ev)"
    by (rule list_emb_append_mono [OF trace_snoc.IH]) simp
  ultimately show ?case
    by (auto simp: admitted_def enqueued_def intro: subseq_order.trans)
qed

lemma gate_trace_moves: "gate_trace s evs t \<Longrightarrow> gate_moves\<^sup>*\<^sup>* s t"
  by (induction rule: gate_trace.induct) (auto simp: gate_moves_def intro: rtranclp.rtrancl_into_rtrancl)

subsection \<open>Properties\<close>

definition idle_system :: "nat \<Rightarrow> nat \<Rightarrow> gate_system" where
  "idle_system m c = \<lparr>gs_gate = gate_new m c, gs_permits = [], gs_issued = 0\<rparr>"

lemma idle_system_start: "gate_start (idle_system m c)"
  by (auto simp: gate_start_def idle_system_def)

text \<open>A run of three steps: one permit is taken, a second caller queues, the permit is dropped.\<close>

definition taken_system :: gate_system where
  "taken_system = (let s = idle_system 1 4; g = fst (try_acquire_many 1 (gs_gate s))
     in s\<lparr>gs_gate := g, gs_permits := [1]\<rparr>)"

definition queued_system :: gate_system where
  "queued_system = taken_system\<lparr>gs_gate := fst (acquire_begin False (gs_gate taken_system)),
     gs_issued := 1\<rparr>"

definition freed_system :: gate_system where
  "freed_system = queued_system\<lparr>gs_gate := drop_permit 1 (gs_gate queued_system), gs_permits := []\<rparr>"

lemmas gate_runs = idle_system_def taken_system_def queued_system_def freed_system_def gate_new_def

lemma sample_steps:
  "gate_step (idle_system 1 4) (Admit 1) taken_system"
  "gate_step taken_system (Enqueue 0) queued_system"
  "gate_step queued_system (Release 1) freed_system"
proof -
  show "gate_step (idle_system 1 4) (Admit 1) taken_system"
    using gate_step.many [of 1 "idle_system 1 4" "gs_gate taken_system" 1]
    by (simp add: gate_runs gate_ops)
  show "gate_step taken_system (Enqueue 0) queued_system"
    using gate_step.begin_wait [of False taken_system "gs_gate queued_system" 0]
    by (simp add: gate_runs gate_ops)
  show "gate_step queued_system (Release 1) freed_system"
    using gate_step.release [of 1 queued_system] by (simp add: gate_runs gate_ops)
qed

lemma sample_trace: "gate_trace (idle_system 1 4) [Admit 1, Enqueue 0, Release 1] freed_system"
proof -
  have "gate_trace (idle_system 1 4) ((([] @ [Admit 1]) @ [Enqueue 0]) @ [Release 1]) freed_system"
    by (rule gate_trace.intros sample_steps)+
  then show ?thesis by simp
qed

text \<open>
  C8: Whatever the threads do, the slots the helper gate counts as active are exactly those of the
  permits that are alive, never more than the limit, and the waiting queue never exceeds its
  capacity.
\<close>
theorem gate_slots_exact:
  assumes "gate_start s" "gate_moves\<^sup>*\<^sup>* s t"
  shows "hg_active (gs_gate t) = sum_list (gs_permits t) \<and>
    hg_active (gs_gate t) \<le> hg_max (gs_gate s) \<and>
    length (hg_queue (gs_gate t)) \<le> hg_capacity (gs_gate s)"
  using gate.reachable_inv [OF assms] gate.steps_frame [OF assms(2)] by (simp add: gate_inv_def)

lemma gate_slots_exact_witness: "hg_active (gs_gate freed_system) = sum_list (gs_permits freed_system)"
  using gate_slots_exact [OF idle_system_start gate_trace_moves [OF sample_trace]] by blast

text \<open>
  C5: Admission is first in, first out: along every run from an empty gate the tickets that are
  admitted form a subsequence of the tickets in the order they were issued, and nobody is admitted
  without a ticket while a ticket waits.
\<close>
theorem gate_fifo:
  assumes "gate_start s" "gate_trace s evs t"
  shows "subseq (admitted evs) (enqueued evs) \<and>
    (\<forall>n u. gate_step t (Admit n) u \<longrightarrow> hg_queue (gs_gate t) = [])"
proof -
  have "hg_queue (gs_gate s) = []" using assms(1) by (auto simp: gate_start_def gate_new_def)
  then have "subseq (admitted evs @ hg_queue (gs_gate t)) (enqueued evs)"
    using gate_trace_queue [OF assms(2)] by simp
  then have "subseq (admitted evs) (enqueued evs)"
    by (metis list_emb_appendD list_emb_prefix subseq_order.trans append_Nil2 subseq_order.refl
        list_emb_append2 prefix_imp_subseq prefixI)
  moreover have "hg_queue (gs_gate t) = []" if "gate_step t (Admit n) u" for n u
    using that by cases (auto simp: gate_ops split: if_splits)
  ultimately show ?thesis by blast
qed

lemma gate_fifo_witness: "subseq (admitted [Admit 1, Enqueue 0, Release 1]) (enqueued [Admit 1, Enqueue 0, Release 1])"
  using gate_fifo [OF idle_system_start sample_trace] by blast

text \<open>
  Tickets are distinct for the first \<open>2 ^ 64\<close> queued callers, so that leaving the queue removes
  the caller that leaves and no other.
\<close>
theorem gate_tickets_distinct:
  assumes "gate_start s" "gate_moves\<^sup>*\<^sup>* s t" "gs_issued t \<le> 2 ^ 64"
  shows "distinct (hg_queue (gs_gate t)) \<and>
    (\<forall>x. set (hg_queue (leave_queue x (gs_gate t))) = set (hg_queue (gs_gate t)) - {x})"
proof -
  have "distinct (hg_queue (gs_gate t))"
    using gate.reachable_inv [OF assms(1,2)] assms(3)
    by (auto simp: gate_inv_def intro: ticket_order_distinct)
  then show ?thesis by (simp add: leave_queue_def set_remove1_eq)
qed

lemma gate_tickets_distinct_witness: "distinct (hg_queue (gs_gate freed_system))"
proof -
  have "gs_issued freed_system \<le> 2 ^ 64" by (simp add: gate_runs Let_def)
  from gate_tickets_distinct [OF idle_system_start gate_trace_moves [OF sample_trace] this]
  show ?thesis by blast
qed

text \<open>
  No wake-up is lost: once every permit has been dropped, the caller at the head of the queue
  is admitted at its next round, even when its deadline has passed meanwhile.
\<close>
theorem gate_head_admitted:
  assumes "gate_start s" "gate_moves\<^sup>*\<^sup>* s t" "gs_permits t = []" "hg_queue (gs_gate t) = x # q"
  shows "snd (acquire_poll x False expired millis (gs_gate t)) = Done (Inr 1) \<and>
    hg_queue (fst (acquire_poll x False expired millis (gs_gate t))) = q"
  using gate.reachable_inv [OF assms(1,2)] assms(3,4) by (simp add: gate_inv_def gate_ops)

lemma gate_head_admitted_witness:
  "snd (acquire_poll 0 False True 7 (gs_gate freed_system)) = Done (Inr 1)"
proof -
  have "gs_permits freed_system = []" "hg_queue (gs_gate freed_system) = 0 # []"
    by (simp_all add: gate_runs gate_ops)
  from gate_head_admitted [OF idle_system_start gate_trace_moves [OF sample_trace] this]
  show ?thesis by blast
qed

text \<open>
  The job gate never runs more jobs than its limit: manual reservations and live permits
  together stay within it, and its counter is exact.
\<close>
theorem job_gate_cap:
  assumes "job_start s" "job_step\<^sup>*\<^sup>* s t"
  shows "job_in_use (fst t) = jg_manual (fst t) + snd t \<and> job_in_use (fst t) \<le> jg_max (fst s)"
  using job.reachable_inv [OF assms] job.steps_frame [OF assms(2)]
  by (auto simp: job_inv_def job_in_use_def saturating_add_def)

lemma job_gate_cap_witness:
  "job_in_use (fst (job_drop (fst (job_try_acquire (job_new 2))), 0 :: nat)) \<le> 2"
proof -
  have "job_step (job_new 2, 0) (fst (job_try_acquire (job_new 2)), Suc 0)"
    by (rule job_step.acquired) (simp add: job_new_def job_ops)
  moreover have "job_step (fst (job_try_acquire (job_new 2)), Suc 0)
      (job_drop (fst (job_try_acquire (job_new 2))), 0)"
    by (rule job_step.dropped)
  ultimately have "job_step\<^sup>*\<^sup>* (job_new 2, 0) (job_drop (fst (job_try_acquire (job_new 2))), 0)"
    by simp
  moreover have "job_start (job_new 2, 0)" by (auto simp: job_start_def usize_max_def u64_max_def intro!: exI [of _ 2])
  ultimately show ?thesis using job_gate_cap by (fastforce simp: job_new_def)
qed

end
