(* ===== verification/Event_Hub.thy ===== *)
theory Event_Hub
  imports Contracts Utf8
begin

text \<open>
  The GENA subscriber table (\<open>EventHub\<close> of \<open>crates/server/src/events.rs\<close>). Time is the clock
  reading in milliseconds that an operation is given; \<open>u32\<close> event keys are words, so that the
  wrap-around of the key is the machine's.
\<close>

definition MAX_SUBSCRIBERS :: nat where "MAX_SUBSCRIBERS = 500"
definition DEFAULT_TIMEOUT_SECS :: nat where "DEFAULT_TIMEOUT_SECS = 300"
definition MIN_TIMEOUT_SECS :: nat where "MIN_TIMEOUT_SECS = 30"
definition MAX_TIMEOUT_SECS :: nat where "MAX_TIMEOUT_SECS = 1800"
definition MAX_CONSECUTIVE_FAILURES :: nat where "MAX_CONSECUTIVE_FAILURES = 3"

datatype event_service = ContentDirEvents | ConnMgrEvents | RegistrarEvents

record subscriber =
  sub_sid :: string
  sub_callback :: string
  sub_service :: event_service
  sub_timeout :: nat
  sub_seq :: u32
  sub_created :: nat
  sub_failures :: nat

record notify_job =
  job_sid :: string
  job_callback :: string
  job_seq :: u32

type_synonym event_hub = "subscriber list"

subsection \<open>Operations\<close>

definition hub_alive :: "nat \<Rightarrow> subscriber \<Rightarrow> bool" where
  "hub_alive now s \<longleftrightarrow> (now - sub_created s) div 1000 < max (sub_timeout s) 1"

definition hub_gc :: "nat \<Rightarrow> event_hub \<Rightarrow> event_hub" where
  "hub_gc now hub = filter (hub_alive now) hub"

text \<open>\<open>find_mut\<close> with the update that its caller makes through the reference.\<close>

fun update_first :: "('a \<Rightarrow> bool) \<Rightarrow> ('a \<Rightarrow> 'a) \<Rightarrow> 'a list \<Rightarrow> 'a list option" where
  "update_first P f [] = None"
| "update_first P f (x # xs) =
     (if P x then Some (f x # xs) else map_option (Cons x) (update_first P f xs))"

definition subscribe_new ::
  "nat \<Rightarrow> string \<Rightarrow> string \<Rightarrow> event_service \<Rightarrow> nat \<Rightarrow> event_hub \<Rightarrow> event_hub \<times> (nat + notify_job)" where
  "subscribe_new now sid callback service timeout_secs hub0 =
     (let hub = hub_gc now hub0
      in if length hub \<ge> MAX_SUBSCRIBERS then (hub, Inl 412)
         else
           (hub @ [\<lparr>sub_sid = sid, sub_callback = callback, sub_service = service,
              sub_timeout = timeout_secs, sub_seq = 1, sub_created = now, sub_failures = 0\<rparr>],
            Inr \<lparr>job_sid = sid, job_callback = callback, job_seq = 0\<rparr>))"

definition hub_renew :: "nat \<Rightarrow> string \<Rightarrow> nat \<Rightarrow> event_hub \<Rightarrow> event_hub \<times> (nat + nat)" where
  "hub_renew now sid timeout_secs hub0 =
     (let hub = hub_gc now hub0
      in case update_first (\<lambda>s. sub_sid s = trim sid)
                (\<lambda>s. s\<lparr>sub_timeout := timeout_secs, sub_created := now\<rparr>) hub of
           None \<Rightarrow> (hub, Inl 412)
         | Some hub' \<Rightarrow> (hub', Inr timeout_secs))"

definition hub_unsubscribe :: "nat \<Rightarrow> string \<Rightarrow> event_hub \<Rightarrow> event_hub \<times> (nat + unit)" where
  "hub_unsubscribe now sid hub0 =
     (let hub = hub_gc now hub0; hub' = filter (\<lambda>s. sub_sid s \<noteq> trim sid) hub
      in (hub', if length hub' = length hub then Inl 412 else Inr ()))"

definition next_seq :: "u32 \<Rightarrow> u32" where
  "next_seq seq = (let s = seq + 1 in if s = 0 then 1 else s)"

definition job_of :: "subscriber \<Rightarrow> notify_job" where
  "job_of s = \<lparr>job_sid = sub_sid s, job_callback = sub_callback s, job_seq = sub_seq s\<rparr>"

definition advance_seq :: "subscriber \<Rightarrow> subscriber" where
  "advance_seq s =
     (if sub_service s \<noteq> ContentDirEvents then s else s\<lparr>sub_seq := next_seq (sub_seq s)\<rparr>)"

definition take_content_dir_notifies :: "nat \<Rightarrow> event_hub \<Rightarrow> event_hub \<times> notify_job list" where
  "take_content_dir_notifies now hub0 =
     (let hub = hub_gc now hub0
      in (map advance_seq hub, map job_of (filter (\<lambda>s. sub_service s = ContentDirEvents) hub)))"

text \<open>The \<open>u8\<close> failure count saturates at 255.\<close>

definition record_delivery :: "string \<Rightarrow> bool \<Rightarrow> event_hub \<Rightarrow> event_hub" where
  "record_delivery sid delivered hub =
     (case List.find (\<lambda>s. sub_sid s = trim sid) hub of
        None \<Rightarrow> hub
      | Some sub \<Rightarrow>
          let failures = (if delivered then 0 else saturating_add 255 (sub_failures sub) 1);
              hub' = the (update_first (\<lambda>s. sub_sid s = trim sid)
                       (\<lambda>s. s\<lparr>sub_failures := failures\<rparr>) hub)
          in if \<not> delivered \<and> failures \<ge> MAX_CONSECUTIVE_FAILURES
             then filter (\<lambda>s. sub_sid s \<noteq> sid) hub'
             else hub')"

definition hub_len :: "nat \<Rightarrow> event_hub \<Rightarrow> event_hub \<times> nat" where
  "hub_len now hub0 = (let hub = hub_gc now hub0 in (hub, length hub))"

text \<open>The first notification is admitted to the queue under the same lock, or undone.\<close>

definition subscribe_and_admit_initial ::
  "nat \<Rightarrow> string \<Rightarrow> string \<Rightarrow> event_service \<Rightarrow> nat \<Rightarrow> (notify_job \<Rightarrow> bool) \<Rightarrow> event_hub
    \<Rightarrow> event_hub \<times> (nat + unit)" where
  "subscribe_and_admit_initial now sid callback service timeout_secs admit hub0 =
     (case subscribe_new now sid callback service timeout_secs hub0 of
        (hub, Inl e) \<Rightarrow> (hub, Inl e)
      | (hub, Inr job) \<Rightarrow>
          if admit job then (hub, Inr ())
          else (fst (hub_unsubscribe now sid hub), Inl 503))"

lemmas hub_ops = subscribe_new_def hub_renew_def hub_unsubscribe_def take_content_dir_notifies_def
  record_delivery_def hub_len_def hub_gc_def Let_def

subsection \<open>Invariant\<close>

inductive hub_step :: "event_hub \<Rightarrow> event_hub \<Rightarrow> bool" where
  hub_subscribe: "hub_step hub (fst (subscribe_new now sid cb svc t hub))"
| hub_renewed: "hub_step hub (fst (hub_renew now sid t hub))"
| hub_unsubscribed: "hub_step hub (fst (hub_unsubscribe now sid hub))"
| hub_taken: "hub_step hub (fst (take_content_dir_notifies now hub))"
| hub_recorded: "trim sid = sid \<Longrightarrow> hub_step hub (record_delivery sid d hub)"
| hub_counted: "hub_step hub (fst (hub_len now hub))"

inductive_cases hub_stepE: "hub_step hub hub'"

definition sub_ok :: "subscriber \<Rightarrow> bool" where
  "sub_ok s \<longleftrightarrow> sub_seq s \<noteq> 0 \<and> sub_failures s < MAX_CONSECUTIVE_FAILURES"

definition hub_inv :: "event_hub \<Rightarrow> bool" where
  "hub_inv hub \<longleftrightarrow> length hub \<le> MAX_SUBSCRIBERS \<and> (\<forall>s \<in> set hub. sub_ok s)"

lemma next_seq_ne0: "next_seq s \<noteq> 0"
  by (simp add: next_seq_def Let_def)

lemma update_first_None: "update_first P f xs = None \<longleftrightarrow> (\<forall>x \<in> set xs. \<not> P x)"
  by (induction xs) auto

lemma update_first_length: "update_first P f xs = Some ys \<Longrightarrow> length ys = length xs"
  by (induction xs arbitrary: ys) (auto split: if_splits)

lemma update_first_set:
  "update_first P f xs = Some ys \<Longrightarrow> y \<in> set ys \<Longrightarrow> y \<in> set xs \<or> (\<exists>x \<in> set xs. P x \<and> y = f x)"
  by (induction xs arbitrary: ys) (auto split: if_splits)

lemma hub_inv_filter: "hub_inv hub \<Longrightarrow> hub_inv (filter P hub)"
  using order_trans [OF length_filter_le [of P hub]] by (auto simp: hub_inv_def)

lemma hub_inv_gc: "hub_inv hub \<Longrightarrow> hub_inv (hub_gc now hub)"
  by (simp add: hub_gc_def hub_inv_filter)

lemma hub_inv_update:
  assumes "hub_inv hub" "update_first P f hub = Some hub'" "\<And>s. sub_ok s \<Longrightarrow> sub_ok (f s)"
  shows "hub_inv hub'"
  using assms update_first_length [OF assms(2)] update_first_set [OF assms(2)]
  by (fastforce simp: hub_inv_def)

lemma hub_inv_subscribe: "hub_inv hub \<Longrightarrow> hub_inv (fst (subscribe_new now sid cb svc t hub))"
  using hub_inv_gc [of hub now]
  by (auto simp: subscribe_new_def Let_def hub_inv_def sub_ok_def MAX_CONSECUTIVE_FAILURES_def)

lemma hub_inv_renew: "hub_inv hub \<Longrightarrow> hub_inv (fst (hub_renew now sid t hub))"
proof -
  assume "hub_inv hub"
  then have gc: "hub_inv (hub_gc now hub)" by (rule hub_inv_gc)
  show ?thesis
  proof (cases "update_first (\<lambda>s. sub_sid s = trim sid)
      (\<lambda>s. s\<lparr>sub_timeout := t, sub_created := now\<rparr>) (hub_gc now hub)")
    case (Some hub')
    have "hub_inv hub'" by (rule hub_inv_update [OF gc Some]) (simp add: sub_ok_def)
    with Some show ?thesis by (simp add: hub_renew_def Let_def)
  qed (simp add: hub_renew_def Let_def gc)
qed

lemma find_update_first:
  "List.find P xs = Some x \<Longrightarrow> \<exists>pre post. xs = pre @ x # post \<and> (\<forall>y \<in> set pre. \<not> P y) \<and> P x \<and>
     update_first P f xs = Some (pre @ f x # post)"
proof (induction xs)
  case (Cons y ys)
  show ?case
  proof (cases "P y")
    case True
    with Cons.prems show ?thesis by (intro exI [of _ "[]"] exI [of _ ys]) auto
  next
    case False
    with Cons obtain pre post where "ys = pre @ x # post" "\<forall>y \<in> set pre. \<not> P y" "P x"
      "update_first P f ys = Some (pre @ f x # post)" by auto
    with False show ?thesis by (intro exI [of _ "y # pre"] exI [of _ post]) auto
  qed
qed simp

lemma hub_inv_record:
  assumes "hub_inv hub" "trim sid = sid"
  shows "hub_inv (record_delivery sid d hub)"
proof (cases "List.find (\<lambda>s. sub_sid s = trim sid) hub")
  case None
  then show ?thesis using assms(1) by (simp add: record_delivery_def)
next
  case (Some x)
  let ?n = "if d then 0 else saturating_add 255 (sub_failures x) 1"
  let ?x = "x\<lparr>sub_failures := ?n\<rparr>"
  from find_update_first [OF Some, of "\<lambda>s. s\<lparr>sub_failures := ?n\<rparr>"] obtain pre post where
    h: "hub = pre @ x # post" "sub_sid x = trim sid"
      "update_first (\<lambda>s. sub_sid s = trim sid) (\<lambda>s. s\<lparr>sub_failures := ?n\<rparr>) hub = Some (pre @ ?x # post)"
    by auto
  have rest: "hub_inv (pre @ post)" "Suc (length (pre @ post)) \<le> MAX_SUBSCRIBERS" "sub_seq x \<noteq> 0"
    using assms(1) h(1) by (auto simp: hub_inv_def sub_ok_def)
  show ?thesis
  proof (cases "\<not> d \<and> ?n \<ge> MAX_CONSECUTIVE_FAILURES")
    case True
    then have n: "\<not> d" "MAX_CONSECUTIVE_FAILURES \<le> saturating_add 255 (sub_failures x) 1"
      by (auto split: if_splits)
    then have "record_delivery sid d hub = filter (\<lambda>s. sub_sid s \<noteq> sid) (pre @ post)"
      using Some h assms(2) by (simp add: record_delivery_def Let_def)
    with hub_inv_filter [OF rest(1)] show ?thesis by simp
  next
    case False
    then have "record_delivery sid d hub = pre @ ?x # post"
      using Some h by (auto simp: record_delivery_def Let_def)
    moreover have "sub_ok ?x"
      using False rest(3) by (auto simp: sub_ok_def MAX_CONSECUTIVE_FAILURES_def)
    ultimately show ?thesis using rest by (auto simp: hub_inv_def)
  qed
qed

interpretation hub: step_invariant hub_step "\<lambda>hub. hub = []" hub_inv
proof unfold_locales
  show "hub_step s t \<Longrightarrow> hub_inv s \<Longrightarrow> hub_inv t" for s t
  proof (induction rule: hub_step.induct)
    case (hub_taken hub now)
    then show ?case using hub_inv_gc [of hub now]
      by (auto simp: take_content_dir_notifies_def Let_def hub_inv_def advance_seq_def sub_ok_def
          next_seq_ne0)
  qed (auto simp: hub_inv_subscribe hub_inv_renew hub_inv_record hub_unsubscribe_def hub_len_def
        Let_def hub_inv_filter hub_inv_gc)
qed (simp add: hub_inv_def)

subsection \<open>Properties\<close>

lemma subscribe_new_ok:
  "length (hub_gc now hub) < MAX_SUBSCRIBERS \<Longrightarrow> subscribe_new now sid cb svc t hub =
    (hub_gc now hub @ [\<lparr>sub_sid = sid, sub_callback = cb, sub_service = svc, sub_timeout = t,
        sub_seq = 1, sub_created = now, sub_failures = 0\<rparr>],
     Inr \<lparr>job_sid = sid, job_callback = cb, job_seq = 0\<rparr>)"
  by (simp add: subscribe_new_def Let_def)

text \<open>A table with one subscriber, for the witnesses.\<close>

definition sample_subscriber :: subscriber where
  "sample_subscriber = \<lparr>sub_sid = ''uuid:1'', sub_callback = ''http://10.0.0.3/e'',
     sub_service = ContentDirEvents, sub_timeout = 300, sub_seq = 1, sub_created = 5000, sub_failures = 0\<rparr>"

definition sample_hub :: event_hub where
  "sample_hub = fst (subscribe_new 5000 ''uuid:1'' ''http://10.0.0.3/e'' ContentDirEvents 300 [])"

lemma sample_hub_eq: "sample_hub = [sample_subscriber]"
  by (simp add: sample_hub_def sample_subscriber_def subscribe_new_def hub_gc_def MAX_SUBSCRIBERS_def)

lemma sample_sid_trim: "trim ''uuid:1'' = ''uuid:1''"
  by (rule trim_id) (simp add: graphic_def)

text \<open>
  The subscriber table never holds more than 500 subscriptions, no subscriber has reached three
  consecutive failed deliveries, and the next event key of a subscriber is never the initial key 0.
\<close>
theorem hub_bounded:
  assumes "hub_step\<^sup>*\<^sup>* [] hub"
  shows "length hub \<le> 500 \<and> (\<forall>s \<in> set hub. sub_seq s \<noteq> 0 \<and> sub_failures s < 3)"
  using hub.reachable_inv [OF refl assms]
  by (simp add: hub_inv_def sub_ok_def MAX_SUBSCRIBERS_def MAX_CONSECUTIVE_FAILURES_def)

lemma hub_bounded_witness: "length sample_hub \<le> 500"
proof -
  have "hub_step\<^sup>*\<^sup>* [] sample_hub"
    unfolding sample_hub_def by (rule r_into_rtranclp) (rule hub_subscribe)
  from hub_bounded [OF this] show ?thesis by blast
qed

lemma next_seq_iterate: "(next_seq ^^ n) 1 = of_nat (n mod (2 ^ 32 - 1)) + 1"
proof (induction n)
  case (Suc n)
  let ?m = "n mod (2 ^ 32 - 1)"
  have less: "?m < 2 ^ 32 - 1" by simp
  show ?case
  proof (cases "Suc ?m = 2 ^ 32 - 1")
    case True
    then have "?m = 4294967294" by simp
    moreover from True have "Suc n mod (2 ^ 32 - 1) = 0" by (simp add: mod_Suc)
    ultimately show ?thesis using Suc by (simp add: next_seq_def)
  next
    case False
    then have step: "Suc n mod (2 ^ 32 - 1) = Suc ?m" by (simp add: mod_Suc)
    have "?m + 2 < 2 ^ 32" using less False by simp
    then have "unat (of_nat (?m + 2) :: u32) = ?m + 2" by (rule unat_of_nat_u32)
    then have "(of_nat (?m + 2) :: u32) \<noteq> 0" by (metis unat_0 add_2_eq_Suc' nat.distinct(1))
    then have "(of_nat ?m :: u32) + 1 + 1 \<noteq> 0" by (simp add: add.assoc add.commute)
    with Suc step show ?thesis by (simp add: next_seq_def Let_def)
  qed
qed simp

lemma advance_iterate:
  "sub_service s = ContentDirEvents \<Longrightarrow> (advance_seq ^^ n) s = s\<lparr>sub_seq := (next_seq ^^ n) (sub_seq s)\<rparr>"
  by (induction n) (simp_all add: advance_seq_def)

text \<open>
  Event keys follow GENA: the initial notification carries key 0 and the n-th content update of
  the subscription carries 1, 2, 3, ... and, after 4294967295, 1 again; key 0 never comes back.
\<close>
theorem event_keys:
  assumes "subscribe_new now sid cb ContentDirEvents t hub0 = (hub, Inr job)"
  shows "job_seq job = 0 \<and> job_seq (job_of ((advance_seq ^^ n) (last hub))) =
    of_nat (n mod (2 ^ 32 - 1)) + 1 \<and> job_seq (job_of ((advance_seq ^^ n) (last hub))) \<noteq> 0"
proof -
  have l: "sub_seq (last hub) = 1" "sub_service (last hub) = ContentDirEvents" "job_seq job = 0"
    using assms by (auto simp: subscribe_new_def Let_def split: if_splits)
  then have "sub_seq ((advance_seq ^^ n) (last hub)) = (next_seq ^^ n) 1"
    by (simp add: advance_iterate)
  moreover have "(next_seq ^^ n) 1 \<noteq> 0" by (cases n) (simp_all add: next_seq_ne0)
  ultimately show ?thesis using l(3) next_seq_iterate [of n] by (simp add: job_of_def)
qed

lemma event_keys_witness:
  "job_seq (job_of ((advance_seq ^^ 4294967296) (last sample_hub))) = 2"
proof -
  have "subscribe_new 5000 ''uuid:1'' ''http://10.0.0.3/e'' ContentDirEvents 300 [] =
      (sample_hub, Inr \<lparr>job_sid = ''uuid:1'', job_callback = ''http://10.0.0.3/e'', job_seq = 0\<rparr>)"
    by (simp add: sample_hub_def subscribe_new_def hub_gc_def MAX_SUBSCRIBERS_def)
  from event_keys [OF this, of 4294967296] show ?thesis by simp
qed

text \<open>
  A subscription survives up to two failed deliveries in a row and is removed by the third; a
  successful delivery starts the count again.
\<close>
theorem three_failures_remove:
  assumes "hub_inv hub" "trim sid = sid" "List.find (\<lambda>s. sub_sid s = sid) hub = Some x"
  shows "List.find (\<lambda>s. sub_sid s = sid) (record_delivery sid False hub) =
      (if sub_failures x = 2 then None else Some (x\<lparr>sub_failures := sub_failures x + 1\<rparr>))
    \<and> List.find (\<lambda>s. sub_sid s = sid) (record_delivery sid True hub) = Some (x\<lparr>sub_failures := 0\<rparr>)"
proof -
  let ?P = "\<lambda>s. sub_sid s = sid"
  have "sub_failures x < 3"
    using assms(1,3) by (auto simp: hub_inv_def sub_ok_def MAX_CONSECUTIVE_FAILURES_def find_Some_iff)
  then have sat: "saturating_add 255 (sub_failures x) 1 = sub_failures x + 1"
    by (simp add: saturating_add_def)
  have found: "List.find ?P (pre @ y # post) = Some y" if "\<forall>s \<in> set pre. \<not> ?P s" "?P y" for pre post y
    using that by (induction pre) auto
  have upd: "\<exists>pre post. hub = pre @ x # post \<and> (\<forall>s \<in> set pre. \<not> ?P s) \<and> ?P x \<and>
      update_first ?P f hub = Some (pre @ f x # post)" for f
    using find_update_first [OF assms(3)] by blast
  have f: "List.find ?P (record_delivery sid False hub) =
      (if sub_failures x = 2 then None else Some (x\<lparr>sub_failures := sub_failures x + 1\<rparr>))"
  proof -
    from upd [of "\<lambda>s. s\<lparr>sub_failures := sub_failures x + 1\<rparr>"] obtain pre post where
      "hub = pre @ x # post" and u: "\<forall>s \<in> set pre. \<not> ?P s" "?P x"
      "update_first ?P (\<lambda>s. s\<lparr>sub_failures := sub_failures x + 1\<rparr>) hub =
        Some (pre @ x\<lparr>sub_failures := sub_failures x + 1\<rparr> # post)" by blast
    show ?thesis
    proof (cases "sub_failures x = 2")
      case True
      then have "record_delivery sid False hub = filter (\<lambda>s. sub_sid s \<noteq> sid)
          (the (update_first ?P (\<lambda>s. s\<lparr>sub_failures := sub_failures x + 1\<rparr>) hub))"
        using assms(2,3) sat by (simp add: record_delivery_def Let_def MAX_CONSECUTIVE_FAILURES_def)
      then have "\<not> (\<exists>s \<in> set (record_delivery sid False hub). ?P s)" by simp
      with True show ?thesis by (simp add: find_None_iff)
    next
      case False
      with \<open>sub_failures x < 3\<close> have "record_delivery sid False hub =
          the (update_first ?P (\<lambda>s. s\<lparr>sub_failures := sub_failures x + 1\<rparr>) hub)"
        using assms(2,3) sat by (simp add: record_delivery_def Let_def MAX_CONSECUTIVE_FAILURES_def)
      with False u found [OF u(1), of "x\<lparr>sub_failures := sub_failures x + 1\<rparr>" post] show ?thesis by simp
    qed
  qed
  from upd [of "\<lambda>s. s\<lparr>sub_failures := 0\<rparr>"] obtain pre post where
    u: "\<forall>s \<in> set pre. \<not> ?P s" "?P x" "update_first ?P (\<lambda>s. s\<lparr>sub_failures := 0\<rparr>) hub =
        Some (pre @ x\<lparr>sub_failures := 0\<rparr> # post)" by blast
  have "record_delivery sid True hub = the (update_first ?P (\<lambda>s. s\<lparr>sub_failures := 0\<rparr>) hub)"
    using assms(2,3) by (simp add: record_delivery_def Let_def)
  with u found [OF u(1), of "x\<lparr>sub_failures := 0\<rparr>" post] f show ?thesis by simp
qed

lemma three_failures_remove_witness:
  "List.find (\<lambda>s. sub_sid s = ''uuid:1'') (record_delivery ''uuid:1'' False sample_hub) =
     Some (sample_subscriber\<lparr>sub_failures := 1\<rparr>)"
proof -
  have "hub_inv sample_hub" "List.find (\<lambda>s. sub_sid s = ''uuid:1'') sample_hub = Some sample_subscriber"
    by (simp_all add: sample_hub_eq sample_subscriber_def hub_inv_def sub_ok_def MAX_SUBSCRIBERS_def
        MAX_CONSECUTIVE_FAILURES_def)
  from three_failures_remove [OF this(1) sample_sid_trim this(2)] show ?thesis
    by (simp add: sample_subscriber_def)
qed

text \<open>
  Subscribing is all or nothing: when the first notification cannot be queued (503), or the
  table is full (412), nothing remains of the subscription; otherwise it is the new last entry.
\<close>
theorem subscribe_all_or_nothing:
  assumes "trim sid = sid" "subscribe_and_admit_initial now sid cb svc t admit hub0 = (hub, r)"
  shows "(r = Inr () \<longrightarrow> (\<exists>s. hub = hub_gc now hub0 @ [s] \<and> sub_sid s = sid)) \<and>
    (r \<noteq> Inr () \<longrightarrow> set hub \<subseteq> set hub0) \<and> (r = Inl 503 \<longrightarrow> sid \<notin> sub_sid ` set hub)"
proof (cases "length (hub_gc now hub0) < MAX_SUBSCRIBERS")
  case True
  let ?s = "\<lparr>sub_sid = sid, sub_callback = cb, sub_service = svc, sub_timeout = t,
        sub_seq = 1, sub_created = now, sub_failures = 0\<rparr>"
  let ?job = "\<lparr>job_sid = sid, job_callback = cb, job_seq = 0\<rparr>"
  have "(hub, r) = (if admit ?job then (hub_gc now hub0 @ [?s], Inr ())
      else (fst (hub_unsubscribe now sid (hub_gc now hub0 @ [?s])), Inl 503))"
    using assms(2) by (simp add: subscribe_and_admit_initial_def subscribe_new_ok [OF True])
  then show ?thesis
    using assms(1) by (auto simp: hub_unsubscribe_def hub_gc_def Let_def split: if_splits)
next
  case False
  then show ?thesis
    using assms(2)
    by (auto simp: subscribe_and_admit_initial_def subscribe_new_def Let_def hub_gc_def)
qed

lemma subscribe_all_or_nothing_witness:
  "''uuid:1'' \<notin> sub_sid ` set (fst (subscribe_and_admit_initial 5000 ''uuid:1'' ''http://10.0.0.3/e''
     ContentDirEvents 300 (\<lambda>_. False) []))"
proof -
  obtain hub r where s: "subscribe_and_admit_initial 5000 ''uuid:1'' ''http://10.0.0.3/e''
     ContentDirEvents 300 (\<lambda>_. False) [] = (hub, r)" by fastforce
  moreover have "r = Inl 503"
    using s by (auto simp: subscribe_and_admit_initial_def subscribe_new_def hub_gc_def
        MAX_SUBSCRIBERS_def split: prod.splits)
  ultimately show ?thesis using subscribe_all_or_nothing [OF sample_sid_trim s] by simp
qed

end
