(* ===== verification/Notify_Queue.thy ===== *)
theory Notify_Queue
  imports Event_Hub "HOL-Library.AList" "HOL-Library.List_Lexorder" "HOL-Library.Char_ord"
begin

text \<open>
  The coalescing notification queue (\<open>ContentDirUpdate\<close>, \<open>QueueState\<close> and the worker of
  \<open>crates/server/src/events.rs\<close>). A \<open>BTreeMap\<close> is its association list in key order, the
  \<open>HashMap\<close> of pending queues an association list with distinct keys, a \<open>HashSet\<close> a list without
  repetition, so that every operation computes.
\<close>

subsection \<open>Coalesced container updates\<close>

definition MAX_PENDING_CONTAINER_IDS :: nat where "MAX_PENDING_CONTAINER_IDS = 1024"
definition MAX_PENDING_CONTAINER_BYTES :: nat where "MAX_PENDING_CONTAINER_BYTES = 64 * 1024"

record content_update =
  cu_update_id :: u32
  cu_containers :: "(string \<times> u32) list"
  cu_bytes :: nat
  cu_resubscribe :: bool

fun btree_insert :: "string \<Rightarrow> 'v \<Rightarrow> (string \<times> 'v) list \<Rightarrow> (string \<times> 'v) list" where
  "btree_insert k v [] = [(k, v)]"
| "btree_insert k v ((k', v') # xs) =
     (if k = k' then (k, v) # xs
      else if k < k' then (k, v) # (k', v') # xs
      else (k', v') # btree_insert k v xs)"

definition give_up :: "content_update \<Rightarrow> content_update" where
  "give_up u = u\<lparr>cu_resubscribe := True, cu_containers := [], cu_bytes := 0\<rparr>"

definition cu_insert :: "string \<Rightarrow> u32 \<Rightarrow> content_update \<Rightarrow> content_update" where
  "cu_insert cid update_id u =
     (if cu_resubscribe u then u
      else if cid \<notin> fst ` set (cu_containers u) then
        (if length (cu_containers u) \<ge> MAX_PENDING_CONTAINER_IDS
            \<or> length cid > MAX_PENDING_CONTAINER_BYTES - cu_bytes u
         then give_up u
         else u\<lparr>cu_bytes := cu_bytes u + length cid,
                cu_containers := btree_insert cid update_id (cu_containers u)\<rparr>)
      else u\<lparr>cu_containers := btree_insert cid update_id (cu_containers u)\<rparr>)"

definition cu_new :: "u32 \<Rightarrow> string list \<Rightarrow> content_update" where
  "cu_new update_id ids =
     fold (\<lambda>cid. cu_insert cid update_id) ids
       \<lparr>cu_update_id = update_id, cu_containers = [], cu_bytes = 0, cu_resubscribe = False\<rparr>"

definition cu_merge :: "content_update \<Rightarrow> content_update \<Rightarrow> content_update" where
  "cu_merge u newer =
     (let u1 = u\<lparr>cu_update_id := cu_update_id newer\<rparr>;
          u2 = (if cu_resubscribe newer then give_up u1 else u1)
      in fold (\<lambda>(cid, update_id). cu_insert cid update_id) (cu_containers newer) u2)"

datatype notify_body = Snapshot string | ContentDirBody content_update

definition requires_resubscribe :: "notify_body \<Rightarrow> bool" where
  "requires_resubscribe b =
     (case b of Snapshot _ \<Rightarrow> False | ContentDirBody u \<Rightarrow> cu_resubscribe u)"

record queued_notify =
  qn_job :: notify_job
  qn_body :: notify_body

definition qn_merge :: "queued_notify \<Rightarrow> queued_notify \<Rightarrow> queued_notify" where
  "qn_merge q newer =
     \<lparr>qn_job = qn_job newer,
      qn_body = (case (qn_body q, qn_body newer) of
                   (ContentDirBody current, ContentDirBody new) \<Rightarrow> ContentDirBody (cu_merge current new)
                 | (_, new) \<Rightarrow> new)\<rparr>"

abbreviation qn_sid :: "queued_notify \<Rightarrow> string" where "qn_sid q \<equiv> job_sid (qn_job q)"
abbreviation qn_seq :: "queued_notify \<Rightarrow> u32" where "qn_seq q \<equiv> job_seq (qn_job q)"

subsection \<open>The queue\<close>

record queue_state =
  qs_pending :: "(string \<times> queued_notify list) list"
  qs_ready :: "string list"
  qs_in_flight :: "string list"
  qs_stopped :: bool

definition qs_new :: queue_state where
  "qs_new = \<lparr>qs_pending = [], qs_ready = [], qs_in_flight = [], qs_stopped = False\<rparr>"

text \<open>What enqueueing does to a subscriber's pending notifications.\<close>

definition coalesce :: "queued_notify \<Rightarrow> queued_notify list \<Rightarrow> queued_notify list" where
  "coalesce q p =
     (if qn_seq q = 0
      then (if p \<noteq> [] \<and> qn_seq (hd p) = 0 then q # tl p else q # p)
      else if p \<noteq> [] \<and> qn_seq (hd p) = 0
      then (if length p = 1 then p @ [q] else butlast p @ [qn_merge (last p) q])
      else (if p = [] then p else butlast p @ [qn_merge (last p) q]))"

definition qs_enqueue :: "queued_notify \<Rightarrow> nat \<Rightarrow> queue_state \<Rightarrow> queue_state \<times> bool" where
  "qs_enqueue q capacity s =
     (let sid = qn_sid q in
      if qs_stopped s then (s, False)
      else case map_of (qs_pending s) sid of
        Some p \<Rightarrow> (s\<lparr>qs_pending := AList.update sid (coalesce q p) (qs_pending s)\<rparr>, True)
      | None \<Rightarrow>
          if sid \<in> set (qs_in_flight s)
          then (s\<lparr>qs_pending := AList.update sid [q] (qs_pending s)\<rparr>, True)
          else
            let unique = length (qs_in_flight s)
                  + length (filter (\<lambda>k. k \<notin> set (qs_in_flight s)) (map fst (qs_pending s)))
            in if unique \<ge> capacity then (s, False)
               else (s\<lparr>qs_pending := AList.update sid [q] (qs_pending s),
                       qs_ready := qs_ready s @ [sid]\<rparr>, True))"

fun take_loop ::
  "string list \<Rightarrow> queue_state \<Rightarrow> queue_state \<times> queued_notify option" where
  "take_loop [] s = (s\<lparr>qs_ready := []\<rparr>, None)"
| "take_loop (sid # ready) s =
     (case map_of (qs_pending s) sid of
        None \<Rightarrow> take_loop ready s
      | Some [] \<Rightarrow> take_loop ready (s\<lparr>qs_pending := AList.delete sid (qs_pending s)\<rparr>)
      | Some (q # p) \<Rightarrow>
          (s\<lparr>qs_pending := (if p = [] then AList.delete sid (qs_pending s)
                            else AList.update sid p (qs_pending s)),
             qs_ready := ready,
             qs_in_flight := List.insert sid (qs_in_flight s)\<rparr>, Some q))"

definition qs_take :: "queue_state \<Rightarrow> queue_state \<times> queued_notify option" where
  "qs_take s = take_loop (qs_ready s) s"

definition qs_complete :: "string \<Rightarrow> queue_state \<Rightarrow> queue_state" where
  "qs_complete sid s =
     (let s1 = s\<lparr>qs_in_flight := removeAll sid (qs_in_flight s)\<rparr>
      in if map_of (qs_pending s1) sid \<noteq> None \<and> sid \<notin> set (qs_ready s1)
         then s1\<lparr>qs_ready := qs_ready s1 @ [sid]\<rparr> else s1)"

text \<open>The worker drops what is pending for a subscriber whose update overflowed.\<close>

definition qs_drop_pending :: "string \<Rightarrow> queue_state \<Rightarrow> queue_state" where
  "qs_drop_pending sid s =
     s\<lparr>qs_pending := AList.delete sid (qs_pending s), qs_ready := filter (\<lambda>r. r \<noteq> sid) (qs_ready s)\<rparr>"

definition qs_shutdown :: "queue_state \<Rightarrow> queue_state" where
  "qs_shutdown s = s\<lparr>qs_stopped := True, qs_pending := [], qs_ready := []\<rparr>"

subsection \<open>Dispatcher\<close>

record dispatcher =
  nd_queue :: queue_state
  nd_stopping :: bool
  nd_capacity :: nat
  nd_queued :: u64
  nd_dropped :: u64

definition enqueue_body :: "notify_job \<Rightarrow> notify_body \<Rightarrow> dispatcher \<Rightarrow> dispatcher \<times> bool" where
  "enqueue_body job body d =
     (if qs_stopped (nd_queue d) \<or> nd_stopping d
      then (d\<lparr>nd_dropped := nd_dropped d + 1\<rparr>, False)
      else
        let (q, accepted) = qs_enqueue \<lparr>qn_job = job, qn_body = body\<rparr> (nd_capacity d) (nd_queue d)
        in if accepted then (d\<lparr>nd_queue := q, nd_queued := nd_queued d + 1\<rparr>, True)
           else (d\<lparr>nd_queue := q, nd_dropped := nd_dropped d + 1\<rparr>, False))"

definition begin_shutdown :: "dispatcher \<Rightarrow> dispatcher" where
  "begin_shutdown d = d\<lparr>nd_stopping := True, nd_queue := qs_shutdown (nd_queue d)\<rparr>"

text \<open>Admission of a content update to every subscriber, in the order of the table.\<close>

fun admit_jobs :: "notify_job list \<Rightarrow> notify_body \<Rightarrow> dispatcher \<Rightarrow> dispatcher" where
  "admit_jobs [] body d = d"
| "admit_jobs (job # jobs) body d = admit_jobs jobs body (fst (enqueue_body job body d))"

definition notify_content_dir_containers ::
  "nat \<Rightarrow> u32 \<Rightarrow> string list \<Rightarrow> event_hub \<times> dispatcher \<Rightarrow> event_hub \<times> dispatcher" where
  "notify_content_dir_containers now update_id ids = (\<lambda>(hub, d).
     let (hub', jobs) = take_content_dir_notifies now hub
     in (hub', admit_jobs jobs (ContentDirBody (cu_new update_id ids)) d))"

subsection \<open>Worker\<close>

datatype delivery_outcome = Delivered | RetryableFailure | PermanentFailure

text \<open>
  The three attempts of one notification, given what each attempt would return. The result is
  whether it was delivered and how many retries were counted.
\<close>

fun delivery_attempts :: "nat \<Rightarrow> delivery_outcome list \<Rightarrow> bool \<times> nat" where
  "delivery_attempts n [] = (False, 0)"
| "delivery_attempts n (r # rs) =
     (case r of
        Delivered \<Rightarrow> (True, 0)
      | PermanentFailure \<Rightarrow> (False, 0)
      | RetryableFailure \<Rightarrow>
          let (d, k) = delivery_attempts (Suc n) rs in (d, (if n < 2 then 1 else 0) + k))"

text \<open>What the worker does after taking \<open>q\<close>, when the dispatcher is not stopping.\<close>

definition worker_finish ::
  "nat \<Rightarrow> queued_notify \<Rightarrow> delivery_outcome list \<Rightarrow> event_hub \<times> queue_state \<Rightarrow> event_hub \<times> queue_state" where
  "worker_finish now q outcomes = (\<lambda>(hub, s).
     let (hub1, s1) =
           (if requires_resubscribe (qn_body q)
            then (fst (hub_unsubscribe now (qn_sid q) hub), qs_drop_pending (qn_sid q) s)
            else (hub, s));
         delivered = fst (delivery_attempts 0 (take 3 outcomes))
     in (record_delivery (qn_sid q) delivered hub1, qs_complete (qn_sid q) s1))"

subsection \<open>Bounded updates\<close>

definition key_bytes :: "(string \<times> 'v) list \<Rightarrow> nat" where
  "key_bytes xs = sum_list (map (length \<circ> fst) xs)"

definition cu_inv :: "content_update \<Rightarrow> bool" where
  "cu_inv u \<longleftrightarrow>
     sorted_wrt (<) (map fst (cu_containers u)) \<and>
     length (cu_containers u) \<le> MAX_PENDING_CONTAINER_IDS \<and>
     cu_bytes u = key_bytes (cu_containers u) \<and> cu_bytes u \<le> MAX_PENDING_CONTAINER_BYTES \<and>
     (cu_resubscribe u \<longrightarrow> cu_containers u = [])"

lemma fst_btree_insert: "fst ` set (btree_insert k v xs) = insert k (fst ` set xs)"
  by (induction k v xs rule: btree_insert.induct) auto

lemma sorted_btree_insert:
  "sorted_wrt (<) (map fst xs) \<Longrightarrow> sorted_wrt (<) (map fst (btree_insert k v xs))"
proof (induction k v xs rule: btree_insert.induct)
  case (2 k v k' v' xs)
  have "y \<in> fst ` set (btree_insert k v xs) \<Longrightarrow> y = k \<or> y \<in> fst ` set xs" for y
    by (simp add: fst_btree_insert)
  with 2 show ?case by (force dest: not_less_iff_gr_or_eq [THEN iffD1])
qed simp

lemma btree_insert_size:
  "sorted_wrt (<) (map fst xs) \<Longrightarrow>
     length (btree_insert k v xs) = (if k \<in> fst ` set xs then length xs else Suc (length xs)) \<and>
     key_bytes (btree_insert k v xs) = (if k \<in> fst ` set xs then key_bytes xs else key_bytes xs + length k)"
  by (induction k v xs rule: btree_insert.induct) (auto simp: key_bytes_def)

lemma map_of_btree_insert:
  "sorted_wrt (<) (map fst xs) \<Longrightarrow> map_of (btree_insert k v xs) = (map_of xs)(k \<mapsto> v)"
proof (induction k v xs rule: btree_insert.induct)
  case (2 k v k' v' xs)
  then show ?case by (auto simp: fun_eq_iff)
qed auto

lemma cu_inv_give_up: "cu_inv (give_up u)"
  by (simp add: cu_inv_def give_up_def key_bytes_def)

lemma cu_inv_insert: "cu_inv u \<Longrightarrow> cu_inv (cu_insert k i u)"
  using cu_inv_give_up [of u] sorted_btree_insert [of "cu_containers u" k i]
    btree_insert_size [of "cu_containers u" k i]
  by (auto simp: cu_insert_def cu_inv_def not_le not_less)

lemma cu_inv_fold: "cu_inv u \<Longrightarrow> cu_inv (fold (\<lambda>(k, i). cu_insert k i) xs u)"
  by (induction xs arbitrary: u) (auto simp: cu_inv_insert)

lemma cu_inv_empty:
  "cu_inv \<lparr>cu_update_id = i, cu_containers = [], cu_bytes = 0, cu_resubscribe = False\<rparr>"
  by (simp add: cu_inv_def key_bytes_def)

lemma cu_inv_update_id: "cu_inv (u\<lparr>cu_update_id := i\<rparr>) = cu_inv u"
  by (simp add: cu_inv_def)

lemma cu_inv_new: "cu_inv (cu_new i ks)"
proof -
  have "cu_inv u \<Longrightarrow> cu_inv (fold (\<lambda>k. cu_insert k i) ks u)" for u
    by (induction ks arbitrary: u) (auto simp: cu_inv_insert)
  then show ?thesis unfolding cu_new_def using cu_inv_empty by blast
qed

lemma cu_inv_merge: "cu_inv u \<Longrightarrow> cu_inv (cu_merge u newer)"
  unfolding cu_merge_def Let_def
  by (rule cu_inv_fold) (simp add: cu_inv_give_up cu_inv_update_id)

lemma cu_insert_lookup:
  "cu_inv u \<Longrightarrow> \<not> cu_resubscribe (cu_insert k i u) \<Longrightarrow>
     \<not> cu_resubscribe u \<and> map_of (cu_containers (cu_insert k i u)) = (map_of (cu_containers u))(k \<mapsto> i)"
  by (auto simp: cu_insert_def cu_inv_def give_up_def map_of_btree_insert split: if_splits)

lemma cu_fold_lookup:
  "cu_inv u \<Longrightarrow> \<not> cu_resubscribe (fold (\<lambda>(k, i). cu_insert k i) xs u) \<Longrightarrow>
     \<not> cu_resubscribe u \<and>
     map_of (cu_containers (fold (\<lambda>(k, i). cu_insert k i) xs u)) = (map_of (cu_containers u)) ++ map_of (rev xs)"
proof (induction xs arbitrary: u)
  case (Cons x xs)
  obtain k i where x: "x = (k, i)" by fastforce
  with Cons.IH [of "cu_insert k i u"] Cons.prems cu_inv_insert cu_insert_lookup [of u k i]
  show ?case by (auto simp: map_add_def fun_eq_iff split: option.splits)
qed simp

lemma cu_merge_lookup:
  assumes "cu_inv u" "cu_inv newer" "\<not> cu_resubscribe (cu_merge u newer)"
  shows "map_of (cu_containers (cu_merge u newer)) = map_of (cu_containers u) ++ map_of (cu_containers newer)"
proof -
  let ?u1 = "u\<lparr>cu_update_id := cu_update_id newer\<rparr>"
  let ?u2 = "if cu_resubscribe newer then give_up ?u1 else ?u1"
  have inv: "cu_inv ?u2" using assms(1) by (simp add: cu_inv_give_up cu_inv_update_id)
  have "\<not> cu_resubscribe ?u2 \<and> map_of (cu_containers (cu_merge u newer)) =
      map_of (cu_containers ?u2) ++ map_of (rev (cu_containers newer))"
    using cu_fold_lookup [OF inv, of "cu_containers newer"] assms(3) by (simp add: cu_merge_def Let_def)
  moreover have "distinct (map fst (cu_containers newer))"
    using assms(2) by (auto simp: cu_inv_def strict_sorted_iff)
  then have "map_of (rev (cu_containers newer)) = map_of (cu_containers newer)"
    by (intro map_of_eqI) (auto simp: rev_map [symmetric] map_of_eq_Some_iff image_iff
        dest!: map_of_SomeD intro!: map_of_is_SomeI)
  ultimately show ?thesis by (auto simp: give_up_def split: if_splits)
qed

subsection \<open>The queue invariant\<close>

inductive queue_step :: "nat \<Rightarrow> queue_state \<Rightarrow> queue_state \<Rightarrow> bool" for capacity where
  q_enqueue: "queue_step capacity s (fst (qs_enqueue q capacity s))"
| q_take: "queue_step capacity s (fst (qs_take s))"
| q_complete: "queue_step capacity s (qs_complete sid s)"
| q_drop: "queue_step capacity s (qs_drop_pending sid s)"
| q_shutdown: "queue_step capacity s (qs_shutdown s)"

inductive_cases queue_stepE: "queue_step capacity s t"

text \<open>At most two notifications wait for one subscriber, and of two the first is the initial one.\<close>

definition pending_ok :: "string \<Rightarrow> queued_notify list \<Rightarrow> bool" where
  "pending_ok sid p \<longleftrightarrow>
     (\<forall>q \<in> set p. qn_sid q = sid) \<and>
     ((\<exists>q. p = [q]) \<or> (\<exists>q r. p = [q, r] \<and> qn_seq q = 0 \<and> qn_seq r \<noteq> 0))"

definition qs_inv :: "nat \<Rightarrow> queue_state \<Rightarrow> bool" where
  "qs_inv capacity s \<longleftrightarrow>
     distinct (map fst (qs_pending s)) \<and> distinct (qs_ready s) \<and> distinct (qs_in_flight s) \<and>
     set (qs_ready s) = dom (map_of (qs_pending s)) - set (qs_in_flight s) \<and>
     card (set (qs_in_flight s) \<union> dom (map_of (qs_pending s))) \<le> capacity \<and>
     (\<forall>sid p. map_of (qs_pending s) sid = Some p \<longrightarrow> pending_ok sid p)"

lemma pending_ok_single: "qn_sid q = sid \<Longrightarrow> pending_ok sid [q]"
  by (simp add: pending_ok_def)

lemma qn_merge_job [simp]: "qn_job (qn_merge q r) = qn_job r"
  by (simp add: qn_merge_def)

lemma pending_ok_coalesce: "pending_ok sid p \<Longrightarrow> qn_sid q = sid \<Longrightarrow> pending_ok sid (coalesce q p)"
proof -
  assume p: "pending_ok sid p" and q: "qn_sid q = sid"
  have all: "\<forall>x \<in> set p. qn_sid x = sid"
    and shape: "(\<exists>a. p = [a]) \<or> (\<exists>a b. p = [a, b] \<and> qn_seq a = 0 \<and> qn_seq b \<noteq> 0)"
    using p unfolding pending_ok_def by blast+
  from shape show ?thesis
  proof (elim disjE exE conjE)
    fix a assume "p = [a]"
    with all q show ?thesis
      by (cases "qn_seq q = 0"; cases "qn_seq a = 0") (simp_all add: pending_ok_def coalesce_def)
  next
    fix a b assume "p = [a, b]" "qn_seq a = 0" "qn_seq b \<noteq> 0"
    with all q show ?thesis
      by (cases "qn_seq q = 0") (simp_all add: pending_ok_def coalesce_def)
  qed
qed

lemma unique_count:
  assumes "distinct fl" "distinct (map fst ps)"
  shows "length fl + length (filter (\<lambda>k. k \<notin> set fl) (map fst ps)) = card (set fl \<union> dom (map_of ps))"
proof -
  have "length (filter (\<lambda>k. k \<notin> set fl) (map fst ps)) = card (dom (map_of ps) - set fl)"
    using distinct_card [OF distinct_filter [OF assms(2), of "\<lambda>k. k \<notin> set fl"]]
    by (simp add: dom_map_of_conv_image_fst set_diff_eq)
  moreover have "card (set fl \<union> (dom (map_of ps) - set fl)) = card (set fl) + card (dom (map_of ps) - set fl)"
    by (rule card_Un_disjoint) (auto simp: finite_dom_map_of)
  ultimately show ?thesis using assms(1) by (simp add: distinct_card)
qed

lemma qs_inv_new: "qs_inv capacity qs_new"
  by (simp add: qs_inv_def qs_new_def)

lemma qs_inv_enqueue:
  assumes "qs_inv capacity s"
  shows "qs_inv capacity (fst (qs_enqueue q capacity s))"
proof -
  let ?sid = "qn_sid q"
  consider "qs_stopped s" | p where "\<not> qs_stopped s" "map_of (qs_pending s) ?sid = Some p"
    | "\<not> qs_stopped s" "map_of (qs_pending s) ?sid = None" "?sid \<in> set (qs_in_flight s)"
    | "\<not> qs_stopped s" "map_of (qs_pending s) ?sid = None" "?sid \<notin> set (qs_in_flight s)" by fastforce
  then show ?thesis
  proof cases
    case 1
    then show ?thesis using assms by (simp add: qs_enqueue_def)
  next
    case 2
    then have d: "insert ?sid (dom (map_of (qs_pending s))) = dom (map_of (qs_pending s))" by auto
    have "pending_ok ?sid (coalesce q p)"
      using assms 2 by (auto simp: qs_inv_def intro: pending_ok_coalesce)
    with assms 2 d show ?thesis
      by (auto simp: qs_enqueue_def qs_inv_def update_conv' distinct_update)
  next
    case 3
    then have "set (qs_in_flight s) \<union> insert ?sid (dom (map_of (qs_pending s))) =
        set (qs_in_flight s) \<union> dom (map_of (qs_pending s))" by auto
    with assms 3 show ?thesis
      by (auto simp: qs_enqueue_def qs_inv_def update_conv' distinct_update pending_ok_single)
  next
    case 4
    let ?D = "set (qs_in_flight s) \<union> dom (map_of (qs_pending s))"
    have u: "length (qs_in_flight s) + length (filter (\<lambda>k. k \<notin> set (qs_in_flight s)) (map fst (qs_pending s))) =
        card ?D"
      using assms by (intro unique_count) (auto simp: qs_inv_def)
    show ?thesis
    proof (cases "card ?D \<ge> capacity")
      case True
      then show ?thesis using assms 4 u by (simp add: qs_enqueue_def Let_def)
    next
      case False
      have eq: "fst (qs_enqueue q capacity s) = s\<lparr>qs_pending := AList.update ?sid [q] (qs_pending s),
          qs_ready := qs_ready s @ [?sid]\<rparr>"
        using False 4 u by (simp add: qs_enqueue_def Let_def)
      have "card (set (qs_in_flight s) \<union> insert ?sid (dom (map_of (qs_pending s)))) \<le> Suc (card ?D)"
        by (simp add: card_insert_if finite_dom_map_of)
      moreover have "?sid \<notin> set (qs_ready s)"
        using assms 4 by (auto simp: qs_inv_def)
      ultimately show ?thesis
        unfolding eq using assms 4 False
        by (auto simp: qs_inv_def update_conv' distinct_update pending_ok_single)
    qed
  qed
qed

lemma qs_take_cases:
  assumes "qs_inv capacity s"
  obtains "qs_ready s = []" "qs_take s = (s, None)"
  | sid ready q p where "qs_ready s = sid # ready" "map_of (qs_pending s) sid = Some (q # p)"
      "sid \<notin> set (qs_in_flight s)"
      "qs_take s = (s\<lparr>qs_pending := (if p = [] then AList.delete sid (qs_pending s)
            else AList.update sid p (qs_pending s)),
          qs_ready := ready, qs_in_flight := List.insert sid (qs_in_flight s)\<rparr>, Some q)"
proof (cases "qs_ready s")
  case Nil
  then have "qs_take s = (s, None)" by (simp add: qs_take_def)
  with Nil show ?thesis using that by blast
next
  case (Cons sid ready)
  have "set (qs_ready s) = dom (map_of (qs_pending s)) - set (qs_in_flight s)"
    using assms by (simp add: qs_inv_def)
  moreover have "sid \<in> set (qs_ready s)" using Cons by simp
  ultimately have "sid \<in> dom (map_of (qs_pending s))" "sid \<notin> set (qs_in_flight s)" by blast+
  then obtain p' where p': "map_of (qs_pending s) sid = Some p'" "sid \<notin> set (qs_in_flight s)"
    by (auto simp only: dom_def mem_Collect_eq not_None_eq)
  then have "pending_ok sid p'" using assms by (simp add: qs_inv_def)
  then obtain q p where "p' = q # p" by (auto simp: pending_ok_def)
  with Cons p' show ?thesis using that by (simp add: qs_take_def)
qed

lemma qs_inv_take:
  assumes "qs_inv capacity s"
  shows "qs_inv capacity (fst (qs_take s))"
proof (rule qs_take_cases [OF assms])
  fix sid ready q p
  assume r: "qs_ready s = sid # ready" and m: "map_of (qs_pending s) sid = Some (q # p)"
    and nf: "sid \<notin> set (qs_in_flight s)"
    and t: "qs_take s = (s\<lparr>qs_pending := (if p = [] then AList.delete sid (qs_pending s)
            else AList.update sid p (qs_pending s)),
          qs_ready := ready, qs_in_flight := List.insert sid (qs_in_flight s)\<rparr>, Some q)"
  have ok: "pending_ok sid (q # p)" using assms m by (simp add: qs_inv_def)
  have fl: "set ready = dom (map_of (qs_pending s)) - insert sid (set (qs_in_flight s))"
    using assms r by (auto simp: qs_inv_def)
  have card: "insert sid (set (qs_in_flight s)) \<union> dom (map_of (qs_pending s)) =
      set (qs_in_flight s) \<union> dom (map_of (qs_pending s))" using m by auto
  show ?thesis
  proof (cases "p = []")
    case True
    have "insert sid (set (qs_in_flight s)) \<union> (dom (map_of (qs_pending s)) - {sid}) =
        set (qs_in_flight s) \<union> dom (map_of (qs_pending s))" using m by auto
    with assms r t True fl nf show ?thesis
      by (auto simp: qs_inv_def delete_conv' distinct_delete)
  next
    case False
    then have "pending_ok sid p" using ok by (auto simp: pending_ok_def)
    moreover have "insert sid (dom (map_of (qs_pending s))) = dom (map_of (qs_pending s))" using m by auto
    ultimately show ?thesis
      using assms r t False fl card nf
      by (auto simp: qs_inv_def update_conv' distinct_update)
  qed
qed (use assms in simp)

lemma qs_inv_complete: "qs_inv capacity s \<Longrightarrow> qs_inv capacity (qs_complete sid s)"
proof -
  assume inv: "qs_inv capacity s"
  have "card (set (qs_in_flight s) - {sid} \<union> dom (map_of (qs_pending s))) \<le>
      card (set (qs_in_flight s) \<union> dom (map_of (qs_pending s)))"
    by (rule card_mono) (auto simp: finite_dom_map_of)
  moreover have "card (set (qs_in_flight s) \<union> dom (map_of (qs_pending s))) \<le> capacity"
    using inv by (simp add: qs_inv_def)
  ultimately have "card (set (qs_in_flight s) - {sid} \<union> dom (map_of (qs_pending s))) \<le> capacity" by simp
  with inv show ?thesis
    by (auto simp: qs_inv_def qs_complete_def Let_def distinct_removeAll)
qed

lemma qs_inv_drop: "qs_inv capacity s \<Longrightarrow> qs_inv capacity (qs_drop_pending sid s)"
proof -
  assume inv: "qs_inv capacity s"
  have "card (set (qs_in_flight s) \<union> (dom (map_of (qs_pending s)) - {sid})) \<le>
      card (set (qs_in_flight s) \<union> dom (map_of (qs_pending s)))"
    by (rule card_mono) (auto simp: finite_dom_map_of)
  moreover have "card (set (qs_in_flight s) \<union> dom (map_of (qs_pending s))) \<le> capacity"
    using inv by (simp add: qs_inv_def)
  ultimately have "card (set (qs_in_flight s) \<union> (dom (map_of (qs_pending s)) - {sid})) \<le> capacity" by simp
  with inv show ?thesis
    by (auto simp: qs_inv_def qs_drop_pending_def delete_conv' distinct_delete)
qed

lemma qs_inv_shutdown: "qs_inv capacity s \<Longrightarrow> qs_inv capacity (qs_shutdown s)"
proof -
  assume inv: "qs_inv capacity s"
  have "card (set (qs_in_flight s)) \<le> card (set (qs_in_flight s) \<union> dom (map_of (qs_pending s)))"
    by (rule card_mono) (auto simp: finite_dom_map_of)
  with inv show ?thesis by (auto simp: qs_inv_def qs_shutdown_def)
qed

interpretation queue: step_invariant "queue_step m" "\<lambda>s. s = qs_new" "qs_inv m" for m
proof unfold_locales
  show "s = qs_new \<Longrightarrow> qs_inv m s" for s by (simp add: qs_inv_new)
  show "queue_step m s t \<Longrightarrow> qs_inv m s \<Longrightarrow> qs_inv m t" for s t
    by (induction rule: queue_step.induct)
      (simp_all add: qs_inv_enqueue qs_inv_take qs_inv_complete qs_inv_drop qs_inv_shutdown)
qed

subsection \<open>Properties\<close>

definition sample_notify :: "u32 \<Rightarrow> queued_notify" where
  "sample_notify seq = \<lparr>qn_job = \<lparr>job_sid = ''uuid:1'', job_callback = ''http://10.0.0.3/e'', job_seq = seq\<rparr>,
     qn_body = ContentDirBody (cu_new 7 [''64''])\<rparr>"

definition sample_queue :: queue_state where
  "sample_queue = fst (qs_enqueue (sample_notify 1) 4 (fst (qs_enqueue (sample_notify 0) 4 qs_new)))"

lemma sample_queue_reachable: "(queue_step 4)\<^sup>*\<^sup>* qs_new sample_queue"
  unfolding sample_queue_def
  by (rule rtranclp.rtrancl_into_rtrancl [OF r_into_rtranclp]) (rule q_enqueue)+

lemma sample_queue_eq:
  "sample_queue = \<lparr>qs_pending = [(''uuid:1'', [sample_notify 0, sample_notify 1])], qs_ready = [''uuid:1''],
     qs_in_flight = [], qs_stopped = False\<rparr>"
  by (simp add: sample_queue_def qs_enqueue_def qs_new_def sample_notify_def coalesce_def Let_def)

text \<open>
  C7: Whatever publishers, workers and the shutdown do, the notification queue serves at most its
  capacity of distinct subscribers, keeps at most two notifications for each, and offers to the
  workers exactly the waiting subscribers that no worker is serving, each once.
\<close>
theorem notify_queue_consistent:
  assumes "(queue_step m)\<^sup>*\<^sup>* qs_new s"
  shows "card (set (qs_in_flight s) \<union> dom (map_of (qs_pending s))) \<le> m \<and>
    distinct (qs_ready s) \<and> set (qs_ready s) = dom (map_of (qs_pending s)) - set (qs_in_flight s) \<and>
    (\<forall>sid p. map_of (qs_pending s) sid = Some p \<longrightarrow> p \<noteq> [] \<and> length p \<le> 2)"
proof -
  have inv: "qs_inv m s" using queue.reachable_inv [OF refl assms] .
  then have "p \<noteq> [] \<and> length p \<le> 2" if "map_of (qs_pending s) sid = Some p" for sid p
  proof -
    have "pending_ok sid p" using inv that by (simp add: qs_inv_def)
    then show ?thesis by (auto simp: pending_ok_def)
  qed
  with inv show ?thesis by (simp add: qs_inv_def)
qed

lemma notify_queue_consistent_witness: "distinct (qs_ready sample_queue)"
  using notify_queue_consistent [OF sample_queue_reachable] by blast

text \<open>
  C12: Delivery order per subscriber: a worker is only given a notification of a subscriber no other
  worker is serving, from then on that subscriber counts as being served, and no initial
  notification (key 0) is left behind what was handed out.
\<close>
theorem notify_order:
  assumes "(queue_step m)\<^sup>*\<^sup>* qs_new s" "qs_take s = (t, Some q)"
  shows "qn_sid q \<notin> set (qs_in_flight s) \<and> set (qs_in_flight t) = insert (qn_sid q) (set (qs_in_flight s)) \<and>
    (\<forall>p r. map_of (qs_pending t) (qn_sid q) = Some p \<longrightarrow> r \<in> set p \<longrightarrow> qn_seq r \<noteq> 0)"
proof -
  have inv: "qs_inv m s" using queue.reachable_inv [OF refl assms(1)] .
  from inv show ?thesis
  proof (rule qs_take_cases)
    fix sid ready q' p
    assume m: "map_of (qs_pending s) sid = Some (q' # p)" and nf: "sid \<notin> set (qs_in_flight s)"
      and t: "qs_take s = (s\<lparr>qs_pending := (if p = [] then AList.delete sid (qs_pending s)
            else AList.update sid p (qs_pending s)),
          qs_ready := ready, qs_in_flight := List.insert sid (qs_in_flight s)\<rparr>, Some q')"
    have ok: "pending_ok sid (q' # p)" using inv m by (simp add: qs_inv_def)
    have q: "q' = q" using assms(2) t by simp
    then have sid: "qn_sid q = sid" and rest: "\<forall>r \<in> set p. qn_seq r \<noteq> 0"
      using ok by (auto simp: pending_ok_def)
    have lookup: "map_of (qs_pending t) sid = (if p = [] then None else Some p)"
      using assms(2) t by (auto simp: delete_conv' update_conv')
    have fl: "set (qs_in_flight t) = insert sid (set (qs_in_flight s))"
      using assms(2) t by auto
    show ?thesis unfolding sid using nf fl lookup rest by auto
  qed (use assms(2) in simp)
qed

lemma notify_order_witness: "qn_sid (sample_notify 0) \<notin> set (qs_in_flight sample_queue)"
proof -
  have "qs_take sample_queue = (\<lparr>qs_pending = [(''uuid:1'', [sample_notify 1])], qs_ready = [],
     qs_in_flight = [''uuid:1''], qs_stopped = False\<rparr>, Some (sample_notify 0))"
    by (simp add: sample_queue_eq qs_take_def)
  from notify_order [OF sample_queue_reachable this] show ?thesis by blast
qed

text \<open>
  C13: No accepted notification is stranded: after an accepted enqueue the subscriber is either ready
  for a worker or being served by one, and when the worker finishes it is ready again as long as
  anything is pending.
\<close>
theorem notify_not_stranded:
  assumes "(queue_step m)\<^sup>*\<^sup>* qs_new s" "qs_enqueue q m s = (t, True)"
  shows "(qn_sid q \<in> set (qs_ready t) \<or> qn_sid q \<in> set (qs_in_flight t)) \<and>
    qn_sid q \<in> set (qs_ready (qs_complete (qn_sid q) t)) \<and>
    (\<exists>p. map_of (qs_pending t) (qn_sid q) = Some p \<and> qn_job q \<in> qn_job ` set p)"
proof -
  have inv: "qs_inv m t"
    using queue.reachable_inv [OF refl assms(1)] qs_inv_enqueue [of m s q] assms(2) by simp
  have "\<exists>p. map_of (qs_pending t) (qn_sid q) = Some p \<and> qn_job q \<in> qn_job ` set p"
  proof (cases "map_of (qs_pending s) (qn_sid q)")
    case None
    with assms(2) show ?thesis
      by (auto simp: qs_enqueue_def Let_def update_conv' split: if_splits)
  next
    case (Some p)
    then have "p \<noteq> []"
    proof -
      have "pending_ok (qn_sid q) p"
        using queue.reachable_inv [OF refl assms(1)] Some by (simp add: qs_inv_def)
      then show ?thesis by (auto simp: pending_ok_def)
    qed
    then have "qn_job q \<in> qn_job ` set (coalesce q p)"
      by (auto simp: coalesce_def)
    with Some assms(2) show ?thesis
      by (auto simp: qs_enqueue_def Let_def update_conv' split: if_splits)
  qed
  moreover from this have "qn_sid q \<in> dom (map_of (qs_pending t))" by auto
  then have "qn_sid q \<in> set (qs_ready t) \<or> qn_sid q \<in> set (qs_in_flight t)"
    "qn_sid q \<in> set (qs_ready (qs_complete (qn_sid q) t))"
    using inv by (auto simp: qs_inv_def qs_complete_def Let_def)
  ultimately show ?thesis by blast
qed

lemma notify_not_stranded_witness:
  "qn_sid (sample_notify 2) \<in> set (qs_ready (qs_complete (qn_sid (sample_notify 2))
     (fst (qs_enqueue (sample_notify 2) 4 sample_queue))))"
proof -
  have "qs_enqueue (sample_notify 2) 4 sample_queue =
      (fst (qs_enqueue (sample_notify 2) 4 sample_queue), True)"
    by (simp add: sample_queue_eq qs_enqueue_def sample_notify_def Let_def)
  from notify_not_stranded [OF sample_queue_reachable this] show ?thesis by blast
qed

text \<open>
  Coalescing container updates is bounded and exact: a merged update holds at most 1024 ids and
  64 KiB of them, and either it asks for a resubscription and is empty, or it maps every id to the
  newest update that named it.
\<close>
theorem coalesced_update_exact:
  assumes "cu_inv u" "cu_inv newer"
  shows "cu_inv (cu_merge u newer) \<and> length (cu_containers (cu_merge u newer)) \<le> 1024 \<and>
    key_bytes (cu_containers (cu_merge u newer)) \<le> 65536 \<and>
    (if cu_resubscribe (cu_merge u newer) then cu_containers (cu_merge u newer) = []
     else map_of (cu_containers (cu_merge u newer)) =
       map_of (cu_containers u) ++ map_of (cu_containers newer))"
  using cu_inv_merge [OF assms(1), of newer] cu_merge_lookup [OF assms]
  by (auto simp: cu_inv_def MAX_PENDING_CONTAINER_IDS_def MAX_PENDING_CONTAINER_BYTES_def)

lemma coalesced_update_exact_witness:
  "cu_inv (cu_merge (cu_new 7 [''64'', ''2$8'']) (cu_new 8 [''64'']))"
  using coalesced_update_exact [OF cu_inv_new cu_inv_new] by blast

end
