(* ===== verification/Url_Paths.thy ===== *)
theory Url_Paths
  imports Contracts
begin

text \<open>
  HTTP paths (\<open>crates/protocol/src/paths.rs\<close>), fixed object identifiers
  (\<open>crates/protocol/src/object_id.rs\<close>) and reserved ports (\<open>crates/protocol/src/isolation.rs\<close>).
  An \<open>i64\<close> identifier is an \<open>int\<close> within \<open>parse_int 64\<close>; the URL builders and the path parsers are
  shown to be inverse.
\<close>

subsection \<open>Fixed paths\<close>

definition ROOTDESC_PATH :: string where "ROOTDESC_PATH = ''/rootDesc.xml''"
definition CONTENTDIRECTORY_PATH :: string where "CONTENTDIRECTORY_PATH = ''/ContentDir.xml''"
definition CONTENTDIRECTORY_CONTROLURL :: string where
  "CONTENTDIRECTORY_CONTROLURL = ''/ctl/ContentDir''"
definition CONTENTDIRECTORY_EVENTURL :: string where
  "CONTENTDIRECTORY_EVENTURL = ''/evt/ContentDir''"
definition CONNECTIONMGR_PATH :: string where "CONNECTIONMGR_PATH = ''/ConnectionMgr.xml''"
definition CONNECTIONMGR_CONTROLURL :: string where
  "CONNECTIONMGR_CONTROLURL = ''/ctl/ConnectionMgr''"
definition CONNECTIONMGR_EVENTURL :: string where "CONNECTIONMGR_EVENTURL = ''/evt/ConnectionMgr''"
definition MS_REGISTRAR_PATH :: string where
  "MS_REGISTRAR_PATH = ''/X_MS_MediaReceiverRegistrar.xml''"
definition MS_REGISTRAR_CONTROLURL :: string where
  "MS_REGISTRAR_CONTROLURL = ''/ctl/X_MS_MediaReceiverRegistrar''"
definition MS_REGISTRAR_EVENTURL :: string where
  "MS_REGISTRAR_EVENTURL = ''/evt/X_MS_MediaReceiverRegistrar''"
definition MEDIA_ITEMS_PREFIX :: string where "MEDIA_ITEMS_PREFIX = ''/MediaItems/''"
definition TRANSCODE_PREFIX :: string where "TRANSCODE_PREFIX = ''/Transcode/''"
definition THUMBNAILS_PREFIX :: string where "THUMBNAILS_PREFIX = ''/Thumbnails/''"
definition ALBUM_ART_PREFIX :: string where "ALBUM_ART_PREFIX = ''/AlbumArt/''"
definition RESIZED_PREFIX :: string where "RESIZED_PREFIX = ''/Resized/''"
definition ICONS_PREFIX :: string where "ICONS_PREFIX = ''/icons/''"
definition CAPTIONS_PREFIX :: string where "CAPTIONS_PREFIX = ''/Captions/''"
definition STATUS_PATH :: string where "STATUS_PATH = ''/status''"
definition HEALTH_PATH :: string where "HEALTH_PATH = ''/health''"
definition API_STATUS_PATH :: string where "API_STATUS_PATH = ''/api/status''"

lemmas path_defs = ROOTDESC_PATH_def CONTENTDIRECTORY_PATH_def CONTENTDIRECTORY_CONTROLURL_def
  CONTENTDIRECTORY_EVENTURL_def CONNECTIONMGR_PATH_def CONNECTIONMGR_CONTROLURL_def
  CONNECTIONMGR_EVENTURL_def MS_REGISTRAR_PATH_def MS_REGISTRAR_CONTROLURL_def
  MS_REGISTRAR_EVENTURL_def MEDIA_ITEMS_PREFIX_def TRANSCODE_PREFIX_def THUMBNAILS_PREFIX_def
  ALBUM_ART_PREFIX_def RESIZED_PREFIX_def ICONS_PREFIX_def CAPTIONS_PREFIX_def STATUS_PATH_def
  HEALTH_PATH_def API_STATUS_PATH_def

subsection \<open>Identifiers from paths\<close>

definition is_sign :: "char \<Rightarrow> bool" where
  "is_sign c \<longleftrightarrow> c = CHR ''+'' \<or> c = CHR ''-''"

definition strtoll_prefix :: "string \<Rightarrow> int option" where
  "strtoll_prefix raw =
     (let s = trim raw in
      if s = [] then None
      else
        let start = (if is_sign (hd s) then 1 else 0);
            digits = takeWhile is_digit (drop start s)
        in if digits = [] then None else parse_int 64 (take start s @ digits))"

definition strip_query :: "string \<Rightarrow> string" where
  "strip_query path = (case split_once (CHR ''?'') path of None \<Rightarrow> path | Some (p, _) \<Rightarrow> p)"

definition media_item_id_from_path :: "string \<Rightarrow> int option" where
  "media_item_id_from_path path =
     Option.bind (strip_prefix MEDIA_ITEMS_PREFIX (strip_query path)) strtoll_prefix"

definition transcode_id_from_path :: "string \<Rightarrow> int option" where
  "transcode_id_from_path path =
     Option.bind (strip_prefix TRANSCODE_PREFIX (strip_query path)) strtoll_prefix"

definition album_art_id_from_path :: "string \<Rightarrow> int option" where
  "album_art_id_from_path path =
     Option.bind (strip_prefix ALBUM_ART_PREFIX (strip_query path)) strtoll_prefix"

definition caption_index_prefix :: "string \<Rightarrow> nat option" where
  "caption_index_prefix raw =
     (let v = trim raw;
          sign_len = (if v \<noteq> [] \<and> is_sign (hd v) then 1 else 0);
          digits = takeWhile is_digit (drop sign_len v)
      in if digits = [] then Some 0
         else if sign_len = 1 \<and> hd v = CHR ''-''
         then (if \<forall>c \<in> set digits. c = CHR ''0'' then Some 0 else None)
         else parse_uint u32_max digits)"

datatype caption_selector = DefaultCaption | CaptionIndex nat

definition caption_route_from_path :: "string \<Rightarrow> (int \<times> caption_selector) option" where
  "caption_route_from_path path =
     Option.bind (strip_prefix CAPTIONS_PREFIX (strip_query path)) (\<lambda>rest.
     Option.bind (strtoll_prefix rest) (\<lambda>id.
       let after_id = dropWhile (\<lambda>c. is_sign c \<or> is_digit c) rest
       in case strip_prefix ''/'' after_id of
            Some indexed \<Rightarrow>
              Option.bind (caption_index_prefix indexed) (\<lambda>i. Some (id, CaptionIndex i))
          | None \<Rightarrow> Some (id, DefaultCaption)))"

definition caption_from_path :: "string \<Rightarrow> (int \<times> nat) option" where
  "caption_from_path path =
     map_option (\<lambda>(id, selector).
       case selector of DefaultCaption \<Rightarrow> (id, 0) | CaptionIndex index \<Rightarrow> (id, index))
     (caption_route_from_path path)"

subsection \<open>URLs\<close>

definition http_base :: "string \<Rightarrow> nat \<Rightarrow> string" where
  "http_base host port = ''http://'' @ host @ '':'' @ decimal port"

definition transcode_item_url :: "string \<Rightarrow> nat \<Rightarrow> int \<Rightarrow> string" where
  "transcode_item_url host port detail_id =
     http_base host port @ TRANSCODE_PREFIX @ int_decimal detail_id @ ''.mp4''"

definition location_url :: "string \<Rightarrow> nat \<Rightarrow> string" where
  "location_url host port = http_base host port @ ROOTDESC_PATH"

definition media_item_url :: "string \<Rightarrow> nat \<Rightarrow> int \<Rightarrow> string \<Rightarrow> string" where
  "media_item_url host port detail_id ext =
     http_base host port @ MEDIA_ITEMS_PREFIX @ int_decimal detail_id @ ''.'' @ ext"

definition caption_indexed_url :: "string \<Rightarrow> nat \<Rightarrow> int \<Rightarrow> nat \<Rightarrow> string \<Rightarrow> string" where
  "caption_indexed_url host port detail_id index ext =
     http_base host port @ CAPTIONS_PREFIX @ int_decimal detail_id @ ''/'' @ decimal index @ ''.'' @ ext"

definition caption_default_url :: "string \<Rightarrow> nat \<Rightarrow> int \<Rightarrow> string" where
  "caption_default_url host port detail_id =
     http_base host port @ CAPTIONS_PREFIX @ int_decimal detail_id @ ''.srt''"

definition album_art_url :: "string \<Rightarrow> nat \<Rightarrow> int \<Rightarrow> int \<Rightarrow> string" where
  "album_art_url host port art_id detail_id =
     http_base host port @ ALBUM_ART_PREFIX @ int_decimal art_id @ ''-'' @ int_decimal detail_id
       @ ''.jpg''"

subsection \<open>Builders and parsers are inverse\<close>

definition is_i64 :: "int \<Rightarrow> bool" where
  "is_i64 i \<longleftrightarrow> - (2 ^ 63) \<le> i \<and> i < 2 ^ 63"

lemma digit_graphic: "is_digit c \<Longrightarrow> graphic c"
  by (simp add: is_digit_def graphic_def)

lemma int_decimal_graphic: "c \<in> set (int_decimal i) \<Longrightarrow> graphic c"
  by (drule int_decimal_chars) (auto simp: digit_graphic, simp add: graphic_def)

lemma takeWhile_decimal:
  "t = [] \<or> \<not> is_digit (hd t) \<Longrightarrow> takeWhile is_digit (decimal n @ t) = decimal n"
  by (cases t) (simp_all add: takeWhile_append set_decimal takeWhile_eq_all_conv)

lemma hd_decimal: "is_digit (hd (decimal n))"
  using all_digits_decimal all_digits_hd decimal_ne by blast

text \<open>A number followed by anything that is not a digit is read back, whatever follows.\<close>

lemma strtoll_prefix_decimal:
  assumes "is_i64 i" "t = [] \<or> \<not> is_digit (hd t)"
  shows "strtoll_prefix (int_decimal i @ t) = Some i"
proof -
  have "hd (int_decimal i) \<in> set (int_decimal i)" "last (int_decimal i) \<in> set (int_decimal i)"
    by simp_all
  then obtain t' where t': "trim (int_decimal i @ t) = int_decimal i @ t'" "prefix t' t"
    using trim_append_graphic [of "int_decimal i" t] int_decimal_graphic by (metis int_decimal_ne)
  have nd: "t' = [] \<or> \<not> is_digit (hd t')"
    using assms(2) t'(2) by (cases t'; cases t; auto)
  have p: "parse_int 64 (int_decimal i) = Some i"
    using assms(1) by (intro parse_int_decimal) (auto simp: is_i64_def)
  show ?thesis
  proof (cases "i < 0")
    case True
    then have "int_decimal i = CHR ''-'' # decimal (nat (- i))" by (simp add: int_decimal_def)
    with p t' nd show ?thesis
      by (simp add: strtoll_prefix_def Let_def is_sign_def takeWhile_decimal)
  next
    case False
    then have d: "int_decimal i = decimal (nat i)" by (simp add: int_decimal_def)
    have "\<not> is_sign (hd (decimal (nat i) @ t'))"
      using hd_decimal [of "nat i"] by (auto simp: is_sign_def dest: digit_not_sign)
    with p t' nd d show ?thesis
      by (simp add: strtoll_prefix_def Let_def takeWhile_decimal)
  qed
qed

lemma strip_query_none: "CHR ''?'' \<notin> set p \<Longrightarrow> strip_query p = p"
  by (simp add: strip_query_def split_once_None [THEN iffD2])

lemma not_query_decimal [simp]: "CHR ''?'' \<notin> set (int_decimal i)" "CHR ''?'' \<notin> set (decimal n)"
  by (auto dest: int_decimal_chars set_decimal simp: is_digit_def)

lemma caption_index_decimal:
  assumes "n \<le> u32_max" "t = [] \<or> \<not> is_digit (hd t)"
  shows "caption_index_prefix (decimal n @ t) = Some n"
proof -
  have g: "graphic c" if "c \<in> set (decimal n)" for c using that by (auto dest: set_decimal simp: digit_graphic)
  then obtain t' where t': "trim (decimal n @ t) = decimal n @ t'" "prefix t' t"
    using trim_append_graphic [of "decimal n" t] by (meson decimal_ne hd_in_set last_in_set)
  have nd: "t' = [] \<or> \<not> is_digit (hd t')"
    using assms(2) t'(2) by (cases t'; cases t; auto)
  have "\<not> is_sign (hd (decimal n @ t'))"
    using hd_decimal [of n] by (auto simp: is_sign_def dest: digit_not_sign)
  with t' nd assms(1) show ?thesis
    by (simp add: caption_index_prefix_def Let_def takeWhile_decimal)
qed

lemma url_parse_back:
  assumes "is_i64 i" "is_i64 j" "n \<le> u32_max" "CHR ''?'' \<notin> set ext"
  shows "media_item_id_from_path (MEDIA_ITEMS_PREFIX @ int_decimal i @ ''.'' @ ext) = Some i"
    and "transcode_id_from_path (TRANSCODE_PREFIX @ int_decimal i @ ''.mp4'') = Some i"
    and "album_art_id_from_path (ALBUM_ART_PREFIX @ int_decimal i @ ''-'' @ int_decimal j @ ''.jpg'') = Some i"
    and "caption_route_from_path (CAPTIONS_PREFIX @ int_decimal i @ ''/'' @ decimal n @ ''.'' @ ext) =
      Some (i, CaptionIndex n)"
    and "caption_route_from_path (CAPTIONS_PREFIX @ int_decimal i @ ''.srt'') = Some (i, DefaultCaption)"
proof -
  have sep: "\<not> is_digit (CHR ''.'')" "\<not> is_digit (CHR ''/'')" "\<not> is_digit (CHR ''-'')"
    "\<not> is_sign (CHR ''.'')" "\<not> is_sign (CHR ''/'')"
    by (simp_all add: is_digit_def is_sign_def)
  have after: "dropWhile (\<lambda>c. is_sign c \<or> is_digit c) (int_decimal i @ t) = t"
    if "t \<noteq> []" "\<not> is_sign (hd t)" "\<not> is_digit (hd t)" for t
  proof -
    have "is_sign c \<or> is_digit c" if "c \<in> set (int_decimal i)" for c
      using int_decimal_chars [OF that] by (auto simp: is_sign_def)
    then show ?thesis using that by (cases t) (simp_all add: dropWhile_append)
  qed
  note facts = strip_query_none strtoll_prefix_decimal [OF assms(1)] sep assms
  show "media_item_id_from_path (MEDIA_ITEMS_PREFIX @ int_decimal i @ ''.'' @ ext) = Some i"
    by (simp add: media_item_id_from_path_def facts MEDIA_ITEMS_PREFIX_def strip_prefix_def)
  show "transcode_id_from_path (TRANSCODE_PREFIX @ int_decimal i @ ''.mp4'') = Some i"
    by (simp add: transcode_id_from_path_def facts TRANSCODE_PREFIX_def strip_prefix_def)
  show "album_art_id_from_path (ALBUM_ART_PREFIX @ int_decimal i @ ''-'' @ int_decimal j @ ''.jpg'') = Some i"
    by (simp add: album_art_id_from_path_def facts ALBUM_ART_PREFIX_def strip_prefix_def)
  show "caption_route_from_path (CAPTIONS_PREFIX @ int_decimal i @ ''/'' @ decimal n @ ''.'' @ ext) =
      Some (i, CaptionIndex n)"
    using after [of "''/'' @ decimal n @ ''.'' @ ext"] caption_index_decimal [OF assms(3), of "''.'' @ ext"]
    by (simp add: caption_route_from_path_def facts CAPTIONS_PREFIX_def strip_prefix_def)
  show "caption_route_from_path (CAPTIONS_PREFIX @ int_decimal i @ ''.srt'') = Some (i, DefaultCaption)"
    using after [of "''.srt''"]
    by (simp add: caption_route_from_path_def facts CAPTIONS_PREFIX_def strip_prefix_def)
qed

text \<open>
  Every link the server hands out leads back to the object it was made for: the path part of a
  media, transcode, album-art or caption URL is parsed to the same identifiers, for every signed
  64-bit object id, every 32-bit caption index and every extension without a query mark.
\<close>
theorem url_roundtrip:
  assumes "is_i64 i" "is_i64 j" "n \<le> u32_max" "CHR ''?'' \<notin> set ext"
  shows "(\<exists>p. media_item_url h port i ext = http_base h port @ p \<and> media_item_id_from_path p = Some i)
    \<and> (\<exists>p. transcode_item_url h port i = http_base h port @ p \<and> transcode_id_from_path p = Some i)
    \<and> (\<exists>p. album_art_url h port i j = http_base h port @ p \<and> album_art_id_from_path p = Some i)
    \<and> (\<exists>p. caption_indexed_url h port i n ext = http_base h port @ p
         \<and> caption_route_from_path p = Some (i, CaptionIndex n))
    \<and> (\<exists>p. caption_default_url h port i = http_base h port @ p
         \<and> caption_route_from_path p = Some (i, DefaultCaption))"
  using url_parse_back [OF assms]
  by (auto simp: media_item_url_def transcode_item_url_def album_art_url_def caption_indexed_url_def
      caption_default_url_def)

lemma url_roundtrip_witness:
  "\<exists>p. media_item_url ''10.0.0.2'' 8200 42 ''mkv'' = http_base ''10.0.0.2'' 8200 @ p
     \<and> media_item_id_from_path p = Some 42"
  using url_roundtrip [of 42 7 0 "''mkv''" "''10.0.0.2''" 8200] by (simp add: is_i64_def)

end
