(* ===== verification/Media_Formats.thy ===== *)
theory Media_Formats
  imports Text_Ops
begin

text \<open>
  What the scanner admits and the server advertises: the extension table of
  \<open>crates/protocol/src/media_format.rs\<close>, captions (\<open>captions.rs\<close>), demuxer names
  (\<open>media_input.rs\<close>), the protocol-info source (\<open>protocol_info.rs\<close>) and header sniffing
  (\<open>crates/scan/src/admission.rs\<close>). The external \<open>ffprobe\<close> run is a parameter.
\<close>

subsection \<open>Media formats\<close>

datatype media_kind = MediaVideo | MediaAudio | MediaImage

fun upnp_class :: "media_kind \<Rightarrow> string" where
  "upnp_class MediaVideo = ''item.videoItem''"
| "upnp_class MediaAudio = ''item.audioItem.musicTrack''"
| "upnp_class MediaImage = ''item.imageItem.photo''"

record media_format =
  mf_extension :: string
  mf_video :: "string option"
  mf_audio :: "string option"
  mf_image :: "string option"

definition media_entry ::
  "string \<Rightarrow> string option \<Rightarrow> string option \<Rightarrow> string option \<Rightarrow> media_format" where
  "media_entry ext v a i = \<lparr>mf_extension = ext, mf_video = v, mf_audio = a, mf_image = i\<rparr>"

definition video_format :: "string \<Rightarrow> string \<Rightarrow> media_format" where
  "video_format ext mime = media_entry ext (Some mime) None None"

definition audio_format :: "string \<Rightarrow> string \<Rightarrow> media_format" where
  "audio_format ext mime = media_entry ext None (Some mime) None"

definition is_ambiguous :: "media_format \<Rightarrow> bool" where
  "is_ambiguous f \<longleftrightarrow> mf_video f \<noteq> None \<and> mf_audio f \<noteq> None"

fun kind_mime :: "media_format \<Rightarrow> media_kind \<Rightarrow> string option" where
  "kind_mime f MediaVideo = mf_video f"
| "kind_mime f MediaAudio = mf_audio f"
| "kind_mime f MediaImage = mf_image f"

definition format_allows :: "media_format \<Rightarrow> media_kind \<Rightarrow> bool" where
  "format_allows f k \<longleftrightarrow> kind_mime f k \<noteq> None"

record resolved_format =
  rf_extension :: string
  rf_mime :: string
  rf_kind :: media_kind

definition resolved :: "media_format \<Rightarrow> string \<Rightarrow> media_kind \<Rightarrow> resolved_format" where
  "resolved f mime k = \<lparr>rf_extension = mf_extension f, rf_mime = mime, rf_kind = k\<rparr>"

definition resolve_default :: "media_format \<Rightarrow> resolved_format" where
  "resolve_default f =
     (case mf_video f of
        Some mime \<Rightarrow> resolved f mime MediaVideo
      | None \<Rightarrow>
          (case mf_audio f of
             Some mime \<Rightarrow> resolved f mime MediaAudio
           | None \<Rightarrow>
               resolved f (case mf_image f of Some mime \<Rightarrow> mime | None \<Rightarrow> ''application/octet-stream'')
                 MediaImage))"

definition resolve_format :: "media_format \<Rightarrow> media_kind option \<Rightarrow> resolved_format" where
  "resolve_format f detected =
     (case detected of
        None \<Rightarrow> resolve_default f
      | Some k \<Rightarrow>
          (case kind_mime f k of Some mime \<Rightarrow> resolved f mime k | None \<Rightarrow> resolve_default f))"

definition MEDIA_FORMATS :: "media_format list" where
  "MEDIA_FORMATS =
     [video_format ''mpg'' ''video/mpeg'',
      video_format ''mpeg'' ''video/mpeg'',
      video_format ''avi'' ''video/x-msvideo'',
      video_format ''divx'' ''video/divx'',
      media_entry ''asf'' (Some ''video/x-ms-wmv'') (Some ''audio/x-ms-wma'') None,
      video_format ''wmv'' ''video/x-ms-wmv'',
      media_entry ''mp4'' (Some ''video/mp4'') (Some ''audio/mp4'') None,
      video_format ''m4v'' ''video/mp4'',
      video_format ''mts'' ''video/vnd.dlna.mpeg-tts'',
      video_format ''m2ts'' ''video/vnd.dlna.mpeg-tts'',
      video_format ''m2t'' ''video/vnd.dlna.mpeg-tts'',
      video_format ''mkv'' ''video/x-matroska'',
      video_format ''vob'' ''video/mpeg'',
      video_format ''ts'' ''video/vnd.dlna.mpeg-tts'',
      video_format ''flv'' ''video/x-flv'',
      video_format ''xvid'' ''video/x-msvideo'',
      video_format ''mov'' ''video/quicktime'',
      media_entry ''3gp'' (Some ''video/3gpp'') (Some ''audio/3gpp'') None,
      video_format ''rm'' ''application/vnd.rn-realmedia'',
      video_format ''rmvb'' ''application/vnd.rn-realmedia-vbr'',
      video_format ''webm'' ''video/webm'',
      audio_format ''mp3'' ''audio/mpeg'',
      audio_format ''flac'' ''audio/x-flac'',
      audio_format ''wma'' ''audio/x-ms-wma'',
      audio_format ''fla'' ''audio/x-flac'',
      audio_format ''flc'' ''audio/x-flac'',
      audio_format ''m4a'' ''audio/mp4'',
      audio_format ''aac'' ''audio/aac'',
      audio_format ''m4p'' ''audio/mp4'',
      audio_format ''wav'' ''audio/x-wav'',
      audio_format ''ogg'' ''application/ogg'',
      audio_format ''pcm'' ''audio/L16'',
      audio_format ''dsf'' ''audio/x-dsd'',
      audio_format ''dff'' ''audio/x-dsd'',
      media_entry ''jpg'' None None (Some ''image/jpeg''),
      media_entry ''jpeg'' None None (Some ''image/jpeg'')]"

definition media_format_for_extension :: "string \<Rightarrow> media_format option" where
  "media_format_for_extension ext =
     List.find (\<lambda>f. eq_ignore_case (mf_extension f) ext) MEDIA_FORMATS"

fun format_kind_for_mime :: "string \<Rightarrow> media_format list \<Rightarrow> media_kind option" where
  "format_kind_for_mime mime [] = None"
| "format_kind_for_mime mime (f # fs) =
     (if mf_video f = Some mime then Some MediaVideo
      else if mf_audio f = Some mime then Some MediaAudio
      else if mf_image f = Some mime then Some MediaImage
      else format_kind_for_mime mime fs)"

definition media_kind_for_mime :: "string \<Rightarrow> media_kind option" where
  "media_kind_for_mime mime = format_kind_for_mime mime MEDIA_FORMATS"

definition media_format_for_name :: "string \<Rightarrow> media_format option" where
  "media_format_for_name name =
     Option.bind (rsplit_once (CHR ''.'') name) (\<lambda>(_, ext). media_format_for_extension ext)"

definition format_mimes :: "media_format \<Rightarrow> string list" where
  "format_mimes f = List.map_filter id [mf_video f, mf_audio f, mf_image f]"

definition push_new :: "'a \<Rightarrow> 'a list \<Rightarrow> 'a list" where
  "push_new x xs = (if x \<in> set xs then xs else xs @ [x])"

definition wildcard_mimes :: "string list" where
  "wildcard_mimes = fold push_new (concat (map format_mimes MEDIA_FORMATS)) []"

definition wildcard_protocol_info_entries :: "string list" where
  "wildcard_protocol_info_entries = map (\<lambda>mime. ''http-get:*:'' @ mime @ '':*'') wildcard_mimes"

subsection \<open>Protocol info\<close>

text \<open>The comma-separated constant, by its entries.\<close>

definition profiled_entries :: "string list" where
  "profiled_entries =
     [''http-get:*:image/jpeg:DLNA.ORG_PN=JPEG_TN'',
      ''http-get:*:image/jpeg:DLNA.ORG_PN=JPEG_SM'',
      ''http-get:*:image/jpeg:DLNA.ORG_PN=JPEG_MED'',
      ''http-get:*:image/jpeg:DLNA.ORG_PN=JPEG_LRG'',
      ''http-get:*:video/mpeg:DLNA.ORG_PN=AVC_TS_HD_50_AC3_ISO'',
      ''http-get:*:video/mpeg:DLNA.ORG_PN=AVC_TS_HD_60_AC3_ISO'',
      ''http-get:*:video/mpeg:DLNA.ORG_PN=AVC_TS_HP_HD_AC3_ISO'',
      ''http-get:*:video/mpeg:DLNA.ORG_PN=AVC_TS_MP_HD_AAC_MULT5_ISO'',
      ''http-get:*:video/mpeg:DLNA.ORG_PN=AVC_TS_MP_HD_AC3_ISO'',
      ''http-get:*:video/mpeg:DLNA.ORG_PN=AVC_TS_MP_HD_MPEG1_L3_ISO'',
      ''http-get:*:video/mpeg:DLNA.ORG_PN=AVC_TS_MP_SD_AAC_MULT5_ISO'',
      ''http-get:*:video/mpeg:DLNA.ORG_PN=AVC_TS_MP_SD_AC3_ISO'',
      ''http-get:*:video/mpeg:DLNA.ORG_PN=AVC_TS_MP_SD_MPEG1_L3_ISO'',
      ''http-get:*:video/mpeg:DLNA.ORG_PN=MPEG_PS_NTSC'',
      ''http-get:*:video/mpeg:DLNA.ORG_PN=MPEG_PS_PAL'',
      ''http-get:*:video/mpeg:DLNA.ORG_PN=MPEG_TS_HD_NA_ISO'',
      ''http-get:*:video/mpeg:DLNA.ORG_PN=MPEG_TS_SD_NA_ISO'',
      ''http-get:*:video/mpeg:DLNA.ORG_PN=MPEG_TS_SD_EU_ISO'',
      ''http-get:*:video/mpeg:DLNA.ORG_PN=MPEG1'',
      ''http-get:*:video/mp4:DLNA.ORG_PN=AVC_MP4_MP_SD_AAC_MULT5'',
      ''http-get:*:video/mp4:DLNA.ORG_PN=AVC_MP4_MP_SD_AC3'',
      ''http-get:*:video/mp4:DLNA.ORG_PN=AVC_MP4_BL_CIF15_AAC_520'',
      ''http-get:*:video/mp4:DLNA.ORG_PN=AVC_MP4_BL_CIF30_AAC_940'',
      ''http-get:*:video/mp4:DLNA.ORG_PN=AVC_MP4_BL_L31_HD_AAC'',
      ''http-get:*:video/mp4:DLNA.ORG_PN=AVC_MP4_BL_L32_HD_AAC'',
      ''http-get:*:video/mp4:DLNA.ORG_PN=AVC_MP4_BL_L3L_SD_AAC'',
      ''http-get:*:video/mp4:DLNA.ORG_PN=AVC_MP4_HP_HD_AAC'',
      ''http-get:*:video/mp4:DLNA.ORG_PN=AVC_MP4_MP_HD_1080i_AAC'',
      ''http-get:*:video/mp4:DLNA.ORG_PN=AVC_MP4_MP_HD_720p_AAC'',
      ''http-get:*:video/mp4:DLNA.ORG_PN=MPEG4_P2_MP4_ASP_AAC'',
      ''http-get:*:video/mp4:DLNA.ORG_PN=MPEG4_P2_MP4_SP_VGA_AAC'',
      ''http-get:*:video/vnd.dlna.mpeg-tts:DLNA.ORG_PN=AVC_TS_HD_50_AC3'',
      ''http-get:*:video/vnd.dlna.mpeg-tts:DLNA.ORG_PN=AVC_TS_HD_50_AC3_T'',
      ''http-get:*:video/vnd.dlna.mpeg-tts:DLNA.ORG_PN=AVC_TS_HD_60_AC3'',
      ''http-get:*:video/vnd.dlna.mpeg-tts:DLNA.ORG_PN=AVC_TS_HD_60_AC3_T'',
      ''http-get:*:video/vnd.dlna.mpeg-tts:DLNA.ORG_PN=AVC_TS_HP_HD_AC3_T'',
      ''http-get:*:video/vnd.dlna.mpeg-tts:DLNA.ORG_PN=AVC_TS_MP_HD_AAC_MULT5'',
      ''http-get:*:video/vnd.dlna.mpeg-tts:DLNA.ORG_PN=AVC_TS_MP_HD_AAC_MULT5_T'',
      ''http-get:*:video/vnd.dlna.mpeg-tts:DLNA.ORG_PN=AVC_TS_MP_HD_AC3'',
      ''http-get:*:video/vnd.dlna.mpeg-tts:DLNA.ORG_PN=AVC_TS_MP_HD_AC3_T'',
      ''http-get:*:video/vnd.dlna.mpeg-tts:DLNA.ORG_PN=AVC_TS_MP_HD_MPEG1_L3'',
      ''http-get:*:video/vnd.dlna.mpeg-tts:DLNA.ORG_PN=AVC_TS_MP_HD_MPEG1_L3_T'',
      ''http-get:*:video/vnd.dlna.mpeg-tts:DLNA.ORG_PN=AVC_TS_MP_SD_AAC_MULT5'',
      ''http-get:*:video/vnd.dlna.mpeg-tts:DLNA.ORG_PN=AVC_TS_MP_SD_AAC_MULT5_T'',
      ''http-get:*:video/vnd.dlna.mpeg-tts:DLNA.ORG_PN=AVC_TS_MP_SD_AC3'',
      ''http-get:*:video/vnd.dlna.mpeg-tts:DLNA.ORG_PN=AVC_TS_MP_SD_AC3_T'',
      ''http-get:*:video/vnd.dlna.mpeg-tts:DLNA.ORG_PN=AVC_TS_MP_SD_MPEG1_L3'',
      ''http-get:*:video/vnd.dlna.mpeg-tts:DLNA.ORG_PN=AVC_TS_MP_SD_MPEG1_L3_T'',
      ''http-get:*:video/vnd.dlna.mpeg-tts:DLNA.ORG_PN=MPEG_TS_HD_NA'',
      ''http-get:*:video/vnd.dlna.mpeg-tts:DLNA.ORG_PN=MPEG_TS_HD_NA_T'',
      ''http-get:*:video/vnd.dlna.mpeg-tts:DLNA.ORG_PN=MPEG_TS_SD_EU'',
      ''http-get:*:video/vnd.dlna.mpeg-tts:DLNA.ORG_PN=MPEG_TS_SD_EU_T'',
      ''http-get:*:video/vnd.dlna.mpeg-tts:DLNA.ORG_PN=MPEG_TS_SD_NA'',
      ''http-get:*:video/vnd.dlna.mpeg-tts:DLNA.ORG_PN=MPEG_TS_SD_NA_T'',
      ''http-get:*:video/x-ms-wmv:DLNA.ORG_PN=WMVSPLL_BASE'',
      ''http-get:*:video/x-ms-wmv:DLNA.ORG_PN=WMVSPML_BASE'',
      ''http-get:*:video/x-ms-wmv:DLNA.ORG_PN=WMVSPML_MP3'',
      ''http-get:*:video/x-ms-wmv:DLNA.ORG_PN=WMVMED_BASE'',
      ''http-get:*:video/x-ms-wmv:DLNA.ORG_PN=WMVMED_FULL'',
      ''http-get:*:video/x-ms-wmv:DLNA.ORG_PN=WMVMED_PRO'',
      ''http-get:*:video/x-ms-wmv:DLNA.ORG_PN=WMVHIGH_FULL'',
      ''http-get:*:video/x-ms-wmv:DLNA.ORG_PN=WMVHIGH_PRO'',
      ''http-get:*:video/3gpp:DLNA.ORG_PN=MPEG4_P2_3GPP_SP_L0B_AAC'',
      ''http-get:*:video/3gpp:DLNA.ORG_PN=MPEG4_P2_3GPP_SP_L0B_AMR'',
      ''http-get:*:audio/mpeg:DLNA.ORG_PN=MP3'',
      ''http-get:*:audio/x-ms-wma:DLNA.ORG_PN=WMABASE'',
      ''http-get:*:audio/x-ms-wma:DLNA.ORG_PN=WMAFULL'',
      ''http-get:*:audio/x-ms-wma:DLNA.ORG_PN=WMAPRO'',
      ''http-get:*:audio/x-ms-wma:DLNA.ORG_PN=WMALSL'',
      ''http-get:*:audio/x-ms-wma:DLNA.ORG_PN=WMALSL_MULT5'',
      ''http-get:*:audio/mp4:DLNA.ORG_PN=AAC_ISO_320'',
      ''http-get:*:audio/3gpp:DLNA.ORG_PN=AAC_ISO_320'',
      ''http-get:*:audio/mp4:DLNA.ORG_PN=AAC_ISO'',
      ''http-get:*:audio/mp4:DLNA.ORG_PN=AAC_MULT5_ISO'',
      ''http-get:*:audio/L16;rate=44100;channels=2:DLNA.ORG_PN=LPCM'',
      ''http-get:*:image/jpeg:*'',
      ''http-get:*:video/avi:*'',
      ''http-get:*:video/divx:*'',
      ''http-get:*:video/x-matroska:*'',
      ''http-get:*:video/mpeg:*'',
      ''http-get:*:video/mp4:*'',
      ''http-get:*:video/x-ms-wmv:*'',
      ''http-get:*:video/x-msvideo:*'',
      ''http-get:*:video/x-flv:*'',
      ''http-get:*:video/x-tivo-mpeg:*'',
      ''http-get:*:video/quicktime:*'',
      ''http-get:*:audio/mp4:*'',
      ''http-get:*:audio/x-wav:*'',
      ''http-get:*:audio/x-flac:*'',
      ''http-get:*:audio/x-dsd:*'',
      ''http-get:*:application/ogg:*'',
      ''http-get:*:application/vnd.rn-realmedia:*'',
      ''http-get:*:application/vnd.rn-realmedia-vbr:*'',
      ''http-get:*:video/webm:*'']"

definition PROTOCOL_INFO_SOURCE :: string where
  "PROTOCOL_INFO_SOURCE = join '','' profiled_entries"

definition protocol_info_source :: string where
  "protocol_info_source =
     join '','' (fold push_new wildcard_protocol_info_entries (split_on (CHR '','') PROTOCOL_INFO_SOURCE))"

subsection \<open>Captions\<close>

datatype webvtt_conversion = ValidateWebVtt | SubRipToWebVtt | SubStationAlphaToWebVtt | SamiToWebVtt

record caption_format =
  cf_extension :: string
  cf_mime :: string
  cf_conversion :: "webvtt_conversion option"

definition caption_entry :: "string \<Rightarrow> string \<Rightarrow> webvtt_conversion option \<Rightarrow> caption_format" where
  "caption_entry ext mime conv = \<lparr>cf_extension = ext, cf_mime = mime, cf_conversion = conv\<rparr>"

definition CAPTION_FORMATS :: "caption_format list" where
  "CAPTION_FORMATS =
     [caption_entry ''srt'' ''text/srt'' (Some SubRipToWebVtt),
      caption_entry ''ass'' ''text/x-ssa'' (Some SubStationAlphaToWebVtt),
      caption_entry ''ssa'' ''text/x-ssa'' (Some SubStationAlphaToWebVtt),
      caption_entry ''vtt'' ''text/vtt'' (Some ValidateWebVtt),
      caption_entry ''smi'' ''smi/caption'' (Some SamiToWebVtt),
      caption_entry ''sub'' ''text/plain'' None]"

definition caption_format_for_extension :: "string \<Rightarrow> caption_format option" where
  "caption_format_for_extension ext =
     List.find (\<lambda>f. eq_ignore_case ext (cf_extension f)) CAPTION_FORMATS"

definition extension_bytes :: "string \<Rightarrow> string option" where
  "extension_bytes name =
     Option.bind (rsplit_once (CHR ''.'') name) (\<lambda>(_, ext). if ext \<noteq> [] then Some ext else None)"

definition caption_format_for_name :: "string \<Rightarrow> caption_format option" where
  "caption_format_for_name name = Option.bind (extension_bytes name) caption_format_for_extension"

subsection \<open>Demuxers\<close>

definition MEDIA_DEMUXER_WHITELIST :: string where
  "MEDIA_DEMUXER_WHITELIST = ''matroska,webm,mov,mp4,m4a,3gp,3g2,mj2,avi,mpegts,mpeg,mpegvideo,flv,asf,rm,mp3,flac,aac,wav,ogg,dsf,iff,s16be,s16le,hevc,jpeg_pipe,mjpeg,png_pipe,bmp_pipe,tiff_pipe,webp_pipe''"

definition demuxer_container :: "string \<Rightarrow> string option" where
  "demuxer_container name =
     (if name \<in> {''matroska'', ''webm''} then Some ''mkv''
      else if name \<in> {''mov'', ''mp4'', ''m4a'', ''3gp'', ''3g2'', ''mj2''} then Some ''mp4''
      else if name = ''avi'' then Some ''avi''
      else if name = ''mpegts'' then Some ''mpeg-ts''
      else if name \<in> {''mpeg'', ''mpegvideo''} then Some ''mpeg''
      else if name = ''flv'' then Some ''flv''
      else if name = ''asf'' then Some ''asf''
      else if name = ''rm'' then Some ''rm''
      else if name = ''mp3'' then Some ''mp3''
      else if name = ''flac'' then Some ''flac''
      else if name = ''aac'' then Some ''aac''
      else if name = ''wav'' then Some ''wav''
      else if name = ''ogg'' then Some ''ogg''
      else if name = ''dsf'' then Some ''dsf''
      else if name = ''iff'' then Some ''dff''
      else if name \<in> {''s16be'', ''s16le''} then Some ''pcm''
      else if name = ''hevc'' then Some ''hevc''
      else if name \<in> {''jpeg_pipe'', ''mjpeg''} then Some ''jpeg''
      else if name = ''png_pipe'' then Some ''png''
      else if name = ''bmp_pipe'' then Some ''bmp''
      else if name = ''tiff_pipe'' then Some ''tiff''
      else if name = ''webp_pipe'' then Some ''webp''
      else None)"

fun container_loop :: "string list \<Rightarrow> string option \<Rightarrow> string option" where
  "container_loop [] container = container"
| "container_loop (name # names) container =
     (case demuxer_container name of
        None \<Rightarrow> None
      | Some detected \<Rightarrow>
          if container \<noteq> None \<and> container \<noteq> Some detected then None
          else container_loop names (Some detected))"

definition media_container_for_demuxer :: "string \<Rightarrow> string option" where
  "media_container_for_demuxer names = container_loop (split_on (CHR '','') names) None"

subsection \<open>Header sniffing\<close>

datatype sniff = SniffReject | SniffStrong | SniffWeak

definition SNIFF_BYTES :: nat where "SNIFF_BYTES = 512"
definition BDAV_PACKET_BYTES :: nat where "BDAV_PACKET_BYTES = 192"

fun bdav_loop :: "u8 list \<Rightarrow> nat list \<Rightarrow> nat \<Rightarrow> nat option" where
  "bdav_loop buf [] checked = Some checked"
| "bdav_loop buf (offset # offsets) checked =
     (if offset < length buf
      then if buf ! offset = 0x47 then bdav_loop buf offsets (Suc checked) else None
      else Some checked)"

definition bdav_sync_bytes_present :: "u8 list \<Rightarrow> bool" where
  "bdav_sync_bytes_present buf =
     (let offsets = [4, 4 + BDAV_PACKET_BYTES, 4 + 2 * BDAV_PACKET_BYTES]
      in case bdav_loop buf offsets 0 of
           None \<Rightarrow> False
         | Some checked \<Rightarrow>
             0 < checked \<and> (checked = length offsets \<or> length buf < offsets ! checked))"

text \<open>An ASCII byte-string literal.\<close>

definition bytes_of :: "string \<Rightarrow> u8 list" where
  "bytes_of s = map (\<lambda>c. of_nat (bval c)) s"

definition strong_magic :: "u8 list \<Rightarrow> bool" where
  "strong_magic buf \<longleftrightarrow>
     take 4 buf = [0x1a, 0x45, 0xdf, 0xa3]
   \<or> (length buf \<ge> 8 \<and> take 4 (drop 4 buf) \<in>
        {bytes_of ''ftyp'', bytes_of ''mdat'', bytes_of ''moov'', bytes_of ''wide'', bytes_of ''free''})
   \<or> take 4 buf = bytes_of ''RIFF''
   \<or> take 3 buf = bytes_of ''FLV''
   \<or> take 4 buf = [0x30, 0x26, 0xb2, 0x75]
   \<or> take 4 buf = bytes_of ''OggS''
   \<or> take 3 buf = [0xff, 0xd8, 0xff]
   \<or> take 4 buf = bytes_of ''fLaC''
   \<or> (length buf \<ge> 12 \<and> take 4 buf = bytes_of ''DSD '' \<and>
        take 8 (drop 4 buf) = [28, 0, 0, 0, 0, 0, 0, 0])
   \<or> (length buf \<ge> 16 \<and> take 4 buf = bytes_of ''FRM8'' \<and> take 4 (drop 12 buf) = bytes_of ''DSD '')
   \<or> take 4 buf = bytes_of ''.RMF''"

definition weak_magic :: "u8 list \<Rightarrow> bool" where
  "weak_magic buf \<longleftrightarrow>
     buf ! 0 = 0x47
   \<or> bdav_sync_bytes_present buf
   \<or> (buf ! 0 = 0 \<and> buf ! 1 = 0 \<and> buf ! 2 = 1)
   \<or> take 3 buf = bytes_of ''ID3''
   \<or> (buf ! 0 = 0xff \<and> and (buf ! 1) 0xe0 = 0xe0)"

definition classify_header :: "u8 list \<Rightarrow> sniff" where
  "classify_header buf =
     (if length buf < 4 then SniffReject
      else if strong_magic buf then SniffStrong
      else if weak_magic buf then SniffWeak
      else SniffReject)"

text \<open>A file is the option of its bytes, \<open>None\<close> when it cannot be opened or read.\<close>

definition sniff_container :: "u8 list option \<Rightarrow> sniff" where
  "sniff_container file =
     (case file of None \<Rightarrow> SniffReject | Some bytes \<Rightarrow> classify_header (take SNIFF_BYTES bytes))"

definition file_is_viable :: "(u8 list option \<Rightarrow> bool option) \<Rightarrow> u8 list option \<Rightarrow> bool" where
  "file_is_viable ffprobe_has_av_stream file =
     (case sniff_container file of
        SniffReject \<Rightarrow> False
      | SniffStrong \<Rightarrow> True
      | SniffWeak \<Rightarrow> (case ffprobe_has_av_stream file of None \<Rightarrow> False | Some b \<Rightarrow> b))"

definition looks_like_av_container :: "u8 list option \<Rightarrow> bool" where
  "looks_like_av_container file \<longleftrightarrow> sniff_container file \<noteq> SniffReject"

text \<open>The streams a probe found: how many video and how many audio streams.\<close>

definition resolved_media_format_with_hint ::
  "string \<Rightarrow> (nat \<times> nat) option \<Rightarrow> string option \<Rightarrow> resolved_format option" where
  "resolved_media_format_with_hint name probe mime_hint =
     map_option (\<lambda>f.
       let from_probe = Option.bind probe (\<lambda>(video, audio).
             if 0 < video then Some MediaVideo else if 0 < audio then Some MediaAudio else None);
           hint = (case mime_hint of None \<Rightarrow> [] | Some m \<Rightarrow> m);
           detected = (case from_probe of
               Some k \<Rightarrow> Some k
             | None \<Rightarrow>
                 if prefix ''video/'' hint then Some MediaVideo
                 else if prefix ''audio/'' hint then Some MediaAudio
                 else if prefix ''image/'' hint then Some MediaImage
                 else None)
       in resolve_format f detected)
     (media_format_for_name name)"

definition resolved_media_format :: "string \<Rightarrow> (nat \<times> nat) option \<Rightarrow> resolved_format option" where
  "resolved_media_format name probe = resolved_media_format_with_hint name probe None"

definition mime_and_class :: "string \<Rightarrow> string \<times> string \<times> string" where
  "mime_and_class name =
     (case resolved_media_format name None of
        Some f \<Rightarrow> (rf_mime f, upnp_class (rf_kind f), rf_extension f)
      | None \<Rightarrow> (''application/octet-stream'', ''item.videoItem'', ''bin''))"

subsection \<open>Everything served is advertised\<close>

lemma set_push_new [simp]: "set (push_new x xs) = insert x (set xs)"
  by (auto simp: push_new_def)

lemma set_fold_push_new: "set (fold push_new xs ys) = set xs \<union> set ys"
  by (induction xs arbitrary: ys) auto

lemma kind_mime_in: "kind_mime f k = Some mime \<Longrightarrow> mime \<in> set (format_mimes f)"
  by (cases k) (auto simp: format_mimes_def List.map_filter_def)

lemma table_mimes_plain: "list_all (\<lambda>f. list_all (\<lambda>m. CHR '','' \<notin> set m \<and> m \<noteq> ''application/octet-stream'')
    (format_mimes f) \<and> format_mimes f \<noteq> []) MEDIA_FORMATS"
  by (simp add: MEDIA_FORMATS_def format_mimes_def List.map_filter_def media_entry_def
      video_format_def audio_format_def)

lemma resolve_in_format:
  assumes "format_mimes f \<noteq> []"
  shows "kind_mime f (rf_kind (resolve_format f d)) = Some (rf_mime (resolve_format f d))"
proof -
  have default: "kind_mime f (rf_kind (resolve_default f)) = Some (rf_mime (resolve_default f))"
    using assms
    by (cases "mf_video f"; cases "mf_audio f"; cases "mf_image f")
      (simp_all add: resolve_default_def resolved_def format_mimes_def List.map_filter_def)
  then show ?thesis
    by (auto simp: resolve_format_def resolved_def split: option.splits)
qed

lemma protocol_info_split:
  "split_on (CHR '','') protocol_info_source =
     fold push_new wildcard_protocol_info_entries (split_on (CHR '','') PROTOCOL_INFO_SOURCE)"
proof -
  let ?es = "fold push_new wildcard_protocol_info_entries (split_on (CHR '','') PROTOCOL_INFO_SOURCE)"
  have "CHR '','' \<notin> set m" if "m \<in> set wildcard_mimes" for m
    using that table_mimes_plain by (auto simp: wildcard_mimes_def set_fold_push_new list_all_iff)
  then have "CHR '','' \<notin> set e" if "e \<in> set ?es" for e
    using that
    by (auto simp: set_fold_push_new wildcard_protocol_info_entries_def dest: split_on_fields)
  moreover have "?es \<noteq> []"
    using set_fold_push_new [of wildcard_protocol_info_entries "split_on (CHR '','') PROTOCOL_INFO_SOURCE"]
      split_on_ne [of "CHR '',''" PROTOCOL_INFO_SOURCE] by (metis Un_empty set_empty)
  ultimately show ?thesis
    unfolding protocol_info_source_def by (intro split_on_join) auto
qed

lemma table_kinds:
  "list_all (\<lambda>f. \<forall>k \<in> {MediaVideo, MediaAudio, MediaImage}. \<forall>m. kind_mime f k = Some m \<longrightarrow>
      media_kind_for_mime m = Some k) MEDIA_FORMATS"
  by (simp add: MEDIA_FORMATS_def media_entry_def video_format_def audio_format_def
      media_kind_for_mime_def)

text \<open>
  Whatever the scanner resolves a file to, from its name and the streams found in it, is a real
  MIME type of the table, is classified back to the same media kind when it is served, and is
  advertised by the ConnectionManager's protocol-info source.
\<close>
theorem resolved_format_advertised:
  assumes "resolved_media_format_with_hint name probe hint = Some r"
  shows "rf_mime r \<noteq> ''application/octet-stream'' \<and> media_kind_for_mime (rf_mime r) = Some (rf_kind r)
    \<and> ''http-get:*:'' @ rf_mime r @ '':*'' \<in> set (split_on (CHR '','') protocol_info_source)"
proof -
  obtain f d where f: "media_format_for_name name = Some f" "r = resolve_format f d"
    using assms by (auto simp: resolved_media_format_with_hint_def Let_def)
  have mem: "f \<in> set MEDIA_FORMATS"
    using f(1) by (auto simp: media_format_for_name_def media_format_for_extension_def bind_eq_Some_conv
        find_Some_iff)
  then have plain: "format_mimes f \<noteq> []" "\<And>m. m \<in> set (format_mimes f) \<Longrightarrow> m \<noteq> ''application/octet-stream''"
    using table_mimes_plain by (auto simp: list_all_iff)
  have km: "kind_mime f (rf_kind r) = Some (rf_mime r)"
    using resolve_in_format [OF plain(1)] f(2) by simp
  then have "rf_mime r \<in> set wildcard_mimes"
    using kind_mime_in mem by (fastforce simp: wildcard_mimes_def set_fold_push_new)
  then have "''http-get:*:'' @ rf_mime r @ '':*'' \<in> set (split_on (CHR '','') protocol_info_source)"
    by (simp add: protocol_info_split set_fold_push_new wildcard_protocol_info_entries_def)
  moreover have "media_kind_for_mime (rf_mime r) = Some (rf_kind r)"
    using table_kinds mem km by (cases "rf_kind r") (auto simp: list_all_iff)
  ultimately show ?thesis using plain(2) kind_mime_in [OF km] by blast
qed

lemma resolved_format_advertised_witness:
  "media_kind_for_mime ''video/mpeg'' = Some MediaVideo"
proof -
  have "rsplit_once (CHR ''.'') ''film.MPG'' = Some (''film'', ''MPG'')"
    using rsplit_once_append [of "CHR ''.''" "''MPG''" "''film''"] by simp
  moreover have "media_format_for_extension ''MPG'' = Some (video_format ''mpg'' ''video/mpeg'')"
  proof -
    have "ascii_lower ''MPG'' = ''mpg''" "ascii_lower ''mpg'' = ''mpg''" by (simp_all add: lower_eval)
    then have "eq_ignore_case ''mpg'' ''MPG''" by (simp add: eq_ignore_case_def)
    then show ?thesis
      by (simp add: media_format_for_extension_def MEDIA_FORMATS_def video_format_def media_entry_def)
  qed
  ultimately have "resolved_media_format_with_hint ''film.MPG'' (Some (1, 2)) None =
      Some (resolved (video_format ''mpg'' ''video/mpeg'') ''video/mpeg'' MediaVideo)"
    by (simp add: resolved_media_format_with_hint_def media_format_for_name_def
        video_format_def media_entry_def resolve_format_def resolved_def)
  from resolved_format_advertised [OF this] show ?thesis by (simp add: resolved_def)
qed

subsection \<open>Transport-stream detection\<close>

lemma bdav_loop_spec:
  "sorted_wrt (<) offsets \<Longrightarrow> bdav_loop buf offsets n = Some m \<longleftrightarrow>
     m = n + length (filter (\<lambda>k. k < length buf) offsets) \<and>
     (\<forall>k \<in> set offsets. k < length buf \<longrightarrow> buf ! k = 0x47)"
proof (induction offsets arbitrary: n)
  case (Cons k ks)
  show ?case
  proof (cases "k < length buf")
    case False
    then have "filter (\<lambda>k. k < length buf) ks = []"
      using Cons.prems by (auto simp: filter_empty_conv)
    with False Cons.prems show ?thesis by auto
  qed (use Cons in auto)
qed auto

text \<open>
  The BDAV detector accepts exactly the headers that reach a first packet and whose sync byte
  stands in every one of the first three 192-byte packets the header holds, so short clips pass and
  one wrong sync byte rejects. A header that ends just before a sync byte (196 or 388 bytes) is the
  one exception: it is refused although every packet it holds is in sync.
\<close>
theorem bdav_detects_packets:
  "bdav_sync_bytes_present buf \<longleftrightarrow>
     4 < length buf \<and> length buf \<noteq> 196 \<and> length buf \<noteq> 388 \<and>
     (\<forall>k \<in> {4, 196, 388}. k < length buf \<longrightarrow> buf ! k = 0x47)"
proof -
  let ?n = "length (filter (\<lambda>k. k < length buf) [4, 196, 388])"
  have "bdav_loop buf [4, 196, 388] 0 =
      (if \<forall>k \<in> {4, 196, 388}. k < length buf \<longrightarrow> buf ! k = 0x47 then Some ?n else None)"
  proof (cases "bdav_loop buf [4, 196, 388] 0")
    case None
    then show ?thesis
      using bdav_loop_spec [of "[4, 196, 388]" buf 0 ?n] by (simp del: bdav_loop.simps)
  next
    case (Some m)
    then show ?thesis
      using bdav_loop_spec [of "[4, 196, 388]" buf 0 m] by (simp del: bdav_loop.simps)
  qed
  moreover have "0 < ?n \<and> (?n = 3 \<or> length buf < [4, 196, 388] ! ?n) \<longleftrightarrow>
      4 < length buf \<and> length buf \<noteq> 196 \<and> length buf \<noteq> 388"
    by auto
  ultimately show ?thesis
    by (auto simp del: bdav_loop.simps simp: bdav_sync_bytes_present_def BDAV_PACKET_BYTES_def Let_def)
qed

lemma bdav_detects_packets_witness: "bdav_sync_bytes_present (0 # 0 # 0 # 0 # 0x47 # replicate 20 0)"
  using bdav_detects_packets [of "0 # 0 # 0 # 0 # 0x47 # replicate 20 0"] by simp

end
