(* ===== verification/Ipv4_Text.thy ===== *)
theory Ipv4_Text
  imports Contracts
begin

text \<open>
  \<open>std::net::Ipv4Addr\<close> as the list of its four octets, with the text forms that
  \<open>str::parse\<close> accepts and \<open>to_string\<close> writes. Callbacks, host checks and discovery share it.
\<close>

definition parse_octet :: "string \<Rightarrow> nat option" where
  "parse_octet s =
     (if s \<noteq> [] \<and> length s \<le> 3 \<and> all_digits s \<and> (length s = 1 \<or> hd s \<noteq> CHR ''0'')
         \<and> digits_value s \<le> 255
      then Some (digits_value s) else None)"

definition parse_ipv4 :: "string \<Rightarrow> nat list option" where
  "parse_ipv4 s =
     (if length s > 15 then None
      else let os = map parse_octet (split_on (CHR ''.'') s)
           in if length os = 4 \<and> None \<notin> set os then Some (map the os) else None)"

definition ipv4_text :: "nat list \<Rightarrow> string" where
  "ipv4_text ip = join ''.'' (map decimal ip)"

definition is_ipv4 :: "nat list \<Rightarrow> bool" where
  "is_ipv4 ip \<longleftrightarrow> length ip = 4 \<and> (\<forall>n \<in> set ip. n \<le> 255)"

subsection \<open>Round trip\<close>

lemma parse_octet_decimal: "n \<le> 255 \<Longrightarrow> parse_octet (decimal n) = Some n"
proof -
  assume n: "n \<le> 255"
  have len: "length (decimal n) \<le> 3" using length_decimal_less [of n 3] n by simp
  have "length (decimal n) = 1 \<or> hd (decimal n) \<noteq> CHR ''0''"
  proof -
    have "hd (decimal m) = CHR ''0'' \<Longrightarrow> m = 0" for m
    proof (induction m rule: decimal.induct)
      case (1 m)
      show ?case
      proof (cases "m < 10")
        case True
        then have "hd (decimal m) = digit_char m" by (subst decimal.simps) simp
        with 1 True have "bval (digit_char m) = 48" by simp
        with True show ?thesis by simp
      next
        case False
        then have "hd (decimal m) = hd (decimal (m div 10))" by (subst decimal.simps) simp
        with 1 False show ?thesis by simp
      qed
    qed
    moreover have "length (decimal 0) = 1" by (subst decimal.simps) simp
    ultimately show ?thesis by metis
  qed
  with n len show ?thesis by (simp add: parse_octet_def)
qed

lemma parse_octet_le: "parse_octet s = Some n \<Longrightarrow> n \<le> 255"
  by (auto simp: parse_octet_def split: if_splits)

lemma parse_ipv4_is: "parse_ipv4 s = Some ip \<Longrightarrow> is_ipv4 ip"
  by (auto simp: parse_ipv4_def is_ipv4_def Let_def split: if_splits)
    (metis image_eqI option.collapse parse_octet_le)

lemma ipv4_text_chars: "c \<in> set (ipv4_text ip) \<Longrightarrow> is_digit c \<or> c = CHR ''.''"
  using set_join [of "''.''" "map decimal ip"] by (auto simp: ipv4_text_def dest: set_decimal)

lemma length_ipv4_text: "is_ipv4 ip \<Longrightarrow> length (ipv4_text ip) \<le> 15"
proof -
  assume ip: "is_ipv4 ip"
  then obtain a b c d where q: "ip = [a, b, c, d]"
    by (auto simp: is_ipv4_def numeral_eq_Suc length_Suc_conv)
  have "length (decimal n) \<le> 3" if "n \<in> {a, b, c, d}" for n
    using ip q that length_decimal_less [of n 3] by (auto simp: is_ipv4_def)
  then have "length (decimal a) \<le> 3" "length (decimal b) \<le> 3" "length (decimal c) \<le> 3"
    "length (decimal d) \<le> 3" by auto
  then show ?thesis unfolding q ipv4_text_def by (simp)
qed

lemma parse_ipv4_text: "is_ipv4 ip \<Longrightarrow> parse_ipv4 (ipv4_text ip) = Some ip"
proof -
  assume ip: "is_ipv4 ip"
  have "split_on (CHR ''.'') (ipv4_text ip) = map decimal ip"
    unfolding ipv4_text_def using ip
    by (intro split_on_join) (auto simp: is_ipv4_def is_digit_def dest: set_decimal)
  moreover have "map parse_octet (map decimal ip) = map Some ip"
    using ip by (auto simp: is_ipv4_def parse_octet_decimal)
  ultimately show ?thesis
    using ip length_ipv4_text [OF ip] by (auto simp: parse_ipv4_def is_ipv4_def Let_def comp_def
        intro!: map_idI)
qed

interpretation ipv4_codec: codec ipv4_text parse_ipv4 is_ipv4
  by unfold_locales (rule parse_ipv4_text)

end
