(* ===== verification/Event_Messages.thy ===== *)
theory Event_Messages
  imports Notify_Queue Xml_Escape Url_Paths Media_Formats Http_Syntax Ipv4_Text
begin

text \<open>
  The texts of GENA eventing (\<open>crates/server/src/events.rs\<close>): the \<open>TIMEOUT\<close> and \<open>CALLBACK\<close>
  request headers, the property sets, the \<open>NOTIFY\<close> request and the status line of its answer.
\<close>

subsection \<open>Request headers\<close>

definition parse_timeout :: "string option \<Rightarrow> nat" where
  "parse_timeout header =
     (case header of
        None \<Rightarrow> DEFAULT_TIMEOUT_SECS
      | Some h \<Rightarrow>
          let v = trim h in
          if v = [] then DEFAULT_TIMEOUT_SECS
          else
            (case (case strip_prefix ''Second-'' v of
                     Some r \<Rightarrow> Some r | None \<Rightarrow> strip_prefix ''second-'' v) of
               None \<Rightarrow> DEFAULT_TIMEOUT_SECS
             | Some r \<Rightarrow>
                 if eq_ignore_case r ''infinite'' then MAX_TIMEOUT_SECS
                 else
                   let n = (case parse_uint u32_max (trim r) of
                              None \<Rightarrow> DEFAULT_TIMEOUT_SECS | Some n \<Rightarrow> n)
                   in max MIN_TIMEOUT_SECS (min n MAX_TIMEOUT_SECS)))"

definition service_from_path :: "string \<Rightarrow> event_service option" where
  "service_from_path path =
     (if path = CONTENTDIRECTORY_EVENTURL then Some ContentDirEvents
      else if path = CONNECTIONMGR_EVENTURL then Some ConnMgrEvents
      else if path = MS_REGISTRAR_EVENTURL then Some RegistrarEvents
      else None)"

record callback_url =
  cb_ip :: "nat list"
  cb_port :: nat
  cb_path :: string

definition host_header :: "callback_url \<Rightarrow> string" where
  "host_header cb =
     (if cb_port cb = 80 then ipv4_text (cb_ip cb)
      else ipv4_text (cb_ip cb) @ '':'' @ decimal (cb_port cb))"

definition as_url :: "callback_url \<Rightarrow> string" where
  "as_url cb =
     (if cb_port cb = 80 then ''http://'' @ ipv4_text (cb_ip cb) @ cb_path cb
      else ''http://'' @ ipv4_text (cb_ip cb) @ '':'' @ decimal (cb_port cb) @ cb_path cb)"

definition callback_path_byte :: "char \<Rightarrow> bool" where
  "callback_path_byte c \<longleftrightarrow> 33 \<le> bval c \<and> bval c \<le> 126 \<and> c \<noteq> CHR 0x5C"

definition sanitize_callback_path :: "string \<Rightarrow> string option" where
  "sanitize_callback_path path =
     (if path = [] then Some ''/''
      else if \<not> prefix ''/'' path \<or> length path > 1024 then None
      else if \<not> list_all callback_path_byte path then None
      else Some path)"

definition split_authority :: "string \<Rightarrow> (string \<times> nat) option" where
  "split_authority auth =
     (case rsplit_once (CHR '':'') auth of
        Some (h, p) \<Rightarrow>
          if h \<noteq> [] \<and> p \<noteq> [] \<and> all_digits p
          then map_option (Pair h) (parse_uint u16_max p) else Some (auth, 80)
      | None \<Rightarrow> Some (auth, 80))"

definition callback_of :: "string \<Rightarrow> string \<Rightarrow> callback_url option" where
  "callback_of auth path =
     (if auth = [] then None
      else Option.bind (split_authority auth) (\<lambda>(host, port).
        if port = 0 then None
        else Option.bind (parse_ipv4 host) (\<lambda>ip.
          Option.bind (sanitize_callback_path path) (\<lambda>path'.
            Some \<lparr>cb_ip = ip, cb_port = port, cb_path = path'\<rparr>))))"

definition parse_http_callback :: "string \<Rightarrow> callback_url option" where
  "parse_http_callback url =
     Option.bind (strip_prefix ''http://'' url) (\<lambda>rest.
       case split_once (CHR ''/'') rest of
         Some (auth, p) \<Rightarrow> callback_of auth (CHR ''/'' # p)
       | None \<Rightarrow> callback_of rest ''/'')"

definition parse_callback :: "string \<Rightarrow> callback_url option" where
  "parse_callback header =
     Option.bind (split_once (CHR ''<'') header) (\<lambda>(_, rest).
     Option.bind (split_once (CHR ''>'') rest) (\<lambda>(inner, _).
       parse_http_callback (trim inner)))"

subsection \<open>Property sets\<close>

definition content_dir_pairs_propertyset :: "nat \<Rightarrow> (string \<times> nat) list \<Rightarrow> string" where
  "content_dir_pairs_propertyset update_id pairs =
     (let updates = join '','' (map (\<lambda>(container_id, n). escape_xml container_id @ '','' @ decimal n) pairs)
      in
      ''<e:propertyset xmlns:e='' @ dq @ ''urn:schemas-upnp-org:event-1-0'' @ dq @
      '' xmlns:s='' @ dq @ ''urn:schemas-upnp-org:service:ContentDirectory:1'' @ dq @ ''>'' @
      crlf @ ''  <e:property><SystemUpdateID>'' @ decimal update_id @
      ''</SystemUpdateID></e:property>'' @ crlf @ ''  <e:property><ContainerUpdateIDs>'' @
      updates @ ''</ContainerUpdateIDs></e:property>'' @ crlf @ ''</e:propertyset>'')"

definition content_dir_propertyset :: "nat \<Rightarrow> string list \<Rightarrow> string" where
  "content_dir_propertyset update_id container_ids =
     content_dir_pairs_propertyset update_id (map (\<lambda>k. (k, update_id)) container_ids)"

definition propertyset :: "event_service \<Rightarrow> nat \<Rightarrow> string" where
  "propertyset service update_id =
     (case service of
        ContentDirEvents \<Rightarrow> content_dir_propertyset update_id []
      | ConnMgrEvents \<Rightarrow>
          ''<e:propertyset xmlns:e='' @ dq @ ''urn:schemas-upnp-org:event-1-0'' @ dq @
          '' xmlns:s='' @ dq @ ''urn:schemas-upnp-org:service:ConnectionManager:1'' @ dq @
          ''>'' @ crlf @ ''  <e:property><SourceProtocolInfo>'' @ protocol_info_source @
          ''</SourceProtocolInfo></e:property>'' @ crlf @
          ''  <e:property><SinkProtocolInfo></SinkProtocolInfo></e:property>'' @ crlf @
          ''  <e:property><CurrentConnectionIDs>0</CurrentConnectionIDs></e:property>'' @
          crlf @ ''</e:propertyset>''
      | RegistrarEvents \<Rightarrow>
          ''<e:propertyset xmlns:e='' @ dq @ ''urn:schemas-upnp-org:event-1-0'' @ dq @
          '' xmlns:s='' @ dq @ ''urn:microsoft.com:service:X_MS_MediaReceiverRegistrar:1'' @
          dq @ ''>'' @ crlf @
          ''  <e:property><AuthorizationGrantedUpdateID>1</AuthorizationGrantedUpdateID></e:property>'' @
          crlf @ ''</e:propertyset>'')"

definition render_body :: "notify_body \<Rightarrow> string" where
  "render_body b =
     (case b of
        Snapshot body \<Rightarrow> body
      | ContentDirBody u \<Rightarrow>
          content_dir_pairs_propertyset (unat (cu_update_id u))
            (map (\<lambda>(k, i). (k, unat i)) (cu_containers u)))"

subsection \<open>The NOTIFY request and its answer\<close>

definition notify_lines :: "notify_job \<Rightarrow> string \<Rightarrow> callback_url \<Rightarrow> string list" where
  "notify_lines job body cb =
     [''NOTIFY '' @ cb_path cb @ '' HTTP/1.1'',
      ''Host: '' @ host_header cb,
      ''Content-Type: text/xml; charset='' @ dq @ ''utf-8'' @ dq,
      ''Content-Length: '' @ decimal (length body),
      ''NT: upnp:event'',
      ''NTS: upnp:propchange'',
      ''SID: '' @ job_sid job,
      ''SEQ: '' @ decimal (unat (job_seq job)),
      ''Connection: close'',
      ''Cache-Control: no-cache'']"

text \<open>The bytes sent, when the stored callback still parses.\<close>

definition notify_wire :: "notify_job \<Rightarrow> string \<Rightarrow> string option" where
  "notify_wire job body =
     map_option (\<lambda>cb. join crlf (notify_lines job body cb) @ crlf @ crlf @ body)
       (parse_http_callback (job_callback job))"

definition classify_status :: "nat \<Rightarrow> delivery_outcome" where
  "classify_status status =
     (if 200 \<le> status \<and> status \<le> 299 then Delivered
      else if status \<in> {408, 425, 429} \<or> (500 \<le> status \<and> status \<le> 599) then RetryableFailure
      else PermanentFailure)"

text \<open>What the bytes of the status line say, up to and including its line feed.\<close>

definition delivery_outcome_of :: "string \<Rightarrow> delivery_outcome" where
  "delivery_outcome_of line =
     (if line = [] \<or> length line > 128 \<or> \<not> utf8_valid line then PermanentFailure
      else
        (case split_whitespace (rev (dropWhile (\<lambda>c. c = cr \<or> c = lf) (rev line))) of
           version # status # _ \<Rightarrow>
             if version \<in> {''HTTP/1.0'', ''HTTP/1.1''} \<and> length status = 3
             then (case parse_uint u16_max status of
                     Some n \<Rightarrow> classify_status n | None \<Rightarrow> PermanentFailure)
             else PermanentFailure
         | _ \<Rightarrow> PermanentFailure))"

subsection \<open>Round trip of a callback URL\<close>

definition callback_ok :: "callback_url \<Rightarrow> bool" where
  "callback_ok cb \<longleftrightarrow> is_ipv4 (cb_ip cb) \<and> 0 < cb_port cb \<and> cb_port cb \<le> u16_max \<and>
     prefix ''/'' (cb_path cb) \<and> length (cb_path cb) \<le> 1024 \<and> list_all callback_path_byte (cb_path cb)"

lemma sanitize_ok:
  "sanitize_callback_path p = Some q \<Longrightarrow>
     prefix ''/'' q \<and> length q \<le> 1024 \<and> list_all callback_path_byte q"
  by (auto simp: sanitize_callback_path_def callback_path_byte_def split: if_splits)

lemma parse_http_callback_ok: "parse_http_callback url = Some cb \<Longrightarrow> callback_ok cb"
proof -
  assume "parse_http_callback url = Some cb"
  then obtain auth p where "callback_of auth p = Some cb"
    by (auto simp: parse_http_callback_def bind_eq_Some_conv split: option.splits)
  then obtain host port ip where a: "split_authority auth = Some (host, port)" "port \<noteq> 0"
    "parse_ipv4 host = Some ip" "sanitize_callback_path p = Some (cb_path cb)" "cb_ip cb = ip"
    "cb_port cb = port"
    by (auto simp: callback_of_def bind_eq_Some_conv split: if_splits)
  have "port \<le> u16_max"
    using a(1) by (auto simp: split_authority_def u16_max_def dest: parse_uint_bound
        split: option.splits prod.splits if_splits)
  with a parse_ipv4_is [OF a(3)] sanitize_ok [OF a(4)] show ?thesis by (simp add: callback_ok_def)
qed

lemma parse_as_url: "callback_ok cb \<Longrightarrow> parse_http_callback (as_url cb) = Some cb"
proof -
  assume ok: "callback_ok cb"
  then obtain p where p: "cb_path cb = CHR ''/'' # p" by (auto simp: callback_ok_def prefix_def)
  define auth where "auth = (if cb_port cb = 80 then ipv4_text (cb_ip cb)
    else ipv4_text (cb_ip cb) @ CHR '':'' # decimal (cb_port cb))"
  have url: "as_url cb = ''http://'' @ auth @ CHR ''/'' # p"
    by (simp add: as_url_def auth_def p)
  have no: "CHR ''/'' \<notin> set (ipv4_text (cb_ip cb))" "CHR '':'' \<notin> set (ipv4_text (cb_ip cb))"
    by (auto dest: ipv4_text_chars simp: is_digit_def)
  have nod: "CHR ''/'' \<notin> set (decimal n)" "CHR '':'' \<notin> set (decimal n)" for n
    by (auto dest: set_decimal simp: is_digit_def)
  have ne: "ipv4_text (cb_ip cb) \<noteq> []"
    using parse_ipv4_text [of "cb_ip cb"] ok
    by (auto simp: callback_ok_def parse_ipv4_def is_ipv4_def split: if_splits)
  have "split_once (CHR ''/'') (auth @ CHR ''/'' # p) = Some (auth, p)"
    using no nod by (intro split_once_append) (simp add: auth_def)
  moreover have "auth \<noteq> []" using ne by (simp add: auth_def)
  moreover have "split_authority auth = Some (ipv4_text (cb_ip cb), cb_port cb)"
  proof (cases "cb_port cb = 80")
    case True
    have "rsplit_once (CHR '':'') (ipv4_text (cb_ip cb)) = None"
      using no(2) by (simp add: rsplit_once_def split_once_None)
    with True show ?thesis by (simp add: auth_def split_authority_def)
  next
    case False
    have "rsplit_once (CHR '':'') (ipv4_text (cb_ip cb) @ CHR '':'' # decimal (cb_port cb)) =
        Some (ipv4_text (cb_ip cb), decimal (cb_port cb))"
      using nod(2) by (rule rsplit_once_append)
    with False ne ok show ?thesis
      by (simp add: auth_def split_authority_def callback_ok_def)
  qed
  moreover have "sanitize_callback_path (CHR ''/'' # p) = Some (cb_path cb)"
    using ok p by (auto simp: sanitize_callback_path_def callback_ok_def)
  ultimately show ?thesis
    unfolding url parse_http_callback_def using ok
    by (simp add: strip_prefix_def callback_of_def callback_ok_def parse_ipv4_text)
qed

lemma callback_path_no_crlf: "list_all callback_path_byte p \<Longrightarrow> cr \<notin> set p \<and> lf \<notin> set p"
proof -
  have "\<not> callback_path_byte cr" "\<not> callback_path_byte lf"
    by (simp_all add: callback_path_byte_def cr_def lf_def)
  then show "list_all callback_path_byte p \<Longrightarrow> cr \<notin> set p \<and> lf \<notin> set p"
    unfolding list_all_iff by blast
qed

subsection \<open>Properties\<close>

text \<open>
  A granted subscription always lasts between 30 seconds and 30 minutes, and a well-formed
  \<open>Second-n\<close> is granted as asked within these bounds.
\<close>
theorem granted_timeout:
  "MIN_TIMEOUT_SECS \<le> parse_timeout h \<and> parse_timeout h \<le> MAX_TIMEOUT_SECS \<and>
   (n \<le> u32_max \<longrightarrow> parse_timeout (Some (''Second-'' @ decimal n)) = max 30 (min n 1800))"
proof (intro conjI impI)
  show "MIN_TIMEOUT_SECS \<le> parse_timeout h" "parse_timeout h \<le> MAX_TIMEOUT_SECS"
    by (auto simp: parse_timeout_def Let_def MIN_TIMEOUT_SECS_def MAX_TIMEOUT_SECS_def
        DEFAULT_TIMEOUT_SECS_def split: option.splits)
next
  assume n: "n \<le> u32_max"
  have g: "graphic c" if "c \<in> set (decimal n)" for c
    using that by (auto dest!: set_decimal simp: digit_graphic)
  then have l: "graphic (last (decimal n))" "graphic (hd (decimal n))" by simp_all
  then have t1: "trim (''Second-'' @ decimal n) = ''Second-'' @ decimal n"
    by (intro trim_id) (simp add: graphic_def)
  have t2: "trim (decimal n) = decimal n" using l by (intro trim_id) simp
  have "\<not> eq_ignore_case (decimal n) ''infinite''"
  proof
    assume e: "eq_ignore_case (decimal n) ''infinite''"
    obtain c cs where d: "decimal n = c # cs" by (cases "decimal n") auto
    then have c: "is_digit c" using set_decimal [of c n] by simp
    have "ascii_lower (decimal n) = ''infinite''" using e by (simp add: eq_ignore_case_def lower_eval)
    then have "lower_char c = CHR ''i''" by (simp add: d ascii_lower_def)
    moreover have "lower_char c = c" using c by (simp add: lower_char_def is_upper_def is_digit_def)
    ultimately show False using c by (simp add: is_digit_def)
  qed
  then show "parse_timeout (Some (''Second-'' @ decimal n)) = max 30 (min n 1800)"
    using n t1 t2
    by (simp add: parse_timeout_def Let_def MIN_TIMEOUT_SECS_def MAX_TIMEOUT_SECS_def strip_prefix_def
       )
qed

lemma granted_timeout_witness: "parse_timeout (Some (''Second-'' @ decimal 7200)) = 1800"
  using granted_timeout [of None 7200] by (simp add: u32_max_def)

text \<open>
  A callback URL that is accepted is a plain IPv4 address with a port between 1 and 65535 and a
  printable origin-form path, and the URL that is stored for it parses back to the same address,
  port and path, so that every accepted subscription can be notified.
\<close>
theorem callback_roundtrip:
  assumes "parse_callback header = Some cb"
  shows "is_ipv4 (cb_ip cb) \<and> 0 < cb_port cb \<and> cb_port cb \<le> 65535 \<and> prefix ''/'' (cb_path cb) \<and>
    list_all callback_path_byte (cb_path cb) \<and> parse_http_callback (as_url cb) = Some cb"
proof -
  have "callback_ok cb"
    using assms by (auto simp: parse_callback_def bind_eq_Some_conv intro: parse_http_callback_ok)
  then show ?thesis by (simp add: callback_ok_def u16_max_def parse_as_url)
qed

definition sample_callback :: callback_url where
  "sample_callback = \<lparr>cb_ip = [10, 0, 0, 3], cb_port = 8080, cb_path = ''/e''\<rparr>"

lemma sample_callback_ok: "callback_ok sample_callback"
  by (simp add: sample_callback_def callback_ok_def is_ipv4_def u16_max_def callback_path_byte_def)

lemma sample_callback_parses: "parse_callback (''<'' @ as_url sample_callback @ ''>'') = Some sample_callback"
proof -
  have url: "as_url sample_callback = ''http://10.0.0.3:8080/e''"
    by (simp add: sample_callback_def as_url_def ipv4_text_def decimal_eval)
  have "trim ''http://10.0.0.3:8080/e'' = ''http://10.0.0.3:8080/e''"
    by (rule trim_id) (simp add: graphic_def)
  then show ?thesis
    using parse_as_url [OF sample_callback_ok] url by (simp add: parse_callback_def)
qed

lemma callback_roundtrip_witness: "parse_http_callback (as_url sample_callback) = Some sample_callback"
  using callback_roundtrip [OF sample_callback_parses] by blast

lemma callback_path_plain:
  assumes "list_all callback_path_byte p"
  shows "is_http_field_value p" "CHR '' '' \<notin> set p" "\<forall>c\<in>set p. 33 \<le> bval c \<and> bval c \<le> 126"
proof -
  show bytes: "\<forall>c\<in>set p. 33 \<le> bval c \<and> bval c \<le> 126"
    using assms by (simp add: list_all_iff callback_path_byte_def)
  then show "CHR '' '' \<notin> set p" by force
  show "is_http_field_value p"
    using bytes by (auto simp: is_http_field_value_def field_value_byte_def list_all_iff)
qed

lemma notify_lines_plain:
  assumes "callback_ok cb" "is_http_field_value (job_sid job)" "l \<in> set (notify_lines job body cb)"
  shows "is_http_field_value l"
proof -
  have path: "is_http_field_value (cb_path cb)" using assms(1) callback_path_plain(1) by (simp add: callback_ok_def)
  have digits: "is_http_field_value (decimal n)" for n
    by (auto simp: is_http_field_value_def field_value_byte_def list_all_iff is_digit_def dest: set_decimal)
  have "is_http_field_value (ipv4_text (cb_ip cb))"
    by (auto simp: is_http_field_value_def field_value_byte_def list_all_iff is_digit_def dest: ipv4_text_chars)
  then have host: "is_http_field_value (host_header cb)"
    using digits by (simp add: host_header_def is_http_field_value_append) (simp add: is_http_field_value_def field_value_byte_def)
  have "\<forall>l\<in>set (notify_lines job body cb). is_http_field_value l"
    using path host digits assms(2)
    by (simp add: notify_lines_def is_http_field_value_append dq_def)
      (simp add: is_http_field_value_def field_value_byte_def)
  with assms(3) show ?thesis by blast
qed

text \<open>
  C9: A renderer cannot inject anything into the NOTIFY request through its callback. Whatever URL it
  subscribed with, the head of the request consists of exactly the ten lines the server writes,
  followed by an empty line and the body; no line contains a carriage return, a line feed or another
  control character; and the request line is three words, of which the callback's path is the second and
  has no byte outside the printable range and no backslash.
\<close>
theorem notify_head_exact:
  assumes "notify_wire job body = Some wire" "is_http_field_value (job_sid job)"
  shows "\<exists>cb. parse_http_callback (job_callback job) = Some cb \<and>
    (\<exists>head. wire = head @ crlf @ crlf @ body \<and> split_str crlf head = notify_lines job body cb \<and>
      length (split_str crlf head) = 10) \<and>
    (\<forall>l\<in>set (notify_lines job body cb). cr \<notin> set l \<and> lf \<notin> set l \<and> is_http_field_value l) \<and>
    split_on (CHR '' '') (hd (notify_lines job body cb)) = [''NOTIFY'', cb_path cb, ''HTTP/1.1''] \<and>
    (\<forall>c\<in>set (cb_path cb). 33 \<le> bval c \<and> bval c \<le> 126 \<and> c \<noteq> CHR 0x5C)"
proof -
  obtain cb where cb: "parse_http_callback (job_callback job) = Some cb"
    "wire = join crlf (notify_lines job body cb) @ crlf @ crlf @ body"
    using assms(1) by (auto simp: notify_wire_def)
  note ok = parse_http_callback_ok [OF cb(1)]
  have plain: "cr \<notin> set l \<and> lf \<notin> set l \<and> is_http_field_value l" if "l \<in> set (notify_lines job body cb)" for l
    using notify_lines_plain [OF ok assms(2) that] is_http_field_value_no_crlf by blast
  then have split: "split_str crlf (join crlf (notify_lines job body cb)) = notify_lines job body cb"
    by (intro split_crlf_join) (auto simp: notify_lines_def)
  have path: "list_all callback_path_byte (cb_path cb)" using ok by (simp add: callback_ok_def)
  have words: "split_on (CHR '' '') (hd (notify_lines job body cb)) = [''NOTIFY'', cb_path cb, ''HTTP/1.1'']"
    using split_on_append [OF callback_path_plain(2) [OF path], of "''HTTP/1.1''"] by (simp add: notify_lines_def)
  have "\<forall>c\<in>set (cb_path cb). 33 \<le> bval c \<and> bval c \<le> 126 \<and> c \<noteq> CHR 0x5C"
    using path by (simp add: list_all_iff callback_path_byte_def)
  moreover have "length (notify_lines job body cb) = 10" by (simp add: notify_lines_def)
  ultimately show ?thesis using cb split plain words by (intro exI [of _ cb]) simp
qed

definition sample_job :: notify_job where
  "sample_job = \<lparr>job_sid = ''uuid:1'', job_callback = as_url sample_callback, job_seq = 0\<rparr>"

lemma notify_head_exact_witness:
  "\<exists>cb. parse_http_callback (job_callback sample_job) = Some cb \<and>
     split_on (CHR '' '') (hd (notify_lines sample_job ''<x/>'' cb)) = [''NOTIFY'', cb_path cb, ''HTTP/1.1'']"
proof -
  have "notify_wire sample_job ''<x/>'' = Some (join crlf (notify_lines sample_job ''<x/>'' sample_callback)
      @ crlf @ crlf @ ''<x/>'')"
    using parse_as_url [OF sample_callback_ok] by (simp add: notify_wire_def sample_job_def)
  moreover have "is_http_field_value (job_sid sample_job)"
    by (simp add: sample_job_def is_http_field_value_def field_value_byte_def)
  ultimately show ?thesis using notify_head_exact by blast
qed

end
