(* ===== verification/Http_Request.thy ===== *)
theory Http_Request
  imports Http_Syntax Decimal
begin

text \<open>
  HTTP/1.x request heads (\<open>crates/http/src/request.rs\<close>): the request line and the header fields
  with the rules against request smuggling. The loop over the lines is a fold with an early exit.
\<close>

record http_request =
  rq_method :: string
  rq_target :: string
  rq_path :: string
  rq_query :: string
  rq_version :: string
  rq_headers :: "(string \<times> string) list"
  rq_body :: string

datatype parse_error =
  Incomplete | BadRequestLine | UnsupportedVersion | MalformedHeader | ObsoleteFold
| InvalidHeaderName | InvalidHeaderValue | InvalidContentLength | ConflictingContentLength
| TransferEncodingWithContentLength | UnsupportedTransferEncoding | DuplicateHost
| DuplicateSoapAction

subsection \<open>Looking headers up\<close>

definition find_header :: "string \<Rightarrow> (string \<times> string) list \<Rightarrow> string option" where
  "find_header name hs = map_option snd (List.find (\<lambda>(k, _). eq_ignore_case k name) hs)"

definition rq_header :: "http_request \<Rightarrow> string \<Rightarrow> string option" where
  "rq_header r name = find_header name (rq_headers r)"

definition rq_content_length :: "http_request \<Rightarrow> nat option" where
  "rq_content_length r = Option.bind (rq_header r ''Content-Length'') (parse_uint usize_max)"

definition connection_token :: "string \<Rightarrow> http_request \<Rightarrow> bool" where
  "connection_token token r =
     (case rq_header r ''Connection'' of
        None \<Rightarrow> False
      | Some v \<Rightarrow> list_ex (\<lambda>t. eq_ignore_case (trim t) token) (split_on (CHR '','') v))"

definition conn_close :: "http_request \<Rightarrow> bool" where
  "conn_close r = connection_token ''close'' r"

definition conn_keep :: "http_request \<Rightarrow> bool" where
  "conn_keep r = connection_token ''keep-alive'' r"

definition rq_user_agent :: "http_request \<Rightarrow> string option" where
  "rq_user_agent r = rq_header r ''User-Agent''"

subsection \<open>Header lines\<close>

record head_state =
  hs_headers :: "(string \<times> string) list"
  hs_length :: "nat option"
  hs_transfer :: bool
  hs_host :: bool
  hs_soap :: bool

text \<open>A repeated field is appended to the first one.\<close>

fun merge_header :: "string \<Rightarrow> string \<Rightarrow> (string \<times> string) list \<Rightarrow> (string \<times> string) list" where
  "merge_header name v [] = [(name, v)]"
| "merge_header name v ((k, w) # hs) =
     (if eq_ignore_case k name then (k, w @ '', '' @ v) # hs else (k, w) # merge_header name v hs)"

definition content_length_line ::
  "string \<Rightarrow> string \<Rightarrow> head_state \<Rightarrow> parse_error + head_state" where
  "content_length_line name v s =
     (if v = [] \<or> \<not> all_digits v then Inl InvalidContentLength
      else
        (case parse_uint usize_max v of
           None \<Rightarrow> Inl InvalidContentLength
         | Some n \<Rightarrow>
             if hs_length s \<noteq> None \<and> hs_length s \<noteq> Some n then Inl ConflictingContentLength
             else if hs_length s = None
             then Inr (s\<lparr>hs_length := Some n, hs_headers := hs_headers s @ [(name, v)]\<rparr>)
             else Inr s))"

definition field_line :: "string \<Rightarrow> string \<Rightarrow> head_state \<Rightarrow> parse_error + head_state" where
  "field_line name v s =
     (let s1 = (if eq_ignore_case name ''Transfer-Encoding'' then s\<lparr>hs_transfer := True\<rparr> else s);
          host = eq_ignore_case name ''Host''; soap = eq_ignore_case name ''SOAPAction''
      in if host \<and> hs_host s1 then Inl DuplicateHost
         else
           let s2 = (if host then s1\<lparr>hs_host := True\<rparr> else s1)
           in if soap \<and> hs_soap s2 then Inl DuplicateSoapAction
              else
                let s3 = (if soap then s2\<lparr>hs_soap := True\<rparr> else s2)
                in Inr (s3\<lparr>hs_headers := merge_header name v (hs_headers s3)\<rparr>))"

definition header_line :: "string \<Rightarrow> head_state \<Rightarrow> parse_error + head_state" where
  "header_line line s =
     (if line = [] then Inr s
      else if is_ows (hd line) then Inl ObsoleteFold
      else
        (case split_once (CHR '':'') line of
           None \<Rightarrow> Inl MalformedHeader
         | Some (name, raw) \<Rightarrow>
             if \<not> is_http_token name then Inl InvalidHeaderName
             else
               let v = trim_http_ows raw
               in if \<not> is_http_field_value v then Inl InvalidHeaderValue
                  else if eq_ignore_case name ''Content-Length'' then content_length_line name v s
                  else field_line name v s))"

fun header_lines :: "string list \<Rightarrow> head_state \<Rightarrow> parse_error + head_state" where
  "header_lines [] s = Inr s"
| "header_lines (line # lines) s = bind_res (header_line line s) (header_lines lines)"

definition target_byte :: "char \<Rightarrow> bool" where
  "target_byte c \<longleftrightarrow> \<not> (bval c \<le> 32 \<or> bval c = 127)"

definition request_line :: "string \<Rightarrow> parse_error + (string \<times> string \<times> string)" where
  "request_line line =
     (case split_on (CHR '' '') line of
        [m, target, version] \<Rightarrow>
          if \<not> is_http_token m \<or> target = [] \<or> \<not> prefix ''/'' target \<or> \<not> list_all target_byte target
          then Inl BadRequestLine
          else if version \<noteq> ''HTTP/1.0'' \<and> version \<noteq> ''HTTP/1.1'' then Inl UnsupportedVersion
          else Inr (m, target, version)
      | _ \<Rightarrow> Inl BadRequestLine)"

definition parse_headers :: "string \<Rightarrow> parse_error + http_request" where
  "parse_headers raw =
     bind_res (ok_or Incomplete (split_once_str (crlf @ crlf) raw)) (\<lambda>(head, _).
     let lines = split_str crlf head in
     bind_res (request_line (hd lines)) (\<lambda>(m, target, version).
     bind_res (header_lines (tl lines)
         \<lparr>hs_headers = [], hs_length = None, hs_transfer = False, hs_host = False, hs_soap = False\<rparr>) (\<lambda>s.
       if hs_transfer s \<and> hs_length s \<noteq> None then Inl TransferEncodingWithContentLength
       else if hs_transfer s then Inl UnsupportedTransferEncoding
       else
         let (path, query) =
               (case split_once (CHR ''?'') target of Some pq \<Rightarrow> pq | None \<Rightarrow> (target, []))
         in Inr \<lparr>rq_method = m, rq_target = target, rq_path = path, rq_query = query,
              rq_version = version, rq_headers = hs_headers s, rq_body = []\<rparr>)))"

definition header_block_complete :: "string \<Rightarrow> nat option" where
  "header_block_complete buf = map_option (\<lambda>i. i + 4) (find_str (crlf @ crlf) buf)"

subsection \<open>Header tables\<close>

abbreviation header_names :: "(string \<times> string) list \<Rightarrow> string list" where
  "header_names hs \<equiv> map (\<lambda>(k, _). ascii_lower k) hs"

lemma find_header_Nil [simp]: "find_header n [] = None"
  by (simp add: find_header_def)

lemma find_header_Cons [simp]:
  "find_header n ((k, v) # hs) = (if eq_ignore_case k n then Some v else find_header n hs)"
  by (simp add: find_header_def)

lemma find_header_append:
  "find_header n (hs @ hs') = (case find_header n hs of None \<Rightarrow> find_header n hs' | Some v \<Rightarrow> Some v)"
  by (induction hs) auto

lemma find_header_None: "find_header n hs = None \<longleftrightarrow> ascii_lower n \<notin> set (header_names hs)"
proof (induction hs)
  case (Cons h hs)
  obtain k v where h: "h = (k, v)" by fastforce
  show ?case
    using Cons by (cases "ascii_lower k = ascii_lower n") (simp_all add: h eq_ignore_case_def)
qed simp

lemma find_header_mem: "find_header n hs = Some v \<Longrightarrow> \<exists>k. (k, v) \<in> set hs"
  by (induction hs) (auto split: if_splits)

lemma names_merge:
  "header_names (merge_header name v hs) =
     (if ascii_lower name \<in> set (header_names hs) then header_names hs
      else header_names hs @ [ascii_lower name])"
  by (induction name v hs rule: merge_header.induct) (auto simp: eq_ignore_case_def)

text \<open>Setting a header is seen by looking it up, and by no other lookup.\<close>

lemma find_merge:
  "find_header n (merge_header name v hs) =
     (if eq_ignore_case name n
      then Some (case find_header n hs of None \<Rightarrow> v | Some w \<Rightarrow> w @ '', '' @ v)
      else find_header n hs)"
  by (induction name v hs rule: merge_header.induct) (auto simp: eq_ignore_case_def)

lemma comma_field_value: "is_http_field_value '', ''"
  by (simp add: is_http_field_value_def field_value_byte_def)

lemma merge_fields:
  "(k, w) \<in> set (merge_header name v hs) \<Longrightarrow> is_http_token name \<Longrightarrow> is_http_field_value v \<Longrightarrow>
   (\<And>k w. (k, w) \<in> set hs \<Longrightarrow> is_http_token k \<and> is_http_field_value w) \<Longrightarrow>
   is_http_token k \<and> is_http_field_value w"
proof (induction name v hs rule: merge_header.induct)
  case (2 name v k' w' hs)
  have h: "is_http_token k' \<and> is_http_field_value w'" using "2.prems"(4) [of k' w'] by simp
  have hs: "is_http_token a \<and> is_http_field_value b" if "(a, b) \<in> set hs" for a b
    using "2.prems"(4) [of a b] that by simp
  show ?case
  proof (cases "eq_ignore_case k' name")
    case True
    with "2.prems"(1) have "(k, w) = (k', w' @ '', '' @ v) \<or> (k, w) \<in> set hs" by auto
    moreover have "is_http_field_value (w' @ '', '' @ v)"
      using h "2.prems"(3) comma_field_value by (simp only: is_http_field_value_append)
    ultimately show ?thesis using h hs by auto
  next
    case False
    then have "(k, w) = (k', w') \<or> (k, w) \<in> set (merge_header name v hs)" using "2.prems"(1) by auto
    with "2.IH" [OF False _ "2.prems"(2,3)] h hs show ?thesis by blast
  qed
qed simp

definition head_ok :: "head_state \<Rightarrow> bool" where
  "head_ok s \<longleftrightarrow>
     distinct (header_names (hs_headers s)) \<and>
     (\<forall>k v. (k, v) \<in> set (hs_headers s) \<longrightarrow> is_http_token k \<and> is_http_field_value v) \<and>
     (hs_transfer s \<longleftrightarrow> find_header ''Transfer-Encoding'' (hs_headers s) \<noteq> None) \<and>
     (case find_header ''Content-Length'' (hs_headers s) of
        None \<Rightarrow> hs_length s = None
      | Some v \<Rightarrow> v \<noteq> [] \<and> all_digits v \<and> parse_uint usize_max v = hs_length s \<and> hs_length s \<noteq> None)"

lemma not_same_field: "eq_ignore_case name ''Content-Length'' \<Longrightarrow> \<not> eq_ignore_case name ''Transfer-Encoding''"
  using eq_ignore_case_length [of name "''Content-Length''"]
    eq_ignore_case_length [of name "''Transfer-Encoding''"] by auto

lemma content_length_line_ok:
  assumes "head_ok s" "content_length_line name v s = Inr t" "eq_ignore_case name ''Content-Length''"
    "is_http_token name" "is_http_field_value v"
  shows "head_ok t"
proof -
  obtain n where n: "v \<noteq> []" "all_digits v" "parse_uint usize_max v = Some n"
    "hs_length s = None \<or> hs_length s = Some n"
    and t: "t = (if hs_length s = None then s\<lparr>hs_length := Some n, hs_headers := hs_headers s @ [(name, v)]\<rparr> else s)"
    using assms(2) by (auto simp: content_length_line_def split: if_splits option.splits)
  show ?thesis
  proof (cases "hs_length s = None")
    case True
    have none: "find_header ''Content-Length'' (hs_headers s) = None"
      using assms(1) True by (auto simp: head_ok_def split: option.splits)
    have "ascii_lower name = ascii_lower ''Content-Length''"
      using assms(3) by (simp add: eq_ignore_case_def)
    then have fresh: "ascii_lower name \<notin> set (header_names (hs_headers s))"
      using find_header_None [of "''Content-Length''" "hs_headers s"] none by metis
    have te: "find_header ''Transfer-Encoding'' (hs_headers s @ [(name, v)]) =
        find_header ''Transfer-Encoding'' (hs_headers s)"
      using not_same_field [OF assms(3)] by (simp add: find_header_append split: option.splits)
    have cl: "find_header ''Content-Length'' (hs_headers s @ [(name, v)]) = Some v"
      using none assms(3) by (simp add: find_header_append)
    show ?thesis
      unfolding t head_ok_def using True assms(1,4,5) n fresh
      by (auto simp: te cl head_ok_def)
  next
    case False
    then have "t = s" unfolding t by (rule if_not_P)
    then show ?thesis using assms(1) by simp
  qed
qed

lemma field_line_ok:
  assumes "head_ok s" "field_line name v s = Inr t" "\<not> eq_ignore_case name ''Content-Length''"
    "is_http_token name" "is_http_field_value v"
  shows "head_ok t"
proof -
  have t: "hs_headers t = merge_header name v (hs_headers s)" "hs_length t = hs_length s"
    "hs_transfer t = (hs_transfer s \<or> eq_ignore_case name ''Transfer-Encoding'')"
    using assms(2) by (auto simp: field_line_def Let_def split: if_splits)
  have d: "distinct (header_names (hs_headers t))"
    using assms(1) by (simp add: t names_merge head_ok_def)
  have f: "\<forall>k w. (k, w) \<in> set (hs_headers t) \<longrightarrow> is_http_token k \<and> is_http_field_value w"
    using merge_fields [of _ _ name v "hs_headers s"] assms(1,4,5) by (simp add: t head_ok_def)
  show ?thesis
    unfolding head_ok_def using d f assms(1,3)
    by (simp add: t(1) find_merge head_ok_def) (simp add: t(2,3) split: option.splits)
qed

lemma header_line_ok: "head_ok s \<Longrightarrow> header_line line s = Inr t \<Longrightarrow> head_ok t"
  by (auto simp: header_line_def Let_def split: if_splits option.splits
      intro: content_length_line_ok field_line_ok)

lemma header_lines_ok: "head_ok s \<Longrightarrow> header_lines lines s = Inr t \<Longrightarrow> head_ok t"
  by (induction lines s rule: header_lines.induct) (auto dest: header_line_ok)

lemma request_line_ok:
  "request_line line = Inr (m, target, version) \<Longrightarrow>
     is_http_token m \<and> prefix ''/'' target \<and> list_all target_byte target \<and>
     version \<in> {''HTTP/1.0'', ''HTTP/1.1''} \<and> line = m @ '' '' @ target @ '' '' @ version"
proof -
  assume r: "request_line line = Inr (m, target, version)"
  then have s: "split_on (CHR '' '') line = [m, target, version]"
    by (auto simp: request_line_def split: list.splits if_splits)
  then have "line = m @ '' '' @ target @ '' '' @ version"
    using join_split_on [of "CHR '' ''" line] by simp
  with r s show ?thesis by (auto simp: request_line_def split: if_splits)
qed

subsection \<open>What the lines of the head say\<close>

text \<open>The name and the trimmed value of a line, and the values that all lines of one name give, in order.\<close>

definition line_field :: "string \<Rightarrow> (string \<times> string) option" where
  "line_field l = map_option (\<lambda>(k, v). (k, trim_http_ows v)) (split_once (CHR '':'') l)"

definition line_values :: "string \<Rightarrow> string list \<Rightarrow> string list" where
  "line_values n ls = map snd (filter (\<lambda>(k, _). eq_ignore_case k n) (List.map_filter line_field ls))"

definition line_plain :: "string \<Rightarrow> bool" where
  "line_plain l \<longleftrightarrow>
     l = [] \<or> \<not> is_ows (hd l) \<and>
       (case line_field l of None \<Rightarrow> False | Some (k, v) \<Rightarrow> is_http_token k \<and> is_http_field_value v)"

lemma line_values_Nil [simp]: "line_values n [] = []"
  by (simp add: line_values_def List.map_filter_simps)

lemma line_values_append: "line_values n (ls @ ms) = line_values n ls @ line_values n ms"
  by (simp add: line_values_def List.map_filter_def)

lemma line_values_one:
  "line_field l = Some (k, v) \<Longrightarrow> line_values n [l] = (if eq_ignore_case k n then [v] else [])"
  "line_field l = None \<Longrightarrow> line_values n [l] = []"
  by (simp_all add: line_values_def List.map_filter_simps)

definition joined :: "string list \<Rightarrow> string option" where
  "joined vs = (if vs = [] then None else Some (join '', '' vs))"

lemma joined_snoc: "joined (vs @ [v]) = Some (case joined vs of None \<Rightarrow> v | Some w \<Rightarrow> w @ '', '' @ v)"
  by (simp add: joined_def join_snoc)

text \<open>What the state says of the lines read so far.\<close>

definition head_reads :: "string list \<Rightarrow> head_state \<Rightarrow> bool" where
  "head_reads ls s \<longleftrightarrow>
     (\<forall>n. \<not> eq_ignore_case n ''Content-Length'' \<longrightarrow> find_header n (hs_headers s) = joined (line_values n ls)) \<and>
     (\<forall>v\<in>set (line_values ''Content-Length'' ls).
        v \<noteq> [] \<and> all_digits v \<and> parse_uint usize_max v = hs_length s \<and> hs_length s \<noteq> None) \<and>
     (line_values ''Content-Length'' ls = [] \<longleftrightarrow> hs_length s = None) \<and>
     find_header ''Content-Length'' (hs_headers s) = (case line_values ''Content-Length'' ls of [] \<Rightarrow> None | v # _ \<Rightarrow> Some v) \<and>
     length (line_values ''Host'' ls) \<le> 1 \<and> (hs_host s \<longleftrightarrow> line_values ''Host'' ls \<noteq> []) \<and>
     length (line_values ''SOAPAction'' ls) \<le> 1 \<and> (hs_soap s \<longleftrightarrow> line_values ''SOAPAction'' ls \<noteq> []) \<and>
     (hs_transfer s \<longleftrightarrow> line_values ''Transfer-Encoding'' ls \<noteq> []) \<and> list_all line_plain ls"

lemma other_names:
  "eq_ignore_case k ''Content-Length'' \<Longrightarrow> \<not> eq_ignore_case k ''Host''"
  "eq_ignore_case k ''Content-Length'' \<Longrightarrow> \<not> eq_ignore_case k ''SOAPAction''"
  "eq_ignore_case k ''Content-Length'' \<Longrightarrow> \<not> eq_ignore_case k ''Transfer-Encoding''"
  using eq_ignore_case_length [of k "''Content-Length''"] eq_ignore_case_length [of k "''Host''"]
    eq_ignore_case_length [of k "''SOAPAction''"] eq_ignore_case_length [of k "''Transfer-Encoding''"] by auto

lemma same_name_eq: "eq_ignore_case k n \<Longrightarrow> eq_ignore_case k m \<longleftrightarrow> eq_ignore_case n m"
  using eq_ignore_case_sym eq_ignore_case_trans by blast

lemma content_length_reads:
  assumes "head_reads ls s" "content_length_line k v s = Inr t" "eq_ignore_case k ''Content-Length''"
    "line_field l = Some (k, v)" "line_plain l"
  shows "head_reads (ls @ [l]) t"
proof -
  obtain n where n: "v \<noteq> []" "all_digits v" "parse_uint usize_max v = Some n" "hs_length s = None \<or> hs_length s = Some n"
    and t: "t = (if hs_length s = None then s\<lparr>hs_length := Some n, hs_headers := hs_headers s @ [(k, v)]\<rparr> else s)"
    using assms(2) by (auto simp: content_length_line_def split: if_splits option.splits)
  have vals: "line_values ''Content-Length'' (ls @ [l]) = line_values ''Content-Length'' ls @ [v]"
    using line_values_one(1) [OF assms(4)] assms(3) by (simp add: line_values_append)
  have others: "line_values m (ls @ [l]) = line_values m ls" if "\<not> eq_ignore_case k m" for m
    using line_values_one(1) [OF assms(4)] that by (simp add: line_values_append)
  have plain: "list_all line_plain (ls @ [l])" using assms(1,5) by (simp add: head_reads_def)
  have other_fields: "find_header m (hs_headers t) = joined (line_values m (ls @ [l]))" if "\<not> eq_ignore_case m ''Content-Length''" for m
  proof -
    have "\<not> eq_ignore_case k m" using that same_name_eq [OF assms(3)] eq_ignore_case_sym by blast
    then show ?thesis using assms(1) that others
      by (simp add: t head_reads_def find_header_append split: option.split)
  qed
  have len: "hs_length t = Some n" using t n(4) by auto
  have old: "\<forall>w\<in>set (line_values ''Content-Length'' ls). w \<noteq> [] \<and> all_digits w \<and> parse_uint usize_max w = Some n"
    using assms(1) n(4) unfolding head_reads_def by auto
  have first: "find_header ''Content-Length'' (hs_headers t) =
      (case line_values ''Content-Length'' ls @ [v] of [] \<Rightarrow> None | v # _ \<Rightarrow> Some v)"
  proof (cases "hs_length s = None")
    case True
    then have "line_values ''Content-Length'' ls = []" "find_header ''Content-Length'' (hs_headers s) = None"
      using assms(1) by (simp_all add: head_reads_def)
    then show ?thesis using True assms(3) by (simp add: t find_header_append)
  next
    case False
    then obtain w ws where "line_values ''Content-Length'' ls = w # ws"
      using assms(1) unfolding head_reads_def by (metis neq_Nil_conv)
    moreover have "t = s" unfolding t using False by (rule if_not_P)
    ultimately show ?thesis using assms(1) by (simp add: head_reads_def)
  qed
  have flags: "hs_host t = hs_host s" "hs_soap t = hs_soap s" "hs_transfer t = hs_transfer s" by (simp_all add: t)
  show ?thesis
    unfolding head_reads_def vals others [OF other_names(1) [OF assms(3)]] others [OF other_names(2) [OF assms(3)]]
      others [OF other_names(3) [OF assms(3)]] flags first len
    using other_fields old n plain assms(1) by (simp add: head_reads_def)
qed

lemma field_line_reads:
  assumes "head_reads ls s" "field_line k v s = Inr t" "\<not> eq_ignore_case k ''Content-Length''"
    "line_field l = Some (k, v)" "line_plain l"
  shows "head_reads (ls @ [l]) t"
proof -
  have t: "hs_headers t = merge_header k v (hs_headers s)" "hs_length t = hs_length s"
      "hs_transfer t = (hs_transfer s \<or> eq_ignore_case k ''Transfer-Encoding'')"
      "hs_host t = (hs_host s \<or> eq_ignore_case k ''Host'')" "hs_soap t = (hs_soap s \<or> eq_ignore_case k ''SOAPAction'')"
      "eq_ignore_case k ''Host'' \<Longrightarrow> \<not> hs_host s" "eq_ignore_case k ''SOAPAction'' \<Longrightarrow> \<not> hs_soap s"
    using assms(2) by (auto simp: field_line_def Let_def split: if_splits)
  have vals: "line_values m (ls @ [l]) = line_values m ls @ (if eq_ignore_case k m then [v] else [])" for m
    using line_values_one(1) [OF assms(4)] by (simp add: line_values_append)
  have fields: "find_header m (hs_headers t) = joined (line_values m (ls @ [l]))" if "\<not> eq_ignore_case m ''Content-Length''" for m
    using assms(1) that by (auto simp: t(1) vals find_merge head_reads_def joined_snoc)
  have "\<not> eq_ignore_case k ''Content-Length''" by (rule assms(3))
  then have lengths: "find_header ''Content-Length'' (hs_headers t) = find_header ''Content-Length'' (hs_headers s)"
    "line_values ''Content-Length'' (ls @ [l]) = line_values ''Content-Length'' ls"
    by (simp_all add: t(1) vals find_merge)
  show ?thesis
    unfolding head_reads_def lengths t(2,3,4,5)
    using fields assms(1,5) t(6,7) by (auto simp: vals head_reads_def)
qed

lemma header_line_reads:
  assumes "head_reads ls s" "header_line l s = Inr t"
  shows "head_reads (ls @ [l]) t"
proof (cases "l = []")
  case True
  then have "t = s" "line_values n [l] = []" for n
    using assms(2) by (simp_all add: header_line_def line_values_one(2) line_field_def)
  then show ?thesis using assms(1) True by (simp add: head_reads_def line_values_append line_plain_def)
next
  case False
  then obtain k raw where l: "\<not> is_ows (hd l)" "split_once (CHR '':'') l = Some (k, raw)" "is_http_token k"
      "is_http_field_value (trim_http_ows raw)"
      "(if eq_ignore_case k ''Content-Length'' then content_length_line k (trim_http_ows raw) s
        else field_line k (trim_http_ows raw) s) = Inr t"
    using assms(2) by (auto simp: header_line_def Let_def split: if_splits option.splits)
  then have "line_field l = Some (k, trim_http_ows raw)" "line_plain l"
    by (simp_all add: line_field_def line_plain_def)
  then show ?thesis using l(5) content_length_reads [OF assms(1)] field_line_reads [OF assms(1)]
    by (simp split: if_splits)
qed

lemma header_lines_read: "head_reads ls s \<Longrightarrow> header_lines lines s = Inr t \<Longrightarrow> head_reads (ls @ lines) t"
proof (induction lines s arbitrary: ls rule: header_lines.induct)
  case (2 line lines s)
  then obtain u where u: "header_line line s = Inr u" "header_lines lines u = Inr t" by auto
  from 2(1) [OF u(1) header_line_reads [OF 2(2) u(1)] u(2)] show ?case by simp
qed simp

lemma accepted_lines:
  assumes "head_reads lines s" "rq_headers r = hs_headers s" "\<not> hs_transfer s"
  shows "list_all line_plain lines \<and>
      (\<forall>n. \<not> eq_ignore_case n ''Content-Length'' \<longrightarrow> rq_header r n = joined (line_values n lines)) \<and>
      length (line_values ''Host'' lines) \<le> 1 \<and> length (line_values ''SOAPAction'' lines) \<le> 1 \<and>
      line_values ''Transfer-Encoding'' lines = [] \<and>
      (\<forall>v\<in>set (line_values ''Content-Length'' lines). all_digits v \<and> rq_content_length r = Some (digits_value v)) \<and>
      (line_values ''Content-Length'' lines = [] \<longleftrightarrow> rq_header r ''Content-Length'' = None)"
proof -
  note reads = assms(1)
  have cl: "rq_content_length r = Some (digits_value v) \<and> all_digits v"
    if v: "v \<in> set (line_values ''Content-Length'' lines)" for v
  proof -
    obtain w ws where w: "line_values ''Content-Length'' lines = w # ws" using v by (cases "line_values ''Content-Length'' lines") auto
    then have "rq_header r ''Content-Length'' = Some w" using reads assms(2) by (simp add: rq_header_def head_reads_def)
    moreover have "parse_uint usize_max w = parse_uint usize_max v" "parse_uint usize_max v \<noteq> None" "all_digits v" "v \<noteq> []"
      using reads v w unfolding head_reads_def by auto
    ultimately show ?thesis by (auto simp: rq_content_length_def parse_uint_digits split: if_splits)
  qed
  have none: "line_values ''Content-Length'' lines = [] \<longleftrightarrow> rq_header r ''Content-Length'' = None"
    using reads assms(2) by (auto simp: rq_header_def head_reads_def split: list.splits)
  have few: "line_values ''Transfer-Encoding'' lines = []" "list_all line_plain lines"
    "length (line_values ''Host'' lines) \<le> 1" "length (line_values ''SOAPAction'' lines) \<le> 1"
    using reads assms(3) unfolding head_reads_def by blast+
  have fields: "\<forall>n. \<not> eq_ignore_case n ''Content-Length'' \<longrightarrow> rq_header r n = joined (line_values n lines)"
    using reads unfolding head_reads_def rq_header_def assms(2) by blast
  show ?thesis using fields few cl none by blast
qed

text \<open>
  C15: A request head that is accepted leaves nothing to interpretation. The method is a token, the
  target an origin-form path without spaces or controls and equal to its path and query, and the first
  line consists of them and the version. Every other line is empty or starts with a token, a colon and a
  value free of control characters. A header is the joined values of all lines of its name, in any
  spelling and in their order, and no name is kept twice. There is at most one \<open>Host\<close> line and one
  \<open>SOAPAction\<close> line and no transfer coding at all; and every content length that is given is a plain
  decimal number, the same one.
\<close>
theorem request_unambiguous:
  assumes "parse_headers raw = Inr r"
  shows "is_http_token (rq_method r) \<and> prefix ''/'' (rq_target r) \<and> list_all target_byte (rq_target r) \<and>
    (rq_target r = rq_path r \<or> rq_target r = rq_path r @ ''?'' @ rq_query r) \<and>
    distinct (header_names (rq_headers r)) \<and>
    (\<forall>k v. (k, v) \<in> set (rq_headers r) \<longrightarrow> is_http_token k \<and> is_http_field_value v) \<and>
    (\<exists>head rest lines. split_once_str (crlf @ crlf) raw = Some (head, rest) \<and>
      split_str crlf head = (rq_method r @ '' '' @ rq_target r @ '' '' @ rq_version r) # lines \<and>
      list_all line_plain lines \<and>
      (\<forall>n. \<not> eq_ignore_case n ''Content-Length'' \<longrightarrow> rq_header r n = joined (line_values n lines)) \<and>
      length (line_values ''Host'' lines) \<le> 1 \<and> length (line_values ''SOAPAction'' lines) \<le> 1 \<and>
      line_values ''Transfer-Encoding'' lines = [] \<and>
      (\<forall>v\<in>set (line_values ''Content-Length'' lines). all_digits v \<and> rq_content_length r = Some (digits_value v)) \<and>
      (line_values ''Content-Length'' lines = [] \<longleftrightarrow> rq_header r ''Content-Length'' = None))"
proof -
  let ?s0 = "\<lparr>hs_headers = [], hs_length = None, hs_transfer = False, hs_host = False, hs_soap = False\<rparr>"
  obtain head rest m target version s where
    once: "split_once_str (crlf @ crlf) raw = Some (head, rest)" and
    rl: "request_line (hd (split_str crlf head)) = Inr (m, target, version)" and
    hl: "header_lines (tl (split_str crlf head)) ?s0 = Inr s" and
    te: "\<not> hs_transfer s" and
    req: "r = (let (path, query) =
               (case split_once (CHR ''?'') target of Some pq \<Rightarrow> pq | None \<Rightarrow> (target, []))
         in \<lparr>rq_method = m, rq_target = target, rq_path = path, rq_query = query,
              rq_version = version, rq_headers = hs_headers s, rq_body = []\<rparr>)"
    using assms unfolding parse_headers_def Let_def
    by (auto split: if_splits prod.splits)
  have r: "rq_method r = m" "rq_target r = target" "rq_headers r = hs_headers s" "rq_version r = version"
    unfolding req by (simp_all add: Let_def split: prod.split)
  have pq: "(rq_path r, rq_query r) = (case split_once (CHR ''?'') target of Some pq \<Rightarrow> pq | None \<Rightarrow> (target, []))"
    unfolding req by (simp add: Let_def split: prod.split)
  have "head_ok ?s0" by (simp add: head_ok_def)
  from header_lines_ok [OF this hl] have ok: "head_ok s" .
  let ?lines = "tl (split_str crlf head)"
  have "head_reads [] ?s0" by (simp add: head_reads_def joined_def)
  from header_lines_read [OF this hl] have reads: "head_reads ?lines s" by simp
  have path: "rq_target r = rq_path r \<or> rq_target r = rq_path r @ ''?'' @ rq_query r"
    using r(2) pq by (auto split: option.splits dest: split_once_SomeD)
  have first: "split_str crlf head = (rq_method r @ '' '' @ rq_target r @ '' '' @ rq_version r) # ?lines"
    using request_line_ok [OF rl] r split_str_ne [of crlf head] by (metis list.collapse)
  show ?thesis
  proof (intro conjI)
    show "\<exists>head rest lines. split_once_str (crlf @ crlf) raw = Some (head, rest) \<and>
      split_str crlf head = (rq_method r @ '' '' @ rq_target r @ '' '' @ rq_version r) # lines \<and>
      list_all line_plain lines \<and>
      (\<forall>n. \<not> eq_ignore_case n ''Content-Length'' \<longrightarrow> rq_header r n = joined (line_values n lines)) \<and>
      length (line_values ''Host'' lines) \<le> 1 \<and> length (line_values ''SOAPAction'' lines) \<le> 1 \<and>
      line_values ''Transfer-Encoding'' lines = [] \<and>
      (\<forall>v\<in>set (line_values ''Content-Length'' lines). all_digits v \<and> rq_content_length r = Some (digits_value v)) \<and>
      (line_values ''Content-Length'' lines = [] \<longleftrightarrow> rq_header r ''Content-Length'' = None)"
      using once first accepted_lines [OF reads r(3) te]
      by (intro exI [of _ head] exI [of _ rest] exI [of _ ?lines] conjI) blast+
  qed (use path request_line_ok [OF rl] ok r in \<open>simp_all add: head_ok_def\<close>)
qed

lemma sample_request:
  "parse_headers (''GET /a HTTP/1.1'' @ crlf @ ''Host: x'' @ crlf @ crlf) =
     Inr \<lparr>rq_method = ''GET'', rq_target = ''/a'', rq_path = ''/a'', rq_query = [],
       rq_version = ''HTTP/1.1'', rq_headers = [(''Host'', ''x'')], rq_body = []\<rparr>"
proof -
  have once: "split_once_str (crlf @ crlf) (''GET /a HTTP/1.1'' @ crlf @ ''Host: x'' @ crlf @ crlf) =
      Some (''GET /a HTTP/1.1'' @ crlf @ ''Host: x'', [])"
    by (simp add: split_once_str.simps crlf_def cr_def lf_def)
  have lines: "split_str crlf (''GET /a HTTP/1.1'' @ crlf @ ''Host: x'') = [''GET /a HTTP/1.1'', ''Host: x'']"
  proof -
    have "cr \<notin> set l" if "l \<in> set [''GET /a HTTP/1.1'', ''Host: x'']" for l
      using that by (auto simp: cr_def)
    then show ?thesis
      using split_crlf_join [of "[''GET /a HTTP/1.1'', ''Host: x'']"] by simp
  qed
  have req: "request_line ''GET /a HTTP/1.1'' = Inr (''GET'', ''/a'', ''HTTP/1.1'')"
    by (simp add: request_line_def is_http_token_def is_token_byte_def byte_simps target_byte_def)
  have names: "\<not> eq_ignore_case ''Host'' ''Content-Length''" "\<not> eq_ignore_case ''Host'' ''Transfer-Encoding''"
    "\<not> eq_ignore_case ''Host'' ''SOAPAction''"
    using eq_ignore_case_length [of "''Host''"] by force+
  have host: "header_line ''Host: x'' s =
      (if hs_host s then Inl DuplicateHost
       else Inr (s\<lparr>hs_host := True, hs_headers := merge_header ''Host'' ''x'' (hs_headers s)\<rparr>))" for s
    by (simp add: header_line_def field_line_def names is_ows_def is_http_token_def is_token_byte_def
        byte_simps trim_http_ows_def trim_matches_def is_http_field_value_def field_value_byte_def)
  show ?thesis
    using once lines req host by (simp add: parse_headers_def)
qed

lemma request_unambiguous_witness:
  "\<exists>head rest lines. split_once_str (crlf @ crlf) (''GET /a HTTP/1.1'' @ crlf @ ''Host: x'' @ crlf @ crlf) = Some (head, rest) \<and>
     split_str crlf head = ''GET /a HTTP/1.1'' # lines \<and> length (line_values ''Host'' lines) \<le> 1"
  using request_unambiguous [OF sample_request] by fastforce

end
