(* ===== verification/Byte_Range.thy ===== *)
theory Byte_Range
  imports Contracts
begin

text \<open>
  Byte ranges and conditional requests (\<open>crates/http/src/range.rs\<close>). Sizes and offsets are \<open>u64\<close>
  values as bounded naturals; a file is the list of its bytes.
\<close>

definition if_range_matches :: "string option \<Rightarrow> string option \<Rightarrow> bool" where
  "if_range_matches if_range etag =
     (case if_range of
        None \<Rightarrow> True
      | Some v \<Rightarrow>
          (case etag of None \<Rightarrow> False | Some e \<Rightarrow> trim v = e \<and> \<not> prefix ''W/'' e))"

definition opaque_tag :: "string \<Rightarrow> string" where
  "opaque_tag raw =
     (let tag = trim raw in case strip_prefix ''W/'' tag of Some t \<Rightarrow> t | None \<Rightarrow> tag)"

definition if_none_match_matches :: "string option \<Rightarrow> string \<Rightarrow> bool" where
  "if_none_match_matches if_none_match etag =
     (case if_none_match of
        None \<Rightarrow> False
      | Some v \<Rightarrow>
          trim v = ''*'' \<or>
          list_ex (\<lambda>candidate. opaque_tag candidate = opaque_tag etag) (split_on (CHR '','') v))"

record byte_range =
  br_start :: nat
  br_end :: nat

datatype range_error = InvalidRange | UnsatisfiableRange

definition range_spec :: "string \<Rightarrow> range_error + string" where
  "range_spec raw =
     (let v = trim raw in
      case (case strip_prefix ''bytes='' v of Some s \<Rightarrow> Some s | None \<Rightarrow> strip_prefix ''BYTES='' v) of
        None \<Rightarrow> Inl InvalidRange | Some s \<Rightarrow> Inr (trim s))"

definition parse_u64 :: "string \<Rightarrow> range_error + nat" where
  "parse_u64 s = ok_or InvalidRange (parse_uint u64_max s)"

definition suffix_range :: "string \<Rightarrow> nat \<Rightarrow> range_error + byte_range option" where
  "suffix_range digits fsize =
     bind_res (parse_u64 digits) (\<lambda>n0.
       if n0 = 0 then Inl InvalidRange
       else let n = min n0 fsize
            in Inr (Some \<lparr>br_start = fsize - n, br_end = fsize - 1\<rparr>))"

definition parse_byte_range :: "string \<Rightarrow> nat \<Rightarrow> range_error + byte_range option" where
  "parse_byte_range v fsize =
     bind_res (range_spec v) (\<lambda>spec.
       if spec = [] \<or> CHR '','' \<in> set spec then Inl InvalidRange
       else if fsize = 0 then Inl UnsatisfiableRange
       else
         (case strip_prefix ''-'' spec of
            Some digits \<Rightarrow> suffix_range digits fsize
          | None \<Rightarrow>
              bind_res (ok_or InvalidRange (split_once (CHR ''-'') spec)) (\<lambda>(a, b).
              bind_res (parse_u64 a) (\<lambda>start.
                if start \<ge> fsize then Inl UnsatisfiableRange
                else
                  bind_res (if b = [] then Inr (fsize - 1)
                            else bind_res (parse_u64 b) (\<lambda>e.
                              if e < start then Inl InvalidRange else Inr (min e (fsize - 1)))) (\<lambda>end'.
                    Inr (Some \<lparr>br_start = start, br_end = end'\<rparr>))))))"

definition parse_open_range :: "string \<Rightarrow> range_error + (nat \<times> nat option)" where
  "parse_open_range v =
     bind_res (range_spec v) (\<lambda>spec.
       if spec = [] \<or> CHR '','' \<in> set spec \<or> prefix ''-'' spec then Inl InvalidRange
       else
         bind_res (ok_or InvalidRange (split_once (CHR ''-'') spec)) (\<lambda>(a, b).
         bind_res (parse_u64 a) (\<lambda>start.
           if b = [] then Inr (start, None)
           else bind_res (parse_u64 b) (\<lambda>e.
             if e < start then Inl InvalidRange else Inr (start, Some e)))))"

definition range_len :: "byte_range \<Rightarrow> nat" where
  "range_len r = saturating_add u64_max (br_end r - br_start r) 1"

text \<open>The exact read of a file's bytes; \<open>None\<close> is the unexpected end of the file.\<close>

definition read_file_range :: "'b list \<Rightarrow> nat \<Rightarrow> nat \<Rightarrow> 'b list option" where
  "read_file_range file start end' =
     (let len = saturating_add u64_max (end' - start) 1
      in if start + len \<le> length file then Some (take len (drop start file)) else None)"

subsection \<open>Correctness\<close>

lemma graphic_decimal: "c \<in> set (decimal n) \<Longrightarrow> graphic c"
  by (drule set_decimal) (simp add: is_digit_def graphic_def)

lemma graphic_dash: "graphic (CHR ''-'')"
  by (simp add: graphic_def)

lemma trim_spec:
  assumes "s \<noteq> []" "\<And>c. c \<in> set s \<Longrightarrow> graphic c"
  shows "range_spec (''bytes='' @ s) = Inr s"
proof -
  have l: "graphic (last s)" "graphic (hd s)" using assms by simp_all
  then have "trim (''bytes='' @ s) = ''bytes='' @ s" "trim s = s"
    using assms(1) by (auto intro!: trim_id simp: graphic_def)
  then show ?thesis by (simp add: range_spec_def strip_prefix_def)
qed

lemma parse_u64_decimal [simp]: "n \<le> u64_max \<Longrightarrow> parse_u64 (decimal n) = Inr n"
  by (simp add: parse_u64_def)

lemma decimal_no_dash [simp]: "CHR ''-'' \<notin> set (decimal n)" "CHR '','' \<notin> set (decimal n)"
  by (auto dest: set_decimal simp: is_digit_def)

lemma decimal_not_dash: "\<not> prefix ''-'' (decimal n @ s)"
proof -
  have "hd (decimal n) \<in> set (decimal n)" by simp
  then have "hd (decimal n) \<noteq> CHR ''-''" using decimal_no_dash(1) [of n] by metis
  then show ?thesis by (cases "decimal n") auto
qed

lemma spec_decimal:
  assumes "\<And>c. c \<in> set b \<Longrightarrow> graphic c" "CHR '','' \<notin> set b" "0 < fsize"
  shows "parse_byte_range (''bytes='' @ decimal a @ ''-'' @ b) fsize =
    bind_res (parse_u64 (decimal a)) (\<lambda>start.
      if start \<ge> fsize then Inl UnsatisfiableRange
      else bind_res (if b = [] then Inr (fsize - 1)
                     else bind_res (parse_u64 b) (\<lambda>e.
                       if e < start then Inl InvalidRange else Inr (min e (fsize - 1)))) (\<lambda>end'.
             Inr (Some \<lparr>br_start = start, br_end = end'\<rparr>)))"
proof -
  let ?s = "decimal a @ CHR ''-'' # b"
  have "range_spec (''bytes='' @ ?s) = Inr ?s"
    using assms(1) by (intro trim_spec) (auto simp: graphic_decimal graphic_dash)
  moreover have "strip_prefix ''-'' ?s = None"
    using decimal_not_dash [of a "CHR ''-'' # b"] by (simp add: strip_prefix_None)
  moreover have "split_once (CHR ''-'') ?s = Some (decimal a, b)"
    by (rule split_once_append) simp
  ultimately show ?thesis
    using assms(2,3) by (simp add: parse_byte_range_def)
qed

lemma parse_byte_range_sound:
  assumes "parse_byte_range v fsize = Inr (Some r)"
  shows "br_start r \<le> br_end r \<and> br_end r < fsize"
proof -
  obtain spec where "range_spec v = Inr spec" "0 < fsize" and
    s: "(case strip_prefix ''-'' spec of
            Some digits \<Rightarrow> suffix_range digits fsize
          | None \<Rightarrow>
              bind_res (ok_or InvalidRange (split_once (CHR ''-'') spec)) (\<lambda>(a, b).
              bind_res (parse_u64 a) (\<lambda>start.
                if start \<ge> fsize then Inl UnsatisfiableRange
                else
                  bind_res (if b = [] then Inr (fsize - 1)
                            else bind_res (parse_u64 b) (\<lambda>e.
                              if e < start then Inl InvalidRange else Inr (min e (fsize - 1)))) (\<lambda>end'.
                    Inr (Some \<lparr>br_start = start, br_end = end'\<rparr>))))) = Inr (Some r)"
    using assms by (auto simp: parse_byte_range_def split: if_splits)
  then show ?thesis
    by (auto simp: suffix_range_def Let_def split: option.splits if_splits)
qed

text \<open>
  C21: Byte ranges follow RFC 9110 for a file of any non-zero size: \<open>a-b\<close>, \<open>a-\<close> and \<open>-n\<close> select
  exactly the bytes named, clipped to the file; a start beyond the file is unsatisfiable and a
  descending range invalid.
\<close>
theorem byte_range_spec:
  assumes "0 < fsize" "a \<le> u64_max" "b \<le> u64_max" "n \<le> u64_max"
  shows "parse_byte_range (''bytes='' @ decimal a @ ''-'' @ decimal b) fsize =
      (if a \<ge> fsize then Inl UnsatisfiableRange else if b < a then Inl InvalidRange
       else Inr (Some \<lparr>br_start = a, br_end = min b (fsize - 1)\<rparr>))
    \<and> parse_byte_range (''bytes='' @ decimal a @ ''-'') fsize =
      (if a \<ge> fsize then Inl UnsatisfiableRange
       else Inr (Some \<lparr>br_start = a, br_end = fsize - 1\<rparr>))
    \<and> parse_byte_range (''bytes=-'' @ decimal n) fsize =
      (if n = 0 then Inl InvalidRange
       else Inr (Some \<lparr>br_start = fsize - min n fsize, br_end = fsize - 1\<rparr>))"
proof (intro conjI)
  show "parse_byte_range (''bytes='' @ decimal a @ ''-'' @ decimal b) fsize =
      (if a \<ge> fsize then Inl UnsatisfiableRange else if b < a then Inl InvalidRange
       else Inr (Some \<lparr>br_start = a, br_end = min b (fsize - 1)\<rparr>))"
    using assms by (subst spec_decimal) (auto simp: graphic_decimal)
  show "parse_byte_range (''bytes='' @ decimal a @ ''-'') fsize =
      (if a \<ge> fsize then Inl UnsatisfiableRange
       else Inr (Some \<lparr>br_start = a, br_end = fsize - 1\<rparr>))"
    using assms spec_decimal [of "[]" fsize a] by simp
  have "range_spec (''bytes='' @ CHR ''-'' # decimal n) = Inr (CHR ''-'' # decimal n)"
    by (rule trim_spec) (auto simp: graphic_decimal graphic_dash)
  then show "parse_byte_range (''bytes=-'' @ decimal n) fsize =
      (if n = 0 then Inl InvalidRange
       else Inr (Some \<lparr>br_start = fsize - min n fsize, br_end = fsize - 1\<rparr>))"
    using assms by (simp add: parse_byte_range_def suffix_range_def strip_prefix_def Let_def)
qed

lemma byte_range_spec_witness:
  "parse_byte_range (''bytes='' @ decimal 5 @ ''-'' @ decimal 900) 100 =
     Inr (Some \<lparr>br_start = 5, br_end = 99\<rparr>)"
  using byte_range_spec [of 100 5 900 1] by (simp add: u64_max_def)

text \<open>
  Whatever \<open>Range\<close> header is accepted for a file, reading the range succeeds and yields
  exactly the bytes of the file from its start to its end, as many as the announced length.
\<close>
theorem range_read_exact:
  assumes "parse_byte_range v (length file) = Inr (Some r)" "length file \<le> u64_max"
  shows "read_file_range file (br_start r) (br_end r) =
      Some (take (range_len r) (drop (br_start r) file)) \<and>
    length (take (range_len r) (drop (br_start r) file)) = range_len r \<and>
    range_len r = br_end r - br_start r + 1 \<and> br_start r + range_len r \<le> length file"
  using parse_byte_range_sound [OF assms(1)] assms(2)
  by (auto simp: read_file_range_def range_len_def saturating_add_def Let_def)

lemma range_read_exact_witness: "read_file_range ''hello world'' 6 10 = Some ''world''"
proof -
  have "parse_byte_range (''bytes='' @ decimal 6 @ ''-'') (length ''hello world'') =
      Inr (Some \<lparr>br_start = 6, br_end = 10\<rparr>)"
  proof -
    have len: "length ''hello world'' = 11" by simp
    show ?thesis
      unfolding len using byte_range_spec [of 11 6 0 0] by (simp add: u64_max_def)
  qed
  from range_read_exact [OF this] show ?thesis
    by (simp add: u64_max_def range_len_def saturating_add_def)
qed

end
