(* ===== verification/Http_Response.thy ===== *)
theory Http_Response
  imports Http_Request Byte_Range Ipv4_Text Calendar Xml_Escape Url_Paths
begin

text \<open>
  Request classification and responses (\<open>crates/http/src/lib.rs\<close>): routing, the request-header
  checks of the DLNA guidelines, the feature strings, and the response record with its setters,
  its validation and its wire form. A response's open file range and remux job are handles of the
  streaming loop; their types are parameters of the record.
\<close>

subsection \<open>Routes\<close>

datatype http_route =
  RootDesc | ScpdContentDir | ScpdConnectionMgr | ScpdRegistrar | Soap | EventContentDir
  | EventConnectionMgr | EventRegistrar | MediaItem | Transcode | Thumbnail | AlbumArt | Resized
  | Icon | Caption | Status | Health | ApiStatus | WebLibrary | WebItem | WebTranscodeStatus
  | WebMedia | WebAsset | Presentation | WebDownload | NotFound

definition ALL_ROUTES :: "http_route list" where
  "ALL_ROUTES =
     [RootDesc, ScpdContentDir, ScpdConnectionMgr, ScpdRegistrar, Soap, EventContentDir,
      EventConnectionMgr, EventRegistrar, MediaItem, Transcode, Thumbnail, AlbumArt, Resized,
      Icon, Caption, Status, Health, ApiStatus, WebLibrary, WebItem, WebTranscodeStatus,
      WebMedia, WebAsset, Presentation, WebDownload, NotFound]"

fun route_index :: "http_route \<Rightarrow> nat" where
  "route_index RootDesc = 0" | "route_index ScpdContentDir = 1" | "route_index ScpdConnectionMgr = 2"
| "route_index ScpdRegistrar = 3" | "route_index Soap = 4" | "route_index EventContentDir = 5"
| "route_index EventConnectionMgr = 6" | "route_index EventRegistrar = 7" | "route_index MediaItem = 8"
| "route_index Transcode = 9" | "route_index Thumbnail = 10" | "route_index AlbumArt = 11"
| "route_index Resized = 12" | "route_index Icon = 13" | "route_index Caption = 14"
| "route_index Status = 15" | "route_index Health = 16" | "route_index ApiStatus = 17"
| "route_index WebLibrary = 18" | "route_index WebItem = 19" | "route_index WebTranscodeStatus = 20"
| "route_index WebMedia = 21" | "route_index WebAsset = 22" | "route_index Presentation = 23"
| "route_index WebDownload = 24" | "route_index NotFound = 25"

definition web_assets :: "string list" where
  "web_assets =
     [''/favicon.ico'', ''/web/app.css'', ''/web/app.js'', ''/web/api.js'', ''/web/core.js'',
      ''/web/captions.js'', ''/web/playback-timing.js'', ''/web/preview-cache.js'',
      ''/web/media-source.js'', ''/web/playback-source.js'', ''/web/source-selection.js'',
      ''/web/library.js'', ''/web/artwork.js'', ''/web/player.js'', ''/web/preferences.js'',
      ''/web/store.js'']"

definition route_event :: "string \<Rightarrow> http_route" where
  "route_event path =
     (if path = CONTENTDIRECTORY_EVENTURL then EventContentDir
      else if path = CONNECTIONMGR_EVENTURL then EventConnectionMgr
      else if path = MS_REGISTRAR_EVENTURL then EventRegistrar
      else NotFound)"

definition route_get :: "string \<Rightarrow> http_route" where
  "route_get path =
     (if path = ROOTDESC_PATH then RootDesc
      else if path = CONTENTDIRECTORY_PATH then ScpdContentDir
      else if path = CONNECTIONMGR_PATH then ScpdConnectionMgr
      else if path = MS_REGISTRAR_PATH then ScpdRegistrar
      else if path \<in> {CONTENTDIRECTORY_CONTROLURL, CONNECTIONMGR_CONTROLURL, MS_REGISTRAR_CONTROLURL}
      then Soap
      else if path = STATUS_PATH then Status
      else if path = HEALTH_PATH then Health
      else if path = API_STATUS_PATH then ApiStatus
      else if path = ''/api/web/library'' then WebLibrary
      else if path = ''/'' then Presentation
      else if prefix ''/api/web/transcode/'' path then WebTranscodeStatus
      else if prefix ''/api/web/item/'' path then WebItem
      else if prefix ''/api/web/preview/'' path then WebItem
      else if prefix ''/web/preview/'' path then WebAsset
      else if prefix ''/web/media/'' path then WebMedia
      else if prefix ''/web/download/'' path then WebDownload
      else if path \<in> set web_assets then WebAsset
      else if prefix MEDIA_ITEMS_PREFIX path then MediaItem
      else if prefix TRANSCODE_PREFIX path then Transcode
      else if prefix THUMBNAILS_PREFIX path then Thumbnail
      else if prefix ALBUM_ART_PREFIX path then AlbumArt
      else if prefix RESIZED_PREFIX path then Resized
      else if prefix ICONS_PREFIX path then Icon
      else if prefix CAPTIONS_PREFIX path then Caption
      else NotFound)"

definition route :: "string \<Rightarrow> string \<Rightarrow> http_route" where
  "route meth path =
     (if eq_ignore_case meth ''POST'' then
        (if prefix ''/api/web/transcode/'' path then WebTranscodeStatus else Soap)
      else if eq_ignore_case meth ''SUBSCRIBE'' \<or> eq_ignore_case meth ''UNSUBSCRIBE'' then route_event path
      else route_get path)"

definition persist_for_route :: "http_route \<Rightarrow> string option \<Rightarrow> bool \<Rightarrow> bool \<Rightarrow> bool" where
  "persist_for_route r httpver close keep =
     (if r \<in> {MediaItem, Transcode, WebMedia, WebDownload} then False
      else http_should_persist httpver close keep)"

subsection \<open>Request checks\<close>

definition MAX_HTTP_BODY :: nat where "MAX_HTTP_BODY = 16 * 1024 * 1024"

definition http_body_too_large :: "nat \<Rightarrow> bool" where
  "http_body_too_large len \<longleftrightarrow> len > MAX_HTTP_BODY"

definition valid_host_port :: "string \<Rightarrow> bool" where
  "valid_host_port p \<longleftrightarrow> p \<noteq> [] \<and> list_all is_digit p \<and>
     (case parse_uint u32_max p of Some n \<Rightarrow> n \<le> 65535 | None \<Rightarrow> False)"

definition valid_host_header :: "string \<Rightarrow> bool" where
  "valid_host_header host =
     (let (name, port) =
            (case split_once (CHR '':'') host of Some (h, p) \<Rightarrow> (h, Some p) | None \<Rightarrow> (host, None))
      in if (case port of Some p \<Rightarrow> \<not> valid_host_port p | None \<Rightarrow> False) then False
         else (case parse_ipv4 name of Some ip \<Rightarrow> ip \<noteq> [0, 0, 0, 0] | None \<Rightarrow> False))"

definition has_header :: "http_request \<Rightarrow> string \<Rightarrow> bool" where
  "has_header r name \<longleftrightarrow> rq_header r name \<noteq> None"

definition header_is :: "http_request \<Rightarrow> string \<Rightarrow> string \<Rightarrow> bool" where
  "header_is r name v \<longleftrightarrow> (case rq_header r name of Some w \<Rightarrow> eq_ignore_case w v | None \<Rightarrow> False)"

definition timeseek_without_range :: "http_request \<Rightarrow> bool" where
  "timeseek_without_range r \<longleftrightarrow>
     (has_header r ''TimeSeekRange.dlna.org'' \<or> has_header r ''PlaySpeed.dlna.org'') \<and> \<not> has_header r ''Range''"

definition dlna_get_header_invalid :: "http_request \<Rightarrow> bool" where
  "dlna_get_header_invalid r \<longleftrightarrow>
     list_ex (\<lambda>name. case rq_header r name of Some v \<Rightarrow> trim v \<noteq> ''1'' | None \<Rightarrow> False)
       [''getcontentFeatures.dlna.org'', ''getAvailableSeekRange.dlna.org'']"

definition wants_content_language :: "http_request \<Rightarrow> bool" where
  "wants_content_language r \<longleftrightarrow> has_header r ''Accept-Language''"

definition is_chunked :: "http_request \<Rightarrow> bool" where
  "is_chunked r \<longleftrightarrow>
     (case rq_header r ''Transfer-Encoding'' of
        Some v \<Rightarrow> list_ex (\<lambda>t. trim t = ''chunked'') (split_on (CHR '','') (ascii_lower v))
      | None \<Rightarrow> False)"

definition dlna_strict :: "http_request \<Rightarrow> bool" where
  "dlna_strict r \<longleftrightarrow> has_header r ''uctt.upnp.org''"

definition realtime_interactive_invalid :: "http_request \<Rightarrow> bool" where
  "realtime_interactive_invalid r \<longleftrightarrow>
     has_header r ''realTimeInfo.dlna.org'' \<and> header_is r ''transferMode.dlna.org'' ''Interactive''"

definition streaming_on_image :: "http_request \<Rightarrow> string \<Rightarrow> bool" where
  "streaming_on_image r mime \<longleftrightarrow>
     prefix ''image/'' mime \<and> header_is r ''transferMode.dlna.org'' ''Streaming''"

definition interactive_on_non_image :: "http_request \<Rightarrow> string \<Rightarrow> bool \<Rightarrow> bool \<Rightarrow> bool" where
  "interactive_on_non_image r mime samsung strict =
     (if prefix ''image/'' mime then False
      else if \<not> header_is r ''transferMode.dlna.org'' ''Interactive'' then False
      else if samsung \<and> \<not> strict then False
      else True)"

definition GET_CAPTION_INFO_SEC :: string where "GET_CAPTION_INFO_SEC = ''getCaptionInfo.sec''"
definition CAPTION_INFO_SEC :: string where "CAPTION_INFO_SEC = ''CaptionInfo.sec''"

definition wants_caption_info_sec :: "http_request \<Rightarrow> bool" where
  "wants_caption_info_sec r \<longleftrightarrow> has_header r GET_CAPTION_INFO_SEC"

definition caption_info_sec_url :: "string \<Rightarrow> nat \<Rightarrow> int \<Rightarrow> string" where
  "caption_info_sec_url host port detail_id = caption_default_url host port detail_id"

subsection \<open>Dates and feature strings\<close>

definition DAYS :: "string list" where
  "DAYS = [''Sun'', ''Mon'', ''Tue'', ''Wed'', ''Thu'', ''Fri'', ''Sat'']"

definition MONTHS :: "string list" where
  "MONTHS = [''Jan'', ''Feb'', ''Mar'', ''Apr'', ''May'', ''Jun'', ''Jul'', ''Aug'', ''Sep'', ''Oct'', ''Nov'', ''Dec'']"

definition imf_fixdate_gmt :: "int \<Rightarrow> string" where
  "imf_fixdate_gmt unix =
     (let t = utc_date_time unix
      in DAYS ! nat (ut_weekday t) @ '', '' @ padded 2 (ut_day t) @ '' '' @ MONTHS ! nat (ut_month t - 1) @ '' '' @
         padded 4 (ut_year t) @ '' '' @ padded 2 (ut_hour t) @ '':'' @ padded 2 (ut_minute t) @ '':'' @
         padded 2 (ut_second t) @ '' GMT'')"

definition dlna_flags_hex :: "string \<Rightarrow> string" where
  "dlna_flags_hex mime =
     (if prefix ''image/'' mime then ''00F00000'' else ''01700000'') @ zero_pad 24 (decimal 0)"

definition dlna_org_features :: "string option \<Rightarrow> string \<Rightarrow> nat \<Rightarrow> string \<Rightarrow> string" where
  "dlna_org_features pn seek ci mime =
     (let flags = dlna_flags_hex mime;
          tail = ''DLNA.ORG_OP='' @ seek @ '';DLNA.ORG_CI='' @ decimal ci @ '';DLNA.ORG_FLAGS='' @ flags
      in case pn of
           Some p \<Rightarrow> if p \<noteq> [] then ''DLNA.ORG_PN='' @ p @ '';'' @ tail else tail
         | None \<Rightarrow> tail)"

definition protocol_info :: "string \<Rightarrow> string option \<Rightarrow> bool \<Rightarrow> bool \<Rightarrow> nat \<Rightarrow> string" where
  "protocol_info mime pn dlna_client skip_pn ci =
     (if \<not> dlna_client then ''http-get:*:'' @ mime @ '':*''
      else ''http-get:*:'' @ mime @ '':'' @
           dlna_org_features (if skip_pn then None else pn) ''01'' ci mime)"

subsection \<open>Responses\<close>

record ('f, 'j) http_response =
  hr_status :: nat
  hr_reason :: string
  hr_headers :: "(string \<times> string) list"
  hr_body :: string
  hr_persist :: bool
  hr_file_range :: "'f option"
  hr_remux_job :: "'j option"

definition new_response :: "nat \<Rightarrow> string \<Rightarrow> ('f, 'j) http_response" where
  "new_response status reason =
     \<lparr>hr_status = status, hr_reason = reason, hr_headers = [], hr_body = [], hr_persist = False,
      hr_file_range = None, hr_remux_job = None\<rparr>"

fun set_field :: "string \<Rightarrow> string \<Rightarrow> (string \<times> string) list \<Rightarrow> (string \<times> string) list" where
  "set_field k v [] = [(k, v)]"
| "set_field k v ((name, w) # hs) =
     (if eq_ignore_case name k
      then (k, v) # filter (\<lambda>(other, _). \<not> eq_ignore_case other k) hs
      else (name, w) # set_field k v hs)"

definition response_set :: "string \<Rightarrow> string \<Rightarrow> ('f, 'j) http_response \<Rightarrow> ('f, 'j) http_response" where
  "response_set k v r = r\<lparr>hr_headers := set_field k v (hr_headers r)\<rparr>"

definition response_append :: "string \<Rightarrow> string \<Rightarrow> ('f, 'j) http_response \<Rightarrow> ('f, 'j) http_response" where
  "response_append k v r = r\<lparr>hr_headers := hr_headers r @ [(k, v)]\<rparr>"

definition set_caption_info_sec :: "string \<Rightarrow> ('f, 'j) http_response \<Rightarrow> ('f, 'j) http_response" where
  "set_caption_info_sec url r = response_set CAPTION_INFO_SEC url r"

definition html_response :: "nat \<Rightarrow> string \<Rightarrow> string \<Rightarrow> ('f, 'j) http_response" where
  "html_response status reason msg =
     (let title = decimal status @ '' '' @ escape_xml reason;
          body = ''<HTML><HEAD><TITLE>'' @ title @ ''</TITLE></HEAD><BODY><H1>'' @ title @ ''</H1>'' @
            escape_xml msg @ ''</BODY></HTML>'';
          r0 = response_set ''Content-Type'' ''text/html; charset=utf-8'' (new_response status reason);
          r = r0\<lparr>hr_body := body\<rparr>
      in response_set ''Content-Length'' (decimal (length (hr_body r))) r)"

definition xml_response :: "nat \<Rightarrow> string \<Rightarrow> bool \<Rightarrow> ('f, 'j) http_response" where
  "xml_response status body persist =
     (let r0 = response_set ''Content-Type'' (''text/xml; charset='' @ dq @ ''utf-8'' @ dq)
            (new_response status (if status = 200 then ''OK'' else ''Internal Server Error''));
          r1 = r0\<lparr>hr_body := body\<rparr>;
          r2 = response_set ''Content-Length'' (decimal (length (hr_body r1))) r1
      in r2\<lparr>hr_persist := persist\<rparr>)"

datatype response_wire_error =
  InvalidStatus nat
  | InvalidReason
  | InvalidServer
  | InvalidDate
  | InvalidHeaderName' nat
  | InvalidHeaderValue' nat
  | InvalidContentLength' nat
  | DuplicateContentLength
  | ContentLengthMismatch nat nat
  | PersistentBodyWithoutContentLength
  | TransferEncodingWithContentLength'
  | UnsupportedTransferEncoding'

text \<open>The header walk carries the declared length and whether a transfer coding was seen.\<close>

definition declared_length :: "nat \<Rightarrow> string \<Rightarrow> response_wire_error + nat" where
  "declared_length index raw =
     (let v = trim_http_ows raw
      in if v = [] \<or> \<not> list_all is_digit v then Inl (InvalidContentLength' index)
         else ok_or (InvalidContentLength' index) (parse_uint u64_max v))"

fun check_headers ::
  "nat \<Rightarrow> (string \<times> string) list \<Rightarrow> nat option \<Rightarrow> bool \<Rightarrow> response_wire_error + (nat option \<times> bool)" where
  "check_headers index [] len te = Inr (len, te)"
| "check_headers index ((name, v) # hs) len te =
     (if \<not> is_http_token name then Inl (InvalidHeaderName' index)
      else if \<not> is_http_field_value v then Inl (InvalidHeaderValue' index)
      else if eq_ignore_case name ''Content-Length'' then
        bind_res (declared_length index v) (\<lambda>n.
          if len \<noteq> None then Inl DuplicateContentLength
          else check_headers (index + 1) hs (Some n) te)
      else check_headers (index + 1) hs len (te \<or> eq_ignore_case name ''Transfer-Encoding''))"

definition check_framing ::
  "('f, 'j) http_response \<Rightarrow> nat option \<times> bool \<Rightarrow> response_wire_error + unit" where
  "check_framing r lt =
     (case lt of (len, te) \<Rightarrow>
        if te \<and> len \<noteq> None then Inl TransferEncodingWithContentLength'
        else if te then Inl UnsupportedTransferEncoding'
        else if hr_body r \<noteq> [] then
          (case len of
             Some declared \<Rightarrow>
               if declared \<noteq> length (hr_body r) then Inl (ContentLengthMismatch declared (length (hr_body r)))
               else Inr ()
           | None \<Rightarrow> if hr_persist r then Inl PersistentBodyWithoutContentLength else Inr ())
        else Inr ())"

definition own_field :: "string \<Rightarrow> bool" where
  "own_field k \<longleftrightarrow> eq_ignore_case k ''Server'' \<or> eq_ignore_case k ''Date'' \<or>
     eq_ignore_case k ''Connection'' \<or> eq_ignore_case k ''EXT''"

definition header_text :: "(string \<times> string) list \<Rightarrow> string" where
  "header_text hs = concat (map (\<lambda>(k, v). if own_field k then [] else k @ '': '' @ v @ crlf) hs)"

definition wire_text :: "('f, 'j) http_response \<Rightarrow> string \<Rightarrow> string \<Rightarrow> string" where
  "wire_text r server date =
     (let conn = (if hr_persist r then ''keep-alive'' else ''close'')
      in ''HTTP/1.1 '' @ decimal (hr_status r) @ '' '' @ hr_reason r @ crlf @
         ''Connection: '' @ conn @ crlf @ ''Date: '' @ date @ crlf @ ''Server: '' @ server @ crlf @
         ''EXT:'' @ crlf @ header_text (hr_headers r) @ crlf @ hr_body r)"

definition try_bytes_wire ::
  "('f, 'j) http_response \<Rightarrow> string \<Rightarrow> string \<Rightarrow> response_wire_error + string" where
  "try_bytes_wire r server date =
     (if \<not> (100 \<le> hr_status r \<and> hr_status r \<le> 599) then Inl (InvalidStatus (hr_status r))
      else if \<not> is_http_field_value (hr_reason r) then Inl InvalidReason
      else if trim_http_ows server = [] \<or> \<not> is_http_field_value server then Inl InvalidServer
      else if trim_http_ows date = [] \<or> \<not> is_http_field_value date then Inl InvalidDate
      else
        bind_res (check_headers 0 (hr_headers r) None False) (\<lambda>lt.
        bind_res (check_framing r lt) (\<lambda>_.
          Inr (wire_text r server date))))"

definition INVALID_RESPONSE_WIRE :: string where
  "INVALID_RESPONSE_WIRE =
     ''HTTP/1.1 500 Internal Server Error'' @ crlf @ ''Connection: close'' @ crlf @
     ''Content-Length: 0'' @ crlf @ crlf"

definition bytes_wire :: "('f, 'j) http_response \<Rightarrow> string \<Rightarrow> string \<Rightarrow> string" where
  "bytes_wire r server date =
     (case try_bytes_wire r server date of Inr bytes \<Rightarrow> bytes | Inl _ \<Rightarrow> INVALID_RESPONSE_WIRE)"

record media_options =
  mo_server :: string
  mo_date :: string
  mo_mime :: string
  mo_size :: nat
  mo_range :: "byte_range option"
  mo_body :: string
  mo_pn :: "string option"
  mo_ci :: nat

definition media_response :: "media_options \<Rightarrow> ('f, 'j) http_response" where
  "media_response opts =
     (let (status, reason, clen, crange) =
            (case mo_range opts of
               None \<Rightarrow> (200, ''OK'', mo_size opts, None)
             | Some r \<Rightarrow>
                 (206, ''Partial Content'', range_len r,
                  Some (''bytes '' @ decimal (br_start r) @ ''-'' @ decimal (br_end r) @ ''/'' @
                    decimal (mo_size opts))));
          r0 = (new_response status reason)\<lparr>hr_persist := False\<rparr>;
          r1 = response_set ''realTimeInfo.dlna.org'' ''DLNA.ORG_TLAG=*'' r0;
          r2 = response_set ''transferMode.dlna.org''
                 (if prefix ''image/'' (mo_mime opts) then ''Interactive'' else ''Streaming'') r1;
          r3 = response_set ''Content-Type'' (mo_mime opts) r2;
          r4 = response_set ''Content-Length'' (decimal clen) r3;
          r5 = (case crange of Some text \<Rightarrow> response_set ''Content-Range'' text r4 | None \<Rightarrow> r4);
          r6 = response_set ''Accept-Ranges'' ''bytes'' r5;
          r7 = response_set ''contentFeatures.dlna.org''
                 (dlna_org_features (mo_pn opts) ''01'' (mo_ci opts) (mo_mime opts)) r6
      in r7\<lparr>hr_body := mo_body opts\<rparr>)"

definition live_transcode_response :: "string \<Rightarrow> ('f, 'j) http_response" where
  "live_transcode_response mime =
     (let r0 = (new_response 200 ''OK'')\<lparr>hr_persist := False\<rparr>;
          r1 = response_set ''realTimeInfo.dlna.org'' ''DLNA.ORG_TLAG=*'' r0;
          r2 = response_set ''transferMode.dlna.org'' ''Streaming'' r1;
          r3 = response_set ''Content-Type'' mime r2
      in response_set ''contentFeatures.dlna.org'' (dlna_org_features None ''00'' 1 mime) r3)"

subsection \<open>Response fields\<close>

lemma find_filter_other:
  "\<not> eq_ignore_case k n \<Longrightarrow>
     find_header n (filter (\<lambda>(other, _). \<not> eq_ignore_case other k) hs) = find_header n hs"
  by (induction hs) (auto simp: eq_ignore_case_def)

lemma find_set_field:
  "find_header n (set_field k v hs) = (if eq_ignore_case k n then Some v else find_header n hs)"
  by (induction k v hs rule: set_field.induct) (auto simp: eq_ignore_case_def find_filter_other [unfolded eq_ignore_case_def])

definition field_count :: "string \<Rightarrow> (string \<times> string) list \<Rightarrow> nat" where
  "field_count n hs = length (filter (\<lambda>(k, _). eq_ignore_case k n) hs)"

lemma field_count_simps [simp]:
  "field_count n [] = 0"
  "field_count n ((k, v) # hs) = (if eq_ignore_case k n then 1 else 0) + field_count n hs"
  by (simp_all add: field_count_def)

lemma field_count_filter:
  "field_count n (filter (\<lambda>(other, _). \<not> eq_ignore_case other k) hs) =
     (if eq_ignore_case k n then 0 else field_count n hs)"
  by (induction hs) (auto simp: eq_ignore_case_def)

text \<open>Names of the fields responses are built with, case folded.\<close>

lemma folded_names:
  "ascii_lower ''Content-Type'' = ''content-type''" "ascii_lower ''Content-Length'' = ''content-length''"
  "ascii_lower ''Content-Range'' = ''content-range''" "ascii_lower ''Accept-Ranges'' = ''accept-ranges''"
  "ascii_lower ''realTimeInfo.dlna.org'' = ''realtimeinfo.dlna.org''"
  "ascii_lower ''transferMode.dlna.org'' = ''transfermode.dlna.org''"
  "ascii_lower ''contentFeatures.dlna.org'' = ''contentfeatures.dlna.org''"
  "ascii_lower ''Transfer-Encoding'' = ''transfer-encoding''"
  by (simp_all add: lower_eval)

lemma field_count_set:
  "field_count n (set_field k v hs) = (if eq_ignore_case k n then 1 else field_count n hs)"
  by (induction k v hs rule: set_field.induct) (auto simp: eq_ignore_case_def field_count_filter [unfolded eq_ignore_case_def])

lemma set_field_mem:
  "(a, b) \<in> set (set_field k v hs) \<Longrightarrow> (a, b) = (k, v) \<or> (a, b) \<in> set hs"
  by (induction k v hs rule: set_field.induct) (auto split: if_splits)

lemma hr_headers_set [simp]: "hr_headers (response_set k v r) = set_field k v (hr_headers r)"
  by (simp add: response_set_def)

lemma response_set_frame [simp]:
  "hr_status (response_set k v r) = hr_status r" "hr_reason (response_set k v r) = hr_reason r"
  "hr_body (response_set k v r) = hr_body r" "hr_persist (response_set k v r) = hr_persist r"
  by (simp_all add: response_set_def)

text \<open>
  Setting a response field makes it the only field of that name in any letter case, with the
  new value, and leaves every other field, the status and the body as they were.
\<close>
theorem response_set_law:
  "find_header n (hr_headers (response_set k v r)) =
     (if eq_ignore_case k n then Some v else find_header n (hr_headers r)) \<and>
   field_count n (hr_headers (response_set k v r)) =
     (if eq_ignore_case k n then 1 else field_count n (hr_headers r)) \<and>
   hr_status (response_set k v r) = hr_status r \<and> hr_body (response_set k v r) = hr_body r"
  by (simp add: find_set_field field_count_set)

subsection \<open>The head of a response\<close>

text \<open>The lines of the head, which the wire form joins.\<close>

definition response_lines :: "('f, 'j) http_response \<Rightarrow> string \<Rightarrow> string \<Rightarrow> string list" where
  "response_lines r server date =
     [''HTTP/1.1 '' @ decimal (hr_status r) @ '' '' @ hr_reason r,
      ''Connection: '' @ (if hr_persist r then ''keep-alive'' else ''close''),
      ''Date: '' @ date, ''Server: '' @ server, ''EXT:''] @
     map (\<lambda>(k, v). k @ '': '' @ v) (filter (\<lambda>(k, _). \<not> own_field k) (hr_headers r))"

definition lines_text :: "string list \<Rightarrow> string" where
  "lines_text ls = concat (map (\<lambda>l. l @ crlf) ls)"

lemma lines_text_join: "ls \<noteq> [] \<Longrightarrow> lines_text ls = join crlf ls @ crlf"
proof (induction ls)
  case (Cons l ls)
  then show ?case by (cases "ls = []") (auto simp: lines_text_def join_cons)
qed simp

lemma wire_lines: "wire_text r server date = lines_text (response_lines r server date) @ crlf @ hr_body r"
proof -
  have "header_text hs = lines_text (map (\<lambda>(k, v). k @ '': '' @ v) (filter (\<lambda>(k, _). \<not> own_field k) hs))" for hs
    by (induction hs) (auto simp: header_text_def lines_text_def)
  then show ?thesis
    by (simp add: wire_text_def response_lines_def Let_def) (simp add: lines_text_def)
qed

lemma find_str_skip: "cr \<notin> set a \<Longrightarrow> find_str (crlf @ crlf) (a @ s) = map_option ((+) (length a)) (find_str (crlf @ crlf) s)"
proof (induction a)
  case Nil
  show ?case by (simp add: option.map_ident cong: map_option_cong)
next
  case (Cons c a)
  then have "\<not> prefix (crlf @ crlf) (c # a @ s)" by (auto simp: crlf_def)
  with Cons show ?case
    by (simp add: find_str.simps [of _ "c # a @ s"] option.map_comp comp_def)
qed

lemma find_blank_line:
  "ls \<noteq> [] \<Longrightarrow> (\<And>l. l \<in> set ls \<Longrightarrow> l \<noteq> [] \<and> cr \<notin> set l) \<Longrightarrow>
     find_str (crlf @ crlf) (join crlf ls @ crlf @ crlf @ body) = Some (length (join crlf ls))"
proof (induction ls)
  case (Cons l ls)
  have l: "cr \<notin> set l" using Cons.prems by simp
  show ?case
  proof (cases ls)
    case Nil
    have "find_str (crlf @ crlf) (crlf @ crlf @ body) = Some 0" by (subst find_str.simps) simp
    with find_str_skip [OF l, of "crlf @ crlf @ body"] Nil show ?thesis by simp
  next
    case (Cons m ms)
    then have m: "m \<noteq> []" "cr \<notin> set m" using Cons.prems by simp_all
    have "join crlf ls = m @ (if ms = [] then [] else crlf @ join crlf ms)"
      by (simp add: Cons join_cons)
    then obtain c t where mt: "join crlf ls = c # t" "c \<noteq> cr"
      using m by (cases m) auto
    have IH: "find_str (crlf @ crlf) (join crlf ls @ crlf @ crlf @ body) = Some (length (join crlf ls))"
      by (rule Cons.IH) (use Cons Cons.prems in auto)
    define u where "u = t @ crlf @ crlf @ body"
    have "find_str (crlf @ crlf) (crlf @ c # u) = map_option (\<lambda>i. i + 2) (find_str (crlf @ crlf) (c # u))"
    proof -
      have "lf \<noteq> cr" by (simp add: lf_def cr_def)
      then have "find_str (crlf @ crlf) (cr # lf # c # u) = map_option Suc (find_str (crlf @ crlf) (lf # c # u))"
        "find_str (crlf @ crlf) (lf # c # u) = map_option Suc (find_str (crlf @ crlf) (c # u))"
        using mt(2) by (simp_all add: crlf_def find_str.simps [of _ "cr # x" for x] find_str.simps [of _ "lf # x" for x])
      then show ?thesis by (simp add: crlf_def option.map_comp comp_def)
    qed
    with IH show ?thesis
      using find_str_skip [OF l, of "crlf @ c # u"] Cons mt(1) by (simp add: join_cons u_def) (simp add: crlf_def)
  qed
qed simp

text \<open>What an accepted response satisfies.\<close>

lemma check_headers_ok:
  "check_headers i hs len te = Inr (len', te') \<Longrightarrow>
     (\<forall>(k, v) \<in> set hs. is_http_token k \<and> is_http_field_value v) \<and>
     field_count ''Content-Length'' hs + (if len = None then 0 else 1) = (if len' = None then 0 else 1) \<and>
     (te' \<longleftrightarrow> te \<or> field_count ''Transfer-Encoding'' hs > 0) \<and>
     (len = None \<longrightarrow> (case find_header ''Content-Length'' hs of
        None \<Rightarrow> len' = None
      | Some v \<Rightarrow> all_digits (trim_http_ows v) \<and> len' = Some (digits_value (trim_http_ows v))))"
proof (induction i hs len te rule: check_headers.induct)
  case (2 index name v hs len te)
  show ?case
  proof (cases "eq_ignore_case name ''Content-Length''")
    case True
    then have nte: "\<not> eq_ignore_case name ''Transfer-Encoding''" by (rule not_same_field)
    from 2(3) True obtain n where n: "declared_length index v = Inr n" and len: "len = None"
      and rest: "check_headers (index + 1) hs (Some n) te = Inr (len', te')"
      and ok: "is_http_token name" "is_http_field_value v"
      by (auto split: if_splits)
    from n have v: "all_digits (trim_http_ows v)" "n = digits_value (trim_http_ows v)"
      by (auto simp: declared_length_def Let_def list_all_iff all_digits_def parse_uint_digits split: if_splits)
    from 2(1) [OF _ _ True n] 2(3) ok len rest n
    have "(\<forall>(k, v) \<in> set hs. is_http_token k \<and> is_http_field_value v) \<and>
      field_count ''Content-Length'' hs + 1 = (if len' = None then 0 else 1) \<and>
      (te' \<longleftrightarrow> te \<or> field_count ''Transfer-Encoding'' hs > 0)"
      by simp
    moreover have "len' = Some n"
    proof -
      have "check_headers j hs (Some n) t = Inr (len', te') \<Longrightarrow> len' = Some n" for j t
        by (induction j hs "Some n" t rule: check_headers.induct) (auto split: if_splits)
      with rest show ?thesis by blast
    qed
    ultimately show ?thesis using True nte ok v len by (simp split: if_splits)
  next
    case False
    from 2(3) False have rest: "check_headers (index + 1) hs len (te \<or> eq_ignore_case name ''Transfer-Encoding'') = Inr (len', te')"
      and ok: "is_http_token name" "is_http_field_value v"
      by (auto split: if_splits)
    from 2(2) [OF _ _ False rest] ok False show ?thesis
      by (auto split: if_splits option.splits)
  qed
qed auto

lemma try_bytes_wire_ok:
  assumes "try_bytes_wire r server date = Inr bytes"
  shows "bytes = wire_text r server date" "is_http_field_value (hr_reason r)"
    "is_http_field_value server" "is_http_field_value date"
    "\<And>k v. (k, v) \<in> set (hr_headers r) \<Longrightarrow> is_http_token k \<and> is_http_field_value v"
    "field_count ''Content-Length'' (hr_headers r) \<le> 1" "field_count ''Transfer-Encoding'' (hr_headers r) = 0"
    "hr_body r \<noteq> [] \<Longrightarrow> find_header ''Content-Length'' (hr_headers r) = Some v \<Longrightarrow>
       digits_value (trim_http_ows v) = length (hr_body r)"
    "hr_body r \<noteq> [] \<Longrightarrow> hr_persist r \<Longrightarrow> find_header ''Content-Length'' (hr_headers r) \<noteq> None"
proof -
  obtain len te where c: "check_headers 0 (hr_headers r) None False = Inr (len, te)"
    and f: "check_framing r (len, te) = Inr ()"
    and b: "bytes = wire_text r server date" "is_http_field_value (hr_reason r)"
      "is_http_field_value server" "is_http_field_value date"
    using assms unfolding try_bytes_wire_def by (auto split: if_splits)
  note k = check_headers_ok [OF c]
  show "bytes = wire_text r server date" "is_http_field_value (hr_reason r)"
    "is_http_field_value server" "is_http_field_value date" by (fact b)+
  show "is_http_token k \<and> is_http_field_value v" if "(k, v) \<in> set (hr_headers r)" for k v
    using k that by auto
  show "field_count ''Content-Length'' (hr_headers r) \<le> 1" using k by (auto split: if_splits)
  show "field_count ''Transfer-Encoding'' (hr_headers r) = 0"
    using k f by (auto simp: check_framing_def split: if_splits)
  show "digits_value (trim_http_ows v) = length (hr_body r)"
    if "hr_body r \<noteq> []" "find_header ''Content-Length'' (hr_headers r) = Some v"
    using k f that by (auto simp: check_framing_def split: if_splits)
  show "find_header ''Content-Length'' (hr_headers r) \<noteq> None"
    if "hr_body r \<noteq> []" "hr_persist r"
    using k f that by (auto simp: check_framing_def split: if_splits option.splits)
qed

lemma response_line_ok:
  assumes "try_bytes_wire r server date = Inr bytes" "l \<in> set (response_lines r server date)"
  shows "l \<noteq> [] \<and> cr \<notin> set l \<and> lf \<notin> set l"
proof -
  note ok = try_bytes_wire_ok [OF assms(1)]
  have d: "cr \<notin> set (decimal n) \<and> lf \<notin> set (decimal n)" for n
    using not_in_decimal by (auto simp: cr_def lf_def is_digit_def)
  have v: "cr \<notin> set v \<and> lf \<notin> set v" if "v \<in> {hr_reason r, server, date}" for v
    using that ok(2-4) is_http_field_value_no_crlf by auto
  have h: "cr \<notin> set k \<and> lf \<notin> set k \<and> cr \<notin> set v \<and> lf \<notin> set v" if "(k, v) \<in> set (hr_headers r)" for k v
    using ok(5) [OF that] is_http_token_no_crlf is_http_field_value_no_crlf by blast
  consider "l \<in> set [''HTTP/1.1 '' @ decimal (hr_status r) @ '' '' @ hr_reason r,
      ''Connection: '' @ (if hr_persist r then ''keep-alive'' else ''close''),
      ''Date: '' @ date, ''Server: '' @ server, ''EXT:'']"
    | k w where "(k, w) \<in> set (hr_headers r)" "l = k @ '': '' @ w"
    using assms(2) unfolding response_lines_def by auto
  then show ?thesis
  proof cases
    case 1
    then show ?thesis
      using v [unfolded cr_def lf_def] d [unfolded cr_def lf_def] unfolding cr_def lf_def
      by (auto split: if_splits)
  next
    case 2
    then show ?thesis using h [OF 2(1)] unfolding cr_def lf_def by auto
  qed
qed

text \<open>
  C20: The bytes of an accepted response are framed by its own fields alone: the first blank line is
  the end of the head, what follows is the body, and the lines of the head are the status line, the
  server's own fields and one line for each response field, none of them empty and none holding a
  line break. At most one content length is written, it is the length of a non-empty body, and a
  connection is kept open after a body only with a content length.
\<close>
theorem response_framing:
  assumes "try_bytes_wire r server date = Inr bytes"
  shows "(\<exists>head. header_block_complete bytes = Some (length head + 4) \<and>
      bytes = head @ crlf @ crlf @ hr_body r \<and> split_str crlf head = response_lines r server date \<and>
      (\<forall>l \<in> set (response_lines r server date). l \<noteq> [] \<and> cr \<notin> set l \<and> lf \<notin> set l)) \<and>
    field_count ''Content-Length'' (hr_headers r) \<le> 1 \<and>
    field_count ''Transfer-Encoding'' (hr_headers r) = 0 \<and>
    (hr_body r \<noteq> [] \<longrightarrow>
      (case find_header ''Content-Length'' (hr_headers r) of
         Some v \<Rightarrow> digits_value (trim_http_ows v) = length (hr_body r)
       | None \<Rightarrow> \<not> hr_persist r))"
proof -
  define ls where "ls = response_lines r server date"
  note ok = try_bytes_wire_ok [OF assms]
  have ls: "ls \<noteq> []" "\<And>l. l \<in> set ls \<Longrightarrow> l \<noteq> [] \<and> cr \<notin> set l \<and> lf \<notin> set l"
    using response_line_ok [OF assms] by (auto simp: ls_def response_lines_def)
  have b: "bytes = join crlf ls @ crlf @ crlf @ hr_body r"
    using ok(1) lines_text_join [OF ls(1)] by (simp add: wire_lines ls_def)
  have "find_str (crlf @ crlf) bytes = Some (length (join crlf ls))"
    unfolding b by (rule find_blank_line) (use ls in auto)
  moreover have "split_str crlf (join crlf ls) = ls"
    by (rule split_crlf_join) (use ls in auto)
  ultimately have "\<exists>head. header_block_complete bytes = Some (length head + 4) \<and>
      bytes = head @ crlf @ crlf @ hr_body r \<and> split_str crlf head = response_lines r server date \<and>
      (\<forall>l \<in> set (response_lines r server date). l \<noteq> [] \<and> cr \<notin> set l \<and> lf \<notin> set l)"
    using b ls(2) by (intro exI [of _ "join crlf ls"]) (simp add: header_block_complete_def ls_def)
  moreover have "case find_header ''Content-Length'' (hr_headers r) of
         Some v \<Rightarrow> digits_value (trim_http_ows v) = length (hr_body r)
       | None \<Rightarrow> \<not> hr_persist r" if "hr_body r \<noteq> []"
    using ok(8,9) that by (auto split: option.split)
  ultimately show ?thesis using ok(6,7) by blast
qed

definition sample_response :: "(unit, unit) http_response" where
  "sample_response = xml_response 200 ''<a/>'' True"

lemma sample_response_wire: "try_bytes_wire sample_response ''s'' ''d'' = Inr (wire_text sample_response ''s'' ''d'')"
proof -
  have h: "hr_headers sample_response =
      [(''Content-Type'', ''text/xml; charset='' @ dq @ ''utf-8'' @ dq), (''Content-Length'', decimal 4)]"
    "hr_body sample_response = ''<a/>''" "hr_status sample_response = 200" "hr_reason sample_response = ''OK''"
    by (simp_all add: sample_response_def xml_response_def new_response_def response_set_def
        eq_ignore_case_def folded_names)
  have t: "is_http_token ''Content-Type''" "is_http_token ''Content-Length''"
    by (simp_all add: is_http_token_def is_token_byte_def byte_simps)
  have f: "is_http_field_value (''text/xml; charset='' @ dq @ ''utf-8'' @ dq)" "is_http_field_value ''s''"
    "is_http_field_value ''d''" "is_http_field_value ''OK''" "is_http_field_value ''4''"
    by (simp_all add: is_http_field_value_def field_value_byte_def dq_def)
  have o: "trim_http_ows ''s'' = ''s''" "trim_http_ows ''d'' = ''d''" "trim_http_ows ''4'' = ''4''"
    by (simp_all add: trim_http_ows_def trim_matches_def is_ows_def)
  have d: "decimal 4 = ''4''" by (simp add: decimal_eval)
  have n: "declared_length i ''4'' = Inr 4" for i
    using o(3) by (simp add: declared_length_def is_digit_def parse_uint_def digits_value_def u64_max_def)
  have e: "\<not> eq_ignore_case ''Content-Type'' ''Content-Length''" "\<not> eq_ignore_case ''Content-Type'' ''Transfer-Encoding''"
    using eq_ignore_case_length [of "''Content-Type''"] by force+
  show ?thesis
    using t f o e n by (simp add: try_bytes_wire_def h d check_framing_def)
qed

lemma response_framing_witness:
  "field_count ''Content-Length'' (hr_headers sample_response) \<le> 1"
  using response_framing [OF sample_response_wire] by blast

end
