(* ===== verification/Http_Service.thy ===== *)
theory Http_Service
  imports Http_Response
begin

text \<open>
  What the request and response halves of the HTTP crate promise together: a range request is
  answered with the bytes it names, and the paths of the server's URLs are routed to the handler of their kind.
\<close>

subsection \<open>Range responses\<close>

lemma decimal_field_value [simp]: "is_http_field_value (decimal n)"
proof -
  have "field_value_byte c" if "c \<in> set (decimal n)" for c
    using set_decimal [OF that] by (simp add: is_digit_def field_value_byte_def)
  then show ?thesis by (simp add: is_http_field_value_def list_all_iff)
qed

lemma literal_field_value:
  "is_http_field_value ''bytes ''" "is_http_field_value ''-''" "is_http_field_value ''/''"
  "is_http_field_value ''bytes''" "is_http_field_value ''DLNA.ORG_TLAG=*''"
  "is_http_field_value ''Interactive''" "is_http_field_value ''Streaming''"
  "is_http_field_value ''DLNA.ORG_PN=''" "is_http_field_value '';''" "is_http_field_value ''DLNA.ORG_OP=''"
  "is_http_field_value '';DLNA.ORG_CI=''" "is_http_field_value '';DLNA.ORG_FLAGS=''"
  "is_http_field_value ''00F00000''" "is_http_field_value ''01700000''" "is_http_field_value ''01''"
  "is_http_field_value ''Partial Content''"
  by (simp_all add: is_http_field_value_def field_value_byte_def)

lemma zero_pad_field_value:
  assumes "is_http_field_value s"
  shows "is_http_field_value (zero_pad w s)"
proof -
  have "field_value_byte (CHR ''0'')" by (simp add: field_value_byte_def)
  with assms show ?thesis by (auto simp: zero_pad_def is_http_field_value_def list_all_iff)
qed

lemma features_field_value:
  assumes "case pn of Some p \<Rightarrow> is_http_field_value p | None \<Rightarrow> True"
  shows "is_http_field_value (dlna_org_features pn ''01'' ci mime)"
proof -
  have flags: "is_http_field_value (dlna_flags_hex mime)"
    unfolding dlna_flags_hex_def is_http_field_value_append
    by (cases "prefix ''image/'' mime") (simp_all only: if_True if_False literal_field_value zero_pad_field_value
        decimal_field_value simp_thms)
  show ?thesis
    using assms flags unfolding dlna_org_features_def Let_def
    by (cases pn) (simp_all only: option.case is_http_field_value_append literal_field_value
        decimal_field_value if_split simp_thms)
qed

lemma digit_not_ows: "is_digit c \<Longrightarrow> \<not> is_ows c"
  by (auto simp: is_ows_def is_digit_def)

lemma declared_length_decimal: "n \<le> u64_max \<Longrightarrow> declared_length i (decimal n) = Inr n"
proof -
  assume n: "n \<le> u64_max"
  have "trim_http_ows (decimal n) = decimal n"
    unfolding trim_http_ows_def
    using digit_not_ows [OF set_decimal [OF last_in_set [OF decimal_ne]]]
      digit_not_ows [OF set_decimal [OF hd_in_set [OF decimal_ne]]]
    by (intro trim_matches_id) simp_all
  with n show ?thesis
    by (simp add: declared_length_def list_all_iff set_decimal)
qed

lemma media_headers:
  "hr_headers (media_response opts) =
     [(''realTimeInfo.dlna.org'', ''DLNA.ORG_TLAG=*''),
      (''transferMode.dlna.org'', if prefix ''image/'' (mo_mime opts) then ''Interactive'' else ''Streaming''),
      (''Content-Type'', mo_mime opts),
      (''Content-Length'', decimal (case mo_range opts of None \<Rightarrow> mo_size opts | Some r \<Rightarrow> range_len r))] @
     (case mo_range opts of
        None \<Rightarrow> []
      | Some r \<Rightarrow> [(''Content-Range'', ''bytes '' @ decimal (br_start r) @ ''-'' @ decimal (br_end r) @ ''/'' @
          decimal (mo_size opts))]) @
     [(''Accept-Ranges'', ''bytes''),
      (''contentFeatures.dlna.org'', dlna_org_features (mo_pn opts) ''01'' (mo_ci opts) (mo_mime opts))]"
  "hr_status (media_response opts) = (case mo_range opts of None \<Rightarrow> 200 | Some _ \<Rightarrow> 206)"
  "hr_reason (media_response opts) = (case mo_range opts of None \<Rightarrow> ''OK'' | Some _ \<Rightarrow> ''Partial Content'')"
  "hr_body (media_response opts) = mo_body opts"
  "\<not> hr_persist (media_response opts)"
  by (simp_all add: media_response_def new_response_def response_set_def Let_def
      eq_ignore_case_def folded_names split: option.split)

lemma media_names:
  "n \<in> {''realTimeInfo.dlna.org'', ''transferMode.dlna.org'', ''Content-Type'', ''Content-Range'', ''Accept-Ranges'',
     ''contentFeatures.dlna.org'', ''Content-Length''} \<Longrightarrow> is_http_token n"
  "n \<in> {''realTimeInfo.dlna.org'', ''transferMode.dlna.org'', ''Content-Type'', ''Content-Range'', ''Accept-Ranges'',
     ''contentFeatures.dlna.org''} \<Longrightarrow>
     \<not> eq_ignore_case n ''Content-Length'' \<and> \<not> eq_ignore_case n ''Transfer-Encoding''"
  by (auto simp: is_http_token_def is_token_byte_def byte_simps eq_ignore_case_def folded_names)

text \<open>
  A range request the server accepts is answered with exactly the bytes it names: the read of
  the file succeeds, the response passes the wire validation, its status is 206, its content length
  is the length of the body sent and its content range states the range and the whole size.
\<close>
theorem range_response:
  fixes pn :: "string option" and resp :: "(unit, unit) http_response"
  assumes "parse_byte_range v (length content) = Inr (Some r)" "length content \<le> u64_max"
    and "is_http_field_value mime" "case pn of Some p \<Rightarrow> is_http_field_value p | None \<Rightarrow> True"
    and "is_http_field_value server" "trim_http_ows server \<noteq> []"
    and "is_http_field_value date" "trim_http_ows date \<noteq> []"
    and "read_file_range content (br_start r) (br_end r) = Some body"
    and "resp = media_response \<lparr>mo_server = server, mo_date = date, mo_mime = mime,
      mo_size = length content, mo_range = Some r, mo_body = body, mo_pn = pn, mo_ci = ci\<rparr>"
  shows "body = take (br_end r - br_start r + 1) (drop (br_start r) content) \<and>
    try_bytes_wire resp server date = Inr (wire_text resp server date) \<and> hr_status resp = 206 \<and>
    find_header ''Content-Length'' (hr_headers resp) = Some (decimal (length body)) \<and>
    find_header ''Content-Range'' (hr_headers resp) =
      Some (''bytes '' @ decimal (br_start r) @ ''-'' @ decimal (br_end r) @ ''/'' @ decimal (length content))"
proof -
  note b = parse_byte_range_sound [OF assms(1)]
  then have len: "range_len r = br_end r - br_start r + 1" "range_len r \<le> u64_max"
    using assms(2) by (auto simp: range_len_def saturating_add_def)
  then have body: "body = take (range_len r) (drop (br_start r) content)" "length body = range_len r"
    using assms(9) b assms(2)
    by (auto simp: read_file_range_def range_len_def saturating_add_def Let_def split: if_splits)
  define cr' where "cr' = ''bytes '' @ decimal (br_start r) @ ''-'' @ decimal (br_end r) @ ''/'' @ decimal (length content)"
  define feat where "feat = dlna_org_features pn ''01'' ci mime"
  define mode where "mode = (if prefix ''image/'' mime then ''Interactive'' else ''Streaming'')"
  have h: "hr_headers resp = [(''realTimeInfo.dlna.org'', ''DLNA.ORG_TLAG=*''), (''transferMode.dlna.org'', mode),
      (''Content-Type'', mime), (''Content-Length'', decimal (range_len r)), (''Content-Range'', cr'),
      (''Accept-Ranges'', ''bytes''), (''contentFeatures.dlna.org'', feat)]"
    and rest: "hr_status resp = 206" "hr_reason resp = ''Partial Content''" "hr_body resp = body" "\<not> hr_persist resp"
    unfolding assms(10) by (simp_all add: media_headers mode_def cr'_def feat_def)
  have "is_http_field_value cr'"
    unfolding cr'_def is_http_field_value_append using literal_field_value by simp
  moreover have "is_http_field_value mode" using literal_field_value by (simp add: mode_def)
  moreover have "is_http_field_value feat" using features_field_value [OF assms(4)] by (simp add: feat_def)
  ultimately have "check_headers 0 (hr_headers resp) None False = Inr (Some (range_len r), False)"
    using assms(3) media_names literal_field_value declared_length_decimal [OF len(2)] by (simp add: h)
  moreover have "check_framing resp (Some (range_len r), False) = Inr ()"
    using body(2) rest by (simp add: check_framing_def)
  ultimately have "try_bytes_wire resp server date = Inr (wire_text resp server date)"
    using assms(5-8) rest literal_field_value by (simp add: try_bytes_wire_def)
  moreover have "find_header ''Content-Length'' (hr_headers resp) = Some (decimal (length body))"
    "find_header ''Content-Range'' (hr_headers resp) = Some cr'"
    by (simp_all add: h body(2) eq_ignore_case_def folded_names)
  ultimately show ?thesis using rest(1) body(1) len(1) by (simp add: cr'_def)
qed

lemma range_response_witness:
  "hr_status (media_response \<lparr>mo_server = ''s'', mo_date = ''d'', mo_mime = ''video/mp4'',
      mo_size = length ''hello world'', mo_range = Some \<lparr>br_start = 6, br_end = 10\<rparr>, mo_body = ''world'',
      mo_pn = None, mo_ci = 0\<rparr> :: (unit, unit) http_response) = 206"
proof -
  have len: "length ''hello world'' = 11" by simp
  have p: "parse_byte_range (''bytes='' @ decimal 6 @ ''-'') (length ''hello world'') =
      Inr (Some \<lparr>br_start = 6, br_end = 10\<rparr>)"
    unfolding len using spec_decimal [of "[]" 11 6] by (simp add: u64_max_def)
  have f: "is_http_field_value ''video/mp4''" "is_http_field_value ''s''" "is_http_field_value ''d''"
    "trim_http_ows ''s'' \<noteq> []" "trim_http_ows ''d'' \<noteq> []"
    by (simp_all add: is_http_field_value_def field_value_byte_def trim_http_ows_def trim_matches_def is_ows_def)
  have rd: "read_file_range ''hello world'' 6 10 = Some ''world''"
    by (simp add: read_file_range_def saturating_add_def u64_max_def)
  show ?thesis
    by (rule range_response [where resp = "media_response \<lparr>mo_server = ''s'', mo_date = ''d'', mo_mime = ''video/mp4'',
      mo_size = length ''hello world'', mo_range = Some \<lparr>br_start = 6, br_end = 10\<rparr>, mo_body = ''world'',
      mo_pn = None, mo_ci = 0\<rparr>" and content = "''hello world''" and v = "''bytes='' @ decimal 6 @ ''-''" and pn = None
      and mime = "''video/mp4''" and server = "''s''" and date = "''d''" and r = "\<lparr>br_start = 6, br_end = 10\<rparr>"
      and body = "''world''" and ci = 0, THEN conjunct2, THEN conjunct2, THEN conjunct1])
      (use p f rd in \<open>simp_all add: u64_max_def\<close>)
qed

subsection \<open>Advertised URLs\<close>

lemma route_object_paths:
  "route_get (MEDIA_ITEMS_PREFIX @ s) = MediaItem"
  "route_get (TRANSCODE_PREFIX @ s) = Transcode"
  "route_get (ALBUM_ART_PREFIX @ s) = AlbumArt"
  "route_get (CAPTIONS_PREFIX @ s) = Caption"
  "route_get ROOTDESC_PATH = RootDesc"
  by (simp_all add: route_get_def path_defs web_assets_def)

lemma route_GET: "eq_ignore_case m ''GET'' \<or> eq_ignore_case m ''HEAD'' \<Longrightarrow> route m p = route_get p"
proof -
  assume "eq_ignore_case m ''GET'' \<or> eq_ignore_case m ''HEAD''"
  then have "ascii_lower m \<in> {ascii_lower ''GET'', ascii_lower ''HEAD''}"
    by (auto simp: eq_ignore_case_def)
  then have "\<not> eq_ignore_case m ''POST''" "\<not> eq_ignore_case m ''SUBSCRIBE''" "\<not> eq_ignore_case m ''UNSUBSCRIBE''"
    unfolding eq_ignore_case_def by (auto simp: lower_eval)
  then show ?thesis by (simp add: route_def)
qed

end
