(* ===== verification/Root_Desc.thy ===== *)
theory Root_Desc
  imports Xml_Escape Url_Paths Http_Syntax Clients
begin

text \<open>
  The description documents (\<open>crates/http/src/desc.rs\<close>): the root description with its variants for two
  renderers and the descriptions of the three services, written as nested elements, and a reader of their
  texts.
\<close>

subsection \<open>Elements\<close>

definition elem :: "string \<Rightarrow> string \<Rightarrow> string" where
  "elem n body = ''<'' @ n @ ''>'' @ body @ ''</'' @ n @ ''>''"

definition xml_declaration :: string where
  "xml_declaration = ''<?xml version='' @ dq @ ''1.0'' @ dq @ ''?>'' @ crlf"

definition spec_version :: string where
  "spec_version = elem ''specVersion'' (elem ''major'' ''1'' @ elem ''minor'' ''0'')"

subsection \<open>The root description\<close>

record root_opts =
  ro_friendly_name :: string
  ro_uuid :: string
  ro_model_number :: string
  ro_manufacturer :: string
  ro_model_name :: string
  ro_model_description :: string
  ro_serial :: string
  ro_presentation_url :: "string option"
  ro_xbox :: bool
  ro_samsung_dcm10 :: bool

definition desc_icon :: "string \<Rightarrow> string \<Rightarrow> string \<Rightarrow> string" where
  "desc_icon mime edge url =
     elem ''icon'' (elem ''mimetype'' mime @ elem ''width'' edge @ elem ''height'' edge @ elem ''depth'' ''24'' @ elem ''url'' url)"

definition desc_service :: "string \<Rightarrow> string \<Rightarrow> string \<Rightarrow> string \<Rightarrow> string \<Rightarrow> string" where
  "desc_service type service_id control event scpd =
     elem ''service'' (elem ''serviceType'' type @ elem ''serviceId'' service_id @ elem ''controlURL'' control @
       elem ''eventSubURL'' event @ elem ''SCPDURL'' scpd)"

definition product_caps :: string where
  "product_caps = ''smi,DCM10,getMediaInfo.sec,getCaptionInfo.sec''"

definition shown_friendly_name :: "root_opts \<Rightarrow> string" where
  "shown_friendly_name ro =
     (if ro_xbox ro \<and> CHR '':'' \<notin> set (ro_friendly_name ro) then ro_friendly_name ro @ '': 1'' else ro_friendly_name ro)"

definition desc_icons :: string where
  "desc_icons =
     desc_icon ''image/png'' ''48'' ''/icons/sm.png'' @ desc_icon ''image/jpeg'' ''48'' ''/icons/sm.jpg'' @
     desc_icon ''image/png'' ''120'' ''/icons/lrg.png'' @ desc_icon ''image/jpeg'' ''120'' ''/icons/lrg.jpg''"

definition desc_services :: string where
  "desc_services =
     desc_service ''urn:schemas-upnp-org:service:ContentDirectory:1'' ''urn:upnp-org:serviceId:ContentDirectory''
       CONTENTDIRECTORY_CONTROLURL CONTENTDIRECTORY_EVENTURL CONTENTDIRECTORY_PATH @
     desc_service ''urn:schemas-upnp-org:service:ConnectionManager:1'' ''urn:upnp-org:serviceId:ConnectionManager''
       CONNECTIONMGR_CONTROLURL CONNECTIONMGR_EVENTURL CONNECTIONMGR_PATH @
     desc_service ''urn:microsoft.com:service:X_MS_MediaReceiverRegistrar:1''
       ''urn:microsoft.com:serviceId:X_MS_MediaReceiverRegistrar''
       MS_REGISTRAR_CONTROLURL MS_REGISTRAR_EVENTURL MS_REGISTRAR_PATH"

definition desc_device :: "root_opts \<Rightarrow> string" where
  "desc_device ro =
     elem ''deviceType'' ''urn:schemas-upnp-org:device:MediaServer:1'' @
     elem ''friendlyName'' (escape_xml (shown_friendly_name ro)) @
     elem ''manufacturer'' (escape_xml (ro_manufacturer ro)) @
     (if ro_samsung_dcm10 ro then [] else elem ''manufacturerURL'' ''http://www.netgear.com/'') @
     elem ''modelDescription'' (escape_xml (ro_model_description ro)) @
     elem ''modelName'' (escape_xml (ro_model_name ro)) @
     elem ''modelNumber'' (escape_xml (if ro_xbox ro then ''1'' else ro_model_number ro)) @
     (if ro_samsung_dcm10 ro then [] else elem ''modelURL'' ''http://www.netgear.com/'') @
     elem ''serialNumber'' (escape_xml (ro_serial ro)) @
     elem ''UDN'' (escape_xml (ro_uuid ro)) @
     elem ''dlna:X_DLNADOC'' ''DMS-1.50'' @
     (case ro_presentation_url ro of None \<Rightarrow> [] | Some u \<Rightarrow> elem ''presentationURL'' (escape_xml u)) @
     (if ro_samsung_dcm10 ro then elem ''sec:ProductCap'' product_caps @ elem ''sec:X_ProductCap'' product_caps else []) @
     elem ''iconList'' desc_icons @ elem ''serviceList'' desc_services"

definition gen_root_desc :: "root_opts \<Rightarrow> string" where
  "gen_root_desc ro =
     xml_declaration @
     ''<root xmlns='' @ dq @ ''urn:schemas-upnp-org:device-1-0'' @ dq @ '' xmlns:dlna='' @ dq @
       ''urn:schemas-dlna-org:device-1-0'' @ dq @
       (if ro_samsung_dcm10 ro then '' xmlns:sec='' @ dq @ ''http://www.sec.co.kr/dlna'' @ dq else []) @ ''>'' @
     spec_version @ elem ''device'' (desc_device ro) @ ''</root>'' @ crlf"

text \<open>The options of the server (\<open>root_desc\<close> in \<open>server/src/http_app.rs\<close>).\<close>

definition root_desc_opts :: "string \<Rightarrow> nat \<Rightarrow> string \<Rightarrow> string \<Rightarrow> string option \<Rightarrow> client_profile \<Rightarrow> root_opts" where
  "root_desc_opts host port friendly_name uuid serial c =
     \<lparr>ro_friendly_name = friendly_name, ro_uuid = uuid, ro_model_number = ''1'', ro_manufacturer = ''Justin Maggard'',
      ro_model_name = ''Windows Media Connect compatible (rustyDLNA)'', ro_model_description = ''rustyDLNA on Linux'',
      ro_serial = (case serial of Some s \<Rightarrow> s | None \<Rightarrow> ''1''), ro_presentation_url = Some (http_base host port @ ''/''),
      ro_xbox = (cp_kind c = XboxKind), ro_samsung_dcm10 = contains (cp_flags c) F_SAMSUNG_DCM10\<rparr>"

subsection \<open>Service descriptions\<close>

definition scpd_argument :: "string \<times> string \<times> string \<Rightarrow> string" where
  "scpd_argument = (\<lambda>(name, direction, variable).
     elem ''argument'' (elem ''name'' name @ elem ''direction'' direction @ elem ''relatedStateVariable'' variable))"

definition scpd_action :: "string \<Rightarrow> (string \<times> string \<times> string) list \<Rightarrow> string" where
  "scpd_action name arguments =
     elem ''action'' (elem ''name'' name @ elem ''argumentList'' (concat (map scpd_argument arguments)))"

definition scpd_variable :: "string \<times> string \<times> string \<times> string list \<Rightarrow> string" where
  "scpd_variable = (\<lambda>(events, name, type, allowed).
     ''<stateVariable sendEvents='' @ dq @ events @ dq @ ''>'' @ elem ''name'' name @ elem ''dataType'' type @
     (if allowed = [] then [] else elem ''allowedValueList'' (concat (map (elem ''allowedValue'') allowed))) @
     ''</stateVariable>'')"

definition scpd :: "(string \<times> (string \<times> string \<times> string) list) list \<Rightarrow> (string \<times> string \<times> string \<times> string list) list \<Rightarrow> string" where
  "scpd actions variables =
     xml_declaration @ ''<scpd xmlns='' @ dq @ ''urn:schemas-upnp-org:service-1-0'' @ dq @ ''>'' @ spec_version @
     elem ''actionList'' (concat (map (\<lambda>(name, arguments). scpd_action name arguments) actions)) @
     elem ''serviceStateTable'' (concat (map scpd_variable variables)) @ ''</scpd>'' @ crlf"

definition cd_query_results :: "(string \<times> string \<times> string) list" where
  "cd_query_results =
     [(''Result'', ''out'', ''A_ARG_TYPE_Result''), (''NumberReturned'', ''out'', ''A_ARG_TYPE_Count''),
      (''TotalMatches'', ''out'', ''A_ARG_TYPE_Count''), (''UpdateID'', ''out'', ''A_ARG_TYPE_UpdateID'')]"

definition cd_page_arguments :: "(string \<times> string \<times> string) list" where
  "cd_page_arguments =
     [(''Filter'', ''in'', ''A_ARG_TYPE_Filter''), (''StartingIndex'', ''in'', ''A_ARG_TYPE_Index''),
      (''RequestedCount'', ''in'', ''A_ARG_TYPE_Count''), (''SortCriteria'', ''in'', ''A_ARG_TYPE_SortCriteria'')]"

definition cd_actions :: "(string \<times> (string \<times> string \<times> string) list) list" where
  "cd_actions =
     [(''GetSearchCapabilities'', [(''SearchCaps'', ''out'', ''SearchCapabilities'')]),
      (''GetSortCapabilities'', [(''SortCaps'', ''out'', ''SortCapabilities'')]),
      (''GetSystemUpdateID'', [(''Id'', ''out'', ''SystemUpdateID'')]),
      (''Browse'', [(''ObjectID'', ''in'', ''A_ARG_TYPE_ObjectID''), (''BrowseFlag'', ''in'', ''A_ARG_TYPE_BrowseFlag'')] @
         cd_page_arguments @ cd_query_results),
      (''Search'', [(''ContainerID'', ''in'', ''A_ARG_TYPE_ObjectID''), (''SearchCriteria'', ''in'', ''A_ARG_TYPE_SearchCriteria'')] @
         cd_page_arguments @ cd_query_results),
      (''UpdateObject'', [(''ObjectID'', ''in'', ''A_ARG_TYPE_ObjectID''), (''CurrentTagValue'', ''in'', ''A_ARG_TYPE_TagValueList''),
         (''NewTagValue'', ''in'', ''A_ARG_TYPE_TagValueList'')]),
      (''X_GetFeatureList'', [(''FeatureList'', ''out'', ''A_ARG_TYPE_Result'')]),
      (''X_SetBookmark'', [(''ObjectID'', ''in'', ''A_ARG_TYPE_ObjectID''), (''PosSecond'', ''in'', ''A_ARG_TYPE_PosSecond'')])]"

definition cd_variables :: "(string \<times> string \<times> string \<times> string list) list" where
  "cd_variables =
     [(''no'', ''SearchCapabilities'', ''string'', []), (''no'', ''SortCapabilities'', ''string'', []),
      (''yes'', ''SystemUpdateID'', ''ui4'', []), (''yes'', ''ContainerUpdateIDs'', ''string'', []),
      (''no'', ''A_ARG_TYPE_ObjectID'', ''string'', []), (''no'', ''A_ARG_TYPE_Result'', ''string'', []),
      (''no'', ''A_ARG_TYPE_SearchCriteria'', ''string'', []),
      (''no'', ''A_ARG_TYPE_BrowseFlag'', ''string'', [''BrowseMetadata'', ''BrowseDirectChildren'']),
      (''no'', ''A_ARG_TYPE_Filter'', ''string'', []), (''no'', ''A_ARG_TYPE_SortCriteria'', ''string'', []),
      (''no'', ''A_ARG_TYPE_Index'', ''ui4'', []), (''no'', ''A_ARG_TYPE_Count'', ''ui4'', []),
      (''no'', ''A_ARG_TYPE_UpdateID'', ''ui4'', []), (''no'', ''A_ARG_TYPE_TagValueList'', ''string'', []),
      (''no'', ''A_ARG_TYPE_PosSecond'', ''i4'', [])]"

definition scpd_content_directory :: string where
  "scpd_content_directory = scpd cd_actions cd_variables"

definition minimal_scpd :: string where
  "minimal_scpd = scpd_content_directory"

definition cm_actions :: "(string \<times> (string \<times> string \<times> string) list) list" where
  "cm_actions =
     [(''GetProtocolInfo'', [(''Source'', ''out'', ''SourceProtocolInfo''), (''Sink'', ''out'', ''SinkProtocolInfo'')]),
      (''GetCurrentConnectionIDs'', [(''ConnectionIDs'', ''out'', ''CurrentConnectionIDs'')]),
      (''GetCurrentConnectionInfo'',
        [(''ConnectionID'', ''in'', ''A_ARG_TYPE_ConnectionID''), (''RcsID'', ''out'', ''A_ARG_TYPE_RcsID''),
         (''AVTransportID'', ''out'', ''A_ARG_TYPE_AVTransportID''), (''ProtocolInfo'', ''out'', ''A_ARG_TYPE_ProtocolInfo''),
         (''PeerConnectionManager'', ''out'', ''A_ARG_TYPE_ConnectionManager''),
         (''PeerConnectionID'', ''out'', ''A_ARG_TYPE_ConnectionID''), (''Direction'', ''out'', ''A_ARG_TYPE_Direction''),
         (''Status'', ''out'', ''A_ARG_TYPE_ConnectionStatus'')])]"

definition cm_variables :: "(string \<times> string \<times> string \<times> string list) list" where
  "cm_variables =
     [(''yes'', ''SourceProtocolInfo'', ''string'', []), (''yes'', ''SinkProtocolInfo'', ''string'', []),
      (''yes'', ''CurrentConnectionIDs'', ''string'', []), (''no'', ''A_ARG_TYPE_ConnectionStatus'', ''string'', []),
      (''no'', ''A_ARG_TYPE_ConnectionManager'', ''string'', []), (''no'', ''A_ARG_TYPE_Direction'', ''string'', []),
      (''no'', ''A_ARG_TYPE_ProtocolInfo'', ''string'', []), (''no'', ''A_ARG_TYPE_ConnectionID'', ''i4'', []),
      (''no'', ''A_ARG_TYPE_AVTransportID'', ''i4'', []), (''no'', ''A_ARG_TYPE_RcsID'', ''i4'', [])]"

definition scpd_connection_manager :: string where
  "scpd_connection_manager = scpd cm_actions cm_variables"

definition registrar_actions :: "(string \<times> (string \<times> string \<times> string) list) list" where
  "registrar_actions =
     [(''IsAuthorized'', [(''DeviceID'', ''in'', ''A_ARG_TYPE_DeviceID''), (''Result'', ''out'', ''A_ARG_TYPE_Result'')]),
      (''IsValidated'', [(''DeviceID'', ''in'', ''A_ARG_TYPE_DeviceID''), (''Result'', ''out'', ''A_ARG_TYPE_Result'')]),
      (''RegisterDevice'', [(''RegistrationReqMsg'', ''in'', ''A_ARG_TYPE_RegistrationReqMsg''),
         (''RegistrationRespMsg'', ''out'', ''A_ARG_TYPE_RegistrationRespMsg'')])]"

definition registrar_variables :: "(string \<times> string \<times> string \<times> string list) list" where
  "registrar_variables =
     [(''no'', ''A_ARG_TYPE_DeviceID'', ''string'', []), (''no'', ''A_ARG_TYPE_RegistrationReqMsg'', ''bin.base64'', []),
      (''no'', ''A_ARG_TYPE_RegistrationRespMsg'', ''bin.base64'', []), (''no'', ''A_ARG_TYPE_Result'', ''int'', [])]"

definition scpd_registrar :: string where
  "scpd_registrar = scpd registrar_actions registrar_variables"

subsection \<open>A reader\<close>

text \<open>The texts of all elements of a name: what stands between their start tag and the next tag.\<close>

definition texts :: "string \<Rightarrow> string \<Rightarrow> string list" where
  "texts n doc = List.map_filter (strip_prefix (n @ ''>'')) (split_on (CHR ''<'') doc)"

lemma split_on_two: "split_on c (a @ c # b) = split_on c a @ split_on c b"
  by (induction a rule: split_on.induct) (auto split: list.splits)

lemma texts_two: "texts n (a @ CHR ''<'' # b) = texts n a @ texts n b"
  by (simp add: texts_def split_on_two List.map_filter_def)

lemma map_filter_one: "List.map_filter f [x] = (case f x of None \<Rightarrow> [] | Some t \<Rightarrow> [t])"
  by (simp add: List.map_filter_simps split: option.split)

lemma texts_plain:
  "CHR ''<'' \<notin> set s \<Longrightarrow> texts n s = (case strip_prefix (n @ ''>'') s of None \<Rightarrow> [] | Some t \<Rightarrow> [t])"
  by (drule split_on_no_sep) (simp only: texts_def map_filter_one)

lemma texts_Nil [simp]: "texts n [] = []"
  by (simp add: texts_plain strip_prefix_def)

lemma texts_tag:
  "CHR ''<'' \<notin> set s \<Longrightarrow> texts n (CHR ''<'' # s) = (case strip_prefix (n @ ''>'') s of None \<Rightarrow> [] | Some t \<Rightarrow> [t])"
  using texts_two [of n "[]" s] by (simp add: texts_plain)

text \<open>Parts of a document begin with a tag, so that the texts of a sequence of parts are those of the parts.\<close>

definition tagged :: "string \<Rightarrow> bool" where
  "tagged s \<longleftrightarrow> s = [] \<or> hd s = CHR ''<''"

lemma tagged_simps [simp]:
  "tagged []" "tagged (CHR ''<'' # s)" "tagged (elem n b)" "tagged a \<Longrightarrow> tagged b \<Longrightarrow> tagged (a @ b)"
  by (auto simp: tagged_def elem_def hd_append)

lemma texts_append: "tagged b \<Longrightarrow> texts n (a @ b) = texts n a @ texts n b"
  using texts_two [of n a "tl b"] texts_two [of n "[]" "tl b"] by (cases b) (auto simp: tagged_def)

definition tag_name :: "string \<Rightarrow> bool" where
  "tag_name n \<longleftrightarrow> n \<noteq> [] \<and> hd n \<noteq> CHR ''/'' \<and> set n \<inter> {CHR ''<'', CHR ''>''} = {}"

lemma strip_name:
  assumes "tag_name n" "tag_name m"
  shows "strip_prefix (n @ ''>'') (m @ CHR ''>'' # t) = (if n = m then Some t else None)"
    "strip_prefix (n @ ''>'') (CHR ''/'' # t) = None"
proof -
  have "n = m" if "prefix (n @ ''>'') (m @ CHR ''>'' # t)"
  proof -
    from that obtain u where "n @ CHR ''>'' # u = m @ CHR ''>'' # t" by (auto simp: prefix_def)
    moreover have "CHR ''>'' \<notin> set n" "CHR ''>'' \<notin> set m" using assms by (auto simp: tag_name_def)
    ultimately show ?thesis using split_once_append by (metis option.inject prod.inject)
  qed
  then show "strip_prefix (n @ ''>'') (m @ CHR ''>'' # t) = (if n = m then Some t else None)"
    by (auto simp: strip_prefix_def)
  show "strip_prefix (n @ ''>'') (CHR ''/'' # t) = None"
    using assms(1) by (cases n) (auto simp: strip_prefix_def tag_name_def)
qed

lemma elem_tags: "elem m b = (CHR ''<'' # m @ ''>'') @ b @ CHR ''<'' # CHR ''/'' # m @ ''>''"
  by (simp add: elem_def)

lemma texts_elem:
  assumes "tag_name n" "tag_name m"
  shows "CHR ''<'' \<notin> set t \<Longrightarrow> texts n (elem m t) = (if n = m then [t] else [])"
    "tagged b \<Longrightarrow> texts n (elem m b) = (if n = m then [[]] else []) @ texts n b"
proof -
  have m: "CHR ''<'' \<notin> set m" using assms(2) by (auto simp: tag_name_def)
  have close: "texts n (CHR ''<'' # CHR ''/'' # m @ ''>'') = []"
    using m strip_name(2) [OF assms] by (subst texts_tag) simp_all
  have opened: "texts n ((CHR ''<'' # m @ ''>'') @ t) = (if n = m then [t] else [])" if "CHR ''<'' \<notin> set t" for t
    using m that strip_name(1) [OF assms, of t] texts_tag [of "m @ CHR ''>'' # t" n] by simp
  show "texts n (elem m t) = (if n = m then [t] else [])" if "CHR ''<'' \<notin> set t"
    unfolding elem_tags append_assoc [symmetric] using close opened [OF that] by (subst texts_append) simp_all
  show "texts n (elem m b) = (if n = m then [[]] else []) @ texts n b" if "tagged b"
    unfolding elem_tags using close opened [of "[]"] that by (simp add: texts_append del: append_Cons)
qed

subsection \<open>The URLs of the root description\<close>

definition root_opts_utf8 :: "root_opts \<Rightarrow> bool" where
  "root_opts_utf8 ro \<longleftrightarrow>
     list_all utf8_valid [ro_friendly_name ro, ro_uuid ro, ro_model_number ro, ro_manufacturer ro, ro_model_name ro,
       ro_model_description ro, ro_serial ro] \<and>
     (case ro_presentation_url ro of None \<Rightarrow> True | Some u \<Rightarrow> utf8_valid u)"

lemma escaped_no_tag: "utf8_valid v \<Longrightarrow> CHR ''<'' \<notin> set (escape_xml v)"
  using escape_no_markup [of v "CHR ''<''" True] by (simp add: escape_defs)

lemma shown_name_utf8: "utf8_valid (ro_friendly_name ro) \<Longrightarrow> utf8_valid (shown_friendly_name ro)"
  by (simp add: shown_friendly_name_def utf8_valid_append)

lemma url_names:
  "n \<in> {''url'', ''controlURL'', ''eventSubURL'', ''SCPDURL'', ''presentationURL'', ''serviceType''} \<Longrightarrow> tag_name n"
  by (auto simp: tag_name_def)

lemma desc_names:
  "m \<in> {''icon'', ''mimetype'', ''width'', ''height'', ''depth'', ''url'', ''service'', ''serviceType'', ''serviceId'',
     ''controlURL'', ''eventSubURL'', ''SCPDURL'', ''deviceType'', ''friendlyName'', ''manufacturer'', ''manufacturerURL'',
     ''modelDescription'', ''modelName'', ''modelNumber'', ''modelURL'', ''serialNumber'', ''UDN'', ''dlna:X_DLNADOC'',
     ''presentationURL'', ''sec:ProductCap'', ''sec:X_ProductCap'', ''iconList'', ''serviceList'', ''specVersion'', ''major'',
     ''minor'', ''device''} \<Longrightarrow> tag_name m"
  by (auto simp: tag_name_def)

lemma tagged_parts [simp]:
  "tagged (desc_icon mime edge url)" "tagged (desc_service ty sid c e s)" "tagged desc_icons" "tagged desc_services"
  "tagged (desc_device ro)" "tagged spec_version"
  by (simp_all add: desc_icon_def desc_service_def desc_icons_def desc_services_def desc_device_def spec_version_def
      split: option.split)

lemma texts_icon:
  assumes "n \<in> {''url'', ''controlURL'', ''eventSubURL'', ''SCPDURL'', ''presentationURL'', ''serviceType''}"
    "CHR ''<'' \<notin> set mime" "CHR ''<'' \<notin> set edge" "CHR ''<'' \<notin> set u"
  shows "texts n (desc_icon mime edge u) = (if n = ''url'' then [u] else [])"
  using assms(1) unfolding desc_icon_def
  by (auto simp: texts_append texts_elem [OF url_names desc_names] assms)

lemma texts_service:
  assumes "n \<in> {''url'', ''controlURL'', ''eventSubURL'', ''SCPDURL'', ''presentationURL'', ''serviceType''}"
    "CHR ''<'' \<notin> set (ty @ sid @ c @ e @ s)"
  shows "texts n (desc_service ty sid c e s) =
    (if n = ''serviceType'' then [ty] else if n = ''controlURL'' then [c] else if n = ''eventSubURL'' then [e]
     else if n = ''SCPDURL'' then [s] else [])"
  using assms(1) unfolding desc_service_def
  by (elim insertE emptyE; use assms(2) in \<open>simp add: texts_append texts_elem [OF url_names desc_names]\<close>)

lemma texts_icons:
  "n \<in> {''url'', ''controlURL'', ''eventSubURL'', ''SCPDURL'', ''presentationURL'', ''serviceType''} \<Longrightarrow>
    texts n desc_icons = (if n = ''url'' then [''/icons/sm.png'', ''/icons/sm.jpg'', ''/icons/lrg.png'', ''/icons/lrg.jpg''] else [])"
  by (simp add: desc_icons_def texts_append texts_icon)

lemma texts_services:
  assumes "n \<in> {''url'', ''controlURL'', ''eventSubURL'', ''SCPDURL'', ''presentationURL'', ''serviceType''}"
  shows "texts n desc_services =
    (if n = ''serviceType'' then [''urn:schemas-upnp-org:service:ContentDirectory:1'',
       ''urn:schemas-upnp-org:service:ConnectionManager:1'', ''urn:microsoft.com:service:X_MS_MediaReceiverRegistrar:1'']
     else if n = ''controlURL'' then [CONTENTDIRECTORY_CONTROLURL, CONNECTIONMGR_CONTROLURL, MS_REGISTRAR_CONTROLURL]
     else if n = ''eventSubURL'' then [CONTENTDIRECTORY_EVENTURL, CONNECTIONMGR_EVENTURL, MS_REGISTRAR_EVENTURL]
     else if n = ''SCPDURL'' then [CONTENTDIRECTORY_PATH, CONNECTIONMGR_PATH, MS_REGISTRAR_PATH] else [])"
  unfolding desc_services_def using assms by (simp add: texts_append texts_service path_defs)

lemma texts_device:
  assumes "n \<in> {''url'', ''controlURL'', ''eventSubURL'', ''SCPDURL'', ''presentationURL'', ''serviceType''}" "root_opts_utf8 ro"
  shows "texts n (desc_device ro) =
    (if n = ''presentationURL'' then (case ro_presentation_url ro of None \<Rightarrow> [] | Some u \<Rightarrow> [escape_xml u]) else []) @
    texts n desc_icons @ texts n desc_services"
proof -
  have u: "utf8_valid (ro_friendly_name ro)" "utf8_valid (ro_uuid ro)" "utf8_valid (ro_model_number ro)"
    "utf8_valid (ro_manufacturer ro)" "utf8_valid (ro_model_name ro)" "utf8_valid (ro_model_description ro)"
    "utf8_valid (ro_serial ro)" "ro_presentation_url ro = Some v \<Longrightarrow> utf8_valid v" for v
    using assms(2) by (auto simp: root_opts_utf8_def)
  have n: "tag_name n" by (rule url_names) (rule assms(1))
  have plain: "texts n (elem m t) = []" if "m \<noteq> n" "tag_name m" "CHR ''<'' \<notin> set t" for m t
    using texts_elem(1) [OF n that(2,3)] that(1) by auto
  have esc: "texts n (elem m (escape_xml t)) = []" if "m \<noteq> n" "tag_name m" "utf8_valid t" for m t
    by (rule plain [OF that(1,2)]) (rule escaped_no_tag [OF that(3)])
  have nested: "texts n (elem m b) = texts n b" if "m \<noteq> n" "tag_name m" "tagged b" for m b
    using texts_elem(2) [OF n that(2,3)] that(1) by auto
  have pres: "texts n (elem ''presentationURL'' (escape_xml v)) = (if n = ''presentationURL'' then [escape_xml v] else [])"
    if "utf8_valid v" for v
    using texts_elem(1) [OF n desc_names escaped_no_tag [OF that]] by simp
  have ne: "\<And>m. m \<in> {''deviceType'', ''friendlyName'', ''manufacturer'', ''manufacturerURL'', ''modelDescription'', ''modelName'',
      ''modelNumber'', ''modelURL'', ''serialNumber'', ''UDN'', ''dlna:X_DLNADOC'', ''sec:ProductCap'', ''sec:X_ProductCap'',
      ''iconList'', ''serviceList''} \<Longrightarrow> m \<noteq> n"
    using assms(1) by auto
  show ?thesis
    unfolding desc_device_def
    using shown_name_utf8 [OF u(1)] u
    by (cases "ro_presentation_url ro")
      (simp_all add: texts_append plain esc nested pres ne desc_names texts_elem [OF url_names desc_names] product_caps_def)
qed

lemma texts_frame:
  assumes "n \<in> {''url'', ''controlURL'', ''eventSubURL'', ''SCPDURL'', ''presentationURL'', ''serviceType''}"
  shows "texts n xml_declaration = []" "texts n spec_version = []" "texts n (''</root>'' @ crlf) = []"
  using assms
  by (auto simp: xml_declaration_def dq_def crlf_def cr_def lf_def spec_version_def texts_append texts_elem [OF url_names desc_names]
      texts_tag strip_prefix_def split: option.split)

lemma texts_root_tag:
  assumes "n \<in> {''url'', ''controlURL'', ''eventSubURL'', ''SCPDURL'', ''presentationURL'', ''serviceType''}"
    "CHR ''<'' \<notin> set a"
  shows "texts n (''<root xmlns='' @ a) = []"
  using assms by (auto simp: texts_tag strip_prefix_def)

text \<open>The texts of a URL element in the whole document are those of the device.\<close>

lemma texts_root_desc:
  assumes "n \<in> {''url'', ''controlURL'', ''eventSubURL'', ''SCPDURL'', ''presentationURL'', ''serviceType''}" "root_opts_utf8 ro"
  shows "texts n (gen_root_desc ro) =
    (if n = ''presentationURL'' then (case ro_presentation_url ro of None \<Rightarrow> [] | Some u \<Rightarrow> [escape_xml u]) else []) @
    texts n desc_icons @ texts n desc_services"
proof -
  define attrs where "attrs = dq @ ''urn:schemas-upnp-org:device-1-0'' @ dq @ '' xmlns:dlna='' @ dq @ ''urn:schemas-dlna-org:device-1-0'' @
    dq @ (if ro_samsung_dcm10 ro then '' xmlns:sec='' @ dq @ ''http://www.sec.co.kr/dlna'' @ dq else []) @ ''>''"
  have a: "CHR ''<'' \<notin> set attrs" by (simp add: attrs_def dq_def)
  define root_tag where "root_tag = ''<root xmlns='' @ attrs"
  define root_end where "root_end = ''</root>'' @ crlf"
  have doc: "gen_root_desc ro = xml_declaration @ root_tag @ spec_version @ elem ''device'' (desc_device ro) @ root_end"
    by (simp add: gen_root_desc_def root_tag_def root_end_def attrs_def)
  have dev: "texts n (elem ''device'' (desc_device ro)) = texts n (desc_device ro)"
    using texts_elem(2) [OF url_names [OF assms(1)] desc_names, of "''device''" "desc_device ro"] assms(1) by auto
  have t: "tagged root_tag" "tagged root_end" "texts n root_tag = []" "texts n root_end = []"
    unfolding root_tag_def root_end_def using texts_frame(3) [OF assms(1)] texts_root_tag [OF assms(1) a] by simp_all
  show ?thesis
    unfolding doc by (simp add: texts_append t texts_frame [OF assms(1)] dev texts_device [OF assms])
qed

end
