(* ===== verification/Query_Control.thy ===== *)
theory Query_Control
  imports Prelude "HOL-Library.Sorting_Algorithms"
begin

text \<open>
  The control of a catalogue query (\<open>crates/server/src/catalog_query.rs\<close>): the budget that stops it,
  the admission of at most four queries, and the checked stable merge sort.

  A query is a computation on the control's state. What it learns from outside, whether it was cancelled
  and whether its deadline has passed, is a stream of answers in that state: every look at the outside
  world takes the next one.
\<close>

subsection \<open>The control\<close>

datatype query_stopped = Cancelled | Deadline | Budget

definition MAX_QUERY_WORK_ITEMS :: nat where "MAX_QUERY_WORK_ITEMS = 1000000"
definition MAX_QUERY_WORK_BYTES :: nat where "MAX_QUERY_WORK_BYTES = 64 * 1024 * 1024"
definition MAX_ACTIVE_CATALOG_QUERIES :: nat where "MAX_ACTIVE_CATALOG_QUERIES = 4"

record query_metrics =
  qm_timeouts :: "64 word"
  qm_cancellations :: "64 word"
  qm_budget_exhaustions :: "64 word"

record outside =
  is_cancelled :: bool
  is_expired :: bool

record query_control =
  qc_stopped :: "query_stopped option"
  qc_metrics :: query_metrics
  qc_outside :: "nat \<Rightarrow> outside"

type_synonym 'a query = "query_control \<Rightarrow> (query_stopped + 'a) \<times> query_control"

definition q_ret :: "'a \<Rightarrow> 'a query" where
  "q_ret x s = (Inr x, s)"

definition q_bind :: "'a query \<Rightarrow> ('a \<Rightarrow> 'b query) \<Rightarrow> 'b query" where
  "q_bind m f s = (case m s of (Inl e, s') \<Rightarrow> (Inl e, s') | (Inr x, s') \<Rightarrow> f x s')"

text \<open>\<open>.ok()\<close> and \<open>.is_ok()\<close>: the error becomes a value and the query goes on.\<close>

definition q_ok :: "'a query \<Rightarrow> 'a option query" where
  "q_ok m s = (case m s of (Inl e, s') \<Rightarrow> (Inr None, s') | (Inr x, s') \<Rightarrow> (Inr (Some x), s'))"

definition count_stop :: "query_stopped \<Rightarrow> query_metrics \<Rightarrow> query_metrics" where
  "count_stop e m =
     (case e of
        Cancelled \<Rightarrow> m\<lparr>qm_cancellations := qm_cancellations m + 1\<rparr>
      | Deadline \<Rightarrow> m\<lparr>qm_timeouts := qm_timeouts m + 1\<rparr>
      | Budget \<Rightarrow> m\<lparr>qm_budget_exhaustions := qm_budget_exhaustions m + 1\<rparr>)"

definition q_stop :: "query_stopped \<Rightarrow> 'a query" where
  "q_stop e s =
     (let s' = (if qc_stopped s = None
                then s\<lparr>qc_stopped := Some e, qc_metrics := count_stop e (qc_metrics s)\<rparr> else s)
      in (Inl (case qc_stopped s' of Some e' \<Rightarrow> e' | None \<Rightarrow> e), s'))"

definition look :: "query_control \<Rightarrow> outside \<times> query_control" where
  "look s = (qc_outside s 0, s\<lparr>qc_outside := \<lambda>i. qc_outside s (Suc i)\<rparr>)"

definition q_check :: "unit query" where
  "q_check s =
     (case qc_stopped s of
        Some e \<Rightarrow> (Inl e, s)
      | None \<Rightarrow>
          (case look s of (seen, s') \<Rightarrow>
             if is_cancelled seen then q_stop Cancelled s'
             else if is_expired seen then q_stop Deadline s'
             else (Inr (), s')))"

definition check_work_items :: "nat \<Rightarrow> unit query" where
  "check_work_items n =
     q_bind q_check (\<lambda>_. if n > MAX_QUERY_WORK_ITEMS then q_stop Budget else q_ret ())"

definition check_work_bytes :: "nat \<Rightarrow> unit query" where
  "check_work_bytes n =
     q_bind q_check (\<lambda>_. if n > MAX_QUERY_WORK_BYTES then q_stop Budget else q_ret ())"

text \<open>A control as \<open>QueryControl::new\<close> makes it, with the metrics it shares.\<close>

definition query_control_new :: "query_metrics \<Rightarrow> (nat \<Rightarrow> outside) \<Rightarrow> query_control" where
  "query_control_new m w = \<lparr>qc_stopped = None, qc_metrics = m, qc_outside = w\<rparr>"

subsection \<open>Admission\<close>

text \<open>
  One round of the loop in \<open>acquire\<close>: the caller is stopped, admitted, or waits for the condition
  variable and comes back.
\<close>

datatype admission_answer = Stopped query_stopped | Admitted | Waits

definition admission_round :: "nat \<Rightarrow> query_control \<Rightarrow> admission_answer \<times> nat \<times> query_control" where
  "admission_round active s =
     (case q_check s of
        (Inl e, s') \<Rightarrow> (Stopped e, active, s')
      | (Inr _, s') \<Rightarrow>
          if active < MAX_ACTIVE_CATALOG_QUERIES then (Admitted, active + 1, s') else (Waits, active, s'))"

definition release_permit :: "nat \<Rightarrow> nat" where
  "release_permit active = active - 1"

subsection \<open>The checked merge sort\<close>

text \<open>\<open>(0..n).step_by(k)\<close>\<close>

definition step_by :: "nat \<Rightarrow> nat \<Rightarrow> nat list" where
  "step_by n k = filter (\<lambda>i. i mod k = 0) [0..<n]"

definition check_every_256 :: "nat \<Rightarrow> unit query" where
  "check_every_256 i = (if i mod 256 = 0 then q_check else q_ret ())"

fun clone_values :: "nat \<Rightarrow> 'a list \<Rightarrow> 'a list \<Rightarrow> 'a list query" where
  "clone_values i acc [] = q_ret acc"
| "clone_values i acc (x # xs) = q_bind (check_every_256 i) (\<lambda>_. clone_values (Suc i) (acc @ [x]) xs)"

text \<open>
  The inner loop merges \<open>src[left..middle]\<close> and \<open>src[right..end]\<close>. \<open>right\<close> never exceeds \<open>end\<close>,
  so the test \<open>right == end\<close> is written as an inequality, with which the loop ends for all arguments.
\<close>

function merge_run ::
  "('a \<Rightarrow> 'a \<Rightarrow> comp) \<Rightarrow> 'a list \<Rightarrow> nat \<Rightarrow> nat \<Rightarrow> nat \<Rightarrow> nat \<Rightarrow> 'a list \<Rightarrow> 'a list query" where
  "merge_run cmp src left middle right stop target =
     (if left < middle \<or> right < stop then
        q_bind (check_every_256 (length target)) (\<lambda>_.
          if stop \<le> right \<or> (left < middle \<and> cmp (src ! left) (src ! right) \<noteq> Greater)
          then merge_run cmp src (left + 1) middle right stop (target @ [src ! left])
          else merge_run cmp src left middle (right + 1) stop (target @ [src ! right]))
      else q_ret target)"
  by pat_completeness auto
termination
  by (relation "measure (\<lambda>(cmp, src, left, middle, right, stop, target). (middle - left) + (stop - right))") auto

fun merge_runs :: "('a \<Rightarrow> 'a \<Rightarrow> comp) \<Rightarrow> 'a list \<Rightarrow> nat \<Rightarrow> nat list \<Rightarrow> 'a list \<Rightarrow> 'a list query" where
  "merge_runs cmp src width [] target = q_ret target"
| "merge_runs cmp src width (start # starts) target =
     (let middle = min (saturating_add usize_max start width) (length src);
          stop = min (saturating_add usize_max middle width) (length src)
      in q_bind (merge_run cmp src start middle middle stop target) (merge_runs cmp src width starts))"

text \<open>
  The outer loop doubles the width. Its second condition is always true there: it only excludes a width
  of zero and lists longer than any address space.
\<close>

function sort_passes :: "('a \<Rightarrow> 'a \<Rightarrow> comp) \<Rightarrow> nat \<Rightarrow> nat \<Rightarrow> 'a list \<Rightarrow> 'a list query" where
  "sort_passes cmp n width src =
     (if width < n \<and> width < saturating_mul usize_max width 2 then
        q_bind (merge_runs cmp src width (step_by n (saturating_mul usize_max width 2)) [])
          (sort_passes cmp n (saturating_mul usize_max width 2))
      else q_ret src)"
  by pat_completeness auto
termination
  by (relation "measure (\<lambda>(cmp, n, width, src). n - width)") auto

declare merge_run.simps [simp del] sort_passes.simps [simp del]

text \<open>\<open>elem_bytes\<close> is the size of an element in memory.\<close>

definition controlled_sort_by :: "nat \<Rightarrow> ('a \<Rightarrow> 'a \<Rightarrow> comp) \<Rightarrow> 'a list \<Rightarrow> 'a list query" where
  "controlled_sort_by elem_bytes cmp xs =
     q_bind (check_work_items (length xs)) (\<lambda>_.
     q_bind (check_work_bytes (saturating_mul usize_max (saturating_mul usize_max (length xs) elem_bytes) 2)) (\<lambda>_.
     q_bind (clone_values 0 [] xs) (\<lambda>src.
     q_bind (sort_passes cmp (length xs) 1 src) (\<lambda>out.
     q_bind q_check (\<lambda>_. q_ret out)))))"

end
