(* ===== verification/Media_Items.thy ===== *)
theory Media_Items
  imports Decimal Utf8 "HOL-Library.List_Lexorder" "HOL-Library.Char_ord"
begin

text \<open>
  Catalogue records (\<open>crates/scan/src/metadata.rs\<close>, \<open>catalog.rs\<close>): media items with their probe,
  containers, durations and the ordering and naming helpers of \<open>crates/scan/src/lib.rs\<close>. Paths are
  strings of bytes.
\<close>

subsection \<open>Probe sidecars\<close>

record source_probe =
  sp_container :: string
  sp_video :: string
  sp_hdr :: string
  sp_audio :: string
  sp_audio_streams :: string
  sp_video_profile :: string
  sp_video_level :: nat
  sp_pixel_format :: string
  sp_bit_depth :: nat
  sp_frame_rate :: string
  sp_video_timestamp_mode :: string
  sp_audio_layout :: string
  sp_codec_string :: string
  sp_width :: nat
  sp_height :: nat

definition default_probe :: source_probe where
  "default_probe =
     \<lparr>sp_container = [], sp_video = [], sp_hdr = [], sp_audio = [], sp_audio_streams = [],
      sp_video_profile = [], sp_video_level = 0, sp_pixel_format = [], sp_bit_depth = 0,
      sp_frame_rate = [], sp_video_timestamp_mode = [], sp_audio_layout = [], sp_codec_string = [],
      sp_width = 0, sp_height = 0\<rparr>"

definition u32_or_zero :: "string \<Rightarrow> nat" where
  "u32_or_zero v = (case parse_uint u32_max v of Some n \<Rightarrow> n | None \<Rightarrow> 0)"

definition set_probe_field :: "string \<Rightarrow> string \<Rightarrow> source_probe \<Rightarrow> source_probe" where
  "set_probe_field k v p =
     (if k = ''container'' then p\<lparr>sp_container := v\<rparr>
      else if k = ''video'' then p\<lparr>sp_video := v\<rparr>
      else if k = ''hdr'' then p\<lparr>sp_hdr := v\<rparr>
      else if k = ''audio'' then p\<lparr>sp_audio := v\<rparr>
      else if k = ''audio_streams'' then p\<lparr>sp_audio_streams := v\<rparr>
      else if k = ''video_profile'' then p\<lparr>sp_video_profile := v\<rparr>
      else if k = ''video_level'' then p\<lparr>sp_video_level := u32_or_zero v\<rparr>
      else if k = ''pixel_format'' then p\<lparr>sp_pixel_format := v\<rparr>
      else if k = ''bit_depth'' then p\<lparr>sp_bit_depth := u32_or_zero v\<rparr>
      else if k = ''frame_rate'' then p\<lparr>sp_frame_rate := v\<rparr>
      else if k = ''video_timestamp_mode'' then p\<lparr>sp_video_timestamp_mode := v\<rparr>
      else if k = ''audio_layout'' then p\<lparr>sp_audio_layout := v\<rparr>
      else if k = ''codec_string'' then p\<lparr>sp_codec_string := v\<rparr>
      else if k = ''width'' then p\<lparr>sp_width := u32_or_zero v\<rparr>
      else if k = ''height'' then p\<lparr>sp_height := u32_or_zero v\<rparr>
      else p)"

text \<open>
  \<open>str::lines\<close>: each line ends at a line feed, before which one CR is dropped; what follows the
  last line feed is a line when it is not empty.
\<close>

definition strip_cr :: "string \<Rightarrow> string" where
  "strip_cr l = (if l \<noteq> [] \<and> last l = CHR 0x0D then butlast l else l)"

definition lines_of :: "string \<Rightarrow> string list" where
  "lines_of s =
     (let ls = split_on (CHR 0x0A) s
      in map strip_cr (butlast ls) @ (if last ls = [] then [] else [last ls]))"

definition probe_line :: "string \<Rightarrow> source_probe \<Rightarrow> source_probe" where
  "probe_line raw p =
     (let line = trim raw
      in if prefix ''#'' line \<or> CHR ''='' \<notin> set line then p
         else case split_once (CHR ''='') line of
                None \<Rightarrow> p
              | Some (k, v) \<Rightarrow> set_probe_field (trim k) (trim_matches (\<lambda>c. c = CHR 0x22) (trim v)) p)"

definition parse_probe_toml :: "string \<Rightarrow> source_probe" where
  "parse_probe_toml s = fold probe_line (lines_of s) default_probe"

subsection \<open>Items and containers\<close>

record caption =
  ca_index :: nat
  ca_path :: string
  ca_ext :: string

record media_item =
  it_object_id :: string
  it_parent_id :: string
  it_detail_id :: int
  it_title :: string
  it_class :: string
  it_date :: string
  it_path :: string
  it_collection_path :: "string option"
  it_mime :: string
  it_ext :: string
  it_size :: nat
  it_mtime :: int
  it_captions :: "caption list"
  it_probe :: source_probe
  it_dlna_pn :: "string option"
  it_ref_id :: "string option"
  it_device :: nat
  it_inode :: nat
  it_duration :: "string option"
  it_bitrate :: "int option"
  it_resolution :: "string option"
  it_channels :: "int option"
  it_samplerate :: "int option"
  it_album_art :: int
  it_creator :: "string option"
  it_about :: "string option"
  it_plot :: "string option"
  it_artist :: "string option"
  it_album_artist :: "string option"
  it_composer :: "string option"
  it_contributor :: "string option"
  it_album :: "string option"
  it_genre :: "string option"
  it_disc :: "int option"
  it_track :: "int option"
  it_rating :: "int option"
  it_rotation :: "int option"
  it_bookmark_sec :: int
  it_watch_count :: int
  it_stream_probe_failed :: bool

record folder =
  ct_object_id :: string
  ct_parent_id :: string
  ct_title :: string
  ct_class :: string
  ct_children :: "string list"
  ct_searchable :: bool

datatype catalog_child = ContainerChild folder | ItemChild media_item

fun child_id :: "catalog_child \<Rightarrow> string" where
  "child_id (ContainerChild c) = ct_object_id c"
| "child_id (ItemChild it) = it_object_id it"

subsection \<open>Helpers\<close>

definition i64_max :: int where "i64_max = 9223372036854775807"
definition i64_min :: int where "i64_min = - 9223372036854775808"

text \<open>Rust's \<open>/\<close> on signed integers truncates towards zero.\<close>

definition trunc_div :: "int \<Rightarrow> int \<Rightarrow> int" where
  "trunc_div a b = sgn a * sgn b * (\<bar>a\<bar> div \<bar>b\<bar>)"

definition duration_str :: "int \<Rightarrow> string" where
  "duration_str msec0 =
     (let msec = max msec0 0
      in int_decimal (msec div 3600000) @ '':'' @ padded 2 (msec div 60000 mod 60) @ '':'' @
         padded 2 (msec div 1000 mod 60) @ ''.'' @ padded 3 (msec mod 1000))"

definition normalized_mtime_seconds :: "int \<Rightarrow> int" where
  "normalized_mtime_seconds v = (if \<bar>v\<bar> > 10000000000 then trunc_div v 1000000000 else v)"

definition u64_from_sqlite_i64_bits :: "int \<Rightarrow> nat" where
  "u64_from_sqlite_i64_bits v = nat (v mod 2 ^ 64)"

definition physical_identity_key :: "media_item \<Rightarrow> nat \<times> nat" where
  "physical_identity_key it =
     (if it_inode it \<noteq> 0 then (it_device it, it_inode it)
      else (0, u64_from_sqlite_i64_bits (it_detail_id it)))"

definition catalog_count :: "nat \<Rightarrow> nat" where
  "catalog_count n = min n u32_max"

end
