(* ===== verification/Object_Ids.thy ===== *)
theory Object_Ids
  imports Main
begin

text \<open>
  The fixed object ids of the ContentDirectory (\<open>crates/protocol/src/object_id.rs\<close>).
\<close>

definition ROOT_ID :: string where "ROOT_ID = ''0''"
definition BROWSEDIR_ID :: string where "BROWSEDIR_ID = ''64''"
definition MUSIC_ID :: string where "MUSIC_ID = ''1''"
definition MUSIC_ALL_ID :: string where "MUSIC_ALL_ID = ''1$4''"
definition MUSIC_GENRE_ID :: string where "MUSIC_GENRE_ID = ''1$5''"
definition MUSIC_ARTIST_ID :: string where "MUSIC_ARTIST_ID = ''1$6''"
definition MUSIC_ALBUM_ID :: string where "MUSIC_ALBUM_ID = ''1$7''"
definition MUSIC_PLIST_ID :: string where "MUSIC_PLIST_ID = ''1$F''"
definition MUSIC_DIR_ID :: string where "MUSIC_DIR_ID = ''1$14''"
definition MUSIC_CONTRIB_ARTIST_ID :: string where "MUSIC_CONTRIB_ARTIST_ID = ''1$100''"
definition MUSIC_ALBUM_ARTIST_ID :: string where "MUSIC_ALBUM_ARTIST_ID = ''1$107''"
definition MUSIC_COMPOSER_ID :: string where "MUSIC_COMPOSER_ID = ''1$108''"
definition MUSIC_RATING_ID :: string where "MUSIC_RATING_ID = ''1$101''"
definition MUSIC_RECENT_ID :: string where "MUSIC_RECENT_ID = ''1$FF0''"
definition VIDEO_ID :: string where "VIDEO_ID = ''2''"
definition VIDEO_ALL_ID :: string where "VIDEO_ALL_ID = ''2$8''"
definition VIDEO_GENRE_ID :: string where "VIDEO_GENRE_ID = ''2$9''"
definition VIDEO_ACTOR_ID :: string where "VIDEO_ACTOR_ID = ''2$A''"
definition VIDEO_SERIES_ID :: string where "VIDEO_SERIES_ID = ''2$E''"
definition VIDEO_PLIST_ID :: string where "VIDEO_PLIST_ID = ''2$10''"
definition VIDEO_DIR_ID :: string where "VIDEO_DIR_ID = ''2$15''"
definition VIDEO_RATING_ID :: string where "VIDEO_RATING_ID = ''2$200''"
definition VIDEO_RECENT_ID :: string where "VIDEO_RECENT_ID = ''2$FF0''"
definition IMAGE_ID :: string where "IMAGE_ID = ''3''"
definition IMAGE_ALL_ID :: string where "IMAGE_ALL_ID = ''3$B''"
definition IMAGE_DATE_ID :: string where "IMAGE_DATE_ID = ''3$C''"
definition IMAGE_ALBUM_ID :: string where "IMAGE_ALBUM_ID = ''3$D''"
definition IMAGE_CAMERA_ID :: string where "IMAGE_CAMERA_ID = ''3$D2''"
definition IMAGE_PLIST_ID :: string where "IMAGE_PLIST_ID = ''3$11''"
definition IMAGE_DIR_ID :: string where "IMAGE_DIR_ID = ''3$16''"
definition IMAGE_RATING_ID :: string where "IMAGE_RATING_ID = ''3$300''"
definition IMAGE_RECENT_ID :: string where "IMAGE_RECENT_ID = ''3$FF0''"
definition SAMSUNG_AUDIO :: string where "SAMSUNG_AUDIO = ''A''"
definition SAMSUNG_VIDEO :: string where "SAMSUNG_VIDEO = ''V''"
definition SAMSUNG_IMAGE :: string where "SAMSUNG_IMAGE = ''I''"

definition RECENT_MAX :: nat where "RECENT_MAX = 200"

lemmas object_id_defs =
  ROOT_ID_def BROWSEDIR_ID_def MUSIC_ID_def MUSIC_ALL_ID_def MUSIC_GENRE_ID_def
  MUSIC_ARTIST_ID_def MUSIC_ALBUM_ID_def MUSIC_PLIST_ID_def MUSIC_DIR_ID_def
  MUSIC_CONTRIB_ARTIST_ID_def MUSIC_ALBUM_ARTIST_ID_def MUSIC_COMPOSER_ID_def MUSIC_RATING_ID_def
  MUSIC_RECENT_ID_def VIDEO_ID_def VIDEO_ALL_ID_def VIDEO_GENRE_ID_def VIDEO_ACTOR_ID_def
  VIDEO_SERIES_ID_def VIDEO_PLIST_ID_def VIDEO_DIR_ID_def VIDEO_RATING_ID_def VIDEO_RECENT_ID_def
  IMAGE_ID_def IMAGE_ALL_ID_def IMAGE_DATE_ID_def IMAGE_ALBUM_ID_def IMAGE_CAMERA_ID_def
  IMAGE_PLIST_ID_def IMAGE_DIR_ID_def IMAGE_RATING_ID_def IMAGE_RECENT_ID_def SAMSUNG_AUDIO_def
  SAMSUNG_VIDEO_def SAMSUNG_IMAGE_def

end
