(* ===== verification/Recent_View.thy ===== *)
theory Recent_View
  imports Media_Items Object_Ids "HOL-Library.Product_Lexorder" "HOL-Library.Multiset"
begin

text \<open>
  The Recently Added views (\<open>crates/scan/src/catalog.rs\<close>): the newest distinct physical files, by
  sorting the whole catalogue, and by one bounded pass over it in any order. The second is shown to
  compute the first. \<open>symlink\<close> is the file system's answer whether a path is a symbolic link.
\<close>

text \<open>The sort key of an item: newest first, real files before links, then title and object id.\<close>

definition recent_key :: "(string \<Rightarrow> bool) \<Rightarrow> media_item \<Rightarrow> int \<times> int \<times> bool \<times> string \<times> string" where
  "recent_key symlink it =
     (- normalized_mtime_seconds (it_mtime it), - it_mtime it, symlink (it_path it), it_title it,
      it_object_id it)"

definition recent_item_is_eligible :: "int option \<Rightarrow> string \<Rightarrow> media_item \<Rightarrow> bool" where
  "recent_item_is_eligible cutoff class_pat it \<longleftrightarrow>
     str_contains class_pat (it_class it) \<and> it_ref_id it = None \<and> prefix BROWSEDIR_ID (it_object_id it) \<and>
     (case cutoff of Some c \<Rightarrow> normalized_mtime_seconds (it_mtime it) \<ge> c | None \<Rightarrow> True)"

definition recent_class :: "string \<Rightarrow> string" where
  "recent_class root =
     (if root = MUSIC_RECENT_ID then ''audio'' else if root = IMAGE_RECENT_ID then ''image'' else ''video'')"

subsection \<open>By sorting\<close>

fun recent_loop :: "nat \<Rightarrow> media_item list \<Rightarrow> (nat \<times> nat) list \<Rightarrow> media_item list \<Rightarrow> media_item list" where
  "recent_loop limit [] seen out = out"
| "recent_loop limit (it # its) seen out =
     (if physical_identity_key it \<in> set seen then recent_loop limit its seen out
      else
        let out' = out @ [it]
        in if length out' = limit then out'
           else recent_loop limit its (physical_identity_key it # seen) out')"

definition collect_recent :: "(string \<Rightarrow> bool) \<Rightarrow> int option \<Rightarrow> string \<Rightarrow> nat \<Rightarrow> media_item list \<Rightarrow> media_item list" where
  "collect_recent symlink cutoff class_pat limit items =
     recent_loop limit (sort_key (recent_key symlink) (filter (recent_item_is_eligible cutoff class_pat) items)) [] []"

subsection \<open>In one bounded pass\<close>

text \<open>
  The state of the pass: the \<open>BTreeMap\<close> from keys to items, in key order, and the key kept for each
  physical identity.
\<close>

type_synonym ranked = "((int \<times> int \<times> bool \<times> string \<times> string) \<times> media_item) list"
type_synonym identities = "nat \<times> nat \<rightharpoonup> int \<times> int \<times> bool \<times> string \<times> string"

fun ranked_insert :: "'k::linorder \<Rightarrow> 'v \<Rightarrow> ('k \<times> 'v) list \<Rightarrow> ('k \<times> 'v) list" where
  "ranked_insert k v [] = [(k, v)]"
| "ranked_insert k v ((k', v') # r) =
     (if k < k' then (k, v) # (k', v') # r
      else if k = k' then (k, v) # r
      else (k', v') # ranked_insert k v r)"

definition ranked_remove :: "'k \<Rightarrow> ('k \<times> 'v) list \<Rightarrow> ('k \<times> 'v) list" where
  "ranked_remove k r = filter (\<lambda>(k', _). k' \<noteq> k) r"

definition rank_step ::
  "(string \<Rightarrow> bool) \<Rightarrow> nat \<Rightarrow> media_item \<Rightarrow> ranked \<times> identities \<Rightarrow> ranked \<times> identities" where
  "rank_step symlink limit it st =
     (case st of (r, physical) \<Rightarrow>
        let k = recent_key symlink it; ident = physical_identity_key it
        in case physical ident of
             Some previous \<Rightarrow>
               if previous \<le> k then (r, physical)
               else (ranked_insert k it (ranked_remove previous r), physical(ident \<mapsto> k))
           | None \<Rightarrow>
               if length r \<ge> limit then
                 (if r \<noteq> [] \<and> fst (last r) \<le> k then (r, physical)
                  else
                    let (r', physical') =
                          (if r = [] then (r, physical)
                           else (butlast r, physical(physical_identity_key (snd (last r)) := None)))
                    in (ranked_insert k it r', physical'(ident \<mapsto> k)))
               else (ranked_insert k it r, physical(ident \<mapsto> k)))"

text \<open>
  \<open>check\<close> is asked with the number of rows inspected so far; the first \<open>False\<close> abandons the scan.
\<close>

fun rank_items ::
  "(string \<Rightarrow> bool) \<Rightarrow> int option \<Rightarrow> string \<Rightarrow> nat \<Rightarrow> (nat \<Rightarrow> bool) \<Rightarrow> nat \<Rightarrow> media_item list \<Rightarrow>
     ranked \<times> identities \<Rightarrow> (nat \<times> ranked) option" where
  "rank_items symlink cutoff class_pat limit check visited [] st = Some (visited, fst st)"
| "rank_items symlink cutoff class_pat limit check visited (it # its) st =
     (let v = saturating_add usize_max visited 1
      in if \<not> check v then None
         else rank_items symlink cutoff class_pat limit check v its
                (if recent_item_is_eligible cutoff class_pat it then rank_step symlink limit it st else st))"

subsection \<open>The bounded pass computes the sorted view\<close>

text \<open>The distinct identities of a list, each by its first item.\<close>

fun first_of_each :: "('a \<Rightarrow> 'b) \<Rightarrow> 'a list \<Rightarrow> 'a list" where
  "first_of_each f [] = []"
| "first_of_each f (x # xs) = x # filter (\<lambda>y. f y \<noteq> f x) (first_of_each f xs)"

lemma set_first_of_each: "set (first_of_each f xs) \<subseteq> set xs"
  by (induction xs) auto

lemma distinct_first_of_each: "distinct (map f (first_of_each f xs))"
  by (induction xs) (auto simp: distinct_map inj_on_def)

lemma first_of_each_image: "f ` set (first_of_each f xs) = f ` set xs"
proof (induction xs)
  case (Cons x xs)
  have "f ` {y \<in> A. f y \<noteq> f x} = f ` A - {f x}" for A by auto
  with Cons show ?case by auto
qed simp

lemma first_of_each_filter:
  "first_of_each f (filter (\<lambda>y. f y \<notin> S) xs) = filter (\<lambda>y. f y \<notin> S) (first_of_each f xs)"
proof (induction xs)
  case (Cons x xs)
  then show ?case by (auto simp: filter_filter conj_commute intro!: filter_cong)
qed simp

text \<open>The loop with its set of seen identities takes the first distinct ones up to the limit.\<close>

lemma recent_loop_first:
  "length out < limit \<Longrightarrow>
     recent_loop limit its seen out =
       out @ take (limit - length out) (filter (\<lambda>y. physical_identity_key y \<notin> set seen) (first_of_each physical_identity_key its))"
proof (induction limit its seen out rule: recent_loop.induct)
  case (2 limit it its seen out)
  let ?f = physical_identity_key
  show ?case
  proof (cases "?f it \<in> set seen")
    case True
    have "filter (\<lambda>y. ?f y \<notin> set seen) (first_of_each ?f (it # its)) =
        filter (\<lambda>y. ?f y \<notin> set seen) (first_of_each ?f its)"
      using True by (auto simp: filter_filter intro!: filter_cong)
    then show ?thesis using True 2 by simp
  next
    case False
    have rest: "filter (\<lambda>y. ?f y \<notin> set seen) (first_of_each ?f (it # its)) =
        it # filter (\<lambda>y. ?f y \<notin> set (?f it # seen)) (first_of_each ?f its)"
      using False by (auto simp: filter_filter intro!: filter_cong)
    show ?thesis
    proof (cases "Suc (length out) = limit")
      case True
      then have "limit - length out = 1" by simp
      then show ?thesis using False rest True by (simp add: Let_def)
    next
      case more: False
      then have "limit - length out = Suc (limit - Suc (length out))" using "2.prems" by simp
      then show ?thesis using False more rest "2.IH"(2) [OF False refl] "2.prems" by (simp add: Let_def)
    qed
  qed
qed simp

lemma collect_recent_first:
  assumes "0 < limit"
  shows "collect_recent symlink cutoff c limit items =
    take limit (first_of_each physical_identity_key (sort_key (recent_key symlink) (filter (recent_item_is_eligible cutoff c) items)))"
  using assms by (simp add: collect_recent_def recent_loop_first)

text \<open>Adding one item to a sorted list changes its distinct items in one place only.\<close>

lemma first_of_each_least:
  "sorted (map k xs) \<Longrightarrow> y \<in> set (first_of_each p xs) \<Longrightarrow> z \<in> set xs \<Longrightarrow> p z = p y \<Longrightarrow> k y \<le> k z"
proof (induction xs)
  case (Cons a xs)
  then show ?case using set_first_of_each [of p xs] by auto
qed simp

lemma sorted_first_of_each: "sorted (map k xs) \<Longrightarrow> sorted (map k (first_of_each p xs))"
proof (induction xs)
  case (Cons a xs)
  then show ?case using set_first_of_each [of p xs] by (auto simp: sorted_filter)
qed simp

lemma insort_before: "(\<And>r. r \<in> set R \<Longrightarrow> k x \<le> k r) \<Longrightarrow> insort_key k x (T @ R) = insort_key k x T @ R"
  by (induction T) (simp_all add: insort_is_Cons)

lemma insort_after: "\<forall>t \<in> set T. k t < k x \<Longrightarrow> insort_key k x (T @ R) = T @ insort_key k x R"
  by (induction T) (simp_all add: not_le [symmetric])

lemma first_of_each_insort:
  "sorted (map k xs) \<Longrightarrow> k x \<notin> k ` set xs \<Longrightarrow>
   first_of_each p (insort_key k x xs) =
     (if \<exists>y \<in> set xs. p y = p x \<and> k y < k x then first_of_each p xs
      else insort_key k x (filter (\<lambda>y. p y \<noteq> p x) (first_of_each p xs)))"
proof (induction xs)
  case (Cons a xs)
  show ?case
  proof (cases "k x \<le> k a")
    case True
    have "k x \<le> k y" if "y \<in> set (filter (\<lambda>y. p y \<noteq> p x) (first_of_each p (a # xs)))" for y
    proof -
      have "y \<in> set (first_of_each p (a # xs))" using that by (simp only: set_filter mem_Collect_eq)
      then have "y \<in> set (a # xs)" using set_first_of_each [of p "a # xs"] by blast
      then have "k a \<le> k y" using Cons.prems(1) by auto
      with True show ?thesis by (rule order_trans)
    qed
    then have "insort_key k x (filter (\<lambda>y. p y \<noteq> p x) (first_of_each p (a # xs))) =
        x # filter (\<lambda>y. p y \<noteq> p x) (first_of_each p (a # xs))"
      by (intro insort_is_Cons) auto
    moreover have "first_of_each p (insort_key k x (a # xs)) = x # filter (\<lambda>y. p y \<noteq> p x) (first_of_each p (a # xs))"
      using True by simp
    moreover have "\<not> (\<exists>y \<in> set (a # xs). p y = p x \<and> k y < k x)" using Cons.prems(1) True by fastforce
    ultimately show ?thesis by (simp only: if_False)
  next
    case False
    then have less: "k a < k x" by simp
    have IH: "first_of_each p (insort_key k x xs) =
        (if \<exists>y \<in> set xs. p y = p x \<and> k y < k x then first_of_each p xs
         else insort_key k x (filter (\<lambda>y. p y \<noteq> p x) (first_of_each p xs)))"
      using Cons by simp
    have srt: "sorted (map k (filter P (first_of_each p xs)))" for P
      using Cons.prems(1) by (intro sorted_filter sorted_first_of_each) simp
    show ?thesis
    proof (cases "p a = p x")
      case True
      have "filter (\<lambda>y. p y \<noteq> p a) (first_of_each p (insort_key k x xs)) = filter (\<lambda>y. p y \<noteq> p a) (first_of_each p xs)"
        unfolding IH using True by (auto simp: filter_insort_triv filter_filter)
      then show ?thesis using False True less by simp
    next
      case other: False
      have "filter (\<lambda>y. p y \<noteq> p a) (insort_key k x (filter (\<lambda>y. p y \<noteq> p x) (first_of_each p xs))) =
          insort_key k x (filter (\<lambda>y. p y \<noteq> p a) (filter (\<lambda>y. p y \<noteq> p x) (first_of_each p xs)))"
        using other srt by (intro filter_insort) auto
      then show ?thesis using False other less IH
        by (auto simp: filter_filter conj_commute)
    qed
  qed
qed simp

text \<open>The map operations on a sorted list of items.\<close>

definition pairs :: "('a \<Rightarrow> 'k) \<Rightarrow> 'a list \<Rightarrow> ('k \<times> 'a) list" where
  "pairs k xs = map (\<lambda>x. (k x, x)) xs"

lemma ranked_insert_pairs: "k x \<notin> k ` set T \<Longrightarrow> ranked_insert (k x) x (pairs k T) = pairs k (insort_key k x T)"
  by (induction T) (auto simp: pairs_def)

lemma ranked_remove_pairs: "ranked_remove key (pairs k T) = pairs k (filter (\<lambda>z. k z \<noteq> key) T)"
  by (simp add: ranked_remove_def pairs_def filter_map comp_def)

text \<open>
  The state after a set of items: the first \<open>limit\<close> distinct ones in key order, and the key of each
  of their identities.
\<close>

definition top_items :: "('a \<Rightarrow> 'k::linorder) \<Rightarrow> ('a \<Rightarrow> 'b) \<Rightarrow> nat \<Rightarrow> 'a list \<Rightarrow> 'a list" where
  "top_items k p limit xs = take limit (first_of_each p (sort_key k xs))"

definition keys_of :: "('a \<Rightarrow> 'k) \<Rightarrow> ('a \<Rightarrow> 'b) \<Rightarrow> 'a list \<Rightarrow> ('b \<rightharpoonup> 'k) \<Rightarrow> bool" where
  "keys_of k p T m \<longleftrightarrow> (\<forall>i key. m i = Some key \<longleftrightarrow> (\<exists>t \<in> set T. p t = i \<and> k t = key))"

lemma filter_singleton: "distinct T \<Longrightarrow> y \<in> set T \<Longrightarrow> filter (\<lambda>z. z = y) T = [y]"
proof (induction T)
  case (Cons a T)
  then show ?case by (cases "a = y") (auto simp: filter_empty_conv)
qed simp

lemma top_items_step:
  fixes k :: "'a \<Rightarrow> 'k::linorder" and p :: "'a \<Rightarrow> 'b"
  assumes "0 < limit" and new: "k x \<notin> k ` set xs" and inj: "inj_on k (set xs)"
  defines "T \<equiv> top_items k p limit xs"
  shows "top_items k p limit (x # xs) =
    (if \<exists>y \<in> set T. p y = p x
     then (if \<exists>y \<in> set T. p y = p x \<and> k y < k x then T
           else insort_key k x (filter (\<lambda>z. p z \<noteq> p x) T))
     else if length T \<ge> limit
     then (if k (last T) < k x then T else insort_key k x (butlast T))
     else insort_key k x T)"
proof -
  define S where "S = sort_key k xs"
  define D where "D = first_of_each p S"
  define R where "R = drop limit D"
  have S: "sorted (map k S)" "set S = set xs" by (simp_all add: S_def)
  have T: "T = take limit D" by (simp add: T_def top_items_def D_def S_def)
  have D: "D = T @ R" by (simp add: T R_def)
  have sD: "sorted (map k D)" unfolding D_def by (rule sorted_first_of_each) (rule S)
  have dp: "distinct (map p D)" unfolding D_def by (rule distinct_first_of_each)
  have DS: "set D \<subseteq> set xs" using set_first_of_each [of p S] S(2) by (simp add: D_def)
  have least: "k y \<le> k z" if "y \<in> set D" "z \<in> set xs" "p z = p y" for y z
    using first_of_each_least [OF S(1), of y p z] that S(2) by (simp add: D_def)
  have rep: "\<exists>y \<in> set D. p y = p z" if "z \<in> set xs" for z
    using first_of_each_image [of p S] that S(2) by (auto simp: D_def image_iff) (metis imageE imageI)
  have neq: "k y \<noteq> k x" if "y \<in> set D" for y using that new DS by (metis imageI subsetD)
  have TR: "k t \<le> k r" if "t \<in> set T" "r \<in> set R" for t r
    using sD that by (auto simp: D sorted_append)
  have step: "top_items k p limit (x # xs) =
      take limit (if \<exists>y \<in> set xs. p y = p x \<and> k y < k x then D
        else insort_key k x (filter (\<lambda>y. p y \<noteq> p x) D))"
  proof -
    have "k x \<notin> k ` set S" using new S(2) by simp
    from first_of_each_insort [OF S(1) this, of p] show ?thesis
      unfolding top_items_def sort_key_simps S_def [symmetric] S(2) D_def [symmetric] by (rule arg_cong)
  qed
  have long: "length T = limit \<or> R = []" by (auto simp: T R_def)
  show ?thesis
  proof (cases "\<exists>y \<in> set T. p y = p x")
    case True
    then obtain y where y: "y \<in> set T" "p y = p x" by blast
    have only: "z = y" if "z \<in> set D" "p z = p x" for z
      using dp that y D by (metis UnCI inj_onD distinct_map set_append)
    have ex: "(\<exists>z \<in> set xs. p z = p x \<and> k z < k x) \<longleftrightarrow> k y < k x"
      using y least [of y] DS D by force
    have exT: "(\<exists>z \<in> set T. p z = p x \<and> k z < k x) \<longleftrightarrow> k y < k x"
      using y only D by (metis UnCI set_append)
    show ?thesis
    proof (cases "k y < k x")
      case less: True
      then show ?thesis using True ex exT by (simp add: step T)
    next
      case False
      then have lt: "k x < k y" using neq [of y] y D by auto
      have notR: "filter (\<lambda>z. p z \<noteq> p x) R = R"
      proof (rule filter_True, rule ballI)
        fix z assume "z \<in> set R"
        moreover have "set T \<inter> set R = {}" using dp D by (auto simp: distinct_map)
        ultimately show "p z \<noteq> p x" using only [of z] y D by auto
      qed
      have "insort_key k x (filter (\<lambda>z. p z \<noteq> p x) D) = insort_key k x (filter (\<lambda>z. p z \<noteq> p x) T) @ R"
        unfolding D filter_append notR by (rule insort_before) (use lt TR y in force)
      moreover have "length (filter (\<lambda>z. p z \<noteq> p x) T) = length T - 1"
      proof -
        have "filter (\<lambda>z. p z = p x) T = [y]"
        proof -
          have "distinct T" using dp D by (auto simp: distinct_map)
          moreover have "filter (\<lambda>z. p z = p x) T = filter (\<lambda>z. z = y) T"
            using only y D by (intro filter_cong) auto
          ultimately show ?thesis using y by (simp add: filter_singleton)
        qed
        then show ?thesis using sum_length_filter_compl [of "\<lambda>z. p z = p x" T] by simp
      qed
      moreover have "length T \<noteq> 0" using y by auto
      ultimately show ?thesis using True False ex exT long
        by (simp add: step) (auto simp: T)
    qed
  next
    case noT: False
    have part: "filter (\<lambda>z. p z \<noteq> p x) D = T @ filter (\<lambda>z. p z \<noteq> p x) R"
      using noT by (auto simp: D filter_id_conv)
    have sT: "k t \<le> k (last T)" if "t \<in> set T" for t
    proof -
      have "sorted (map k T)" using sD by (simp add: D sorted_append)
      moreover have "T \<noteq> []" using that by auto
      ultimately have "sorted (map k (butlast T @ [last T]))" by simp
      moreover have "t \<in> set (butlast T @ [last T])" using that \<open>T \<noteq> []\<close> by simp
      ultimately show ?thesis by (simp only: map_append sorted_append set_append) auto
    qed
    show ?thesis
    proof (cases "length T \<ge> limit")
      case full: True
      then have len: "length T = limit" "T \<noteq> []" using \<open>0 < limit\<close> by (auto simp: T)
      then have lastT: "last T \<in> set T" by simp
      show ?thesis
      proof (cases "k (last T) < k x")
        case True
        then have "\<forall>t \<in> set T. k t < k x" using sT by (meson le_less_trans)
        then have "insort_key k x (filter (\<lambda>z. p z \<noteq> p x) D) = T @ insort_key k x (filter (\<lambda>z. p z \<noteq> p x) R)"
          unfolding part by (rule insort_after)
        then show ?thesis using noT full True len by (simp add: step) (simp add: T)
      next
        case False
        then have lt: "k x < k (last T)" using neq [of "last T"] lastT D by auto
        have "\<not> (\<exists>z \<in> set xs. p z = p x \<and> k z < k x)"
        proof
          assume "\<exists>z \<in> set xs. p z = p x \<and> k z < k x"
          then obtain z where z: "z \<in> set xs" "p z = p x" "k z < k x" by blast
          from rep [OF z(1)] obtain y where y: "y \<in> set D" "p y = p z" by blast
          have "k y < k (last T)" using least [OF y(1) z(1)] y(2) z(3) lt by simp
          then have "y \<notin> set R" using TR [OF lastT] by (meson leD)
          then show False using y z(2) noT D by auto
        qed
        moreover have "insort_key k x (filter (\<lambda>z. p z \<noteq> p x) D) =
            insort_key k x (butlast T) @ [last T] @ filter (\<lambda>z. p z \<noteq> p x) R"
        proof -
          have "T @ filter (\<lambda>z. p z \<noteq> p x) R = butlast T @ ([last T] @ filter (\<lambda>z. p z \<noteq> p x) R)"
            using len(2) by simp
          then show ?thesis
            unfolding part using lt TR [OF lastT] by (simp only:) (rule insort_before, force)
        qed
        ultimately show ?thesis using noT full False len \<open>0 < limit\<close> by (auto simp: step)
      qed
    next
      case False
      then have "R = []" "D = T" using long D by auto
      moreover have "\<not> (\<exists>z \<in> set xs. p z = p x \<and> k z < k x)"
        using rep noT \<open>D = T\<close> by metis
      ultimately show ?thesis using noT False part by (auto simp: step)
    qed
  qed
qed

lemma top_items_set: "set (top_items k p limit xs) \<subseteq> set xs"
proof -
  have "set (top_items k p limit xs) \<subseteq> set (first_of_each p (sort_key k xs))"
    unfolding top_items_def by (rule set_take_subset)
  also have "\<dots> \<subseteq> set xs" using set_first_of_each [of p "sort_key k xs"] by simp
  finally show ?thesis .
qed

lemma top_items_distinct: "distinct (map p (top_items k p limit xs))"
  unfolding top_items_def take_map [symmetric] by (intro distinct_take distinct_first_of_each)

lemma keys_of_cong: "set T = set T' \<Longrightarrow> keys_of k p T m = keys_of k p T' m"
  by (simp add: keys_of_def)

lemma keys_of_insort:
  assumes "keys_of k p T m" "\<And>t. t \<in> set T \<Longrightarrow> p t \<noteq> p x"
  shows "keys_of k p (insort_key k x T) (m(p x \<mapsto> k x))"
  using assms unfolding keys_of_def by (auto simp: set_insort_key)

text \<open>One step of the pass is one item more among those seen.\<close>

lemma rank_step_refines:
  fixes symlink
  defines "k \<equiv> recent_key symlink" and "p \<equiv> physical_identity_key"
  assumes limit: "0 < limit" and new: "k x \<notin> k ` set xs" and inj: "inj_on k (set xs)"
    and m: "keys_of k p (top_items k p limit xs) m"
  shows "\<exists>m'. rank_step symlink limit x (pairs k (top_items k p limit xs), m) =
      (pairs k (top_items k p limit (x # xs)), m') \<and> keys_of k p (top_items k p limit (x # xs)) m'"
proof -
  define T where "T = top_items k p limit xs"
  note step = top_items_step [of limit k x xs p, OF limit new inj, folded T_def]
  have m: "keys_of k p T m" using m by (simp add: T_def)
  have sub: "set T \<subseteq> set xs" by (simp add: T_def top_items_set)
  have dp: "distinct (map p T)" by (simp add: T_def top_items_distinct)
  have same: "z = y" if "z \<in> set T" "y \<in> set T" "p z = p y" for z y
    using dp that by (auto simp: distinct_map inj_on_def)
  have fresh: "k x \<notin> k ` set (filter P T)" for P using new sub by auto
  have kinj: "k z = k y \<longleftrightarrow> z = y" if "z \<in> set T" "y \<in> set T" for z y
    using inj sub that by (auto simp: inj_on_def)
  show ?thesis
  proof (cases "\<exists>y \<in> set T. p y = p x")
    case True
    then obtain y where y: "y \<in> set T" "p y = p x" by blast
    have my: "m (p x) = Some (k y)" using m y unfolding keys_of_def by metis
    have only: "(\<exists>z \<in> set T. p z = p x \<and> k z < k x) \<longleftrightarrow> k y < k x" using y same by metis
    have neq: "k y \<noteq> k x" using new sub y by (metis imageI subsetD)
    show ?thesis
    proof (cases "k y < k x")
      case less: True
      then have "top_items k p limit (x # xs) = T" using True only by (simp add: step)
      moreover have "rank_step symlink limit x (pairs k T, m) = (pairs k T, m)"
        using my less_imp_le [OF less] by (simp add: rank_step_def k_def p_def Let_def)
      ultimately show ?thesis using m by (auto simp: T_def)
    next
      case False
      define U where "U = filter (\<lambda>z. p z \<noteq> p x) T"
      have "filter (\<lambda>z. k z \<noteq> k y) T = U"
        unfolding U_def using y same kinj by (intro filter_cong) auto
      then have "rank_step symlink limit x (pairs k T, m) = (pairs k (insort_key k x U), m(p x \<mapsto> k x))"
        using my False neq fresh [of "\<lambda>z. p z \<noteq> p x"]
        by (auto simp: rank_step_def k_def p_def Let_def ranked_remove_pairs ranked_insert_pairs U_def)
      moreover have "top_items k p limit (x # xs) = insort_key k x U"
        using True only False by (auto simp: step U_def)
      moreover have "keys_of k p (insort_key k x U) (m(p x \<mapsto> k x))"
        using m by (auto simp: keys_of_def U_def set_insort_key)
      ultimately show ?thesis by (simp add: T_def)
    qed
  next
    case noT: False
    then have mx: "m (p x) = None" using m unfolding keys_of_def by (metis not_Some_eq)
    show ?thesis
    proof (cases "length T \<ge> limit")
      case full: True
      then have ne: "T \<noteq> []" using limit by auto
      have lastp: "last (pairs k T) = (k (last T), last T)" using ne by (simp add: pairs_def last_map)
      show ?thesis
      proof (cases "k (last T) < k x")
        case True
        then have "top_items k p limit (x # xs) = T" using noT full by (simp add: step)
        moreover have "rank_step symlink limit x (pairs k T, m) = (pairs k T, m)"
          using mx less_imp_le [OF True] full ne lastp by (simp add: rank_step_def k_def p_def Let_def pairs_def)
        ultimately show ?thesis using m by (simp add: T_def)
      next
        case False
        then have nle: "\<not> k (last T) \<le> k x" using new sub ne by (metis image_eqI last_in_set le_less subsetD)
        have split: "T = butlast T @ [last T]" using ne by simp
        have b: "t \<in> set (butlast T) \<longleftrightarrow> t \<in> set T \<and> p t \<noteq> p (last T)" for t
        proof -
          have "distinct (map p (butlast T @ [last T]))" using dp split by simp
          then have "p (last T) \<notin> p ` set (butlast T)" by simp
          moreover have "set T = insert (last T) (set (butlast T))" by (subst split) simp
          ultimately show ?thesis by (metis imageI insert_iff)
        qed
        have "rank_step symlink limit x (pairs k T, m) =
            (pairs k (insort_key k x (butlast T)), m(p (last T) := None, p x \<mapsto> k x))"
        proof -
          have "k x \<notin> k ` set (butlast T)" using new sub b by auto
          then have "ranked_insert (k x) x (pairs k (butlast T)) = pairs k (insort_key k x (butlast T))"
            by (rule ranked_insert_pairs)
          then show ?thesis using mx nle full ne lastp
            by (simp add: rank_step_def k_def p_def Let_def pairs_def map_butlast)
        qed
        moreover have "top_items k p limit (x # xs) = insort_key k x (butlast T)"
          using noT full False by (simp add: step)
        moreover have "keys_of k p (insort_key k x (butlast T)) (m(p (last T) := None, p x \<mapsto> k x))"
        proof (rule keys_of_insort)
          show "keys_of k p (butlast T) (m(p (last T) := None))"
            using m by (auto simp: keys_of_def b)
          show "p t \<noteq> p x" if "t \<in> set (butlast T)" for t using noT that b by blast
        qed
        ultimately show ?thesis by (simp add: T_def)
      qed
    next
      case False
      then have "top_items k p limit (x # xs) = insort_key k x T" using noT by (simp add: step)
      moreover have "rank_step symlink limit x (pairs k T, m) = (pairs k (insort_key k x T), m(p x \<mapsto> k x))"
      proof -
        have "k x \<notin> k ` set T" using new sub by auto
        then have "ranked_insert (k x) x (pairs k T) = pairs k (insort_key k x T)" by (rule ranked_insert_pairs)
        then show ?thesis using mx False by (simp add: rank_step_def k_def p_def Let_def pairs_def)
      qed
      moreover have "keys_of k p (insort_key k x T) (m(p x \<mapsto> k x))"
        using m noT by (intro keys_of_insort) auto
      ultimately show ?thesis by (simp add: T_def)
    qed
  qed
qed

lemma rank_items_refines:
  fixes symlink cutoff class_pat
  defines "k \<equiv> recent_key symlink" and "p \<equiv> physical_identity_key"
    and "E \<equiv> filter (recent_item_is_eligible cutoff class_pat)"
  assumes limit: "0 < limit" and ok: "\<And>n. check n"
  shows "inj_on k (set (E (its @ done))) \<Longrightarrow> distinct (map k (E (its @ done))) \<Longrightarrow>
     keys_of k p (top_items k p limit (E done)) m \<Longrightarrow>
     \<exists>v. rank_items symlink cutoff class_pat limit check visited its (pairs k (top_items k p limit (E done)), m) =
       Some (v, pairs k (top_items k p limit (E (rev its @ done))))"
proof (induction its arbitrary: "done" m visited)
  case (Cons it its)
  show ?case
  proof (cases "recent_item_is_eligible cutoff class_pat it")
    case True
    have E: "E (it # done) = it # E done" using True by (simp add: E_def)
    have new: "k it \<notin> k ` set (E done)" using Cons.prems(2) True by (simp add: E_def)
    have inj: "inj_on k (set (E done))" using Cons.prems(1) by (rule inj_on_subset) (auto simp: E_def)
    from rank_step_refines [of limit symlink it "E done" m, OF limit, folded k_def p_def, OF new inj Cons.prems(3)]
    obtain m' where step: "rank_step symlink limit it (pairs k (top_items k p limit (E done)), m) =
        (pairs k (top_items k p limit (E (it # done))), m')"
      and m': "keys_of k p (top_items k p limit (E (it # done))) m'"
      unfolding E by blast
    have "inj_on k (set (E (its @ it # done)))" using Cons.prems(1) by (rule inj_on_subset) (auto simp: E_def)
    moreover have "distinct (map k (E (its @ it # done)))"
      using Cons.prems(2) True by (auto simp: E_def)
    ultimately show ?thesis
      using Cons.IH [OF _ _ m', of "saturating_add usize_max visited 1"] True ok by (simp add: step Let_def)
  next
    case False
    then have "E (it # xs) = E xs" "E (xs @ it # ys) = E (xs @ ys)" for xs ys by (simp_all add: E_def)
    then show ?thesis using Cons False ok by (simp add: Let_def)
  qed
qed simp

text \<open>
  The items of a catalogue have distinct object ids, so their keys are distinct, and the order in
  which the hash map yields them does not matter.
\<close>

lemma distinct_keys:
  assumes "distinct (map it_object_id items)"
  shows "inj_on (recent_key symlink) (set items)" "distinct (map (recent_key symlink) items)"
proof -
  show inj: "inj_on (recent_key symlink) (set items)"
    using assms by (auto simp: inj_on_def recent_key_def distinct_map)
  show "distinct (map (recent_key symlink) items)"
    using assms inj by (simp add: distinct_map)
qed

lemma rank_items_is_collect_recent:
  assumes limit: "0 < limit" and ids: "distinct (map it_object_id items)"
    and perm: "mset items' = mset items" and ok: "\<And>n. check n"
  shows "\<exists>v. rank_items symlink cutoff c limit check visited items' ([], Map.empty) =
    Some (v, pairs (recent_key symlink) (collect_recent symlink cutoff c limit items))"
proof -
  let ?k = "recent_key symlink" and ?E = "filter (recent_item_is_eligible cutoff c)"
  have "set items' = set items" using perm by (rule mset_eq_setD)
  moreover have "distinct (map it_object_id items')"
    using ids perm by (metis mset_map mset_eq_imp_distinct_iff)
  ultimately have inj': "inj_on ?k (set items')" "distinct (map ?k items')"
    by (rule_tac [!] distinct_keys)
  then have "inj_on ?k (set (?E (items' @ [])))" "distinct (map ?k (?E (items' @ [])))"
    by (auto intro: inj_on_subset simp: distinct_map)
  moreover have "keys_of ?k physical_identity_key (top_items ?k physical_identity_key limit (?E [])) Map.empty"
    by (simp add: keys_of_def top_items_def)
  ultimately obtain v where v: "rank_items symlink cutoff c limit check visited items'
      (pairs ?k (top_items ?k physical_identity_key limit (?E [])), Map.empty) =
      Some (v, pairs ?k (top_items ?k physical_identity_key limit (?E (rev items' @ []))))"
    using rank_items_refines [where check = check, OF limit ok] by blast
  have "sort_key ?k (?E (rev items')) = sort_key ?k (?E items)"
  proof (rule sort_key_inj_key_eq)
    show "mset (?E (rev items')) = mset (sort_key ?k (?E items))" using perm by (simp add: mset_filter)
    show "inj_on ?k (set (?E (rev items')))" using inj'(1) by (rule inj_on_subset) auto
    show "sorted (map ?k (sort_key ?k (?E items)))" by simp
  qed
  then have "top_items ?k physical_identity_key limit (?E (rev items' @ [])) = collect_recent symlink cutoff c limit items"
    using collect_recent_first [OF limit, of symlink cutoff c items] by (simp add: top_items_def)
  moreover have "pairs ?k (top_items ?k physical_identity_key limit (?E [])) = []"
    by (simp add: pairs_def top_items_def)
  ultimately show ?thesis using v by auto
qed

end
