(* ===== verification/Catalog.thy ===== *)
theory Catalog
  imports Recent_View Contracts "HOL-Library.AList"
begin

text \<open>
  The request-time catalogue (\<open>crates/scan/src/catalog.rs\<close>): its state, its construction, the
  Recently Added cache, and \<open>apply_patch\<close>, which folds the rows of one committed scanner transaction
  into it. The two hash maps with a visible iteration order are association lists in that order, the
  others are maps. \<open>symlink\<close> is the file system's answer whether a path is a symbolic link.
\<close>

record catalog =
  cat_containers :: "(string \<times> folder) list"
  cat_items :: "(string \<times> media_item) list"
  cat_by_detail :: "int \<rightharpoonup> string"
  cat_next_detail :: int
  cat_recent_count :: nat
  cat_recent_ids :: "string list"
  cat_recent_candidate_ids :: "string list"
  cat_album_art_paths :: "int \<rightharpoonup> string"
  cat_recent_limit :: nat
  cat_recent_cutoff_unix :: "int option"

record catalog_patch =
  pt_changed_object_ids :: "string list"
  pt_changed_detail_ids :: "int list"
  pt_changed_album_art_ids :: "int list"
  pt_containers :: "folder list"
  pt_items :: "media_item list"
  pt_album_art_paths :: "int \<rightharpoonup> string"

abbreviation find_container :: "catalog \<Rightarrow> string \<Rightarrow> folder option" where
  "find_container c \<equiv> map_of (cat_containers c)"

abbreviation find_item :: "catalog \<Rightarrow> string \<Rightarrow> media_item option" where
  "find_item c \<equiv> map_of (cat_items c)"

subsection \<open>Construction\<close>

definition add_container :: "string \<Rightarrow> string \<Rightarrow> string \<Rightarrow> string \<Rightarrow> bool \<Rightarrow> catalog \<Rightarrow> catalog" where
  "add_container i parent title class searchable c =
     c\<lparr>cat_containers := AList.update i
         \<lparr>ct_object_id = i, ct_parent_id = parent, ct_title = title, ct_class = class,
          ct_children = [], ct_searchable = searchable\<rparr> (cat_containers c)\<rparr>"

definition push_child :: "string \<Rightarrow> folder \<Rightarrow> folder" where
  "push_child child p = p\<lparr>ct_children := ct_children p @ [child]\<rparr>"

definition link_in :: "string \<Rightarrow> string \<Rightarrow> (string \<times> folder) list \<Rightarrow> (string \<times> folder) list" where
  "link_in parent child cs =
     (case map_of cs parent of
        Some p \<Rightarrow> if child \<in> set (ct_children p) then cs else AList.update parent (push_child child p) cs
      | None \<Rightarrow> cs)"

definition link_child :: "string \<Rightarrow> string \<Rightarrow> catalog \<Rightarrow> catalog" where
  "link_child parent child c = c\<lparr>cat_containers := link_in parent child (cat_containers c)\<rparr>"

definition empty_catalog :: catalog where
  "empty_catalog =
     \<lparr>cat_containers = [], cat_items = [], cat_by_detail = Map.empty, cat_next_detail = 1,
      cat_recent_count = 0, cat_recent_ids = [], cat_recent_candidate_ids = [],
      cat_album_art_paths = Map.empty, cat_recent_limit = RECENT_MAX, cat_recent_cutoff_unix = None\<rparr>"

text \<open>The fixed containers of \<open>Catalog::new\<close> in the order of the source: id, parent, title, class, searchable.\<close>

definition storage_folder :: string where "storage_folder = ''container.storageFolder''"

definition virtual_containers :: "(string \<times> string \<times> string \<times> string \<times> bool) list" where
  "virtual_containers =
    [(ROOT_ID, ''-1'', ''root'', storage_folder, True),
     (BROWSEDIR_ID, ROOT_ID, ''Browse Folders'', storage_folder, True),
     (MUSIC_ID, ROOT_ID, ''Music'', storage_folder, True),
     (VIDEO_ID, ROOT_ID, ''Video'', storage_folder, True),
     (IMAGE_ID, ROOT_ID, ''Pictures'', storage_folder, True),
     (VIDEO_ALL_ID, VIDEO_ID, ''All Video'', storage_folder, True),
     (VIDEO_DIR_ID, VIDEO_ID, ''Folders'', storage_folder, True),
     (VIDEO_RECENT_ID, VIDEO_ID, ''Recently Added'', storage_folder, False),
     (VIDEO_SERIES_ID, VIDEO_ID, ''Series'', storage_folder, True),
     (VIDEO_GENRE_ID, VIDEO_ID, ''Genre'', storage_folder, True),
     (VIDEO_ACTOR_ID, VIDEO_ID, ''Actor'', storage_folder, True),
     (VIDEO_PLIST_ID, VIDEO_ID, ''Playlists'', storage_folder, True),
     (VIDEO_RATING_ID, VIDEO_ID, ''Rating'', storage_folder, True),
     (MUSIC_ALL_ID, MUSIC_ID, ''All Music'', storage_folder, True),
     (MUSIC_GENRE_ID, MUSIC_ID, ''Genre'', storage_folder, True),
     (MUSIC_ARTIST_ID, MUSIC_ID, ''Artist'', storage_folder, True),
     (MUSIC_ALBUM_ID, MUSIC_ID, ''Album'', storage_folder, True),
     (MUSIC_DIR_ID, MUSIC_ID, ''Folders'', storage_folder, True),
     (MUSIC_PLIST_ID, MUSIC_ID, ''Playlists'', storage_folder, True),
     (MUSIC_CONTRIB_ARTIST_ID, MUSIC_ID, ''Contributing Artists'', storage_folder, True),
     (MUSIC_ALBUM_ARTIST_ID, MUSIC_ID, ''Album Artist'', storage_folder, True),
     (MUSIC_COMPOSER_ID, MUSIC_ID, ''Composer'', storage_folder, True),
     (MUSIC_RATING_ID, MUSIC_ID, ''Rating'', storage_folder, True),
     (MUSIC_RECENT_ID, MUSIC_ID, ''Recently Added'', storage_folder, False),
     (IMAGE_ALL_ID, IMAGE_ID, ''All Pictures'', storage_folder, True),
     (IMAGE_DATE_ID, IMAGE_ID, ''Date Taken'', ''container.album.photoAlbum'', True),
     (IMAGE_ALBUM_ID, IMAGE_ID, ''Album'', storage_folder, True),
     (IMAGE_CAMERA_ID, IMAGE_ID, ''Camera'', storage_folder, True),
     (IMAGE_DIR_ID, IMAGE_ID, ''Folders'', storage_folder, True),
     (IMAGE_PLIST_ID, IMAGE_ID, ''Playlists'', storage_folder, True),
     (IMAGE_RATING_ID, IMAGE_ID, ''Rating'', storage_folder, True),
     (IMAGE_RECENT_ID, IMAGE_ID, ''Recently Added'', storage_folder, False)]"

definition virtual_links :: "(string \<times> string) list" where
  "virtual_links =
    [(ROOT_ID, BROWSEDIR_ID), (ROOT_ID, MUSIC_ID), (ROOT_ID, VIDEO_ID), (ROOT_ID, IMAGE_ID),
     (VIDEO_ID, VIDEO_ALL_ID), (VIDEO_ID, VIDEO_DIR_ID), (VIDEO_ID, VIDEO_RECENT_ID),
     (VIDEO_ID, VIDEO_SERIES_ID), (VIDEO_ID, VIDEO_GENRE_ID), (VIDEO_ID, VIDEO_ACTOR_ID),
     (VIDEO_ID, VIDEO_PLIST_ID), (VIDEO_ID, VIDEO_RATING_ID),
     (MUSIC_ID, MUSIC_ALL_ID), (MUSIC_ID, MUSIC_GENRE_ID), (MUSIC_ID, MUSIC_ARTIST_ID),
     (MUSIC_ID, MUSIC_ALBUM_ID), (MUSIC_ID, MUSIC_DIR_ID), (MUSIC_ID, MUSIC_PLIST_ID),
     (MUSIC_ID, MUSIC_CONTRIB_ARTIST_ID), (MUSIC_ID, MUSIC_ALBUM_ARTIST_ID), (MUSIC_ID, MUSIC_COMPOSER_ID),
     (MUSIC_ID, MUSIC_RATING_ID), (MUSIC_ID, MUSIC_RECENT_ID),
     (IMAGE_ID, IMAGE_ALL_ID), (IMAGE_ID, IMAGE_DATE_ID), (IMAGE_ID, IMAGE_ALBUM_ID),
     (IMAGE_ID, IMAGE_CAMERA_ID), (IMAGE_ID, IMAGE_DIR_ID), (IMAGE_ID, IMAGE_PLIST_ID),
     (IMAGE_ID, IMAGE_RATING_ID), (IMAGE_ID, IMAGE_RECENT_ID)]"

definition catalog_new :: catalog where
  "catalog_new =
     fold (\<lambda>(p, ch). link_child p ch) virtual_links
       (fold (\<lambda>(i, p, t, cls, s). add_container i p t cls s) virtual_containers empty_catalog)"

definition get_item_by_detail :: "int \<Rightarrow> catalog \<Rightarrow> media_item option" where
  "get_item_by_detail d c = (case cat_by_detail c d of None \<Rightarrow> None | Some i \<Rightarrow> find_item c i)"

subsection \<open>The Recently Added cache\<close>

definition recent_cache_limit :: "nat \<Rightarrow> nat" where
  "recent_cache_limit limit = min (saturating_mul usize_max limit 2) (saturating_add usize_max limit 1000)"

definition collect_recent_item_ids :: "(string \<Rightarrow> bool) \<Rightarrow> string \<Rightarrow> nat \<Rightarrow> catalog \<Rightarrow> string list" where
  "collect_recent_item_ids symlink root limit c =
     map it_object_id
       (collect_recent symlink (cat_recent_cutoff_unix c) (recent_class root) limit (map snd (cat_items c)))"

definition set_recent :: "string list \<Rightarrow> catalog \<Rightarrow> catalog" where
  "set_recent candidates c =
     (let ids = take (cat_recent_limit c) candidates
      in c\<lparr>cat_recent_candidate_ids := candidates, cat_recent_ids := ids,
           cat_recent_count := catalog_count (length ids)\<rparr>)"

definition rebuild_recent_index :: "(string \<Rightarrow> bool) \<Rightarrow> catalog \<Rightarrow> catalog" where
  "rebuild_recent_index symlink c =
     set_recent
       (collect_recent_item_ids symlink VIDEO_RECENT_ID (recent_cache_limit (cat_recent_limit c)) c) c"

text \<open>\<open>retain\<close> with a set of identities already met.\<close>

fun retain_unseen :: "(string \<Rightarrow> nat \<times> nat) \<Rightarrow> (nat \<times> nat) list \<Rightarrow> string list \<Rightarrow> string list" where
  "retain_unseen f seen [] = []"
| "retain_unseen f seen (i # is) =
     (if f i \<in> set seen then retain_unseen f seen is else i # retain_unseen f (f i # seen) is)"

definition recent_candidates :: "(string \<Rightarrow> bool) \<Rightarrow> string list \<Rightarrow> catalog \<Rightarrow> string list" where
  "recent_candidates symlink changed c =
     (let item = (\<lambda>i. the (find_item c i));
          ids = remdups_adj (sort (cat_recent_candidate_ids c @ changed));
          eligible = filter (\<lambda>i. case find_item c i of
                                 Some it \<Rightarrow> recent_item_is_eligible (cat_recent_cutoff_unix c) ''video'' it
                               | None \<Rightarrow> False) ids;
          sorted_ids = sort_key (\<lambda>i. recent_key symlink (item i)) eligible
      in take (recent_cache_limit (cat_recent_limit c))
           (retain_unseen (\<lambda>i. physical_identity_key (item i)) [] sorted_ids))"

definition refresh_recent_index :: "(string \<Rightarrow> bool) \<Rightarrow> string list \<Rightarrow> bool \<Rightarrow> catalog \<Rightarrow> catalog" where
  "refresh_recent_index symlink changed saturated c =
     (let candidates = recent_candidates symlink changed c
      in if saturated \<and> length candidates < cat_recent_limit c then rebuild_recent_index symlink c
         else set_recent candidates c)"

definition sat_i64 :: "int \<Rightarrow> int" where
  "sat_i64 n = max i64_min (min i64_max n)"

definition configure_recent_policy_at ::
  "(string \<Rightarrow> bool) \<Rightarrow> nat \<Rightarrow> nat option \<Rightarrow> int \<Rightarrow> catalog \<Rightarrow> catalog" where
  "configure_recent_policy_at symlink limit days now c =
     rebuild_recent_index symlink
       (c\<lparr>cat_recent_limit := max limit 1,
          cat_recent_cutoff_unix :=
            map_option (\<lambda>d. sat_i64 (now - sat_i64 (int d * (24 * 60 * 60)))) days,
          cat_recent_ids := [], cat_recent_candidate_ids := [], cat_recent_count := 0\<rparr>)"

subsection \<open>Applying a patch\<close>

definition removed_objects :: "catalog_patch \<Rightarrow> string list" where
  "removed_objects p = pt_changed_object_ids p @ map it_object_id (pt_items p)"

text \<open>
  The changed objects are taken out; the children of a changed container are kept aside; the former
  parents that remain lose the changed children.
\<close>

definition old_parents :: "string list \<Rightarrow> catalog \<Rightarrow> string list" where
  "old_parents rem c =
     map (it_parent_id \<circ> snd) (filter (\<lambda>e. fst e \<in> set rem) (cat_items c)) @
     map (ct_parent_id \<circ> snd) (filter (\<lambda>e. fst e \<in> set rem) (cat_containers c))"

definition old_children :: "string list \<Rightarrow> catalog \<Rightarrow> string \<rightharpoonup> string list" where
  "old_children rem c i = (if i \<in> set rem then map_option ct_children (find_container c i) else None)"

definition drop_children :: "string list \<Rightarrow> folder \<Rightarrow> folder" where
  "drop_children rem f = f\<lparr>ct_children := filter (\<lambda>i. i \<notin> set rem) (ct_children f)\<rparr>"

definition detach :: "string list \<Rightarrow> catalog \<Rightarrow> catalog" where
  "detach rem c =
     c\<lparr>cat_items := filter (\<lambda>e. fst e \<notin> set rem) (cat_items c),
       cat_containers :=
         map (\<lambda>(i, f). (i, if i \<in> set (old_parents rem c) then drop_children rem f else f))
           (filter (\<lambda>e. fst e \<notin> set rem) (cat_containers c))\<rparr>"

text \<open>A container of the patch gets its former children back, the first time its id occurs.\<close>

definition put_container ::
  "folder \<Rightarrow> (string \<rightharpoonup> string list) \<times> (string \<times> folder) list \<Rightarrow>
     (string \<rightharpoonup> string list) \<times> (string \<times> folder) list" where
  "put_container f st =
     (case st of (old, cs) \<Rightarrow>
        (old(ct_object_id f := None),
         AList.update (ct_object_id f)
           (case old (ct_object_id f) of Some ch \<Rightarrow> f\<lparr>ct_children := ch\<rparr> | None \<Rightarrow> f) cs))"

text \<open>
  Membership sets are built for the parents with more than one incoming link; a parent with one is
  searched.
\<close>

definition child_membership :: "string list \<Rightarrow> (string \<times> folder) list \<Rightarrow> string \<rightharpoonup> string list" where
  "child_membership parents cs p =
     (if count_list parents p > 1 then map_option ct_children (map_of cs p) else None)"

definition link_batch ::
  "string \<Rightarrow> string \<Rightarrow> (string \<rightharpoonup> string list) \<times> (string \<times> folder) list \<Rightarrow>
     (string \<rightharpoonup> string list) \<times> (string \<times> folder) list" where
  "link_batch parent i st =
     (case st of (mem, cs) \<Rightarrow>
        case map_of cs parent of
          None \<Rightarrow> (mem, cs)
        | Some f \<Rightarrow>
            let missing = (case mem parent of Some ms \<Rightarrow> i \<notin> set ms | None \<Rightarrow> i \<notin> set (ct_children f));
                mem' = (case mem parent of Some ms \<Rightarrow> mem(parent \<mapsto> List.insert i ms) | None \<Rightarrow> mem)
            in (mem', if missing then AList.update parent (push_child i f) cs else cs))"

definition replaces_representative :: "media_item \<Rightarrow> catalog \<Rightarrow> bool" where
  "replaces_representative it c =
     (case get_item_by_detail (it_detail_id it) c of
        None \<Rightarrow> True
      | Some cur \<Rightarrow>
          (it_ref_id it \<noteq> None, it_object_id it) < (it_ref_id cur \<noteq> None, it_object_id cur))"

definition index_item :: "media_item \<Rightarrow> catalog \<Rightarrow> catalog" where
  "index_item it c =
     c\<lparr>cat_next_detail := max (cat_next_detail c) (sat_i64 (it_detail_id it + 1)),
       cat_by_detail :=
         (if replaces_representative it c then (cat_by_detail c)(it_detail_id it \<mapsto> it_object_id it)
          else cat_by_detail c),
       cat_items := AList.update (it_object_id it) it (cat_items c)\<rparr>"

definition put_item ::
  "media_item \<Rightarrow> (string \<rightharpoonup> string list) \<times> catalog \<Rightarrow> (string \<rightharpoonup> string list) \<times> catalog" where
  "put_item it st =
     (case st of (mem, c) \<Rightarrow>
        let c' = index_item it c;
            (mem', cs) = link_batch (it_parent_id it) (it_object_id it) (mem, cat_containers c')
        in (mem', c'\<lparr>cat_containers := cs\<rparr>))"

definition patch_art :: "int \<Rightarrow> (int \<rightharpoonup> string) \<times> (int \<rightharpoonup> string) \<Rightarrow> (int \<rightharpoonup> string) \<times> (int \<rightharpoonup> string)" where
  "patch_art a st = (case st of (incoming, art) \<Rightarrow> (incoming(a := None), art(a := incoming a)))"

definition container_links :: "catalog_patch \<Rightarrow> (string \<times> string) list" where
  "container_links p = map (\<lambda>f. (ct_object_id f, ct_parent_id f)) (pt_containers p)"

definition link_parents :: "catalog_patch \<Rightarrow> string list" where
  "link_parents p = map snd (container_links p) @ map it_parent_id (pt_items p)"

definition apply_patch :: "(string \<Rightarrow> bool) \<Rightarrow> catalog_patch \<Rightarrow> catalog \<Rightarrow> catalog" where
  "apply_patch symlink p c =
     (let saturated = (length (cat_recent_candidate_ids c) = recent_cache_limit (cat_recent_limit c));
          rem = removed_objects p;
          c1 = (detach rem c)\<lparr>cat_by_detail :=
                  (\<lambda>d. if d \<in> set (pt_changed_detail_ids p) then None else cat_by_detail c d)\<rparr>;
          (_, cs) = fold put_container (pt_containers p) (old_children rem c, cat_containers c1);
          mem = child_membership (link_parents p) cs;
          (mem', cs') = fold (\<lambda>(i, parent). link_batch parent i) (container_links p) (mem, cs);
          (_, c2) = fold put_item (pt_items p) (mem', c1\<lparr>cat_containers := cs'\<rparr>);
          (_, art) = fold patch_art (pt_changed_album_art_ids p)
                       (pt_album_art_paths p, cat_album_art_paths c2)
      in refresh_recent_index symlink (map it_object_id (pt_items p)) saturated
           (c2\<lparr>cat_album_art_paths := art\<rparr>))"

end
