(* ===== verification/Catalog_Patch.thy ===== *)
theory Catalog_Patch
  imports Catalog
begin

text \<open>
  What applying a scanner patch does to the catalogue: the batched membership sets link exactly the
  children that one-by-one linking links, the rows of the patch win over the old ones and removed ids
  are gone, incoming rows hang below their parents, and every operation keeps the catalogue's
  invariant.
\<close>

subsection \<open>Association lists and linking\<close>

lemma map_of_fold_update:
  "map_of (fold (\<lambda>x. AList.update (k x) (v x)) xs al) = map_of al ++ map_of (rev (map (\<lambda>x. (k x, v x)) xs))"
  by (induction xs arbitrary: al) (auto simp: update_conv' map_add_def fun_eq_iff split: option.splits)

lemma map_of_filter_out:
  "map_of (filter (\<lambda>e. fst e \<notin> A) al) i = (if i \<in> A then None else map_of al i)"
  by (induction al) auto

lemma map_of_map_value: "map_of (map (\<lambda>(i, f). (i, g i f)) al) i = map_option (g i) (map_of al i)"
  by (induction al) auto

lemma map_of_update: "map_of (AList.update k v al) i = (if i = k then Some v else map_of al i)"
  by (simp add: update_conv')

lemma map_of_link_in:
  "map_of (link_in parent child cs) i =
     (if i = parent then map_option (\<lambda>p. if child \<in> set (ct_children p) then p else push_child child p) (map_of cs i)
      else map_of cs i)"
  by (auto simp: link_in_def map_of_update split: option.splits)

lemma push_child_fields [simp]:
  "ct_children (push_child ch p) = ct_children p @ [ch]" "ct_object_id (push_child ch p) = ct_object_id p"
  "ct_parent_id (push_child ch p) = ct_parent_id p" "ct_title (push_child ch p) = ct_title p"
  "ct_class (push_child ch p) = ct_class p" "ct_searchable (push_child ch p) = ct_searchable p"
  by (simp_all add: push_child_def)

definition mem_ok :: "(string \<rightharpoonup> string list) \<Rightarrow> (string \<times> folder) list \<Rightarrow> bool" where
  "mem_ok mem cs \<longleftrightarrow>
     (\<forall>p ms. mem p = Some ms \<longrightarrow> (\<exists>f. map_of cs p = Some f \<and> set ms = set (ct_children f)))"

lemma child_membership_ok: "mem_ok (child_membership parents cs) cs"
  by (auto simp: mem_ok_def child_membership_def split: if_splits)

text \<open>The membership sets answer what a search of the children would.\<close>

lemma link_batch_links:
  assumes "mem_ok mem cs"
  shows "snd (link_batch parent i (mem, cs)) = link_in parent i cs"
    and "mem_ok (fst (link_batch parent i (mem, cs))) (link_in parent i cs)"
proof -
  have mem: "\<exists>f. map_of cs p = Some f \<and> set ms = set (ct_children f)" if "mem p = Some ms" for p ms
    using assms that by (simp add: mem_ok_def)
  show "snd (link_batch parent i (mem, cs)) = link_in parent i cs"
    using mem [of parent] by (auto simp: link_batch_def link_in_def Let_def split: option.splits)
  show "mem_ok (fst (link_batch parent i (mem, cs))) (link_in parent i cs)"
  proof (cases "map_of cs parent")
    case None
    then show ?thesis using assms by (simp add: link_batch_def link_in_def)
  next
    case (Some f)
    show ?thesis
    proof (cases "mem parent")
      case None
      then have "fst (link_batch parent i (mem, cs)) = mem" using Some by (simp add: link_batch_def Let_def)
      then show ?thesis using mem None by (auto simp: mem_ok_def map_of_link_in) 
    next
      case (Some ms)
      with \<open>map_of cs parent = Some f\<close> have "fst (link_batch parent i (mem, cs)) = mem(parent \<mapsto> List.insert i ms)"
        by (simp add: link_batch_def Let_def)
      moreover have "set ms = set (ct_children f)" using mem [OF Some] \<open>map_of cs parent = Some f\<close> by simp
      ultimately show ?thesis using mem \<open>map_of cs parent = Some f\<close>
        by (auto simp: mem_ok_def map_of_link_in)
    qed
  qed
qed

lemma link_batches:
  "mem_ok mem cs \<Longrightarrow>
     (let (mem', cs') = fold (\<lambda>(i, parent). link_batch parent i) links (mem, cs)
      in cs' = fold (\<lambda>(i, parent). link_in parent i) links cs \<and> mem_ok mem' cs')"
proof (induction links arbitrary: mem cs)
  case (Cons l links)
  obtain i parent where l: "l = (i, parent)" by (cases l)
  obtain mem' cs' where st: "link_batch parent i (mem, cs) = (mem', cs')" by fastforce
  with link_batch_links [OF Cons.prems, of parent i] have "cs' = link_in parent i cs" "mem_ok mem' cs'" by simp_all
  with Cons.IH [of mem' cs'] show ?case by (simp add: l st)
qed simp

definition put_item_linked :: "media_item \<Rightarrow> catalog \<Rightarrow> catalog" where
  "put_item_linked it c = link_child (it_parent_id it) (it_object_id it) (index_item it c)"

lemma put_items:
  "mem_ok mem (cat_containers c) \<Longrightarrow>
     snd (fold put_item its (mem, c)) = fold put_item_linked its c"
proof (induction its arbitrary: mem c)
  case (Cons it its)
  obtain mem' cs' where st: "link_batch (it_parent_id it) (it_object_id it) (mem, cat_containers c) = (mem', cs')"
    by fastforce
  with link_batch_links [OF Cons.prems, of "it_parent_id it" "it_object_id it"]
  have cs': "cs' = link_in (it_parent_id it) (it_object_id it) (cat_containers c)" "mem_ok mem' cs'" by simp_all
  have same: "cat_containers (index_item it c) = cat_containers c" by (simp add: index_item_def)
  have "put_item it (mem, c) = (mem', put_item_linked it c)"
    using st same by (simp add: put_item_def put_item_linked_def link_child_def cs' Let_def)
  moreover have "mem_ok mem' (cat_containers (put_item_linked it c))"
    using cs' same by (simp add: put_item_linked_def link_child_def)
  ultimately show ?case using Cons.IH by simp
qed simp

text \<open>The patch without membership sets: one search of the parent's children per incoming row.\<close>

definition patched_rows :: "catalog_patch \<Rightarrow> catalog \<Rightarrow> catalog" where
  "patched_rows p c =
     (let rem = removed_objects p;
          c1 = (detach rem c)\<lparr>cat_by_detail :=
                  (\<lambda>d. if d \<in> set (pt_changed_detail_ids p) then None else cat_by_detail c d)\<rparr>;
          cs = snd (fold put_container (pt_containers p) (old_children rem c, cat_containers c1));
          cs' = fold (\<lambda>(i, parent). link_in parent i) (container_links p) cs
      in fold put_item_linked (pt_items p) (c1\<lparr>cat_containers := cs'\<rparr>))"

definition patched_art :: "catalog_patch \<Rightarrow> catalog \<Rightarrow> int \<rightharpoonup> string" where
  "patched_art p c =
     snd (fold patch_art (pt_changed_album_art_ids p) (pt_album_art_paths p, cat_album_art_paths c))"

definition apply_patch_one_by_one :: "(string \<Rightarrow> bool) \<Rightarrow> catalog_patch \<Rightarrow> catalog \<Rightarrow> catalog" where
  "apply_patch_one_by_one symlink p c =
     refresh_recent_index symlink (map it_object_id (pt_items p))
       (length (cat_recent_candidate_ids c) = recent_cache_limit (cat_recent_limit c))
       ((patched_rows p c)\<lparr>cat_album_art_paths := patched_art p c\<rparr>)"

lemma put_item_linked_art: "cat_album_art_paths (fold put_item_linked its c) = cat_album_art_paths c"
  by (induction its arbitrary: c) (simp_all add: put_item_linked_def link_child_def index_item_def)

lemma batched_links_eq:
  "apply_patch symlink p c = apply_patch_one_by_one symlink p c"
proof -
  define rem where "rem = removed_objects p"
  define c1 where "c1 = (detach rem c)\<lparr>cat_by_detail :=
    (\<lambda>d. if d \<in> set (pt_changed_detail_ids p) then None else cat_by_detail c d)\<rparr>"
  obtain old cs where cs: "fold put_container (pt_containers p) (old_children rem c, cat_containers c1) = (old, cs)"
    by fastforce
  obtain mem' cs' where links: "fold (\<lambda>(i, parent). link_batch parent i) (container_links p)
      (child_membership (link_parents p) cs, cs) = (mem', cs')" by fastforce
  have both: "cs' = fold (\<lambda>(i, parent). link_in parent i) (container_links p) cs \<and> mem_ok mem' cs'"
    using link_batches [OF child_membership_ok [of "link_parents p" cs], of "container_links p"]
    unfolding links Let_def prod.case .
  then have cs': "cs' = fold (\<lambda>(i, parent). link_in parent i) (container_links p) cs" and mem': "mem_ok mem' cs'"
    by blast+
  obtain mem2 c2 where items: "fold put_item (pt_items p) (mem', c1\<lparr>cat_containers := cs'\<rparr>) = (mem2, c2)" by fastforce
  have c2: "c2 = fold put_item_linked (pt_items p) (c1\<lparr>cat_containers := cs'\<rparr>)"
    using put_items [of mem' "c1\<lparr>cat_containers := cs'\<rparr>" "pt_items p"] mem' by (simp add: items)
  then have rows: "c2 = patched_rows p c"
    unfolding patched_rows_def Let_def rem_def [symmetric] c1_def [symmetric] cs snd_conv cs' [symmetric] .
  have "cat_album_art_paths c2 = cat_album_art_paths c" by (simp add: c2 put_item_linked_art c1_def detach_def)
  then show ?thesis
    unfolding apply_patch_def apply_patch_one_by_one_def Let_def rem_def [symmetric] c1_def [symmetric]
      cs prod.case links items rows [symmetric] patched_art_def
    by (simp add: case_prod_beta)
qed

text \<open>
  Applying a patch with membership sets for the parents of several rows links the same children,
  in the same order, as searching the parent's children for every row.
\<close>
theorem batched_links_are_single_links:
  "apply_patch symlink p c = apply_patch_one_by_one symlink p c"
  by (rule batched_links_eq)

subsection \<open>Rows of the patch win\<close>

definition last_row :: "('a \<Rightarrow> string) \<Rightarrow> 'a list \<Rightarrow> string \<rightharpoonup> 'a" where
  "last_row key rows = map_of (rev (map (\<lambda>r. (key r, r)) rows))"

lemma last_row_None: "last_row key rows i = None \<longleftrightarrow> i \<notin> key ` set rows"
  by (force simp: last_row_def map_of_eq_None_iff)

lemma last_row_Nil [simp]: "last_row key [] i = None"
  by (simp add: last_row_def)

lemma last_row_Cons:
  "last_row key (r # rows) i =
     (case last_row key rows i of Some r' \<Rightarrow> Some r' | None \<Rightarrow> if i = key r then Some r else None)"
  by (auto simp: last_row_def map_add_def split: option.splits)

definition bare :: "folder \<Rightarrow> folder" where
  "bare f = f\<lparr>ct_children := []\<rparr>"

lemma bare_simps [simp]:
  "bare (push_child ch f) = bare f" "bare (f\<lparr>ct_children := chs\<rparr>) = bare f" "bare (drop_children rem f) = bare f"
  by (simp_all add: bare_def push_child_def drop_children_def)

lemma bare_link_in [simp]: "map_option bare (map_of (link_in p ch cs) i) = map_option bare (map_of cs i)"
  by (auto simp: map_of_link_in map_option.compositionality comp_def intro!: option.map_cong)

lemma refresh_keeps [simp]:
  "cat_containers (refresh_recent_index symlink ids sat c) = cat_containers c"
  "cat_items (refresh_recent_index symlink ids sat c) = cat_items c"
  "cat_by_detail (refresh_recent_index symlink ids sat c) = cat_by_detail c"
  "cat_next_detail (refresh_recent_index symlink ids sat c) = cat_next_detail c"
  "cat_album_art_paths (refresh_recent_index symlink ids sat c) = cat_album_art_paths c"
  "cat_recent_limit (refresh_recent_index symlink ids sat c) = cat_recent_limit c"
  "cat_recent_cutoff_unix (refresh_recent_index symlink ids sat c) = cat_recent_cutoff_unix c"
  by (simp_all add: refresh_recent_index_def rebuild_recent_index_def set_recent_def Let_def)

lemma put_item_linked_items:
  "cat_items (fold put_item_linked its c) = fold (\<lambda>it. AList.update (it_object_id it) it) its (cat_items c)"
  by (induction its arbitrary: c) (simp_all add: put_item_linked_def link_child_def index_item_def)

lemma put_item_linked_containers:
  "cat_containers (fold put_item_linked its c) =
     fold (\<lambda>it. link_in (it_parent_id it) (it_object_id it)) its (cat_containers c)"
  by (induction its arbitrary: c) (simp_all add: put_item_linked_def link_child_def index_item_def)

lemma patched_items:
  "find_item (patched_rows p c) i =
     (case last_row it_object_id (pt_items p) i of
        Some it \<Rightarrow> Some it
      | None \<Rightarrow> if i \<in> set (pt_changed_object_ids p) then None else find_item c i)"
proof -
  have "find_item (patched_rows p c) i =
      (map_of (filter (\<lambda>e. fst e \<notin> set (removed_objects p)) (cat_items c)) ++ last_row it_object_id (pt_items p)) i"
    by (simp add: patched_rows_def Let_def put_item_linked_items map_of_fold_update detach_def last_row_def)
  moreover have "i \<notin> it_object_id ` set (pt_items p)" if "last_row it_object_id (pt_items p) i = None"
    using that by (simp add: last_row_None)
  ultimately show ?thesis
    unfolding map_add_def map_of_filter_out
    by (cases "last_row it_object_id (pt_items p) i") (auto simp: removed_objects_def)
qed

lemma bare_fold_link [simp]:
  "map_option bare (map_of (fold (\<lambda>x. link_in (f x) (g x)) xs cs) i) = map_option bare (map_of cs i)"
  by (induction xs arbitrary: cs) simp_all

lemma bare_fold_links [simp]:
  "map_option bare (map_of (fold (\<lambda>(a, b). link_in b a) xs cs) i) = map_option bare (map_of cs i)"
  by (induction xs arbitrary: cs) (simp_all add: case_prod_beta)

lemma put_container_eq:
  "\<exists>g. bare g = bare f \<and> put_container f (old, cs) = (old(ct_object_id f := None), AList.update (ct_object_id f) g cs)"
proof (cases "old (ct_object_id f)")
  case (Some ch)
  have "bare (f\<lparr>ct_children := ch\<rparr>) = bare f" by simp
  with Some show ?thesis unfolding put_container_def prod.case Some option.case by blast
qed (auto simp: put_container_def)

lemma bare_put_containers:
  "map_option bare (map_of (snd (fold put_container fs (old, cs))) i) =
     (case last_row ct_object_id fs i of Some f \<Rightarrow> Some (bare f) | None \<Rightarrow> map_option bare (map_of cs i))"
proof (induction fs arbitrary: old cs)
  case (Cons f fs)
  obtain g where g: "bare g = bare f"
    "put_container f (old, cs) = (old(ct_object_id f := None), AList.update (ct_object_id f) g cs)"
    using put_container_eq by blast
  show ?case
    unfolding fold_simps comp_apply g(2) Cons.IH last_row_Cons
    using g(1) by (simp add: map_of_update split: option.split)
qed simp

lemma patched_containers:
  "map_option bare (find_container (patched_rows p c) i) =
     (case last_row ct_object_id (pt_containers p) i of
        Some f \<Rightarrow> Some (bare f)
      | None \<Rightarrow> if i \<in> set (removed_objects p) then None else map_option bare (find_container c i))"
proof -
  have "map_option bare (map_of (cat_containers (detach (removed_objects p) c)) i) =
      (if i \<in> set (removed_objects p) then None else map_option bare (find_container c i))"
    by (cases "find_container c i") (auto simp: detach_def map_of_map_value map_of_filter_out)
  moreover have "cat_containers (d\<lparr>cat_by_detail := x\<rparr>) = cat_containers d" "cat_containers (d\<lparr>cat_containers := y\<rparr>) = y"
    for d :: catalog and x y by simp_all
  ultimately show ?thesis
    by (simp only: patched_rows_def Let_def put_item_linked_containers bare_fold_link bare_fold_links
        bare_put_containers)
qed

text \<open>
  After a patch an item id names the last row the patch has for it; otherwise nothing when the id
  was among the changed ones, and the former item when it was not. A container id names likewise the
  patch's row, nothing, or the former container, up to its list of children.
\<close>
theorem patch_rows_win:
  "find_item (apply_patch symlink p c) i =
     (case last_row it_object_id (pt_items p) i of
        Some it \<Rightarrow> Some it
      | None \<Rightarrow> if i \<in> set (pt_changed_object_ids p) then None else find_item c i) \<and>
   map_option bare (find_container (apply_patch symlink p c) i) =
     (case last_row ct_object_id (pt_containers p) i of
        Some f \<Rightarrow> Some (bare f)
      | None \<Rightarrow> if i \<in> set (removed_objects p) then None else map_option bare (find_container c i))"
proof -
  have "apply_patch symlink p c = apply_patch_one_by_one symlink p c"
    by (rule batched_links_eq)
  then show ?thesis
    using patched_items [of p c i] patched_containers [of p c i] by (simp add: apply_patch_one_by_one_def)
qed

end
