(* ===== verification/Catalog_Invariant.thy ===== *)
theory Catalog_Invariant
  imports Catalog_Patch
begin

text \<open>
  The catalogue's invariant and the operations that keep it. Keys name their rows, no child is listed
  twice, and the Recently Added cache is a bounded list of eligible items of distinct physical files
  whose first entries are the visible ones.
\<close>

definition tree_ok :: "(string \<times> folder) list \<Rightarrow> (string \<times> media_item) list \<Rightarrow> bool" where
  "tree_ok cs its \<longleftrightarrow>
     distinct (map fst cs) \<and> distinct (map fst its) \<and>
     (\<forall>i f. map_of cs i = Some f \<longrightarrow> ct_object_id f = i \<and> distinct (ct_children f)) \<and>
     (\<forall>i it. map_of its i = Some it \<longrightarrow> it_object_id it = i)"

definition recent_ok :: "catalog \<Rightarrow> bool" where
  "recent_ok c \<longleftrightarrow>
     0 < cat_recent_limit c \<and> cat_recent_limit c \<le> usize_max \<and>
     cat_recent_ids c = take (cat_recent_limit c) (cat_recent_candidate_ids c) \<and>
     cat_recent_count c = catalog_count (length (cat_recent_ids c)) \<and>
     length (cat_recent_candidate_ids c) \<le> recent_cache_limit (cat_recent_limit c) \<and>
     (\<forall>i \<in> set (cat_recent_candidate_ids c).
        \<exists>it. find_item c i = Some it \<and> recent_item_is_eligible (cat_recent_cutoff_unix c) ''video'' it) \<and>
     distinct (map (\<lambda>i. physical_identity_key (the (find_item c i))) (cat_recent_candidate_ids c))"

definition catalog_ok :: "catalog \<Rightarrow> bool" where
  "catalog_ok c \<longleftrightarrow> tree_ok (cat_containers c) (cat_items c) \<and> recent_ok c"

subsection \<open>The tree\<close>

lemma tree_ok_update_container:
  "tree_ok cs its \<Longrightarrow> ct_object_id f = i \<Longrightarrow> distinct (ct_children f) \<Longrightarrow> tree_ok (AList.update i f cs) its"
  by (auto simp: tree_ok_def distinct_update map_of_update)

lemma tree_ok_update_item:
  "tree_ok cs its \<Longrightarrow> it_object_id it = i \<Longrightarrow> tree_ok cs (AList.update i it its)"
  by (auto simp: tree_ok_def distinct_update map_of_update)

lemma tree_ok_container:
  "tree_ok cs its \<Longrightarrow> map_of cs i = Some f \<Longrightarrow> ct_object_id f = i \<and> distinct (ct_children f)"
  by (simp add: tree_ok_def)

lemma tree_ok_link_in: "tree_ok cs its \<Longrightarrow> tree_ok (link_in parent ch cs) its"
  by (auto simp: link_in_def split: option.split dest: tree_ok_container intro!: tree_ok_update_container)

lemma tree_ok_link_fold: "tree_ok cs its \<Longrightarrow> tree_ok (fold (\<lambda>x. link_in (p x) (q x)) xs cs) its"
  by (induction xs arbitrary: cs) (simp_all add: tree_ok_link_in)

lemma tree_ok_update_items:
  "tree_ok cs its \<Longrightarrow> tree_ok cs (fold (\<lambda>it. AList.update (it_object_id it) it) xs its)"
  by (induction xs arbitrary: its) (simp_all add: tree_ok_update_item)

lemma tree_ok_detach: "tree_ok (cat_containers c) (cat_items c) \<Longrightarrow> tree_ok (cat_containers (detach rem c)) (cat_items (detach rem c))"
proof -
  assume ok: "tree_ok (cat_containers c) (cat_items c)"
  have keys: "map fst (map (\<lambda>(i, f). (i, g i f)) al) = map fst al" for g :: "string \<Rightarrow> folder \<Rightarrow> folder" and al
    by (induction al) auto
  have "distinct (map fst (cat_containers (detach rem c)))" "distinct (map fst (cat_items (detach rem c)))"
    using ok unfolding tree_ok_def detach_def by (simp_all add: keys distinct_map_filter del: map_map)
  moreover have "ct_object_id f = i \<and> distinct (ct_children f)" if "find_container (detach rem c) i = Some f" for i f
    using that ok by (auto simp: detach_def map_of_map_value map_of_filter_out drop_children_def split: if_splits
        dest!: tree_ok_container)
  moreover have "it_object_id it = i" if "find_item (detach rem c) i = Some it" for i it
    using that ok by (auto simp: detach_def map_of_filter_out tree_ok_def split: if_splits)
  ultimately show ?thesis by (simp add: tree_ok_def)
qed

lemma tree_ok_put_containers:
  "tree_ok cs its \<Longrightarrow> (\<And>i ch. old i = Some ch \<Longrightarrow> distinct ch) \<Longrightarrow> (\<And>f. f \<in> set fs \<Longrightarrow> distinct (ct_children f)) \<Longrightarrow>
   tree_ok (snd (fold put_container fs (old, cs))) its"
proof (induction fs arbitrary: old cs)
  case (Cons f fs)
  have "tree_ok (snd (put_container f (old, cs))) its"
    using Cons.prems by (auto simp: put_container_def split: option.split intro!: tree_ok_update_container)
  moreover have "fst (put_container f (old, cs)) i = Some ch \<Longrightarrow> distinct ch" for i ch
    using Cons.prems(2) by (auto simp: put_container_def split: if_splits)
  ultimately show ?case using Cons.IH [of "snd (put_container f (old, cs))" "fst (put_container f (old, cs))"] Cons.prems(3)
    by simp
qed simp

lemma tree_ok_patched_rows:
  assumes ok: "tree_ok (cat_containers c) (cat_items c)" and new: "\<And>f. f \<in> set (pt_containers p) \<Longrightarrow> distinct (ct_children f)"
  shows "tree_ok (cat_containers (patched_rows p c)) (cat_items (patched_rows p c))"
proof -
  let ?rem = "removed_objects p"
  define cs where "cs = snd (fold put_container (pt_containers p) (old_children ?rem c, cat_containers (detach ?rem c)))"
  have "tree_ok cs (cat_items (detach ?rem c))"
    unfolding cs_def using tree_ok_detach [OF ok]
  proof (rule tree_ok_put_containers)
    show "distinct ch" if "old_children ?rem c i = Some ch" for i ch
      using that ok by (auto simp: old_children_def split: if_splits dest: tree_ok_container)
  qed (rule new)
  then have "tree_ok (fold (\<lambda>(i, parent). link_in parent i) (container_links p) cs) (cat_items (detach ?rem c))"
    by (simp add: case_prod_beta' tree_ok_link_fold)
  then show ?thesis
    by (simp add: patched_rows_def Let_def put_item_linked_items put_item_linked_containers cs_def
        tree_ok_link_fold tree_ok_update_items)
qed

subsection \<open>The Recently Added cache\<close>

lemma tree_ok_items: "tree_ok cs its \<Longrightarrow> map it_object_id (map snd its) = map fst its"
  by (auto simp: tree_ok_def intro!: map_cong)

lemma find_own_item:
  "tree_ok cs its \<Longrightarrow> it \<in> snd ` set its \<Longrightarrow> map_of its (it_object_id it) = Some it"
  by (force simp: tree_ok_def)

lemma collect_recent_props:
  assumes "0 < limit"
  shows "length (collect_recent symlink cutoff cls limit its) \<le> limit"
    and "set (collect_recent symlink cutoff cls limit its) \<subseteq> {it \<in> set its. recent_item_is_eligible cutoff cls it}"
    and "distinct (map physical_identity_key (collect_recent symlink cutoff cls limit its))"
proof -
  let ?S = "sort_key (recent_key symlink) (filter (recent_item_is_eligible cutoff cls) its)"
  note eq = collect_recent_first [OF assms, of symlink cutoff cls its]
  show "length (collect_recent symlink cutoff cls limit its) \<le> limit" by (simp add: eq)
  have "set (collect_recent symlink cutoff cls limit its) \<subseteq> set (first_of_each physical_identity_key ?S)"
    unfolding eq by (rule set_take_subset)
  also have "\<dots> \<subseteq> set ?S" by (rule set_first_of_each)
  finally show "set (collect_recent symlink cutoff cls limit its) \<subseteq> {it \<in> set its. recent_item_is_eligible cutoff cls it}"
    by auto
  show "distinct (map physical_identity_key (collect_recent symlink cutoff cls limit its))"
    unfolding eq take_map [symmetric] by (intro distinct_take distinct_first_of_each)
qed

lemma recent_ok_set_recent:
  assumes "0 < cat_recent_limit c" "cat_recent_limit c \<le> usize_max"
    and "length ids \<le> recent_cache_limit (cat_recent_limit c)"
    and "\<And>i. i \<in> set ids \<Longrightarrow> \<exists>it. find_item c i = Some it \<and> recent_item_is_eligible (cat_recent_cutoff_unix c) ''video'' it"
    and "distinct (map (\<lambda>i. physical_identity_key (the (find_item c i))) ids)"
  shows "recent_ok (set_recent ids c)"
  using assms by (simp add: recent_ok_def set_recent_def Let_def)

lemma cache_limit_ge: "limit \<le> usize_max \<Longrightarrow> limit \<le> recent_cache_limit limit"
  by (simp add: recent_cache_limit_def saturating_mul_def saturating_add_def)

lemma rebuild_recent_ok:
  assumes tree: "tree_ok (cat_containers c) (cat_items c)"
    and limit: "0 < cat_recent_limit c" "cat_recent_limit c \<le> usize_max"
  shows "recent_ok (rebuild_recent_index symlink c)"
proof -
  let ?L = "recent_cache_limit (cat_recent_limit c)"
  let ?its = "collect_recent symlink (cat_recent_cutoff_unix c) ''video'' ?L (map snd (cat_items c))"
  have cls: "recent_class VIDEO_RECENT_ID = ''video''" by (simp add: recent_class_def object_id_defs)
  have pos: "0 < ?L" using limit cache_limit_ge [OF limit(2)] by simp
  note props = collect_recent_props [OF pos, of symlink "cat_recent_cutoff_unix c" "''video''" "map snd (cat_items c)"]
  have find: "find_item c (it_object_id it) = Some it" if "it \<in> set ?its" for it
    using that props(2) find_own_item [OF tree, of it] by auto
  have "map (\<lambda>i. physical_identity_key (the (find_item c i))) (map it_object_id ?its) = map physical_identity_key ?its"
    using find by simp
  then have "distinct (map (\<lambda>i. physical_identity_key (the (find_item c i))) (map it_object_id ?its))"
    using props(3) by (simp only:)
  then show ?thesis
    unfolding rebuild_recent_index_def collect_recent_item_ids_def cls
    using limit props(1,2) find by (intro recent_ok_set_recent) auto
qed

lemma retain_unseen_first:
  "retain_unseen f seen ids = filter (\<lambda>i. f i \<notin> set seen) (first_of_each f ids)"
proof (induction f seen ids rule: retain_unseen.induct)
  case (2 f seen i ids)
  then show ?case by (auto simp: filter_filter intro!: filter_cong)
qed simp

lemma refresh_recent_ok:
  assumes tree: "tree_ok (cat_containers c) (cat_items c)"
    and limit: "0 < cat_recent_limit c" "cat_recent_limit c \<le> usize_max"
  shows "recent_ok (refresh_recent_index symlink changed saturated c)"
proof -
  let ?f = "\<lambda>i. physical_identity_key (the (find_item c i))"
  define S where "S = sort_key (\<lambda>i. recent_key symlink (the (find_item c i)))
    (filter (\<lambda>i. case find_item c i of
                   Some it \<Rightarrow> recent_item_is_eligible (cat_recent_cutoff_unix c) ''video'' it
                 | None \<Rightarrow> False) (remdups_adj (sort (cat_recent_candidate_ids c @ changed))))"
  let ?ids = "recent_candidates symlink changed c"
  have ids: "?ids = take (recent_cache_limit (cat_recent_limit c)) (first_of_each ?f S)"
    by (simp add: recent_candidates_def Let_def S_def retain_unseen_first)
  have "recent_ok (set_recent ?ids c)"
    using limit
  proof (rule recent_ok_set_recent)
    show "length ?ids \<le> recent_cache_limit (cat_recent_limit c)" by (simp add: ids)
    show "distinct (map ?f ?ids)" unfolding ids take_map [symmetric] by (intro distinct_take distinct_first_of_each)
    show "\<exists>it. find_item c i = Some it \<and> recent_item_is_eligible (cat_recent_cutoff_unix c) ''video'' it"
      if "i \<in> set ?ids" for i
    proof -
      have "i \<in> set S" using that set_first_of_each [of ?f S] unfolding ids by (meson in_set_takeD subsetD)
      then show ?thesis by (auto simp: S_def split: option.splits)
    qed
  qed
  then show ?thesis using rebuild_recent_ok [OF assms] by (simp add: refresh_recent_index_def Let_def)
qed

subsection \<open>Every operation keeps the invariant\<close>

lemma add_container_ok: "catalog_ok c \<Longrightarrow> catalog_ok (add_container i parent title cls s c)"
  by (simp add: catalog_ok_def add_container_def recent_ok_def tree_ok_update_container)

lemma link_child_ok: "catalog_ok c \<Longrightarrow> catalog_ok (link_child parent ch c)"
  by (simp add: catalog_ok_def link_child_def recent_ok_def tree_ok_link_in)

lemma catalog_new_ok: "catalog_ok catalog_new"
proof -
  have "catalog_ok (fold (\<lambda>(i, p, t, cls, s). add_container i p t cls s) cs c)" if "catalog_ok c" for cs c
    using that by (induction cs arbitrary: c) (auto simp: add_container_ok)
  moreover have "catalog_ok (fold (\<lambda>(p, ch). link_child p ch) ls c)" if "catalog_ok c" for ls c
    using that by (induction ls arbitrary: c) (auto simp: link_child_ok)
  moreover have "catalog_ok empty_catalog"
    by (simp add: catalog_ok_def tree_ok_def recent_ok_def empty_catalog_def RECENT_MAX_def usize_max_def
        u64_max_def catalog_count_def)
  ultimately show ?thesis by (simp add: catalog_new_def)
qed

lemma patched_rows_policy [simp]:
  "cat_recent_limit (patched_rows p c) = cat_recent_limit c"
  "cat_recent_cutoff_unix (patched_rows p c) = cat_recent_cutoff_unix c"
proof -
  have "cat_recent_limit (fold put_item_linked its d) = cat_recent_limit d \<and>
      cat_recent_cutoff_unix (fold put_item_linked its d) = cat_recent_cutoff_unix d" for its d
    by (induction its arbitrary: d) (simp_all add: put_item_linked_def link_child_def index_item_def)
  then show "cat_recent_limit (patched_rows p c) = cat_recent_limit c"
    "cat_recent_cutoff_unix (patched_rows p c) = cat_recent_cutoff_unix c"
    by (simp_all add: patched_rows_def Let_def detach_def)
qed

lemma apply_patch_ok:
  assumes ok: "catalog_ok c" and new: "\<And>f. f \<in> set (pt_containers p) \<Longrightarrow> distinct (ct_children f)"
  shows "catalog_ok (apply_patch symlink p c)"
proof -
  let ?c = "(patched_rows p c)\<lparr>cat_album_art_paths := patched_art p c\<rparr>"
  have tree: "tree_ok (cat_containers ?c) (cat_items ?c)"
    using tree_ok_patched_rows [of c p] ok new by (simp add: catalog_ok_def)
  have "0 < cat_recent_limit ?c" "cat_recent_limit ?c \<le> usize_max"
    using ok by (simp_all add: catalog_ok_def recent_ok_def)
  from refresh_recent_ok [OF tree this] show ?thesis
    using tree unfolding batched_links_eq apply_patch_one_by_one_def catalog_ok_def refresh_keeps by blast
qed

lemma configure_recent_policy_ok:
  assumes "catalog_ok c" "limit \<le> usize_max"
  shows "catalog_ok (configure_recent_policy_at symlink limit days now c)"
proof -
  have "1 \<le> usize_max" by (simp add: usize_max_def u64_max_def)
  then have "recent_ok (configure_recent_policy_at symlink limit days now c)"
    unfolding configure_recent_policy_at_def using assms
    by (intro rebuild_recent_ok) (simp_all add: catalog_ok_def)
  then show ?thesis
    using assms by (simp add: catalog_ok_def configure_recent_policy_at_def rebuild_recent_index_def set_recent_def Let_def)
qed

inductive catalog_step :: "catalog \<Rightarrow> catalog \<Rightarrow> bool" where
  patched: "(\<And>f. f \<in> set (pt_containers p) \<Longrightarrow> distinct (ct_children f)) \<Longrightarrow> catalog_step c (apply_patch symlink p c)"
| policy: "limit \<le> usize_max \<Longrightarrow> catalog_step c (configure_recent_policy_at symlink limit days now c)"
| container: "catalog_step c (add_container i parent title cls s c)"
| linked: "catalog_step c (link_child parent ch c)"

interpretation catalogs: step_invariant catalog_step "\<lambda>c. c = catalog_new" catalog_ok
proof unfold_locales
  show "catalog_ok c" if "c = catalog_new" for c using that catalog_new_ok by simp
  show "catalog_step c d \<Longrightarrow> catalog_ok c \<Longrightarrow> catalog_ok d" for c d
    by (induction rule: catalog_step.induct)
      (simp_all add: apply_patch_ok configure_recent_policy_ok add_container_ok link_child_ok)
qed

text \<open>
  C24: Starting from the fixed containers, whatever patches and policies are applied, every key of the
  catalogue names its own row, no container lists a child twice, and the Recently Added ids are at most
  the configured number of present, eligible items of distinct physical files.
\<close>
theorem catalog_invariant:
  assumes "catalog_step\<^sup>*\<^sup>* catalog_new c"
  shows "(\<forall>i f. find_container c i = Some f \<longrightarrow> ct_object_id f = i \<and> distinct (ct_children f)) \<and>
    (\<forall>i it. find_item c i = Some it \<longrightarrow> it_object_id it = i) \<and>
    length (cat_recent_ids c) \<le> cat_recent_limit c \<and>
    cat_recent_count c = min (length (cat_recent_ids c)) 4294967295 \<and>
    distinct (map (\<lambda>i. physical_identity_key (the (find_item c i))) (cat_recent_ids c)) \<and>
    (\<forall>i \<in> set (cat_recent_ids c). \<exists>it. find_item c i = Some it \<and>
       recent_item_is_eligible (cat_recent_cutoff_unix c) ''video'' it)"
proof -
  have ok: "tree_ok (cat_containers c) (cat_items c)" "recent_ok c"
    using catalogs.reachable_inv [OF refl assms] by (simp_all add: catalog_ok_def)
  then have "distinct (map (\<lambda>i. physical_identity_key (the (find_item c i))) (cat_recent_ids c))"
    by (simp add: recent_ok_def take_map [symmetric])
  with ok show ?thesis
    by (auto simp: tree_ok_def recent_ok_def catalog_count_def u32_max_def dest: in_set_takeD)
qed

lemma catalog_invariant_witness:
  "length (cat_recent_ids (configure_recent_policy_at (\<lambda>_. False) 5 (Some 7) 0 catalog_new)) \<le>
     cat_recent_limit (configure_recent_policy_at (\<lambda>_. False) 5 (Some 7) 0 catalog_new)"
proof -
  have "catalog_step catalog_new (configure_recent_policy_at (\<lambda>_. False) 5 (Some 7) 0 catalog_new)"
    by (rule policy) (simp add: usize_max_def u64_max_def)
  then show ?thesis using catalog_invariant [OF r_into_rtranclp [of catalog_step]] by blast
qed

end
