(* ===== verification/Compact_Field.thy ===== *)
theory Compact_Field
  imports Utf8 Contracts
begin

text \<open>
  Percent-encoded fields of the compact stream metadata
  (\<open>crates/protocol/src/stream_metadata.rs\<close>) and the writer with its byte budget.
\<close>

definition MAX_COMPACT_STREAM_METADATA_BYTES :: nat where
  "MAX_COMPACT_STREAM_METADATA_BYTES = 1024 * 1024"

datatype field_decode_error = InvalidEscape | InvalidUtf8

datatype metadata_write_error = TooLong nat | TooManyAudioRecords nat nat

definition hex_value :: "char \<Rightarrow> nat option" where
  "hex_value c =
     (if is_digit c then Some (bval c - 48)
      else if 97 \<le> bval c \<and> bval c \<le> 102 then Some (bval c - 97 + 10)
      else if 65 \<le> bval c \<and> bval c \<le> 70 then Some (bval c - 65 + 10)
      else None)"

definition hex_digit :: "nat \<Rightarrow> char" where
  "hex_digit n = ''0123456789ABCDEF'' ! n"

definition literal_byte :: "char \<Rightarrow> bool" where
  "literal_byte c \<longleftrightarrow> is_alphanumeric c \<or>
     c \<in> {CHR ''-'', CHR ''_'', CHR ''.'', CHR 0x7E, CHR '' ''}"

definition compact_encoded_byte :: "char \<Rightarrow> string" where
  "compact_encoded_byte c =
     (if literal_byte c then [c]
      else [CHR ''%'', hex_digit (bval c div 16), hex_digit (bval c mod 16)])"

definition encode_compact_stream_field :: "string \<Rightarrow> string" where
  "encode_compact_stream_field v = concat (map compact_encoded_byte v)"

text \<open>The decoding loop over the bytes; a \<open>%\<close> without two more bytes stays literal.\<close>

fun decode_bytes :: "string \<Rightarrow> field_decode_error + string" where
  "decode_bytes [] = Inr []"
| "decode_bytes [c] = Inr [c]"
| "decode_bytes [c, d] = Inr [c, d]"
| "decode_bytes (c # h # l # rest) =
     (if c = CHR ''%'' then
        bind_res (ok_or InvalidEscape (hex_value h)) (\<lambda>high.
        bind_res (ok_or InvalidEscape (hex_value l)) (\<lambda>low.
        bind_res (decode_bytes rest) (\<lambda>t. Inr (char_of (high * 16 + low) # t))))
      else bind_res (decode_bytes (h # l # rest)) (\<lambda>t. Inr (c # t)))"

definition decode_compact_stream_field :: "string \<Rightarrow> field_decode_error + string" where
  "decode_compact_stream_field v =
     (if CHR ''%'' \<notin> set v then Inr v
      else bind_res (decode_bytes v) (\<lambda>decoded.
        if utf8_valid decoded then Inr decoded else Inl InvalidUtf8))"

definition decode_optional_field :: "string option \<Rightarrow> field_decode_error + string option" where
  "decode_optional_field encoded =
     (case encoded of
        None \<Rightarrow> Inr None
      | Some e \<Rightarrow> bind_res (decode_compact_stream_field e) (\<lambda>d.
          Inr (if d \<noteq> [] then Some d else None)))"

definition decode_or_empty :: "string \<Rightarrow> string" where
  "decode_or_empty v = (case decode_compact_stream_field v of Inr d \<Rightarrow> d | Inl _ \<Rightarrow> [])"

subsection \<open>The bounded writer\<close>

definition push_str :: "string \<Rightarrow> string \<Rightarrow> metadata_write_error + string" where
  "push_str out v =
     (case checked_add usize_max (length out) (length v) of
        None \<Rightarrow> Inl (TooLong MAX_COMPACT_STREAM_METADATA_BYTES)
      | Some n \<Rightarrow>
          if n > MAX_COMPACT_STREAM_METADATA_BYTES then Inl (TooLong MAX_COMPACT_STREAM_METADATA_BYTES)
          else Inr (out @ v))"

definition start_record :: "string \<Rightarrow> metadata_write_error + string" where
  "start_record out = (if out \<noteq> [] then push_str out '','' else Inr out)"

definition push_encoded :: "string \<Rightarrow> string \<Rightarrow> metadata_write_error + string" where
  "push_encoded out v = push_seq push_str out (map compact_encoded_byte v)"

interpretation metadata_writer: bounded_writer push_str MAX_COMPACT_STREAM_METADATA_BYTES
  by unfold_locales
    (auto simp: push_str_def checked_add_def usize_max_def u64_max_def MAX_COMPACT_STREAM_METADATA_BYTES_def
      split: if_splits)

subsection \<open>Fields round-trip\<close>

lemma hex_round: "n < 16 \<Longrightarrow> hex_value (hex_digit n) = Some n"
proof -
  have "\<forall>n \<in> set [0..<16]. hex_value (hex_digit n) = Some n"
    by (simp add: upt_rec hex_value_def hex_digit_def is_digit_def)
  then show "n < 16 \<Longrightarrow> ?thesis" by simp
qed

lemma hex_digit_alnum: "n < 16 \<Longrightarrow> is_alphanumeric (hex_digit n)"
proof -
  have "\<forall>n \<in> set [0..<16]. is_alphanumeric (hex_digit n)"
    by (simp add: upt_rec hex_digit_def byte_simps)
  then show "n < 16 \<Longrightarrow> ?thesis" by simp
qed

lemma literal_not_percent: "literal_byte c \<Longrightarrow> c \<noteq> CHR ''%''"
  by (auto simp: literal_byte_def byte_simps)

lemma decode_encoded_byte:
  "decode_bytes (compact_encoded_byte c @ s) = bind_res (decode_bytes s) (\<lambda>t. Inr (c # t))"
proof (cases "literal_byte c")
  case True
  then have "c \<noteq> CHR ''%''" by (rule literal_not_percent)
  then have "decode_bytes (c # s) = bind_res (decode_bytes s) (\<lambda>t. Inr (c # t))"
    by (cases s rule: decode_bytes.cases) auto
  with True show ?thesis by (simp add: compact_encoded_byte_def)
next
  case False
  have "bval c div 16 < 16" using bval_less [of c] by linarith
  moreover have "char_of (bval c div 16 * 16 + bval c mod 16) = c" by simp
  ultimately show ?thesis using False by (simp add: compact_encoded_byte_def hex_round)
qed

lemma decode_encoded_bytes: "decode_bytes (encode_compact_stream_field v) = Inr v"
  by (induction v) (simp_all add: encode_compact_stream_field_def decode_encoded_byte)

text \<open>An encoded field only holds letters, digits and the five literal punctuation bytes and \<open>%\<close>.\<close>

lemma encoded_chars:
  "c \<in> set (encode_compact_stream_field v) \<Longrightarrow> literal_byte c \<or> c = CHR ''%''"
proof -
  have "literal_byte c \<or> c = CHR ''%''" if "c \<in> set (compact_encoded_byte x)" for x
  proof -
    have "bval x div 16 < 16" using bval_less [of x] by linarith
    then have "is_alphanumeric (hex_digit (bval x div 16))" "is_alphanumeric (hex_digit (bval x mod 16))"
      by (simp_all add: hex_digit_alnum)
    with that show ?thesis by (auto simp: compact_encoded_byte_def literal_byte_def split: if_splits)
  qed
  then show "c \<in> set (encode_compact_stream_field v) \<Longrightarrow> ?thesis"
    by (auto simp: encode_compact_stream_field_def)
qed

lemma no_percent_encoded: "CHR ''%'' \<notin> set (encode_compact_stream_field v) \<Longrightarrow> encode_compact_stream_field v = v"
  by (induction v) (auto simp: encode_compact_stream_field_def compact_encoded_byte_def split: if_splits)

lemma decode_encode_field: "utf8_valid v \<Longrightarrow> decode_compact_stream_field (encode_compact_stream_field v) = Inr v"
  by (auto simp: decode_compact_stream_field_def decode_encoded_bytes no_percent_encoded)

interpretation compact_codec:
  field_codec encode_compact_stream_field
    "\<lambda>s. case decode_compact_stream_field s of Inr d \<Rightarrow> Some d | Inl _ \<Rightarrow> None" utf8_valid
    "{CHR '','', CHR '':'', CHR ''|''}"
  by unfold_locales (auto simp: decode_encode_field dest!: encoded_chars simp: literal_byte_def byte_simps)

lemma encoded_free [simp]:
  "CHR '','' \<notin> set (encode_compact_stream_field v)" "CHR '':'' \<notin> set (encode_compact_stream_field v)"
  "CHR ''|'' \<notin> set (encode_compact_stream_field v)" "CHR ''@'' \<notin> set (encode_compact_stream_field v)"
  by (auto dest!: encoded_chars simp: literal_byte_def byte_simps)

lemma decode_optional_encode:
  "utf8_valid v \<Longrightarrow> decode_optional_field (Some (encode_compact_stream_field v)) =
     Inr (if v \<noteq> [] then Some v else None)"
  by (simp add: decode_optional_field_def decode_encode_field)

lemma decode_or_empty_encode [simp]: "utf8_valid v \<Longrightarrow> decode_or_empty (encode_compact_stream_field v) = v"
  by (simp add: decode_or_empty_def decode_encode_field)

lemma push_encoded_ok: "push_encoded out v = Inr out' \<Longrightarrow> out' = out @ encode_compact_stream_field v"
  by (auto simp: push_encoded_def encode_compact_stream_field_def dest: metadata_writer.push_seq_ok)

end
