(* ===== verification/Catalog_Views.thy ===== *)
theory Catalog_Views
  imports Catalog_Invariant Compact_Field
begin

text \<open>
  Reading the catalogue (\<open>crates/scan/src/catalog.rs\<close>): pages of children, the Recently Added views
  and their counts, with and without the cooperative work checks, and the lookup of one object. A check
  is called with a growing number of inspected rows, so a callback is the function from that number to
  its answer.
\<close>

subsection \<open>Pages\<close>

definition recent_root :: "string \<Rightarrow> string option" where
  "recent_root i =
     (if i = VIDEO_RECENT_ID then Some VIDEO_RECENT_ID
      else if i = MUSIC_RECENT_ID then Some MUSIC_RECENT_ID
      else if i = IMAGE_RECENT_ID then Some IMAGE_RECENT_ID
      else None)"

definition recent_clone :: "string \<Rightarrow> string \<Rightarrow> media_item \<Rightarrow> catalog_child" where
  "recent_clone root i it = ItemChild (it\<lparr>it_object_id := root @ ''$'' @ i, it_parent_id := root\<rparr>)"

definition clone_ids :: "string \<Rightarrow> catalog \<Rightarrow> string list \<Rightarrow> catalog_child list" where
  "clone_ids root c ids = List.map_filter (\<lambda>i. map_option (recent_clone root i) (find_item c i)) ids"

definition recent_items :: "(string \<Rightarrow> bool) \<Rightarrow> string \<Rightarrow> catalog \<Rightarrow> catalog_child list" where
  "recent_items symlink root c =
     (if root = VIDEO_RECENT_ID \<and> cat_recent_ids c \<noteq> [] then clone_ids root c (cat_recent_ids c)
      else clone_ids root c (collect_recent_item_ids symlink root (cat_recent_limit c) c))"

text \<open>The sort keys of a container's children that exist: folders first, then the title.\<close>

definition child_key :: "catalog \<Rightarrow> string \<Rightarrow> (bool \<times> string \<times> string) option" where
  "child_key c i =
     (case find_container c i of
        Some f \<Rightarrow> Some (True, ct_title f, i)
      | None \<Rightarrow> map_option (\<lambda>it. (False, it_title it, i)) (find_item c i))"

definition key_order :: "bool \<times> string \<times> string \<Rightarrow> bool \<times> string" where
  "key_order k = (case k of (folder, title, _) \<Rightarrow> (\<not> folder, ascii_lower title))"

definition child_of_key :: "catalog \<Rightarrow> bool \<times> string \<times> string \<Rightarrow> catalog_child option" where
  "child_of_key c k =
     (case k of (_, _, i) \<Rightarrow>
        case find_container c i of
          Some f \<Rightarrow> Some (ContainerChild f)
        | None \<Rightarrow> map_option ItemChild (find_item c i))"

definition page_children ::
  "(string \<Rightarrow> bool) \<Rightarrow> string \<Rightarrow> nat \<Rightarrow> nat \<Rightarrow> catalog \<Rightarrow> (catalog_child list \<times> nat) option" where
  "page_children symlink i start n c =
     (case recent_root i of
        Some root \<Rightarrow>
          let all = recent_items symlink root c; total = catalog_count (length all)
          in if start \<ge> length all \<or> n = 0 then Some ([], total)
             else let stop = min (length all) (saturating_add usize_max start n)
                  in Some (drop start (take stop all), total)
      | None \<Rightarrow>
          case find_container c i of
            None \<Rightarrow> None
          | Some f \<Rightarrow>
              let keys = sort_key key_order (List.map_filter (child_key c) (ct_children f))
              in Some (List.map_filter (child_of_key c) (take n (drop start keys)),
                       catalog_count (length keys)))"

definition children_of :: "(string \<Rightarrow> bool) \<Rightarrow> string \<Rightarrow> catalog \<Rightarrow> catalog_child list option" where
  "children_of symlink i c = map_option fst (page_children symlink i 0 usize_max c)"

subsection \<open>Checked views and counts\<close>

fun cached_items :: "(nat \<Rightarrow> bool) \<Rightarrow> catalog \<Rightarrow> nat \<Rightarrow> string list \<Rightarrow> (nat \<times> media_item list) option" where
  "cached_items check c visited [] = Some (visited, [])"
| "cached_items check c visited (i # is) =
     (let v = saturating_add usize_max visited 1
      in if \<not> check v then None
         else map_option (\<lambda>(w, its). (w, case find_item c i of Some it \<Rightarrow> it # its | None \<Rightarrow> its))
                (cached_items check c v is))"

fun emit_recent :: "(nat \<Rightarrow> bool) \<Rightarrow> string \<Rightarrow> nat \<Rightarrow> media_item list \<Rightarrow> catalog_child list option" where
  "emit_recent check root visited [] = Some []"
| "emit_recent check root visited (it # its) =
     (let v = saturating_add usize_max visited 1
      in if \<not> check v then None
         else map_option (\<lambda>out. recent_clone root (it_object_id it) it # out) (emit_recent check root v its))"

definition recent_items_controlled ::
  "(string \<Rightarrow> bool) \<Rightarrow> (nat \<Rightarrow> bool) \<Rightarrow> string \<Rightarrow> catalog \<Rightarrow> catalog_child list option" where
  "recent_items_controlled symlink check root c =
     (if \<not> check 0 then None
      else
        case (if root = VIDEO_RECENT_ID \<and> cat_recent_ids c \<noteq> [] then cached_items check c 0 (cat_recent_ids c)
              else map_option (\<lambda>(v, ranked). (v, map snd ranked))
                     (rank_items symlink (cat_recent_cutoff_unix c) (recent_class root) (cat_recent_limit c) check 0
                        (map snd (cat_items c)) ([], Map.empty))) of
          None \<Rightarrow> None
        | Some (v, selected) \<Rightarrow> emit_recent check root v selected)"

fun count_identities :: "nat \<Rightarrow> (nat \<times> nat) list \<Rightarrow> media_item list \<Rightarrow> nat" where
  "count_identities limit seen [] = length seen"
| "count_identities limit seen (it # its) =
     (let seen' = List.insert (physical_identity_key it) seen
      in if length seen' = limit then length seen' else count_identities limit seen' its)"

definition displayed_child_count :: "string \<Rightarrow> catalog \<Rightarrow> nat" where
  "displayed_child_count i c =
     (if recent_root i \<noteq> None then
        (if i = VIDEO_RECENT_ID \<and> cat_recent_ids c \<noteq> [] then catalog_count (length (cat_recent_ids c))
         else catalog_count (count_identities (cat_recent_limit c) []
                (filter (recent_item_is_eligible (cat_recent_cutoff_unix c) (recent_class i)) (map snd (cat_items c)))))
      else
        case find_container c i of Some f \<Rightarrow> catalog_count (length (ct_children f)) | None \<Rightarrow> 0)"

fun count_checked ::
  "(nat \<Rightarrow> bool) \<Rightarrow> (media_item \<Rightarrow> bool) \<Rightarrow> nat \<Rightarrow> nat \<Rightarrow> (nat \<times> nat) list \<Rightarrow> media_item list \<Rightarrow> nat option" where
  "count_checked check elig limit index seen [] = Some (length seen)"
| "count_checked check elig limit index seen (it # its) =
     (if \<not> check (saturating_add usize_max index 1) then None
      else if elig it then
        (let seen' = List.insert (physical_identity_key it) seen
         in if length seen' = limit then Some (length seen')
            else count_checked check elig limit (Suc index) seen' its)
      else count_checked check elig limit (Suc index) seen its)"

definition displayed_child_count_controlled :: "(nat \<Rightarrow> bool) \<Rightarrow> string \<Rightarrow> catalog \<Rightarrow> nat option" where
  "displayed_child_count_controlled check i c =
     (if \<not> check 0 then None
      else if recent_root i = None then
        Some (case find_container c i of Some f \<Rightarrow> catalog_count (length (ct_children f)) | None \<Rightarrow> 0)
      else if i = VIDEO_RECENT_ID \<and> cat_recent_ids c \<noteq> [] then Some (catalog_count (length (cat_recent_ids c)))
      else map_option catalog_count
             (count_checked check (recent_item_is_eligible (cat_recent_cutoff_unix c) (recent_class i))
                (cat_recent_limit c) 0 [] (map snd (cat_items c))))"

definition displayed_container_count :: "string \<Rightarrow> catalog \<Rightarrow> nat" where
  "displayed_container_count i c =
     (if recent_root i \<noteq> None then 0
      else case find_container c i of
             Some f \<Rightarrow> catalog_count (length (filter (\<lambda>ch. find_container c ch \<noteq> None) (ct_children f)))
           | None \<Rightarrow> 0)"

fun count_containers :: "(nat \<Rightarrow> bool) \<Rightarrow> catalog \<Rightarrow> nat \<Rightarrow> nat \<Rightarrow> string list \<Rightarrow> nat option" where
  "count_containers check c index n [] = Some n"
| "count_containers check c index n (ch # chs) =
     (if \<not> check (saturating_add usize_max index 1) then None
      else count_containers check c (Suc index) (n + (if find_container c ch \<noteq> None then 1 else 0)) chs)"

definition displayed_container_count_controlled :: "(nat \<Rightarrow> bool) \<Rightarrow> string \<Rightarrow> catalog \<Rightarrow> nat option" where
  "displayed_container_count_controlled check i c =
     (if \<not> check 0 then None
      else if recent_root i \<noteq> None then Some 0
      else map_option catalog_count
             (case find_container c i of Some f \<Rightarrow> count_containers check c 0 0 (ct_children f) | None \<Rightarrow> Some 0))"

subsection \<open>One object\<close>

text \<open>\<open>i64::from_str_radix(s, 16)\<close>: an optional sign and at least one hexadecimal digit.\<close>

definition hex_digits_value :: "string \<Rightarrow> nat" where
  "hex_digits_value s = foldl (\<lambda>n c. n * 16 + the (hex_value c)) 0 s"

definition parse_hex_i64 :: "string \<Rightarrow> int option" where
  "parse_hex_i64 s =
     (let neg = prefix ''-'' s;
          ds = (if prefix ''-'' s \<or> prefix ''+'' s then tl s else s);
          v = (if neg then - int (hex_digits_value ds) else int (hex_digits_value ds))
      in if ds \<noteq> [] \<and> list_all (\<lambda>c. hex_value c \<noteq> None) ds \<and> i64_min \<le> v \<and> v \<le> i64_max then Some v else None)"

definition detail_of_id :: "string \<Rightarrow> int option" where
  "detail_of_id i =
     (case (case strip_prefix VIDEO_ALL_ID i of
              None \<Rightarrow> None
            | Some s \<Rightarrow>
                case strip_prefix ''$'' s of
                  None \<Rightarrow> None
                | Some h \<Rightarrow> if h \<noteq> [] \<and> CHR ''$'' \<notin> set h then Some h else None) of
        Some h \<Rightarrow> parse_hex_i64 h
      | None \<Rightarrow>
          if list_all is_digit i then
            (case parse_int 64 i of
               None \<Rightarrow> None
             | Some n \<Rightarrow> if n \<in> {0, 1, 2, 3, 64} then None else Some n)
          else None)"

definition metadata_by_detail :: "string \<Rightarrow> catalog \<Rightarrow> catalog_child option" where
  "metadata_by_detail i c =
     (case detail_of_id i of
        None \<Rightarrow> None
      | Some d \<Rightarrow>
          map_option
            (\<lambda>it. ItemChild (if prefix VIDEO_ALL_ID i then it\<lparr>it_object_id := i, it_parent_id := VIDEO_ALL_ID\<rparr> else it))
            (get_item_by_detail d c))"

definition rename_recent :: "string \<Rightarrow> catalog_child \<Rightarrow> catalog_child" where
  "rename_recent i ch =
     (case ch of
        ItemChild it \<Rightarrow> ItemChild (it\<lparr>it_object_id := i, it_parent_id := VIDEO_RECENT_ID\<rparr>)
      | other \<Rightarrow> other)"

function metadata :: "string \<Rightarrow> catalog \<Rightarrow> catalog_child option" where
  "metadata i c =
     (case strip_prefix (VIDEO_RECENT_ID @ ''$'') i of
        Some (r # eal) \<Rightarrow> map_option (rename_recent i) (metadata (r # eal) c)
      | _ \<Rightarrow>
          case find_container c i of
            Some f \<Rightarrow> Some (ContainerChild f)
          | None \<Rightarrow>
              case find_item c i of
                Some it \<Rightarrow> Some (ItemChild it)
              | None \<Rightarrow> metadata_by_detail i c)"
  by pat_completeness auto
termination
  by (relation "measure (length \<circ> fst)") (auto simp: strip_prefix_def object_id_defs split: if_splits dest!: arg_cong [where f = length])

declare metadata.simps [simp del]

section \<open>Pages\<close>

text \<open>
  What the views of the catalogue promise: pages are slices of one sorted list of the existing
  children, the checked reads return what the unchecked ones do, the counts shown beside a Recently
  Added view are the lengths of that view, and a listed entry can be looked up again.
\<close>

subsection \<open>Pages are slices\<close>

definition child_exists :: "catalog \<Rightarrow> string \<Rightarrow> bool" where
  "child_exists c i \<longleftrightarrow> find_container c i \<noteq> None \<or> find_item c i \<noteq> None"

text \<open>All children of a container or view, in their order.\<close>

definition all_children :: "(string \<Rightarrow> bool) \<Rightarrow> string \<Rightarrow> catalog \<Rightarrow> catalog_child list option" where
  "all_children symlink i c =
     (case recent_root i of
        Some root \<Rightarrow> Some (recent_items symlink root c)
      | None \<Rightarrow>
          map_option (\<lambda>f. map (the \<circ> child_of_key c) (sort_key key_order (List.map_filter (child_key c) (ct_children f))))
            (find_container c i))"

lemma map_filter_Some: "(\<And>x. x \<in> set xs \<Longrightarrow> f x \<noteq> None) \<Longrightarrow> List.map_filter f xs = map (the \<circ> f) xs"
proof (induction xs)
  case (Cons a xs)
  then obtain y where "f a = Some y" by fastforce
  with Cons show ?case by (simp add: List.map_filter_simps)
qed (simp add: List.map_filter_simps)

lemma set_map_filter: "set (List.map_filter f xs) = {y. \<exists>x \<in> set xs. f x = Some y}"
  by (induction xs) (auto simp: List.map_filter_simps split: option.split)

lemma child_of_key_Some:
  "k \<in> set (List.map_filter (child_key c) chs) \<Longrightarrow> \<exists>ch. child_of_key c k = Some ch"
  by (auto simp: set_map_filter child_key_def child_of_key_def split: option.splits)

lemma page_of_all:
  assumes all: "all_children symlink i c = Some all" and fits: "length all \<le> usize_max"
  shows "page_children symlink i start n c = Some (take n (drop start all), catalog_count (length all))"
proof (cases "recent_root i")
  case (Some root)
  then have rec: "all = recent_items symlink root c" using all by (simp add: all_children_def)
  have "drop start (take (min (length all) (saturating_add usize_max start n)) all) = take n (drop start all)"
  proof (cases "start + n \<le> usize_max")
    case True
    have "take (min (length all) (start + n)) all = take (start + n) all" by (simp add: min_def)
    then show ?thesis using True by (simp add: saturating_add_def drop_take)
  next
    case False
    then have "n \<ge> length all - start" using fits by simp
    then show ?thesis using False fits by (simp add: saturating_add_def)
  qed
  then show ?thesis using Some by (auto simp: page_children_def Let_def rec [symmetric])
next
  case None
  then obtain f where f: "find_container c i = Some f" using all by (auto simp: all_children_def)
  define keys where "keys = sort_key key_order (List.map_filter (child_key c) (ct_children f))"
  have all': "all = map (the \<circ> child_of_key c) keys" using all None f by (simp add: all_children_def keys_def)
  have "child_of_key c k \<noteq> None" if "k \<in> set keys" for k
    using that child_of_key_Some [of k c "ct_children f"] by (auto simp: keys_def)
  then have "List.map_filter (child_of_key c) (take n (drop start keys)) = map (the \<circ> child_of_key c) (take n (drop start keys))"
    by (intro map_filter_Some) (meson in_set_dropD in_set_takeD)
  then show ?thesis using None f by (simp add: page_children_def Let_def keys_def [symmetric] all' take_map drop_map)
qed

lemma children_of_all:
  "all_children symlink i c = Some all \<Longrightarrow> length all \<le> usize_max \<Longrightarrow> children_of symlink i c = Some all"
  by (simp add: children_of_def page_of_all)

text \<open>
  Whatever the requested window, a page is that slice of the whole list of children, and the total
  sent with it is the length of the whole list, clamped to 32 bits.
\<close>
theorem page_is_slice:
  assumes "all_children symlink i c = Some all" "length all \<le> usize_max"
  shows "page_children symlink i start n c = Some (take n (drop start all), min (length all) 4294967295) \<and>
    children_of symlink i c = Some all"
  using page_of_all [OF assms] children_of_all [OF assms] by (simp add: catalog_count_def u32_max_def)

definition small_catalog :: catalog where
  "small_catalog = link_child ''64'' ''64$1'' (add_container ''64$1'' ''64'' ''b'' ''c'' True
     (link_child ''64'' ''64$0'' (add_container ''64$0'' ''64'' ''A'' ''c'' True
       (add_container ''64'' ''0'' ''Folders'' ''c'' True empty_catalog))))"

lemma page_is_slice_witness:
  "map_option (map_option child_id \<circ> (\<lambda>(p, _). case p of [ch] \<Rightarrow> Some ch | _ \<Rightarrow> None))
     (page_children (\<lambda>_. False) ''64'' 1 5 small_catalog) = Some (Some ''64$1'')"
proof -
  let ?all = "[ContainerChild \<lparr>ct_object_id = ''64$0'', ct_parent_id = ''64'', ct_title = ''A'', ct_class = ''c'', ct_children = [], ct_searchable = True\<rparr>,
    ContainerChild \<lparr>ct_object_id = ''64$1'', ct_parent_id = ''64'', ct_title = ''b'', ct_class = ''c'', ct_children = [], ct_searchable = True\<rparr>]"
  have "all_children (\<lambda>_. False) ''64'' small_catalog = Some ?all" by code_simp
  moreover have "length ?all \<le> usize_max" by (simp add: usize_max_def u64_max_def)
  ultimately show ?thesis using page_is_slice [of "\<lambda>_. False" "''64''" small_catalog ?all 1 5] by simp
qed

text \<open>The list itself: the existing children, folders first, each group by title.\<close>

definition child_order :: "catalog_child \<Rightarrow> bool \<times> string" where
  "child_order ch =
     (case ch of ContainerChild f \<Rightarrow> (False, ascii_lower (ct_title f)) | ItemChild it \<Rightarrow> (True, ascii_lower (it_title it)))"

lemma child_key_ids: "map (snd \<circ> snd) (List.map_filter (child_key c) chs) = filter (child_exists c) chs"
  by (induction chs) (auto simp: List.map_filter_simps child_key_def child_exists_def split: option.splits)

lemma child_of_key_facts:
  assumes ok: "catalog_ok c" and k: "k \<in> set (List.map_filter (child_key c) chs)"
  shows "child_id (the (child_of_key c k)) = snd (snd k)" "child_order (the (child_of_key c k)) = key_order k"
proof -
  have f: "find_container c i = Some f \<Longrightarrow> ct_object_id f = i" for i f
    using ok by (simp add: catalog_ok_def tree_ok_def)
  have it: "find_item c i = Some it \<Longrightarrow> it_object_id it = i" for i it
    using ok by (simp add: catalog_ok_def tree_ok_def)
  show "child_id (the (child_of_key c k)) = snd (snd k)" "child_order (the (child_of_key c k)) = key_order k"
    using k f it
    by (auto simp: set_map_filter child_key_def child_of_key_def key_order_def child_order_def split: option.splits)
qed

text \<open>
  In every catalogue reached by the program, the children of a container are exactly its listed ids
  that exist, in order of folders before items and of titles without regard to ASCII case.
\<close>
theorem children_sorted:
  assumes "catalog_step\<^sup>*\<^sup>* catalog_new c" "find_container c i = Some f" "recent_root i = None"
  shows "\<exists>all. all_children symlink i c = Some all \<and> sorted (map child_order all) \<and>
    mset (map child_id all) = mset (filter (child_exists c) (ct_children f)) \<and> distinct (map child_id all)"
proof -
  have ok: "catalog_ok c" by (rule catalogs.reachable_inv [OF refl assms(1)])
  define keys where "keys = List.map_filter (child_key c) (ct_children f)"
  define all where "all = map (the \<circ> child_of_key c) (sort_key key_order keys)"
  have facts: "child_id (the (child_of_key c k)) = snd (snd k)" "child_order (the (child_of_key c k)) = key_order k"
    if "k \<in> set keys" for k
    using child_of_key_facts [OF ok, of k "ct_children f"] that by (simp_all add: keys_def)
  have "all_children symlink i c = Some all"
    using assms by (simp add: all_children_def all_def keys_def)
  moreover have "map child_order all = map key_order (sort_key key_order keys)"
    unfolding all_def using facts by simp
  then have "sorted (map child_order all)" by simp
  moreover have "mset (map child_id all) = mset (filter (child_exists c) (ct_children f))"
  proof -
    have "map child_id all = map (snd \<circ> snd) (sort_key key_order keys)" unfolding all_def using facts by simp
    then have "mset (map child_id all) = mset (map (snd \<circ> snd) keys)" by (simp only: mset_map mset_sort)
    then show ?thesis by (simp only: keys_def child_key_ids)
  qed
  moreover have "distinct (ct_children f)" using ok assms(2) by (simp add: catalog_ok_def tree_ok_def)
  then have "distinct (filter (child_exists c) (ct_children f))" by simp
  ultimately show ?thesis by (metis mset_eq_imp_distinct_iff)
qed

lemma children_sorted_witness:
  "\<exists>all. all_children (\<lambda>_. True) ''0'' catalog_new = Some all \<and> sorted (map child_order all)"
proof -
  have "find_container catalog_new ''0'' \<noteq> None" by code_simp
  then obtain f where "find_container catalog_new ''0'' = Some f" by blast
  moreover have "recent_root ''0'' = None" by (simp add: recent_root_def object_id_defs)
  ultimately show ?thesis using children_sorted [OF rtranclp.rtrancl_refl, of "''0''" f "\<lambda>_. True"] by blast
qed

end
