(* ===== verification/Query_Memory.thy ===== *)
theory Query_Memory
  imports Query_Control Catalog_Views Soap_Filter_Sort Soap_Search
begin

text \<open>
  Answering Browse and Search from the catalogue in memory (\<open>crates/server/src/catalog_query.rs\<close>): the
  order of a page's rows, the rows a search inspects, the scope of a search, and the pages cut from the
  sorted rows. Reads of the catalogue take the query control, as do the checked views of
  \<open>crates/scan/src/catalog.rs\<close> when they are called with it.
\<close>

subsection \<open>The order of rows\<close>

definition cmp_of :: "'a::linorder \<Rightarrow> 'a \<Rightarrow> comp" where
  "cmp_of a b = (if a < b then Less else if b < a then Greater else Equiv)"

fun reverse_ordering :: "comp \<Rightarrow> comp" where
  "reverse_ordering Less = Greater"
| "reverse_ordering Equiv = Equiv"
| "reverse_ordering Greater = Less"

definition cmp_ci :: "string \<Rightarrow> string \<Rightarrow> comp" where
  "cmp_ci a b = cmp_of (ascii_lower a) (ascii_lower b)"

fun child_object_id :: "catalog_child \<Rightarrow> string" where
  "child_object_id (ContainerChild f) = ct_object_id f"
| "child_object_id (ItemChild it) = it_object_id it"

fun is_folder :: "catalog_child \<Rightarrow> bool" where
  "is_folder (ContainerChild _) = True"
| "is_folder (ItemChild _) = False"

fun child_title :: "catalog_child \<Rightarrow> string" where
  "child_title (ContainerChild f) = ct_title f"
| "child_title (ItemChild it) = it_title it"

fun child_class :: "catalog_child \<Rightarrow> string" where
  "child_class (ContainerChild f) = ct_class f"
| "child_class (ItemChild it) = it_class it"

fun child_date :: "catalog_child \<Rightarrow> string" where
  "child_date (ContainerChild _) = []"
| "child_date (ItemChild it) = it_date it"

definition text_or_empty :: "string option \<Rightarrow> string" where
  "text_or_empty v = (case v of Some s \<Rightarrow> s | None \<Rightarrow> [])"

definition number_or_zero :: "int option \<Rightarrow> int" where
  "number_or_zero v = (case v of Some n \<Rightarrow> n | None \<Rightarrow> 0)"

fun child_album :: "catalog_child \<Rightarrow> string" where
  "child_album (ContainerChild _) = []"
| "child_album (ItemChild it) = text_or_empty (it_album it)"

fun child_disc :: "catalog_child \<Rightarrow> int" where
  "child_disc (ContainerChild _) = 0"
| "child_disc (ItemChild it) = number_or_zero (it_disc it)"

fun child_track :: "catalog_child \<Rightarrow> int" where
  "child_track (ContainerChild _) = 0"
| "child_track (ItemChild it) = number_or_zero (it_track it)"

definition cmp_sort_key :: "catalog_child \<Rightarrow> catalog_child \<Rightarrow> sort_key \<Rightarrow> comp" where
  "cmp_sort_key a b k =
     (case k of
        SortTitle \<Rightarrow> cmp_ci (child_title a) (child_title b)
      | SortDate \<Rightarrow> cmp_of (child_date a) (child_date b)
      | SortClass \<Rightarrow> cmp_ci (child_class a) (child_class b)
      | SortAlbum \<Rightarrow> cmp_ci (child_album a) (child_album b)
      | SortEpisodeNumber \<Rightarrow> cmp_of (child_track a) (child_track b)
      | SortTrack \<Rightarrow> cmp_of (child_track a) (child_track b))"

fun cmp_specs :: "catalog_child \<Rightarrow> catalog_child \<Rightarrow> sort_spec list \<Rightarrow> comp" where
  "cmp_specs a b [] = Equiv"
| "cmp_specs a b (spec # specs) =
     (let ord = cmp_sort_key a b (ss_key spec);
          ord = (if ss_descending spec then reverse_ordering ord else ord)
      in if ord \<noteq> Equiv then ord else cmp_specs a b specs)"

definition cmp_default :: "catalog_child \<Rightarrow> catalog_child \<Rightarrow> default_order \<Rightarrow> comp" where
  "cmp_default a b d =
     (case d of
        FoldersFirstOrder \<Rightarrow>
          (if is_folder a \<and> \<not> is_folder b then Less
           else if \<not> is_folder a \<and> is_folder b then Greater
           else cmp_ci (child_title a) (child_title b))
      | LgOrder \<Rightarrow>
          (let c = cmp_ci (child_class a) (child_class b)
           in if c \<noteq> Equiv then c else cmp_ci (child_title a) (child_title b))
      | ForceSortOrder \<Rightarrow>
          (let c = cmp_ci (child_class a) (child_class b)
           in if c \<noteq> Equiv then c
              else let c = cmp_of (child_disc a) (child_disc b)
                in if c \<noteq> Equiv then c
                   else let c = cmp_of (child_track a) (child_track b)
                     in if c \<noteq> Equiv then c else cmp_ci (child_title a) (child_title b)))"

definition cmp_children :: "sort_spec list \<Rightarrow> default_order \<Rightarrow> catalog_child \<Rightarrow> catalog_child \<Rightarrow> comp" where
  "cmp_children specs d a b =
     (let primary = (if specs \<noteq> [] then cmp_specs a b specs else cmp_default a b d)
      in if primary = Equiv then cmp_of (child_object_id a) (child_object_id b) else primary)"

subsection \<open>Checked views of the catalogue\<close>

fun q_cached_items :: "catalog \<Rightarrow> nat \<Rightarrow> string list \<Rightarrow> (nat \<times> media_item list) query" where
  "q_cached_items c visited [] = q_ret (visited, [])"
| "q_cached_items c visited (i # is) =
     (let v = saturating_add usize_max visited 1
      in q_bind (check_work_items v) (\<lambda>_.
         q_bind (q_cached_items c v is) (\<lambda>(w, its).
         q_ret (w, case find_item c i of Some it \<Rightarrow> it # its | None \<Rightarrow> its))))"

fun q_rank_items ::
  "(string \<Rightarrow> bool) \<Rightarrow> int option \<Rightarrow> string \<Rightarrow> nat \<Rightarrow> nat \<Rightarrow> media_item list \<Rightarrow>
     ranked \<times> identities \<Rightarrow> (nat \<times> ranked) query" where
  "q_rank_items symlink cutoff class_pat limit visited [] st = q_ret (visited, fst st)"
| "q_rank_items symlink cutoff class_pat limit visited (it # its) st =
     (let v = saturating_add usize_max visited 1
      in q_bind (check_work_items v) (\<lambda>_.
         q_rank_items symlink cutoff class_pat limit v its
           (if recent_item_is_eligible cutoff class_pat it then rank_step symlink limit it st else st)))"

fun q_emit_recent :: "string \<Rightarrow> nat \<Rightarrow> media_item list \<Rightarrow> catalog_child list query" where
  "q_emit_recent root visited [] = q_ret []"
| "q_emit_recent root visited (it # its) =
     (let v = saturating_add usize_max visited 1
      in q_bind (check_work_items v) (\<lambda>_.
         q_bind (q_emit_recent root v its) (\<lambda>out. q_ret (recent_clone root (it_object_id it) it # out))))"

definition q_recent_items :: "(string \<Rightarrow> bool) \<Rightarrow> string \<Rightarrow> catalog \<Rightarrow> catalog_child list query" where
  "q_recent_items symlink root c =
     q_bind (check_work_items 0) (\<lambda>_.
     q_bind (if root = VIDEO_RECENT_ID \<and> cat_recent_ids c \<noteq> [] then q_cached_items c 0 (cat_recent_ids c)
             else q_bind (q_rank_items symlink (cat_recent_cutoff_unix c) (recent_class root) (cat_recent_limit c) 0
                            (map snd (cat_items c)) ([], Map.empty)) (\<lambda>(v, ranked). q_ret (v, map snd ranked)))
       (\<lambda>(v, selected). q_emit_recent root v selected))"

fun q_count_checked ::
  "(media_item \<Rightarrow> bool) \<Rightarrow> nat \<Rightarrow> nat \<Rightarrow> (nat \<times> nat) list \<Rightarrow> media_item list \<Rightarrow> nat query" where
  "q_count_checked elig limit index seen [] = q_ret (length seen)"
| "q_count_checked elig limit index seen (it # its) =
     q_bind (check_work_items (saturating_add usize_max index 1)) (\<lambda>_.
       if elig it then
         (let seen' = List.insert (physical_identity_key it) seen
          in if length seen' = limit then q_ret (length seen')
             else q_count_checked elig limit (Suc index) seen' its)
       else q_count_checked elig limit (Suc index) seen its)"

definition q_displayed_child_count :: "string \<Rightarrow> catalog \<Rightarrow> nat query" where
  "q_displayed_child_count i c =
     q_bind (check_work_items 0) (\<lambda>_.
       if recent_root i = None then
         q_ret (case find_container c i of Some f \<Rightarrow> catalog_count (length (ct_children f)) | None \<Rightarrow> 0)
       else if i = VIDEO_RECENT_ID \<and> cat_recent_ids c \<noteq> [] then q_ret (catalog_count (length (cat_recent_ids c)))
       else q_bind (q_count_checked (recent_item_is_eligible (cat_recent_cutoff_unix c) (recent_class i))
                      (cat_recent_limit c) 0 [] (map snd (cat_items c))) (\<lambda>n. q_ret (catalog_count n)))"

fun q_count_containers :: "catalog \<Rightarrow> nat \<Rightarrow> nat \<Rightarrow> string list \<Rightarrow> nat query" where
  "q_count_containers c index n [] = q_ret n"
| "q_count_containers c index n (ch # chs) =
     q_bind (check_work_items (saturating_add usize_max index 1)) (\<lambda>_.
       q_count_containers c (Suc index) (n + (if find_container c ch \<noteq> None then 1 else 0)) chs)"

definition q_displayed_container_count :: "string \<Rightarrow> catalog \<Rightarrow> nat query" where
  "q_displayed_container_count i c =
     q_bind (check_work_items 0) (\<lambda>_.
       if recent_root i \<noteq> None then q_ret 0
       else case find_container c i of
              Some f \<Rightarrow> q_bind (q_count_containers c 0 0 (ct_children f)) (\<lambda>n. q_ret (catalog_count n))
            | None \<Rightarrow> q_ret (catalog_count 0))"

subsection \<open>Pages of children\<close>

definition child_by_id :: "catalog \<Rightarrow> string \<Rightarrow> catalog_child option" where
  "child_by_id c i =
     (case find_container c i of
        Some f \<Rightarrow> Some (ContainerChild f)
      | None \<Rightarrow> map_option ItemChild (find_item c i))"

text \<open>A reference to a row is a tag and a pointer; the size of an owned row is left open.\<close>

definition REF_BYTES :: nat where "REF_BYTES = 16"

fun collect_children :: "catalog \<Rightarrow> string list \<Rightarrow> catalog_child list \<Rightarrow> catalog_child list query" where
  "collect_children c [] refs = q_ret refs"
| "collect_children c (i # is) refs =
     q_bind q_check (\<lambda>_.
       case child_by_id c i of
         None \<Rightarrow> collect_children c is refs
       | Some ch \<Rightarrow>
           q_bind (check_work_items (saturating_add usize_max (length refs) 1)) (\<lambda>_.
             collect_children c is (refs @ [ch])))"

text \<open>The outer option is \<open>None\<close> for an unknown container; a stopped query is an error here and \<open>None\<close> too in the caller.\<close>

definition sorted_child_page ::
  "(string \<Rightarrow> bool) \<Rightarrow> nat \<Rightarrow> catalog \<Rightarrow> string \<Rightarrow> nat \<Rightarrow> nat \<Rightarrow> sort_spec list \<Rightarrow> default_order \<Rightarrow>
     (catalog_child list \<times> nat) option query" where
  "sorted_child_page symlink child_bytes c i start n specs d =
     q_bind q_check (\<lambda>_.
       if recent_root i \<noteq> None then
         q_bind (q_recent_items symlink i c) (\<lambda>recent.
         q_bind (if specs \<noteq> [] \<or> d \<noteq> FoldersFirstOrder
                 then controlled_sort_by child_bytes (cmp_children specs d) recent else q_ret recent) (\<lambda>rows.
         q_ret (Some (take n (drop start rows), catalog_count (length recent)))))
       else
         case find_container c i of
           None \<Rightarrow> q_ret None
         | Some f \<Rightarrow>
             q_bind (check_work_items (length (ct_children f))) (\<lambda>_.
             q_bind (collect_children c (ct_children f) []) (\<lambda>refs.
             q_bind (controlled_sort_by REF_BYTES (cmp_children specs d) refs) (\<lambda>rows.
             q_ret (Some (take n (drop start rows), catalog_count (length rows)))))))"

section \<open>Search\<close>

text \<open>
  Search in memory (\<open>crates/server/src/catalog_query.rs\<close>): the rows of the catalogue that lie under the
  search's container and match its criteria, sorted, cut to a page and rendered; and the use of a page
  that the database answered, which counts only for the generation of the catalogue it was read in.
\<close>

subsection \<open>Rows\<close>

definition container_search_row :: "folder \<Rightarrow> search_row" where
  "container_search_row f =
     \<lparr>row_title = ct_title f, row_creator = [], row_date = [], row_class = ct_class f, row_artist = [],
      row_genre = [], row_album = [], row_actor = [], row_id = ct_object_id f, row_parent_id = ct_parent_id f,
      row_ref_id = None, row_is_container = True\<rparr>"

definition item_search_row :: "media_item \<Rightarrow> search_row" where
  "item_search_row it =
     \<lparr>row_title = it_title it, row_creator = text_or_empty (it_creator it), row_date = it_date it,
      row_class = it_class it, row_artist = text_or_empty (it_artist it), row_genre = text_or_empty (it_genre it),
      row_album = text_or_empty (it_album it), row_actor = [], row_id = it_object_id it,
      row_parent_id = it_parent_id it, row_ref_id = it_ref_id it, row_is_container = False\<rparr>"

subsection \<open>Scope\<close>

datatype search_scope = ScopeAll | ScopeIds "string list"

text \<open>
  The children of one folder are pushed one by one; the result says whether the control let all of them
  in. The stack is a list with its top first.
\<close>

fun push_children :: "nat \<Rightarrow> nat \<Rightarrow> nat \<Rightarrow> string list \<Rightarrow> unit query" where
  "push_children index inserted stacked [] = q_ret ()"
| "push_children index inserted stacked (ch # chs) =
     q_bind (check_every_256 index) (\<lambda>_.
     q_bind (check_work_items (saturating_add usize_max (saturating_add usize_max inserted stacked) 1)) (\<lambda>_.
     push_children (Suc index) inserted (Suc stacked) chs))"

definition all_children :: "catalog \<Rightarrow> string set" where
  "all_children c = (\<Union>f \<in> snd ` set (cat_containers c). set (ct_children f))"

lemma finite_all_children [simp]: "finite (all_children c)"
  by (simp add: all_children_def)

lemma children_subset: "find_container c i = Some f \<Longrightarrow> set (ct_children f) \<subseteq> all_children c"
  by (force simp: all_children_def dest: map_of_SomeD)

definition folder_children :: "catalog \<Rightarrow> string \<Rightarrow> string list" where
  "folder_children c i = (case find_container c i of Some f \<Rightarrow> ct_children f | None \<Rightarrow> [])"

lemma folder_children_subset: "set (folder_children c i) \<subseteq> all_children c"
  by (cases "find_container c i") (use children_subset in \<open>auto simp: folder_children_def\<close>)

text \<open>
  A stop ends the walk with the identifiers found so far. The control is final, so the caller's next
  check fails and the partial scope is never used.
\<close>

function scope_walk :: "catalog \<Rightarrow> string list \<Rightarrow> string list \<Rightarrow> string list query" where
  "scope_walk c [] out = q_ret out"
| "scope_walk c (i # stack) out =
     q_bind (q_ok (q_bind q_check (\<lambda>_.
               check_work_items (saturating_add usize_max (saturating_add usize_max (length out) (length stack)) 1))))
       (\<lambda>ok.
         if ok = None then q_ret out
         else if i \<in> set out then scope_walk c stack out
         else
           q_bind (q_ok (push_children 0 (length out + 1) (length stack) (folder_children c i))) (\<lambda>ok.
             if ok = None then q_ret (out @ [i])
             else scope_walk c (rev (folder_children c i) @ stack) (out @ [i])))"
  by pat_completeness auto
termination
proof (relation "measures [\<lambda>(c, stack, out). card ((set stack \<union> all_children c) - set out), \<lambda>(c, stack, out). length stack]",
    goal_cases)
  case 1
  then show ?case by simp
next
  case (2 c i stack out ok)
  have "(set stack \<union> all_children c) - set out \<subseteq> (set (i # stack) \<union> all_children c) - set out" by auto
  then have "card ((set stack \<union> all_children c) - set out) \<le> card ((set (i # stack) \<union> all_children c) - set out)"
    by (intro card_mono) auto
  then show ?case by auto
next
  case (3 c i stack out ok ok')
  have "(set (rev (folder_children c i) @ stack) \<union> all_children c) - set (out @ [i])
      \<subset> (set (i # stack) \<union> all_children c) - set out"
    using 3 folder_children_subset [of c i] by auto
  then have "card ((set (rev (folder_children c i) @ stack) \<union> all_children c) - set (out @ [i]))
      < card ((set (i # stack) \<union> all_children c) - set out)"
    by (intro psubset_card_mono) auto
  then show ?case by simp
qed

definition search_scope_of :: "catalog \<Rightarrow> string \<Rightarrow> search_scope query" where
  "search_scope_of c root =
     (if root = [] \<or> root = ROOT_ID then q_ret ScopeAll
      else case find_container c root of
             None \<Rightarrow> q_ret (ScopeIds [])
           | Some _ \<Rightarrow> q_bind (scope_walk c [root] []) (\<lambda>out. q_ret (ScopeIds out)))"

fun scope_contains :: "search_scope \<Rightarrow> string \<Rightarrow> bool" where
  "scope_contains ScopeAll i = True"
| "scope_contains (ScopeIds ids) i = (i \<in> set ids)"

definition item_in_scope :: "media_item \<Rightarrow> search_scope \<Rightarrow> bool" where
  "item_in_scope it s \<longleftrightarrow>
     scope_contains s (it_object_id it) \<or> scope_contains s (it_parent_id it) \<or>
     (case it_ref_id it of Some r \<Rightarrow> scope_contains s r | None \<Rightarrow> False)"

subsection \<open>Hits\<close>

fun container_hits ::
  "(string \<Rightarrow> string) \<Rightarrow> search_clause list list \<Rightarrow> search_scope \<Rightarrow> nat \<Rightarrow> catalog_child list \<Rightarrow> folder list \<Rightarrow>
     catalog_child list query" where
  "container_hits lc q scope visited hits [] = q_ret hits"
| "container_hits lc q scope visited hits (f # fs) =
     q_bind (check_work_items (saturating_add usize_max visited 1)) (\<lambda>_.
       if ct_object_id f = ROOT_ID \<or> \<not> scope_contains scope (ct_object_id f)
       then container_hits lc q scope (Suc visited) hits fs
       else if row_matches lc q (container_search_row f)
       then q_bind (check_work_items (saturating_add usize_max (length hits) 1)) (\<lambda>_.
              container_hits lc q scope (Suc visited) (hits @ [ContainerChild f]) fs)
       else container_hits lc q scope (Suc visited) hits fs)"

fun item_hits ::
  "(string \<Rightarrow> string) \<Rightarrow> search_clause list list \<Rightarrow> search_scope \<Rightarrow> nat \<Rightarrow> nat \<Rightarrow> catalog_child list \<Rightarrow>
     media_item list \<Rightarrow> catalog_child list query" where
  "item_hits lc q scope containers visited hits [] = q_ret hits"
| "item_hits lc q scope containers visited hits (it # its) =
     q_bind (check_work_items (saturating_add usize_max (saturating_add usize_max containers visited) 1)) (\<lambda>_.
       if item_in_scope it scope \<and> row_matches lc q (item_search_row it)
       then q_bind (check_work_items (saturating_add usize_max (length hits) 1)) (\<lambda>_.
              item_hits lc q scope containers (Suc visited) (hits @ [ItemChild it]) its)
       else item_hits lc q scope containers (Suc visited) hits its)"

text \<open>The rows of a page are rendered as long as the control lets the next one through.\<close>

fun render_rows :: "(catalog_child \<Rightarrow> 'd query) \<Rightarrow> catalog_child list \<Rightarrow> 'd list query" where
  "render_rows render [] = q_ret []"
| "render_rows render (ch # chs) =
     q_bind (q_ok q_check) (\<lambda>ok.
       if ok = None then q_ret []
       else q_bind (render ch) (\<lambda>d. q_bind (render_rows render chs) (\<lambda>ds. q_ret (d # ds))))"

definition search_hits ::
  "(string \<Rightarrow> string) \<Rightarrow> catalog \<Rightarrow> string \<Rightarrow> search_clause list list \<Rightarrow> sort_spec list \<Rightarrow> default_order \<Rightarrow>
     catalog_child list query" where
  "search_hits lc c root q specs d =
     q_bind q_check (\<lambda>_.
     q_bind (search_scope_of c root) (\<lambda>scope.
     q_bind (container_hits lc q scope 0 [] (map snd (cat_containers c))) (\<lambda>hits.
     q_bind (item_hits lc q scope (length (cat_containers c)) 0 hits (map snd (cat_items c))) (\<lambda>hits.
     controlled_sort_by REF_BYTES (cmp_children specs d) hits))))"

definition search_memory_page ::
  "(string \<Rightarrow> string) \<Rightarrow> (catalog_child \<Rightarrow> 'd query) \<Rightarrow> catalog \<Rightarrow> string \<Rightarrow> search_clause list list \<Rightarrow>
     sort_spec list \<Rightarrow> default_order \<Rightarrow> nat \<Rightarrow> nat \<Rightarrow> ('d list \<times> nat) query" where
  "search_memory_page lc render c root q specs d start n =
     q_bind (q_ok (search_hits lc c root q specs d)) (\<lambda>found.
       case found of
         None \<Rightarrow> q_ret ([], 0)
       | Some hits \<Rightarrow>
           q_bind (render_rows render (take n (drop start hits))) (\<lambda>page. q_ret (page, catalog_count (length hits))))"

subsection \<open>Pages the database answered\<close>

record query_page =
  pg_object_ids :: "string list"
  pg_total :: nat
  pg_population :: nat

record query_snapshot =
  sn_generation :: "32 word"
  sn_page :: query_page

definition catalog_population :: "catalog \<Rightarrow> nat" where
  "catalog_population c =
     catalog_count (saturating_add usize_max (length (cat_containers c)) (length (cat_items c)) - 1)"

definition materialize_db_page :: "catalog \<Rightarrow> query_page \<Rightarrow> catalog_child list option" where
  "materialize_db_page c p =
     (if pg_population p \<noteq> catalog_population c then None
      else those (map (child_by_id c) (pg_object_ids p)))"

text \<open>
  One attempt reads the published update id, asks the database and reads the id again. The two ids and
  the database's answer come from outside; \<open>Inl ()\<close> means that the attempt has to be repeated.
\<close>

record attempt =
  at_before :: "32 word"
  at_answer :: "query_snapshot option"
  at_after :: "32 word"

definition snapshot_once :: "attempt \<Rightarrow> (unit + query_snapshot option) query" where
  "snapshot_once a =
     q_bind (q_ok q_check) (\<lambda>ok.
       if ok = None then q_ret (Inl ())
       else q_bind (q_ok q_check) (\<lambda>ok.
         if ok = None then q_ret (Inl ())
         else case at_answer a of
           None \<Rightarrow> q_ret (Inr None)
         | Some s \<Rightarrow>
             q_ret (if at_before a = sn_generation s \<and> sn_generation s = at_after a
                    then Inr (Some s) else Inl ())))"

fun snapshot_attempts :: "nat \<Rightarrow> (nat \<Rightarrow> attempt) \<Rightarrow> nat \<Rightarrow> (unit + query_snapshot option) query" where
  "snapshot_attempts 0 world attempt = q_ret (Inl ())"
| "snapshot_attempts (Suc left) world attempt =
     q_bind (q_ok q_check) (\<lambda>ok.
       if ok = None then q_ret (Inl ())
       else q_bind (snapshot_once (world attempt)) (\<lambda>r.
         case r of Inr s \<Rightarrow> q_ret (Inr s) | Inl _ \<Rightarrow> snapshot_attempts left world (Suc attempt)))"

definition query_stable_catalog_snapshot :: "(nat \<Rightarrow> attempt) \<Rightarrow> (unit + query_snapshot option) query" where
  "query_stable_catalog_snapshot world = snapshot_attempts 3 world 0"

end
