(* ===== verification/Soap_Dispatch.thy ===== *)
theory Soap_Dispatch
  imports Object_Ids Soap_Xml Browse_Response Media_Formats Clients
begin

text \<open>
  The catalogue-independent SOAP actions (\<open>crates/soap/src/lib.rs\<close>), the UPnP faults
  and the rewriting of renderer-specific object ids.
\<close>

subsection \<open>Outcomes\<close>

datatype soap_outcome =
  OkBody string
| Fault (fault_http: nat) (fault_code: nat) (fault_desc: string)

definition fault401 :: soap_outcome where "fault401 = Fault 500 401 ''Invalid Action''"
definition fault402 :: soap_outcome where "fault402 = Fault 500 402 ''Invalid Args''"
definition fault404 :: soap_outcome where "fault404 = Fault 500 404 ''Invalid Var''"
definition fault501 :: soap_outcome where "fault501 = Fault 500 501 ''Action Failed''"
definition fault701 :: soap_outcome where "fault701 = Fault 500 701 ''No such object error''"
definition fault702 :: soap_outcome where "fault702 = Fault 500 702 ''Invalid CurrentTagValue''"
definition fault703 :: soap_outcome where "fault703 = Fault 500 703 ''Invalid NewTagValue''"
definition fault705 :: soap_outcome where "fault705 = Fault 500 705 ''Read Only Tag''"
definition fault706 :: soap_outcome where "fault706 = Fault 500 706 ''Parameter Mismatch''"
definition fault708 :: soap_outcome where "fault708 = Fault 500 708 ''Unsupported or invalid search criteria''"
definition fault709 :: soap_outcome where "fault709 = Fault 500 709 ''Unsupported or invalid sort criteria''"

lemmas fault_defs = fault401_def fault402_def fault404_def fault501_def fault701_def fault702_def
  fault703_def fault705_def fault706_def fault708_def fault709_def

subsection \<open>Renderer adaptations\<close>

definition apply_title_hack :: "string \<Rightarrow> string \<Rightarrow> client_profile \<Rightarrow> bool \<Rightarrow> string" where
  "apply_title_hack title ext c has_captions =
     (if cp_kind c \<in> {LgKind, LgNetCastKind} \<and> has_captions then title @ ''.''
      else if cp_kind c = AsusOPlayKind \<and> has_captions then take_chars 23 title
      else if cp_kind c = HyundaiTvKind then title @ ''.'' @ ext
      else title)"

definition starts_any :: "string option \<Rightarrow> string list \<Rightarrow> bool" where
  "starts_any pn pats = (case pn of None \<Rightarrow> False | Some p \<Rightarrow> list_ex (\<lambda>q. prefix q p) pats)"

definition extra_ci1_protocol_infos ::
  "client_kind \<Rightarrow> string \<Rightarrow> string option \<Rightarrow> (string \<times> string) list" where
  "extra_ci1_protocol_infos kind mime pn =
     (if kind = ToshibaTvKind then
        (if starts_any pn [''MPEG_TS_HD_NA'', ''MPEG_TS_SD_NA'', ''AVC_TS_MP_HD_AC3'', ''AVC_TS_HP_HD_AC3'']
         then [(mime, ''DLNA.ORG_PN=MPEG_PS_NTSC;DLNA.ORG_OP=01;DLNA.ORG_CI=1'')] else [])
      else if kind = SonyBdpKind then
        (if starts_any pn [''AVC_TS'', ''MPEG_TS''] then
           (if starts_any pn [''MPEG_TS_SD_NA''] then []
            else [(mime, ''DLNA.ORG_PN=MPEG_TS_SD_NA;DLNA.ORG_OP=01;DLNA.ORG_CI=1'')]) @
           (if starts_any pn [''MPEG_TS_SD_EU''] then []
            else [(mime, ''DLNA.ORG_PN=MPEG_TS_SD_EU;DLNA.ORG_OP=01;DLNA.ORG_CI=1'')])
         else
           let rest = (case strip_prefix ''video/'' mime of Some r \<Rightarrow> r | None \<Rightarrow> mime)
           in if starts_any pn [''AVC_MP4'', ''MPEG4_P2_MP4''] \<or>
                 rest \<in> {''x-matroska'', ''x-mkv'', ''x-msvideo'', ''mpeg''}
              then
                (if starts_any pn [''MPEG_PS_NTSC''] then []
                 else [(''video/avi'', ''DLNA.ORG_PN=MPEG_PS_NTSC;DLNA.ORG_OP=01;DLNA.ORG_CI=1'')]) @
                (if starts_any pn [''MPEG_PS_PAL''] then []
                 else [(''video/avi'', ''DLNA.ORG_PN=MPEG_PS_PAL;DLNA.ORG_OP=01;DLNA.ORG_CI=1'')])
              else [])
      else if kind = SonyBraviaKind then
        (case pn of
           None \<Rightarrow> []
         | Some p \<Rightarrow>
             if starts_any pn [''AVC_TS_MP_SD_AC3'', ''AVC_TS_MP_HD_AC3'', ''AVC_TS_HP_HD_AC3'']
             then [(mime, ''DLNA.ORG_PN=AVC_TS_HD_50_AC3'' @ (if length p > 16 then drop 16 p else []))]
             else [])
      else [])"

definition feature_list_ids :: "client_profile \<Rightarrow> string option \<Rightarrow> string list" where
  "feature_list_ids c root_container =
     (let rc = non_empty (map_option trim root_container)
      in if (case rc of Some r \<Rightarrow> r \<noteq> BROWSEDIR_ID \<and> r \<noteq> ''64'' | None \<Rightarrow> False)
         then
           let r = (case rc of Some r \<Rightarrow> r | None \<Rightarrow> []);
               one = (if r \<in> {''V'', ''v'', ''2''} then VIDEO_ID else if r \<in> {''A'', ''1''} then MUSIC_ID
                      else if r \<in> {''I'', ''3''} then IMAGE_ID else r)
           in [one, one, one]
         else if contains (cp_flags c) F_SAMSUNG_DCM10 \<and>
                 (case rc of Some s \<Rightarrow> s = BROWSEDIR_ID \<or> s = ''64'' | None \<Rightarrow> True)
         then (if rc = Some BROWSEDIR_ID \<or> rc = Some ''64'' then [''1$14'', ''2$15'', ''3$16'']
               else [''A'', ''V'', ''I''])
         else if rc = Some BROWSEDIR_ID \<or> rc = Some ''64'' then [''1$14'', ''2$15'', ''3$16'']
         else [MUSIC_ID, VIDEO_ID, IMAGE_ID])"

definition feature_list_xml :: "string list \<Rightarrow> string" where
  "feature_list_xml ids =
     ''<Features xmlns='' @ dq @ ''urn:schemas-upnp-org:av:avs'' @ dq @
     '' xmlns:sec='' @ dq @ ''http://www.sec.co.kr/dlna'' @ dq @ ''>'' @
     ''<Feature name='' @ dq @ ''samsung.com_BASICVIEW'' @ dq @ '' version='' @ dq @ ''1'' @ dq @ ''>'' @
     ''<container id='' @ dq @ ids ! 0 @ dq @ '' type='' @ dq @ ''object.item.audioItem'' @ dq @ ''/>'' @
     ''<container id='' @ dq @ ids ! 1 @ dq @ '' type='' @ dq @ ''object.item.videoItem'' @ dq @ ''/>'' @
     ''<container id='' @ dq @ ids ! 2 @ dq @ '' type='' @ dq @ ''object.item.imageItem'' @ dq @ ''/>'' @
     ''</Feature></Features>''"

definition PFS_MAP :: "(string \<times> string) list" where
  "PFS_MAP =
     [(''D2'', IMAGE_CAMERA_ID), (''14'', MUSIC_DIR_ID), (''15'', VIDEO_DIR_ID), (''16'', IMAGE_DIR_ID),
      (''4'', MUSIC_ALL_ID), (''5'', MUSIC_GENRE_ID), (''6'', MUSIC_ARTIST_ID), (''7'', MUSIC_ALBUM_ID),
      (''8'', VIDEO_ALL_ID), (''B'', IMAGE_ALL_ID), (''C'', IMAGE_DATE_ID), (''F'', MUSIC_PLIST_ID)]"

fun rewrite_pfs :: "(string \<times> string) list \<Rightarrow> string \<Rightarrow> string option" where
  "rewrite_pfs [] oid = None"
| "rewrite_pfs ((short, real) # rows) oid =
     (if oid = short then Some real
      else case strip_prefix (short @ ''$'') oid of
             Some tail \<Rightarrow> Some (real @ ''$'' @ tail)
           | None \<Rightarrow> rewrite_pfs rows oid)"

definition rewrite_pfs_child :: "string \<Rightarrow> string option" where
  "rewrite_pfs_child oid = rewrite_pfs PFS_MAP oid"

definition magic_object_id :: "string \<Rightarrow> client_profile \<Rightarrow> string" where
  "magic_object_id oid c =
     (case (if contains (cp_flags c) F_MS_PFS then rewrite_pfs_child oid else None) of
        Some real \<Rightarrow> real
      | None \<Rightarrow>
          if contains (cp_flags c) F_SAMSUNG_DCM10 then
            (if oid = ''A'' then MUSIC_ID else if oid = ''V'' then VIDEO_ID
             else if oid = ''I'' then IMAGE_ID else oid)
          else if contains (cp_flags c) F_AUDIO_ONLY \<and> oid = ROOT_ID then MUSIC_ID
          else oid)"

subsection \<open>The simple actions\<close>

definition ok_tag :: "string \<Rightarrow> string \<Rightarrow> string \<Rightarrow> string" where
  "ok_tag meth xmlns inner =
     wrap_soap_success (''<u:'' @ meth @ ''Response xmlns:u='' @ dq @ xmlns @ dq @ ''>'' @ inner @
       ''</u:'' @ meth @ ''Response>'')"

definition empty_cd_response :: "string \<Rightarrow> string" where
  "empty_cd_response meth = ok_tag meth CONTENTDIRECTORY_TYPE []"

definition connection_info :: "soap_call \<Rightarrow> soap_outcome" where
  "connection_info call =
     (case Option.bind (non_empty (map_option trim (sc_connection_id call))) (parse_int 32) of
        None \<Rightarrow> fault402
      | Some i \<Rightarrow>
          if i \<noteq> 0 then fault701
          else OkBody (ok_tag ''GetCurrentConnectionInfo'' CONNECTIONMANAGER_TYPE
                 (''<RcsID>-1</RcsID><AVTransportID>-1</AVTransportID>'' @
                  ''<ProtocolInfo></ProtocolInfo><PeerConnectionManager></PeerConnectionManager>'' @
                  ''<PeerConnectionID>-1</PeerConnectionID><Direction>Output</Direction>'' @
                  ''<Status>Unknown</Status>'')))"

definition query_state_variable :: "soap_call \<Rightarrow> soap_outcome" where
  "query_state_variable call =
     (case sc_var_name call of
        None \<Rightarrow> fault402
      | Some v \<Rightarrow>
          if v = ''ConnectionStatus''
          then OkBody (ok_tag ''QueryStateVariable'' ''urn:schemas-upnp-org:control-1-0'' ''<return>Connected</return>'')
          else fault404)"

definition dispatch_simple ::
  "soap_call \<Rightarrow> client_profile \<Rightarrow> string \<Rightarrow> nat \<Rightarrow> string option \<Rightarrow> soap_outcome option" where
  "dispatch_simple call c uuid update_id root_container =
     (case sc_method call of
        None \<Rightarrow> None
      | Some meth \<Rightarrow>
          if meth = ''GetSearchCapabilities'' then
            Some (OkBody (ok_tag meth CONTENTDIRECTORY_TYPE (''<SearchCaps>'' @ SEARCH_CAPS @ ''</SearchCaps>'')))
          else if meth = ''GetSortCapabilities'' then
            Some (OkBody (ok_tag meth CONTENTDIRECTORY_TYPE (''<SortCaps>'' @ SORT_CAPS @ ''</SortCaps>'')))
          else if meth = ''GetSystemUpdateID'' then
            Some (OkBody (ok_tag meth CONTENTDIRECTORY_TYPE (''<Id>'' @ decimal update_id @ ''</Id>'')))
          else if meth = ''GetProtocolInfo'' then
            Some (OkBody (ok_tag meth CONNECTIONMANAGER_TYPE
              (''<Source>'' @ protocol_info_source @ ''</Source><Sink></Sink>'')))
          else if meth = ''GetCurrentConnectionIDs'' then
            Some (OkBody (ok_tag meth CONNECTIONMANAGER_TYPE ''<ConnectionIDs>0</ConnectionIDs>''))
          else if meth = ''GetCurrentConnectionInfo'' then Some (connection_info call)
          else if meth = ''IsAuthorized'' \<or> meth = ''IsValidated'' then
            (if sc_device_id call = None then Some fault402
             else Some (OkBody (ok_tag meth MS_REGISTRAR_TYPE ''<Result>1</Result>'')))
          else if meth = ''RegisterDevice'' then
            Some (OkBody (ok_tag meth MS_REGISTRAR_TYPE
              (''<RegistrationRespMsg>'' @ escape_xml uuid @ ''</RegistrationRespMsg>'')))
          else if meth = ''X_GetFeatureList'' then
            Some (OkBody (ok_tag meth CONTENTDIRECTORY_TYPE
              (''<FeatureList>'' @ escape_xml (feature_list_xml (feature_list_ids c root_container)) @ ''</FeatureList>'')))
          else if meth = ''QueryStateVariable'' then Some (query_state_variable call)
          else if meth \<in> {''X_SetBookmark'', ''UpdateObject'', ''Browse'', ''Search''} then None
          else Some fault401)"

subsection \<open>The action table is served\<close>

lemma find_in_table: "soap_action_method action = Some m \<Longrightarrow> m \<in> set SOAP_METHODS"
  by (auto simp: soap_action_method_def find_Some_iff split: Option.bind_splits)

lemma connection_info_cases:
  "connection_info call \<in> {fault402, fault701} \<or> (\<exists>body. connection_info call = OkBody body)"
  by (auto simp: connection_info_def split: option.splits)

lemma query_state_variable_cases:
  "query_state_variable call \<in> {fault402, fault404} \<or> (\<exists>body. query_state_variable call = OkBody body)"
  by (auto simp: query_state_variable_def split: option.splits)

text \<open>
  Every action the request parser can name is served: the four actions that need the catalogue are
  left to it, and each of the others is answered at once, with a body or with one of the faults 402, 404
  and 701; \<open>Invalid Action\<close> is never the answer to a named action.
\<close>
theorem named_actions_served:
  assumes "soap_action_method action = Some m" "sc_method call = Some m"
  shows "case dispatch_simple call c uuid update_id root_container of
      None \<Rightarrow> m \<in> {''Browse'', ''Search'', ''UpdateObject'', ''X_SetBookmark''}
    | Some (OkBody body) \<Rightarrow> m \<notin> {''Browse'', ''Search'', ''UpdateObject'', ''X_SetBookmark''}
    | Some (Fault http code desc) \<Rightarrow> http = 500 \<and> code \<in> {402, 404, 701} \<and>
        m \<notin> {''Browse'', ''Search'', ''UpdateObject'', ''X_SetBookmark''}"
proof -
  have m: "m \<in> set SOAP_METHODS" by (rule find_in_table [OF assms(1)])
  have info: "case connection_info call of OkBody body \<Rightarrow> True | Fault http code desc \<Rightarrow> http = 500 \<and> code \<in> {402, 404, 701}"
    using connection_info_cases [of call] by (auto simp: fault_defs)
  have var: "case query_state_variable call of OkBody body \<Rightarrow> True | Fault http code desc \<Rightarrow> http = 500 \<and> code \<in> {402, 404, 701}"
    using query_state_variable_cases [of call] by (auto simp: fault_defs)
  from m info var show ?thesis
    by (auto simp: SOAP_METHODS_def dispatch_simple_def assms(2) fault402_def split: soap_outcome.splits)
qed

lemma named_actions_served_witness:
  "case dispatch_simple \<lparr>sc_method = Some ''GetSystemUpdateID'', sc_object_id = None, sc_browse_flag = None, sc_starting_index = None, sc_requested_count = None,
      sc_search_criteria = None, sc_pos_second = None, sc_connection_id = None, sc_device_id = None, sc_filter = None,
      sc_current_tag_value = None, sc_new_tag_value = None, sc_sort_criteria = None, sc_var_name = None\<rparr> (CLIENTS ! 0) ''u'' 7 None of
    None \<Rightarrow> False | Some (OkBody body) \<Rightarrow> True | Some (Fault http code desc) \<Rightarrow> code \<in> {402, 404, 701}"
  (is "case dispatch_simple ?call _ _ _ _ of None \<Rightarrow> False | Some (OkBody body) \<Rightarrow> True | Some (Fault http code desc) \<Rightarrow> code \<in> {402, 404, 701}")
proof -
  have "soap_action_method ''s#GetSystemUpdateID'' = Some ''GetSystemUpdateID''" by code_simp
  from named_actions_served [OF this, of ?call "CLIENTS ! 0" "''u''" 7 None]
  show ?thesis by (auto split: option.splits soap_outcome.splits)
qed

end
