(* ===== verification/Compact_Metadata.thy ===== *)
theory Compact_Metadata
  imports Compact_Field
begin

text \<open>
  Compact stream metadata (\<open>crates/protocol/src/stream_metadata.rs\<close>): the records a reader takes
  from a persisted value and the canonical writer. Chapter times are \<open>f64\<close> seconds on the writing
  side; their rounding to \<open>u64\<close> milliseconds is the parameter \<open>millis\<close>.
\<close>

definition MAX_COMPACT_AUDIO_RECORDS :: nat where "MAX_COMPACT_AUDIO_RECORDS = 1024"
definition MAX_COMPACT_SUBTITLE_RECORDS :: nat where "MAX_COMPACT_SUBTITLE_RECORDS = 128"
definition MAX_COMPACT_CHAPTERS :: nat where "MAX_COMPACT_CHAPTERS = 512"
definition MAX_COMPACT_CHAPTER_TITLE_CHARS :: nat where "MAX_COMPACT_CHAPTER_TITLE_CHARS = 256"

subsection \<open>Reading\<close>

definition parse_metadata :: "string \<Rightarrow> (nat \<times> nat) + string" where
  "parse_metadata raw =
     (if length raw > MAX_COMPACT_STREAM_METADATA_BYTES
      then Inl (length raw, MAX_COMPACT_STREAM_METADATA_BYTES) else Inr raw)"

definition records :: "string \<Rightarrow> string list" where
  "records raw = split_on (CHR '','') raw"

definition has_video_capabilities_marker :: "string \<Rightarrow> bool" where
  "has_video_capabilities_marker raw = list_ex (prefix ''@v:'') (records raw)"

definition has_timestamp_marker :: "string \<Rightarrow> bool" where
  "has_timestamp_marker raw = list_ex (prefix ''@t:'') (records raw)"

definition has_subtitle_marker :: "string \<Rightarrow> bool" where
  "has_subtitle_marker raw = list_ex (\<lambda>r. r = ''@s'') (records raw)"

record audio_record =
  ar_global_index :: nat
  ar_audio_index :: nat
  ar_codec :: string
  ar_channels :: "nat option"
  ar_encoded_language :: "string option"
  ar_encoded_title :: "string option"
  ar_default :: bool

definition is_server_usable :: "audio_record \<Rightarrow> bool" where
  "is_server_usable a \<longleftrightarrow> ar_channels a \<noteq> None"

definition decoded_language :: "audio_record \<Rightarrow> field_decode_error + string option" where
  "decoded_language a = decode_optional_field (ar_encoded_language a)"

definition decoded_title :: "audio_record \<Rightarrow> field_decode_error + string option" where
  "decoded_title a = decode_optional_field (ar_encoded_title a)"

text \<open>The \<open>n\<close>-th value of an iterator of fields.\<close>

definition nth_field :: "nat \<Rightarrow> string list \<Rightarrow> string option" where
  "nth_field n fs = (if n < length fs then Some (fs ! n) else None)"

definition parse_audio_record :: "string \<Rightarrow> audio_record option" where
  "parse_audio_record r =
     (let f = split_on (CHR '':'') r in
      Option.bind (Option.bind (nth_field 0 f) (parse_uint usize_max)) (\<lambda>global_index.
      Option.bind (Option.bind (nth_field 1 f) (parse_uint usize_max)) (\<lambda>audio_index.
      Option.bind (nth_field 2 f) (\<lambda>codec.
        Some \<lparr>ar_global_index = global_index, ar_audio_index = audio_index, ar_codec = trim codec,
          ar_channels = Option.bind (nth_field 3 f) (parse_uint u32_max),
          ar_encoded_language = nth_field 4 f, ar_encoded_title = nth_field 5 f,
          ar_default = (nth_field 6 f = Some ''1'')\<rparr>))))"

definition audio_records :: "string \<Rightarrow> audio_record list" where
  "audio_records raw =
     take MAX_COMPACT_AUDIO_RECORDS (List.map_filter parse_audio_record (records raw))"

record subtitle_record =
  sr_global_index :: nat
  sr_codec :: string
  sr_language :: "string option"
  sr_title :: "string option"
  sr_default :: bool
  sr_forced :: bool

definition res_ok :: "'e + 'a \<Rightarrow> 'a option" where
  "res_ok r = (case r of Inr x \<Rightarrow> Some x | Inl _ \<Rightarrow> None)"

definition parse_subtitle_record :: "string \<Rightarrow> subtitle_record option" where
  "parse_subtitle_record r =
     Option.bind (strip_prefix ''@s:'' r) (\<lambda>body.
     let f = split_on (CHR '':'') body in
     Option.bind (Option.bind (nth_field 0 f) (parse_uint u32_max)) (\<lambda>global_index.
     Option.bind (nth_field 1 f) (\<lambda>codec.
     Option.bind (res_ok (decode_optional_field (nth_field 2 f))) (\<lambda>language.
     Option.bind (res_ok (decode_optional_field (nth_field 3 f))) (\<lambda>title.
     Option.bind (nth_field 4 f) (\<lambda>default.
     Option.bind (nth_field 5 f) (\<lambda>forced.
       if nth_field 6 f \<noteq> None then None
       else Some \<lparr>sr_global_index = global_index, sr_codec = codec, sr_language = language,
              sr_title = title, sr_default = (default = ''1''), sr_forced = (forced = ''1'')\<rparr>)))))))"

definition subtitle_records :: "string \<Rightarrow> subtitle_record list" where
  "subtitle_records raw =
     take MAX_COMPACT_SUBTITLE_RECORDS (List.map_filter parse_subtitle_record (records raw))"

record video_capabilities =
  vc_profile :: string
  vc_level :: nat
  vc_pixel_format :: string
  vc_bit_depth :: nat
  vc_frame_rate :: string
  vc_codec_string :: string
  vc_audio_layout :: string

definition parse_u32_or_zero :: "string option \<Rightarrow> nat" where
  "parse_u32_or_zero v =
     (case Option.bind v (parse_uint u32_max) of Some n \<Rightarrow> n | None \<Rightarrow> 0)"

definition field_or_empty :: "nat \<Rightarrow> string list \<Rightarrow> string" where
  "field_or_empty n f = (case nth_field n f of Some v \<Rightarrow> v | None \<Rightarrow> [])"

definition read_video_capabilities :: "string \<Rightarrow> video_capabilities option" where
  "read_video_capabilities raw =
     map_option (\<lambda>r. let f = split_on (CHR '':'') r in
         \<lparr>vc_profile = decode_or_empty (field_or_empty 1 f), vc_level = parse_u32_or_zero (nth_field 2 f),
          vc_pixel_format = decode_or_empty (field_or_empty 3 f),
          vc_bit_depth = parse_u32_or_zero (nth_field 4 f),
          vc_frame_rate = decode_or_empty (field_or_empty 5 f),
          vc_codec_string = decode_or_empty (field_or_empty 6 f),
          vc_audio_layout = decode_or_empty (field_or_empty 7 f)\<rparr>)
       (List.find (prefix ''@v:'') (records raw))"

fun find_map :: "('a \<Rightarrow> 'b option) \<Rightarrow> 'a list \<Rightarrow> 'b option" where
  "find_map f [] = None"
| "find_map f (x # xs) = (case f x of Some y \<Rightarrow> Some y | None \<Rightarrow> find_map f xs)"

definition timestamp_mode :: "string \<Rightarrow> string option" where
  "timestamp_mode raw = find_map (strip_prefix ''@t:'') (records raw)"

record chapter_record =
  ch_source_index :: nat
  ch_start_millis :: nat
  ch_end_millis :: nat
  ch_title :: "string option"

text \<open>\<open>splitn(3, ':')\<close>: at most two cuts, the rest stays whole.\<close>

definition splitn3 :: "string \<Rightarrow> string list" where
  "splitn3 s =
     (case split_once (CHR '':'') s of
        None \<Rightarrow> [s]
      | Some (a, r) \<Rightarrow>
          (case split_once (CHR '':'') r of None \<Rightarrow> [a, r] | Some (b, c) \<Rightarrow> [a, b, c]))"

definition parse_chapter :: "nat \<times> string \<Rightarrow> chapter_record option" where
  "parse_chapter ix =
     (case ix of (source_index, text) \<Rightarrow>
      let f = splitn3 text in
      Option.bind (Option.bind (nth_field 0 f) (parse_uint u64_max)) (\<lambda>start_millis.
      Option.bind (Option.bind (nth_field 1 f) (parse_uint u64_max)) (\<lambda>end_millis.
        if end_millis < start_millis then None
        else Some \<lparr>ch_source_index = source_index, ch_start_millis = start_millis,
               ch_end_millis = end_millis,
               ch_title = Option.bind (nth_field 2 f) (\<lambda>v.
                 Option.bind (res_ok (decode_optional_field (Some v))) id)\<rparr>)))"

definition chapters :: "string \<Rightarrow> chapter_record list" where
  "chapters raw =
     (case find_map (strip_prefix ''@c:'') (records raw) of
        None \<Rightarrow> []
      | Some r \<Rightarrow>
          List.map_filter parse_chapter
            (enumerate 0 (take MAX_COMPACT_CHAPTERS (split_on (CHR ''|'') r))))"

subsection \<open>Writing\<close>

record audio_input =
  ai_global_index :: nat
  ai_audio_index :: nat
  ai_codec :: string
  ai_channels :: nat
  ai_language :: "string option"
  ai_title :: "string option"
  ai_default :: bool

record 'f chapter_input =
  ci_start_seconds :: 'f
  ci_end_seconds :: 'f
  ci_title :: "string option"

record 'f metadata_input =
  mi_audio_records :: "audio_input list"
  mi_subtitle_records :: "subtitle_record list option"
  mi_video :: video_capabilities
  mi_timestamp_mode :: string
  mi_chapters :: "'f chapter_input list"

definition or_empty :: "string option \<Rightarrow> string" where
  "or_empty s = (case s of Some v \<Rightarrow> v | None \<Rightarrow> [])"

text \<open>
  Each \<open>writer.push_*\<close> call of a record is one piece, an encoded field one piece for each byte.
\<close>

definition flag :: "bool \<Rightarrow> string" where
  "flag b = (if b then ''1'' else ''0'')"

definition encoded_pieces :: "string \<Rightarrow> string list" where
  "encoded_pieces v = map compact_encoded_byte v"

definition audio_pieces :: "audio_input \<Rightarrow> string list" where
  "audio_pieces a =
     [decimal (ai_global_index a), '':'', decimal (ai_audio_index a), '':'', ai_codec a, '':'',
      decimal (ai_channels a)] @
     (if ai_language a \<noteq> None \<or> ai_title a \<noteq> None \<or> ai_default a
      then [CHR '':'' # []] @ encoded_pieces (or_empty (ai_language a)) @ [CHR '':'' # []] @
           encoded_pieces (or_empty (ai_title a)) @ [CHR '':'' # [], flag (ai_default a)]
      else [])"

definition video_pieces :: "video_capabilities \<Rightarrow> string list" where
  "video_pieces v =
     [''@v:''] @ encoded_pieces (vc_profile v) @ ['':'', decimal (vc_level v), '':''] @
     encoded_pieces (vc_pixel_format v) @ ['':'', decimal (vc_bit_depth v), '':''] @
     encoded_pieces (vc_frame_rate v) @ ['':''] @ encoded_pieces (vc_codec_string v) @ ['':''] @
     encoded_pieces (vc_audio_layout v)"

definition chapter_pieces :: "('f \<Rightarrow> nat) \<Rightarrow> nat \<times> 'f chapter_input \<Rightarrow> string list" where
  "chapter_pieces millis ic =
     (case ic of (index, c) \<Rightarrow>
       (if index > 0 then [''|''] else []) @
       [decimal (millis (ci_start_seconds c)), '':'', decimal (millis (ci_end_seconds c)), '':''] @
       encoded_pieces (take_chars MAX_COMPACT_CHAPTER_TITLE_CHARS (or_empty (ci_title c))))"

definition chapters_pieces :: "('f \<Rightarrow> nat) \<Rightarrow> 'f chapter_input list \<Rightarrow> string list" where
  "chapters_pieces millis cs =
     ''@c:'' # concat (map (chapter_pieces millis) (enumerate 0 (take MAX_COMPACT_CHAPTERS cs)))"

definition subtitle_pieces :: "subtitle_record \<Rightarrow> string list" where
  "subtitle_pieces s =
     [''@s:'', decimal (sr_global_index s), '':'', sr_codec s] @
     concat (map (\<lambda>field. '':'' # encoded_pieces (take_chars 256 (or_empty field))) [sr_language s, sr_title s]) @
     ['':'', flag (sr_default s), '':'', flag (sr_forced s)]"

fun write_records :: "string \<Rightarrow> string list list \<Rightarrow> metadata_write_error + string" where
  "write_records out [] = Inr out"
| "write_records out (pieces # rest) =
     bind_res (start_record out) (\<lambda>out1.
     bind_res (push_seq push_str out1 pieces) (\<lambda>out2. write_records out2 rest))"

definition record_pieces :: "('f \<Rightarrow> nat) \<Rightarrow> 'f metadata_input \<Rightarrow> string list list" where
  "record_pieces millis input =
     map audio_pieces (mi_audio_records input) @
     [video_pieces (mi_video input), [''@t:'', mi_timestamp_mode input]] @
     (if mi_chapters input \<noteq> [] then [chapters_pieces millis (mi_chapters input)] else []) @
     (case mi_subtitle_records input of
        None \<Rightarrow> []
      | Some subs \<Rightarrow> [''@s''] # map subtitle_pieces (take MAX_COMPACT_SUBTITLE_RECORDS subs))"

definition encode_compact_stream_metadata ::
  "('f \<Rightarrow> nat) \<Rightarrow> 'f metadata_input \<Rightarrow> metadata_write_error + string" where
  "encode_compact_stream_metadata millis input =
     (if length (mi_audio_records input) > MAX_COMPACT_AUDIO_RECORDS
      then Inl (TooManyAudioRecords (length (mi_audio_records input)) MAX_COMPACT_AUDIO_RECORDS)
      else write_records [] (record_pieces millis input))"

subsection \<open>The written records\<close>

definition record_texts :: "('f \<Rightarrow> nat) \<Rightarrow> 'f metadata_input \<Rightarrow> string list" where
  "record_texts millis input = map concat (record_pieces millis input)"

lemma write_more:
  "out \<noteq> [] \<Longrightarrow> write_records out ps = Inr raw \<Longrightarrow>
     raw = out @ concat (map (\<lambda>p. CHR '','' # concat p) ps) \<and> (ps \<noteq> [] \<longrightarrow> length raw \<le> MAX_COMPACT_STREAM_METADATA_BYTES)"
proof (induction ps arbitrary: out)
  case (Cons p ps)
  then obtain x o2 where x: "push_str out '','' = Inr x" and "push_seq push_str x p = Inr o2"
    and r: "write_records o2 ps = Inr raw"
    by (simp add: start_record_def) blast
  moreover have xo: "x = out @ '',''" using metadata_writer.push_ok [OF x] by simp
  ultimately have p: "push_seq push_str (out @ '','') p = Inr o2" by simp
  from metadata_writer.push_ok [OF x] xo have l: "length (out @ '','') \<le> MAX_COMPACT_STREAM_METADATA_BYTES" by simp
  from metadata_writer.push_seq_ok [OF p] have o2: "o2 = out @ '','' @ concat p"
    "length o2 \<le> MAX_COMPACT_STREAM_METADATA_BYTES" using l by (cases p; simp)+
  from Cons.IH [OF _ r] o2 r show ?case by (cases ps) auto
qed simp

lemma write_records_ok:
  assumes "ps \<noteq> []" "\<And>p. p \<in> set ps \<Longrightarrow> concat p \<noteq> []" "write_records [] ps = Inr raw"
  shows "raw = join '','' (map concat ps)" "length raw \<le> MAX_COMPACT_STREAM_METADATA_BYTES"
proof -
  obtain p qs where ps: "ps = p # qs" using assms(1) by (cases ps) auto
  obtain o1 where p: "push_seq push_str [] p = Inr o1" and r: "write_records o1 qs = Inr raw"
    using assms(3) by (auto simp: ps start_record_def)
  have pne: "concat p \<noteq> []" using assms(2) by (simp add: ps)
  from metadata_writer.push_seq_ok [OF p] pne have o1: "o1 = concat p" "o1 \<noteq> []"
    "length o1 \<le> MAX_COMPACT_STREAM_METADATA_BYTES" by (cases p; auto)+
  have "join '','' (x # map concat qs) = x @ concat (map (\<lambda>p. CHR '','' # concat p) qs)" for x
    by (induction qs arbitrary: x) (simp_all add: join_cons)
  with write_more [OF o1(2) r] o1 r show "raw = join '','' (map concat ps)"
    "length raw \<le> MAX_COMPACT_STREAM_METADATA_BYTES" by (cases qs; simp add: ps)+
qed

lemma write_fits:
  "length out + length (concat (map (\<lambda>p. CHR '','' # concat p) ps)) \<le> MAX_COMPACT_STREAM_METADATA_BYTES \<Longrightarrow>
     \<exists>raw. write_records out ps = Inr raw"
proof (induction ps arbitrary: out)
  case (Cons p ps)
  define out1 where "out1 = (if out = [] then out else out @ '','')"
  have s: "start_record out = Inr out1"
    using Cons.prems by (auto simp: start_record_def out1_def intro!: metadata_writer.push_fits)
  have l: "length out1 \<le> length out + 1" by (simp add: out1_def)
  have "push_seq push_str out1 p = Inr (out1 @ concat p)"
    using Cons.prems l by (intro metadata_writer.push_seq_fits) simp
  moreover have "\<exists>raw. write_records (out1 @ concat p) ps = Inr raw"
    using Cons.prems l by (intro Cons.IH) simp
  ultimately show ?case using s by simp
qed simp

lemma concat_encoded [simp]: "concat (encoded_pieces v) = encode_compact_stream_field v"
  by (simp add: encoded_pieces_def encode_compact_stream_field_def)

subsubsection \<open>Fields of a record\<close>

definition audio_fields :: "audio_input \<Rightarrow> string list" where
  "audio_fields a =
     [decimal (ai_global_index a), decimal (ai_audio_index a), ai_codec a, decimal (ai_channels a)] @
     (if ai_language a \<noteq> None \<or> ai_title a \<noteq> None \<or> ai_default a
      then [encode_compact_stream_field (or_empty (ai_language a)),
            encode_compact_stream_field (or_empty (ai_title a)), flag (ai_default a)]
      else [])"

definition video_fields :: "video_capabilities \<Rightarrow> string list" where
  "video_fields v =
     [''@v'', encode_compact_stream_field (vc_profile v), decimal (vc_level v),
      encode_compact_stream_field (vc_pixel_format v), decimal (vc_bit_depth v),
      encode_compact_stream_field (vc_frame_rate v), encode_compact_stream_field (vc_codec_string v),
      encode_compact_stream_field (vc_audio_layout v)]"

definition subtitle_fields :: "subtitle_record \<Rightarrow> string list" where
  "subtitle_fields s =
     [decimal (sr_global_index s), sr_codec s,
      encode_compact_stream_field (take_chars 256 (or_empty (sr_language s))),
      encode_compact_stream_field (take_chars 256 (or_empty (sr_title s))),
      flag (sr_default s), flag (sr_forced s)]"

definition chapter_text :: "('f \<Rightarrow> nat) \<Rightarrow> 'f chapter_input \<Rightarrow> string" where
  "chapter_text millis c =
     decimal (millis (ci_start_seconds c)) @ '':'' @ decimal (millis (ci_end_seconds c)) @ '':'' @
     encode_compact_stream_field (take_chars MAX_COMPACT_CHAPTER_TITLE_CHARS (or_empty (ci_title c)))"

lemma audio_text: "concat (audio_pieces a) = join '':'' (audio_fields a)"
  by (simp add: audio_pieces_def audio_fields_def)

lemma video_text: "concat (video_pieces v) = join '':'' (video_fields v)"
  by (simp add: video_pieces_def video_fields_def)

lemma subtitle_text: "concat (subtitle_pieces s) = ''@s:'' @ join '':'' (subtitle_fields s)"
  by (simp add: subtitle_pieces_def subtitle_fields_def)

lemma chapters_text:
  "concat (chapters_pieces millis cs) =
     ''@c:'' @ join ''|'' (map (chapter_text millis) (take MAX_COMPACT_CHAPTERS cs))"
proof -
  have tail: "concat (concat (map (chapter_pieces millis) (enumerate (Suc n) xs))) =
      concat (map (\<lambda>c. CHR ''|'' # chapter_text millis c) xs)" for n xs
    by (induction xs arbitrary: n) (simp_all add: chapter_pieces_def chapter_text_def)
  have "concat (concat (map (chapter_pieces millis) (enumerate 0 xs))) = join ''|'' (map (chapter_text millis) xs)" for xs
  proof (cases xs)
    case (Cons x ys)
    have "join ''|'' (t # map (chapter_text millis) ys) = t @ concat (map (\<lambda>c. CHR ''|'' # chapter_text millis c) ys)" for t
      by (induction ys arbitrary: t) (simp_all add: join_cons)
    then show ?thesis by (simp add: Cons tail) (simp add: chapter_pieces_def chapter_text_def)
  qed simp
  then show ?thesis by (simp add: chapters_pieces_def)
qed

subsubsection \<open>Well-formed inputs\<close>

definition text_ok :: "string option \<Rightarrow> bool" where
  "text_ok s \<longleftrightarrow> utf8_valid (or_empty s)"

definition plain_field :: "string \<Rightarrow> bool" where
  "plain_field s \<longleftrightarrow> CHR '','' \<notin> set s \<and> CHR '':'' \<notin> set s"

definition audio_ok :: "audio_input \<Rightarrow> bool" where
  "audio_ok a \<longleftrightarrow> ai_global_index a \<le> usize_max \<and> ai_audio_index a \<le> usize_max \<and>
     ai_channels a \<le> u32_max \<and> plain_field (ai_codec a) \<and> text_ok (ai_language a) \<and> text_ok (ai_title a)"

definition video_ok :: "video_capabilities \<Rightarrow> bool" where
  "video_ok v \<longleftrightarrow> vc_level v \<le> u32_max \<and> vc_bit_depth v \<le> u32_max \<and>
     list_all utf8_valid [vc_profile v, vc_pixel_format v, vc_frame_rate v, vc_codec_string v, vc_audio_layout v]"

definition subtitle_ok :: "subtitle_record \<Rightarrow> bool" where
  "subtitle_ok s \<longleftrightarrow> sr_global_index s \<le> u32_max \<and> plain_field (sr_codec s) \<and>
     text_ok (sr_language s) \<and> text_ok (sr_title s)"

definition chapter_ok :: "('f \<Rightarrow> nat) \<Rightarrow> 'f chapter_input \<Rightarrow> bool" where
  "chapter_ok millis c \<longleftrightarrow> millis (ci_start_seconds c) \<le> millis (ci_end_seconds c) \<and>
     millis (ci_end_seconds c) \<le> u64_max \<and> text_ok (ci_title c)"

definition input_ok :: "('f \<Rightarrow> nat) \<Rightarrow> 'f metadata_input \<Rightarrow> bool" where
  "input_ok millis i \<longleftrightarrow> list_all audio_ok (mi_audio_records i) \<and> video_ok (mi_video i) \<and>
     CHR '','' \<notin> set (mi_timestamp_mode i) \<and> list_all (chapter_ok millis) (mi_chapters i) \<and>
     (case mi_subtitle_records i of None \<Rightarrow> True | Some ss \<Rightarrow> list_all subtitle_ok ss)"

lemma split_colon_join:
  "fs \<noteq> [] \<Longrightarrow> (\<And>f. f \<in> set fs \<Longrightarrow> CHR '':'' \<notin> set f) \<Longrightarrow> split_on (CHR '':'') (join '':'' fs) = fs"
  by (rule split_on_join) auto

lemma decimal_free [simp]:
  "CHR '':'' \<notin> set (decimal n)" "CHR '','' \<notin> set (decimal n)" "CHR ''|'' \<notin> set (decimal n)"
  by (simp_all add: not_in_decimal is_digit_def)

lemma flag_free [simp]: "CHR '':'' \<notin> set (flag b)" "CHR '','' \<notin> set (flag b)"
  by (simp_all add: flag_def)

lemma audio_split: "audio_ok a \<Longrightarrow> split_on (CHR '':'') (concat (audio_pieces a)) = audio_fields a"
  unfolding audio_text by (rule split_colon_join) (auto simp: audio_fields_def audio_ok_def plain_field_def split: if_splits)

lemma video_split: "split_on (CHR '':'') (concat (video_pieces v)) = video_fields v"
  unfolding video_text by (rule split_colon_join) (auto simp: video_fields_def)

lemma subtitle_split: "subtitle_ok s \<Longrightarrow> split_on (CHR '':'') (join '':'' (subtitle_fields s)) = subtitle_fields s"
  by (rule split_colon_join) (auto simp: subtitle_fields_def subtitle_ok_def plain_field_def)

lemma join_free: "c \<notin> set sep \<Longrightarrow> (\<And>f. f \<in> set fs \<Longrightarrow> c \<notin> set f) \<Longrightarrow> c \<notin> set (join sep fs)"
  using set_join [of sep fs] by auto

lemma audio_no_comma: "audio_ok a \<Longrightarrow> CHR '','' \<notin> set (concat (audio_pieces a))"
  unfolding audio_text by (rule join_free) (auto simp: audio_fields_def audio_ok_def plain_field_def split: if_splits)

lemma video_no_comma: "CHR '','' \<notin> set (concat (video_pieces v))"
  unfolding video_text by (rule join_free) (auto simp: video_fields_def)

lemma subtitle_no_comma: "subtitle_ok s \<Longrightarrow> CHR '','' \<notin> set (concat (subtitle_pieces s))"
  unfolding subtitle_text
  using join_free [of "CHR '',''" "'':''" "subtitle_fields s"]
  by (auto simp: subtitle_fields_def subtitle_ok_def plain_field_def)

lemma chapter_text_free: "CHR '','' \<notin> set (chapter_text millis c)" "CHR ''|'' \<notin> set (chapter_text millis c)"
  by (simp_all add: chapter_text_def)

lemma chapters_no_comma: "CHR '','' \<notin> set (concat (chapters_pieces millis cs))"
proof -
  have "CHR '','' \<notin> set (join ''|'' (map (chapter_text millis) (take MAX_COMPACT_CHAPTERS cs)))"
    by (rule join_free) (auto simp: chapter_text_free)
  then show ?thesis by (simp add: chapters_text)
qed

text \<open>The records of an encoded value: the audio records, which begin with a digit, and tagged ones.\<close>

definition chapter_part :: "('f \<Rightarrow> nat) \<Rightarrow> 'f metadata_input \<Rightarrow> string list" where
  "chapter_part millis i =
     (if mi_chapters i \<noteq> [] then [concat (chapters_pieces millis (mi_chapters i))] else [])"

definition subtitle_part :: "'f metadata_input \<Rightarrow> string list" where
  "subtitle_part i =
     (case mi_subtitle_records i of None \<Rightarrow> []
      | Some ss \<Rightarrow> ''@s'' # map (concat \<circ> subtitle_pieces) (take MAX_COMPACT_SUBTITLE_RECORDS ss))"

lemma record_texts_parts:
  "record_texts millis i =
     map (concat \<circ> audio_pieces) (mi_audio_records i) @
     [concat (video_pieces (mi_video i)), ''@t:'' @ mi_timestamp_mode i] @ chapter_part millis i @ subtitle_part i"
  by (simp add: record_texts_def record_pieces_def chapter_part_def subtitle_part_def split: option.split)

lemma records_of_encoded:
  assumes "input_ok millis input" "encode_compact_stream_metadata millis input = Inr raw"
  shows "records raw = record_texts millis input" "length raw \<le> MAX_COMPACT_STREAM_METADATA_BYTES"
    "length (mi_audio_records input) \<le> MAX_COMPACT_AUDIO_RECORDS"
proof -
  let ?ps = "record_pieces millis input"
  have w: "write_records [] ?ps = Inr raw" and l: "length (mi_audio_records input) \<le> MAX_COMPACT_AUDIO_RECORDS"
    using assms(2) by (auto simp: encode_compact_stream_metadata_def split: if_splits)
  have ne: "concat p \<noteq> []" if "p \<in> set ?ps" for p
    using that by (auto simp: record_pieces_def audio_pieces_def video_pieces_def chapters_pieces_def
        subtitle_pieces_def split: if_splits option.splits)
  have pne: "?ps \<noteq> []" by (simp add: record_pieces_def)
  note j = write_records_ok [OF pne ne w]
  have free: "CHR '','' \<notin> set t" if t: "t \<in> set (record_texts millis input)" for t
  proof -
    consider (audio) a where "a \<in> set (mi_audio_records input)" "t = concat (audio_pieces a)"
      | (video) "t = concat (video_pieces (mi_video input))" | (time) "t = ''@t:'' @ mi_timestamp_mode input"
      | (chap) "t = concat (chapters_pieces millis (mi_chapters input))"
      | (marker) "t = ''@s''"
      | (sub) ss s where "mi_subtitle_records input = Some ss" "s \<in> set ss" "t = concat (subtitle_pieces s)"
      using t unfolding record_texts_parts chapter_part_def subtitle_part_def
      by (auto split: if_splits option.splits) (metis in_set_takeD)
    then show ?thesis
    proof cases
      case audio
      then have "audio_ok a" using assms(1) by (simp add: input_ok_def list_all_iff)
      then show ?thesis unfolding audio(2) by (rule audio_no_comma)
    next
      case video
      show ?thesis unfolding video by (rule video_no_comma)
    next
      case time
      then show ?thesis using assms(1) by (simp add: input_ok_def)
    next
      case chap
      show ?thesis unfolding chap by (rule chapters_no_comma)
    next
      case marker
      then show ?thesis by simp
    next
      case sub
      then have "subtitle_ok s" using assms(1) by (simp add: input_ok_def list_all_iff)
      then show ?thesis unfolding sub(3) by (rule subtitle_no_comma)
    qed
  qed
  show "records raw = record_texts millis input"
  proof -
    have "raw = join '','' (record_texts millis input)" using j(1) by (simp only: record_texts_def)
    moreover have "split_on (CHR '','') (join '','' (record_texts millis input)) = record_texts millis input"
      by (rule split_on_join) (use free pne in \<open>auto simp: record_texts_def\<close>)
    ultimately show ?thesis by (simp only: records_def)
  qed
  show "length raw \<le> MAX_COMPACT_STREAM_METADATA_BYTES" by (rule j(2))
  show "length (mi_audio_records input) \<le> MAX_COMPACT_AUDIO_RECORDS" by (rule l)
qed

subsubsection \<open>Reading one record back\<close>

definition read_audio :: "audio_input \<Rightarrow> audio_record" where
  "read_audio a =
     (let tail = ai_language a \<noteq> None \<or> ai_title a \<noteq> None \<or> ai_default a
      in \<lparr>ar_global_index = ai_global_index a, ar_audio_index = ai_audio_index a, ar_codec = trim (ai_codec a),
           ar_channels = Some (ai_channels a),
           ar_encoded_language = (if tail then Some (encode_compact_stream_field (or_empty (ai_language a))) else None),
           ar_encoded_title = (if tail then Some (encode_compact_stream_field (or_empty (ai_title a))) else None),
           ar_default = ai_default a\<rparr>)"

lemma parse_audio_back: "audio_ok a \<Longrightarrow> parse_audio_record (concat (audio_pieces a)) = Some (read_audio a)"
  by (auto simp: parse_audio_record_def audio_split audio_fields_def nth_field_def read_audio_def Let_def
      audio_ok_def flag_def)

lemma parse_uint_at: "parse_uint m (CHR ''@'' # s) = None"
  by (simp add: parse_uint_def is_digit_def)

lemma parse_audio_tagged: "parse_audio_record (CHR ''@'' # s) = None"
proof -
  obtain t fs where "split_on (CHR '':'') (CHR ''@'' # s) = (CHR ''@'' # t) # fs"
    by (cases "split_on (CHR '':'') s") (auto split: list.splits)
  then show ?thesis by (simp add: parse_audio_record_def nth_field_def parse_uint_at)
qed

definition bounded_text :: "nat \<Rightarrow> string option \<Rightarrow> string option" where
  "bounded_text n s = (let t = take_chars n (or_empty s) in if t \<noteq> [] then Some t else None)"

lemma decode_bounded:
  "text_ok s \<Longrightarrow> decode_optional_field (Some (encode_compact_stream_field (take_chars n (or_empty s)))) =
     Inr (bounded_text n s)"
  by (simp add: decode_optional_encode text_ok_def utf8_valid_take_chars bounded_text_def Let_def)

lemma parse_subtitle_fields:
  assumes "split_on (CHR '':'') b = [g, label, l, t, d, f]" "parse_uint u32_max g = Some n"
    "decode_optional_field (Some l) = Inr l'" "decode_optional_field (Some t) = Inr t'"
  shows "parse_subtitle_record (''@s:'' @ b) =
    Some \<lparr>sr_global_index = n, sr_codec = label, sr_language = l', sr_title = t',
      sr_default = (d = ''1''), sr_forced = (f = ''1'')\<rparr>"
  unfolding parse_subtitle_record_def strip_prefix_append bind.bind_lunit Let_def
  by (simp add: assms nth_field_def res_ok_def)

lemma parse_subtitle_back:
  assumes "subtitle_ok s"
  shows "parse_subtitle_record (concat (subtitle_pieces s)) =
     Some (s\<lparr>sr_language := bounded_text 256 (sr_language s), sr_title := bounded_text 256 (sr_title s)\<rparr>)"
proof -
  have n: "parse_uint u32_max (decimal (sr_global_index s)) = Some (sr_global_index s)"
    using assms by (simp add: subtitle_ok_def)
  have d: "decode_optional_field (Some (encode_compact_stream_field (take_chars 256 (or_empty v)))) =
      Inr (bounded_text 256 v)" if "v \<in> {sr_language s, sr_title s}" for v
    using that assms by (auto simp: subtitle_ok_def decode_bounded)
  have f: "(flag b = ''1'') = b" for b by (simp add: flag_def)
  show ?thesis
    unfolding subtitle_text
    using parse_subtitle_fields [OF subtitle_split [OF assms, unfolded subtitle_fields_def] n d d]
    by (simp add: f subtitle_fields_def)
qed

definition read_chapter :: "('f \<Rightarrow> nat) \<Rightarrow> nat \<times> 'f chapter_input \<Rightarrow> chapter_record" where
  "read_chapter millis ic =
     (case ic of (i, c) \<Rightarrow>
       \<lparr>ch_source_index = i, ch_start_millis = millis (ci_start_seconds c),
        ch_end_millis = millis (ci_end_seconds c),
        ch_title = bounded_text MAX_COMPACT_CHAPTER_TITLE_CHARS (ci_title c)\<rparr>)"

lemma parse_chapter_back:
  "chapter_ok millis c \<Longrightarrow> parse_chapter (i, chapter_text millis c) = Some (read_chapter millis (i, c))"
proof -
  assume ok: "chapter_ok millis c"
  let ?t = "encode_compact_stream_field (take_chars MAX_COMPACT_CHAPTER_TITLE_CHARS (or_empty (ci_title c)))"
  have "splitn3 (chapter_text millis c) =
      [decimal (millis (ci_start_seconds c)), decimal (millis (ci_end_seconds c)), ?t]"
    by (simp add: splitn3_def chapter_text_def split_once_append)
  then show ?thesis
    using ok by (auto simp: parse_chapter_def nth_field_def chapter_ok_def decode_bounded res_ok_def read_chapter_def)
qed

subsection \<open>The metadata round-trips\<close>

lemma map_filter_all: "(\<And>x. x \<in> set xs \<Longrightarrow> f x = Some (g x)) \<Longrightarrow> List.map_filter f xs = map g xs"
  by (induction xs) (auto simp: List.map_filter_def)

lemma map_filter_none: "(\<And>x. x \<in> set xs \<Longrightarrow> f x = None) \<Longrightarrow> List.map_filter f xs = []"
  by (induction xs) (auto simp: List.map_filter_def)

lemma map_filter_append [simp]: "List.map_filter f (xs @ ys) = List.map_filter f xs @ List.map_filter f ys"
  by (simp add: List.map_filter_def)

lemma find_map_skip: "(\<And>x. x \<in> set xs \<Longrightarrow> f x = None) \<Longrightarrow> find_map f (xs @ ys) = find_map f ys"
  by (induction xs) auto

lemma find_skip: "(\<And>x. x \<in> set xs \<Longrightarrow> \<not> P x) \<Longrightarrow> List.find P (xs @ ys) = List.find P ys"
  by (induction xs) auto

lemma audio_digit: "is_digit (hd (concat (audio_pieces a)))"
  using all_digits_hd [of "decimal (ai_global_index a)"] by (simp add: audio_pieces_def)

lemma audio_untagged:
  assumes "t \<in> set (map (concat \<circ> audio_pieces) as)"
  shows "\<not> prefix (CHR ''@'' # p) t"
proof
  assume "prefix (CHR ''@'' # p) t"
  then have "hd t = CHR ''@''" by (auto simp: prefix_def)
  moreover obtain a where "t = concat (audio_pieces a)" using assms by auto
  ultimately show False using audio_digit [of a] by (simp add: is_digit_def)
qed

lemma audio_not_marker: "t \<in> set (map (concat \<circ> audio_pieces) as) \<Longrightarrow> t \<noteq> CHR ''@'' # p"
  using audio_untagged [of t as p] by auto

lemma video_tag: "concat (video_pieces v) = CHR ''@'' # CHR ''v'' # CHR '':'' # drop 3 (concat (video_pieces v))"
  by (simp add: video_pieces_def)

lemma chapter_part_tag: "t \<in> set (chapter_part millis i) \<Longrightarrow> \<exists>r. t = CHR ''@'' # CHR ''c'' # r"
  by (auto simp: chapter_part_def chapters_pieces_def split: if_splits)

lemma subtitle_part_tag: "t \<in> set (subtitle_part i) \<Longrightarrow> \<exists>r. t = CHR ''@'' # CHR ''s'' # r"
  by (auto simp: subtitle_part_def subtitle_pieces_def split: option.splits)

lemma strip_tag: "t = CHR ''@'' # c # r \<Longrightarrow> c \<noteq> d \<Longrightarrow> strip_prefix (CHR ''@'' # d # p) t = None"
  by (simp add: strip_prefix_def)

lemma audio_strip: "t \<in> set (map (concat \<circ> audio_pieces) as) \<Longrightarrow> strip_prefix (CHR ''@'' # p) t = None"
  using audio_untagged by (simp add: strip_prefix_None)

lemma subtitle_only:
  "strip_prefix ''@s:'' t = None \<Longrightarrow> parse_subtitle_record t = None"
  by (simp add: parse_subtitle_record_def)

lemma encoded_layout:
  assumes "input_ok millis i" "encode_compact_stream_metadata millis i = Inr raw"
  shows "records raw = map (concat \<circ> audio_pieces) (mi_audio_records i) @
    [concat (video_pieces (mi_video i)), ''@t:'' @ mi_timestamp_mode i] @ chapter_part millis i @ subtitle_part i"
  using records_of_encoded(1) [OF assms] by (simp only: record_texts_parts)

lemma audio_back:
  assumes "input_ok millis i" "encode_compact_stream_metadata millis i = Inr raw"
  shows "audio_records raw = map read_audio (mi_audio_records i)"
proof -
  let ?as = "map (concat \<circ> audio_pieces) (mi_audio_records i)"
  let ?v = "concat (video_pieces (mi_video i))"
  let ?t = "''@t:'' @ mi_timestamp_mode i"
  note recs = encoded_layout [OF assms]
  obtain vr where v: "?v = CHR ''@'' # CHR ''v'' # CHR '':'' # vr" using video_tag by blast
  note ok = assms(1) [unfolded input_ok_def]
  have "List.map_filter parse_audio_record ?as = map read_audio (mi_audio_records i)"
    using ok parse_audio_back by (induction "mi_audio_records i" arbitrary: i)
      (auto simp: list_all_iff List.map_filter_def comp_def)
  moreover have "List.map_filter parse_audio_record ([?v, ?t] @ chapter_part millis i @ subtitle_part i) = []"
    by (rule map_filter_none)
      (auto simp: v parse_audio_tagged dest!: chapter_part_tag subtitle_part_tag)
  ultimately show ?thesis
    unfolding audio_records_def recs map_filter_append using records_of_encoded(3) [OF assms] by simp
qed

lemma video_back:
  assumes "input_ok millis i" "encode_compact_stream_metadata millis i = Inr raw"
  shows "read_video_capabilities raw = Some (mi_video i)"
proof -
  let ?as = "map (concat \<circ> audio_pieces) (mi_audio_records i)"
  let ?v = "concat (video_pieces (mi_video i))"
  let ?t = "''@t:'' @ mi_timestamp_mode i"
  note recs = encoded_layout [OF assms]
  obtain vr where v: "?v = CHR ''@'' # CHR ''v'' # CHR '':'' # vr" using video_tag by blast
  note ok = assms(1) [unfolded input_ok_def]
  have "List.find (prefix ''@v:'') (?as @ ?v # rest) = Some ?v" for rest
    by (subst find_skip, erule audio_untagged) (simp add: v)
  then have "List.find (prefix ''@v:'') (records raw) = Some ?v" unfolding recs by simp
  then show ?thesis
    using ok by (simp add: read_video_capabilities_def video_split video_fields_def field_or_empty_def
        nth_field_def parse_u32_or_zero_def video_ok_def)
qed

lemma timestamp_back:
  assumes "input_ok millis i" "encode_compact_stream_metadata millis i = Inr raw"
  shows "timestamp_mode raw = Some (mi_timestamp_mode i)"
proof -
  let ?as = "map (concat \<circ> audio_pieces) (mi_audio_records i)"
  let ?v = "concat (video_pieces (mi_video i))"
  let ?t = "''@t:'' @ mi_timestamp_mode i"
  note recs = encoded_layout [OF assms]
  obtain vr where v: "?v = CHR ''@'' # CHR ''v'' # CHR '':'' # vr" using video_tag by blast
  have "find_map (strip_prefix ''@t:'') (?as @ ?v # ?t # rest) = Some (mi_timestamp_mode i)" for rest
  proof (subst find_map_skip, erule audio_strip)
    have "strip_prefix ''@t:'' ?v = None" using v by (rule strip_tag) simp
    then show "find_map (strip_prefix ''@t:'') (?v # ?t # rest) = Some (mi_timestamp_mode i)"
      by (simp only: find_map.simps strip_prefix_append option.case)
  qed
  then show ?thesis unfolding timestamp_mode_def recs by simp
qed

lemma chapters_back:
  assumes "input_ok millis i" "encode_compact_stream_metadata millis i = Inr raw"
  shows "chapters raw = map (read_chapter millis) (enumerate 0 (take MAX_COMPACT_CHAPTERS (mi_chapters i)))"
proof -
  let ?as = "map (concat \<circ> audio_pieces) (mi_audio_records i)"
  let ?v = "concat (video_pieces (mi_video i))"
  let ?t = "''@t:'' @ mi_timestamp_mode i"
  note recs = encoded_layout [OF assms]
  obtain vr where v: "?v = CHR ''@'' # CHR ''v'' # CHR '':'' # vr" using video_tag by blast
  note ok = assms(1) [unfolded input_ok_def]
  let ?cs = "take MAX_COMPACT_CHAPTERS (mi_chapters i)"
  have vt: "strip_prefix ''@c:'' ?v = None" "strip_prefix ''@c:'' ?t = None"
    using v by (auto intro: strip_tag)
  have sub: "find_map (strip_prefix ''@c:'') (subtitle_part i) = None"
  proof -
    have "find_map f xs = None" if "\<And>x. x \<in> set xs \<Longrightarrow> f x = None" for f :: "string \<Rightarrow> string option" and xs
      using find_map_skip [of xs f "[]"] that by simp
    moreover have "strip_prefix ''@c:'' x = None" if "x \<in> set (subtitle_part i)" for x
      using subtitle_part_tag [OF that] by (auto intro: strip_tag)
    ultimately show ?thesis by blast
  qed
  have skip: "find_map (strip_prefix ''@c:'') (records raw) =
      find_map (strip_prefix ''@c:'') (chapter_part millis i @ subtitle_part i)"
    unfolding recs
    by (subst find_map_skip, erule audio_strip) (simp add: vt(1) strip_prefix_def [of "''@c:''" "CHR ''@'' # CHR ''t'' # x" for x])
  show ?thesis
  proof (cases "mi_chapters i = []")
    case True
    then show ?thesis by (simp add: chapters_def skip chapter_part_def sub)
  next
    case False
    have ne: "?cs \<noteq> []" using False by (simp add: MAX_COMPACT_CHAPTERS_def)
    have "find_map (strip_prefix ''@c:'') (records raw) = Some (join ''|'' (map (chapter_text millis) ?cs))"
    proof -
      have "chapter_part millis i @ subtitle_part i =
          (''@c:'' @ join ''|'' (map (chapter_text millis) ?cs)) # subtitle_part i"
        using False by (simp only: chapter_part_def chapters_text if_True not_False_eq_True append_Cons append_Nil simp_thms)
      then show ?thesis
        unfolding skip by (simp only: find_map.simps strip_prefix_append option.case)
    qed
    moreover have "split_on (CHR ''|'') (join ''|'' (map (chapter_text millis) ?cs)) = map (chapter_text millis) ?cs"
      by (rule split_on_join) (use ne in \<open>auto simp: chapter_text_free\<close>)
    moreover have "List.map_filter parse_chapter (enumerate 0 (map (chapter_text millis) ?cs)) =
        map (read_chapter millis) (enumerate 0 ?cs)"
    proof -
      have "\<forall>c \<in> set ?cs. chapter_ok millis c" using ok by (auto simp: list_all_iff dest: in_set_takeD)
      then have "List.map_filter parse_chapter (enumerate n (map (chapter_text millis) xs)) =
          map (read_chapter millis) (enumerate n xs)" if "set xs \<subseteq> set ?cs" for n xs
        using that by (induction xs arbitrary: n) (auto simp: List.map_filter_def parse_chapter_back)
      then show ?thesis by blast
    qed
    ultimately show ?thesis by (simp add: chapters_def)
  qed
qed

lemma marker_back:
  assumes "input_ok millis i" "encode_compact_stream_metadata millis i = Inr raw"
  shows "has_subtitle_marker raw \<longleftrightarrow> mi_subtitle_records i \<noteq> None"
proof -
  let ?as = "map (concat \<circ> audio_pieces) (mi_audio_records i)"
  let ?v = "concat (video_pieces (mi_video i))"
  let ?t = "''@t:'' @ mi_timestamp_mode i"
  note recs = encoded_layout [OF assms]
  obtain vr where v: "?v = CHR ''@'' # CHR ''v'' # CHR '':'' # vr" using video_tag by blast
  have "list_ex (\<lambda>r. r = ''@s'') ?as = False"
    using audio_not_marker [of _ "mi_audio_records i" "''s''"] by (auto simp: list_ex_iff)
  moreover have "list_ex (\<lambda>r. r = ''@s'') (chapter_part millis i) = False"
    by (auto simp: list_ex_iff dest: chapter_part_tag)
  ultimately have "has_subtitle_marker raw = list_ex (\<lambda>r. r = ''@s'') (subtitle_part i)"
    unfolding has_subtitle_marker_def recs list_ex_append by (simp add: v)
  then show ?thesis by (auto simp: subtitle_part_def split: option.splits)
qed

lemma subtitles_back:
  assumes "input_ok millis i" "encode_compact_stream_metadata millis i = Inr raw"
  shows "subtitle_records raw =
      (case mi_subtitle_records i of None \<Rightarrow> []
       | Some ss \<Rightarrow> map (\<lambda>s. s\<lparr>sr_language := bounded_text 256 (sr_language s), sr_title := bounded_text 256 (sr_title s)\<rparr>)
           (take MAX_COMPACT_SUBTITLE_RECORDS ss))"
proof -
  let ?as = "map (concat \<circ> audio_pieces) (mi_audio_records i)"
  let ?v = "concat (video_pieces (mi_video i))"
  let ?t = "''@t:'' @ mi_timestamp_mode i"
  note recs = encoded_layout [OF assms]
  obtain vr where v: "?v = CHR ''@'' # CHR ''v'' # CHR '':'' # vr" using video_tag by blast
  note ok = assms(1) [unfolded input_ok_def]
  have none: "List.map_filter parse_subtitle_record xs = []"
    if "xs \<in> {?as, [?v, ?t], chapter_part millis i}" for xs
  proof (rule map_filter_none)
    fix x assume x: "x \<in> set xs"
    have "strip_prefix ''@s:'' x = None"
      using that x v by (auto intro: audio_strip strip_tag dest!: chapter_part_tag)
    then show "parse_subtitle_record x = None" by (rule subtitle_only)
  qed
  have "List.map_filter parse_subtitle_record (records raw) = List.map_filter parse_subtitle_record (subtitle_part i)"
    unfolding recs map_filter_append
    using none [of ?as] none [of "[?v, ?t]"] none [of "chapter_part millis i"] by (simp only: insert_iff simp_thms append_Nil)
  moreover have "List.map_filter parse_subtitle_record (map (concat \<circ> subtitle_pieces) xs) =
      map (\<lambda>s. s\<lparr>sr_language := bounded_text 256 (sr_language s), sr_title := bounded_text 256 (sr_title s)\<rparr>) xs"
    if "\<forall>s \<in> set xs. subtitle_ok s" for xs
    using that by (induction xs) (auto simp: List.map_filter_def parse_subtitle_back)
  moreover have "\<forall>s \<in> set (take n ss). subtitle_ok s" if "mi_subtitle_records i = Some ss" for n ss
    using ok that by (auto simp: list_all_iff dest: in_set_takeD)
  moreover have "parse_subtitle_record ''@s'' = None" by (simp add: parse_subtitle_record_def strip_prefix_def)
  ultimately show ?thesis
    by (simp add: subtitle_records_def subtitle_part_def List.map_filter_def split: option.split)
qed

text \<open>
  C19: What the canonical writer stores is what the readers find. For audio descriptors, video
  capabilities, a timestamp mode, chapters and subtitle tracks whose texts are UTF-8, whose codec
  labels hold no separator and whose numbers fit their types, a successful encoding is at most one
  mebibyte and is read back as the same audio records in order, the same capabilities and mode, the
  first 512 chapters with titles cut to 256 characters, and the first 128 subtitle tracks with labels
  cut to 256 characters; the subtitle marker is there exactly when discovery had run.
\<close>
theorem metadata_roundtrip:
  assumes "input_ok millis i" "encode_compact_stream_metadata millis i = Inr raw"
  shows "length raw \<le> MAX_COMPACT_STREAM_METADATA_BYTES \<and> parse_metadata raw = Inr raw \<and>
    audio_records raw = map read_audio (mi_audio_records i) \<and>
    read_video_capabilities raw = Some (mi_video i) \<and>
    timestamp_mode raw = Some (mi_timestamp_mode i) \<and>
    chapters raw = map (read_chapter millis) (enumerate 0 (take MAX_COMPACT_CHAPTERS (mi_chapters i))) \<and>
    (has_subtitle_marker raw \<longleftrightarrow> mi_subtitle_records i \<noteq> None) \<and>
    subtitle_records raw =
      (case mi_subtitle_records i of None \<Rightarrow> []
       | Some ss \<Rightarrow> map (\<lambda>s. s\<lparr>sr_language := bounded_text 256 (sr_language s), sr_title := bounded_text 256 (sr_title s)\<rparr>)
           (take MAX_COMPACT_SUBTITLE_RECORDS ss))"
proof (intro conjI audio_back [OF assms] video_back [OF assms] timestamp_back [OF assms] chapters_back [OF assms]
    marker_back [OF assms] subtitles_back [OF assms])
  show "length raw \<le> MAX_COMPACT_STREAM_METADATA_BYTES" by (rule records_of_encoded(2) [OF assms])
  then show "parse_metadata raw = Inr raw" by (simp add: parse_metadata_def)
qed

definition sample_metadata :: "nat metadata_input" where
  "sample_metadata =
     \<lparr>mi_audio_records = [\<lparr>ai_global_index = 1, ai_audio_index = 0, ai_codec = ''aac'', ai_channels = 2,
        ai_language = Some ''en'', ai_title = None, ai_default = True\<rparr>],
      mi_subtitle_records = Some [],
      mi_video = \<lparr>vc_profile = ''High'', vc_level = 41, vc_pixel_format = [], vc_bit_depth = 8,
        vc_frame_rate = [], vc_codec_string = [], vc_audio_layout = []\<rparr>,
      mi_timestamp_mode = ''x'', mi_chapters = [\<lparr>ci_start_seconds = 0, ci_end_seconds = 7, ci_title = None\<rparr>]\<rparr>"

lemma sample_metadata_ok: "input_ok id sample_metadata"
  by (simp add: input_ok_def sample_metadata_def audio_ok_def video_ok_def chapter_ok_def plain_field_def
      text_ok_def or_empty_def usize_max_def u64_max_def u32_max_def)

lemma sample_metadata_encoded:
  "\<exists>raw. encode_compact_stream_metadata id sample_metadata = Inr raw"
proof -
  have lit: "compact_encoded_byte c = [c]" if "literal_byte c" for c
    using that by (simp add: compact_encoded_byte_def)
  have b: "literal_byte (CHR ''e'')" "literal_byte (CHR ''n'')" "literal_byte (CHR ''H'')"
    "literal_byte (CHR ''i'')" "literal_byte (CHR ''g'')" "literal_byte (CHR ''h'')"
    by (simp_all add: literal_byte_def byte_simps)
  have d: "decimal 0 = ''0''" "decimal 1 = ''1''" "decimal 2 = ''2''" "decimal 7 = ''7''" "decimal 8 = ''8''"
    "decimal 41 = ''41''"
    by (simp_all add: decimal_eval)
  have "\<exists>raw. write_records [] (record_pieces id sample_metadata) = Inr raw"
    by (rule write_fits)
      (simp add: sample_metadata_def record_pieces_def audio_pieces_def video_pieces_def chapters_pieces_def
        chapter_pieces_def MAX_COMPACT_CHAPTERS_def MAX_COMPACT_SUBTITLE_RECORDS_def or_empty_def encoded_pieces_def
        lit b d [unfolded One_nat_def] flag_def take_chars_def MAX_COMPACT_STREAM_METADATA_BYTES_def)
  then show ?thesis
    by (simp add: encode_compact_stream_metadata_def sample_metadata_def MAX_COMPACT_AUDIO_RECORDS_def)
qed

lemma metadata_roundtrip_witness:
  "\<exists>raw. encode_compact_stream_metadata id sample_metadata = Inr raw \<and>
     timestamp_mode raw = Some ''x'' \<and> has_subtitle_marker raw"
proof -
  obtain raw where r: "encode_compact_stream_metadata id sample_metadata = Inr raw"
    using sample_metadata_encoded by blast
  from metadata_roundtrip [OF sample_metadata_ok r] show ?thesis
    using r by (auto simp: sample_metadata_def)
qed

end
