(* ===== verification/Transcode_Plan.thy ===== *)
theory Transcode_Plan
  imports Clients Compact_Metadata
begin

text \<open>
  Deciding how a title is delivered (\<open>crates/transcode/src/lib.rs\<close>): what the probe says about a
  source, the remap rules of the configuration with their validation, the first rule that names the
  renderer's software and the source, and the plan it gives. The configuration file is read by a library;
  the rules are given as data.
\<close>

subsection \<open>Sources\<close>

datatype container_kind = Mkv | Mp4 | MpegTs | Avi | OtherContainer
datatype video_codec = Hevc | H264 | Mpeg2 | Mpeg4 | OtherVideo
datatype hdr_kind = Sdr | Hdr10 | DolbyVisionProfile7 | DolbyVisionProfile8 | DolbyVisionProfile5 | DolbyVisionOther | UnknownHdr
datatype hardware_decode = NoHardware | Cuda | Vulkan
datatype audio_codec = Aac | Ac3 | Eac3 | TrueHd | Dts | OtherAudio
datatype decision = ServeOriginal | Recode
datatype recode_action = OriginalAction | RemuxP8 | Hdr10Action | AudioAc3 | BrowserAction
datatype audio_action = CopyAudio | ToAc3 | ToAac

record source_media =
  sm_container :: container_kind
  sm_video :: video_codec
  sm_hdr :: hdr_kind
  sm_audio :: audio_codec
  sm_width :: nat
  sm_height :: nat

definition first_codec :: "string \<Rightarrow> string" where
  "first_codec s =
     (case filter (\<lambda>p. p \<noteq> []) (map trim (split_on (CHR '','') s)) of p # _ \<Rightarrow> p | [] \<Rightarrow> [])"

definition audio_codec_of :: "string \<Rightarrow> audio_codec" where
  "audio_codec_of name =
     (if name \<in> {''truehd'', ''atmos''} then TrueHd
      else if name = ''ac3'' then Ac3
      else if name = ''eac3'' then Eac3
      else if name \<in> {''dts'', ''dts-hd''} then Dts
      else if name = ''aac'' then Aac
      else OtherAudio)"

definition audio_codec_from_name :: "string \<Rightarrow> audio_codec" where
  "audio_codec_from_name audio = audio_codec_of (first_codec audio)"

definition browser_audio_codec_from_name :: "string \<Rightarrow> audio_codec" where
  "browser_audio_codec_from_name audio = audio_codec_of (ascii_lower (first_codec audio))"

definition container_of :: "string \<Rightarrow> container_kind" where
  "container_of c =
     (if c = ''mp4'' then Mp4
      else if c = ''avi'' then Avi
      else if c \<in> {''mpeg-ts'', ''ts''} then MpegTs
      else if c = [] then OtherContainer
      else Mkv)"

definition video_codec_of :: "string \<Rightarrow> video_codec" where
  "video_codec_of v =
     (if v \<in> {''h264'', ''avc''} then H264
      else if v = ''mpeg2'' then Mpeg2
      else if v \<in> {''mpeg4'', ''msmpeg4v3'', ''xvid'', ''divx''} then Mpeg4
      else if v \<in> {''hevc'', ''h265''} then Hevc
      else OtherVideo)"

definition hdr_of :: "string \<Rightarrow> hdr_kind" where
  "hdr_of h =
     (if h \<in> {''dv-p7'', ''dvhe.07'', ''profile-7''} then DolbyVisionProfile7
      else if h \<in> {''dv-p8'', ''dvhe.08'', ''profile-8''} then DolbyVisionProfile8
      else if h \<in> {''dv-p5'', ''dvhe.05''} then DolbyVisionProfile5
      else if h = ''hdr10'' then Hdr10
      else if h = ''dv'' then DolbyVisionOther
      else if h = ''sdr'' then Sdr
      else UnknownHdr)"

definition probe_to_source :: "string \<Rightarrow> string \<Rightarrow> string \<Rightarrow> string \<Rightarrow> nat \<Rightarrow> nat \<Rightarrow> source_media" where
  "probe_to_source container video hdr audio w h =
     \<lparr>sm_container = container_of container, sm_video = video_codec_of (first_codec video),
      sm_hdr = hdr_of (first_codec hdr), sm_audio = audio_codec_from_name (first_codec audio),
      sm_width = w, sm_height = h\<rparr>"

subsection \<open>Browser qualities\<close>

datatype browser_quality = AutoQuality | UhdHigh | UhdOptimized | FullHd | DataSaver | Sd480 | Low360

fun quality_id :: "browser_quality \<Rightarrow> string" where
  "quality_id AutoQuality = ''auto''"
| "quality_id UhdHigh = ''uhd_high''"
| "quality_id UhdOptimized = ''uhd_optimized''"
| "quality_id FullHd = ''full_hd''"
| "quality_id DataSaver = ''data_saver''"
| "quality_id Sd480 = ''sd_480''"
| "quality_id Low360 = ''low_360''"

definition max_width :: "browser_quality \<Rightarrow> nat" where
  "max_width q =
     (case q of AutoQuality \<Rightarrow> 3840 | UhdHigh \<Rightarrow> 3840 | UhdOptimized \<Rightarrow> 3840 | FullHd \<Rightarrow> 1920
      | DataSaver \<Rightarrow> 1280 | Sd480 \<Rightarrow> 854 | Low360 \<Rightarrow> 640)"

definition max_height :: "browser_quality \<Rightarrow> nat" where
  "max_height q =
     (case q of AutoQuality \<Rightarrow> 2160 | UhdHigh \<Rightarrow> 2160 | UhdOptimized \<Rightarrow> 2160 | FullHd \<Rightarrow> 1080
      | DataSaver \<Rightarrow> 720 | Sd480 \<Rightarrow> 480 | Low360 \<Rightarrow> 360)"

definition max_fps :: "browser_quality \<Rightarrow> nat" where "max_fps q = 30"

definition mobile_safe_h264 :: "browser_quality \<Rightarrow> bool" where
  "mobile_safe_h264 q \<longleftrightarrow> q \<in> {DataSaver, Sd480, Low360}"

definition h264_profile :: "browser_quality \<Rightarrow> string" where
  "h264_profile q = (if q \<in> {DataSaver, Sd480, Low360} then ''baseline'' else ''high'')"

definition h264_level :: "browser_quality \<Rightarrow> string" where
  "h264_level q =
     (case q of AutoQuality \<Rightarrow> ''5.1'' | UhdHigh \<Rightarrow> ''5.1'' | UhdOptimized \<Rightarrow> ''5.1'' | FullHd \<Rightarrow> ''4.1''
      | DataSaver \<Rightarrow> ''3.1'' | Sd480 \<Rightarrow> ''3.1'' | Low360 \<Rightarrow> ''3.0'')"

definition crf :: "browser_quality \<Rightarrow> nat" where
  "crf q =
     (case q of AutoQuality \<Rightarrow> 20 | UhdHigh \<Rightarrow> 20 | UhdOptimized \<Rightarrow> 22 | FullHd \<Rightarrow> 22 | DataSaver \<Rightarrow> 25
      | Sd480 \<Rightarrow> 26 | Low360 \<Rightarrow> 27)"

definition max_video_kbps :: "browser_quality \<Rightarrow> nat" where
  "max_video_kbps q =
     (case q of AutoQuality \<Rightarrow> 25000 | UhdHigh \<Rightarrow> 25000 | UhdOptimized \<Rightarrow> 16000 | FullHd \<Rightarrow> 8000
      | DataSaver \<Rightarrow> 3000 | Sd480 \<Rightarrow> 1500 | Low360 \<Rightarrow> 800)"

definition buffer_kbps :: "browser_quality \<Rightarrow> nat" where "buffer_kbps q = max_video_kbps q * 2"

definition audio_kbps :: "browser_quality \<Rightarrow> nat" where
  "audio_kbps q = (case q of DataSaver \<Rightarrow> 128 | Sd480 \<Rightarrow> 128 | Low360 \<Rightarrow> 96 | _ \<Rightarrow> 192)"

definition automatic_fallback :: "browser_quality \<Rightarrow> bool" where
  "automatic_fallback q \<longleftrightarrow> q = DataSaver"

definition expected_bandwidth_kbps :: "browser_quality \<Rightarrow> nat" where
  "expected_bandwidth_kbps q = max_video_kbps q + audio_kbps q + 256"

datatype encoding_preset = Balanced | FastStart | MaximumSpeed

fun preset_id :: "encoding_preset \<Rightarrow> string" where
  "preset_id Balanced = ''balanced''"
| "preset_id FastStart = ''fast_start''"
| "preset_id MaximumSpeed = ''maximum_speed''"

definition parse_preset :: "string \<Rightarrow> encoding_preset option" where
  "parse_preset v = List.find (\<lambda>p. preset_id p = v) [Balanced, FastStart, MaximumSpeed]"

subsection \<open>Plans\<close>

record download_track =
  dt_index :: nat
  dt_copy :: bool
  dt_aac :: bool
  dt_channels :: nat
  dt_default :: bool

record ai_upscale =
  au_model :: string
  au_shader_sha256 :: string

record transcode_plan =
  tp_decision :: decision
  tp_action :: recode_action
  tp_rule :: "string option"
  tp_keep_hdr10 :: bool
  tp_drop_dolby_vision :: bool
  tp_video_encoder :: string
  tp_hardware_decode :: hardware_decode
  tp_audio :: audio_action
  tp_container :: string
  tp_audio_index :: nat
  tp_browser_quality :: "browser_quality option"
  tp_browser_ai_upscale :: "ai_upscale option"
  tp_download_audio :: "download_track list option"

definition default_plan :: transcode_plan where
  "default_plan =
     \<lparr>tp_decision = ServeOriginal, tp_action = OriginalAction, tp_rule = None, tp_keep_hdr10 = True,
      tp_drop_dolby_vision = False, tp_video_encoder = ''copy'', tp_hardware_decode = NoHardware,
      tp_audio = CopyAudio, tp_container = ''original'', tp_audio_index = 0, tp_browser_quality = None,
      tp_browser_ai_upscale = None, tp_download_audio = None\<rparr>"

definition hdr10_fallback_plan :: "transcode_plan \<Rightarrow> transcode_plan" where
  "hdr10_fallback_plan p =
     \<lparr>tp_decision = Recode, tp_action = Hdr10Action, tp_rule = tp_rule p, tp_keep_hdr10 = True,
      tp_drop_dolby_vision = True,
      tp_video_encoder = (if tp_video_encoder p = ''copy'' then ''libx264'' else tp_video_encoder p),
      tp_hardware_decode = NoHardware, tp_audio = tp_audio p, tp_container = ''mp4'',
      tp_audio_index = tp_audio_index p, tp_browser_quality = tp_browser_quality p,
      tp_browser_ai_upscale = None, tp_download_audio = tp_download_audio p\<rparr>"

definition lossy_codec :: "string \<Rightarrow> bool" where
  "lossy_codec c \<longleftrightarrow> c \<in> {''aac'', ''ac3'', ''eac3'', ''mp3''}"

fun position :: "('a \<Rightarrow> bool) \<Rightarrow> 'a list \<Rightarrow> nat option" where
  "position P [] = None"
| "position P (x # xs) = (if P x then Some 0 else map_option Suc (position P xs))"

definition pick_audio_index :: "string \<Rightarrow> nat" where
  "pick_audio_index csv =
     (case position lossy_codec (filter (\<lambda>s. s \<noteq> []) (map trim (split_on (CHR '','') csv))) of
        Some i \<Rightarrow> i | None \<Rightarrow> 0)"

definition pick_audio_index_from_metadata :: "string \<Rightarrow> string \<Rightarrow> nat" where
  "pick_audio_index_from_metadata metadata csv =
     (case List.find (\<lambda>r. lossy_codec (ar_codec r)) (audio_records metadata) of
        Some r \<Rightarrow> ar_audio_index r
      | None \<Rightarrow>
          (case audio_records metadata of r # _ \<Rightarrow> ar_audio_index r | [] \<Rightarrow> pick_audio_index csv))"

definition pick_audio_index_from_streams :: "string \<Rightarrow> string \<Rightarrow> nat" where
  "pick_audio_index_from_streams descriptors csv =
     (case parse_metadata descriptors of
        Inl _ \<Rightarrow> pick_audio_index csv
      | Inr m \<Rightarrow> pick_audio_index_from_metadata m csv)"

definition browser_video_encoder :: "string \<Rightarrow> string" where
  "browser_video_encoder configured = (if configured = ''h264_nvenc'' then ''h264_nvenc'' else ''libx264'')"

definition nvenc :: "string \<Rightarrow> bool" where
  "nvenc e \<longleftrightarrow> e \<in> {''h264_nvenc'', ''hevc_nvenc''}"

definition browser_hardware_decode :: "string \<Rightarrow> video_codec \<Rightarrow> hardware_decode" where
  "browser_hardware_decode encoder v = (if nvenc encoder \<and> v = Hevc then Cuda else NoHardware)"

definition browser_sdr_hardware_decode :: "string \<Rightarrow> video_codec \<Rightarrow> hdr_kind \<Rightarrow> hardware_decode" where
  "browser_sdr_hardware_decode encoder v h =
     (if encoder = ''h264_nvenc'' \<and> v = Hevc \<and> h \<in> {Hdr10, DolbyVisionProfile8} then Vulkan
      else browser_hardware_decode encoder v)"

definition browser_hdr_hardware_decode :: "string \<Rightarrow> video_codec \<Rightarrow> hdr_kind \<Rightarrow> hardware_decode" where
  "browser_hdr_hardware_decode encoder v h =
     (if h = DolbyVisionProfile7 then NoHardware else browser_hardware_decode encoder v)"

definition browser_repair_video_encoder :: "string \<Rightarrow> video_codec \<Rightarrow> hdr_kind \<Rightarrow> nat \<Rightarrow> string" where
  "browser_repair_video_encoder configured v h bit_depth =
     (if configured = ''h264_nvenc'' \<and> v = Hevc \<and> bit_depth > 8 \<and> h \<in> {Hdr10, DolbyVisionProfile8}
      then ''hevc_nvenc'' else browser_video_encoder configured)"

subsection \<open>Rules\<close>

record remap_rule =
  rr_name :: "string option"
  rr_client :: "string list"
  rr_container :: "container_kind option"
  rr_video :: "video_codec option"
  rr_hdr :: "hdr_kind option"
  rr_audio :: "audio_codec option"
  rr_action :: recode_action
  rr_encoder :: "string option"
  rr_audio_out :: "audio_action option"

definition software_matches :: "string \<Rightarrow> client_profile \<Rightarrow> string option \<Rightarrow> bool" where
  "software_matches want profile ua =
     (let w = trim want; wl = ascii_lower w;
          ua_has = (\<lambda>s. case ua of Some u \<Rightarrow> str_contains s (ascii_lower u) | None \<Rightarrow> False)
      in if w = [] \<or> eq_ignore_case w ''any'' \<or> w = ''*'' then True
         else if wl \<in> {''google-cast'', ''cast'', ''crkey'', ''streamer'', ''chromecast''}
         then cp_kind profile = GoogleCastKind \<or> ua_has ''crkey''
         else if wl = ''kodi'' then cp_kind profile = KodiKind \<or> ua_has ''kodi''
         else if wl = ''samsung'' then contains (cp_flags profile) F_SAMSUNG
         else if eq_ignore_case (cp_name profile) w then True
         else if (case cp_match_str profile of
                    Some m \<Rightarrow> eq_ignore_case m w \<or> str_contains m w \<or> str_contains w m
                  | None \<Rightarrow> False) then True
         else if ua_has wl then True
         else (case identify_user_agent w of
                 Some p \<Rightarrow> cp_kind p = cp_kind profile \<and> cp_name p = cp_name profile
               | None \<Rightarrow> False))"

definition wildcard :: "'a option \<Rightarrow> 'a \<Rightarrow> bool" where
  "wildcard p x \<longleftrightarrow> (case p of Some y \<Rightarrow> y = x | None \<Rightarrow> True)"

definition rule_matches_ua :: "remap_rule \<Rightarrow> client_profile \<Rightarrow> string option \<Rightarrow> source_media \<Rightarrow> bool" where
  "rule_matches_ua r profile ua src \<longleftrightarrow>
     (rr_client r = [] \<or> list_ex (\<lambda>t. software_matches t profile ua) (rr_client r)) \<and>
     wildcard (rr_container r) (sm_container src) \<and> wildcard (rr_video r) (sm_video src) \<and>
     wildcard (rr_hdr r) (sm_hdr src) \<and> wildcard (rr_audio r) (sm_audio src)"

definition rule_matches :: "remap_rule \<Rightarrow> client_profile \<Rightarrow> source_media \<Rightarrow> bool" where
  "rule_matches r profile src = rule_matches_ua r profile None src"

definition unwrap_or :: "'a option \<Rightarrow> 'a \<Rightarrow> 'a" where
  "unwrap_or x d = (case x of Some y \<Rightarrow> y | None \<Rightarrow> d)"

definition plan_from_rule :: "remap_rule \<Rightarrow> source_media \<Rightarrow> string option \<Rightarrow> transcode_plan" where
  "plan_from_rule r src default_encoder =
     (case rr_action r of
        OriginalAction \<Rightarrow> default_plan\<lparr>tp_rule := rr_name r\<rparr>
      | RemuxP8 \<Rightarrow>
          \<lparr>tp_decision = Recode, tp_action = RemuxP8, tp_rule = rr_name r, tp_keep_hdr10 = False,
           tp_drop_dolby_vision = False, tp_video_encoder = unwrap_or (rr_encoder r) ''copy'',
           tp_hardware_decode = NoHardware, tp_audio = unwrap_or (rr_audio_out r) CopyAudio,
           tp_container = ''mp4'', tp_audio_index = 0, tp_browser_quality = None,
           tp_browser_ai_upscale = None, tp_download_audio = None\<rparr>
      | Hdr10Action \<Rightarrow>
          \<lparr>tp_decision = Recode, tp_action = Hdr10Action, tp_rule = rr_name r, tp_keep_hdr10 = True,
           tp_drop_dolby_vision = True,
           tp_video_encoder = unwrap_or (rr_encoder r) (unwrap_or default_encoder ''hevc_nvenc''),
           tp_hardware_decode = NoHardware,
           tp_audio = unwrap_or (rr_audio_out r) (if sm_audio src \<in> {Ac3, Eac3, Aac} then CopyAudio else ToAc3),
           tp_container = ''mp4'', tp_audio_index = 0, tp_browser_quality = None,
           tp_browser_ai_upscale = None, tp_download_audio = None\<rparr>
      | AudioAc3 \<Rightarrow>
          \<lparr>tp_decision = Recode, tp_action = AudioAc3, tp_rule = rr_name r,
           tp_keep_hdr10 = (sm_hdr src \<noteq> Sdr), tp_drop_dolby_vision = False,
           tp_video_encoder = unwrap_or (rr_encoder r) ''copy'', tp_hardware_decode = NoHardware,
           tp_audio = unwrap_or (rr_audio_out r) ToAc3, tp_container = ''original'', tp_audio_index = 0,
           tp_browser_quality = None, tp_browser_ai_upscale = None, tp_download_audio = None\<rparr>
      | BrowserAction \<Rightarrow> default_plan)"

definition decide_for_with_default_encoder ::
  "client_profile \<Rightarrow> string option \<Rightarrow> source_media \<Rightarrow> remap_rule list \<Rightarrow> string option \<Rightarrow> transcode_plan" where
  "decide_for_with_default_encoder profile ua src rules default_encoder =
     (if sm_hdr src = UnknownHdr then default_plan
      else case List.find (\<lambda>r. rule_matches_ua r profile ua src) rules of
             None \<Rightarrow> default_plan
           | Some r \<Rightarrow> plan_from_rule r src default_encoder)"

definition decide_for ::
  "client_profile \<Rightarrow> string option \<Rightarrow> source_media \<Rightarrow> remap_rule list \<Rightarrow> transcode_plan" where
  "decide_for profile ua src rules = decide_for_with_default_encoder profile ua src rules None"

definition decide :: "client_profile \<Rightarrow> source_media \<Rightarrow> remap_rule list \<Rightarrow> transcode_plan" where
  "decide profile src rules = decide_for profile None src rules"

definition decide_ua :: "string \<Rightarrow> source_media \<Rightarrow> remap_rule list \<Rightarrow> transcode_plan" where
  "decide_ua ua src rules =
     (case (case identify_user_agent ua of None \<Rightarrow> identify_x_av_client_info ua | p \<Rightarrow> p) of
        None \<Rightarrow> default_plan
      | Some p \<Rightarrow> decide_for p (Some ua) src rules)"

subsection \<open>Validation\<close>

text \<open>A rule in an error is named, or numbered from one.\<close>

datatype remap_error =
  BadDefaultEncoder string
| InvalidEncoder string string
| OriginalWithOutputs string
| RemuxMustCopy string
| RemuxOnlyHevc string
| RemuxNeedsProfile7 string
| Hdr10MustEncode string
| AudioMustCopy string
| BrowserReserved string

definition valid_codec_name :: "string \<Rightarrow> bool" where
  "valid_codec_name name \<longleftrightarrow>
     name \<noteq> [] \<and> length name \<le> 64 \<and>
     list_all (\<lambda>c. is_alphanumeric c \<or> c \<in> {CHR ''_'', CHR ''-'', CHR ''.''}) name"

definition rule_label :: "nat \<Rightarrow> remap_rule \<Rightarrow> string" where
  "rule_label index r = (case rr_name r of Some n \<Rightarrow> n | None \<Rightarrow> ''remap #'' @ decimal (index + 1))"

definition option_is :: "('a \<Rightarrow> bool) \<Rightarrow> 'a option \<Rightarrow> bool" where
  "option_is P x \<longleftrightarrow> (case x of Some y \<Rightarrow> P y | None \<Rightarrow> False)"

definition validate_rule :: "string \<Rightarrow> nat \<Rightarrow> remap_rule \<Rightarrow> remap_error + unit" where
  "validate_rule default_encoder index r =
     (let label = rule_label index r
      in if option_is (\<lambda>e. \<not> valid_codec_name e) (rr_encoder r)
         then Inl (InvalidEncoder label (unwrap_or (rr_encoder r) []))
         else
           case rr_action r of
             OriginalAction \<Rightarrow>
               if rr_encoder r \<noteq> None \<or> rr_audio_out r \<noteq> None then Inl (OriginalWithOutputs label) else Inr ()
           | RemuxP8 \<Rightarrow>
               if option_is (\<lambda>e. e \<noteq> ''copy'') (rr_encoder r) then Inl (RemuxMustCopy label)
               else if option_is (\<lambda>v. v \<noteq> Hevc) (rr_video r) then Inl (RemuxOnlyHevc label)
               else if option_is (\<lambda>h. h \<notin> {DolbyVisionProfile7, DolbyVisionOther}) (rr_hdr r)
               then Inl (RemuxNeedsProfile7 label)
               else Inr ()
           | Hdr10Action \<Rightarrow>
               if unwrap_or (rr_encoder r) default_encoder = ''copy'' then Inl (Hdr10MustEncode label) else Inr ()
           | AudioAc3 \<Rightarrow>
               if option_is (\<lambda>e. e \<noteq> ''copy'') (rr_encoder r) then Inl (AudioMustCopy label) else Inr ()
           | BrowserAction \<Rightarrow> Inl (BrowserReserved label))"

fun validate_rules :: "string \<Rightarrow> nat \<Rightarrow> remap_rule list \<Rightarrow> remap_error + unit" where
  "validate_rules default_encoder index [] = Inr ()"
| "validate_rules default_encoder index (r # rs) =
     bind_res (validate_rule default_encoder index r) (\<lambda>_. validate_rules default_encoder (Suc index) rs)"

definition validate_remap_rules :: "remap_rule list \<Rightarrow> string \<Rightarrow> remap_error + unit" where
  "validate_remap_rules rules default_encoder =
     (if \<not> valid_codec_name default_encoder \<or> default_encoder = ''copy'' then Inl (BadDefaultEncoder default_encoder)
      else validate_rules default_encoder 0 rules)"

end
