(* ===== verification/Soap_Items.thy ===== *)
theory Soap_Items
  imports Query_Memory Soap_Dispatch Transcode_Plan Http_Response
begin

text \<open>
  Catalogue rows as DIDL objects (\<open>crates/server/src/http_app.rs\<close>): the resources an item is offered
  with, its captions and artwork, and the counts of a container. The rows are rendered under the
  control of the request's query, so counting may be stopped. The default caption is chosen in
  \<open>crates/scan/src/lib.rs\<close>.
\<close>

subsection \<open>Paths\<close>

text \<open>\<open>Path::file_name\<close> and \<open>Path::file_stem\<close> on the bytes of a path.\<close>

definition path_components :: "string \<Rightarrow> string list" where
  "path_components p = filter (\<lambda>c. c \<noteq> [] \<and> c \<noteq> ''.'') (split_on (CHR ''/'') p)"

definition path_file_name :: "string \<Rightarrow> string option" where
  "path_file_name p =
     (let cs = path_components p in if cs = [] \<or> last cs = ''..'' then None else Some (last cs))"

definition path_file_stem :: "string \<Rightarrow> string option" where
  "path_file_stem p =
     map_option (\<lambda>name. case rsplit_once (CHR ''.'') name of Some (before, _) \<Rightarrow> if before = [] then name else before
                       | None \<Rightarrow> name) (path_file_name p)"

definition ascii_upper :: "string \<Rightarrow> string" where
  "ascii_upper = map (\<lambda>c. if is_lower c then char_of (bval c - 32) else c)"

subsection \<open>The default caption\<close>

text \<open>\<open>min_by_key\<close>: the first of the smallest.\<close>

definition min_by_key :: "('a \<Rightarrow> 'b::linorder) \<Rightarrow> 'a list \<Rightarrow> 'a option" where
  "min_by_key rank xs = (case xs of [] \<Rightarrow> None | x # ys \<Rightarrow> Some (foldl (\<lambda>m y. if rank y < rank m then y else m) x ys))"

definition caption_variant_for_media :: "string \<Rightarrow> string \<Rightarrow> string option" where
  "caption_variant_for_media sidecar media =
     Option.bind (path_file_stem sidecar) (\<lambda>base.
     Option.bind (path_file_stem media) (\<lambda>stem.
     Option.bind (strip_prefix stem base) (\<lambda>variant.
       if variant = [] then Some variant
       else case strip_prefix ''.'' variant of Some v \<Rightarrow> if v = [] then None else Some v | None \<Rightarrow> None)))"

definition caption_rank :: "string \<Rightarrow> caption \<Rightarrow> nat list" where
  "caption_rank media c =
     [if eq_ignore_case (ca_ext c) ''srt'' then 0 else if eq_ignore_case (ca_ext c) ''smi'' then 1 else 2,
      case caption_variant_for_media (ca_path c) media of None \<Rightarrow> 1 | Some v \<Rightarrow> if v = [] then 0 else 1,
      ca_index c]"

definition default_caption :: "string \<Rightarrow> caption list \<Rightarrow> caption option" where
  "default_caption media cs = min_by_key (caption_rank media) cs"

text \<open>The advertisement: the type label and the URL.\<close>

definition default_caption_advertisement :: "string \<Rightarrow> nat \<Rightarrow> media_item \<Rightarrow> (string \<times> string) option" where
  "default_caption_advertisement host port it =
     map_option (\<lambda>c. (ascii_upper (ca_ext c),
         if eq_ignore_case (ca_ext c) ''srt'' then caption_default_url host port (it_detail_id it)
         else caption_indexed_url host port (it_detail_id it) (ca_index c) (ca_ext c)))
       (default_caption (it_path it) (it_captions it))"

definition caption_http_mime :: "string \<Rightarrow> string" where
  "caption_http_mime ext = (case caption_format_for_extension ext of Some f \<Rightarrow> cf_mime f | None \<Rightarrow> ''text/plain'')"

subsection \<open>The application's settings\<close>

record soap_app =
  sa_uuid :: string
  sa_root_container :: "string option"
  sa_http_port :: nat
  sa_host :: string
  sa_transcode_enable :: bool
  sa_encoder :: string
  sa_remaps :: "remap_rule list"

definition app_transcode_plan :: "soap_app \<Rightarrow> client_profile \<Rightarrow> string option \<Rightarrow> source_media \<Rightarrow> transcode_plan" where
  "app_transcode_plan app c ua src =
     (if \<not> sa_transcode_enable app then default_plan
      else decide_for_with_default_encoder c ua src (sa_remaps app) (Some (sa_encoder app)))"

definition browse_plan :: "soap_app \<Rightarrow> client_profile \<Rightarrow> string option \<Rightarrow> media_item \<Rightarrow> transcode_plan" where
  "browse_plan app c ua it =
     (let p = it_probe it
      in app_transcode_plan app c ua
           (probe_to_source (sp_container p) (sp_video p) (sp_hdr p) (sp_audio p) (sp_width p) (sp_height p)))"

subsection \<open>Resources\<close>

definition plain_res :: "string \<Rightarrow> string \<Rightarrow> didl_res" where
  "plain_res url info =
     \<lparr>dr_url = url, dr_protocol_info = info, dr_size = None, dr_duration = None, dr_bitrate = None,
      dr_resolution = None, dr_sample_frequency = None, dr_nr_audio_channels = None,
      dr_pv_subtitle_type = None, dr_pv_subtitle_uri = None\<rparr>"

definition parse_wh :: "string option \<Rightarrow> nat \<times> nat" where
  "parse_wh res =
     (case Option.bind res (split_once (CHR ''x'')) of
        None \<Rightarrow> (0, 0)
      | Some (w, h) \<Rightarrow> (u32_or_zero w, u32_or_zero h))"

definition resized_didl :: "soap_app \<Rightarrow> media_item \<Rightarrow> nat \<Rightarrow> nat \<Rightarrow> string \<Rightarrow> didl_res" where
  "resized_didl app it w h pn =
     (plain_res
        (http_base (sa_host app) (sa_http_port app) @ ''/Resized/'' @ int_decimal (it_detail_id it) @
           ''.jpg?width='' @ decimal w @ '',height='' @ decimal h)
        (''http-get:*:image/jpeg:'' @ dlna_org_features (Some pn) ''01'' 1 ''image/jpeg''))
     \<lparr>dr_resolution := Some (decimal w @ ''x'' @ decimal h)\<rparr>"

definition item_bitrate :: "client_profile \<Rightarrow> media_item \<Rightarrow> int option" where
  "item_bitrate c it =
     (if contains (cp_flags c) F_MS_PFS then map_option (\<lambda>b. trunc_div b 8) (it_bitrate it) else it_bitrate it)"

definition original_res :: "soap_app \<Rightarrow> media_item \<Rightarrow> client_profile \<Rightarrow> didl_res" where
  "original_res app it c =
     \<lparr>dr_url = media_item_url (sa_host app) (sa_http_port app) (it_detail_id it) (it_ext it),
      dr_protocol_info =
        protocol_info (remap_mime_full c (it_mime it) (it_creator it) (it_dlna_pn it)) (it_dlna_pn it)
          (contains (cp_flags c) F_DLNA) (contains (cp_flags c) F_SKIP_DLNA_PN) 0,
      dr_size = Some (it_size it), dr_duration = it_duration it, dr_bitrate = item_bitrate c it,
      dr_resolution = it_resolution it, dr_sample_frequency = it_samplerate it,
      dr_nr_audio_channels = it_channels it, dr_pv_subtitle_type = None, dr_pv_subtitle_uri = None\<rparr>"

definition remap_res :: "soap_app \<Rightarrow> media_item \<Rightarrow> didl_res" where
  "remap_res app it =
     \<lparr>dr_url = transcode_item_url (sa_host app) (sa_http_port app) (it_detail_id it),
      dr_protocol_info = ''http-get:*:video/mp4:'' @ dlna_org_features None ''00'' 1 ''video/mp4'',
      dr_size = None, dr_duration = it_duration it, dr_bitrate = None, dr_resolution = it_resolution it,
      dr_sample_frequency = it_samplerate it, dr_nr_audio_channels = it_channels it,
      dr_pv_subtitle_type = None, dr_pv_subtitle_uri = None\<rparr>"

text \<open>The smaller images an image is also offered as.\<close>

definition image_res :: "soap_app \<Rightarrow> media_item \<Rightarrow> client_profile \<Rightarrow> didl_res list" where
  "image_res app it c =
     (let (w, h) = parse_wh (it_resolution it)
      in (if contains (cp_flags c) F_NO_RESIZE then []
          else (if w > 4096 \<or> h > 4096 then [resized_didl app it 4096 4096 ''JPEG_LRG''] else []) @
               (if w > 1024 \<or> h > 768 then [resized_didl app it 1024 768 ''JPEG_MED''] else []) @
               (if w > 640 \<or> h > 480 then [resized_didl app it 640 480 ''JPEG_SM''] else [])) @
         (if contains (cp_flags c) F_RESIZE_THUMBS then [resized_didl app it 160 160 ''JPEG_TN'']
          else [plain_res
             (http_base (sa_host app) (sa_http_port app) @ ''/Thumbnails/'' @ int_decimal (it_detail_id it) @ ''.jpg'')
             ''http-get:*:image/jpeg:DLNA.ORG_PN=JPEG_TN;DLNA.ORG_CI=1'']))"

definition caption_res :: "soap_app \<Rightarrow> media_item \<Rightarrow> didl_res list" where
  "caption_res app it =
     map (\<lambda>cap. plain_res
         (caption_indexed_url (sa_host app) (sa_http_port app) (it_detail_id it) (ca_index cap) (ca_ext cap))
         (''http-get:*:'' @ caption_http_mime (ca_ext cap) @ '':*'')) (it_captions it)"

fun set_subtitle :: "(string \<times> string) option \<Rightarrow> didl_res list \<Rightarrow> didl_res list" where
  "set_subtitle (Some (label, url)) (r # rs) =
     r\<lparr>dr_pv_subtitle_type := Some label, dr_pv_subtitle_uri := Some url\<rparr> # rs"
| "set_subtitle _ rs = rs"

definition extra_res :: "soap_app \<Rightarrow> media_item \<Rightarrow> client_profile \<Rightarrow> didl_res list" where
  "extra_res app it c =
     map (\<lambda>(emime, info). (original_res app it c)
            \<lparr>dr_protocol_info := ''http-get:*:'' @ emime @ '':'' @ info\<rparr>)
       (extra_ci1_protocol_infos (cp_kind c) (it_mime it) (it_dlna_pn it))"

definition video_album_art :: "soap_app \<Rightarrow> media_item \<Rightarrow> client_profile \<Rightarrow> didl_res list" where
  "video_album_art app it c =
     (if it_album_art it \<le> 0 \<or> \<not> str_contains ''video'' (it_class it) then []
      else if contains (cp_flags c) F_MS_PFS then []
      else
        let url = album_art_url (sa_host app) (sa_http_port app) (it_album_art it) (it_detail_id it)
        in plain_res url ''http-get:*:image/jpeg:DLNA.ORG_PN=JPEG_TN'' #
           (if cp_kind c = SamsungSeriesCdeKind
            then [(plain_res url (''http-get:*:image/jpeg:'' @ dlna_org_features (Some ''JPEG_SM'') ''01'' 1 ''image/jpeg''))
                    \<lparr>dr_resolution := Some ''320x320''\<rparr>]
            else []))"

definition item_resources ::
  "soap_app \<Rightarrow> media_item \<Rightarrow> client_profile \<Rightarrow> string option \<Rightarrow> filter_bits \<Rightarrow> didl_res list" where
  "item_resources app it c ua bits =
     (let recode = tp_decision (browse_plan app c ua it) = Recode;
          res = (if recode then [remap_res app it, original_res app it c]
                 else original_res app it c # (if prefix ''image/'' (it_mime it) then image_res app it c else []));
          res = res @ (if contains (cp_flags c) F_CAPTION_RES then caption_res app it else []);
          res = (if fb_pv bits
                 then set_subtitle (default_caption_advertisement (sa_host app) (sa_http_port app) it) res else res);
          res = res @ (if recode then [] else extra_res app it c)
      in res @ video_album_art app it c)"

subsection \<open>Objects\<close>

definition client_wants_art_profile :: "client_profile \<Rightarrow> bool" where
  "client_wants_art_profile c \<longleftrightarrow>
     contains (cp_flags c) F_SAMSUNG \<or>
     cp_kind c \<in> {SamsungBdJ5500Kind, SamsungSeriesCdeBdpKind, SamsungSeriesQKind, SamsungSeriesCdeKind,
                   SamsungSeriesAKind, SamsungSeriesBKind}"

definition bookmark_position :: "client_profile \<Rightarrow> media_item \<Rightarrow> int" where
  "bookmark_position c it =
     (if contains (cp_flags c) F_CONVERT_MS
      then max i64_min (min i64_max (it_bookmark_sec it * 1000)) else it_bookmark_sec it)"

definition item_object ::
  "soap_app \<Rightarrow> client_profile \<Rightarrow> string option \<Rightarrow> filter_bits \<Rightarrow> media_item \<Rightarrow> didl_object" where
  "item_object app c ua bits it =
     (let audio = str_contains ''audio'' (it_class it); video = str_contains ''video'' (it_class it);
          pos = bookmark_position c it; marked = it_bookmark_sec it > 0
      in \<lparr>do_id = it_object_id it, do_parent_id = it_parent_id it,
          do_title = apply_title_hack (it_title it) (it_ext it) c (it_captions it \<noteq> []),
          do_class = it_class it, do_date = Some (w3c_normalize_date (it_date it)), do_restricted = True,
          do_searchable = None, do_child_count = None, do_child_container_count = None,
          do_is_container = False, do_resources = item_resources app it c ua bits,
          do_album_art_uri = (if (audio \<or> video) \<and> it_album_art it > 0
            then Some (album_art_url (sa_host app) (sa_http_port app) (it_album_art it) (it_detail_id it)) else None),
          do_album_art_profile = ((audio \<or> video) \<and> client_wants_art_profile c),
          do_creator = it_creator it, do_description = it_about it, do_artist = it_artist it,
          do_actor = (if video then it_artist it else None), do_album = it_album it, do_genre = it_genre it,
          do_track = (if audio then it_track it else None), do_season = (if video then it_disc it else None),
          do_episode = (if video then it_track it else None),
          do_captions = map (\<lambda>cap. \<lparr>dc_ext = ca_ext cap, dc_url = caption_indexed_url (sa_host app)
            (sa_http_port app) (it_detail_id it) (ca_index cap) (ca_ext cap)\<rparr>) (it_captions it),
          do_last_playback_position = (if marked then Some pos else None),
          do_playback_count = (if it_watch_count it > 0 then Some (it_watch_count it) else None),
          do_dcm_info = (if fb_sec bits \<and> marked
            then Some (''CREATIONDATE=0,FOLDER='' @ it_title it @ '',BM='' @ int_decimal pos) else None),
          do_ref_id = it_ref_id it, do_search_classes = [], do_av_media_class = None\<rparr>)"

definition container_object :: "folder \<Rightarrow> nat option \<Rightarrow> nat option \<Rightarrow> didl_object" where
  "container_object f children containers =
     \<lparr>do_id = ct_object_id f, do_parent_id = ct_parent_id f, do_title = ct_title f, do_class = ct_class f,
      do_date = None, do_restricted = True, do_searchable = Some (ct_searchable f),
      do_child_count = children, do_child_container_count = containers, do_is_container = True,
      do_resources = [], do_album_art_uri = None, do_album_art_profile = False, do_creator = None,
      do_description = None, do_artist = None, do_actor = None, do_album = None, do_genre = None,
      do_track = None, do_season = None, do_episode = None, do_captions = [],
      do_last_playback_position = None, do_playback_count = None, do_dcm_info = None, do_ref_id = None,
      do_search_classes = (if ct_object_id f = ROOT_ID
        then [''object.item.audioItem'', ''object.item.imageItem'', ''object.item.videoItem''] else []),
      do_av_media_class = (case ct_object_id f of
          [] \<Rightarrow> None
        | ch # _ \<Rightarrow> if ch = CHR ''1'' then Some ''M'' else if ch = CHR ''2'' then Some ''V''
                   else if ch = CHR ''3'' then Some ''P'' else None)\<rparr>"

fun to_didl_ref ::
  "soap_app \<Rightarrow> catalog \<Rightarrow> client_profile \<Rightarrow> string option \<Rightarrow> filter_bits \<Rightarrow> catalog_child \<Rightarrow> didl_object query" where
  "to_didl_ref app cat c ua bits (ContainerChild f) =
     q_bind (q_ok (q_displayed_child_count (ct_object_id f) cat)) (\<lambda>children.
     q_bind (q_ok (q_displayed_container_count (ct_object_id f) cat)) (\<lambda>containers.
       q_ret (container_object f children containers)))"
| "to_didl_ref app cat c ua bits (ItemChild it) = q_ret (item_object app c ua bits it)"

end
