(* ===== verification/Advertised_Urls.thy ===== *)
theory Advertised_Urls
  imports Root_Desc Soap_Items Http_Service Event_Messages
begin

text \<open>
  The URLs the server hands out to renderers (the location of the device, the root description and the
  DIDL objects of items) against the router and the handlers' path parsers
  (\<open>thumbnail\<close>, \<open>resized\<close>, \<open>caption\<close>, \<open>icon_response\<close> and \<open>parse_resize_query\<close> in
  \<open>crates/server/src/http_app.rs\<close>): every one of them is requested back as what it stands for.
\<close>

subsection \<open>What the handlers read from a request\<close>

definition thumbnail_id_from_path :: "string \<Rightarrow> int option" where
  "thumbnail_id_from_path path =
     strtoll_prefix (case strip_prefix THUMBNAILS_PREFIX path of Some rest \<Rightarrow> rest | None \<Rightarrow> [])"

definition resized_id_from_path :: "string \<Rightarrow> int option" where
  "resized_id_from_path path =
     strtoll_prefix (case strip_prefix RESIZED_PREFIX path of Some rest \<Rightarrow> rest | None \<Rightarrow> [])"

definition edge_or :: "nat \<Rightarrow> string \<Rightarrow> nat" where
  "edge_or old v = max 1 (min 4096 (case parse_uint u32_max v of Some n \<Rightarrow> n | None \<Rightarrow> old))"

definition resize_part :: "nat \<times> nat \<Rightarrow> string \<Rightarrow> nat \<times> nat" where
  "resize_part = (\<lambda>(w, h) raw.
     let part = trim raw in
     case strip_prefix ''width='' part of
       Some v \<Rightarrow> (edge_or w v, h)
     | None \<Rightarrow> (case strip_prefix ''height='' part of Some v \<Rightarrow> (w, edge_or h v) | None \<Rightarrow> (w, h)))"

text \<open>Commas and ampersands separate the parts.\<close>

definition parse_resize_query :: "string \<Rightarrow> nat \<times> nat" where
  "parse_resize_query query =
     foldl resize_part (160, 160) (concat (map (split_on (CHR ''&'')) (split_on (CHR '','') query)))"

text \<open>The type of an icon and whether it is the large one.\<close>

definition icon_kind :: "string \<Rightarrow> string \<times> bool" where
  "icon_kind path =
     (let lower = ascii_lower path
      in (if suffix ''.jpg'' lower \<or> suffix ''.jpeg'' lower then ''image/jpeg'' else ''image/png'',
          str_contains ''/lrg.'' lower))"

text \<open>The sidecar a caption request asks for; captions inside the media file are answered elsewhere.\<close>

definition requested_caption :: "media_item \<Rightarrow> string \<Rightarrow> caption option" where
  "requested_caption it path =
     (if str_contains ''/embedded/'' path then None
      else case caption_route_from_path path of
        None \<Rightarrow> None
      | Some (_, DefaultCaption) \<Rightarrow> default_caption (it_path it) (it_captions it)
      | Some (_, CaptionIndex i) \<Rightarrow> find (\<lambda>c. ca_index c = i) (it_captions it))"

subsection \<open>URLs as requests\<close>

text \<open>The path and the query a client asks this server for when it follows a URL.\<close>

definition request_of_url :: "string \<Rightarrow> nat \<Rightarrow> string \<Rightarrow> (string \<times> string) option" where
  "request_of_url host port url =
     map_option (\<lambda>target. case split_once (CHR ''?'') target of Some pq \<Rightarrow> pq | None \<Rightarrow> (target, []))
       (strip_prefix (http_base host port) url)"

datatype link = MediaLink | TranscodeLink | AlbumArtLink | ThumbnailLink | ResizedLink nat nat | CaptionLink caption

text \<open>A request of a method is handled as a link of an item: by its route, its identifiers and its options.\<close>

fun link_handled :: "string \<Rightarrow> media_item \<Rightarrow> link \<Rightarrow> string \<times> string \<Rightarrow> bool" where
  "link_handled m it MediaLink (path, query) =
     (route m path = MediaItem \<and> media_item_id_from_path path = Some (it_detail_id it))"
| "link_handled m it TranscodeLink (path, query) =
     (route m path = Transcode \<and> transcode_id_from_path path = Some (it_detail_id it))"
| "link_handled m it AlbumArtLink (path, query) =
     (route m path = AlbumArt \<and> album_art_id_from_path path = Some (it_album_art it))"
| "link_handled m it ThumbnailLink (path, query) =
     (route m path = Thumbnail \<and> thumbnail_id_from_path path = Some (it_detail_id it))"
| "link_handled m it (ResizedLink w h) (path, query) =
     (route m path = Resized \<and> resized_id_from_path path = Some (it_detail_id it) \<and> parse_resize_query query = (w, h))"
| "link_handled m it (CaptionLink cap) (path, query) =
     (route m path = Caption \<and> map_option fst (caption_route_from_path path) = Some (it_detail_id it) \<and>
      requested_caption it path = Some cap)"

definition served :: "string \<Rightarrow> soap_app \<Rightarrow> media_item \<Rightarrow> link \<Rightarrow> string \<Rightarrow> bool" where
  "served m app it l url =
     (case request_of_url (sa_host app) (sa_http_port app) url of None \<Rightarrow> False | Some pq \<Rightarrow> link_handled m it l pq)"

text \<open>What a resource says about its URL.\<close>

fun res_describes :: "media_item \<Rightarrow> link \<Rightarrow> didl_res \<Rightarrow> bool" where
  "res_describes it MediaLink r = (dr_size r = Some (it_size it))"
| "res_describes it TranscodeLink r = (dr_size r = None \<and> prefix ''http-get:*:video/mp4:'' (dr_protocol_info r))"
| "res_describes it AlbumArtLink r = (it_album_art it > 0)"
| "res_describes it ThumbnailLink r = prefix ''image/'' (it_mime it)"
| "res_describes it (ResizedLink w h) r = (dr_resolution r = Some (decimal w @ ''x'' @ decimal h))"
| "res_describes it (CaptionLink cap) r =
     (cap \<in> set (it_captions it) \<and> dr_protocol_info r = ''http-get:*:'' @ caption_http_mime (ca_ext cap) @ '':*'')"

subsection \<open>Following a URL\<close>

lemma request_of_base:
  "CHR ''?'' \<notin> set p \<Longrightarrow> request_of_url host port (http_base host port @ p) = Some (p, [])"
  "CHR ''?'' \<notin> set p \<Longrightarrow> request_of_url host port (http_base host port @ p @ CHR ''?'' # q) = Some (p, q)"
  by (simp_all add: request_of_url_def split_once_None [THEN iffD2] split_once_append)

lemma request_of_ext:
  assumes "CHR ''?'' \<notin> set p"
  shows "\<exists>e q. request_of_url host port (http_base host port @ p @ ext) = Some (p @ e, q) \<and> set e \<subseteq> set ext \<and> CHR ''?'' \<notin> set e"
proof (cases "split_once (CHR ''?'') ext")
  case None
  then have "CHR ''?'' \<notin> set ext" by (simp add: split_once_None)
  then show ?thesis using assms by - (rule exI [of _ ext], rule exI [of _ "[]"], simp add: request_of_base)
next
  case (Some eq)
  obtain e q where eq: "eq = (e, q)" by force
  then have "ext = e @ CHR ''?'' # q" "CHR ''?'' \<notin> set e" using split_once_SomeD [of _ ext e q] Some by auto
  then show ?thesis using assms request_of_base(2) [of "p @ e" host port q]
    by - (rule exI [of _ e], rule exI [of _ q], auto)
qed

lemma route_image_paths:
  "route_get (THUMBNAILS_PREFIX @ s) = Thumbnail" "route_get (RESIZED_PREFIX @ s) = Resized"
  by (simp_all add: route_get_def path_defs web_assets_def)

lemma no_query_prefixes [simp]:
  "CHR ''?'' \<notin> set MEDIA_ITEMS_PREFIX" "CHR ''?'' \<notin> set TRANSCODE_PREFIX" "CHR ''?'' \<notin> set ALBUM_ART_PREFIX"
  "CHR ''?'' \<notin> set CAPTIONS_PREFIX" "CHR ''?'' \<notin> set THUMBNAILS_PREFIX" "CHR ''?'' \<notin> set RESIZED_PREFIX"
  by (simp_all add: path_defs)

lemma parse_resize_back:
  assumes "1 \<le> w" "w \<le> 4096" "1 \<le> h" "h \<le> 4096"
  shows "parse_resize_query (''width='' @ decimal w @ '',height='' @ decimal h) = (w, h)"
proof -
  have sep: "CHR '','' \<notin> set (decimal n)" "CHR ''&'' \<notin> set (decimal n)" for n
    by (auto dest: set_decimal simp: is_digit_def)
  have parts: "split_on (CHR '','') (''width='' @ decimal w @ '',height='' @ decimal h) = [''width='' @ decimal w, ''height='' @ decimal h]"
    using split_on_append [of "CHR '',''" "''width='' @ decimal w" "''height='' @ decimal h"] sep by (simp add: split_on_no_sep)
  have t: "trim (''width='' @ decimal n) = ''width='' @ decimal n" "trim (''height='' @ decimal n) = ''height='' @ decimal n" for n
  proof -
    have "graphic (last (decimal n))" using set_decimal [OF last_in_set [OF decimal_ne]] by (simp add: digit_graphic)
    then show "trim (''width='' @ decimal n) = ''width='' @ decimal n" "trim (''height='' @ decimal n) = ''height='' @ decimal n"
      by (intro trim_id; simp add: graphic_def)+
  qed
  have edge: "edge_or old (decimal n) = n" if "1 \<le> n" "n \<le> 4096" for old n
    using that by (simp add: edge_or_def u32_max_def)
  have "strip_prefix ''width='' (''height='' @ x) = None" for x by (simp add: strip_prefix_None)
  then show ?thesis
    using edge assms sep t
    by (simp add: parse_resize_query_def parts split_on_no_sep resize_part_def Let_def del: append.simps)
qed

subsection \<open>Captions\<close>

lemma contains_skip: "d \<notin> set a \<Longrightarrow> str_contains (d # x) (a @ s) = str_contains (d # x) s"
  by (induction a) auto

lemma contains_absent: "d \<notin> set a \<Longrightarrow> \<not> str_contains (d # x) a"
  by (induction a) auto

lemma caption_path_not_embedded:
  assumes "CHR ''/'' \<notin> set e"
  shows "\<not> str_contains ''/embedded/'' (CAPTIONS_PREFIX @ int_decimal i @ ''/'' @ decimal n @ ''.'' @ e)"
    "\<not> str_contains ''/embedded/'' (CAPTIONS_PREFIX @ int_decimal i @ ''.srt'')"
proof -
  have plain: "CHR ''/'' \<notin> set (int_decimal i)" "CHR ''/'' \<notin> set (decimal n)"
    by (auto dest: int_decimal_chars set_decimal simp: is_digit_def)
  have head: "\<not> prefix ''embedded/'' (int_decimal i @ s)" "\<not> prefix ''embedded/'' (decimal n @ s)" for s
  proof -
    have "hd (int_decimal i) \<noteq> CHR ''e''" "hd (decimal n) \<noteq> CHR ''e''"
      using int_decimal_chars [OF hd_in_set [OF int_decimal_ne [of i]]] hd_decimal [of n] by (auto simp: is_digit_def)
    then show "\<not> prefix ''embedded/'' (int_decimal i @ s)" "\<not> prefix ''embedded/'' (decimal n @ s)"
      by (cases "int_decimal i"; cases "decimal n"; auto)+
  qed
  have rest: "\<not> str_contains ''/embedded/'' (int_decimal i @ ''/'' @ decimal n @ ''.'' @ e)"
    "\<not> str_contains ''/embedded/'' (int_decimal i @ ''.srt'')"
    using assms head(2) contains_skip [OF plain(1)] contains_skip [OF plain(2)] contains_absent [OF assms] by simp_all
  show "\<not> str_contains ''/embedded/'' (CAPTIONS_PREFIX @ int_decimal i @ ''/'' @ decimal n @ ''.'' @ e)"
    "\<not> str_contains ''/embedded/'' (CAPTIONS_PREFIX @ int_decimal i @ ''.srt'')"
    unfolding CAPTIONS_PREFIX_def using head(1) rest by simp_all
qed

lemma min_by_key_in: "min_by_key rank xs = Some x \<Longrightarrow> x \<in> set xs"
proof -
  have "foldl (\<lambda>m y. if rank y < rank m then y else m) a ys \<in> insert a (set ys)" for a ys
  proof (induction ys arbitrary: a)
    case (Cons y ys)
    then show ?case using Cons [of "if rank y < rank a then y else a"] by auto
  qed simp
  then show "min_by_key rank xs = Some x \<Longrightarrow> x \<in> set xs"
    by (cases xs) (auto simp: min_by_key_def)
qed

text \<open>What is assumed of an item: 64-bit identifiers and distinct 32-bit captions named by file extensions.\<close>

definition item_links_ok :: "media_item \<Rightarrow> bool" where
  "item_links_ok it \<longleftrightarrow>
     is_i64 (it_detail_id it) \<and> is_i64 (it_album_art it) \<and> distinct (map ca_index (it_captions it)) \<and>
     list_all (\<lambda>cap. ca_index cap \<le> u32_max \<and> CHR ''/'' \<notin> set (ca_ext cap)) (it_captions it)"

lemma find_caption:
  "distinct (map ca_index cs) \<Longrightarrow> cap \<in> set cs \<Longrightarrow> find (\<lambda>c. ca_index c = ca_index cap) cs = Some cap"
  by (induction cs) auto

subsection \<open>Links are handled\<close>

lemma served_numbered:
  assumes "eq_ignore_case m ''GET'' \<or> eq_ignore_case m ''HEAD''" "item_links_ok it"
  shows "served m app it MediaLink (media_item_url (sa_host app) (sa_http_port app) (it_detail_id it) ext)"
    "served m app it TranscodeLink (transcode_item_url (sa_host app) (sa_http_port app) (it_detail_id it))"
    "served m app it AlbumArtLink (album_art_url (sa_host app) (sa_http_port app) (it_album_art it) (it_detail_id it))"
    "served m app it ThumbnailLink
      (http_base (sa_host app) (sa_http_port app) @ ''/Thumbnails/'' @ int_decimal (it_detail_id it) @ ''.jpg'')"
proof -
  have ids: "is_i64 (it_detail_id it)" "is_i64 (it_album_art it)" using assms(2) by (simp_all add: item_links_ok_def)
  note parsed = url_parse_back [OF ids(1) ids(2) le0] url_parse_back [OF ids(2) ids(1) le0]
  obtain e q where media: "request_of_url (sa_host app) (sa_http_port app) (http_base (sa_host app) (sa_http_port app) @
      (MEDIA_ITEMS_PREFIX @ int_decimal (it_detail_id it) @ ''.'') @ ext) =
      Some ((MEDIA_ITEMS_PREFIX @ int_decimal (it_detail_id it) @ ''.'') @ e, q)" and e: "CHR ''?'' \<notin> set e"
    using request_of_ext [of "MEDIA_ITEMS_PREFIX @ int_decimal (it_detail_id it) @ ''.''" "sa_host app" "sa_http_port app" ext]
    by auto
  show "served m app it MediaLink (media_item_url (sa_host app) (sa_http_port app) (it_detail_id it) ext)"
    using media parsed(1) [OF e] by (simp add: served_def media_item_url_def route_GET [OF assms(1)] route_object_paths)
  show "served m app it TranscodeLink (transcode_item_url (sa_host app) (sa_http_port app) (it_detail_id it))"
    using parsed(2) [of "[]"]
    by (simp add: served_def transcode_item_url_def request_of_base route_GET [OF assms(1)] route_object_paths)
  show "served m app it AlbumArtLink (album_art_url (sa_host app) (sa_http_port app) (it_album_art it) (it_detail_id it))"
    using parsed(8) [of "[]"]
    by (simp add: served_def album_art_url_def request_of_base route_GET [OF assms(1)] route_object_paths)
  have "strtoll_prefix (int_decimal (it_detail_id it) @ ''.jpg'') = Some (it_detail_id it)"
    by (rule strtoll_prefix_decimal [OF ids(1)]) (simp add: is_digit_def)
  then have "thumbnail_id_from_path (THUMBNAILS_PREFIX @ int_decimal (it_detail_id it) @ ''.jpg'') = Some (it_detail_id it)"
    by (simp add: thumbnail_id_from_path_def)
  then show "served m app it ThumbnailLink
      (http_base (sa_host app) (sa_http_port app) @ ''/Thumbnails/'' @ int_decimal (it_detail_id it) @ ''.jpg'')"
    using request_of_base(1) [of "THUMBNAILS_PREFIX @ int_decimal (it_detail_id it) @ ''.jpg''"]
      route_image_paths(1) [of "int_decimal (it_detail_id it) @ ''.jpg''"]
    by (simp add: served_def route_GET [OF assms(1)] THUMBNAILS_PREFIX_def)
qed

lemma served_resized:
  assumes "eq_ignore_case m ''GET'' \<or> eq_ignore_case m ''HEAD''" "item_links_ok it" "1 \<le> w" "w \<le> 4096" "1 \<le> h" "h \<le> 4096"
  shows "served m app it (ResizedLink w h) (dr_url (resized_didl app it w h pn))"
proof -
  have ids: "is_i64 (it_detail_id it)" using assms(2) by (simp add: item_links_ok_def)
  define p where "p = RESIZED_PREFIX @ int_decimal (it_detail_id it) @ ''.jpg''"
  have "strtoll_prefix (int_decimal (it_detail_id it) @ ''.jpg'') = Some (it_detail_id it)"
    by (rule strtoll_prefix_decimal [OF ids]) (simp add: is_digit_def)
  then have p: "route m p = Resized" "resized_id_from_path p = Some (it_detail_id it)" "CHR ''?'' \<notin> set p"
    unfolding p_def by (simp_all add: resized_id_from_path_def route_GET [OF assms(1)] route_image_paths)
  have url: "dr_url (resized_didl app it w h pn) = http_base (sa_host app) (sa_http_port app) @ p @ CHR ''?'' #
      (''width='' @ decimal w @ '',height='' @ decimal h)"
    by (simp add: resized_didl_def plain_res_def p_def RESIZED_PREFIX_def)
  show ?thesis
    unfolding served_def url request_of_base(2) [OF p(3)] option.case link_handled.simps
    using p parse_resize_back [OF assms(3-6)] by simp
qed

lemma served_caption:
  assumes "eq_ignore_case m ''GET'' \<or> eq_ignore_case m ''HEAD''" "item_links_ok it" "cap \<in> set (it_captions it)"
  shows "served m app it (CaptionLink cap)
    (caption_indexed_url (sa_host app) (sa_http_port app) (it_detail_id it) (ca_index cap) (ca_ext cap))"
proof -
  have ok: "is_i64 (it_detail_id it)" "ca_index cap \<le> u32_max" "CHR ''/'' \<notin> set (ca_ext cap)"
    "distinct (map ca_index (it_captions it))"
    using assms(2,3) by (auto simp: item_links_ok_def list_all_iff)
  define a where "a = CAPTIONS_PREFIX @ int_decimal (it_detail_id it) @ ''/'' @ decimal (ca_index cap) @ ''.''"
  have "CHR ''?'' \<notin> set a" by (simp add: a_def)
  then obtain e q where eq: "request_of_url (sa_host app) (sa_http_port app) (http_base (sa_host app) (sa_http_port app) @ a @ ca_ext cap) =
      Some (a @ e, q)" and e: "set e \<subseteq> set (ca_ext cap)" "CHR ''?'' \<notin> set e"
    using request_of_ext by blast
  have "CHR ''/'' \<notin> set e" using e(1) ok(3) by auto
  then have path: "route m (a @ e) = Caption" "caption_route_from_path (a @ e) = Some (it_detail_id it, CaptionIndex (ca_index cap))"
    "\<not> str_contains ''/embedded/'' (a @ e)"
    using url_parse_back(4) [OF ok(1) ok(1) ok(2) e(2)] caption_path_not_embedded(1) [of e]
    by (simp_all add: a_def route_GET [OF assms(1)] route_object_paths)
  have url: "caption_indexed_url (sa_host app) (sa_http_port app) (it_detail_id it) (ca_index cap) (ca_ext cap) =
      http_base (sa_host app) (sa_http_port app) @ a @ ca_ext cap"
    by (simp add: caption_indexed_url_def a_def)
  show ?thesis
    unfolding served_def url eq option.case link_handled.simps
    using path find_caption [OF ok(4) assms(3)] by (simp add: requested_caption_def)
qed

lemma served_default_caption:
  assumes "eq_ignore_case m ''GET'' \<or> eq_ignore_case m ''HEAD''" "item_links_ok it"
    and "default_caption_advertisement (sa_host app) (sa_http_port app) it = Some (label, url)"
  obtains cap where "default_caption (it_path it) (it_captions it) = Some cap" "served m app it (CaptionLink cap) url"
proof -
  obtain cap where cap: "default_caption (it_path it) (it_captions it) = Some cap"
    and url: "url = (if eq_ignore_case (ca_ext cap) ''srt'' then caption_default_url (sa_host app) (sa_http_port app) (it_detail_id it)
      else caption_indexed_url (sa_host app) (sa_http_port app) (it_detail_id it) (ca_index cap) (ca_ext cap))"
    using assms(3) by (auto simp: default_caption_advertisement_def)
  have ids: "is_i64 (it_detail_id it)" using assms(2) by (simp add: item_links_ok_def)
  have "cap \<in> set (it_captions it)" using cap unfolding default_caption_def by (rule min_by_key_in)
  moreover have "served m app it (CaptionLink cap) (caption_default_url (sa_host app) (sa_http_port app) (it_detail_id it))"
    using url_parse_back(5) [OF ids ids le0, of "[]"] caption_path_not_embedded(2) [of "[]"] cap
    by (simp add: served_def caption_default_url_def request_of_base route_GET [OF assms(1)] route_object_paths requested_caption_def)
  ultimately show ?thesis using that cap served_caption [OF assms(1,2)] by (simp add: url)
qed

subsection \<open>The resources of an item\<close>

definition res_served :: "string \<Rightarrow> soap_app \<Rightarrow> media_item \<Rightarrow> didl_res \<Rightarrow> bool" where
  "res_served m app it r \<longleftrightarrow> (\<exists>l. res_describes it l r \<and> served m app it l (dr_url r))"

lemma subtitle_kept:
  "list_all (res_served m app it) rs \<Longrightarrow> list_all (res_served m app it) (set_subtitle adv rs)"
proof (cases "(adv, rs)" rule: set_subtitle.cases)
  case (1 label url r rs')
  have "res_describes it l (r\<lparr>dr_pv_subtitle_type := a, dr_pv_subtitle_uri := b\<rparr>) = res_describes it l r" for l a b
    by (cases l) simp_all
  with 1 show "list_all (res_served m app it) rs \<Longrightarrow> list_all (res_served m app it) (set_subtitle adv rs)"
    by (simp add: res_served_def)
qed simp_all

lemma parts_served:
  assumes "eq_ignore_case m ''GET'' \<or> eq_ignore_case m ''HEAD''" "item_links_ok it"
  shows "res_served m app it (original_res app it c)" "res_served m app it (remap_res app it)"
    "prefix ''image/'' (it_mime it) \<Longrightarrow> list_all (res_served m app it) (image_res app it c)"
    "list_all (res_served m app it) (caption_res app it)" "list_all (res_served m app it) (extra_res app it c)"
    "list_all (res_served m app it) (video_album_art app it c)"
proof -
  note n = served_numbered [OF assms]
  show "res_served m app it (original_res app it c)"
    unfolding res_served_def by (rule exI [of _ MediaLink]) (simp add: original_res_def n)
  show "res_served m app it (remap_res app it)"
    unfolding res_served_def by (rule exI [of _ TranscodeLink]) (simp add: remap_res_def n)
  have resized: "res_served m app it (resized_didl app it w h pn)" if "1 \<le> w" "w \<le> 4096" "1 \<le> h" "h \<le> 4096" for w h pn
    unfolding res_served_def
    by (rule exI [of _ "ResizedLink w h"]) (use served_resized [OF assms that] in \<open>simp add: resized_didl_def\<close>)
  have thumb: "res_served m app it (plain_res (http_base (sa_host app) (sa_http_port app) @ ''/Thumbnails/'' @
      int_decimal (it_detail_id it) @ ''.jpg'') info)" if "prefix ''image/'' (it_mime it)" for info
    unfolding res_served_def by (rule exI [of _ ThumbnailLink]) (use that n(4) in \<open>simp add: plain_res_def\<close>)
  show "list_all (res_served m app it) (image_res app it c)" if "prefix ''image/'' (it_mime it)"
    unfolding image_res_def Let_def by (simp add: resized thumb [OF that, simplified] split: prod.split)
  have cap: "res_served m app it (plain_res
      (caption_indexed_url (sa_host app) (sa_http_port app) (it_detail_id it) (ca_index cap) (ca_ext cap))
      (''http-get:*:'' @ caption_http_mime (ca_ext cap) @ '':*''))" if "cap \<in> set (it_captions it)" for cap
    unfolding res_served_def
    by (rule exI [of _ "CaptionLink cap"]) (use that served_caption [OF assms that] in \<open>simp add: plain_res_def\<close>)
  then show "list_all (res_served m app it) (caption_res app it)"
    by (simp add: caption_res_def list_all_iff)
  have "res_served m app it ((original_res app it c)\<lparr>dr_protocol_info := info\<rparr>)" for info
    unfolding res_served_def by (rule exI [of _ MediaLink]) (simp add: original_res_def n)
  then show "list_all (res_served m app it) (extra_res app it c)"
    by (auto simp: extra_res_def list_all_iff)
  have "res_served m app it (plain_res (album_art_url (sa_host app) (sa_http_port app) (it_album_art it) (it_detail_id it)) info)"
    "res_served m app it ((plain_res (album_art_url (sa_host app) (sa_http_port app) (it_album_art it) (it_detail_id it)) info)
       \<lparr>dr_resolution := res\<rparr>)" if "it_album_art it > 0" for info res
    unfolding res_served_def by (rule exI [of _ AlbumArtLink], use that n(3) in \<open>simp add: plain_res_def\<close>)+
  then show "list_all (res_served m app it) (video_album_art app it c)"
    by (auto simp: video_album_art_def Let_def)
qed

lemma resources_served:
  assumes "eq_ignore_case m ''GET'' \<or> eq_ignore_case m ''HEAD''" "item_links_ok it"
  shows "list_all (res_served m app it) (item_resources app it c ua bits)"
  unfolding item_resources_def Let_def
  using parts_served [OF assms]
  by (auto intro!: subtitle_kept)

lemma first_resource_served:
  assumes "eq_ignore_case m ''GET'' \<or> eq_ignore_case m ''HEAD''" "item_links_ok it"
  shows "\<exists>r rs. item_resources app it c ua bits = r # rs \<and>
    served m app it (if tp_decision (browse_plan app c ua it) = Recode then TranscodeLink else MediaLink) (dr_url r)"
proof -
  have sub: "\<exists>r' rs'. set_subtitle adv (r # rs) @ ys = r' # rs' \<and> dr_url r' = dr_url r" for adv r rs ys
    by (cases "(adv, r # rs)" rule: set_subtitle.cases) simp_all
  have "\<exists>r' rs'. item_resources app it c ua bits = r' # rs' \<and>
      dr_url r' = dr_url (if tp_decision (browse_plan app c ua it) = Recode then remap_res app it else original_res app it c)"
    unfolding item_resources_def Let_def using sub by (simp split: if_split)
  then show ?thesis using served_numbered [OF assms] by (auto simp: remap_res_def original_res_def)
qed

lemma set_subtitle_uris:
  assumes "r \<in> set (set_subtitle adv rs)" "\<forall>r \<in> set rs. dr_pv_subtitle_uri r = None" "dr_pv_subtitle_uri r = Some u"
  shows "\<exists>label. adv = Some (label, u)"
proof (cases "\<exists>label url r' rs'. adv = Some (label, url) \<and> rs = r' # rs'")
  case True
  then obtain label url r' rs' where a: "adv = Some (label, url)" "rs = r' # rs'" by blast
  have "r = r'\<lparr>dr_pv_subtitle_type := Some label, dr_pv_subtitle_uri := Some url\<rparr> \<or> r \<in> set rs'"
    using assms(1) by (simp add: a)
  then show ?thesis using assms(2,3) by (auto simp: a)
next
  case False
  then have "set_subtitle adv rs = rs" by (cases adv; cases rs) auto
  then show ?thesis using assms by simp
qed

lemma subtitle_uris:
  assumes "r \<in> set (item_resources app it c ua bits)" "dr_pv_subtitle_uri r = Some u"
  shows "\<exists>label. default_caption_advertisement (sa_host app) (sa_http_port app) it = Some (label, u)"
proof -
  have none: "dr_pv_subtitle_uri (plain_res x y) = None" "dr_pv_subtitle_uri (original_res app it c) = None"
    "dr_pv_subtitle_uri (remap_res app it) = None" for x y
    by (simp_all add: plain_res_def original_res_def remap_res_def)
  have parts: "\<forall>r \<in> set (image_res app it c). dr_pv_subtitle_uri r = None" "\<forall>r \<in> set (caption_res app it). dr_pv_subtitle_uri r = None"
    "\<forall>r \<in> set (extra_res app it c). dr_pv_subtitle_uri r = None" "\<forall>r \<in> set (video_album_art app it c). dr_pv_subtitle_uri r = None"
    by (auto simp: image_res_def caption_res_def extra_res_def video_album_art_def resized_didl_def none Let_def
        split: prod.split)
  define front where "front = (if tp_decision (browse_plan app c ua it) = Recode then [remap_res app it, original_res app it c]
      else original_res app it c # (if prefix ''image/'' (it_mime it) then image_res app it c else [])) @
      (if contains (cp_flags c) F_CAPTION_RES then caption_res app it else [])"
  have front: "\<forall>r \<in> set front. dr_pv_subtitle_uri r = None" using parts none by (auto simp: front_def)
  have "r \<in> set (if fb_pv bits then set_subtitle (default_caption_advertisement (sa_host app) (sa_http_port app) it) front else front)"
    using assms parts unfolding item_resources_def Let_def front_def [symmetric] by (auto split: if_splits)
  then show ?thesis using set_subtitle_uris [OF _ front assms(2)] front assms(2) by (auto split: if_splits)
qed

subsection \<open>The root description\<close>

lemma desc_opts_utf8:
  assumes "utf8_valid host" "utf8_valid name" "utf8_valid uuid" "case serial of Some v \<Rightarrow> utf8_valid v | None \<Rightarrow> True"
  shows "root_opts_utf8 (root_desc_opts host port name uuid serial c)"
proof -
  have "utf8_valid (decimal port)"
    by (rule utf8_valid_ascii) (use set_decimal in \<open>force simp: is_digit_def\<close>)
  then have "utf8_valid (http_base host port @ ''/'')"
    unfolding http_base_def append_assoc
    by (intro utf8_valid_append assms(1)) (simp_all add: utf8_valid_ascii)
  then show ?thesis using assms by (simp add: root_opts_utf8_def root_desc_opts_def split: option.splits)
qed

lemma presentation_opt: "ro_presentation_url (root_desc_opts host port name uuid serial c) = Some (http_base host port @ ''/'')"
  by (simp add: root_desc_opts_def)

lemma icon_kinds:
  "icon_kind ''/icons/sm.png'' = (''image/png'', False)" "icon_kind ''/icons/sm.jpg'' = (''image/jpeg'', False)"
  "icon_kind ''/icons/lrg.png'' = (''image/png'', True)" "icon_kind ''/icons/lrg.jpg'' = (''image/jpeg'', True)"
  by (simp_all add: icon_kind_def lower_eval Let_def suffix_to_prefix)

lemma icon_routes:
  "route_get ''/icons/sm.png'' = Icon" "route_get ''/icons/sm.jpg'' = Icon"
  "route_get ''/icons/lrg.png'' = Icon" "route_get ''/icons/lrg.jpg'' = Icon" "route_get ''/'' = Presentation"
  by (simp_all add: route_get_def path_defs web_assets_def)

lemma service_routes:
  "route_get CONTENTDIRECTORY_PATH = ScpdContentDir" "route_get CONNECTIONMGR_PATH = ScpdConnectionMgr"
  "route_get MS_REGISTRAR_PATH = ScpdRegistrar"
  "route ''POST'' CONTENTDIRECTORY_CONTROLURL = Soap" "route ''POST'' CONNECTIONMGR_CONTROLURL = Soap"
  "route ''POST'' MS_REGISTRAR_CONTROLURL = Soap"
  "route ''SUBSCRIBE'' CONTENTDIRECTORY_EVENTURL = EventContentDir" "route ''SUBSCRIBE'' CONNECTIONMGR_EVENTURL = EventConnectionMgr"
  "route ''SUBSCRIBE'' MS_REGISTRAR_EVENTURL = EventRegistrar"
  "service_from_path CONTENTDIRECTORY_EVENTURL = Some ContentDirEvents"
  "service_from_path CONNECTIONMGR_EVENTURL = Some ConnMgrEvents" "service_from_path MS_REGISTRAR_EVENTURL = Some RegistrarEvents"
  by (simp_all add: route_get_def route_def route_event_def service_from_path_def path_defs eq_ignore_case_def lower_eval)

text \<open>
  The service descriptions are closed and complete: the actions they declare are the ones the request
  parser names, apart from the query every UPnP service has, and every argument is related to a declared
  variable.
\<close>

definition scpd_closed ::
  "(string \<times> (string \<times> string \<times> string) list) list \<Rightarrow> (string \<times> string \<times> string \<times> string list) list \<Rightarrow> bool" where
  "scpd_closed actions variables \<longleftrightarrow>
     list_all (\<lambda>(_, arguments). list_all (\<lambda>(_, direction, variable).
       direction \<in> {''in'', ''out''} \<and> list_ex (\<lambda>(_, name, _, _). name = variable) variables) arguments) actions"

lemma declared_actions_named:
  "insert ''QueryStateVariable'' (set (map fst (cd_actions @ cm_actions @ registrar_actions))) = set SOAP_METHODS"
  by (auto simp: cd_actions_def cm_actions_def registrar_actions_def SOAP_METHODS_def)

lemma descriptions_closed:
  "scpd_closed cd_actions cd_variables" "scpd_closed cm_actions cm_variables" "scpd_closed registrar_actions registrar_variables"
  by code_simp+

text \<open>
  C22: Every URL the server hands out to renderers is requested back as what it stands for. The location
  leads to the root description; in the root description every icon URL leads to an icon of its type and
  size, every control URL to the SOAP handler, every event URL to the subscriptions of its service, every
  description URL to its service's description and the presentation URL to the web page. Of an item, every
  resource, subtitle, artwork and caption URL is routed to the handler of its kind, whose parsers recover the
  item and the options the object states (the resized edges, the very caption); the first resource is the
  transcoded one exactly when the plan recodes. Media and transcode responses never keep the connection.
\<close>
theorem advertised_urls_served:
  assumes "eq_ignore_case m ''GET'' \<or> eq_ignore_case m ''HEAD''" "item_links_ok it"
    and "utf8_valid (sa_host app)" "utf8_valid name" "utf8_valid uuid" "case serial of Some v \<Rightarrow> utf8_valid v | None \<Rightarrow> True"
    and "doc = gen_root_desc (root_desc_opts (sa_host app) (sa_http_port app) name uuid serial c)"
    and "obj = item_object app c ua bits it"
  shows "map_option (\<lambda>(p, q). route m p) (request_of_url (sa_host app) (sa_http_port app) (location_url (sa_host app) (sa_http_port app))) =
      Some RootDesc
    \<and> map (\<lambda>u. (route m u, icon_kind u)) (texts ''url'' doc) =
      [(Icon, ''image/png'', False), (Icon, ''image/jpeg'', False), (Icon, ''image/png'', True), (Icon, ''image/jpeg'', True)]
    \<and> texts ''serviceType'' doc =
      [''urn:schemas-upnp-org:service:ContentDirectory:1'', ''urn:schemas-upnp-org:service:ConnectionManager:1'',
       ''urn:microsoft.com:service:X_MS_MediaReceiverRegistrar:1'']
    \<and> map (route ''POST'') (texts ''controlURL'' doc) = [Soap, Soap, Soap]
    \<and> map (\<lambda>u. (route ''SUBSCRIBE'' u, service_from_path u)) (texts ''eventSubURL'' doc) =
      [(EventContentDir, Some ContentDirEvents), (EventConnectionMgr, Some ConnMgrEvents), (EventRegistrar, Some RegistrarEvents)]
    \<and> map (route m) (texts ''SCPDURL'' doc) = [ScpdContentDir, ScpdConnectionMgr, ScpdRegistrar]
    \<and> (\<exists>url. texts ''presentationURL'' doc = [escape_xml url] \<and>
        map_option (\<lambda>(p, q). route m p) (request_of_url (sa_host app) (sa_http_port app) url) = Some Presentation)
    \<and> (\<exists>r rs. do_resources obj = r # rs \<and>
        served m app it (if tp_decision (browse_plan app c ua it) = Recode then TranscodeLink else MediaLink) (dr_url r))
    \<and> (\<forall>r \<in> set (do_resources obj).
        (\<exists>l. res_describes it l r \<and> served m app it l (dr_url r)) \<and>
        (\<forall>u. dr_pv_subtitle_uri r = Some u \<longrightarrow>
          (\<exists>cap. default_caption (it_path it) (it_captions it) = Some cap \<and> served m app it (CaptionLink cap) u)))
    \<and> (\<forall>u. do_album_art_uri obj = Some u \<longrightarrow> it_album_art it > 0 \<and> served m app it AlbumArtLink u)
    \<and> list_all2 (\<lambda>cap dc. dc_ext dc = ca_ext cap \<and> served m app it (CaptionLink cap) (dc_url dc)) (it_captions it) (do_captions obj)
    \<and> \<not> persist_for_route MediaItem ver close keep \<and> \<not> persist_for_route Transcode ver close keep"
proof -
  note utf8 = desc_opts_utf8 [OF assms(3-6), of "sa_http_port app" c]
  note urls = texts_root_desc [OF _ utf8] texts_icons texts_services
  note get = route_GET [OF assms(1)]
  have loc: "map_option (\<lambda>(p, q). route m p) (request_of_url (sa_host app) (sa_http_port app) (location_url (sa_host app) (sa_http_port app))) =
      Some RootDesc"
  proof -
    have "CHR ''?'' \<notin> set ROOTDESC_PATH" by (simp add: path_defs)
    then show ?thesis by (simp add: location_url_def request_of_base get route_object_paths)
  qed
  have pres: "texts ''presentationURL'' doc = [escape_xml (http_base (sa_host app) (sa_http_port app) @ ''/'')]"
    by (simp add: assms(7) urls presentation_opt)
  have "map_option (\<lambda>(p, q). route m p) (request_of_url (sa_host app) (sa_http_port app)
      (http_base (sa_host app) (sa_http_port app) @ ''/'')) = Some Presentation"
    by (simp add: request_of_base get icon_routes)
  with pres have root: "\<exists>url. texts ''presentationURL'' doc = [escape_xml url] \<and>
      map_option (\<lambda>(p, q). route m p) (request_of_url (sa_host app) (sa_http_port app) url) = Some Presentation" by blast
  have res: "\<forall>r \<in> set (do_resources obj). (\<exists>l. res_describes it l r \<and> served m app it l (dr_url r)) \<and>
      (\<forall>u. dr_pv_subtitle_uri r = Some u \<longrightarrow>
        (\<exists>cap. default_caption (it_path it) (it_captions it) = Some cap \<and> served m app it (CaptionLink cap) u))"
    using resources_served [OF assms(1,2), of app c ua bits] subtitle_uris [of _ app it c ua bits]
      served_default_caption [OF assms(1,2), of app]
    unfolding assms(8) list_all_iff res_served_def by (auto simp: item_object_def Let_def) metis
  have first: "\<exists>r rs. do_resources obj = r # rs \<and>
      served m app it (if tp_decision (browse_plan app c ua it) = Recode then TranscodeLink else MediaLink) (dr_url r)"
    using first_resource_served [OF assms(1,2)] by (simp add: assms(8) item_object_def Let_def)
  have art: "do_album_art_uri obj = Some u \<Longrightarrow> it_album_art it > 0 \<and> served m app it AlbumArtLink u" for u
    using served_numbered(3) [OF assms(1,2)] by (auto simp: assms(8) item_object_def Let_def split: if_splits)
  have caps: "list_all2 (\<lambda>cap dc. dc_ext dc = ca_ext cap \<and> served m app it (CaptionLink cap) (dc_url dc)) (it_captions it) (do_captions obj)"
    using served_caption [OF assms(1,2)]
    by (simp add: assms(8) item_object_def Let_def list_all2_map2 list_all2_same)
  show ?thesis
    unfolding assms(7)
    using loc root [unfolded assms(7)] first res art caps
    by (simp add: urls get icon_routes icon_kinds service_routes persist_for_route_def)
qed

text \<open>A film with two sidecars and artwork.\<close>

definition example_app :: soap_app where
  "example_app =
     \<lparr>sa_uuid = ''uuid:1'', sa_root_container = None, sa_http_port = 8200, sa_host = ''10.0.0.2'', sa_transcode_enable = False,
      sa_encoder = ''libx264'', sa_remaps = []\<rparr>"

definition example_film :: media_item where
  "example_film =
     \<lparr>it_object_id = ''64$0'', it_parent_id = ''64'', it_detail_id = 42, it_title = ''film'', it_class = ''item.videoItem'',
      it_date = [], it_path = ''/m/film.mkv'', it_collection_path = None, it_mime = ''video/x-matroska'', it_ext = ''mkv'',
      it_size = 9, it_mtime = 1,
      it_captions = [\<lparr>ca_index = 0, ca_path = ''/m/film.en.ass'', ca_ext = ''ass''\<rparr>, \<lparr>ca_index = 1, ca_path = ''/m/film.srt'', ca_ext = ''srt''\<rparr>],
      it_probe = default_probe, it_dlna_pn = None, it_ref_id = None, it_device = 1,
      it_inode = 5, it_duration = None, it_bitrate = None, it_resolution = None, it_channels = None,
      it_samplerate = None, it_album_art = 7, it_creator = None, it_about = None, it_plot = None,
      it_artist = None, it_album_artist = None, it_composer = None, it_contributor = None, it_album = None,
      it_genre = None, it_disc = None, it_track = None, it_rating = None, it_rotation = None,
      it_bookmark_sec = 0, it_watch_count = 0, it_stream_probe_failed = False\<rparr>"

lemma advertised_urls_served_witness:
  "list_all2 (\<lambda>cap dc. dc_ext dc = ca_ext cap \<and> served ''GET'' example_app example_film (CaptionLink cap) (dc_url dc))
     (it_captions example_film)
     (do_captions (item_object example_app (hd CLIENTS) None filter_standard example_film)) \<and>
   map (route ''POST'') (texts ''controlURL'' (gen_root_desc
     (root_desc_opts (sa_host example_app) (sa_http_port example_app) ''TV'' ''uuid:1'' None (hd CLIENTS)))) = [Soap, Soap, Soap]"
proof -
  have get: "eq_ignore_case ''GET'' ''GET'' \<or> eq_ignore_case ''GET'' ''HEAD''" by (simp add: eq_ignore_case_def)
  have ok: "item_links_ok example_film" "utf8_valid (sa_host example_app)" "utf8_valid ''TV''" "utf8_valid ''uuid:1''"
    by (simp_all add: item_links_ok_def example_film_def example_app_def is_i64_def u32_max_def)
  show ?thesis
    using advertised_urls_served [of "''GET''" example_film example_app "''TV''" "''uuid:1''" None _ "hd CLIENTS" _ None
        filter_standard, OF get ok _ refl refl] by simp
qed

end
