(* ===== verification/Client_Cache.thy ===== *)
theory Client_Cache
  imports Clients Contracts
begin

text \<open>
  The 25-slot renderer cache (\<open>crates/protocol/src/client_cache.rs\<close>). A slot array is a list of
  options; times are \<open>u64\<close> seconds read by the caller, differences saturate at zero.
\<close>

definition CLIENT_CACHE_SLOTS :: nat where "CLIENT_CACHE_SLOTS = 25"
definition CLIENT_CACHE_TTL_SECS :: nat where "CLIENT_CACHE_TTL_SECS = 3600"

type_synonym ipv4 = "nat list"
type_synonym mac = "u8 list"

record cache_entry =
  ce_addr :: ipv4
  ce_mac :: "mac option"
  ce_profile :: client_profile
  ce_age :: nat

type_synonym client_cache = "cache_entry option list"

definition cache_new :: client_cache where
  "cache_new = replicate CLIENT_CACHE_SLOTS None"

definition cache_len :: "client_cache \<Rightarrow> nat" where
  "cache_len slots = length (filter (\<lambda>s. s \<noteq> None) slots)"

definition cache_is_empty :: "client_cache \<Rightarrow> bool" where
  "cache_is_empty slots \<longleftrightarrow> cache_len slots = 0"

definition cache_set_age :: "ipv4 \<Rightarrow> nat \<Rightarrow> client_cache \<Rightarrow> client_cache" where
  "cache_set_age addr age slots =
     map (map_option (\<lambda>e. if ce_addr e = addr then e\<lparr>ce_age := age\<rparr> else e)) slots"

definition is_generic :: "client_profile \<Rightarrow> bool" where
  "is_generic p \<longleftrightarrow> cp_kind p \<in> {StandardDlna150Kind, StandardUpnpKind, UnknownKind}"

definition should_overwrite :: "client_profile \<Rightarrow> client_profile \<Rightarrow> bool" where
  "should_overwrite old new =
     (if cp_kind old = SamsungSeriesBKind \<and> cp_kind new = SamsungSeriesAKind then False
      else if is_generic new \<and> \<not> is_generic old then False
      else if cp_kind old < StandardDlna150Kind \<and> is_generic new then False
      else True)"

definition same_mac :: "mac option \<Rightarrow> mac option \<Rightarrow> bool" where
  "same_mac a b = (case (a, b) of (Some x, Some y) \<Rightarrow> x = y | _ \<Rightarrow> False)"

definition expired :: "nat \<Rightarrow> cache_entry \<Rightarrow> bool" where
  "expired now e \<longleftrightarrow> now - ce_age e > CLIENT_CACHE_TTL_SECS"

fun cache_search ::
  "ipv4 \<Rightarrow> nat \<Rightarrow> mac option \<Rightarrow> client_cache \<Rightarrow> client_cache \<times> client_profile option" where
  "cache_search addr now m [] = ([], None)"
| "cache_search addr now m (None # slots) =
     (let (slots', r) = cache_search addr now m slots in (None # slots', r))"
| "cache_search addr now m (Some e # slots) =
     (if ce_addr e \<noteq> addr then
        (let (slots', r) = cache_search addr now m slots in (Some e # slots', r))
      else if expired now e then
        (if same_mac m (ce_mac e) then (Some (e\<lparr>ce_age := now\<rparr>) # slots, Some (ce_profile e))
         else (None # slots, None))
      else (Some e # slots, Some (ce_profile e)))"

definition cache_has :: "ipv4 \<Rightarrow> client_cache \<Rightarrow> bool" where
  "cache_has addr slots \<longleftrightarrow> list_ex (\<lambda>s. case s of Some e \<Rightarrow> ce_addr e = addr | None \<Rightarrow> False) slots"

fun refresh_first ::
  "ipv4 \<Rightarrow> client_profile \<Rightarrow> mac option \<Rightarrow> nat \<Rightarrow> client_cache \<Rightarrow> client_cache" where
  "refresh_first addr p m now [] = []"
| "refresh_first addr p m now (None # slots) = None # refresh_first addr p m now slots"
| "refresh_first addr p m now (Some e # slots) =
     (if ce_addr e = addr then
        (if should_overwrite (ce_profile e) p
         then Some (e\<lparr>ce_profile := p, ce_mac := (case m of Some x \<Rightarrow> Some x | None \<Rightarrow> ce_mac e), ce_age := now\<rparr>)
         else Some e) # slots
      else Some e # refresh_first addr p m now slots)"

definition drop_expired :: "nat \<Rightarrow> client_cache \<Rightarrow> client_cache" where
  "drop_expired now slots =
     map (\<lambda>s. case s of Some e \<Rightarrow> if expired now e then None else Some e | None \<Rightarrow> None) slots"

fun fill_first :: "cache_entry \<Rightarrow> client_cache \<Rightarrow> client_cache \<times> bool" where
  "fill_first e [] = ([], False)"
| "fill_first e (None # slots) = (Some e # slots, True)"
| "fill_first e (Some f # slots) = (let (slots', ok) = fill_first e slots in (Some f # slots', ok))"

definition cache_add ::
  "ipv4 \<Rightarrow> client_profile \<Rightarrow> mac option \<Rightarrow> nat \<Rightarrow> client_cache \<Rightarrow> client_cache \<times> bool" where
  "cache_add addr p m now slots =
     (if cache_has addr slots then (refresh_first addr p m now slots, True)
      else fill_first \<lparr>ce_addr = addr, ce_mac = m, ce_profile = p, ce_age = now\<rparr> (drop_expired now slots))"

text \<open>\<open>remember\<close>: the search of a generic request happens first and may itself expire the slot.\<close>

definition remember_store ::
  "ipv4 \<Rightarrow> client_profile \<Rightarrow> mac option \<Rightarrow> nat \<Rightarrow> client_cache \<Rightarrow> client_cache \<times> client_profile" where
  "remember_store addr request m now slots =
     (let (slots1, _) = cache_add addr request m now slots;
          (slots2, found) = cache_search addr now m slots1
      in (slots2, case found of Some cached \<Rightarrow> cached | None \<Rightarrow> request))"

definition cache_remember ::
  "ipv4 \<Rightarrow> client_profile \<Rightarrow> mac option \<Rightarrow> nat \<Rightarrow> client_cache \<Rightarrow> client_cache \<times> client_profile" where
  "cache_remember addr request m now slots =
     (if is_generic request then
        (case cache_search addr now m slots of
           (slots1, Some cached) \<Rightarrow>
             if \<not> is_generic cached then (slots1, cached)
             else remember_store addr request m now slots1
         | (slots1, None) \<Rightarrow> remember_store addr request m now slots1)
      else remember_store addr request m now slots)"

definition generic_dlna150 :: "client_profile option" where
  "generic_dlna150 = List.find (\<lambda>c. cp_kind c = StandardDlna150Kind) CLIENTS"

subsection \<open>The cache as a map\<close>

text \<open>A well-formed cache has 25 slots and at most one entry for each address.\<close>

definition cache_addrs :: "client_cache \<Rightarrow> ipv4 list" where
  "cache_addrs slots = map ce_addr (List.map_filter id slots)"

definition cache_ok :: "client_cache \<Rightarrow> bool" where
  "cache_ok slots \<longleftrightarrow> length slots = CLIENT_CACHE_SLOTS \<and> distinct (cache_addrs slots)"

lemma cache_addrs_simps [simp]:
  "cache_addrs [] = []" "cache_addrs (None # s) = cache_addrs s"
  "cache_addrs (Some e # s) = ce_addr e # cache_addrs s"
  by (simp_all add: cache_addrs_def List.map_filter_def)

lemma cache_has_addrs: "cache_has addr slots \<longleftrightarrow> addr \<in> set (cache_addrs slots)"
proof (induction slots)
  case (Cons s slots)
  then show ?case by (cases s) (auto simp: cache_has_def)
qed (simp add: cache_has_def)

lemma cache_search_frame:
  "cache_search addr now m slots = (slots', r) \<Longrightarrow>
     length slots' = length slots \<and> set (cache_addrs slots') \<subseteq> set (cache_addrs slots) \<and>
     (distinct (cache_addrs slots) \<longrightarrow> distinct (cache_addrs slots'))"
  by (induction addr now m slots arbitrary: slots' r rule: cache_search.induct)
     (auto split: prod.splits if_splits)

lemma refresh_first_frame:
  "length (refresh_first addr p m now slots) = length slots \<and>
   cache_addrs (refresh_first addr p m now slots) = cache_addrs slots"
  by (induction addr p m now slots rule: refresh_first.induct) auto

lemma drop_expired_frame:
  "length (drop_expired now slots) = length slots \<and>
   set (cache_addrs (drop_expired now slots)) \<subseteq> set (cache_addrs slots) \<and>
   (distinct (cache_addrs slots) \<longrightarrow> distinct (cache_addrs (drop_expired now slots)))"
proof (induction slots)
  case (Cons s slots)
  then show ?case by (cases s) (auto simp: drop_expired_def)
qed (simp add: drop_expired_def)

lemma fill_first_frame:
  "fill_first e slots = (slots', ok) \<Longrightarrow>
     length slots' = length slots \<and>
     set (cache_addrs slots') = set (cache_addrs slots) \<union> (if ok then {ce_addr e} else {}) \<and>
     (distinct (cache_addrs slots) \<and> ce_addr e \<notin> set (cache_addrs slots) \<longrightarrow> distinct (cache_addrs slots')) \<and>
     (ok \<longleftrightarrow> None \<in> set slots)"
  by (induction e slots arbitrary: slots' ok rule: fill_first.induct) (auto split: prod.splits)

subsection \<open>Operations keep the cache well formed\<close>

lemma cache_search_ok: "cache_ok slots \<Longrightarrow> cache_ok (fst (cache_search addr now m slots))"
  using cache_search_frame [of addr now m slots] by (cases "cache_search addr now m slots") (auto simp: cache_ok_def)

lemma cache_add_ok: "cache_ok slots \<Longrightarrow> cache_ok (fst (cache_add addr p m now slots))"
proof -
  assume ok: "cache_ok slots"
  show ?thesis
  proof (cases "cache_has addr slots")
    case True
    then show ?thesis using ok refresh_first_frame [of addr p m now slots] by (simp add: cache_add_def cache_ok_def)
  next
    case False
    obtain s' b where f: "fill_first \<lparr>ce_addr = addr, ce_mac = m, ce_profile = p, ce_age = now\<rparr> (drop_expired now slots) = (s', b)"
      by fastforce
    from fill_first_frame [OF f] drop_expired_frame [of now slots] ok False show ?thesis
      by (auto simp: cache_add_def f cache_ok_def cache_has_addrs)
  qed
qed

lemma remember_store_ok: "cache_ok slots \<Longrightarrow> cache_ok (fst (remember_store addr p m now slots))"
  using cache_search_ok [OF cache_add_ok, of slots addr now m addr p m now]
  by (simp add: remember_store_def Let_def split_beta)

lemma cache_remember_ok: "cache_ok slots \<Longrightarrow> cache_ok (fst (cache_remember addr p m now slots))"
  using cache_search_ok [of slots addr now m] remember_store_ok
  by (auto simp: cache_remember_def split: prod.splits option.splits)

lemma cache_set_age_ok: "cache_ok slots \<Longrightarrow> cache_ok (cache_set_age addr age slots)"
proof -
  have "cache_addrs (cache_set_age addr age slots) = cache_addrs slots"
  proof (induction slots)
    case (Cons s slots)
    then show ?case by (cases s) (simp_all add: cache_set_age_def)
  qed (simp add: cache_set_age_def)
  then show "cache_ok slots \<Longrightarrow> ?thesis" by (simp add: cache_ok_def cache_set_age_def)
qed

inductive cache_step :: "client_cache \<Rightarrow> client_cache \<Rightarrow> bool" where
  step_search: "cache_step s (fst (cache_search addr now m s))"
| step_add: "cache_step s (fst (cache_add addr p m now s))"
| step_remember: "cache_step s (fst (cache_remember addr p m now s))"
| step_set_age: "cache_step s (cache_set_age addr age s)"

interpretation renderers: step_invariant cache_step "\<lambda>s. s = cache_new" cache_ok
proof unfold_locales
  have "cache_addrs (replicate n None) = []" for n by (induction n) simp_all
  then show "cache_ok s" if "s = cache_new" for s using that by (simp add: cache_new_def cache_ok_def)
  show "cache_step s t \<Longrightarrow> cache_ok s \<Longrightarrow> cache_ok t" for s t
    by (induction rule: cache_step.induct)
      (simp_all add: cache_search_ok cache_add_ok cache_remember_ok cache_set_age_ok)
qed

text \<open>
  However the renderer cache is used, it keeps 25 slots, holds at most one entry for an address
  and so never more than 25 renderers.
\<close>
theorem renderer_cache_bounded:
  assumes "cache_step\<^sup>*\<^sup>* cache_new slots"
  shows "length slots = 25 \<and> distinct (cache_addrs slots) \<and> cache_len slots \<le> 25"
proof -
  have "cache_ok slots" by (rule renderers.reachable_inv [OF refl assms])
  moreover have "cache_len slots \<le> length slots" by (simp add: cache_len_def)
  ultimately show ?thesis by (simp add: cache_ok_def CLIENT_CACHE_SLOTS_def)
qed

lemma renderer_cache_bounded_witness:
  "cache_len (fst (cache_remember [192, 0, 2, 1] (hd CLIENTS) None 5 cache_new)) \<le> 25"
proof -
  have "cache_step\<^sup>*\<^sup>* cache_new (fst (cache_remember [192, 0, 2, 1] (hd CLIENTS) None 5 cache_new))"
    by (rule r_into_rtranclp) (rule step_remember)
  then show ?thesis using renderer_cache_bounded by blast
qed

subsection \<open>What the cache answers\<close>

fun cache_find :: "ipv4 \<Rightarrow> client_cache \<Rightarrow> cache_entry option" where
  "cache_find addr [] = None"
| "cache_find addr (None # slots) = cache_find addr slots"
| "cache_find addr (Some e # slots) = (if ce_addr e = addr then Some e else cache_find addr slots)"

lemma cache_find_None: "cache_find addr slots = None \<longleftrightarrow> addr \<notin> set (cache_addrs slots)"
  by (induction addr slots rule: cache_find.induct) auto

lemma cache_find_Some: "cache_find addr slots = Some e \<Longrightarrow> Some e \<in> set slots \<and> ce_addr e = addr"
  by (induction addr slots rule: cache_find.induct) (auto split: if_splits)

lemma search_answer:
  "snd (cache_search addr now m slots) =
     (case cache_find addr slots of None \<Rightarrow> None
      | Some e \<Rightarrow> if \<not> expired now e \<or> same_mac m (ce_mac e) then Some (ce_profile e) else None)"
  by (induction addr now m slots rule: cache_search.induct) (auto split: prod.splits)

lemma search_find:
  "distinct (cache_addrs slots) \<Longrightarrow> cache_find addr (fst (cache_search addr now m slots)) =
     (case cache_find addr slots of None \<Rightarrow> None
      | Some e \<Rightarrow> if \<not> expired now e then Some e
                  else if same_mac m (ce_mac e) then Some (e\<lparr>ce_age := now\<rparr>) else None)"
  by (induction addr now m slots rule: cache_search.induct)
    (auto simp: cache_find_None split: prod.splits)

lemma refresh_find:
  "cache_find addr (refresh_first addr p m now slots) =
     map_option (\<lambda>e. if should_overwrite (ce_profile e) p
       then e\<lparr>ce_profile := p, ce_mac := (case m of Some x \<Rightarrow> Some x | None \<Rightarrow> ce_mac e), ce_age := now\<rparr>
       else e) (cache_find addr slots)"
  by (induction addr p m now slots rule: refresh_first.induct) auto

lemma fill_find:
  "fill_first e slots = (slots', ok) \<Longrightarrow> cache_find (ce_addr e) slots = None \<Longrightarrow>
     cache_find (ce_addr e) slots' = (if ok then Some e else None)"
  by (induction e slots arbitrary: slots' ok rule: fill_first.induct) (auto split: prod.splits if_splits)

lemma not_expired_now [simp]: "ce_age e = now \<Longrightarrow> \<not> expired now e"
  by (simp add: expired_def)

text \<open>The answer of a store followed by a search.\<close>

lemma remember_store_answer:
  assumes "cache_ok slots"
  shows "snd (remember_store addr req m now slots) =
     (case snd (cache_search addr now m slots) of
        Some c \<Rightarrow> if should_overwrite c req then req else c | None \<Rightarrow> req)"
proof -
  have s: "snd (remember_store addr req m now slots) =
      (case snd (cache_search addr now m (fst (cache_add addr req m now slots))) of Some c \<Rightarrow> c | None \<Rightarrow> req)"
    by (simp add: remember_store_def Let_def split_beta)
  show ?thesis
  proof (cases "cache_find addr slots")
    case (Some e)
    then have "cache_has addr slots" by (metis cache_find_None cache_has_addrs option.distinct(1))
    then have "fst (cache_add addr req m now slots) = refresh_first addr req m now slots"
      by (simp add: cache_add_def)
    then show ?thesis
      unfolding s search_answer using Some by (simp add: refresh_find split: option.splits)
  next
    case None
    then have no: "\<not> cache_has addr slots" by (simp add: cache_find_None cache_has_addrs)
    define e where "e = \<lparr>ce_addr = addr, ce_mac = m, ce_profile = req, ce_age = now\<rparr>"
    obtain s' ok where f: "fill_first e (drop_expired now slots) = (s', ok)" by fastforce
    have "cache_find addr (drop_expired now slots) = None"
      using None drop_expired_frame [of now slots] by (auto simp: cache_find_None)
    with fill_find [OF f] have "cache_find addr s' = (if ok then Some e else None)" by (simp add: e_def)
    then show ?thesis
      unfolding s search_answer using None no f by (simp add: cache_add_def e_def [symmetric]) (simp add: e_def)
  qed
qed

text \<open>
  What a renderer is served as: the profile cached for its address, while the entry is fresh or
  its MAC address proves it is the same device, unless the request identifies it as something the
  cached profile may be replaced by; otherwise the profile the request identifies. A generic request
  never replaces a specific cached profile, and Samsung series A never replaces series B.
\<close>
theorem remember_answer:
  assumes "cache_ok slots"
  shows "snd (cache_remember addr req m now slots) =
      (case snd (cache_search addr now m slots) of
         Some c \<Rightarrow> if should_overwrite c req then req else c | None \<Rightarrow> req) \<and>
    (\<forall>c. \<not> is_generic c \<and> is_generic req \<longrightarrow> \<not> should_overwrite c req)"
proof -
  have g: "\<not> is_generic c \<Longrightarrow> is_generic req \<Longrightarrow> \<not> should_overwrite c req" for c req
    by (simp add: should_overwrite_def)
  have "snd (cache_remember addr req m now slots) =
      (case snd (cache_search addr now m slots) of
         Some c \<Rightarrow> if should_overwrite c req then req else c | None \<Rightarrow> req)"
  proof (cases "is_generic req")
    case False
    then show ?thesis by (simp add: cache_remember_def remember_store_answer [OF assms])
  next
    case True
    obtain s1 r where r: "cache_search addr now m slots = (s1, r)" by fastforce
    have ok: "cache_ok s1" using cache_search_ok [OF assms, of addr now m] r by simp
    have again: "snd (cache_search addr now m s1) = r"
    proof -
      have d: "distinct (cache_addrs slots)" using assms by (simp add: cache_ok_def)
      have "cache_find addr s1 = (case cache_find addr slots of None \<Rightarrow> None
        | Some e \<Rightarrow> if \<not> expired now e then Some e
                    else if same_mac m (ce_mac e) then Some (e\<lparr>ce_age := now\<rparr>) else None)"
        using search_find [OF d, of addr now m] r by simp
      moreover have "r = (case cache_find addr slots of None \<Rightarrow> None
        | Some e \<Rightarrow> if \<not> expired now e \<or> same_mac m (ce_mac e) then Some (ce_profile e) else None)"
        using search_answer [of addr now m slots] r by simp
      ultimately show ?thesis unfolding search_answer by (simp split: option.splits if_splits)
    qed
    show ?thesis
      using True g remember_store_answer [OF ok, of addr req m now] again r
      by (auto simp: cache_remember_def split: option.splits)
  qed
  with g show ?thesis by blast
qed

lemma remember_answer_witness:
  "snd (cache_remember [192, 0, 2, 1] (client KodiKind 0 ''Kodi'' MatchNone None) None 5 cache_new) =
     client KodiKind 0 ''Kodi'' MatchNone None"
proof -
  have ok: "cache_ok cache_new" by (rule renderers.reachable_inv [OF refl rtranclp.rtrancl_refl])
  have "cache_find a (replicate n None) = None" for a n by (induction n) simp_all
  then have "snd (cache_search [192, 0, 2, 1] 5 None cache_new) = None"
    by (simp add: search_answer cache_new_def)
  with remember_answer [OF ok, of "[192, 0, 2, 1]" "client KodiKind 0 ''Kodi'' MatchNone None" None 5]
  show ?thesis by simp
qed

text \<open>
  A renderer still within its hour is never displaced by the traffic of another address: its
  entry survives every search, every insertion (even into a full cache) and every identification
  made for another renderer.
\<close>
theorem fresh_entry_kept:
  assumes "Some e \<in> set slots" "ce_addr e \<noteq> addr" "\<not> expired now e"
  shows "Some e \<in> set (fst (cache_search addr now m slots)) \<and>
    Some e \<in> set (fst (cache_add addr p m now slots)) \<and>
    Some e \<in> set (fst (cache_remember addr p m now slots))"
proof -
  have search: "Some e \<in> set s \<Longrightarrow> Some e \<in> set (fst (cache_search addr now m s))" for s
    using assms(2) by (induction addr now m s rule: cache_search.induct) (auto split: prod.splits)
  have refresh: "Some e \<in> set s \<Longrightarrow> Some e \<in> set (refresh_first addr p m now s)" for s
    using assms(2) by (induction addr p m now s rule: refresh_first.induct) auto
  have fill: "Some e \<in> set s \<Longrightarrow> Some e \<in> set (fst (fill_first f s))" for f s
    by (induction f s rule: fill_first.induct) (auto split: prod.splits)
  have drop: "Some e \<in> set s \<Longrightarrow> Some e \<in> set (drop_expired now s)" for s
    using assms(3) by (force simp: drop_expired_def)
  have add: "Some e \<in> set s \<Longrightarrow> Some e \<in> set (fst (cache_add addr p m now s))" for s
    using refresh fill drop by (auto simp: cache_add_def)
  have store: "Some e \<in> set s \<Longrightarrow> Some e \<in> set (fst (remember_store addr p m now s))" for s
    using search [OF add] by (simp add: remember_store_def Let_def split_beta)
  have "Some e \<in> set (fst (cache_remember addr p m now slots))"
  proof (cases "cache_search addr now m slots")
    case (Pair s1 r)
    with search [OF assms(1)] have "Some e \<in> set s1" by simp
    then show ?thesis
      using Pair store assms(1) by (auto simp: cache_remember_def split: option.splits)
  qed
  with search add assms(1) show ?thesis by blast
qed

lemma fresh_entry_kept_witness:
  "Some \<lparr>ce_addr = [10, 0, 0, 1], ce_mac = None, ce_profile = hd CLIENTS, ce_age = 100\<rparr> \<in>
     set (fst (cache_add [10, 0, 0, 2] (hd CLIENTS) None 200
       (Some \<lparr>ce_addr = [10, 0, 0, 1], ce_mac = None, ce_profile = hd CLIENTS, ce_age = 100\<rparr> #
        replicate 24 None)))"
  by (rule fresh_entry_kept [THEN conjunct2, THEN conjunct1])
    (simp_all add: expired_def CLIENT_CACHE_TTL_SECS_def)

subsection \<open>The table\<close>

lemma find_append: "List.find P (xs @ ys) = (case List.find P xs of None \<Rightarrow> List.find P ys | Some x \<Rightarrow> Some x)"
  by (induction xs) auto

lemma table_split:
  "CLIENTS = take 39 CLIENTS @ drop 39 CLIENTS"
  "list_all (\<lambda>c. is_generic c \<longrightarrow> cp_match_str c = None) (take 39 CLIENTS)"
  "list_all is_generic (drop 39 CLIENTS)"
  by (simp_all add: CLIENTS_def is_generic_def client_def)

text \<open>
  A request is identified as a generic renderer only when no specific row of the table matches
  any of its headers, and is not identified at all only when no row matches: a generic DLNA or UPnP
  token in the user agent never hides a more specific header.
\<close>
theorem generic_rows_last:
  shows "(case identify_request ua x_av friendly model of
       None \<Rightarrow> \<forall>c \<in> set CLIENTS. \<not> row_identifies ua x_av friendly model c
     | Some p \<Rightarrow> p \<in> set CLIENTS \<and> row_identifies ua x_av friendly model p \<and>
         (is_generic p \<longrightarrow> (\<forall>c \<in> set CLIENTS. row_identifies ua x_av friendly model c \<longrightarrow> is_generic c)))"
proof -
  let ?R = "row_identifies ua x_av friendly model"
  have none: "List.find P xs = None \<longleftrightarrow> (\<forall>x \<in> set xs. \<not> P x)" for P and xs :: "client_profile list"
    by (auto simp: find_None_iff)
  have some: "List.find P xs = Some x \<Longrightarrow> x \<in> set xs \<and> P x" for P x and xs :: "client_profile list"
    by (metis find_Some_iff nth_mem)
  show ?thesis
  proof (cases "identify_request ua x_av friendly model")
    case None
    then have "List.find ?R CLIENTS = None" by (simp add: identify_request_def)
    with none [of ?R CLIENTS] None show ?thesis by simp
  next
    case (Some p)
    then have f: "List.find ?R CLIENTS = Some p" by (simp add: identify_request_def)
    have "?R c \<longrightarrow> is_generic c" if g: "is_generic p" and c: "c \<in> set CLIENTS" for c
    proof (cases "List.find ?R (take 39 CLIENTS)")
      case None
      then have "c \<in> set (drop 39 CLIENTS) \<or> \<not> ?R c"
        using c none by (metis Un_iff set_append table_split(1))
      then show ?thesis using table_split(3) by (auto simp: list_all_iff)
    next
      case (Some q)
      then have "q = p" using f find_append [of ?R "take 39 CLIENTS" "drop 39 CLIENTS"] table_split(1) by simp
      with some [OF Some] g table_split(2) have "cp_match_str p = None" "?R p"
        by (auto simp: list_all_iff)
      then show ?thesis by (simp add: row_identifies_def)
    qed
    with some [OF f] Some show ?thesis by auto
  qed
qed

lemma generic_rows_last_witness:
  "case identify_request (Some ''Kodi/21.0 DLNADOC/1.50'') None None None of
     None \<Rightarrow> False | Some p \<Rightarrow> \<not> is_generic p"
proof -
  let ?k = "client KodiKind (F_DLNA OR F_MIME_AVI_AVI OR F_CAPTION_RES) ''Kodi'' MatchUserAgent (Some ''Kodi'')"
  have "?k \<in> set CLIENTS" by (simp add: CLIENTS_def)
  moreover have "row_identifies (Some ''Kodi/21.0 DLNADOC/1.50'') None None None ?k"
    by (simp add: row_identifies_def client_def)
  moreover have "\<not> is_generic ?k" by (simp add: is_generic_def client_def)
  ultimately show ?thesis
    using generic_rows_last [of "Some ''Kodi/21.0 DLNADOC/1.50''" None None None]
    by (auto split: option.splits)
qed

end
