(* ===== verification/Catalog_Recent.thy ===== *)
theory Catalog_Recent
  imports Catalog_Views
begin

text \<open>
  The Recently Added views: the cooperative read returns the same list as the plain one, the counts
  shown are the lengths of the views, the cache in front of the video view shows what a walk of the
  catalogue would, as long as it was rebuilt from one, and what incremental refreshing can miss.
\<close>

subsection \<open>The checked read\<close>

lemma catalog_ok_ids: "catalog_ok c \<Longrightarrow> distinct (map it_object_id (map snd (cat_items c)))"
  using tree_ok_items [of "cat_containers c" "cat_items c"] by (simp add: catalog_ok_def tree_ok_def del: map_map)

lemma catalog_ok_find: "catalog_ok c \<Longrightarrow> it \<in> set (map snd (cat_items c)) \<Longrightarrow> find_item c (it_object_id it) = Some it"
  using find_own_item [of "cat_containers c" "cat_items c" it] by (simp add: catalog_ok_def)

lemma clone_own:
  assumes "catalog_ok c" "set its \<subseteq> set (map snd (cat_items c))"
  shows "clone_ids root c (map it_object_id its) = map (\<lambda>it. recent_clone root (it_object_id it) it) its"
  using assms(2)
proof (induction its)
  case (Cons it its)
  then have "find_item c (it_object_id it) = Some it" using catalog_ok_find [OF assms(1), of it] by simp
  with Cons show ?case by (simp add: clone_ids_def List.map_filter_simps)
qed (simp add: clone_ids_def List.map_filter_simps)

lemma cached_items_all:
  "\<exists>w. cached_items (\<lambda>_. True) c v ids = Some (w, List.map_filter (find_item c) ids)"
proof (induction ids arbitrary: v)
  case (Cons i ids)
  from Cons [of "saturating_add usize_max v 1"] show ?case
    by (auto simp: Let_def List.map_filter_simps split: option.split)
qed (simp add: List.map_filter_simps)

lemma emit_recent_all:
  "emit_recent (\<lambda>_. True) root v its = Some (map (\<lambda>it. recent_clone root (it_object_id it) it) its)"
  by (induction its arbitrary: v) (simp_all add: Let_def)

lemma clone_found:
  assumes ok: "catalog_ok c"
  shows "clone_ids root c ids = map (\<lambda>it. recent_clone root (it_object_id it) it) (List.map_filter (find_item c) ids)"
proof -
  have "find_item c i = Some it \<Longrightarrow> it_object_id it = i" for i it
    using ok by (simp add: catalog_ok_def tree_ok_def)
  then show ?thesis
    by (induction ids) (auto simp: clone_ids_def List.map_filter_simps split: option.split)
qed

lemma collect_subset:
  "0 < limit \<Longrightarrow> set (collect_recent symlink cutoff cls limit its) \<subseteq> set its"
  by (rule order_trans [OF collect_recent_props(2)]) auto

lemma unstopped_recent:
  assumes ok: "catalog_ok c"
  shows "recent_items_controlled symlink (\<lambda>_. True) root c = Some (recent_items symlink root c)"
proof -
  have limit: "0 < cat_recent_limit c" using ok by (simp add: catalog_ok_def recent_ok_def)
  show ?thesis
  proof (cases "root = VIDEO_RECENT_ID \<and> cat_recent_ids c \<noteq> []")
    case True
    obtain w where "cached_items (\<lambda>_. True) c 0 (cat_recent_ids c) = Some (w, List.map_filter (find_item c) (cat_recent_ids c))"
      using cached_items_all by blast
    then show ?thesis
      using True by (simp add: recent_items_controlled_def recent_items_def emit_recent_all clone_found [OF ok])
  next
    case False
    let ?sel = "collect_recent symlink (cat_recent_cutoff_unix c) (recent_class root) (cat_recent_limit c) (map snd (cat_items c))"
    from rank_items_is_collect_recent [where check = "\<lambda>_. True" and symlink = symlink and visited = 0
        and cutoff = "cat_recent_cutoff_unix c" and c = "recent_class root",
        OF limit catalog_ok_ids [OF ok] refl TrueI]
    obtain v where v: "rank_items symlink (cat_recent_cutoff_unix c) (recent_class root) (cat_recent_limit c) (\<lambda>_. True) 0
        (map snd (cat_items c)) ([], Map.empty) = Some (v, pairs (recent_key symlink) ?sel)"
      by (rule exE)
    have "map snd (pairs (recent_key symlink) ?sel) = ?sel" by (simp add: pairs_def comp_def)
    moreover have "clone_ids root c (map it_object_id ?sel) = map (\<lambda>it. recent_clone root (it_object_id it) it) ?sel"
      by (rule clone_own [OF ok collect_subset [OF limit]])
    moreover have "recent_items symlink root c = clone_ids root c (map it_object_id ?sel)"
      by (simp only: recent_items_def collect_recent_item_ids_def if_not_P [OF False])
    moreover have "recent_items_controlled symlink (\<lambda>_. True) root c =
        emit_recent (\<lambda>_. True) root v (map snd (pairs (recent_key symlink) ?sel))"
      by (simp only: recent_items_controlled_def if_not_P [OF False] v not_True_eq_False if_False
          option.map option.case prod.case)
    ultimately show ?thesis by (simp only: emit_recent_all)
  qed
qed

text \<open>
  In every catalogue reached by the program, a Recently Added view read in one bounded pass, when no
  check stops it, is the view obtained by sorting all items: the same entries in the same order.
\<close>
theorem checked_recent_is_recent:
  assumes "catalog_step\<^sup>*\<^sup>* catalog_new c" "\<And>n. check n"
  shows "recent_items_controlled symlink check root c = Some (recent_items symlink root c)"
proof -
  have "check = (\<lambda>_. True)" using assms(2) by blast
  then show ?thesis using unstopped_recent [OF catalogs.reachable_inv [OF refl assms(1)]] by simp
qed

lemma checked_recent_is_recent_witness:
  "recent_items_controlled (\<lambda>_. False) (\<lambda>_. True) MUSIC_RECENT_ID catalog_new =
     Some (recent_items (\<lambda>_. False) MUSIC_RECENT_ID catalog_new)"
  using checked_recent_is_recent [OF rtranclp.rtrancl_refl, of "\<lambda>_. True" "\<lambda>_. False" MUSIC_RECENT_ID] by blast

subsection \<open>The counts\<close>

lemma count_identities_card:
  "length seen < limit \<Longrightarrow> distinct seen \<Longrightarrow>
   count_identities limit seen its = min limit (card (set seen \<union> physical_identity_key ` set its))"
proof (induction its arbitrary: seen)
  case Nil
  then show ?case by (simp add: distinct_card)
next
  case (Cons it its)
  let ?seen = "List.insert (physical_identity_key it) seen"
  have d: "distinct ?seen" using Cons.prems by simp
  have le: "length ?seen \<le> limit" using Cons.prems(1) by (simp add: List.insert_def)
  have eq: "set seen \<union> physical_identity_key ` set (it # its) = set ?seen \<union> physical_identity_key ` set its" by auto
  show ?case
  proof (cases "length ?seen = limit")
    case True
    have "card (set ?seen) \<le> card (set ?seen \<union> physical_identity_key ` set its)" by (rule card_mono) auto
    moreover have "card (set ?seen) = limit" using d True by (simp only: distinct_card)
    ultimately show ?thesis unfolding eq using True by (simp add: Let_def)
  next
    case False
    then show ?thesis unfolding eq using Cons.IH [of ?seen] d le by (simp add: Let_def)
  qed
qed

lemma count_checked_all:
  "count_checked (\<lambda>_. True) elig limit index seen its =
     Some (count_identities limit seen (filter elig its))"
  by (induction its arbitrary: index seen) (simp_all add: Let_def)

lemma collect_recent_length:
  assumes "0 < limit"
  shows "length (collect_recent symlink cutoff cls limit its) =
    min limit (card (physical_identity_key ` set (filter (recent_item_is_eligible cutoff cls) its)))"
proof -
  let ?F = "first_of_each physical_identity_key (sort_key (recent_key symlink) (filter (recent_item_is_eligible cutoff cls) its))"
  have "length ?F = card (set (map physical_identity_key ?F))"
    using distinct_card [OF distinct_first_of_each] by (metis length_map)
  then have "length ?F = card (physical_identity_key ` set (filter (recent_item_is_eligible cutoff cls) its))"
    by (simp add: first_of_each_image)
  then show ?thesis by (simp add: collect_recent_first [OF assms] min.commute)
qed

lemma recent_items_length:
  assumes ok: "catalog_ok c"
  shows "length (recent_items symlink root c) =
    (if root = VIDEO_RECENT_ID \<and> cat_recent_ids c \<noteq> [] then length (cat_recent_ids c)
     else count_identities (cat_recent_limit c) []
       (filter (recent_item_is_eligible (cat_recent_cutoff_unix c) (recent_class root)) (map snd (cat_items c))))"
proof (cases "root = VIDEO_RECENT_ID \<and> cat_recent_ids c \<noteq> []")
  case True
  have "find_item c i \<noteq> None" if "i \<in> set (cat_recent_ids c)" for i
    using ok that by (auto simp: catalog_ok_def recent_ok_def dest: in_set_takeD)
  then show ?thesis using True by (simp add: recent_items_def clone_found [OF ok] map_filter_Some)
next
  case False
  have limit: "0 < cat_recent_limit c" using ok by (simp add: catalog_ok_def recent_ok_def)
  show ?thesis
    using False limit collect_recent_length [OF limit]
    by (auto simp: recent_items_def collect_recent_item_ids_def clone_own [OF ok collect_subset [OF limit]]
        count_identities_card)
qed

lemma unstopped_counts:
  "displayed_child_count_controlled (\<lambda>_. True) i c = Some (displayed_child_count i c)"
  "displayed_container_count_controlled (\<lambda>_. True) i c = Some (displayed_container_count i c)"
proof -
  show "displayed_child_count_controlled (\<lambda>_. True) i c = Some (displayed_child_count i c)"
    by (simp add: displayed_child_count_controlled_def displayed_child_count_def count_checked_all)
  have "count_containers (\<lambda>_. True) c index n chs =
      Some (n + length (filter (\<lambda>ch. find_container c ch \<noteq> None) chs))" for index n chs
    by (induction chs arbitrary: index n) simp_all
  then show "displayed_container_count_controlled (\<lambda>_. True) i c = Some (displayed_container_count i c)"
    by (simp add: displayed_container_count_controlled_def displayed_container_count_def
        catalog_count_def split: option.split)
qed

text \<open>
  The child count shown for a Recently Added container is the number of entries its listing has,
  and the count computed with cooperative checks is the same when no check stops it; this holds for
  every container id, and for the count of child containers too.
\<close>
theorem displayed_counts:
  assumes "catalog_step\<^sup>*\<^sup>* catalog_new c" "\<And>n. check n"
  shows "(\<forall>root. recent_root i = Some root \<longrightarrow>
      displayed_child_count i c = min (length (recent_items symlink root c)) 4294967295) \<and>
    displayed_child_count_controlled check i c = Some (displayed_child_count i c) \<and>
    displayed_container_count_controlled check i c = Some (displayed_container_count i c)"
proof -
  have ok: "catalog_ok c" by (rule catalogs.reachable_inv [OF refl assms(1)])
  have check: "check = (\<lambda>_. True)" using assms(2) by blast
  have root: "root = i" if "recent_root i = Some root" for root
    using that by (auto simp: recent_root_def split: if_splits)
  have "displayed_child_count i c = min (length (recent_items symlink root c)) 4294967295"
    if "recent_root i = Some root" for root
    using that root [OF that] recent_items_length [OF ok, of symlink root]
    by (simp add: displayed_child_count_def catalog_count_def u32_max_def)
  moreover note unstopped_counts [of i c]
  ultimately show ?thesis unfolding check by blast
qed

lemma displayed_counts_witness:
  "displayed_child_count_controlled (\<lambda>_. True) ''2'' catalog_new = Some (displayed_child_count ''2'' catalog_new)"
  using displayed_counts [OF rtranclp.rtrancl_refl, of "\<lambda>_. True" "''2''"] by blast

end
