(* ===== verification/Catalog_Links.thy ===== *)
theory Catalog_Links
  imports Catalog_Recent
begin

text \<open>
  What patches do to the lists of children, which listed objects can be looked up, and two states in
  which a patch leaves the catalogue behind the database it was read from.
\<close>

subsection \<open>Incoming rows hang below their parents\<close>

definition grows :: "(string \<times> folder) list \<Rightarrow> (string \<times> folder) list \<Rightarrow> bool" where
  "grows cs ds \<longleftrightarrow>
     (\<forall>i. case map_of cs i of
            None \<Rightarrow> map_of ds i = None
          | Some f \<Rightarrow> \<exists>g. map_of ds i = Some g \<and> prefix (ct_children f) (ct_children g))"

lemma grows_refl: "grows cs cs"
  by (simp add: grows_def split: option.split)

lemma grows_None: "grows cs ds \<Longrightarrow> map_of cs i = None \<Longrightarrow> map_of ds i = None"
  unfolding grows_def by (drule spec [of _ i]) simp

lemma grows_Some:
  "grows cs ds \<Longrightarrow> map_of cs i = Some f \<Longrightarrow> \<exists>g. map_of ds i = Some g \<and> prefix (ct_children f) (ct_children g)"
  unfolding grows_def by (drule spec [of _ i]) simp

lemma grows_trans: "grows a b \<Longrightarrow> grows b c \<Longrightarrow> grows a c"
proof -
  assume ab: "grows a b" and bc: "grows b c"
  have "case map_of a i of None \<Rightarrow> map_of c i = None
    | Some f \<Rightarrow> \<exists>g. map_of c i = Some g \<and> prefix (ct_children f) (ct_children g)" for i
  proof (cases "map_of a i")
    case None
    then have "map_of c i = None" using ab bc grows_None by blast
    with None show ?thesis by simp
  next
    case (Some f)
    then obtain g h where "map_of b i = Some g" "prefix (ct_children f) (ct_children g)"
      "map_of c i = Some h" "prefix (ct_children g) (ct_children h)"
      using ab bc grows_Some by meson
    with Some show ?thesis by (auto intro: prefix_order.order_trans)
  qed
  then show ?thesis by (simp add: grows_def)
qed

lemma grows_link_in: "grows cs (link_in p ch cs)"
  by (auto simp: grows_def map_of_link_in split: option.split)

lemma grows_links: "grows cs (fold (\<lambda>x. link_in (p x) (q x)) xs cs)"
  by (induction xs arbitrary: cs) (auto intro: grows_refl grows_trans grows_link_in)

lemma link_in_links: "map_of (link_in p ch cs) p = Some g \<Longrightarrow> ch \<in> set (ct_children g)"
  by (auto simp: map_of_link_in split: if_splits dest: arg_cong [where f = ct_children])

lemma grows_dom: "grows cs ds \<Longrightarrow> map_of ds i = Some g \<Longrightarrow> \<exists>f. map_of cs i = Some f \<and> prefix (ct_children f) (ct_children g)"
  using grows_None [of cs ds i] grows_Some [of cs ds i] by (cases "map_of cs i") auto

lemma links_linked:
  assumes "x \<in> set xs" "map_of (fold (\<lambda>x. link_in (p x) (q x)) xs cs) (p x) = Some g"
  shows "q x \<in> set (ct_children g)"
  using assms
proof (induction xs arbitrary: cs)
  case (Cons y ys)
  show ?case
  proof (cases "x \<in> set ys")
    case True
    with Cons show ?thesis by simp
  next
    case False
    then have y: "y = x" using Cons.prems(1) by simp
    have "grows (link_in (p x) (q x) cs) (fold (\<lambda>x. link_in (p x) (q x)) ys (link_in (p x) (q x) cs))"
      by (rule grows_links)
    from grows_dom [OF this, of "p x" g] Cons.prems(2) y
    obtain f where "map_of (link_in (p x) (q x) cs) (p x) = Some f" "prefix (ct_children f) (ct_children g)" by auto
    then show ?thesis using link_in_links by (meson set_mono_prefix subsetD)
  qed
qed simp

lemma patched_rows_containers:
  "cat_containers (patched_rows p c) =
     fold (\<lambda>it. link_in (it_parent_id it) (it_object_id it)) (pt_items p)
       (fold (\<lambda>l. link_in (snd l) (fst l)) (container_links p)
          (snd (fold put_container (pt_containers p)
             (old_children (removed_objects p) c, cat_containers (detach (removed_objects p) c)))))"
  by (simp add: patched_rows_def Let_def put_item_linked_containers case_prod_beta')

lemma patch_containers:
  "cat_containers (apply_patch symlink p c) = cat_containers (patched_rows p c)"
  by (simp add: batched_links_eq apply_patch_one_by_one_def)

text \<open>
  After a patch every item and every container of the patch is listed by its parent, whenever that
  parent is a container of the catalogue.
\<close>
theorem patch_rows_listed:
  assumes "x \<in> set (map (\<lambda>it. (it_object_id it, it_parent_id it)) (pt_items p)) \<union> set (container_links p)"
    and "find_container (apply_patch symlink p c) (snd x) = Some g"
  shows "fst x \<in> set (ct_children g)"
proof -
  define cs where "cs = snd (fold put_container (pt_containers p)
    (old_children (removed_objects p) c, cat_containers (detach (removed_objects p) c)))"
  define ds where "ds = fold (\<lambda>l. link_in (snd l) (fst l)) (container_links p) cs"
  have find: "map_of (fold (\<lambda>it. link_in (it_parent_id it) (it_object_id it)) (pt_items p) ds) (snd x) = Some g"
    using assms(2) by (simp add: patch_containers patched_rows_containers ds_def cs_def)
  show ?thesis
  proof (cases "x \<in> set (container_links p)")
    case True
    from grows_dom [OF grows_links find]
    obtain f where f: "map_of ds (snd x) = Some f" "prefix (ct_children f) (ct_children g)" by blast
    from links_linked [OF True, of snd fst cs f] f(1) have "fst x \<in> set (ct_children f)" by (simp add: ds_def)
    then show ?thesis using f(2) by (meson set_mono_prefix subsetD)
  next
    case False
    then obtain it where it: "it \<in> set (pt_items p)" "x = (it_object_id it, it_parent_id it)"
      using assms(1) by auto
    from links_linked [OF it(1), of it_parent_id it_object_id ds g] find it(2) show ?thesis by simp
  qed
qed

text \<open>A small item for the examples: object id, parent, detail id, class, inode.\<close>

definition plain_item :: "string \<Rightarrow> string \<Rightarrow> int \<Rightarrow> string \<Rightarrow> nat \<Rightarrow> media_item" where
  "plain_item i parent d cls inode =
     \<lparr>it_object_id = i, it_parent_id = parent, it_detail_id = d, it_title = i, it_class = cls, it_date = [],
      it_path = i, it_collection_path = None, it_mime = ''video/mp4'', it_ext = ''mp4'', it_size = 1, it_mtime = 1000 - d,
      it_captions = [], it_probe = default_probe, it_dlna_pn = None, it_ref_id = None, it_device = 1,
      it_inode = inode, it_duration = None, it_bitrate = None, it_resolution = None, it_channels = None,
      it_samplerate = None, it_album_art = 0, it_creator = None, it_about = None, it_plot = None,
      it_artist = None, it_album_artist = None, it_composer = None, it_contributor = None, it_album = None,
      it_genre = None, it_disc = None, it_track = None, it_rating = None, it_rotation = None,
      it_bookmark_sec = 0, it_watch_count = 0, it_stream_probe_failed = False\<rparr>"

definition plain_patch :: "string list \<Rightarrow> folder list \<Rightarrow> media_item list \<Rightarrow> catalog_patch" where
  "plain_patch ids cs its =
     \<lparr>pt_changed_object_ids = ids, pt_changed_detail_ids = [], pt_changed_album_art_ids = [],
      pt_containers = cs, pt_items = its, pt_album_art_paths = Map.empty\<rparr>"

definition one_patch :: catalog_patch where
  "one_patch = plain_patch [] [] [plain_item ''64$0'' ''64'' 7 ''item.videoItem'' 5]"

lemma patch_rows_listed_witness:
  "\<exists>g. find_container (apply_patch (\<lambda>_. False) one_patch small_catalog) ''64'' = Some g \<and> ''64$0'' \<in> set (ct_children g)"
proof -
  have "find_container small_catalog ''64'' \<noteq> None" by code_simp
  moreover have "''64'' \<notin> set (removed_objects one_patch)" "pt_containers one_patch = []"
    by (simp_all add: one_patch_def plain_patch_def plain_item_def removed_objects_def)
  ultimately have "map_option bare (find_container (patched_rows one_patch small_catalog) ''64'') =
      map_option bare (find_container small_catalog ''64'')"
    by (simp only: patched_containers last_row_Nil option.case if_False)
  then have "find_container (apply_patch (\<lambda>_. False) one_patch small_catalog) ''64'' \<noteq> None"
    using \<open>find_container small_catalog ''64'' \<noteq> None\<close> unfolding patch_containers by (metis option.map_disc_iff)
  then obtain g where g: "find_container (apply_patch (\<lambda>_. False) one_patch small_catalog) ''64'' = Some g" by blast
  have "(''64$0'', ''64'') \<in> set (map (\<lambda>it. (it_object_id it, it_parent_id it)) (pt_items one_patch)) \<union> set (container_links one_patch)"
    by (simp add: one_patch_def plain_patch_def plain_item_def)
  from patch_rows_listed [OF this, of "\<lambda>_. False" small_catalog g] g show ?thesis by simp
qed

subsection \<open>Looking up what was listed\<close>

text \<open>
  An entry of the Recently Added video listing is found again under the id it was listed with, as
  the same object, when no container shares an item's id.
\<close>
theorem listed_recent_is_found:
  assumes "catalog_step\<^sup>*\<^sup>* catalog_new c" "ch \<in> set (recent_items symlink VIDEO_RECENT_ID c)"
    and apart: "\<And>i. find_item c i \<noteq> None \<Longrightarrow> find_container c i = None"
  shows "metadata (child_id ch) c = Some ch"
proof -
  have ok: "catalog_ok c" by (rule catalogs.reachable_inv [OF refl assms(1)])
  then have limit: "0 < cat_recent_limit c" by (simp add: catalog_ok_def recent_ok_def)
  have cls: "recent_class VIDEO_RECENT_ID = ''video''" by (simp add: recent_class_def object_id_defs)
  obtain it where it: "find_item c (it_object_id it) = Some it" "prefix BROWSEDIR_ID (it_object_id it)"
    and ch: "ch = recent_clone VIDEO_RECENT_ID (it_object_id it) it"
  proof (cases "cat_recent_ids c = []")
    case True
    let ?sel = "collect_recent symlink (cat_recent_cutoff_unix c) ''video'' (cat_recent_limit c) (map snd (cat_items c))"
    have "recent_items symlink VIDEO_RECENT_ID c = map (\<lambda>it. recent_clone VIDEO_RECENT_ID (it_object_id it) it) ?sel"
      unfolding recent_items_def collect_recent_item_ids_def cls
      using clone_own [OF ok collect_subset [OF limit]] True by simp
    then obtain it where "it \<in> set ?sel" "ch = recent_clone VIDEO_RECENT_ID (it_object_id it) it"
      using assms(2) by auto
    then show thesis
      using that collect_recent_props(2) [OF limit] catalog_ok_find [OF ok]
      by (fastforce simp: recent_item_is_eligible_def)
  next
    case False
    then have "ch \<in> set (clone_ids VIDEO_RECENT_ID c (cat_recent_ids c))" using assms(2) by (simp add: recent_items_def)
    then obtain i it where i: "i \<in> set (cat_recent_ids c)" "find_item c i = Some it" "ch = recent_clone VIDEO_RECENT_ID (it_object_id it) it"
      by (auto simp: clone_found [OF ok] set_map_filter)
    moreover have "it_object_id it = i" using ok i(2) by (simp add: catalog_ok_def tree_ok_def)
    moreover have "recent_item_is_eligible (cat_recent_cutoff_unix c) ''video'' it"
      using ok i(1,2) by (fastforce simp: catalog_ok_def recent_ok_def dest: in_set_takeD)
    ultimately show thesis using that [of it] by (simp add: recent_item_is_eligible_def)
  qed
  obtain r where r: "it_object_id it = CHR ''6'' # r" using it(2) by (auto simp: object_id_defs prefix_def)
  have "strip_prefix (VIDEO_RECENT_ID @ ''$'') (it_object_id it) = None"
    by (simp add: strip_prefix_def r object_id_defs)
  then have own: "metadata (it_object_id it) c = Some (ItemChild it)"
    using it(1) apart [of "it_object_id it"] by (subst metadata.simps) simp
  have "strip_prefix (VIDEO_RECENT_ID @ ''$'') (child_id ch) = Some (CHR ''6'' # r)"
    by (simp add: ch recent_clone_def strip_prefix_def r)
  then have "metadata (child_id ch) c = map_option (rename_recent (child_id ch)) (metadata (CHR ''6'' # r) c)"
    by (subst metadata.simps) (simp only: option.case list.case)
  then show ?thesis using own by (simp add: r rename_recent_def ch recent_clone_def)
qed

text \<open>
  The entries of the Recently Added music and picture listings are not found under their listed
  ids: such an id is looked up as it stands.
\<close>
theorem other_recent_ids_unresolved:
  assumes "root \<in> {MUSIC_RECENT_ID, IMAGE_RECENT_ID}"
    and "find_item c (root @ ''$'' @ i) = None" "find_container c (root @ ''$'' @ i) = None"
  shows "metadata (root @ ''$'' @ i) c = None"
proof -
  have "strip_prefix (VIDEO_RECENT_ID @ ''$'') (root @ ''$'' @ i) = None" "detail_of_id (root @ ''$'' @ i) = None"
    using assms(1) by (auto simp: strip_prefix_def object_id_defs detail_of_id_def is_digit_def)
  then show ?thesis using assms(2,3) by (subst metadata.simps) (simp add: metadata_by_detail_def)
qed

subsection \<open>Where a patch falls behind the database\<close>

lemma put_container_pair:
  "put_container f (old, cs) =
     (old(ct_object_id f := None),
      AList.update (ct_object_id f) (case old (ct_object_id f) of Some ch \<Rightarrow> f\<lparr>ct_children := ch\<rparr> | None \<Rightarrow> f) cs)"
  by (simp add: put_container_def)

lemma put_containers_other:
  "i \<notin> ct_object_id ` set fs \<Longrightarrow> map_of (snd (fold put_container fs (old, cs))) i = map_of cs i"
proof (induction fs arbitrary: old cs)
  case (Cons f fs)
  then show ?case by (simp add: put_container_pair map_of_update)
qed simp

lemma put_containers_children:
  "i \<in> ct_object_id ` set fs \<Longrightarrow> distinct (map ct_object_id fs) \<Longrightarrow> old i = Some chs \<Longrightarrow>
   \<exists>g. map_of (snd (fold put_container fs (old, cs))) i = Some g \<and> ct_children g = chs"
proof (induction fs arbitrary: old cs)
  case (Cons f fs)
  show ?case
  proof (cases "ct_object_id f = i")
    case True
    then have "i \<notin> ct_object_id ` set fs" using Cons.prems(2) by auto
    then show ?thesis using True Cons.prems(3) by (simp add: put_container_pair put_containers_other map_of_update)
  next
    case False
    then have "\<exists>g. map_of (snd (fold put_container fs (old(ct_object_id f := None), cs'))) i = Some g \<and> ct_children g = chs" for cs'
      using Cons by auto
    then show ?thesis by (simp add: put_container_pair)
  qed
qed simp

text \<open>
  When a patch both rewrites a container and deletes one of its children, the deleted id stays in
  the container's list of children although nothing has that id any more: the container gets its
  former children back unfiltered.
\<close>
theorem rewritten_container_keeps_deleted_child:
  assumes "find_container c i = Some f" "ch \<in> set (ct_children f)"
    and "{i, ch} \<subseteq> set (pt_changed_object_ids p)" "i \<in> ct_object_id ` set (pt_containers p)"
    and "distinct (map ct_object_id (pt_containers p))"
    and "ch \<notin> it_object_id ` set (pt_items p)" "ch \<notin> ct_object_id ` set (pt_containers p)"
  shows "\<not> child_exists (apply_patch symlink p c) ch \<and>
    (\<exists>g. find_container (apply_patch symlink p c) i = Some g \<and> ch \<in> set (ct_children g))"
proof
  have "last_row it_object_id (pt_items p) ch = None" "last_row ct_object_id (pt_containers p) ch = None"
    using assms(6,7) by (simp_all add: last_row_None)
  moreover have "ch \<in> set (pt_changed_object_ids p)" "ch \<in> set (removed_objects p)"
    using assms(3) by (simp_all add: removed_objects_def)
  ultimately have "find_item (patched_rows p c) ch = None" "find_container (patched_rows p c) ch = None"
    using patched_items [of p c ch] patched_containers [of p c ch] by simp_all
  then show "\<not> child_exists (apply_patch symlink p c) ch"
    by (simp add: child_exists_def batched_links_eq apply_patch_one_by_one_def)
  have "old_children (removed_objects p) c i = Some (ct_children f)"
    using assms(1,3) by (simp add: old_children_def removed_objects_def)
  from put_containers_children [where old = "old_children (removed_objects p) c", OF assms(4,5) this]
  obtain g where g: "map_of (snd (fold put_container (pt_containers p)
      (old_children (removed_objects p) c, cat_containers (detach (removed_objects p) c)))) i = Some g"
    "ct_children g = ct_children f" by blast
  from grows_trans [OF grows_links grows_links] grows_Some [OF _ g(1)]
  obtain h where "find_container (patched_rows p c) i = Some h" "prefix (ct_children g) (ct_children h)"
    unfolding patched_rows_containers by blast
  then show "\<exists>g. find_container (apply_patch symlink p c) i = Some g \<and> ch \<in> set (ct_children g)"
    using assms(2) g(2) unfolding patch_containers by (metis set_mono_prefix subsetD)
qed

text \<open>Three videos, two of them hard links to one file, and the cache built from them.\<close>

definition three_items :: "(string \<times> media_item) list" where
  "three_items = map (\<lambda>it. (it_object_id it, it))
     [plain_item ''64$a'' ''64'' 1 ''item.videoItem'' 5, plain_item ''64$b'' ''64'' 2 ''item.videoItem'' 5,
      plain_item ''64$z'' ''64'' 3 ''item.videoItem'' 9]"

definition aliased :: catalog where
  "aliased = rebuild_recent_index (\<lambda>_. False) (catalog_new\<lparr>cat_items := three_items\<rparr>)"

definition alias_deleted :: catalog where
  "alias_deleted = apply_patch (\<lambda>_. False) (plain_patch [''64$a''] [] []) aliased"

lemma recent_cache_200: "recent_cache_limit 200 = 400"
  by (simp add: recent_cache_limit_def saturating_mul_def saturating_add_def usize_max_def u64_max_def)

lemma catalog_new_policy:
  "cat_recent_limit catalog_new = 200" "cat_recent_cutoff_unix catalog_new = None"
proof -
  have "cat_recent_limit (fold (\<lambda>(i, p, t, cls, s). add_container i p t cls s) xs c) = cat_recent_limit c \<and>
      cat_recent_cutoff_unix (fold (\<lambda>(i, p, t, cls, s). add_container i p t cls s) xs c) = cat_recent_cutoff_unix c" for xs c
    by (induction xs arbitrary: c) (auto simp: add_container_def)
  moreover have "cat_recent_limit (fold (\<lambda>(p, ch). link_child p ch) xs c) = cat_recent_limit c \<and>
      cat_recent_cutoff_unix (fold (\<lambda>(p, ch). link_child p ch) xs c) = cat_recent_cutoff_unix c" for xs c
    by (induction xs arbitrary: c) (auto simp: link_child_def)
  ultimately show "cat_recent_limit catalog_new = 200" "cat_recent_cutoff_unix catalog_new = None"
    by (simp_all add: catalog_new_def empty_catalog_def RECENT_MAX_def)
qed

lemma aliased_state:
  "cat_recent_candidate_ids aliased = [''64$a'', ''64$z'']" "cat_items aliased = three_items"
  "cat_recent_limit aliased = 200" "cat_recent_cutoff_unix aliased = None"
proof -
  have "map it_object_id (collect_recent (\<lambda>_. False) None (recent_class VIDEO_RECENT_ID) 400 (map snd three_items)) = [''64$a'', ''64$z'']"
    by code_simp
  then show "cat_recent_candidate_ids aliased = [''64$a'', ''64$z'']"
    by (simp add: aliased_def rebuild_recent_index_def set_recent_def Let_def collect_recent_item_ids_def
        catalog_new_policy recent_cache_200)
qed (simp_all add: aliased_def rebuild_recent_index_def set_recent_def Let_def catalog_new_policy)

lemma alias_deleted_state:
  "cat_recent_ids alias_deleted = [''64$z'']" "cat_items alias_deleted = tl three_items"
  "cat_recent_limit alias_deleted = 200" "cat_recent_cutoff_unix alias_deleted = None"
proof -
  let ?p = "plain_patch [''64$a''] [] []"
  let ?c = "(patched_rows ?p aliased)\<lparr>cat_album_art_paths := patched_art ?p aliased\<rparr>"
  have items: "cat_items ?c = tl three_items"
    by (simp add: patched_rows_def Let_def put_item_linked_items detach_def aliased_state plain_patch_def removed_objects_def)
      (simp add: three_items_def plain_item_def)
  have cand: "cat_recent_candidate_ids ?c = [''64$a'', ''64$z'']"
    by (simp add: patched_rows_def Let_def detach_def aliased_state plain_patch_def)
  have eval: "retain_unseen (\<lambda>i. physical_identity_key (the (map_of (tl three_items) i))) []
      (sort_key (\<lambda>i. recent_key (\<lambda>_. False) (the (map_of (tl three_items) i)))
        (filter (\<lambda>i. case map_of (tl three_items) i of
                       Some it \<Rightarrow> recent_item_is_eligible None ''video'' it | None \<Rightarrow> False)
          (remdups_adj (sort [''64$a'', ''64$z''])))) = [''64$z'']"
    by code_simp
  have policy: "cat_recent_limit ?c = 200" "cat_recent_cutoff_unix ?c = None" by (simp_all add: aliased_state)
  have new: "recent_candidates (\<lambda>_. False) [] ?c = [''64$z'']"
    unfolding recent_candidates_def Let_def items cand append_Nil2 policy eval recent_cache_200 by simp
  have E: "alias_deleted = refresh_recent_index (\<lambda>_. False) [] False ?c"
    by (simp add: alias_deleted_def batched_links_eq apply_patch_one_by_one_def aliased_state recent_cache_200)
      (simp add: plain_patch_def)
  show "cat_recent_ids alias_deleted = [''64$z'']" "cat_items alias_deleted = tl three_items"
    "cat_recent_limit alias_deleted = 200" "cat_recent_cutoff_unix alias_deleted = None"
    using items new unfolding E by (simp_all add: refresh_recent_index_def set_recent_def aliased_state Let_def)
qed

text \<open>
  Deleting one of two hard links loses the file from the Recently Added view although the other
  link is still in the catalogue: after the patch the cached view shows one entry, and a walk of the
  same catalogue two.
\<close>
theorem refresh_misses_surviving_link:
  "cat_recent_ids alias_deleted = [''64$z''] \<and>
   collect_recent_item_ids (\<lambda>_. False) VIDEO_RECENT_ID (cat_recent_limit alias_deleted) alias_deleted = [''64$b'', ''64$z'']"
proof -
  have "map it_object_id (collect_recent (\<lambda>_. False) None (recent_class VIDEO_RECENT_ID) 200 (map snd (tl three_items))) = [''64$b'', ''64$z'']"
    by code_simp
  then show ?thesis by (simp add: collect_recent_item_ids_def alias_deleted_state)
qed

end
