(* ===== verification/Catalog_Mirrors.thy ===== *)
theory Catalog_Mirrors
  imports Catalog_Links
begin

text \<open>
  \<open>ensure_video_folder_mirrors\<close> (\<open>crates/scan/src/catalog.rs\<close>): every video below Browse Folders
  appears again below Video/Folders. The walk to the ancestors of a folder follows parent ids and may
  not end, so it is a partial function whose value is \<open>None\<close> when it does not.
\<close>

definition browse_to_typed_dir :: "string \<Rightarrow> string \<Rightarrow> string" where
  "browse_to_typed_dir i typed =
     (if i = BROWSEDIR_ID then typed
      else case strip_prefix BROWSEDIR_ID i of Some rest \<Rightarrow> typed @ rest | None \<Rightarrow> i)"

partial_function (option) ancestors :: "(string \<times> folder) list \<Rightarrow> string \<Rightarrow> string list option" where
  [code]: "ancestors cs cur =
     (if cur = BROWSEDIR_ID \<or> cur = ROOT_ID then Some []
      else case map_of cs cur of
             None \<Rightarrow> Some [cur]
           | Some f \<Rightarrow> Option.bind (ancestors cs (ct_parent_id f)) (\<lambda>up. Some (cur # up)))"

definition mirror_folder ::
  "string \<Rightarrow> catalog \<times> string list \<Rightarrow> catalog \<times> string list" where
  "mirror_folder bid st =
     (case st of (c, linked) \<Rightarrow>
        case find_container c bid of
          None \<Rightarrow> (c, linked)
        | Some cont \<Rightarrow>
            let vid = browse_to_typed_dir bid VIDEO_DIR_ID;
                vparent = browse_to_typed_dir (ct_parent_id cont) VIDEO_DIR_ID;
                c1 = (if find_container c vid = None
                      then add_container vid vparent (ct_title cont) storage_folder True c else c)
            in if vid \<in> set linked then (c1, linked)
               else (case find_container c1 vparent of
                       Some p \<Rightarrow> c1\<lparr>cat_containers := AList.update vparent (push_child vid p) (cat_containers c1)\<rparr>
                     | None \<Rightarrow> c1,
                     vid # linked))"

definition mirror_video_dir_ancestors ::
  "string \<Rightarrow> catalog \<times> string list \<Rightarrow> (catalog \<times> string list) option" where
  "mirror_video_dir_ancestors folder st =
     map_option (\<lambda>chain. fold mirror_folder (rev chain) st) (ancestors (cat_containers (fst st)) folder)"

fun mirror_parents :: "string list \<Rightarrow> catalog \<times> string list \<Rightarrow> (catalog \<times> string list) option" where
  "mirror_parents [] st = Some st"
| "mirror_parents (p # ps) st =
     (case mirror_video_dir_ancestors p st of None \<Rightarrow> None | Some st' \<Rightarrow> mirror_parents ps st')"

definition ensure_view :: "string \<Rightarrow> string \<Rightarrow> bool \<Rightarrow> catalog \<Rightarrow> catalog" where
  "ensure_view i title searchable c =
     (if find_container c i = None
      then link_child VIDEO_ID i (add_container i VIDEO_ID title storage_folder searchable c)
      else c)"

definition mirror_item :: "string \<times> string \<Rightarrow> catalog \<Rightarrow> catalog" where
  "mirror_item m c =
     (case m of (i, mirror) \<Rightarrow>
        case find_item c i of
          None \<Rightarrow> c
        | Some source \<Rightarrow>
            let parent = browse_to_typed_dir (it_parent_id source) VIDEO_DIR_ID;
                it = source\<lparr>it_object_id := mirror, it_parent_id := parent, it_ref_id := Some i\<rparr>;
                cs = (case find_container c parent of
                        Some p \<Rightarrow> AList.update parent (push_child mirror p) (cat_containers c)
                      | None \<Rightarrow> cat_containers c)
            in c\<lparr>cat_containers := cs, cat_items := AList.update mirror it (cat_items c)\<rparr>)"

definition browse_video :: "media_item \<Rightarrow> bool" where
  "browse_video it \<longleftrightarrow> str_contains ''video'' (it_class it) \<and> prefix BROWSEDIR_ID (it_object_id it)"

definition missing_mirrors :: "catalog \<Rightarrow> (string \<times> string) list" where
  "missing_mirrors c =
     sort (List.map_filter
       (\<lambda>it. let mirror = browse_to_typed_dir (it_object_id it) VIDEO_DIR_ID
             in if browse_video it \<and> find_item c mirror = None then Some (it_object_id it, mirror) else None)
       (map snd (cat_items c)))"

definition linked_containers :: "catalog \<Rightarrow> string list" where
  "linked_containers c =
     filter (\<lambda>i. find_container c i \<noteq> None) (concat (map (ct_children \<circ> snd) (cat_containers c)))"

definition ensure_video_folder_mirrors :: "(string \<Rightarrow> bool) \<Rightarrow> catalog \<Rightarrow> catalog option" where
  "ensure_video_folder_mirrors symlink c0 =
     (let c = ensure_view VIDEO_GENRE_ID ''Genre'' True
                (ensure_view VIDEO_SERIES_ID ''Series'' True
                  (ensure_view VIDEO_RECENT_ID ''Recently Added'' False
                    (ensure_view VIDEO_DIR_ID ''Folders'' True c0)));
          parents = sort (remdups (map it_parent_id (filter browse_video (map snd (cat_items c)))))
      in case mirror_parents parents (c, linked_containers c) of
           None \<Rightarrow> None
         | Some (c', _) \<Rightarrow> Some (rebuild_recent_index symlink (fold mirror_item (missing_mirrors c) c')))"

subsection \<open>Ancestor walks\<close>

text \<open>
  The walk to a folder's ancestors returns whenever parents have a smaller rank than their children,
  and then lists folders of the catalogue only, the last one possibly missing.
\<close>
theorem ancestors_return:
  assumes "\<And>i f. map_of cs i = Some f \<Longrightarrow> i \<noteq> BROWSEDIR_ID \<Longrightarrow> i \<noteq> ROOT_ID \<Longrightarrow> rank (ct_parent_id f) < (rank i :: nat)"
  shows "\<exists>chain. ancestors cs cur = Some chain \<and> (\<forall>i \<in> set (butlast chain). map_of cs i \<noteq> None) \<and>
    length chain \<le> Suc (rank cur)"
proof (induction "rank cur" arbitrary: cur rule: less_induct)
  case less
  show ?case
  proof (cases "cur = BROWSEDIR_ID \<or> cur = ROOT_ID")
    case True
    then show ?thesis by (simp add: ancestors.simps [of cs cur])
  next
    case False
    show ?thesis
    proof (cases "map_of cs cur")
      case None
      then show ?thesis using False by (simp add: ancestors.simps [of cs cur])
    next
      case (Some f)
      then have lower: "rank (ct_parent_id f) < rank cur" using assms False by blast
      from less [OF this] obtain up where up: "ancestors cs (ct_parent_id f) = Some up"
        "\<forall>i \<in> set (butlast up). map_of cs i \<noteq> None" "length up \<le> Suc (rank (ct_parent_id f))" by blast
      then have "ancestors cs cur = Some (cur # up)" using False Some by (simp add: ancestors.simps [of cs cur])
      with up lower Some show ?thesis by (auto split: if_splits)
    qed
  qed
qed

lemma ancestors_return_witness:
  "\<exists>chain. ancestors (cat_containers small_catalog) ''64$1'' = Some chain \<and> length chain \<le> 2"
proof -
  have cs: "map_of (cat_containers small_catalog) i = Some f \<Longrightarrow> i \<noteq> BROWSEDIR_ID \<Longrightarrow> i \<noteq> ROOT_ID \<Longrightarrow>
      (if ct_parent_id f = ''64'' then 0 else 1) < (if i = ''64'' then 0 else (1::nat))" for i f
    by (auto simp: small_catalog_def link_child_def link_in_def add_container_def empty_catalog_def map_of_update
        push_child_def BROWSEDIR_ID_def ROOT_ID_def split: if_splits option.splits)
  show ?thesis
    using ancestors_return [of "cat_containers small_catalog" "\<lambda>i. if i = ''64'' then 0 else 1" "''64$1''"] cs by auto
qed

text \<open>
  A folder that is its own parent makes the walk run for ever.
\<close>
theorem own_parent_never_returns:
  assumes "map_of cs i = Some f" "ct_parent_id f = i" "i \<noteq> BROWSEDIR_ID" "i \<noteq> ROOT_ID"
  shows "ancestors cs i = None"
proof -
  have "ancestors cs i = Option.bind (ancestors cs i) (\<lambda>up. Some (i # up))"
    using assms by (subst ancestors.simps) simp
  then show ?thesis by (cases "ancestors cs i") auto
qed

subsection \<open>Every video is mirrored\<close>

lemma mirror_folder_items [simp]: "cat_items (fst (mirror_folder bid st)) = cat_items (fst st)"
  by (auto simp: mirror_folder_def Let_def add_container_def split: prod.split option.split)

lemma mirror_parents_items: "mirror_parents ps st = Some st' \<Longrightarrow> cat_items (fst st') = cat_items (fst st)"
proof (induction ps st rule: mirror_parents.induct)
  case (2 p ps st)
  have "cat_items (fst (fold mirror_folder chain st)) = cat_items (fst st)" for chain st
    by (induction chain arbitrary: st) simp_all
  with 2 show ?case by (auto simp: mirror_video_dir_ancestors_def split: option.splits)
qed simp

lemma ensure_view_items [simp]: "cat_items (ensure_view i t s c) = cat_items c"
  by (simp add: ensure_view_def link_child_def add_container_def)

lemma mirror_item_find:
  "find_item (mirror_item m c) i =
     (case find_item c (fst m) of
        Some source \<Rightarrow> if i = snd m then Some (source\<lparr>it_object_id := snd m,
            it_parent_id := browse_to_typed_dir (it_parent_id source) VIDEO_DIR_ID, it_ref_id := Some (fst m)\<rparr>)
          else find_item c i
      | None \<Rightarrow> find_item c i)"
  by (auto simp: mirror_item_def Let_def map_of_update split: prod.split option.split)

lemma mirror_items_keep: "find_item c i \<noteq> None \<Longrightarrow> find_item (fold mirror_item ms c) i \<noteq> None"
  by (induction ms arbitrary: c) (auto simp: mirror_item_find split: option.split)

lemma mirror_items_made:
  "m \<in> set ms \<Longrightarrow> find_item c (fst m) \<noteq> None \<Longrightarrow> find_item (fold mirror_item ms c) (snd m) \<noteq> None"
proof (induction ms arbitrary: c)
  case (Cons n ms)
  have keep: "find_item (mirror_item n c) (fst m) \<noteq> None"
    using Cons.prems(2) by (auto simp: mirror_item_find split: option.split)
  show ?case
  proof (cases "m = n")
    case True
    then have "find_item (mirror_item n c) (snd m) \<noteq> None"
      using Cons.prems(2) by (auto simp: mirror_item_find split: option.split)
    then show ?thesis using mirror_items_keep by simp
  next
    case False
    then show ?thesis using Cons keep by simp
  qed
qed simp

text \<open>
  When mirroring returns, every video below Browse Folders has an item under its Video/Folders id,
  and no item is lost.
\<close>
theorem videos_mirrored:
  assumes "ensure_video_folder_mirrors symlink c = Some c'"
  shows "(\<forall>it \<in> set (map snd (cat_items c)). browse_video it \<longrightarrow>
      find_item c (it_object_id it) = Some it \<longrightarrow>
      find_item c' (browse_to_typed_dir (it_object_id it) VIDEO_DIR_ID) \<noteq> None) \<and>
    (\<forall>i. find_item c i \<noteq> None \<longrightarrow> find_item c' i \<noteq> None)"
proof -
  define d where "d = ensure_view VIDEO_GENRE_ID ''Genre'' True
    (ensure_view VIDEO_SERIES_ID ''Series'' True
      (ensure_view VIDEO_RECENT_ID ''Recently Added'' False (ensure_view VIDEO_DIR_ID ''Folders'' True c)))"
  obtain e linked where e: "mirror_parents (sort (remdups (map it_parent_id (filter browse_video (map snd (cat_items d))))))
      (d, linked_containers d) = Some (e, linked)"
    and c': "c' = rebuild_recent_index symlink (fold mirror_item (missing_mirrors d) e)"
    using assms(1) unfolding ensure_video_folder_mirrors_def Let_def d_def [symmetric]
    by (auto split: option.splits)
  have items: "cat_items e = cat_items c" using mirror_parents_items [OF e] by (simp add: d_def)
  have find: "find_item c' i = find_item (fold mirror_item (missing_mirrors d) e) i" for i
    by (simp add: c' rebuild_recent_index_def set_recent_def Let_def)
  have "find_item c' (browse_to_typed_dir (it_object_id it) VIDEO_DIR_ID) \<noteq> None"
    if it: "it \<in> set (map snd (cat_items c))" "browse_video it" "find_item c (it_object_id it) = Some it" for it
  proof (cases "find_item c (browse_to_typed_dir (it_object_id it) VIDEO_DIR_ID) = None")
    case True
    then have "(it_object_id it, browse_to_typed_dir (it_object_id it) VIDEO_DIR_ID) \<in> set (missing_mirrors d)"
      using it by (force simp: missing_mirrors_def set_map_filter d_def Let_def)
    from mirror_items_made [OF this, of e] it(3) items show ?thesis by (simp add: find)
  next
    case False
    then show ?thesis using mirror_items_keep [of e] items by (simp add: find)
  qed
  moreover have "find_item c' i \<noteq> None" if "find_item c i \<noteq> None" for i
    using mirror_items_keep [of e i] that items by (simp add: find)
  ultimately show ?thesis by blast
qed

end
