(* ===== verification/Soap_Update.thy ===== *)
theory Soap_Update
  imports Soap_Xml Media_Items
begin

text \<open>
  The tag lists of \<open>UpdateObject\<close> and the bookmark values (\<open>crates/soap/src/lib.rs\<close>). The XML parser
  of the list's fragments is a library: \<open>parse_xml\<close> gives the children of the wrapping root element, or
  \<open>None\<close> when the text is not well-formed.
\<close>

subsection \<open>Numbers\<close>

definition bookmark_seconds :: "int \<Rightarrow> bool \<Rightarrow> int" where
  "bookmark_seconds pos convert_ms =
     (let sec = (if convert_ms then trunc_div pos 1000 else pos) in if sec < 30 then 0 else sec)"

text \<open>Release builds wrap on overflow; \<open>saturating_mul\<close> does not.\<close>

definition wrap_i64 :: "int \<Rightarrow> int" where
  "wrap_i64 n = (n + 2 ^ 63) mod 2 ^ 64 - 2 ^ 63"

definition clamp_i64 :: "int \<Rightarrow> int" where
  "clamp_i64 n = max i64_min (min i64_max n)"

definition parse_pos_or_count :: "string \<Rightarrow> int option" where
  "parse_pos_or_count v0 =
     (let v = trim v0
      in case split_on (CHR '':'') v of
           [hs, ms, ss] \<Rightarrow>
             (case (parse_int 64 hs, parse_int 64 ms, parse_int 64 (hd (split_on (CHR ''.'') ss))) of
                (Some h, Some m, Some s) \<Rightarrow>
                  if h < 0 \<or> m < 0 \<or> 60 \<le> m \<or> s < 0 \<or> 60 \<le> s then None
                  else Some (wrap_i64 (wrap_i64 (clamp_i64 (h * 3600) + clamp_i64 (m * 60)) + s))
              | _ \<Rightarrow> None)
         | _ \<Rightarrow> parse_int 64 v)"

subsection \<open>Tags\<close>

datatype tag_list_error = Malformed | ReadOnly

datatype update_tag = LastPlaybackPosition | PlaybackCount | KodiLastPlayerState

record parsed_tags =
  pt_position :: "int option"
  pt_count :: "int option"

definition no_tags :: parsed_tags where
  "no_tags = \<lparr>pt_position = None, pt_count = None\<rparr>"

definition update_tag_of :: "string \<Rightarrow> tag_list_error + update_tag" where
  "update_tag_of name =
     (let l = last (split_on (CHR '':'') (trim name))
      in if l = ''lastPlaybackPosition'' then Inr LastPlaybackPosition
         else if l = ''playbackCount'' \<or> l = ''playCount'' then Inr PlaybackCount
         else if l = ''lastPlayerState'' then Inr KodiLastPlayerState
         else Inl ReadOnly)"

definition set_update_tag ::
  "update_tag \<Rightarrow> string \<Rightarrow> bool \<Rightarrow> parsed_tags \<Rightarrow> tag_list_error + parsed_tags" where
  "set_update_tag tag value allow_empty parsed =
     (if tag = KodiLastPlayerState then Inr parsed
      else
        bind_res (if allow_empty \<and> trim value = [] then Inr 0
                  else ok_or Malformed (parse_pos_or_count value)) (\<lambda>v.
        if tag = LastPlaybackPosition then
          (if pt_position parsed \<noteq> None then Inl Malformed else Inr (parsed\<lparr>pt_position := Some v\<rparr>))
        else if v < 0 then Inl Malformed
        else if pt_count parsed \<noteq> None then Inl Malformed
        else Inr (parsed\<lparr>pt_count := Some v\<rparr>)))"

definition unescape_xml_light :: "string \<Rightarrow> string" where
  "unescape_xml_light s =
     (if CHR 0x26 \<notin> set s then s
      else str_replace ''&amp;'' ''&''
             (str_replace ''&apos;'' [CHR 0x27]
               (str_replace ''&quot;'' dq (str_replace ''&gt;'' ''>'' (str_replace ''&lt;'' ''<'' s)))))"

definition state_open :: string where "state_open = ''<xbmc:lastPlayerState>''"
definition state_close :: string where "state_close = ''</xbmc:lastPlayerState>''"

function strip_kodi_player_state :: "string \<Rightarrow> tag_list_error + string" where
  "strip_kodi_player_state input =
     (case find_str state_open input of
        None \<Rightarrow> Inr input
      | Some i \<Rightarrow>
          let value = drop (i + length state_open) input
          in case find_str state_close value of
               None \<Rightarrow> Inl Malformed
             | Some j \<Rightarrow>
                 bind_res (strip_kodi_player_state (drop (j + length state_close) value))
                   (\<lambda>rest. Inr (take i input @ rest)))"
  by pat_completeness auto
termination
proof (relation "measure length")
  fix input val :: string and i j
  assume open_at: "find_str state_open input = Some i" and "find_str state_close val = Some j"
    and v: "val = drop (i + length state_open) input"
  have "input \<noteq> []" using find_str_Some [OF open_at] by (auto simp: state_open_def)
  then show "(drop (j + length state_close) val, input) \<in> measure length"
    by (simp add: v state_open_def)
qed simp

declare strip_kodi_player_state.simps [simp del]

subsection \<open>Tag lists\<close>

text \<open>A child of the wrapping root: an element with its local name, whether it has child elements, and its text; or text.\<close>

datatype update_child = UpdateElement string bool "string option" | UpdateText "string option" | UpdateOther

fun legacy_items :: "bool \<Rightarrow> string list \<Rightarrow> parsed_tags \<Rightarrow> tag_list_error + parsed_tags" where
  "legacy_items allow_empty [] parsed = Inr parsed"
| "legacy_items allow_empty (item # items) parsed =
     bind_res (ok_or Malformed (split_once (CHR ''='') item)) (\<lambda>(name, value).
     bind_res (update_tag_of name) (\<lambda>tag.
     bind_res (set_update_tag tag value allow_empty parsed) (\<lambda>parsed'.
     legacy_items allow_empty items parsed')))"

fun update_children ::
  "bool \<Rightarrow> update_child list \<Rightarrow> nat \<Rightarrow> parsed_tags \<Rightarrow> tag_list_error + nat \<times> parsed_tags" where
  "update_children allow_empty [] n parsed = Inr (n, parsed)"
| "update_children allow_empty (UpdateElement name nested txt # cs) n parsed =
     (if nested then Inl Malformed
      else
        bind_res (update_tag_of name) (\<lambda>tag.
        bind_res (set_update_tag tag (case txt of Some t \<Rightarrow> t | None \<Rightarrow> []) allow_empty parsed) (\<lambda>parsed'.
        update_children allow_empty cs (Suc n) parsed')))"
| "update_children allow_empty (UpdateText txt # cs) n parsed =
     (if list_ex (\<lambda>ch. \<not> is_whitespace ch \<and> ch \<noteq> '','') (chars (case txt of Some t \<Rightarrow> t | None \<Rightarrow> []))
      then Inl Malformed
      else update_children allow_empty cs n parsed)"
| "update_children allow_empty (UpdateOther # cs) n parsed = update_children allow_empty cs n parsed"

definition parse_update_tag_list ::
  "(string \<Rightarrow> update_child list option) \<Rightarrow> string \<Rightarrow> bool \<Rightarrow> tag_list_error + parsed_tags" where
  "parse_update_tag_list parse_xml input allow_empty =
     (let decoded = (if CHR ''<'' \<in> set input then input else unescape_xml_light input)
      in bind_res (strip_kodi_player_state decoded) (\<lambda>s.
         if trim s = [] then Inr no_tags
         else if CHR ''<'' \<notin> set s then legacy_items allow_empty (split_on (CHR '','') s) no_tags
         else
           bind_res (ok_or Malformed (parse_xml s)) (\<lambda>cs.
           bind_res (update_children allow_empty cs 0 no_tags) (\<lambda>(n, parsed).
           if n = 0 then Inl Malformed else Inr parsed))))"

subsection \<open>The paired lists\<close>

datatype update_error = InvalidCurrent | InvalidNew | ReadOnlyTag | ParameterMismatch

record update_value =
  uv_current :: int
  uv_new :: int

record update_tags =
  ut_position :: "update_value option"
  ut_count :: "update_value option"

definition list_error :: "update_error \<Rightarrow> tag_list_error \<Rightarrow> update_error" where
  "list_error malformed e = (case e of Malformed \<Rightarrow> malformed | ReadOnly \<Rightarrow> ReadOnlyTag)"

definition map_err :: "('e \<Rightarrow> 'f) \<Rightarrow> 'e + 'a \<Rightarrow> 'f + 'a" where
  "map_err f m = (case m of Inl e \<Rightarrow> Inl (f e) | Inr x \<Rightarrow> Inr x)"

definition pair_value :: "int option \<Rightarrow> int option \<Rightarrow> update_value option" where
  "pair_value current new =
     map_option (\<lambda>n. \<lparr>uv_current = (case current of Some c \<Rightarrow> c | None \<Rightarrow> 0), uv_new = n\<rparr>) new"

definition parse_update_object_tags ::
  "(string \<Rightarrow> update_child list option) \<Rightarrow> string \<Rightarrow> string \<Rightarrow> update_error + update_tags" where
  "parse_update_object_tags parse_xml current new =
     bind_res (map_err (list_error InvalidCurrent) (parse_update_tag_list parse_xml current True)) (\<lambda>cur.
     bind_res (map_err (list_error InvalidNew) (parse_update_tag_list parse_xml new False)) (\<lambda>nw.
     if pt_position nw = None \<and> pt_count nw = None then Inl InvalidNew
     else if pt_position cur \<noteq> None \<and> pt_position nw = None \<or> pt_count cur \<noteq> None \<and> pt_count nw = None
     then Inl ParameterMismatch
     else Inr \<lparr>ut_position = pair_value (pt_position cur) (pt_position nw),
               ut_count = pair_value (pt_count cur) (pt_count nw)\<rparr>))"

subsection \<open>Reading values back\<close>

definition legacy_tags :: "int \<Rightarrow> int \<Rightarrow> string" where
  "legacy_tags p n = ''upnp:lastPlaybackPosition='' @ int_decimal p @ '',upnp:playbackCount='' @ int_decimal n"

lemma graphic_int_decimal: "c \<in> set (int_decimal i) \<Longrightarrow> graphic c \<and> c \<noteq> CHR ''<'' \<and> c \<noteq> CHR 0x26 \<and> c \<noteq> CHR '','' \<and> c \<noteq> CHR '':''"
  using int_decimal_chars [of c i] by (auto simp: graphic_def is_digit_def)

lemma trim_int_decimal [simp]: "trim (int_decimal i) = int_decimal i"
  using graphic_int_decimal [of "hd (int_decimal i)" i] graphic_int_decimal [of "last (int_decimal i)" i]
  by (intro trim_id disjI2) simp

lemma pos_of_int_decimal:
  "- (2 ^ 63) \<le> i \<Longrightarrow> i < 2 ^ 63 \<Longrightarrow> parse_pos_or_count (int_decimal i) = Some i"
proof -
  assume i: "- (2 ^ 63) \<le> i" "i < 2 ^ 63"
  have "CHR '':'' \<notin> set (int_decimal i)" using graphic_int_decimal [of "CHR '':''" i] by blast
  then have "split_on (CHR '':'') (int_decimal i) = [int_decimal i]" by (rule split_on_no_sep)
  then show ?thesis using parse_int_decimal [of 64 i] i by (simp add: parse_pos_or_count_def)
qed

lemma legacy_tags_list:
  assumes "- (2 ^ 63) \<le> p" "p < 2 ^ 63" "0 \<le> n" "n < 2 ^ 63"
  shows "parse_update_tag_list parse_xml (legacy_tags p n) e = Inr \<lparr>pt_position = Some p, pt_count = Some n\<rparr>"
proof -
  have plain: "CHR ''<'' \<notin> set (legacy_tags p n)" "CHR 0x26 \<notin> set (legacy_tags p n)"
    using graphic_int_decimal [of "CHR ''<''"] graphic_int_decimal [of "CHR 0x26"] by (auto simp: legacy_tags_def)
  then have "\<not> str_contains state_open (legacy_tags p n)"
    by (auto simp: str_contains_iff state_open_def)
  then have strip: "strip_kodi_player_state (legacy_tags p n) = Inr (legacy_tags p n)"
    by (simp add: strip_kodi_player_state.simps [of "legacy_tags p n"] find_str_None [THEN iffD2])
  have trim: "trim (legacy_tags p n) \<noteq> []"
  proof -
    have "graphic (last (int_decimal n))" using graphic_int_decimal [of "last (int_decimal n)" n] by simp
    then have "trim (legacy_tags p n) = legacy_tags p n"
      by (intro trim_id disjI2) (simp add: legacy_tags_def graphic_def)
    then show ?thesis by (simp add: legacy_tags_def)
  qed
  have comma: "CHR '','' \<notin> set (int_decimal i)" for i
    using int_decimal_chars [of "CHR '',''" i] by (auto simp: is_digit_def)
  have eq: "CHR ''='' \<notin> set (int_decimal i)" for i
    using int_decimal_chars [of "CHR ''=''" i] by (auto simp: is_digit_def)
  have "legacy_tags p n = (''upnp:lastPlaybackPosition='' @ int_decimal p) @ CHR '','' # (''upnp:playbackCount='' @ int_decimal n)"
    by (simp add: legacy_tags_def)
  then have fields: "split_on (CHR '','') (legacy_tags p n) =
      [''upnp:lastPlaybackPosition='' @ int_decimal p, ''upnp:playbackCount='' @ int_decimal n]"
    using comma by (simp only:) (simp add: split_on_append split_on_no_sep)
  have pos: "split_once (CHR ''='') (''upnp:lastPlaybackPosition='' @ int_decimal p) = Some (''upnp:lastPlaybackPosition'', int_decimal p)"
    and count: "split_once (CHR ''='') (''upnp:playbackCount='' @ int_decimal n) = Some (''upnp:playbackCount'', int_decimal n)"
    by (simp_all add: split_once_Some_iff)
  have tags: "update_tag_of ''upnp:lastPlaybackPosition'' = Inr LastPlaybackPosition" "update_tag_of ''upnp:playbackCount'' = Inr PlaybackCount"
    by code_simp+
  show ?thesis
    using plain assms
    by (simp add: parse_update_tag_list_def unescape_xml_light_def strip trim fields pos count tags
        set_update_tag_def pos_of_int_decimal no_tags_def)
qed

text \<open>
  A pair of tag lists in the \<open>name=value\<close> form, with any position and any play count that is not
  negative, is read as exactly these values: what the client saw and what it wants.
\<close>
theorem update_tags_read_back:
  assumes "\<forall>i \<in> {p, p', n, n'}. - (2 ^ 63) \<le> i \<and> i < 2 ^ 63" "0 \<le> n" "0 \<le> n'"
  shows "parse_update_object_tags parse_xml (legacy_tags p n) (legacy_tags p' n') =
    Inr \<lparr>ut_position = Some \<lparr>uv_current = p, uv_new = p'\<rparr>, ut_count = Some \<lparr>uv_current = n, uv_new = n'\<rparr>\<rparr>"
  using assms by (simp add: parse_update_object_tags_def legacy_tags_list map_err_def pair_value_def)

lemma update_tags_read_back_witness:
  "parse_update_object_tags (\<lambda>_. None) (legacy_tags 0 2) (legacy_tags 120 3) =
    Inr \<lparr>ut_position = Some \<lparr>uv_current = 0, uv_new = 120\<rparr>, ut_count = Some \<lparr>uv_current = 2, uv_new = 3\<rparr>\<rparr>"
  by (rule update_tags_read_back) simp_all

text \<open>
  An hour count near the top of the signed range makes the number of seconds of a
  \<open>H:MM:SS\<close> duration wrap to a negative one: the multiplication saturates, the additions do not.
\<close>
theorem duration_wraps: "parse_pos_or_count ''9223372036854775807:00:01'' = Some (- 9223372036854775808)"
proof -
  have "trim ''9223372036854775807:00:01'' = ''9223372036854775807:00:01''"
    by (rule trim_id) (simp add: graphic_def)
  moreover have "split_on (CHR '':'') ''9223372036854775807:00:01'' = [''9223372036854775807'', ''00'', ''01'']"
    "hd (split_on (CHR ''.'') ''01'') = ''01''" by simp_all
  moreover have "parse_int 64 ''9223372036854775807'' = Some 9223372036854775807" "parse_int 64 ''00'' = Some 0"
    "parse_int 64 ''01'' = Some 1"
    by (simp_all add: parse_int_def digits_value_def all_digits_def is_digit_def)
  ultimately show ?thesis
    by (simp add: parse_pos_or_count_def clamp_i64_def i64_max_def i64_min_def wrap_i64_def)
qed

end
