(* ===== verification/Bookmarks.thy ===== *)
theory Bookmarks
  imports Catalog_Recent Soap_Dispatch Soap_Update
begin

text \<open>
  The bookmark actions of the SOAP service (\<open>crates/server/src/http_app.rs\<close>, with the object-id
  normalisation of \<open>crates/server/src/lib.rs\<close> and the bookmark rows of \<open>crates/scan/src/db.rs\<close>).

  The catalogue publication lock serialises the two writers, so each of them is one step from state to
  state. \<open>db_ok\<close> says whether the SQLite transaction of the step commits; one that does not leaves no
  trace. A state without a database keeps the values in the catalogue only.
\<close>

subsection \<open>Object ids\<close>

fun percent_decode :: "string \<Rightarrow> string option" where
  "percent_decode [] = Some []"
| "percent_decode (c # cs) =
     (if c \<noteq> CHR ''%'' then map_option (Cons c) (percent_decode cs)
      else case cs of
             hi # lo # rest \<Rightarrow>
               (case (hex_value hi, hex_value lo) of
                  (Some h, Some l) \<Rightarrow> map_option (Cons (char_of (16 * h + l))) (percent_decode rest)
                | _ \<Rightarrow> None)
           | _ \<Rightarrow> None)"

definition control_byte :: "char \<Rightarrow> bool" where
  "control_byte c \<longleftrightarrow> bval c < 32 \<or> bval c = 127"

definition normalize_soap_object_id :: "string \<Rightarrow> string option" where
  "normalize_soap_object_id raw =
     (if length raw > 1024 then None
      else case percent_decode raw of
             None \<Rightarrow> None
           | Some d \<Rightarrow>
               if list_ex control_byte d \<or> \<not> utf8_valid d then None
               else Some (if d \<noteq> [] \<and> last d = CHR ''/'' then butlast d else d))"

definition remap_object_id :: "string option \<Rightarrow> string \<Rightarrow> client_profile \<Rightarrow> string" where
  "remap_object_id root_container oid_raw c =
     (let oid = magic_object_id oid_raw c
      in if oid \<noteq> ROOT_ID then oid
         else case root_container of
                None \<Rightarrow> oid
              | Some r \<Rightarrow>
                  if r \<in> {''V'', ''v'', ''2''} then VIDEO_ID
                  else if r \<in> {''A'', ''1''} then MUSIC_ID
                  else if r \<in> {''I'', ''3''} then IMAGE_ID
                  else if r = ''64'' then BROWSEDIR_ID
                  else oid)"

definition or_else :: "'a option \<Rightarrow> 'a option \<Rightarrow> 'a option" where
  "or_else a b = (case a of Some x \<Rightarrow> Some x | None \<Rightarrow> b)"

definition resolve_detail_id :: "string \<Rightarrow> client_profile \<Rightarrow> catalog \<Rightarrow> int option" where
  "resolve_detail_id oid_raw c cat =
     (case normalize_soap_object_id oid_raw of
        None \<Rightarrow> None
      | Some normalized \<Rightarrow>
          let oid = magic_object_id normalized c
          in case or_else (find_item cat normalized) (find_item cat oid) of
               Some it \<Rightarrow> Some (it_detail_id it)
             | None \<Rightarrow>
                 case or_else (metadata normalized cat) (metadata oid cat) of
                   Some (ItemChild it) \<Rightarrow> Some (it_detail_id it)
                 | _ \<Rightarrow> None)"

subsection \<open>The store\<close>

record bookmark_store =
  bs_catalog :: catalog
  bs_db :: "(int \<rightharpoonup> int \<times> int) option"
  bs_db_update_id :: u32
  bs_update_id :: u32
  bs_query_cache :: "string list"
  bs_published :: "(u32 \<times> string list) list"

definition keep :: "'a option \<Rightarrow> 'a \<Rightarrow> 'a" where
  "keep new old = (case new of Some x \<Rightarrow> x | None \<Rightarrow> old)"

definition row_of :: "(int \<rightharpoonup> int \<times> int) \<Rightarrow> int \<Rightarrow> int \<times> int" where
  "row_of t d = keep (t d) (0, 0)"

definition update_bookmark :: "int \<Rightarrow> int option \<Rightarrow> int option \<Rightarrow> (int \<rightharpoonup> int \<times> int) \<Rightarrow> int \<rightharpoonup> int \<times> int" where
  "update_bookmark d sec watch t =
     (if sec = None \<and> watch = None then t
      else t(d \<mapsto> (keep sec (fst (row_of t d)), keep watch (snd (row_of t d)))))"

definition mark_item :: "int \<Rightarrow> int option \<Rightarrow> int option \<Rightarrow> media_item \<Rightarrow> media_item" where
  "mark_item d sec watch it =
     (if it_detail_id it = d
      then it\<lparr>it_bookmark_sec := keep sec (it_bookmark_sec it), it_watch_count := keep watch (it_watch_count it)\<rparr>
      else it)"

definition parents_of_detail :: "int \<Rightarrow> catalog \<Rightarrow> string list" where
  "parents_of_detail d cat =
     sort (remdups (map it_parent_id (filter (\<lambda>it. it_detail_id it = d) (map snd (cat_items cat)))))"

definition publish_marks :: "int \<Rightarrow> int option \<Rightarrow> int option \<Rightarrow> u32 \<Rightarrow> bookmark_store \<Rightarrow> bookmark_store" where
  "publish_marks d sec watch u s =
     s\<lparr>bs_catalog := (bs_catalog s)\<lparr>cat_items := map (\<lambda>(i, it). (i, mark_item d sec watch it)) (cat_items (bs_catalog s))\<rparr>,
       bs_update_id := u, bs_query_cache := [],
       bs_published := bs_published s @ [(u, parents_of_detail d (bs_catalog s))]\<rparr>"

definition store_marks :: "int \<Rightarrow> int option \<Rightarrow> int option \<Rightarrow> u32 \<Rightarrow> bookmark_store \<Rightarrow> bookmark_store" where
  "store_marks d sec watch u s =
     (case bs_db s of
        Some t \<Rightarrow> s\<lparr>bs_db := Some (update_bookmark d sec watch t), bs_db_update_id := u\<rparr>
      | None \<Rightarrow> s)"

definition persist_bookmark ::
  "bool \<Rightarrow> int \<Rightarrow> int option \<Rightarrow> int option \<Rightarrow> bookmark_store \<Rightarrow> bool \<times> bookmark_store" where
  "persist_bookmark db_ok d sec watch s =
     (if sec = None \<and> watch = None then (True, s)
      else
        let u = next_system_update_id (bs_update_id s)
        in if bs_db s \<noteq> None \<and> \<not> db_ok then (False, s)
           else (True, publish_marks d sec watch u (store_marks d sec watch u s)))"

text \<open>The values a writer compares with: the database row, or without one the first item of the detail.\<close>

definition marks_of :: "bookmark_store \<Rightarrow> int \<Rightarrow> int \<times> int" where
  "marks_of s d =
     (case bs_db s of
        Some t \<Rightarrow> row_of t d
      | None \<Rightarrow>
          case List.find (\<lambda>it. it_detail_id it = d) (map snd (cat_items (bs_catalog s))) of
            Some it \<Rightarrow> (it_bookmark_sec it, it_watch_count it)
          | None \<Rightarrow> (0, 0))"

definition expectation_met :: "int option \<Rightarrow> int option \<Rightarrow> int \<times> int \<Rightarrow> bool" where
  "expectation_met sec watch current \<longleftrightarrow>
     (case sec of Some e \<Rightarrow> e = fst current | None \<Rightarrow> True) \<and>
     (case watch of Some e \<Rightarrow> e = snd current | None \<Rightarrow> True)"

datatype persist_result = Applied | Stale | DbFailed

definition persist_bookmark_if_current ::
  "bool \<Rightarrow> int \<Rightarrow> int option \<Rightarrow> int option \<Rightarrow> int option \<Rightarrow> int option \<Rightarrow> bookmark_store \<Rightarrow>
     persist_result \<times> bookmark_store" where
  "persist_bookmark_if_current db_ok d expected_sec sec expected_watch watch s =
     (let u = next_system_update_id (bs_update_id s)
      in if bs_db s \<noteq> None \<and> \<not> db_ok then (DbFailed, s)
         else if \<not> expectation_met expected_sec expected_watch (marks_of s d) then (Stale, s)
         else (Applied, publish_marks d sec watch u (store_marks d sec watch u s)))"

subsection \<open>The two actions\<close>

definition converts_ms :: "client_profile \<Rightarrow> bool" where
  "converts_ms c = contains (cp_flags c) F_CONVERT_MS"

definition soap_set_bookmark ::
  "bool \<Rightarrow> soap_call \<Rightarrow> client_profile \<Rightarrow> bookmark_store \<Rightarrow> soap_outcome \<times> bookmark_store" where
  "soap_set_bookmark db_ok call c s =
     (case non_empty (sc_object_id call) of
        None \<Rightarrow> (fault402, s)
      | Some oid \<Rightarrow>
          case sc_pos_second call of
            None \<Rightarrow> (fault402, s)
          | Some pos \<Rightarrow>
              case resolve_detail_id oid c (bs_catalog s) of
                None \<Rightarrow> (fault701, s)
              | Some d \<Rightarrow>
                  let (ok, s') = persist_bookmark db_ok d (Some (bookmark_seconds pos (converts_ms c))) None s
                  in if ok then (OkBody (empty_cd_response ''X_SetBookmark''), s') else (fault501, s'))"

definition update_fault :: "update_error \<Rightarrow> soap_outcome" where
  "update_fault e =
     (case e of InvalidCurrent \<Rightarrow> fault702 | InvalidNew \<Rightarrow> fault703 | ReadOnlyTag \<Rightarrow> fault705
              | ParameterMismatch \<Rightarrow> fault706)"

definition soap_update_object ::
  "(string \<Rightarrow> update_child list option) \<Rightarrow> bool \<Rightarrow> soap_call \<Rightarrow> client_profile \<Rightarrow> bookmark_store \<Rightarrow>
     soap_outcome \<times> bookmark_store" where
  "soap_update_object parse_xml db_ok call c s =
     (case non_empty (sc_object_id call) of
        None \<Rightarrow> (fault402, s)
      | Some oid \<Rightarrow>
          case (sc_current_tag_value call, sc_new_tag_value call) of
            (Some current, Some new) \<Rightarrow>
              (case resolve_detail_id oid c (bs_catalog s) of
                 None \<Rightarrow> (fault701, s)
               | Some d \<Rightarrow>
                   case parse_update_object_tags parse_xml current new of
                     Inl e \<Rightarrow> (update_fault e, s)
                   | Inr tags \<Rightarrow>
                       let expected_sec = map_option (\<lambda>v. if converts_ms c then trunc_div (uv_current v) 1000
                                                         else uv_current v) (ut_position tags);
                           sec = map_option (\<lambda>v. bookmark_seconds (uv_new v) (converts_ms c)) (ut_position tags);
                           (r, s') = persist_bookmark_if_current db_ok d expected_sec sec
                                       (map_option uv_current (ut_count tags)) (map_option uv_new (ut_count tags)) s
                       in (case r of
                             Applied \<Rightarrow> OkBody (empty_cd_response ''UpdateObject'')
                           | Stale \<Rightarrow> fault702
                           | DbFailed \<Rightarrow> fault501, s'))
          | _ \<Rightarrow> (fault402, s))"

end
