(* ===== verification/Bookmark_Safety.thy ===== *)
theory Bookmark_Safety
  imports Bookmarks Catalog_Links
begin

text \<open>
  The guarantees of the bookmark actions: an accepted update is a compare-and-swap on the stored
  values, a refused one changes nothing, the catalogue always shows what the database holds, the
  update id of the last event is the one in memory and in the database, and percent-encoded object ids
  are decoded to the ids they stand for.
\<close>

subsection \<open>The abstract store\<close>

text \<open>What a step does to the values of one detail: a partial update.\<close>

definition swap :: "int option \<Rightarrow> int option \<Rightarrow> int \<times> int \<Rightarrow> int \<times> int" where
  "swap sec watch m = (keep sec (fst m), keep watch (snd m))"

lemma swap_None [simp]: "swap None None m = m"
  by (simp add: swap_def keep_def)

lemma row_of_update: "row_of (update_bookmark d sec watch t) e = (if e = d then swap sec watch (row_of t d) else row_of t e)"
  by (auto simp: update_bookmark_def row_of_def keep_def swap_def split: option.split)

lemma mark_item_detail [simp]: "it_detail_id (mark_item d sec watch it) = it_detail_id it"
  by (simp add: mark_item_def)

lemma find_marked:
  "List.find (\<lambda>it. it_detail_id it = e) (map (mark_item d sec watch) its) =
     map_option (mark_item d sec watch) (List.find (\<lambda>it. it_detail_id it = e) its)"
  by (induction its) auto

lemma items_marked:
  "map snd (map (\<lambda>(i, it). (i, mark_item d sec watch it)) al) = map (mark_item d sec watch) (map snd al)"
  by (induction al) auto

definition store_items :: "bookmark_store \<Rightarrow> media_item list" where
  "store_items s = map snd (cat_items (bs_catalog s))"

lemma store_items_publish:
  "store_items (publish_marks d sec watch u (store_marks d sec watch u s)) = map (mark_item d sec watch) (store_items s)"
  by (simp add: store_items_def publish_marks_def store_marks_def items_marked split: option.split del: map_map)

lemma marks_of_items:
  "marks_of s d =
     (case bs_db s of
        Some t \<Rightarrow> row_of t d
      | None \<Rightarrow> (case List.find (\<lambda>it. it_detail_id it = d) (store_items s) of
                   Some it \<Rightarrow> (it_bookmark_sec it, it_watch_count it) | None \<Rightarrow> (0, 0)))"
  unfolding marks_of_def store_items_def by (rule refl)

lemma publish_db:
  "bs_db (publish_marks d sec watch u (store_marks d sec watch u s)) = map_option (update_bookmark d sec watch) (bs_db s)"
  by (simp add: publish_marks_def store_marks_def split: option.split)

definition known_detail :: "int \<Rightarrow> bookmark_store \<Rightarrow> bool" where
  "known_detail d s \<longleftrightarrow> bs_db s \<noteq> None \<or> (\<exists>it \<in> set (store_items s). it_detail_id it = d)"

lemma marks_of_publish:
  "marks_of (publish_marks d sec watch u (store_marks d sec watch u s)) e =
     (if e = d \<and> known_detail d s then swap sec watch (marks_of s d) else marks_of s e)"
proof (cases "bs_db s")
  case (Some t)
  then show ?thesis
    by (simp add: marks_of_items publish_db known_detail_def row_of_update)
next
  case None
  show ?thesis
  proof (cases "List.find (\<lambda>it. it_detail_id it = e) (store_items s)")
    case miss: None
    then have "\<not> (e = d \<and> known_detail d s)" using None by (auto simp: known_detail_def find_None_iff)
    then have "(if e = d \<and> known_detail d s then swap sec watch (marks_of s d) else marks_of s e) = marks_of s e"
      by (rule if_not_P)
    then show ?thesis using None miss by (simp only:) (simp add: marks_of_items publish_db store_items_publish find_marked)
  next
    case (Some it)
    then have it: "it_detail_id it = e" "it \<in> set (store_items s)" by (auto simp: find_Some_iff)
    have "marks_of (publish_marks d sec watch u (store_marks d sec watch u s)) e =
        (it_bookmark_sec (mark_item d sec watch it), it_watch_count (mark_item d sec watch it))"
      using None Some by (simp add: marks_of_items publish_db store_items_publish find_marked)
    moreover have "marks_of s e = (it_bookmark_sec it, it_watch_count it)"
      using None Some by (simp add: marks_of_items)
    moreover have "known_detail e s" using it by (auto simp: known_detail_def)
    ultimately show ?thesis using it(1) by (cases "e = d") (simp_all add: mark_item_def swap_def)
  qed
qed

lemma known_detail_publish [simp]:
  "known_detail e (publish_marks d sec watch u (store_marks d sec watch u s)) = known_detail e s"
  by (simp add: known_detail_def publish_db store_items_publish)

text \<open>
  C25: A conditional update is a compare-and-swap on the stored position and play count: it is applied
  exactly when every value the client names is the stored one, then stores the new values of this
  detail and of no other, and otherwise leaves the whole state as it was.
\<close>
theorem conditional_update_is_cas:
  assumes "persist_bookmark_if_current db_ok d esec sec ewatch watch s = (r, s')" "known_detail d s"
  shows "(bs_db s = None \<or> db_ok \<longrightarrow> (r = Applied \<longleftrightarrow> expectation_met esec ewatch (marks_of s d))) \<and>
    (r = Applied \<longrightarrow> (\<forall>e. marks_of s' e = (if e = d then swap sec watch (marks_of s d) else marks_of s e))) \<and>
    (r \<noteq> Applied \<longrightarrow> s' = s)"
  using assms
  by (auto simp: persist_bookmark_if_current_def Let_def marks_of_publish split: if_splits)

definition sample_store :: bookmark_store where
  "sample_store =
     \<lparr>bs_catalog = empty_catalog, bs_db = Some (Map.empty(7 \<mapsto> (60, 1))), bs_db_update_id = 3, bs_update_id = 3,
      bs_query_cache = [], bs_published = []\<rparr>"

lemma conditional_update_is_cas_witness:
  "fst (persist_bookmark_if_current True 7 (Some 60) (Some 90) None None sample_store) = Applied \<and>
   marks_of (snd (persist_bookmark_if_current True 7 (Some 60) (Some 90) None None sample_store)) 7 = (90, 1)"
proof -
  have known: "known_detail 7 sample_store" by (simp add: known_detail_def sample_store_def)
  have m: "marks_of sample_store 7 = (60, 1)" by (simp add: marks_of_def sample_store_def row_of_def keep_def)
  obtain r s' where eq: "persist_bookmark_if_current True 7 (Some 60) (Some 90) None None sample_store = (r, s')"
    by fastforce
  from conditional_update_is_cas [OF eq known] m show ?thesis
    by (simp add: eq expectation_met_def swap_def keep_def)
qed

text \<open>
  No update is lost: when two clients saw the same position and one of them has stored another, the
  second one's update is refused and changes nothing.
\<close>
theorem second_writer_refused:
  assumes "persist_bookmark_if_current ok1 d (Some p) (Some q) ew1 w1 s = (Applied, s1)" "q \<noteq> p" "known_detail d s"
    and "persist_bookmark_if_current ok2 d (Some p) (Some q') ew2 w2 s1 = (r, s2)"
  shows "r \<noteq> Applied \<and> s2 = s1"
proof -
  from assms(1,3) have s1: "s1 = publish_marks d (Some q) w1 (next_system_update_id (bs_update_id s))
      (store_marks d (Some q) w1 (next_system_update_id (bs_update_id s)) s)"
    by (auto simp: persist_bookmark_if_current_def Let_def split: if_splits)
  have "fst (marks_of s1 d) = q" using assms(3) by (simp add: s1 marks_of_publish swap_def keep_def)
  then have "\<not> expectation_met (Some p) ew2 (marks_of s1 d)" using assms(2) by (simp add: expectation_met_def)
  then show ?thesis using assms(4) by (auto simp: persist_bookmark_if_current_def Let_def split: if_splits)
qed

lemma second_writer_refused_witness:
  "\<exists>s1 r. persist_bookmark_if_current True 7 (Some 60) (Some 90) None None sample_store = (Applied, s1) \<and>
     persist_bookmark_if_current True 7 (Some 60) (Some 120) None None s1 = (r, s1) \<and> r \<noteq> Applied"
proof -
  have known: "known_detail 7 sample_store" by (simp add: known_detail_def sample_store_def)
  have "expectation_met (Some 60) None (marks_of sample_store 7)"
    by (simp add: marks_of_def sample_store_def row_of_def keep_def expectation_met_def)
  then obtain s1 where s1: "persist_bookmark_if_current True 7 (Some 60) (Some 90) None None sample_store = (Applied, s1)"
    by (auto simp: persist_bookmark_if_current_def Let_def)
  obtain r s2 where r: "persist_bookmark_if_current True 7 (Some 60) (Some 120) None None s1 = (r, s2)" by fastforce
  from second_writer_refused [OF s1 _ known r] s1 r show ?thesis by auto
qed

subsection \<open>The catalogue shows the stored values\<close>

definition in_sync :: "bookmark_store \<Rightarrow> bool" where
  "in_sync s \<longleftrightarrow>
     (\<forall>it \<in> set (store_items s). (it_bookmark_sec it, it_watch_count it) = marks_of s (it_detail_id it)) \<and>
     (bs_db s \<noteq> None \<longrightarrow> bs_db_update_id s = bs_update_id s) \<and>
     (bs_published s \<noteq> [] \<longrightarrow> fst (last (bs_published s)) = bs_update_id s)"

lemma in_sync_publish:
  assumes "in_sync s"
  shows "in_sync (publish_marks d sec watch u (store_marks d sec watch u s))"
proof -
  let ?s = "publish_marks d sec watch u (store_marks d sec watch u s)"
  have "(it_bookmark_sec (mark_item d sec watch it), it_watch_count (mark_item d sec watch it)) = marks_of ?s (it_detail_id it)"
    if it: "it \<in> set (store_items s)" for it
  proof -
    have old: "marks_of s (it_detail_id it) = (it_bookmark_sec it, it_watch_count it)"
      using assms it by (simp add: in_sync_def)
    have "known_detail (it_detail_id it) s" using it by (auto simp: known_detail_def)
    then show ?thesis using old by (cases "it_detail_id it = d") (auto simp: marks_of_publish mark_item_def swap_def)
  qed
  then have "\<forall>it \<in> set (store_items ?s). (it_bookmark_sec it, it_watch_count it) = marks_of ?s (it_detail_id it)"
    unfolding store_items_publish by auto
  moreover have "bs_db ?s \<noteq> None \<longrightarrow> bs_db_update_id ?s = bs_update_id ?s"
    by (simp add: publish_marks_def store_marks_def split: option.split)
  moreover have "bs_published ?s \<noteq> [] \<longrightarrow> fst (last (bs_published ?s)) = bs_update_id ?s"
    by (simp add: publish_marks_def)
  ultimately show ?thesis by (simp only: in_sync_def)
qed

inductive bookmark_step :: "bookmark_store \<Rightarrow> bookmark_store \<Rightarrow> bool" where
  set_bookmark: "bookmark_step s (snd (soap_set_bookmark db_ok call c s))"
| update_object: "bookmark_step s (snd (soap_update_object parse_xml db_ok call c s))"

lemma set_bookmark_states:
  "\<exists>d sec watch u. snd (soap_set_bookmark db_ok call c s) \<in> {s, publish_marks d sec watch u (store_marks d sec watch u s)}"
  by (auto simp: soap_set_bookmark_def persist_bookmark_def Let_def split: option.split)

lemma update_object_states:
  "\<exists>d sec watch u. snd (soap_update_object parse_xml db_ok call c s) \<in> {s, publish_marks d sec watch u (store_marks d sec watch u s)}"
  by (auto simp: soap_update_object_def persist_bookmark_if_current_def Let_def split: option.split sum.split)

interpretation marks: step_invariant bookmark_step in_sync in_sync
proof unfold_locales
  show "bookmark_step s t \<Longrightarrow> in_sync s \<Longrightarrow> in_sync t" for s t
  proof (induction rule: bookmark_step.induct)
    case (set_bookmark s db_ok call c)
    then show ?case using set_bookmark_states [of db_ok call c s] in_sync_publish [of s] by auto
  next
    case (update_object s parse_xml db_ok call c)
    then show ?case using update_object_states [of parse_xml db_ok call c s] in_sync_publish [of s] by auto
  qed
qed

text \<open>
  C26: Whatever bookmark actions renderers send, in any order and with any database failures, the
  position and play count of every item in the catalogue are the stored ones, the update id in memory is
  the persisted one, and the last event announced it.
\<close>
theorem bookmarks_in_sync:
  assumes "bookmark_step\<^sup>*\<^sup>* s t" "in_sync s"
  shows "(\<forall>it \<in> set (store_items t). (it_bookmark_sec it, it_watch_count it) = marks_of t (it_detail_id it)) \<and>
    (bs_db t \<noteq> None \<longrightarrow> bs_db_update_id t = bs_update_id t) \<and>
    (bs_published t \<noteq> [] \<longrightarrow> fst (last (bs_published t)) = bs_update_id t)"
  using marks.steps_inv [OF assms] by (simp add: in_sync_def)

definition sample_call :: "string \<Rightarrow> int \<Rightarrow> soap_call" where
  "sample_call oid pos =
     \<lparr>sc_method = Some ''X_SetBookmark'', sc_object_id = Some oid, sc_browse_flag = None, sc_starting_index = None,
      sc_requested_count = None, sc_search_criteria = None, sc_pos_second = Some pos, sc_connection_id = None,
      sc_device_id = None, sc_filter = None, sc_current_tag_value = None, sc_new_tag_value = None,
      sc_sort_criteria = None, sc_var_name = None\<rparr>"

lemma bookmarks_in_sync_witness:
  "bs_db_update_id (snd (soap_set_bookmark True (sample_call ''64$1'' 90) (CLIENTS ! 0) sample_store)) =
   bs_update_id (snd (soap_set_bookmark True (sample_call ''64$1'' 90) (CLIENTS ! 0) sample_store))"
  (is "bs_db_update_id ?t = bs_update_id ?t")
proof -
  have "in_sync sample_store" by (simp add: in_sync_def sample_store_def empty_catalog_def store_items_def)
  from bookmarks_in_sync [OF r_into_rtranclp [of bookmark_step, OF set_bookmark] this]
  have "bs_db ?t \<noteq> None \<longrightarrow> bs_db_update_id ?t = bs_update_id ?t" by blast
  moreover have "bs_db ?t \<noteq> None"
    using set_bookmark_states [of True "sample_call ''64$1'' 90" "CLIENTS ! 0" sample_store]
    by (auto simp: sample_store_def publish_marks_def store_marks_def)
  ultimately show ?thesis by blast
qed

subsection \<open>The answers\<close>

text \<open>
  C27: An \<open>UpdateObject\<close> call that is answered with a fault changes nothing; one that succeeds names an
  object, and its tag lists' current values are the stored ones and its new values are stored, the
  position in seconds and cleared below thirty.
\<close>
theorem update_object_exact:
  assumes "soap_update_object parse_xml db_ok call c s = (out, s')"
  shows "case out of
      Fault http code desc \<Rightarrow> s' = s \<and> http = 500 \<and> code \<in> {402, 501, 701, 702, 703, 705, 706}
    | OkBody body \<Rightarrow>
        \<exists>oid d current new tags. sc_object_id call = Some oid \<and> resolve_detail_id oid c (bs_catalog s) = Some d \<and>
          sc_current_tag_value call = Some current \<and> sc_new_tag_value call = Some new \<and>
          parse_update_object_tags parse_xml current new = Inr tags \<and>
          expectation_met (map_option (\<lambda>v. if converts_ms c then trunc_div (uv_current v) 1000 else uv_current v) (ut_position tags))
            (map_option uv_current (ut_count tags)) (marks_of s d) \<and>
          (known_detail d s \<longrightarrow> marks_of s' d =
             swap (map_option (\<lambda>v. bookmark_seconds (uv_new v) (converts_ms c)) (ut_position tags))
               (map_option uv_new (ut_count tags)) (marks_of s d))"
proof -
  have faults: "update_fault e \<noteq> OkBody body"
    "update_fault e = Fault http code desc \<Longrightarrow> http = 500 \<and> code \<in> {402, 501, 701, 702, 703, 705, 706}"
    for e body http code desc
    by (cases e; auto simp: update_fault_def fault_defs)+
  consider (no_object) "non_empty (sc_object_id call) = None"
    | (object) oid where "non_empty (sc_object_id call) = Some oid" "sc_object_id call = Some oid"
    by (cases "non_empty (sc_object_id call)") (auto simp: non_empty_def split: option.splits if_splits)
  then show ?thesis
  proof cases
    case no_object
    then show ?thesis using assms by (auto simp: soap_update_object_def fault_defs)
  next
    case object
    then show ?thesis
      using assms faults
      by (auto simp: soap_update_object_def persist_bookmark_if_current_def Let_def marks_of_publish fault_defs
          split: option.splits sum.splits if_splits soap_outcome.splits dest: faults(2))
  qed
qed

definition update_call :: soap_call where
  "update_call = (sample_call ''64$1'' 0)\<lparr>sc_current_tag_value := Some (legacy_tags 60 1), sc_new_tag_value := Some (legacy_tags 90 2)\<rparr>"

definition item_store :: bookmark_store where
  "item_store = sample_store\<lparr>bs_catalog := empty_catalog\<lparr>cat_items := [(''64$1'', plain_item ''64$1'' ''64'' 7 ''item.videoItem'' 5)]\<rparr>\<rparr>"

lemma update_object_exact_witness:
  "case soap_update_object (\<lambda>_. None) True update_call (CLIENTS ! 0) item_store of
     (OkBody body, t) \<Rightarrow> marks_of t 7 = (90, 2) | _ \<Rightarrow> False"
proof -
  have d: "resolve_detail_id ''64$1'' (CLIENTS ! 0) (bs_catalog item_store) = Some 7" "\<not> converts_ms (CLIENTS ! 0)"
    by code_simp+
  have oid: "non_empty (sc_object_id update_call) = Some ''64$1''" "sc_object_id update_call = Some ''64$1''"
    by (simp_all add: update_call_def sample_call_def non_empty_def)
  have tags: "parse_update_object_tags (\<lambda>_. None) (legacy_tags 60 1) (legacy_tags 90 2) =
      Inr \<lparr>ut_position = Some \<lparr>uv_current = 60, uv_new = 90\<rparr>, ut_count = Some \<lparr>uv_current = 1, uv_new = 2\<rparr>\<rparr>"
    by (simp add: parse_update_object_tags_def legacy_tags_list map_err_def pair_value_def)
  have vals: "sc_current_tag_value update_call = Some (legacy_tags 60 1)" "sc_new_tag_value update_call = Some (legacy_tags 90 2)"
    by (simp_all add: update_call_def)
  have m: "marks_of item_store 7 = (60, 1)" "bs_db item_store \<noteq> None" "known_detail 7 item_store"
    by (simp_all add: marks_of_def item_store_def sample_store_def row_of_def keep_def known_detail_def)
  obtain out t where run: "soap_update_object (\<lambda>_. None) True update_call (CLIENTS ! 0) item_store = (out, t)" by fastforce
  have "out = OkBody (empty_cd_response ''UpdateObject'')"
    using run by (simp add: soap_update_object_def oid(1) vals d tags persist_bookmark_if_current_def m expectation_met_def Let_def)
  with update_object_exact [OF run] d tags vals oid m show ?thesis
    by (auto simp: run bookmark_seconds_def swap_def keep_def)
qed

subsection \<open>Percent-encoded object ids\<close>

text \<open>How Platinum writes an object id: every byte but letters and digits encoded, and a slash after it.\<close>

definition kodi_encode :: "string \<Rightarrow> string" where
  "kodi_encode oid =
     concat (map (\<lambda>c. if is_alphanumeric c then [c] else [CHR ''%'', hex_digit (bval c div 16), hex_digit (bval c mod 16)]) oid) @ ''/''"

lemma percent_decode_encoded:
  "percent_decode (concat (map (\<lambda>c. if is_alphanumeric c then [c] else [CHR ''%'', hex_digit (bval c div 16), hex_digit (bval c mod 16)]) oid) @ r) =
     map_option ((@) oid) (percent_decode r)"
proof (induction oid)
  case (Cons c oid)
  have "is_alphanumeric c \<Longrightarrow> c \<noteq> CHR ''%''" by (auto simp: byte_simps)
  moreover have "hex_value (hex_digit (bval c div 16)) = Some (bval c div 16)" "hex_value (hex_digit (bval c mod 16)) = Some (bval c mod 16)"
    using bval_less [of c] by (auto intro!: hex_round simp: less_mult_imp_div_less)
  moreover have "char_of (16 * (bval c div 16) + bval c mod 16) = c" by simp
  ultimately show ?case using Cons by (auto simp: option.map_comp comp_def)
qed (simp add: option.map_ident)

text \<open>
  An object id that a renderer percent-encodes and ends with a slash is looked up as the id itself.
\<close>
theorem encoded_ids_normalized:
  assumes "utf8_valid oid" "\<And>c. c \<in> set oid \<Longrightarrow> \<not> control_byte c" "length (kodi_encode oid) \<le> 1024"
  shows "normalize_soap_object_id (kodi_encode oid) = Some oid"
proof -
  have "percent_decode (kodi_encode oid) = Some (oid @ ''/'')"
    by (simp add: kodi_encode_def percent_decode_encoded)
  moreover have "utf8_valid (oid @ ''/'')" using assms(1) by (simp add: utf8_valid_append)
  moreover have "\<not> list_ex control_byte (oid @ ''/'')"
    using assms(2) by (auto simp: list_ex_iff control_byte_def)
  ultimately show ?thesis using assms(3) by (simp add: normalize_soap_object_id_def)
qed

lemma encoded_ids_normalized_witness: "normalize_soap_object_id ''64%241%24A/'' = Some ''64$1$A''"
proof -
  have "kodi_encode ''64$1$A'' = ''64%241%24A/''" by code_simp
  moreover have "utf8_valid ''64$1$A''" by code_simp
  moreover have "\<not> control_byte c" if "c \<in> set ''64$1$A''" for c using that by (auto simp: control_byte_def)
  ultimately show ?thesis using encoded_ids_normalized [of "''64$1$A''"] by simp
qed

end
