(* ===== verification/Ssdp.thy ===== *)
theory Ssdp
  imports Http_Syntax Decimal Url_Paths
begin

text \<open>
  SSDP (\<open>crates/ssdp/src/lib.rs\<close>, \<open>crates/protocol/src/ssdp.rs\<close>): the advertisement and reply
  packets, the search parser, the choice of replies and the parser of renderers' announcements.
\<close>

subsection \<open>Vocabulary\<close>

definition SSDP_PORT :: nat where "SSDP_PORT = 1900"
definition SSDP_MCAST_ADDR :: string where "SSDP_MCAST_ADDR = ''239.255.255.250''"
definition MAN_DISCOVER :: string where "MAN_DISCOVER = dq @ ''ssdp:discover'' @ dq"
definition NTS_ALIVE :: string where "NTS_ALIVE = ''ssdp:alive''"
definition NTS_BYEBYE :: string where "NTS_BYEBYE = ''ssdp:byebye''"
definition ST_ALL :: string where "ST_ALL = ''ssdp:all''"
definition NT_ROOTDEVICE :: string where "NT_ROOTDEVICE = ''upnp:rootdevice''"
definition ST_MEDIASERVER :: string where "ST_MEDIASERVER = ''urn:schemas-upnp-org:device:MediaServer:1''"
definition ST_CONTENTDIRECTORY :: string where
  "ST_CONTENTDIRECTORY = ''urn:schemas-upnp-org:service:ContentDirectory:1''"
definition ST_CONNECTIONMANAGER :: string where
  "ST_CONNECTIONMANAGER = ''urn:schemas-upnp-org:service:ConnectionManager:1''"
definition ST_MS_REGISTRAR :: string where
  "ST_MS_REGISTRAR = ''urn:microsoft.com:service:X_MS_MediaReceiverRegistrar:1''"

definition notify_max_age :: "nat \<Rightarrow> nat" where
  "notify_max_age secs = saturating_add u32_max (saturating_mul u32_max secs 2) 10"

definition known_service_types :: "string \<Rightarrow> string list" where
  "known_service_types uuid =
     [uuid, NT_ROOTDEVICE, ST_MEDIASERVER, ST_CONTENTDIRECTORY, ST_CONNECTIONMANAGER, ST_MS_REGISTRAR]"

lemmas ssdp_literals = SSDP_MCAST_ADDR_def MAN_DISCOVER_def NTS_ALIVE_def NTS_BYEBYE_def ST_ALL_def
  NT_ROOTDEVICE_def ST_MEDIASERVER_def ST_CONTENTDIRECTORY_def ST_CONNECTIONMANAGER_def ST_MS_REGISTRAR_def

subsection \<open>Packets\<close>

datatype ssdp_build_error =
  InvalidUuid | InvalidHost | InvalidServer | InvalidDate | InvalidSearchTarget
| ServiceTypeIndexOutOfRange nat nat

definition valid_line_component :: "string \<Rightarrow> bool" where
  "valid_line_component v \<longleftrightarrow> v \<noteq> [] \<and> is_http_field_value v \<and> \<not> list_ex is_ows v"

definition valid_required_field :: "string \<Rightarrow> bool" where
  "valid_required_field v \<longleftrightarrow> trim_http_ows v \<noteq> [] \<and> is_http_field_value v"

definition usn :: "string \<Rightarrow> string \<Rightarrow> nat \<Rightarrow> string" where
  "usn uuid st index = (if index = 0 then uuid else uuid @ ''::'' @ st)"

text \<open>A packet is its lines, each ended by CRLF, and an empty line.\<close>

definition packet :: "string list \<Rightarrow> string" where
  "packet ls = concat (map (\<lambda>l. l @ crlf) ls) @ crlf"

definition location :: "string \<Rightarrow> nat \<Rightarrow> string" where
  "location host port = ''http://'' @ host @ '':'' @ decimal port @ ROOTDESC_PATH"

definition alive_lines :: "string \<Rightarrow> string \<Rightarrow> nat \<Rightarrow> nat \<Rightarrow> string \<Rightarrow> string \<Rightarrow> nat \<Rightarrow> string list" where
  "alive_lines uuid host port interval server st i =
     [''NOTIFY * HTTP/1.1'',
      ''HOST:'' @ SSDP_MCAST_ADDR @ '':'' @ decimal SSDP_PORT,
      ''CACHE-CONTROL:max-age='' @ decimal (notify_max_age interval),
      ''LOCATION:'' @ location host port,
      ''SERVER: '' @ server,
      ''NT:'' @ st,
      ''USN:'' @ usn uuid st i,
      ''NTS:'' @ NTS_ALIVE]"

definition try_notify_alive ::
  "string \<Rightarrow> string \<Rightarrow> nat \<Rightarrow> nat \<Rightarrow> string \<Rightarrow> ssdp_build_error + string list" where
  "try_notify_alive uuid host port interval server =
     (if \<not> valid_line_component uuid then Inl InvalidUuid
      else if \<not> valid_line_component host then Inl InvalidHost
      else if \<not> valid_required_field server then Inl InvalidServer
      else Inr (map (\<lambda>(i, st). packet (alive_lines uuid host port interval server st i))
                  (enumerate 0 (known_service_types uuid))))"

definition byebye_lines :: "string \<Rightarrow> string \<Rightarrow> nat \<Rightarrow> string list" where
  "byebye_lines uuid st i =
     [''NOTIFY * HTTP/1.1'',
      ''HOST:'' @ SSDP_MCAST_ADDR @ '':'' @ decimal SSDP_PORT,
      ''NT:'' @ st,
      ''USN:'' @ usn uuid st i,
      ''NTS:'' @ NTS_BYEBYE]"

definition try_notify_byebye :: "string \<Rightarrow> ssdp_build_error + string list" where
  "try_notify_byebye uuid =
     (if \<not> valid_line_component uuid then Inl InvalidUuid
      else Inr (map (\<lambda>(i, st). packet (byebye_lines uuid st i)) (enumerate 0 (known_service_types uuid))))"

definition msearch_lines ::
  "string \<Rightarrow> string \<Rightarrow> nat \<Rightarrow> nat \<Rightarrow> string \<Rightarrow> string \<Rightarrow> string \<Rightarrow> nat \<Rightarrow> string list" where
  "msearch_lines uuid host port interval server date st i =
     [''HTTP/1.1 200 OK'',
      ''CACHE-CONTROL: max-age='' @ decimal (notify_max_age interval),
      ''DATE: '' @ date,
      ''ST: '' @ st,
      ''USN: '' @ usn uuid st i,
      ''EXT:'',
      ''SERVER: '' @ server,
      ''LOCATION: '' @ location host port,
      ''Content-Length: 0'']"

definition check_reply :: "string \<Rightarrow> string \<Rightarrow> string \<Rightarrow> string \<Rightarrow> ssdp_build_error + unit" where
  "check_reply uuid host server date =
     (if \<not> valid_line_component uuid then Inl InvalidUuid
      else if \<not> valid_line_component host then Inl InvalidHost
      else if \<not> valid_required_field server then Inl InvalidServer
      else if \<not> valid_required_field date then Inl InvalidDate
      else Inr ())"

definition try_msearch_ok ::
  "string \<Rightarrow> nat \<Rightarrow> string \<Rightarrow> nat \<Rightarrow> nat \<Rightarrow> string \<Rightarrow> string \<Rightarrow> ssdp_build_error + string" where
  "try_msearch_ok uuid index host port interval server date =
     bind_res (check_reply uuid host server date) (\<lambda>_.
     let types = known_service_types uuid
     in if index < length types
        then Inr (packet (msearch_lines uuid host port interval server date (types ! index) index))
        else Inl (ServiceTypeIndexOutOfRange index (length types)))"

subsection \<open>Searches\<close>

record msearch =
  ms_st :: string
  ms_mx :: nat

datatype msearch_reject = NotMsearch | NotHttp11 | MissingSt | BadMan | BadMx

definition man_is_discover :: "string \<Rightarrow> bool" where
  "man_is_discover man \<longleftrightarrow> trim man = MAN_DISCOVER"

fun has_lone_cr :: "string \<Rightarrow> bool" where
  "has_lone_cr [] = False"
| "has_lone_cr [c] = (c = cr)"
| "has_lone_cr (c # d # s) = (c = cr \<and> d \<noteq> lf \<or> has_lone_cr (d # s))"

definition set_unique_header :: "string option \<Rightarrow> string \<Rightarrow> bool \<times> string option" where
  "set_unique_header slot v =
     (case slot of Some existing \<Rightarrow> (existing = v, slot) | None \<Rightarrow> (True, Some v))"

fun split_by :: "(char \<Rightarrow> bool) \<Rightarrow> string \<Rightarrow> string list" where
  "split_by P [] = [[]]"
| "split_by P (c # cs) =
     (if P c then [] # split_by P cs
      else case split_by P cs of f # fs \<Rightarrow> (c # f) # fs | [] \<Rightarrow> [[c]])"

definition ows_tokens :: "string \<Rightarrow> string list" where
  "ows_tokens l = filter (\<lambda>t. t \<noteq> []) (split_by is_ows l)"

definition request_line_matches :: "string \<Rightarrow> string \<Rightarrow> bool" where
  "request_line_matches l meth \<longleftrightarrow>
     \<not> (l \<noteq> [] \<and> (is_ows (hd l) \<or> is_ows (last l))) \<and> ows_tokens l = [meth, ''*'', ''HTTP/1.1'']"

definition request_line_method :: "string \<Rightarrow> string option" where
  "request_line_method l = (case ows_tokens l of t # _ \<Rightarrow> Some t | [] \<Rightarrow> None)"

definition parse_header_line :: "string \<Rightarrow> (string \<times> string) option" where
  "parse_header_line l =
     (case split_once (CHR '':'') l of
        None \<Rightarrow> None
      | Some (name, v) \<Rightarrow>
          if is_http_token name \<and> is_http_field_value v then Some (name, trim_http_ows v) else None)"

definition is_blank_header_line :: "string \<Rightarrow> bool" where
  "is_blank_header_line l \<longleftrightarrow> list_all is_ows l"

datatype msearch_header = HeaderSt | HeaderMan | HeaderMx

definition header_from_name :: "string \<Rightarrow> msearch_header option" where
  "header_from_name name =
     (if eq_ignore_case name ''ST'' then Some HeaderSt
      else if eq_ignore_case name ''MAN'' then Some HeaderMan
      else if eq_ignore_case name ''MX'' then Some HeaderMx
      else None)"

definition header_from_apparent_line :: "string \<Rightarrow> msearch_header option" where
  "header_from_apparent_line l =
     (case filter (\<lambda>t. t \<noteq> []) (split_by (\<lambda>c. c = CHR '':'' \<or> c = CHR ''='' \<or> is_ows c) l) of
        t # _ \<Rightarrow> header_from_name t
      | [] \<Rightarrow> None)"

fun header_rejection :: "msearch_header \<Rightarrow> msearch_reject" where
  "header_rejection HeaderSt = MissingSt"
| "header_rejection HeaderMan = BadMan"
| "header_rejection HeaderMx = BadMx"

record search_slots =
  sl_st :: "string option"
  sl_man :: "string option"
  sl_mx :: "string option"

definition set_slot :: "msearch_header \<Rightarrow> string \<Rightarrow> search_slots \<Rightarrow> bool \<times> search_slots" where
  "set_slot h v s =
     (case h of
        HeaderSt \<Rightarrow> (let (ok, x) = set_unique_header (sl_st s) v in (ok, s\<lparr>sl_st := x\<rparr>))
      | HeaderMan \<Rightarrow> (let (ok, x) = set_unique_header (sl_man s) v in (ok, s\<lparr>sl_man := x\<rparr>))
      | HeaderMx \<Rightarrow> (let (ok, x) = set_unique_header (sl_mx s) v in (ok, s\<lparr>sl_mx := x\<rparr>)))"

fun search_headers :: "string list \<Rightarrow> search_slots \<Rightarrow> msearch_reject + search_slots" where
  "search_headers [] s = Inr s"
| "search_headers (l # ls) s =
     (if is_blank_header_line l then Inr s
      else
        case parse_header_line l of
          None \<Rightarrow> Inl (case header_from_apparent_line l of Some h \<Rightarrow> header_rejection h | None \<Rightarrow> NotHttp11)
        | Some (key, v) \<Rightarrow>
            (case header_from_name key of
               None \<Rightarrow> search_headers ls s
             | Some h \<Rightarrow>
                 (let (ok, s') = set_slot h v s
                  in if ok then search_headers ls s' else Inl (header_rejection h))))"

definition normalized_lines :: "string \<Rightarrow> string list" where
  "normalized_lines p = split_on lf (str_replace crlf [lf] p)"

definition parse_msearch_delivered :: "string \<Rightarrow> bool \<Rightarrow> msearch_reject + msearch" where
  "parse_msearch_delivered p unicast =
     (if has_lone_cr p then Inl NotHttp11
      else
        let ls = normalized_lines p
        in if \<not> request_line_matches (hd ls) ''M-SEARCH'' then
             Inl (if request_line_method (hd ls) = Some ''M-SEARCH'' then NotHttp11 else NotMsearch)
           else
             bind_res (search_headers (tl ls) \<lparr>sl_st = None, sl_man = None, sl_mx = None\<rparr>) (\<lambda>s.
             case sl_st s of
               None \<Rightarrow> Inl MissingSt
             | Some st \<Rightarrow>
                 if st = [] then Inl MissingSt
                 else if \<not> (case sl_man s of Some m \<Rightarrow> man_is_discover m | None \<Rightarrow> False) then Inl BadMan
                 else
                   (case sl_mx s of
                      None \<Rightarrow> if unicast then Inr \<lparr>ms_st = st, ms_mx = 0\<rparr> else Inl BadMx
                    | Some mx \<Rightarrow>
                        (case parse_uint u32_max mx of
                           None \<Rightarrow> Inl BadMx
                         | Some n \<Rightarrow> Inr \<lparr>ms_st = st, ms_mx = min n 5\<rparr>))))"

definition parse_msearch :: "string \<Rightarrow> msearch_reject + msearch" where
  "parse_msearch p = parse_msearch_delivered p False"

definition parse_unicast_msearch :: "string \<Rightarrow> msearch_reject + msearch" where
  "parse_unicast_msearch p = parse_msearch_delivered p True"

subsection \<open>Replies\<close>

definition st_matches :: "string \<Rightarrow> string \<Rightarrow> bool" where
  "st_matches known client_st \<longleftrightarrow>
     client_st = known \<or>
     prefix known client_st \<and>
       (let extra = trim (drop (length known) client_st) in extra = [] \<or> extra = ''1'')"

definition msearch_reply_indices :: "string \<Rightarrow> string \<Rightarrow> nat list" where
  "msearch_reply_indices uuid st =
     (let types = known_service_types uuid
      in if st = ST_ALL then [0..<length types]
         else case List.find (\<lambda>(i, k). st_matches k st) (enumerate 0 types) of
                Some (i, _) \<Rightarrow> [i]
              | None \<Rightarrow> [])"

fun collect_results :: "('e + 'a) list \<Rightarrow> 'e + 'a list" where
  "collect_results [] = Inr []"
| "collect_results (r # rs) = bind_res r (\<lambda>x. bind_res (collect_results rs) (\<lambda>xs. Inr (x # xs)))"

definition try_msearch_replies ::
  "string \<Rightarrow> string \<Rightarrow> string \<Rightarrow> nat \<Rightarrow> nat \<Rightarrow> string \<Rightarrow> string \<Rightarrow> ssdp_build_error + string list" where
  "try_msearch_replies uuid st host port interval server date =
     bind_res (check_reply uuid host server date) (\<lambda>_.
     if \<not> is_http_field_value st then Inl InvalidSearchTarget
     else collect_results
            (map (\<lambda>i. try_msearch_ok uuid i host port interval server date) (msearch_reply_indices uuid st)))"

text \<open>The infallible forms send nothing where the fallible ones report an error.\<close>

definition or_default :: "'e + 'a list \<Rightarrow> 'a list" where
  "or_default r = (case r of Inr x \<Rightarrow> x | Inl _ \<Rightarrow> [])"

definition notify_alive :: "string \<Rightarrow> string \<Rightarrow> nat \<Rightarrow> nat \<Rightarrow> string \<Rightarrow> string list" where
  "notify_alive uuid host port interval server = or_default (try_notify_alive uuid host port interval server)"

definition notify_byebye :: "string \<Rightarrow> string list" where
  "notify_byebye uuid = or_default (try_notify_byebye uuid)"

definition msearch_ok :: "string \<Rightarrow> nat \<Rightarrow> string \<Rightarrow> nat \<Rightarrow> nat \<Rightarrow> string \<Rightarrow> string \<Rightarrow> string" where
  "msearch_ok uuid index host port interval server date =
     or_default (try_msearch_ok uuid index host port interval server date)"

definition msearch_replies ::
  "string \<Rightarrow> string \<Rightarrow> string \<Rightarrow> nat \<Rightarrow> nat \<Rightarrow> string \<Rightarrow> string \<Rightarrow> string list" where
  "msearch_replies uuid st host port interval server date =
     or_default (try_msearch_replies uuid st host port interval server date)"

text \<open>Closed intervals of milliseconds.\<close>

definition msearch_jitter_ms_range :: "bool \<Rightarrow> nat \<times> nat" where
  "msearch_jitter_ms_range ssdp_all = (if ssdp_all then (13, 30) else (13, 20))"

definition msearch_jitter_ms_range_for_mx :: "bool \<Rightarrow> nat \<Rightarrow> nat \<times> nat" where
  "msearch_jitter_ms_range_for_mx ssdp_all mx =
     (if mx = 0 then (0, 0)
      else case msearch_jitter_ms_range ssdp_all of
             (lo, hi) \<Rightarrow> (lo, min hi (saturating_mul u64_max mx 1000)))"

text \<open>\<open>now\<close> is the clock in nanoseconds since the epoch.\<close>

definition jitter_ms :: "nat \<times> nat \<Rightarrow> nat \<Rightarrow> nat" where
  "jitter_ms window now =
     (case window of (lo, hi) \<Rightarrow>
        saturating_add u64_max lo (now mod saturating_add u64_max (hi - lo) 1))"

subsection \<open>Announcements of renderers\<close>

record inbound_notify =
  in_location :: string
  in_server :: string
  in_nt :: string
  in_usn :: "string option"

record notify_slots =
  ns_nts :: "string option"
  ns_nt :: "string option"
  ns_location :: "string option"
  ns_server :: "string option"
  ns_usn :: "string option"

definition set_notify_slot :: "string \<Rightarrow> string \<Rightarrow> notify_slots \<Rightarrow> bool \<times> notify_slots" where
  "set_notify_slot key v s =
     (if eq_ignore_case key ''NTS'' then
        (let (ok, x) = set_unique_header (ns_nts s) v in (ok, s\<lparr>ns_nts := x\<rparr>))
      else if eq_ignore_case key ''NT'' then
        (let (ok, x) = set_unique_header (ns_nt s) v in (ok, s\<lparr>ns_nt := x\<rparr>))
      else if eq_ignore_case key ''LOCATION'' then
        (let (ok, x) = set_unique_header (ns_location s) v in (ok, s\<lparr>ns_location := x\<rparr>))
      else if eq_ignore_case key ''SERVER'' then
        (let (ok, x) = set_unique_header (ns_server s) v in (ok, s\<lparr>ns_server := x\<rparr>))
      else if eq_ignore_case key ''USN'' then
        (let (ok, x) = set_unique_header (ns_usn s) v in (ok, s\<lparr>ns_usn := x\<rparr>))
      else (True, s))"

fun notify_headers :: "string list \<Rightarrow> notify_slots \<Rightarrow> notify_slots option" where
  "notify_headers [] s = Some s"
| "notify_headers (l # ls) s =
     (if is_blank_header_line l then Some s
      else case parse_header_line l of
             None \<Rightarrow> None
           | Some (key, v) \<Rightarrow>
               (let (ok, s') = set_notify_slot key v s in if ok then notify_headers ls s' else None))"

definition known_renderer :: "string \<Rightarrow> string \<Rightarrow> bool" where
  "known_renderer server loc \<longleftrightarrow>
     str_contains ''Allegro-Software-RomPlug'' server \<or> str_contains ''SamsungMRDesc.xml'' loc \<or>
     str_contains ''DigiOn DiXiM'' server"

definition parse_inbound_notify :: "string \<Rightarrow> inbound_notify option" where
  "parse_inbound_notify p =
     (if has_lone_cr p then None
      else
        let ls = normalized_lines p
        in if \<not> request_line_matches (hd ls) ''NOTIFY'' then None
           else
             case notify_headers (tl ls)
                    \<lparr>ns_nts = None, ns_nt = None, ns_location = None, ns_server = None, ns_usn = None\<rparr> of
               None \<Rightarrow> None
             | Some s \<Rightarrow>
                 if ns_nts s \<noteq> Some ''ssdp:alive'' then None
                 else
                   case (ns_nt s, ns_location s) of
                     (Some nt, Some loc) \<Rightarrow>
                       (let server = (case ns_server s of Some v \<Rightarrow> v | None \<Rightarrow> [])
                        in if prefix ''urn:schemas-upnp-org:device:MediaRenderer'' nt \<and> loc \<noteq> [] \<and>
                              known_renderer server loc
                           then Some \<lparr>in_location = loc, in_server = server, in_nt = nt,
                                      in_usn = (case ns_usn s of Some u \<Rightarrow> if u \<noteq> [] then Some u else None | None \<Rightarrow> None)\<rparr>
                           else None)
                   | _ \<Rightarrow> None)"

end
