(* ===== verification/Ssdp_Properties.thy ===== *)
theory Ssdp_Properties
  imports Ssdp
begin

text \<open>
  What the SSDP packets and the search parser promise: a packet consists of exactly the lines written,
  an accepted search is answered with the right number of packets within its window, and a search
  written in the standard form is accepted with its target and window.
\<close>

subsection \<open>Packets and their lines\<close>

lemma packet_join: "packet ls = join crlf (ls @ [[], []])"
  by (induction ls) (auto simp: packet_def join_cons)

lemma packet_lines: "(\<And>l. l \<in> set ls \<Longrightarrow> cr \<notin> set l) \<Longrightarrow> split_str crlf (packet ls) = ls @ [[], []]"
  unfolding packet_join by (rule split_crlf_join) auto

lemma normalized_packet:
  assumes "\<And>l. l \<in> set ls \<Longrightarrow> cr \<notin> set l \<and> lf \<notin> set l"
  shows "normalized_lines (packet ls) = ls @ [[], []]"
proof -
  have "split_str crlf (packet ls) = ls @ [[], []]" using assms by (intro packet_lines) blast
  moreover have "split_on lf (join [lf] (ls @ [[], []])) = ls @ [[], []]"
    using assms by (intro split_on_join) auto
  ultimately show ?thesis by (simp add: normalized_lines_def str_replace_def)
qed

lemma lone_cr_line: "cr \<notin> set a \<Longrightarrow> has_lone_cr (a @ crlf @ b) = has_lone_cr b"
proof (induction a)
  case Nil
  then show ?case by (cases b) (auto simp: crlf_def cr_def lf_def)
next
  case (Cons c a)
  then show ?case by (cases a) (auto simp: crlf_def)
qed

lemma lone_cr_packet: "(\<And>l. l \<in> set ls \<Longrightarrow> cr \<notin> set l) \<Longrightarrow> \<not> has_lone_cr (packet ls)"
proof (induction ls)
  case Nil
  then show ?case by (simp add: packet_def crlf_def cr_def lf_def)
next
  case (Cons l ls)
  have "packet (l # ls) = l @ crlf @ packet ls" by (simp add: packet_def)
  then show ?case using Cons lone_cr_line [of l "packet ls"] by simp
qed

lemma field_value_Cons [simp]: "is_http_field_value (c # s) \<longleftrightarrow> field_value_byte c \<and> is_http_field_value s"
  by (auto simp: is_http_field_value_def)

lemma plain_literals:
  "is_http_field_value SSDP_MCAST_ADDR" "is_http_field_value NT_ROOTDEVICE" "is_http_field_value ST_MEDIASERVER"
  "is_http_field_value ST_CONTENTDIRECTORY" "is_http_field_value ST_CONNECTIONMANAGER"
  "is_http_field_value ST_MS_REGISTRAR" "is_http_field_value NTS_ALIVE" "is_http_field_value NTS_BYEBYE"
  "is_http_field_value ROOTDESC_PATH"
  by (simp_all add: field_value_byte_def ssdp_literals ROOTDESC_PATH_def)

lemma decimal_plain [simp]: "is_http_field_value (decimal n)"
  by (fastforce dest: set_decimal simp: is_http_field_value_def list_all_iff field_value_byte_def is_digit_def)

lemma known_types_plain: "is_http_field_value uuid \<Longrightarrow> st \<in> set (known_service_types uuid) \<Longrightarrow> is_http_field_value st"
  by (auto simp: known_service_types_def plain_literals)

lemma usn_plain: "is_http_field_value uuid \<Longrightarrow> is_http_field_value st \<Longrightarrow> is_http_field_value (usn uuid st i)"
  by (simp add: usn_def field_value_byte_def)

lemma location_plain: "is_http_field_value host \<Longrightarrow> is_http_field_value (location host port)"
  by (simp add: location_def plain_literals field_value_byte_def)

lemma checked_plain:
  "check_reply uuid host server date = Inr () \<Longrightarrow>
     is_http_field_value uuid \<and> is_http_field_value host \<and> is_http_field_value server \<and> is_http_field_value date"
  by (auto simp: check_reply_def valid_line_component_def valid_required_field_def split: if_splits)

lemma alive_lines_plain:
  assumes "is_http_field_value uuid" "is_http_field_value host" "is_http_field_value server" "is_http_field_value st"
    "l \<in> set (alive_lines uuid host port interval server st i)"
  shows "is_http_field_value l"
  using assms usn_plain [OF assms(1,4), of i] location_plain [OF assms(2), of port]
  by (auto simp: alive_lines_def plain_literals field_value_byte_def)

lemma byebye_lines_plain:
  assumes "is_http_field_value uuid" "is_http_field_value st" "l \<in> set (byebye_lines uuid st i)"
  shows "is_http_field_value l"
  using assms usn_plain [OF assms(1,2), of i]
  by (auto simp: byebye_lines_def plain_literals field_value_byte_def)

lemma msearch_lines_plain:
  assumes "is_http_field_value uuid" "is_http_field_value host" "is_http_field_value server" "is_http_field_value date"
    "is_http_field_value st" "l \<in> set (msearch_lines uuid host port interval server date st i)"
  shows "is_http_field_value l"
  using assms usn_plain [OF assms(1,5), of i] location_plain [OF assms(2), of port]
  by (auto simp: msearch_lines_def plain_literals field_value_byte_def)

lemma plain_packet:
  assumes "\<And>l. l \<in> set ls \<Longrightarrow> is_http_field_value l"
  shows "split_str crlf (packet ls) = ls @ [[], []]"
proof (rule packet_lines)
  fix l assume "l \<in> set ls"
  then show "cr \<notin> set l" using assms is_http_field_value_no_crlf by blast
qed

lemma known_types_length [simp]: "length (known_service_types uuid) = 6"
  by (simp add: known_service_types_def)

lemma known_type_plain: "is_http_field_value uuid \<Longrightarrow> i < 6 \<Longrightarrow> is_http_field_value (known_service_types uuid ! i)"
  by (rule known_types_plain) (auto intro!: nth_mem)

lemma alive_exact:
  assumes "try_notify_alive uuid host port interval server = Inr ps" "i < 6"
  shows "split_str crlf (ps ! i) = alive_lines uuid host port interval server (known_service_types uuid ! i) i @ [[], []]"
proof -
  have plain: "is_http_field_value uuid" "is_http_field_value host" "is_http_field_value server"
    using assms(1) by (auto simp: try_notify_alive_def valid_line_component_def valid_required_field_def split: if_splits)
  have "ps = map (\<lambda>(i, st). packet (alive_lines uuid host port interval server st i)) (enumerate 0 (known_service_types uuid))"
    using assms(1) by (simp add: try_notify_alive_def split: if_splits)
  then have "ps ! i = packet (alive_lines uuid host port interval server (known_service_types uuid ! i) i)"
    using assms(2) by (simp add: nth_enumerate_eq)
  then show ?thesis
    using plain_packet [OF alive_lines_plain [OF plain known_type_plain [OF plain(1) assms(2)]]] by simp
qed

lemma byebye_exact:
  assumes "try_notify_byebye uuid = Inr ps" "i < 6"
  shows "split_str crlf (ps ! i) = byebye_lines uuid (known_service_types uuid ! i) i @ [[], []]"
proof -
  have plain: "is_http_field_value uuid"
    using assms(1) by (auto simp: try_notify_byebye_def valid_line_component_def split: if_splits)
  have "ps = map (\<lambda>(i, st). packet (byebye_lines uuid st i)) (enumerate 0 (known_service_types uuid))"
    using assms(1) by (simp add: try_notify_byebye_def split: if_splits)
  then have "ps ! i = packet (byebye_lines uuid (known_service_types uuid ! i) i)"
    using assms(2) by (simp add: nth_enumerate_eq)
  then show ?thesis
    using plain_packet [OF byebye_lines_plain [OF plain known_type_plain [OF plain assms(2)]]] by simp
qed

lemma announcement_counts:
  "try_notify_alive uuid host port interval server = Inr ps \<Longrightarrow> length ps = 6"
  "try_notify_byebye uuid = Inr ps \<Longrightarrow> length ps = 6"
  by (auto simp: try_notify_alive_def try_notify_byebye_def split: if_splits)

text \<open>
  The announcements never carry a line that was not meant: when the six alive packets are built,
  each consists of exactly the eight header lines of the protocol and an empty line, whatever the
  identifier, the host and the server name are, and each farewell packet of exactly its five.
\<close>
theorem announcements_exact:
  assumes "try_notify_alive uuid host port interval server = Inr alive" "try_notify_byebye uuid = Inr farewell" "i < 6"
  shows "length alive = 6 \<and> length farewell = 6 \<and>
     split_str crlf (alive ! i) =
       alive_lines uuid host port interval server (known_service_types uuid ! i) i @ [[], []] \<and>
     split_str crlf (farewell ! i) = byebye_lines uuid (known_service_types uuid ! i) i @ [[], []]"
  using alive_exact [OF assms(1,3)] byebye_exact [OF assms(2,3)] announcement_counts assms(1,2) by blast

lemma announcements_exact_witness:
  "split_str crlf (packet (byebye_lines ''uuid:7'' ST_MEDIASERVER 2)) =
     byebye_lines ''uuid:7'' ST_MEDIASERVER 2 @ [[], []]"
proof -
  have a: "try_notify_alive ''uuid:7'' ''10.0.0.5'' 8200 895 ''Linux'' =
      Inr (map (\<lambda>(i, st). packet (alive_lines ''uuid:7'' ''10.0.0.5'' 8200 895 ''Linux'' st i))
             (enumerate 0 (known_service_types ''uuid:7'')))"
    unfolding try_notify_alive_def
    by (simp add: valid_line_component_def valid_required_field_def field_value_byte_def is_ows_def)
       code_simp
  have b: "try_notify_byebye ''uuid:7'' =
      Inr (map (\<lambda>(i, st). packet (byebye_lines ''uuid:7'' st i)) (enumerate 0 (known_service_types ''uuid:7'')))"
    unfolding try_notify_byebye_def
    by (simp add: valid_line_component_def field_value_byte_def is_ows_def)
  have "known_service_types ''uuid:7'' ! 2 = ST_MEDIASERVER" by (simp add: known_service_types_def)
  then show ?thesis using announcements_exact [OF a b, of 2] by (simp add: nth_enumerate_eq numeral_2_eq_2)
qed

subsection \<open>Searches and their replies\<close>

text \<open>Whatever a search stores in its slots could stand in a header line.\<close>

definition slots_plain :: "search_slots \<Rightarrow> bool" where
  "slots_plain s \<longleftrightarrow> (\<forall>v. sl_st s = Some v \<or> sl_man s = Some v \<or> sl_mx s = Some v \<longrightarrow> is_http_field_value v)"

lemma trimmed_plain: "is_http_field_value v \<Longrightarrow> is_http_field_value (trim_http_ows v)"
  by (rule field_value_trim_ows)

lemma header_line_plain: "parse_header_line l = Some (k, v) \<Longrightarrow> is_http_field_value v"
  by (auto simp: parse_header_line_def trimmed_plain split: option.splits if_splits)

lemma set_slot_plain: "set_slot h v s = (True, s') \<Longrightarrow> slots_plain s \<Longrightarrow> is_http_field_value v \<Longrightarrow> slots_plain s'"
  by (auto simp: set_slot_def set_unique_header_def slots_plain_def split: msearch_header.splits option.splits)

lemma search_headers_plain: "search_headers ls s = Inr s' \<Longrightarrow> slots_plain s \<Longrightarrow> slots_plain s'"
proof (induction ls arbitrary: s)
  case (Cons l ls)
  show ?case
  proof (cases "is_blank_header_line l")
    case False
    with Cons.prems(1) obtain k v where kv: "parse_header_line l = Some (k, v)"
      by (auto split: option.splits)
    show ?thesis
    proof (cases "header_from_name k")
      case None
      then show ?thesis using Cons False kv by simp
    next
      case (Some h)
      then obtain t where "set_slot h v s = (True, t)" "search_headers ls t = Inr s'"
        using Cons.prems(1) False kv by (cases "set_slot h v s") (auto split: if_splits)
      then show ?thesis using Cons.IH Cons.prems(2) set_slot_plain header_line_plain [OF kv] by blast
    qed
  qed (use Cons.prems in simp)
qed simp

lemma accepted_search:
  assumes "parse_msearch_delivered p u = Inr m"
  shows "is_http_field_value (ms_st m) \<and> ms_st m \<noteq> [] \<and> ms_mx m \<le> 5"
proof -
  let ?s0 = "\<lparr>sl_st = None, sl_man = None, sl_mx = None\<rparr> :: search_slots"
  obtain s where s: "search_headers (tl (normalized_lines p)) ?s0 = Inr s"
    using assms by (auto simp: parse_msearch_delivered_def Let_def bind_res_def split: if_splits sum.splits)
  have "slots_plain s" by (rule search_headers_plain [OF s]) (simp add: slots_plain_def)
  moreover have "sl_st s = Some (ms_st m)" "ms_st m \<noteq> []" "ms_mx m \<le> 5"
    using assms s
    by (auto simp: parse_msearch_delivered_def Let_def bind_res_def split: if_splits sum.splits option.splits)
  ultimately show ?thesis by (auto simp: slots_plain_def)
qed

lemma length_known_types [simp]: "length (known_service_types uuid) = 6"
  by (simp add: known_service_types_def)

text \<open>Which replies a target gets: all of them, the first that matches it, or none when nothing does.\<close>

lemma reply_indices_all: "msearch_reply_indices uuid ST_ALL = [0..<6]"
  by (simp add: msearch_reply_indices_def)

lemma reply_indices_first:
  assumes "st \<noteq> ST_ALL" "\<exists>i < 6. st_matches (known_service_types uuid ! i) st"
  obtains i where "msearch_reply_indices uuid st = [i]" "i < 6" "st_matches (known_service_types uuid ! i) st"
    "\<forall>k < i. \<not> st_matches (known_service_types uuid ! k) st"
proof -
  let ?find = "List.find (\<lambda>(i, k). st_matches k st) (enumerate 0 (known_service_types uuid))"
  have "?find \<noteq> None"
    using assms(2) by (auto simp: find_None_iff in_set_enumerate_eq split_beta)
  then obtain i k where f: "?find = Some (i, k)" by auto
  then obtain n where n: "n < 6" "enumerate 0 (known_service_types uuid) ! n = (i, k)" "st_matches k st"
      "\<forall>j < n. \<not> (case enumerate 0 (known_service_types uuid) ! j of (i, k) \<Rightarrow> st_matches k st)"
    unfolding find_Some_iff by auto
  then have "i = n" "k = known_service_types uuid ! n" by (auto simp: nth_enumerate_eq)
  moreover have "\<not> st_matches (known_service_types uuid ! j) st" if "j < n" for j
    using n(1,4) that by (simp add: nth_enumerate_eq)
  ultimately show ?thesis using that [of n] f n(1,3) assms(1) by (simp add: msearch_reply_indices_def)
qed

lemma reply_indices_none:
  assumes "st \<noteq> ST_ALL" "\<not> (\<exists>i < 6. st_matches (known_service_types uuid ! i) st)"
  shows "msearch_reply_indices uuid st = []"
proof -
  have "List.find (\<lambda>(i, k). st_matches k st) (enumerate 0 (known_service_types uuid)) = None"
    using assms(2) by (auto simp: find_None_iff in_set_enumerate_eq split_beta)
  then show ?thesis using assms(1) by (simp add: msearch_reply_indices_def)
qed

lemma reply_indices:
  assumes "i \<in> set (msearch_reply_indices uuid st)"
  shows "i < 6"
proof (cases "st = ST_ALL")
  case False
  show ?thesis
  proof (cases "\<exists>i < 6. st_matches (known_service_types uuid ! i) st")
    case True
    from reply_indices_first [OF False True] assms show ?thesis by (metis empty_iff list.set(1) set_ConsD)
  qed (use assms reply_indices_none [OF False] in auto)
qed (use assms reply_indices_all in auto)

lemma served_type_matches: "st_matches k k"
  by (simp add: st_matches_def Let_def)

lemma collect_results_Inr: "collect_results (map (\<lambda>i. Inr (f i)) xs) = Inr (map f xs)"
  by (induction xs) (auto simp: bind_res_def)

lemma replies_built:
  assumes "check_reply uuid host server date = Inr ()" "is_http_field_value st"
  shows "try_msearch_replies uuid st host port interval server date =
    Inr (map (\<lambda>i. packet (msearch_lines uuid host port interval server date (known_service_types uuid ! i) i))
           (msearch_reply_indices uuid st))"
proof -
  let ?p = "\<lambda>i. packet (msearch_lines uuid host port interval server date (known_service_types uuid ! i) i)"
  have "map (\<lambda>i. try_msearch_ok uuid i host port interval server date) (msearch_reply_indices uuid st) =
      map (\<lambda>i. Inr (?p i)) (msearch_reply_indices uuid st)"
    using reply_indices [of _ uuid st] assms(1) by (intro map_cong refl) (simp add: try_msearch_ok_def bind_res_def)
  then have "collect_results (map (\<lambda>i. try_msearch_ok uuid i host port interval server date) (msearch_reply_indices uuid st)) =
      Inr (map ?p (msearch_reply_indices uuid st))"
    by (simp only: collect_results_Inr)
  then show ?thesis using assms by (simp add: try_msearch_replies_def bind_res_def)
qed

text \<open>
  C28: Every search the parser accepts is answered as its target asks. Its window is at most five
  seconds, and with a valid server identity the replies are built without an error: for a search of
  everything one packet for each of the six service types, in their order; for any other target exactly
  one packet, for the first service type that matches it, and none only if no type does. A served type
  matches itself. Each packet consists of exactly the nine lines of the reply for its type and an empty line.
\<close>
theorem accepted_search_answered:
  fixes port interval :: nat
  assumes "parse_msearch_delivered p unicast = Inr m" "check_reply uuid host server date = Inr ()"
  defines "types \<equiv> known_service_types uuid"
  defines "reply_line \<equiv> \<lambda>i. msearch_lines uuid host port interval server date (types ! i) i @ [[], []]"
  shows "ms_mx m \<le> 5 \<and> (\<forall>i < 6. st_matches (types ! i) (types ! i)) \<and>
    (\<exists>rs. try_msearch_replies uuid (ms_st m) host port interval server date = Inr rs \<and>
       (if ms_st m = ST_ALL then map (split_str crlf) rs = map reply_line [0..<6]
        else if \<exists>i < 6. st_matches (types ! i) (ms_st m)
        then \<exists>i < 6. st_matches (types ! i) (ms_st m) \<and> (\<forall>k < i. \<not> st_matches (types ! k) (ms_st m)) \<and>
               map (split_str crlf) rs = [reply_line i]
        else rs = []))"
proof -
  note acc = accepted_search [OF assms(1)]
  note plain = checked_plain [OF assms(2)]
  let ?line = "\<lambda>i. msearch_lines uuid host port interval server date (known_service_types uuid ! i) i"
  let ?rs = "\<lambda>is. map (\<lambda>i. packet (?line i)) is"
  have line: "split_str crlf (packet (?line i)) = reply_line i" if "i < 6" for i
    unfolding reply_line_def types_def
  proof (rule plain_packet)
    fix l assume "l \<in> set (?line i)"
    then show "is_http_field_value l"
      using plain known_type_plain [of uuid i] that msearch_lines_plain by blast
  qed
  have built: "try_msearch_replies uuid (ms_st m) host port interval server date =
      Inr (?rs (msearch_reply_indices uuid (ms_st m)))"
    using replies_built [OF assms(2)] acc by blast
  consider "ms_st m = ST_ALL" | "ms_st m \<noteq> ST_ALL" "\<exists>i < 6. st_matches (types ! i) (ms_st m)"
    | "ms_st m \<noteq> ST_ALL" "\<not> (\<exists>i < 6. st_matches (types ! i) (ms_st m))" by blast
  then have "if ms_st m = ST_ALL then map (split_str crlf) (?rs (msearch_reply_indices uuid (ms_st m))) = map reply_line [0..<6]
      else if \<exists>i < 6. st_matches (types ! i) (ms_st m)
      then \<exists>i < 6. st_matches (types ! i) (ms_st m) \<and> (\<forall>k < i. \<not> st_matches (types ! k) (ms_st m)) \<and>
             map (split_str crlf) (?rs (msearch_reply_indices uuid (ms_st m))) = [reply_line i]
      else ?rs (msearch_reply_indices uuid (ms_st m)) = []"
  proof cases
    case 1
    then show ?thesis using line by (simp add: reply_indices_all del: upt_Suc)
  next
    case 2
    from reply_indices_first [OF 2 [unfolded types_def]] obtain i where
        i: "msearch_reply_indices uuid (ms_st m) = [i]" "i < 6" "st_matches (types ! i) (ms_st m)"
          "\<forall>k < i. \<not> st_matches (types ! k) (ms_st m)" by (auto simp: types_def)
    then have "map (split_str crlf) (?rs (msearch_reply_indices uuid (ms_st m))) = [reply_line i]" using line by simp
    then show ?thesis using 2 i(2-4) by auto
  next
    case 3
    then show ?thesis using reply_indices_none [of "ms_st m" uuid] by (auto simp: types_def)
  qed
  then show ?thesis using acc built served_type_matches by blast
qed

text \<open>A search as a control point writes it, and what the parser makes of it.\<close>

definition search_lines :: "string \<Rightarrow> nat \<Rightarrow> string \<Rightarrow> string list" where
  "search_lines host mx st =
     [''M-SEARCH * HTTP/1.1'', ''HOST: '' @ host, ''MAN: '' @ MAN_DISCOVER, ''MX: '' @ decimal mx, ''ST: '' @ st]"

lemma trim_field: "v = [] \<or> (\<not> is_ows (hd v) \<and> \<not> is_ows (last v)) \<Longrightarrow> trim_http_ows ('' '' @ v) = v"
  using trim_matches_id [of v is_ows] by (simp add: trim_http_ows_def trim_matches_def is_ows_def)

lemma header_parsed:
  assumes "is_http_token name" "CHR '':'' \<notin> set name" "is_http_field_value v"
    "v = [] \<or> (\<not> is_ows (hd v) \<and> \<not> is_ows (last v))"
  shows "parse_header_line (name @ '': '' @ v) = Some (name, v)"
proof -
  have "split_once (CHR '':'') (name @ CHR '':'' # '' '' @ v) = Some (name, '' '' @ v)"
    by (rule split_once_append) (fact assms(2))
  moreover have "trim_http_ows ('' '' @ v) = v" by (rule trim_field) (fact assms(4))
  ultimately show ?thesis using assms by (simp add: parse_header_line_def field_value_byte_def)
qed

lemma not_blank: "c \<in> set l \<Longrightarrow> \<not> is_ows c \<Longrightarrow> \<not> is_blank_header_line l"
  by (auto simp: is_blank_header_line_def list_all_iff)

lemma decimal_ends: "\<not> is_ows (hd (decimal n)) \<and> \<not> is_ows (last (decimal n))"
  using set_decimal [of "hd (decimal n)" n] set_decimal [of "last (decimal n)" n]
  by (auto simp: is_ows_def is_digit_def)

lemma token_names: "is_http_token ''HOST''" "is_http_token ''MX''" "is_http_token ''ST''"
  by code_simp+

lemma header_names:
  "header_from_name ''HOST'' = None" "header_from_name ''MAN'' = Some HeaderMan"
  "header_from_name ''MX'' = Some HeaderMx" "header_from_name ''ST'' = Some HeaderSt"
  by code_simp+

lemma search_line_matches: "request_line_matches ''M-SEARCH * HTTP/1.1'' ''M-SEARCH''"
  by code_simp

lemma discover_matches: "man_is_discover MAN_DISCOVER"
  by code_simp

lemma standard_search:
  assumes host: "is_http_field_value host"
    and st: "is_http_field_value st" "st \<noteq> []" "\<not> is_ows (hd st)" "\<not> is_ows (last st)"
    and mx: "mx \<le> u32_max"
  shows "parse_msearch_delivered (packet (search_lines host mx st)) unicast = Inr \<lparr>ms_st = st, ms_mx = min mx 5\<rparr>"
proof -
  have plain: "is_http_field_value l" if "l \<in> set (search_lines host mx st)" for l
    using that host st(1) by (auto simp: search_lines_def MAN_DISCOVER_def dq_def field_value_byte_def)
  then have lines: "normalized_lines (packet (search_lines host mx st)) = search_lines host mx st @ [[], []]"
    by (intro normalized_packet) (auto dest: is_http_field_value_no_crlf)
  have no_cr: "\<not> has_lone_cr (packet (search_lines host mx st))"
    by (rule lone_cr_packet) (use plain is_http_field_value_no_crlf in blast)
  have hostl: "parse_header_line (''HOST: '' @ host) = Some (''HOST'', trim_http_ows ('' '' @ host))"
    using host split_once_append [of "CHR '':''" "''HOST''" "'' '' @ host"]
    by (simp add: parse_header_line_def token_names field_value_byte_def)
  have man: "parse_header_line (''MAN: '' @ MAN_DISCOVER) = Some (''MAN'', MAN_DISCOVER)" by code_simp
  have mxl: "parse_header_line (''MX: '' @ decimal mx) = Some (''MX'', decimal mx)"
    using header_parsed [of "''MX''" "decimal mx"] decimal_ends by (simp add: token_names)
  have stl: "parse_header_line (''ST: '' @ st) = Some (''ST'', st)"
    using header_parsed [of "''ST''" st] st by (simp add: token_names)
  have "search_headers (tl (search_lines host mx st @ [[], []])) \<lparr>sl_st = None, sl_man = None, sl_mx = None\<rparr> =
      Inr \<lparr>sl_st = Some st, sl_man = Some MAN_DISCOVER, sl_mx = Some (decimal mx)\<rparr>"
    using hostl man mxl stl
    by (simp add: search_lines_def header_names set_slot_def set_unique_header_def is_blank_header_line_def is_ows_def)
  moreover have "hd (search_lines host mx st @ [[], []]) = ''M-SEARCH * HTTP/1.1''" by (simp add: search_lines_def)
  ultimately show ?thesis
    using mx st(2) unfolding parse_msearch_delivered_def lines Let_def
    by (simp only: no_cr search_line_matches) (simp add: bind_res_def discover_matches)
qed

text \<open>
  C29: A search that a control point writes in the form of the UPnP architecture is understood: for any
  target without leading or trailing blanks and any window, the packet of the five lines parses, over
  multicast and over unicast, to that target and the window cut to five seconds.
\<close>
theorem search_roundtrip:
  assumes "is_http_field_value host" "is_http_field_value st" "st \<noteq> []"
    "\<not> is_ows (hd st)" "\<not> is_ows (last st)" "mx \<le> u32_max"
  shows "parse_msearch (packet (search_lines host mx st)) = Inr \<lparr>ms_st = st, ms_mx = min mx 5\<rparr> \<and>
    parse_unicast_msearch (packet (search_lines host mx st)) = Inr \<lparr>ms_st = st, ms_mx = min mx 5\<rparr>"
  unfolding parse_msearch_def parse_unicast_msearch_def using standard_search [OF assms] by blast

lemma search_roundtrip_witness:
  "parse_msearch (packet (search_lines ''239.255.255.250:1900'' 120 ST_ALL)) = Inr \<lparr>ms_st = ST_ALL, ms_mx = 5\<rparr>"
  using search_roundtrip [of "''239.255.255.250:1900''" ST_ALL 120]
  by (simp add: ST_ALL_def field_value_byte_def is_ows_def u32_max_def)

lemma accepted_search_answered_witness:
  "\<exists>rs i. try_msearch_replies ''uuid:7'' ST_MEDIASERVER ''10.0.0.5'' 8200 895 ''Linux'' ''now'' = Inr rs \<and>
     i < 6 \<and> st_matches (known_service_types ''uuid:7'' ! i) ST_MEDIASERVER \<and>
     map (split_str crlf) rs = [msearch_lines ''uuid:7'' ''10.0.0.5'' 8200 895 ''Linux'' ''now'' (known_service_types ''uuid:7'' ! i) i @ [[], []]]"
proof -
  have a: "parse_msearch_delivered (packet (search_lines ''239.255.255.250:1900'' 3 ST_MEDIASERVER)) False =
      Inr \<lparr>ms_st = ST_MEDIASERVER, ms_mx = min 3 5\<rparr>"
    by (rule standard_search) (simp_all add: ST_MEDIASERVER_def field_value_byte_def is_ows_def u32_max_def)
  have b: "check_reply ''uuid:7'' ''10.0.0.5'' ''Linux'' ''now'' = Inr ()" by code_simp
  have ne: "ST_MEDIASERVER \<noteq> ST_ALL" by (simp add: ST_MEDIASERVER_def ST_ALL_def)
  have "st_matches (known_service_types ''uuid:7'' ! 2) ST_MEDIASERVER" by code_simp
  then have some: "\<exists>i < 6. st_matches (known_service_types ''uuid:7'' ! i) ST_MEDIASERVER"
    by (intro exI [of _ 2]) simp
  show ?thesis using accepted_search_answered [OF a b, of 8200 895] ne some by auto
qed

text \<open>A type with a longer version number that starts with the served one is answered too.\<close>

lemma later_version_matched:
  "st_matches ST_MEDIASERVER (ST_MEDIASERVER @ ''1'')"
  by code_simp

lemma jitter_within_window:
  assumes "mx \<le> u32_max"
  shows "case msearch_jitter_ms_range_for_mx all mx of (lo, hi) \<Rightarrow>
     lo \<le> jitter_ms (lo, hi) now \<and> jitter_ms (lo, hi) now \<le> hi \<and> hi \<le> 1000 * mx"
proof (cases "mx = 0")
  case False
  have "u32_max \<le> 4294967295" by (simp add: u32_max_def)
  moreover have "u64_max = 18446744073709551615" by (simp add: u64_max_def)
  moreover have "now mod Suc k \<le> k" for k using mod_less_divisor [of "Suc k" now] by simp
  ultimately show ?thesis using False assms
    by (auto simp: msearch_jitter_ms_range_for_mx_def msearch_jitter_ms_range_def jitter_ms_def
        saturating_mul_def saturating_add_def)
qed (simp add: msearch_jitter_ms_range_for_mx_def jitter_ms_def saturating_add_def u64_max_def)

end
