(* ===== verification/Query_Sort.thy ===== *)
theory Query_Sort
  imports Query_Control
begin

text \<open>
  What the query control promises: a stop is final and counted once, admission is bounded, and a checked
  sort that is not stopped yields exactly the stable sort of its input.
\<close>

subsection \<open>Rules for queries\<close>

text \<open>\<open>returns m P\<close>: whatever the state, a result of \<open>m\<close> satisfies \<open>P\<close>.\<close>

definition returns :: "'a query \<Rightarrow> ('a \<Rightarrow> bool) \<Rightarrow> bool" where
  "returns m P \<longleftrightarrow> (\<forall>s y s'. m s = (Inr y, s') \<longrightarrow> P y)"

lemma returnsD: "returns m P \<Longrightarrow> m s = (Inr y, s') \<Longrightarrow> P y"
  by (auto simp: returns_def)

lemma returns_ret [intro]: "P x \<Longrightarrow> returns (q_ret x) P"
  by (simp add: returns_def q_ret_def)

lemma returns_bind: "returns m P \<Longrightarrow> (\<And>x. P x \<Longrightarrow> returns (f x) Q) \<Longrightarrow> returns (q_bind m f) Q"
  by (fastforce simp: returns_def q_bind_def split: prod.splits sum.splits)

lemma returns_bind_any: "(\<And>x. returns (f x) Q) \<Longrightarrow> returns (q_bind m f) Q"
  by (rule returns_bind [where P = "\<lambda>_. True"]) (auto simp: returns_def)

subsection \<open>Quiet controls\<close>

text \<open>A control that was not stopped and that the outside world never stops.\<close>

definition quiet :: "query_control \<Rightarrow> bool" where
  "quiet s \<longleftrightarrow> qc_stopped s = None \<and> (\<forall>i. \<not> is_cancelled (qc_outside s i) \<and> \<not> is_expired (qc_outside s i))"

definition undisturbed :: "'a query \<Rightarrow> bool" where
  "undisturbed m \<longleftrightarrow> (\<forall>s. quiet s \<longrightarrow> (\<exists>y s'. m s = (Inr y, s') \<and> quiet s'))"

lemma undisturbed_ret [intro]: "undisturbed (q_ret x)"
  by (simp add: undisturbed_def q_ret_def)

lemma undisturbed_bind [intro]: "undisturbed m \<Longrightarrow> (\<And>x. undisturbed (f x)) \<Longrightarrow> undisturbed (q_bind m f)"
  by (fastforce simp: undisturbed_def q_bind_def split: prod.splits sum.splits)

lemma undisturbed_check [intro]: "undisturbed q_check"
  by (auto simp: undisturbed_def q_check_def quiet_def look_def)

lemma undisturbed_work_items: "n \<le> MAX_QUERY_WORK_ITEMS \<Longrightarrow> undisturbed (check_work_items n)"
  by (auto simp: check_work_items_def)

lemma undisturbed_work_bytes: "n \<le> MAX_QUERY_WORK_BYTES \<Longrightarrow> undisturbed (check_work_bytes n)"
  by (auto simp: check_work_bytes_def)

lemma undisturbed_every [intro]: "undisturbed (check_every_256 i)"
  by (auto simp: check_every_256_def)

subsection \<open>Merging\<close>

definition segment :: "'a list \<Rightarrow> nat \<Rightarrow> nat \<Rightarrow> 'a list" where
  "segment xs a b = take (b - a) (drop a xs)"

lemma segment_empty [simp]: "b \<le> a \<Longrightarrow> segment xs a b = []"
  by (simp add: segment_def)

lemma segment_Cons: "a < b \<Longrightarrow> b \<le> length xs \<Longrightarrow> segment xs a b = xs ! a # segment xs (a + 1) b"
  by (simp add: segment_def take_Suc_conv_app_nth [symmetric] Cons_nth_drop_Suc [symmetric] take_Cons' Suc_diff_Suc)

lemma segment_append: "a \<le> m \<Longrightarrow> m \<le> b \<Longrightarrow> segment xs a m @ segment xs m b = segment xs a b"
  using take_add [of "m - a" "b - m" "drop a xs"] by (simp add: segment_def)

lemma length_segment: "b \<le> length xs \<Longrightarrow> length (segment xs a b) = b - a"
  by (simp add: segment_def)

abbreviation stable_sort :: "'a comparator \<Rightarrow> 'a list \<Rightarrow> 'a list" where
  "stable_sort \<equiv> Sorting_Algorithms.sort"

lemma merge_Nil2 [simp]: "Sorting_Algorithms.merge c xs [] = xs"
  by (cases xs) simp_all

lemma merge_sorts: "Sorting_Algorithms.merge c (stable_sort c xs) (stable_sort c ys) = stable_sort c (xs @ ys)"
proof (rule sym, rule sort_eqI)
  show "mset (xs @ ys) = mset (Sorting_Algorithms.merge c (stable_sort c xs) (stable_sort c ys))"
    by (simp add: mset_merge)
  show "Sorting_Algorithms.sorted c (Sorting_Algorithms.merge c (stable_sort c xs) (stable_sort c ys))"
    by (simp add: sorted_merge)
  show "filter (\<lambda>z. compare c y z = Equiv) (xs @ ys) =
      filter (\<lambda>z. compare c y z = Equiv) (Sorting_Algorithms.merge c (stable_sort c xs) (stable_sort c ys))" for y
    by (simp add: filter_merge stable_sort merge_stable_segments)
qed

lemma merge_run_returns:
  assumes "left \<le> middle" "right \<le> stop" "middle \<le> length src" "stop \<le> length src"
  shows "returns (merge_run (compare c) src left middle right stop target)
    (\<lambda>out. out = target @ Sorting_Algorithms.merge c (segment src left middle) (segment src right stop))"
  using assms
proof (induction "compare c" src left middle right stop target rule: merge_run.induct)
  case (1 src left middle right stop target)
  let ?go = "left < middle \<or> right < stop"
  show ?case
  proof (cases ?go)
    case False
    then show ?thesis using 1(3,4) by (subst merge_run.simps) (auto simp: returns_def q_ret_def)
  next
    case True
    show ?thesis
    proof (cases "stop \<le> right \<or> (left < middle \<and> compare c (src ! left) (src ! right) \<noteq> Greater)")
      case L: True
      then have lt: "left < middle" using True by auto
      have "Sorting_Algorithms.merge c (segment src left middle) (segment src right stop) =
          src ! left # Sorting_Algorithms.merge c (segment src (left + 1) middle) (segment src right stop)"
      proof (cases "right < stop")
        case True
        then show ?thesis using L lt 1(5,6) by (simp add: segment_Cons)
      next
        case False
        then show ?thesis using lt 1(5) by (simp add: segment_Cons)
      qed
      moreover have "returns (merge_run (compare c) src (left + 1) middle right stop (target @ [src ! left]))
          (\<lambda>out. out = (target @ [src ! left]) @ Sorting_Algorithms.merge c (segment src (left + 1) middle) (segment src right stop))"
        using 1(1) [OF True L] lt 1(4,5,6) by simp
      ultimately show ?thesis using True L
        by (subst merge_run.simps) (simp only: if_True simp_thms, auto intro!: returns_bind_any)
    next
      case R: False
      then have lt: "right < stop" by auto
      have "Sorting_Algorithms.merge c (segment src left middle) (segment src right stop) =
          src ! right # Sorting_Algorithms.merge c (segment src left middle) (segment src (right + 1) stop)"
      proof (cases "left < middle")
        case True
        then show ?thesis using R lt 1(5,6) by (simp add: segment_Cons)
      next
        case False
        then show ?thesis using lt 1(6) by (simp add: segment_Cons)
      qed
      moreover have "returns (merge_run (compare c) src left middle (right + 1) stop (target @ [src ! right]))
          (\<lambda>out. out = (target @ [src ! right]) @ Sorting_Algorithms.merge c (segment src left middle) (segment src (right + 1) stop))"
        using 1(2) [OF True R] lt 1(3,5,6) by simp
      ultimately show ?thesis using True R
        by (subst merge_run.simps) (simp only: if_True if_False simp_thms, auto intro!: returns_bind_any)
    qed
  qed
qed

subsection \<open>Passes\<close>

text \<open>
  After the pass of a width, every block of that width is the stable sort of the block in the input.
\<close>

definition blocks_sorted :: "'a comparator \<Rightarrow> 'a list \<Rightarrow> nat \<Rightarrow> nat \<Rightarrow> 'a list \<Rightarrow> bool" where
  "blocks_sorted c xs w j out \<longleftrightarrow>
     length out = min (j * w) (length xs) \<and>
     (\<forall>k < j. segment out (k * w) (min (k * w + w) (length xs)) =
        stable_sort c (segment xs (k * w) (min (k * w + w) (length xs))))"

lemma block_added:
  assumes "blocks_sorted c xs w j out" "j * w < length xs"
    "b = stable_sort c (segment xs (j * w) (min (j * w + w) (length xs)))"
  shows "blocks_sorted c xs w (Suc j) (out @ b)"
proof -
  have len: "length out = j * w" "length b = min (j * w + w) (length xs) - j * w"
    using assms by (auto simp: blocks_sorted_def length_segment)
  have "segment (out @ b) (k * w) (min (k * w + w) (length xs)) =
      stable_sort c (segment xs (k * w) (min (k * w + w) (length xs)))" if k: "k < Suc j" for k
  proof (cases "k = j")
    case True
    then show ?thesis using len assms(3) by (simp add: segment_def)
  next
    case False
    then have "Suc k * w \<le> j * w" using k by (intro mult_le_mono1) simp
    then have "min (k * w + w) (length xs) \<le> length out" using len by simp
    then have "segment (out @ b) (k * w) (min (k * w + w) (length xs)) = segment out (k * w) (min (k * w + w) (length xs))"
      by (simp add: segment_def)
    then show ?thesis using assms(1) k False by (simp add: blocks_sorted_def)
  qed
  then show ?thesis using len assms(2) by (auto simp: blocks_sorted_def)
qed

lemma pair_merged:
  assumes "blocks_sorted c xs w m src" "length src = length xs" "length xs \<le> m * w" "2 * j * w < length xs"
    "mid = min (2 * j * w + w) (length xs)" "stop = min (mid + w) (length xs)"
  shows "Sorting_Algorithms.merge c (segment src (2 * j * w) mid) (segment src mid stop) =
    stable_sort c (segment xs (2 * j * w) (min (2 * j * w + 2 * w) (length xs)))"
proof -
  have "2 * j < m" using assms(3,4) by (metis le_trans mult_le_mono1 not_le)
  then have l: "segment src (2 * j * w) mid = stable_sort c (segment xs (2 * j * w) mid)"
    using assms(1,5) by (simp add: blocks_sorted_def)
  have r: "segment src mid stop = stable_sort c (segment xs mid stop)"
  proof (cases "2 * j * w + w < length xs")
    case True
    then have mid: "mid = (2 * j + 1) * w" using assms(5) by simp
    then have "2 * j + 1 < m" using assms(3,5) True by (metis le_trans mult_le_mono1 not_le min.strict_order_iff)
    then have "segment src ((2 * j + 1) * w) (min ((2 * j + 1) * w + w) (length xs)) =
        stable_sort c (segment xs ((2 * j + 1) * w) (min ((2 * j + 1) * w + w) (length xs)))"
      using assms(1) unfolding blocks_sorted_def by blast
    then show ?thesis unfolding assms(6) mid .
  next
    case False
    then show ?thesis using assms(5,6) by simp
  qed
  have "stop = min (2 * j * w + 2 * w) (length xs)" "2 * j * w \<le> mid" "mid \<le> stop" using assms(4-6) by auto
  then show ?thesis unfolding l r merge_sorts by (simp add: segment_append)
qed

lemma step_by_starts:
  assumes "0 < k"
  shows "\<exists>m. step_by n k = map (\<lambda>i. i * k) [0..<m] \<and> (\<forall>i < m. i * k < n) \<and> n \<le> m * k"
proof (induction n)
  case 0
  then show ?case by (auto simp: step_by_def)
next
  case (Suc n)
  then obtain m where m: "step_by n k = map (\<lambda>i. i * k) [0..<m]" "\<forall>i < m. i * k < n" "n \<le> m * k" by blast
  have step: "step_by (Suc n) k = step_by n k @ (if n mod k = 0 then [n] else [])" by (simp add: step_by_def)
  show ?case
  proof (cases "n mod k = 0")
    case True
    then obtain q where q: "n = q * k" by (metis dvd_def mod_0_imp_dvd mult.commute)
    have "\<not> q < m" using m(2) q by auto
    moreover have "q \<le> m" using m(3) q assms by simp
    ultimately have "n = m * k" using q by simp
    then show ?thesis using m step True assms by (intro exI [where x = "Suc m"]) (auto simp: less_Suc_eq)
  next
    case False
    then have "n \<noteq> m * k" by auto
    then show ?thesis using m step False by (intro exI [where x = m]) (auto simp: less_Suc_eq)
  qed
qed

lemma merge_runs_returns:
  assumes src: "blocks_sorted c xs w m src" "length src = length xs" "length xs \<le> m * w"
    and starts: "\<forall>i < j + n. i * (2 * w) < length xs" and small: "length xs \<le> usize_max"
    and target: "blocks_sorted c xs (2 * w) j target"
  shows "returns (merge_runs (compare c) src w (map (\<lambda>i. i * (2 * w)) [j..<j + n]) target)
    (blocks_sorted c xs (2 * w) (j + n))"
  using starts target
proof (induction n arbitrary: j target)
  case 0
  then show ?case by (auto simp: returns_def q_ret_def)
next
  case (Suc n)
  let ?start = "j * (2 * w)"
  let ?mid = "min (saturating_add usize_max ?start w) (length src)"
  let ?stop = "min (saturating_add usize_max ?mid w) (length src)"
  have lt: "2 * j * w < length xs" using Suc.prems(1) [rule_format, of j] by (simp add: algebra_simps)
  have mid: "?mid = min (2 * j * w + w) (length xs)" using src(2) small by (auto simp: saturating_add_def algebra_simps)
  have stop: "?stop = min (?mid + w) (length xs)"
    using small unfolding src(2) by (simp add: saturating_add_def min.assoc min_absorb2)
  have up: "[j..<j + Suc n] = j # [Suc j..<Suc j + n]" by (simp add: upt_conv_Cons)
  let ?block = "stable_sort c (segment xs (j * (2 * w)) (min (j * (2 * w) + 2 * w) (length xs)))"
  have eq: "Sorting_Algorithms.merge c (segment src ?start ?mid) (segment src ?mid ?stop) = ?block"
    using pair_merged [OF src lt mid stop] by (simp add: algebra_simps)
  have "returns (merge_run (compare c) src ?start ?mid ?mid ?stop target)
      (\<lambda>out. out = target @ Sorting_Algorithms.merge c (segment src ?start ?mid) (segment src ?mid ?stop))"
  proof (rule merge_run_returns)
    show "?start \<le> ?mid" unfolding mid using lt by (simp add: algebra_simps)
    show "?mid \<le> ?stop" unfolding stop by (simp add: src(2))
  qed simp_all
  then have run: "returns (merge_run (compare c) src ?start ?mid ?mid ?stop target) (\<lambda>out. out = target @ ?block)"
    unfolding eq .
  have added: "blocks_sorted c xs (2 * w) (Suc j) (target @ ?block)"
    using Suc.prems lt by (intro block_added) (auto simp: algebra_simps)
  have "returns (merge_runs (compare c) src w (map (\<lambda>i. i * (2 * w)) [Suc j..<Suc j + n]) (target @ ?block))
      (blocks_sorted c xs (2 * w) (Suc j + n))"
    using Suc.IH [of "Suc j"] Suc.prems(1) added by simp
  then show ?case unfolding up list.map merge_runs.simps Let_def
    by (auto intro!: returns_bind [OF run])
qed

lemma blocks_start: "blocks_sorted c xs w 0 []"
  by (simp add: blocks_sorted_def)

lemma blocks_whole:
  assumes "blocks_sorted c xs w j out" "length xs \<le> j * w" "length xs \<le> w" "length xs \<le> v"
  shows "blocks_sorted c xs v 1 out"
proof (cases "xs = []")
  case False
  then have "0 < j" using assms(2) by (cases j) auto
  then have "segment out (0 * w) (min (0 * w + w) (length xs)) = stable_sort c (segment xs (0 * w) (min (0 * w + w) (length xs)))"
    using assms(1) unfolding blocks_sorted_def by blast
  then show ?thesis using assms by (simp add: blocks_sorted_def min_absorb2)
qed (use assms in \<open>auto simp: blocks_sorted_def\<close>)

lemma sort_passes_returns:
  assumes "length xs \<le> usize_max" "0 < w" "length xs \<le> m * w" "blocks_sorted c xs w m src" "length src = length xs"
  shows "returns (sort_passes (compare c) (length xs) w src) (\<lambda>out. out = stable_sort c xs)"
  using assms(2-5)
proof (induction "compare c" "length xs" w src arbitrary: m rule: sort_passes.induct)
  case (1 w src)
  let ?w = "saturating_mul usize_max w 2"
  show ?case
  proof (cases "w < length xs \<and> w < ?w")
    case True
    have "0 < ?w" using True by linarith
    from step_by_starts [OF this, of "length xs"] obtain j where
        j: "step_by (length xs) ?w = map (\<lambda>i. i * ?w) [0..<j]"
        "\<forall>i < j. i * ?w < length xs" "length xs \<le> j * ?w"
      by blast
    have covered: "blocks_sorted c xs ?w j out \<and> length out = length xs"
      if "blocks_sorted c xs (2 * w) j out" for out
    proof (cases "2 * w \<le> usize_max")
      case True
      then have "?w = 2 * w" by (simp add: saturating_mul_def)
      then show ?thesis using that j(3) by (simp add: blocks_sorted_def)
    next
      case False
      then have w: "?w = usize_max" unfolding saturating_mul_def by linarith
      have "j * ?w \<le> j * (2 * w)" unfolding w using False by (intro mult_le_mono2) linarith
      then have "length xs \<le> j * (2 * w)" using j(3) by linarith
      have "j = 1"
      proof -
        have "\<not> 1 < j"
        proof
          assume "1 < j"
          then have "1 * ?w < length xs" using j(2) by blast
          then show False using w assms(1) by linarith
        qed
        moreover have "j \<noteq> 0" using j(3) \<open>w < length xs \<and> w < ?w\<close> by (cases "j = 0") auto
        ultimately show ?thesis by simp
      qed
      then show ?thesis
        using blocks_whole [OF that \<open>length xs \<le> j * (2 * w)\<close>] False assms(1) w by (simp add: blocks_sorted_def)
    qed
    have same: "map (\<lambda>i. i * ?w) [0..<j] = map (\<lambda>i. i * (2 * w)) [0..<0 + j]"
      and below: "\<forall>i < 0 + j. i * (2 * w) < length xs"
    proof -
      have eq: "i * ?w = i * (2 * w)" if "i < j" for i
      proof (cases "2 * w \<le> usize_max")
        case False
        then have "i * usize_max < length xs" using j(2) that by (simp add: saturating_mul_def)
        then have "i = 0" using assms(1) by (cases i) auto
        then show ?thesis by simp
      qed (simp add: saturating_mul_def)
      then show "map (\<lambda>i. i * ?w) [0..<j] = map (\<lambda>i. i * (2 * w)) [0..<0 + j]"
        "\<forall>i < 0 + j. i * (2 * w) < length xs"
        using j(2) eq by (auto simp only: add_0 map_eq_conv set_upt atLeastLessThan_iff)
    qed
    have "returns (merge_runs (compare c) src w (step_by (length xs) ?w) []) (blocks_sorted c xs (2 * w) (0 + j))"
      unfolding j(1) same
      by (rule merge_runs_returns [OF 1(4,5,3) below assms(1) blocks_start])
    then have pass: "returns (merge_runs (compare c) src w (step_by (length xs) ?w) [])
        (\<lambda>out. blocks_sorted c xs ?w j out \<and> length out = length xs)"
      using covered by (auto simp: returns_def)
    have "returns (sort_passes (compare c) (length xs) ?w out) (\<lambda>out. out = stable_sort c xs)"
      if "blocks_sorted c xs ?w j out \<and> length out = length xs" for out
      using 1(1) [OF True, of j out] that j(3) True by simp
    then show ?thesis using True
      by (subst sort_passes.simps) (simp only: if_True simp_thms, rule returns_bind [OF pass])
  next
    case False
    have "length xs \<le> w"
    proof (rule ccontr)
      assume "\<not> length xs \<le> w"
      then have "saturating_mul usize_max w 2 \<le> w" using False by simp
      then show False using \<open>\<not> length xs \<le> w\<close> 1(2) assms(1) by (auto simp: saturating_mul_def min_def split: if_splits)
    qed
    have "src = stable_sort c xs"
    proof (cases "xs = []")
      case True
      then show ?thesis using 1(5) by simp
    next
      case False
      then have "0 < m" using 1(3) by (cases m) auto
      then have "segment src (0 * w) (min (0 * w + w) (length xs)) = stable_sort c (segment xs (0 * w) (min (0 * w + w) (length xs)))"
        using 1(4) unfolding blocks_sorted_def by blast
      then show ?thesis using \<open>length xs \<le> w\<close> 1(5) by (simp add: segment_def min_absorb2)
    qed
    then show ?thesis using False by (subst sort_passes.simps) (auto simp: returns_def q_ret_def)
  qed
qed

subsection \<open>Stops are final and counted once\<close>

definition advances :: "query_control \<Rightarrow> query_control \<Rightarrow> bool" where
  "advances s s' \<longleftrightarrow>
     (qc_stopped s \<noteq> None \<longrightarrow> s' = s) \<and>
     (qc_stopped s = None \<longrightarrow>
        qc_metrics s' = (case qc_stopped s' of None \<Rightarrow> qc_metrics s | Some e \<Rightarrow> count_stop e (qc_metrics s)))"

lemma advances_refl [simp]: "advances s s"
  by (auto simp: advances_def)

lemma advances_trans: "advances s t \<Longrightarrow> advances t u \<Longrightarrow> advances s u"
  by (cases "qc_stopped t") (auto simp: advances_def split: option.splits)

definition orderly :: "'a query \<Rightarrow> bool" where
  "orderly m \<longleftrightarrow>
     (\<forall>s r s'. m s = (r, s') \<longrightarrow> advances s s' \<and> (\<forall>e. r = Inl e \<longrightarrow> qc_stopped s' = Some e))"

lemma orderly_ret [intro]: "orderly (q_ret x)"
  by (auto simp: orderly_def q_ret_def)

lemma orderly_bind [intro]: "orderly m \<Longrightarrow> (\<And>x. orderly (f x)) \<Longrightarrow> orderly (q_bind m f)"
  by (fastforce simp: orderly_def q_bind_def intro: advances_trans split: prod.splits sum.splits)

lemma orderly_ok [intro]: "orderly m \<Longrightarrow> orderly (q_ok m)"
  by (auto simp: orderly_def q_ok_def split: prod.splits sum.splits)

lemma orderly_stop [intro]: "orderly (q_stop e)"
  by (auto simp: orderly_def q_stop_def advances_def Let_def)

lemma orderly_check [intro]: "orderly q_check"
  by (auto simp: orderly_def q_check_def q_stop_def look_def advances_def Let_def split: option.splits if_splits)

lemma orderly_work [intro]: "orderly (check_work_items n)" "orderly (check_work_bytes n)" "orderly (check_every_256 n)"
  by (auto simp: check_work_items_def check_work_bytes_def check_every_256_def)

text \<open>Nothing but a look at the outside world or a limit ends a query that was not stopped.\<close>

lemma stopped_check [simp]: "qc_stopped s = Some e \<Longrightarrow> q_check s = (Inl e, s)"
  by (simp add: q_check_def)

lemma stopped_work_items [simp]: "qc_stopped s = Some e \<Longrightarrow> check_work_items n s = (Inl e, s)"
  by (simp add: check_work_items_def q_bind_def)

subsection \<open>The whole sort\<close>

lemma clone_values_returns: "returns (clone_values i acc xs) (\<lambda>out. out = acc @ xs)"
  by (induction i acc xs rule: clone_values.induct) (auto intro: returns_bind_any)

lemma work_items_returns: "returns (check_work_items n) (\<lambda>_. n \<le> MAX_QUERY_WORK_ITEMS)"
  unfolding check_work_items_def
  by (rule returns_bind_any) (auto simp: returns_def q_stop_def q_ret_def Let_def)

lemma items_fit: "n \<le> MAX_QUERY_WORK_ITEMS \<Longrightarrow> n \<le> usize_max"
  by (simp add: MAX_QUERY_WORK_ITEMS_def usize_max_def u64_max_def)

lemma blocks_single: "blocks_sorted c xs 1 (length xs) xs"
proof -
  have "segment xs (k * 1) (min (k * 1 + 1) (length xs)) = [xs ! k]" if "k < length xs" for k
    using that segment_Cons [of k "k + 1" xs] by simp
  then show ?thesis by (simp add: blocks_sorted_def)
qed

lemma controlled_sort_returns:
  "returns (controlled_sort_by bytes (compare c) xs) (\<lambda>out. out = stable_sort c xs)"
  unfolding controlled_sort_by_def
proof (rule returns_bind [OF work_items_returns], rule returns_bind_any, rule returns_bind [OF clone_values_returns])
  fix src assume "length xs \<le> MAX_QUERY_WORK_ITEMS" "src = [] @ xs"
  then have "returns (sort_passes (compare c) (length xs) 1 src) (\<lambda>out. out = stable_sort c xs)"
    using blocks_single items_fit by (intro sort_passes_returns [where m = "length xs"]) auto
  then show "returns (q_bind (sort_passes (compare c) (length xs) 1 src) (\<lambda>out. q_bind q_check (\<lambda>_. q_ret out)))
      (\<lambda>out. out = stable_sort c xs)"
    by (rule returns_bind) (auto intro: returns_bind_any)
qed

text \<open>The loops in between only look at the outside world.\<close>

definition calm :: "'a query \<Rightarrow> bool" where
  "calm m \<longleftrightarrow> orderly m \<and> undisturbed m"

lemma calm_intros [intro]:
  "calm (q_ret x)" "calm q_check" "calm (check_every_256 i)"
  "calm m \<Longrightarrow> (\<And>x. calm (f x)) \<Longrightarrow> calm (q_bind m f)"
  by (auto simp: calm_def)

lemma calm_merge_run: "calm (merge_run cmp src left middle right stop target)"
proof (induction cmp src left middle right stop target rule: merge_run.induct)
  case (1 cmp src left middle right stop target)
  then show ?case by (subst merge_run.simps) auto
qed

lemma calm_merge_runs: "calm (merge_runs cmp src w starts target)"
  by (induction cmp src w starts target rule: merge_runs.induct) (auto simp: Let_def intro: calm_merge_run)

lemma calm_sort_passes: "calm (sort_passes cmp n w src)"
proof (induction cmp n w src rule: sort_passes.induct)
  case (1 cmp n w src)
  then show ?case by (subst sort_passes.simps) (auto intro: calm_merge_runs)
qed

lemma calm_clone_values: "calm (clone_values i acc xs)"
  by (induction i acc xs rule: clone_values.induct) auto

lemma orderly_sort [intro]: "orderly (controlled_sort_by bytes cmp xs)"
  unfolding controlled_sort_by_def
  using calm_clone_values calm_sort_passes unfolding calm_def
  by (intro orderly_bind orderly_work orderly_check orderly_ret) blast+

lemma undisturbed_sort:
  assumes "length xs \<le> MAX_QUERY_WORK_ITEMS" "length xs * bytes * 2 \<le> MAX_QUERY_WORK_BYTES"
  shows "undisturbed (controlled_sort_by bytes cmp xs)"
proof -
  have "saturating_mul usize_max (saturating_mul usize_max (length xs) bytes) 2 \<le> MAX_QUERY_WORK_BYTES"
    using assms(2) by (auto simp: saturating_mul_def min_def)
  then show ?thesis
    unfolding controlled_sort_by_def using assms(1) calm_clone_values calm_sort_passes unfolding calm_def
    by (intro undisturbed_bind undisturbed_work_items undisturbed_work_bytes undisturbed_check undisturbed_ret) blast+
qed

text \<open>
  C30: The bottom-up merge sort with its checks is the stable sort: for every comparison that is a total
  preorder, a sort that is not stopped yields exactly the stable sort of its input, stopping it is
  recorded in the control and counted in exactly one metric, and within the limits of a million elements
  and 64 MiB only the cancellation or the deadline of the query can stop it.
\<close>
theorem controlled_sort_exact:
  assumes "comparator cmp" "qc_stopped s = None"
  shows "(case controlled_sort_by bytes cmp xs s of
      (Inr ys, s') \<Rightarrow> ys = stable_sort (Abs_comparator cmp) xs
    | (Inl e, s') \<Rightarrow> qc_stopped s' = Some e \<and> qc_metrics s' = count_stop e (qc_metrics s)) \<and>
    (quiet s \<and> length xs \<le> MAX_QUERY_WORK_ITEMS \<and> length xs * bytes * 2 \<le> MAX_QUERY_WORK_BYTES \<longrightarrow>
      fst (controlled_sort_by bytes cmp xs s) = Inr (stable_sort (Abs_comparator cmp) xs))"
proof -
  define c where "c = Abs_comparator cmp"
  have cmp: "cmp = compare c" using assms(1) by (simp add: c_def Abs_comparator_inverse)
  obtain r s' where r: "controlled_sort_by bytes cmp xs s = (r, s')" by force
  have sorted: "ys = stable_sort c xs" if "r = Inr ys" for ys
    using returnsD [OF controlled_sort_returns [of bytes c xs], of s ys s'] r that unfolding cmp by simp
  have "advances s s' \<and> (\<forall>e. r = Inl e \<longrightarrow> qc_stopped s' = Some e)"
    using orderly_sort [of bytes cmp xs] r unfolding orderly_def by blast
  then have stopped: "qc_stopped s' = Some e \<and> qc_metrics s' = count_stop e (qc_metrics s)" if "r = Inl e" for e
    using assms(2) that by (simp add: advances_def)
  have "\<exists>ys. r = Inr ys"
    if "quiet s" "length xs \<le> MAX_QUERY_WORK_ITEMS" "length xs * bytes * 2 \<le> MAX_QUERY_WORK_BYTES"
    using undisturbed_sort [OF that(2,3), of cmp] that(1) r unfolding undisturbed_def by force
  then show ?thesis using sorted stopped unfolding c_def [symmetric] by (auto simp: r split: sum.split)
qed

definition quiet_control :: query_control where
  "quiet_control = query_control_new \<lparr>qm_timeouts = 0, qm_cancellations = 0, qm_budget_exhaustions = 0\<rparr>
     (\<lambda>_. \<lparr>is_cancelled = False, is_expired = False\<rparr>)"

lemma quiet_quiet_control: "quiet quiet_control"
  by (simp add: quiet_def quiet_control_def query_control_new_def)

lemma controlled_sort_exact_witness:
  "fst (controlled_sort_by 8 (compare default) [3, 1, 2 :: nat] quiet_control) = Inr [1, 2, 3]"
proof -
  have "qc_stopped quiet_control = None" using quiet_quiet_control by (simp add: quiet_def)
  moreover have "stable_sort default [3, 1, 2 :: nat] = [1, 2, 3]"
    by (rule sort_eqI) auto
  ultimately show ?thesis
    using controlled_sort_exact [where cmp = "compare default" and s = quiet_control and bytes = 8 and xs = "[3, 1, 2 :: nat]",
        OF compare.comparator_axioms] quiet_quiet_control
    by (simp add: compare_inverse MAX_QUERY_WORK_ITEMS_def MAX_QUERY_WORK_BYTES_def)
qed

subsection \<open>Admission\<close>

text \<open>The number of running queries and the permits handed out, under callers' rounds and returns.\<close>

inductive admission_step :: "nat \<times> nat \<Rightarrow> nat \<times> nat \<Rightarrow> bool" where
  round: "admission_round active s = (answer, active', s') \<Longrightarrow>
    admission_step (active, permits) (active', permits + (if answer = Admitted then 1 else 0))"
| release: "0 < permits \<Longrightarrow> admission_step (active, permits) (release_permit active, permits - 1)"

inductive_simps admission_step_simps: "admission_step (a, p) (b, q)"

lemma admission_answers:
  "admission_round active s = (answer, active', s') \<Longrightarrow>
     (if answer = Admitted then active < MAX_ACTIVE_CATALOG_QUERIES \<and> active' = active + 1 else active' = active)"
  by (auto simp: admission_round_def split: prod.splits sum.splits if_splits)

text \<open>
  Catalogue queries are admitted four at a time: after any sequence of attempts and returned permits
  the number of active queries is the number of permits that are out, and it never exceeds four.
\<close>
theorem admission_bounded:
  "admission_step\<^sup>*\<^sup>* (0, 0) (active, permits) \<Longrightarrow> active = permits \<and> active \<le> MAX_ACTIVE_CATALOG_QUERIES"
proof (induction "(active, permits)" arbitrary: active permits rule: rtranclp_induct)
  case base
  then show ?case by simp
next
  case (step y)
  then show ?case
    by (cases y) (auto simp: admission_step_simps release_permit_def dest!: admission_answers split: if_splits)
qed

lemma admission_bounded_witness: "(1 :: nat) = 1 \<and> (1 :: nat) \<le> MAX_ACTIVE_CATALOG_QUERIES"
proof -
  have "admission_round 0 quiet_control = (Admitted, 1, snd (q_check quiet_control))"
    by (simp add: admission_round_def q_check_def quiet_control_def query_control_new_def look_def MAX_ACTIVE_CATALOG_QUERIES_def)
  then have "admission_step (0, 0) (1, 0 + (if Admitted = Admitted then 1 else 0))" by (rule round)
  then have "admission_step\<^sup>*\<^sup>* (0, 0) (1, 1)" by simp
  then show ?thesis by (rule admission_bounded)
qed

end
