(* ===== verification/Query_Results.thy ===== *)
theory Query_Results
  imports Query_Sort Query_Memory Catalog_Recent
begin

text \<open>
  What the pages computed in memory are: slices of one stable sort, in a total order, of exactly the rows
  that are in scope and match; a stopped query never answers with a part of them; and a page read from
  the database is used only for the generation it belongs to.
\<close>

subsection \<open>The order of rows is total\<close>

lemma comparator_cmp_of: "comparator (\<lambda>a b. cmp_of (f a) (f b))"
  by standard (auto simp: cmp_of_def split: if_splits)

lemma comparator_const: "comparator (\<lambda>a b. Equiv)"
  by standard auto

lemma reverse_ordering_eq:
  "comparator r \<Longrightarrow> reverse_ordering (r a b) = r b a"
  using comparator.greater_iff_sym_less [of r a b] comparator.greater_iff_sym_less [of r b a]
  by (cases "r a b"; cases "r b a") auto

lemma comparator_reverse:
  assumes "comparator r" shows "comparator (\<lambda>a b. reverse_ordering (r a b))"
  unfolding reverse_ordering_eq [OF assms]
  by standard (auto intro: comparator.trans_equiv [OF assms] comparator.trans_less [OF assms]
      simp: comparator.greater_iff_sym_less [OF assms] comparator.refl [OF assms])

lemma comparator_then:
  assumes f: "comparator f" and g: "comparator g"
  shows "comparator (\<lambda>a b. if f a b \<noteq> Equiv then f a b else g a b)"
proof
  fix a b c
  show "(if f a a \<noteq> Equiv then f a a else g a a) = Equiv"
    using comparator.refl [OF f, of a] comparator.refl [OF g, of a] by simp
  show "(if f a b \<noteq> Equiv then f a b else g a b) = Equiv \<Longrightarrow> (if f b c \<noteq> Equiv then f b c else g b c) = Equiv \<Longrightarrow>
      (if f a c \<noteq> Equiv then f a c else g a c) = Equiv"
    using comparator.trans_equiv [OF f, of a b c] comparator.trans_equiv [OF g, of a b c] by (auto split: if_splits)
  show "(if f a b \<noteq> Equiv then f a b else g a b) = Less \<Longrightarrow> (if f b c \<noteq> Equiv then f b c else g b c) = Less \<Longrightarrow>
      (if f a c \<noteq> Equiv then f a c else g a c) = Less"
    using comparator.trans_less [OF f, of a b c] comparator.trans_less_equiv [OF f, of a b c]
      comparator.trans_equiv_less [OF f, of a b c] comparator.trans_equiv [OF f, of a b c]
      comparator.trans_less [OF g, of a b c]
    by (auto split: if_splits)
  show "((if f b a \<noteq> Equiv then f b a else g b a) = Greater) = ((if f a b \<noteq> Equiv then f a b else g a b) = Less)"
    using comparator.greater_iff_sym_less [OF f, of b a] comparator.greater_iff_sym_less [OF g, of b a]
      comparator.greater_iff_sym_less [OF f, of a b]
    by (cases "f a b"; cases "f b a") auto
qed

lemma comparator_sort_key: "comparator (\<lambda>a b. cmp_sort_key a b k)"
  by (cases k) (simp_all add: cmp_sort_key_def cmp_ci_def comparator_cmp_of)

lemma comparator_specs: "comparator (\<lambda>a b. cmp_specs a b specs)"
proof (induction specs)
  case Nil
  show ?case by (simp add: comparator_const)
next
  case (Cons spec specs)
  have "comparator (\<lambda>a b. if ss_descending spec then reverse_ordering (cmp_sort_key a b (ss_key spec))
      else cmp_sort_key a b (ss_key spec))"
    by (cases "ss_descending spec") (simp_all add: comparator_sort_key comparator_reverse)
  from comparator_then [OF this Cons.IH] show ?case by (simp add: Let_def)
qed

lemma comparator_ci: "comparator (\<lambda>a b. cmp_ci (f a) (f b))"
  unfolding cmp_ci_def by (rule comparator_cmp_of)

lemma comparator_default: "comparator (\<lambda>a b. cmp_default a b d)"
proof (cases d)
  case FoldersFirstOrder
  have "(\<lambda>a b. cmp_default a b d) = (\<lambda>a b. if cmp_of (\<not> is_folder a) (\<not> is_folder b) \<noteq> Equiv
      then cmp_of (\<not> is_folder a) (\<not> is_folder b) else cmp_ci (child_title a) (child_title b))"
    by (intro ext) (auto simp: FoldersFirstOrder cmp_default_def cmp_of_def)
  then show ?thesis by (simp only: comparator_then comparator_cmp_of comparator_ci)
next
  case LgOrder
  then show ?thesis by (simp add: cmp_default_def Let_def comparator_then comparator_ci del: if_not_P)
next
  case ForceSortOrder
  then show ?thesis
    by (simp add: cmp_default_def Let_def comparator_then comparator_ci comparator_cmp_of)
qed

lemma comparator_children: "comparator (cmp_children specs d)"
proof -
  have "comparator (\<lambda>a b. if specs \<noteq> [] then cmp_specs a b specs else cmp_default a b d)"
    using comparator_specs comparator_default by (cases "specs = []") simp_all
  from comparator_then [OF this comparator_cmp_of [of child_object_id]]
  have "comparator (\<lambda>a b. cmp_children specs d a b)"
    by (rule back_subst [of comparator]) (auto simp: cmp_children_def Let_def fun_eq_iff)
  then show ?thesis .
qed

lemma cmp_children_ids: "cmp_children specs d a b = Equiv \<Longrightarrow> child_object_id a = child_object_id b"
  by (auto simp: cmp_children_def cmp_of_def Let_def split: if_splits)

definition rows_order :: "sort_spec list \<Rightarrow> default_order \<Rightarrow> catalog_child comparator" where
  "rows_order specs d = Abs_comparator (cmp_children specs d)"

lemma compare_rows_order: "compare (rows_order specs d) = cmp_children specs d"
  unfolding rows_order_def by (rule Abs_comparator_inverse) (simp add: comparator_children)

lemma rows_sorted_returns:
  "returns (controlled_sort_by bytes (cmp_children specs d) rows) (\<lambda>out. out = stable_sort (rows_order specs d) rows)"
  using controlled_sort_returns [of bytes "rows_order specs d" rows] by (simp only: compare_rows_order)

text \<open>Rows with different identifiers have one sorted arrangement, whatever order they come in.\<close>

lemma sort_order_free:
  assumes "mset xs = mset ys" "distinct (map child_object_id xs)"
  shows "stable_sort (rows_order specs d) xs = stable_sort (rows_order specs d) ys"
proof (rule sort_eqI)
  show "mset xs = mset (stable_sort (rows_order specs d) ys)" using assms(1) by simp
  show "Sorting_Algorithms.sorted (rows_order specs d) (stable_sort (rows_order specs d) ys)" by simp
  fix y assume y: "y \<in> set xs"
  let ?P = "\<lambda>z. compare (rows_order specs d) y z = Equiv"
  have only: "filter ?P zs = [y]" if "mset zs = mset xs" for zs
  proof -
    have "distinct (map child_object_id zs)" "y \<in> set zs"
      using that assms(2) y by (metis mset_map mset_eq_imp_distinct_iff, metis mset_eq_setD)
    then have "filter (\<lambda>z. child_object_id y = child_object_id z) zs = [y]"
      by (induction zs) (auto simp: filter_empty_conv image_iff)
    moreover have "filter ?P zs = filter (\<lambda>z. child_object_id y = child_object_id z) zs"
    proof (rule filter_cong [OF refl])
      fix z assume z: "z \<in> set zs"
      show "?P z = (child_object_id y = child_object_id z)"
      proof
        show "?P z \<Longrightarrow> child_object_id y = child_object_id z"
          by (simp add: compare_rows_order cmp_children_ids)
        assume "child_object_id y = child_object_id z"
        then have "y = z"
          using \<open>distinct (map child_object_id zs)\<close> \<open>y \<in> set zs\<close> z by (auto simp: distinct_map inj_on_def)
        then show "?P z" by simp
      qed
    qed
    ultimately show ?thesis by simp
  qed
  show "filter ?P xs = filter ?P (stable_sort (rows_order specs d) ys)"
    using only [of xs] only [of "stable_sort (rows_order specs d) ys"] assms(1) by simp
qed

subsection \<open>Results of queries that were not stopped\<close>

text \<open>
  A walk that is stopped keeps what it has found, and the stop is only seen by the next check. So a
  result counts when the control was still running after it.
\<close>

definition returns_live :: "'a query \<Rightarrow> ('a \<Rightarrow> bool) \<Rightarrow> bool" where
  "returns_live m P \<longleftrightarrow> (\<forall>s y s'. m s = (Inr y, s') \<longrightarrow> qc_stopped s' = None \<longrightarrow> P y)"

lemma returns_live: "returns m P \<Longrightarrow> returns_live m P"
  by (auto simp: returns_def returns_live_def)

lemma returns_live_ret: "P x \<Longrightarrow> returns_live (q_ret x) P"
  by (simp add: returns_live_def q_ret_def)

lemma still_running: "orderly m \<Longrightarrow> m s = (r, s') \<Longrightarrow> qc_stopped s' = None \<Longrightarrow> qc_stopped s = None"
  by (force simp: orderly_def advances_def)

lemma returns_live_bind:
  assumes "returns_live m P" "\<And>x. P x \<Longrightarrow> returns_live (f x) Q" "\<And>x. orderly (f x)"
  shows "returns_live (q_bind m f) Q"
proof (unfold returns_live_def, intro allI impI)
  fix s y s' assume run: "q_bind m f s = (Inr y, s')" and live: "qc_stopped s' = None"
  obtain x t where m: "m s = (Inr x, t)" "f x t = (Inr y, s')"
    using run by (auto simp: q_bind_def split: prod.splits sum.splits)
  then have "qc_stopped t = None" using still_running [OF assms(3)] live by blast
  then have "P x" using assms(1) m(1) by (auto simp: returns_live_def)
  then show "Q y" using assms(2) m(2) live by (auto simp: returns_live_def)
qed

text \<open>A failed attempt leaves the control stopped.\<close>

lemma returns_live_ok:
  "returns m P \<Longrightarrow> orderly m \<Longrightarrow> returns_live (q_ok m) (\<lambda>r. \<exists>y. r = Some y \<and> P y)"
  by (fastforce simp: returns_live_def returns_def q_ok_def orderly_def split: prod.splits sum.splits)

lemma orderly_let: "(\<And>x. orderly (f x)) \<Longrightarrow> orderly (Let a f)"
  by simp

lemma error_stopped: "orderly m \<Longrightarrow> m s = (Inl e, s') \<Longrightarrow> qc_stopped s' = Some e"
  by (auto simp: orderly_def)

subsection \<open>Scope\<close>

definition child_edge :: "catalog \<Rightarrow> string \<Rightarrow> string \<Rightarrow> bool" where
  "child_edge c i j \<longleftrightarrow> j \<in> set (folder_children c i)"

lemma orderly_push: "orderly (push_children index inserted stacked chs)"
  by (induction index inserted stacked chs rule: push_children.induct) auto

lemma orderly_scope_walk: "orderly (scope_walk c stack out)"
proof (induction c stack out rule: scope_walk.induct)
  case (2 c i stack out)
  then show ?case by (auto intro!: orderly_bind orderly_ok orderly_push orderly_ret)
qed auto

lemma returns_live_mono: "returns_live m P \<Longrightarrow> (\<And>x. P x \<Longrightarrow> Q x) \<Longrightarrow> returns_live m Q"
  by (auto simp: returns_live_def)

lemma succeeds: "orderly m \<Longrightarrow> returns_live (q_ok m) (\<lambda>r. r \<noteq> None)"
  by (fastforce simp: returns_live_def q_ok_def orderly_def split: prod.splits sum.splits)

text \<open>What a finished walk from a stack adds to the identifiers found before.\<close>

definition walked :: "catalog \<Rightarrow> string list \<Rightarrow> string list \<Rightarrow> string list \<Rightarrow> bool" where
  "walked c out stack found \<longleftrightarrow>
     set out \<union> set stack \<subseteq> set found \<and>
     (\<forall>i \<in> set found - set out. (\<exists>j \<in> set stack. (child_edge c)\<^sup>*\<^sup>* j i) \<and> set (folder_children c i) \<subseteq> set found)"

lemma walked_skip: "i \<in> set out \<Longrightarrow> walked c out stack found \<Longrightarrow> walked c out (i # stack) found"
  by (auto simp: walked_def)

lemma walked_step:
  assumes "walked c (out @ [i]) (rev (folder_children c i) @ stack) found"
  shows "walked c out (i # stack) found"
proof -
  have sub: "set out \<subseteq> set found" "i \<in> set found" "set (folder_children c i) \<subseteq> set found" "set stack \<subseteq> set found"
    using assms by (auto simp: walked_def)
  have "(\<exists>j \<in> set (i # stack). (child_edge c)\<^sup>*\<^sup>* j k) \<and> set (folder_children c k) \<subseteq> set found"
    if k: "k \<in> set found - set out" for k
  proof (cases "k = i")
    case True
    then show ?thesis using sub by auto
  next
    case False
    then have "k \<in> set found - set (out @ [i])" using k by auto
    then have "(\<exists>j \<in> set (rev (folder_children c i) @ stack). (child_edge c)\<^sup>*\<^sup>* j k) \<and> set (folder_children c k) \<subseteq> set found"
      using assms unfolding walked_def by blast
    then obtain j where j: "j \<in> set (folder_children c i) \<union> set stack" "(child_edge c)\<^sup>*\<^sup>* j k"
      and "set (folder_children c k) \<subseteq> set found"
      by auto
    moreover have "(child_edge c)\<^sup>*\<^sup>* i k" if "j \<in> set (folder_children c i)"
      using that j(2) by (auto simp: child_edge_def intro: converse_rtranclp_into_rtranclp)
    ultimately show ?thesis by auto
  qed
  then show ?thesis using sub by (auto simp: walked_def)
qed

lemma scope_walk_returns: "returns_live (scope_walk c stack out) (walked c out stack)"
proof (induction c stack out rule: scope_walk.induct)
  case (1 c out)
  show ?case by (simp add: returns_live_ret walked_def)
next
  case (2 c i stack out)
  show ?case unfolding scope_walk.simps
  proof (rule returns_live_bind [OF succeeds])
    fix r :: "unit option" assume r: "r \<noteq> None"
    show "returns_live
        (if r = None then q_ret out
         else if i \<in> set out then scope_walk c stack out
         else q_bind (q_ok (push_children 0 (length out + 1) (length stack) (folder_children c i))) (\<lambda>ok.
           if ok = None then q_ret (out @ [i]) else scope_walk c (rev (folder_children c i) @ stack) (out @ [i])))
        (walked c out (i # stack))"
    proof (cases "i \<in> set out")
      case True
      then show ?thesis
        using returns_live_mono [OF 2(1) [OF r True] walked_skip [OF True]] r by simp
    next
      case False
      have "returns_live (q_bind (q_ok (push_children 0 (length out + 1) (length stack) (folder_children c i))) (\<lambda>ok.
           if ok = None then q_ret (out @ [i]) else scope_walk c (rev (folder_children c i) @ stack) (out @ [i])))
        (walked c out (i # stack))"
      proof (rule returns_live_bind [OF succeeds])
        fix ok :: "unit option" assume ok: "ok \<noteq> None"
        then show "returns_live (if ok = None then q_ret (out @ [i]) else scope_walk c (rev (folder_children c i) @ stack) (out @ [i]))
            (walked c out (i # stack))"
          using returns_live_mono [OF 2(2) [OF r False ok] walked_step] by simp
      qed (auto intro: orderly_scope_walk orderly_push)
      then show ?thesis using False r by simp
    qed
  qed (auto intro!: orderly_scope_walk orderly_push orderly_ret orderly_ok)
qed

text \<open>The scope of a container holds exactly the container and everything below it.\<close>

lemma walked_reachable:
  assumes "walked c [] [root] found" shows "set found = {i. (child_edge c)\<^sup>*\<^sup>* root i}"
proof
  show "set found \<subseteq> {i. (child_edge c)\<^sup>*\<^sup>* root i}" using assms by (auto simp: walked_def)
  have "i \<in> set found" if "(child_edge c)\<^sup>*\<^sup>* root i" for i
    using that assms by (induction rule: rtranclp_induct) (auto simp: walked_def child_edge_def)
  then show "{i. (child_edge c)\<^sup>*\<^sup>* root i} \<subseteq> set found" by blast
qed

definition in_scope :: "catalog \<Rightarrow> string \<Rightarrow> string \<Rightarrow> bool" where
  "in_scope c root i \<longleftrightarrow>
     root = [] \<or> root = ROOT_ID \<or> (find_container c root \<noteq> None \<and> (child_edge c)\<^sup>*\<^sup>* root i)"

lemma search_scope_returns:
  "returns_live (search_scope_of c root) (\<lambda>s. \<forall>i. scope_contains s i \<longleftrightarrow> in_scope c root i)"
proof -
  have walk: "returns_live (q_bind (scope_walk c [root] []) (\<lambda>out. q_ret (ScopeIds out)))
      (\<lambda>s. \<forall>i. scope_contains s i \<longleftrightarrow> (child_edge c)\<^sup>*\<^sup>* root i)"
  proof (rule returns_live_bind [OF scope_walk_returns])
    fix out assume "walked c [] [root] out"
    then show "returns_live (q_ret (ScopeIds out)) (\<lambda>s. \<forall>i. scope_contains s i \<longleftrightarrow> (child_edge c)\<^sup>*\<^sup>* root i)"
      by (intro returns_live_ret) (simp add: walked_reachable)
  qed auto
  show ?thesis
    using walk by (auto simp: search_scope_of_def in_scope_def intro: returns_live_ret split: option.split)
qed

subsection \<open>Hits\<close>

definition container_hit :: "(string \<Rightarrow> string) \<Rightarrow> catalog \<Rightarrow> string \<Rightarrow> search_clause list list \<Rightarrow> folder \<Rightarrow> bool" where
  "container_hit lc c root q f \<longleftrightarrow>
     ct_object_id f \<noteq> ROOT_ID \<and> in_scope c root (ct_object_id f) \<and> row_matches lc q (container_search_row f)"

definition item_hit :: "(string \<Rightarrow> string) \<Rightarrow> catalog \<Rightarrow> string \<Rightarrow> search_clause list list \<Rightarrow> media_item \<Rightarrow> bool" where
  "item_hit lc c root q it \<longleftrightarrow>
     (in_scope c root (it_object_id it) \<or> in_scope c root (it_parent_id it) \<or>
        (\<exists>r. it_ref_id it = Some r \<and> in_scope c root r)) \<and>
     row_matches lc q (item_search_row it)"

text \<open>The rows a search denotes, in the order of the catalogue's tables.\<close>

definition matching_rows :: "(string \<Rightarrow> string) \<Rightarrow> catalog \<Rightarrow> string \<Rightarrow> search_clause list list \<Rightarrow> catalog_child list" where
  "matching_rows lc c root q =
     map ContainerChild (filter (container_hit lc c root q) (map snd (cat_containers c))) @
     map ItemChild (filter (item_hit lc c root q) (map snd (cat_items c)))"

lemma container_hits_returns:
  assumes "\<And>i. scope_contains scope i \<longleftrightarrow> in_scope c root i"
  shows "returns (container_hits lc q scope visited hits fs)
    (\<lambda>out. out = hits @ map ContainerChild (filter (container_hit lc c root q) fs))"
proof (induction fs arbitrary: visited hits)
  case Nil
  then show ?case by auto
next
  case (Cons f fs)
  show ?case using Cons.IH [of "Suc visited" hits] Cons.IH [of "Suc visited" "hits @ [ContainerChild f]"] assms
    by (auto intro!: returns_bind_any simp: container_hit_def)
qed

lemma item_hits_returns:
  assumes "\<And>i. scope_contains scope i \<longleftrightarrow> in_scope c root i"
  shows "returns (item_hits lc q scope containers visited hits its)
    (\<lambda>out. out = hits @ map ItemChild (filter (item_hit lc c root q) its))"
proof (induction its arbitrary: visited hits)
  case Nil
  then show ?case by auto
next
  case (Cons it its)
  have "item_in_scope it scope \<and> row_matches lc q (item_search_row it) \<longleftrightarrow> item_hit lc c root q it"
    using assms by (auto simp: item_in_scope_def item_hit_def split: option.split)
  then show ?case using Cons.IH [of "Suc visited" hits] Cons.IH [of "Suc visited" "hits @ [ItemChild it]"]
    by (auto intro!: returns_bind_any)
qed

lemma orderly_container_hits: "orderly (container_hits lc q scope visited hits fs)"
  by (induction fs arbitrary: visited hits) auto

lemma orderly_item_hits: "orderly (item_hits lc q scope containers visited hits its)"
  by (induction its arbitrary: visited hits) auto

lemma orderly_search_scope: "orderly (search_scope_of c root)"
  by (auto simp: search_scope_of_def intro: orderly_scope_walk simp del: scope_walk.simps split: option.split)

text \<open>A sort ends with a check, so its result means that the control is still running.\<close>

lemma check_running: "q_check s = (Inr u, s') \<Longrightarrow> qc_stopped s' = None"
  by (auto simp: q_check_def q_stop_def look_def Let_def split: option.splits if_splits)

lemma sort_running:
  assumes "controlled_sort_by bytes cmp xs s = (Inr ys, s')"
  shows "qc_stopped s' = None"
  using assms unfolding controlled_sort_by_def
  by (auto simp: q_bind_def q_ret_def dest!: check_running split: prod.splits sum.splits)

lemma search_hits_returns:
  "returns (search_hits lc c root q specs d) (\<lambda>hits. hits = stable_sort (rows_order specs d) (matching_rows lc c root q))"
proof -
  have live: "returns_live (search_hits lc c root q specs d)
      (\<lambda>hits. hits = stable_sort (rows_order specs d) (matching_rows lc c root q))"
    unfolding search_hits_def
  proof (rule returns_live_bind [where P = "\<lambda>_. True"], simp add: returns_live_def, rule returns_live_bind [OF search_scope_returns])
    fix scope assume scope: "\<forall>i. scope_contains scope i \<longleftrightarrow> in_scope c root i"
    show "returns_live (q_bind (container_hits lc q scope 0 [] (map snd (cat_containers c))) (\<lambda>hits.
        q_bind (item_hits lc q scope (length (cat_containers c)) 0 hits (map snd (cat_items c))) (\<lambda>hits.
        controlled_sort_by REF_BYTES (cmp_children specs d) hits)))
      (\<lambda>hits. hits = stable_sort (rows_order specs d) (matching_rows lc c root q))"
      by (rule returns_live, rule returns_bind [OF container_hits_returns [where root = root and c = c]], use scope in blast,
          rule returns_bind [OF item_hits_returns [where root = root and c = c]], use scope in blast)
        (simp add: matching_rows_def rows_sorted_returns)
  qed (auto intro!: orderly_bind orderly_container_hits orderly_item_hits orderly_sort orderly_search_scope)
  have "qc_stopped s' = None" if run: "search_hits lc c root q specs d s = (Inr hits, s')" for s hits s'
    using run unfolding search_hits_def
    by (auto simp: q_bind_def split: prod.splits sum.splits dest: sort_running)
  then show ?thesis using live by (auto simp: returns_def returns_live_def)
qed

subsection \<open>Pages of a search\<close>

lemma q_bind_Inr: "m s = (Inr x, t) \<Longrightarrow> q_bind m f s = f x t"
  by (simp add: q_bind_def)

lemma q_ok_Inr: "m s = (Inr x, t) \<Longrightarrow> q_ok m s = (Inr (Some x), t)"
  by (simp add: q_ok_def)

text \<open>Rendering may stop early, and then only at the end of what was rendered.\<close>

lemma render_rows_prefix:
  "\<exists>k s'. render_rows (\<lambda>ch. q_ret (f ch)) chs s = (Inr (map f (take k chs)), s') \<and>
     (qc_stopped s' = None \<longrightarrow> length chs \<le> k)"
proof (induction chs arbitrary: s)
  case Nil
  show ?case by (simp add: q_ret_def)
next
  case (Cons ch chs)
  obtain r t where check: "q_check s = (r, t)" by force
  show ?case
  proof (cases r)
    case (Inl e)
    then have "qc_stopped t = Some e" using error_stopped [OF orderly_check] check by blast
    then show ?thesis
      using Inl check by (intro exI [where x = 0]) (simp add: q_bind_def q_ok_def q_ret_def)
  next
    case (Inr u)
    let ?r = "\<lambda>ch. q_ret (f ch)"
    from Cons.IH [of t] obtain k s' where rest: "render_rows ?r chs t = (Inr (map f (take k chs)), s')"
        "qc_stopped s' = None \<longrightarrow> length chs \<le> k"
      by (elim exE conjE) (rule that)
    have "render_rows ?r (ch # chs) s = q_bind (?r ch) (\<lambda>d. q_bind (render_rows ?r chs) (\<lambda>ds. q_ret (d # ds))) t"
      using check unfolding Inr by (simp add: q_bind_Inr [OF q_ok_Inr])
    also have "\<dots> = q_bind (render_rows ?r chs) (\<lambda>ds. q_ret (f ch # ds)) t"
      by (rule q_bind_Inr) (simp add: q_ret_def)
    also have "\<dots> = q_ret (f ch # map f (take k chs)) s'"
      by (rule q_bind_Inr) (fact rest(1))
    finally have "render_rows ?r (ch # chs) s = (Inr (map f (take (Suc k) (ch # chs))), s')"
      by (simp only: q_ret_def take_Suc_Cons list.map)
    then show ?thesis using rest(2) by (intro exI [where x = "Suc k"] exI [where x = s'] conjI) auto
  qed
qed

lemma orderly_hits: "orderly (search_hits lc c root q specs d)"
  unfolding search_hits_def
  by (auto intro!: orderly_bind orderly_container_hits orderly_item_hits orderly_sort orderly_search_scope)

text \<open>
  C31: A search in memory answers with exactly the rows it denotes: unless the control stopped it, the
  page is the requested slice of the stable sort of the rows that lie under the container and match the
  criteria, and the total is their number. A stopped search answers nothing, or the beginning of the page
  if it was stopped while the page was rendered.
\<close>
theorem search_page_exact:
  fixes lc :: "string \<Rightarrow> string" and render :: "catalog_child \<Rightarrow> 'd"
  defines "rows \<equiv> \<lambda>c root q specs d. stable_sort (rows_order specs d) (matching_rows lc c root q)"
  shows "\<exists>page total s'. search_memory_page lc (\<lambda>ch. q_ret (render ch)) c root q specs d start n s = (Inr (page, total), s') \<and>
    (\<exists>k. page = map render (take k (take n (drop start (rows c root q specs d))))) \<and>
    (qc_stopped s' = None \<longrightarrow>
       page = map render (take n (drop start (rows c root q specs d))) \<and>
       total = min (length (matching_rows lc c root q)) 4294967295)"
proof -
  obtain r t where hits: "search_hits lc c root q specs d s = (r, t)" by force
  show ?thesis
  proof (cases r)
    case (Inl e)
    then have stopped: "qc_stopped t = Some e" using error_stopped [OF orderly_hits] hits by blast
    have "search_memory_page lc (\<lambda>ch. q_ret (render ch)) c root q specs d start n s = (Inr ([], 0), t)"
      using Inl hits by (simp add: search_memory_page_def q_bind_def q_ok_def q_ret_def)
    moreover have "[] = map render (take 0 (take n (drop start (rows c root q specs d))))" by simp
    ultimately show ?thesis using stopped by (metis option.distinct(1))
  next
    case (Inr out)
    then have out: "out = rows c root q specs d"
      using search_hits_returns [of lc c root q specs d] hits by (auto simp: returns_def rows_def)
    from render_rows_prefix [of render "take n (drop start out)" t]
    obtain k s' where render: "render_rows (\<lambda>ch. q_ret (render ch)) (take n (drop start out)) t =
        (Inr (map render (take k (take n (drop start out)))), s')"
        and full: "qc_stopped s' = None \<longrightarrow> length (take n (drop start out)) \<le> k"
      by (elim exE conjE) (rule that)
    have whole: "take k (take n (drop start out)) = take n (drop start out)" if "qc_stopped s' = None"
      using full that by (intro take_all) blast
    have len: "length out = length (matching_rows lc c root q)" by (simp add: out rows_def)
    have "search_memory_page lc (\<lambda>ch. q_ret (render ch)) c root q specs d start n s =
        (Inr (map render (take k (take n (drop start out))), catalog_count (length out)), s')"
      using Inr hits render by (simp add: search_memory_page_def q_bind_def q_ok_def q_ret_def)
    then show ?thesis using whole unfolding out [symmetric]
      by (auto simp: catalog_count_def u32_max_def len simp del: take_take)
  qed
qed

text \<open>The order in which a hash map gives its rows leaves no trace in a page.\<close>

lemma same_rows:
  assumes "mset (cat_containers c) = mset (cat_containers c')" "mset (cat_items c) = mset (cat_items c')"
    "distinct (map fst (cat_containers c))"
  shows "mset (matching_rows lc c root q) = mset (matching_rows lc c' root q)"
proof -
  have "distinct (map fst (cat_containers c'))"
    using assms(1,3) by (metis mset_map mset_eq_imp_distinct_iff)
  then have find: "find_container c = find_container c'"
    using assms(1,3) map_of_inject_set mset_eq_setD by blast
  have "child_edge c = child_edge c'" by (simp add: fun_eq_iff child_edge_def folder_children_def find)
  then have scope: "in_scope c = in_scope c'" by (intro ext) (simp only: in_scope_def find)
  have hit: "container_hit lc c root q = container_hit lc c' root q" "item_hit lc c root q = item_hit lc c' root q"
    by (simp_all add: fun_eq_iff container_hit_def item_hit_def scope)
  have "mset (filter P (map snd (cat_containers c))) = mset (filter P (map snd (cat_containers c')))"
    "mset (filter Q (map snd (cat_items c))) = mset (filter Q (map snd (cat_items c')))" for P Q
    by (simp_all only: mset_filter mset_map assms(1,2))
  then show ?thesis by (simp only: matching_rows_def hit mset_append mset_map)
qed

lemma matching_distinct:
  assumes "catalog_ok c" "fst ` set (cat_containers c) \<inter> fst ` set (cat_items c) = {}"
  shows "distinct (map child_object_id (matching_rows lc c root q))"
proof -
  have ok: "distinct (map fst (cat_containers c))" "distinct (map fst (cat_items c))"
    "\<And>i f. map_of (cat_containers c) i = Some f \<Longrightarrow> ct_object_id f = i"
    "\<And>i it. map_of (cat_items c) i = Some it \<Longrightarrow> it_object_id it = i"
    using assms(1) by (auto simp: catalog_ok_def tree_ok_def)
  have ids: "map ct_object_id (map snd (cat_containers c)) = map fst (cat_containers c)"
    "map it_object_id (map snd (cat_items c)) = map fst (cat_items c)"
    using ok by (auto simp: map_of_eq_Some_iff)
  have sub: "set (map ct_object_id (filter P (map snd (cat_containers c)))) \<subseteq> fst ` set (cat_containers c)"
    "set (map it_object_id (filter Q (map snd (cat_items c)))) \<subseteq> fst ` set (cat_items c)" for P Q
    using arg_cong [OF ids(1), of set] arg_cong [OF ids(2), of set] by auto
  have "distinct (map ct_object_id (filter P (map snd (cat_containers c))))"
    "distinct (map it_object_id (filter Q (map snd (cat_items c))))" for P Q
    using ok(1,2) ids by (metis distinct_map_filter)+
  moreover have "set (map ct_object_id (filter P (map snd (cat_containers c)))) \<inter>
      set (map it_object_id (filter Q (map snd (cat_items c)))) = {}" for P Q
    using sub(1) [of P] sub(2) [of Q] assms(2) by blast
  moreover have "map child_object_id (matching_rows lc c root q) =
      map ct_object_id (filter (container_hit lc c root q) (map snd (cat_containers c))) @
      map it_object_id (filter (item_hit lc c root q) (map snd (cat_items c)))"
    by (simp add: matching_rows_def comp_def)
  ultimately show ?thesis by (simp only: distinct_append)
qed

text \<open>Two folders, in either order.\<close>

definition sample_folder :: "string \<Rightarrow> string \<Rightarrow> folder" where
  "sample_folder i title =
     \<lparr>ct_object_id = i, ct_parent_id = ''64'', ct_title = title, ct_class = ''object.container'', ct_children = [],
      ct_searchable = True\<rparr>"

definition sample_catalog :: "(string \<times> folder) list \<Rightarrow> catalog" where
  "sample_catalog cs = empty_catalog\<lparr>cat_containers := cs\<rparr>"

lemmas run_search = empty_catalog_def search_hits_def search_scope_of_def sample_catalog_def sample_folder_def q_bind_def q_ok_def q_ret_def
  q_check_def check_work_items_def check_work_bytes_def check_every_256_def look_def quiet_control_def
  query_control_new_def controlled_sort_by_def ROOT_ID_def REF_BYTES_def MAX_QUERY_WORK_ITEMS_def
  MAX_QUERY_WORK_BYTES_def saturating_add_def saturating_mul_def u64_max_def usize_max_def row_matches_def

definition two_folders :: "(string \<times> folder) list" where
  "two_folders = [(''a'', sample_folder ''a'' ''B''), (''b'', sample_folder ''b'' ''A'')]"

lemma sample_order:
  "cmp_children [] FoldersFirstOrder (ContainerChild (sample_folder ''a'' ''B'')) (ContainerChild (sample_folder ''b'' ''A'')) = Greater"
  "cmp_children [] FoldersFirstOrder (ContainerChild (sample_folder ''b'' ''A'')) (ContainerChild (sample_folder ''a'' ''B'')) = Less"
  by code_simp+

lemma sample_run:
  "search_hits (\<lambda>s. s) (sample_catalog two_folders) ''0'' [[AllClause]] [] FoldersFirstOrder quiet_control =
     (Inr [ContainerChild (sample_folder ''b'' ''A''), ContainerChild (sample_folder ''a'' ''B'')], quiet_control)"
  "search_hits (\<lambda>s. s) (sample_catalog (rev two_folders)) ''0'' [[AllClause]] [] FoldersFirstOrder quiet_control =
     (Inr [ContainerChild (sample_folder ''b'' ''A''), ContainerChild (sample_folder ''a'' ''B'')], quiet_control)"
  using sample_order
  by (simp_all add: two_folders_def run_search sort_passes.simps merge_run.simps step_by_def)

text \<open>
  A page does not depend on how the catalogue's hash maps are laid out: two catalogues with the same
  rows in a different order have the same sorted list of search results, because the order of rows is
  total and ends with the object id.
\<close>
theorem search_layout_free:
  assumes "catalog_ok c" "fst ` set (cat_containers c) \<inter> fst ` set (cat_items c) = {}"
    "mset (cat_containers c) = mset (cat_containers c')" "mset (cat_items c) = mset (cat_items c')"
    "search_hits lc c root q specs d s = (Inr hits, t)" "search_hits lc c' root q specs d s' = (Inr hits', t')"
  shows "hits = hits'"
proof -
  have "distinct (map fst (cat_containers c))" using assms(1) by (simp add: catalog_ok_def tree_ok_def)
  from sort_order_free [OF same_rows [OF assms(3,4) this] matching_distinct [OF assms(1,2)]]
  show ?thesis
    using returnsD [OF search_hits_returns assms(5)] returnsD [OF search_hits_returns assms(6)] by simp
qed

lemma quiet_check: "q_check quiet_control = (Inr (), quiet_control)"
  by (simp add: q_check_def look_def quiet_control_def query_control_new_def)

lemma search_page_exact_witness:
  "[''B''] = map child_title (take 5 (drop 1 (stable_sort (rows_order [] FoldersFirstOrder)
     (matching_rows (\<lambda>s. s) (sample_catalog two_folders) ''0'' [[AllClause]]))))"
proof -
  have run: "search_memory_page (\<lambda>s. s) (\<lambda>ch. q_ret (child_title ch)) (sample_catalog two_folders) ''0'' [[AllClause]] []
     FoldersFirstOrder 1 5 quiet_control = (Inr ([''B''], 2), quiet_control)"
    by (simp add: search_memory_page_def q_bind_def q_ok_def q_ret_def sample_run quiet_check
        sample_folder_def catalog_count_def u32_max_def)
  have "qc_stopped quiet_control = None" by (simp add: quiet_control_def query_control_new_def)
  then show ?thesis
    using search_page_exact [where lc = "\<lambda>s. s" and render = child_title and c = "sample_catalog two_folders" and root = "''0''"
        and q = "[[AllClause]]" and specs = "[]" and d = FoldersFirstOrder and start = 1 and n = 5 and s = quiet_control]
    unfolding run by (auto simp del: take_take)
qed

lemma search_layout_free_witness:
  "[ContainerChild (sample_folder ''b'' ''A''), ContainerChild (sample_folder ''a'' ''B'')] =
     [ContainerChild (sample_folder ''b'' ''A''), ContainerChild (sample_folder ''a'' ''B'')]"
proof (rule search_layout_free [OF _ _ _ _ sample_run])
  show "catalog_ok (sample_catalog two_folders)"
    by (auto simp: catalog_ok_def tree_ok_def recent_ok_def sample_catalog_def empty_catalog_def two_folders_def
        sample_folder_def catalog_count_def usize_max_def u64_max_def recent_cache_limit_def RECENT_MAX_def split: if_splits)
qed (simp_all add: sample_catalog_def empty_catalog_def two_folders_def)

end
