(* ===== verification/Query_Pages.thy ===== *)
theory Query_Pages
  imports Query_Results
begin

text \<open>
  Pages of children computed in memory: the checked views of the catalogue return what the unchecked ones
  do, and the page of a Browse is a slice of one sorted list of the children that exist.
\<close>

lemma returns_mono: "returns m P \<Longrightarrow> (\<And>x. P x \<Longrightarrow> Q x) \<Longrightarrow> returns m Q"
  by (auto simp: returns_def)

lemma cached_items_unstopped:
  "returns (q_cached_items c v is) (\<lambda>y. cached_items (\<lambda>_. True) c v is = Some y)"
proof (induction "is" arbitrary: v)
  case (Cons i "is")
  show ?case
    by (auto simp: Let_def intro!: returns_bind_any returns_bind [OF Cons.IH])
qed auto

lemma rank_items_unstopped:
  "returns (q_rank_items symlink cutoff cls limit v its st)
     (\<lambda>y. rank_items symlink cutoff cls limit (\<lambda>_. True) v its st = Some y)"
proof (induction its arbitrary: v st)
  case (Cons it its)
  show ?case unfolding q_rank_items.simps Let_def
    by (rule returns_bind_any) (simp add: Let_def Cons.IH)
qed auto

lemma emit_recent_unstopped:
  "returns (q_emit_recent root v its) (\<lambda>y. emit_recent (\<lambda>_. True) root v its = Some y)"
proof (induction its arbitrary: v)
  case (Cons it its)
  show ?case by (auto simp: Let_def intro!: returns_bind_any returns_bind [OF Cons.IH])
qed auto

lemma recent_unstopped:
  "returns (q_recent_items symlink root c)
     (\<lambda>y. recent_items_controlled symlink (\<lambda>_. True) root c = Some y)"
proof -
  let ?sel = "if root = VIDEO_RECENT_ID \<and> cat_recent_ids c \<noteq> [] then cached_items (\<lambda>_. True) c 0 (cat_recent_ids c)
      else map_option (\<lambda>(v, ranked). (v, map snd ranked))
        (rank_items symlink (cat_recent_cutoff_unix c) (recent_class root) (cat_recent_limit c) (\<lambda>_. True) 0
           (map snd (cat_items c)) ([], Map.empty))"
  have sel: "returns (if root = VIDEO_RECENT_ID \<and> cat_recent_ids c \<noteq> [] then q_cached_items c 0 (cat_recent_ids c)
      else q_bind (q_rank_items symlink (cat_recent_cutoff_unix c) (recent_class root) (cat_recent_limit c) 0
             (map snd (cat_items c)) ([], Map.empty)) (\<lambda>(v, ranked). q_ret (v, map snd ranked)))
    (\<lambda>y. ?sel = Some y)"
    by (auto simp: cached_items_unstopped intro!: returns_bind [OF rank_items_unstopped])
  show ?thesis unfolding q_recent_items_def recent_items_controlled_def
    by (rule returns_bind_any, rule returns_bind [OF sel])
       (auto intro!: returns_mono [OF emit_recent_unstopped])
qed

lemma count_checked_unstopped:
  "returns (q_count_checked elig limit index seen its)
     (\<lambda>y. count_checked (\<lambda>_. True) elig limit index seen its = Some y)"
  by (induction its arbitrary: index seen) (auto simp: Let_def intro!: returns_bind_any)

lemma count_containers_unstopped:
  "returns (q_count_containers c index n chs) (\<lambda>y. count_containers (\<lambda>_. True) c index n chs = Some y)"
  by (induction chs arbitrary: index n) (auto intro!: returns_bind_any)

text \<open>The counts of a container are the displayed ones, whenever they are known.\<close>

lemma counts_unstopped:
  "returns (q_displayed_child_count i c) (\<lambda>n. n = displayed_child_count i c)"
  "returns (q_displayed_container_count i c) (\<lambda>n. n = displayed_container_count i c)"
proof -
  have "returns (q_displayed_child_count i c) (\<lambda>n. displayed_child_count_controlled (\<lambda>_. True) i c = Some n)"
    unfolding q_displayed_child_count_def displayed_child_count_controlled_def
    by (rule returns_bind_any) (auto intro!: returns_bind [OF count_checked_unstopped])
  then show "returns (q_displayed_child_count i c) (\<lambda>n. n = displayed_child_count i c)"
    by (rule returns_mono) (simp add: unstopped_counts)
  have "returns (q_displayed_container_count i c) (\<lambda>n. displayed_container_count_controlled (\<lambda>_. True) i c = Some n)"
    unfolding q_displayed_container_count_def displayed_container_count_controlled_def
    by (rule returns_bind_any) (auto intro!: returns_bind [OF count_containers_unstopped] split: option.split)
  then show "returns (q_displayed_container_count i c) (\<lambda>n. n = displayed_container_count i c)"
    by (rule returns_mono) (simp add: unstopped_counts)
qed

lemma collect_children_returns:
  "returns (collect_children c is refs) (\<lambda>out. out = refs @ List.map_filter (child_by_id c) is)"
proof (induction "is" arbitrary: refs)
  case (Cons i "is")
  show ?case
    using Cons.IH [of refs] Cons.IH [of "refs @ [the (child_by_id c i)]"]
    by (cases "child_by_id c i") (auto simp: List.map_filter_simps intro!: returns_bind_any)
qed (auto simp: List.map_filter_simps)

text \<open>The children a Browse sorts.\<close>

definition existing_children :: "catalog \<Rightarrow> folder \<Rightarrow> catalog_child list" where
  "existing_children c f = List.map_filter (child_by_id c) (ct_children f)"

lemma browse_page_returns:
  assumes "catalog_step\<^sup>*\<^sup>* catalog_new c"
  shows "returns (sorted_child_page symlink bytes c i start n specs d) (\<lambda>r. r =
    (if recent_root i \<noteq> None then
       (let recent = recent_items symlink i c;
            rows = (if specs = [] \<and> d = FoldersFirstOrder then recent else stable_sort (rows_order specs d) recent)
        in Some (take n (drop start rows), min (length recent) 4294967295))
     else
       map_option (\<lambda>f. let rows = stable_sort (rows_order specs d) (existing_children c f)
                       in (take n (drop start rows), min (length rows) 4294967295))
         (find_container c i)))"
proof -
  have ok: "catalog_ok c" by (rule catalogs.reachable_inv [OF refl assms])
  have recent: "returns (q_recent_items symlink i c) (\<lambda>out. out = recent_items symlink i c)"
    by (rule returns_mono [OF recent_unstopped]) (simp add: unstopped_recent [OF ok])
  have children: "returns (collect_children c (ct_children f) []) (\<lambda>out. out = existing_children c f)" for f
    by (rule returns_mono [OF collect_children_returns]) (simp add: existing_children_def)
  show ?thesis
  proof (cases "recent_root i = None")
    case False
    have resort: "returns (if specs \<noteq> [] \<or> d \<noteq> FoldersFirstOrder then controlled_sort_by bytes (cmp_children specs d) R else q_ret R)
        (\<lambda>rows. rows = (if specs = [] \<and> d = FoldersFirstOrder then R else stable_sort (rows_order specs d) R))" for R
      by (auto intro: rows_sorted_returns)
    have "returns (q_bind (q_recent_items symlink i c) (\<lambda>recent.
         q_bind (if specs \<noteq> [] \<or> d \<noteq> FoldersFirstOrder
                 then controlled_sort_by bytes (cmp_children specs d) recent else q_ret recent) (\<lambda>rows.
         q_ret (Some (take n (drop start rows), catalog_count (length recent))))))
      (\<lambda>r. r = (let recent = recent_items symlink i c;
            rows = (if specs = [] \<and> d = FoldersFirstOrder then recent else stable_sort (rows_order specs d) recent)
        in Some (take n (drop start rows), min (length recent) 4294967295)))"
      by (rule returns_bind [OF recent], rule returns_bind [OF resort], rule returns_ret)
        (simp only: catalog_count_def u32_max_def Let_def)
    then show ?thesis using False unfolding sorted_child_page_def by (simp add: returns_bind_any)
  next
    case True
    then show ?thesis unfolding sorted_child_page_def
      by (cases "find_container c i")
        (auto simp: catalog_count_def u32_max_def Let_def
          intro!: returns_bind_any returns_bind [OF children] returns_bind [OF rows_sorted_returns])
  qed
qed

lemma new_root:
  obtains f where "find_container catalog_new ''64'' = Some f" "ct_children f = []" "recent_root ''64'' = None"
proof -
  have "map_option ct_children (find_container catalog_new ''64'') = Some []" by code_simp
  moreover have "recent_root ''64'' = None" by code_simp
  ultimately show ?thesis using that by auto
qed

lemma new_root_page:
  "sorted_child_page (\<lambda>_. False) 8 catalog_new ''64'' 0 n [] FoldersFirstOrder quiet_control =
    (Inr (Some ([], 0)), quiet_control)"
proof -
  obtain f where "find_container catalog_new ''64'' = Some f" "ct_children f = []" "recent_root ''64'' = None"
    by (rule new_root)
  then show ?thesis
    using quiet_check
    by (simp add: sorted_child_page_def q_bind_def q_ret_def check_work_items_def check_work_bytes_def
        controlled_sort_by_def sort_passes.simps saturating_mul_def catalog_count_def)
qed

text \<open>
  C32: The page a Browse computes in memory is the requested slice of one list: for a Recently Added
  container the view obtained by sorting all items, re-sorted only when the request or the renderer asks
  for another order, and for every other container the stable sort of the children that exist; the total
  is the length of that list, and only an unknown container has no page.
\<close>
theorem browse_page_exact:
  assumes "catalog_step\<^sup>*\<^sup>* catalog_new c"
    "sorted_child_page symlink bytes c i start n specs d s = (Inr r, s')"
  shows "r =
    (if recent_root i \<noteq> None then
       (let recent = recent_items symlink i c;
            rows = (if specs = [] \<and> d = FoldersFirstOrder then recent else stable_sort (rows_order specs d) recent)
        in Some (take n (drop start rows), min (length recent) 4294967295))
     else
       map_option (\<lambda>f. let rows = stable_sort (rows_order specs d) (existing_children c f)
                       in (take n (drop start rows), min (length rows) 4294967295))
         (find_container c i))"
  by (rule returnsD [OF browse_page_returns [OF assms(1)] assms(2)])

lemma browse_page_exact_witness:
  "Some ([], 0) = map_option (\<lambda>f. let rows = stable_sort (rows_order [] FoldersFirstOrder) (existing_children catalog_new f)
      in (take 5 (drop 0 rows), min (length rows) 4294967295)) (find_container catalog_new ''64'')"
proof -
  have other: "recent_root ''64'' = None" by code_simp
  from browse_page_exact [OF rtranclp.rtrancl_refl new_root_page, of 5]
  show ?thesis by (simp only: other if_False simp_thms)
qed

end
