(* ===== verification/Page_Cache.thy ===== *)
theory Page_Cache
  imports Query_Memory Contracts
begin

text \<open>
  The cache of database pages (\<open>crates/server/src/lib.rs\<close>, \<open>http_app.rs\<close>): a queue of entries in
  the order of their last use, each of one catalogue generation, and the key of a Browse page. What is
  proved: at most 256 entries, all of one generation and with different keys; a page is only ever
  returned for the generation and the key it was stored under; and different requests have different
  keys.
\<close>

definition CATALOG_QUERY_CACHE_ENTRIES :: nat where "CATALOG_QUERY_CACHE_ENTRIES = 256"
definition CATALOG_QUERY_CACHE_KEY_BYTES :: nat where "CATALOG_QUERY_CACHE_KEY_BYTES = 8 * 1024"

record page_entry =
  pe_generation :: "32 word"
  pe_key :: string
  pe_page :: query_page

type_synonym page_cache = "page_entry list"

definition pc_clear :: "page_cache \<Rightarrow> page_cache" where
  "pc_clear es = []"

text \<open>A hit moves its entry, the first with the key, to the back.\<close>

definition pc_get :: "32 word \<Rightarrow> string \<Rightarrow> page_cache \<Rightarrow> query_page option \<times> page_cache" where
  "pc_get g ky es =
     (let es = filter (\<lambda>e. pe_generation e = g) es
      in case List.find (\<lambda>e. pe_key e = ky) es of
           None \<Rightarrow> (None, es)
         | Some e \<Rightarrow> (Some (pe_page e), remove1 e es @ [e]))"

definition pc_insert :: "32 word \<Rightarrow> string \<Rightarrow> query_page \<Rightarrow> page_cache \<Rightarrow> page_cache" where
  "pc_insert g ky page es =
     (if length ky > CATALOG_QUERY_CACHE_KEY_BYTES then es
      else
        let es = filter (\<lambda>e. pe_generation e = g \<and> pe_key e \<noteq> ky) es @
                   [\<lparr>pe_generation = g, pe_key = ky, pe_page = page\<rparr>]
        in drop (length es - CATALOG_QUERY_CACHE_ENTRIES) es)"

subsection \<open>The key of a Browse page\<close>

fun sort_key_debug :: "sort_key \<Rightarrow> string" where
  "sort_key_debug SortTitle = ''Title''"
| "sort_key_debug SortDate = ''Date''"
| "sort_key_debug SortClass = ''Class''"
| "sort_key_debug SortAlbum = ''Album''"
| "sort_key_debug SortEpisodeNumber = ''EpisodeNumber''"
| "sort_key_debug SortTrack = ''Track''"

definition sort_spec_debug :: "sort_spec \<Rightarrow> string" where
  "sort_spec_debug s =
     ''SortSpec { key: '' @ sort_key_debug (ss_key s) @ '', descending: '' @
     (if ss_descending s then ''true'' else ''false'') @ '' }''"

definition sort_debug :: "sort_spec list option \<Rightarrow> string" where
  "sort_debug crit =
     (case crit of
        None \<Rightarrow> ''None''
      | Some specs \<Rightarrow> ''Some(['' @ join '', '' (map sort_spec_debug specs) @ ''])'')"

fun order_debug :: "default_order \<Rightarrow> string" where
  "order_debug ForceSortOrder = ''ForceSort''"
| "order_debug LgOrder = ''Lg''"
| "order_debug FoldersFirstOrder = ''FoldersFirst''"

definition unit_sep :: char where "unit_sep = CHR 0x1F"

definition browse_cache_key :: "string \<Rightarrow> sort_spec list option \<Rightarrow> default_order \<Rightarrow> nat \<Rightarrow> nat \<Rightarrow> string" where
  "browse_cache_key oid crit order start n =
     ''browse'' @ [unit_sep] @ oid @ [unit_sep] @ sort_debug crit @ [unit_sep] @ order_debug order @ [unit_sep] @
     decimal start @ [unit_sep] @ decimal n"

subsection \<open>What is kept\<close>

lemma pc_get_None: "pc_get g ky es = (None, es') \<Longrightarrow> es' = filter (\<lambda>e. pe_generation e = g) es"
  by (auto simp: pc_get_def Let_def split: option.splits)

lemma find_SomeD: "List.find P xs = Some x \<Longrightarrow> x \<in> set xs \<and> P x"
  by (auto simp: find_Some_iff)

lemma pc_get_Some:
  assumes "pc_get g ky es = (Some p, es')"
  shows "\<exists>e. e \<in> set es \<and> pe_generation e = g \<and> pe_key e = ky \<and> pe_page e = p"
    "mset es' = mset (filter (\<lambda>e. pe_generation e = g) es)"
  using assms by (auto simp: pc_get_def Let_def split: option.splits dest!: find_SomeD)

definition pc_ok :: "page_cache \<Rightarrow> bool" where
  "pc_ok es \<longleftrightarrow>
     length es \<le> CATALOG_QUERY_CACHE_ENTRIES \<and> distinct (map pe_key es) \<and>
     (\<forall>e\<in>set es. \<forall>e'\<in>set es. pe_generation e = pe_generation e') \<and>
     (\<forall>e\<in>set es. length (pe_key e) \<le> CATALOG_QUERY_CACHE_KEY_BYTES)"

inductive pc_step :: "page_cache \<Rightarrow> page_cache \<Rightarrow> bool" where
  clear: "pc_step es (pc_clear es)"
| get: "pc_step es (snd (pc_get g ky es))"
| insert: "pc_step es (pc_insert g ky page es)"

inductive_cases pc_step_cases: "pc_step es es'"

lemma pc_ok_mset: "mset es' = mset es \<Longrightarrow> pc_ok es \<Longrightarrow> pc_ok es'"
  unfolding pc_ok_def by (metis mset_map mset_eq_imp_distinct_iff mset_eq_setD size_mset)

lemma pc_ok_filter: "pc_ok es \<Longrightarrow> pc_ok (filter P es)"
  by (auto simp: pc_ok_def distinct_map_filter intro: order_trans [OF length_filter_le])

lemma pc_ok_drop: "pc_ok es \<Longrightarrow> pc_ok (drop n es)"
  unfolding pc_ok_def by (auto simp: drop_map [symmetric] dest: in_set_dropD)

lemma pc_ok_snoc:
  assumes "pc_ok es" "\<forall>e\<in>set es. pe_generation e = pe_generation e' \<and> pe_key e \<noteq> pe_key e'"
    "length (pe_key e') \<le> CATALOG_QUERY_CACHE_KEY_BYTES"
  shows "pc_ok (drop (length (es @ [e']) - CATALOG_QUERY_CACHE_ENTRIES) (es @ [e']))"
proof -
  let ?d = "drop (length (es @ [e']) - CATALOG_QUERY_CACHE_ENTRIES) (es @ [e'])"
  have d: "set ?d \<subseteq> insert e' (set es)" by (rule order_trans [OF set_drop_subset]) auto
  have "distinct (map pe_key (es @ [e']))" using assms(1,2) by (auto simp: pc_ok_def)
  then have "distinct (map pe_key ?d)" unfolding drop_map [symmetric] by (rule distinct_drop)
  moreover have "length ?d \<le> CATALOG_QUERY_CACHE_ENTRIES" by simp
  moreover have "\<forall>e\<in>insert e' (set es). \<forall>e2\<in>insert e' (set es). pe_generation e = pe_generation e2"
    "\<forall>e\<in>insert e' (set es). length (pe_key e) \<le> CATALOG_QUERY_CACHE_KEY_BYTES"
    using assms by (auto simp: pc_ok_def)
  ultimately show ?thesis unfolding pc_ok_def using d by blast
qed

lemma pc_ok_insert: "pc_ok es \<Longrightarrow> pc_ok (pc_insert g ky page es)"
  unfolding pc_insert_def Let_def
  by (auto intro!: pc_ok_snoc pc_ok_filter simp del: length_append drop_append)

interpretation page_cache: step_invariant pc_step "\<lambda>es. es = []" pc_ok
proof unfold_locales
  show "pc_ok es" if "es = []" for es using that by (simp add: pc_ok_def)
  show "pc_ok es'" if "pc_step es es'" "pc_ok es" for es es'
    using that
  proof (induction rule: pc_step.induct)
    case (clear es)
    then show ?case by (simp add: pc_ok_def pc_clear_def)
  next
    case (get es g ky)
    obtain p out where out: "pc_get g ky es = (p, out)" by force
    then have "mset out = mset (filter (\<lambda>e. pe_generation e = g) es)"
      using pc_get_None pc_get_Some(2) by (cases p) auto
    from pc_ok_mset [OF this [unfolded mset_filter [symmetric]] pc_ok_filter [OF get]] show ?case using out by simp
  next
    case (insert es g ky page)
    then show ?case by (rule pc_ok_insert)
  qed
qed

text \<open>A statement about the stored pages holds of what comes out.\<close>

definition pages_satisfy :: "(32 word \<Rightarrow> string \<Rightarrow> query_page \<Rightarrow> bool) \<Rightarrow> page_cache \<Rightarrow> bool" where
  "pages_satisfy Q es \<longleftrightarrow> (\<forall>e\<in>set es. Q (pe_generation e) (pe_key e) (pe_page e))"

lemma pages_satisfy_insert: "pages_satisfy Q es \<Longrightarrow> Q g ky page \<Longrightarrow> pages_satisfy Q (pc_insert g ky page es)"
  by (auto simp: pages_satisfy_def pc_insert_def Let_def dest!: in_set_dropD)

lemma pages_satisfy_get:
  assumes "pc_get g ky es = (r, es')" "pages_satisfy Q es"
  shows "pages_satisfy Q es'" "r = Some page \<Longrightarrow> Q g ky page"
proof -
  have "set es' \<subseteq> set es"
    using assms(1) pc_get_None [of g ky es es'] pc_get_Some(2) [of g ky es _ es']
    by (cases r) (auto simp flip: mset_filter dest!: mset_eq_setD)
  then show "pages_satisfy Q es'" using assms(2) by (auto simp: pages_satisfy_def)
  show "Q g ky page" if "r = Some page" using pc_get_Some(1) [of g ky es page es'] assms that by (auto simp: pages_satisfy_def)
qed

lemma get_after_insert:
  assumes "length ky \<le> CATALOG_QUERY_CACHE_KEY_BYTES"
  shows "fst (pc_get g ky (pc_insert g ky page es)) = Some page"
proof -
  let ?kept = "filter (\<lambda>e. pe_generation e = g \<and> pe_key e \<noteq> ky) es"
  let ?new = "\<lparr>pe_generation = g, pe_key = ky, pe_page = page\<rparr>"
  define k where "k = length ?kept + 1 - CATALOG_QUERY_CACHE_ENTRIES"
  have ins: "pc_insert g ky page es = drop k ?kept @ [?new]"
  proof -
    have "k - length ?kept = 0" by (simp add: k_def CATALOG_QUERY_CACHE_ENTRIES_def)
    then have fits: "drop k (?kept @ [?new]) = drop k ?kept @ [?new]" by (subst drop_append) simp
    have k: "length (?kept @ [?new]) - CATALOG_QUERY_CACHE_ENTRIES = k" by (simp add: k_def)
    have "pc_insert g ky page es = drop (length (?kept @ [?new]) - CATALOG_QUERY_CACHE_ENTRIES) (?kept @ [?new])"
      unfolding pc_insert_def Let_def if_not_P [OF leD [OF assms]] by (rule refl)
    then show ?thesis unfolding k fits .
  qed
  obtain d where d: "drop k ?kept = d" by blast
  have "set d \<subseteq> set ?kept" unfolding d [symmetric] by (rule set_drop_subset)
  then have kept: "\<forall>e\<in>set d. pe_generation e = g \<and> pe_key e \<noteq> ky" by auto
  have "filter (\<lambda>e. pe_generation e = g) (d @ [?new]) = d @ [?new]" by (rule filter_True) (use kept in auto)
  moreover have "List.find (\<lambda>e. pe_key e = ky) (xs @ [?new]) = Some ?new" if "\<forall>e\<in>set xs. pe_key e \<noteq> ky" for xs
    using that by (induction xs) auto
  ultimately show ?thesis using kept unfolding ins d pc_get_def Let_def by simp
qed

subsection \<open>Keys\<close>

lemma sep_unique:
  assumes "a @ (c :: char) # b = a' @ c # b'" "c \<notin> set a" "c \<notin> set a'"
  shows "a = a' \<and> b = b'"
proof -
  have "Some (a, b) = split_once c (a @ c # b)" by (rule split_once_append [OF assms(2), symmetric])
  also have "\<dots> = split_once c (a' @ c # b')" by (simp only: assms(1))
  also have "\<dots> = Some (a', b')" by (rule split_once_append [OF assms(3)])
  finally show ?thesis by simp
qed

lemma sep_split:
  assumes "a @ [c :: char] @ b = a' @ [c] @ b'" "c \<notin> set b" "c \<notin> set b'"
  shows "a = a' \<and> b = b'"
proof -
  have "rev b @ c # rev a = rev b' @ c # rev a'" using arg_cong [OF assms(1), of rev] by simp
  moreover have "c \<notin> set (rev b)" "c \<notin> set (rev b')" using assms by simp_all
  ultimately have "rev b = rev b' \<and> rev a = rev a'" by (intro sep_unique) simp_all
  then show ?thesis by simp
qed

lemma spec_debug_shape: "\<exists>s. sort_spec_debug x = s @ ''}'' \<and> CHR ''}'' \<notin> set s"
  by (cases "ss_key x"; cases "ss_descending x")
    (rule exI [where x = "butlast (sort_spec_debug x)"], simp add: sort_spec_debug_def)+

lemma spec_debug_inj:
  assumes "sort_spec_debug x = sort_spec_debug y"
  shows "x = y"
proof -
  let ?r = "\<lambda>s. '' descending: '' @ (if ss_descending s then ''true'' else ''false'') @ '' }''"
  have free: "CHR '','' \<notin> set (sort_key_debug k)" for k by (cases k) simp_all
  have "sort_key_debug (ss_key x) @ CHR '','' # ?r x = sort_key_debug (ss_key y) @ CHR '','' # ?r y"
    using assms by (simp add: sort_spec_debug_def)
  then have "sort_key_debug (ss_key x) = sort_key_debug (ss_key y) \<and> ?r x = ?r y"
    by (intro sep_unique) (use free in simp_all)
  moreover from this have "ss_key x = ss_key y" by (cases "ss_key x"; cases "ss_key y") simp_all
  ultimately show ?thesis by (cases x; cases y) (auto split: if_splits)
qed

lemma spec_debug_split: "sort_spec_debug x @ r = sort_spec_debug y @ r' \<Longrightarrow> x = y \<and> r = r'"
proof -
  assume eq: "sort_spec_debug x @ r = sort_spec_debug y @ r'"
  obtain s s' where s: "sort_spec_debug x = s @ ''}''" "CHR ''}'' \<notin> set s" "sort_spec_debug y = s' @ ''}''" "CHR ''}'' \<notin> set s'"
    using spec_debug_shape by metis
  have "s @ CHR ''}'' # r = s' @ CHR ''}'' # r'" using eq s by simp
  then have "s = s' \<and> r = r'" by (rule sep_unique) (use s in simp_all)
  then show ?thesis using s spec_debug_inj by simp
qed

lemma specs_debug_inj:
  "join '', '' (map sort_spec_debug xs) = join '', '' (map sort_spec_debug ys) \<Longrightarrow> xs = ys"
proof (induction xs arbitrary: ys)
  case Nil
  have "sort_spec_debug y \<noteq> []" for y using spec_debug_shape [of y] by auto
  then have "[] \<noteq> join '', '' (map sort_spec_debug (y # zs))" for y zs by (cases zs) (auto dest: sym)
  with Nil show ?case by (cases ys) auto
next
  case (Cons x xs)
  have shape: "join '', '' (map sort_spec_debug (z # zs)) = sort_spec_debug z @ (if zs = [] then [] else '', '' @ join '', '' (map sort_spec_debug zs))" for z zs
    by (cases zs) simp_all
  show ?case
  proof (cases ys)
    case Nil
    then show ?thesis using Cons.prems shape [of x xs] spec_debug_shape [of x] by auto
  next
    case (Cons y zs)
    then have "x = y \<and> (if xs = [] then [] else '', '' @ join '', '' (map sort_spec_debug xs)) =
        (if zs = [] then [] else '', '' @ join '', '' (map sort_spec_debug zs))"
      using Cons.prems by (intro spec_debug_split) (simp only: shape)
    then have "x = y \<and> xs = zs" using Cons.IH [of zs] by (auto split: if_splits)
    then show ?thesis using Cons by simp
  qed
qed

lemma sort_debug_inj: "sort_debug a = sort_debug b \<Longrightarrow> a = b"
  by (auto simp: sort_debug_def dest!: specs_debug_inj split: option.splits)

lemma spec_debug_graphic: "c \<in> set (sort_spec_debug x) \<Longrightarrow> c \<noteq> unit_sep"
proof -
  have "list_all (\<lambda>c. c \<noteq> unit_sep) (sort_spec_debug x)"
    by (cases "ss_key x") (simp_all add: sort_spec_debug_def unit_sep_def)
  then show "c \<in> set (sort_spec_debug x) \<Longrightarrow> c \<noteq> unit_sep" by (auto simp: list_all_iff)
qed

lemma debug_graphic: "unit_sep \<notin> set (sort_debug a)" "unit_sep \<notin> set (order_debug d)" "unit_sep \<notin> set (decimal n)"
proof -
  have "unit_sep \<notin> set (join '', '' (map sort_spec_debug xs))" for xs
    using set_join [of "'', ''" "map sort_spec_debug xs"] spec_debug_graphic by (auto simp: unit_sep_def)
  then show "unit_sep \<notin> set (sort_debug a)" by (cases a) (simp_all add: sort_debug_def unit_sep_def)
  show "unit_sep \<notin> set (order_debug d)" by (cases d) (simp_all add: unit_sep_def)
  show "unit_sep \<notin> set (decimal n)" using set_decimal [of unit_sep n] by (auto simp: unit_sep_def is_digit_def)
qed

text \<open>
  The fields behind the object id hold no separator, so a key is read from its end and an object id with
  separators in it cannot imitate another request.
\<close>

lemma browse_cache_key_inj:
  assumes "browse_cache_key oid crit order start n = browse_cache_key oid' crit' order' start' n'"
  shows "oid = oid' \<and> crit = crit' \<and> order = order' \<and> start = start' \<and> n = n'"
proof -
  define A B C where "A = (\<lambda>oid. ''browse'' @ [unit_sep] @ oid)" and "B = (\<lambda>oid crit. A oid @ [unit_sep] @ sort_debug crit)"
    and "C = (\<lambda>oid crit order. B oid crit @ [unit_sep] @ order_debug order)"
  have ky: "browse_cache_key oid crit order start n = (C oid crit order @ [unit_sep] @ decimal start) @ [unit_sep] @ decimal n"
    for oid crit order start n by (simp add: browse_cache_key_def A_def B_def C_def)
  have 1: "C oid crit order @ [unit_sep] @ decimal start = C oid' crit' order' @ [unit_sep] @ decimal start' \<and> decimal n = decimal n'"
    by (rule sep_split [OF assms [unfolded ky]]) (rule debug_graphic)+
  then have 2: "C oid crit order = C oid' crit' order' \<and> decimal start = decimal start'"
    by (intro sep_split) (use debug_graphic in auto)
  then have 3: "B oid crit = B oid' crit' \<and> order_debug order = order_debug order'"
    unfolding C_def by (intro sep_split) (use debug_graphic in auto)
  then have 4: "A oid = A oid' \<and> sort_debug crit = sort_debug crit'"
    unfolding B_def by (intro sep_split) (use debug_graphic in auto)
  have "order = order'" using 3 by (cases order; cases order') simp_all
  then show ?thesis using 1 2 4 sort_debug_inj decimal_inj by (auto simp: A_def)
qed

end
