(* ===== verification/Soap_Service.thy ===== *)
theory Soap_Service
  imports Soap_Items Page_Cache Bookmarks Client_Cache
begin

text \<open>
  The SOAP endpoint (\<open>soap\<close> in \<open>crates/server/src/http_app.rs\<close>): from the request to the response,
  over the bookmark store, the page cache and the renderer cache.

  Between the steps of a catalogue action the rest of the server runs. What the handler reads at each of
  its steps is one field of \<open>page_world\<close>: the published update id and the page cache when it starts, the
  answers of the database with the update ids around them, how often the catalogue's lock is taken, and
  the catalogue with the update id it was published under once the lock is held. The page the handler
  adds to the cache is a part of its result.
\<close>

definition MAX_SOAP_RESPONSE_BYTES :: nat where "MAX_SOAP_RESPONSE_BYTES = 2 * 1024 * 1024"
definition MAX_SOAP_PAGE_OBJECTS :: nat where "MAX_SOAP_PAGE_OBJECTS = 4096"

subsection \<open>Outcomes as responses\<close>

definition fault_resp :: "string \<Rightarrow> bool \<Rightarrow> ('f, 'j) http_response" where
  "fault_resp xml persist = (xml_response 500 xml persist)\<lparr>hr_reason := ''Internal Server Error''\<rparr>"

definition soap_to_http :: "soap_outcome \<Rightarrow> bool \<Rightarrow> ('f, 'j) http_response" where
  "soap_to_http out persist =
     (case out of
        OkBody xml \<Rightarrow> xml_response 200 xml persist
      | Fault http code desc \<Rightarrow>
          let r = (fault_resp (soap_fault code desc) persist)\<lparr>hr_status := http\<rparr>
          in if http = 500 then r\<lparr>hr_reason := ''Internal Server Error''\<rparr> else r)"

subsection \<open>The world of a catalogue action\<close>

record page_world =
  pw_generation :: "32 word"
  pw_cache :: page_cache
  pw_attempts :: "nat \<Rightarrow> attempt"
  pw_waits :: nat
  pw_catalog :: catalog
  pw_catalog_generation :: "32 word"

type_synonym cache_insert = "(32 word \<times> string \<times> query_page) option"

definition requested_take :: "nat \<Rightarrow> nat" where
  "requested_take n = (if n = 0 then MAX_SOAP_PAGE_OBJECTS else min n MAX_SOAP_PAGE_OBJECTS)"

text \<open>A page from the cache, or else from the database.\<close>

definition find_db_page :: "page_world \<Rightarrow> string \<Rightarrow> query_snapshot option query" where
  "find_db_page w k =
     (case fst (pc_get (pw_generation w) k (pw_cache w)) of
        Some page \<Rightarrow> q_ret (Some \<lparr>sn_generation = pw_generation w, sn_page = page\<rparr>)
      | None \<Rightarrow>
          q_bind (query_stable_catalog_snapshot (pw_attempts w)) (\<lambda>r.
            q_ret (case r of Inr s \<Rightarrow> s | Inl _ \<Rightarrow> None)))"

text \<open>The wait for the catalogue's read lock, with a check before every attempt.\<close>

fun query_read_catalog :: "nat \<Rightarrow> unit query" where
  "query_read_catalog 0 = q_check"
| "query_read_catalog (Suc n) = q_bind q_check (\<lambda>_. query_read_catalog n)"

subsection \<open>Browse\<close>

definition browse_metadata ::
  "soap_app \<Rightarrow> client_profile \<Rightarrow> string option \<Rightarrow> filter_bits \<Rightarrow> page_world \<Rightarrow> string \<Rightarrow>
     (soap_outcome + didl_object list \<times> nat \<times> cache_insert) query" where
  "browse_metadata app c ua bits w oid =
     q_bind (q_ok (query_read_catalog (pw_waits w))) (\<lambda>lock.
       if lock = None then q_ret (Inl fault501)
       else case metadata oid (pw_catalog w) of
              None \<Rightarrow> q_ret (Inl fault701)
            | Some ch \<Rightarrow> q_bind (to_didl_ref app (pw_catalog w) c ua bits ch) (\<lambda>d. q_ret (Inr ([d], 1, None))))"

text \<open>
  The database's page is used when it belongs to the generation of the locked catalogue, its matches is
  the displayed one and all its rows exist; else the page is computed in memory.
\<close>

definition usable_page :: "page_world \<Rightarrow> nat option \<Rightarrow> query_snapshot option \<Rightarrow> (catalog_child list \<times> query_page) option" where
  "usable_page w displayed db =
     (case db of
        None \<Rightarrow> None
      | Some s \<Rightarrow>
          if sn_generation s = pw_catalog_generation w \<and> Some (pg_total (sn_page s)) = displayed
          then map_option (\<lambda>items. (items, sn_page s)) (materialize_db_page (pw_catalog w) (sn_page s))
          else None)"

definition browse_children ::
  "(string \<Rightarrow> bool) \<Rightarrow> nat \<Rightarrow> soap_app \<Rightarrow> client_profile \<Rightarrow> string option \<Rightarrow> filter_bits \<Rightarrow> page_world \<Rightarrow> string \<Rightarrow>
     sort_spec list \<Rightarrow> nat \<Rightarrow> nat \<Rightarrow> (soap_outcome + didl_object list \<times> nat \<times> cache_insert) query" where
  "browse_children symlink child_bytes app c ua bits w oid specs start n =
     (let order = default_order_of c; k = browse_cache_key oid (Some specs) order start n;
          cat = pw_catalog w; g = pw_catalog_generation w;
          rendered = render_rows (to_didl_ref app cat c ua bits)
      in q_bind (find_db_page w k) (\<lambda>db.
         q_bind (q_ok (query_read_catalog (pw_waits w))) (\<lambda>lock.
         if lock = None then q_ret (Inl fault501)
         else q_bind (if find_container cat oid \<noteq> None
                      then q_bind (q_ok (q_displayed_child_count oid cat)) (\<lambda>t. q_ret (map_option Some t))
                      else q_ret (Some None)) (\<lambda>displayed.
         case displayed of
           None \<Rightarrow> q_ret (Inl fault501)
         | Some displayed \<Rightarrow>
             (case usable_page w displayed db of
                Some (items, page) \<Rightarrow>
                  q_bind (rendered items) (\<lambda>ds. q_ret (Inr (ds, pg_total page, Some (g, k, page))))
              | None \<Rightarrow>
                  q_bind (q_ok (sorted_child_page symlink child_bytes cat oid start n specs order)) (\<lambda>page.
                    case page of
                      Some (Some (items, matches)) \<Rightarrow> q_bind (rendered items) (\<lambda>ds. q_ret (Inr (ds, matches, None)))
                    | _ \<Rightarrow> q_ret (Inl fault701)))))))"

definition page_http ::
  "bool \<Rightarrow> filter_bits \<Rightarrow> page_world \<Rightarrow> bool \<Rightarrow> soap_outcome + didl_object list \<times> nat \<times> cache_insert \<Rightarrow>
     ('f, 'j) http_response \<times> cache_insert" where
  "page_http is_search bits w persist r =
     (case r of
        Inl fault \<Rightarrow> (soap_to_http fault persist, None)
      | Inr (didl, matches, ins) \<Rightarrow>
          (xml_response 200
             (fst (build_browse_bounded is_search didl matches (unat (pw_catalog_generation w)) bits MAX_SOAP_RESPONSE_BYTES))
             False, ins))"

definition index_arg :: "int option \<Rightarrow> nat option" where
  "index_arg v = (case v of Some i \<Rightarrow> if i < 0 then None else Some (nat i) | None \<Rightarrow> None)"

definition soap_browse ::
  "(string \<Rightarrow> bool) \<Rightarrow> nat \<Rightarrow> soap_app \<Rightarrow> soap_call \<Rightarrow> client_profile \<Rightarrow> string option \<Rightarrow> filter_bits \<Rightarrow> bool \<Rightarrow> page_world \<Rightarrow>
     (('f, 'j) http_response \<times> cache_insert) query" where
  "soap_browse symlink child_bytes app call c ua bits persist w =
     (let refuse = (\<lambda>fault. q_ret (soap_to_http fault persist, None))
      in case (sc_object_id call, sc_browse_flag call, index_arg (sc_starting_index call), index_arg (sc_requested_count call)) of
           (Some oid_raw, Some bf, Some start, Some requested) \<Rightarrow>
             let oid = remap_object_id (sa_root_container app) oid_raw c; n = requested_take requested
             in if bf = ''BrowseMetadata'' then
                  q_bind (browse_metadata app c ua bits w oid) (\<lambda>r. q_ret (page_http False bits w persist r))
                else if bf \<noteq> ''BrowseDirectChildren'' then refuse fault402
                else (case sort_or_709 (sc_sort_criteria call) c of
                        Inl _ \<Rightarrow> refuse fault709
                      | Inr specs \<Rightarrow>
                          q_bind (browse_children symlink child_bytes app c ua bits w oid specs start n) (\<lambda>r.
                            q_ret (page_http False bits w persist
                              (case r of
                                 Inl fault \<Rightarrow> Inl fault
                               | Inr (didl, matches, ins) \<Rightarrow>
                                   Inr (if oid \<noteq> oid_raw then map (do_parent_id_update (\<lambda>_. oid_raw)) didl else didl, matches, ins)))))
         | _ \<Rightarrow> refuse fault402)"

subsection \<open>Search\<close>

text \<open>
  \<open>search_key\<close> is the SHA-256 of the formatted query and \<open>lc\<close> Unicode lowercasing. A page of the
  database is taken when its generation is that of the locked catalogue and all its rows exist.
\<close>

definition search_rows ::
  "(string \<Rightarrow> string) \<Rightarrow> (string \<times> search_clause list list \<times> sort_spec list \<times> default_order \<times> nat \<times> nat \<Rightarrow> string) \<Rightarrow>
     soap_app \<Rightarrow> client_profile \<Rightarrow> string option \<Rightarrow> filter_bits \<Rightarrow> page_world \<Rightarrow> string \<Rightarrow> search_clause list list \<Rightarrow>
     sort_spec list \<Rightarrow> nat \<Rightarrow> nat \<Rightarrow> (soap_outcome + didl_object list \<times> nat \<times> cache_insert) query" where
  "search_rows lc search_key app c ua bits w scope clauses specs start n =
     (let order = default_order_of c; k = search_key (scope, clauses, specs, order, start, n);
          cat = pw_catalog w; g = pw_catalog_generation w
      in q_bind (find_db_page w k) (\<lambda>db.
         q_bind (q_ok (query_read_catalog (pw_waits w))) (\<lambda>lock.
         if lock = None then q_ret (Inl fault501)
         else case usable_page w (map_option (pg_total \<circ> sn_page) db) db of
                Some (items, page) \<Rightarrow>
                  q_bind (render_rows (to_didl_ref app cat c ua bits) items) (\<lambda>ds.
                    q_ret (Inr (ds, pg_total page, Some (g, k, page))))
              | None \<Rightarrow>
                  q_bind (search_memory_page lc (to_didl_ref app cat c ua bits) cat scope clauses specs order start n)
                    (\<lambda>(ds, matches). q_ret (Inr (ds, matches, None))))))"

definition soap_search ::
  "(string \<Rightarrow> string) \<Rightarrow> (string \<times> search_clause list list \<times> sort_spec list \<times> default_order \<times> nat \<times> nat \<Rightarrow> string) \<Rightarrow>
     soap_app \<Rightarrow> soap_call \<Rightarrow> client_profile \<Rightarrow> string option \<Rightarrow> filter_bits \<Rightarrow> bool \<Rightarrow> page_world \<Rightarrow>
     (('f, 'j) http_response \<times> cache_insert) query" where
  "soap_search lc search_key app call c ua bits persist w =
     (let refuse = (\<lambda>fault. q_ret (soap_to_http fault persist, None))
      in case (index_arg (sc_starting_index call), index_arg (sc_requested_count call), non_empty (sc_object_id call)) of
           (Some start, Some requested, Some scope_raw) \<Rightarrow>
             (case sort_or_709 (sc_sort_criteria call) c of
                Inl _ \<Rightarrow> refuse fault709
              | Inr specs \<Rightarrow>
                  case try_parse_search_criteria (sc_search_criteria call) of
                    Inl _ \<Rightarrow> refuse fault708
                  | Inr clauses \<Rightarrow>
                      q_bind (search_rows lc search_key app c ua bits w (remap_object_id (sa_root_container app) scope_raw c)
                                clauses specs start (requested_take requested)) (\<lambda>r.
                        q_ret (page_http True bits w persist r)))
         | _ \<Rightarrow> refuse fault402)"

subsection \<open>The endpoint\<close>

definition identify_peer ::
  "http_request \<Rightarrow> ipv4 \<Rightarrow> mac option \<Rightarrow> nat \<Rightarrow> client_cache \<Rightarrow> client_profile \<times> client_cache" where
  "identify_peer req ip m now cache =
     (case identify_request (rq_header req ''User-Agent'') (rq_header req ''X-AV-Client-Info'')
             (rq_header req ''FriendlyName'') None of
        Some p \<Rightarrow> (let (cache', r) = cache_remember ip p m now cache in (r, cache'))
      | None \<Rightarrow>
          (case cache_search ip now m cache of
             (cache', Some p) \<Rightarrow> (p, cache')
           | (cache', None) \<Rightarrow> (hd CLIENTS, cache')))"

text \<open>
  Parameters of a call from libraries: \<open>parse_xml\<close> reads the tag fragments of \<open>UpdateObject\<close>, \<open>db_ok\<close>
  says whether the transaction of a bookmark commits, \<open>body\<close> is what the XML tokenizer makes of the
  request's body, and \<open>symlink\<close>, \<open>child_bytes\<close> belong to the in-memory pages.
\<close>

record soap_outside =
  so_parse_xml :: "string \<Rightarrow> update_child list option"
  so_db_ok :: bool
  so_symlink :: "string \<Rightarrow> bool"
  so_child_bytes :: nat
  so_lowercase :: "string \<Rightarrow> string"
  so_search_key :: "string \<times> search_clause list list \<times> sort_spec list \<times> default_order \<times> nat \<times> nat \<Rightarrow> string"

definition soap_call_http ::
  "soap_outside \<Rightarrow> soap_app \<Rightarrow> soap_call \<Rightarrow> client_profile \<Rightarrow> string option \<Rightarrow> bool \<Rightarrow> page_world \<Rightarrow> bookmark_store \<Rightarrow>
     (('f, 'j) http_response \<times> cache_insert \<times> bookmark_store) query" where
  "soap_call_http so app call c ua persist w s =
     (let bits = parse_filter (sc_filter call) (contains (cp_flags c) F_SAMSUNG);
          plain = (\<lambda>out s. q_ret (soap_to_http out persist, None, s))
      in if sc_method call = None then plain fault401 s
         else if sc_method call = Some ''X_SetBookmark'' then
           (let (out, s') = soap_set_bookmark (so_db_ok so) call c s in plain out s')
         else if sc_method call = Some ''UpdateObject'' then
           (let (out, s') = soap_update_object (so_parse_xml so) (so_db_ok so) call c s in plain out s')
         else case dispatch_simple call c (sa_uuid app) (unat (pw_generation w)) (sa_root_container app) of
                Some out \<Rightarrow> plain out s
              | None \<Rightarrow>
                  q_bind (if sc_method call = Some ''Search''
                          then soap_search (so_lowercase so) (so_search_key so) app call c ua bits persist w
                          else soap_browse (so_symlink so) (so_child_bytes so) app call c ua bits persist w)
                    (\<lambda>(r, ins). q_ret (r, ins, s)))"

text \<open>\<open>ip\<close>, \<open>m\<close> and \<open>now\<close> are the peer's address, its MAC and the clock; the renderer cache is a part of the result.\<close>

definition soap ::
  "soap_outside \<Rightarrow> soap_app \<Rightarrow> http_request \<Rightarrow> xml_event list \<Rightarrow> ipv4 \<Rightarrow> mac option \<Rightarrow> nat \<Rightarrow> client_cache \<Rightarrow> bool \<Rightarrow>
     page_world \<Rightarrow> bookmark_store \<Rightarrow> (('f, 'j) http_response \<times> cache_insert \<times> bookmark_store \<times> client_cache) query" where
  "soap so app req body ip m now cache persist w s =
     (let action = (case rq_header req ''SOAPAction'' of Some a \<Rightarrow> a | None \<Rightarrow> [])
      in case try_parse_soap_call action body of
           Inl _ \<Rightarrow> q_ret (soap_to_http fault402 persist, None, s, cache)
         | Inr call \<Rightarrow>
             let (c, cache') = identify_peer req ip m now cache
             in q_bind (soap_call_http so app call c (rq_header req ''User-Agent'') persist w s) (\<lambda>(r, ins, s').
                  q_ret (r, ins, s', cache')))"

end
