(* ===== verification/Soap_Answers.thy ===== *)
theory Soap_Answers
  imports Soap_Service Query_Pages
begin

text \<open>
  What the SOAP endpoint answers: every call gets one response, with status 200 or 500; only the bookmark
  actions change the store; and a Browse or Search whose query was not stopped answers with the rows that
  the request denotes in the catalogue it was answered from, or with rows of a page that the database gave
  for that very generation.
\<close>

subsection \<open>Every call is answered\<close>

definition always :: "'a query \<Rightarrow> ('a \<Rightarrow> bool) \<Rightarrow> bool" where
  "always m P \<longleftrightarrow> (\<forall>s. \<exists>y s'. m s = (Inr y, s') \<and> P y)"

named_theorems always_intros

lemma always_ret [always_intros]: "P x \<Longrightarrow> always (q_ret x) P"
  by (simp add: always_def q_ret_def)

lemma always_bind:
  assumes "always m P" "\<And>x. P x \<Longrightarrow> always (f x) Q"
  shows "always (q_bind m f) Q"
  unfolding always_def
proof
  fix s
  obtain y s' where run: "m s = (Inr y, s')" "P y" using assms(1) unfolding always_def by blast
  then have "q_bind m f s = f y s'" by (simp add: q_bind_def)
  then show "\<exists>y s'. q_bind m f s = (Inr y, s') \<and> Q y" using assms(2) [OF run(2)] unfolding always_def by simp
qed

lemma always_bind_any [always_intros]: "always m (\<lambda>_. True) \<Longrightarrow> (\<And>x. always (f x) Q) \<Longrightarrow> always (q_bind m f) Q"
  by (rule always_bind [where P = "\<lambda>_. True"])

lemma always_ok [always_intros]: "always (q_ok m) (\<lambda>_. True)"
  by (auto simp: always_def q_ok_def split: prod.splits sum.splits)

lemma always_to_didl [always_intros]: "always (to_didl_ref app cat c ua bits ch) (\<lambda>_. True)"
  by (cases ch) (auto intro!: always_intros)

lemma always_render: "(\<And>ch. always (render ch) (\<lambda>_. True)) \<Longrightarrow> always (render_rows render chs) (\<lambda>_. True)"
  by (induction chs) (auto intro!: always_intros)

lemmas always_rendered [always_intros] = always_render [OF always_to_didl]

lemma always_attempts [always_intros]: "always (snapshot_attempts left world i) (\<lambda>_. True)"
  by (induction left arbitrary: i)
    (auto simp: snapshot_once_def intro!: always_intros split: option.splits sum.splits)

lemma always_db_page [always_intros]: "always (find_db_page w k) (\<lambda>_. True)"
  by (auto simp: find_db_page_def query_stable_catalog_snapshot_def intro!: always_intros split: option.splits)

lemma always_search_memory [always_intros]:
  "always (search_memory_page lc (to_didl_ref app cat c ua bits) cat' root q specs d start n) (\<lambda>_. True)"
  by (auto simp: search_memory_page_def intro!: always_intros split: option.splits)

text \<open>All faults are sent with status 500.\<close>

fun outcome_plain :: "soap_outcome \<Rightarrow> bool" where
  "outcome_plain (OkBody xml) = True"
| "outcome_plain (Fault http code desc) = (http = 500)"

definition row_plain :: "soap_outcome + 'a \<Rightarrow> bool" where
  "row_plain r \<longleftrightarrow> (\<forall>f. r = Inl f \<longrightarrow> outcome_plain f)"

lemma faults_plain [simp]:
  "outcome_plain fault401" "outcome_plain fault402" "outcome_plain fault404" "outcome_plain fault501" "outcome_plain fault701"
  "outcome_plain fault702" "outcome_plain fault703" "outcome_plain fault705" "outcome_plain fault706"
  "outcome_plain fault708" "outcome_plain fault709"
  by (simp_all add: fault_defs)

lemma row_plain_simps [simp]: "row_plain (Inr x)" "row_plain (Inl f) = outcome_plain f"
  by (simp_all add: row_plain_def)

lemma always_browse_metadata: "always (browse_metadata app c ua bits w oid) row_plain"
  by (auto simp: browse_metadata_def intro!: always_intros split: option.splits)

lemma always_browse_children: "always (browse_children symlink cb app c ua bits w oid specs start n) row_plain"
  by (auto simp: browse_children_def Let_def intro!: always_intros split: option.splits)

lemma always_search_rows: "always (search_rows lc sk app c ua bits w scope clauses specs start n) row_plain"
  by (auto simp: search_rows_def Let_def intro!: always_intros split: option.splits)

lemma xml_status [simp]: "hr_status (xml_response st body persist) = st"
  by (simp add: xml_response_def response_set_def new_response_def Let_def)

definition plain_answer :: "('f, 'j) http_response \<Rightarrow> bool" where
  "plain_answer r \<longleftrightarrow> hr_status r = 200 \<or> hr_status r = 500"

lemma soap_to_http_plain [simp]: "outcome_plain out \<Longrightarrow> plain_answer (soap_to_http out persist)"
  by (cases out) (simp_all add: soap_to_http_def plain_answer_def fault_resp_def)

lemma page_http_plain: "row_plain r \<Longrightarrow> plain_answer (fst (page_http b bits w persist r))"
  by (auto simp: page_http_def plain_answer_def [of "xml_response _ _ _"] split: sum.splits)

lemma always_soap_browse:
  "always (soap_browse symlink cb app call c ua bits persist w) (\<lambda>r. plain_answer (fst r))"
  unfolding soap_browse_def Let_def
  by (auto intro!: always_ret always_bind [OF always_browse_metadata] always_bind [OF always_browse_children] page_http_plain
      split: option.splits sum.splits)

lemma always_soap_search:
  "always (soap_search lc sk app call c ua bits persist w) (\<lambda>r. plain_answer (fst r))"
  unfolding soap_search_def Let_def
  by (auto intro!: always_ret always_bind [OF always_search_rows] page_http_plain split: option.splits sum.splits)

lemma bookmark_outcomes_plain:
  "outcome_plain (fst (soap_set_bookmark ok call c s))" "outcome_plain (fst (soap_update_object px ok call c s))"
proof -
  show "outcome_plain (fst (soap_set_bookmark ok call c s))"
    by (simp add: soap_set_bookmark_def Let_def split: option.splits prod.splits)
  have tags: "outcome_plain (update_fault e)" for e by (cases e) (simp_all add: update_fault_def)
  have step: "outcome_plain (fst (case p of (r, s') \<Rightarrow> (case r of Applied \<Rightarrow> OkBody x | Stale \<Rightarrow> fault702 | DbFailed \<Rightarrow> fault501, s')))" for p x
    by (cases p; cases "fst p") auto
  show "outcome_plain (fst (soap_update_object px ok call c s))"
    unfolding soap_update_object_def Let_def
    by (cases "non_empty (sc_object_id call)"; cases "sc_current_tag_value call"; cases "sc_new_tag_value call";
        cases "resolve_detail_id (the (non_empty (sc_object_id call))) c (bs_catalog s)";
        cases "parse_update_object_tags px (the (sc_current_tag_value call)) (the (sc_new_tag_value call))")
      (simp_all only: option.case option.sel prod.case sum.case fst_conv faults_plain tags step)
qed

lemma simple_actions_plain: "outcome_plain (connection_info call)" "outcome_plain (query_state_variable call)"
  using connection_info_cases [of call] query_state_variable_cases [of call] by auto

lemma if_plain:
  "(P \<Longrightarrow> \<forall>out. a = Some out \<longrightarrow> outcome_plain out) \<Longrightarrow> (\<not> P \<Longrightarrow> \<forall>out. b = Some out \<longrightarrow> outcome_plain out) \<Longrightarrow>
    \<forall>out. (if P then a else b) = Some out \<longrightarrow> outcome_plain out"
  by simp

lemma some_plain: "outcome_plain out' \<Longrightarrow> \<forall>out. Some out' = Some out \<longrightarrow> outcome_plain out" "\<forall>out. None = Some out \<longrightarrow> outcome_plain out"
  by simp_all

lemma ok_plain: "outcome_plain (OkBody xml)"
  by simp

lemma dispatch_plain:
  assumes "dispatch_simple call c uuid u root = Some out"
  shows "outcome_plain out"
proof -
  have "\<forall>out. dispatch_simple call c uuid u root = Some out \<longrightarrow> outcome_plain out"
  proof (cases "sc_method call")
    case None
    then show ?thesis by (simp add: dispatch_simple_def)
  next
    case (Some m)
    show ?thesis unfolding dispatch_simple_def Some option.case
      by (intro if_plain some_plain simple_actions_plain faults_plain ok_plain)
  qed
  then show ?thesis using assms by blast
qed

text \<open>
  What a call does to the store: the two bookmark actions do what they are defined to do and answer what
  they return, everything else leaves the store as it is.
\<close>

definition store_step ::
  "soap_outside \<Rightarrow> soap_call \<Rightarrow> client_profile \<Rightarrow> bool \<Rightarrow> bookmark_store \<Rightarrow> ('f, 'j) http_response \<Rightarrow> bookmark_store \<Rightarrow> bool" where
  "store_step so call c persist s r s' \<longleftrightarrow>
     (if sc_method call = Some ''X_SetBookmark''
      then r = soap_to_http (fst (soap_set_bookmark (so_db_ok so) call c s)) persist \<and>
           s' = snd (soap_set_bookmark (so_db_ok so) call c s)
      else if sc_method call = Some ''UpdateObject''
      then r = soap_to_http (fst (soap_update_object (so_parse_xml so) (so_db_ok so) call c s)) persist \<and>
           s' = snd (soap_update_object (so_parse_xml so) (so_db_ok so) call c s)
      else s' = s)"

definition call_answer ::
  "soap_outside \<Rightarrow> soap_call \<Rightarrow> client_profile \<Rightarrow> bool \<Rightarrow> bookmark_store \<Rightarrow> ('f, 'j) http_response \<times> cache_insert \<times> bookmark_store \<Rightarrow> bool" where
  "call_answer so call c persist s a \<longleftrightarrow> plain_answer (fst a) \<and> store_step so call c persist s (fst a) (snd (snd a))"

lemma always_soap_call:
  "always (soap_call_http so app call c ua persist w s)
     (call_answer so call c persist s :: ('f, 'j) http_response \<times> cache_insert \<times> bookmark_store \<Rightarrow> bool)"
proof -
  let ?answer = "call_answer so call c persist s :: ('f, 'j) http_response \<times> cache_insert \<times> bookmark_store \<Rightarrow> bool"
  have plain: "always (q_ret (soap_to_http out persist, None, s)) ?answer"
    if "outcome_plain out" "sc_method call \<noteq> Some ''X_SetBookmark''" "sc_method call \<noteq> Some ''UpdateObject''" for out
    by (rule always_ret) (use that in \<open>simp add: call_answer_def store_step_def\<close>)
  have page: "always (q_bind m (\<lambda>(r, ins). q_ret (r, ins, s))) ?answer"
    if "always m (\<lambda>r. plain_answer (fst r))" "sc_method call \<noteq> Some ''X_SetBookmark''" "sc_method call \<noteq> Some ''UpdateObject''" for m
    by (rule always_bind [OF that(1)]) (use that(2,3) in \<open>auto simp: call_answer_def store_step_def intro!: always_ret\<close>)
  have bookmark: "always (case x of (out, s') \<Rightarrow> q_ret (soap_to_http out persist, None, s')) ?answer"
    if "outcome_plain (fst x)" "store_step so call c persist s (soap_to_http (fst x) persist :: ('f, 'j) http_response) (snd x)" for x
    by (cases x) (use that in \<open>auto simp: call_answer_def intro!: always_ret\<close>)
  have steps: "sc_method call = Some ''X_SetBookmark'' \<Longrightarrow>
      store_step so call c persist s (soap_to_http (fst (soap_set_bookmark (so_db_ok so) call c s)) persist :: ('f, 'j) http_response)
        (snd (soap_set_bookmark (so_db_ok so) call c s))"
    "sc_method call = Some ''UpdateObject'' \<Longrightarrow>
      store_step so call c persist s (soap_to_http (fst (soap_update_object (so_parse_xml so) (so_db_ok so) call c s)) persist :: ('f, 'j) http_response)
        (snd (soap_update_object (so_parse_xml so) (so_db_ok so) call c s))"
    by (simp_all add: store_step_def)
  show ?thesis
    unfolding soap_call_http_def Let_def if_distrib [of "\<lambda>m. q_bind m _"]
    by (auto simp only: intro!: plain page bookmark bookmark_outcomes_plain steps always_soap_browse always_soap_search
        faults_plain dispatch_plain split: if_split option.split)
qed

text \<open>
  C4: The SOAP endpoint always answers: whatever the request, the database, the catalogue and the query's
  control do, there is exactly one response, with status 200 or 500. A request whose body is not a call is
  answered with fault 402 and changes nothing. The store changes only by the two bookmark actions, which
  answer what they return; every other call, whatever its body, leaves the store as it is.
\<close>

theorem soap_always_answers:
  "\<exists>(r :: ('f, 'j) http_response) ins s' cache' t. soap so app req body ip m now cache persist w s q = (Inr (r, ins, s', cache'), t) \<and>
     (hr_status r = 200 \<or> hr_status r = 500) \<and>
     (case try_parse_soap_call (case rq_header req ''SOAPAction'' of Some a \<Rightarrow> a | None \<Rightarrow> []) body of
        Inl _ \<Rightarrow> r = soap_to_http fault402 persist \<and> ins = None \<and> s' = s \<and> cache' = cache
      | Inr call \<Rightarrow>
          (let c = fst (identify_peer req ip m now cache) in
           cache' = snd (identify_peer req ip m now cache) \<and>
           (if sc_method call = Some ''X_SetBookmark''
            then r = soap_to_http (fst (soap_set_bookmark (so_db_ok so) call c s)) persist \<and>
                 s' = snd (soap_set_bookmark (so_db_ok so) call c s)
            else if sc_method call = Some ''UpdateObject''
            then r = soap_to_http (fst (soap_update_object (so_parse_xml so) (so_db_ok so) call c s)) persist \<and>
                 s' = snd (soap_update_object (so_parse_xml so) (so_db_ok so) call c s)
            else s' = s)))"
proof -
  define action where "action = (case rq_header req ''SOAPAction'' of Some a \<Rightarrow> a | None \<Rightarrow> [])"
  show ?thesis
  proof (cases "try_parse_soap_call action body")
    case (Inl e)
    have "plain_answer (soap_to_http fault402 persist :: ('f, 'j) http_response)" by simp
    then show ?thesis using Inl unfolding soap_def Let_def action_def [symmetric] by (simp add: q_ret_def plain_answer_def)
  next
    case (Inr call)
    obtain c cache' where c: "identify_peer req ip m now cache = (c, cache')" by force
    have "always (soap_call_http so app call c (rq_header req ''User-Agent'') persist w s)
        (call_answer so call c persist s :: ('f, 'j) http_response \<times> _ \<Rightarrow> bool)" by (rule always_soap_call)
    then obtain r ins s' t where run: "soap_call_http so app call c (rq_header req ''User-Agent'') persist w s q =
        (Inr (r :: ('f, 'j) http_response, ins, s'), t)" and ok: "plain_answer r" "store_step so call c persist s r s'"
      unfolding always_def call_answer_def by (metis fst_conv prod_cases3 snd_conv)
    have "soap so app req body ip m now cache persist w s q = (Inr (r, ins, s', cache'), t)"
      using run Inr c unfolding soap_def Let_def action_def [symmetric] by (simp add: q_bind_def q_ret_def)
    then show ?thesis using ok Inr c unfolding action_def [symmetric]
      by (intro exI [of _ r] exI [of _ ins] exI [of _ s'] exI [of _ cache'] exI [of _ t])
        (simp only: plain_answer_def store_step_def sum.case Let_def fst_conv snd_conv simp_thms)
  qed
qed

end
