(* ===== verification/Soap_Pages.thy ===== *)
theory Soap_Pages
  imports Soap_Answers
begin

text \<open>
  The pages the SOAP endpoint answers with. The rows of a Browse or Search are either those the request
  denotes in the catalogue the handler held, or those of a page the database gave for the generation of
  that catalogue; they are rendered with the catalogue's own values, and the response is the longest one
  that fits into two mebibytes.
\<close>

subsection \<open>Rendering\<close>

definition didl_of ::
  "soap_app \<Rightarrow> catalog \<Rightarrow> client_profile \<Rightarrow> string option \<Rightarrow> filter_bits \<Rightarrow> catalog_child \<Rightarrow> didl_object" where
  "didl_of app cat c ua bits ch =
     (case ch of
        ContainerChild f \<Rightarrow> container_object f (Some (displayed_child_count (ct_object_id f) cat))
          (Some (displayed_container_count (ct_object_id f) cat))
      | ItemChild it \<Rightarrow> item_object app c ua bits it)"

lemma orderly_count_checked: "orderly (q_count_checked elig limit index seen its)"
  by (induction its arbitrary: index seen) (auto simp: Let_def)

lemma orderly_count_containers: "orderly (q_count_containers c index n chs)"
  by (induction chs arbitrary: index n) auto

lemma orderly_counts [intro]: "orderly (q_displayed_child_count i c)" "orderly (q_displayed_container_count i c)"
  unfolding q_displayed_child_count_def q_displayed_container_count_def
  by (auto intro!: orderly_bind orderly_count_checked orderly_count_containers split: option.split)

lemma orderly_to_didl [intro]: "orderly (to_didl_ref app cat c ua bits ch)"
  by (cases ch) auto

lemma to_didl_live: "returns_live (to_didl_ref app cat c ua bits ch) (\<lambda>d. d = didl_of app cat c ua bits ch)"
proof (cases ch)
  case (ContainerChild f)
  show ?thesis unfolding ContainerChild to_didl_ref.simps
    by (rule returns_live_bind [OF returns_live_ok [OF counts_unstopped(1) orderly_counts(1)]],
        rule returns_live_bind [OF returns_live_ok [OF counts_unstopped(2) orderly_counts(2)]])
      (auto simp: didl_of_def intro!: returns_live_ret)
next
  case (ItemChild it)
  then show ?thesis by (simp add: didl_of_def returns_live_ret)
qed

lemma orderly_render [intro]: "(\<And>ch. orderly (render ch)) \<Longrightarrow> orderly (render_rows render chs)"
  by (induction chs) (auto intro!: orderly_bind)

lemma check_live: "returns_live (q_ok q_check) (\<lambda>r. r \<noteq> None)"
  by (rule returns_live_mono [OF returns_live_ok [where P = "\<lambda>_. True"]]) (auto simp: returns_def)

lemma render_rows_live:
  "returns_live (render_rows (to_didl_ref app cat c ua bits) chs) (\<lambda>ds. ds = map (didl_of app cat c ua bits) chs)"
proof (induction chs)
  case (Cons ch chs)
  show ?case unfolding render_rows.simps
  proof (rule returns_live_bind [OF check_live])
    show "returns_live (if ok = None then q_ret [] else q_bind (to_didl_ref app cat c ua bits ch) (\<lambda>d.
        q_bind (render_rows (to_didl_ref app cat c ua bits) chs) (\<lambda>ds. q_ret (d # ds))))
      (\<lambda>ds. ds = map (didl_of app cat c ua bits) (ch # chs))" if "ok \<noteq> None" for ok
      using that by (auto intro!: returns_live_bind [OF to_didl_live] returns_live_bind [OF Cons] returns_live_ret)
  qed auto
qed (simp add: returns_live_ret)

subsection \<open>Pages of the database\<close>

text \<open>What the cache held for the key, or the database answered in one of the three attempts.\<close>

definition offered :: "page_world \<Rightarrow> string \<Rightarrow> query_snapshot \<Rightarrow> bool" where
  "offered w k s \<longleftrightarrow>
     (fst (pc_get (pw_generation w) k (pw_cache w)) = Some (sn_page s) \<and> sn_generation s = pw_generation w) \<or>
     (\<exists>i. at_answer (pw_attempts w i) = Some s)"

lemma attempts_offered:
  "returns (snapshot_attempts left world i) (\<lambda>r. \<forall>s. r = Inr (Some s) \<longrightarrow> (\<exists>j. at_answer (world j) = Some s))"
proof (induction left arbitrary: i)
  case 0
  show ?case by (auto intro: returns_ret)
next
  case (Suc left)
  have once: "returns (snapshot_once (world i)) (\<lambda>r. \<forall>s. r = Inr (Some s) \<longrightarrow> (\<exists>j. at_answer (world j) = Some s))"
    unfolding snapshot_once_def by (auto intro!: returns_bind_any returns_ret exI [of _ i] split: option.split)
  show ?case unfolding snapshot_attempts.simps
    by (rule returns_bind_any) (auto intro!: returns_bind [OF once] returns_ret Suc split: sum.split)
qed

lemma find_db_page_offered: "returns (find_db_page w k) (\<lambda>r. \<forall>s. r = Some s \<longrightarrow> offered w k s)"
  unfolding find_db_page_def query_stable_catalog_snapshot_def offered_def
  by (auto intro!: returns_bind [OF attempts_offered] returns_ret split: option.split sum.splits)

lemma orderly_attempts [intro]: "orderly (snapshot_attempts left world i)"
  by (induction left arbitrary: i) (auto simp: snapshot_once_def intro!: orderly_bind orderly_ok orderly_check orderly_ret split: option.split sum.split)

lemma orderly_db_page [intro]: "orderly (find_db_page w k)"
  by (auto simp: find_db_page_def query_stable_catalog_snapshot_def intro!: orderly_bind orderly_ret split: option.split sum.split)

lemma orderly_read [intro]: "orderly (query_read_catalog n)"
  by (induction n) auto

lemma read_live: "returns_live (q_ok (query_read_catalog n)) (\<lambda>r. r \<noteq> None)"
  by (rule returns_live_mono [OF returns_live_ok [where P = "\<lambda>_. True"]]) (auto simp: returns_def)

lemma usable_page_iff:
  "usable_page w displayed db = Some (items, page) \<longleftrightarrow>
     (\<exists>s. db = Some s \<and> sn_generation s = pw_catalog_generation w \<and> displayed = Some (pg_total page) \<and>
       materialize_db_page (pw_catalog w) page = Some items \<and> page = sn_page s)"
  by (auto simp: usable_page_def split: option.splits)

text \<open>Rows from the database, as a page of the generation the handler holds.\<close>

definition from_database :: "page_world \<Rightarrow> string \<Rightarrow> catalog_child list \<Rightarrow> nat \<Rightarrow> cache_insert \<Rightarrow> bool" where
  "from_database w k rows matches ins \<longleftrightarrow>
     (\<exists>s. offered w k s \<and> sn_generation s = pw_catalog_generation w \<and> pg_total (sn_page s) = matches \<and>
        materialize_db_page (pw_catalog w) (sn_page s) = Some rows \<and>
        ins = Some (pw_catalog_generation w, k, sn_page s))"

subsection \<open>Browse\<close>

text \<open>The page of children a request denotes, as the memory query computes it.\<close>

definition denoted_children ::
  "(string \<Rightarrow> bool) \<Rightarrow> catalog \<Rightarrow> string \<Rightarrow> sort_spec list \<Rightarrow> default_order \<Rightarrow> nat \<Rightarrow> nat \<Rightarrow> (catalog_child list \<times> nat) option" where
  "denoted_children symlink c i specs d start n =
     (if recent_root i \<noteq> None then
       (let recent = recent_items symlink i c;
            rows = (if specs = [] \<and> d = FoldersFirstOrder then recent else stable_sort (rows_order specs d) recent)
        in Some (take n (drop start rows), min (length recent) 4294967295))
     else
       map_option (\<lambda>f. let rows = stable_sort (rows_order specs d) (existing_children c f)
                       in (take n (drop start rows), min (length rows) 4294967295))
         (find_container c i))"

lemma orderly_cached_items: "orderly (q_cached_items c v is)"
  by (induction "is" arbitrary: v) (auto simp: Let_def intro!: orderly_bind)

lemma orderly_rank_items: "orderly (q_rank_items symlink cutoff pat limit v its st)"
proof (induction its arbitrary: v st)
  case (Cons it its)
  show ?case unfolding q_rank_items.simps Let_def by (intro orderly_bind orderly_work Cons)
qed auto

lemma orderly_emit_recent: "orderly (q_emit_recent root v its)"
  by (induction its arbitrary: v) (auto simp: Let_def intro!: orderly_bind)

lemma orderly_recent [intro]: "orderly (q_recent_items symlink root c)"
  unfolding q_recent_items_def
  by (auto intro!: orderly_bind orderly_cached_items orderly_rank_items orderly_emit_recent)

lemma orderly_collect [intro]: "orderly (collect_children c is refs)"
  by (induction "is" arbitrary: refs) (auto split: option.split)

lemma orderly_sorted_child_page [intro]: "orderly (sorted_child_page symlink bytes c i start n specs d)"
  unfolding sorted_child_page_def by (auto intro!: orderly_bind split: option.split)

lemmas orderly_steps = orderly_bind orderly_ok orderly_ret orderly_render orderly_to_didl orderly_sorted_child_page
  orderly_db_page orderly_read orderly_counts

lemma children_page_live:
  assumes "catalog_step\<^sup>*\<^sup>* catalog_new c"
  shows "returns_live (q_ok (sorted_child_page symlink bytes c i start n specs d))
    (\<lambda>r. r = Some (denoted_children symlink c i specs d start n))"
  by (rule returns_live_mono [OF returns_live_ok [OF browse_page_returns [OF assms] orderly_sorted_child_page]])
    (simp add: denoted_children_def)


text \<open>What the rows of a Browse are, when nothing stopped the query.\<close>

definition browse_denotes ::
  "(string \<Rightarrow> bool) \<Rightarrow> soap_app \<Rightarrow> client_profile \<Rightarrow> string option \<Rightarrow> filter_bits \<Rightarrow> page_world \<Rightarrow> string \<Rightarrow>
     sort_spec list \<Rightarrow> nat \<Rightarrow> nat \<Rightarrow> soap_outcome + didl_object list \<times> nat \<times> cache_insert \<Rightarrow> bool" where
  "browse_denotes symlink app c ua bits w oid specs start n r \<longleftrightarrow>
     (let cat = pw_catalog w; d = default_order_of c; k = browse_cache_key oid (Some specs) d start n
      in (denoted_children symlink cat oid specs d start n = None \<and> r = Inl fault701) \<or>
         (\<exists>rows matches ins. r = Inr (map (didl_of app cat c ua bits) rows, matches, ins) \<and>
            (denoted_children symlink cat oid specs d start n = Some (rows, matches) \<and> ins = None \<or>
             matches = displayed_child_count oid cat \<and> from_database w k rows matches ins)))"

lemma displayed_live:
  "returns_live (if find_container cat oid \<noteq> None
       then q_bind (q_ok (q_displayed_child_count oid cat)) (\<lambda>t. q_ret (map_option Some t)) else q_ret (Some None))
     (\<lambda>r. \<exists>t. r = Some t \<and> (\<forall>m. t = Some m \<longrightarrow> m = displayed_child_count oid cat))"
  by (auto intro!: returns_live_ret returns_live_bind [OF returns_live_ok [OF counts_unstopped(1) orderly_counts(1)]])

lemma browse_children_live:
  assumes "catalog_step\<^sup>*\<^sup>* catalog_new (pw_catalog w)"
  shows "returns_live (browse_children symlink cb app c ua bits w oid specs start n)
    (browse_denotes symlink app c ua bits w oid specs start n)"
proof -
  define cat d k where "cat = pw_catalog w" and "d = default_order_of c"
    and "k = browse_cache_key oid (Some specs) (default_order_of c) start n"
  let ?P = "browse_denotes symlink app c ua bits w oid specs start n"
  have memory: "returns_live (q_bind (q_ok (sorted_child_page symlink cb cat oid start n specs d)) (\<lambda>page.
      case page of Some (Some (items, matches)) \<Rightarrow>
          q_bind (render_rows (to_didl_ref app cat c ua bits) items) (\<lambda>ds. q_ret (Inr (ds, matches, None)))
        | _ \<Rightarrow> q_ret (Inl fault701))) ?P"
  proof (rule returns_live_bind [OF children_page_live [OF assms [folded cat_def]]])
    fix page
    assume page: "page = Some (denoted_children symlink cat oid specs d start n)"
    show "returns_live (case page of Some (Some (items, matches)) \<Rightarrow>
          q_bind (render_rows (to_didl_ref app cat c ua bits) items) (\<lambda>ds. q_ret (Inr (ds, matches, None)))
        | _ \<Rightarrow> q_ret (Inl fault701)) ?P"
      unfolding page
      by (cases "denoted_children symlink cat oid specs d start n")
        (auto simp: browse_denotes_def Let_def cat_def d_def intro!: returns_live_ret returns_live_bind [OF render_rows_live])
  qed (auto split: option.split)
  have database: "returns_live (q_bind (render_rows (to_didl_ref app cat c ua bits) items) (\<lambda>ds.
      q_ret (Inr (ds, pg_total page, Some (pw_catalog_generation w, k, page))))) ?P"
    if "usable_page w t db = Some (items, page)" "\<forall>s. db = Some s \<longrightarrow> offered w k s"
      "\<forall>m. t = Some m \<longrightarrow> m = displayed_child_count oid cat" for t db items page
  proof -
    have "from_database w k items (pg_total page) (Some (pw_catalog_generation w, k, page))"
      "pg_total page = displayed_child_count oid cat"
      using that by (auto simp: usable_page_iff from_database_def)
    then show ?thesis
      by (intro returns_live_bind [OF render_rows_live] returns_live_ret orderly_ret)
        (auto simp: browse_denotes_def Let_def cat_def k_def intro!: exI [of _ items])
  qed
  show ?thesis
    unfolding browse_children_def Let_def cat_def [symmetric] d_def [symmetric] k_def [symmetric]
  proof (rule returns_live_bind [OF returns_live [OF find_db_page_offered]], rule returns_live_bind [OF read_live])
    fix db lock
    assume db: "\<forall>s. db = Some s \<longrightarrow> offered w (browse_cache_key oid (Some specs) d start n) s" and lock: "(lock :: unit option) \<noteq> None"
    show "returns_live (if lock = None then q_ret (Inl fault501)
        else q_bind (if find_container cat oid \<noteq> None
                     then q_bind (q_ok (q_displayed_child_count oid cat)) (\<lambda>t. q_ret (map_option Some t))
                     else q_ret (Some None)) (\<lambda>displayed.
         case displayed of
           None \<Rightarrow> q_ret (Inl fault501)
         | Some displayed \<Rightarrow>
             (case usable_page w displayed db of
                Some (items, page) \<Rightarrow>
                  q_bind (render_rows (to_didl_ref app cat c ua bits) items) (\<lambda>ds.
                    q_ret (Inr (ds, pg_total page, Some (pw_catalog_generation w, browse_cache_key oid (Some specs) d start n, page))))
              | None \<Rightarrow>
                  q_bind (q_ok (sorted_child_page symlink cb cat oid start n specs d)) (\<lambda>page.
                    case page of
                      Some (Some (items, matches)) \<Rightarrow>
                        q_bind (render_rows (to_didl_ref app cat c ua bits) items) (\<lambda>ds. q_ret (Inr (ds, matches, None)))
                    | _ \<Rightarrow> q_ret (Inl fault701))))) ?P"
      unfolding if_not_P [OF lock]
      by (rule returns_live_bind [OF displayed_live])
        (use db in \<open>auto intro!: database memory orderly_steps simp flip: k_def [folded d_def] split: option.split\<close>)
  qed (auto intro!: orderly_steps split: option.split)
qed

text \<open>The response with a page of rows, and the one for a Browse of their container.\<close>

definition page_response_of :: "bool \<Rightarrow> page_world \<Rightarrow> filter_bits \<Rightarrow> didl_object list \<Rightarrow> nat \<Rightarrow> ('f, 'j) http_response" where
  "page_response_of is_search w bits objects matches =
     xml_response 200
       (fst (build_browse_bounded is_search objects matches (unat (pw_catalog_generation w)) bits MAX_SOAP_RESPONSE_BYTES)) False"

definition browse_rendered ::
  "soap_app \<Rightarrow> client_profile \<Rightarrow> string option \<Rightarrow> filter_bits \<Rightarrow> page_world \<Rightarrow> string \<Rightarrow> catalog_child list \<Rightarrow> didl_object list" where
  "browse_rendered app c ua bits w oid_raw rows =
     (let objects = map (didl_of app (pw_catalog w) c ua bits) rows
      in if remap_object_id (sa_root_container app) oid_raw c \<noteq> oid_raw
         then map (do_parent_id_update (\<lambda>_. oid_raw)) objects else objects)"

lemma soap_browse_live:
  fixes app :: soap_app
  assumes "catalog_step\<^sup>*\<^sup>* catalog_new (pw_catalog w)"
    and call: "sc_object_id call = Some oid_raw" "sc_browse_flag call = Some ''BrowseDirectChildren''"
      "index_arg (sc_starting_index call) = Some start" "index_arg (sc_requested_count call) = Some requested"
      "sort_or_709 (sc_sort_criteria call) c = Inr specs"
  defines "oid \<equiv> remap_object_id (sa_root_container app) oid_raw c"
    and "n \<equiv> requested_take requested"
  shows "returns_live (soap_browse symlink cb app call c ua bits persist w)
    (\<lambda>(r, ins).
      (denoted_children symlink (pw_catalog w) oid specs (default_order_of c) start n = None \<and>
         (r, ins) = (soap_to_http fault701 persist, None)) \<or>
      (\<exists>rows matches. r = page_response_of False w bits (browse_rendered app c ua bits w oid_raw rows) matches \<and>
         (denoted_children symlink (pw_catalog w) oid specs (default_order_of c) start n = Some (rows, matches) \<and> ins = None \<or>
          matches = displayed_child_count oid (pw_catalog w) \<and>
          from_database w (browse_cache_key oid (Some specs) (default_order_of c) start n) rows matches ins)))"
proof -
  have flag: "''BrowseDirectChildren'' \<noteq> ''BrowseMetadata''" by simp
  show ?thesis
    unfolding soap_browse_def Let_def call option.case prod.case sum.case oid_def [symmetric] n_def [symmetric] if_not_P [OF flag] simp_thms if_False
    by (rule returns_live_bind [OF browse_children_live [OF assms(1)]])
      (fastforce simp: page_http_def page_response_of_def browse_rendered_def browse_denotes_def Let_def oid_def n_def
        intro!: returns_live_ret)+
qed

text \<open>
  C2: A Browse of a folder answers with the folder. Whatever the page cache, the database and the query's
  control do: if nothing stopped the query, the response is either the fault 701, and then the
  catalogue has no such container; or the longest page that fits, for a list of rows, rendered with the
  catalogue's values and under the id the renderer asked for. The rows are the requested slice of the
  children in the requested order, or they are the rows of a page that the database gave for the
  generation of this very catalogue, with the displayed number of children as their total.
\<close>

theorem browse_answered:
  fixes app :: soap_app
  assumes "catalog_step\<^sup>*\<^sup>* catalog_new (pw_catalog w)"
    and "sc_object_id call = Some oid_raw" "sc_browse_flag call = Some ''BrowseDirectChildren''"
      "index_arg (sc_starting_index call) = Some start" "index_arg (sc_requested_count call) = Some requested"
      "sort_or_709 (sc_sort_criteria call) c = Inr specs"
    and "soap_browse symlink cb app call c ua bits persist w q = (Inr (r, ins), q')" "qc_stopped q' = None"
  defines "oid \<equiv> remap_object_id (sa_root_container app) oid_raw c"
    and "n \<equiv> requested_take requested"
  shows "(denoted_children symlink (pw_catalog w) oid specs (default_order_of c) start n = None \<and>
         (r, ins) = (soap_to_http fault701 persist, None)) \<or>
      (\<exists>rows matches. r = page_response_of False w bits (browse_rendered app c ua bits w oid_raw rows) matches \<and>
         (denoted_children symlink (pw_catalog w) oid specs (default_order_of c) start n = Some (rows, matches) \<and> ins = None \<or>
          matches = displayed_child_count oid (pw_catalog w) \<and>
          from_database w (browse_cache_key oid (Some specs) (default_order_of c) start n) rows matches ins))"
  using soap_browse_live [OF assms(1-6), where app = app and symlink = symlink and cb = cb and ua = ua and bits = bits and persist = persist]
    assms(7,8)
  unfolding returns_live_def oid_def n_def by blast

text \<open>A world in which neither the cache nor the database has a page, and a call of it.\<close>

definition plain_world :: "catalog \<Rightarrow> page_world" where
  "plain_world cat =
     \<lparr>pw_generation = 1, pw_cache = [], pw_attempts = \<lambda>_. \<lparr>at_before = 1, at_answer = None, at_after = 1\<rparr>,
      pw_waits = 0, pw_catalog = cat, pw_catalog_generation = 1\<rparr>"

definition page_call :: "string \<Rightarrow> string \<Rightarrow> soap_call" where
  "page_call m oid =
     \<lparr>sc_method = Some m, sc_object_id = Some oid, sc_browse_flag = Some ''BrowseDirectChildren'', sc_starting_index = Some 0,
      sc_requested_count = Some 0, sc_search_criteria = None, sc_pos_second = None, sc_connection_id = None, sc_device_id = None,
      sc_filter = None, sc_current_tag_value = None, sc_new_tag_value = None, sc_sort_criteria = None, sc_var_name = None\<rparr>"

definition sample_app :: soap_app where
  "sample_app =
     \<lparr>sa_uuid = ''u'', sa_root_container = None, sa_http_port = 8200, sa_host = ''h'', sa_transcode_enable = False,
      sa_encoder = ''libx264'', sa_remaps = []\<rparr>"

lemma plain_db_page: "find_db_page (plain_world cat) k quiet_control = (Inr None, quiet_control)"
  using quiet_check
  by (simp add: find_db_page_def plain_world_def pc_get_def query_stable_catalog_snapshot_def numeral_3_eq_3 snapshot_once_def
      q_bind_def q_ok_def q_ret_def)

lemma plain_lock: "q_ok (query_read_catalog 0) quiet_control = (Inr (Some ()), quiet_control)"
  using quiet_check by (simp add: q_ok_def)

lemma sample_remap: "remap_object_id None ''64'' (hd CLIENTS) = ''64''"
  by code_simp

lemma generic_order: "default_order_of (hd CLIENTS) = FoldersFirstOrder"
  by code_simp

lemma no_sort: "sort_or_709 None (hd CLIENTS) = Inr []"
  by code_simp

lemma browse_answered_witness:
  "\<exists>r :: (unit, unit) http_response. soap_browse (\<lambda>_. False) 8 sample_app (page_call ''Browse'' ''64'') (hd CLIENTS) None filter_standard True
       (plain_world catalog_new) quiet_control = (Inr (r, None), quiet_control) \<and>
     r = page_response_of False (plain_world catalog_new) filter_standard [] 0"
proof -
  obtain f where f: "find_container catalog_new ''64'' = Some f" "ct_children f = []" "recent_root ''64'' = None"
    by (rule new_root)
  have kids: "q_ok (q_displayed_child_count ''64'' catalog_new) quiet_control = (Inr (Some 0), quiet_control)"
    using f quiet_check by (simp add: q_displayed_child_count_def q_bind_def q_ok_def q_ret_def check_work_items_def catalog_count_def)
  have empty: "denoted_children (\<lambda>_. False) catalog_new ''64'' [] FoldersFirstOrder 0 4096 = Some ([], 0)"
    using f by (simp add: denoted_children_def Let_def existing_children_def)
  have args: "index_arg (Some 0) = Some 0" "requested_take 0 = 4096"
    by (simp_all add: index_arg_def requested_take_def MAX_SOAP_PAGE_OBJECTS_def)
  have run: "\<exists>r :: (unit, unit) http_response. soap_browse (\<lambda>_. False) 8 sample_app (page_call ''Browse'' ''64'') (hd CLIENTS) None filter_standard True
      (plain_world catalog_new) quiet_control = (Inr (r, None), quiet_control)"
    using plain_db_page [of catalog_new] plain_lock kids new_root_page [of 4096] f(1)
    by (simp add: soap_browse_def page_call_def args sample_app_def sample_remap no_sort generic_order browse_children_def Let_def
        q_bind_def q_ok_def q_ret_def plain_world_def usable_page_def page_http_def)
  then obtain r :: "(unit, unit) http_response" where r: "soap_browse (\<lambda>_. False) 8 sample_app (page_call ''Browse'' ''64'') (hd CLIENTS) None filter_standard True
      (plain_world catalog_new) quiet_control = (Inr (r, None), quiet_control)" by blast
  have "\<not> from_database (plain_world catalog_new) k rows matches ins" for k rows matches ins
    by (simp add: from_database_def offered_def plain_world_def pc_get_def)
  then show ?thesis
    using browse_answered [OF _ _ _ _ _ _ r, where oid_raw = "''64''" and start = 0 and requested = 0 and specs = "[]"] empty r
    by (auto simp: plain_world_def page_call_def args no_sort generic_order sample_remap sample_app_def browse_rendered_def
        quiet_control_def query_control_new_def)
qed

subsection \<open>Search\<close>

lemma orderly_search_memory [intro]:
  "orderly (search_memory_page lc (to_didl_ref app cat c ua bits) cat' root q specs d start n)"
  unfolding search_memory_page_def by (auto intro!: orderly_steps orderly_hits split: option.split)

lemma search_memory_live:
  "returns_live (search_memory_page lc (to_didl_ref app cat c ua bits) cat' root q specs d start n)
    (\<lambda>(ds, matches). let rows = stable_sort (rows_order specs d) (matching_rows lc cat' root q)
       in ds = map (didl_of app cat c ua bits) (take n (drop start rows)) \<and> matches = min (length rows) 4294967295)"
  unfolding search_memory_page_def
  by (rule returns_live_bind [OF returns_live_ok [OF search_hits_returns orderly_hits]])
    (auto simp: Let_def catalog_count_def u32_max_def intro!: orderly_steps returns_live_ret returns_live_bind [OF render_rows_live]
      split: option.split)

definition denoted_hits ::
  "(string \<Rightarrow> string) \<Rightarrow> catalog \<Rightarrow> string \<Rightarrow> search_clause list list \<Rightarrow> sort_spec list \<Rightarrow> default_order \<Rightarrow> nat \<Rightarrow> nat \<Rightarrow>
     catalog_child list \<times> nat" where
  "denoted_hits lc cat root q specs d start n =
     (let rows = stable_sort (rows_order specs d) (matching_rows lc cat root q)
      in (take n (drop start rows), min (length rows) 4294967295))"

lemma search_rows_live:
  "returns_live (search_rows lc sk app c ua bits w scope clauses specs start n)
    (\<lambda>r. \<exists>rows matches ins. r = Inr (map (didl_of app (pw_catalog w) c ua bits) rows, matches, ins) \<and>
       (denoted_hits lc (pw_catalog w) scope clauses specs (default_order_of c) start n = (rows, matches) \<and> ins = None \<or>
        from_database w (sk (scope, clauses, specs, default_order_of c, start, n)) rows matches ins))" (is "returns_live _ ?P")
proof -
  let ?cat = "pw_catalog w" and ?d = "default_order_of c" and ?k = "sk (scope, clauses, specs, default_order_of c, start, n)"
  have memory: "returns_live (q_bind (search_memory_page lc (to_didl_ref app ?cat c ua bits) ?cat scope clauses specs ?d start n)
      (\<lambda>(ds, matches). q_ret (Inr (ds, matches, None)))) ?P"
    by (rule returns_live_bind [OF search_memory_live])
      (auto simp: Let_def denoted_hits_def intro!: returns_live_ret)
  have database: "returns_live (q_bind (render_rows (to_didl_ref app ?cat c ua bits) items) (\<lambda>ds.
      q_ret (Inr (ds, pg_total page, Some (pw_catalog_generation w, ?k, page))))) ?P"
    if "usable_page w t db = Some (items, page)" "\<forall>s. db = Some s \<longrightarrow> offered w ?k s"
    for t db items page
  proof -
    have "from_database w ?k items (pg_total page) (Some (pw_catalog_generation w, ?k, page))"
      using that by (auto simp: usable_page_iff from_database_def)
    then show ?thesis
      by (intro returns_live_bind [OF render_rows_live] returns_live_ret orderly_ret) (auto simp: Let_def)
  qed
  show ?thesis
    unfolding search_rows_def Let_def
    by (rule returns_live_bind [OF returns_live [OF find_db_page_offered]], rule returns_live_bind [OF read_live])
      (auto intro!: database memory orderly_steps orderly_search_memory split: option.split)
qed

text \<open>
  C3: A Search that nothing stopped answers with the longest page that fits for a list of rows, rendered
  with the catalogue's values: the requested slice of the rows below the container that match the
  criteria, in the requested order and with their number as the total, or the rows of a page that the
  database gave for the generation of this very catalogue.
\<close>

theorem search_answered:
  fixes app :: soap_app
  assumes "non_empty (sc_object_id call) = Some scope_raw"
      "index_arg (sc_starting_index call) = Some start" "index_arg (sc_requested_count call) = Some requested"
      "sort_or_709 (sc_sort_criteria call) c = Inr specs"
      "try_parse_search_criteria (sc_search_criteria call) = Inr clauses"
    and "soap_search lc sk app call c ua bits persist w q = (Inr (r, ins), q')" "qc_stopped q' = None"
  defines "scope \<equiv> remap_object_id (sa_root_container app) scope_raw c"
    and "n \<equiv> requested_take requested"
  shows "\<exists>rows matches. r = page_response_of True w bits (map (didl_of app (pw_catalog w) c ua bits) rows) matches \<and>
      (denoted_hits lc (pw_catalog w) scope clauses specs (default_order_of c) start n = (rows, matches) \<and> ins = None \<or>
       from_database w (sk (scope, clauses, specs, default_order_of c, start, n)) rows matches ins)"
proof -
  have "returns_live (soap_search lc sk app call c ua bits persist w)
    (\<lambda>(r, ins). \<exists>rows matches. r = page_response_of True w bits (map (didl_of app (pw_catalog w) c ua bits) rows) matches \<and>
      (denoted_hits lc (pw_catalog w) scope clauses specs (default_order_of c) start n = (rows, matches) \<and> ins = None \<or>
       from_database w (sk (scope, clauses, specs, default_order_of c, start, n)) rows matches ins))"
    unfolding soap_search_def Let_def assms(1-5) option.case prod.case sum.case scope_def [symmetric] n_def [symmetric]
    by (rule returns_live_bind [OF search_rows_live])
      (fastforce simp: page_http_def page_response_of_def intro!: returns_live_ret)+
  then show ?thesis using assms(6,7) unfolding returns_live_def by blast
qed

lemma search_answered_witness:
  "\<exists>r :: (unit, unit) http_response. soap_search (\<lambda>s. s) (\<lambda>_. []) sample_app (page_call ''Search'' ''0'') (hd CLIENTS) None
       filter_standard True (plain_world (sample_catalog two_folders)) quiet_control = (Inr (r, None), quiet_control) \<and>
     (\<exists>objects. r = page_response_of True (plain_world (sample_catalog two_folders)) filter_standard objects 2)"
proof -
  have none: "try_parse_search_criteria None = Inr [[AllClause]]" "remap_object_id None ''0'' (hd CLIENTS) = ''0''"
    by code_simp+
  have id0: "non_empty (Some ''0'') = Some ''0''" by (simp add: non_empty_def)
  have args: "index_arg (Some 0) = Some 0" "requested_take 0 = 4096"
    by (simp_all add: index_arg_def requested_take_def MAX_SOAP_PAGE_OBJECTS_def)
  have kids: "q_displayed_child_count i (sample_catalog two_folders) quiet_control = (Inr 0, quiet_control)"
      "q_displayed_container_count i (sample_catalog two_folders) quiet_control = (Inr 0, quiet_control)"
    if "i \<in> {''a'', ''b''}" for i
    using that quiet_check
    by (auto simp: q_displayed_child_count_def q_displayed_container_count_def recent_root_def VIDEO_RECENT_ID_def two_folders_def
        sample_catalog_def sample_folder_def empty_catalog_def q_bind_def q_ret_def check_work_items_def catalog_count_def)
  have rows: "\<exists>objects. render_rows (to_didl_ref sample_app (sample_catalog two_folders) (hd CLIENTS) None filter_standard)
      [ContainerChild (sample_folder ''b'' ''A''), ContainerChild (sample_folder ''a'' ''B'')] quiet_control = (Inr objects, quiet_control)"
    using kids quiet_check by (simp add: q_bind_def q_ok_def q_ret_def sample_folder_def)
  have hits: "stable_sort (rows_order [] FoldersFirstOrder) (matching_rows (\<lambda>s. s) (sample_catalog two_folders) ''0'' [[AllClause]]) =
      [ContainerChild (sample_folder ''b'' ''A''), ContainerChild (sample_folder ''a'' ''B'')]"
    using search_hits_returns [of "\<lambda>s. s" "sample_catalog two_folders" "''0''" "[[AllClause]]" "[]" FoldersFirstOrder] sample_run(1)
    unfolding returns_def by metis
  have total: "snd (denoted_hits (\<lambda>s. s) (sample_catalog two_folders) ''0'' [[AllClause]] [] FoldersFirstOrder 0 4096) = 2"
    by (simp add: denoted_hits_def hits Let_def)
  have run: "\<exists>r :: (unit, unit) http_response. soap_search (\<lambda>s. s) (\<lambda>_. []) sample_app (page_call ''Search'' ''0'') (hd CLIENTS) None
       filter_standard True (plain_world (sample_catalog two_folders)) quiet_control = (Inr (r, None), quiet_control)"
    using plain_db_page [of "sample_catalog two_folders"] plain_lock rows
    by (auto simp: soap_search_def page_call_def args id0 none sample_app_def no_sort generic_order search_rows_def Let_def
        q_bind_def q_ok_def q_ret_def plain_world_def usable_page_def page_http_def search_memory_page_def sample_run)
  then obtain r :: "(unit, unit) http_response" where r: "soap_search (\<lambda>s. s) (\<lambda>_. []) sample_app (page_call ''Search'' ''0'')
       (hd CLIENTS) None filter_standard True (plain_world (sample_catalog two_folders)) quiet_control = (Inr (r, None), quiet_control)"
    by blast
  have live: "qc_stopped quiet_control = None" by (simp add: quiet_control_def query_control_new_def)
  let ?call = "page_call ''Search'' ''0''"
  have call: "non_empty (sc_object_id ?call) = Some ''0''" "index_arg (sc_starting_index ?call) = Some 0"
      "index_arg (sc_requested_count ?call) = Some 0" "sort_or_709 (sc_sort_criteria ?call) (hd CLIENTS) = Inr []"
      "try_parse_search_criteria (sc_search_criteria ?call) = Inr [[AllClause]]"
    by (simp_all add: page_call_def id0 none args no_sort)
  have at: "remap_object_id (sa_root_container sample_app) ''0'' (hd CLIENTS) = ''0''" "pw_catalog (plain_world cat) = cat" for cat
    by (simp_all add: sample_app_def none plain_world_def)
  obtain rows matches where page:
      "r = page_response_of True (plain_world (sample_catalog two_folders)) filter_standard
         (map (didl_of sample_app (sample_catalog two_folders) (hd CLIENTS) None filter_standard) rows) matches"
      "denoted_hits (\<lambda>s. s) (sample_catalog two_folders) ''0'' [[AllClause]] [] FoldersFirstOrder 0 4096 = (rows, matches)"
    using search_answered [OF call r live] unfolding at args generic_order
    by (elim exE conjE disjE) (simp_all add: from_database_def offered_def plain_world_def pc_get_def)
  then have "matches = 2" using total by (metis snd_conv)
  then show ?thesis using r page(1) by blast
qed

end
