(* ===== verification/Transcode_Rules.thy ===== *)
theory Transcode_Rules
  imports Transcode_Plan
begin

text \<open>
  What a validated configuration promises: every plan that a matching rule gives is one its action
  allows, and the rule is the first that matches.
\<close>

lemma validate_rules_all:
  "validate_rules default_encoder index rs = Inr () \<longleftrightarrow>
     (\<forall>i < length rs. validate_rule default_encoder (index + i) (rs ! i) = Inr ())"
proof (induction rs arbitrary: index)
  case (Cons r rs)
  have "(\<forall>i < length (r # rs). validate_rule default_encoder (index + i) ((r # rs) ! i) = Inr ()) \<longleftrightarrow>
      validate_rule default_encoder index r = Inr () \<and>
      (\<forall>i < length rs. validate_rule default_encoder (Suc index + i) (rs ! i) = Inr ())"
    by (auto simp: nth_Cons split: nat.split)
  then show ?case using Cons.IH [of "Suc index"] by (auto simp: bind_res_Inr)
qed simp

lemma validated_member:
  assumes "validate_remap_rules rules default_encoder = Inr ()" "r \<in> set rules"
  obtains i where "validate_rule default_encoder i r = Inr ()"
  using assms validate_rules_all [of default_encoder 0 rules]
  by (metis add_0 in_set_conv_nth sum.distinct(1) validate_remap_rules_def)

text \<open>The plans that fit an action.\<close>

definition plan_fits :: "transcode_plan \<Rightarrow> bool" where
  "plan_fits p \<longleftrightarrow>
     (case tp_action p of
        OriginalAction \<Rightarrow> p = default_plan\<lparr>tp_rule := tp_rule p\<rparr>
      | RemuxP8 \<Rightarrow> tp_decision p = Recode \<and> tp_video_encoder p = ''copy'' \<and> tp_container p = ''mp4''
      | Hdr10Action \<Rightarrow>
          tp_decision p = Recode \<and> valid_codec_name (tp_video_encoder p) \<and> tp_video_encoder p \<noteq> ''copy'' \<and> tp_container p = ''mp4''
      | AudioAc3 \<Rightarrow> tp_decision p = Recode \<and> tp_video_encoder p = ''copy'' \<and> tp_container p = ''original''
      | BrowserAction \<Rightarrow> False)"

lemma rule_plan_fits:
  assumes "validate_rule default_encoder i r = Inr ()" "valid_codec_name default_encoder" "default_encoder \<noteq> ''copy''"
  shows "plan_fits (plan_from_rule r src (Some default_encoder))"
proof (cases "rr_encoder r")
  case None
  then show ?thesis using assms
    by (cases "rr_action r")
      (auto simp: plan_fits_def plan_from_rule_def validate_rule_def Let_def option_is_def unwrap_or_def default_plan_def
        split: if_splits)
next
  case (Some e)
  then show ?thesis using assms
    by (cases "rr_action r")
      (auto simp: plan_fits_def plan_from_rule_def validate_rule_def Let_def option_is_def unwrap_or_def default_plan_def
        split: if_splits)
qed

lemma find_first:
  "List.find P xs = Some x \<Longrightarrow> \<exists>ys zs. xs = ys @ x # zs \<and> P x \<and> (\<forall>y\<in>set ys. \<not> P y)"
proof (induction xs)
  case (Cons a xs)
  show ?case
  proof (cases "P a")
    case True
    then show ?thesis using Cons.prems by (intro exI [of _ "[]"] exI [of _ xs]) simp
  next
    case False
    then obtain ys zs where "xs = ys @ x # zs" "P x" "\<forall>y\<in>set ys. \<not> P y" using Cons by auto
    then show ?thesis using False by (intro exI [of _ "a # ys"] exI [of _ zs]) simp
  qed
qed simp

text \<open>
  C40: A configuration that passes validation only gives plans its actions allow. For every renderer,
  source and User-Agent the plan is the default one when no rule matches or the dynamic range of the
  source is unknown, and otherwise that of the first rule that matches; an original is served unchanged,
  a remux and an audio conversion copy the video, an HDR10 rendition names a real encoder and never
  copies, the browser's action never comes from a rule, and a source whose dynamic range is unknown is
  never re-encoded.
\<close>
theorem validated_plans:
  fixes profile :: client_profile and ua :: "string option" and src :: source_media
  assumes "validate_remap_rules rules default_encoder = Inr ()"
  defines "p \<equiv> decide_for_with_default_encoder profile ua src rules (Some default_encoder)"
  shows "plan_fits p \<and> (tp_decision p = ServeOriginal \<longleftrightarrow> tp_action p = OriginalAction) \<and>
    (if sm_hdr src = UnknownHdr \<or> (\<forall>q\<in>set rules. \<not> rule_matches_ua q profile ua src) then p = default_plan
     else \<exists>before r after. rules = before @ r # after \<and> rule_matches_ua r profile ua src \<and>
        (\<forall>q\<in>set before. \<not> rule_matches_ua q profile ua src) \<and> p = plan_from_rule r src (Some default_encoder))"
proof -
  have enc: "valid_codec_name default_encoder" "default_encoder \<noteq> ''copy''"
    using assms(1) by (auto simp: validate_remap_rules_def split: if_splits)
  have base: "plan_fits default_plan" "tp_decision default_plan = ServeOriginal" "tp_action default_plan = OriginalAction"
    by (simp_all add: plan_fits_def default_plan_def)
  show ?thesis
  proof (cases "sm_hdr src = UnknownHdr \<or> (\<forall>q\<in>set rules. \<not> rule_matches_ua q profile ua src)")
    case True
    moreover have "List.find (\<lambda>r. rule_matches_ua r profile ua src) rules = None"
      if "\<forall>q\<in>set rules. \<not> rule_matches_ua q profile ua src" using that by (simp add: find_None_iff)
    ultimately have "p = default_plan" unfolding p_def decide_for_with_default_encoder_def by auto
    then show ?thesis using True base by simp
  next
    case False
    then obtain r where r: "List.find (\<lambda>r. rule_matches_ua r profile ua src) rules = Some r"
      by (cases "List.find (\<lambda>r. rule_matches_ua r profile ua src) rules") (auto simp: find_None_iff)
    then have p: "p = plan_from_rule r src (Some default_encoder)"
      using False by (simp add: p_def decide_for_with_default_encoder_def)
    from find_first [OF r] obtain before after where first: "rules = before @ r # after"
        "rule_matches_ua r profile ua src" "\<forall>q\<in>set before. \<not> rule_matches_ua q profile ua src" by blast
    then obtain i where "validate_rule default_encoder i r = Inr ()"
      using validated_member [OF assms(1), of r] by auto
    from rule_plan_fits [OF this enc] have fits: "plan_fits p" using p by simp
    have "tp_decision p = ServeOriginal \<longleftrightarrow> tp_action p = OriginalAction"
      using fits by (cases "tp_action p") (auto simp: plan_fits_def default_plan_def dest: arg_cong [where f = tp_decision])
    moreover have "\<exists>before r after. rules = before @ r # after \<and> rule_matches_ua r profile ua src \<and>
        (\<forall>q\<in>set before. \<not> rule_matches_ua q profile ua src) \<and> p = plan_from_rule r src (Some default_encoder)"
      using first p by blast
    ultimately show ?thesis using fits False by (simp only: if_False)
  qed
qed

definition sample_rule :: remap_rule where
  "sample_rule = \<lparr>rr_name = Some ''tv'', rr_client = [''any''], rr_container = None, rr_video = Some Hevc,
     rr_hdr = Some DolbyVisionProfile7, rr_audio = None, rr_action = Hdr10Action, rr_encoder = None, rr_audio_out = None\<rparr>"

definition sample_source :: source_media where
  "sample_source = \<lparr>sm_container = Mkv, sm_video = Hevc, sm_hdr = DolbyVisionProfile7, sm_audio = TrueHd,
     sm_width = 3840, sm_height = 2160\<rparr>"

lemma validated_plans_witness:
  "decide_for_with_default_encoder (hd CLIENTS) None sample_source [sample_rule] (Some ''libx264'') =
     plan_from_rule sample_rule sample_source (Some ''libx264'')"
proof -
  have "validate_remap_rules [sample_rule] ''libx264'' = Inr ()" by code_simp
  note plans = validated_plans [OF this, where profile = "hd CLIENTS" and ua = None and src = sample_source]
  have "rule_matches_ua sample_rule (hd CLIENTS) None sample_source" by code_simp
  moreover have "sm_hdr sample_source \<noteq> UnknownHdr" by (simp add: sample_source_def)
  ultimately obtain before r after where "[sample_rule] = before @ r # after"
      "decide_for_with_default_encoder (hd CLIENTS) None sample_source [sample_rule] (Some ''libx264'') =
       plan_from_rule r sample_source (Some ''libx264'')"
    using plans by auto
  then show ?thesis by (cases before) auto
qed

end
