(* ===== verification/Ffmpeg_Args.thy ===== *)
theory Ffmpeg_Args
  imports Transcode_Plan Media_Formats
begin

text \<open>
  The command lines for ffmpeg (\<open>crates/transcode/src/lib.rs\<close>): the argument vector of a growing
  MP4, and the browser's edits of that vector (tone mapping, upscaling, seeking, pacing), which find the
  flags they change by searching. An \<open>expect\<close> that fails and an index out of range are
  \<open>None\<close>; assertions of debug builds are not modelled.
\<close>

subsection \<open>Vectors of arguments\<close>

definition splice :: "nat \<Rightarrow> 'a list \<Rightarrow> 'a list \<Rightarrow> 'a list option" where
  "splice i new xs = (if i \<le> length xs then Some (take i xs @ new @ drop i xs) else None)"

definition put_at :: "nat \<Rightarrow> 'a \<Rightarrow> 'a list \<Rightarrow> 'a list option" where
  "put_at i v xs = (if i < length xs then Some (xs[i := v]) else None)"

definition clamp :: "nat \<Rightarrow> nat \<Rightarrow> nat \<Rightarrow> nat" where
  "clamp x lo hi = max lo (min x hi)"

definition sq :: string where "sq = [CHR 0x27]"

definition audio_map_arg :: "transcode_plan \<Rightarrow> string" where
  "audio_map_arg p = ''0:a:'' @ decimal (tp_audio_index p) @ ''?''"

definition hdr10_encode_args :: "transcode_plan \<Rightarrow> string list" where
  "hdr10_encode_args p =
     (let x264 = str_contains ''x264'' (tp_video_encoder p)
      in [''-vf'', if x264 then ''format=yuv420p10le'' else ''format=p010le'',
          ''-c:v'', tp_video_encoder p,
          ''-profile:v'', if x264 then ''high10'' else ''main10'',
          ''-pix_fmt'', if x264 then ''yuv420p10le'' else ''p010le'',
          ''-color_primaries'', ''bt2020'', ''-color_trc'', ''smpte2084'', ''-colorspace'', ''bt2020nc'']
         @ (if x264 then [] else [''-tag:v'', ''hvc1'']))"

definition browser_scale_filter :: "browser_quality option \<Rightarrow> bool \<Rightarrow> string \<Rightarrow> string" where
  "browser_scale_filter quality cuda pixel_format =
     (case quality of
        None \<Rightarrow> ''scale_cuda=format='' @ pixel_format @ '',hwdownload,format='' @ pixel_format
      | Some q \<Rightarrow>
          if cuda then
            ''scale_cuda=w='' @ sq @ ''min(iw,'' @ decimal (max_width q) @ '')'' @ sq @ '':h='' @ sq @ ''min(ih,''
              @ decimal (max_height q) @ '')'' @ sq @ '':force_original_aspect_ratio=decrease:force_divisible_by=2:format=''
              @ pixel_format @ '',hwdownload,format='' @ pixel_format
          else
            ''scale=w='' @ sq @ ''min(iw,'' @ decimal (max_width q) @ '')'' @ sq @ '':h='' @ sq @ ''min(ih,''
              @ decimal (max_height q) @ '')'' @ sq
              @ '':force_original_aspect_ratio=decrease:force_divisible_by=2:flags=fast_bilinear,format='' @ pixel_format)"

definition live_frag_tail :: "string \<Rightarrow> string list" where
  "live_frag_tail out =
     [''-avoid_negative_ts'', ''make_zero'', ''-flush_packets'', ''1'', ''-frag_duration'', ''1000000'',
      ''-f'', ''mp4'', ''-movflags'', ''frag_keyframe+empty_moov+delay_moov+default_base_moof'', out]"

text \<open>The sections of the growing command.\<close>

definition head_args :: "transcode_plan \<Rightarrow> string list" where
  "head_args p =
     [''ffmpeg'', ''-hide_banner'', ''-nostats'', ''-y'', ''-nostdin''] @
     (case tp_hardware_decode p of
        Cuda \<Rightarrow> [''-hwaccel'', ''cuda'', ''-hwaccel_output_format'', ''cuda'']
      | Vulkan \<Rightarrow> [''-hwaccel'', ''vulkan'', ''-hwaccel_output_format'', ''vulkan'']
      | NoHardware \<Rightarrow> [])"

definition map_args :: "transcode_plan \<Rightarrow> string list" where
  "map_args p =
     [''-map'', if tp_action p = BrowserAction then ''0:V:0?'' else ''0:v:0''] @
     (case tp_download_audio p of
        Some tracks \<Rightarrow> concat (map (\<lambda>t. [''-map'', ''0:a:'' @ decimal (dt_index t)]) tracks)
      | None \<Rightarrow> [''-map'', audio_map_arg p]) @
     (if tp_action p = BrowserAction then [''-map_chapters'', ''-1''] else [])"

definition quality_crf :: "browser_quality option \<Rightarrow> nat" where
  "quality_crf q = (case q of Some q \<Rightarrow> crf q | None \<Rightarrow> 22)"

definition browser_codec_args :: "transcode_plan \<Rightarrow> string list" where
  "browser_codec_args p =
     (let q = tp_browser_quality p; hevc = (tp_video_encoder p = ''hevc_nvenc'');
          format = (if hevc then ''p010le'' else ''yuv420p'')
      in if tp_video_encoder p \<in> {''h264_nvenc'', ''hevc_nvenc''} then
           [''-preset'', ''p4'', ''-tune'', ''hq'', ''-rc'', ''vbr'', ''-cq'',
            decimal (quality_crf q - (if hevc then 2 else 0)), ''-b:v'', ''0'', ''-forced-idr'', ''1''] @
           (if tp_hardware_decode p = Cuda then [''-vf'', browser_scale_filter q True format]
            else [''-pix_fmt'', format] @ (if q \<noteq> None then [''-vf'', browser_scale_filter q False format] else []))
         else
           [''-preset'', ''veryfast'', ''-crf'', decimal (quality_crf q), ''-pix_fmt'', ''yuv420p''] @
           (if q \<noteq> None then [''-vf'', browser_scale_filter q False ''yuv420p''] else []))"

definition rate_args :: "browser_quality option \<Rightarrow> string list" where
  "rate_args quality =
     (case quality of
        None \<Rightarrow> []
      | Some q \<Rightarrow> [''-maxrate'', decimal (max_video_kbps q) @ ''k'', ''-bufsize'', decimal (buffer_kbps q) @ ''k'',
                   ''-fpsmax'', decimal (max_fps q)])"

definition profile_args :: "transcode_plan \<Rightarrow> string list" where
  "profile_args p =
     (let q = tp_browser_quality p
      in if tp_video_encoder p = ''hevc_nvenc'' then
           [''-profile:v'', ''main10'', ''-level:v'', ''5.1''] @
           (if tp_keep_hdr10 p
            then [''-color_primaries'', ''bt2020'', ''-color_trc'', ''smpte2084'', ''-colorspace'', ''bt2020nc'']
            else [])
         else
           [''-profile:v'', case q of Some q \<Rightarrow> h264_profile q | None \<Rightarrow> ''high''] @
           (if option_is mobile_safe_h264 q then [''-bf'', ''0'', ''-refs'', ''1''] else []) @
           (if q \<noteq> Some AutoQuality
            then [''-level:v'', case q of Some q \<Rightarrow> h264_level q | None \<Rightarrow> ''4.1''] else []))"

definition video_args :: "transcode_plan \<Rightarrow> string list" where
  "video_args p =
     (case tp_action p of
        OriginalAction \<Rightarrow> []
      | RemuxP8 \<Rightarrow> [''-c:v'', tp_video_encoder p]
      | AudioAc3 \<Rightarrow> [''-c:v'', tp_video_encoder p]
      | Hdr10Action \<Rightarrow> hdr10_encode_args p
      | BrowserAction \<Rightarrow>
          if tp_video_encoder p = ''copy'' then [''-c:v'', ''copy'']
          else [''-c:v'', tp_video_encoder p] @ browser_codec_args p @ rate_args (tp_browser_quality p) @
               profile_args p @ [''-force_key_frames'', ''expr:gte(t,n_forced*2)''])"

definition track_args :: "nat \<times> download_track \<Rightarrow> string list" where
  "track_args = (\<lambda>(i, t).
     [''-c:a:'' @ decimal i, if dt_copy t then ''copy'' else ''aac''] @
     (if \<not> dt_copy t then
        (let channels = clamp (dt_channels t) 1 8
         in [''-ac:a:'' @ decimal i, decimal channels,
             ''-b:a:'' @ decimal i, decimal (clamp (channels * 96) 128 768) @ ''k''])
      else if dt_aac t then [''-bsf:a:'' @ decimal i, ''aac_adtstoasc'']
      else []) @
     [''-disposition:a:'' @ decimal i, if dt_default t then ''default'' else ''0''])"

definition audio_args :: "transcode_plan \<Rightarrow> string list" where
  "audio_args p =
     (case tp_download_audio p of
        Some tracks \<Rightarrow> concat (map track_args (enumerate 0 tracks))
      | None \<Rightarrow>
          (case tp_audio p of
             CopyAudio \<Rightarrow> [''-c:a'', ''copy'']
           | ToAc3 \<Rightarrow> [''-c:a'', ''ac3'', ''-b:a'', ''640k'']
           | ToAac \<Rightarrow>
               [''-c:a'', ''aac'', ''-b:a'',
                decimal (case tp_browser_quality p of Some q \<Rightarrow> audio_kbps q | None \<Rightarrow> 256) @ ''k''] @
               (if tp_browser_quality p \<noteq> None then [''-ac'', ''2''] else [])))"

definition ffmpeg_grow_args :: "string \<Rightarrow> string \<Rightarrow> transcode_plan \<Rightarrow> string list" where
  "ffmpeg_grow_args src dst p =
     head_args p @ [''-i'', src] @ map_args p @ video_args p @ audio_args p @ live_frag_tail dst"

definition ffmpeg_grow_os_args :: "string \<Rightarrow> string \<Rightarrow> transcode_plan \<Rightarrow> string list option" where
  "ffmpeg_grow_os_args src dst p =
     (let args = ffmpeg_grow_args [] [] p
      in Option.bind (position (\<lambda>a. a = ''-i'') args) (\<lambda>i.
         map_option (\<lambda>xs. if xs = [] then [] else butlast xs @ [dst]) (put_at (i + 1) src args)))"

subsection \<open>The browser's edits\<close>

datatype seek_policy = Accurate | PreserveCopiedVideoPreroll | PreciselyTrimCopiedAudioPreroll

record output_options =
  oo_encoding_preset :: encoding_preset
  oo_source_video :: "video_codec option"
  oo_selected_audio :: audio_codec
  oo_source_hdr :: hdr_kind
  oo_start_seconds :: nat
  oo_hls :: bool

record output_policy =
  op_source_requires_sdr_tonemap :: bool
  op_apply_sdr_tonemap :: bool
  op_filter_copied_aac :: bool
  op_tag_hevc_as_hvc1 :: bool
  op_seek :: seek_policy

definition browser_requires_sdr_tonemap :: "hdr_kind \<Rightarrow> bool" where
  "browser_requires_sdr_tonemap h \<longleftrightarrow>
     h \<in> {Hdr10, DolbyVisionProfile5, DolbyVisionProfile7, DolbyVisionProfile8, DolbyVisionOther}"

definition browser_output_policy :: "transcode_plan \<Rightarrow> output_options \<Rightarrow> output_policy" where
  "browser_output_policy p opts =
     (let has_video = (oo_source_video opts \<noteq> None);
          needs_sdr = (has_video \<and> browser_requires_sdr_tonemap (oo_source_hdr opts));
          video_copied = (has_video \<and> tp_video_encoder p = ''copy'');
          audio_copied = (tp_audio p = CopyAudio)
      in \<lparr>op_source_requires_sdr_tonemap = needs_sdr,
          op_apply_sdr_tonemap =
            (needs_sdr \<and> tp_video_encoder p \<noteq> ''copy'' \<and> tp_video_encoder p \<noteq> ''hevc_nvenc''),
          op_filter_copied_aac = (audio_copied \<and> oo_selected_audio opts = Aac),
          op_tag_hevc_as_hvc1 =
            (oo_source_video opts = Some Hevc \<and> tp_video_encoder p \<in> {''copy'', ''hevc_nvenc''}),
          op_seek =
            (if oo_start_seconds opts = 0 \<or> \<not> has_video \<or> video_copied = audio_copied then Accurate
             else if audio_copied then PreciselyTrimCopiedAudioPreroll
             else PreserveCopiedVideoPreroll)\<rparr>)"

definition browser_cache_uses_sdr_tonemap_revision :: "transcode_plan \<Rightarrow> output_options \<Rightarrow> bool" where
  "browser_cache_uses_sdr_tonemap_revision p opts = op_apply_sdr_tonemap (browser_output_policy p opts)"

definition input_position :: "string list \<Rightarrow> nat option" where
  "input_position args = position (\<lambda>a. a = ''-i'') args"

definition before_output :: "string list \<Rightarrow> string list \<Rightarrow> string list option" where
  "before_output new args = splice (length args - 1) new args"

text \<open>Replacing the value of the video filter, or adding the flag before the encoder.\<close>

definition set_video_filter :: "string \<Rightarrow> string list \<Rightarrow> string list option" where
  "set_video_filter filter_text args =
     (case position (\<lambda>a. a = ''-vf'') args of
        Some vf \<Rightarrow> put_at (vf + 1) filter_text args
      | None \<Rightarrow>
          Option.bind (position (\<lambda>a. a = ''-c:v'') args) (\<lambda>c. splice c [''-vf'', filter_text] args))"

definition tonemap_filter :: "hardware_decode \<Rightarrow> browser_quality \<Rightarrow> string" where
  "tonemap_filter decode q =
     (let libplacebo =
            ''libplacebo=apply_dolbyvision=true:colorspace=bt709:'' @
            ''color_primaries=bt709:color_trc=bt709:range=tv:'' @
            ''tonemapping=bt.2390:format=yuv420p:'' @
            ''w='' @ sq @ ''min(iw,'' @ decimal (max_width q) @ '')'' @ sq @
            '':h='' @ sq @ ''min(ih,'' @ decimal (max_height q) @ '')'' @ sq @
            '':force_original_aspect_ratio=decrease:force_divisible_by=2''
      in case decode of
           Vulkan \<Rightarrow> libplacebo @ '',hwdownload,format=yuv420p''
         | Cuda \<Rightarrow> ''hwdownload,format=p010le,hwupload,'' @ libplacebo @ '',hwdownload,format=yuv420p''
         | NoHardware \<Rightarrow> ''format=yuv420p10le,hwupload,'' @ libplacebo @ '',hwdownload,format=yuv420p'')"

definition apply_browser_sdr_tonemap ::
  "hardware_decode \<Rightarrow> browser_quality \<Rightarrow> string list \<Rightarrow> string list option" where
  "apply_browser_sdr_tonemap decode q args =
     Option.bind (input_position args) (\<lambda>i.
     Option.bind (splice i ([''-init_hw_device'', ''vulkan=vk:0'', ''-filter_hw_device'', ''vk''] @
                     (if decode = Vulkan then [''-hwaccel_device'', ''vk''] else [])) args) (\<lambda>args.
     Option.bind (set_video_filter (tonemap_filter decode q) args) (\<lambda>args.
     before_output [''-color_primaries'', ''bt709'', ''-color_trc'', ''bt709'', ''-colorspace'', ''bt709'',
       ''-color_range'', ''tv''] args)))"

definition AI_UPSCALE_SHADER_CHILD_PATH :: string where
  "AI_UPSCALE_SHADER_CHILD_PATH = ''/proc/self/fd/5''"

definition upscale_filter :: "hardware_decode \<Rightarrow> browser_quality \<Rightarrow> string" where
  "upscale_filter decode q =
     (let libplacebo =
            ''libplacebo=custom_shader_path='' @ AI_UPSCALE_SHADER_CHILD_PATH @ '':format=yuv420p:'' @
            ''w='' @ decimal (max_width q) @ '':h='' @ decimal (max_height q) @
            '':force_original_aspect_ratio=decrease:'' @ ''force_divisible_by=2''
      in case decode of
           Vulkan \<Rightarrow> libplacebo @ '',hwdownload,format=yuv420p''
         | Cuda \<Rightarrow> ''hwdownload,format=nv12,hwupload,'' @ libplacebo @ '',hwdownload,format=yuv420p''
         | NoHardware \<Rightarrow> ''format=yuv420p,hwupload,'' @ libplacebo @ '',hwdownload,format=yuv420p'')"

definition apply_browser_ai_upscale ::
  "hardware_decode \<Rightarrow> browser_quality \<Rightarrow> string list \<Rightarrow> string list option" where
  "apply_browser_ai_upscale decode q args =
     Option.bind (input_position args) (\<lambda>i.
     Option.bind (splice i [''-init_hw_device'', ''vulkan=vk:0'', ''-filter_hw_device'', ''vk''] args) (\<lambda>args.
     set_video_filter (upscale_filter decode q) args))"

definition DECODE_PREROLL_SECONDS :: nat where "DECODE_PREROLL_SECONDS = 5"

definition apply_browser_input_seek :: "nat \<Rightarrow> seek_policy \<Rightarrow> string list \<Rightarrow> string list option" where
  "apply_browser_input_seek start policy args =
     (if start = 0 then Some args
      else
        Option.bind (input_position args) (\<lambda>i.
          if policy = PreciselyTrimCopiedAudioPreroll then
            (let preroll = min start DECODE_PREROLL_SECONDS; fast = start - preroll
             in if fast > 0
                then Option.bind (splice i [''-ss'', decimal fast] args) (splice (i + 4) [''-ss'', decimal preroll])
                else splice (i + 2) [''-ss'', decimal preroll] args)
          else
            splice i ((if policy = PreserveCopiedVideoPreroll then [''-noaccurate_seek''] else []) @
                      [''-ss'', decimal start]) args))"

definition apply_browser_hls_keyframes :: "bool \<Rightarrow> string list \<Rightarrow> string list" where
  "apply_browser_hls_keyframes hls args =
     (if \<not> hls then args
      else case position (\<lambda>a. a = ''-force_key_frames'') args of
             None \<Rightarrow> args
           | Some i \<Rightarrow> args[i + 1 := ''expr:gte(t,n_forced*1)''])"

definition apply_browser_hls_pacing :: "bool \<Rightarrow> bool \<Rightarrow> bool \<Rightarrow> string list \<Rightarrow> string list option" where
  "apply_browser_hls_pacing hls encoding catchup args =
     (if \<not> hls \<or> \<not> encoding then Some args
      else
        Option.bind (input_position args) (\<lambda>i.
          splice i ([''-readrate'', ''1'', ''-readrate_initial_burst'', ''30''] @
                    (if catchup then [''-readrate_catchup'', ''100''] else [])) args))"

text \<open>One flag of a preset: its value is replaced, or the pair is added before the output.\<close>

definition set_flag :: "string \<times> string \<Rightarrow> string list \<Rightarrow> string list option" where
  "set_flag = (\<lambda>(flag, v) args.
     case position (\<lambda>a. a = flag) args of
       Some i \<Rightarrow> Some (args[i + 1 := v])
     | None \<Rightarrow> before_output [flag, v] args)"

definition apply_browser_encoding_preset ::
  "transcode_plan \<Rightarrow> output_options \<Rightarrow> string list \<Rightarrow> string list option" where
  "apply_browser_encoding_preset p opts args =
     (if oo_source_video opts = None \<or> tp_video_encoder p = ''copy'' \<or> oo_encoding_preset opts = Balanced then Some args
      else
        (let hw = nvenc (tp_video_encoder p); fastest = (oo_encoding_preset opts = MaximumSpeed);
             preset = (if hw then if fastest then ''p2'' else ''p4''
                       else if fastest then ''ultrafast'' else ''veryfast'');
             tune = (if hw then ''ll'' else ''zerolatency'')
         in Option.bind (set_flag (''-preset'', preset) args) (\<lambda>args.
            Option.bind (set_flag (''-tune'', tune) args) (\<lambda>args.
            Option.bind (set_flag (''-bf'', ''0'') args) (\<lambda>args.
            if hw then before_output [''-rc-lookahead'', ''0'', ''-zerolatency'', ''1'', ''-delay'', ''0''] args
            else Some args)))))"

definition browser_ffmpeg_os_args_with_readrate_catchup ::
  "string \<Rightarrow> string \<Rightarrow> transcode_plan \<Rightarrow> output_options \<Rightarrow> bool \<Rightarrow> string list option" where
  "browser_ffmpeg_os_args_with_readrate_catchup src dst p opts catchup =
     (let policy = browser_output_policy p opts; q = unwrap_or (tp_browser_quality p) AutoQuality
      in Option.bind (ffmpeg_grow_os_args src dst p) (\<lambda>args.
         Option.bind (apply_browser_encoding_preset p opts args) (\<lambda>args.
         Option.bind (if op_apply_sdr_tonemap policy
                      then apply_browser_sdr_tonemap (tp_hardware_decode p) q args else Some args) (\<lambda>args.
         Option.bind (if tp_browser_ai_upscale p \<noteq> None
                      then apply_browser_ai_upscale (tp_hardware_decode p) q args else Some args) (\<lambda>args.
         Option.bind (if op_filter_copied_aac policy \<and> tp_download_audio p = None
                      then before_output [''-bsf:a'', ''aac_adtstoasc''] args else Some args) (\<lambda>args.
         Option.bind (if op_tag_hevc_as_hvc1 policy
                      then before_output [''-tag:v'', ''hvc1''] args else Some args) (\<lambda>args.
         Option.bind (apply_browser_hls_pacing (oo_hls opts)
                        (tp_video_encoder p \<noteq> ''copy'' \<or> tp_audio p \<noteq> CopyAudio) catchup
                        (apply_browser_hls_keyframes (oo_hls opts) args)) (\<lambda>args.
         apply_browser_input_seek (oo_start_seconds opts) (op_seek policy) args))))))))"

definition browser_ffmpeg_os_args ::
  "string \<Rightarrow> string \<Rightarrow> transcode_plan \<Rightarrow> output_options \<Rightarrow> string list option" where
  "browser_ffmpeg_os_args src dst p opts = browser_ffmpeg_os_args_with_readrate_catchup src dst p opts True"

text \<open>Handing the source to the helper as a descriptor.\<close>

definition inherited_media_input_options :: "int \<Rightarrow> string list" where
  "inherited_media_input_options fd =
     [''-protocol_whitelist'', ''fd'', ''-format_whitelist'', MEDIA_DEMUXER_WHITELIST, ''-fd'', int_decimal fd]"

fun positions :: "nat \<Rightarrow> string \<Rightarrow> string list \<Rightarrow> nat list" where
  "positions i x [] = []"
| "positions i x (a # as) = (if a = x then i # positions (Suc i) x as else positions (Suc i) x as)"

definition use_inherited_media_input :: "nat \<Rightarrow> int \<Rightarrow> string list \<Rightarrow> string + string list" where
  "use_inherited_media_input ordinal fd args =
     (let inputs = positions 0 ''-i'' args
      in if ordinal < length inputs then
           (let i = inputs ! ordinal
            in if i + 1 < length args then
                 Inr (take i args @ inherited_media_input_options fd @ drop i (args[i + 1 := ''fd:'']))
               else Inl ''missing media input URL'')
         else Inl ''missing media input'')"

end
