(* ===== verification/Ffmpeg_Shape.thy ===== *)
theory Ffmpeg_Shape
  imports Ffmpeg_Args
begin

text \<open>
  What the edits of the argument vector leave of it. The code finds the flags it changes by comparing
  every argument with their names, the two file names included; the lemmas show that with names that do
  not start with a dash every search ends at the flag it is meant for, that no \<open>expect\<close> fails, and
  that the names end up in their own places, whatever they are.
\<close>

subsection \<open>Vectors of flags and values\<close>

definition looked_for :: "string set" where
  "looked_for = {''-i'', ''-ss'', ''-vf'', ''-c:v'', ''-preset'', ''-tune'', ''-bf'', ''-force_key_frames''}"

definition undashed :: "string \<Rightarrow> bool" where
  "undashed s \<longleftrightarrow> take 1 s \<noteq> ''-''"

fun well_paired :: "string list \<Rightarrow> bool" where
  "well_paired [] = True"
| "well_paired [f] = False"
| "well_paired (f # v # xs) \<longleftrightarrow> f \<notin> {''-i'', ''-ss''} \<and> v \<notin> looked_for \<and> well_paired xs"

definition frame :: "string list \<Rightarrow> string \<Rightarrow> string list \<Rightarrow> string \<Rightarrow> string list" where
  "frame pre src post dst = pre @ [''-i'', src] @ post @ [dst]"

definition shaped :: "string list \<Rightarrow> string list \<Rightarrow> bool" where
  "shaped pre post \<longleftrightarrow> set pre \<inter> looked_for = {} \<and> well_paired post \<and> ''-c:v'' \<in> set post"

lemma undashed_not_looked_for: "undashed s \<Longrightarrow> s \<notin> looked_for"
  by (auto simp: undashed_def looked_for_def)

lemma undashed_Cons [simp]: "undashed (c # s) \<longleftrightarrow> c \<noteq> CHR ''-''"
  by (simp add: undashed_def)

lemma undashed_decimal [simp]: "undashed (decimal n @ s)"
proof -
  obtain c cs where c: "decimal n = c # cs" by (cases "decimal n") auto
  then have "is_digit c" using set_decimal [of c n] by simp
  then show ?thesis by (auto simp: c is_digit_def)
qed

lemma undashed_decimal' [simp]: "undashed (decimal n)"
  using undashed_decimal [of n "[]"] by simp

lemma well_paired_append: "well_paired xs \<Longrightarrow> well_paired (xs @ ys) = well_paired ys"
  by (induction xs rule: well_paired.induct) auto

lemma well_paired_appendI: "well_paired xs \<Longrightarrow> well_paired ys \<Longrightarrow> well_paired (xs @ ys)"
  by (simp add: well_paired_append)

lemma well_paired_concat: "(\<And>x. x \<in> set xs \<Longrightarrow> well_paired (f x)) \<Longrightarrow> well_paired (concat (map f xs))"
  by (induction xs) (auto simp: well_paired_append)

lemma well_paired_no_input: "well_paired xs \<Longrightarrow> ''-i'' \<notin> set xs \<and> ''-ss'' \<notin> set xs"
  by (induction xs rule: well_paired.induct) (auto simp: looked_for_def)

lemma position_append:
  "position P (xs @ ys) =
     (case position P xs of Some i \<Rightarrow> Some i | None \<Rightarrow> map_option ((+) (length xs)) (position P ys))"
  by (induction xs; cases "position P ys") (auto split: option.splits)

lemma position_None: "position P xs = None \<longleftrightarrow> (\<forall>x\<in>set xs. \<not> P x)"
  by (induction xs) auto

lemma position_member: "x \<in> set xs \<Longrightarrow> \<exists>i. position (\<lambda>a. a = x) xs = Some i"
  using position_None [of "\<lambda>a. a = x" xs] by (cases "position (\<lambda>a. a = x) xs") auto

lemma paired_position:
  "well_paired xs \<Longrightarrow> f \<in> looked_for \<Longrightarrow> position (\<lambda>a. a = f) xs = Some i \<Longrightarrow>
     i + 1 < length xs \<and> well_paired (take i xs) \<and> well_paired (drop i xs) \<and> xs ! i = f \<and>
     (v \<notin> looked_for \<longrightarrow> well_paired (xs[i + 1 := v]))"
proof (induction xs arbitrary: i rule: well_paired.induct)
  case (3 g w xs)
  show ?case
  proof (cases "g = f")
    case True
    then show ?thesis using 3 by auto
  next
    case False
    moreover have "w \<noteq> f" using 3 by auto
    ultimately obtain j where "position (\<lambda>a. a = f) xs = Some j" "i = Suc (Suc j)"
      using 3(4) by (auto split: if_splits)
    then show ?thesis using 3 False by auto
  qed
qed auto

lemma paired_split:
  assumes "well_paired xs" "f \<in> looked_for" "position (\<lambda>a. a = f) xs = Some i"
  shows "i + 1 < length xs" "well_paired (take i xs)" "well_paired (drop i xs)" "xs ! i = f"
  using paired_position [OF assms, of "[]"] by simp_all

lemma encoder_looked_for: "''-c:v'' \<in> looked_for"
  by (simp add: looked_for_def)

subsection \<open>Edits of a frame\<close>

lemma frame_input: "shaped pre post \<Longrightarrow> input_position (frame pre src post dst) = Some (length pre)"
proof -
  assume "shaped pre post"
  then have "''-i'' \<notin> set pre" by (auto simp: shaped_def looked_for_def)
  then have "position (\<lambda>a. a = ''-i'') pre = None" by (auto simp: position_None)
  then show ?thesis by (simp add: input_position_def frame_def position_append)
qed

lemma frame_flag:
  assumes "shaped pre post" "src \<notin> looked_for" "dst \<notin> looked_for" "f \<in> looked_for" "f \<noteq> ''-i''"
  shows "position (\<lambda>a. a = f) (frame pre src post dst) =
    map_option ((+) (length pre + 2)) (position (\<lambda>a. a = f) post)"
proof -
  have "position (\<lambda>a. a = f) pre = None" using assms(1,4) by (auto simp: position_None shaped_def)
  moreover have "position (\<lambda>a. a = f) (''-i'' # src # post @ [dst]) =
      map_option ((+) 2) (position (\<lambda>a. a = f) (post @ [dst]))"
    using assms(2,4,5) by (cases "position (\<lambda>a. a = f) (post @ [dst])") auto
  moreover have "position (\<lambda>a. a = f) (post @ [dst]) = position (\<lambda>a. a = f) post"
    using assms(3,4) by (auto simp: position_append split: option.splits)
  ultimately show ?thesis
    by (cases "position (\<lambda>a. a = f) post") (simp_all add: frame_def position_append)
qed

lemma frame_splice_input: "splice (length pre) new (frame pre src post dst) = Some (frame (pre @ new) src post dst)"
  by (simp add: splice_def frame_def)

lemma frame_splice_source: "splice (length pre + 2) new (frame pre src post dst) = Some (frame pre src (new @ post) dst)"
  by (simp add: splice_def frame_def)

lemma frame_splice_post:
  "i \<le> length post \<Longrightarrow> splice (length pre + 2 + i) new (frame pre src post dst) =
     Some (frame pre src (take i post @ new @ drop i post) dst)"
  by (simp add: splice_def frame_def)

lemma frame_update_post:
  "i < length post \<Longrightarrow> (frame pre src post dst)[length pre + 2 + i := v] = frame pre src (post[i := v]) dst"
  by (simp add: frame_def list_update_append)

lemma frame_length: "length (frame pre src post dst) = length pre + length post + 3"
  by (simp add: frame_def)

lemma frame_before_output: "before_output new (frame pre src post dst) = Some (frame pre src (post @ new) dst)"
  by (simp add: before_output_def splice_def frame_def)

definition keeps :: "(string list \<Rightarrow> string list option) \<Rightarrow> bool" where
  "keeps f \<longleftrightarrow>
     (\<forall>pre post. shaped pre post \<longrightarrow>
        (\<exists>pre' post'. shaped pre' post' \<and>
           (\<forall>src dst. src \<notin> looked_for \<longrightarrow> dst \<notin> looked_for \<longrightarrow>
              f (frame pre src post dst) = Some (frame pre' src post' dst))))"

lemma keepsE:
  assumes "keeps f" "shaped pre post"
  obtains pre' post' where "shaped pre' post'"
    "\<And>src dst. src \<notin> looked_for \<Longrightarrow> dst \<notin> looked_for \<Longrightarrow> f (frame pre src post dst) = Some (frame pre' src post' dst)"
  using assms unfolding keeps_def by blast

lemma keeps_Some: "keeps Some"
  unfolding keeps_def by blast

lemma keeps_bind:
  assumes "keeps f" "keeps g"
  shows "keeps (\<lambda>args. Option.bind (f args) g)"
  unfolding keeps_def
proof (intro allI impI)
  fix pre post
  assume "shaped pre post"
  from keepsE [OF assms(1) this] obtain pre' post' where f: "shaped pre' post'"
    "\<And>src dst. src \<notin> looked_for \<Longrightarrow> dst \<notin> looked_for \<Longrightarrow> f (frame pre src post dst) = Some (frame pre' src post' dst)"
    by blast
  from keepsE [OF assms(2) f(1)] f(2)
  show "\<exists>pre' post'. shaped pre' post' \<and> (\<forall>src dst. src \<notin> looked_for \<longrightarrow> dst \<notin> looked_for \<longrightarrow>
      Option.bind (f (frame pre src post dst)) g = Some (frame pre' src post' dst))"
    by (metis bind.bind_lunit)
qed

lemma keeps_if: "keeps f \<Longrightarrow> keeps g \<Longrightarrow> keeps (\<lambda>args. if b then f args else g args)"
  by (cases b) simp_all

lemma keeps_insert_input:
  assumes "set new \<inter> looked_for = {}"
  shows "keeps (\<lambda>args. Option.bind (input_position args) (\<lambda>i. splice i new args))"
  unfolding keeps_def
proof (intro allI impI)
  fix pre post
  assume shaped: "shaped pre post"
  show "\<exists>pre' post'. shaped pre' post' \<and> (\<forall>src dst. src \<notin> looked_for \<longrightarrow> dst \<notin> looked_for \<longrightarrow>
      Option.bind (input_position (frame pre src post dst)) (\<lambda>i. splice i new (frame pre src post dst)) =
        Some (frame pre' src post' dst))"
    using shaped assms
    by (intro exI [where x = "pre @ new"] exI [where x = post])
      (auto simp: frame_input frame_splice_input shaped_def)
qed

lemma insert_input_then:
  "Option.bind (input_position args) (\<lambda>i. Option.bind (splice i new args) g) =
     Option.bind (Option.bind (input_position args) (\<lambda>i. splice i new args)) g"
  by (cases "input_position args") simp_all

lemma keeps_before_output: "well_paired new \<Longrightarrow> keeps (before_output new)"
  unfolding keeps_def
  by (intro allI impI exI conjI, rule_tac [2] frame_before_output) (auto simp: shaped_def well_paired_append)

lemma member_take_drop: "x \<in> set xs \<Longrightarrow> x \<in> set (take i xs) \<union> set (drop i xs)"
  by (metis append_take_drop_id set_append)

lemma shaped_update:
  assumes "shaped pre post" "position (\<lambda>a. a = f) post = Some i" "f \<in> looked_for" "v \<notin> looked_for"
  shows "i + 1 < length post \<and> shaped pre (post[i + 1 := v])"
proof -
  from assms have post: "well_paired post" "''-c:v'' \<in> set post" by (simp_all add: shaped_def)
  from paired_position [OF post(1) assms(3,2), of v] assms(4)
  have len: "i + 1 < length post" and ok: "well_paired (post[i + 1 := v])" by auto
  obtain c where c: "position (\<lambda>a. a = ''-c:v'') post = Some c" 
    using position_member [OF post(2)] by blast
  have "post ! (i + 1) \<notin> looked_for"
  proof -
    have "well_paired (drop i post)" using paired_split [OF post(1) assms(3,2)] by simp
    moreover have "drop i post = post ! i # post ! (i + 1) # drop (i + 2) post"
      using len by (metis Cons_nth_drop_Suc Suc_eq_plus1 add_2_eq_Suc' add_lessD1)
    ultimately show ?thesis by simp
  qed
  moreover have "post ! c = ''-c:v''" "c < length post"
    using paired_split [OF post(1) encoder_looked_for c] by simp_all
  ultimately have "c \<noteq> i + 1" by (auto simp: looked_for_def)
  then have "post[i + 1 := v] ! c = ''-c:v''" "c < length (post[i + 1 := v])"
    using \<open>post ! c = ''-c:v''\<close> \<open>c < length post\<close> by simp_all
  then have "''-c:v'' \<in> set (post[i + 1 := v])" using nth_mem [of c "post[i + 1 := v]"] by simp
  then show ?thesis using len ok assms(1) by (simp add: shaped_def)
qed

lemma keeps_video_filter:
  assumes "undashed v"
  shows "keeps (set_video_filter v)"
  unfolding keeps_def
proof (intro allI impI)
  fix pre post
  assume shaped: "shaped pre post"
  have v: "v \<notin> looked_for" by (rule undashed_not_looked_for) (fact assms)
  have vf: "position (\<lambda>a. a = ''-vf'') (frame pre src post dst) = map_option ((+) (length pre + 2)) (position (\<lambda>a. a = ''-vf'') post)"
    "position (\<lambda>a. a = ''-c:v'') (frame pre src post dst) = map_option ((+) (length pre + 2)) (position (\<lambda>a. a = ''-c:v'') post)"
    if "src \<notin> looked_for" "dst \<notin> looked_for" for src dst
    by (rule frame_flag [OF shaped that]; simp add: looked_for_def)+
  show "\<exists>pre' post'. shaped pre' post' \<and> (\<forall>src dst. src \<notin> looked_for \<longrightarrow> dst \<notin> looked_for \<longrightarrow>
      set_video_filter v (frame pre src post dst) = Some (frame pre' src post' dst))"
  proof (cases "position (\<lambda>a. a = ''-vf'') post")
    case (Some i)
    then have ok: "i + 1 < length post" "shaped pre (post[i + 1 := v])"
      using shaped_update [OF shaped Some _ v] by (auto simp: looked_for_def)
    have "set_video_filter v (frame pre src post dst) = Some (frame pre src (post[i + 1 := v]) dst)"
      if "src \<notin> looked_for" "dst \<notin> looked_for" for src dst
      using vf [OF that] Some ok(1) frame_update_post [OF ok(1), of pre src dst v]
      by (simp add: set_video_filter_def put_at_def frame_length)
    then show ?thesis using ok(2) by blast
  next
    case None
    obtain c where c: "position (\<lambda>a. a = ''-c:v'') post = Some c"
      using shaped position_member [of "''-c:v''" post] by (auto simp: shaped_def)
    have parts: "well_paired (take c post)" "well_paired (drop c post)" "c + 1 < length post"
      using paired_split [OF _ encoder_looked_for c] shaped by (simp_all add: shaped_def)
    let ?post = "take c post @ [''-vf'', v] @ drop c post"
    have "well_paired ?post" using parts v by (simp add: well_paired_append)
    moreover have "''-c:v'' \<in> set ?post"
      using shaped member_take_drop [of "''-c:v''" post c] by (auto simp: shaped_def)
    ultimately have "shaped pre ?post" using shaped by (simp add: shaped_def)
    moreover have "set_video_filter v (frame pre src post dst) = Some (frame pre src ?post dst)"
      if "src \<notin> looked_for" "dst \<notin> looked_for" for src dst
      using vf [OF that] None c parts(3) frame_splice_post [of c post pre "[''-vf'', v]" src dst]
      by (simp add: set_video_filter_def)
    ultimately show ?thesis by blast
  qed
qed

lemma keeps_set_flag:
  assumes "f \<in> looked_for" "f \<notin> {''-i'', ''-ss''}" "v \<notin> looked_for"
  shows "keeps (set_flag (f, v))"
  unfolding keeps_def
proof (intro allI impI)
  fix pre post
  assume shaped: "shaped pre post"
  have pos: "position (\<lambda>a. a = f) (frame pre src post dst) = map_option ((+) (length pre + 2)) (position (\<lambda>a. a = f) post)"
    if "src \<notin> looked_for" "dst \<notin> looked_for" for src dst
    using frame_flag [OF shaped that assms(1)] assms(2) by simp
  show "\<exists>pre' post'. shaped pre' post' \<and> (\<forall>src dst. src \<notin> looked_for \<longrightarrow> dst \<notin> looked_for \<longrightarrow>
      set_flag (f, v) (frame pre src post dst) = Some (frame pre' src post' dst))"
  proof (cases "position (\<lambda>a. a = f) post")
    case (Some i)
    then have ok: "i + 1 < length post" "shaped pre (post[i + 1 := v])"
      using shaped_update [OF shaped Some assms(1,3)] by auto
    then show ?thesis using pos Some frame_update_post [OF ok(1)]
      by (intro exI [where x = pre] exI [where x = "post[i + 1 := v]"]) (auto simp: set_flag_def)
  next
    case None
    then show ?thesis using pos shaped assms
      by (intro exI [where x = pre] exI [where x = "post @ [f, v]"])
        (auto simp: set_flag_def frame_before_output shaped_def well_paired_append)
  qed
qed

lemma keeps_keyframes: "keeps (\<lambda>args. Some (apply_browser_hls_keyframes hls args))"
  unfolding keeps_def
proof (intro allI impI)
  fix pre post
  assume shaped: "shaped pre post"
  let ?f = "''-force_key_frames''" and ?v = "''expr:gte(t,n_forced*1)''"
  have f: "?f \<in> looked_for" "?f \<noteq> ''-i''" "?v \<notin> looked_for" by (simp_all add: looked_for_def)
  note pos = frame_flag [OF shaped _ _ f(1,2)]
  show "\<exists>pre' post'. shaped pre' post' \<and> (\<forall>src dst. src \<notin> looked_for \<longrightarrow> dst \<notin> looked_for \<longrightarrow>
      Some (apply_browser_hls_keyframes hls (frame pre src post dst)) = Some (frame pre' src post' dst))"
  proof (cases "hls \<and> position (\<lambda>a. a = ?f) post \<noteq> None")
    case True
    then obtain i where i: "position (\<lambda>a. a = ?f) post = Some i" "hls" by auto
    then have ok: "i + 1 < length post" "shaped pre (post[i + 1 := ?v])"
      using shaped_update [OF shaped i(1) f(1,3)] by auto
    then show ?thesis using pos i frame_update_post [OF ok(1)]
      by (intro exI [where x = pre] exI [where x = "post[i + 1 := ?v]"]) (auto simp: apply_browser_hls_keyframes_def)
  next
    case False
    then show ?thesis using pos shaped
      by (intro exI [where x = pre] exI [where x = post]) (auto simp: apply_browser_hls_keyframes_def)
  qed
qed

section \<open>Complete commands\<close>

text \<open>
  The browser's complete command: every edit keeps the shape of the vector, so the command is one that
  depends on the plan alone, with the two file names in their places, and the seeks before and after the
  source add up to the requested start.
\<close>

definition frag_options :: "string list" where
  "frag_options = butlast (live_frag_tail [])"

definition output_options_of :: "transcode_plan \<Rightarrow> string list" where
  "output_options_of p = map_args p @ video_args p @ audio_args p @ frag_options"

lemma grow_is_frame: "ffmpeg_grow_args src dst p = frame (head_args p) src (output_options_of p) dst"
  by (simp add: ffmpeg_grow_args_def frame_def output_options_of_def live_frag_tail_def frag_options_def)

lemma head_not_looked_for: "set (head_args p) \<inter> looked_for = {}"
  by (cases "tp_hardware_decode p") (simp_all add: head_args_def looked_for_def)

lemma grow_os_is_frame: "ffmpeg_grow_os_args src dst p = Some (frame (head_args p) src (output_options_of p) dst)"
proof -
  have "''-i'' \<notin> set (head_args p)" using head_not_looked_for [of p] by (auto simp: looked_for_def)
  then have "position (\<lambda>a. a = ''-i'') (head_args p) = None" by (auto simp: position_None)
  then have "position (\<lambda>a. a = ''-i'') (ffmpeg_grow_args [] [] p) = Some (length (head_args p))"
    by (simp add: grow_is_frame frame_def position_append)
  then show ?thesis
    by (simp add: ffmpeg_grow_os_args_def grow_is_frame frame_def put_at_def list_update_append butlast_append)
qed

text \<open>The values of the growing command are not flags.\<close>

lemma not_looked_for [simp]:
  "c \<noteq> CHR ''-'' \<Longrightarrow> c # s \<notin> looked_for" "decimal n \<notin> looked_for" "decimal n @ s \<notin> looked_for"
  "browser_scale_filter q cuda fmt \<notin> looked_for" "h264_profile bq \<notin> looked_for" "h264_level bq \<notin> looked_for"
  by (rule undashed_not_looked_for, cases bq;
      simp add: browser_scale_filter_def h264_profile_def h264_level_def split: option.split)+

lemma paired_maps: "well_paired (map_args p)"
proof -
  have "well_paired (concat (map (\<lambda>t. [''-map'', ''0:a:'' @ decimal (dt_index t)]) tracks))" for tracks
    by (rule well_paired_concat) simp
  moreover have "''-1'' \<notin> looked_for" by (simp add: looked_for_def)
  ultimately show ?thesis
    unfolding map_args_def audio_map_arg_def by (auto split: option.split intro!: well_paired_appendI)
qed

lemma paired_audio: "well_paired (audio_args p)"
proof -
  have "well_paired (track_args it)" for it
    by (cases it) (auto simp: track_args_def Let_def intro!: well_paired_appendI)
  then have "well_paired (concat (map track_args its))" for its
    by (rule well_paired_concat)
  then show ?thesis
    unfolding audio_args_def by (auto split: option.split audio_action.split intro!: well_paired_appendI)
qed

lemma paired_browser_video:
  assumes "tp_action p = BrowserAction" "undashed (tp_video_encoder p)"
  shows "well_paired (video_args p)" "''-c:v'' \<in> set (video_args p)"
proof -
  have codec: "well_paired (browser_codec_args p)"
    unfolding browser_codec_args_def Let_def by (auto intro!: well_paired_appendI)
  have rate: "well_paired (rate_args q)" for q
    unfolding rate_args_def by (auto split: option.split)
  have profile: "well_paired (profile_args p)"
    unfolding profile_args_def Let_def by (auto split: option.split intro!: well_paired_appendI)
  show "well_paired (video_args p)"
    unfolding video_args_def using assms codec rate profile undashed_not_looked_for [OF assms(2)]
    by (auto intro!: well_paired_appendI)
  show "''-c:v'' \<in> set (video_args p)" using assms(1) by (simp add: video_args_def)
qed

lemma shaped_grow:
  assumes "tp_action p = BrowserAction" "undashed (tp_video_encoder p)"
  shows "shaped (head_args p) (output_options_of p)"
proof -
  have "well_paired frag_options" by (simp add: frag_options_def live_frag_tail_def looked_for_def)
  then show ?thesis
    using paired_browser_video [OF assms] head_not_looked_for paired_maps paired_audio
    by (auto simp: shaped_def output_options_of_def intro!: well_paired_appendI)
qed

subsection \<open>Every edit keeps the shape\<close>

lemma keeps_preset: "keeps (apply_browser_encoding_preset p opts)"
proof -
  have "keeps (\<lambda>args.
      Option.bind (set_flag (''-preset'', preset) args) (\<lambda>args.
      Option.bind (set_flag (''-tune'', tune) args) (\<lambda>args.
      Option.bind (set_flag (''-bf'', ''0'') args) (\<lambda>args.
      if b then before_output [''-rc-lookahead'', ''0'', ''-zerolatency'', ''1'', ''-delay'', ''0''] args
      else Some args))))"
    if "preset \<notin> looked_for" "tune \<notin> looked_for" for preset tune b
    using that
    by (intro keeps_bind keeps_if keeps_set_flag keeps_before_output keeps_Some) (simp_all add: looked_for_def)
  then show ?thesis
    unfolding apply_browser_encoding_preset_def Let_def
    by (intro keeps_if keeps_Some) (simp add: looked_for_def)
qed

lemma keeps_tonemap: "keeps (apply_browser_sdr_tonemap decode q)"
proof -
  have "undashed (tonemap_filter decode q)" by (cases decode) (simp_all add: tonemap_filter_def Let_def)
  then show ?thesis
    unfolding apply_browser_sdr_tonemap_def insert_input_then
    by (intro keeps_bind keeps_insert_input keeps_video_filter keeps_before_output) (auto simp: looked_for_def)
qed

lemma keeps_upscale: "keeps (apply_browser_ai_upscale decode q)"
proof -
  have "undashed (upscale_filter decode q)" by (cases decode) (simp_all add: upscale_filter_def Let_def)
  then show ?thesis
    unfolding apply_browser_ai_upscale_def insert_input_then
    by (intro keeps_bind keeps_insert_input keeps_video_filter) (auto simp: looked_for_def)
qed

lemma keeps_pacing: "keeps (apply_browser_hls_pacing hls encoding catchup)"
  unfolding apply_browser_hls_pacing_def
  by (intro keeps_if keeps_Some keeps_insert_input) (auto simp: looked_for_def)

text \<open>All edits but the last one, the seek.\<close>

definition edited :: "transcode_plan \<Rightarrow> output_options \<Rightarrow> bool \<Rightarrow> string list \<Rightarrow> string list option" where
  "edited p opts catchup args =
     (let policy = browser_output_policy p opts; q = unwrap_or (tp_browser_quality p) AutoQuality
      in Option.bind (apply_browser_encoding_preset p opts args) (\<lambda>args.
         Option.bind (if op_apply_sdr_tonemap policy
                      then apply_browser_sdr_tonemap (tp_hardware_decode p) q args else Some args) (\<lambda>args.
         Option.bind (if tp_browser_ai_upscale p \<noteq> None
                      then apply_browser_ai_upscale (tp_hardware_decode p) q args else Some args) (\<lambda>args.
         Option.bind (if op_filter_copied_aac policy \<and> tp_download_audio p = None
                      then before_output [''-bsf:a'', ''aac_adtstoasc''] args else Some args) (\<lambda>args.
         Option.bind (if op_tag_hevc_as_hvc1 policy
                      then before_output [''-tag:v'', ''hvc1''] args else Some args) (\<lambda>args.
         Option.bind (Some (apply_browser_hls_keyframes (oo_hls opts) args))
           (apply_browser_hls_pacing (oo_hls opts) (tp_video_encoder p \<noteq> ''copy'' \<or> tp_audio p \<noteq> CopyAudio) catchup)))))))"

lemma keeps_edited: "keeps (edited p opts catchup)"
  unfolding edited_def Let_def
  by (intro keeps_bind keeps_if keeps_preset keeps_tonemap keeps_upscale keeps_before_output keeps_keyframes
      keeps_pacing keeps_Some) (simp_all add: looked_for_def)

lemma browser_args_edited:
  "browser_ffmpeg_os_args_with_readrate_catchup src dst p opts catchup =
     Option.bind (edited p opts catchup (frame (head_args p) src (output_options_of p) dst))
       (apply_browser_input_seek (oo_start_seconds opts) (op_seek (browser_output_policy p opts)))"
  by (simp add: browser_ffmpeg_os_args_with_readrate_catchup_def grow_os_is_frame edited_def Let_def)

subsection \<open>The seeks\<close>

definition seek_before :: "nat \<Rightarrow> seek_policy \<Rightarrow> string list" where
  "seek_before start policy =
     (if start = 0 then []
      else case policy of
             PreciselyTrimCopiedAudioPreroll \<Rightarrow> if start > 5 then [''-ss'', decimal (start - 5)] else []
           | PreserveCopiedVideoPreroll \<Rightarrow> [''-noaccurate_seek'', ''-ss'', decimal start]
           | Accurate \<Rightarrow> [''-ss'', decimal start])"

definition seek_after :: "nat \<Rightarrow> seek_policy \<Rightarrow> string list" where
  "seek_after start policy =
     (if start = 0 \<or> policy \<noteq> PreciselyTrimCopiedAudioPreroll then [] else [''-ss'', decimal (min start 5)])"

fun seek_seconds :: "string list \<Rightarrow> nat" where
  "seek_seconds (f # v # xs) = (if f = ''-ss'' then digits_value v + seek_seconds xs else seek_seconds (v # xs))"
| "seek_seconds _ = 0"

lemma seeks_add_up: "seek_seconds (seek_before start policy) + seek_seconds (seek_after start policy) = start"
  by (auto simp: seek_before_def seek_after_def split: seek_policy.split)

lemma seek_frame:
  assumes "shaped pre post"
  shows "apply_browser_input_seek start policy (frame pre src post dst) =
    Some (frame (pre @ seek_before start policy) src (seek_after start policy @ post) dst)"
proof (cases "policy = PreciselyTrimCopiedAudioPreroll \<and> start > 5")
  case True
  have "splice (length pre + 4) x (frame (pre @ [a, b]) src post dst) = Some (frame (pre @ [a, b]) src (x @ post) dst)" for x a b
    using frame_splice_source [of "pre @ [a, b]" x src post dst] by (simp add: eval_nat_numeral)
  then show ?thesis using True frame_input [OF assms]
    by (simp add: apply_browser_input_seek_def seek_before_def seek_after_def DECODE_PREROLL_SECONDS_def
        frame_splice_input min_def)
next
  case False
  then show ?thesis using frame_input [OF assms] frame_splice_source [of pre _ src post dst]
    by (cases policy) (auto simp: apply_browser_input_seek_def seek_before_def seek_after_def DECODE_PREROLL_SECONDS_def
        frame_splice_input min_def)
qed

text \<open>
  C33: The browser's ffmpeg command depends on the files only through their own two arguments: for every
  browser plan and all options the builder never panics, and there are arguments before and after the
  source, without a further input or seek, such that for every pair of absolute file names the command is
  those arguments with the source right after its only \<open>-i\<close> and the output last; the seeks before
  and after the source are those of the policy and add up to the requested start. So no file name can be
  taken for an option.
\<close>
theorem browser_command_exact:
  assumes "tp_action p = BrowserAction" "undashed (tp_video_encoder p)"
  shows "\<exists>pre post. {''-i'', ''-ss''} \<inter> (set pre \<union> set post) = {} \<and>
    (\<forall>src dst. take 1 src = ''/'' \<longrightarrow> take 1 dst = ''/'' \<longrightarrow>
       browser_ffmpeg_os_args_with_readrate_catchup src dst p opts catchup =
         Some (pre @ seek_before (oo_start_seconds opts) (op_seek (browser_output_policy p opts)) @ [''-i'', src] @
               seek_after (oo_start_seconds opts) (op_seek (browser_output_policy p opts)) @ post @ [dst])) \<and>
    seek_seconds (seek_before (oo_start_seconds opts) (op_seek (browser_output_policy p opts))) +
    seek_seconds (seek_after (oo_start_seconds opts) (op_seek (browser_output_policy p opts))) = oo_start_seconds opts"
proof -
  from keepsE [OF keeps_edited shaped_grow [OF assms]] obtain pre post where shaped: "shaped pre post"
    and edit: "\<And>src dst. src \<notin> looked_for \<Longrightarrow> dst \<notin> looked_for \<Longrightarrow>
      edited p opts catchup (frame (head_args p) src (output_options_of p) dst) = Some (frame pre src post dst)"
    by blast
  have input: "{''-i'', ''-ss''} \<inter> (set pre \<union> set post) = {}"
    using shaped well_paired_no_input [of post] by (auto simp: shaped_def looked_for_def)
  have command: "browser_ffmpeg_os_args_with_readrate_catchup src dst p opts catchup =
      Some (pre @ seek_before (oo_start_seconds opts) (op_seek (browser_output_policy p opts)) @ [''-i'', src] @
            seek_after (oo_start_seconds opts) (op_seek (browser_output_policy p opts)) @ post @ [dst])"
    if "take 1 src = ''/''" "take 1 dst = ''/''" for src dst
  proof -
    have "src \<notin> looked_for" "dst \<notin> looked_for"
      using that by (auto intro!: undashed_not_looked_for simp: undashed_def)
    from edit [OF this] show ?thesis
      by (simp only: browser_args_edited bind.bind_lunit seek_frame [OF shaped]) (simp add: frame_def)
  qed
  show ?thesis
    by (rule exI [where x = pre], rule exI [where x = post])
      (intro conjI allI impI input command seeks_add_up)
qed

definition sample_browser_plan :: transcode_plan where
  "sample_browser_plan =
     default_plan\<lparr>tp_decision := Recode, tp_action := BrowserAction, tp_video_encoder := ''libx264'',
       tp_container := ''mp4'', tp_browser_quality := Some FullHd\<rparr>"

definition sample_options :: output_options where
  "sample_options =
     \<lparr>oo_encoding_preset = Balanced, oo_source_video = Some H264, oo_selected_audio = Aac, oo_source_hdr = Sdr,
      oo_start_seconds = 62, oo_hls = True\<rparr>"

lemma browser_command_exact_witness:
  "\<exists>pre post. browser_ffmpeg_os_args_with_readrate_catchup ''/-vf'' ''/m/out.mp4'' sample_browser_plan sample_options True =
     Some (pre @ [''-ss'', ''57'', ''-i'', ''/-vf'', ''-ss'', ''5''] @ post @ [''/m/out.mp4''])"
proof -
  have plan: "tp_action sample_browser_plan = BrowserAction" "undashed (tp_video_encoder sample_browser_plan)"
    by (simp_all add: sample_browser_plan_def)
  have policy: "op_seek (browser_output_policy sample_browser_plan sample_options) = PreciselyTrimCopiedAudioPreroll"
    by (simp add: browser_output_policy_def sample_browser_plan_def sample_options_def default_plan_def Let_def)
  have seeks: "seek_before 62 PreciselyTrimCopiedAudioPreroll = [''-ss'', ''57'']"
    "seek_after 62 PreciselyTrimCopiedAudioPreroll = [''-ss'', ''5'']"
    by code_simp+
  have start: "oo_start_seconds sample_options = 62" by (simp add: sample_options_def)
  from browser_command_exact [OF plan, of sample_options True, unfolded policy start seeks]
  show ?thesis by fastforce
qed

subsection \<open>Handing over a descriptor\<close>

lemma positions_append: "positions i x (as @ bs) = positions i x as @ positions (i + length as) x bs"
  by (induction as arbitrary: i) auto

lemma positions_none: "x \<notin> set as \<Longrightarrow> positions i x as = []"
  by (induction as arbitrary: i) auto

text \<open>
  Handing the source to ffmpeg as an open descriptor replaces the file name and nothing else: on a
  command with one input the first input becomes \<open>fd:\<close> with the protocol and format whitelists in
  front of it, and the name of the source no longer occurs unless another argument equals it.
\<close>
theorem inherited_input_exact:
  assumes "''-i'' \<notin> set pre"
  shows "use_inherited_media_input 0 fd (pre @ [''-i'', src] @ post) =
      Inr (pre @ inherited_media_input_options fd @ [''-i'', ''fd:''] @ post) \<and>
    (''-i'' \<notin> set (src # post) \<longrightarrow> use_inherited_media_input 1 fd (pre @ [''-i'', src] @ post) = Inl ''missing media input'')"
  using assms
  by (auto simp: use_inherited_media_input_def positions_append positions_none nth_append list_update_append)

lemma inherited_input_exact_witness:
  "use_inherited_media_input 0 7 [''ffmpeg'', ''-i'', ''/a'', ''/b''] =
     Inr ([''ffmpeg''] @ inherited_media_input_options 7 @ [''-i'', ''fd:''] @ [''/b''])"
proof -
  have "''-i'' \<notin> set [''ffmpeg'']" by simp
  from inherited_input_exact [OF this, of 7 "''/a''" "[''/b'']"] show ?thesis by simp
qed

end
