(* ===== verification/Cache_Keys.thy ===== *)
theory Cache_Keys
  imports Ffmpeg_Args Utf8
begin

text \<open>
  The names under which encoded outputs are cached (\<open>crates/transcode/src/lib.rs\<close>,
  \<open>server/src/remux/cache.rs\<close>): the digest of source, plan and tools, the browser's revision
  suffixes, the file names built from them, the names cache maintenance recognises, and the stamp that
  binds an output to its key. The SHA-256 digest is a parameter \<open>sha\<close> from byte strings to
  digests, the package version another.
\<close>

subsection \<open>Digests and signatures\<close>

definition hex_digit :: "nat \<Rightarrow> char" where
  "hex_digit n = ''0123456789abcdef'' ! n"

definition lowercase_hex :: "string \<Rightarrow> string" where
  "lowercase_hex bytes = concat (map (\<lambda>c. [hex_digit (bval c div 16), hex_digit (bval c mod 16)]) bytes)"

definition nl :: char where "nl = CHR 0x0A"

fun action_debug :: "recode_action \<Rightarrow> string" where
  "action_debug OriginalAction = ''Original''"
| "action_debug RemuxP8 = ''RemuxP8''"
| "action_debug Hdr10Action = ''Hdr10''"
| "action_debug AudioAc3 = ''AudioAc3''"
| "action_debug BrowserAction = ''Browser''"

fun hardware_debug :: "hardware_decode \<Rightarrow> string" where
  "hardware_debug NoHardware = ''None''"
| "hardware_debug Cuda = ''Cuda''"
| "hardware_debug Vulkan = ''Vulkan''"

fun audio_debug :: "audio_action \<Rightarrow> string" where
  "audio_debug CopyAudio = ''Copy''"
| "audio_debug ToAc3 = ''ToAc3''"
| "audio_debug ToAac = ''ToAac''"

definition show_bool :: "bool \<Rightarrow> string" where
  "show_bool b = (if b then ''true'' else ''false'')"

definition quality_signature :: "browser_quality option \<Rightarrow> string" where
  "quality_signature quality =
     (case quality of
        None \<Rightarrow> ''none''
      | Some q \<Rightarrow>
          quality_id q @ '':'' @ decimal (max_width q) @ ''x'' @ decimal (max_height q) @ '':'' @ decimal (max_fps q)
            @ ''fps:'' @ h264_profile q @ '':'' @ h264_level q @ '':crf'' @ decimal (crf q) @ '':''
            @ decimal (max_video_kbps q) @ ''k:'' @ decimal (audio_kbps q) @ ''k'')"

definition OUTPUT_VALIDATION_REVISION :: string where
  "OUTPUT_VALIDATION_REVISION = ''fragment-tracks-v1''"

definition PROFILE8_TOOLCHAIN_CACHE_REVISION :: string where
  "PROFILE8_TOOLCHAIN_CACHE_REVISION = ''profile8-streaming-rpu-v4-dolby-vision-3.4.0''"

definition profile8_signature :: "bool \<Rightarrow> string option \<Rightarrow> string option \<Rightarrow> string" where
  "profile8_signature remux_p8 ffprobe dovi =
     (if remux_p8 then
        ''dovi='' @ unwrap_or dovi ''unavailable'' @ [nl] @ ''ffprobe='' @ unwrap_or ffprobe ''unavailable'' @ [nl]
          @ ''profile8_revision='' @ PROFILE8_TOOLCHAIN_CACHE_REVISION
      else ''dovi=unused'')"

definition plan_lines :: "transcode_plan \<Rightarrow> string list" where
  "plan_lines p =
     [''action='' @ action_debug (tp_action p), ''encoder='' @ tp_video_encoder p,
      ''hardware_decode='' @ hardware_debug (tp_hardware_decode p), ''audio='' @ audio_debug (tp_audio p),
      ''audio_index='' @ decimal (tp_audio_index p), ''container='' @ tp_container p,
      ''keep_hdr10='' @ show_bool (tp_keep_hdr10 p), ''drop_dolby_vision='' @ show_bool (tp_drop_dolby_vision p),
      ''browser_quality='' @ quality_signature (tp_browser_quality p)]"

definition cache_signature ::
  "string \<Rightarrow> string \<Rightarrow> transcode_plan \<Rightarrow> bool \<Rightarrow> string \<Rightarrow> string option \<Rightarrow> string option \<Rightarrow> string" where
  "cache_signature build source p remux_p8 ffmpeg ffprobe dovi =
     ''validation='' @ OUTPUT_VALIDATION_REVISION @ [nl] @ ''input=confined-demux-v1'' @ [nl] @ ''source='' @ source
       @ [nl] @ join [nl] (plan_lines p) @ [nl] @ ''remux_p8='' @ show_bool remux_p8 @ [nl] @ ''ffmpeg='' @ ffmpeg
       @ [nl] @ profile8_signature remux_p8 ffprobe dovi @ [nl] @ ''build='' @ build"

definition transcode_cache_key_with_tools ::
  "(string \<Rightarrow> string) \<Rightarrow> string \<Rightarrow> string \<Rightarrow> transcode_plan \<Rightarrow> bool \<Rightarrow> string \<Rightarrow> string option \<Rightarrow> string option \<Rightarrow> string"
where
  "transcode_cache_key_with_tools sha build source p remux_p8 ffmpeg ffprobe dovi =
     lowercase_hex (sha (cache_signature build source p remux_p8 ffmpeg ffprobe dovi))"

subsection \<open>The browser's suffix\<close>

definition seg :: "bool \<Rightarrow> string \<Rightarrow> string" where
  "seg b s = (if b then CHR ''-'' # s else [])"

definition track_signature :: "download_track \<Rightarrow> string" where
  "track_signature t =
     decimal (dt_index t) @ '':'' @ show_bool (dt_copy t) @ '':'' @ show_bool (dt_aac t) @ '':''
       @ decimal (dt_channels t) @ '':'' @ show_bool (dt_default t) @ '';''"

definition browser_cache_key_from_base ::
  "(string \<Rightarrow> string) \<Rightarrow> string \<Rightarrow> transcode_plan \<Rightarrow> output_options \<Rightarrow> string" where
  "browser_cache_key_from_base sha base p opts =
     (let policy = browser_output_policy p opts; enc = tp_video_encoder p
      in base
         @ seg (oo_source_video opts \<noteq> None \<and> enc \<noteq> ''copy'' \<and> oo_encoding_preset opts \<noteq> Balanced)
             (''browser-encoding-v1-'' @ preset_id (oo_encoding_preset opts))
         @ seg True ''aligned-seek-v2''
         @ seg True ''browser-stream-map-v2''
         @ seg (browser_cache_uses_sdr_tonemap_revision p opts) ''sdr-tonemap-libplacebo-v2''
         @ seg (op_source_requires_sdr_tonemap policy) ''browser-hdr-source-v1''
         @ seg (op_filter_copied_aac policy) ''browser-aac-adtstoasc-v1''
         @ seg (op_tag_hevc_as_hvc1 policy) ''browser-hevc-hvc1-v1''
         @ seg (op_seek policy \<noteq> Accurate) ''browser-mixed-copy-seek-v2''
         @ seg (tp_hardware_decode p = Cuda \<and> enc \<noteq> ''copy'') ''browser-cuda-download-v1''
         @ seg (tp_hardware_decode p = Vulkan \<and> op_apply_sdr_tonemap policy) ''browser-vulkan-tonemap-v1''
         @ seg (tp_browser_quality p = Some AutoQuality \<and> enc \<in> {''h264_nvenc'', ''libx264''}) ''browser-adaptive-h264-level-v1''
         @ seg (enc \<in> {''h264_nvenc'', ''hevc_nvenc''}) ''browser-nvenc-idr-v1''
         @ seg (option_is mobile_safe_h264 (tp_browser_quality p) \<and> enc \<in> {''h264_nvenc'', ''libx264''})
             ''browser-data-saver-baseline-v1''
         @ seg (oo_hls opts) ''browser-hls-v1''
         @ (case tp_browser_ai_upscale p of
              None \<Rightarrow> []
            | Some u \<Rightarrow> ''-browser-ai-upscale-libplacebo-v1-''
                          @ lowercase_hex (sha (au_model u @ [CHR 0x00] @ au_shader_sha256 u)))
         @ (case tp_download_audio p of
              None \<Rightarrow> []
            | Some ts \<Rightarrow> ''-native-download-audio-v1-'' @ lowercase_hex (sha (concat (map track_signature ts))))
         @ (if oo_start_seconds opts > 0 then ''-start-'' @ decimal (oo_start_seconds opts) else []))"

definition le64 :: "nat \<Rightarrow> string" where
  "le64 n = map (\<lambda>i. char_of (n div 256 ^ i)) [0..<8]"

definition effective_fallback_cache_key_with_device ::
  "(string \<Rightarrow> string) \<Rightarrow> string \<Rightarrow> string list \<Rightarrow> string \<Rightarrow> string" where
  "effective_fallback_cache_key_with_device sha request_key args device =
     lowercase_hex (sha (''effective-fallback-v1'' @ [CHR 0x00]
       @ concat (map (\<lambda>bytes. le64 (length bytes) @ bytes) ([request_key] @ args @ [device]))))"

subsection \<open>File names\<close>

definition path_join :: "string \<Rightarrow> string \<Rightarrow> string" where
  "path_join dir name = (if dir = [] \<or> last dir = CHR ''/'' then dir @ name else dir @ ''/'' @ name)"

fun action_tag :: "recode_action \<Rightarrow> string" where
  "action_tag Hdr10Action = ''hdr10''"
| "action_tag RemuxP8 = ''remux''"
| "action_tag AudioAc3 = ''ac3''"
| "action_tag BrowserAction = ''web''"
| "action_tag OriginalAction = ''orig''"

definition cache_file_name :: "(string \<Rightarrow> string) \<Rightarrow> int \<Rightarrow> recode_action \<Rightarrow> string \<Rightarrow> string" where
  "cache_file_name sha detail action key =
     int_decimal detail @ ''-'' @ action_tag action @ ''-''
       @ (if action = BrowserAction then lowercase_hex (sha key) else key) @ ''.mp4''"

definition cache_dest_for_key :: "(string \<Rightarrow> string) \<Rightarrow> string \<Rightarrow> int \<Rightarrow> recode_action \<Rightarrow> string \<Rightarrow> string" where
  "cache_dest_for_key sha dir detail action key = path_join dir (cache_file_name sha detail action key)"

definition is_hexdigit :: "char \<Rightarrow> bool" where
  "is_hexdigit c \<longleftrightarrow> is_digit c \<or> (65 \<le> bval c \<and> bval c \<le> 70) \<or> (97 \<le> bval c \<and> bval c \<le> 102)"

definition CACHE_DIGEST_HEX_BYTES :: nat where "CACHE_DIGEST_HEX_BYTES = 64"
definition MAX_BROWSER_CACHE_KEY_BYTES :: nat where "MAX_BROWSER_CACHE_KEY_BYTES = 512"

fun double_dash :: "string \<Rightarrow> bool" where
  "double_dash (a # b # s) \<longleftrightarrow> (a = CHR ''-'' \<and> b = CHR ''-'') \<or> double_dash (b # s)"
| "double_dash _ \<longleftrightarrow> False"

definition cache_key_has_safe_shape :: "recode_action \<Rightarrow> string \<Rightarrow> bool" where
  "cache_key_has_safe_shape action key =
     (if length key < CACHE_DIGEST_HEX_BYTES then False
      else if \<not> list_all is_hexdigit (take CACHE_DIGEST_HEX_BYTES key) then False
      else
        let rest = drop CACHE_DIGEST_HEX_BYTES key
        in if action \<noteq> BrowserAction then rest = []
           else if rest = [] then True
           else length key \<le> MAX_BROWSER_CACHE_KEY_BYTES \<and> hd rest = CHR ''-'' \<and> is_alphanumeric (last rest) \<and>
                list_all (\<lambda>c. is_lower c \<or> is_digit c \<or> c = CHR ''-'') rest \<and> \<not> double_dash rest)"

definition cache_part :: "string \<Rightarrow> string" where "cache_part dest = dest @ ''.part''"
definition cache_stamp_path :: "string \<Rightarrow> string" where "cache_stamp_path dest = dest @ ''.src''"

text \<open>Names of directory entries, as \<open>Path\<close> splits them at the last dot.\<close>

definition split_extension :: "string \<Rightarrow> string \<times> string option" where
  "split_extension name =
     (if name = ''..'' then (name, None)
      else case rsplit_once (CHR ''.'') name of
             None \<Rightarrow> (name, None)
           | Some (before, ext) \<Rightarrow> if before = [] then (name, None) else (before, Some ext))"

definition action_of_tag :: "string \<Rightarrow> recode_action option" where
  "action_of_tag t =
     (if t = ''hdr10'' then Some Hdr10Action
      else if t = ''remux'' then Some RemuxP8
      else if t = ''ac3'' then Some AudioAc3
      else if t = ''web'' then Some BrowserAction
      else if t = ''orig'' then Some OriginalAction
      else None)"

definition generated_cache_mp4 :: "string \<Rightarrow> bool" where
  "generated_cache_mp4 name =
     (let (stem, ext) = split_extension name
      in if ext \<noteq> Some ''mp4'' \<or> \<not> utf8_valid stem then False
         else case split_once (CHR ''-'') stem of
                None \<Rightarrow> False
              | Some (detail, r) \<Rightarrow>
                  (case split_once (CHR ''-'') r of
                     None \<Rightarrow> False
                   | Some (tag, key) \<Rightarrow>
                       (case action_of_tag tag of
                          None \<Rightarrow> False
                        | Some action \<Rightarrow> parse_int 64 detail \<noteq> None \<and> cache_key_has_safe_shape action key)))"

definition strip_end :: "string \<Rightarrow> string \<Rightarrow> string option" where
  "strip_end e s = (if length e \<le> length s \<and> drop (length s - length e) s = e
                    then Some (take (length s - length e) s) else None)"

fun first_stripped :: "string list \<Rightarrow> string \<Rightarrow> string option" where
  "first_stripped [] s = None"
| "first_stripped (e # es) s = (case strip_end e s of Some b \<Rightarrow> Some b | None \<Rightarrow> first_stripped es s)"

definition generated_intermediate :: "string \<Rightarrow> bool" where
  "generated_intermediate name =
     (if \<not> utf8_valid name then False
      else case first_stripped [''.part.p8.hevc'', ''.part.hevc'', ''.p8.hevc'', ''.p8.mp4'', ''.hevc'', ''.part''] name of
             Some base \<Rightarrow> generated_cache_mp4 base
           | None \<Rightarrow> False)"

definition generated_cache_stamp_output :: "string \<Rightarrow> string option" where
  "generated_cache_stamp_output name =
     (if \<not> utf8_valid name then None
      else case strip_end ''.src'' name of
             None \<Rightarrow> None
           | Some output \<Rightarrow> if generated_cache_mp4 output then Some output else None)"

subsection \<open>The stamp\<close>

record file_metadata =
  fm_is_file :: bool
  fm_len :: nat
  fm_dev :: nat
  fm_ino :: nat
  fm_mtime :: int
  fm_mtime_nsec :: int
  fm_ctime :: int
  fm_ctime_nsec :: int

definition validated_output_stamp :: "file_metadata \<Rightarrow> string \<Rightarrow> string" where
  "validated_output_stamp m key =
     OUTPUT_VALIDATION_REVISION @ [nl] @ key @ [nl] @ decimal (fm_len m) @ '':'' @ decimal (fm_dev m) @ '':''
       @ decimal (fm_ino m) @ '':'' @ int_decimal (fm_mtime m) @ '':'' @ int_decimal (fm_mtime_nsec m) @ '':''
       @ int_decimal (fm_ctime m) @ '':'' @ int_decimal (fm_ctime_nsec m) @ [nl]"

definition cache_is_fresh_for_key :: "file_metadata option \<Rightarrow> string option \<Rightarrow> string \<Rightarrow> bool" where
  "cache_is_fresh_for_key dest stamp key =
     (case dest of
        None \<Rightarrow> False
      | Some m \<Rightarrow>
          if \<not> fm_is_file m \<or> fm_len m = 0 then False
          else case stamp of
                 None \<Rightarrow> False
               | Some s \<Rightarrow> utf8_valid (take 4096 s) \<and> take 4096 s = validated_output_stamp m key)"

end
