(* ===== verification/Cache_Key_Safety.thy ===== *)
theory Cache_Key_Safety
  imports Cache_Keys
begin

text \<open>
  The browser's cache key determines the command: the revision suffixes are pairwise incomparable, so
  the flags they stand for can be read back from a key, and with the digest of the plan they fix every
  argument of the command. A cached output is therefore never served for a request that would have run
  another command.
\<close>

subsection \<open>Marks\<close>

fun differ :: "string \<Rightarrow> string \<Rightarrow> bool" where
  "differ (x # xs) (y # ys) \<longleftrightarrow> x \<noteq> y \<or> differ xs ys"
| "differ _ _ \<longleftrightarrow> False"

definition avoids :: "string \<Rightarrow> string \<Rightarrow> bool" where
  "avoids s r \<longleftrightarrow> (\<forall>t. r \<noteq> s @ t)"

lemma differ_avoids: "differ s t \<Longrightarrow> avoids s (t @ r)"
  unfolding avoids_def by (induction s t rule: differ.induct) auto

lemma avoids_Nil: "s \<noteq> [] \<Longrightarrow> avoids s []"
  by (simp add: avoids_def)

fun marks :: "bool list \<Rightarrow> string list \<Rightarrow> string" where
  "marks (b # bs) (s # ss) = (if b then s else []) @ marks bs ss"
| "marks _ _ = []"

lemma avoids_marks:
  "\<forall>t\<in>set ss. differ s t \<Longrightarrow> avoids s r \<Longrightarrow> avoids s (marks bs ss @ r)"
  by (induction bs ss rule: marks.induct) (auto intro: differ_avoids)

lemma marks_injective:
  assumes "length bs = length ss" "length bs' = length ss" "sorted_wrt differ ss"
    "\<forall>s\<in>set ss. avoids s r \<and> avoids s r'" "marks bs ss @ r = marks bs' ss @ r'"
  shows "bs = bs' \<and> r = r'"
  using assms
proof (induction ss arbitrary: bs bs')
  case (Cons s ss)
  obtain b cs where bs: "bs = b # cs" using Cons.prems(1) by (cases bs) auto
  obtain b' cs' where bs': "bs' = b' # cs'" using Cons.prems(2) by (cases bs') auto
  have "avoids s (marks cs ss @ r)" "avoids s (marks cs' ss @ r')"
    using Cons.prems(3,4) by (auto intro: avoids_marks)
  then have "b = b' \<and> marks cs ss @ r = marks cs' ss @ r'"
    using Cons.prems(5) unfolding bs bs' avoids_def by (auto split: if_splits) metis+
  then show ?case using Cons.IH [of cs cs'] Cons.prems unfolding bs bs' by auto
qed simp

subsection \<open>The flags of a key\<close>

definition revision_names :: "string list" where
  "revision_names =
     [''-browser-encoding-v1-fast_start'', ''-browser-encoding-v1-maximum_speed'', ''-aligned-seek-v2-browser-stream-map-v2'',
      ''-sdr-tonemap-libplacebo-v2'', ''-browser-hdr-source-v1'', ''-browser-aac-adtstoasc-v1'', ''-browser-hevc-hvc1-v1'',
      ''-browser-mixed-copy-seek-v2'', ''-browser-cuda-download-v1'', ''-browser-vulkan-tonemap-v1'',
      ''-browser-adaptive-h264-level-v1'', ''-browser-nvenc-idr-v1'', ''-browser-data-saver-baseline-v1'', ''-browser-hls-v1'']"

definition preset_used :: "transcode_plan \<Rightarrow> output_options \<Rightarrow> bool" where
  "preset_used p opts \<longleftrightarrow>
     oo_source_video opts \<noteq> None \<and> tp_video_encoder p \<noteq> ''copy'' \<and> oo_encoding_preset opts \<noteq> Balanced"

definition revision_flags :: "transcode_plan \<Rightarrow> output_options \<Rightarrow> bool list" where
  "revision_flags p opts =
     (let policy = browser_output_policy p opts; enc = tp_video_encoder p
      in [preset_used p opts \<and> oo_encoding_preset opts = FastStart, preset_used p opts \<and> oo_encoding_preset opts = MaximumSpeed,
          True, op_apply_sdr_tonemap policy, op_source_requires_sdr_tonemap policy, op_filter_copied_aac policy,
          op_tag_hevc_as_hvc1 policy, op_seek policy \<noteq> Accurate, tp_hardware_decode p = Cuda \<and> enc \<noteq> ''copy'',
          tp_hardware_decode p = Vulkan \<and> op_apply_sdr_tonemap policy,
          tp_browser_quality p = Some AutoQuality \<and> enc \<in> {''h264_nvenc'', ''libx264''},
          enc \<in> {''h264_nvenc'', ''hevc_nvenc''},
          option_is mobile_safe_h264 (tp_browser_quality p) \<and> enc \<in> {''h264_nvenc'', ''libx264''}, oo_hls opts])"

definition upscale_part :: "(string \<Rightarrow> string) \<Rightarrow> ai_upscale option \<Rightarrow> string" where
  "upscale_part sha u =
     (case u of None \<Rightarrow> []
      | Some u \<Rightarrow> ''-browser-ai-upscale-libplacebo-v1-'' @ lowercase_hex (sha (au_model u @ [CHR 0x00] @ au_shader_sha256 u)))"

definition download_part :: "(string \<Rightarrow> string) \<Rightarrow> download_track list option \<Rightarrow> string" where
  "download_part sha ts =
     (case ts of None \<Rightarrow> []
      | Some ts \<Rightarrow> ''-native-download-audio-v1-'' @ lowercase_hex (sha (concat (map track_signature ts))))"

definition start_part :: "nat \<Rightarrow> string" where
  "start_part n = (if n > 0 then ''-start-'' @ decimal n else [])"

lemma browser_key_parts:
  "browser_cache_key_from_base sha base p opts =
     base @ marks (revision_flags p opts) revision_names @ upscale_part sha (tp_browser_ai_upscale p)
       @ download_part sha (tp_download_audio p) @ start_part (oo_start_seconds opts)"
  by (cases "oo_encoding_preset opts")
    (simp_all add: browser_cache_key_from_base_def Let_def revision_flags_def revision_names_def preset_used_def
      upscale_part_def download_part_def start_part_def seg_def browser_cache_uses_sdr_tonemap_revision_def)

lemma revision_names_differ: "sorted_wrt differ revision_names"
  by code_simp

lemma length_lowercase_hex [simp]: "length (lowercase_hex s) = 2 * length s"
  by (induction s) (simp_all add: lowercase_hex_def)

lemma hex_digit_inj: "i < 16 \<Longrightarrow> j < 16 \<Longrightarrow> hex_digit i = hex_digit j \<Longrightarrow> i = j"
proof -
  have "\<forall>i \<in> set [0..<16]. \<forall>j \<in> set [0..<16]. hex_digit i = hex_digit j \<longrightarrow> i = j" by code_simp
  then show "i < 16 \<Longrightarrow> j < 16 \<Longrightarrow> hex_digit i = hex_digit j \<Longrightarrow> i = j" by simp
qed

lemma lowercase_hex_inj: "lowercase_hex s = lowercase_hex t \<Longrightarrow> s = t"
proof (induction s arbitrary: t)
  case Nil
  then show ?case by (cases t) (simp_all add: lowercase_hex_def)
next
  case (Cons c s)
  then obtain d t' where t: "t = d # t'" by (cases t) (simp_all add: lowercase_hex_def)
  have "bval c div 16 < 16" "bval d div 16 < 16" by (simp_all add: less_mult_imp_div_less)
  then have "bval c div 16 = bval d div 16 \<and> bval c mod 16 = bval d mod 16"
    using Cons.prems by (auto simp: t lowercase_hex_def intro!: hex_digit_inj)
  then have "bval c = bval d" by (metis div_mult_mod_eq)
  then show ?case using Cons by (simp add: t lowercase_hex_def)
qed

lemma hex_chars: "c \<in> set (lowercase_hex s) \<Longrightarrow> is_digit c \<or> (97 \<le> bval c \<and> bval c \<le> 102)"
proof -
  have "\<forall>i \<in> set [0..<16]. is_digit (hex_digit i) \<or> (97 \<le> bval (hex_digit i) \<and> bval (hex_digit i) \<le> 102)"
    by code_simp
  then have hex: "i < 16 \<Longrightarrow> is_digit (hex_digit i) \<or> (97 \<le> bval (hex_digit i) \<and> bval (hex_digit i) \<le> 102)" for i
    by simp
  assume "c \<in> set (lowercase_hex s)"
  then obtain x where "c = hex_digit (bval x div 16) \<or> c = hex_digit (bval x mod 16)"
    by (auto simp: lowercase_hex_def)
  then show ?thesis using hex [of "bval x div 16"] hex [of "bval x mod 16"] by (auto simp: less_mult_imp_div_less)
qed

subsection \<open>Reading the tail back\<close>

lemma start_part_inj: "start_part n = start_part m \<Longrightarrow> n = m"
  by (auto simp: start_part_def split: if_splits)

lemma download_start_inj:
  assumes sha: "\<And>x. length (sha x) = 32"
    and eq: "download_part sha d @ start_part n = download_part sha d' @ start_part n'"
  shows "n = n' \<and> ((d = None) = (d' = None)) \<and>
    (\<forall>ts ts'. d = Some ts \<longrightarrow> d' = Some ts' \<longrightarrow> sha (concat (map track_signature ts)) = sha (concat (map track_signature ts')))"
proof (cases d)
  case None
  show ?thesis
  proof (cases d')
    case (Some ts')
    then show ?thesis using eq None by (simp add: download_part_def start_part_def split: if_splits)
  qed (use eq None start_part_inj in \<open>simp add: download_part_def\<close>)
next
  case (Some ts)
  show ?thesis
  proof (cases d')
    case None
    then show ?thesis using eq Some by (simp add: download_part_def start_part_def split: if_splits)
  next
    case (Some ts')
    then have "lowercase_hex (sha (concat (map track_signature ts))) = lowercase_hex (sha (concat (map track_signature ts')))"
      "start_part n = start_part n'"
      using eq \<open>d = Some ts\<close> by (simp_all add: download_part_def sha)
    then show ?thesis using \<open>d = Some ts\<close> Some by (auto dest: start_part_inj lowercase_hex_inj)
  qed
qed

lemma upscale_inj:
  assumes sha: "\<And>x. length (sha x) = 32"
    and eq: "upscale_part sha u @ download_part sha d @ start_part n = upscale_part sha u' @ download_part sha d' @ start_part n'"
  shows "((u = None) = (u' = None)) \<and> download_part sha d @ start_part n = download_part sha d' @ start_part n'"
  using eq
  by (cases u; cases u')
    (simp_all add: upscale_part_def sha download_part_def start_part_def split: option.splits if_splits)

lemma avoids_tail:
  assumes "s \<in> set revision_names"
  shows "avoids s (upscale_part sha u @ download_part sha d @ start_part n)"
proof -
  have "\<forall>s\<in>set revision_names. s \<noteq> [] \<and> differ s ''-browser-ai-upscale-libplacebo-v1-'' \<and>
      differ s ''-native-download-audio-v1-'' \<and> differ s ''-start-''" by code_simp
  with assms have "s \<noteq> []" "differ s ''-browser-ai-upscale-libplacebo-v1-''" "differ s ''-native-download-audio-v1-''"
    "differ s ''-start-''" by auto
  then show ?thesis
    using differ_avoids [of s "''-browser-ai-upscale-libplacebo-v1-''"] differ_avoids [of s "''-native-download-audio-v1-''"]
      differ_avoids [of s "''-start-''"] avoids_Nil [of s]
    unfolding upscale_part_def download_part_def start_part_def
    by (cases u; cases d; cases "n > 0") (simp_all only: option.case append.left_neutral append.assoc if_True if_False append_Nil2)
qed

lemma browser_key_decoded:
  assumes "\<And>x. length (sha x) = 32" "length base = length base'"
    "browser_cache_key_from_base sha base p opts = browser_cache_key_from_base sha base' p' opts'"
  shows "base = base' \<and> revision_flags p opts = revision_flags p' opts' \<and> oo_start_seconds opts = oo_start_seconds opts' \<and>
    ((tp_browser_ai_upscale p = None) = (tp_browser_ai_upscale p' = None)) \<and>
    ((tp_download_audio p = None) = (tp_download_audio p' = None)) \<and>
    (\<forall>ts ts'. tp_download_audio p = Some ts \<longrightarrow> tp_download_audio p' = Some ts' \<longrightarrow>
       sha (concat (map track_signature ts)) = sha (concat (map track_signature ts')))"
proof -
  let ?tail = "\<lambda>p opts. upscale_part sha (tp_browser_ai_upscale p) @ download_part sha (tp_download_audio p)
    @ start_part (oo_start_seconds opts)"
  have "base = base'" and rest: "marks (revision_flags p opts) revision_names @ ?tail p opts =
      marks (revision_flags p' opts') revision_names @ ?tail p' opts'"
    using assms(2,3) by (simp_all add: browser_key_parts)
  have len: "length (revision_flags p opts) = length revision_names" for p opts
    by (simp add: revision_flags_def revision_names_def Let_def)
  from marks_injective [OF len len revision_names_differ _ rest] avoids_tail
  have "revision_flags p opts = revision_flags p' opts'" "?tail p opts = ?tail p' opts'" by blast+
  note up = upscale_inj [OF assms(1) this(2)]
  note down = download_start_inj [OF assms(1) conjunct2 [OF up]]
  show ?thesis
    using \<open>base = base'\<close> \<open>revision_flags p opts = revision_flags p' opts'\<close> up down by (intro conjI) simp_all
qed

section \<open>From keys to commands\<close>

text \<open>
  From the key to the command: the plan's lines and the download tracks are read back from their
  signatures, and everything the command is built from is determined by them and the flags of the key.
\<close>

subsection \<open>Signatures\<close>

lemma show_bool_inj [simp]: "show_bool a = show_bool b \<longleftrightarrow> a = b"
  by (auto simp: show_bool_def)

lemma show_bool_chars: "c \<in> set (show_bool b) \<Longrightarrow> c \<in> set ''truefals''"
  by (auto simp: show_bool_def split: if_splits)

lemma action_debug_inj [simp]: "action_debug a = action_debug b \<longleftrightarrow> a = b"
  by (cases a; cases b) simp_all

lemma hardware_debug_inj [simp]: "hardware_debug a = hardware_debug b \<longleftrightarrow> a = b"
  by (cases a; cases b) simp_all

lemma audio_debug_inj [simp]: "audio_debug a = audio_debug b \<longleftrightarrow> a = b"
  by (cases a; cases b) simp_all

lemma quality_signature_start:
  "split_once (CHR '':'') (quality_signature (Some q)) = Some (quality_id q, drop (Suc (length (quality_id q))) (quality_signature (Some q)))"
proof -
  have "CHR '':'' \<notin> set (quality_id q)" by (cases q) simp_all
  then show ?thesis by (simp add: quality_signature_def split_once_append)
qed

lemma quality_signature_inj: "quality_signature a = quality_signature b \<Longrightarrow> a = b"
proof -
  assume eq: "quality_signature a = quality_signature b"
  have none: "split_once (CHR '':'') (quality_signature None) = None" by (simp add: quality_signature_def)
  show "a = b"
  proof (cases a; cases b)
    fix q r
    assume "a = Some q" "b = Some r"
    then have "quality_id q = quality_id r" using eq quality_signature_start [of q] quality_signature_start [of r] by simp
    then show ?thesis using \<open>a = Some q\<close> \<open>b = Some r\<close> by (cases q; cases r) simp_all
  qed (use eq none quality_signature_start in \<open>(metis option.distinct(1))+\<close>)
qed

text \<open>Plans whose free-text fields hold no line break.\<close>

definition one_line :: "transcode_plan \<Rightarrow> bool" where
  "one_line p \<longleftrightarrow> nl \<notin> set (tp_video_encoder p) \<and> nl \<notin> set (tp_container p)"

lemma nl_eq: "nl = Char b0 b1 b2 b3 b4 b5 b6 b7 \<longleftrightarrow> CHR 0x0A = Char b0 b1 b2 b3 b4 b5 b6 b7"
  by (simp add: nl_def)

lemma no_nl: "nl \<notin> set (decimal n)" "nl \<notin> set (show_bool b)" "nl \<notin> set (quality_signature q)"
  "nl \<notin> set (action_debug a)" "nl \<notin> set (hardware_debug h)" "nl \<notin> set (audio_debug au)"
proof -
  show dec: "nl \<notin> set (decimal n)" for n using not_in_decimal [of nl n] by (simp add: nl_def is_digit_def)
  show "nl \<notin> set (show_bool b)" by (simp add: show_bool_def nl_eq)
  show "nl \<notin> set (action_debug a)" by (cases a) (simp_all add: nl_eq)
  show "nl \<notin> set (hardware_debug h)" by (cases h) (simp_all add: nl_eq)
  show "nl \<notin> set (audio_debug au)" by (cases au) (simp_all add: nl_eq)
  have "nl \<notin> set (quality_id r)" "nl \<notin> set (h264_profile r)" "nl \<notin> set (h264_level r)" for r
    by (cases r; simp add: h264_profile_def h264_level_def nl_eq)+
  then show "nl \<notin> set (quality_signature q)"
    by (cases q) (simp_all add: quality_signature_def dec nl_eq)
qed

lemma signature_injective:
  assumes "one_line p" "one_line p'"
    "cache_signature build source p r ffmpeg ffprobe dovi = cache_signature build source p' r ffmpeg ffprobe dovi"
  shows "tp_action p = tp_action p' \<and> tp_video_encoder p = tp_video_encoder p' \<and> tp_hardware_decode p = tp_hardware_decode p' \<and>
    tp_audio p = tp_audio p' \<and> tp_audio_index p = tp_audio_index p' \<and> tp_container p = tp_container p' \<and>
    tp_keep_hdr10 p = tp_keep_hdr10 p' \<and> tp_drop_dolby_vision p = tp_drop_dolby_vision p' \<and>
    tp_browser_quality p = tp_browser_quality p'"
proof -
  have "join [nl] (plan_lines p) = join [nl] (plan_lines p')"
    using assms(3) by (simp add: cache_signature_def)
  moreover have "split_on nl (join [nl] (plan_lines p)) = plan_lines p" if "one_line p" for p
  proof (rule split_on_join)
    have "\<forall>l\<in>set (plan_lines p). nl \<notin> set l"
      using that by (simp add: plan_lines_def one_line_def no_nl nl_eq)
    then show "\<And>l. l \<in> set (plan_lines p) \<Longrightarrow> nl \<notin> set l" by blast
  qed (simp add: plan_lines_def)
  ultimately have "plan_lines p = plan_lines p'" using assms(1,2) by metis
  then show ?thesis by (simp add: plan_lines_def quality_signature_inj)
qed

lemma track_text: "track_signature t = join [CHR '':''] [decimal (dt_index t), show_bool (dt_copy t), show_bool (dt_aac t),
    decimal (dt_channels t), show_bool (dt_default t)] @ '';''"
  by (simp add: track_signature_def)

lemma not_colon: "CHR '':'' \<notin> set (decimal n)" "CHR '':'' \<notin> set (show_bool b)"
  "CHR '';'' \<notin> set (decimal n)" "CHR '';'' \<notin> set (show_bool b)"
  using not_in_decimal [of "CHR '':''" n] not_in_decimal [of "CHR '';''" n] by (simp_all add: is_digit_def show_bool_def)

lemma track_signature_inj: "track_signature t = track_signature u \<Longrightarrow> t = u"
proof -
  assume "track_signature t = track_signature u"
  moreover have "split_on (CHR '':'') (join [CHR '':''] [decimal (dt_index t), show_bool (dt_copy t), show_bool (dt_aac t),
      decimal (dt_channels t), show_bool (dt_default t)]) = [decimal (dt_index t), show_bool (dt_copy t), show_bool (dt_aac t),
      decimal (dt_channels t), show_bool (dt_default t)]" for t
    by (rule split_on_join) (auto simp: not_colon)
  ultimately have "[decimal (dt_index t), show_bool (dt_copy t), show_bool (dt_aac t), decimal (dt_channels t), show_bool (dt_default t)] =
      [decimal (dt_index u), show_bool (dt_copy u), show_bool (dt_aac u), decimal (dt_channels u), show_bool (dt_default u)]"
    unfolding track_text by (metis append_same_eq)
  then show ?thesis by simp
qed

lemma tracks_injective: "concat (map track_signature ts) = concat (map track_signature us) \<Longrightarrow> ts = us"
proof (induction ts arbitrary: us)
  case Nil
  then show ?case by (cases us) (simp_all add: track_signature_def)
next
  case (Cons t ts)
  obtain u us' where us: "us = u # us'" using Cons.prems by (cases us) (simp_all add: track_signature_def)
  have split: "split_once (CHR '';'') (track_signature t @ r) = Some (butlast (track_signature t), r)" for t r
  proof -
    have "CHR '';'' \<notin> set (butlast (track_signature t))"
      by (auto simp: track_signature_def butlast_append not_colon dest: in_set_butlastD)
    moreover have "track_signature t = butlast (track_signature t) @ '';''" by (simp add: track_signature_def butlast_append)
    ultimately show ?thesis by (metis append.assoc append_Cons append_Nil split_once_append)
  qed
  have "butlast (track_signature t) = butlast (track_signature u)" "concat (map track_signature ts) = concat (map track_signature us')"
    using Cons.prems split [of t "concat (map track_signature ts)"] split [of u "concat (map track_signature us')"]
    by (simp_all add: us)
  moreover have "track_signature t = butlast (track_signature t) @ '';''" for t
    by (simp add: track_signature_def butlast_append)
  ultimately show ?case using Cons.IH track_signature_inj us by metis
qed

subsection \<open>What the command is built from\<close>

lemma seek_from_flags:
  assumes "(op_seek (browser_output_policy p opts) \<noteq> Accurate) = (op_seek (browser_output_policy p opts') \<noteq> Accurate)"
  shows "op_seek (browser_output_policy p opts) = op_seek (browser_output_policy p opts')"
  using assms by (auto simp: browser_output_policy_def Let_def split: if_splits)

lemma preset_from_flags:
  assumes "(preset_used p opts \<and> oo_encoding_preset opts = FastStart) = (preset_used p opts' \<and> oo_encoding_preset opts' = FastStart)"
    "(preset_used p opts \<and> oo_encoding_preset opts = MaximumSpeed) = (preset_used p opts' \<and> oo_encoding_preset opts' = MaximumSpeed)"
  shows "apply_browser_encoding_preset p opts = apply_browser_encoding_preset p opts'"
  using assms
  by (cases "oo_encoding_preset opts"; cases "oo_encoding_preset opts'")
    (auto simp: fun_eq_iff apply_browser_encoding_preset_def preset_used_def)

lemma command_from_flags:
  assumes "revision_flags p opts = revision_flags p opts'" "oo_start_seconds opts = oo_start_seconds opts'"
  shows "browser_ffmpeg_os_args_with_readrate_catchup src dst p opts catchup =
    browser_ffmpeg_os_args_with_readrate_catchup src dst p opts' catchup"
proof -
  note flags = assms(1) [unfolded revision_flags_def Let_def, simplified]
  have "apply_browser_encoding_preset p opts = apply_browser_encoding_preset p opts'"
    by (rule preset_from_flags) (use flags in blast)+
  moreover have "op_seek (browser_output_policy p opts) = op_seek (browser_output_policy p opts')"
    by (rule seek_from_flags) (use flags in blast)
  ultimately show ?thesis
    unfolding browser_ffmpeg_os_args_with_readrate_catchup_def Let_def using flags assms(2) by simp
qed

text \<open>Plans that agree on what their signature and the download tracks say build the same command.\<close>

lemma command_from_plan:
  assumes "tp_action p = tp_action p'" "tp_video_encoder p = tp_video_encoder p'" "tp_hardware_decode p = tp_hardware_decode p'"
    "tp_audio p = tp_audio p'" "tp_audio_index p = tp_audio_index p'" "tp_keep_hdr10 p = tp_keep_hdr10 p'"
    "tp_browser_quality p = tp_browser_quality p'" "tp_download_audio p = tp_download_audio p'"
    "(tp_browser_ai_upscale p = None) = (tp_browser_ai_upscale p' = None)"
  shows "browser_ffmpeg_os_args_with_readrate_catchup src dst p opts catchup =
      browser_ffmpeg_os_args_with_readrate_catchup src dst p' opts catchup \<and> revision_flags p opts = revision_flags p' opts"
proof -
  have "ffmpeg_grow_args s d p = ffmpeg_grow_args s d p'" for s d
    unfolding ffmpeg_grow_args_def head_args_def map_args_def audio_map_arg_def video_args_def audio_args_def
      hdr10_encode_args_def browser_codec_args_def profile_args_def assms(1-8) ..
  then have grow: "ffmpeg_grow_os_args src dst p = ffmpeg_grow_os_args src dst p'"
    unfolding ffmpeg_grow_os_args_def by simp
  have policy: "browser_output_policy p opts = browser_output_policy p' opts"
    unfolding browser_output_policy_def assms(2,4) ..
  have preset: "apply_browser_encoding_preset p opts = apply_browser_encoding_preset p' opts"
    by (rule ext) (simp add: apply_browser_encoding_preset_def assms(2))
  show ?thesis
    unfolding browser_ffmpeg_os_args_with_readrate_catchup_def revision_flags_def preset_used_def Let_def
      grow policy preset assms
    by (intro conjI refl)
qed

text \<open>
  C34: The browser's cache key determines the command. For the same source and tools, two requests whose
  cache keys are equal run the same ffmpeg command with the same files, provided the digest does not
  collide on the two signatures of their plans and of their download tracks; so a cached output is never
  reused for a request that would encode differently.
\<close>
theorem browser_key_determines_command:
  fixes sha :: "string \<Rightarrow> string" and build source ffmpeg :: string and remux :: bool and ffprobe dovi :: "string option"
  defines "key \<equiv> \<lambda>p opts. browser_cache_key_from_base sha
      (transcode_cache_key_with_tools sha build source p remux ffmpeg ffprobe dovi) p opts"
    and "sig \<equiv> \<lambda>p. cache_signature build source p remux ffmpeg ffprobe dovi"
    and "tracks \<equiv> \<lambda>p. concat (map track_signature (unwrap_or (tp_download_audio p) []))"
  assumes digest: "\<And>x. length (sha x) = 32"
    and no_collision: "sha (sig p) = sha (sig p') \<Longrightarrow> sig p = sig p'" "sha (tracks p) = sha (tracks p') \<Longrightarrow> tracks p = tracks p'"
    and plans: "one_line p" "one_line p'"
    and same_key: "key p opts = key p' opts'"
  shows "browser_ffmpeg_os_args_with_readrate_catchup src dst p opts catchup =
    browser_ffmpeg_os_args_with_readrate_catchup src dst p' opts' catchup"
proof -
  let ?base = "\<lambda>p. transcode_cache_key_with_tools sha build source p remux ffmpeg ffprobe dovi"
  have len: "length (?base p) = length (?base p')" by (simp add: transcode_cache_key_with_tools_def digest)
  note parts = browser_key_decoded [OF digest len same_key [unfolded key_def]]
  then have "sha (sig p) = sha (sig p')"
    by (auto simp: transcode_cache_key_with_tools_def sig_def dest: lowercase_hex_inj)
  note fields = signature_injective [OF plans no_collision(1) [OF this, unfolded sig_def]]
  have download: "tp_download_audio p = tp_download_audio p'"
  proof (cases "tp_download_audio p"; cases "tp_download_audio p'")
    fix ts us
    assume ts: "tp_download_audio p = Some ts" "tp_download_audio p' = Some us"
    then have "sha (tracks p) = sha (tracks p')" using parts by (simp add: tracks_def unwrap_or_def)
    from no_collision(2) [OF this] show ?thesis using ts by (auto simp: tracks_def unwrap_or_def dest: tracks_injective)
  qed (use parts in auto)
  have upscale: "(tp_browser_ai_upscale p = None) = (tp_browser_ai_upscale p' = None)" using parts by simp
  from fields have "tp_action p = tp_action p'" "tp_video_encoder p = tp_video_encoder p'"
    "tp_hardware_decode p = tp_hardware_decode p'" "tp_audio p = tp_audio p'" "tp_audio_index p = tp_audio_index p'"
    "tp_keep_hdr10 p = tp_keep_hdr10 p'" "tp_browser_quality p = tp_browser_quality p'" by simp_all
  note same = command_from_plan [OF this download upscale]
  have "revision_flags p' opts = revision_flags p' opts'" "oo_start_seconds opts = oo_start_seconds opts'"
    using parts same by simp_all
  from command_from_flags [OF this] show ?thesis using same by simp
qed

text \<open>A digest of the right length, and a plan that differs only where the command does not.\<close>

definition sample_sha :: "string \<Rightarrow> string" where
  "sample_sha s = replicate 32 (CHR ''x'')"

definition sample_plan :: transcode_plan where
  "sample_plan = default_plan\<lparr>tp_decision := Recode, tp_action := BrowserAction, tp_video_encoder := ''libx264'',
     tp_container := ''mp4'', tp_browser_quality := Some FullHd\<rparr>"

definition sample_request :: output_options where
  "sample_request = \<lparr>oo_encoding_preset = FastStart, oo_source_video = Some H264, oo_selected_audio = Aac, oo_source_hdr = Sdr,
     oo_start_seconds = 62, oo_hls = True\<rparr>"

lemma browser_key_determines_command_witness:
  "browser_ffmpeg_os_args_with_readrate_catchup ''/s'' ''/d'' sample_plan sample_request True =
     browser_ffmpeg_os_args_with_readrate_catchup ''/s'' ''/d'' (sample_plan\<lparr>tp_rule := Some ''web''\<rparr>)
       (sample_request\<lparr>oo_source_video := Some Mpeg4\<rparr>) True"
proof -
  let ?p = "sample_plan" and ?q = "sample_plan\<lparr>tp_rule := Some ''web''\<rparr>"
  have "cache_signature ''1'' ''s'' ?p False ''f'' None None = cache_signature ''1'' ''s'' ?q False ''f'' None None"
    by (simp add: cache_signature_def plan_lines_def)
  moreover have "unwrap_or (tp_download_audio ?p) [] = unwrap_or (tp_download_audio ?q) []" by simp
  moreover have "one_line ?p" "one_line ?q" by (simp_all add: one_line_def sample_plan_def nl_def)
  moreover have "browser_cache_key_from_base sample_sha (transcode_cache_key_with_tools sample_sha ''1'' ''s'' ?p False ''f'' None None) ?p
      sample_request =
    browser_cache_key_from_base sample_sha (transcode_cache_key_with_tools sample_sha ''1'' ''s'' ?q False ''f'' None None) ?q
      (sample_request\<lparr>oo_source_video := Some Mpeg4\<rparr>)"
    by (simp add: browser_key_parts transcode_cache_key_with_tools_def sample_sha_def revision_flags_def preset_used_def
        browser_output_policy_def browser_requires_sdr_tonemap_def sample_request_def sample_plan_def default_plan_def Let_def)
  ultimately show ?thesis
    by (intro browser_key_determines_command [where sha = sample_sha and build = "''1''" and source = "''s''" and
          remux = False and ffmpeg = "''f''" and ffprobe = None and dovi = None])
      (simp_all add: sample_sha_def)
qed

end
