(* ===== verification/Cache_Names.thy ===== *)
theory Cache_Names
  imports Cache_Key_Safety
begin

text \<open>
  Cache maintenance only touches names it recognises. The names the server writes are recognised, with
  those of their partial and stamp files; different outputs have different names; and a stamp is fresh
  for exactly the file and the key it was written for.
\<close>

subsection \<open>Names\<close>

lemma int_decimal_no_dash: "0 \<le> i \<Longrightarrow> CHR ''-'' \<notin> set (int_decimal i)"
  using not_in_decimal [of "CHR ''-''" "nat i"] by (simp add: int_decimal_def is_digit_def)

lemma hex_not: "\<not> is_digit c \<Longrightarrow> bval c < 97 \<or> 102 < bval c \<Longrightarrow> c \<notin> set (lowercase_hex s)"
  using hex_chars [of c s] by auto

lemma hex_is_hexdigit: "list_all is_hexdigit (lowercase_hex s)"
  by (auto simp: list_all_iff is_hexdigit_def dest: hex_chars)

lemma digest_safe_shape: "length d = 32 \<Longrightarrow> cache_key_has_safe_shape action (lowercase_hex d)"
  by (simp add: cache_key_has_safe_shape_def CACHE_DIGEST_HEX_BYTES_def hex_is_hexdigit)

lemma action_of_action_tag: "action_of_tag (action_tag a) = Some a"
  by (cases a) (simp_all add: action_of_tag_def)

lemma tag_chars: "CHR ''-'' \<notin> set (action_tag a)" "CHR ''.'' \<notin> set (action_tag a)"
  by (cases a; simp)+

definition output_stem :: "int \<Rightarrow> recode_action \<Rightarrow> string \<Rightarrow> string" where
  "output_stem i a d = int_decimal i @ ''-'' @ action_tag a @ ''-'' @ lowercase_hex d"

lemma ascii_less: "is_digit c \<Longrightarrow> bval c < 128"
  by (simp add: is_digit_def)

lemma stem_ascii: "c \<in> set (output_stem i a d) \<Longrightarrow> bval c < 128"
proof -
  assume "c \<in> set (output_stem i a d)"
  then consider "c \<in> set (int_decimal i)" | "c = CHR ''-''" | "c \<in> set (action_tag a)" | "c \<in> set (lowercase_hex d)"
    by (auto simp: output_stem_def)
  then show ?thesis
  proof cases
    case 3
    then show ?thesis by (cases a) auto
  qed (auto dest: int_decimal_chars hex_chars ascii_less)
qed

lemma stem_no_dot: "CHR ''.'' \<notin> set (output_stem i a d)"
  using tag_chars(2) [of a] hex_not [of "CHR ''.''" d] int_decimal_chars [of "CHR ''.''" i]
  by (auto simp: output_stem_def is_digit_def)

lemma stem_extension: "split_extension (output_stem i a d @ ''.mp4'') = (output_stem i a d, Some ''mp4'')"
proof -
  have "rsplit_once (CHR ''.'') (output_stem i a d @ CHR ''.'' # ''mp4'') = Some (output_stem i a d, ''mp4'')"
    by (rule rsplit_once_append) simp
  moreover have "output_stem i a d \<noteq> []" by (simp add: output_stem_def)
  moreover have "length (output_stem i a d @ ''.mp4'') \<noteq> 2" by simp
  then have "output_stem i a d @ ''.mp4'' \<noteq> ''..''" by force
  ultimately show ?thesis by (simp add: split_extension_def)
qed

lemma output_recognised:
  assumes "0 \<le> i" "i < 2 ^ 63" "length d = 32"
  shows "generated_cache_mp4 (output_stem i a d @ ''.mp4'')"
proof -
  have "split_once (CHR ''-'') (output_stem i a d) = Some (int_decimal i, action_tag a @ CHR ''-'' # lowercase_hex d)"
    by (simp add: output_stem_def split_once_append int_decimal_no_dash [OF assms(1)])
  moreover have "split_once (CHR ''-'') (action_tag a @ CHR ''-'' # lowercase_hex d) = Some (action_tag a, lowercase_hex d)"
    by (rule split_once_append) (rule tag_chars)
  moreover have "parse_int 64 (int_decimal i) = Some i"
    by (rule parse_int_decimal) (use assms in auto)
  moreover have "utf8_valid (output_stem i a d)"
    by (rule utf8_valid_ascii) (rule stem_ascii)
  ultimately show ?thesis
    by (simp add: generated_cache_mp4_def stem_extension action_of_action_tag digest_safe_shape assms(3))
qed

lemma strip_end_append: "strip_end e (s @ e) = Some s"
  by (simp add: strip_end_def)

lemma strip_end_SomeD: "strip_end e s = Some t \<Longrightarrow> s = t @ e"
  by (auto simp: strip_end_def split: if_splits) (metis append_take_drop_id)

lemma strip_end_last:
  assumes "e \<noteq> []" "last e \<noteq> last s"
  shows "strip_end e s = None"
  using assms strip_end_SomeD [of e s] by (cases "strip_end e s") auto

lemma not_intermediate: "CHR ''.'' \<notin> set s \<Longrightarrow> \<not> generated_intermediate (s @ ''.mp4'')"
proof -
  assume "CHR ''.'' \<notin> set s"
  have "strip_end ''.p8.mp4'' (s @ ''.mp4'') = None"
  proof (cases "strip_end ''.p8.mp4'' (s @ ''.mp4'')")
    case (Some t)
    then have "s @ ''.mp4'' = (t @ ''.p8'') @ ''.mp4''" using strip_end_SomeD [OF Some] by simp
    then have "s = t @ ''.p8''" by (simp only: append_same_eq)
    then show ?thesis using \<open>CHR ''.'' \<notin> set s\<close> by simp
  qed
  moreover have "strip_end e (s @ ''.mp4'') = None" if "e \<noteq> []" "last e \<noteq> CHR ''4''" for e
    by (rule strip_end_last) (use that in auto)
  ultimately show ?thesis by (simp add: generated_intermediate_def)
qed

lemma partial_intermediate: "utf8_valid (s @ ''.part'') \<Longrightarrow> generated_intermediate (s @ ''.part'') = generated_cache_mp4 s"
proof -
  have "strip_end e (s @ ''.part'') = None" if "e \<noteq> []" "last e \<noteq> CHR ''t''" for e
    by (rule strip_end_last) (use that in auto)
  then show "utf8_valid (s @ ''.part'') \<Longrightarrow> generated_intermediate (s @ ''.part'') = generated_cache_mp4 s"
    by (simp add: generated_intermediate_def strip_end_append)
qed

lemma partial_not_output: "\<not> generated_cache_mp4 (s @ ''.part'')"
proof -
  have "rsplit_once (CHR ''.'') (s @ CHR ''.'' # ''part'') = Some (s, ''part'')"
    by (rule rsplit_once_append) simp
  then have "snd (split_extension (s @ ''.part'')) \<noteq> Some ''mp4''" by (simp add: split_extension_def)
  then show ?thesis by (auto simp: generated_cache_mp4_def split: prod.splits)
qed

lemma output_stem_inj:
  assumes "0 \<le> i" "0 \<le> j" "output_stem i a d = output_stem j b e"
  shows "i = j \<and> a = b \<and> d = e"
proof -
  have "split_once (CHR ''-'') (output_stem k c x) = Some (int_decimal k, action_tag c @ CHR ''-'' # lowercase_hex x)"
    if "0 \<le> k" for k c x
    by (simp add: output_stem_def split_once_append int_decimal_no_dash [OF that])
  from this [OF assms(1), of a d] this [OF assms(2), of b e] assms(3)
  have "int_decimal i = int_decimal j" and "action_tag a @ CHR ''-'' # lowercase_hex d = action_tag b @ CHR ''-'' # lowercase_hex e"
    by simp_all
  moreover have "split_once (CHR ''-'') (action_tag c @ CHR ''-'' # lowercase_hex x) = Some (action_tag c, lowercase_hex x)" for c x
    by (rule split_once_append) (rule tag_chars)
  ultimately have "action_tag a = action_tag b" "lowercase_hex d = lowercase_hex e" by (metis option.inject prod.inject)+
  moreover from this have "a = b" by (cases a; cases b) simp_all
  moreover have "d = e" using \<open>lowercase_hex d = lowercase_hex e\<close> by (rule lowercase_hex_inj)
  moreover have "i = j" using \<open>int_decimal i = int_decimal j\<close> assms(1,2) by (simp add: int_decimal_def)
  ultimately show ?thesis by simp
qed

lemma output_names:
  fixes a :: recode_action
  assumes "0 \<le> i" "i < 2 ^ 63" "length d = 32"
  defines "name \<equiv> output_stem i a d @ ''.mp4''"
  shows "generated_cache_mp4 name \<and> \<not> generated_intermediate name \<and>
    generated_intermediate (cache_part name) \<and> \<not> generated_cache_mp4 (cache_part name) \<and>
    generated_cache_stamp_output (cache_stamp_path name) = Some name"
proof -
  have ok: "generated_cache_mp4 name" unfolding name_def by (rule output_recognised) (fact assms)+
  have ascii: "utf8_valid (name @ ''.part'')" "utf8_valid (name @ ''.src'')"
    by (rule utf8_valid_ascii; auto simp: name_def dest: stem_ascii)+
  have "generated_cache_stamp_output (cache_stamp_path name) = Some name"
    using ok ascii(2) by (simp add: generated_cache_stamp_output_def cache_stamp_path_def strip_end_append)
  moreover have "\<not> generated_intermediate name"
    unfolding name_def by (rule not_intermediate) (rule stem_no_dot)
  moreover have "generated_intermediate (cache_part name)" "\<not> generated_cache_mp4 (cache_part name)"
    unfolding cache_part_def using ok partial_intermediate [OF ascii(1)] partial_not_output by simp_all
  ultimately show ?thesis using ok by blast
qed

text \<open>
  C35: The names of cached outputs. For the keys the server makes (a digest, or any key for the browser,
  whose name is the digest of the key) and every row id, maintenance recognises the output, its partial
  file and its stamp, and takes none of them for another kind; and two outputs have the same name only
  if they are of the same row, the same action and keys of the same digest.
\<close>
theorem cache_names_recognised:
  fixes sha :: "string \<Rightarrow> string" and a b :: recode_action and key key' :: string
  assumes "\<And>x. length (sha x) = 32" "0 \<le> i" "i < 2 ^ 63" "0 \<le> j"
    "a \<noteq> BrowserAction \<Longrightarrow> key = lowercase_hex (sha s)" "b \<noteq> BrowserAction \<Longrightarrow> key' = lowercase_hex (sha s')"
  defines "name \<equiv> cache_file_name sha i a key"
  shows "generated_cache_mp4 name \<and> \<not> generated_intermediate name \<and>
    generated_intermediate (cache_part name) \<and> \<not> generated_cache_mp4 (cache_part name) \<and>
    generated_cache_stamp_output (cache_stamp_path name) = Some name \<and>
    (name = cache_file_name sha j b key' \<longrightarrow> i = j \<and> a = b \<and> (if a = BrowserAction then sha key = sha key' else key = key'))"
proof -
  let ?d = "if a = BrowserAction then sha key else sha s" and ?e = "if b = BrowserAction then sha key' else sha s'"
  have name: "name = output_stem i a ?d @ ''.mp4''" "cache_file_name sha j b key' = output_stem j b ?e @ ''.mp4''"
    unfolding name_def using assms(5,6) by (auto simp: cache_file_name_def output_stem_def)
  have "i = j \<and> a = b \<and> ?d = ?e" if "name = cache_file_name sha j b key'"
    by (rule output_stem_inj) (use that name assms(2,4) in simp_all)
  moreover have "length ?d = 32" using assms(1) by simp
  ultimately show ?thesis
    using output_names [OF assms(2,3), of ?d a] assms(5,6) unfolding name(1) [symmetric]
    by (auto split: if_splits)
qed

lemma cache_names_recognised_witness:
  "generated_cache_mp4 (cache_file_name (\<lambda>_. replicate 32 CHR 0x00) 7 BrowserAction ''k'')"
proof -
  have "BrowserAction \<noteq> BrowserAction \<Longrightarrow> ''k'' = lowercase_hex ((\<lambda>_ :: string. replicate 32 CHR 0x00) ''k'')" by simp
  from cache_names_recognised [of "\<lambda>_. replicate 32 CHR 0x00" 7 0 BrowserAction "''k''" "''k''" BrowserAction "''k''" "''k''",
      OF _ _ _ _ this this]
  show ?thesis by simp
qed

text \<open>
  The shape check of keys admits lower-case letters, digits and single dashes only; the presets other
  than the balanced one put an underscore into the key, so their keys do not have the shape that the check
  promises for every browser key. (Their files are found nevertheless: the name is the digest.)
\<close>
lemma preset_keys_not_safe:
  assumes "preset_used p opts" and that: "length d = 32"
  shows "\<not> cache_key_has_safe_shape BrowserAction (browser_cache_key_from_base sha (lowercase_hex d) p opts)"
proof -
  let ?key = "browser_cache_key_from_base sha (lowercase_hex d) p opts"
  have "CHR ''_'' \<in> set (drop 64 ?key)"
    using assms that by (cases "oo_encoding_preset opts")
      (simp_all add: browser_key_parts revision_flags_def revision_names_def preset_used_def Let_def)
  then have "\<not> list_all (\<lambda>c. is_lower c \<or> is_digit c \<or> c = CHR ''-'') (drop 64 ?key)" "drop 64 ?key \<noteq> []"
    by (auto simp: list_all_iff is_lower_def is_digit_def intro!: bexI [of _ "CHR ''_''"])
  then show ?thesis
    by (simp add: cache_key_has_safe_shape_def CACHE_DIGEST_HEX_BYTES_def Let_def)
qed

end
