(* ===== verification/Cache_Maintenance.thy ===== *)
theory Cache_Maintenance
  imports Cache_Names "HOL-Library.AList"
begin

text \<open>
  Accounting and eviction of cached outputs (\<open>server/src/remux/cache.rs\<close>). The cache directory is a
  list of named nodes, with the names whose status cannot be read and those that cannot be unlinked; the
  inventory is the program's own view of it, which may be older. The registry of jobs, the reservations
  and the clock are inputs of one maintenance, and the free space is a function of the directory.
\<close>

subsection \<open>The directory\<close>

record fnode =
  fn_is_file :: bool
  fn_len :: nat
  fn_modified :: nat

record cache_fs =
  fs_nodes :: "(string \<times> fnode) list"
  fs_unreadable :: "string \<Rightarrow> bool"
  fs_stuck :: "string \<Rightarrow> bool"

datatype cache_error = IoFailed | LimitsUnsatisfied

definition fs_stat :: "cache_fs \<Rightarrow> string \<Rightarrow> cache_error + fnode option" where
  "fs_stat fs p = (if fs_unreadable fs p then Inl IoFailed else Inr (map_of (fs_nodes fs) p))"

datatype unlink_result = Removed | NotFound | Failed

definition fs_unlink :: "string \<Rightarrow> cache_fs \<Rightarrow> unlink_result \<times> cache_fs" where
  "fs_unlink p fs =
     (if map_of (fs_nodes fs) p = None then (NotFound, fs)
      else if fs_stuck fs p then (Failed, fs)
      else (Removed, fs\<lparr>fs_nodes := filter (\<lambda>(q, _). q \<noteq> p) (fs_nodes fs)\<rparr>))"

subsection \<open>The inventory\<close>

record cache_entry =
  ce_bytes :: nat
  ce_used :: nat
  ce_completed :: bool

record inventory =
  iv_entries :: "(string \<times> cache_entry) list"
  iv_bytes :: nat
  iv_swept :: "nat option"

definition empty_inventory :: inventory where
  "empty_inventory = \<lparr>iv_entries = [], iv_bytes = 0, iv_swept = None\<rparr>"

definition iv_replace :: "string \<Rightarrow> cache_entry option \<Rightarrow> inventory \<Rightarrow> inventory" where
  "iv_replace p e iv =
     (let iv = (case map_of (iv_entries iv) p of
                  None \<Rightarrow> iv
                | Some old \<Rightarrow> iv\<lparr>iv_entries := AList.delete p (iv_entries iv), iv_bytes := iv_bytes iv - ce_bytes old\<rparr>)
      in case e of
           None \<Rightarrow> iv
         | Some new \<Rightarrow> iv\<lparr>iv_entries := (p, new) # iv_entries iv,
                           iv_bytes := saturating_add u64_max (iv_bytes iv) (ce_bytes new)\<rparr>)"

definition entry_from_metadata :: "cache_fs \<Rightarrow> string \<Rightarrow> fnode \<Rightarrow> cache_error + cache_entry option" where
  "entry_from_metadata fs p m =
     (let completed = generated_cache_mp4 p
      in if \<not> fn_is_file m \<or> (\<not> completed \<and> \<not> generated_intermediate p) then Inr None
         else bind_res
           (if completed then
              bind_res (fs_stat fs (cache_stamp_path p)) (\<lambda>stamp.
                Inr (case stamp of Some s \<Rightarrow> if fn_is_file s then fn_modified s else fn_modified m | None \<Rightarrow> fn_modified m))
            else Inr (fn_modified m))
           (\<lambda>used. Inr (Some \<lparr>ce_bytes = fn_len m, ce_used = used, ce_completed = completed\<rparr>)))"

definition read_entry :: "cache_fs \<Rightarrow> string \<Rightarrow> cache_error + cache_entry option" where
  "read_entry fs p =
     bind_res (fs_stat fs p) (\<lambda>m. case m of None \<Rightarrow> Inr None | Some m \<Rightarrow> entry_from_metadata fs p m)"

fun discover_names :: "cache_fs \<Rightarrow> string list \<Rightarrow> inventory \<Rightarrow> cache_error + inventory" where
  "discover_names fs [] iv = Inr iv"
| "discover_names fs (p # ps) iv =
     bind_res (read_entry fs p) (\<lambda>e.
       discover_names fs ps
         (case e of None \<Rightarrow> iv
          | Some e \<Rightarrow> iv\<lparr>iv_entries := AList.update p e (iv_entries iv),
                          iv_bytes := saturating_add u64_max (iv_bytes iv) (ce_bytes e)\<rparr>))"

definition discover :: "nat \<Rightarrow> cache_fs \<Rightarrow> cache_error + inventory" where
  "discover clock fs =
     bind_res (discover_names fs (map fst (fs_nodes fs)) empty_inventory) (\<lambda>iv. Inr (iv\<lparr>iv_swept := Some clock\<rparr>))"

text \<open>Fresh entries for the given names; the entries read before a failure stay replaced.\<close>

fun refresh_paths :: "cache_fs \<Rightarrow> string list \<Rightarrow> inventory \<Rightarrow> inventory \<times> (cache_error + unit)" where
  "refresh_paths fs [] iv = (iv, Inr ())"
| "refresh_paths fs (p # ps) iv =
     (case read_entry fs p of
        Inl e \<Rightarrow> (iv, Inl e)
      | Inr e \<Rightarrow> refresh_paths fs ps (iv_replace p e iv))"

subsection \<open>Jobs\<close>

record remux_job =
  rj_dest :: string
  rj_part :: string

definition with_extension :: "string \<Rightarrow> string \<Rightarrow> string" where
  "with_extension name ext = fst (split_extension name) @ ''.'' @ ext"

definition active_artifacts :: "remux_job list \<Rightarrow> string list" where
  "active_artifacts jobs =
     concat (map (\<lambda>j. [rj_dest j, rj_part j, with_extension (rj_part j) ''hevc'', with_extension (rj_part j) ''p8.hevc'',
                       with_extension (rj_part j) ''p8.mp4'']) jobs)"

record maintenance =
  mt_jobs :: "remux_job list"
  mt_requested :: "string list"
  mt_reserved :: "string list"
  mt_quota :: nat
  mt_minimum_free :: nat
  mt_max_age :: nat
  mt_now :: nat
  mt_available :: "cache_fs \<Rightarrow> cache_error + nat"

definition free_shortfall :: "maintenance \<Rightarrow> cache_fs \<Rightarrow> cache_error + nat" where
  "free_shortfall m fs =
     (if mt_minimum_free m = 0 then Inr 0
      else bind_res (mt_available m fs) (\<lambda>available. Inr (mt_minimum_free m - available)))"

definition eviction_can_satisfy_limits :: "maintenance \<Rightarrow> inventory \<Rightarrow> string list \<Rightarrow> nat \<Rightarrow> bool" where
  "eviction_can_satisfy_limits m iv active shortfall =
     (let owned = (\<lambda>p. p \<in> set active \<or> p \<in> set (mt_requested m) \<or> p \<in> rj_dest ` set (mt_jobs m));
          reclaimable = foldl (\<lambda>total (p, e). saturating_add u64_max total (ce_bytes e)) 0
                          (filter (\<lambda>(p, e). ce_completed e \<and> \<not> owned p) (iv_entries iv))
      in iv_bytes iv - reclaimable \<le> mt_quota m \<and> reclaimable \<ge> shortfall)"

subsection \<open>Eviction\<close>

record mstate =
  ms_inventory :: inventory
  ms_fs :: cache_fs
  ms_shortfall :: nat
  ms_evicted_files :: nat
  ms_evicted_bytes :: nat

definition satisfied :: "maintenance \<Rightarrow> mstate \<Rightarrow> bool" where
  "satisfied m s \<longleftrightarrow> iv_bytes (ms_inventory s) \<le> mt_quota m \<and> ms_shortfall s = 0"

definition is_aged :: "maintenance \<Rightarrow> cache_entry \<Rightarrow> bool" where
  "is_aged m e \<longleftrightarrow> mt_now m - ce_used e > mt_max_age m"

text \<open>Unlinking one candidate that is still the entry the inventory knew.\<close>

definition evict_one :: "maintenance \<Rightarrow> string \<Rightarrow> nat \<Rightarrow> mstate \<Rightarrow> mstate \<times> (cache_error + unit)" where
  "evict_one m p bytes s =
     (case fs_unlink p (ms_fs s) of
        (Failed, fs) \<Rightarrow> (s, Inl IoFailed)
      | (answer, fs) \<Rightarrow>
          (let removed = (answer = Removed);
               s = s\<lparr>ms_fs := snd (fs_unlink (cache_stamp_path p) fs),
                     ms_inventory := iv_replace p None (ms_inventory s),
                     ms_evicted_files := ms_evicted_files s + (if removed then 1 else 0),
                     ms_evicted_bytes := ms_evicted_bytes s + (if removed then bytes else 0)\<rparr>
           in if ms_shortfall s > 0 then
                (case mt_available m (ms_fs s) of
                   Inl e \<Rightarrow> (s, Inl e)
                 | Inr available \<Rightarrow> (s\<lparr>ms_shortfall := mt_minimum_free m - available\<rparr>, Inr ()))
              else (s, Inr ())))"

fun evict_pass ::
  "maintenance \<Rightarrow> bool \<Rightarrow> (string \<times> cache_entry) list \<Rightarrow> (string \<times> cache_entry) list \<Rightarrow> mstate \<Rightarrow>
     mstate \<times> (cache_error + (string \<times> cache_entry) list)" where
  "evict_pass m pressure [] refreshed s = (s, Inr refreshed)"
| "evict_pass m pressure ((p, entry) # candidates) refreshed s =
     (if \<not> is_aged m entry \<and> (\<not> pressure \<or> satisfied m s) then evict_pass m pressure candidates refreshed s
      else if p \<in> set (mt_reserved m) then evict_pass m pressure candidates refreshed s
      else if p \<in> rj_dest ` set (mt_jobs m) \<or> p \<in> set (mt_requested m) then evict_pass m pressure candidates refreshed s
      else case read_entry (ms_fs s) p of
             Inl e \<Rightarrow> (s, Inl e)
           | Inr current \<Rightarrow>
               if option_is (\<lambda>c. ce_used c > ce_used entry) current then
                 evict_pass m pressure candidates (refreshed @ [(p, the current)])
                   (s\<lparr>ms_inventory := iv_replace p current (ms_inventory s)\<rparr>)
               else
                 (case evict_one m p (case current of Some c \<Rightarrow> ce_bytes c | None \<Rightarrow> ce_bytes entry) s of
                    (s, Inl e) \<Rightarrow> (s, Inl e)
                  | (s, Inr _) \<Rightarrow> evict_pass m pressure candidates refreshed s))"

definition eviction_candidates :: "maintenance \<Rightarrow> bool \<Rightarrow> inventory \<Rightarrow> (string \<times> cache_entry) list" where
  "eviction_candidates m pressure iv =
     (let candidates = filter (\<lambda>(_, e). ce_completed e \<and> (pressure \<or> is_aged m e)) (iv_entries iv)
      in if pressure then sort_key (\<lambda>(_, e). ce_used e) candidates else candidates)"

definition evict_rounds :: "maintenance \<Rightarrow> bool \<Rightarrow> mstate \<Rightarrow> mstate \<times> (cache_error + unit)" where
  "evict_rounds m pressure s =
     (case evict_pass m pressure (eviction_candidates m pressure (ms_inventory s)) [] s of
        (s, Inl e) \<Rightarrow> (s, Inl e)
      | (s, Inr refreshed) \<Rightarrow>
          if \<not> pressure \<or> satisfied m s then (s, Inr ())
          else (case evict_pass m pressure (sort_key (\<lambda>(_, e). ce_used e) refreshed) [] s of
                  (s, Inl e) \<Rightarrow> (s, Inl e)
                | (s, Inr _) \<Rightarrow> (s, Inr ())))"

subsection \<open>One maintenance\<close>

definition SWEEP_INTERVAL :: nat where "SWEEP_INTERVAL = 30"

text \<open>Discovery when a sweep is due; a failed one stays due.\<close>

definition sweep_due :: "bool \<Rightarrow> nat \<Rightarrow> inventory \<Rightarrow> bool" where
  "sweep_due force clock iv \<longleftrightarrow> force \<or> (case iv_swept iv of None \<Rightarrow> True | Some at \<Rightarrow> clock - at \<ge> SWEEP_INTERVAL)"

definition swept_inventory :: "bool \<Rightarrow> nat \<Rightarrow> cache_fs \<Rightarrow> inventory \<Rightarrow> inventory \<times> (cache_error + unit)" where
  "swept_inventory sweep clock fs iv =
     (if sweep then
        (case discover clock fs of Inl e \<Rightarrow> (iv\<lparr>iv_swept := None\<rparr>, Inl e) | Inr new \<Rightarrow> (new, Inr ()))
      else (iv, Inr ()))"

definition limited_eviction :: "maintenance \<Rightarrow> bool \<Rightarrow> string list \<Rightarrow> mstate \<Rightarrow> mstate \<times> (cache_error + nat)" where
  "limited_eviction m sweep active s =
     (let over = iv_bytes (ms_inventory s) > mt_quota m \<or> ms_shortfall s > 0;
          pressure = (over \<and> eviction_can_satisfy_limits m (ms_inventory s) active (ms_shortfall s))
      in case (if sweep \<or> pressure then evict_rounds m pressure s else (s, Inr ())) of
           (s, Inl e) \<Rightarrow> (s, Inl e)
         | (s, Inr _) \<Rightarrow>
             if \<not> satisfied m s then (s, Inl LimitsUnsatisfied) else (s, Inr (iv_bytes (ms_inventory s))))"

definition maintain_inventory_locked ::
  "maintenance \<Rightarrow> string list \<Rightarrow> bool \<Rightarrow> nat \<Rightarrow> inventory \<Rightarrow> cache_fs \<Rightarrow> mstate \<times> (cache_error + nat)" where
  "maintain_inventory_locked m retired force clock iv fs =
     (let state = (\<lambda>iv shortfall. \<lparr>ms_inventory = iv, ms_fs = fs, ms_shortfall = shortfall,
                      ms_evicted_files = 0, ms_evicted_bytes = 0\<rparr>)
      in case refresh_paths fs retired iv of
           (iv, Inl e) \<Rightarrow> (state (iv\<lparr>iv_swept := None\<rparr>) 0, Inl e)
         | (iv, Inr _) \<Rightarrow>
             (let sweep = sweep_due force clock iv
              in case swept_inventory sweep clock fs iv of
                   (iv, Inl e) \<Rightarrow> (state iv 0, Inl e)
                 | (iv, Inr _) \<Rightarrow>
                     (let active = active_artifacts (mt_jobs m)
                      in case refresh_paths fs (active @ mt_requested m) iv of
                           (iv, Inl e) \<Rightarrow> (state iv 0, Inl e)
                         | (iv, Inr _) \<Rightarrow>
                             (case free_shortfall m fs of
                                Inl e \<Rightarrow> (state iv 0, Inl e)
                              | Inr shortfall \<Rightarrow> limited_eviction m sweep active (state iv shortfall)))))"

text \<open>The last check before an output is published.\<close>

fun refresh_artifacts :: "cache_fs \<Rightarrow> string list \<Rightarrow> inventory \<Rightarrow> inventory" where
  "refresh_artifacts fs [] iv = iv"
| "refresh_artifacts fs (p # ps) iv =
     refresh_artifacts fs ps (case read_entry fs p of Inl _ \<Rightarrow> iv\<lparr>iv_swept := None\<rparr> | Inr e \<Rightarrow> iv_replace p e iv)"

definition check_publication_limits ::
  "maintenance \<Rightarrow> remux_job \<Rightarrow> cache_fs \<Rightarrow> inventory \<Rightarrow> inventory \<times> (cache_error + unit)" where
  "check_publication_limits m job fs iv =
     (let iv = refresh_artifacts fs [rj_part job, rj_dest job] iv
      in if iv_bytes iv > mt_quota m then (iv, Inl LimitsUnsatisfied)
         else if mt_minimum_free m > 0 then
           (case mt_available m fs of
              Inl e \<Rightarrow> (iv, Inl e)
            | Inr available \<Rightarrow> if available < mt_minimum_free m then (iv, Inl LimitsUnsatisfied) else (iv, Inr ()))
         else (iv, Inr ()))"

end
