(* ===== verification/Cache_Eviction.thy ===== *)
theory Cache_Eviction
  imports Cache_Maintenance
begin

text \<open>
  What a maintenance removes and what it reports: only completed outputs that no job, admission or
  reservation owns, with their stamps; the inventory's total stays the sum of its entries; and success
  means that the limits hold.
\<close>

subsection \<open>Inventories\<close>

definition iv_ok :: "inventory \<Rightarrow> bool" where
  "iv_ok iv \<longleftrightarrow> distinct (map fst (iv_entries iv)) \<and> (\<forall>(p, e)\<in>set (iv_entries iv). ce_completed e \<longrightarrow> generated_cache_mp4 p)"

lemma iv_ok_empty: "iv_ok empty_inventory"
  by (simp add: iv_ok_def empty_inventory_def)

lemma iv_ok_swept [simp]: "iv_ok (iv\<lparr>iv_swept := x\<rparr>) = iv_ok iv"
  by (simp add: iv_ok_def)

lemma replace_entries:
  assumes "distinct (map fst (iv_entries iv))"
  shows "iv_entries (iv_replace p e iv) =
    (case e of None \<Rightarrow> [] | Some new \<Rightarrow> [(p, new)]) @ filter (\<lambda>(q, _). q \<noteq> p) (iv_entries iv)"
proof (cases "map_of (iv_entries iv) p")
  case None
  then have "filter (\<lambda>(q, _). q \<noteq> p) (iv_entries iv) = iv_entries iv"
    by (force simp: filter_id_conv map_of_eq_None_iff)
  then show ?thesis using None by (simp add: iv_replace_def split: option.split)
next
  case (Some old)
  have "AList.delete p xs = filter (\<lambda>(q, _). q \<noteq> p) xs" for xs :: "(string \<times> cache_entry) list"
    unfolding AList.delete_eq by (rule filter_cong) auto
  then show ?thesis using Some by (simp add: iv_replace_def split: option.split)
qed

definition entry_ok :: "string \<Rightarrow> cache_entry option \<Rightarrow> bool" where
  "entry_ok p e \<longleftrightarrow> (\<forall>new. e = Some new \<longrightarrow> ce_completed new \<longrightarrow> generated_cache_mp4 p)"

lemma entry_facts:
  assumes "entry_from_metadata fs p n = Inr (Some e)"
  shows "ce_completed e = generated_cache_mp4 p \<and> ce_bytes e = fn_len n"
proof -
  have "\<not> (\<not> fn_is_file n \<or> \<not> generated_cache_mp4 p \<and> \<not> generated_intermediate p)"
  proof
    assume "\<not> fn_is_file n \<or> \<not> generated_cache_mp4 p \<and> \<not> generated_intermediate p"
    then have "entry_from_metadata fs p n = Inr None" unfolding entry_from_metadata_def Let_def by (rule if_P)
    then show False using assms by simp
  qed
  then obtain x where entry: "entry_from_metadata fs p n = bind_res x (\<lambda>used.
      Inr (Some \<lparr>ce_bytes = fn_len n, ce_used = used, ce_completed = generated_cache_mp4 p\<rparr>))"
    unfolding entry_from_metadata_def Let_def by (simp only: if_False)
  from assms [unfolded entry] show ?thesis by (cases x) auto
qed

lemma read_entry_facts:
  "read_entry fs p = Inr (Some e) \<Longrightarrow>
     \<exists>n. map_of (fs_nodes fs) p = Some n \<and> ce_completed e = generated_cache_mp4 p \<and> ce_bytes e = fn_len n"
  by (auto simp: read_entry_def fs_stat_def bind_res_Inr dest: entry_facts split: option.splits if_splits)

lemma read_entry_ok: "read_entry fs p = Inr e \<Longrightarrow> entry_ok p e"
  by (auto simp: entry_ok_def dest: read_entry_facts)

lemma in_update: "x \<in> set (AList.update p e al) \<Longrightarrow> x = (p, e) \<or> x \<in> set al"
  by (induction al) (auto split: if_splits)

lemma iv_ok_replace: "iv_ok iv \<Longrightarrow> entry_ok p e \<Longrightarrow> iv_ok (iv_replace p e iv)"
  by (auto simp: iv_ok_def replace_entries entry_ok_def distinct_map_filter split: option.split)

lemma iv_ok_refresh: "iv_ok iv \<Longrightarrow> iv_ok (fst (refresh_paths fs ps iv))"
  by (induction fs ps iv rule: refresh_paths.induct)
    (auto split: sum.split intro: iv_ok_replace read_entry_ok)

lemma iv_ok_discover_names: "iv_ok iv \<Longrightarrow> discover_names fs ps iv = Inr new \<Longrightarrow> iv_ok new"
proof (induction fs ps iv rule: discover_names.induct)
  case (2 fs p ps iv)
  then obtain e where e: "read_entry fs p = Inr e" by (auto simp: bind_res_Inr)
  show ?case
  proof (cases e)
    case None
    then show ?thesis using 2 e by simp
  next
    case (Some new_entry)
    have "iv_ok (iv\<lparr>iv_entries := AList.update p new_entry (iv_entries iv),
        iv_bytes := saturating_add u64_max (iv_bytes iv) (ce_bytes new_entry)\<rparr>)"
      using 2(2) read_entry_ok [OF e] Some
      by (auto simp: iv_ok_def entry_ok_def distinct_update dest!: in_update)
    then show ?thesis using 2 e Some by simp
  qed
qed simp

lemma iv_ok_swept_inventory: "iv_ok iv \<Longrightarrow> iv_ok (fst (swept_inventory sweep clock fs iv))"
  by (auto simp: swept_inventory_def discover_def bind_res_Inr split: sum.split
      dest!: iv_ok_discover_names [OF iv_ok_empty])

subsection \<open>What is removed\<close>

definition evictable :: "maintenance \<Rightarrow> string \<Rightarrow> bool" where
  "evictable m p \<longleftrightarrow> generated_cache_mp4 p \<and> p \<notin> rj_dest ` set (mt_jobs m) \<and> p \<notin> set (mt_requested m) \<and> p \<notin> set (mt_reserved m)"

definition spares :: "maintenance \<Rightarrow> cache_fs \<Rightarrow> cache_fs \<Rightarrow> bool" where
  "spares m fs fs' \<longleftrightarrow>
     (\<forall>q. map_of (fs_nodes fs') q = map_of (fs_nodes fs) q \<or> (\<exists>p. evictable m p \<and> (q = p \<or> q = cache_stamp_path p)))"

lemma spares_refl: "spares m fs fs"
  by (simp add: spares_def)

lemma spares_trans: "spares m a b \<Longrightarrow> spares m b c \<Longrightarrow> spares m a c"
  unfolding spares_def by metis

lemma map_of_filter_other: "q \<noteq> p \<Longrightarrow> map_of (filter (\<lambda>(x, _). x \<noteq> p) xs) q = map_of xs q"
  by (induction xs) auto

lemma unlink_other: "q \<noteq> p \<Longrightarrow> map_of (fs_nodes (snd (fs_unlink p fs))) q = map_of (fs_nodes fs) q"
  by (simp add: fs_unlink_def map_of_filter_other)

lemma evict_one_spares: "evictable m p \<Longrightarrow> spares m (ms_fs s) (ms_fs (fst (evict_one m p bytes s)))"
proof -
  assume p: "evictable m p"
  obtain answer fs where unlink: "fs_unlink p (ms_fs s) = (answer, fs)" by force
  have "map_of (fs_nodes (ms_fs (fst (evict_one m p bytes s)))) q = map_of (fs_nodes (ms_fs s)) q"
    if "q \<noteq> p" "q \<noteq> cache_stamp_path p" for q
    using unlink_other [OF that(1), of "ms_fs s"] unlink_other [OF that(2)]
    by (cases answer) (simp_all add: evict_one_def Let_def unlink split: sum.split)
  then show ?thesis using p unfolding spares_def by blast
qed

lemma evict_pass_spares:
  assumes "evict_pass m pressure cands refreshed s = (s', r)" "\<forall>x\<in>set (cands @ refreshed). generated_cache_mp4 (fst x)"
  shows "spares m (ms_fs s) (ms_fs s') \<and> (\<forall>out. r = Inr out \<longrightarrow> (\<forall>x\<in>set out. generated_cache_mp4 (fst x)))"
  using assms
proof (induction m pressure cands refreshed s rule: evict_pass.induct)
  case (2 m pressure p entry cands refreshed s)
  let ?skip = "evict_pass m pressure cands refreshed s"
  show ?case
  proof (cases "(\<not> is_aged m entry \<and> (\<not> pressure \<or> satisfied m s)) \<or> p \<in> set (mt_reserved m) \<or>
      p \<in> rj_dest ` set (mt_jobs m) \<or> p \<in> set (mt_requested m)")
    case True
    then have "?skip = (s', r)" using 2(6) by (auto split: if_splits)
    then show ?thesis using 2(1,2,3,7) True by (auto split: if_splits)
  next
    case False
    then have p: "evictable m p" using 2(7) by (auto simp: evictable_def)
    show ?thesis
    proof (cases "read_entry (ms_fs s) p")
      case (Inl e)
      then show ?thesis using 2(6) False by (auto simp: spares_refl)
    next
      case (Inr current)
      show ?thesis
      proof (cases "option_is (\<lambda>c. ce_used entry < ce_used c) current")
        case True
        then have "evict_pass m pressure cands (refreshed @ [(p, the current)])
            (s\<lparr>ms_inventory := iv_replace p current (ms_inventory s)\<rparr>) = (s', r)"
          using 2(6) False Inr by (auto split: if_splits)
        then show ?thesis using 2(4) 2(7) False Inr True by simp
      next
        case current: False
        let ?b = "case current of Some c \<Rightarrow> ce_bytes c | None \<Rightarrow> ce_bytes entry"
        obtain t a where t: "evict_one m p ?b s = (t, a)" by force
        have step: "spares m (ms_fs s) (ms_fs t)" using evict_one_spares [OF p, of s ?b] t by simp
        show ?thesis
        proof (cases a)
          case (Inl e)
          then show ?thesis using 2(6) False \<open>read_entry (ms_fs s) p = Inr current\<close> current t step by auto
        next
          case (Inr u)
          then have "evict_pass m pressure cands refreshed t = (s', r)"
            using 2(6) False \<open>read_entry (ms_fs s) p = Inr current\<close> current t by auto
          then show ?thesis
            using 2(5) [of current] 2(7) False \<open>read_entry (ms_fs s) p = Inr current\<close> current t Inr step
            by (auto intro: spares_trans)
        qed
      qed
    qed
  qed
qed (auto simp: spares_refl)

lemma candidates_generated:
  "iv_ok iv \<Longrightarrow> \<forall>x\<in>set (eviction_candidates m pressure iv @ []). generated_cache_mp4 (fst x)"
  by (auto simp: eviction_candidates_def Let_def iv_ok_def)

lemma evict_rounds_spares:
  assumes "evict_rounds m pressure s = (s', r)" "iv_ok (ms_inventory s)"
  shows "spares m (ms_fs s) (ms_fs s')"
proof -
  obtain t a where first: "evict_pass m pressure (eviction_candidates m pressure (ms_inventory s)) [] s = (t, a)" by force
  note one = evict_pass_spares [OF first candidates_generated [OF assms(2)]]
  show ?thesis
  proof (cases a)
    case (Inl e)
    then show ?thesis using assms(1) first one by (simp add: evict_rounds_def)
  next
    case (Inr refreshed)
    let ?again = "sort_key (\<lambda>(_, e). ce_used e) refreshed"
    obtain u b where second: "evict_pass m pressure ?again [] t = (u, b)" by force
    have "\<forall>x\<in>set (?again @ []). generated_cache_mp4 (fst x)" using one Inr by simp
    from evict_pass_spares [OF second this] have "spares m (ms_fs t) (ms_fs u)" by blast
    moreover have "s' = t \<or> s' = u"
      using assms(1) first Inr second by (auto simp: evict_rounds_def split: if_splits sum.splits)
    ultimately show ?thesis using one spares_trans by blast
  qed
qed

text \<open>A maintenance that reaches the eviction does so with a fresh inventory and the old directory.\<close>

lemma maintain_from:
  assumes "maintain_inventory_locked m retired force clock iv fs = (s, r)" "P iv"
    and keeps: "\<And>iv ps. P iv \<Longrightarrow> P (fst (refresh_paths fs ps iv))" "\<And>iv sweep. P iv \<Longrightarrow> P (fst (swept_inventory sweep clock fs iv))"
      "\<And>iv. P iv \<Longrightarrow> P (iv\<lparr>iv_swept := None\<rparr>)"
  obtains (failed) "ms_fs s = fs" "\<exists>e. r = Inl e" "P (ms_inventory s)"
  | (evicted) sweep shortfall iv' where "P iv'" "free_shortfall m fs = Inr shortfall"
      "limited_eviction m sweep (active_artifacts (mt_jobs m)) \<lparr>ms_inventory = iv', ms_fs = fs, ms_shortfall = shortfall,
         ms_evicted_files = 0, ms_evicted_bytes = 0\<rparr> = (s, r)"
proof -
  obtain iv1 r1 where one: "refresh_paths fs retired iv = (iv1, r1)" by force
  obtain iv2 r2 where two: "swept_inventory (sweep_due force clock iv1) clock fs iv1 = (iv2, r2)" by force
  obtain iv3 r3 where three: "refresh_paths fs (active_artifacts (mt_jobs m) @ mt_requested m) iv2 = (iv3, r3)" by force
  obtain r4 where four: "free_shortfall m fs = r4" by blast
  have ok: "P iv1" "P iv2" "P iv3"
    using keeps(1) [OF assms(2), of retired] keeps(2) [of iv1 "sweep_due force clock iv1"]
      keeps(1) [of iv2 "active_artifacts (mt_jobs m) @ mt_requested m"] one two three by simp_all
  note run = assms(1) [unfolded maintain_inventory_locked_def Let_def one prod.case]
  show ?thesis
  proof (cases "\<exists>u v w x. r1 = Inr u \<and> r2 = Inr v \<and> r3 = Inr w \<and> r4 = Inr x")
    case True
    then obtain x where "r4 = Inr x" "r1 = Inr ()" "r2 = Inr ()" "r3 = Inr ()" by auto
    then show ?thesis using run two three four ok evicted [of iv3 x "sweep_due force clock iv1"] by simp
  next
    case False
    then have "ms_fs s = fs \<and> (\<exists>e. r = Inl e) \<and> (ms_inventory s = iv1\<lparr>iv_swept := None\<rparr> \<or> ms_inventory s = iv2 \<or> ms_inventory s = iv3)"
      using run two three four by (cases r1; cases r2; cases r3; cases r4; auto; metis)
    then show ?thesis using failed ok keeps(3) by auto
  qed
qed

lemma limited_eviction_spares:
  assumes "limited_eviction m sweep active s = (s', r)" "iv_ok (ms_inventory s)"
  shows "spares m (ms_fs s) (ms_fs s')"
proof -
  let ?over = "mt_quota m < iv_bytes (ms_inventory s) \<or> 0 < ms_shortfall s"
  let ?p = "?over \<and> eviction_can_satisfy_limits m (ms_inventory s) active (ms_shortfall s)"
  obtain t a where t: "(if sweep \<or> ?p then evict_rounds m ?p s else (s, Inr ())) = (t, a)" by force
  then have "spares m (ms_fs s) (ms_fs t)"
    using evict_rounds_spares [OF _ assms(2)] spares_refl by (auto split: if_splits)
  moreover have "s' = t" using assms(1) unfolding limited_eviction_def Let_def t by (auto split: sum.splits if_splits)
  ultimately show ?thesis by simp
qed

lemma stamp_not_output: "\<not> generated_cache_mp4 (cache_stamp_path p)"
proof -
  have "rsplit_once (CHR ''.'') (p @ CHR ''.'' # ''src'') = Some (p, ''src'')"
    by (rule rsplit_once_append) simp
  then have "snd (split_extension (p @ ''.src'')) \<noteq> Some ''mp4''" by (simp add: split_extension_def)
  then show ?thesis by (auto simp: generated_cache_mp4_def cache_stamp_path_def split: prod.splits)
qed

lemma stamp_inj: "cache_stamp_path p = cache_stamp_path q \<longleftrightarrow> p = q"
  by (simp add: cache_stamp_path_def)

lemma partial_not_stamp: "cache_part p \<noteq> cache_stamp_path q"
proof
  assume "cache_part p = cache_stamp_path q"
  then have "last (cache_part p) = last (cache_stamp_path q)" by simp
  then show False by (simp add: cache_part_def cache_stamp_path_def)
qed

text \<open>
  C36: Cache maintenance removes nothing that is in use. Whatever the state of the inventory and of the
  directory and whether or not the maintenance fails half way, every directory entry that has changed is
  a completed output, or the stamp of one, that is not the destination of a job, not requested and not
  reserved; in particular a job's output, its partial file and the stamp of its output are untouched.
\<close>
theorem maintenance_spares_live:
  assumes "iv_ok iv" "maintain_inventory_locked m retired force clock iv fs = (s, r)"
  shows "(\<forall>q. map_of (fs_nodes (ms_fs s)) q \<noteq> map_of (fs_nodes fs) q \<longrightarrow>
      (\<exists>p. (q = p \<or> q = cache_stamp_path p) \<and> generated_cache_mp4 p \<and> p \<notin> rj_dest ` set (mt_jobs m) \<and>
        p \<notin> set (mt_requested m) \<and> p \<notin> set (mt_reserved m))) \<and>
    (\<forall>job\<in>set (mt_jobs m). generated_cache_mp4 (rj_dest job) \<longrightarrow> rj_part job = cache_part (rj_dest job) \<longrightarrow>
      (\<forall>q\<in>{rj_dest job, rj_part job, cache_stamp_path (rj_dest job)}.
        map_of (fs_nodes (ms_fs s)) q = map_of (fs_nodes fs) q))"
proof -
  have spares: "spares m fs (ms_fs s)"
  proof (rule maintain_from [OF assms(2), of iv_ok])
    fix sweep shortfall iv'
    assume "iv_ok iv'" "limited_eviction m sweep (active_artifacts (mt_jobs m))
      \<lparr>ms_inventory = iv', ms_fs = fs, ms_shortfall = shortfall, ms_evicted_files = 0, ms_evicted_bytes = 0\<rparr> = (s, r)"
    then show ?thesis using limited_eviction_spares by fastforce
  qed (use assms(1) iv_ok_refresh iv_ok_swept_inventory in \<open>simp_all add: spares_refl\<close>)
  have "map_of (fs_nodes (ms_fs s)) q = map_of (fs_nodes fs) q"
    if job: "job \<in> set (mt_jobs m)" "generated_cache_mp4 (rj_dest job)" "rj_part job = cache_part (rj_dest job)"
      and q: "q \<in> {rj_dest job, rj_part job, cache_stamp_path (rj_dest job)}" for job q
  proof (rule ccontr)
    assume "map_of (fs_nodes (ms_fs s)) q \<noteq> map_of (fs_nodes fs) q"
    then obtain p where p: "evictable m p" "q = p \<or> q = cache_stamp_path p" using spares unfolding spares_def by blast
    then have "p \<noteq> rj_dest job" "generated_cache_mp4 p" using job(1) by (auto simp: evictable_def)
    then show False
      using p(2) q job(2,3) stamp_not_output partial_not_stamp partial_not_output [folded cache_part_def]
      by (auto simp: stamp_inj; metis)
  qed
  moreover have "\<forall>q. map_of (fs_nodes (ms_fs s)) q \<noteq> map_of (fs_nodes fs) q \<longrightarrow>
      (\<exists>p. (q = p \<or> q = cache_stamp_path p) \<and> generated_cache_mp4 p \<and> p \<notin> rj_dest ` set (mt_jobs m) \<and>
        p \<notin> set (mt_requested m) \<and> p \<notin> set (mt_reserved m))"
    using spares unfolding spares_def evictable_def by blast
  ultimately show ?thesis by blast
qed

text \<open>A directory with one old output that a job is writing again.\<close>

definition sample_output :: string where
  "sample_output = output_stem 7 Hdr10Action (replicate 32 CHR 0x00) @ ''.mp4''"

definition sample_maintenance :: maintenance where
  "sample_maintenance =
     \<lparr>mt_jobs = [\<lparr>rj_dest = sample_output, rj_part = cache_part sample_output\<rparr>], mt_requested = [], mt_reserved = [],
      mt_quota = 10, mt_minimum_free = 0, mt_max_age = 100, mt_now = 5000, mt_available = \<lambda>_. Inr 0\<rparr>"

definition sample_directory :: cache_fs where
  "sample_directory = \<lparr>fs_nodes = [(sample_output, \<lparr>fn_is_file = True, fn_len = 20, fn_modified = 3\<rparr>)],
     fs_unreadable = \<lambda>_. False, fs_stuck = \<lambda>_. False\<rparr>"

lemma maintenance_spares_live_witness:
  "map_of (fs_nodes (ms_fs (fst (maintain_inventory_locked sample_maintenance [] True 0 empty_inventory sample_directory))))
     sample_output = map_of (fs_nodes sample_directory) sample_output"
proof -
  let ?run = "maintain_inventory_locked sample_maintenance [] True 0 empty_inventory sample_directory"
  let ?job = "\<lparr>rj_dest = sample_output, rj_part = cache_part sample_output\<rparr>"
  have "?run = (fst ?run, snd ?run)" by simp
  note spares = maintenance_spares_live [OF iv_ok_empty this]
  have job: "?job \<in> set (mt_jobs sample_maintenance)" by (simp add: sample_maintenance_def)
  have "generated_cache_mp4 (rj_dest ?job)" unfolding sample_output_def by (simp add: output_recognised)
  with conjunct2 [OF spares, rule_format, OF job] show ?thesis by simp
qed

end
