(* ===== verification/Cache_Accounting.thy ===== *)
theory Cache_Accounting
  imports Cache_Eviction
begin

text \<open>
  The inventory's total: it stays the sum of its entries through every refresh, sweep and eviction, as
  long as what is on the disk and what the inventory remembers fit together into 64 bits; and a
  maintenance that succeeds has met the quota and the free-space target.
\<close>

definition iv_sum :: "inventory \<Rightarrow> nat" where
  "iv_sum iv = sum_list (map (ce_bytes \<circ> snd) (iv_entries iv))"

definition accounted :: "inventory \<Rightarrow> bool" where
  "accounted iv \<longleftrightarrow> distinct (map fst (iv_entries iv)) \<and> iv_bytes iv = iv_sum iv"

definition fs_total :: "cache_fs \<Rightarrow> nat" where
  "fs_total fs = sum_list (map (fn_len \<circ> snd) (fs_nodes fs))"

text \<open>What is known of a name: the size the inventory remembers or the one on the disk.\<close>

definition known_bytes :: "inventory \<Rightarrow> cache_fs \<Rightarrow> string \<Rightarrow> nat" where
  "known_bytes iv fs p =
     (case map_of (iv_entries iv) p of Some e \<Rightarrow> ce_bytes e | None \<Rightarrow> 0) +
     (case map_of (fs_nodes fs) p of Some n \<Rightarrow> fn_len n | None \<Rightarrow> 0)"

definition within :: "inventory \<Rightarrow> cache_fs \<Rightarrow> inventory \<Rightarrow> bool" where
  "within iv0 fs0 iv \<longleftrightarrow> (\<forall>(p, e)\<in>set (iv_entries iv). ce_bytes e \<le> known_bytes iv0 fs0 p)"

lemma sum_over_keys:
  assumes "distinct (map fst xs)"
  shows "sum_list (map (f \<circ> snd) xs) = (\<Sum>p\<in>fst ` set xs. case map_of xs p of Some y \<Rightarrow> f y | None \<Rightarrow> (0 :: nat))"
  using assms
proof (induction xs)
  case (Cons x xs)
  have "(\<Sum>p\<in>fst ` set xs. case map_of (x # xs) p of Some y \<Rightarrow> f y | None \<Rightarrow> 0) =
      (\<Sum>p\<in>fst ` set xs. case map_of xs p of Some y \<Rightarrow> f y | None \<Rightarrow> 0)"
    by (rule sum.cong) (use Cons.prems in \<open>auto simp: rev_image_eqI\<close>)
  then show ?case using Cons by (cases x) simp
qed simp

lemma keys_bound:
  assumes "finite A"
  shows "(\<Sum>p\<in>A. case map_of xs p of Some y \<Rightarrow> f y | None \<Rightarrow> (0 :: nat)) \<le>
    (\<Sum>p\<in>fst ` set xs. case map_of xs p of Some y \<Rightarrow> f y | None \<Rightarrow> 0)"
proof -
  let ?g = "\<lambda>p. case map_of xs p of Some y \<Rightarrow> f y | None \<Rightarrow> 0"
  have "sum ?g A = sum ?g (A \<inter> fst ` set xs)"
    by (rule sum.mono_neutral_right [OF assms]) (auto split: option.split dest!: map_of_SomeD intro: rev_image_eqI)
  also have "\<dots> \<le> sum ?g (fst ` set xs)" by (rule sum_mono2) auto
  finally show ?thesis .
qed

lemma within_sum:
  assumes "within iv0 fs0 iv" "distinct (map fst (iv_entries iv))" "distinct (map fst (iv_entries iv0))"
    "distinct (map fst (fs_nodes fs0))"
  shows "iv_sum iv \<le> iv_sum iv0 + fs_total fs0"
proof -
  let ?K = "fst ` set (iv_entries iv)"
  have "iv_sum iv \<le> (\<Sum>p\<in>?K. known_bytes iv0 fs0 p)"
    unfolding iv_sum_def sum_over_keys [OF assms(2)]
    by (rule sum_mono) (use assms(1) in \<open>auto simp: within_def split: option.split dest: map_of_SomeD\<close>)
  also have "\<dots> \<le> iv_sum iv0 + fs_total fs0"
    unfolding iv_sum_def fs_total_def sum_over_keys [OF assms(3)] sum_over_keys [OF assms(4)] known_bytes_def sum.distrib
    by (intro add_mono keys_bound) simp_all
  finally show ?thesis .
qed

lemma filter_sum:
  "distinct (map fst xs) \<Longrightarrow>
     sum_list (map (ce_bytes \<circ> snd) (filter (\<lambda>(q, _). q \<noteq> p) xs)) =
     sum_list (map (ce_bytes \<circ> snd) xs) - (case map_of xs p of Some e \<Rightarrow> ce_bytes e | None \<Rightarrow> 0)"
proof (induction xs)
  case (Cons x xs)
  have "map_of xs p = None" if "fst x = p" using Cons.prems that by (auto simp: map_of_eq_None_iff)
  moreover have "(case map_of xs p of Some e \<Rightarrow> ce_bytes e | None \<Rightarrow> 0) \<le> sum_list (map (ce_bytes \<circ> snd) xs)"
    by (auto split: option.split dest!: map_of_SomeD intro!: member_le_sum_list simp: image_iff)
      (metis comp_apply snd_conv)
  then have "(case map_of xs p of Some e \<Rightarrow> ce_bytes e | None \<Rightarrow> 0) \<le> (\<Sum>a\<leftarrow>xs. ce_bytes (snd a))"
    by (simp add: comp_def)
  ultimately show ?case using Cons by (cases x) (auto simp: comp_def)
qed simp

lemma replace_sum:
  assumes "accounted iv"
  shows "iv_sum (iv_replace p e iv) =
      iv_sum iv - (case map_of (iv_entries iv) p of Some old \<Rightarrow> ce_bytes old | None \<Rightarrow> 0)
        + (case e of Some new \<Rightarrow> ce_bytes new | None \<Rightarrow> 0)"
  using assms
  by (auto simp: iv_sum_def accounted_def replace_entries filter_sum split: option.split)

lemma accounted_replace:
  assumes "accounted iv" "iv_sum (iv_replace p e iv) \<le> u64_max"
  shows "accounted (iv_replace p e iv)"
proof -
  have keys: "distinct (map fst (iv_entries (iv_replace p e iv)))"
    using assms(1) by (auto simp: accounted_def replace_entries distinct_map_filter split: option.split)
  have "iv_bytes (iv_replace p e iv) =
      (case e of None \<Rightarrow> id | Some new \<Rightarrow> \<lambda>b. saturating_add u64_max b (ce_bytes new))
        (iv_bytes iv - (case map_of (iv_entries iv) p of Some old \<Rightarrow> ce_bytes old | None \<Rightarrow> 0))"
    by (simp add: iv_replace_def Let_def split: option.split)
  then have "iv_bytes (iv_replace p e iv) = iv_sum (iv_replace p e iv)"
    using assms replace_sum [OF assms(1), of p e]
    by (auto simp: accounted_def saturating_add_def split: option.split)
  then show ?thesis using keys by (simp add: accounted_def)
qed

text \<open>The invariant of one maintenance, relative to its start.\<close>

definition exact :: "inventory \<Rightarrow> cache_fs \<Rightarrow> inventory \<Rightarrow> bool" where
  "exact iv0 fs0 iv \<longleftrightarrow> accounted iv \<and> within iv0 fs0 iv"

definition fits :: "inventory \<Rightarrow> cache_fs \<Rightarrow> bool" where
  "fits iv0 fs0 \<longleftrightarrow> distinct (map fst (iv_entries iv0)) \<and> distinct (map fst (fs_nodes fs0)) \<and> iv_sum iv0 + fs_total fs0 \<le> u64_max"

definition sized :: "inventory \<Rightarrow> cache_fs \<Rightarrow> string \<Rightarrow> cache_entry option \<Rightarrow> bool" where
  "sized iv0 fs0 p e \<longleftrightarrow> (\<forall>new. e = Some new \<longrightarrow> ce_bytes new \<le> known_bytes iv0 fs0 p)"

lemma exact_replace:
  assumes "fits iv0 fs0" "exact iv0 fs0 iv" "sized iv0 fs0 p e"
  shows "exact iv0 fs0 (iv_replace p e iv)"
proof -
  have ac: "accounted iv" using assms(2) by (simp add: exact_def)
  have w: "within iv0 fs0 (iv_replace p e iv)"
    using assms(2,3) ac by (auto simp: exact_def within_def accounted_def replace_entries sized_def split: option.split)
  have "distinct (map fst (iv_entries (iv_replace p e iv)))"
    using ac by (auto simp: accounted_def replace_entries distinct_map_filter split: option.split)
  from within_sum [OF w this] assms(1) have "iv_sum (iv_replace p e iv) \<le> u64_max" by (simp add: fits_def)
  from accounted_replace [OF ac this] w show ?thesis by (simp add: exact_def)
qed

subsection \<open>Through a maintenance\<close>

definition shrunk :: "cache_fs \<Rightarrow> cache_fs \<Rightarrow> bool" where
  "shrunk fs0 fs \<longleftrightarrow> (\<forall>p n. map_of (fs_nodes fs) p = Some n \<longrightarrow> map_of (fs_nodes fs0) p = Some n)"

lemma read_sized: "shrunk fs0 fs \<Longrightarrow> read_entry fs p = Inr e \<Longrightarrow> sized iv0 fs0 p e"
  by (auto simp: sized_def shrunk_def known_bytes_def dest!: read_entry_facts)

lemma exact_refresh: "fits iv0 fs0 \<Longrightarrow> shrunk fs0 fs \<Longrightarrow> exact iv0 fs0 iv \<Longrightarrow> exact iv0 fs0 (fst (refresh_paths fs ps iv))"
  by (induction fs ps iv rule: refresh_paths.induct) (auto split: sum.split intro: exact_replace read_sized)

lemma update_new: "p \<notin> fst ` set al \<Longrightarrow> AList.update p e al = al @ [(p, e)]"
  by (induction al) auto

lemma exact_discover_names:
  assumes "discover_names fs ps iv = Inr new" "exact iv0 fs0 iv" "distinct ps" "set ps \<inter> fst ` set (iv_entries iv) = {}"
    "fits iv0 fs0" "shrunk fs0 fs"
  shows "exact iv0 fs0 new"
  using assms
proof (induction fs ps iv rule: discover_names.induct)
  case (2 fs p ps iv)
  then obtain e where e: "read_entry fs p = Inr e" by (auto simp: bind_res_Inr)
  show ?case
  proof (cases e)
    case None
    then show ?thesis using 2 e by simp
  next
    case (Some x)
    let ?iv = "iv\<lparr>iv_entries := AList.update p x (iv_entries iv), iv_bytes := saturating_add u64_max (iv_bytes iv) (ce_bytes x)\<rparr>"
    have fresh: "iv_entries ?iv = iv_entries iv @ [(p, x)]" using 2(5) by (simp add: update_new)
    have "within iv0 fs0 ?iv"
      using 2(3) read_sized [OF 2(7) e, of iv0] Some unfolding within_def fresh exact_def by (auto simp: sized_def within_def)
    moreover have keys: "distinct (map fst (iv_entries ?iv))"
      using 2(3,5) unfolding fresh by (auto simp: exact_def accounted_def)
    ultimately have "iv_sum ?iv \<le> u64_max" using within_sum [of iv0 fs0 ?iv] 2(6) by (simp add: fits_def)
    then have "exact iv0 fs0 ?iv"
      using keys \<open>within iv0 fs0 ?iv\<close> 2(3) unfolding exact_def accounted_def iv_sum_def fresh
      by (simp add: saturating_add_def)
    moreover have "set ps \<inter> fst ` set (iv_entries ?iv) = {}" using 2(4,5) unfolding fresh by auto
    ultimately show ?thesis using 2(1) [OF e] 2(2,4,6,7) e Some by simp
  qed
qed simp

lemma exact_swept: "exact iv0 fs0 (iv\<lparr>iv_swept := x\<rparr>) = exact iv0 fs0 iv"
  by (simp add: exact_def accounted_def within_def iv_sum_def)

lemma exact_empty: "exact iv0 fs0 empty_inventory"
  by (simp add: exact_def accounted_def within_def iv_sum_def empty_inventory_def)

lemma shrunk_refl: "shrunk fs fs"
  by (simp add: shrunk_def)

lemma exact_sweep:
  "fits iv0 fs0 \<Longrightarrow> exact iv0 fs0 iv \<Longrightarrow> exact iv0 fs0 (fst (swept_inventory sweep clock fs0 iv))"
  using exact_discover_names [OF _ exact_empty [of iv0 fs0], of fs0 "map fst (fs_nodes fs0)"] shrunk_refl [of fs0]
  by (auto simp: swept_inventory_def discover_def bind_res_Inr exact_swept fits_def empty_inventory_def split: sum.split)

subsection \<open>Through an eviction\<close>

lemma map_of_filter_self: "map_of (filter (\<lambda>(x, _). x \<noteq> p) xs) p = None"
  by (induction xs) auto

lemma map_of_filter_Some: "map_of (filter (\<lambda>(x, _). x \<noteq> p) xs) q = Some n \<Longrightarrow> map_of xs q = Some n"
  using map_of_filter_self [of p xs] map_of_filter_other [of q p xs] by (cases "q = p") simp_all

lemma unlink_shrinks: "shrunk fs0 fs \<Longrightarrow> shrunk fs0 (snd (fs_unlink p fs))"
  by (auto simp: shrunk_def fs_unlink_def dest: map_of_filter_Some)

text \<open>The free-space target is met whenever the recorded shortfall is zero.\<close>

definition free_ok :: "maintenance \<Rightarrow> cache_fs \<Rightarrow> bool" where
  "free_ok m fs \<longleftrightarrow> mt_minimum_free m = 0 \<or> (\<exists>a. mt_available m fs = Inr a \<and> mt_minimum_free m \<le> a)"

definition unlink_frees :: "maintenance \<Rightarrow> bool" where
  "unlink_frees m \<longleftrightarrow>
     (\<forall>fs p a. mt_available m fs = Inr a \<longrightarrow> (\<exists>b. mt_available m (snd (fs_unlink p fs)) = Inr b \<and> a \<le> b))"

definition mstate_ok :: "inventory \<Rightarrow> cache_fs \<Rightarrow> maintenance \<Rightarrow> mstate \<Rightarrow> bool" where
  "mstate_ok iv0 fs0 m s \<longleftrightarrow>
     exact iv0 fs0 (ms_inventory s) \<and> shrunk fs0 (ms_fs s) \<and> (ms_shortfall s = 0 \<longrightarrow> free_ok m (ms_fs s))"

lemma free_ok_unlink: "unlink_frees m \<Longrightarrow> free_ok m fs \<Longrightarrow> free_ok m (snd (fs_unlink p fs))"
  unfolding free_ok_def unlink_frees_def by (meson order_trans)

lemma evict_one_ok:
  assumes "mstate_ok iv0 fs0 m s" "fits iv0 fs0" "unlink_frees m"
  shows "mstate_ok iv0 fs0 m (fst (evict_one m p bytes s))"
proof -
  obtain answer fs where unlink: "fs_unlink p (ms_fs s) = (answer, fs)" by force
  let ?fs = "snd (fs_unlink (cache_stamp_path p) fs)"
  have fs: "fs = snd (fs_unlink p (ms_fs s))" using unlink by simp
  have shrunk: "shrunk fs0 ?fs" using assms(1) unfolding fs mstate_ok_def by (blast intro: unlink_shrinks)
  have free: "free_ok m ?fs" if "ms_shortfall s = 0"
    using assms(1,3) that unfolding fs mstate_ok_def by (blast intro: free_ok_unlink)
  have exact: "exact iv0 fs0 (iv_replace p None (ms_inventory s))"
    using assms(1) unfolding mstate_ok_def by (intro exact_replace assms(2)) (simp_all add: sized_def)
  have measured: "free_ok m ?fs" if "mt_available m ?fs = Inr a" "mt_minimum_free m \<le> a" for a
    using that unfolding free_ok_def by blast
  show ?thesis
    using assms(1) shrunk free exact measured
    by (cases answer) (auto simp: evict_one_def Let_def unlink mstate_ok_def split: sum.split)
qed

lemma evict_pass_ok:
  assumes "evict_pass m pressure cands refreshed s = (s', r)" "mstate_ok iv0 fs0 m s" "fits iv0 fs0" "unlink_frees m"
  shows "mstate_ok iv0 fs0 m s'"
  using assms
proof (induction m pressure cands refreshed s rule: evict_pass.induct)
  case (2 m pressure p entry cands refreshed s)
  let ?skip = "evict_pass m pressure cands refreshed s"
  show ?case
  proof (cases "(\<not> is_aged m entry \<and> (\<not> pressure \<or> satisfied m s)) \<or> p \<in> set (mt_reserved m) \<or>
      p \<in> rj_dest ` set (mt_jobs m) \<or> p \<in> set (mt_requested m)")
    case True
    then show ?thesis using 2(1,2,3,6,7,8,9) by (auto split: if_splits)
  next
    case False
    show ?thesis
    proof (cases "read_entry (ms_fs s) p")
      case (Inl e)
      then show ?thesis using 2(6,7) False by auto
    next
      case read: (Inr current)
      let ?b = "case current of Some c \<Rightarrow> ce_bytes c | None \<Rightarrow> ce_bytes entry"
      show ?thesis
      proof (cases "option_is (\<lambda>c. ce_used entry < ce_used c) current")
        case True
        then have run: "evict_pass m pressure cands (refreshed @ [(p, the current)])
            (s\<lparr>ms_inventory := iv_replace p current (ms_inventory s)\<rparr>) = (s', r)"
          using 2(6) False read by (auto split: if_splits)
        have "sized iv0 fs0 p current" using 2(7) read by (auto simp: mstate_ok_def intro: read_sized)
        then have "mstate_ok iv0 fs0 m (s\<lparr>ms_inventory := iv_replace p current (ms_inventory s)\<rparr>)"
          using 2(7,8) by (simp add: mstate_ok_def exact_replace)
        then show ?thesis using 2(4,8,9) False read True run by simp
      next
        case current: False
        obtain t a where t: "evict_one m p ?b s = (t, a)" by force
        have ok: "mstate_ok iv0 fs0 m t" using evict_one_ok [OF 2(7,8,9), of p ?b] t by simp
        show ?thesis
        proof (cases a)
          case (Inl e)
          then show ?thesis using 2(6) False read current t ok by auto
        next
          case (Inr u)
          then have "evict_pass m pressure cands refreshed t = (s', r)" using 2(6) False read current t by auto
          then show ?thesis using 2(5) [of current] 2(8,9) False read current t Inr ok by auto
        qed
      qed
    qed
  qed
qed simp

lemma evict_rounds_ok:
  assumes "evict_rounds m pressure s = (s', r)" "mstate_ok iv0 fs0 m s" "fits iv0 fs0" "unlink_frees m"
  shows "mstate_ok iv0 fs0 m s'"
proof -
  obtain t a where first: "evict_pass m pressure (eviction_candidates m pressure (ms_inventory s)) [] s = (t, a)" by force
  note one = evict_pass_ok [OF first assms(2-4)]
  show ?thesis
  proof (cases a)
    case (Inl e)
    then show ?thesis using assms(1) first one by (simp add: evict_rounds_def)
  next
    case (Inr refreshed)
    obtain u b where second: "evict_pass m pressure (sort_key (\<lambda>(_, e). ce_used e) refreshed) [] t = (u, b)" by force
    have "s' = t \<or> s' = u"
      using assms(1) first Inr second by (auto simp: evict_rounds_def split: if_splits sum.splits)
    then show ?thesis using one evict_pass_ok [OF second one assms(3,4)] by blast
  qed
qed

subsection \<open>The result\<close>

lemma limited_eviction_ok:
  assumes "limited_eviction m sweep active s = (s', r)" "mstate_ok iv0 fs0 m s" "fits iv0 fs0" "unlink_frees m"
  shows "mstate_ok iv0 fs0 m s' \<and> (\<forall>b. r = Inr b \<longrightarrow> satisfied m s' \<and> b = iv_bytes (ms_inventory s'))"
proof -
  let ?over = "mt_quota m < iv_bytes (ms_inventory s) \<or> 0 < ms_shortfall s"
  let ?p = "?over \<and> eviction_can_satisfy_limits m (ms_inventory s) active (ms_shortfall s)"
  obtain t a where t: "(if sweep \<or> ?p then evict_rounds m ?p s else (s, Inr ())) = (t, a)" by force
  then have "mstate_ok iv0 fs0 m t"
    using evict_rounds_ok [OF _ assms(2-4)] assms(2) by (auto split: if_splits)
  then show ?thesis using assms(1) unfolding limited_eviction_def Let_def t by (auto split: sum.splits if_splits)
qed

text \<open>
  C37: The cache's accounting and its limits. If the remembered and the stored sizes fit into 64 bits, the
  inventory's total is the sum of its entries after every maintenance, also after one that failed half
  way; and a maintenance that succeeds reports that total, which is within the quota, and has met the
  free-space target (as long as unlinking a file does not take free space away).
\<close>
theorem maintenance_result:
  assumes "accounted iv" "distinct (map fst (fs_nodes fs))" "iv_sum iv + fs_total fs \<le> u64_max"
    "\<And>fs p a. mt_available m fs = Inr a \<Longrightarrow> \<exists>b. mt_available m (snd (fs_unlink p fs)) = Inr b \<and> a \<le> b"
    "maintain_inventory_locked m retired force clock iv fs = (s, r)"
  shows "iv_bytes (ms_inventory s) = iv_sum (ms_inventory s) \<and>
    (\<forall>b. r = Inr b \<longrightarrow> b = iv_bytes (ms_inventory s) \<and> b \<le> mt_quota m \<and>
      (mt_minimum_free m = 0 \<or> (\<exists>a. mt_available m (ms_fs s) = Inr a \<and> mt_minimum_free m \<le> a)))"
proof -
  have fits: "fits iv fs" using assms(1-3) by (simp add: fits_def accounted_def)
  have frees: "unlink_frees m" using assms(4) by (simp add: unlink_frees_def)
  have start: "exact iv fs iv"
    using assms(1) by (auto simp: exact_def within_def known_bytes_def accounted_def split: option.split)
  show ?thesis
  proof (rule maintain_from [OF assms(5), of "exact iv fs"])
    fix sweep shortfall iv'
    assume iv': "exact iv fs iv'" "free_shortfall m fs = Inr shortfall"
      and run: "limited_eviction m sweep (active_artifacts (mt_jobs m))
        \<lparr>ms_inventory = iv', ms_fs = fs, ms_shortfall = shortfall, ms_evicted_files = 0, ms_evicted_bytes = 0\<rparr> = (s, r)"
    have "shortfall = 0 \<Longrightarrow> free_ok m fs"
      using iv'(2) by (auto simp: free_shortfall_def free_ok_def bind_res_Inr split: if_splits)
    then have "mstate_ok iv fs m \<lparr>ms_inventory = iv', ms_fs = fs, ms_shortfall = shortfall, ms_evicted_files = 0, ms_evicted_bytes = 0\<rparr>"
      using iv'(1) by (simp add: mstate_ok_def shrunk_refl)
    from limited_eviction_ok [OF run this fits frees] show ?thesis
      by (auto simp: mstate_ok_def exact_def accounted_def satisfied_def free_ok_def)
  next
    assume "\<exists>e. r = Inl e" "exact iv fs (ms_inventory s)"
    then show ?thesis by (auto simp: exact_def accounted_def)
  qed (use start fits in \<open>simp_all add: exact_refresh shrunk_refl exact_sweep exact_swept\<close>)
qed

lemma maintenance_result_witness:
  "(let s = fst (maintain_inventory_locked sample_maintenance [] True 0 empty_inventory sample_directory)
    in iv_bytes (ms_inventory s) = iv_sum (ms_inventory s))"
proof -
  let ?run = "maintain_inventory_locked sample_maintenance [] True 0 empty_inventory sample_directory"
  have run: "?run = (fst ?run, snd ?run)" by simp
  have "accounted empty_inventory" by (simp add: accounted_def iv_sum_def empty_inventory_def)
  moreover have "distinct (map fst (fs_nodes sample_directory))" by (simp add: sample_directory_def)
  moreover have "iv_sum empty_inventory + fs_total sample_directory \<le> u64_max"
    by (simp add: iv_sum_def fs_total_def empty_inventory_def sample_directory_def u64_max_def)
  moreover have "\<exists>b. mt_available sample_maintenance (snd (fs_unlink p fs)) = Inr b \<and> a \<le> b"
    if "mt_available sample_maintenance fs = Inr a" for fs p a using that by (simp add: sample_maintenance_def)
  ultimately show ?thesis using maintenance_result [OF _ _ _ _ run] by (simp add: Let_def)
qed

end
