(* ===== verification/Mp4_Boxes.thy ===== *)
theory Mp4_Boxes
  imports Prelude "HOL-Library.Word"
begin

text \<open>
  Adding the Dolby Vision configuration to a remuxed MP4 in place (\<open>crates/transcode/src/lib.rs\<close>):
  the box parser, the search for the sample entry, the checks of the layout, the move of the file's tail
  and the growth of the boxes around it. A file is its list of bytes and every read and write of it
  succeeds within its bounds; the control that can stop the work is asked once per step, and its answers
  are an argument.
\<close>

subsection \<open>Bytes\<close>

type_synonym bytes = "8 word list"

definition be_value :: "bytes \<Rightarrow> nat" where
  "be_value bs = foldl (\<lambda>v b. v * 256 + unat b) 0 bs"

definition be_bytes :: "nat \<Rightarrow> nat \<Rightarrow> bytes" where
  "be_bytes w n = map (\<lambda>i. of_nat (n div 256 ^ (w - 1 - i))) [0..<w]"

definition tag :: "string \<Rightarrow> bytes" where
  "tag s = map of_char s"

text \<open>\<open>read_exact\<close> at a position, and \<open>write_all\<close> within the file.\<close>

definition read_at :: "nat \<Rightarrow> nat \<Rightarrow> bytes \<Rightarrow> bytes option" where
  "read_at off n f = (if off + n \<le> length f then Some (take n (drop off f)) else None)"

definition write_at :: "nat \<Rightarrow> bytes \<Rightarrow> bytes \<Rightarrow> bytes" where
  "write_at off bs f = take off f @ bs @ drop (off + length bs) f"

subsection \<open>Boxes\<close>

datatype mp4_error =
  BadBounds
| TruncatedHeader nat
| ReadFailed nat
| TruncatedLarge nat
| BadSize nat nat
| OffsetOverflow
| TruncatedStsd
| NoSampleEntry
| UnsupportedLayout
| TruncatedEntry
| AlreadySignalled
| BadLevel nat
| LargeBox bytes
| SizeOverflow
| InsertPastEnd
| Stopped

record box_span =
  bx_offset :: nat
  bx_size :: nat
  bx_header :: nat
  bx_kind :: bytes

definition bx_start :: "box_span \<Rightarrow> nat" where "bx_start b = bx_offset b + bx_header b"
definition bx_end :: "box_span \<Rightarrow> nat" where "bx_end b = bx_offset b + bx_size b"

definition read_mp4_box :: "bytes \<Rightarrow> nat \<Rightarrow> nat \<Rightarrow> mp4_error + box_span" where
  "read_mp4_box f off parent_end =
     (if parent_end < off then Inl BadBounds
      else
        let remaining = parent_end - off
        in if remaining < 8 then Inl (TruncatedHeader off)
           else bind_res (ok_or (ReadFailed off) (read_at off 8 f)) (\<lambda>header.
             let size32 = be_value (take 4 header); kind = take 4 (drop 4 header)
             in bind_res
                  (if size32 = 0 then Inr (remaining, 8)
                   else if size32 = 1 then
                     if remaining < 16 then Inl (TruncatedLarge off)
                     else bind_res (ok_or (ReadFailed off) (read_at (off + 8) 8 f)) (\<lambda>large. Inr (be_value large, 16))
                   else Inr (size32, 8))
                  (\<lambda>(len, header_size).
                     if len < header_size \<or> remaining < len then Inl (BadSize len off)
                     else Inr \<lparr>bx_offset = off, bx_size = len, bx_header = header_size, bx_kind = kind\<rparr>)))"

lemma read_mp4_box_bounds:
  assumes "read_mp4_box f off parent_end = Inr b"
  shows "bx_offset b = off" "8 \<le> bx_header b" "bx_header b \<le> bx_size b" "bx_end b \<le> parent_end" "off < bx_end b"
  using assms
  by (auto simp: read_mp4_box_def Let_def bind_res_Inr bx_end_def split: if_splits)

text \<open>The control: \<open>k\<close> checks have been made, and \<open>stops\<close> says which one stops the work.\<close>

definition check_control :: "(nat \<Rightarrow> bool) \<Rightarrow> nat \<Rightarrow> mp4_error + nat" where
  "check_control stops k = (if stops k then Inl Stopped else Inr (Suc k))"

subsection \<open>The sample entry\<close>

definition CONTAINER_PATH :: "bytes list" where
  "CONTAINER_PATH = map tag [''moov'', ''trak'', ''mdia'', ''minf'', ''stbl'', ''stsd'']"

function find_entry :: "bytes \<Rightarrow> (nat \<Rightarrow> bool) \<Rightarrow> nat \<Rightarrow> nat \<Rightarrow> nat \<Rightarrow> mp4_error + box_span option \<times> nat" where
  "find_entry f stops off stop k =
     (if stop \<le> off then Inr (None, k)
      else bind_res (check_control stops k) (\<lambda>k.
           bind_res (read_mp4_box f off stop) (\<lambda>entry.
             if bx_kind entry = tag ''hvc1'' \<or> bx_kind entry = tag ''hev1'' then Inr (Some entry, k)
             else find_entry f stops (bx_end entry) stop k)))"
  by pat_completeness auto
termination
  by (relation "measure (\<lambda>(f, stops, off, stop, k). stop - off)")
    (auto dest: read_mp4_box_bounds(4,5))

declare find_entry.simps [simp del]

text \<open>
  The search below the boxes of a path: \<open>spans\<close> are the boxes entered so far, pushed and popped as
  the search descends and gives up.
\<close>

function find_path ::
  "bytes \<Rightarrow> (nat \<Rightarrow> bool) \<Rightarrow> bytes list \<Rightarrow> nat \<Rightarrow> nat \<Rightarrow> box_span list \<Rightarrow> nat \<Rightarrow> mp4_error + bool \<times> box_span list \<times> nat"
where
  "find_path f stops path off stop spans k =
     (case path of
        [] \<Rightarrow> Inl BadBounds
      | kind # rest \<Rightarrow>
          if stop \<le> off then Inr (False, spans, k)
          else bind_res (check_control stops k) (\<lambda>k.
               bind_res (read_mp4_box f off stop) (\<lambda>span.
                 if bx_kind span \<noteq> kind then find_path f stops path (bx_end span) stop spans k
                 else if rest = [] then
                   if bx_end span < bx_start span + 8 then Inl TruncatedStsd
                   else bind_res (find_entry f stops (bx_start span + 8) (bx_end span) k) (\<lambda>(entry, k).
                     case entry of
                       Some e \<Rightarrow> Inr (True, spans @ [span, e], k)
                     | None \<Rightarrow> find_path f stops path (bx_end span) stop spans k)
                 else
                   bind_res (find_path f stops rest (bx_start span) (bx_end span) (spans @ [span]) k) (\<lambda>(found, inner, k).
                     if found then Inr (True, inner, k)
                     else find_path f stops path (bx_end span) stop (butlast inner) k))))"
  by pat_completeness auto
termination
  by (relation "measures [\<lambda>(f, stops, path, off, stop, spans, k). length path, \<lambda>(f, stops, path, off, stop, spans, k). stop - off]")
    (auto dest: read_mp4_box_bounds(4,5))

declare find_path.simps [simp del]

definition profile8_sample_entry_path :: "bytes \<Rightarrow> (nat \<Rightarrow> bool) \<Rightarrow> nat \<Rightarrow> mp4_error + box_span list \<times> nat" where
  "profile8_sample_entry_path f stops k =
     bind_res (find_path f stops CONTAINER_PATH 0 (length f) [] k) (\<lambda>(found, spans, k).
       if found then Inr (spans, k) else Inl NoSampleEntry)"

subsection \<open>The layout\<close>

function validate_layout_from :: "bytes \<Rightarrow> (nat \<Rightarrow> bool) \<Rightarrow> box_span \<Rightarrow> nat \<Rightarrow> nat \<Rightarrow> mp4_error + nat" where
  "validate_layout_from f stops moov off k =
     (if length f \<le> off then Inr k
      else bind_res (check_control stops k) (\<lambda>k.
           bind_res (read_mp4_box f off (length f)) (\<lambda>span.
             if bx_kind span = tag ''mdat'' \<and> bx_offset moov < bx_end span then Inl UnsupportedLayout
             else validate_layout_from f stops moov (bx_end span) k)))"
  by pat_completeness auto
termination
  by (relation "measure (\<lambda>(f, stops, moov, off, k). length f - off)")
    (auto dest: read_mp4_box_bounds(4,5))

declare validate_layout_from.simps [simp del]

definition VISUAL_SAMPLE_ENTRY_FIELDS :: nat where "VISUAL_SAMPLE_ENTRY_FIELDS = 78"

function has_configuration_from :: "bytes \<Rightarrow> (nat \<Rightarrow> bool) \<Rightarrow> nat \<Rightarrow> nat \<Rightarrow> nat \<Rightarrow> mp4_error + bool \<times> nat" where
  "has_configuration_from f stops off stop k =
     (if stop \<le> off then Inr (False, k)
      else bind_res (check_control stops k) (\<lambda>k.
           bind_res (read_mp4_box f off stop) (\<lambda>child.
             if bx_kind child \<in> {tag ''dvcC'', tag ''dvvC'', tag ''dvwC''} then Inr (True, k)
             else has_configuration_from f stops (bx_end child) stop k)))"
  by pat_completeness auto
termination
  by (relation "measure (\<lambda>(f, stops, off, stop, k). stop - off)")
    (auto dest: read_mp4_box_bounds(4,5))

declare has_configuration_from.simps [simp del]

definition entry_has_dolby_vision_configuration ::
  "bytes \<Rightarrow> (nat \<Rightarrow> bool) \<Rightarrow> box_span \<Rightarrow> nat \<Rightarrow> mp4_error + bool \<times> nat" where
  "entry_has_dolby_vision_configuration f stops entry k =
     (let start = bx_start entry + VISUAL_SAMPLE_ENTRY_FIELDS
      in if bx_end entry < start then Inl TruncatedEntry
         else has_configuration_from f stops start (bx_end entry) k)"

subsection \<open>The insertion\<close>

definition MOVE_CHUNK_BYTES :: nat where "MOVE_CHUNK_BYTES = 64 * 1024"

text \<open>The tail is moved in chunks from its end; the file stays damaged when the control stops the move.\<close>

function move_tail :: "(nat \<Rightarrow> bool) \<Rightarrow> nat \<Rightarrow> nat \<Rightarrow> nat \<Rightarrow> bytes \<Rightarrow> nat \<Rightarrow> bytes \<times> (mp4_error + nat)" where
  "move_tail stops insert_at growth read_end f k =
     (if read_end \<le> insert_at then (f, Inr k)
      else if stops k then (f, Inl Stopped)
      else
        let chunk = min (read_end - insert_at) MOVE_CHUNK_BYTES; read_start = read_end - chunk;
            buffer = take chunk (drop read_start f)
        in move_tail stops insert_at growth read_start (write_at (read_start + growth) buffer f) (Suc k))"
  by pat_completeness auto
termination
  by (relation "measure (\<lambda>(stops, insert_at, growth, read_end, f, k). read_end - insert_at)")
    (auto simp: MOVE_CHUNK_BYTES_def)

declare move_tail.simps [simp del]

definition insert_mp4_bytes :: "(nat \<Rightarrow> bool) \<Rightarrow> nat \<Rightarrow> bytes \<Rightarrow> bytes \<Rightarrow> nat \<Rightarrow> bytes \<times> (mp4_error + nat)" where
  "insert_mp4_bytes stops insert_at bs f k =
     (if length f < insert_at then (f, Inl InsertPastEnd)
      else if u64_max < length f + length bs then (f, Inl SizeOverflow)
      else if stops k then (f, Inl Stopped)
      else
        let grown = f @ replicate (length bs) 0
        in case move_tail stops insert_at (length bs) (length f) grown (Suc k) of
             (g, Inl e) \<Rightarrow> (g, Inl e)
           | (g, Inr k) \<Rightarrow> if stops k then (g, Inl Stopped) else (write_at insert_at bs g, Inr (Suc k)))"

definition profile8_decoder_configuration :: "nat \<Rightarrow> bytes" where
  "profile8_decoder_configuration level =
     (let flags = 8 * 2 ^ 9 + level * 2 ^ 3 + 2 ^ 2 + 1
      in be_bytes 4 32 @ tag ''dvvC'' @ [1, 0] @ be_bytes 2 flags @ [16] @ replicate 19 0)"

fun grown_sizes :: "nat \<Rightarrow> box_span list \<Rightarrow> mp4_error + (nat \<times> nat) list" where
  "grown_sizes growth [] = Inr []"
| "grown_sizes growth (s # ss) =
     (if bx_header s \<noteq> 8 \<or> u32_max < bx_size s then Inl (LargeBox (bx_kind s))
      else if u32_max < bx_size s + growth then Inl SizeOverflow
      else bind_res (grown_sizes growth ss) (\<lambda>rest. Inr ((bx_offset s, bx_size s + growth) # rest)))"

fun write_sizes :: "(nat \<Rightarrow> bool) \<Rightarrow> (nat \<times> nat) list \<Rightarrow> bytes \<Rightarrow> nat \<Rightarrow> bytes \<times> (mp4_error + nat)" where
  "write_sizes stops [] f k = (f, Inr k)"
| "write_sizes stops ((off, new_size) # rest) f k =
     (if stops k then (f, Inl Stopped) else write_sizes stops rest (write_at off (be_bytes 4 new_size) f) (Suc k))"

text \<open>Everything that is decided before the file is changed: where to insert and the new sizes.\<close>

definition plan_signal :: "nat \<Rightarrow> (nat \<Rightarrow> bool) \<Rightarrow> bytes \<Rightarrow> mp4_error + (nat \<times> (nat \<times> nat) list \<times> nat)" where
  "plan_signal level stops f =
     (if 63 < level then Inl (BadLevel level)
      else bind_res (check_control stops 0) (\<lambda>k.
           bind_res (profile8_sample_entry_path f stops k) (\<lambda>(spans, k).
           bind_res (validate_layout_from f stops (hd spans) 0 k) (\<lambda>k.
           bind_res (entry_has_dolby_vision_configuration f stops (last spans) k) (\<lambda>(signalled, k).
             if signalled then Inl AlreadySignalled
             else bind_res (grown_sizes (length (profile8_decoder_configuration level)) spans) (\<lambda>sizes.
                  Inr (bx_end (last spans), sizes, k)))))))"

definition signal_profile8_in_mp4_with_control :: "nat \<Rightarrow> (nat \<Rightarrow> bool) \<Rightarrow> bytes \<Rightarrow> bytes \<times> (mp4_error + unit)" where
  "signal_profile8_in_mp4_with_control level stops f =
     (case plan_signal level stops f of
        Inl e \<Rightarrow> (f, Inl e)
      | Inr (insert_at, sizes, k) \<Rightarrow>
          (case insert_mp4_bytes stops insert_at (profile8_decoder_configuration level) f k of
             (g, Inl e) \<Rightarrow> (g, Inl e)
           | (g, Inr k) \<Rightarrow>
               (case write_sizes stops sizes g k of
                  (h, Inl e) \<Rightarrow> (h, Inl e)
                | (h, Inr _) \<Rightarrow> (h, Inr ()))))"

section \<open>The edit of the file\<close>

text \<open>
  The edit of the file: the chunked move is the insertion of the bytes, the new sizes are written over
  the old ones and nothing else changes, and whatever is refused before the insertion leaves the file as
  it was.
\<close>

subsection \<open>Writing\<close>

lemma length_write_at: "off + length bs \<le> length f \<Longrightarrow> length (write_at off bs f) = length f"
  by (simp add: write_at_def)

lemma nth_write_at:
  assumes "off + length bs \<le> length f" "i < length f"
  shows "write_at off bs f ! i = (if off \<le> i \<and> i < off + length bs then bs ! (i - off) else f ! i)"
proof -
  consider "i < off" | "off \<le> i" "i < off + length bs" | "off + length bs \<le> i" by linarith
  then show ?thesis using assms by cases (auto simp: write_at_def nth_append)
qed

lemma length_be_bytes [simp]: "length (be_bytes w n) = w"
  by (simp add: be_bytes_def)

subsection \<open>The move\<close>

text \<open>Before the position the file is the old one; from it on, the old tail lies \<open>growth\<close> further.\<close>

definition moved :: "bytes \<Rightarrow> nat \<Rightarrow> nat \<Rightarrow> bytes \<Rightarrow> bool" where
  "moved f growth p g \<longleftrightarrow>
     p \<le> length f \<and> length g = length f + growth \<and> (\<forall>i < p. g ! i = f ! i) \<and>
     (\<forall>i. p \<le> i \<longrightarrow> i < length f \<longrightarrow> g ! (i + growth) = f ! i)"

lemma moved_nth:
  assumes "moved f growth p g"
  shows "p \<le> length f" "length g = length f + growth" "i < p \<Longrightarrow> g ! i = f ! i"
    "p \<le> i \<Longrightarrow> i < length f \<Longrightarrow> g ! (i + growth) = f ! i"
  using assms unfolding moved_def by blast+

text \<open>One chunk: the \<open>c\<close> bytes before \<open>s + c\<close> go \<open>growth\<close> further.\<close>

lemma moved_chunk:
  assumes "moved f growth (s + c) g"
  shows "moved f growth s (write_at (s + growth) (take c (drop s g)) g)"
proof -
  note old = moved_nth [OF assms]
  have b: "length (take c (drop s g)) = c" using old(1,2) by simp
  have fits: "s + growth + length (take c (drop s g)) \<le> length g" using old(1,2) b by simp
  have low: "write_at (s + growth) (take c (drop s g)) g ! i = f ! i" if "i < s" for i
    using nth_write_at [OF fits, of i] that old(1,2) old(3) [of i] by simp
  have high: "write_at (s + growth) (take c (drop s g)) g ! (i + growth) = f ! i" if i: "s \<le> i" "i < length f" for i
  proof (cases "i < s + c")
    case True
    then have "write_at (s + growth) (take c (drop s g)) g ! (i + growth) = take c (drop s g) ! (i - s)"
      using nth_write_at [OF fits, of "i + growth"] i old(2) b by simp
    also have "\<dots> = g ! i" using True i old(1,2) by simp
    finally show ?thesis using old(3) [of i] True by simp
  next
    case False
    then have "write_at (s + growth) (take c (drop s g)) g ! (i + growth) = g ! (i + growth)"
      using nth_write_at [OF fits, of "i + growth"] i old(2) b by simp
    then show ?thesis using old(4) [of i] False i by simp
  qed
  show ?thesis
    unfolding moved_def by (intro conjI allI impI low high) (use old(1,2) fits in \<open>simp_all add: length_write_at\<close>)
qed

lemma move_tail_moves:
  assumes "move_tail stops at growth p g k = (h, Inr k')" "moved f growth p g" "at \<le> p"
  shows "moved f growth at h"
  using assms
proof (induction stops at growth p g k rule: move_tail.induct)
  case (1 stops at growth p g k)
  show ?case
  proof (cases "p \<le> at")
    case True
    then have "h = g" using 1(2) by (subst (asm) move_tail.simps) simp
    then show ?thesis using True 1(3,4) by simp
  next
    case False
    define c where "c = min (p - at) MOVE_CHUNK_BYTES"
    have run: "\<not> stops k" "move_tail stops at growth (p - c) (write_at (p - c + growth) (take c (drop (p - c) g)) g) (Suc k) = (h, Inr k')"
      using 1(2) False unfolding c_def by (subst (asm) move_tail.simps, simp add: Let_def split: if_splits)+
    have c: "p - c + c = p" "at \<le> p - c" using False by (auto simp: c_def)
    have "moved f growth (p - c) (write_at (p - c + growth) (take c (drop (p - c) g)) g)"
      by (rule moved_chunk) (use 1(3) c(1) in simp)
    from 1(1) [OF False run(1) c_def refl refl run(2) this c(2)] show ?thesis .
  qed
qed

lemma write_moved:
  assumes "moved f (length bs) at h"
  shows "write_at at bs h = take at f @ bs @ drop at f"
proof (rule nth_equalityI)
  note m = moved_nth [OF assms]
  have fits: "at + length bs \<le> length h" using m(1,2) by simp
  show "length (write_at at bs h) = length (take at f @ bs @ drop at f)" using m(1,2) fits by (simp add: length_write_at)
  fix i
  assume "i < length (write_at at bs h)"
  then have i: "i < length h" using fits by (simp add: length_write_at)
  consider "i < at" | "at \<le> i" "i < at + length bs" | "at + length bs \<le> i" by linarith
  then show "write_at at bs h ! i = (take at f @ bs @ drop at f) ! i"
  proof cases
    case 1 then show ?thesis using nth_write_at [OF fits i] m(1) m(3) [of i] by (simp add: nth_append)
  next
    case 2
    then have "i - at < length bs" by simp
    then show ?thesis using 2 nth_write_at [OF fits i] m(1) by (simp add: nth_append)
  next
    case 3
    then have "h ! i = f ! (i - length bs)" using m(4) [of "i - length bs"] i m(2) by simp
    moreover have "\<not> i - at < length bs" using 3 by simp
    ultimately show ?thesis using nth_write_at [OF fits i] m(1) 3 by (simp add: nth_append)
  qed
qed

lemma insert_exact:
  assumes "insert_mp4_bytes stops at bs f k = (g, Inr k')"
  shows "at \<le> length f" "g = take at f @ bs @ drop at f"
proof -
  define grown where "grown = f @ replicate (length bs) (0 :: 8 word)"
  obtain h r where move: "move_tail stops at (length bs) (length f) grown (Suc k) = (h, r)" by force
  from assms move have at: "at \<le> length f" and r: "r = Inr (k' - 1)" and g: "g = write_at at bs h"
    by (auto simp: insert_mp4_bytes_def Let_def grown_def split: if_splits sum.splits)
  have "moved f (length bs) (length f) grown" by (simp add: moved_def nth_append grown_def)
  from move_tail_moves [OF move [unfolded r] this at] have h: "moved f (length bs) at h" .
  show "at \<le> length f" "g = take at f @ bs @ drop at f" using at g write_moved [OF h] by simp_all
qed

subsection \<open>The sizes\<close>

lemma write_sizes_length:
  "write_sizes stops ps f k = (h, r) \<Longrightarrow> \<forall>(off, n)\<in>set ps. off + 4 \<le> length f \<Longrightarrow> length h = length f"
  by (induction stops ps f k rule: write_sizes.induct) (auto simp: length_write_at split: if_splits)

lemma write_sizes_elsewhere:
  assumes "write_sizes stops ps f k = (h, Inr k')" "\<forall>(off, n)\<in>set ps. off + 4 \<le> length f" "i < length f"
    "\<forall>(off, n)\<in>set ps. i < off \<or> off + 4 \<le> i"
  shows "h ! i = f ! i"
  using assms
proof (induction stops ps f k rule: write_sizes.induct)
  case (2 stops off n rest f k)
  have "h ! i = write_at off (be_bytes 4 n) f ! i"
    by (rule 2(1)) (use 2(2,3,4,5) in \<open>auto simp: length_write_at split: if_splits\<close>)
  then show ?case using 2(3,4,5) by (auto simp: nth_write_at)
qed simp

lemma write_sizes_fields:
  assumes "write_sizes stops ps f k = (h, Inr k')" "\<forall>(off, n)\<in>set ps. off + 4 \<le> length f"
    "sorted_wrt (\<lambda>a b. fst a + 4 \<le> fst b) ps" "(off, n) \<in> set ps" "j < 4"
  shows "h ! (off + j) = be_bytes 4 n ! j"
  using assms
proof (induction stops ps f k rule: write_sizes.induct)
  case (2 stops off' n' rest f k)
  let ?f = "write_at off' (be_bytes 4 n') f"
  have run: "\<not> stops k" "write_sizes stops rest ?f (Suc k) = (h, Inr k')" using 2(2) by (auto split: if_splits)
  have fits: "\<forall>(off, n)\<in>set rest. off + 4 \<le> length ?f" using 2(3) by (simp add: length_write_at)
  show ?case
  proof (cases "(off, n) \<in> set rest")
    case True
    then show ?thesis by (intro 2(1) [OF run fits]) (use 2(4,6) in simp_all)
  next
    case False
    then have here: "off' = off" "n' = n" using 2(5) by auto
    have "h ! (off + j) = ?f ! (off + j)"
      by (rule write_sizes_elsewhere [OF run(2) fits]) (use 2(3,4,6) here in \<open>auto simp: length_write_at\<close>)
    also have "\<dots> = be_bytes 4 n ! j" using 2(3,6) here by (simp add: nth_write_at)
    finally show ?thesis .
  qed
qed simp

text \<open>A size reads back as it was written.\<close>

lemma unat_byte: "unat (of_nat n :: 8 word) = n mod 256"
  by (simp add: unat_of_nat)

lemma be_value_four:
  assumes "n < 2 ^ 32"
  shows "be_value (be_bytes 4 n) = n"
proof -
  define a b c where "a = n div 256" and "b = a div 256" and "c = b div 256"
  have c: "c < 256" using assms by (simp add: a_def b_def c_def)
  have parts: "n = a * 256 + n mod 256" "a = b * 256 + a mod 256" "b = c * 256 + b mod 256"
    by (simp_all add: a_def b_def c_def)
  have "be_bytes 4 n = [of_nat c, of_nat b, of_nat a, of_nat n]"
    by (simp add: be_bytes_def upt_rec a_def b_def c_def div_mult2_eq [symmetric])
  then have "be_value (be_bytes 4 n) = ((c * 256 + b mod 256) * 256 + a mod 256) * 256 + n mod 256"
    using c by (simp add: be_value_def unat_byte)
  then show ?thesis using parts by simp
qed

subsection \<open>Refusals\<close>

lemma write_sizes_stopped: "write_sizes stops ps f k = (h, Inl e) \<Longrightarrow> e = Stopped"
  by (induction stops ps f k rule: write_sizes.induct) (auto split: if_splits)

lemma move_tail_stopped: "move_tail stops at growth p g k = (h, Inl e) \<Longrightarrow> e = Stopped"
proof (induction stops at growth p g k rule: move_tail.induct)
  case IH: (1 stops at growth p g k)
  from IH(2) consider "\<not> p \<le> at" "\<not> stops k" | "e = Stopped"
    by (subst (asm) move_tail.simps) (auto split: if_splits)
  then show ?case
  proof cases
    case 1
    define c where "c = min (p - at) MOVE_CHUNK_BYTES"
    have "move_tail stops at growth (p - c) (write_at (p - c + growth) (take c (drop (p - c) g)) g) (Suc k) = (h, Inl e)"
      using IH(2) 1 unfolding c_def by (subst (asm) move_tail.simps) (simp add: Let_def)
    then show ?thesis by (rule IH(1) [OF 1 c_def refl refl])
  qed simp
qed

lemma insert_refused: "insert_mp4_bytes stops at bs f k = (g, Inl e) \<Longrightarrow> e = Stopped \<or> g = f"
  unfolding insert_mp4_bytes_def Let_def
  by (auto dest: move_tail_stopped split: if_splits sum.splits prod.splits)

lemma signal_refused:
  "signal_profile8_in_mp4_with_control level stops f = (g, Inl e) \<Longrightarrow> e = Stopped \<or> g = f"
  unfolding signal_profile8_in_mp4_with_control_def
  by (auto dest: insert_refused write_sizes_stopped split: sum.splits prod.splits)

end
