(* ===== verification/Mp4_Search.thy ===== *)
theory Mp4_Search
  imports Mp4_Boxes
begin

text \<open>
  The search for the sample entry in two files: files that agree where the search looks give the same
  result, and a file in which the boxes on the way to the entry have grown gives the same boxes, grown.
\<close>

definition never :: "nat \<Rightarrow> bool" where "never = (\<lambda>_. False)"

lemma check_never [simp]: "check_control never k = Inr (Suc k)"
  by (simp add: check_control_def never_def)

subsection \<open>Files that agree\<close>

definition agree :: "bytes \<Rightarrow> bytes \<Rightarrow> nat \<Rightarrow> nat \<Rightarrow> bool" where
  "agree f h a b \<longleftrightarrow> b \<le> length f \<and> b \<le> length h \<and> (\<forall>i. a \<le> i \<longrightarrow> i < b \<longrightarrow> f ! i = h ! i)"

lemma agree_sub: "agree f h a b \<Longrightarrow> a \<le> c \<Longrightarrow> d \<le> b \<Longrightarrow> agree f h c d"
  by (auto simp: agree_def)

lemma read_at_nth: "off + n \<le> length f \<Longrightarrow> read_at off n f = Some (map (\<lambda>i. f ! (off + i)) [0..<n])"
  by (auto simp: read_at_def intro!: nth_equalityI)

lemma agree_read: "agree f h off (off + n) \<Longrightarrow> read_at off n f = read_at off n h"
  by (simp add: read_at_nth agree_def)

text \<open>What a box is read from: the size field, the kind and the size itself.\<close>

lemma read_box_agree:
  assumes "agree f h off stop"
  shows "read_mp4_box f off stop = read_mp4_box h off stop"
proof -
  have "read_at off 8 f = read_at off 8 h" if "\<not> stop < off" "\<not> stop - off < 8"
    by (rule agree_read, rule agree_sub [OF assms]) (use that in auto)
  moreover have "read_at (off + 8) 8 f = read_at (off + 8) 8 h" if "\<not> stop < off" "\<not> stop - off < 16"
    by (rule agree_read, rule agree_sub [OF assms]) (use that in auto)
  ultimately show ?thesis by (simp add: read_mp4_box_def Let_def cong: if_cong)
qed

definition size_field :: "bytes \<Rightarrow> nat \<Rightarrow> nat" where
  "size_field f off = be_value (map (\<lambda>i. f ! (off + i)) [0..<4])"

definition kind_field :: "bytes \<Rightarrow> nat \<Rightarrow> bytes" where
  "kind_field f off = map (\<lambda>i. f ! (off + 4 + i)) [0..<4]"

lemma header_fields:
  assumes "off + 8 \<le> length f"
  shows "read_at off 8 f = Some (map (\<lambda>i. f ! (off + i)) [0..<8])"
    "take 4 (map (\<lambda>i. f ! (off + i)) [0..<8]) = map (\<lambda>i. f ! (off + i)) [0..<4]"
    "take 4 (drop 4 (map (\<lambda>i. f ! (off + i)) [0..<8])) = kind_field f off"
proof -
  show "read_at off 8 f = Some (map (\<lambda>i. f ! (off + i)) [0..<8])" using read_at_nth [OF assms] .
  show "take 4 (map (\<lambda>i. f ! (off + i)) [0..<8]) = map (\<lambda>i. f ! (off + i)) [0..<4]"
    "take 4 (drop 4 (map (\<lambda>i. f ! (off + i)) [0..<8])) = kind_field f off"
    by (rule nth_equalityI; simp add: kind_field_def add.assoc)+
qed

lemma read_box_fields:
  assumes "read_mp4_box f off stop = Inr b" "stop \<le> length f"
  shows "off + 8 \<le> stop" "bx_kind b = kind_field f off" "bx_header b = 8 \<or> bx_header b = 16"
    "size_field f off = 0 \<Longrightarrow> bx_end b = stop" "size_field f off \<noteq> 0 \<Longrightarrow> bx_header b = 8 \<Longrightarrow> bx_size b = size_field f off"
proof -
  have off: "off + 8 \<le> stop" using assms(1) by (auto simp: read_mp4_box_def Let_def split: if_splits)
  then show "off + 8 \<le> stop" .
  have "off + 8 \<le> length f" using off assms(2) by simp
  note fields = header_fields [OF this]
  show "bx_kind b = kind_field f off" "bx_header b = 8 \<or> bx_header b = 16"
    "size_field f off = 0 \<Longrightarrow> bx_end b = stop" "size_field f off \<noteq> 0 \<Longrightarrow> bx_header b = 8 \<Longrightarrow> bx_size b = size_field f off"
    using assms(1) off
    by (auto simp: read_mp4_box_def Let_def bind_res_Inr fields size_field_def bx_end_def split: if_splits)
qed

text \<open>A box that ends before its parent's end is read the same when the parent has grown.\<close>

lemma read_box_in_larger:
  assumes "read_mp4_box f off stop = Inr b" "agree f h off (bx_end b)" "stop \<le> length f" "stop' \<le> length h" "stop \<le> stop'"
    "size_field f off \<noteq> 0"
  shows "read_mp4_box h off stop' = Inr b"
proof -
  note bounds = read_mp4_box_bounds [OF assms(1)]
  have hdr: "off + bx_header b \<le> bx_end b" using bounds by (simp add: bx_end_def)
  have eight: "read_at off 8 f = read_at off 8 h"
    by (rule agree_read, rule agree_sub [OF assms(2)]) (use bounds hdr in auto)
  have more: "read_at (off + 8) 8 f = read_at (off + 8) 8 h" if "bx_header b = 16"
    by (rule agree_read, rule agree_sub [OF assms(2)]) (use hdr that in auto)
  have off: "off + 8 \<le> length f" using read_box_fields(1) [OF assms(1,3)] assms(3) by simp
  note fields = header_fields [OF off]
  have "read_at off 8 h = Some (map (\<lambda>i. f ! (off + i)) [0..<8])" using eight fields(1) by simp
  moreover have "bx_header b = 16 \<and> read_at (off + 8) 8 f = Some (the (read_at (off + 8) 8 f)) \<and>
      be_value (the (read_at (off + 8) 8 f)) = bx_size b \<and> 16 \<le> bx_size b \<and> bx_size b \<le> stop - off \<and> 16 \<le> stop - off"
    if "size_field f off = 1"
    using assms(1) that off unfolding size_field_def
    by (auto simp: read_mp4_box_def Let_def bind_res_Inr fields split: if_splits)
  ultimately show ?thesis
  proof (cases "size_field f off = 1")
    case True
    then have large: "bx_header b = 16" "read_at (off + 8) 8 h = Some (the (read_at (off + 8) 8 f))"
      "be_value (the (read_at (off + 8) 8 f)) = bx_size b" "16 \<le> bx_size b" "bx_size b \<le> stop - off" "16 \<le> stop - off"
      using \<open>_ \<Longrightarrow> bx_header b = 16 \<and> _\<close> more by auto
    have "b = \<lparr>bx_offset = off, bx_size = bx_size b, bx_header = 16, bx_kind = kind_field f off\<rparr>"
      using bounds(1) large(1) read_box_fields(2) [OF assms(1,3)] by simp
    moreover have "\<not> stop' - off < bx_size b" "\<not> stop' < off" using large(4,5) assms(5) by linarith+
    ultimately show ?thesis
      using large assms(5) True \<open>read_at off 8 h = _\<close> unfolding size_field_def
      by (simp add: read_mp4_box_def Let_def fields)
  next
    case False
    then show ?thesis
      using assms(1,5,6) \<open>read_at off 8 h = _\<close> unfolding size_field_def
      by (auto simp: read_mp4_box_def Let_def bind_res_Inr fields split: if_splits)
  qed
qed

lemma read_box_plain:
  assumes "8 \<le> size_field f off" "off + size_field f off \<le> stop" "stop \<le> length f"
  shows "read_mp4_box f off stop =
    Inr \<lparr>bx_offset = off, bx_size = size_field f off, bx_header = 8, bx_kind = kind_field f off\<rparr>"
proof -
  have "off + 8 \<le> length f" using assms by simp
  note fields = header_fields [OF this]
  show ?thesis using assms unfolding read_mp4_box_def Let_def
    by (simp add: fields size_field_def [symmetric])
qed

subsection \<open>The search\<close>

lemma find_entry_local:
  "agree f h off stop \<Longrightarrow> find_entry f stops off stop k = find_entry h stops off stop k"
proof (induction f stops off stop k rule: find_entry.induct)
  case (1 f stops off stop k)
  show ?case
  proof (cases "off < stop \<and> \<not> stops k")
    case True
    have "find_entry f stops (bx_end b) stop (Suc k) = find_entry h stops (bx_end b) stop (Suc k)"
      if "read_mp4_box h off stop = Inr b" "\<not> (bx_kind b = tag ''hvc1'' \<or> bx_kind b = tag ''hev1'')" for b
      by (rule 1(1)) (use True that 1(2) read_box_agree [OF 1(2)] read_mp4_box_bounds(5) [OF that(1)] in
          \<open>auto simp: check_control_def intro: agree_sub\<close>)
    then show ?thesis
      using read_box_agree [OF 1(2)] True
      by (subst (1 2) find_entry.simps) (auto simp: check_control_def bind_res_def split: sum.splits)
  next
    case False
    then show ?thesis by (subst (1 2) find_entry.simps) (auto simp: check_control_def)
  qed
qed

lemma find_entry_found:
  "find_entry f stops off stop k = Inr (Some e, k') \<Longrightarrow>
    off \<le> bx_offset e \<and> bx_end e \<le> stop \<and> bx_offset e + 8 \<le> bx_end e"
proof (induction f stops off stop k rule: find_entry.induct)
  case (1 f stops off stop k)
  from 1(2) obtain b where b: "\<not> stop \<le> off" "\<not> stops k" "read_mp4_box f off stop = Inr b"
    by (subst (asm) find_entry.simps) (auto simp: check_control_def bind_res_Inr split: if_splits)
  note bounds = read_mp4_box_bounds [OF b(3)]
  show ?case
  proof (cases "bx_kind b = tag ''hvc1'' \<or> bx_kind b = tag ''hev1''")
    case True
    then have "e = b" using 1(2) b by (subst (asm) find_entry.simps) (simp add: check_control_def)
    then show ?thesis using bounds by (simp add: bx_end_def)
  next
    case False
    then have "find_entry f stops (bx_end b) stop (Suc k) = Inr (Some e, k')"
      using 1(2) b by (subst (asm) find_entry.simps) (simp add: check_control_def)
    from 1(1) [OF b(1) _ b(3) False this] b(2) bounds show ?thesis by (simp add: check_control_def)
  qed
qed

text \<open>What one step of the search below a path did.\<close>

lemma find_path_step:
  assumes "find_path f stops path off stop spans k = Inr (found, out, k')"
  obtains (ended) kind rest where "path = kind # rest" "stop \<le> off" "\<not> found" "out = spans"
  | (skip) kind rest b where "path = kind # rest" "off < stop" "\<not> stops k" "read_mp4_box f off stop = Inr b" "bx_kind b \<noteq> kind"
      "find_path f stops path (bx_end b) stop spans (Suc k) = Inr (found, out, k')"
  | (entry) kind b e where "path = [kind]" "off < stop" "\<not> stops k" "read_mp4_box f off stop = Inr b" "bx_kind b = kind"
      "bx_start b + 8 \<le> bx_end b" "find_entry f stops (bx_start b + 8) (bx_end b) (Suc k) = Inr (Some e, k')"
      "found" "out = spans @ [b, e]"
  | (no_entry) kind b k1 where "path = [kind]" "off < stop" "\<not> stops k" "read_mp4_box f off stop = Inr b" "bx_kind b = kind"
      "bx_start b + 8 \<le> bx_end b" "find_entry f stops (bx_start b + 8) (bx_end b) (Suc k) = Inr (None, k1)"
      "find_path f stops path (bx_end b) stop spans k1 = Inr (found, out, k')"
  | (below) kind rest b where "path = kind # rest" "rest \<noteq> []" "off < stop" "\<not> stops k" "read_mp4_box f off stop = Inr b"
      "bx_kind b = kind" "find_path f stops rest (bx_start b) (bx_end b) (spans @ [b]) (Suc k) = Inr (True, out, k')" "found"
  | (not_below) kind rest b inner k1 where "path = kind # rest" "rest \<noteq> []" "off < stop" "\<not> stops k"
      "read_mp4_box f off stop = Inr b" "bx_kind b = kind"
      "find_path f stops rest (bx_start b) (bx_end b) (spans @ [b]) (Suc k) = Inr (False, inner, k1)"
      "find_path f stops path (bx_end b) stop (butlast inner) k1 = Inr (found, out, k')"
proof -
  obtain kind rest where path: "path = kind # rest" using assms by (subst (asm) find_path.simps) (cases path; auto)
  show ?thesis
  proof (cases "stop \<le> off")
    case True
    then show ?thesis using assms ended [OF path] path by (subst (asm) find_path.simps) simp
  next
    case False
    then obtain b where b: "\<not> stops k" "read_mp4_box f off stop = Inr b"
      using assms path by (subst (asm) find_path.simps) (auto simp: check_control_def bind_res_Inr split: if_splits)
    note step = assms [unfolded path find_path.simps [of f stops "kind # rest" off], simplified False b check_control_def, simplified]
    have off: "off < stop" using False by simp
    show ?thesis
    proof (cases "bx_kind b = kind")
      case kind: False
      then show ?thesis using skip [OF path off b] step path by simp
    next
      case kind: True
      show ?thesis
      proof (cases "rest = []")
        case True
        then obtain e k1 where "bx_start b + 8 \<le> bx_end b" "find_entry f stops (bx_start b + 8) (bx_end b) (Suc k) = Inr (e, k1)"
          using step kind by (auto simp: bind_res_Inr split: if_splits)
        then show ?thesis
          using entry [OF _ off b kind] no_entry [OF _ off b kind] step kind path True by (cases e) auto
      next
        case rest: False
        then obtain hit inner k1 where
          "find_path f stops rest (bx_start b) (bx_end b) (spans @ [b]) (Suc k) = Inr (hit, inner, k1)"
          using step kind by (auto simp: bind_res_Inr)
        then show ?thesis
          using below [OF path rest off b kind] not_below [OF path rest off b kind] step kind path rest by (cases hit) auto
      qed
    qed
  qed
qed

lemma find_path_local:
  "agree f h off stop \<Longrightarrow> find_path f stops path off stop spans k = find_path h stops path off stop spans k"
proof (induction f stops path off stop spans k rule: find_path.induct)
  case (1 f stops path off stop spans k)
  show ?case
  proof (cases "off < stop \<and> \<not> stops k \<and> path \<noteq> []")
    case False
    then show ?thesis by (subst (1 2) find_path.simps) (auto simp: check_control_def split: list.splits)
  next
    case True
    then obtain kind rest where path: "path = kind # rest" by (cases path) auto
    have guard: "\<not> stop \<le> off" "check_control stops k = Inr (Suc k)" using True by (auto simp: check_control_def)
    show ?thesis
    proof (cases "read_mp4_box h off stop")
      case (Inl e)
      then show ?thesis using guard path read_box_agree [OF 1(5)] by (subst (1 2) find_path.simps) simp
    next
      case (Inr b)
      then have b: "read_mp4_box f off stop = Inr b" using read_box_agree [OF 1(5)] by simp
      note bounds = read_mp4_box_bounds [OF b]
      have after: "agree f h (bx_end b) stop" by (rule agree_sub [OF 1(5)]) (use bounds in auto)
      have inner: "agree f h (bx_start b) (bx_end b)" "agree f h (bx_start b + 8) (bx_end b)"
        by (rule agree_sub [OF 1(5)]; use bounds in \<open>simp add: bx_start_def\<close>)+
      show ?thesis
        using guard b Inr path 1(1) [OF path guard b _ after] 1(2) [OF path guard b _ _ _ _ _ _ after]
          1(3) [OF path guard b _ _ inner(1)] 1(4) [OF path guard b _ _ _ _ _ _ after] find_entry_local [OF inner(2)]
        by (subst (1 2) find_path.simps) (auto simp: bind_res_def split: sum.splits option.splits)
    qed
  qed
qed

lemma search_induct:
  fixes off stop k :: nat
  assumes step: "\<And>path off stop spans k.
    (\<And>path' off' stop' spans' k'.
       length path' < length path \<or> path' = path \<and> stop' - off' < stop - off \<Longrightarrow> P path' off' stop' spans' k') \<Longrightarrow>
    P path off stop spans k"
  shows "P path off stop spans k"
proof (induction "length path" arbitrary: path off stop spans k rule: less_induct)
  case outer: (less path off stop spans k)
  show ?case
  proof (induction "stop - off" arbitrary: off stop spans k rule: less_induct)
    case inner: (less off stop spans k)
    show ?case
      by (rule step) (use inner outer in \<open>auto\<close>)
  qed
qed

lemma find_path_not_found: "find_path f stops path off stop spans k = Inr (False, out, k') \<Longrightarrow> out = spans"
proof (induction path off stop spans k arbitrary: out k' rule: search_induct)
  case (1 path off stop spans k)
  have after: "stop - bx_end b < stop - off" if "read_mp4_box f off stop = Inr b" for b
    using read_mp4_box_bounds(4,5) [OF that] by simp
  from 1(2) show ?case
  proof (cases rule: find_path_step)
    case (skip kind rest b)
    then show ?thesis using 1(1) after by blast
  next
    case (no_entry kind b k1)
    then show ?thesis using 1(1) after by blast
  next
    case (not_below kind rest b inner k1)
    have "inner = spans @ [b]" by (rule 1(1) [OF _ not_below(7)]) (simp add: not_below(1))
    then show ?thesis using 1(1) [OF _ not_below(8)] after [OF not_below(5)] by simp
  qed simp_all
qed

text \<open>The spans found lie one inside the other, each header before the next box.\<close>

definition nested :: "nat \<Rightarrow> nat \<Rightarrow> box_span list \<Rightarrow> bool" where
  "nested lo hi new \<longleftrightarrow> new \<noteq> [] \<and>
     (\<forall>s\<in>set new. lo \<le> bx_offset s \<and> bx_end s \<le> hi \<and> bx_offset s + 8 \<le> bx_end (last new) \<and> bx_end (last new) \<le> bx_end s) \<and>
     sorted_wrt (\<lambda>a b. bx_offset a + 8 \<le> bx_offset b) new"

lemma nested_weaken: "nested lo hi new \<Longrightarrow> lo' \<le> lo \<Longrightarrow> hi \<le> hi' \<Longrightarrow> nested lo' hi' new"
  unfolding nested_def by (meson order_trans)

lemma nested_from:
  assumes "nested lo hi new" "lo' \<le> bx_offset (hd new)"
  shows "nested lo' hi new"
proof -
  obtain b rest where "new = b # rest" using assms(1) by (cases new) (auto simp: nested_def)
  with assms show ?thesis unfolding nested_def by (auto intro: order_trans)
qed

lemma nested_Cons:
  assumes "nested (bx_start b) (bx_end b) new" "8 \<le> bx_header b" "lo \<le> bx_offset b" "bx_end b \<le> hi"
  shows "nested lo hi (b # new)"
proof -
  have "\<forall>s\<in>set new. bx_offset b + 8 \<le> bx_offset s" using assms(1,2) unfolding nested_def bx_start_def by (meson add_left_mono le_trans)
  moreover have "last new \<in> set new" using assms(1) by (simp add: nested_def)
  moreover from this have "bx_offset b + 8 \<le> bx_end (last new)"
    using assms(1,2) unfolding nested_def bx_start_def by (meson add_left_mono le_trans le_add1)
  ultimately show ?thesis
    using assms unfolding nested_def bx_start_def by (auto intro: order_trans)
qed

lemma find_path_found:
  "find_path f stops path off stop spans k = Inr (True, out, k') \<Longrightarrow>
    \<exists>new. out = spans @ new \<and> nested off stop new"
proof (induction path off stop spans k arbitrary: out k' rule: search_induct)
  case (1 path off stop spans k)
  have after: "stop - bx_end b < stop - off" if "read_mp4_box f off stop = Inr b" for b
    using read_mp4_box_bounds(4,5) [OF that] by simp
  from 1(2) show ?case
  proof (cases rule: find_path_step)
    case (skip kind rest b)
    from 1(1) [OF _ skip(6)] after [OF skip(4)] obtain new where "out = spans @ new" "nested (bx_end b) stop new" by auto
    then show ?thesis using read_mp4_box_bounds(5) [OF skip(4)] by (auto intro: nested_weaken)
  next
    case (entry kind b e)
    note bounds = read_mp4_box_bounds [OF entry(4)]
    have "nested (bx_start b) (bx_end b) [e]"
      using find_entry_found [OF entry(7)] by (simp add: nested_def)
    from nested_Cons [OF this bounds(2)] show ?thesis using entry(9) bounds by simp
  next
    case (no_entry kind b k1)
    from 1(1) [OF _ no_entry(8)] after [OF no_entry(4)] obtain new where "out = spans @ new" "nested (bx_end b) stop new" by auto
    then show ?thesis using read_mp4_box_bounds(5) [OF no_entry(4)] by (auto intro: nested_weaken)
  next
    case (below kind rest b)
    note bounds = read_mp4_box_bounds [OF below(5)]
    from 1(1) [OF _ below(7)] below(1) obtain new where "out = (spans @ [b]) @ new" "nested (bx_start b) (bx_end b) new" by auto
    with nested_Cons [OF this(2) bounds(2)] show ?thesis using bounds by simp
  next
    case (not_below kind rest b inner k1)
    have "butlast inner = spans" using find_path_not_found [OF not_below(7)] by simp
    with 1(1) [OF _ not_below(8)] after [OF not_below(5)] obtain new where "out = spans @ new" "nested (bx_end b) stop new" by auto
    then show ?thesis using read_mp4_box_bounds(5) [OF not_below(5)] by (auto intro: nested_weaken)
  qed simp_all
qed

text \<open>The boxes entered before the search do not matter.\<close>

lemma find_path_spans:
  "find_path f stops path off stop spans k = Inr (found, spans @ new, k') \<Longrightarrow>
    find_path f stops path off stop spans' k = Inr (found, spans' @ new, k')"
proof (induction path off stop spans k arbitrary: spans' found new k' rule: search_induct)
  case (1 path off stop spans k)
  have after: "find_path f stops path (bx_end b) stop spans' k1 = Inr (found, spans' @ new, k')"
    if "read_mp4_box f off stop = Inr b" "find_path f stops path (bx_end b) stop spans k1 = Inr (found, spans @ new, k')" for b k1
    by (rule 1(1) [OF _ that(2)]) (use read_mp4_box_bounds(4,5) [OF that(1)] in simp)
  from 1(2) show ?case
  proof (cases rule: find_path_step)
    case (ended kind rest)
    have "k' = k" using 1(2) ended(1,2) by (subst (asm) find_path.simps) simp
    then show ?thesis using ended by (subst find_path.simps) simp
  next
    case (skip kind rest b)
    then show ?thesis using skip(1-5) after [OF skip(4,6)] by (subst find_path.simps) (simp add: check_control_def)
  next
    case (entry kind b e)
    then show ?thesis by (subst find_path.simps) (simp add: check_control_def)
  next
    case (no_entry kind b k1)
    then show ?thesis using no_entry(1-7) after [OF no_entry(4,8)] by (subst find_path.simps) (simp add: check_control_def)
  next
    case (below kind rest b)
    obtain inner where inner: "spans @ new = (spans @ [b]) @ inner" using find_path_found [OF below(7)] by blast
    have "find_path f stops rest (bx_start b) (bx_end b) (spans' @ [b]) (Suc k) = Inr (True, (spans' @ [b]) @ inner, k')"
      by (rule 1(1) [OF _ below(7) [unfolded inner]]) (simp add: below(1))
    then show ?thesis using below(1-6,8) inner by (subst find_path.simps) (simp add: check_control_def)
  next
    case (not_below kind rest b inner k1)
    have out: "inner = spans @ [b]" by (rule find_path_not_found [OF not_below(7)])
    then have "find_path f stops rest (bx_start b) (bx_end b) (spans @ [b]) (Suc k) = Inr (False, (spans @ [b]) @ [], k1)"
      using not_below(7) by simp
    from 1(1) [OF _ this] have "find_path f stops rest (bx_start b) (bx_end b) (spans' @ [b]) (Suc k) = Inr (False, spans' @ [b], k1)"
      by (simp add: not_below(1))
    moreover have "find_path f stops path (bx_end b) stop spans' k1 = Inr (found, spans' @ new, k')"
      using after [OF not_below(5)] not_below(8) out by simp
    ultimately show ?thesis using not_below(1-6) by (subst find_path.simps) (simp add: check_control_def)
  qed
qed

subsection \<open>The search in the grown file\<close>

definition grow :: "nat \<Rightarrow> box_span \<Rightarrow> box_span" where
  "grow n b = b\<lparr>bx_size := bx_size b + n\<rparr>"

text \<open>
  The new file against the old one, up to the end of the innermost of the boxes that grow: the same
  bytes outside their size fields, which hold the new sizes.
\<close>

definition patched :: "bytes \<Rightarrow> bytes \<Rightarrow> nat \<Rightarrow> nat \<Rightarrow> nat \<Rightarrow> box_span list \<Rightarrow> bool" where
  "patched f h n lo hi new \<longleftrightarrow>
     hi \<le> length f \<and> hi + n \<le> length h \<and>
     (\<forall>i. lo \<le> i \<longrightarrow> i < bx_end (last new) \<longrightarrow> (\<forall>s\<in>set new. i < bx_offset s \<or> bx_offset s + 4 \<le> i) \<longrightarrow> f ! i = h ! i) \<and>
     (\<forall>s\<in>set new. bx_header s = 8 \<and> size_field h (bx_offset s) = bx_size s + n)"

lemma patched_weaken: "patched f h n lo hi new \<Longrightarrow> lo \<le> lo' \<Longrightarrow> hi' \<le> hi \<Longrightarrow> patched f h n lo' hi' new"
  unfolding patched_def by auto

lemma patched_nth:
  "patched f h n lo hi new \<Longrightarrow> lo \<le> i \<Longrightarrow> i < bx_end (last new) \<Longrightarrow>
    (\<And>s. s \<in> set new \<Longrightarrow> i < bx_offset s \<or> bx_offset s + 4 \<le> i) \<Longrightarrow> f ! i = h ! i"
  unfolding patched_def by blast

lemma patched_below:
  assumes "patched f h n lo hi (b # new)" "new \<noteq> []" "lo \<le> bx_start b" "bx_end b \<le> hi" "bx_offset b + 4 \<le> bx_start b"
  shows "patched f h n (bx_start b) (bx_end b) new"
  using assms unfolding patched_def by auto

lemma patched_agree:
  assumes "patched f h n lo hi new" "nested c hi new" "lo \<le> a"
  shows "agree f h a c"
proof -
  obtain s where s: "s \<in> set new" "c \<le> bx_offset s" "bx_offset s + 8 \<le> bx_end (last new)" "bx_end s \<le> hi" "bx_end (last new) \<le> bx_end s"
    using assms(2) unfolding nested_def by (metis last_in_set)
  have "f ! i = h ! i" if "a \<le> i" "i < c" for i
    by (rule patched_nth [OF assms(1)]) (use that s assms(2,3) in \<open>auto simp: nested_def\<close>)
  then show ?thesis using assms(1) s by (auto simp: agree_def patched_def)
qed

lemma read_skipped:
  assumes "read_mp4_box f off hi = Inr b" "patched f h n off hi new" "nested (bx_end b) hi new"
  shows "read_mp4_box h off (hi + n) = Inr b"
proof (rule read_box_in_larger [OF assms(1)])
  obtain s where s: "s \<in> set new" "bx_end b \<le> bx_offset s" "bx_end (last new) \<le> hi" "bx_offset s + 8 \<le> bx_end (last new)"
    using assms(3) unfolding nested_def by (metis last_in_set)
  show "hi \<le> length f" "hi + n \<le> length h" "hi \<le> hi + n" using assms(2) by (auto simp: patched_def)
  show "size_field f off \<noteq> 0"
    using read_box_fields(4) [OF assms(1)] s \<open>hi \<le> length f\<close> by auto
  show "agree f h off (bx_end b)" by (rule patched_agree [OF assms(2,3)]) simp
qed

lemma read_grown:
  assumes "read_mp4_box f off hi = Inr b" "patched f h n off hi new" "nested off hi new" "hd new = b"
  shows "read_mp4_box h off (hi + n) = Inr (grow n b)"
proof -
  note bounds = read_mp4_box_bounds [OF assms(1)]
  obtain rest where new: "new = b # rest" using assms(3,4) by (cases new) (auto simp: nested_def)
  have fits: "hi \<le> length f" "hi + n \<le> length h" and b: "bx_header b = 8" "size_field h off = bx_size b + n"
    using assms(2) bounds(1) new by (auto simp: patched_def)
  have later: "\<forall>s\<in>set rest. off + 8 \<le> bx_offset s" "off + 8 \<le> bx_end (last new)"
    using assms(3) new bounds(1) by (auto simp: nested_def)
  have "h ! (off + 4 + i) = f ! (off + 4 + i)" if "i < 4" for i
    by (rule patched_nth [OF assms(2), symmetric]) (use later that bounds(1) new in \<open>auto dest: bspec\<close>)
  then have "kind_field h off = kind_field f off" by (simp add: kind_field_def)
  moreover have "read_mp4_box h off (hi + n) =
      Inr \<lparr>bx_offset = off, bx_size = size_field h off, bx_header = 8, bx_kind = kind_field h off\<rparr>"
    by (rule read_box_plain) (use fits b bounds in \<open>auto simp: bx_end_def\<close>)
  ultimately show ?thesis
    using b bounds(1) read_box_fields(2) [OF assms(1) fits(1)] by (simp add: grow_def)
qed

lemma find_entry_grown:
  "find_entry f never off hi k = Inr (Some e, k') \<Longrightarrow> patched f h n off hi [e] \<Longrightarrow>
    find_entry h never off (hi + n) k = Inr (Some (grow n e), k')"
proof (induction f never off hi k rule: find_entry.induct)
  case (1 f off hi k)
  from 1(2) obtain b where b: "\<not> hi \<le> off" "read_mp4_box f off hi = Inr b"
    by (subst (asm) find_entry.simps) (auto simp: bind_res_Inr split: if_splits)
  note bounds = read_mp4_box_bounds [OF b(2)]
  show ?case
  proof (cases "bx_kind b = tag ''hvc1'' \<or> bx_kind b = tag ''hev1''")
    case True
    then have e: "e = b" "k' = Suc k" using 1(2) b by (subst (asm) (1) find_entry.simps, simp)+
    have "nested off hi [e]" using find_entry_found [OF 1(2)] by (simp add: nested_def)
    from read_grown [OF b(2) 1(3) this] e have "read_mp4_box h off (hi + n) = Inr (grow n b)" by simp
    then show ?thesis using b(1) True e by (subst find_entry.simps) (simp add: grow_def)
  next
    case False
    then have rest: "find_entry f never (bx_end b) hi (Suc k) = Inr (Some e, k')"
      using 1(2) b by (subst (asm) find_entry.simps) simp
    have "nested (bx_end b) hi [e]" using find_entry_found [OF rest] by (simp add: nested_def)
    from read_skipped [OF b(2) 1(3) this] have h: "read_mp4_box h off (hi + n) = Inr b" .
    have "find_entry h never (bx_end b) (hi + n) (Suc k) = Inr (Some (grow n e), k')"
      by (rule 1(1) [OF b(1) _ b(2) False rest]) (use 1(3) bounds in \<open>auto intro: patched_weaken\<close>)
    then show ?thesis using b(1) False h by (subst find_entry.simps) simp
  qed
qed

lemma find_path_grown:
  "find_path f never path off hi spans k = Inr (True, spans @ new, k') \<Longrightarrow> patched f h n off hi new \<Longrightarrow>
    find_path h never path off (hi + n) spans' k = Inr (True, spans' @ map (grow n) new, k')"
proof (induction path off hi spans k arbitrary: spans' new rule: search_induct)
  case (1 path off hi spans k)
  have skipped: "read_mp4_box h off (hi + n) = Inr b \<and>
      find_path h never path (bx_end b) (hi + n) spans' k1 = Inr (True, spans' @ map (grow n) new, k')"
    if b: "read_mp4_box f off hi = Inr b" and rest: "find_path f never path (bx_end b) hi spans k1 = Inr (True, spans @ new, k')"
    for b k1
  proof -
    note bounds = read_mp4_box_bounds [OF b]
    have "nested (bx_end b) hi new" using find_path_found [OF rest] by auto
    from read_skipped [OF b 1(3) this] have "read_mp4_box h off (hi + n) = Inr b" .
    moreover have "find_path h never path (bx_end b) (hi + n) spans' k1 = Inr (True, spans' @ map (grow n) new, k')"
      by (rule 1(1) [OF _ rest patched_weaken [OF 1(3)]]) (use bounds in auto)
    ultimately show ?thesis ..
  qed
  from 1(2) show ?case
  proof (cases rule: find_path_step)
    case (skip kind rest b)
    note h = skipped [OF skip(4,6)]
    have "off < hi + n" using skip(2) by simp
    then show ?thesis using skip(1,5) h by (subst find_path.simps) simp
  next
    case (entry kind b e)
    note bounds = read_mp4_box_bounds [OF entry(4)]
    have new: "new = [b, e]" using entry(9) by simp
    have e: "find_entry h never (bx_start b + 8) (bx_end b + n) (Suc k) = Inr (Some (grow n e), k')"
      by (rule find_entry_grown [OF entry(7)], rule patched_weaken [OF patched_below [OF 1(3) [unfolded new]]])
        (use bounds in \<open>auto simp: bx_start_def\<close>)
    have "nested off hi new" using find_path_found [OF 1(2)] by auto
    from read_grown [OF entry(4) 1(3) this] new have "read_mp4_box h off (hi + n) = Inr (grow n b)" by simp
    then show ?thesis using entry(1,2,5,6) e new
      by (subst find_path.simps) (simp add: grow_def bx_start_def bx_end_def ac_simps)
  next
    case (no_entry kind b k1)
    note h = skipped [OF no_entry(4,8)]
    have "off < hi + n" using no_entry(2) by simp
    note bounds = read_mp4_box_bounds [OF no_entry(4)]
    have nested: "nested (bx_end b) hi new" using find_path_found [OF no_entry(8)] by auto
    have "agree f h (bx_start b + 8) (bx_end b)" by (rule patched_agree [OF 1(3) nested]) (use bounds in \<open>auto simp: bx_start_def\<close>)
    from find_entry_local [OF this] have "find_entry h never (bx_start b + 8) (bx_end b) (Suc k) = Inr (None, k1)"
      using no_entry(7) by simp
    then show ?thesis using no_entry(1,5,6) h \<open>off < hi + n\<close> by (subst find_path.simps) simp
  next
    case (below kind rest b)
    note bounds = read_mp4_box_bounds [OF below(5)]
    obtain inner where inner: "spans @ new = (spans @ [b]) @ inner" "nested (bx_start b) (bx_end b) inner"
      using find_path_found [OF below(7)] by blast
    have new: "new = b # inner" "inner \<noteq> []" using inner by (auto simp: nested_def)
    have "find_path h never rest (bx_start b) (bx_end b + n) (spans' @ [grow n b]) (Suc k) =
        Inr (True, (spans' @ [grow n b]) @ map (grow n) inner, k')"
      by (rule 1(1) [OF _ below(7) [unfolded inner(1)]], simp add: below(1),
          rule patched_below [OF 1(3) [unfolded new(1)] new(2)]) (use bounds in \<open>auto simp: bx_start_def\<close>)
    moreover have "nested off hi new" using find_path_found [OF 1(2)] by auto
    from read_grown [OF below(5) 1(3) this] new have "read_mp4_box h off (hi + n) = Inr (grow n b)" by simp
    ultimately show ?thesis using below(1,2,3,6) new
      by (subst find_path.simps) (simp add: grow_def bx_start_def bx_end_def ac_simps)
  next
    case (not_below kind rest b inner k1)
    note bounds = read_mp4_box_bounds [OF not_below(5)]
    have out: "inner = spans @ [b]" by (rule find_path_not_found [OF not_below(7)])
    then have after: "find_path f never path (bx_end b) hi spans k1 = Inr (True, spans @ new, k')" using not_below(8) by simp
    note h = skipped [OF not_below(5) after]
    have nested: "nested (bx_end b) hi new" using find_path_found [OF after] by auto
    have "agree f h (bx_start b) (bx_end b)" by (rule patched_agree [OF 1(3) nested]) (use bounds in \<open>auto simp: bx_start_def\<close>)
    then have "find_path h never rest (bx_start b) (bx_end b) (spans' @ [b]) (Suc k) = Inr (False, spans' @ [b], k1)"
      using not_below(7) out find_path_local [of f h "bx_start b" "bx_end b" never rest]
        find_path_spans [of f never rest "bx_start b" "bx_end b" "spans @ [b]" "Suc k" False "[]" k1 "spans' @ [b]"] by simp
    then show ?thesis using not_below(1,2,3,6) h by (subst find_path.simps) simp
  qed simp_all
qed

end
