(* ===== verification/Mp4_Signal.thy ===== *)
theory Mp4_Signal
  imports Mp4_Search
begin

text \<open>
  The signalled file read back: the same search that found the sample entry in the old file finds it in
  the new one, every box on the way 32 bytes larger, and the entry now has its configuration, so that a
  second signalling is refused.
\<close>

subsection \<open>The walk over a level\<close>

text \<open>A search that succeeds has walked, box by box, to the first of its boxes.\<close>

inductive reaches :: "bytes \<Rightarrow> nat \<Rightarrow> nat \<Rightarrow> nat \<Rightarrow> bool" where
  here: "reaches f off stop off"
| box: "read_mp4_box f off stop = Inr b \<Longrightarrow> reaches f (bx_end b) stop target \<Longrightarrow> reaches f off stop target"

lemma reaches_le: "reaches f off stop target \<Longrightarrow> off \<le> target"
  by (induction rule: reaches.induct) (auto dest: read_mp4_box_bounds(5))

lemma find_path_reaches:
  "find_path f stops path off stop spans k = Inr (True, spans @ new, k') \<Longrightarrow>
    reaches f off stop (bx_offset (hd new)) \<and> read_mp4_box f (bx_offset (hd new)) stop = Inr (hd new) \<and> bx_kind (hd new) = hd path"
proof (induction path off stop spans k rule: search_induct)
  case (1 path off stop spans k)
  have after: "reaches f off stop (bx_offset (hd new)) \<and> read_mp4_box f (bx_offset (hd new)) stop = Inr (hd new) \<and> bx_kind (hd new) = hd path"
    if "read_mp4_box f off stop = Inr b" "find_path f stops path (bx_end b) stop spans k1 = Inr (True, spans @ new, k')" for b k1
    using 1(1) [OF _ that(2)] read_mp4_box_bounds(4,5) [OF that(1)] reaches.box [OF that(1)] by simp
  have stop_here: ?case if "read_mp4_box f off stop = Inr b" "hd new = b" "bx_kind b = hd path" for b
    using that read_mp4_box_bounds(1) [OF that(1)] by (simp add: reaches.here)
  from 1(2) show ?case
  proof (cases rule: find_path_step)
    case (skip kind rest b) from after [OF skip(4,6)] show ?thesis .
  next
    case (entry kind b e) then show ?thesis using stop_here [OF entry(4)] by simp
  next
    case (no_entry kind b k1) from after [OF no_entry(4,8)] show ?thesis .
  next
    case (below kind rest b)
    obtain inner where "spans @ new = (spans @ [b]) @ inner" using find_path_found [OF below(7)] by blast
    then show ?thesis using stop_here [OF below(5)] below(1,6) by simp
  next
    case (not_below kind rest b inner k1)
    then show ?thesis using after [OF not_below(5)] find_path_not_found [OF not_below(7)] by simp
  qed simp_all
qed

subsection \<open>The layout of the grown file\<close>

definition shifted :: "bytes \<Rightarrow> bytes \<Rightarrow> nat \<Rightarrow> nat \<Rightarrow> bool" where
  "shifted f h n a \<longleftrightarrow> length h = length f + n \<and> (\<forall>i. a \<le> i \<longrightarrow> i < length f \<longrightarrow> h ! (i + n) = f ! i)"

lemma shifted_read:
  assumes "shifted f h n a" "a \<le> off" "off + m \<le> length f"
  shows "read_at (off + n) m h = read_at off m f"
proof -
  have "h ! (off + n + i) = f ! (off + i)" if "i < m" for i
    using conjunct2 [OF assms(1) [unfolded shifted_def], rule_format, of "off + i"] assms(2,3) that by (simp add: ac_simps)
  then show ?thesis using assms by (simp add: read_at_nth shifted_def)
qed

text \<open>A successful read, as one condition.\<close>

lemma read_mp4_box_iff:
  "read_mp4_box f off stop = Inr b \<longleftrightarrow>
     (\<exists>hdr. off + 8 \<le> stop \<and> read_at off 8 f = Some hdr \<and> bx_offset b = off \<and> bx_kind b = take 4 (drop 4 hdr) \<and>
        bx_header b \<le> bx_size b \<and> bx_size b \<le> stop - off \<and>
        (if be_value (take 4 hdr) = 0 then bx_size b = stop - off \<and> bx_header b = 8
         else if be_value (take 4 hdr) = 1 then
           bx_header b = 16 \<and> 16 \<le> stop - off \<and> map_option be_value (read_at (off + 8) 8 f) = Some (bx_size b)
         else bx_size b = be_value (take 4 hdr) \<and> bx_header b = 8))"
proof (cases "off + 8 \<le> stop")
  case False
  then show ?thesis by (auto simp: read_mp4_box_def Let_def)
next
  case True
  then have guard: "\<not> stop < off" "\<not> stop - off < 8" by auto
  show ?thesis
  proof (cases "read_at off 8 f")
    case None
    then show ?thesis using guard by (simp add: read_mp4_box_def Let_def)
  next
    case (Some hdr)
    consider "be_value (take 4 hdr) = 0" | "be_value (take 4 hdr) = 1" | "be_value (take 4 hdr) \<noteq> 0" "be_value (take 4 hdr) \<noteq> 1" by blast
    then show ?thesis
    proof cases
      case 1
      then show ?thesis using guard True Some by (cases b) (auto simp: read_mp4_box_def Let_def)
    next
      case 2
      then show ?thesis using guard True Some
        by (cases b; cases "read_at (off + 8) 8 f"; cases "stop - off < 16") (auto simp: read_mp4_box_def Let_def)
    next
      case 3
      then show ?thesis using guard True Some by (cases b) (auto simp: read_mp4_box_def Let_def)
    qed
  qed
qed

lemma shifted_box:
  assumes "shifted f h n a" "a \<le> off" "read_mp4_box f off (length f) = Inr b"
  shows "read_mp4_box h (off + n) (length h) = Inr (b\<lparr>bx_offset := bx_offset b + n\<rparr>)"
proof -
  have len: "length h = length f + n" using assms(1) by (simp add: shifted_def)
  obtain hdr where hdr: "off + 8 \<le> length f" "read_at off 8 f = Some hdr" using assms(3) unfolding read_mp4_box_iff by blast
  have "read_at (off + n) 8 h = read_at off 8 f" by (rule shifted_read [OF assms(1,2) hdr(1)])
  moreover have "read_at (off + n + 8) 8 h = read_at (off + 8) 8 f" if "16 \<le> length f - off"
    using shifted_read [OF assms(1), of "off + 8" 8] assms(2) that by (simp add: ac_simps)
  ultimately show ?thesis
    using assms(3) len hdr unfolding read_mp4_box_iff by (cases "16 \<le> length f - off") (simp_all split: if_splits)
qed

lemma validate_shifted:
  "validate_layout_from f never moov off k = Inr k' \<Longrightarrow> shifted f h n a \<Longrightarrow> a \<le> off \<Longrightarrow> bx_offset moov' = bx_offset moov \<Longrightarrow>
    bx_offset moov < off \<Longrightarrow> validate_layout_from h never moov' (off + n) k = Inr k'"
proof (induction f never moov off k rule: validate_layout_from.induct)
  case (1 f moov off k)
  have len: "length h = length f + n" using 1(3) by (simp add: shifted_def)
  show ?case
  proof (cases "length f \<le> off")
    case True
    then show ?thesis using 1(2) len by (subst validate_layout_from.simps, subst (asm) validate_layout_from.simps) simp
  next
    case False
    then obtain b where b: "read_mp4_box f off (length f) = Inr b" "\<not> (bx_kind b = tag ''mdat'' \<and> bx_offset moov < bx_end b)"
      "validate_layout_from f never moov (bx_end b) (Suc k) = Inr k'"
      using 1(2) by (subst (asm) validate_layout_from.simps) (auto simp: bind_res_Inr split: if_splits)
    note bounds = read_mp4_box_bounds [OF b(1)]
    have mdat: "bx_kind b \<noteq> tag ''mdat''" using b(2) bounds 1(6) by auto
    have rest: "validate_layout_from h never moov' (bx_end b + n) (Suc k) = Inr k'"
      by (rule 1(1) [OF False _ b(1,2,3) 1(3)]) (use 1(4,5,6) bounds in auto)
    have "bx_end (b\<lparr>bx_offset := bx_offset b + n\<rparr>) = bx_end b + n" by (simp add: bx_end_def)
    then show ?thesis
      using False len shifted_box [OF 1(3,4) b(1)] mdat rest by (subst validate_layout_from.simps) simp
  qed
qed

lemma validate_grown:
  "reaches f off (length f) (bx_offset moov) \<Longrightarrow> validate_layout_from f never moov off k = Inr k' \<Longrightarrow>
    read_mp4_box f (bx_offset moov) (length f) = Inr moov \<Longrightarrow> bx_kind moov = tag ''moov'' \<Longrightarrow>
    patched f h n off (length f) new \<Longrightarrow> nested off (length f) new \<Longrightarrow> hd new = moov \<Longrightarrow> shifted f h n (bx_end (last new)) \<Longrightarrow>
    validate_layout_from h never (grow n moov) off k = Inr k'"
proof (induction f off "length f" "bx_offset moov" arbitrary: k rule: reaches.induct)
  case (here f)
  note bounds = read_mp4_box_bounds [OF here(2)]
  have len: "length h = length f + n" using here(7) by (simp add: shifted_def)
  have rest: "validate_layout_from f never moov (bx_end moov) (Suc k) = Inr k'"
    using here(1,2,3) bounds
    by (subst (asm) validate_layout_from.simps) (auto simp: tag_def split: if_splits)
  have "validate_layout_from h never (grow n moov) (bx_end moov + n) (Suc k) = Inr k'"
  proof (rule validate_shifted [OF rest here(7)])
    have "moov \<in> set new" using here(5,6) by (cases new) (auto simp: nested_def)
    then show "bx_end (last new) \<le> bx_end moov" using here(5) by (simp add: nested_def)
  qed (use bounds in \<open>simp_all add: grow_def\<close>)
  moreover have "bx_end (grow n moov) = bx_end moov + n" by (simp add: grow_def bx_end_def)
  moreover have "bx_kind (grow n moov) \<noteq> tag ''mdat''" using here(3) by (simp add: grow_def tag_def)
  moreover have "read_mp4_box h (bx_offset moov) (length f + n) = Inr (grow n moov)" by (rule read_grown [OF here(2,4,5,6)])
  ultimately show ?case using bounds len by (subst validate_layout_from.simps) simp
next
  case (box f off b)
  note bounds = read_mp4_box_bounds [OF box(1)]
  have len: "length h = length f + n" using box(10) by (simp add: shifted_def)
  have off: "off < length f" using bounds by simp
  then have b: "\<not> (bx_kind b = tag ''mdat'' \<and> bx_offset moov < bx_end b)"
    "validate_layout_from f never moov (bx_end b) (Suc k) = Inr k'"
    using box(4,1) by (subst (asm) validate_layout_from.simps, auto split: if_splits)+
  have nested: "nested (bx_end b) (length f) new"
    using nested_from [OF box(8)] reaches_le [OF box(2)] box(9) by simp
  have "validate_layout_from h never (grow n moov) (bx_end b) (Suc k) = Inr k'"
    by (rule box(3) [OF b(2) box(5,6) patched_weaken [OF box(7)] nested box(9,10)]) (use bounds in auto)
  moreover have "read_mp4_box h off (length f + n) = Inr b" by (rule read_skipped [OF box(1,7) nested])
  ultimately show ?case using off len b(1) by (subst validate_layout_from.simps) (simp add: grow_def)
qed

subsection \<open>The new configuration\<close>

text \<open>
  A child whose size field is 0 runs to the end of its parent, so it would swallow what is inserted
  behind it.  \<open>children_explicit\<close> says that no child of the entry is such.
\<close>

function children_explicit :: "bytes \<Rightarrow> nat \<Rightarrow> nat \<Rightarrow> bool" where
  "children_explicit f off stop =
     (if stop \<le> off then True
      else size_field f off \<noteq> 0 \<and>
        (case read_mp4_box f off stop of Inl _ \<Rightarrow> False | Inr b \<Rightarrow> children_explicit f (bx_end b) stop))"
  by pat_completeness auto
termination
  by (relation "measure (\<lambda>(f, off, stop). stop - off)") (auto dest: read_mp4_box_bounds(4,5))

declare children_explicit.simps [simp del]

lemma configuration_found:
  "has_configuration_from f never off stop k = Inr (False, k') \<Longrightarrow> children_explicit f off stop \<Longrightarrow> off \<le> stop \<Longrightarrow>
    agree f h off stop \<Longrightarrow> stop + n \<le> length h \<Longrightarrow> read_mp4_box h stop (stop + n) = Inr c \<Longrightarrow> bx_kind c = tag ''dvvC'' \<Longrightarrow>
    0 < n \<Longrightarrow> \<exists>k''. has_configuration_from h never off (stop + n) k = Inr (True, k'')"
proof (induction f never off stop k rule: has_configuration_from.induct)
  case (1 f off stop k)
  show ?case
  proof (cases "stop \<le> off")
    case True
    then have "off = stop" using 1(4) by simp
    then show ?thesis using 1(7,8,9) by (subst has_configuration_from.simps) simp
  next
    case False
    then obtain b where b: "read_mp4_box f off stop = Inr b" "bx_kind b \<notin> {tag ''dvcC'', tag ''dvvC'', tag ''dvwC''}"
      "has_configuration_from f never (bx_end b) stop (Suc k) = Inr (False, k')"
      using 1(2) by (subst (asm) has_configuration_from.simps) (auto simp: bind_res_Inr split: if_splits)
    note bounds = read_mp4_box_bounds [OF b(1)]
    have kids: "size_field f off \<noteq> 0" "children_explicit f (bx_end b) stop"
      using 1(3) False b(1) by (subst (asm) children_explicit.simps, simp)+
    have "\<exists>k''. has_configuration_from h never (bx_end b) (stop + n) (Suc k) = Inr (True, k'')"
      by (rule 1(1) [OF False _ b(1,2,3) kids(2) bounds(4) agree_sub [OF 1(5)] 1(6-9)]) (use bounds in auto)
    moreover have "read_mp4_box h off (stop + n) = Inr b"
      by (rule read_box_in_larger [OF b(1) agree_sub [OF 1(5)] _ 1(6) _ kids(1)])
        (use bounds 1(5) in \<open>auto simp: agree_def\<close>)
    ultimately show ?thesis using False b(2) by (subst has_configuration_from.simps) auto
  qed
qed

subsection \<open>The signalled file\<close>

lemma length_configuration [simp]: "length (profile8_decoder_configuration level) = 32"
  by (simp add: profile8_decoder_configuration_def tag_def)

lemma grown_sizes_exact:
  "grown_sizes n ss = Inr ps \<Longrightarrow>
    ps = map (\<lambda>s. (bx_offset s, bx_size s + n)) ss \<and> (\<forall>s\<in>set ss. bx_header s = 8 \<and> bx_size s + n \<le> u32_max)"
  by (induction n ss arbitrary: ps rule: grown_sizes.induct) (auto simp: bind_res_Inr split: if_splits)

lemma never_move: "move_tail never at n p g k = (h, Inl e) \<Longrightarrow> False"
proof (induction never at n p g k rule: move_tail.induct)
  case (1 at n p g k)
  show ?case
  proof (cases "p \<le> at")
    case True
    then show ?thesis using 1(2) by (subst (asm) move_tail.simps) simp
  next
    case False
    then show ?thesis using 1(1) [OF False _ refl refl refl] 1(2)
      by (subst (asm) (2) move_tail.simps) (simp add: Let_def never_def)
  qed
qed

text \<open>What is known of a successful edit.\<close>

definition edited :: "nat \<Rightarrow> bytes \<Rightarrow> bytes \<Rightarrow> box_span list \<Rightarrow> bool" where
  "edited level f h spans \<longleftrightarrow>
     nested 0 (length f) spans \<and> (\<forall>s\<in>set spans. bx_header s = 8 \<and> bx_size s + 32 \<le> u32_max) \<and>
     (\<exists>k k'. write_sizes never (map (\<lambda>s. (bx_offset s, bx_size s + 32)) spans)
        (take (bx_end (last spans)) f @ profile8_decoder_configuration level @ drop (bx_end (last spans)) f) k = (h, Inr k'))"

lemma signal_edited:
  assumes "signal_profile8_in_mp4_with_control level never f = (h, Inr ())"
    "profile8_sample_entry_path f never 1 = Inr (spans, k)"
  shows "level \<le> 63" "edited level f h spans"
    "\<exists>k'. validate_layout_from f never (hd spans) 0 k = Inr k' \<and>
      (\<exists>k''. entry_has_dolby_vision_configuration f never (last spans) k' = Inr (False, k''))"
proof -
  from assms(1) obtain at ps k1 where plan: "plan_signal level never f = Inr (at, ps, k1)"
    by (auto simp: signal_profile8_in_mp4_with_control_def split: sum.splits)
  then show "level \<le> 63"
    "\<exists>k'. validate_layout_from f never (hd spans) 0 k = Inr k' \<and>
      (\<exists>k''. entry_has_dolby_vision_configuration f never (last spans) k' = Inr (False, k''))"
    using assms(2) by (auto simp: plan_signal_def bind_res_Inr split: if_splits)
  from plan have at: "at = bx_end (last spans)" and ps: "grown_sizes 32 spans = Inr ps"
    using assms(2) by (auto simp: plan_signal_def bind_res_Inr split: if_splits)
  from assms(1) plan obtain g k2 k3 where g: "insert_mp4_bytes never at (profile8_decoder_configuration level) f k1 = (g, Inr k2)"
    and h: "write_sizes never ps g k2 = (h, Inr k3)"
    by (auto simp: signal_profile8_in_mp4_with_control_def split: sum.splits prod.splits)
  have "nested 0 (length f) spans"
    using assms(2) find_path_found [of f never CONTAINER_PATH 0 "length f" "[]"]
    by (auto simp: profile8_sample_entry_path_def bind_res_Inr split: if_splits)
  then show "edited level f h spans"
    using h insert_exact [OF g] grown_sizes_exact [OF ps] at unfolding edited_def by auto
qed

lemma edited_bytes:
  assumes "edited level f h spans"
  defines "P \<equiv> bx_end (last spans)"
  shows "length h = length f + 32" "P \<le> length f"
    "i < P \<Longrightarrow> (\<And>s. s \<in> set spans \<Longrightarrow> i < bx_offset s \<or> bx_offset s + 4 \<le> i) \<Longrightarrow> h ! i = f ! i"
    "j < 32 \<Longrightarrow> h ! (P + j) = profile8_decoder_configuration level ! j"
    "P \<le> i \<Longrightarrow> i < length f \<Longrightarrow> h ! (i + 32) = f ! i"
    "s \<in> set spans \<Longrightarrow> size_field h (bx_offset s) = bx_size s + 32"
proof -
  let ?cfg = "profile8_decoder_configuration level"
  let ?g = "take P f @ ?cfg @ drop P f"
  let ?ps = "map (\<lambda>s. (bx_offset s, bx_size s + 32)) spans"
  from assms obtain k k' where run: "write_sizes never ?ps ?g k = (h, Inr k')"
    and heads: "\<And>s. s \<in> set spans \<Longrightarrow> bx_header s = 8 \<and> bx_size s + 32 \<le> u32_max"
    and nested: "nested 0 (length f) spans" by (auto simp: edited_def)
  have before: "\<And>s. s \<in> set spans \<Longrightarrow> bx_offset s + 8 \<le> P" and "last spans \<in> set spans"
    using nested by (auto simp: nested_def P_def)
  then show P: "P \<le> length f" using nested by (auto simp: nested_def P_def)
  have fits: "\<forall>(off, n)\<in>set ?ps. off + 4 \<le> length ?g" using before P by fastforce
  show "length h = length f + 32" using write_sizes_length [OF run fits] P by simp
  have away: "h ! i = ?g ! i" if "i < length f + 32" "\<And>s. s \<in> set spans \<Longrightarrow> i < bx_offset s \<or> bx_offset s + 4 \<le> i" for i
    by (rule write_sizes_elsewhere [OF run fits]) (use that P in auto)
  show "h ! i = f ! i" if "i < P" "\<And>s. s \<in> set spans \<Longrightarrow> i < bx_offset s \<or> bx_offset s + 4 \<le> i" for i
    using away [OF _ that(2)] that(1) P by (simp add: nth_append)
  show "h ! (P + j) = ?cfg ! j" if "j < 32" for j
    using away [of "P + j"] before that P by (fastforce simp: nth_append)
  show "h ! (i + 32) = f ! i" if "P \<le> i" "i < length f" for i
    using away [of "i + 32"] before that P by (fastforce simp: nth_append)
  show "size_field h (bx_offset s) = bx_size s + 32" if "s \<in> set spans" for s
  proof -
    have "sorted_wrt (\<lambda>a b. fst a + 4 \<le> fst b) ?ps"
      using nested by (auto simp: nested_def sorted_wrt_map elim!: sorted_wrt_mono_rel [rotated])
    then have "h ! (bx_offset s + j) = be_bytes 4 (bx_size s + 32) ! j" if "j < 4" for j
      by (rule write_sizes_fields [OF run fits _ _ that]) (use \<open>s \<in> set spans\<close> in auto)
    then have "map (\<lambda>j. h ! (bx_offset s + j)) [0..<4] = be_bytes 4 (bx_size s + 32)" by (intro nth_equalityI) simp_all
    moreover have "bx_size s + 32 < 2 ^ 32" using heads [OF that] by (simp add: u32_max_def)
    ultimately show ?thesis using be_value_four by (simp add: size_field_def)
  qed
qed

lemma edited_patched:
  assumes "edited level f h spans"
  shows "patched f h 32 0 (length f) spans" "shifted f h 32 (bx_end (last spans))"
  using edited_bytes [OF assms] assms by (auto simp: patched_def shifted_def edited_def)

subsection \<open>A sample\<close>

text \<open>Media data, a movie with one HEVC track whose entry holds an \<open>hvcC\<close> box, and a free box.\<close>

definition sample_file :: bytes where
  "sample_file =
     [0, 0, 0, 10, 109, 100, 97, 116, 7, 7, 0, 0, 0, 151, 109, 111, 111, 118, 0, 0, 0, 143, 116, 114, 97, 107,
      0, 0, 0, 135, 109, 100, 105, 97, 0, 0, 0, 127, 109, 105, 110, 102, 0, 0, 0, 119, 115, 116, 98, 108, 0, 0,
      0, 111, 115, 116, 115, 100, 0, 0, 0, 0, 0, 0, 0, 0, 0, 0, 0, 95, 104, 118, 99, 49, 0, 0, 0, 0,
      0, 0, 0, 0, 0, 0, 0, 0, 0, 0, 0, 0, 0, 0, 0, 0, 0, 0, 0, 0, 0, 0, 0, 0, 0, 0,
      0, 0, 0, 0, 0, 0, 0, 0, 0, 0, 0, 0, 0, 0, 0, 0, 0, 0, 0, 0, 0, 0, 0, 0, 0, 0,
      0, 0, 0, 0, 0, 0, 0, 0, 0, 0, 0, 0, 0, 0, 0, 0, 0, 0, 0, 0, 0, 0, 0, 0, 0, 9,
      104, 118, 99, 67, 1, 0, 0, 0, 8, 102, 114, 101, 101]"

definition sample_spans :: "box_span list" where
  "sample_spans =
    [\<lparr>bx_offset = 10, bx_size = 151, bx_header = 8, bx_kind = tag ''moov''\<rparr>,
     \<lparr>bx_offset = 18, bx_size = 143, bx_header = 8, bx_kind = tag ''trak''\<rparr>,
     \<lparr>bx_offset = 26, bx_size = 135, bx_header = 8, bx_kind = tag ''mdia''\<rparr>,
     \<lparr>bx_offset = 34, bx_size = 127, bx_header = 8, bx_kind = tag ''minf''\<rparr>,
     \<lparr>bx_offset = 42, bx_size = 119, bx_header = 8, bx_kind = tag ''stbl''\<rparr>,
     \<lparr>bx_offset = 50, bx_size = 111, bx_header = 8, bx_kind = tag ''stsd''\<rparr>,
     \<lparr>bx_offset = 66, bx_size = 95, bx_header = 8, bx_kind = tag ''hvc1''\<rparr>]"

lemma length_sample: "length sample_file = 169"
  by (simp add: sample_file_def)

lemma sample_boxes:
  shows
    "read_mp4_box sample_file 0 169 = Inr \<lparr>bx_offset = 0, bx_size = 10, bx_header = 8, bx_kind = tag ''mdat''\<rparr>"
    "read_mp4_box sample_file 10 169 = Inr \<lparr>bx_offset = 10, bx_size = 151, bx_header = 8, bx_kind = tag ''moov''\<rparr>"
    "read_mp4_box sample_file 18 161 = Inr \<lparr>bx_offset = 18, bx_size = 143, bx_header = 8, bx_kind = tag ''trak''\<rparr>"
    "read_mp4_box sample_file 26 161 = Inr \<lparr>bx_offset = 26, bx_size = 135, bx_header = 8, bx_kind = tag ''mdia''\<rparr>"
    "read_mp4_box sample_file 34 161 = Inr \<lparr>bx_offset = 34, bx_size = 127, bx_header = 8, bx_kind = tag ''minf''\<rparr>"
    "read_mp4_box sample_file 42 161 = Inr \<lparr>bx_offset = 42, bx_size = 119, bx_header = 8, bx_kind = tag ''stbl''\<rparr>"
    "read_mp4_box sample_file 50 161 = Inr \<lparr>bx_offset = 50, bx_size = 111, bx_header = 8, bx_kind = tag ''stsd''\<rparr>"
    "read_mp4_box sample_file 66 161 = Inr \<lparr>bx_offset = 66, bx_size = 95, bx_header = 8, bx_kind = tag ''hvc1''\<rparr>"
    "read_mp4_box sample_file 152 161 = Inr \<lparr>bx_offset = 152, bx_size = 9, bx_header = 8, bx_kind = tag ''hvcC''\<rparr>"
    "read_mp4_box sample_file 161 169 = Inr \<lparr>bx_offset = 161, bx_size = 8, bx_header = 8, bx_kind = tag ''free''\<rparr>"
  by (simp add: read_mp4_box_def read_at_def length_sample, simp add: sample_file_def be_value_def tag_def)+

lemma sample_search: "profile8_sample_entry_path sample_file never 1 = Inr (sample_spans, 9)"
  by (simp add: profile8_sample_entry_path_def length_sample CONTAINER_PATH_def sample_spans_def tag_def sample_boxes
      find_path.simps find_entry.simps bx_start_def bx_end_def)

lemma sample_plan:
  "plan_signal 6 never sample_file =
    Inr (161, [(10, 183), (18, 175), (26, 167), (34, 159), (42, 151), (50, 143), (66, 127)], 13)"
  by (simp add: plan_signal_def sample_search [unfolded One_nat_def], simp add: sample_spans_def tag_def sample_boxes length_sample
      validate_layout_from.simps has_configuration_from.simps entry_has_dolby_vision_configuration_def VISUAL_SAMPLE_ENTRY_FIELDS_def
      bx_start_def bx_end_def Let_def u32_max_def, blast)

subsection \<open>The results\<close>

text \<open>When nothing stops the work, what was planned is done.\<close>

lemma never_write: "\<exists>h k'. write_sizes never ps g k = (h, Inr k')"
  by (induction ps arbitrary: g k) (auto simp: never_def)

lemma signal_succeeds:
  assumes "plan_signal level never f = Inr (at, ps, k)" "at \<le> length f" "length f + 32 \<le> u64_max"
  shows "\<exists>h. signal_profile8_in_mp4_with_control level never f = (h, Inr ())"
proof -
  let ?cfg = "profile8_decoder_configuration level"
  obtain g r where move: "move_tail never at 32 (length f) (f @ replicate 32 0) (Suc k) = (g, r)" by force
  then obtain k1 where r: "r = Inr k1" by (cases r) (auto dest: never_move)
  have "insert_mp4_bytes never at ?cfg f k = (write_at at ?cfg g, Inr (Suc k1))"
    using move r assms(2,3) by (simp add: insert_mp4_bytes_def never_def)
  moreover obtain h k2 where "write_sizes never ps (write_at at ?cfg g) (Suc k1) = (h, Inr k2)" using never_write by blast
  ultimately show ?thesis using assms(1) by (auto simp: signal_profile8_in_mp4_with_control_def)
qed

lemma sample_signals: "\<exists>h. signal_profile8_in_mp4_with_control 6 never sample_file = (h, Inr ())"
  using sample_plan signal_succeeds [of 6 sample_file 161] by (auto simp: length_sample u64_max_def)

text \<open>
  C38: Signalling changes exactly what it has to. When it succeeds, the file is 32 bytes longer: the
  configuration for the level lies directly behind the sample entry that the search had found, what came
  behind the entry follows it unchanged, and before it only the size fields of the boxes on the way to
  the entry have changed. The search run on the new file finds the same boxes, each 32 bytes larger, the
  sample entry now ending behind the configuration.
\<close>

theorem signalling_exact:
  assumes "signal_profile8_in_mp4_with_control level never f = (h, Inr ())"
    "profile8_sample_entry_path f never 1 = Inr (spans, k)"
  shows "length h = length f + 32 \<and>
    take 32 (drop (bx_end (last spans)) h) = profile8_decoder_configuration level \<and>
    drop (bx_end (last spans) + 32) h = drop (bx_end (last spans)) f \<and>
    (\<forall>i < bx_end (last spans). (\<forall>s\<in>set spans. i < bx_offset s \<or> bx_offset s + 4 \<le> i) \<longrightarrow> h ! i = f ! i) \<and>
    profile8_sample_entry_path h never 1 = Inr (map (grow 32) spans, k)"
proof (intro conjI allI impI)
  note e = signal_edited(2) [OF assms]
  note bytes = edited_bytes [OF e]
  show "length h = length f + 32" by (rule bytes(1))
  show "take 32 (drop (bx_end (last spans)) h) = profile8_decoder_configuration level"
    using bytes(1,2,4) by (intro nth_equalityI) simp_all
  show "drop (bx_end (last spans) + 32) h = drop (bx_end (last spans)) f"
    using bytes(1,2) bytes(5) [of "bx_end (last spans) + _"] by (intro nth_equalityI) (simp_all add: ac_simps)
  show "h ! i = f ! i" if "i < bx_end (last spans)" "\<forall>s\<in>set spans. i < bx_offset s \<or> bx_offset s + 4 \<le> i" for i
    using bytes(3) that by blast
  have "find_path f never CONTAINER_PATH 0 (length f) [] 1 = Inr (True, [] @ spans, k)"
    using assms(2) by (auto simp: profile8_sample_entry_path_def bind_res_Inr split: if_splits)
  from find_path_grown [OF this edited_patched(1) [OF e], of "[]"] bytes(1)
  show "profile8_sample_entry_path h never 1 = Inr (map (grow 32) spans, k)"
    by (simp add: profile8_sample_entry_path_def)
qed

lemma signalling_exact_witness:
  "\<exists>h. signal_profile8_in_mp4_with_control 6 never sample_file = (h, Inr ()) \<and> length h = 201 \<and>
    take 32 (drop 161 h) = profile8_decoder_configuration 6 \<and>
    profile8_sample_entry_path h never 1 = Inr (map (grow 32) sample_spans, 9)"
proof -
  obtain h where h: "signal_profile8_in_mp4_with_control 6 never sample_file = (h, Inr ())" using sample_signals by blast
  have "bx_end (last sample_spans) = 161" by (simp add: sample_spans_def bx_end_def)
  then show ?thesis using signalling_exact [OF h sample_search] h by (auto simp: length_sample)
qed

lemma entry_signalled:
  assumes "edited level f h spans" "entry_has_dolby_vision_configuration f never (last spans) k = Inr (False, k')"
    "children_explicit f (bx_start (last spans) + VISUAL_SAMPLE_ENTRY_FIELDS) (bx_end (last spans))"
  shows "\<exists>k''. entry_has_dolby_vision_configuration h never (grow 32 (last spans)) k = Inr (True, k'')"
proof -
  define e where "e = last spans"
  let ?s = "bx_start e + VISUAL_SAMPLE_ENTRY_FIELDS"
  note bytes = edited_bytes [OF assms(1), folded e_def]
  have start: "?s \<le> bx_end e" and old: "has_configuration_from f never ?s (bx_end e) k = Inr (False, k')"
    using assms(2) by (auto simp: entry_has_dolby_vision_configuration_def Let_def e_def split: if_splits)
  have nested: "nested 0 (length f) spans" and "bx_header e = 8"
    using assms(1) by (auto simp: edited_def e_def nested_def)
  have below: "bx_offset s + 4 \<le> bx_start e" if "s \<in> set spans" for s
  proof -
    have "s = e \<or> bx_offset s + 8 \<le> bx_offset e"
      using nested that append_butlast_last_id [of spans] unfolding nested_def e_def
      by (metis (no_types, lifting) Un_iff set_append sorted_wrt_append list.set_intros(1) empty_iff list.set(1) set_ConsD)
    then show ?thesis using \<open>bx_header e = 8\<close> by (auto simp: bx_start_def)
  qed
  have "f ! i = h ! i" if "?s \<le> i" "i < bx_end e" for i
    using bytes(3) [of i] below that by fastforce
  then have agree: "agree f h ?s (bx_end e)" using bytes(1,2) by (simp add: agree_def)
  have field: "size_field h (bx_end e) = 32" "kind_field h (bx_end e) = tag ''dvvC''"
  proof -
    have "map (\<lambda>i. h ! (bx_end e + i)) [0..<4] = be_bytes 4 32"
      using bytes(4) by (intro nth_equalityI) (simp_all add: profile8_decoder_configuration_def nth_append)
    then show "size_field h (bx_end e) = 32" using be_value_four [of 32] by (simp add: size_field_def)
    show "kind_field h (bx_end e) = tag ''dvvC''"
    proof (rule nth_equalityI)
      show "length (kind_field h (bx_end e)) = length (tag ''dvvC'')" by (simp add: kind_field_def tag_def)
      fix i
      assume "i < length (kind_field h (bx_end e))"
      then have i: "i < 4" "length (tag ''dvvC'') = 4" by (simp_all add: kind_field_def tag_def)
      then show "kind_field h (bx_end e) ! i = tag ''dvvC'' ! i"
        using bytes(4) [of "4 + i"] by (simp add: kind_field_def profile8_decoder_configuration_def nth_append ac_simps)
    qed
  qed
  have "read_mp4_box h (bx_end e) (bx_end e + 32) =
      Inr \<lparr>bx_offset = bx_end e, bx_size = 32, bx_header = 8, bx_kind = tag ''dvvC''\<rparr>"
    using read_box_plain [of h "bx_end e" "bx_end e + 32"] field bytes(1,2) by simp
  from configuration_found [OF old _ start agree _ this] assms(3) bytes(1,2)
  have "\<exists>k''. has_configuration_from h never ?s (bx_end e + 32) k = Inr (True, k'')" by (auto simp: e_def)
  moreover have "bx_start (grow 32 e) = bx_start e" "bx_end (grow 32 e) = bx_end e + 32"
    by (simp_all add: grow_def bx_start_def bx_end_def)
  ultimately show ?thesis using start
    by (simp add: entry_has_dolby_vision_configuration_def Let_def e_def)
qed

text \<open>
  When a child of the entry has the open size 0, it reaches to the end of the entry and the new
  configuration becomes a part of it: signalling again is not refused.
\<close>

definition open_child_file :: bytes where
  "open_child_file = write_at 152 (be_bytes 4 0) sample_file"

lemma open_child_bytes: "open_child_file = take 152 sample_file @ [0, 0, 0, 0] @ drop 156 sample_file"
  by (simp add: open_child_file_def write_at_def be_bytes_def upt_rec)

lemma length_open_child: "length open_child_file = 169"
  by (simp add: open_child_bytes length_sample)

lemma open_child_boxes:
  "read_mp4_box open_child_file 0 169 = Inr \<lparr>bx_offset = 0, bx_size = 10, bx_header = 8, bx_kind = tag ''mdat''\<rparr>"
  "read_mp4_box open_child_file 10 169 = Inr \<lparr>bx_offset = 10, bx_size = 151, bx_header = 8, bx_kind = tag ''moov''\<rparr>"
  "read_mp4_box open_child_file 18 161 = Inr \<lparr>bx_offset = 18, bx_size = 143, bx_header = 8, bx_kind = tag ''trak''\<rparr>"
  "read_mp4_box open_child_file 26 161 = Inr \<lparr>bx_offset = 26, bx_size = 135, bx_header = 8, bx_kind = tag ''mdia''\<rparr>"
  "read_mp4_box open_child_file 34 161 = Inr \<lparr>bx_offset = 34, bx_size = 127, bx_header = 8, bx_kind = tag ''minf''\<rparr>"
  "read_mp4_box open_child_file 42 161 = Inr \<lparr>bx_offset = 42, bx_size = 119, bx_header = 8, bx_kind = tag ''stbl''\<rparr>"
  "read_mp4_box open_child_file 50 161 = Inr \<lparr>bx_offset = 50, bx_size = 111, bx_header = 8, bx_kind = tag ''stsd''\<rparr>"
  "read_mp4_box open_child_file 66 161 = Inr \<lparr>bx_offset = 66, bx_size = 95, bx_header = 8, bx_kind = tag ''hvc1''\<rparr>"
  "read_mp4_box open_child_file 152 161 = Inr \<lparr>bx_offset = 152, bx_size = 9, bx_header = 8, bx_kind = tag ''hvcC''\<rparr>"
  "read_mp4_box open_child_file 161 169 = Inr \<lparr>bx_offset = 161, bx_size = 8, bx_header = 8, bx_kind = tag ''free''\<rparr>"
  by (simp add: read_mp4_box_def read_at_def length_open_child,
      simp add: open_child_bytes sample_file_def be_value_def tag_def)+

lemma open_child_search: "profile8_sample_entry_path open_child_file never 1 = Inr (sample_spans, 9)"
  by (simp add: profile8_sample_entry_path_def length_open_child CONTAINER_PATH_def sample_spans_def tag_def open_child_boxes
      find_path.simps find_entry.simps bx_start_def bx_end_def)

lemma open_child_plan: "\<exists>ps. plan_signal 6 never open_child_file = Inr (161, ps, 13)"
  by (simp add: plan_signal_def open_child_search [unfolded One_nat_def], simp add: sample_spans_def tag_def open_child_boxes
      length_open_child validate_layout_from.simps has_configuration_from.simps entry_has_dolby_vision_configuration_def
      VISUAL_SAMPLE_ENTRY_FIELDS_def bx_start_def bx_end_def Let_def u32_max_def, blast)

lemma open_child_signalled_twice:
  "\<exists>h g. signal_profile8_in_mp4_with_control 6 never open_child_file = (h, Inr ()) \<and>
     signal_profile8_in_mp4_with_control 5 never h = (g, Inr ())"
proof -
  let ?f = open_child_file
  obtain h where h: "signal_profile8_in_mp4_with_control 6 never ?f = (h, Inr ())"
    using open_child_plan signal_succeeds [of 6 ?f 161] by (auto simp: length_open_child u64_max_def)
  note e = signal_edited(2) [OF h open_child_search]
  note bytes = edited_bytes [OF e]
  have stop: "bx_end (last sample_spans) = 161" "bx_start (last sample_spans) = 74"
    by (simp_all add: sample_spans_def bx_end_def bx_start_def)
  obtain k1 where v: "validate_layout_from ?f never (hd sample_spans) 0 9 = Inr k1"
    using signal_edited(3) [OF h open_child_search] by blast
  have search: "find_path ?f never CONTAINER_PATH 0 (length ?f) [] 1 = Inr (True, [] @ sample_spans, 9)"
    using open_child_search by (auto simp: profile8_sample_entry_path_def bind_res_Inr split: if_splits)
  have nested: "nested 0 (length ?f) sample_spans" using e by (simp add: edited_def)
  have path: "profile8_sample_entry_path h never 1 = Inr (map (grow 32) sample_spans, 9)"
    using find_path_grown [OF search edited_patched(1) [OF e], of "[]"] bytes(1) by (simp add: profile8_sample_entry_path_def)
  have layout: "validate_layout_from h never (grow 32 (hd sample_spans)) 0 9 = Inr k1"
    using find_path_reaches [OF search] v edited_patched [OF e] nested
    by (intro validate_grown) (auto simp: CONTAINER_PATH_def)
  have same: "h ! i = ?f ! i" if "152 \<le> i" "i < 161" for i
    using that by (intro bytes(3)) (auto simp: stop sample_spans_def bx_end_def)
  have "read_at 152 8 h = read_at 152 8 ?f"
    using same bytes(1) by (simp add: read_at_def length_open_child) (intro nth_equalityI; simp add: length_open_child)
  moreover have "read_at 152 8 ?f = Some [0, 0, 0, 0, 104, 118, 99, 67]"
    by (simp add: read_at_def length_open_child) (simp add: open_child_bytes sample_file_def)
  ultimately have "read_mp4_box h 152 193 = Inr \<lparr>bx_offset = 152, bx_size = 41, bx_header = 8, bx_kind = tag ''hvcC''\<rparr>"
    by (simp add: read_mp4_box_iff be_value_def tag_def)
  then have "\<exists>k2. entry_has_dolby_vision_configuration h never (grow 32 (last sample_spans)) k1 = Inr (False, k2)"
    by (simp add: entry_has_dolby_vision_configuration_def has_configuration_from.simps VISUAL_SAMPLE_ENTRY_FIELDS_def Let_def
        never_def check_control_def grow_def sample_spans_def bx_start_def bx_end_def tag_def)
  then have "\<exists>ps k3. plan_signal 5 never h = Inr (193, ps, k3)"
    using path layout by (auto simp: plan_signal_def never_def check_control_def)
      (auto simp: sample_spans_def grow_def bx_end_def u32_max_def)
  then show ?thesis using h bytes(1) signal_succeeds [of 5 h 193] by (auto simp: length_open_child u64_max_def)
qed

text \<open>
  C39: A file whose sample entry has no child of the open size 0 is signalled once: signalling the new
  file again, at any level, is refused because the configuration is found, and leaves it as it is. (For a
  child of open size this fails, as \<open>open_child_signalled_twice\<close> shows.)
\<close>

theorem signalled_once:
  assumes "signal_profile8_in_mp4_with_control level never f = (h, Inr ())"
    "profile8_sample_entry_path f never 1 = Inr (spans, k)"
    "children_explicit f (bx_start (last spans) + VISUAL_SAMPLE_ENTRY_FIELDS) (bx_end (last spans))"
    "again \<le> 63"
  shows "signal_profile8_in_mp4_with_control again never h = (h, Inl AlreadySignalled)"
proof -
  note e = signal_edited(2) [OF assms(1,2)]
  obtain k1 k2 where v: "validate_layout_from f never (hd spans) 0 k = Inr k1"
    "entry_has_dolby_vision_configuration f never (last spans) k1 = Inr (False, k2)"
    using signal_edited(3) [OF assms(1,2)] by blast
  have search: "find_path f never CONTAINER_PATH 0 (length f) [] 1 = Inr (True, [] @ spans, k)"
    using assms(2) by (auto simp: profile8_sample_entry_path_def bind_res_Inr split: if_splits)
  have nested: "nested 0 (length f) spans" using e by (simp add: edited_def)
  have "spans \<noteq> []" using nested by (simp add: nested_def)
  have len: "length h = length f + 32" by (rule edited_bytes(1) [OF e])
  have path: "profile8_sample_entry_path h never 1 = Inr (map (grow 32) spans, k)"
    using find_path_grown [OF search edited_patched(1) [OF e], of "[]"] len by (simp add: profile8_sample_entry_path_def)
  have "validate_layout_from h never (grow 32 (hd spans)) 0 k = Inr k1"
    using find_path_reaches [OF search] v(1) edited_patched [OF e] nested
    by (intro validate_grown) (auto simp: CONTAINER_PATH_def)
  moreover obtain k3 where "entry_has_dolby_vision_configuration h never (grow 32 (last spans)) k1 = Inr (True, k3)"
    using entry_signalled [OF e v(2) assms(3)] by blast
  ultimately have "plan_signal again never h = Inl AlreadySignalled"
    using path assms(4) \<open>spans \<noteq> []\<close> by (simp add: plan_signal_def hd_map last_map)
  then show ?thesis by (simp add: signal_profile8_in_mp4_with_control_def)
qed

lemma signalled_once_witness:
  "\<exists>h. signal_profile8_in_mp4_with_control 6 never sample_file = (h, Inr ()) \<and>
    signal_profile8_in_mp4_with_control 5 never h = (h, Inl AlreadySignalled)"
proof -
  obtain h where h: "signal_profile8_in_mp4_with_control 6 never sample_file = (h, Inr ())" using sample_signals by blast
  have "size_field sample_file 152 = 9" by (simp add: size_field_def sample_file_def be_value_def upt_rec)
  then have "children_explicit sample_file (bx_start (last sample_spans) + VISUAL_SAMPLE_ENTRY_FIELDS) (bx_end (last sample_spans))"
    by (simp add: children_explicit.simps sample_spans_def bx_start_def bx_end_def VISUAL_SAMPLE_ENTRY_FIELDS_def sample_boxes)
  from signalled_once [OF h sample_search this, of 5] show ?thesis using h by auto
qed

end
