(* ===== verification/Caption_Text.thy ===== *)
theory Caption_Text
  imports Media_Formats Http_Syntax Utf8 Decimal
begin

text \<open>
  The text level of the caption conversion (\<open>crates/server/src/web_caption.rs\<close>): the decoding of
  sidecar bytes, cue times, the escaping of cue text and the WebVTT validator. A text is the byte string
  of its UTF-8 encoding; where the code steps over characters and only ever tests ASCII ones, the model
  steps over bytes.
\<close>

datatype browser_caption_error = CaptionEncoding | CaptionMalformed

definition MAX_CAPTION_INPUT :: nat where "MAX_CAPTION_INPUT = 16 * 1024 * 1024"
definition MAX_CAPTION_OUTPUT :: nat where "MAX_CAPTION_OUTPUT = 6 * MAX_CAPTION_INPUT"

definition blank_line :: string where "blank_line = [lf, lf]"

definition is_blank :: "char \<Rightarrow> bool" where
  "is_blank c \<longleftrightarrow> c = CHR '' '' \<or> c = CHR 0x09"

text \<open>\<open>str::lines\<close>\<close>

definition strip_cr :: "string \<Rightarrow> string" where
  "strip_cr l = (if l \<noteq> [] \<and> last l = cr then butlast l else l)"

definition text_lines :: "string \<Rightarrow> string list" where
  "text_lines s =
     (let ls = split_on lf s in map strip_cr (butlast ls) @ (if last ls = [] then [] else [last ls]))"

definition trim_start_matches :: "(char \<Rightarrow> bool) \<Rightarrow> string \<Rightarrow> string" where
  "trim_start_matches P s = dropWhile P s"

definition trim_end_matches :: "(char \<Rightarrow> bool) \<Rightarrow> string \<Rightarrow> string" where
  "trim_end_matches P s = rev (dropWhile P (rev s))"

definition has_arrow :: "string \<Rightarrow> bool" where
  "has_arrow s = str_contains ''-->'' s"

text \<open>A cue cannot hold an arrow.\<close>

definition escape_arrows :: "string \<Rightarrow> string" where
  "escape_arrows s = str_replace ''-->'' ''--&gt;'' s"

subsection \<open>Decoding\<close>

definition utf8_of :: "nat \<Rightarrow> string" where
  "utf8_of n =
     (if n < 128 then [char_of n]
      else if n < 2048 then [char_of (192 + n div 64), char_of (128 + n mod 64)]
      else if n < 65536 then [char_of (224 + n div 4096), char_of (128 + n div 64 mod 64), char_of (128 + n mod 64)]
      else [char_of (240 + n div 262144), char_of (128 + n div 4096 mod 64), char_of (128 + n div 64 mod 64), char_of (128 + n mod 64)])"

definition WINDOWS_1252_HIGH :: "nat list" where
  "WINDOWS_1252_HIGH =
     [0x20ac, 0x81, 0x201a, 0x192, 0x201e, 0x2026, 0x2020, 0x2021, 0x2c6, 0x2030, 0x160, 0x2039, 0x152, 0x8d, 0x17d,
      0x8f, 0x90, 0x2018, 0x2019, 0x201c, 0x201d, 0x2022, 0x2013, 0x2014, 0x2dc, 0x2122, 0x161, 0x203a, 0x153, 0x9d, 0x17e,
      0x178]"

definition windows_1252 :: "char \<Rightarrow> nat" where
  "windows_1252 c = (if 128 \<le> bval c \<and> bval c < 160 then WINDOWS_1252_HIGH ! (bval c - 128) else bval c)"

fun utf16_units :: "bool \<Rightarrow> string \<Rightarrow> nat list" where
  "utf16_units little (a # b # rest) =
     (if little then bval a + 256 * bval b else 256 * bval a + bval b) # utf16_units little rest"
| "utf16_units little _ = []"

text \<open>\<open>char::decode_utf16\<close>: a surrogate that is not followed by its partner is an error.\<close>

fun decode_utf16 :: "nat list \<Rightarrow> string option" where
  "decode_utf16 [] = Some []"
| "decode_utf16 (u # us) =
     (if u < 0xD800 \<or> 0xDFFF < u then map_option ((@) (utf8_of u)) (decode_utf16 us)
      else if 0xDC00 \<le> u then None
      else case us of
             [] \<Rightarrow> None
           | v # vs \<Rightarrow>
               if 0xDC00 \<le> v \<and> v \<le> 0xDFFF
               then map_option ((@) (utf8_of (0x10000 + (u - 0xD800) * 1024 + (v - 0xDC00)))) (decode_utf16 vs)
               else None)"

definition decode_sidecar_text :: "string \<Rightarrow> browser_caption_error + string" where
  "decode_sidecar_text body =
     (let wide = (\<lambda>little rest. if length rest mod 2 \<noteq> 0 then Inl CaptionEncoding
                     else ok_or CaptionEncoding (decode_utf16 (utf16_units little rest)))
      in if prefix [CHR 0xFF, CHR 0xFE] body then wide True (drop 2 body)
         else if prefix [CHR 0xFE, CHR 0xFF] body then wide False (drop 2 body)
         else if utf8_valid body then Inr body
         else Inr (concat (map (utf8_of \<circ> windows_1252) body)))"

subsection \<open>Times\<close>

definition ascii_number :: "string \<Rightarrow> nat option" where
  "ascii_number v = (if v \<noteq> [] \<and> all_digits v then parse_uint u64_max v else None)"

definition two_digits :: "string \<Rightarrow> nat option" where
  "two_digits v = (if length v = 2 then ascii_number v else None)"

text \<open>The checked sum of hours, minutes, seconds and milliseconds.\<close>

definition clock_millis :: "nat \<Rightarrow> nat \<Rightarrow> nat \<Rightarrow> nat \<Rightarrow> nat option" where
  "clock_millis h m s ms =
     Option.bind (checked_mul u64_max h 3600000) (\<lambda>a.
     Option.bind (checked_mul u64_max m 60000) (\<lambda>b.
     Option.bind (checked_add u64_max a b) (\<lambda>ab.
     Option.bind (checked_mul u64_max s 1000) (\<lambda>d.
     Option.bind (checked_add u64_max ab d) (\<lambda>abd. checked_add u64_max abd ms)))))"

text \<open>\<open>rsplit(':')\<close> gives the parts from the back.\<close>

definition parse_caption_time :: "string \<Rightarrow> bool \<Rightarrow> nat option" where
  "parse_caption_time v subrip =
     (case rev (split_on (CHR '':'') v) of
        seconds # minutes # further \<Rightarrow>
          Option.bind (two_digits minutes) (\<lambda>minutes.
          Option.bind (case further of [] \<Rightarrow> Some 0
                       | h # _ \<Rightarrow> if 2 \<le> length h then ascii_number h else None) (\<lambda>hours.
          Option.bind (case split_once (CHR ''.'') seconds of
                         Some p \<Rightarrow> Some p
                       | None \<Rightarrow> if subrip then split_once (CHR '','') seconds else None) (\<lambda>(seconds, millis).
          Option.bind (two_digits seconds) (\<lambda>seconds.
            if 1 < length further \<or> 59 < seconds \<or> 59 < minutes \<or> length millis \<noteq> 3 then None
            else Option.bind (ascii_number millis) (clock_millis hours minutes seconds)))))
      | _ \<Rightarrow> None)"

definition millis_vtt :: "nat \<Rightarrow> string" where
  "millis_vtt t =
     zero_pad 2 (decimal (t div 3600000)) @ '':'' @ zero_pad 2 (decimal (t div 60000 mod 60)) @ '':'' @
     zero_pad 2 (decimal (t div 1000 mod 60)) @ ''.'' @ zero_pad 3 (decimal (t mod 1000))"

text \<open>The start, the end and the settings of a timing line.\<close>

definition caption_timing :: "string \<Rightarrow> bool \<Rightarrow> browser_caption_error + nat \<times> nat \<times> string" where
  "caption_timing line subrip =
     (case split_once_str ''-->'' line of
        None \<Rightarrow> Inl CaptionMalformed
      | Some (start, rest) \<Rightarrow>
          if \<not> (start \<noteq> [] \<and> is_blank (last start)) \<or> \<not> (rest \<noteq> [] \<and> is_blank (hd rest)) \<or> has_arrow rest
          then Inl CaptionMalformed
          else
            let rest = trim_start_matches is_blank rest;
                stop = takeWhile (\<lambda>c. \<not> is_blank c) rest
            in bind_res (ok_or CaptionMalformed (parse_caption_time (trim_matches is_blank start) subrip)) (\<lambda>a.
               bind_res (ok_or CaptionMalformed (parse_caption_time stop subrip)) (\<lambda>b.
                 Inr (a, b, drop (length stop) rest))))"

subsection \<open>Output\<close>

definition check_output_growth :: "nat \<Rightarrow> nat \<Rightarrow> browser_caption_error + unit" where
  "check_output_growth current incoming =
     (case checked_add usize_max current incoming of
        None \<Rightarrow> Inl CaptionMalformed
      | Some n \<Rightarrow> if n > MAX_CAPTION_OUTPUT then Inl CaptionMalformed else Inr ())"

definition vtt_header :: string where
  "vtt_header = ''WEBVTT'' @ blank_line"

definition append_cue :: "string \<Rightarrow> nat \<Rightarrow> nat \<Rightarrow> string \<Rightarrow> browser_caption_error + string" where
  "append_cue output start stop cue =
     (let timing = millis_vtt start @ '' --> '' @ millis_vtt stop @ [lf]
      in bind_res (check_output_growth (length output)
             (saturating_add usize_max (saturating_add usize_max (length timing) (length cue)) 2)) (\<lambda>_.
         Inr (output @ timing @ cue @ blank_line)))"

definition escape_cue_char :: "char \<Rightarrow> string" where
  "escape_cue_char c =
     (if c = CHR ''&'' then ''&amp;'' else if c = CHR ''<'' then ''&lt;'' else if c = CHR ''>'' then ''&gt;'' else [c])"

definition escape_cue_line :: "string \<Rightarrow> string" where
  "escape_cue_line l = (if l = [] then ''&nbsp;'' else concat (map escape_cue_char l))"

definition unify_newlines :: "string \<Rightarrow> string" where
  "unify_newlines s = str_replace [cr] [lf] (str_replace [cr, lf] [lf] s)"

definition escape_cue_text :: "string \<Rightarrow> string" where
  "escape_cue_text v = join [lf] (map escape_cue_line (split_on lf (unify_newlines v)))"

subsection \<open>The validator\<close>

definition note_line :: "string \<Rightarrow> bool" where
  "note_line l \<longleftrightarrow> l = ''NOTE'' \<or> prefix ''NOTE '' l \<or> prefix (''NOTE'' @ [CHR 0x09]) l"

definition definition_line :: "string \<Rightarrow> bool" where
  "definition_line l \<longleftrightarrow> trim_end_matches is_blank l \<in> {''STYLE'', ''REGION''}"

definition header_line_ok :: "string \<Rightarrow> bool" where
  "header_line_ok l \<longleftrightarrow> l = ''WEBVTT'' \<or> prefix ''WEBVTT '' l \<or> prefix (''WEBVTT'' @ [CHR 0x09]) l"

text \<open>The timing line of a block, the first with an arrow among its first two, and the lines after it.\<close>

definition timing_line :: "string list \<Rightarrow> browser_caption_error + string \<times> string list" where
  "timing_line ls =
     (case ls of
        [] \<Rightarrow> Inl CaptionMalformed
      | first # rest \<Rightarrow>
          if has_arrow first then Inr (first, rest)
          else case rest of [] \<Rightarrow> Inl CaptionMalformed | l # ls \<Rightarrow> Inr (l, ls))"

definition validate_block :: "string \<Rightarrow> bool \<Rightarrow> browser_caption_error + bool" where
  "validate_block block saw_cue =
     (let ls = text_lines block; first = hd ls; defines = definition_line first
      in if ls = [] then Inl CaptionMalformed
         else if (note_line first \<or> defines) \<and> \<not> (case tl ls of [] \<Rightarrow> False | l # _ \<Rightarrow> has_arrow l)
         then if has_arrow block \<or> (defines \<and> saw_cue) then Inl CaptionMalformed else Inr saw_cue
         else bind_res (timing_line ls) (\<lambda>(timing, rest).
              bind_res (caption_timing timing False) (\<lambda>(start, stop, _).
                if stop \<le> start \<or> list_ex has_arrow rest then Inl CaptionMalformed else Inr True)))"

fun validate_blocks :: "string list \<Rightarrow> bool \<Rightarrow> browser_caption_error + bool" where
  "validate_blocks [] saw_cue = Inr saw_cue"
| "validate_blocks (b # bs) saw_cue = bind_res (validate_block b saw_cue) (validate_blocks bs)"

definition body_blocks :: "string list \<Rightarrow> string list" where
  "body_blocks bs = filter (\<lambda>b. b \<noteq> []) (map (trim_matches (\<lambda>c. c = lf)) bs)"

definition validate_webvtt :: "string \<Rightarrow> browser_caption_error + string" where
  "validate_webvtt text =
     (let bs = split_str blank_line text; header = text_lines (hd bs)
      in if \<not> header_line_ok (case header of [] \<Rightarrow> [] | l # _ \<Rightarrow> l) \<or> list_ex has_arrow (tl header)
         then Inl CaptionMalformed
         else bind_res (validate_blocks (body_blocks (tl bs)) False) (\<lambda>_.
              Inr (trim_end_matches (\<lambda>c. c = lf) text @ [lf])))"

definition normalize_extracted_webvtt :: "string \<Rightarrow> browser_caption_error + string" where
  "normalize_extracted_webvtt body =
     (if length body > MAX_CAPTION_INPUT then Inl CaptionMalformed
      else if \<not> utf8_valid body then Inl CaptionEncoding
      else
        let bs = split_str blank_line body
        in if trim (hd bs) \<noteq> ''WEBVTT'' then Inl CaptionMalformed
           else bind_res (foldl (\<lambda>out b. bind_res out (\<lambda>output.
                    bind_res (timing_line (text_lines b)) (\<lambda>(timing, rest).
                    bind_res (caption_timing timing False) (\<lambda>(start, stop, _).
                      if stop \<le> start then Inr output
                      else Inr (output @ timing @ [lf] @ escape_arrows (join [lf] rest) @ blank_line)))))
                  (Inr vtt_header) (filter (\<lambda>b. trim b \<noteq> []) (tl bs)))
                  validate_webvtt)"

end
