(* ===== verification/Caption_Convert.thy ===== *)
theory Caption_Convert
  imports Caption_Text
begin

text \<open>
  The three converters of \<open>crates/server/src/web_caption.rs\<close>: SubRip, SubStation Alpha and SAMI
  sidecars as WebVTT, and the dispatch over them.
\<close>

subsection \<open>SubRip\<close>

text \<open>An open cue is its timing line with its payload.\<close>

type_synonym open_cue = "(string \<times> string) option"

definition flush_srt_cue :: "string \<Rightarrow> open_cue \<Rightarrow> browser_caption_error + string \<times> nat" where
  "flush_srt_cue output cue =
     (case cue of
        None \<Rightarrow> Inr (output, 0)
      | Some (timing, payload) \<Rightarrow>
          if trim payload = [] then Inr (output, 0)
          else bind_res (check_output_growth (length output)
                  (saturating_add usize_max (saturating_add usize_max (length timing) (length payload)) 3)) (\<lambda>_.
               Inr (output @ timing @ [lf] @ payload @ blank_line, 1)))"

record srt_state =
  st_output :: string
  st_cues :: nat
  st_pending :: open_cue

text \<open>A block without a timing line continues the open cue.\<close>

definition continue_cue :: "string \<Rightarrow> srt_state \<Rightarrow> browser_caption_error + srt_state" where
  "continue_cue block st =
     (case st_pending st of
        None \<Rightarrow> Inr st
      | Some (timing, payload) \<Rightarrow>
          bind_res (check_output_growth (saturating_add usize_max (length (st_output st)) (length payload))
                     (saturating_add usize_max (length block) 1)) (\<lambda>_.
          Inr (st\<lparr>st_pending := Some (timing, (if payload = [] then [] else payload @ [lf]) @ escape_arrows block)\<rparr>)))"

definition open_srt_cue :: "string list \<Rightarrow> nat \<Rightarrow> srt_state \<Rightarrow> browser_caption_error + srt_state" where
  "open_srt_cue ls i st =
     (case caption_timing (ls ! i) True of
        Inl _ \<Rightarrow> Inr st
      | Inr (start, stop, settings) \<Rightarrow>
          if stop \<le> start then Inr st
          else
            let timing = millis_vtt start @ '' --> '' @ millis_vtt stop @ settings;
                payload = escape_arrows (join [lf] (drop (Suc i) ls))
            in bind_res (check_output_growth (length (st_output st)) (saturating_add usize_max (length timing) (length payload))) (\<lambda>_.
               Inr (st\<lparr>st_pending := Some (timing, payload)\<rparr>)))"

definition timing_index :: "string list \<Rightarrow> nat option" where
  "timing_index ls =
     (case ls of
        [] \<Rightarrow> None
      | first # rest \<Rightarrow>
          if has_arrow first then Some 0
          else case rest of [] \<Rightarrow> None | l # _ \<Rightarrow> if has_arrow l then Some 1 else None)"

definition srt_block :: "string \<Rightarrow> srt_state \<Rightarrow> browser_caption_error + srt_state" where
  "srt_block raw st =
     (let block = trim_matches (\<lambda>c. c = lf) raw;
          ls = text_lines block;
          numbered = (1 < length ls \<and> trim (hd ls) \<noteq> [] \<and> all_digits (trim (hd ls)))
      in if timing_index ls = None \<and> \<not> numbered then continue_cue block st
         else bind_res (flush_srt_cue (st_output st) (st_pending st)) (\<lambda>(output, n).
              let st = st\<lparr>st_output := output, st_cues := st_cues st + n, st_pending := None\<rparr>
              in case timing_index ls of None \<Rightarrow> Inr st | Some i \<Rightarrow> open_srt_cue ls i st))"

fun srt_blocks :: "string list \<Rightarrow> srt_state \<Rightarrow> browser_caption_error + srt_state" where
  "srt_blocks [] st = Inr st"
| "srt_blocks (b # bs) st = bind_res (srt_block b st) (srt_blocks bs)"

definition srt_to_webvtt :: "string \<Rightarrow> browser_caption_error + string" where
  "srt_to_webvtt text =
     bind_res (srt_blocks (filter (\<lambda>b. trim b \<noteq> []) (split_str blank_line text))
                 \<lparr>st_output = vtt_header, st_cues = 0, st_pending = None\<rparr>) (\<lambda>st.
     bind_res (flush_srt_cue (st_output st) (st_pending st)) (\<lambda>(output, n).
       if st_cues st + n > 0 then Inr output else Inl CaptionMalformed))"

subsection \<open>SubStation Alpha\<close>

text \<open>The value of up to three digits as milliseconds, rounded by the fourth.\<close>

definition fraction_millis :: "string \<Rightarrow> nat" where
  "fraction_millis f =
     digits_value (take 3 (f @ ''000'')) + (case drop 3 f of c # _ \<Rightarrow> if 53 \<le> bval c then 1 else 0 | [] \<Rightarrow> 0)"

definition ass_time :: "string \<Rightarrow> nat option" where
  "ass_time v =
     (case split_on (CHR '':'') (trim v) of
        [h, m, s] \<Rightarrow>
          Option.bind (ascii_number h) (\<lambda>hours.
          Option.bind (two_digits m) (\<lambda>minutes.
          Option.bind (split_once (CHR ''.'') s) (\<lambda>(s, fraction).
          Option.bind (two_digits s) (\<lambda>seconds.
            if 59 < minutes \<or> 59 < seconds \<or> fraction = [] \<or> \<not> all_digits fraction then None
            else clock_millis hours minutes seconds (fraction_millis fraction)))))
      | _ \<Rightarrow> None)"

definition nbsp :: string where "nbsp = [CHR 0xC2, CHR 0xA0]"

text \<open>Override blocks are dropped; \<open>\\N\<close>, \<open>\\n\<close> and \<open>\\h\<close> are a line break and a hard space.\<close>

function strip_ass :: "string \<Rightarrow> browser_caption_error + string" where
  "strip_ass s =
     (if s = [] then Inr []
      else if prefix [CHR ''{'', CHR 0x5C] s then
        (case split_once (CHR ''}'') s of
           None \<Rightarrow> Inl CaptionMalformed
         | Some (_, rest) \<Rightarrow> strip_ass rest)
      else if prefix [CHR 0x5C, CHR ''N''] s \<or> prefix [CHR 0x5C, CHR ''n''] s then
        bind_res (strip_ass (drop 2 s)) (\<lambda>out. Inr (lf # out))
      else if prefix [CHR 0x5C, CHR ''h''] s then bind_res (strip_ass (drop 2 s)) (\<lambda>out. Inr (nbsp @ out))
      else bind_res (strip_ass (tl s)) (\<lambda>out. Inr (hd s # out)))"
  by pat_completeness auto
termination
  by (relation "measure length") (auto dest: split_once_SomeD)

declare strip_ass.simps [simp del]

definition strip_ass_overrides :: "string \<Rightarrow> browser_caption_error + string" where
  "strip_ass_overrides v =
     bind_res (strip_ass v) (\<lambda>out. Inr (if trim out = [] then [] else escape_cue_text out))"

text \<open>\<open>splitn(n, ',')\<close>\<close>

fun splitn :: "nat \<Rightarrow> char \<Rightarrow> string \<Rightarrow> string list" where
  "splitn 0 c s = []"
| "splitn (Suc 0) c s = [s]"
| "splitn (Suc (Suc n)) c s = (case split_once c s of None \<Rightarrow> [s] | Some (a, b) \<Rightarrow> a # splitn (Suc n) c b)"

definition named_field :: "string list \<Rightarrow> string list \<Rightarrow> string \<Rightarrow> string option" where
  "named_field columns fs name = map_of (zip columns fs) name"

record ass_state =
  as_events :: bool
  as_columns :: "string list"
  as_output :: string
  as_cues :: nat

definition after_key :: "string \<Rightarrow> string \<Rightarrow> string option" where
  "after_key name line =
     (case split_once (CHR '':'') line of Some (a, b) \<Rightarrow> if eq_ignore_case a name then Some b else None | None \<Rightarrow> None)"

definition ass_dialogue :: "string \<Rightarrow> ass_state \<Rightarrow> browser_caption_error + ass_state" where
  "ass_dialogue dialogue st =
     (let columns = as_columns st
      in if columns = [] \<or> last columns \<noteq> ''text'' then Inl CaptionMalformed
         else
           let fs = map trim (splitn (length columns) (CHR '','') dialogue);
               pick = named_field columns fs
           in if length fs \<noteq> length columns then Inr st
              else case (Option.bind (pick ''start'') ass_time, Option.bind (pick ''end'') ass_time, pick ''text'') of
                     (Some start, Some stop, Some v) \<Rightarrow>
                       if stop \<le> start then Inr st
                       else (case strip_ass_overrides v of
                               Inl _ \<Rightarrow> Inr st
                             | Inr cue \<Rightarrow>
                                 if trim cue = [] then Inr st
                                 else bind_res (append_cue (as_output st) start stop cue) (\<lambda>output.
                                      Inr (st\<lparr>as_output := output, as_cues := as_cues st + 1\<rparr>)))
                   | _ \<Rightarrow> Inr st)"

definition ass_line :: "string \<Rightarrow> ass_state \<Rightarrow> browser_caption_error + ass_state" where
  "ass_line raw st =
     (let line = trim raw
      in if eq_ignore_case line ''[events]'' then Inr (st\<lparr>as_events := True\<rparr>)
         else
           let st = (if prefix ''['' line then st\<lparr>as_events := False\<rparr> else st)
           in if \<not> as_events st then Inr st
              else case after_key ''format'' line of
                     Some format \<Rightarrow>
                       Inr (st\<lparr>as_columns := map (\<lambda>f. ascii_lower (trim f)) (split_on (CHR '','') format)\<rparr>)
                   | None \<Rightarrow>
                       (case after_key ''dialogue'' line of None \<Rightarrow> Inr st | Some dialogue \<Rightarrow> ass_dialogue dialogue st))"

fun ass_lines :: "string list \<Rightarrow> ass_state \<Rightarrow> browser_caption_error + ass_state" where
  "ass_lines [] st = Inr st"
| "ass_lines (l # ls) st = bind_res (ass_line l st) (ass_lines ls)"

definition ass_to_webvtt :: "string \<Rightarrow> browser_caption_error + string" where
  "ass_to_webvtt text =
     bind_res (ass_lines (text_lines text) \<lparr>as_events = False, as_columns = [], as_output = vtt_header, as_cues = 0\<rparr>) (\<lambda>st.
       if as_cues st > 0 then Inr (as_output st) else Inl CaptionMalformed)"

section \<open>SAMI\<close>

text \<open>
  SAMI sidecars (\<open>crates/server/src/web_caption.rs\<close>): the small tokenizer of tags, the start time of a
  synchronisation point, markup and entities of its text, and the conversion of a sidecar of any format.
\<close>

subsection \<open>Tags\<close>

record smi_tag =
  tag_start :: nat
  tag_end :: nat
  tag_name :: string
  tag_attributes :: string
  tag_closing :: bool

definition is_alpha :: "char \<Rightarrow> bool" where
  "is_alpha c \<longleftrightarrow> is_upper c \<or> is_lower c"

definition ascii_space :: "char \<Rightarrow> bool" where
  "ascii_space c \<longleftrightarrow> c \<in> {CHR '' '', CHR 0x09, CHR 0x0A, CHR 0x0C, CHR 0x0D}"

definition is_quote :: "char \<Rightarrow> bool" where
  "is_quote c \<longleftrightarrow> c = CHR 0x27 \<or> c = CHR 0x22"

text \<open>The index of the \<open>>\<close> that closes a tag, outside quotes.\<close>

fun tag_close :: "char option \<Rightarrow> nat \<Rightarrow> string \<Rightarrow> nat option" where
  "tag_close q i [] = None"
| "tag_close q i (c # cs) =
     (if q = Some c then tag_close None (Suc i) cs
      else if q = None \<and> is_quote c then tag_close (Some c) (Suc i) cs
      else if q = None \<and> c = CHR ''>'' then Some i
      else tag_close q (Suc i) cs)"

definition tag_at :: "nat \<Rightarrow> string \<Rightarrow> browser_caption_error + smi_tag option" where
  "tag_at start rest =
     (case strip_prefix ''!--'' rest of
        Some comment \<Rightarrow>
          (case find_str ''-->'' comment of
             None \<Rightarrow> Inl CaptionMalformed
           | Some n \<Rightarrow>
               Inr (Some \<lparr>tag_start = start, tag_end = start + 4 + n + 3, tag_name = ''!--'', tag_attributes = [],
                          tag_closing = False\<rparr>))
      | None \<Rightarrow>
          let closing = prefix ''/'' rest; after = (if closing then tl rest else rest); name = takeWhile is_alphanumeric after;
              behind = drop (length name) after
          in if name = [] \<or> \<not> is_alpha (hd name) \<or>
                \<not> (case behind of [] \<Rightarrow> False | c # _ \<Rightarrow> ascii_space c \<or> c = CHR ''/'' \<or> c = CHR ''>'')
             then Inr None
             else case tag_close None 0 behind of
                    None \<Rightarrow> Inl CaptionMalformed
                  | Some i \<Rightarrow>
                      Inr (Some \<lparr>tag_start = start,
                        tag_end = start + 1 + ((if closing then 1 else 0) + length name + i) + 1, tag_name = name,
                        tag_attributes = trim_end_matches (\<lambda>c. c = CHR ''/'') (take i behind), tag_closing = closing\<rparr>))"

text \<open>\<open>Inr None\<close> of \<open>tag_at\<close> is a \<open><\<close> that opens no tag: the scan goes on behind it.\<close>

function next_smi_tag :: "string \<Rightarrow> nat \<Rightarrow> browser_caption_error + smi_tag option" where
  "next_smi_tag text cursor =
     (case find_str ''<'' (drop cursor text) of
        None \<Rightarrow> Inr None
      | Some n \<Rightarrow>
          (case tag_at (cursor + n) (drop (cursor + n + 1) text) of
             Inl e \<Rightarrow> Inl e
           | Inr (Some t) \<Rightarrow> Inr (Some t)
           | Inr None \<Rightarrow> next_smi_tag text (cursor + n + 1)))"
  by pat_completeness auto
termination
proof (relation "measure (\<lambda>(s, cursor). length s - cursor)")
  fix s :: string and cursor n
  assume n: "find_str ''<'' (drop cursor s) = Some n"
  have "length (drop cursor s) \<noteq> 0"
    using find_str_Some [OF n] by (metis append_is_Nil_conv length_0_conv not_Cons_self2)
  then show "((s, cursor + n + 1), (s, cursor)) \<in> measure (\<lambda>(s, cursor). length s - cursor)"
    by simp
qed simp

declare next_smi_tag.simps [simp del]

subsection \<open>The start of a synchronisation point\<close>

text \<open>One attribute: its name, its value if it has one, and what follows; \<open>None\<close> for a syntax error.\<close>

definition smi_value :: "string \<Rightarrow> (string \<times> string) option" where
  "smi_value a =
     (case a of
        c # cs \<Rightarrow>
          if is_quote c then
            Option.bind (split_once c cs) (\<lambda>(v, rest).
              if rest \<noteq> [] \<and> \<not> ascii_space (hd rest) then None else Some (v, rest))
          else Some (takeWhile (\<lambda>c. \<not> ascii_space c) a, dropWhile (\<lambda>c. \<not> ascii_space c) a)
      | [] \<Rightarrow> Some ([], []))"

definition smi_attribute :: "string \<Rightarrow> (string \<times> string option \<times> string) option" where
  "smi_attribute a =
     (let name = takeWhile (\<lambda>c. \<not> ascii_space c \<and> c \<noteq> CHR ''='') a;
          rest = dropWhile ascii_space (drop (length name) a)
      in if name = [] then None
         else case strip_prefix ''='' rest of
                None \<Rightarrow> Some (name, None, rest)
              | Some rest \<Rightarrow> map_option (\<lambda>(v, rest). (name, Some v, rest)) (smi_value (dropWhile ascii_space rest)))"

lemma drop_shrinks: "length (dropWhile P xs) \<le> length xs"
  by (rule length_dropWhile_le)

lemma smi_value_shrinks: "smi_value a = Some (v, rest) \<Longrightarrow> length rest \<le> length a"
  using drop_shrinks [of "\<lambda>c. \<not> ascii_space c" a]
  by (auto simp: smi_value_def split: list.splits if_splits Option.bind_splits dest!: split_once_SomeD)

lemma smi_attribute_shrinks:
  assumes a: "smi_attribute a = Some (name, v, rest)"
  shows "length rest < length a"
proof -
  let ?n = "takeWhile (\<lambda>c. \<not> ascii_space c \<and> c \<noteq> CHR ''='') a"
  let ?r = "dropWhile ascii_space (drop (length ?n) a)"
  have ne: "?n \<noteq> []" using a by (auto simp: smi_attribute_def Let_def split: if_splits)
  have "length ?r \<le> length a - length ?n" using drop_shrinks [of ascii_space "drop (length ?n) a"] by simp
  moreover have "0 < length ?n" "length ?n \<le> length a" using ne by (auto simp: length_takeWhile_le)
  ultimately have r: "length ?r < length a" by linarith
  consider "rest = ?r" | r' w where "strip_prefix ''='' ?r = Some r'" "smi_value (dropWhile ascii_space r') = Some (w, rest)"
    using a ne unfolding smi_attribute_def Let_def by (auto split: option.splits)
  then show ?thesis
  proof cases
    case 2
    then have "length rest \<le> length (dropWhile ascii_space r')" by (rule_tac smi_value_shrinks)
    also have "\<dots> \<le> length r'" by (rule drop_shrinks)
    also have "\<dots> \<le> length ?r" using 2(1) unfolding strip_prefix_Some by simp
    finally show ?thesis using r by simp
  qed (use r in simp)
qed

function smi_start :: "string \<Rightarrow> nat option \<Rightarrow> nat option" where
  "smi_start attributes start =
     (let a = dropWhile ascii_space attributes
      in if a = [] then start
         else case smi_attribute a of
                None \<Rightarrow> None
              | Some (name, v, rest) \<Rightarrow>
                  if eq_ignore_case name ''start'' then
                    (case v of
                       None \<Rightarrow> None
                     | Some v \<Rightarrow>
                         if start \<noteq> None then None
                         else (case ascii_number v of None \<Rightarrow> None | Some n \<Rightarrow> smi_start rest (Some n)))
                  else smi_start rest start)"
  by pat_completeness auto
termination
  by (relation "measure (length \<circ> fst)")
    (auto dest!: smi_attribute_shrinks intro: less_le_trans [OF _ length_dropWhile_le])

declare smi_start.simps [simp del]

subsection \<open>Entities and markup\<close>

definition is_hex :: "char \<Rightarrow> bool" where
  "is_hex c \<longleftrightarrow> is_digit c \<or> (65 \<le> bval c \<and> bval c \<le> 70) \<or> (97 \<le> bval c \<and> bval c \<le> 102)"

definition hex_number :: "string \<Rightarrow> nat" where
  "hex_number s = foldl (\<lambda>acc c. 16 * acc + (if is_digit c then bval c - 48 else if bval c < 97 then bval c - 55 else bval c - 87)) 0 s"

definition numeric_entity :: "string \<Rightarrow> nat option" where
  "numeric_entity e =
     (let hex = (case strip_prefix ''#x'' e of Some d \<Rightarrow> Some d | None \<Rightarrow> strip_prefix ''#X'' e)
      in case Option.bind hex (\<lambda>d. if d \<noteq> [] \<and> list_all is_hex d \<and> hex_number d \<le> u32_max then Some (hex_number d) else None) of
           Some n \<Rightarrow> Some n
         | None \<Rightarrow> Option.bind (strip_prefix ''#'' e) (\<lambda>d. Option.bind (ascii_number d) (\<lambda>n. if n \<le> u32_max then Some n else None)))"

text \<open>\<open>char::from_u32\<close>, without NUL.\<close>

definition is_scalar :: "nat \<Rightarrow> bool" where
  "is_scalar n \<longleftrightarrow> n < 0xD800 \<or> (0xE000 \<le> n \<and> n \<le> 0x10FFFF)"

definition smi_entity :: "string \<Rightarrow> string option" where
  "smi_entity e =
     (if e \<in> {''amp'', ''AMP''} then Some ''&''
      else if e \<in> {''lt'', ''LT''} then Some ''<''
      else if e \<in> {''gt'', ''GT''} then Some ''>''
      else if e = ''nbsp'' then Some nbsp
      else if e \<in> {''quot'', ''QUOT''} then Some [CHR 0x22]
      else if e = ''apos'' then Some [CHR 0x27]
      else Option.bind (numeric_entity e) (\<lambda>n. if is_scalar n \<and> n \<noteq> 0 then Some (utf8_of n) else None))"

definition entity_here :: "string \<Rightarrow> (string \<times> string) option" where
  "entity_here s =
     (if prefix ''&'' s then
        Option.bind (split_once (CHR '';'') (take 32 s)) (\<lambda>(e, _).
          map_option (\<lambda>ch. (ch, drop (length e + 1) s)) (smi_entity (tl e)))
      else None)"

lemma entity_here_shrinks: "entity_here s = Some (ch, rest) \<Longrightarrow> length rest < length s"
  by (auto simp: entity_here_def prefix_def split: if_splits Option.bind_splits)

function decode_smi_entities :: "string \<Rightarrow> string" where
  "decode_smi_entities s =
     (if s = [] then []
      else case entity_here s of
             Some (ch, rest) \<Rightarrow> ch @ decode_smi_entities rest
           | None \<Rightarrow> hd s # decode_smi_entities (tl s))"
  by pat_completeness auto
termination
  by (relation "measure length") (auto dest: entity_here_shrinks)

declare decode_smi_entities.simps [simp del]

lemma tag_at_spans: "tag_at start rest = Inr (Some t) \<Longrightarrow> tag_start t = start \<and> start < tag_end t"
  by (auto simp: tag_at_def Let_def split: option.splits if_splits)

lemma next_smi_tag_spans:
  "next_smi_tag s cursor = Inr (Some t) \<Longrightarrow> cursor \<le> tag_start t \<and> cursor < length s \<and> tag_start t < tag_end t"
proof (induction s cursor rule: next_smi_tag.induct)
  case (1 s cursor)
  obtain n where n: "find_str ''<'' (drop cursor s) = Some n"
    using "1.prems" by (subst (asm) next_smi_tag.simps) (auto split: option.splits)
  have "drop cursor s \<noteq> []" using find_str_Some [OF n] by fastforce
  then have "cursor < length s" by simp
  moreover have "cursor \<le> tag_start t \<and> tag_start t < tag_end t"
    using "1.prems" "1.IH" [OF n] n
    by (subst (asm) next_smi_tag.simps) (fastforce split: sum.splits option.splits dest: tag_at_spans)
  ultimately show ?case by blast
qed

text \<open>The text without its tags: \<open>br\<close> and a further \<open>p\<close> start a line.\<close>

definition breaks_line :: "smi_tag \<Rightarrow> string \<Rightarrow> bool" where
  "breaks_line t out \<longleftrightarrow>
     eq_ignore_case (tag_name t) ''br'' \<or> (eq_ignore_case (tag_name t) ''p'' \<and> out \<noteq> [] \<and> last out \<noteq> lf)"

function strip_tags :: "string \<Rightarrow> nat \<Rightarrow> string \<Rightarrow> browser_caption_error + string" where
  "strip_tags v cursor out =
     (case next_smi_tag v cursor of
        Inl e \<Rightarrow> Inl e
      | Inr None \<Rightarrow> Inr (out @ drop cursor v)
      | Inr (Some t) \<Rightarrow>
          let out = out @ take (tag_start t - cursor) (drop cursor v)
          in strip_tags v (tag_end t) (if breaks_line t out then out @ [lf] else out))"
  by pat_completeness auto
termination
  by (relation "measure (\<lambda>(v, cursor, out). length v - cursor)") (auto dest!: next_smi_tag_spans)

definition strip_smi_markup :: "string \<Rightarrow> browser_caption_error + string" where
  "strip_smi_markup v =
     bind_res (strip_tags v 0 []) (\<lambda>out.
       let decoded = trim (decode_smi_entities out) in Inr (if decoded = [] then [] else escape_cue_text decoded))"

subsection \<open>The conversion\<close>

record smi_state =
  sm_output :: string
  sm_previous :: "nat option"
  sm_payload :: nat

text \<open>A synchronisation point ends the cue of the one before it.\<close>

definition smi_sync :: "string \<Rightarrow> smi_tag \<Rightarrow> smi_state \<Rightarrow> browser_caption_error + smi_state" where
  "smi_sync v t st =
     bind_res (ok_or CaptionMalformed (smi_start (tag_attributes t) None)) (\<lambda>start.
     bind_res
       (case sm_previous st of
          None \<Rightarrow> Inr (sm_output st)
        | Some previous \<Rightarrow>
            if start < previous then Inl CaptionMalformed
            else bind_res (strip_smi_markup (take (tag_start t - sm_payload st) (drop (sm_payload st) v))) (\<lambda>cue.
                 if start > previous \<and> cue \<noteq> [] then append_cue (sm_output st) previous start cue else Inr (sm_output st)))
       (\<lambda>output. Inr (\<lparr>sm_output = output, sm_previous = Some start, sm_payload = tag_end t\<rparr>)))"

function smi_tags :: "string \<Rightarrow> nat \<Rightarrow> smi_state \<Rightarrow> browser_caption_error + smi_state" where
  "smi_tags v cursor st =
     (case next_smi_tag v cursor of
        Inl e \<Rightarrow> Inl e
      | Inr None \<Rightarrow> Inr st
      | Inr (Some t) \<Rightarrow>
          if tag_closing t \<or> \<not> eq_ignore_case (tag_name t) ''sync'' then smi_tags v (tag_end t) st
          else case smi_sync v t st of Inl e \<Rightarrow> Inl e | Inr st \<Rightarrow> smi_tags v (tag_end t) st)"
  by pat_completeness auto
termination
  by (relation "measure (\<lambda>(v, cursor, st). length v - cursor)") (auto dest!: next_smi_tag_spans)

declare strip_tags.simps [simp del] smi_tags.simps [simp del]

text \<open>The last text is shown for five seconds.\<close>

definition smi_to_webvtt :: "string \<Rightarrow> browser_caption_error + string" where
  "smi_to_webvtt v =
     bind_res (smi_tags v 0 \<lparr>sm_output = vtt_header, sm_previous = None, sm_payload = 0\<rparr>) (\<lambda>st.
     bind_res (ok_or CaptionMalformed (sm_previous st)) (\<lambda>start.
     bind_res (strip_smi_markup (drop (sm_payload st) v)) (\<lambda>cue.
       if cue = [] then Inr (sm_output st)
       else bind_res (ok_or CaptionMalformed (checked_add u64_max start 5000)) (\<lambda>stop.
            append_cue (sm_output st) start stop cue))))"

definition byte_order_mark :: string where
  "byte_order_mark = [CHR 0xEF, CHR 0xBB, CHR 0xBF]"

definition caption_text_of :: "string \<Rightarrow> browser_caption_error + string" where
  "caption_text_of body =
     bind_res (decode_sidecar_text body) (\<lambda>decoded.
       let plain = unify_newlines (case strip_prefix byte_order_mark decoded of Some rest \<Rightarrow> rest | None \<Rightarrow> decoded)
       in if CHR 0x00 \<in> set plain then Inl CaptionMalformed else Inr plain)"

definition caption_to_webvtt :: "webvtt_conversion \<Rightarrow> string \<Rightarrow> browser_caption_error + string" where
  "caption_to_webvtt conversion body =
     (if length body > MAX_CAPTION_INPUT then Inl CaptionMalformed
      else bind_res (caption_text_of body) (\<lambda>plain.
        case conversion of
          ValidateWebVtt \<Rightarrow> validate_webvtt plain
        | SubRipToWebVtt \<Rightarrow> srt_to_webvtt plain
        | SubStationAlphaToWebVtt \<Rightarrow> ass_to_webvtt plain
        | SamiToWebVtt \<Rightarrow> smi_to_webvtt plain))"

end
