(* ===== verification/Caption_Lines.thy ===== *)
theory Caption_Lines
  imports Caption_Convert
begin

text \<open>
  Lines and blocks of a caption text: what replacing, splitting at blank lines and trimming keep, and which
  texts can stand in a cue. A text is \<open>solid\<close> if all its lines are non-empty.
\<close>

subsection \<open>Substrings\<close>

lemma contains_append_other:
  "pat \<noteq> [] \<Longrightarrow> hd pat \<notin> set u \<Longrightarrow> str_contains pat (u @ v) = str_contains pat v"
proof (induction u)
  case (Cons x u)
  then have "\<not> prefix pat (x # u @ v)" by (cases pat) auto
  then show ?case using Cons by simp
qed simp

lemma contains_part: "str_contains pat (u @ v @ w) \<or> \<not> str_contains pat v"
proof -
  have "\<exists>x y. u @ v @ w = x @ pat @ y" if "v = a @ pat @ b" for a b
    using that by (intro exI [of _ "u @ a"] exI [of _ "b @ w"]) simp
  then show ?thesis unfolding str_contains_iff by blast
qed

lemma contains_sublist: "str_contains pat v \<Longrightarrow> str_contains pat (u @ v @ w)"
  using contains_part by blast

lemma prefix_of_append: "prefix pat (a @ b) \<Longrightarrow> length pat \<le> length a \<Longrightarrow> prefix pat a"
  by (metis prefix_length_prefix prefixI)

lemma contains_at_sep:
  "c \<notin> set pat \<Longrightarrow> str_contains pat (u @ c # v) \<longleftrightarrow> str_contains pat u \<or> str_contains pat v"
proof (induction u)
  case Nil
  show ?case
  proof (cases "pat = []")
    case True
    then show ?thesis by (cases v) simp_all
  next
    case False
    then have "\<not> prefix pat (c # v)" using Nil by (cases pat) auto
    then show ?thesis using False by simp
  qed
next
  case (Cons x u)
  have "prefix pat ((x # u) @ c # v) \<Longrightarrow> prefix pat (x # u)"
  proof -
    assume "prefix pat ((x # u) @ c # v)"
    then obtain w where w: "(x # u) @ c # v = pat @ w" by (auto simp: prefix_def)
    have "length pat \<le> length (x # u)"
    proof (rule ccontr)
      assume "\<not> length pat \<le> length (x # u)"
      then have "pat ! length (x # u) = ((x # u) @ c # v) ! length (x # u)" unfolding w by (simp add: nth_append)
      then have "pat ! length (x # u) = c" by (simp only: nth_append_length)
      moreover have "length (x # u) < length pat" using \<open>\<not> length pat \<le> length (x # u)\<close> by linarith
    ultimately have "c \<in> set pat" using nth_mem by metis
    then show False using Cons.prems by blast
    qed
    then show ?thesis using w by (metis prefixI prefix_length_prefix)
  qed
  moreover have "prefix pat (x # u) \<Longrightarrow> prefix pat ((x # u) @ c # v)" by (rule prefix_prefix)
  ultimately show ?case using Cons by auto
qed

lemma split_once_str_first: "split_once_str pat s = Some (a, b) \<Longrightarrow> pat \<noteq> [] \<Longrightarrow> \<not> str_contains pat a"
proof (induction s arbitrary: a)
  case Nil
  then show ?case by (simp add: split_once_str.simps [of pat "[]"] split: if_splits)
next
  case (Cons c cs)
  show ?case
  proof (cases "prefix pat (c # cs)")
    case True
    then show ?thesis using Cons.prems by (simp add: split_once_str.simps [of pat "c # cs"])
  next
    case False
    then obtain a' where a': "a = c # a'" "split_once_str pat cs = Some (a', b)"
      using Cons.prems(1) by (auto simp: split_once_str.simps [of pat "c # cs"])
    then have "cs = a' @ pat @ b" using split_once_str_SomeD by blast
    then have "\<not> prefix pat (c # a')" using False by (metis append_Cons prefix_prefix)
    then show ?thesis using Cons.IH [OF a'(2) Cons.prems(2)] by (simp add: a'(1))
  qed
qed

lemma split_str_None: "pat \<noteq> [] \<Longrightarrow> split_once_str pat s = None \<Longrightarrow> split_str pat s = [s]"
  by (subst split_str.simps) simp

lemma split_str_Some: "pat \<noteq> [] \<Longrightarrow> split_once_str pat s = Some (a, b) \<Longrightarrow> split_str pat s = a # split_str pat b"
  by (subst split_str.simps) simp

lemma split_once_here: "prefix pat s \<Longrightarrow> split_once_str pat s = Some ([], drop (length pat) s)"
  by (subst split_once_str.simps) simp

lemma split_once_later:
  "\<not> prefix pat (c # cs) \<Longrightarrow> split_once_str pat (c # cs) = map_option (\<lambda>(a, b). (c # a, b)) (split_once_str pat cs)"
  by (subst split_once_str.simps) simp

lemma split_str_pieces: "pat \<noteq> [] \<Longrightarrow> b \<in> set (split_str pat s) \<Longrightarrow> \<not> str_contains pat b \<and> set b \<subseteq> set s"
proof (induction pat s rule: split_str.induct)
  case (1 pat s)
  show ?case
  proof (cases "split_once_str pat s")
    case None
    then have "b = s" using 1(2,3) by (simp add: split_str_None)
    then show ?thesis using None by (simp add: split_once_str_None)
  next
    case (Some p)
    obtain x y where p: "p = (x, y)" by force
    have s: "s = x @ pat @ y" using Some p split_once_str_SomeD by blast
    have "b = x \<or> b \<in> set (split_str pat y)" using 1(2,3) Some p by (simp add: split_str_Some)
    then show ?thesis
    proof
      assume "b = x"
      then show ?thesis using split_once_str_first [OF Some [unfolded p] 1(2)] s by auto
    next
      assume "b \<in> set (split_str pat y)"
      then have "\<not> str_contains pat b \<and> set b \<subseteq> set y" using "1.IH" [of p x y] 1(2) Some p by blast
      then show ?thesis using s by auto
    qed
  qed
qed

lemma split_once_str_here:
  "\<not> str_contains pat (x @ butlast pat) \<Longrightarrow> pat \<noteq> [] \<Longrightarrow> split_once_str pat (x @ pat @ y) = Some (x, y)"
proof (induction x)
  case Nil
  then show ?case by (subst split_once_str.simps) simp
next
  case (Cons c x)
  have no: "\<not> prefix pat (c # x @ butlast pat)" using Cons.prems(1) by simp
  have "\<not> prefix pat (c # x @ pat @ y)"
  proof
    assume "prefix pat (c # x @ pat @ y)"
    moreover have "c # x @ pat @ y = (c # x @ butlast pat) @ last pat # y"
      using append_butlast_last_id [OF Cons.prems(2)] by (metis append.assoc append_Cons append_Nil)
    ultimately have "prefix pat ((c # x @ butlast pat) @ last pat # y)" by (simp only:)
    then have "prefix pat (c # x @ butlast pat)" by (rule prefix_of_append) simp
    then show False using no by blast
  qed
  then show ?case using Cons by (subst split_once_str.simps) simp
qed

subsection \<open>Replacing\<close>

lemma replace_step:
  assumes "pat \<noteq> []"
  shows "str_replace pat rep s =
    (if prefix pat s then rep @ str_replace pat rep (drop (length pat) s)
     else case s of [] \<Rightarrow> [] | c # cs \<Rightarrow> c # str_replace pat rep cs)"
proof (cases "prefix pat s")
  case True
  then have "split_str pat s = [] # split_str pat (drop (length pat) s)"
    by (intro split_str_Some [OF assms] split_once_here)
  then show ?thesis using True by (simp add: str_replace_def join_cons)
next
  case False
  show ?thesis
  proof (cases s)
    case Nil
    have "split_once_str pat [] = None" using assms by (subst split_once_str.simps) simp
    then show ?thesis using Nil False by (simp add: str_replace_def split_str_None [OF assms])
  next
    case (Cons c cs)
    note later = split_once_later [OF False [unfolded Cons]]
    show ?thesis
    proof (cases "split_once_str pat cs")
      case None
      then have "split_str pat s = [s]" "split_str pat cs = [cs]"
        by (intro split_str_None [OF assms], simp add: Cons later)+
      then show ?thesis using False Cons by (simp add: str_replace_def)
    next
      case (Some p)
      obtain a b where p: "p = (a, b)" by force
      have "split_str pat cs = a # split_str pat b" using Some p by (intro split_str_Some [OF assms]) simp
      moreover have "split_str pat s = (c # a) # split_str pat b"
        using Some p by (intro split_str_Some [OF assms]) (simp add: Cons later)
      ultimately show ?thesis using False Cons by (simp add: str_replace_def join_cons)
    qed
  qed
qed

lemma set_replace: "pat \<noteq> [] \<Longrightarrow> set (str_replace pat rep s) \<subseteq> set rep \<union> set s"
  unfolding str_replace_def using set_join [of rep "split_str pat s"] split_str_pieces [of pat _ s] by fast

lemma replace_length: "pat \<noteq> [] \<Longrightarrow> length rep \<le> length pat \<Longrightarrow> length (str_replace pat rep s) \<le> length s"
proof (induction s rule: length_induct)
  case (1 s)
  show ?case
  proof (cases "prefix pat s")
    case True
    then have l: "length s = length pat + length (drop (length pat) s)" by (auto simp: prefix_def)
    have "0 < length pat" using 1(2) by simp
    then have "length (drop (length pat) s) < length s" using l by linarith
    then have "length (str_replace pat rep (drop (length pat) s)) \<le> length (drop (length pat) s)"
      using 1(1) [rule_format, OF _ 1(2,3)] by blast
    then have "length rep + length (str_replace pat rep (drop (length pat) s)) \<le> length s"
      using l 1(3) by linarith
    then show ?thesis unfolding replace_step [OF 1(2), of rep s] if_P [OF True] by (simp only: length_append)
  next
    case False
    then show ?thesis using 1(1) [rule_format, OF _ 1(2,3)]
      unfolding replace_step [OF 1(2), of rep s] if_not_P [OF False] by (cases s) simp_all
  qed
qed

lemma replace_char_gone: "c \<notin> set rep \<Longrightarrow> c \<notin> set (str_replace [c] rep s)"
proof (induction s)
  case Nil
  then show ?case by (subst replace_step) simp_all
next
  case (Cons x s)
  then show ?case by (subst replace_step) auto
qed

lemma no_cr_unified: "cr \<notin> set (unify_newlines s)"
  unfolding unify_newlines_def by (rule replace_char_gone) (simp add: cr_def lf_def)

lemma unified_length: "length (unify_newlines s) \<le> length s"
  unfolding unify_newlines_def
  by (rule order_trans [OF replace_length replace_length]) simp_all

subsection \<open>Solid texts\<close>

definition solid :: "string \<Rightarrow> bool" where
  "solid s \<longleftrightarrow> (\<forall>l\<in>set (split_on lf s). l \<noteq> [])"

lemma split_on_at: "split_on c (a @ c # b) = split_on c a @ split_on c b"
proof (induction a)
  case (Cons x a)
  then show ?case using split_on_ne [of c a] by (cases "split_on c a") auto
qed simp

lemma solid_nonempty: "solid s \<Longrightarrow> s \<noteq> []"
  by (auto simp: solid_def)

lemma solid_append: "solid a \<Longrightarrow> solid b \<Longrightarrow> solid (a @ [lf] @ b)"
  by (auto simp: solid_def split_on_at)

lemma solid_line: "lf \<notin> set l \<Longrightarrow> l \<noteq> [] \<Longrightarrow> solid l"
  by (simp add: solid_def split_on_no_sep)

lemma solid_join:
  "ls \<noteq> [] \<Longrightarrow> (\<forall>l\<in>set ls. l \<noteq> [] \<and> lf \<notin> set l) \<Longrightarrow> solid (join [lf] ls)"
proof (induction ls rule: list_nonempty_induct)
  case (single l)
  then show ?case by (simp add: solid_line)
next
  case (cons l ls)
  have "solid (l @ [lf] @ join [lf] ls)" by (rule solid_append [OF solid_line cons.IH]) (use cons.prems in auto)
  then show ?case unfolding join_cons [OF cons.hyps(1)] .
qed

lemma solid_ends:
  assumes "solid s"
  shows "hd s \<noteq> lf" "last s \<noteq> lf"
proof -
  obtain c cs where s: "s = c # cs" using solid_nonempty [OF assms] by (cases s) auto
  show "hd s \<noteq> lf" using assms s by (auto simp: solid_def)
  show "last s \<noteq> lf"
  proof
    assume "last s = lf"
    then have "s = butlast s @ lf # []" using append_butlast_last_id [OF solid_nonempty [OF assms]] by simp
    then have "split_on lf s = split_on lf (butlast s) @ [[]]" using split_on_at [of lf "butlast s" "[]"] by simp
    then show False using assms by (auto simp: solid_def)
  qed
qed

lemma solid_no_blank:
  assumes "solid s"
  shows "\<not> str_contains blank_line s"
proof
  assume "str_contains blank_line s"
  then obtain a b where "s = a @ lf # lf # b" by (auto simp: str_contains_iff blank_line_def)
  then have "split_on lf s = split_on lf a @ [] # split_on lf b"
    using split_on_at [of lf a "lf # b"] by simp
  then show False using assms by (auto simp: solid_def)
qed

lemma solid_by_ends:
  "s \<noteq> [] \<Longrightarrow> hd s \<noteq> lf \<Longrightarrow> last s \<noteq> lf \<Longrightarrow> \<not> str_contains blank_line s \<Longrightarrow> solid s"
proof (induction s rule: length_induct)
  case (1 s)
  show ?case
  proof (cases "lf \<in> set s")
    case False
    then show ?thesis using 1(2) by (rule solid_line)
  next
    case True
    then obtain a b where s: "s = a @ lf # b" "lf \<notin> set a" using split_list_first by metis
    have a: "a \<noteq> []" using s 1(3) by (cases a) auto
    have b: "b \<noteq> []" using s 1(4) by auto
    have "hd b \<noteq> lf"
    proof
      assume "hd b = lf"
      then obtain b' where "b = lf # b'" using b by (cases b) auto
      then have "s = a @ blank_line @ b'" by (simp add: s blank_line_def)
      then show False using 1(5) unfolding str_contains_iff by blast
    qed
    moreover have "last b \<noteq> lf" using 1(4) b s by simp
    moreover have "\<not> str_contains blank_line b"
      using 1(5) contains_sublist [of blank_line b "a @ [lf]" "[]"] s by auto
    moreover have "length b < length s" by (simp add: s)
    ultimately have "solid b" using 1(1) b by blast
    then show ?thesis using solid_append [OF solid_line [OF s(2) a]] s(1) by simp
  qed
qed

lemma solid_no_blank_after: "solid s \<Longrightarrow> \<not> str_contains blank_line (s @ butlast blank_line)"
proof
  assume s: "solid s" "str_contains blank_line (s @ butlast blank_line)"
  then obtain a b where ab: "s @ [lf] = a @ lf # lf # b" by (auto simp: str_contains_iff blank_line_def)
  show False
  proof (cases b rule: rev_cases)
    case Nil
    then have "s = a @ [lf]" using ab by simp
    then show False using solid_ends(2) [OF s(1)] by simp
  next
    case (snoc b' x)
    then have "s = a @ blank_line @ b'" using ab by (simp add: blank_line_def)
    then show False using solid_no_blank [OF s(1)] unfolding str_contains_iff by blast
  qed
qed

text \<open>A block of a split text, without the line feeds around it.\<close>

lemma solid_block:
  assumes "b \<in> set (split_str blank_line s)" "trim b \<noteq> []"
  shows "solid (trim_matches (\<lambda>c. c = lf) b)" "set (trim_matches (\<lambda>c. c = lf) b) \<subseteq> set s"
proof -
  let ?t = "trim_matches (\<lambda>c. c = lf) b"
  have b: "\<not> str_contains blank_line b" "set b \<subseteq> set s"
    using split_str_pieces [OF _ assms(1)] by (simp_all add: blank_line_def)
  show "set ?t \<subseteq> set s" using b(2) set_trim_matches by blast
  obtain u v where uv: "b = u @ ?t @ v" "\<forall>c\<in>set u. c = lf" "\<forall>c\<in>set v. c = lf"
    by (rule trim_matches_cases [of b "\<lambda>c. c = lf"])
  have "?t \<noteq> []"
  proof
    assume "?t = []"
    then have "b = u @ v" using uv(1) by simp
    then have "\<forall>c\<in>set b. c = lf" using uv(2,3) by auto
    then have "b = replicate (length b) lf" by (simp add: replicate_length_same)
    moreover have "length b < 2"
    proof (rule ccontr)
      assume "\<not> length b < 2"
      then obtain n where "length b = Suc (Suc n)" by (metis less_2_cases_iff not_less_eq old.nat.exhaust)
      then have "b = [] @ blank_line @ replicate n lf"
        using \<open>b = replicate (length b) lf\<close> by (simp add: blank_line_def)
      then show False using b(1) unfolding str_contains_iff by blast
    qed
    ultimately have "b = [] \<or> b = [lf]" by (metis One_nat_def less_2_cases replicate_0 replicate_Suc)
    moreover have "trim [lf] = []" by code_simp
    ultimately show False using assms(2) by auto
  qed
  moreover have "\<not> str_contains blank_line ?t"
    using b(1) contains_sublist [of blank_line ?t u v] uv(1) by auto
  ultimately show "solid ?t"
    using trim_matches_hd [of "\<lambda>c. c = lf" b] trim_matches_last [of "\<lambda>c. c = lf" b] by (intro solid_by_ends) auto
qed

lemma solid_trim: "solid s \<Longrightarrow> trim_matches (\<lambda>c. c = lf) s = s"
  using solid_ends [of s] by (intro trim_matches_id) simp

lemma strip_cr_none: "cr \<notin> set l \<Longrightarrow> strip_cr l = l"
  unfolding strip_cr_def using last_in_set [of l] by (metis (full_types))

lemma split_on_subset: "l \<in> set (split_on c s) \<Longrightarrow> set l \<subseteq> set s"
proof (induction s arbitrary: l)
  case (Cons x s)
  obtain a ls where a: "split_on c s = a # ls" using split_on_ne [of c s] by (cases "split_on c s") auto
  then have "set a \<subseteq> set s" "\<And>l. l \<in> set ls \<Longrightarrow> set l \<subseteq> set s" using Cons.IH by simp_all
  then show ?case using Cons.prems a by (auto split: if_splits)
qed simp

lemma solid_lines:
  assumes "solid s" "cr \<notin> set s"
  shows "text_lines s = split_on lf s"
proof -
  let ?ls = "split_on lf s"
  have "strip_cr l = l" if "l \<in> set (butlast ?ls)" for l
    using split_on_subset [OF in_set_butlastD [OF that]] assms(2) by (intro strip_cr_none) fast
  then have "map strip_cr (butlast ?ls) = butlast ?ls" by (intro map_idI)
  moreover have "last ?ls \<noteq> []" using assms(1) last_in_set [OF split_on_ne] by (auto simp: solid_def)
  ultimately show ?thesis unfolding text_lines_def Let_def by simp
qed

subsection \<open>Arrows\<close>

lemma arrow_step:
  "escape_arrows s =
    (if prefix ''-->'' s then ''--&gt;'' @ escape_arrows (drop 3 s) else case s of [] \<Rightarrow> [] | c # cs \<Rightarrow> c # escape_arrows cs)"
  unfolding escape_arrows_def by (subst replace_step) (simp_all add: numeral_3_eq_3)

lemma arrow_Nil [simp]: "escape_arrows [] = []"
  by (subst arrow_step) simp

lemma arrow_skip: "\<not> prefix ''-->'' (c # cs) \<Longrightarrow> escape_arrows (c # cs) = c # escape_arrows cs"
  by (subst arrow_step, subst if_not_P, assumption, simp only: list.case)

lemma escape_arrows_empty: "escape_arrows s = [] \<longleftrightarrow> s = []"
  by (subst arrow_step) (auto split: list.split)

lemma set_escape_arrows: "set (escape_arrows s) \<subseteq> set ''&gt;-'' \<union> set s"
  unfolding escape_arrows_def using set_replace [of "''-->''" "''--&gt;''" s] by auto

lemma arrow_head:
  "prefix ''>'' (escape_arrows s) \<Longrightarrow> prefix ''>'' s"
  "prefix ''->'' (escape_arrows s) \<Longrightarrow> prefix ''->'' s"
proof -
  show head: "prefix ''>'' s" if "prefix ''>'' (escape_arrows s)" for s
    using that by (subst (asm) arrow_step) (auto split: if_splits list.splits)
  show "prefix ''->'' s" if p: "prefix ''->'' (escape_arrows s)"
  proof (cases "prefix ''-->'' s")
    case True
    then show ?thesis using p by (subst (asm) arrow_step) simp
  next
    case False
    then obtain cs where s: "s = CHR ''-'' # cs" "prefix ''>'' (escape_arrows cs)"
      using p by (subst (asm) arrow_step) (auto split: list.splits)
    then show ?thesis using head [of cs] by simp
  qed
qed

lemma no_arrow_escaped: "\<not> has_arrow (escape_arrows s)"
proof (induction s rule: length_induct)
  case (1 s)
  show ?case
  proof (cases "prefix ''-->'' s")
    case True
    then have "length (drop 3 s) < length s" by (auto simp: prefix_def)
    then have "\<not> has_arrow (escape_arrows (drop 3 s))" using 1 by blast
    then show ?thesis using True unfolding has_arrow_def by (subst arrow_step) simp
  next
    case False
    show ?thesis
    proof (cases s)
      case Nil
      then show ?thesis by (subst arrow_step) (simp add: has_arrow_def)
    next
      case (Cons c cs)
      have "escape_arrows s = c # escape_arrows cs" using False unfolding Cons by (rule arrow_skip)
      moreover have "\<not> has_arrow (escape_arrows cs)" using 1 Cons by simp
      moreover have "\<not> prefix ''-->'' (c # escape_arrows cs)"
        using False Cons arrow_head(2) [of cs] by auto
      ultimately show ?thesis by (simp add: has_arrow_def)
    qed
  qed
qed

lemma split_escape_arrows: "split_on lf (escape_arrows s) = map escape_arrows (split_on lf s)"
proof (induction s rule: length_induct)
  case (1 s)
  show ?case
  proof (cases "prefix ''-->'' s")
    case True
    then obtain t where s: "s = ''-->'' @ t" by (auto simp: prefix_def)
    have e: "escape_arrows (''-->'' @ u) = ''--&gt;'' @ escape_arrows u" for u by (subst arrow_step) simp
    obtain l ls where l: "split_on lf t = l # ls" using split_on_ne [of lf t] by (cases "split_on lf t") auto
    have f: "split_on lf (p @ u) = (p @ hd (split_on lf u)) # tl (split_on lf u)" if "lf \<notin> set p" for p u
      using that split_on_ne [of lf u] by (induction p) (auto split: list.split)
    have "split_on lf (escape_arrows t) = map escape_arrows (split_on lf t)" using 1 s by simp
    then show ?thesis using f [of "''--&gt;''" "escape_arrows t"] f [of "''-->''" t] l e by (simp add: s lf_def)
  next
    case False
    show ?thesis
    proof (cases s)
      case Nil
      then show ?thesis by simp
    next
      case (Cons c cs)
      have e: "escape_arrows s = c # escape_arrows cs" using False unfolding Cons by (rule arrow_skip)
      have ih: "split_on lf (escape_arrows cs) = map escape_arrows (split_on lf cs)" using 1 Cons by simp
      obtain l ls where l: "split_on lf cs = l # ls" using split_on_ne [of lf cs] by (cases "split_on lf cs") auto
      show ?thesis
      proof (cases "c = lf")
        case True
        then show ?thesis unfolding e unfolding Cons by (simp add: ih)
      next
        case other: False
        have "join [lf] (l # ls) = cs" using l join_split_on [of lf cs] by simp
        then have "prefix l cs" by (cases ls) auto
        then have "\<not> prefix ''-->'' (c # l)" using False Cons by (metis Cons_prefix_Cons prefix_order.trans)
        then have "escape_arrows (c # l) = c # escape_arrows l" by (rule arrow_skip)
        then show ?thesis unfolding e unfolding Cons using other by (simp add: ih l)
      qed
    qed
  qed
qed

lemma solid_escaped: "solid s \<Longrightarrow> solid (escape_arrows s)"
  by (auto simp: solid_def split_escape_arrows escape_arrows_empty)

lemma no_cr_escaped: "cr \<notin> set s \<Longrightarrow> cr \<notin> set (escape_arrows s)"
  using set_escape_arrows [of s] by (auto simp: cr_def)

lemma arrow_at_lf: "has_arrow (a @ lf # b) \<longleftrightarrow> has_arrow a \<or> has_arrow b"
  unfolding has_arrow_def by (rule contains_at_sep) (simp add: lf_def)

lemma arrow_lines: "\<not> has_arrow s \<Longrightarrow> l \<in> set (split_on lf s) \<Longrightarrow> \<not> has_arrow l"
proof (induction s arbitrary: l rule: length_induct)
  case (1 s)
  show ?case
  proof (cases "lf \<in> set s")
    case False
    then show ?thesis using 1(2,3) by (simp add: split_on_no_sep)
  next
    case True
    then obtain a b where s: "s = a @ lf # b" "lf \<notin> set a" using split_list_first by metis
    then have l: "l = a \<or> l \<in> set (split_on lf b)" using 1(3) by (simp add: split_on_append)
    have no: "\<not> has_arrow a" "\<not> has_arrow b" using 1(2) s(1) by (auto simp: arrow_at_lf)
    have "length b < length s" by (simp add: s(1))
    then have "l \<in> set (split_on lf b) \<Longrightarrow> \<not> has_arrow l" using 1(1) no(2) by blast
    then show ?thesis using l no(1) by blast
  qed
qed

end
