(* ===== verification/Caption_Valid.thy ===== *)
theory Caption_Valid
  imports Caption_Lines
begin

text \<open>
  What a converted caption is: a WebVTT document of cues with positive times whose text can neither end its
  cue nor start another one, and which the program's own validator accepts.
\<close>

subsection \<open>Times\<close>

lemma ascii_number_padded: "n \<le> u64_max \<Longrightarrow> ascii_number (zero_pad w (decimal n)) = Some n"
proof -
  assume n: "n \<le> u64_max"
  have "zero_pad w (decimal n) \<noteq> []" by (simp add: zero_pad_def)
  moreover have "all_digits (zero_pad w (decimal n))" by (simp add: all_digits_zero_pad)
  ultimately show ?thesis using n by (simp add: ascii_number_def parse_uint_digits digits_value_zero_pad)
qed

lemma two_digits_padded: "n < 100 \<Longrightarrow> two_digits (zero_pad 2 (decimal n)) = Some n"
  using length_decimal_less [of n 2] ascii_number_padded [of n 2]
  by (simp add: two_digits_def length_zero_pad max_def u64_max_def)

definition clock_char :: "char \<Rightarrow> bool" where
  "clock_char c \<longleftrightarrow> is_digit c \<or> c = CHR '':'' \<or> c = CHR ''.''"

lemma padded_digits: "c \<in> set (zero_pad w (decimal n)) \<Longrightarrow> is_digit c"
  using all_digits_zero_pad [OF all_digits_decimal, of w n] by (auto simp: all_digits_def)

lemma padded_free: "\<not> is_digit c \<Longrightarrow> c \<notin> set (zero_pad w (decimal n))"
  using padded_digits by blast

lemma millis_chars: "c \<in> set (millis_vtt t) \<Longrightarrow> clock_char c"
  by (auto simp: millis_vtt_def clock_char_def dest: padded_digits)

lemma millis_ne: "millis_vtt t \<noteq> []" "is_digit (hd (millis_vtt t))" "is_digit (last (millis_vtt t))"
proof -
  have ne: "zero_pad w (decimal n) \<noteq> []" for w n by (simp add: zero_pad_def)
  show "millis_vtt t \<noteq> []" by (simp add: millis_vtt_def)
  show "is_digit (hd (millis_vtt t))"
    using padded_digits [OF hd_in_set [OF ne]] by (simp add: millis_vtt_def ne hd_append)
  show "is_digit (last (millis_vtt t))"
    using padded_digits [OF last_in_set [OF ne]] by (simp add: millis_vtt_def ne)
qed

text \<open>A rendered time is read back.\<close>

lemma parse_millis:
  assumes "t \<le> u64_max"
  shows "parse_caption_time (millis_vtt t) subrip = Some t"
proof -
  let ?h = "t div 3600000" and ?m = "t div 60000 mod 60" and ?s = "t div 1000 mod 60" and ?f = "t mod 1000"
  let ?sec = "zero_pad 2 (decimal ?s) @ ''.'' @ zero_pad 3 (decimal ?f)"
  have colon: "CHR '':'' \<notin> set (zero_pad w (decimal n))" "CHR ''.'' \<notin> set (zero_pad w (decimal n))" for w n
    by (rule padded_free, simp add: is_digit_def)+
  have "split_on (CHR '':'') (millis_vtt t) = [zero_pad 2 (decimal ?h), zero_pad 2 (decimal ?m), ?sec]"
    by (simp add: millis_vtt_def split_on_append split_on_no_sep colon)
  moreover have "split_once (CHR ''.'') ?sec = Some (zero_pad 2 (decimal ?s), zero_pad 3 (decimal ?f))"
    by (simp add: split_once_append colon)
  moreover have "length (zero_pad 3 (decimal ?f)) = 3"
    using length_decimal_less [of ?f 3] by (simp add: length_zero_pad)
  moreover have "2 \<le> length (zero_pad 2 (decimal ?h))" by (simp add: length_zero_pad)
  moreover have "ascii_number (zero_pad 2 (decimal ?h)) = Some ?h" "ascii_number (zero_pad 3 (decimal ?f)) = Some ?f"
    using assms by (intro ascii_number_padded, simp add: u64_max_def)+
  moreover have "two_digits (zero_pad 2 (decimal ?m)) = Some ?m" "two_digits (zero_pad 2 (decimal ?s)) = Some ?s"
    by (intro two_digits_padded, simp)+
  moreover have "clock_millis ?h ?m ?s ?f = Some t"
  proof -
    have sum: "?h * 3600000 + ?m * 60000 + ?s * 1000 + ?f = t"
    proof -
      have a: "t div 60000 = t div 1000 div 60" "?h = t div 60000 div 60"
        using div_mult2_eq [of t 1000 60] div_mult2_eq [of t 60000 60] by simp_all
      have "t div 60000 = ?h * 60 + ?m" unfolding a(2) by (rule div_mult_mod_eq [symmetric])
      moreover have "t div 1000 = t div 60000 * 60 + ?s" unfolding a(1) by (rule div_mult_mod_eq [symmetric])
      moreover have "t = t div 1000 * 1000 + ?f" by (rule div_mult_mod_eq [symmetric])
      ultimately show ?thesis by linarith
    qed
    have le: "?h * 3600000 \<le> t" "?m * 60000 \<le> t" "?s * 1000 \<le> t" "?h * 3600000 + ?m * 60000 \<le> t"
      "?h * 3600000 + ?m * 60000 + ?s * 1000 \<le> t"
      using sum by linarith+
    then show ?thesis using sum assms by (simp add: clock_millis_def checked_mul_def checked_add_def)
  qed
  moreover have "\<not> 59 < ?s" "\<not> 59 < ?m" using mod_less_divisor [of 60] by (simp_all add: not_less less_Suc_eq_le [symmetric])
  ultimately show ?thesis by (simp add: parse_caption_time_def)
qed

subsection \<open>Timing lines\<close>

lemma clock_char_not: "clock_char c \<Longrightarrow> c \<noteq> CHR ''-'' \<and> \<not> is_blank c \<and> c \<noteq> lf \<and> c \<noteq> cr"
  by (auto simp: clock_char_def is_digit_def is_blank_def lf_def cr_def)

lemma millis_free: "CHR ''-'' \<notin> set (millis_vtt t)" "\<forall>c\<in>set (millis_vtt t). \<not> is_blank c" "lf \<notin> set (millis_vtt t)" "cr \<notin> set (millis_vtt t)"
  using millis_chars clock_char_not by blast+

lemma millis_no_arrow: "has_arrow (millis_vtt t @ s) = has_arrow s"
  unfolding has_arrow_def by (rule contains_append_other) (simp_all add: millis_free)

definition settings_ok :: "string \<Rightarrow> bool" where
  "settings_ok s \<longleftrightarrow> (s = [] \<or> is_blank (hd s)) \<and> \<not> has_arrow s"

definition rendered_timing :: "nat \<Rightarrow> nat \<Rightarrow> string \<Rightarrow> string" where
  "rendered_timing a b settings = millis_vtt a @ '' --> '' @ millis_vtt b @ settings"

lemma takeWhile_settings:
  assumes "settings_ok s"
  shows "takeWhile (\<lambda>c. \<not> is_blank c) (millis_vtt b @ s) = millis_vtt b"
proof -
  have "takeWhile (\<lambda>c. \<not> is_blank c) s = []" using assms by (cases s) (auto simp: settings_ok_def)
  then show ?thesis using millis_free(2) [of b] by (simp add: takeWhile_append)
qed

text \<open>A timing line that a converter writes is read back.\<close>

lemma rendered_timing_read:
  assumes "a \<le> u64_max" "b \<le> u64_max" "settings_ok s"
  shows "caption_timing (rendered_timing a b s) subrip = Inr (a, b, s)"
proof -
  let ?start = "millis_vtt a @ '' ''" and ?rest = "'' '' @ millis_vtt b @ s"
  have "\<not> str_contains ''-->'' (?start @ butlast ''-->'')"
  proof -
    have "str_contains ''-->'' (millis_vtt a @ '' --'') = str_contains ''-->'' '' --''"
      by (rule contains_append_other) (simp_all add: millis_free)
    then show ?thesis by simp
  qed
  then have split: "split_once_str ''-->'' (?start @ ''-->'' @ ?rest) = Some (?start, ?rest)"
    by (rule split_once_str_here) simp
  have line: "rendered_timing a b s = ?start @ ''-->'' @ ?rest" by (simp add: rendered_timing_def)
  have blank: "is_blank (CHR '' '')" by (simp add: is_blank_def)
  have no: "\<not> has_arrow ?rest"
    using millis_no_arrow [of b s] assms(3) by (simp add: has_arrow_def settings_ok_def)
  have digit: "\<not> is_blank c" if "is_digit c" for c using that by (auto simp: is_digit_def is_blank_def)
  have trim: "trim_matches is_blank ?start = millis_vtt a"
  proof -
    have "dropWhile is_blank (millis_vtt a @ '' '') = millis_vtt a @ '' ''"
      using millis_ne [of a] digit by (cases "millis_vtt a") auto
    moreover have "dropWhile is_blank (CHR '' '' # rev (millis_vtt a)) = rev (millis_vtt a)"
      using millis_ne [of a] digit blank by (cases "millis_vtt a" rule: rev_cases) auto
    ultimately show ?thesis by (simp add: trim_matches_def)
  qed
  have drop: "trim_start_matches is_blank ?rest = millis_vtt b @ s"
    using millis_ne [of b] digit blank by (cases "millis_vtt b") (auto simp: trim_start_matches_def)
  show ?thesis
    unfolding caption_timing_def line split option.case prod.case Let_def drop takeWhile_settings [OF assms(3)] trim
    using no blank parse_millis [OF assms(1)] parse_millis [OF assms(2)] by simp
qed

text \<open>What a timing line holds, and the bounds of its times.\<close>

lemma parse_time_bound: "parse_caption_time v subrip = Some t \<Longrightarrow> t \<le> u64_max"
  by (auto simp: parse_caption_time_def clock_millis_def checked_add_def split: list.splits Option.bind_splits if_splits)

lemma caption_timing_parts:
  assumes "caption_timing line subrip = Inr (a, b, s)"
  shows "a \<le> u64_max" "b \<le> u64_max" "settings_ok s" "set s \<subseteq> set line"
proof -
  obtain start rest where split: "split_once_str ''-->'' line = Some (start, rest)"
    using assms by (auto simp: caption_timing_def split: option.splits)
  let ?r = "trim_start_matches is_blank rest"
  let ?stop = "takeWhile (\<lambda>c. \<not> is_blank c) ?r"
  have parts: "\<not> has_arrow rest" "parse_caption_time (trim_matches is_blank start) subrip = Some a"
      "parse_caption_time ?stop subrip = Some b" "s = drop (length ?stop) ?r"
    using assms split by (auto simp: caption_timing_def Let_def split: if_splits option.splits)
  show "a \<le> u64_max" "b \<le> u64_max" using parts(2,3) parse_time_bound by blast+
  have s: "s = dropWhile (\<lambda>c. \<not> is_blank c) ?r" unfolding parts(4) by (simp add: dropWhile_eq_drop)
  obtain u where u: "rest = u @ s"
    unfolding s trim_start_matches_def by (metis append.assoc takeWhile_dropWhile_id)
  have "s = [] \<or> is_blank (hd s)" using s hd_dropWhile [of "\<lambda>c. \<not> is_blank c" ?r] by auto
  moreover have "\<not> has_arrow s" using parts(1) u contains_sublist [of "''-->''" s u "[]"] by (auto simp: has_arrow_def)
  ultimately show "settings_ok s" by (simp add: settings_ok_def)
  have "line = start @ ''-->'' @ rest" using split split_once_str_SomeD by blast
  then show "set s \<subseteq> set line" using u by auto
qed

subsection \<open>Documents\<close>

definition cue_text :: "string \<times> string \<Rightarrow> string" where
  "cue_text c = fst c @ [lf] @ snd c"

definition cue_document :: "(string \<times> string) list \<Rightarrow> string" where
  "cue_document cues = vtt_header @ concat (map (\<lambda>c. cue_text c @ blank_line) cues)"

text \<open>A timing line with a positive time, and a text that stays within its cue.\<close>

definition timing_ok :: "string \<Rightarrow> bool" where
  "timing_ok t \<longleftrightarrow>
     (\<exists>a b s. t = rendered_timing a b s \<and> a < b \<and> b \<le> u64_max \<and> settings_ok s \<and> lf \<notin> set s \<and> cr \<notin> set s)"

definition payload_ok :: "string \<Rightarrow> bool" where
  "payload_ok p \<longleftrightarrow> solid p \<and> \<not> has_arrow p \<and> cr \<notin> set p"

definition cue_ok :: "string \<times> string \<Rightarrow> bool" where
  "cue_ok c \<longleftrightarrow> timing_ok (fst c) \<and> payload_ok (snd c)"

lemma timing_ok_facts:
  assumes "timing_ok t"
  shows "t \<noteq> []" "is_digit (hd t)" "lf \<notin> set t" "cr \<notin> set t" "has_arrow t"
    "\<exists>a b s. caption_timing t False = Inr (a, b, s) \<and> a < b"
proof -
  obtain a b s where t: "t = rendered_timing a b s" "a < b" "b \<le> u64_max" "settings_ok s" "lf \<notin> set s" "cr \<notin> set s"
    using assms by (auto simp: timing_ok_def)
  show "t \<noteq> []" "is_digit (hd t)" using millis_ne [of a] by (simp_all add: t(1) rendered_timing_def)
  show "lf \<notin> set t" "cr \<notin> set t"
    using t(5,6) millis_free [of a] millis_free [of b] by (auto simp: t(1) rendered_timing_def lf_def cr_def)
  have "t = (millis_vtt a @ '' '') @ ''-->'' @ ('' '' @ millis_vtt b @ s)" by (simp add: t(1) rendered_timing_def)
  then show "has_arrow t" unfolding has_arrow_def str_contains_iff by blast
  show "\<exists>a b s. caption_timing t False = Inr (a, b, s) \<and> a < b"
    using rendered_timing_read [of a b s False] t by auto
qed

lemma digit_not_header: "t \<noteq> [] \<Longrightarrow> is_digit (hd t) \<Longrightarrow> \<not> note_line t \<and> \<not> definition_line t"
proof
  assume t: "t \<noteq> []" "is_digit (hd t)"
  then obtain c cs where c: "t = c # cs" "is_digit c" by (cases t) auto
  have no: "\<not> is_digit (CHR ''N'')" "\<not> is_digit (CHR ''S'')" "\<not> is_digit (CHR ''R'')" by (simp_all add: is_digit_def)
  show "\<not> note_line t" using c no by (auto simp: note_line_def)
  have "trim_end_matches is_blank t @ rev (takeWhile is_blank (rev t)) = t"
    unfolding trim_end_matches_def by (metis rev_append rev_rev_ident takeWhile_dropWhile_id)
  then have "trim_end_matches is_blank t = [] \<or> hd (trim_end_matches is_blank t) = c"
    using c(1) by (metis hd_append2 list.sel(1))
  then show "\<not> definition_line t" using c(2) no by (auto simp: definition_line_def)
qed

lemma cue_block:
  assumes "cue_ok c"
  shows "solid (cue_text c)" "validate_block (cue_text c) saw = Inr True"
proof -
  obtain t p where c: "c = (t, p)" by force
  note t = timing_ok_facts [of t] and p = assms [unfolded cue_ok_def payload_ok_def c fst_conv snd_conv]
  show solid: "solid (cue_text c)" using solid_append [OF solid_line] t p by (simp add: c cue_text_def)
  have lines: "text_lines (t @ lf # p) = t # split_on lf p"
    using solid_lines [of "t @ lf # p"] solid t p by (simp add: c cue_text_def split_on_append cr_def lf_def)
  have no: "\<not> list_ex has_arrow (split_on lf p)" using arrow_lines p by (auto simp: list_ex_iff)
  obtain a b s where read: "caption_timing t False = Inr (a, b, s)" "a < b" using t(6) p by blast
  have "\<not> note_line t" "\<not> definition_line t" using digit_not_header t(1,2) p by blast+
  then show "validate_block (cue_text c) saw = Inr True"
    using no read t(5) p by (simp add: c cue_text_def validate_block_def lines timing_line_def)
qed

lemma split_document: "split_str blank_line (cue_document cues) = ''WEBVTT'' # map cue_text cues @ [[]]"
  if "\<forall>c\<in>set cues. cue_ok c"
proof -
  have ne: "blank_line \<noteq> []" by (simp add: blank_line_def)
  have step: "split_str blank_line (x @ blank_line @ y) = x # split_str blank_line y" if "solid x" for x y
    by (rule split_str_Some [OF ne split_once_str_here [OF solid_no_blank_after [OF that] ne]])
  have last: "split_str blank_line [] = [[]]" by (subst split_str.simps) (simp add: blank_line_def split_once_str.simps)
  have "split_str blank_line (concat (map (\<lambda>c. cue_text c @ blank_line) cues)) = map cue_text cues @ [[]]"
    using that
  proof (induction cues)
    case (Cons c cues)
    then show ?case using step [OF cue_block(1) [of c], of "concat (map (\<lambda>c. cue_text c @ blank_line) cues)"] by simp
  qed (simp add: last)
  moreover have "solid ''WEBVTT''" by (rule solid_line) (simp_all add: lf_def)
  ultimately show ?thesis using step [of "''WEBVTT''"] by (simp add: cue_document_def vtt_header_def)
qed

text \<open>The validator accepts every document of cues.\<close>

lemma document_valid:
  assumes "\<forall>c\<in>set cues. cue_ok c"
  shows "validate_webvtt (cue_document cues) = Inr (trim_end_matches (\<lambda>c. c = lf) (cue_document cues) @ [lf])"
proof -
  let ?bs = "map cue_text cues"
  have "map (trim_matches (\<lambda>c. c = lf)) ?bs = ?bs"
    using assms by (auto intro!: solid_trim cue_block(1))
  then have body: "body_blocks (?bs @ [[]]) = ?bs"
    unfolding body_blocks_def map_append by (simp add: trim_matches_def filter_id_conv cue_text_def)
  have "\<exists>saw'. validate_blocks (map cue_text cs) saw = Inr saw'" if "\<forall>c\<in>set cs. cue_ok c" for cs saw
    using that
  proof (induction cs arbitrary: saw)
    case (Cons c cs)
    then show ?case using cue_block(2) [of c saw] by simp
  qed simp
  then obtain saw where "validate_blocks ?bs False = Inr saw" using assms by blast
  moreover have "text_lines ''WEBVTT'' = [''WEBVTT'']" by (simp add: text_lines_def lf_def)
  ultimately show ?thesis
    unfolding validate_webvtt_def Let_def split_document [OF assms] list.sel body by (simp add: header_line_ok_def)
qed

section \<open>Validity\<close>

text \<open>
  Every conversion gives a valid document within the output limit: each converter extends a document by
  whole cues, and the validator's own output is accepted again.
\<close>

subsection \<open>Output of the converters\<close>

definition documents :: "string \<Rightarrow> bool" where
  "documents out \<longleftrightarrow>
     (\<exists>cues. out = cue_document cues \<and> (\<forall>c\<in>set cues. cue_ok c)) \<and> length out \<le> MAX_CAPTION_OUTPUT"

lemma max_output: "MAX_CAPTION_OUTPUT = 100663296"
  by (simp add: MAX_CAPTION_OUTPUT_def MAX_CAPTION_INPUT_def)

lemma growth_bound: "check_output_growth c n = Inr u \<Longrightarrow> c + n \<le> MAX_CAPTION_OUTPUT"
  by (auto simp: check_output_growth_def checked_add_def split: option.splits if_splits)

lemma growth_bound3:
  assumes "check_output_growth c (saturating_add usize_max (saturating_add usize_max a b) k) = Inr u"
  shows "c + (a + b + k) \<le> MAX_CAPTION_OUTPUT"
  using growth_bound [OF assms] by (auto simp: saturating_add_def max_output usize_max_def u64_max_def min_def split: if_splits)

lemma documents_header: "documents vtt_header"
proof -
  have "vtt_header = cue_document [] \<and> (\<forall>c\<in>set []. cue_ok c)" by (simp add: cue_document_def)
  moreover have "length vtt_header \<le> MAX_CAPTION_OUTPUT" by (simp add: max_output vtt_header_def blank_line_def)
  ultimately show ?thesis unfolding documents_def by blast
qed

lemma documents_cue:
  assumes "documents out" "cue_ok c" "length out + length (cue_text c @ blank_line) \<le> MAX_CAPTION_OUTPUT"
  shows "documents (out @ cue_text c @ blank_line)"
proof -
  obtain cues where cues: "out = cue_document cues" "\<forall>c\<in>set cues. cue_ok c" using assms(1) by (auto simp: documents_def)
  then have "out @ cue_text c @ blank_line = cue_document (cues @ [c])" by (simp add: cue_document_def)
  moreover have "\<forall>c\<in>set (cues @ [c]). cue_ok c" using cues(2) assms(2) by simp
  ultimately show ?thesis unfolding documents_def using assms(3) by (metis length_append)
qed

lemma documents_valid: "documents out \<Longrightarrow> \<exists>out'. validate_webvtt out = Inr out'"
  using document_valid by (auto simp: documents_def)

lemma append_cue_documents:
  assumes "append_cue out a b p = Inr out'" "documents out" "a < b" "b \<le> u64_max" "payload_ok p"
  shows "documents out'"
proof -
  let ?c = "(rendered_timing a b [], p)"
  have "timing_ok (rendered_timing a b [])"
    using assms(3,4) unfolding timing_ok_def
    by (intro exI [of _ a] exI [of _ b] exI [of _ "[]"]) (simp add: settings_ok_def has_arrow_def)
  then have c: "cue_ok ?c" using assms(5) by (simp add: cue_ok_def)
  have whole: "cue_text ?c @ blank_line = (millis_vtt a @ '' --> '' @ millis_vtt b @ [lf]) @ p @ blank_line"
    by (simp add: cue_text_def rendered_timing_def)
  have g: "check_output_growth (length out) (saturating_add usize_max (saturating_add usize_max
      (length (millis_vtt a @ '' --> '' @ millis_vtt b @ [lf])) (length p)) 2) = Inr ()"
    and out': "out' = out @ cue_text ?c @ blank_line"
    using assms(1) unfolding append_cue_def Let_def whole by (auto simp: bind_res_def split: sum.splits)
  have "length out + length (cue_text ?c @ blank_line) \<le> MAX_CAPTION_OUTPUT"
    using growth_bound3 [OF g] unfolding whole by (simp add: blank_line_def)
  then show ?thesis unfolding out' by (rule documents_cue [OF assms(2) c])
qed

subsection \<open>Escaped cue text\<close>

lemma escaped_char: "x \<in> set (escape_cue_char c) \<Longrightarrow> (x = c \<and> x \<noteq> CHR ''>'') \<or> x \<in> set ''&amp;lgt''"
  by (auto simp: escape_cue_char_def split: if_splits)

lemma escaped_char_ne: "escape_cue_char c \<noteq> []"
  by (simp add: escape_cue_char_def)

lemma escaped_line_chars: "x \<in> set (escape_cue_line l) \<Longrightarrow> (x \<in> set l \<and> x \<noteq> CHR ''>'') \<or> x \<in> set ''&amp;lgtnbs''"
proof (cases "l = []")
  case False
  assume "x \<in> set (escape_cue_line l)"
  then obtain c where c: "c \<in> set l" "x \<in> set (escape_cue_char c)" using False by (auto simp: escape_cue_line_def)
  have sub: "set ''&amp;lgt'' \<subseteq> set ''&amp;lgtnbs''" by simp
  from escaped_char [OF c(2)] show ?thesis
  proof
    assume "x = c \<and> x \<noteq> CHR ''>''"
    then show ?thesis using c(1) by blast
  next
    assume "x \<in> set ''&amp;lgt''"
    then show ?thesis using sub by blast
  qed
next
  case True
  assume "x \<in> set (escape_cue_line l)"
  then have "x \<in> set ''&nbsp;''" using True by (simp only: escape_cue_line_def if_True simp_thms)
  moreover have "set ''&nbsp;'' \<subseteq> set ''&amp;lgtnbs''" by simp
  ultimately show ?thesis by blast
qed

lemma escaped_line:
  "escape_cue_line l \<noteq> []" "lf \<notin> set l \<Longrightarrow> lf \<notin> set (escape_cue_line l)" "cr \<notin> set l \<Longrightarrow> cr \<notin> set (escape_cue_line l)"
  "CHR ''>'' \<notin> set (escape_cue_line l)"
proof -
  show "escape_cue_line l \<noteq> []" by (cases l) (simp_all add: escape_cue_line_def escaped_char_ne)
  show "lf \<notin> set (escape_cue_line l)" if "lf \<notin> set l"
    using that escaped_line_chars [of lf l] by (auto simp: lf_def)
  show "cr \<notin> set (escape_cue_line l)" if "cr \<notin> set l"
    using that escaped_line_chars [of cr l] by (auto simp: cr_def)
  show "CHR ''>'' \<notin> set (escape_cue_line l)" using escaped_line_chars [of "CHR ''>''" l] by auto
qed

lemma escaped_payload: "payload_ok (escape_cue_text v)"
proof -
  let ?u = "unify_newlines v"
  let ?ls = "map escape_cue_line (split_on lf ?u)"
  have ne: "?ls \<noteq> []" by simp
  have lines: "\<forall>l\<in>set ?ls. l \<noteq> [] \<and> lf \<notin> set l"
  proof
    fix l assume "l \<in> set ?ls"
    then obtain k where k: "k \<in> set (split_on lf ?u)" "l = escape_cue_line k" by auto
    have "lf \<notin> set k" using split_on_fields k(1) by blast
    then show "l \<noteq> [] \<and> lf \<notin> set l" using escaped_line(1,2) [of k] k(2) by simp
  qed
  have "cr \<notin> set (escape_cue_text v)"
  proof -
    have "cr \<notin> set l" if l: "l \<in> set ?ls" for l
    proof -
      obtain k where k: "k \<in> set (split_on lf ?u)" "l = escape_cue_line k" using l by auto
      then have "cr \<notin> set k" using no_cr_unified [of v] split_on_subset [OF k(1)] by blast
      then show ?thesis using k(2) escaped_line(3) by blast
    qed
    then show ?thesis unfolding escape_cue_text_def using set_join [of "[lf]" ?ls] by (auto simp: lf_def cr_def)
  qed
  moreover have "\<not> has_arrow (escape_cue_text v)"
  proof -
    have "CHR ''>'' \<notin> set (escape_cue_text v)"
      unfolding escape_cue_text_def using set_join [of "[lf]" ?ls] escaped_line(4) by (auto simp: lf_def)
    then show ?thesis by (auto simp: has_arrow_def str_contains_iff)
  qed
  ultimately show ?thesis
    unfolding payload_ok_def using solid_join [OF ne lines] by (simp add: escape_cue_text_def)
qed

subsection \<open>SubStation Alpha\<close>

lemma ass_time_bound: "ass_time v = Some t \<Longrightarrow> t \<le> u64_max"
  by (auto simp: ass_time_def clock_millis_def checked_add_def split: list.splits Option.bind_splits if_splits)

lemma stripped_payload: "strip_ass_overrides v = Inr cue \<Longrightarrow> cue \<noteq> [] \<Longrightarrow> payload_ok cue"
  by (auto simp: strip_ass_overrides_def bind_res_def intro: escaped_payload split: sum.splits if_splits)

lemma trim_ne: "trim s \<noteq> [] \<Longrightarrow> s \<noteq> []"
  by auto

lemma ass_dialogue_documents:
  assumes "ass_dialogue dialogue st = Inr st'" "documents (as_output st)"
  shows "documents (as_output st')"
proof -
  have step: "documents out'"
    if "append_cue (as_output st) a b cue = Inr out'" "\<not> b \<le> a" "strip_ass_overrides v = Inr cue" "trim cue \<noteq> []"
      "ass_time w = Some b" for a b cue out' v w
    using append_cue_documents [OF that(1) assms(2)] that ass_time_bound stripped_payload [OF that(3) trim_ne] by auto
  show ?thesis
    using assms unfolding ass_dialogue_def Let_def
    by (auto split: if_splits option.splits sum.splits Option.bind_splits simp: bind_res_def intro: step)
qed

lemma ass_line_documents: "ass_line raw st = Inr st' \<Longrightarrow> documents (as_output st) \<Longrightarrow> documents (as_output st')"
  by (auto simp: ass_line_def Let_def split: if_splits option.splits intro: ass_dialogue_documents)

lemma ass_lines_documents: "ass_lines ls st = Inr st' \<Longrightarrow> documents (as_output st) \<Longrightarrow> documents (as_output st')"
proof (induction ls arbitrary: st)
  case (Cons l ls)
  then obtain st1 where "ass_line l st = Inr st1" "ass_lines ls st1 = Inr st'"
    by (auto simp: bind_res_def split: sum.splits)
  then show ?case using Cons ass_line_documents by blast
qed simp

lemma ass_documents: "ass_to_webvtt v = Inr out \<Longrightarrow> documents out"
  using ass_lines_documents [of "text_lines v"] documents_header
  by (fastforce simp: ass_to_webvtt_def bind_res_def split: sum.splits if_splits)

subsection \<open>SAMI\<close>

lemma markup_payload: "strip_smi_markup v = Inr cue \<Longrightarrow> cue \<noteq> [] \<Longrightarrow> payload_ok cue"
  by (auto simp: strip_smi_markup_def bind_res_def Let_def intro: escaped_payload split: sum.splits if_splits)

lemma ascii_number_bound: "ascii_number v = Some n \<Longrightarrow> n \<le> u64_max"
  by (auto simp: ascii_number_def split: if_splits dest: parse_uint_bound)

lemma smi_start_bound: "smi_start a start = Some n \<Longrightarrow> (\<forall>m. start = Some m \<longrightarrow> m \<le> u64_max) \<Longrightarrow> n \<le> u64_max"
proof (induction a start rule: smi_start.induct)
  case (1 a start)
  let ?a = "dropWhile ascii_space a"
  show ?case
  proof (cases "?a = []")
    case True
    then show ?thesis using "1.prems" by (subst (asm) smi_start.simps) simp
  next
    case False
    note step = "1.prems"(1) [unfolded smi_start.simps [of a start] Let_def if_not_P [OF False]]
    obtain name v rest where attr: "smi_attribute ?a = Some (name, v, rest)"
      using step by (cases "smi_attribute ?a") auto
    note step = step [unfolded attr option.case prod.case]
    show ?thesis
    proof (cases "eq_ignore_case name ''start''")
      case True
      then obtain w m where w: "v = Some w" "start = None" "ascii_number w = Some m" "smi_start rest (Some m) = Some n"
        using step by (auto split: option.splits if_splits)
      then show ?thesis using "1.IH"(1) [OF refl False attr refl refl True w(1) _ w(3)] ascii_number_bound by auto
    next
      case other: False
      then have "smi_start rest start = Some n" using step by simp
      then show ?thesis using "1.IH"(2) [OF refl False attr refl refl other] "1.prems"(2) by blast
    qed
  qed
qed

definition smi_ok :: "smi_state \<Rightarrow> bool" where
  "smi_ok st \<longleftrightarrow> documents (sm_output st) \<and> (\<forall>n. sm_previous st = Some n \<longrightarrow> n \<le> u64_max)"

lemma smi_sync_ok:
  assumes "smi_sync v t st = Inr st'" "smi_ok st"
  shows "smi_ok st'"
proof -
  obtain start out where st': "smi_start (tag_attributes t) None = Some start"
      "st' = \<lparr>sm_output = out, sm_previous = Some start, sm_payload = tag_end t\<rparr>"
    and out: "sm_previous st = None \<and> out = sm_output st \<or>
      (\<exists>previous cue. sm_previous st = Some previous \<and> strip_smi_markup (take (tag_start t - sm_payload st) (drop (sm_payload st) v)) = Inr cue \<and>
        (if previous < start \<and> cue \<noteq> [] then append_cue (sm_output st) previous start cue else Inr (sm_output st)) = Inr out)"
    using assms(1) by (auto simp: smi_sync_def bind_res_def ok_or_def split: option.splits sum.splits if_splits)
  have start: "start \<le> u64_max" using smi_start_bound [OF st'(1)] by simp
  from out have "documents out"
  proof (elim disjE exE conjE)
    fix previous cue
    assume cue: "strip_smi_markup (take (tag_start t - sm_payload st) (drop (sm_payload st) v)) = Inr cue"
      and app: "(if previous < start \<and> cue \<noteq> [] then append_cue (sm_output st) previous start cue else Inr (sm_output st)) = Inr out"
    show ?thesis
    proof (cases "previous < start \<and> cue \<noteq> []")
      case True
      then have "append_cue (sm_output st) previous start cue = Inr out" using app by simp
      then show ?thesis using append_cue_documents True start markup_payload [OF cue] assms(2) by (auto simp: smi_ok_def)
    next
      case False
      then show ?thesis using app assms(2) by (auto simp: smi_ok_def)
    qed
  qed (use assms(2) in \<open>simp add: smi_ok_def\<close>)
  then show ?thesis using start by (simp add: smi_ok_def st'(2))
qed

lemma smi_tags_ok: "smi_tags v cursor st = Inr st' \<Longrightarrow> smi_ok st \<Longrightarrow> smi_ok st'"
proof (induction v cursor st rule: smi_tags.induct)
  case (1 v cursor st)
  show ?case
  proof (cases "next_smi_tag v cursor")
    case (Inl e)
    then show ?thesis using "1.prems" by (subst (asm) smi_tags.simps) simp
  next
    case (Inr found)
    show ?thesis
    proof (cases found)
      case None
      then show ?thesis using Inr "1.prems" by (subst (asm) smi_tags.simps) simp
    next
      case (Some t)
      note tag = Inr [unfolded Some]
      show ?thesis
      proof (cases "tag_closing t \<or> \<not> eq_ignore_case (tag_name t) ''sync''")
        case True
        then have "smi_tags v (tag_end t) st = Inr st'" using "1.prems"(1) tag by (subst (asm) smi_tags.simps) simp
        then show ?thesis using "1.IH"(1) [OF tag refl True] "1.prems"(2) by blast
      next
        case False
        then obtain st1 where st1: "smi_sync v t st = Inr st1" "smi_tags v (tag_end t) st1 = Inr st'"
          using "1.prems"(1) tag by (subst (asm) smi_tags.simps) (auto split: sum.splits)
        then show ?thesis using "1.IH"(2) [OF tag refl False st1(1)] smi_sync_ok "1.prems"(2) by blast
      qed
    qed
  qed
qed

lemma smi_documents:
  assumes "smi_to_webvtt v = Inr out"
  shows "documents out"
proof -
  obtain st start cue where st: "smi_tags v 0 \<lparr>sm_output = vtt_header, sm_previous = None, sm_payload = 0\<rparr> = Inr st"
      "sm_previous st = Some start" "strip_smi_markup (drop (sm_payload st) v) = Inr cue"
    and out: "cue = [] \<and> out = sm_output st \<or>
      (cue \<noteq> [] \<and> (\<exists>stop. checked_add u64_max start 5000 = Some stop \<and> append_cue (sm_output st) start stop cue = Inr out))"
    using assms by (auto simp: smi_to_webvtt_def bind_res_def ok_or_def split: sum.splits option.splits if_splits)
  have "smi_ok st" by (rule smi_tags_ok [OF st(1)]) (simp add: smi_ok_def documents_header)
  then have docs: "documents (sm_output st)" by (simp add: smi_ok_def)
  from out show ?thesis
  proof (elim disjE exE conjE)
    fix stop
    assume cue: "cue \<noteq> []" and stop: "checked_add u64_max start 5000 = Some stop" "append_cue (sm_output st) start stop cue = Inr out"
    have "start < stop" "stop \<le> u64_max" using stop(1) by (auto simp: checked_add_def split: if_splits)
    then show ?thesis by (rule append_cue_documents [OF stop(2) docs _ _ markup_payload [OF st(3) cue]])
  qed (use docs in simp)
qed

end
