(* ===== verification/Caption_Property.thy ===== *)
theory Caption_Property
  imports Caption_Valid
begin

text \<open>
  The properties of the caption conversion: SubRip blocks, the validator on its own output, the size of a
  decoded text, and all conversions together.
\<close>

subsection \<open>SubRip\<close>

definition pending_ok :: "open_cue \<Rightarrow> bool" where
  "pending_ok cue \<longleftrightarrow> (\<forall>t p. cue = Some (t, p) \<longrightarrow> timing_ok t \<and> (p = [] \<or> payload_ok p))"

definition srt_ok :: "srt_state \<Rightarrow> bool" where
  "srt_ok st \<longleftrightarrow> documents (st_output st) \<and> pending_ok (st_pending st)"

lemma flush_documents:
  assumes "flush_srt_cue out cue = Inr (out', n)" "documents out" "pending_ok cue"
  shows "documents out'"
proof (cases cue)
  case None
  then show ?thesis using assms(1,2) by (simp add: flush_srt_cue_def)
next
  case (Some c)
  obtain t p where c: "c = (t, p)" by force
  show ?thesis
  proof (cases "trim p = []")
    case True
    then show ?thesis using assms(1,2) Some c by (simp add: flush_srt_cue_def)
  next
    case False
    then have p: "p \<noteq> []" "cue_ok (t, p)" using assms(3) Some c by (auto simp: pending_ok_def cue_ok_def)
    have g: "check_output_growth (length out) (saturating_add usize_max (saturating_add usize_max (length t) (length p)) 3) = Inr ()"
      and out': "out' = out @ cue_text (t, p) @ blank_line"
      using assms(1) False Some c unfolding flush_srt_cue_def by (auto simp: bind_res_def cue_text_def split: sum.splits)
    have "length out + length (cue_text (t, p) @ blank_line) \<le> MAX_CAPTION_OUTPUT"
      using growth_bound3 [OF g] by (simp add: cue_text_def blank_line_def)
    then show ?thesis unfolding out' by (rule documents_cue [OF assms(2) p(2)])
  qed
qed

lemma payload_escaped: "solid b \<Longrightarrow> cr \<notin> set b \<Longrightarrow> payload_ok (escape_arrows b)"
  by (simp add: payload_ok_def solid_escaped no_arrow_escaped no_cr_escaped)

lemma payload_append: "payload_ok p \<Longrightarrow> payload_ok q \<Longrightarrow> payload_ok (p @ [lf] @ q)"
proof -
  have "cr \<noteq> lf" by (simp add: cr_def lf_def)
  then show "payload_ok p \<Longrightarrow> payload_ok q \<Longrightarrow> payload_ok (p @ [lf] @ q)"
    unfolding payload_ok_def using solid_append [of p q] by (simp add: arrow_at_lf)
qed

lemma continue_ok:
  assumes "continue_cue b st = Inr st'" "srt_ok st" "solid b" "cr \<notin> set b"
  shows "srt_ok st'"
proof (cases "st_pending st")
  case None
  then show ?thesis using assms(1,2) by (simp add: continue_cue_def)
next
  case (Some c)
  obtain t p where c: "c = (t, p)" by force
  have st': "st' = st\<lparr>st_pending := Some (t, (if p = [] then [] else p @ [lf]) @ escape_arrows b)\<rparr>"
    using assms(1) Some c by (auto simp: continue_cue_def bind_res_def split: sum.splits)
  have "payload_ok ((if p = [] then [] else p @ [lf]) @ escape_arrows b)"
    using assms(2) Some c payload_escaped [OF assms(3,4)] payload_append [of p "escape_arrows b"]
    by (auto simp: srt_ok_def pending_ok_def)
  then show ?thesis using assms(2) Some c by (auto simp: st' srt_ok_def pending_ok_def)
qed

lemma open_ok:
  assumes "open_srt_cue (split_on lf b) i st = Inr st'" "srt_ok st" "st_pending st = None" "i < length (split_on lf b)"
    "solid b" "cr \<notin> set b"
  shows "srt_ok st'"
proof -
  let ?ls = "split_on lf b"
  consider "st' = st"
    | a e s where "caption_timing (?ls ! i) True = Inr (a, e, s)" "a < e"
        "st' = st\<lparr>st_pending := Some (rendered_timing a e s, escape_arrows (join [lf] (drop (Suc i) ?ls)))\<rparr>"
    using assms(1) by (auto simp: open_srt_cue_def Let_def bind_res_def rendered_timing_def not_le split: sum.splits if_splits)
  then show ?thesis
  proof cases
    case 1
    then show ?thesis using assms(2) by simp
  next
    case 2
    note parts = caption_timing_parts [OF 2(1)]
    have line: "?ls ! i \<in> set ?ls" using assms(4) by simp
    have "lf \<notin> set s" "cr \<notin> set s"
      using parts(4) split_on_fields [OF line] split_on_subset [OF line] assms(6) by blast+
    then have timing: "timing_ok (rendered_timing a e s)" unfolding timing_ok_def using 2(2) parts(2,3) by blast
    let ?rest = "drop (Suc i) ?ls"
    have "escape_arrows (join [lf] ?rest) = [] \<or> payload_ok (escape_arrows (join [lf] ?rest))"
    proof (cases "?rest = []")
      case False
      have sub: "l \<in> set ?ls" if "l \<in> set ?rest" for l using that in_set_dropD by fast
      have "\<forall>l\<in>set ?rest. l \<noteq> [] \<and> lf \<notin> set l"
        using sub assms(5) split_on_fields unfolding solid_def by blast
      then have "solid (join [lf] ?rest)" by (rule solid_join [OF False])
      moreover have "cr \<notin> set (join [lf] ?rest)"
        using set_join [of "[lf]" ?rest] sub split_on_subset assms(6) by (fastforce simp: cr_def lf_def)
      ultimately show ?thesis using payload_escaped by blast
    qed simp
    then show ?thesis using timing assms(2) by (auto simp: 2(3) srt_ok_def pending_ok_def)
  qed
qed

lemma timing_index_bound: "timing_index ls = Some i \<Longrightarrow> i < length ls"
  by (auto simp: timing_index_def split: list.splits if_splits)

lemma srt_block_ok:
  assumes "srt_block raw st = Inr st'" "srt_ok st" "raw \<in> set (split_str blank_line v)" "trim raw \<noteq> []" "cr \<notin> set v"
  shows "srt_ok st'"
proof -
  let ?b = "trim_matches (\<lambda>c. c = lf) raw"
  have b: "solid ?b" "cr \<notin> set ?b" using solid_block [OF assms(3,4)] assms(5) by blast+
  have lines: "text_lines ?b = split_on lf ?b" by (rule solid_lines [OF b])
  let ?numbered = "1 < length (split_on lf ?b) \<and> trim (hd (split_on lf ?b)) \<noteq> [] \<and> all_digits (trim (hd (split_on lf ?b)))"
  show ?thesis
  proof (cases "timing_index (split_on lf ?b) = None \<and> \<not> ?numbered")
    case True
    then have "continue_cue ?b st = Inr st'" using assms(1) unfolding srt_block_def Let_def lines by simp
    then show ?thesis using assms(2) b by (rule continue_ok)
  next
    case False
    obtain out n where flush: "flush_srt_cue (st_output st) (st_pending st) = Inr (out, n)"
      and next_st: "(case timing_index (split_on lf ?b) of
          None \<Rightarrow> Inr (st\<lparr>st_output := out, st_cues := st_cues st + n, st_pending := None\<rparr>)
        | Some i \<Rightarrow> open_srt_cue (split_on lf ?b) i (st\<lparr>st_output := out, st_cues := st_cues st + n, st_pending := None\<rparr>)) = Inr st'"
      using assms(1) False unfolding srt_block_def Let_def lines by (auto simp: bind_res_def split: sum.splits)
    have ok: "srt_ok (st\<lparr>st_output := out, st_cues := st_cues st + n, st_pending := None\<rparr>)"
      using flush_documents [OF flush] assms(2) by (simp add: srt_ok_def pending_ok_def)
    then show ?thesis
      using next_st open_ok [OF _ ok _ timing_index_bound b] by (auto split: option.splits)
  qed
qed

lemma srt_blocks_ok:
  assumes "srt_blocks bs st = Inr st'" "srt_ok st" "\<forall>b\<in>set bs. b \<in> set (split_str blank_line v) \<and> trim b \<noteq> []" "cr \<notin> set v"
  shows "srt_ok st'"
  using assms(1-3)
proof (induction bs arbitrary: st)
  case (Cons b bs)
  then obtain st1 where st1: "srt_block b st = Inr st1" "srt_blocks bs st1 = Inr st'"
    by (auto simp: bind_res_def split: sum.splits)
  have "srt_ok st1" by (rule srt_block_ok [OF st1(1) Cons.prems(2)]) (use Cons.prems(3) assms(4) in auto)
  then show ?case using Cons.IH st1(2) Cons.prems(3) by auto
qed simp

lemma srt_documents:
  assumes "srt_to_webvtt v = Inr out" "cr \<notin> set v"
  shows "documents out"
proof -
  obtain st n where st: "srt_blocks (filter (\<lambda>b. trim b \<noteq> []) (split_str blank_line v))
      \<lparr>st_output = vtt_header, st_cues = 0, st_pending = None\<rparr> = Inr st"
    "flush_srt_cue (st_output st) (st_pending st) = Inr (out, n)"
    using assms(1) by (auto simp: srt_to_webvtt_def bind_res_def split: sum.splits if_splits)
  have "srt_ok st"
    by (rule srt_blocks_ok [OF st(1) _ _ assms(2)]) (auto simp: srt_ok_def pending_ok_def documents_header)
  then show ?thesis using flush_documents [OF st(2)] by (simp add: srt_ok_def)
qed

subsection \<open>The validator on its own output\<close>

lemma split_once_extend: "split_once_str pat s = Some (a, b) \<Longrightarrow> split_once_str pat (s @ z) = Some (a, b @ z)"
proof (induction s arbitrary: a)
  case Nil
  then have "pat = []" "a = []" "b = []" by (auto simp: split_once_str.simps [of pat "[]"] split: if_splits)
  then show ?case by (subst split_once_str.simps) simp
next
  case (Cons c cs)
  show ?case
  proof (cases "prefix pat (c # cs)")
    case True
    then have "a = []" "c # cs = pat @ b" using Cons.prems split_once_here [OF True] by (auto simp: prefix_def)
    moreover have "prefix pat ((c # cs) @ z)" using True by (rule prefix_prefix)
    ultimately show ?thesis by (subst split_once_here) simp_all
  next
    case False
    then obtain a' where a': "split_once_str pat cs = Some (a', b)" "a = c # a'"
      using Cons.prems split_once_later [OF False] by auto
    have "cs = a' @ pat @ b" using split_once_str_SomeD [OF a'(1)] .
    then have "\<not> prefix pat (c # cs @ z)" using False prefix_of_append [of pat "c # cs" z] by auto
    then show ?thesis using Cons.IH [OF a'(1)] a'(2) by (simp add: split_once_later)
  qed
qed

lemma only_feeds: "set b \<subseteq> {lf} \<Longrightarrow> trim_matches (\<lambda>c. c = lf) b = []"
proof -
  assume "set b \<subseteq> {lf}"
  then have "\<forall>c\<in>set b. c = lf" by blast
  then have "dropWhile (\<lambda>c. c = lf) b = []" by (simp only: dropWhile_eq_Nil_conv)
  then show ?thesis by (simp only: trim_matches_def rev.simps dropWhile.simps)
qed

lemma only_feeds_lines: "set b \<subseteq> {lf} \<Longrightarrow> l \<in> set (text_lines b) \<Longrightarrow> l = []"
proof -
  assume b: "set b \<subseteq> {lf}" and l: "l \<in> set (text_lines b)"
  have field: "f = []" if "f \<in> set (split_on lf b)" for f
    using split_on_fields [OF that] split_on_subset [OF that] b by (cases f) auto
  have "l \<in> strip_cr ` set (split_on lf b) \<union> set (split_on lf b)"
    using l last_in_set [OF split_on_ne, of lf b] by (auto simp: text_lines_def Let_def dest: in_set_butlastD split: if_splits)
  then show "l = []" using field by (auto simp: strip_cr_def)
qed

lemma feeds_no_body: "body_blocks (split_str blank_line (replicate j lf)) = []"
proof -
  have "trim_matches (\<lambda>c. c = lf) b = []" if "b \<in> set (split_str blank_line (replicate j lf))" for b
    using split_str_pieces [OF _ that] by (intro only_feeds) (auto simp: blank_line_def)
  then show ?thesis by (auto simp: body_blocks_def filter_empty_conv)
qed

lemma lines_feed:
  assumes "cr \<notin> set x" "x \<noteq> []" "last x \<noteq> lf"
  shows "text_lines (x @ [lf]) = text_lines x"
proof -
  let ?ls = "split_on lf x"
  have "split_on lf (x @ [lf]) = ?ls @ [[]]" using split_on_at [of lf x "[]"] by simp
  moreover have "last ?ls \<noteq> []"
  proof
    assume "last ?ls = []"
    then have ls: "?ls = butlast ?ls @ [[]]" by (metis append_butlast_last_id split_on_ne)
    show False
    proof (cases "butlast ?ls = []")
      case True
      then show ?thesis using ls join_split_on [of lf x] assms(2) by simp
    next
      case False
      then have "x = join [lf] (butlast ?ls) @ [lf]" using join_split_on [of lf x] ls join_snoc [OF False, of "[lf]" "[]"] by simp
      then show ?thesis using assms(3) by (metis last_snoc)
    qed
  qed
  moreover have "map strip_cr ?ls = ?ls"
    using split_on_subset assms(1) by (intro map_idI strip_cr_none) blast
  moreover have "map strip_cr (butlast ?ls) @ [last ?ls] = map strip_cr ?ls"
  proof -
    have "strip_cr (last ?ls) = last ?ls"
      using split_on_subset [OF last_in_set [OF split_on_ne]] assms(1) by (intro strip_cr_none) blast
    then have "map strip_cr (butlast ?ls) @ [last ?ls] = map strip_cr (butlast ?ls @ [last ?ls])"
      by (simp only: map_append list.map)
    then show ?thesis by simp
  qed
  ultimately show ?thesis by (simp add: text_lines_def Let_def)
qed

lemma trim_feed: "trim_matches (\<lambda>c. c = lf) (x @ [lf]) = trim_matches (\<lambda>c. c = lf) x"
proof -
  let ?P = "\<lambda>c. c = lf"
  show ?thesis
  proof (cases "\<forall>c\<in>set x. c = lf")
    case True
    then have "set x \<subseteq> {lf}" "set (x @ [lf]) \<subseteq> {lf}" by auto
    then show ?thesis by (simp only: only_feeds)
  next
    case False
    then have "dropWhile ?P (x @ [lf]) = dropWhile ?P x @ [lf]" by (metis (mono_tags, lifting) dropWhile_append1)
    then show ?thesis by (simp add: trim_matches_def)
  qed
qed

text \<open>Line feeds at the end change neither the header nor the blocks.\<close>

lemma feeds_at_end:
  assumes "cr \<notin> set x" "x \<noteq> []" "last x \<noteq> lf"
  shows "text_lines (hd (split_str blank_line (x @ replicate k lf))) = text_lines (hd (split_str blank_line x)) \<and>
    body_blocks (split_str blank_line (x @ replicate k lf)) = body_blocks (split_str blank_line x) \<and>
    body_blocks (tl (split_str blank_line (x @ replicate k lf))) = body_blocks (tl (split_str blank_line x))"
  using assms
proof (induction x rule: length_induct)
  case (1 x)
  have ne: "blank_line \<noteq> []" by (simp add: blank_line_def)
  show ?case
  proof (cases "split_once_str blank_line x")
    case (Some p)
    obtain a b where p: "split_once_str blank_line x = Some (a, b)" using Some by (cases p) auto
    have x: "x = a @ blank_line @ b" by (rule split_once_str_SomeD [OF p])
    have b: "b \<noteq> []" "last b \<noteq> lf" "cr \<notin> set b" "length b < length x" using 1(2,4) x by (auto simp: blank_line_def split: if_splits)
    note whole = split_str_Some [OF ne p] split_str_Some [OF ne split_once_extend [OF p, of "replicate k lf"]]
    have "body_blocks (split_str blank_line (b @ replicate k lf)) = body_blocks (split_str blank_line b)"
      using 1(1) b by blast
    then show ?thesis unfolding whole by (simp add: body_blocks_def)
  next
    case None
    then have single: "split_str blank_line x = [x]" and no: "\<not> str_contains blank_line x"
      by (simp_all add: split_str_None [OF ne] split_once_str_None)
    have after: "\<not> str_contains blank_line (x @ [lf])"
    proof
      assume "str_contains blank_line (x @ [lf])"
      then obtain a b where ab: "x @ [lf] = a @ lf # lf # b" by (auto simp: str_contains_iff blank_line_def)
      show False
      proof (cases b rule: rev_cases)
        case Nil
        then have "x = a @ [lf]" using ab by simp
        then show False using 1(4) by simp
      next
        case (snoc b' y)
        then have "x = a @ blank_line @ b'" using ab by (simp add: blank_line_def)
        then show False using no unfolding str_contains_iff by blast
      qed
    qed
    consider "k = 0" | "k = 1" | j where "k = Suc (Suc j)" by (cases k; cases "k - 1") auto
    then show ?thesis
    proof cases
      case 2
      have "split_str blank_line (x @ [lf]) = [x @ [lf]]" using after by (intro split_str_None [OF ne]) (simp add: split_once_str_None)
      then show ?thesis using 2 single lines_feed [OF 1(2-4)] by (simp add: body_blocks_def trim_feed)
    next
      case (3 j)
      have "split_once_str blank_line (x @ blank_line @ replicate j lf) = Some (x, replicate j lf)"
        by (rule split_once_str_here) (use after ne in \<open>simp_all add: blank_line_def\<close>)
      then have whole: "split_str blank_line (x @ replicate k lf) = x # split_str blank_line (replicate j lf)"
        using 3 by (intro split_str_Some [OF ne]) (simp add: blank_line_def)
      have parts: "body_blocks (x # bs) = body_blocks [x] @ body_blocks bs" "body_blocks [] = []" for bs
        by (simp_all add: body_blocks_def)
      show ?thesis unfolding whole single list.sel
        by (simp only: parts(1) [of "split_str blank_line (replicate j lf)"] feeds_no_body parts(2) append_Nil2 simp_thms)
    qed simp
  qed
qed

lemma trim_end_feeds: "v = trim_end_matches (\<lambda>c. c = lf) v @ replicate (length v - length (trim_end_matches (\<lambda>c. c = lf) v)) lf"
proof -
  let ?t = "takeWhile (\<lambda>c. c = lf) (rev v)"
  have v: "v = trim_end_matches (\<lambda>c. c = lf) v @ rev ?t"
    unfolding trim_end_matches_def by (metis rev_append rev_rev_ident takeWhile_dropWhile_id)
  have "?t = replicate (length ?t) lf"
    by (rule replicate_length_same [symmetric]) (auto dest: set_takeWhileD)
  then have "rev ?t = replicate (length ?t) lf" by (metis rev_replicate)
  moreover have "length ?t = length v - length (trim_end_matches (\<lambda>c. c = lf) v)"
    using arg_cong [OF v, of length] by simp
  ultimately show ?thesis using v by simp
qed

lemma validated_valid:
  assumes "validate_webvtt v = Inr out" "cr \<notin> set v"
  shows "\<exists>out'. validate_webvtt out = Inr out'"
proof -
  let ?x = "trim_end_matches (\<lambda>c. c = lf) v"
  obtain k where v: "v = ?x @ replicate k lf" using trim_end_feeds by blast
  have out: "out = ?x @ replicate 1 lf"
    using assms(1) by (auto simp: validate_webvtt_def Let_def bind_res_def split: if_splits sum.splits)
  let ?h = "\<lambda>v. text_lines (hd (split_str blank_line v))" and ?b = "\<lambda>v. body_blocks (tl (split_str blank_line v))"
  have ok: "header_line_ok (case ?h v of [] \<Rightarrow> [] | l # _ \<Rightarrow> l)" "\<not> list_ex has_arrow (tl (?h v))"
    "\<exists>saw. validate_blocks (?b v) False = Inr saw"
    using assms(1) by (auto simp: validate_webvtt_def Let_def bind_res_def split: if_splits sum.splits)
  have "?x \<noteq> []"
  proof
    assume "?x = []"
    then have "set v \<subseteq> {lf}" using v by (metis append_Nil set_replicate_conv_if empty_subsetI order_refl)
    then have "set (hd (split_str blank_line v)) \<subseteq> {lf}"
      using split_str_pieces [of blank_line "hd (split_str blank_line v)" v] by (auto simp: blank_line_def)
    then have "(case ?h v of [] \<Rightarrow> [] | l # _ \<Rightarrow> l) = []" using only_feeds_lines by (auto split: list.split)
    then show False using ok(1) by (simp add: header_line_ok_def)
  qed
  moreover have "last ?x \<noteq> lf"
    using \<open>?x \<noteq> []\<close> hd_dropWhile [of "\<lambda>c. c = lf" "rev v"] by (simp add: trim_end_matches_def last_rev)
  moreover have "cr \<notin> set ?x" using assms(2) set_dropWhileD by (fastforce simp: trim_end_matches_def)
  ultimately have "?h out = ?h v" "?b out = ?b v"
    using feeds_at_end [of ?x k] feeds_at_end [of ?x 1] v out by metis+
  then show ?thesis using ok unfolding validate_webvtt_def Let_def by auto
qed

subsection \<open>Sizes\<close>

lemma utf8_of_length: "n < 65536 \<Longrightarrow> length (utf8_of n) \<le> 3" "length (utf8_of n) \<le> 4"
  by (simp_all add: utf8_of_def)

lemma windows_1252_small: "windows_1252 c < 65536"
proof -
  have "list_all (\<lambda>n. n < 65536) WINDOWS_1252_HIGH" "length WINDOWS_1252_HIGH = 32" by (simp_all add: WINDOWS_1252_HIGH_def)
  then have "WINDOWS_1252_HIGH ! i < 65536" if "i < 32" for i using that by (simp add: list_all_length)
  moreover have "bval c < 65536" by (rule less_trans [of _ 256]) simp_all
  ultimately show ?thesis unfolding windows_1252_def by (simp add: less_diff_conv2)
qed

lemma utf16_units_length: "2 * length (utf16_units little s) \<le> length s"
  by (induction little s rule: utf16_units.induct) auto

lemma utf16_units_small: "u \<in> set (utf16_units little s) \<Longrightarrow> u < 65536"
proof (induction little s rule: utf16_units.induct)
  case (1 little a b rest)
  have "bval a < 256" "bval b < 256" by simp_all
  then have "bval a + 256 * bval b < 65536" "256 * bval a + bval b < 65536" by linarith+
  then show ?case using 1 by (auto split: if_splits)
qed simp_all

lemma decode_utf16_length: "decode_utf16 us = Some s \<Longrightarrow> \<forall>u\<in>set us. u < 65536 \<Longrightarrow> length s \<le> 3 * length us"
proof (induction us arbitrary: s rule: decode_utf16.induct)
  case (2 u us)
  show ?case
  proof (cases "u < 0xD800 \<or> 0xDFFF < u")
    case True
    then obtain t where t: "decode_utf16 us = Some t" "s = utf8_of u @ t" using "2.prems"(1) by auto
    then show ?thesis using "2.IH"(1) [OF True t(1)] "2.prems"(2) utf8_of_length(1) [of u] by fastforce
  next
    case False
    then obtain v vs t where v: "\<not> 0xDC00 \<le> u" "us = v # vs" "0xDC00 \<le> v \<and> v \<le> 0xDFFF" "decode_utf16 vs = Some t"
        "s = utf8_of (0x10000 + (u - 0xD800) * 1024 + (v - 0xDC00)) @ t"
      using "2.prems"(1) by (auto split: if_splits list.splits)
    then have "length t \<le> 3 * length vs" using "2.IH"(2) [OF False v(1,2,3,4)] "2.prems"(2) by simp
    then show ?thesis using utf8_of_length(2) [of "0x10000 + (u - 0xD800) * 1024 + (v - 0xDC00)"] v(2,5) by simp
  qed
qed simp

lemma decoded_length: "decode_sidecar_text body = Inr s \<Longrightarrow> length s \<le> 3 * length body"
proof -
  assume s: "decode_sidecar_text body = Inr s"
  have wide: "length s \<le> 3 * length body" if "decode_utf16 (utf16_units l (drop 2 body)) = Some s" for l
    using decode_utf16_length [OF that] utf16_units_small [of _ l "drop 2 body"] utf16_units_length [of l "drop 2 body"] by fastforce
  have narrow: "length (concat (map (utf8_of \<circ> windows_1252) b)) \<le> 3 * length b" for b
  proof (induction b)
    case (Cons c b)
    then show ?case using utf8_of_length(1) [OF windows_1252_small, of c] by simp
  qed simp
  show ?thesis
    using s wide narrow [of body]
    by (auto simp: decode_sidecar_text_def Let_def ok_or_def split: if_splits option.splits)
qed

lemma plain_length:
  assumes "caption_text_of body = Inr v"
  shows "length v \<le> 3 * length body" "cr \<notin> set v"
proof -
  obtain d where d: "decode_sidecar_text body = Inr d"
      "v = unify_newlines (case strip_prefix byte_order_mark d of Some rest \<Rightarrow> rest | None \<Rightarrow> d)"
    using assms by (auto simp: caption_text_of_def bind_res_def Let_def split: sum.splits if_splits)
  have "length (case strip_prefix byte_order_mark d of Some rest \<Rightarrow> rest | None \<Rightarrow> d) \<le> length d"
    by (auto split: option.split)
  then show "length v \<le> 3 * length body"
    unfolding d(2)
    using unified_length [of "case strip_prefix byte_order_mark d of Some rest \<Rightarrow> rest | None \<Rightarrow> d"] decoded_length [OF d(1)]
    by linarith
  show "cr \<notin> set v" using d(2) no_cr_unified by blast
qed

lemma validated_length: "validate_webvtt v = Inr out \<Longrightarrow> length out \<le> length v + 1"
  using length_dropWhile_le [of "\<lambda>c. c = lf" "rev v"]
  by (auto simp: validate_webvtt_def Let_def bind_res_def trim_end_matches_def split: if_splits sum.splits)

subsection \<open>Well-formed cues are kept\<close>

text \<open>A cue as a converter writes it, whose text is not all white space.\<close>

definition shown_cue :: "string \<times> string \<Rightarrow> bool" where
  "shown_cue c \<longleftrightarrow> cue_ok c \<and> trim (snd c) \<noteq> []"

lemma no_escape: "\<not> has_arrow p \<Longrightarrow> escape_arrows p = p"
  by (simp add: escape_arrows_def str_replace_def split_str_None split_once_str_None has_arrow_def)

lemma growth_ok: "c + n \<le> MAX_CAPTION_OUTPUT \<Longrightarrow> check_output_growth c n = Inr ()"
  by (auto simp: check_output_growth_def checked_add_def max_output usize_max_def u64_max_def)

lemma sat_small: "a + b \<le> MAX_CAPTION_OUTPUT \<Longrightarrow> saturating_add usize_max a b = a + b"
  by (auto simp: saturating_add_def max_output usize_max_def u64_max_def)

lemma digit_is_graphic: "is_digit c \<Longrightarrow> graphic c"
  by (auto simp: is_digit_def graphic_def)

lemma cue_text_shown: "cue_ok c \<Longrightarrow> trim (cue_text c) \<noteq> []"
proof -
  assume c: "cue_ok c"
  then have t: "fst c \<noteq> []" "is_digit (hd (fst c))" using timing_ok_facts by (auto simp: cue_ok_def)
  then have "cue_text c = [hd (fst c)] @ (tl (fst c) @ [lf] @ snd c)" by (simp add: cue_text_def)
  then show ?thesis using trim_append_graphic [of "[hd (fst c)]" "tl (fst c) @ [lf] @ snd c"] digit_is_graphic t(2) by auto
qed

definition pending_text :: "open_cue \<Rightarrow> string" where
  "pending_text q = (case q of None \<Rightarrow> [] | Some c \<Rightarrow> cue_text c @ blank_line)"

definition pending_count :: "open_cue \<Rightarrow> nat" where
  "pending_count q = (case q of None \<Rightarrow> 0 | Some _ \<Rightarrow> 1)"

lemma flush_shown:
  assumes "\<forall>c. q = Some c \<longrightarrow> shown_cue c" "length (out @ pending_text q) \<le> MAX_CAPTION_OUTPUT"
  shows "flush_srt_cue out q = Inr (out @ pending_text q, pending_count q)"
proof (cases q)
  case None
  then show ?thesis by (simp add: flush_srt_cue_def pending_text_def pending_count_def)
next
  case (Some c)
  obtain t p where c: "c = (t, p)" by force
  have len: "length out + (length t + length p + 3) \<le> MAX_CAPTION_OUTPUT"
    using assms(2) Some c by (simp add: pending_text_def cue_text_def blank_line_def)
  then have "saturating_add usize_max (saturating_add usize_max (length t) (length p)) 3 = length t + length p + 3"
    by (simp add: sat_small)
  then have "check_output_growth (length out) (saturating_add usize_max (saturating_add usize_max (length t) (length p)) 3) = Inr ()"
    using growth_ok [OF len] by simp
  then show ?thesis
    using assms(1) Some c by (simp add: flush_srt_cue_def pending_text_def pending_count_def cue_text_def shown_cue_def)
qed

lemma srt_cue_block:
  assumes "shown_cue c" "\<forall>c. q = Some c \<longrightarrow> shown_cue c" "length (out @ pending_text q @ cue_text c) \<le> MAX_CAPTION_OUTPUT"
  shows "srt_block (cue_text c) \<lparr>st_output = out, st_cues = n, st_pending = q\<rparr> =
    Inr \<lparr>st_output = out @ pending_text q, st_cues = n + pending_count q, st_pending = Some c\<rparr>"
proof -
  obtain t p where c: "c = (t, p)" by force
  have ok: "cue_ok c" "timing_ok t" "payload_ok p" using assms(1) c by (simp_all add: shown_cue_def cue_ok_def)
  note t = timing_ok_facts [OF ok(2)]
  obtain a e s where timing: "t = rendered_timing a e s" "a < e" "e \<le> u64_max" "settings_ok s"
    using ok(2) by (auto simp: timing_ok_def)
  have solid: "solid (cue_text c)" by (rule cue_block(1) [OF ok(1)])
  have "cr \<noteq> lf" by (simp add: cr_def lf_def)
  then have "cr \<notin> set (cue_text c)" using t(4) ok(3) c by (simp add: cue_text_def payload_ok_def)
  then have lines: "text_lines (cue_text c) = t # split_on lf p"
    using solid_lines [OF solid] t(3) c by (simp add: cue_text_def split_on_append)
  have index: "timing_index (t # ls) = Some 0" for ls using t(5) by (simp add: timing_index_def)
  have flush: "flush_srt_cue out q = Inr (out @ pending_text q, pending_count q)"
    by (rule flush_shown) (use assms(2,3) in auto)
  have payload: "escape_arrows (join [lf] (split_on lf p)) = p" using no_escape ok(3) by (simp add: join_split_on payload_ok_def)
  have read: "caption_timing t True = Inr (a, e, s)"
    unfolding timing(1) by (rule rendered_timing_read) (use timing in auto)
  have len: "length (out @ pending_text q) + (length t + length p) \<le> MAX_CAPTION_OUTPUT"
    using assms(3) c by (simp add: cue_text_def)
  then have growth: "check_output_growth (length (out @ pending_text q)) (saturating_add usize_max (length t) (length p)) = Inr ()"
    using growth_ok [OF len] by (simp add: sat_small)
  have whole: "millis_vtt a @ '' --> '' @ millis_vtt e @ s = t" by (simp add: timing(1) rendered_timing_def)
  show ?thesis
    unfolding srt_block_def Let_def solid_trim [OF solid] lines index
    using flush read growth timing(2) payload c
    by (simp add: open_srt_cue_def Let_def whole [simplified] del: length_append)
qed

lemma srt_cue_blocks:
  assumes "\<forall>c\<in>set cs. shown_cue c" "\<forall>c. q = Some c \<longrightarrow> shown_cue c"
    "length (out @ pending_text q @ concat (map (\<lambda>c. cue_text c @ blank_line) cs)) \<le> MAX_CAPTION_OUTPUT"
  shows "\<exists>st. srt_blocks (map cue_text cs) \<lparr>st_output = out, st_cues = n, st_pending = q\<rparr> = Inr st \<and>
    (\<forall>c. st_pending st = Some c \<longrightarrow> shown_cue c) \<and>
    st_output st @ pending_text (st_pending st) = out @ pending_text q @ concat (map (\<lambda>c. cue_text c @ blank_line) cs) \<and>
    st_cues st + pending_count (st_pending st) = n + pending_count q + length cs"
  using assms
proof (induction cs arbitrary: out n q)
  case (Cons c cs)
  have block: "srt_block (cue_text c) \<lparr>st_output = out, st_cues = n, st_pending = q\<rparr> =
      Inr \<lparr>st_output = out @ pending_text q, st_cues = n + pending_count q, st_pending = Some c\<rparr>"
    by (rule srt_cue_block) (use Cons.prems in auto)
  have "\<forall>c'. Some c = Some c' \<longrightarrow> shown_cue c'" using Cons.prems(1) by simp
  moreover have "length ((out @ pending_text q) @ pending_text (Some c) @ concat (map (\<lambda>c. cue_text c @ blank_line) cs)) \<le> MAX_CAPTION_OUTPUT"
    using Cons.prems(3) by (simp add: pending_text_def)
  ultimately show ?case
    using Cons.IH [of "Some c" "out @ pending_text q" "n + pending_count q"] Cons.prems(1) block
    by (auto simp: pending_text_def pending_count_def)
qed simp

lemma srt_cues_kept:
  assumes "cues \<noteq> []" "\<forall>c\<in>set cues. shown_cue c" "length (cue_document cues) \<le> MAX_CAPTION_OUTPUT"
  shows "srt_to_webvtt (concat (map (\<lambda>c. cue_text c @ blank_line) cues)) = Inr (cue_document cues)"
proof -
  let ?body = "concat (map (\<lambda>c. cue_text c @ blank_line) cues)"
  have ok: "\<forall>c\<in>set cues. cue_ok c" using assms(2) by (simp add: shown_cue_def)
  have "solid ''WEBVTT''" by (rule solid_line) (simp_all add: lf_def)
  then have "split_once_str blank_line (''WEBVTT'' @ blank_line @ ?body) = Some (''WEBVTT'', ?body)"
    by (intro split_once_str_here solid_no_blank_after) (simp_all add: blank_line_def)
  then have "split_str blank_line (cue_document cues) = ''WEBVTT'' # split_str blank_line ?body"
    by (intro split_str_Some) (simp_all add: cue_document_def vtt_header_def blank_line_def)
  then have split: "split_str blank_line ?body = map cue_text cues @ [[]]" using split_document [OF ok] by simp
  have blocks: "filter (\<lambda>b. trim b \<noteq> []) (split_str blank_line ?body) = map cue_text cues"
    unfolding split using ok cue_text_shown by (auto simp: filter_id_conv)
  have "length (vtt_header @ pending_text None @ ?body) \<le> MAX_CAPTION_OUTPUT"
    using assms(3) by (simp add: cue_document_def pending_text_def)
  from srt_cue_blocks [OF assms(2) _ this, of 0] obtain st where st:
      "srt_blocks (map cue_text cues) \<lparr>st_output = vtt_header, st_cues = 0, st_pending = None\<rparr> = Inr st"
      "\<forall>c. st_pending st = Some c \<longrightarrow> shown_cue c"
      "st_output st @ pending_text (st_pending st) = cue_document cues"
      "st_cues st + pending_count (st_pending st) = length cues"
    by (auto simp: pending_text_def pending_count_def cue_document_def)
  have "flush_srt_cue (st_output st) (st_pending st) = Inr (cue_document cues, pending_count (st_pending st))"
    using flush_shown [OF st(2), of "st_output st"] st(3) assms(3) by simp
  moreover have "0 < st_cues st + pending_count (st_pending st)" unfolding st(4) using assms(1) by simp
  ultimately show ?thesis unfolding srt_to_webvtt_def blocks using st(1) by simp
qed

subsection \<open>All conversions\<close>

text \<open>
  C6: A converted caption is a valid WebVTT file. Whatever the bytes of the sidecar are, a conversion that
  succeeds gives at most 96 MiB that the program's own validator accepts; and what the SubRip, SubStation
  Alpha and SAMI converters write is a list of cues, each with a start before its end and a text that is
  not empty, has no blank line and no arrow: no caption can end its cue early or start another one.
\<close>

theorem caption_conversion_valid:
  assumes "caption_to_webvtt conversion body = Inr out"
  shows "length out \<le> MAX_CAPTION_OUTPUT \<and> (\<exists>out'. validate_webvtt out = Inr out') \<and>
    (conversion \<noteq> ValidateWebVtt \<longrightarrow> (\<exists>cues. out = cue_document cues \<and> (\<forall>c\<in>set cues. cue_ok c)))"
proof -
  obtain v where v: "caption_text_of body = Inr v" "length body \<le> MAX_CAPTION_INPUT"
    using assms by (auto simp: caption_to_webvtt_def bind_res_def split: if_splits sum.splits)
  note plain = plain_length [OF v(1)]
  have run: "(case conversion of ValidateWebVtt \<Rightarrow> validate_webvtt v | SubRipToWebVtt \<Rightarrow> srt_to_webvtt v
      | SubStationAlphaToWebVtt \<Rightarrow> ass_to_webvtt v | SamiToWebVtt \<Rightarrow> smi_to_webvtt v) = Inr out"
    using assms v by (simp add: caption_to_webvtt_def)
  show ?thesis
  proof (cases "conversion = ValidateWebVtt")
    case True
    then have out: "validate_webvtt v = Inr out" using run by simp
    have "length out \<le> MAX_CAPTION_OUTPUT"
      using validated_length [OF out] plain(1) v(2) by (simp add: MAX_CAPTION_OUTPUT_def MAX_CAPTION_INPUT_def)
    then show ?thesis using validated_valid [OF out plain(2)] True by simp
  next
    case False
    then have "documents out" using run srt_documents [OF _ plain(2)] ass_documents smi_documents by (cases conversion) auto
    then show ?thesis using documents_valid by (auto simp: documents_def)
  qed
qed

lemma sample_cue: "shown_cue (rendered_timing 1000 2500 [], ''Go'')"
proof -
  have "timing_ok (rendered_timing 1000 2500 [])"
    unfolding timing_ok_def by (intro exI [of _ 1000] exI [of _ 2500] exI [of _ "[]"]) (simp add: settings_ok_def has_arrow_def u64_max_def)
  moreover have "payload_ok ''Go''" by (simp add: payload_ok_def solid_line lf_def cr_def has_arrow_def)
  moreover have "trim ''Go'' \<noteq> []" by code_simp
  ultimately show ?thesis by (simp add: shown_cue_def cue_ok_def)
qed

lemma sample_millis: "rendered_timing 1000 2500 [] = ''00:00:01.000 --> 00:00:02.500''"
  by (simp add: rendered_timing_def millis_vtt_def zero_pad_def decimal_eval numeral_2_eq_2)

lemma sample_size: "length (cue_document [(rendered_timing 1000 2500 [], ''Go'')]) = 42"
  by (simp add: cue_document_def cue_text_def vtt_header_def blank_line_def sample_millis)

lemma sample_plain:
  "caption_text_of (cue_text (rendered_timing 1000 2500 [], ''Go'') @ blank_line) =
     Inr (cue_text (rendered_timing 1000 2500 [], ''Go'') @ blank_line)"
  unfolding cue_text_def sample_millis by code_simp

text \<open>
  The SubRip converter keeps every well-formed cue: for any list of cues in the form of WebVTT, each with
  a positive time, perhaps settings, and a text that is not blank, the result is the WebVTT document of
  exactly these cues in their order.
\<close>

theorem srt_keeps_cues:
  assumes "cues \<noteq> []" "\<forall>c\<in>set cues. shown_cue c" "length (cue_document cues) \<le> MAX_CAPTION_OUTPUT"
  shows "srt_to_webvtt (concat (map (\<lambda>c. cue_text c @ blank_line) cues)) = Inr (cue_document cues)"
  by (rule srt_cues_kept [OF assms])

lemma srt_keeps_cues_witness:
  "srt_to_webvtt (concat (map (\<lambda>c. cue_text c @ blank_line) [(rendered_timing 1000 2500 [], ''Go'')])) =
     Inr (cue_document [(rendered_timing 1000 2500 [], ''Go'')])"
proof (rule srt_keeps_cues)
  show "length (cue_document [(rendered_timing 1000 2500 [], ''Go'')]) \<le> MAX_CAPTION_OUTPUT"
    using sample_size by (simp add: max_output)
qed (use sample_cue in simp_all)

lemma caption_conversion_valid_witness:
  "\<exists>out. caption_to_webvtt SubRipToWebVtt (cue_text (rendered_timing 1000 2500 [], ''Go'') @ blank_line) = Inr out \<and>
     length out \<le> MAX_CAPTION_OUTPUT \<and> (\<exists>out'. validate_webvtt out = Inr out')"
proof -
  let ?c = "(rendered_timing 1000 2500 [], ''Go'')"
  let ?s = "cue_text ?c @ blank_line"
  have srt: "srt_to_webvtt ?s = Inr (cue_document [?c])"
    using srt_cues_kept [of "[?c]"] sample_cue sample_size by (simp add: max_output)
  have plain: "caption_text_of ?s = Inr ?s" by (rule sample_plain)
  have "length ?s \<le> MAX_CAPTION_INPUT" using sample_size by (simp add: cue_document_def MAX_CAPTION_INPUT_def)
  then have out: "caption_to_webvtt SubRipToWebVtt ?s = Inr (cue_document [?c])"
    using srt plain by (simp add: caption_to_webvtt_def)
  from caption_conversion_valid [OF out] out show ?thesis by blast
qed

end
