(* ===== verification/Spec2Isabelle.thy ===== *)
theory Spec2Isabelle
  imports Search_Properties Soap_Xml Soap_Filter_Sort Didl_Reader Browse_Response Helper_Gate
    Event_Hub Notify_Queue Event_Messages Xml_Escape Url_Paths Media_Formats Http_Service Advertised_Urls
    Client_Cache Compact_Metadata Calendar Catalog_Mirrors Bookmark_Safety Ssdp_Properties
    Query_Pages Soap_Pages Transcode_Rules Ffmpeg_Shape Cache_Key_Safety Cache_Accounting
    Mp4_Signal Caption_Property
begin

text \<open>
  A verification library for rustyDLNA, a DLNA/UPnP media server written in Rust.

  \<^bold>\<open>The program.\<close> A control point finds the server by SSDP, reads its description documents, and
  then talks HTTP to it: SOAP calls against the ContentDirectory (browse and search of a media
  catalogue), GENA event subscriptions with NOTIFY deliveries in the other direction, and media
  requests with byte ranges. The crates are \<open>protocol\<close> (pure protocol vocabulary), \<open>http\<close>
  (request parser, routing, responses), \<open>soap\<close> (criteria, filters, DIDL-Lite and dispatch),
  \<open>ssdp\<close>, \<open>scan\<close> (catalogue), \<open>transcode\<close>, \<open>helper\<close> (child processes behind admission
  gates) and \<open>server\<close>, which connects them.

  \<^bold>\<open>How the code is modelled.\<close> A Rust \<open>str\<close> or byte slice is a HOL string, one character per
  byte, so that every length and offset is the source's. \<open>Result\<close> is a sum with the error on the
  left and \<open>?\<close> is \<open>bind_res\<close>. Sizes (\<open>usize\<close>, \<open>u64\<close>) are naturals with their bound, their
  checked and their saturating operations written out; words that wrap (event keys, tickets, update
  ids, flag sets) are machine words. Clocks, sockets, the file system, random identifiers and
  third-party libraries are inputs: arguments of the operation, or the data of an event. A hash map
  whose iteration order is visible is an association list in that order, the others are maps.

  \<^bold>\<open>The library.\<close>
  \<^item> \<open>Prelude\<close>, \<open>Text_Ops\<close>, \<open>Decimal\<close>, \<open>Utf8\<close>: the standard-library operations the sources
    use (results, bytes, trimming, splitting, searching, decimal numerals, UTF-8), and their laws.
  \<^item> \<open>Contracts\<close>: the interfaces, as locales, each interpreted on the components that provide it:
    codecs and field codecs, writers with a byte budget, and systems of steps with an invariant.
  \<^item> \<open>Http_Syntax\<close>, \<open>Http_Request\<close>, \<open>Byte_Range\<close>, \<open>Http_Response\<close>, \<open>Http_Service\<close>
    (\<open>crates/http\<close>, \<open>protocol/src/http_syntax.rs\<close>, \<open>persist.rs\<close>): the request head parser
    and what it excludes; range headers and the bytes they select; routing, responses and their wire
    form; and the path of a range request through all of them.
  \<^item> \<open>Soap_Search\<close>, \<open>Soap_Search_Parse\<close>, \<open>Search_Properties\<close>
    (\<open>crates/soap/src/search.rs\<close>): search criteria from text to the query the catalogue
    evaluates, against an abstract meaning of expressions.
  \<^item> \<open>Soap_Filter_Sort\<close>, \<open>Soap_Xml\<close> (\<open>crates/soap/src/filter.rs\<close>, \<open>sort.rs\<close>, \<open>lib.rs\<close>):
    filters, sort criteria and the SOAP request parser.
  \<^item> \<open>Didl\<close>, \<open>Didl_Reader\<close>, \<open>Browse_Response\<close> (\<open>crates/soap/src/lib.rs\<close>): the DIDL-Lite text
    of a page, a reader that gets the catalogue's values back from it, and the response builder that
    stops at a size.
  \<^item> \<open>Soap_Dispatch\<close>, \<open>Soap_Update\<close> (\<open>crates/soap/src/lib.rs\<close>): the actions that need no
    catalogue, the faults, the object ids of particular renderers, and the tag lists of
    \<open>UpdateObject\<close>.
  \<^item> \<open>Soap_Items\<close>, \<open>Page_Cache\<close>, \<open>Soap_Service\<close>, \<open>Soap_Answers\<close>, \<open>Soap_Pages\<close>
    (\<open>server/src/http_app.rs\<close>, \<open>lib.rs\<close>): the SOAP endpoint over all of these: catalogue rows as
    DIDL objects, the cache of query pages, the handler from the request to the response, that it always
    answers, and that a Browse or Search answers with the rows it denotes in the catalogue it held.
  \<^item> \<open>Root_Desc\<close>, \<open>Advertised_Urls\<close> (\<open>http/src/desc.rs\<close>, \<open>server/src/http_app.rs\<close>): the
    description documents with a reader of their texts; that the actions they declare are those the SOAP
    endpoint names; and that every URL of the location, the root
    description and the items is routed back to what it stands for.
  \<^item> \<open>Object_Ids\<close>, \<open>Media_Items\<close>, \<open>Recent_View\<close>, \<open>Catalog\<close>, \<open>Catalog_Views\<close>,
    \<open>Catalog_Mirrors\<close> (\<open>protocol/src/object_id.rs\<close>, \<open>scan/src/metadata.rs\<close>,
    \<open>scan/src/catalog.rs\<close>): the request-time catalogue as a record of association lists, its
    construction, the patches of the scanner, the Recently Added cache, pages, counts and lookups.
    \<open>Catalog_Patch\<close>, \<open>Catalog_Invariant\<close>, \<open>Catalog_Views\<close>, \<open>Catalog_Recent\<close> and
    \<open>Catalog_Links\<close> hold what is proved of them: what a patch leaves of old and new rows, the
    invariant of all operations, pages as slices of one sorted list, the one-pass view against the
    sorted one, and two states in which a patch loses sight of the database.
  \<^item> \<open>Query_Control\<close>, \<open>Query_Sort\<close>, \<open>Query_Memory\<close>, \<open>Query_Results\<close>,
    \<open>Query_Pages\<close> (\<open>server/src/catalog_query.rs\<close>): queries under a control that can stop them at
    every check: admission, the checked merge sort against the library's stable sort, Browse pages and
    searches in memory against the rows they denote.
  \<^item> \<open>Bookmarks\<close>, \<open>Bookmark_Safety\<close> (\<open>server/src/http_app.rs\<close>, \<open>scan/src/db.rs\<close>): the two
    bookmark actions from the call to the store and the event, as a compare-and-swap on an abstract
    store, with the invariant that the catalogue shows what is stored.
  \<^item> \<open>Event_Hub\<close>, \<open>Notify_Queue\<close>, \<open>Ipv4_Text\<close>, \<open>Event_Messages\<close>
    (\<open>crates/server/src/events.rs\<close>): the subscriber table, the notification queue with its
    workers as a system of steps, and the messages.
  \<^item> \<open>Ssdp\<close>, \<open>Ssdp_Properties\<close> (\<open>crates/ssdp/src/lib.rs\<close>, \<open>protocol/src/ssdp.rs\<close>): the
    packets of the announcements and of the replies, line by line, the search parser and the choice of
    replies, and the parser of renderers' announcements.
  \<^item> \<open>Helper_Gate\<close> (\<open>crates/helper/src/gate.rs\<close>): the two admission gates as systems of steps.
  \<^item> \<open>Clients\<close>, \<open>Client_Cache\<close> (\<open>protocol/src/clients.rs\<close>, \<open>client_cache.rs\<close>): the renderer
    profile table and the cache of renderers by address.
  \<^item> \<open>Compact_Field\<close>, \<open>Compact_Metadata\<close> (\<open>protocol/src/stream_metadata.rs\<close>): the record
    format in which probed streams are stored, with its escaping and its byte budget.
  \<^item> \<open>Transcode_Plan\<close>, \<open>Transcode_Rules\<close> (\<open>crates/transcode/src/lib.rs\<close>): how a title is
    delivered: sources, qualities, remap rules and the plans they give.
  \<^item> \<open>Ffmpeg_Args\<close>, \<open>Ffmpeg_Shape\<close> (\<open>crates/transcode/src/lib.rs\<close>): the
    argument vectors of ffmpeg, edited by searching for flags, and what every edit keeps of them.
  \<^item> \<open>Cache_Keys\<close>, \<open>Cache_Key_Safety\<close>, \<open>Cache_Names\<close>
    (\<open>crates/transcode/src/lib.rs\<close>, \<open>server/src/remux/cache.rs\<close>): the keys of cached outputs, that
    a key determines the command, and the names maintenance recognises.
  \<^item> \<open>Cache_Maintenance\<close>, \<open>Cache_Eviction\<close>, \<open>Cache_Accounting\<close>
    (\<open>server/src/remux/cache.rs\<close>): the inventory of the cache directory and its eviction.
  \<^item> \<open>Mp4_Boxes\<close>, \<open>Mp4_Search\<close>, \<open>Mp4_Signal\<close> (\<open>crates/transcode/src/lib.rs\<close>): the
    Dolby Vision configuration put into a finished MP4 file in place: the box parser and the search for
    the sample entry, the move of the tail in chunks, and the edited file read back by the same search.
  \<^item> \<open>Caption_Text\<close>, \<open>Caption_Convert\<close>, \<open>Caption_Lines\<close>, \<open>Caption_Valid\<close>, \<open>Caption_Property\<close>
    (\<open>server/src/web_caption.rs\<close>): sidecar captions for the browser: decoding, the WebVTT validator,
    the SubRip, SubStation Alpha and SAMI converters, and that every conversion gives a bounded document
    of whole cues that the validator accepts.
  \<^item> \<open>Xml_Escape\<close>, \<open>Url_Paths\<close>, \<open>Media_Formats\<close>, \<open>Calendar\<close> (\<open>protocol/src/xml.rs\<close>,
    \<open>paths.rs\<close>, \<open>media_format.rs\<close>, \<open>date.rs\<close> and their neighbours): escaping, URLs, formats
    and dates.

  \<^bold>\<open>Bounds and fuel.\<close> The search parser is the only definition with fuel: \<open>parse_or\<close> and its
  mutual partners take a fuel computed from the number of tokens, and a property of
  \<open>Search_Properties\<close> shows that it is never used up.
  The walk to a folder's ancestors in \<open>Catalog_Mirrors\<close> may run for ever on a cyclic catalogue and
  is a partial function; the theory says when it returns. All other loops are structural recursions or
  have a termination proof.

  \<^bold>\<open>Not modelled.\<close> Sockets, threads, SQLite, ffmpeg and the file system: what they do is not in the
  repository. The scanner and its watcher, the media probes, the jobs that drive ffmpeg and the remux
  cache's directories, delivery over sockets, start-up and shutdown, the status pages and the rest of
  the browser interface are sequences of such calls, or templates around them; what they decide by pure rules (plans,
  command lines, keys, eviction, ranges, headers) is modelled where the rules are. Within the modelled
  parts the answers of these libraries are inputs, and the properties hold for all of them.
\<close>

end
